(* ===== verification/Prelude.thy ===== *)
theory Prelude
  imports Main "HOL-Library.Word"
begin

text \<open>
  Shared vocabulary of the Nachos development.

  \<^item> \<open>stop\<close> and \<open>'a result\<close>: a C++ function that may fail an \<open>ASSERT\<close> (which calls
    \<open>Abort\<close>), shut the machine down (\<open>Interrupt::Halt\<close>) or run into undefined behaviour
    (a null or dangling pointer, an index outside an array) is modelled by a function into
    \<open>'a result\<close>; \<open>Inl\<close> says why execution stopped, \<open>Inr\<close> carries the value.
  \<^item> \<open>rbind\<close> sequences such functions, \<open>ASSERT\<close> is the macro of \<open>threads/utility.h\<close>.
  \<^item> Generic facts on lists, least indices and words that several components share.
\<close>

named_theorems result_simps \<open>evaluation of sequenced results\<close>
named_theorems frame_simps \<open>what an operation leaves unchanged\<close>

section \<open>Stopping, assertions, sequencing\<close>

datatype stop = Abort | Halted | Undefined

type_synonym 'a result = "stop + 'a"

definition rbind :: "'a result \<Rightarrow> ('a \<Rightarrow> 'b result) \<Rightarrow> 'b result" where
  "rbind r f = (case r of Inl e \<Rightarrow> Inl e | Inr x \<Rightarrow> f x)"

definition ASSERT :: "bool \<Rightarrow> unit result" where
  "ASSERT condition = (if condition then Inr () else Inl Abort)"

lemma rbind_Inl [simp, result_simps]: "rbind (Inl e) f = Inl e"
  by (simp add: rbind_def)

lemma rbind_Inr [simp, result_simps]: "rbind (Inr x) f = f x"
  by (simp add: rbind_def)

lemma rbind_eq_Inr [result_simps]:
  "rbind r f = Inr y \<longleftrightarrow> (\<exists>x. r = Inr x \<and> f x = Inr y)"
  by (cases r) auto

lemma rbind_assoc: "rbind (rbind r f) g = rbind r (\<lambda>x. rbind (f x) g)"
  by (cases r) auto

lemma rbind_Inr_right [simp]: "rbind r Inr = r"
  by (cases r) auto

lemma ASSERT_simps [simp, result_simps]:
  "ASSERT True = Inr ()" "ASSERT False = Inl Abort"
  by (simp_all add: ASSERT_def)

lemma ASSERT_eq_Inr [simp]: "ASSERT c = Inr u \<longleftrightarrow> c"
  by (simp add: ASSERT_def)

lemma ASSERT_eq_Inl [simp]: "ASSERT c = Inl e \<longleftrightarrow> \<not> c \<and> e = Abort"
  by (auto simp: ASSERT_def)

lemma rbind_cong [fundef_cong]:
  "r = r' \<Longrightarrow> (\<And>x. r' = Inr x \<Longrightarrow> f x = g x) \<Longrightarrow> rbind r f = rbind r' g"
  by (cases r') auto

text \<open>\<open>for_each body [a..<b]\<close> is the loop \<open>for (i = a; i < b; i++) body(i)\<close>.\<close>

primrec for_each :: "('i \<Rightarrow> 's \<Rightarrow> 's result) \<Rightarrow> 'i list \<Rightarrow> 's \<Rightarrow> 's result" where
  "for_each body [] s = Inr s"
| "for_each body (i # is) s = rbind (body i s) (for_each body is)"

lemma for_each_append: "for_each body (xs @ ys) s = rbind (for_each body xs s) (for_each body ys)"
  by (induction xs arbitrary: s) (auto simp: rbind_def split: sum.split)

section \<open>Rounding division\<close>

text \<open>The macros of \<open>threads/utility.h\<close>; every call in the code has non-negative operands.\<close>

definition divRoundDown :: "nat \<Rightarrow> nat \<Rightarrow> nat" where
  "divRoundDown n s = n div s"

definition divRoundUp :: "nat \<Rightarrow> nat \<Rightarrow> nat" where
  "divRoundUp n s = n div s + (if n mod s > 0 then 1 else 0)"

lemma divRoundUp_ge:
  assumes "0 < s"
  shows "n \<le> divRoundUp n s * s"
proof -
  have "n mod s < s" using assms by simp
  moreover note mult_div_mod_eq [of s n]
  moreover have "divRoundUp n s * s = s * (n div s) + (if 0 < n mod s then s else 0)"
    by (simp add: divRoundUp_def algebra_simps)
  ultimately show ?thesis by (cases "0 < n mod s"; simp only: if_True if_False simp_thms; linarith)
qed

lemma divRoundUp_less:
  assumes "0 < s"
  shows "divRoundUp n s * s < n + s"
proof -
  note assms
  moreover note mult_div_mod_eq [of s n]
  moreover have "divRoundUp n s * s = s * (n div s) + (if 0 < n mod s then s else 0)"
    by (simp add: divRoundUp_def algebra_simps)
  ultimately show ?thesis by (cases "0 < n mod s"; simp only: if_True if_False simp_thms; linarith)
qed

lemma div_less_divRoundUp: "0 < s \<Longrightarrow> i < n \<Longrightarrow> i div s < divRoundUp n s"
proof -
  assume s: "0 < s" and i: "i < n"
  from i divRoundUp_ge [OF s, of n] have "i < divRoundUp n s * s" by linarith
  with s show ?thesis by (simp add: less_mult_imp_div_less)
qed

section \<open>Lists\<close>

lemma distinct_snoc: "distinct (xs @ [x]) \<longleftrightarrow> distinct xs \<and> x \<notin> set xs"
  by auto

lemma filter_none: "(\<And>x. x \<in> set xs \<Longrightarrow> \<not> P x) \<Longrightarrow> filter P xs = []"
  by (induction xs) auto

section \<open>Bytes in memory\<close>

type_synonym bytes = "8 word list"

text \<open>\<open>bcopy\<close> and \<open>read\<close> into memory at address \<open>a\<close>, and the \<open>n\<close> bytes that start there.\<close>

definition overwrite :: "nat \<Rightarrow> bytes \<Rightarrow> (nat \<Rightarrow> 8 word) \<Rightarrow> nat \<Rightarrow> 8 word" where
  "overwrite a bs mem = (\<lambda>x. if a \<le> x \<and> x < a + length bs then bs ! (x - a) else mem x)"

definition read_bytes :: "nat \<Rightarrow> nat \<Rightarrow> (nat \<Rightarrow> 8 word) \<Rightarrow> bytes" where
  "read_bytes n a mem = map (\<lambda>i. mem (a + i)) [0..<n]"

lemma overwrite_outside: "x < a \<or> a + length bs \<le> x \<Longrightarrow> overwrite a bs mem x = mem x"
  by (auto simp: overwrite_def)

lemma length_read_bytes [simp]: "length (read_bytes n a mem) = n"
  by (simp add: read_bytes_def)

lemma nth_read_bytes [simp]: "i < n \<Longrightarrow> read_bytes n a mem ! i = mem (a + i)"
  by (simp add: read_bytes_def)

lemma read_bytes_overwrite_same: "length bs = n \<Longrightarrow> read_bytes n a (overwrite a bs mem) = bs"
  by (rule nth_equalityI) (simp_all add: overwrite_def)

lemma read_bytes_overwrite_other: "b + n \<le> a \<or> a + length bs \<le> b \<Longrightarrow> read_bytes n b (overwrite a bs mem) = read_bytes n b mem"
  by (rule nth_equalityI) (auto simp: overwrite_def)

end
