(* ===== verification/Nachos_List.thy ===== *)
theory Nachos_List
  imports Prelude "HOL-Library.Multiset"
begin

text \<open>
  The singly linked list of \<open>threads/list.cc\<close>, at the level of its pointers.

  A \<open>store\<close> is the part of the C++ heap that holds \<open>ListElement\<close> objects; \<open>brk\<close> is the
  next address \<open>new\<close> returns. A \<open>void *\<close> item is an \<open>'a option\<close> with \<open>None\<close> for
  \<open>NULL\<close>. An operation yields \<open>None\<close> when the C++ code would follow a null or dangling
  pointer or run around a cycle for ever; the theorems show that none of this happens on a
  well-formed list and that the operations implement the list of (key, item) pairs
  \<open>contents\<close>. The rest of the development uses that list as the queue's state.

  The locales \<open>fifo_queue\<close> and \<open>sorted_queue\<close> are the contract the scheduler, the
  synchronisation primitives and the interrupt simulation rely on; they are interpreted on the
  pointer operations at the end.
\<close>

section \<open>The code\<close>

record 'a ListElement =
  elt_next :: "nat option"
  elt_key :: int
  elt_item :: "'a option"

record 'a store =
  cells :: "nat \<Rightarrow> 'a ListElement option"
  brk :: nat

record nlist =
  lfirst :: "nat option"
  llast :: "nat option"

type_synonym 'a list_state = "'a store \<times> nlist"

definition new_ListElement :: "'a option \<Rightarrow> int \<Rightarrow> 'a store \<Rightarrow> nat \<times> 'a store" where
  "new_ListElement itemPtr sortKey h =
     (brk h, h\<lparr>cells := (cells h)(brk h \<mapsto> \<lparr>elt_next = None, elt_key = sortKey, elt_item = itemPtr\<rparr>),
              brk := Suc (brk h)\<rparr>)"

definition set_next :: "nat \<Rightarrow> nat option \<Rightarrow> 'a store \<Rightarrow> 'a store option" where
  "set_next a p h = (case cells h a of None \<Rightarrow> None
     | Some e \<Rightarrow> Some (h\<lparr>cells := (cells h)(a \<mapsto> e\<lparr>elt_next := p\<rparr>)\<rparr>))"

definition List_new :: nlist where
  "List_new = \<lparr>lfirst = None, llast = None\<rparr>"

definition List_IsEmpty :: "nlist \<Rightarrow> bool" where
  "List_IsEmpty l \<longleftrightarrow> lfirst l = None"

text \<open>\<open>last->next = element; last = element;\<close>\<close>

definition link_last :: "nat \<Rightarrow> 'a list_state \<Rightarrow> 'a list_state option" where
  "link_last a st = (case st of (h, l) \<Rightarrow>
     (case llast l of None \<Rightarrow> None
      | Some z \<Rightarrow> Option.bind (set_next z (Some a) h) (\<lambda>h'. Some (h', l\<lparr>llast := Some a\<rparr>))))"

definition List_Append :: "'a option \<Rightarrow> 'a list_state \<Rightarrow> 'a list_state option" where
  "List_Append item st = (case st of (h, l) \<Rightarrow>
     let (a, h1) = new_ListElement item 0 h
     in if List_IsEmpty l then Some (h1, \<lparr>lfirst = Some a, llast = Some a\<rparr>)
        else link_last a (h1, l))"

text \<open>\<open>element->next = first; first = element;\<close>\<close>

definition link_first :: "nat \<Rightarrow> 'a list_state \<Rightarrow> 'a list_state option" where
  "link_first a st = (case st of (h, l) \<Rightarrow>
     Option.bind (set_next a (lfirst l) h) (\<lambda>h'. Some (h', l\<lparr>lfirst := Some a\<rparr>)))"

definition List_Prepend :: "'a option \<Rightarrow> 'a list_state \<Rightarrow> 'a list_state option" where
  "List_Prepend item st = (case st of (h, l) \<Rightarrow>
     let (a, h1) = new_ListElement item 0 h
     in if List_IsEmpty l then Some (h1, \<lparr>lfirst = Some a, llast = Some a\<rparr>)
        else link_first a (h1, l))"

text \<open>The \<open>for\<close> loop of \<open>List::SortedInsert\<close>, with the element \<open>a\<close> to insert and \<open>ptr = p\<close>.\<close>

partial_function (option) insert_loop ::
  "int \<Rightarrow> nat \<Rightarrow> nat \<Rightarrow> 'a list_state \<Rightarrow> 'a list_state option" where
  "insert_loop sortKey a p st = (case st of (h, l) \<Rightarrow>
     (case cells h p of None \<Rightarrow> None
      | Some e \<Rightarrow>
        (case elt_next e of None \<Rightarrow> link_last a (h, l)
         | Some n \<Rightarrow>
           (case cells h n of None \<Rightarrow> None
            | Some en \<Rightarrow>
              if sortKey < elt_key en
              then Option.bind (set_next a (Some n) h)
                     (\<lambda>h1. Option.bind (set_next p (Some a) h1) (\<lambda>h2. Some (h2, l)))
              else insert_loop sortKey a n (h, l)))))"

definition List_SortedInsert :: "'a option \<Rightarrow> int \<Rightarrow> 'a list_state \<Rightarrow> 'a list_state option" where
  "List_SortedInsert item sortKey st = (case st of (h, l) \<Rightarrow>
     let (a, h1) = new_ListElement item sortKey h
     in case lfirst l of
          None \<Rightarrow> Some (h1, \<lparr>lfirst = Some a, llast = Some a\<rparr>)
        | Some f \<Rightarrow>
          (case cells h1 f of None \<Rightarrow> None
           | Some e \<Rightarrow> if sortKey < elt_key e then link_first a (h1, l)
                       else insert_loop sortKey a f (h1, l)))"

text \<open>The returned pair is the item and the key stored through \<open>keyPtr\<close> (none for an empty list).\<close>

definition List_SortedRemove ::
  "'a list_state \<Rightarrow> (('a option \<times> int option) \<times> 'a list_state) option" where
  "List_SortedRemove st = (case st of (h, l) \<Rightarrow>
     (case lfirst l of
        None \<Rightarrow> Some ((None, None), (h, l))
      | Some a \<Rightarrow>
        (case cells h a of None \<Rightarrow> None
         | Some e \<Rightarrow>
           Some ((elt_item e, Some (elt_key e)),
                 (h\<lparr>cells := (cells h)(a := None)\<rparr>,
                  if lfirst l = llast l then \<lparr>lfirst = None, llast = None\<rparr>
                  else l\<lparr>lfirst := elt_next e\<rparr>)))))"

definition List_Remove :: "'a list_state \<Rightarrow> ('a option \<times> 'a list_state) option" where
  "List_Remove st = map_option (\<lambda>((item, _), st'). (item, st')) (List_SortedRemove st)"

text \<open>\<open>while (Remove() != NULL) ;\<close> of the destructor.\<close>

partial_function (option) List_delete :: "'a list_state \<Rightarrow> 'a list_state option" where
  "List_delete st = Option.bind (List_Remove st)
     (\<lambda>(item, st'). case item of None \<Rightarrow> Some st' | Some _ \<Rightarrow> List_delete st')"

text \<open>\<open>Mapcar\<close>: the function called on each item is a state transformer that leaves the list alone.\<close>

partial_function (option) mapcar_loop ::
  "('a option \<Rightarrow> 's \<Rightarrow> 's) \<Rightarrow> 'a store \<Rightarrow> nat option \<Rightarrow> 's \<Rightarrow> 's option" where
  "mapcar_loop func h ptr s = (case ptr of None \<Rightarrow> Some s
     | Some a \<Rightarrow> (case cells h a of None \<Rightarrow> None
        | Some e \<Rightarrow> mapcar_loop func h (elt_next e) (func (elt_item e) s)))"

definition List_Mapcar :: "('a option \<Rightarrow> 's \<Rightarrow> 's) \<Rightarrow> 'a list_state \<Rightarrow> 's \<Rightarrow> 's option" where
  "List_Mapcar func st s = (case st of (h, l) \<Rightarrow> mapcar_loop func h (lfirst l) s)"

section \<open>The abstract list\<close>

type_synonym 'a entry = "int \<times> 'a option"

text \<open>\<open>sorted_ins\<close> puts a pair before the first one with a bigger key.\<close>

fun sorted_ins :: "int \<Rightarrow> 'b \<Rightarrow> (int \<times> 'b) list \<Rightarrow> (int \<times> 'b) list" where
  "sorted_ins k x [] = [(k, x)]"
| "sorted_ins k x ((k', y) # ys) = (if k < k' then (k, x) # (k', y) # ys else (k', y) # sorted_ins k x ys)"

fun lseg :: "(nat \<Rightarrow> 'a ListElement option) \<Rightarrow> nat option \<Rightarrow> nat list \<Rightarrow> bool" where
  "lseg c p [] \<longleftrightarrow> p = None"
| "lseg c p (a # as) \<longleftrightarrow> p = Some a \<and> (\<exists>e. c a = Some e \<and> lseg c (elt_next e) as)"

fun walk :: "nat \<Rightarrow> (nat \<Rightarrow> 'a ListElement option) \<Rightarrow> nat option \<Rightarrow> nat list" where
  "walk 0 c p = []"
| "walk (Suc n) c None = []"
| "walk (Suc n) c (Some a) = (case c a of None \<Rightarrow> [] | Some e \<Rightarrow> a # walk n c (elt_next e))"

definition entries :: "(nat \<Rightarrow> 'a ListElement option) \<Rightarrow> nat list \<Rightarrow> 'a entry list" where
  "entries c as = map (\<lambda>a. (elt_key (the (c a)), elt_item (the (c a)))) as"

definition nodes :: "'a list_state \<Rightarrow> nat list" where
  "nodes st = (case st of (h, l) \<Rightarrow> walk (brk h) (cells h) (lfirst l))"

definition contents :: "'a list_state \<Rightarrow> 'a entry list" where
  "contents st = entries (cells (fst st)) (nodes st)"

definition is_nlist :: "'a list_state \<Rightarrow> nat list \<Rightarrow> bool" where
  "is_nlist st as = (case st of (h, l) \<Rightarrow>
     lseg (cells h) (lfirst l) as \<and> distinct as
     \<and> (as \<noteq> [] \<longrightarrow> llast l = Some (last as)) \<and> dom (cells h) \<subseteq> {..<brk h})"

definition list_inv :: "'a list_state \<Rightarrow> bool" where
  "list_inv st \<longleftrightarrow> is_nlist st (nodes st)"

text \<open>What an operation on one list promises about the others in the same heap.\<close>

definition keeps_other_cells :: "nat list \<Rightarrow> 'a store \<Rightarrow> 'a store \<Rightarrow> bool" where
  "keeps_other_cells as h h' \<longleftrightarrow> brk h \<le> brk h' \<and> (\<forall>b < brk h. b \<notin> set as \<longrightarrow> cells h' b = cells h b)"

section \<open>Paths through the heap\<close>

lemma lseg_cells: "lseg c p as \<Longrightarrow> a \<in> set as \<Longrightarrow> \<exists>e. c a = Some e"
  by (induction as arbitrary: p) auto

lemma lseg_upd [simp]: "a \<notin> set as \<Longrightarrow> lseg (c(a := v)) p as = lseg c p as"
  by (induction as arbitrary: p) auto

lemma entries_upd [simp]: "a \<notin> set as \<Longrightarrow> entries (c(a := v)) as = entries c as"
  by (auto simp: entries_def)

lemma entries_simps [simp]:
  "entries c [] = []"
  "entries c (a # as) = (elt_key (the (c a)), elt_item (the (c a))) # entries c as"
  "entries c (as @ bs) = entries c as @ entries c bs"
  by (simp_all add: entries_def)

lemma lseg_append_last:
  "lseg c p (as @ [z]) \<Longrightarrow> distinct (as @ [z]) \<Longrightarrow> a \<notin> set (as @ [z]) \<Longrightarrow> c z = Some e
   \<Longrightarrow> c a = Some ea \<Longrightarrow> elt_next ea = None
   \<Longrightarrow> lseg (c(z \<mapsto> e\<lparr>elt_next := Some a\<rparr>)) p (as @ [z, a])"
  by (induction as arbitrary: p) auto

lemma walk_lseg: "lseg c p as \<Longrightarrow> length as \<le> n \<Longrightarrow> walk n c p = as"
proof (induction n arbitrary: p as)
  case 0
  then show ?case by simp
next
  case (Suc n)
  then show ?case by (cases as) auto
qed

lemma is_nlist_nodes: "is_nlist st as \<Longrightarrow> nodes st = as"
proof -
  assume l: "is_nlist st as"
  obtain h l where st: "st = (h, l)" by (cases st)
  from l st have seg: "lseg (cells h) (lfirst l) as" and d: "distinct as"
    and dom: "dom (cells h) \<subseteq> {..<brk h}" by (auto simp: is_nlist_def)
  from lseg_cells [OF seg] dom have "set as \<subseteq> {..<brk h}" by blast
  then have "length as \<le> brk h"
    using d by (metis card_lessThan card_mono distinct_card finite_lessThan)
  with seg show ?thesis by (simp add: st nodes_def walk_lseg)
qed

lemma is_nlist_inv: "is_nlist st as \<Longrightarrow> list_inv st \<and> contents st = entries (cells (fst st)) as"
  by (simp add: list_inv_def contents_def is_nlist_nodes)

lemma list_invE:
  assumes "list_inv (h, l)"
  obtains as where "is_nlist (h, l) as" "contents (h, l) = entries (cells h) as"
  using assms by (auto simp: list_inv_def contents_def)

lemma is_nlist_fresh: "is_nlist (h, l) as \<Longrightarrow> brk h \<notin> set as \<and> cells h (brk h) = None"
  by (fastforce simp: is_nlist_def dest: lseg_cells)

section \<open>Each operation implements its abstract counterpart\<close>

lemma is_nlist_after_new:
  assumes "is_nlist (h, l) as"
  shows "is_nlist (snd (new_ListElement x k h), l) as"
    and "cells (snd (new_ListElement x k h)) (brk h) = Some \<lparr>elt_next = None, elt_key = k, elt_item = x\<rparr>"
    and "entries (cells (snd (new_ListElement x k h))) as = entries (cells h) as"
  using assms is_nlist_fresh [OF assms] by (auto simp: is_nlist_def new_ListElement_def)

lemma link_last_ok:
  assumes l: "is_nlist (h, l) as" and ne: "as \<noteq> []" and a: "a \<notin> set as"
    and ca: "cells h a = Some ea" "elt_next ea = None"
  shows "\<exists>h'. link_last a (h, l) = Some (h', l\<lparr>llast := Some a\<rparr>)
    \<and> is_nlist (h', l\<lparr>llast := Some a\<rparr>) (as @ [a])
    \<and> entries (cells h') (as @ [a]) = entries (cells h) (as @ [a]) \<and> keeps_other_cells (a # as) h h'"
proof -
  from ne obtain bs z where as: "as = bs @ [z]" by (metis rev_exhaust)
  from l as obtain e where z: "cells h z = Some e"
    by (force simp: is_nlist_def dest: lseg_cells)
  let ?h = "h\<lparr>cells := (cells h)(z \<mapsto> e\<lparr>elt_next := Some a\<rparr>)\<rparr>"
  have "link_last a (h, l) = Some (?h, l\<lparr>llast := Some a\<rparr>)"
    using l as z by (simp add: is_nlist_def link_last_def set_next_def)
  moreover have "is_nlist (?h, l\<lparr>llast := Some a\<rparr>) (as @ [a])"
    using l as z a ca lseg_append_last [of "cells h" "lfirst l" bs z a e ea]
    by (auto simp: is_nlist_def)
  moreover have "entries (cells ?h) (as @ [a]) = entries (cells h) (as @ [a])"
    using l as z a ca by (auto simp: is_nlist_def)
  ultimately show ?thesis using as by (auto simp: keeps_other_cells_def)
qed

lemma link_first_ok:
  assumes l: "is_nlist (h, l) as" and ne: "as \<noteq> []" and a: "a \<notin> set as"
    and ca: "cells h a = Some ea"
  shows "\<exists>h'. link_first a (h, l) = Some (h', l\<lparr>lfirst := Some a\<rparr>)
    \<and> is_nlist (h', l\<lparr>lfirst := Some a\<rparr>) (a # as)
    \<and> entries (cells h') (a # as) = entries (cells h) (a # as) \<and> keeps_other_cells (a # as) h h'"
  using assms
  by (auto simp: is_nlist_def link_first_def set_next_def keeps_other_cells_def)

lemma keeps_other_cells_new:
  "keeps_other_cells (brk h # as) (snd (new_ListElement x k h)) h' \<Longrightarrow> keeps_other_cells as h h'"
  by (auto simp: keeps_other_cells_def new_ListElement_def)

lemma new_ListElement_fst [simp]: "fst (new_ListElement x k h) = brk h"
  by (simp add: new_ListElement_def)

lemma single_ok:
  assumes "is_nlist (h, l) []"
  shows "is_nlist (snd (new_ListElement x k h), \<lparr>lfirst = Some (brk h), llast = Some (brk h)\<rparr>) [brk h]"
  using assms by (auto simp: is_nlist_def new_ListElement_def)

lemma Append_ok:
  assumes l: "is_nlist (h, l) as"
  shows "\<exists>h' l'. List_Append x (h, l) = Some (h', l') \<and> is_nlist (h', l') (as @ [brk h])
    \<and> entries (cells h') (as @ [brk h]) = entries (cells h) as @ [(0, x)] \<and> keeps_other_cells as h h'"
proof (cases "as = []")
  case True
  with l have "List_IsEmpty l" by (simp add: is_nlist_def List_IsEmpty_def)
  with single_ok [of h l x 0] l True show ?thesis
    by (auto simp: List_Append_def new_ListElement_def keeps_other_cells_def)
next
  case False
  then have "\<not> List_IsEmpty l"
    using l by (cases as) (auto simp: is_nlist_def List_IsEmpty_def)
  then show ?thesis
    using link_last_ok [OF is_nlist_after_new(1) [OF l, of x 0] False _ is_nlist_after_new(2) [OF l]]
      is_nlist_fresh [OF l] is_nlist_after_new [OF l, of x 0]
    by (auto simp: List_Append_def case_prod_beta dest!: keeps_other_cells_new)
qed

lemma Prepend_ok:
  assumes l: "is_nlist (h, l) as"
  shows "\<exists>h' l'. List_Prepend x (h, l) = Some (h', l') \<and> is_nlist (h', l') (brk h # as)
    \<and> entries (cells h') (brk h # as) = (0, x) # entries (cells h) as \<and> keeps_other_cells as h h'"
proof (cases "as = []")
  case True
  with l have "List_IsEmpty l" by (simp add: is_nlist_def List_IsEmpty_def)
  with single_ok [of h l x 0] l True show ?thesis
    by (auto simp: List_Prepend_def new_ListElement_def keeps_other_cells_def)
next
  case False
  then have "\<not> List_IsEmpty l"
    using l by (cases as) (auto simp: is_nlist_def List_IsEmpty_def)
  then show ?thesis
    using link_first_ok [OF is_nlist_after_new(1) [OF l, of x 0] False _ is_nlist_after_new(2) [OF l]]
      is_nlist_fresh [OF l] is_nlist_after_new [OF l, of x 0]
    by (auto simp: List_Prepend_def case_prod_beta dest!: keeps_other_cells_new)
qed

lemma SortedRemove_ok:
  assumes "is_nlist (h, l) (a # as)"
  shows "\<exists>h' l' e. cells h a = Some e
    \<and> List_SortedRemove (h, l) = Some ((elt_item e, Some (elt_key e)), (h', l'))
    \<and> is_nlist (h', l') as \<and> entries (cells h') as = entries (cells h) as
    \<and> cells h' a = None \<and> keeps_other_cells [a] h h'"
proof -
  from assms obtain e where e: "cells h a = Some e" "lfirst l = Some a" "lseg (cells h) (elt_next e) as"
    and d: "a \<notin> set as" "distinct as" "llast l = Some (last (a # as))"
    and dom: "dom (cells h) \<subseteq> {..<brk h}" by (auto simp: is_nlist_def)
  have "lfirst l = llast l \<longleftrightarrow> as = []"
    using e(2) d by (cases as rule: rev_cases) auto
  then have rm: "List_SortedRemove (h, l) = Some ((elt_item e, Some (elt_key e)),
      (h\<lparr>cells := (cells h)(a := None)\<rparr>,
       if as = [] then \<lparr>lfirst = None, llast = None\<rparr> else l\<lparr>lfirst := elt_next e\<rparr>))"
    using e by (simp add: List_SortedRemove_def)
  have "dom ((cells h)(a := None)) \<subseteq> {..<brk h}" using dom by auto
  then have "is_nlist (h\<lparr>cells := (cells h)(a := None)\<rparr>,
       if as = [] then \<lparr>lfirst = None, llast = None\<rparr> else l\<lparr>lfirst := elt_next e\<rparr>) as"
    using e d by (simp add: is_nlist_def)
  with rm e(1) d(1) show ?thesis by (auto simp: keeps_other_cells_def)
qed

lemma SortedRemove_empty:
  "is_nlist (h, l) [] \<Longrightarrow> List_SortedRemove (h, l) = Some ((None, None), (h, l))"
  by (simp add: is_nlist_def List_SortedRemove_def)

subsection \<open>The search loop of SortedInsert\<close>

lemma lseg_node: "lseg c p (as @ b # bs) \<Longrightarrow> \<exists>e. c b = Some e \<and> lseg c (elt_next e) bs"
  by (induction as arbitrary: p) auto

lemma lseg_insert_after:
  assumes "lseg c p (as @ b # bs)" "distinct (as @ b # bs)" "a \<notin> set (as @ b # bs)"
    "c b = Some e" "c a = Some ea"
  shows "lseg (c(a \<mapsto> ea\<lparr>elt_next := elt_next e\<rparr>, b \<mapsto> e\<lparr>elt_next := Some a\<rparr>)) p (as @ b # a # bs)"
  using assms by (induction as arbitrary: p) auto

lemma sorted_ins_skip:
  "\<forall>e \<in> set xs. \<not> k < fst e \<Longrightarrow> sorted_ins k x (xs @ ys) = xs @ sorted_ins k x ys"
  by (induction xs) auto

lemma insert_loop_ok:
  assumes "is_nlist (h, l) (as @ p # bs)" "a \<notin> set (as @ p # bs)"
    "cells h a = Some ea" "elt_next ea = None" "elt_key ea = k"
    "\<forall>e \<in> set (entries (cells h) (as @ [p])). \<not> k < fst e"
  shows "\<exists>h' l' cs. insert_loop k a p (h, l) = Some (h', l') \<and> is_nlist (h', l') cs
    \<and> set cs = insert a (set (as @ p # bs))
    \<and> entries (cells h') cs = sorted_ins k (elt_item ea) (entries (cells h) (as @ p # bs))
    \<and> keeps_other_cells (a # as @ p # bs) h h'"
  using assms
proof (induction bs arbitrary: as p)
  case Nil
  from Nil.prems obtain ep where p: "cells h p = Some ep" "elt_next ep = None"
    by (auto simp: is_nlist_def dest: lseg_node)
  from link_last_ok [OF Nil.prems(1) _ Nil.prems(2,3,4)] obtain h'
    where h': "link_last a (h, l) = Some (h', l\<lparr>llast := Some a\<rparr>)"
      "is_nlist (h', l\<lparr>llast := Some a\<rparr>) ((as @ [p]) @ [a])"
      "entries (cells h') ((as @ [p]) @ [a]) = entries (cells h) ((as @ [p]) @ [a])"
      "keeps_other_cells (a # as @ [p]) h h'" by auto
  have "sorted_ins k (elt_item ea) (entries (cells h) (as @ [p]) @ []) =
      entries (cells h) (as @ [p]) @ [(k, elt_item ea)]"
    by (subst sorted_ins_skip [OF Nil.prems(6)]) simp
  then have "entries (cells h') ((as @ [p]) @ [a]) =
      sorted_ins k (elt_item ea) (entries (cells h) (as @ [p]))"
    using h'(3) Nil.prems(3,5) by simp
  moreover have "insert_loop k a p (h, l) = Some (h', l\<lparr>llast := Some a\<rparr>)"
    using p h'(1) by (subst insert_loop.simps) simp
  moreover have "set ((as @ [p]) @ [a]) = insert a (set (as @ [p]))" by auto
  ultimately show ?case using h'(2,4) by blast
next
  case (Cons n bs)
  from Cons.prems(1) obtain ep en where p: "cells h p = Some ep" "elt_next ep = Some n"
    and n: "cells h n = Some en"
    using lseg_node [of "cells h" "lfirst l" as p "n # bs"] by (auto simp: is_nlist_def)
  show ?case
  proof (cases "k < elt_key en")
    case False
    then have "\<forall>e \<in> set (entries (cells h) ((as @ [p]) @ [n])). \<not> k < fst e"
      using Cons.prems(6) n by auto
    moreover have "insert_loop k a p (h, l) = insert_loop k a n (h, l)"
      using p n False by (subst insert_loop.simps) simp
    ultimately show ?thesis
      using Cons.IH [of "as @ [p]" n] Cons.prems(1-5) by simp
  next
    case True
    let ?c = "(cells h)(a \<mapsto> ea\<lparr>elt_next := Some n\<rparr>, p \<mapsto> ep\<lparr>elt_next := Some a\<rparr>)"
    have pa: "p \<noteq> a" using Cons.prems(2) by auto
    have step: "insert_loop k a p (h, l) = Some (h\<lparr>cells := ?c\<rparr>, l)"
      using True p n Cons.prems(3) pa by (subst insert_loop.simps) (simp add: set_next_def)
    have "lseg ?c (lfirst l) (as @ p # a # n # bs)"
      using lseg_insert_after [of "cells h" "lfirst l" as p "n # bs" a ep ea] Cons.prems(1-3) p
      by (simp add: is_nlist_def)
    moreover have "dom ?c \<subseteq> {..<brk h}"
      using Cons.prems(1,3) p by (auto simp: is_nlist_def)
    ultimately have nl: "is_nlist (h\<lparr>cells := ?c\<rparr>, l) (as @ p # a # n # bs)"
      using Cons.prems(1,2) by (simp add: is_nlist_def)
    have "sorted_ins k (elt_item ea) (entries (cells h) (as @ [p]) @ entries (cells h) (n # bs)) =
        entries (cells h) (as @ [p]) @ (k, elt_item ea) # entries (cells h) (n # bs)"
      using True n by (subst sorted_ins_skip [OF Cons.prems(6)]) simp
    moreover have "entries ?c (as @ p # a # n # bs) =
        entries (cells h) (as @ [p]) @ (k, elt_item ea) # entries (cells h) (n # bs)"
      using Cons.prems(1,2,3,5) p by (simp add: is_nlist_def)
    ultimately have "entries (cells (h\<lparr>cells := ?c\<rparr>)) (as @ p # a # n # bs) =
        sorted_ins k (elt_item ea) (entries (cells h) (as @ p # n # bs))" by simp
    moreover have "keeps_other_cells (a # as @ p # n # bs) h (h\<lparr>cells := ?c\<rparr>)"
      by (simp add: keeps_other_cells_def)
    moreover have "set (as @ p # a # n # bs) = insert a (set (as @ p # n # bs))" by auto
    ultimately show ?thesis using step nl by blast
  qed
qed

lemma SortedInsert_ok:
  assumes l: "is_nlist (h, l) as"
  shows "\<exists>h' l' cs. List_SortedInsert x k (h, l) = Some (h', l') \<and> is_nlist (h', l') cs
    \<and> set cs = insert (brk h) (set as)
    \<and> entries (cells h') cs = sorted_ins k x (entries (cells h) as) \<and> keeps_other_cells as h h'"
proof (cases as)
  case Nil
  let ?h = "snd (new_ListElement x k h)"
  have "List_SortedInsert x k (h, l) = Some (?h, \<lparr>lfirst = Some (brk h), llast = Some (brk h)\<rparr>)"
    using l Nil by (simp add: is_nlist_def List_SortedInsert_def case_prod_beta)
  moreover have "keeps_other_cells as h ?h"
    by (simp add: keeps_other_cells_def new_ListElement_def)
  moreover have "entries (cells ?h) [brk h] = [(k, x)]"
    using is_nlist_after_new(2) [OF l, of x k] by simp
  moreover have "is_nlist (?h, \<lparr>lfirst = Some (brk h), llast = Some (brk h)\<rparr>) [brk h]"
    using single_ok l Nil by blast
  ultimately show ?thesis using Nil by fastforce
next
  case (Cons f bs)
  let ?h = "snd (new_ListElement x k h)"
  note new = is_nlist_after_new [OF l, of x k]
  have fr: "brk h \<notin> set as" using is_nlist_fresh [OF l] by simp
  from l Cons obtain e where f: "lfirst l = Some f" "cells h f = Some e" "f \<noteq> brk h"
    using fr by (auto simp: is_nlist_def)
  then have f': "cells ?h f = Some e" by (simp add: new_ListElement_def)
  show ?thesis
  proof (cases "k < elt_key e")
    case True
    with link_first_ok [OF new(1) _ fr new(2)] Cons f f' new(2,3) show ?thesis
      by (fastforce simp: List_SortedInsert_def case_prod_beta dest!: keeps_other_cells_new)
  next
    case False
    have ks: "\<forall>e \<in> set (entries (cells ?h) ([] @ [f])). \<not> k < fst e"
      using False f' by simp
    have a: "brk h \<notin> set ([] @ f # bs)" using fr Cons by simp
    from insert_loop_ok [OF _ a new(2) _ _ ks, of l] new(1,3) Cons f f' False show ?thesis
      by (fastforce simp: List_SortedInsert_def case_prod_beta dest!: keeps_other_cells_new)
  qed
qed

section \<open>The queue contract\<close>

text \<open>
  What the clients of a list rely on. \<open>remove\<close> returns \<open>None\<close> (\<open>NULL\<close>) on an empty list.
\<close>

locale fifo_queue =
  fixes cont :: "'q \<Rightarrow> (int \<times> 'a option) list"
    and inv :: "'q \<Rightarrow> bool"
    and append :: "'a option \<Rightarrow> 'q \<Rightarrow> 'q option"
    and remove :: "'q \<Rightarrow> ('a option \<times> 'q) option"
  assumes append_law: "inv q \<Longrightarrow> \<exists>q'. append x q = Some q' \<and> inv q' \<and> cont q' = cont q @ [(0, x)]"
    and remove_law: "inv q \<Longrightarrow> \<exists>q'. remove q = Some (case cont q of [] \<Rightarrow> None | e # _ \<Rightarrow> snd e, q')
      \<and> inv q' \<and> cont q' = tl (cont q)"
begin

fun append_all :: "'a list \<Rightarrow> 'q \<Rightarrow> 'q option" where
  "append_all [] q = Some q"
| "append_all (x # xs) q = Option.bind (append (Some x) q) (append_all xs)"

fun remove_n :: "nat \<Rightarrow> 'q \<Rightarrow> ('a option list \<times> 'q) option" where
  "remove_n 0 q = Some ([], q)"
| "remove_n (Suc n) q = Option.bind (remove q)
     (\<lambda>(x, q'). Option.bind (remove_n n q') (\<lambda>(xs, q''). Some (x # xs, q'')))"

lemma append_all_law:
  "inv q \<Longrightarrow> \<exists>q'. append_all xs q = Some q' \<and> inv q' \<and> cont q' = cont q @ map (\<lambda>x. (0, Some x)) xs"
proof (induction xs arbitrary: q)
  case (Cons x xs)
  from append_law [OF Cons.prems, of "Some x"] obtain q1
    where q1: "append (Some x) q = Some q1" "inv q1" "cont q1 = cont q @ [(0, Some x)]" by blast
  from Cons.IH [OF q1(2)] q1 show ?case by auto
qed simp

lemma remove_n_law:
  "inv q \<Longrightarrow> n \<le> length (cont q) \<Longrightarrow>
   \<exists>q'. remove_n n q = Some (map snd (take n (cont q)), q') \<and> inv q' \<and> cont q' = drop n (cont q)"
proof (induction n arbitrary: q)
  case (Suc n)
  from remove_law [OF Suc.prems(1)] obtain q1
    where q1: "remove q = Some (case cont q of [] \<Rightarrow> None | e # _ \<Rightarrow> snd e, q1)"
      "inv q1" "cont q1 = tl (cont q)" by blast
  from Suc.prems(2) obtain e es where es: "cont q = e # es" by (cases "cont q") auto
  from Suc.IH [OF q1(2)] Suc.prems(2) q1 es show ?case by auto
qed simp

lemma first_in_first_out:
  assumes "inv q" "cont q = []"
  shows "\<exists>q1 q2. append_all xs q = Some q1 \<and> remove_n (length xs) q1 = Some (map Some xs, q2)
    \<and> inv q2 \<and> cont q2 = []"
proof -
  from append_all_law [OF assms(1), of xs] assms(2) obtain q1
    where q1: "append_all xs q = Some q1" "inv q1" "cont q1 = map (\<lambda>x. (0, Some x)) xs" by auto
  from remove_n_law [OF q1(2), of "length xs"] q1 show ?thesis by (auto simp: comp_def)
qed

end

text \<open>A list kept with \<open>SortedInsert\<close> is a stable priority queue.\<close>

locale sorted_queue = fifo_queue cont inv append remove
  for cont :: "'q \<Rightarrow> (int \<times> 'a option) list"
    and inv :: "'q \<Rightarrow> bool"
    and append :: "'a option \<Rightarrow> 'q \<Rightarrow> 'q option"
    and remove :: "'q \<Rightarrow> ('a option \<times> 'q) option" +
  fixes insert :: "'a option \<Rightarrow> int \<Rightarrow> 'q \<Rightarrow> 'q option"
  assumes insert_law: "inv q \<Longrightarrow> \<exists>q'. insert x k q = Some q' \<and> inv q' \<and> cont q' = sorted_ins k x (cont q)"
begin

fun insert_all :: "(int \<times> 'a option) list \<Rightarrow> 'q \<Rightarrow> 'q option" where
  "insert_all [] q = Some q"
| "insert_all (e # es) q = Option.bind (insert (snd e) (fst e) q) (insert_all es)"

lemma insert_all_law:
  "inv q \<Longrightarrow> \<exists>q'. insert_all es q = Some q' \<and> inv q'
     \<and> cont q' = fold (\<lambda>e. sorted_ins (fst e) (snd e)) es (cont q)"
proof (induction es arbitrary: q)
  case (Cons e es)
  from insert_law [OF Cons.prems, of "snd e" "fst e"] obtain q1
    where q1: "insert (snd e) (fst e) q = Some q1" "inv q1"
      "cont q1 = sorted_ins (fst e) (snd e) (cont q)" by blast
  from Cons.IH [OF q1(2)] q1 show ?case by auto
qed simp

end

section \<open>Sorted insertion is stable sorting\<close>

lemma sorted_ins_mset: "mset (sorted_ins k x xs) = add_mset (k, x) (mset xs)"
  by (induction k x xs rule: sorted_ins.induct) auto

lemma set_sorted_ins [simp]: "set (sorted_ins k x xs) = insert (k, x) (set xs)"
  by (induction k x xs rule: sorted_ins.induct) auto

lemma sorted_ins_sorted: "sorted (map fst xs) \<Longrightarrow> sorted (map fst (sorted_ins k x xs))"
  by (induction k x xs rule: sorted_ins.induct) (force simp: less_imp_le)+

lemma sorted_ins_stable:
  "sorted (map fst xs) \<Longrightarrow>
   filter (\<lambda>e. fst e = j) (sorted_ins k x xs) = filter (\<lambda>e. fst e = j) xs @ (if k = j then [(k, x)] else [])"
proof (induction k x xs rule: sorted_ins.induct)
  case (2 k x k' y ys)
  show ?case
  proof (cases "k < k'")
    case True
    with "2.prems" have "\<forall>e \<in> set ys. k < fst e" by fastforce
    then have "filter (\<lambda>e. fst e = k) ys = []" by (auto intro: filter_none)
    with True show ?thesis by auto
  next
    case False
    with 2 show ?thesis by auto
  qed
qed simp

lemma fold_sorted_ins:
  assumes "sorted (map fst ys)"
  shows "sorted (map fst (fold (\<lambda>e. sorted_ins (fst e) (snd e)) es ys))
    \<and> mset (fold (\<lambda>e. sorted_ins (fst e) (snd e)) es ys) = mset ys + mset es
    \<and> filter (\<lambda>e. fst e = j) (fold (\<lambda>e. sorted_ins (fst e) (snd e)) es ys) =
        filter (\<lambda>e. fst e = j) ys @ filter (\<lambda>e. fst e = j) es"
  using assms
  by (induction es arbitrary: ys) (auto simp: sorted_ins_sorted sorted_ins_mset sorted_ins_stable)

lemma fold_sorted_ins_sort: "fold (\<lambda>e. sorted_ins (fst e) (snd e)) es [] = sort_key fst es"
proof -
  let ?r = "fold (\<lambda>e. sorted_ins (fst e) (snd e)) es []"
  have eq: "(\<lambda>e. fst k = fst e) = (\<lambda>e. fst e = fst k)" for k :: "int \<times> 'a" by auto
  have "sort_key fst es = ?r"
    by (rule properties_for_sort_key)
      (use fold_sorted_ins [of "[]" es] in \<open>simp_all add: eq\<close>)
  then show ?thesis by simp
qed

section \<open>The pointer list provides the contract\<close>

lemma List_Append_law:
  "list_inv st \<Longrightarrow> \<exists>st'. List_Append x st = Some st' \<and> list_inv st' \<and> contents st' = contents st @ [(0, x)]"
  by (cases st) (metis list_invE Append_ok is_nlist_inv fst_conv)

lemma List_Prepend_law:
  "list_inv st \<Longrightarrow> \<exists>st'. List_Prepend x st = Some st' \<and> list_inv st' \<and> contents st' = (0, x) # contents st"
  by (cases st) (metis list_invE Prepend_ok is_nlist_inv fst_conv)

lemma List_SortedInsert_law:
  "list_inv st \<Longrightarrow> \<exists>st'. List_SortedInsert x k st = Some st' \<and> list_inv st'
     \<and> contents st' = sorted_ins k x (contents st)"
  by (cases st) (metis list_invE SortedInsert_ok is_nlist_inv fst_conv)

lemma List_SortedRemove_law:
  assumes "list_inv st"
  shows "\<exists>st'. List_SortedRemove st =
      Some (case contents st of [] \<Rightarrow> (None, None) | (k, x) # _ \<Rightarrow> (x, Some k), st')
    \<and> list_inv st' \<and> contents st' = tl (contents st)"
proof -
  obtain h l where st: "st = (h, l)" by (cases st)
  from assms st obtain as where as: "is_nlist (h, l) as" "contents (h, l) = entries (cells h) as"
    by (auto elim: list_invE)
  show ?thesis
  proof (cases as)
    case Nil
    with as st show ?thesis by (auto simp: SortedRemove_empty dest: is_nlist_inv)
  next
    case (Cons a bs)
    from SortedRemove_ok [OF as(1) [unfolded Cons]] obtain h' l' e where e: "cells h a = Some e"
      "List_SortedRemove (h, l) = Some ((elt_item e, Some (elt_key e)), (h', l'))"
      "is_nlist (h', l') bs" "entries (cells h') bs = entries (cells h) bs" by blast
    from is_nlist_inv [OF e(3)] e as Cons st show ?thesis by simp
  qed
qed

lemma List_Remove_law:
  assumes "list_inv st"
  shows "\<exists>st'. List_Remove st = Some (case contents st of [] \<Rightarrow> None | e # _ \<Rightarrow> snd e, st')
    \<and> list_inv st' \<and> contents st' = tl (contents st)"
  using List_SortedRemove_law [OF assms]
  by (auto simp: List_Remove_def split: list.splits)

interpretation plist: sorted_queue contents list_inv List_Append List_Remove List_SortedInsert
  by unfold_locales (fact List_Append_law List_Remove_law List_SortedInsert_law)+

section \<open>Several lists in one heap\<close>

lemma keeps_other_list:
  assumes "keeps_other_cells as h h'" "is_nlist (h, l2) bs" "set as \<inter> set bs = {}"
    "dom (cells h') \<subseteq> {..<brk h'}"
  shows "is_nlist (h', l2) bs \<and> entries (cells h') bs = entries (cells h) bs"
proof -
  have same: "cells h' b = cells h b" if "b \<in> set bs" for b
  proof -
    from that assms(2) have "cells h b \<noteq> None" by (auto simp: is_nlist_def dest: lseg_cells)
    with assms(2) have "b < brk h" by (auto simp: is_nlist_def)
    with that assms(1,3) show ?thesis by (auto simp: keeps_other_cells_def)
  qed
  have "lseg (cells h') p cs = lseg (cells h) p cs" if "set cs \<subseteq> set bs" for p cs
    using that by (induction cs arbitrary: p) (simp_all add: same)
  moreover have "entries (cells h') bs = entries (cells h) bs"
    by (simp add: entries_def same)
  ultimately show ?thesis using assms(2,4) by (simp add: is_nlist_def)
qed

lemma is_nlist_dom: "is_nlist (h, l) as \<Longrightarrow> dom (cells h) \<subseteq> {..<brk h}"
  by (simp add: is_nlist_def)

section \<open>The destructor and Mapcar\<close>

lemma List_delete_ok:
  "is_nlist (h, l) as \<Longrightarrow> \<forall>e \<in> set (entries (cells h) as). snd e \<noteq> None \<Longrightarrow>
   \<exists>h' l'. List_delete (h, l) = Some (h', l') \<and> is_nlist (h', l') [] \<and> (\<forall>a \<in> set as. cells h' a = None)
     \<and> keeps_other_cells as h h'"
proof (induction as arbitrary: h l)
  case Nil
  then show ?case
    by (subst List_delete.simps)
      (auto simp: List_Remove_def SortedRemove_empty keeps_other_cells_def)
next
  case (Cons a as)
  from SortedRemove_ok [OF Cons.prems(1)] obtain h1 l1 e where e: "cells h a = Some e"
    "List_SortedRemove (h, l) = Some ((elt_item e, Some (elt_key e)), (h1, l1))"
    "is_nlist (h1, l1) as" "entries (cells h1) as = entries (cells h) as"
    "cells h1 a = None" "keeps_other_cells [a] h h1" by blast
  from Cons.prems(2) e(1) have item: "elt_item e \<noteq> None" by simp
  from Cons.IH [OF e(3)] Cons.prems(2) e(4) obtain h2 l2
    where h2: "List_delete (h1, l1) = Some (h2, l2)" "is_nlist (h2, l2) []"
      "\<forall>a \<in> set as. cells h2 a = None" "keeps_other_cells as h1 h2" by auto
  have "List_delete (h, l) = Some (h2, l2)"
    using e(2) item h2(1) by (subst List_delete.simps) (auto simp: List_Remove_def)
  moreover have "keeps_other_cells (a # as) h h2"
    using e(6) h2(4) by (auto simp: keeps_other_cells_def)
  moreover have "a \<notin> set as" "a < brk h1"
    using Cons.prems(1) e(1,6) by (auto simp: is_nlist_def keeps_other_cells_def)
  then have "cells h2 a = None"
    using h2(4) e(5) by (simp add: keeps_other_cells_def)
  ultimately show ?case using h2(2,3) by auto
qed

lemma mapcar_loop_ok:
  "lseg (cells h) p as \<Longrightarrow> mapcar_loop f h p s = Some (fold (\<lambda>e. f (snd e)) (entries (cells h) as) s)"
proof (induction as arbitrary: p s)
  case Nil
  then show ?case by (subst mapcar_loop.simps) simp
next
  case (Cons a as)
  then show ?case by (subst mapcar_loop.simps) auto
qed

section \<open>Properties\<close>

definition heap0 :: "nat store" where
  "heap0 = \<lparr>cells = Map.empty, brk = 0\<rparr>"

lemma list_inv_new: "dom (cells h) \<subseteq> {..<brk h} \<Longrightarrow> list_inv (h, List_new) \<and> contents (h, List_new) = []"
  by (rule is_nlist_inv [of "(h, List_new)" "[]", simplified])
    (simp add: is_nlist_def List_new_def)

lemma list_inv_heap0: "list_inv (heap0, List_new)" "contents (heap0, List_new) = []"
  using list_inv_new [of heap0] by (simp_all add: heap0_def)

lemma List_delete_law:
  "list_inv st \<Longrightarrow> \<exists>st'. List_delete st = Some st' \<and> list_inv st'
     \<and> contents st' = tl (dropWhile (\<lambda>e. snd e \<noteq> None) (contents st))"
proof (induction "contents st" arbitrary: st)
  case Nil
  with List_Remove_law [of st] show ?case by (subst List_delete.simps) (auto split: list.splits)
next
  case (Cons e es)
  from List_Remove_law [OF Cons.prems] Cons.hyps(2)[symmetric] obtain st1
    where st1: "List_Remove st = Some (snd e, st1)" "list_inv st1" "contents st1 = es" by auto
  show ?case
  proof (cases "snd e")
    case None
    with st1 Cons.hyps(2)[symmetric] show ?thesis by (subst List_delete.simps) simp
  next
    case (Some i)
    with Cons.hyps(1) [of st1] st1 Cons.hyps(2)[symmetric] show ?thesis by (subst List_delete.simps) simp
  qed
qed

lemma List_Mapcar_law:
  assumes "list_inv st"
  shows "List_Mapcar f st s = Some (fold f (map snd (contents st)) s)"
proof -
  obtain h l where st: "st = (h, l)" by (cases st)
  from assms st obtain as where "is_nlist (h, l) as" "contents (h, l) = entries (cells h) as"
    by (auto elim: list_invE)
  with st show ?thesis by (simp add: List_Mapcar_def is_nlist_def mapcar_loop_ok fold_map comp_def)
qed

lemma List_IsEmpty_law:
  assumes "list_inv st"
  shows "List_IsEmpty (snd st) \<longleftrightarrow> contents st = []"
proof -
  obtain h l where st: "st = (h, l)" by (cases st)
  from assms st obtain as where "is_nlist (h, l) as" "contents st = entries (cells h) as"
    by (auto elim: list_invE)
  with st show ?thesis by (cases as) (auto simp: is_nlist_def List_IsEmpty_def)
qed

text \<open>
  C29. The constructor makes a well-formed empty list in the same heap. On every well-formed linked
  list every operation follows no bad pointer, terminates, keeps the list well-formed and acts on
  the sequence of (key, item) pairs: \<open>Append\<close> adds at the end, \<open>Prepend\<close> at the front,
  \<open>SortedInsert\<close> before the first bigger key; \<open>SortedRemove\<close> and \<open>Remove\<close> take the first pair off
  (\<open>NULL\<close> when there is none), the former giving its key too; \<open>IsEmpty\<close> tells whether there is a
  pair; \<open>Mapcar\<close> calls its function on the items in order; and the destructor takes off the pairs
  up to and including the first with a \<open>NULL\<close> item, so all of them when no item is \<open>NULL\<close>.
\<close>

theorem list_operations_refine:
  assumes "list_inv st"
  shows "list_inv (fst st, List_new) \<and> contents (fst st, List_new) = []
    \<and> (\<exists>st'. List_Append x st = Some st' \<and> list_inv st' \<and> contents st' = contents st @ [(0, x)])
    \<and> (\<exists>st'. List_Prepend x st = Some st' \<and> list_inv st' \<and> contents st' = (0, x) # contents st)
    \<and> (\<exists>st'. List_SortedInsert x k st = Some st' \<and> list_inv st' \<and> contents st' = sorted_ins k x (contents st))
    \<and> (\<exists>st'. List_SortedRemove st =
          Some (case contents st of [] \<Rightarrow> (None, None) | (k, x) # _ \<Rightarrow> (x, Some k), st')
        \<and> list_inv st' \<and> contents st' = tl (contents st))
    \<and> (\<exists>st'. List_Remove st = Some (case contents st of [] \<Rightarrow> None | e # _ \<Rightarrow> snd e, st')
        \<and> list_inv st' \<and> contents st' = tl (contents st))
    \<and> (List_IsEmpty (snd st) \<longleftrightarrow> contents st = [])
    \<and> List_Mapcar f st s = Some (fold f (map snd (contents st)) s)
    \<and> (\<exists>st'. List_delete st = Some st' \<and> list_inv st'
        \<and> contents st' = tl (dropWhile (\<lambda>e. snd e \<noteq> None) (contents st)))"
proof -
  have "dom (cells (fst st)) \<subseteq> {..<brk (fst st)}"
    using assms by (cases st) (auto elim: list_invE dest: is_nlist_dom)
  from list_inv_new [OF this] show ?thesis
    using List_Append_law [OF assms, of x] List_Prepend_law [OF assms, of x]
      List_SortedInsert_law [OF assms, of x k] List_SortedRemove_law [OF assms] List_Remove_law [OF assms]
      List_IsEmpty_law [OF assms] List_Mapcar_law [OF assms, of f s] List_delete_law [OF assms]
    by (intro conjI) simp_all
qed

theorem list_operations_refine_witness:
  "\<exists>st. plist.append_all [4, 2] (heap0, List_new) = Some st \<and> list_inv st
     \<and> List_Mapcar (\<lambda>x xs. x # xs) st [] = Some [Some 2, Some 4]
     \<and> (\<exists>st'. List_Remove st = Some (Some 4, st') \<and> contents st' = [(0, Some 2)])
     \<and> (\<exists>st'. List_delete st = Some st' \<and> contents st' = [])"
proof -
  from plist.append_all_law [OF list_inv_heap0(1), of "[4, 2]"] list_inv_heap0(2)
  obtain st where st: "plist.append_all [4, 2] (heap0, List_new) = Some st" "list_inv st"
    "contents st = [(0, Some 4), (0, Some 2)]" by auto
  from list_operations_refine [OF st(2), of None 0 "\<lambda>x xs. x # xs" "[]"] st show ?thesis
    by (intro exI [of _ st]) auto
qed

text \<open>
  Items removed from a list come out in the order they were appended, none lost and none
  invented: appending any sequence to an empty list and removing as many items returns exactly
  that sequence and leaves the list empty.
\<close>

theorem list_first_in_first_out:
  assumes "list_inv st" "contents st = []"
  shows "\<exists>st1 st2. plist.append_all xs st = Some st1 \<and> plist.remove_n (length xs) st1 = Some (map Some xs, st2)
    \<and> list_inv st2 \<and> contents st2 = []"
  using assms by (rule plist.first_in_first_out)

theorem list_first_in_first_out_witness:
  "\<exists>st1 st2. plist.append_all [4, 2, 9] (heap0, List_new) = Some st1
     \<and> plist.remove_n (length [4, 2, 9 :: nat]) st1 = Some (map Some [4, 2, 9], st2)"
  using list_first_in_first_out [OF list_inv_heap0, of "[4, 2, 9]"] by blast

text \<open>
  A list filled with \<open>SortedInsert\<close> is the stable sort of the inserted pairs by key: keys come
  out in increasing order and items of equal key in the order they were inserted. The interrupt
  simulation relies on this for its queue of pending interrupts.
\<close>

theorem sorted_insert_is_stable_sort:
  assumes "list_inv st" "contents st = []"
  shows "\<exists>st'. plist.insert_all es st = Some st' \<and> list_inv st' \<and> contents st' = sort_key fst es"
  using plist.insert_all_law [OF assms(1), of es] assms(2) by (simp add: fold_sorted_ins_sort)

theorem sorted_insert_is_stable_sort_witness:
  "\<exists>st'. plist.insert_all [(5, Some 1), (3, Some 2), (5, Some 3)] (heap0, List_new) = Some st'
     \<and> contents st' = [(3, Some 2), (5, Some 1), (5, Some 3)]"
  using sorted_insert_is_stable_sort [OF list_inv_heap0, of "[(5, Some 1), (3, Some 2), (5, Some 3)]"]
  by auto

text \<open>
  Lists that share the heap do not interfere: every operation on one list leaves every other
  list with disjoint elements well-formed and with the same contents.
\<close>

theorem list_operations_disjoint:
  assumes l1: "is_nlist (h, l1) as" and l2: "is_nlist (h, l2) bs" and disj: "set as \<inter> set bs = {}"
    and op: "List_Append x (h, l1) = Some (h', l') \<or> List_Prepend x (h, l1) = Some (h', l')
      \<or> List_SortedInsert x k (h, l1) = Some (h', l') \<or> List_SortedRemove (h, l1) = Some (r, (h', l'))"
  shows "is_nlist (h', l2) bs \<and> contents (h', l2) = contents (h, l2)"
proof -
  have "keeps_other_cells as h h' \<and> dom (cells h') \<subseteq> {..<brk h'}"
    using op
  proof (elim disjE)
    assume "List_Append x (h, l1) = Some (h', l')"
    with Append_ok [OF l1, of x] show ?thesis by (auto dest: is_nlist_dom)
  next
    assume "List_Prepend x (h, l1) = Some (h', l')"
    with Prepend_ok [OF l1, of x] show ?thesis by (auto dest: is_nlist_dom)
  next
    assume "List_SortedInsert x k (h, l1) = Some (h', l')"
    with SortedInsert_ok [OF l1, of x k] show ?thesis by (auto dest: is_nlist_dom)
  next
    assume rm: "List_SortedRemove (h, l1) = Some (r, (h', l'))"
    show ?thesis
    proof (cases as)
      case Nil
      with rm l1 show ?thesis
        by (auto simp: SortedRemove_empty keeps_other_cells_def dest: is_nlist_dom)
    next
      case (Cons a as')
      with SortedRemove_ok [OF l1 [unfolded Cons]] rm show ?thesis
        by (auto simp: keeps_other_cells_def dest: is_nlist_dom)
    qed
  qed
  with keeps_other_list [OF _ l2 disj] have "is_nlist (h', l2) bs \<and> entries (cells h') bs = entries (cells h) bs"
    by blast
  with is_nlist_inv [OF l2] is_nlist_inv [of "(h', l2)" bs] show ?thesis by simp
qed

theorem list_operations_disjoint_witness:
  "\<exists>h' l'. List_Append (Some 7) (heap0, List_new) = Some (h', l') \<and> is_nlist (h', List_new) []"
proof -
  have e: "is_nlist (heap0, List_new) []" by (simp add: is_nlist_def heap0_def List_new_def)
  from Append_ok [OF e, of "Some 7"] obtain h' l'
    where a: "List_Append (Some 7) (heap0, List_new) = Some (h', l')" by blast
  have "is_nlist (h', List_new) []"
    using list_operations_disjoint [OF e e, of "Some 7" h' l' 0 "(None, None)"] a by simp
  with a show ?thesis by blast
qed

text \<open>
  Deleting a list whose items are all non-null terminates, frees every one of its elements and
  touches no other cell; \<open>Mapcar\<close> calls its function on every item, in list order.
\<close>

theorem list_delete_and_mapcar:
  assumes "is_nlist (h, l) as" "\<forall>e \<in> set (contents (h, l)). snd e \<noteq> None"
  shows "(\<exists>h' l'. List_delete (h, l) = Some (h', l') \<and> (\<forall>a \<in> set as. cells h' a = None)
        \<and> contents (h', l') = [] \<and> keeps_other_cells as h h')
    \<and> List_Mapcar f (h, l) s = Some (fold f (map snd (contents (h, l))) s)"
proof -
  from is_nlist_inv [OF assms(1)] have c: "contents (h, l) = entries (cells h) as" by simp
  from List_delete_ok [OF assms(1)] assms(2) c obtain h' l'
    where "List_delete (h, l) = Some (h', l')" "is_nlist (h', l') []"
      "\<forall>a \<in> set as. cells h' a = None" "keeps_other_cells as h h'" by auto
  moreover from this(2) have "contents (h', l') = []" by (auto dest: is_nlist_inv)
  moreover have "List_Mapcar f (h, l) s = Some (fold f (map snd (contents (h, l))) s)"
    using assms(1) by (simp add: List_Mapcar_def is_nlist_def mapcar_loop_ok c fold_map comp_def)
  ultimately show ?thesis by blast
qed

theorem list_delete_and_mapcar_witness:
  "is_nlist (heap0, List_new) [] \<and> List_Mapcar (\<lambda>x s. x # s) (heap0, List_new) [] = Some []"
proof -
  have e: "is_nlist (heap0, List_new) []" by (simp add: is_nlist_def heap0_def List_new_def)
  with list_delete_and_mapcar [OF e, of "\<lambda>x s. x # s" "[]"] show ?thesis
    by (simp add: list_inv_heap0)
qed

end
