(* ===== verification/Bitmap.thy ===== *)
theory Bitmap
  imports Prelude
begin

text \<open>
  The bitmap of \<open>userprog/bitmap.cc\<close>: an array of 32-bit words, one bit per item. It tracks the
  free pages of physical memory (\<open>memMap\<close>), the free sectors of the disk and the used slots of a
  \<open>Table\<close>. \<open>new unsigned int[numWords]\<close> is not initialised, so its contents are a parameter of
  the constructor.

  \<open>marked\<close> is the set of bits that are on; every operation is shown to act on it as the interface
  says. The locale \<open>slot_allocator\<close> is what the clients that hand out bits with \<open>Find\<close> rely on.
\<close>

unbundle bit_operations_syntax

section \<open>The code\<close>

definition BitsInWord :: nat where
  "BitsInWord = 32"

record BitMap =
  numBits :: nat
  numWords :: nat
  bm_map :: "32 word list"

text \<open>Reading and writing \<open>map[i]\<close>; outside the array the behaviour is undefined.\<close>

definition map_word :: "nat \<Rightarrow> BitMap \<Rightarrow> 32 word result" where
  "map_word i b = (if i < length (bm_map b) then Inr (bm_map b ! i) else Inl Undefined)"

definition map_store :: "nat \<Rightarrow> 32 word \<Rightarrow> BitMap \<Rightarrow> BitMap" where
  "map_store i w b = b\<lparr>bm_map := (bm_map b)[i := w]\<rparr>"

definition BitMap_Mark :: "int \<Rightarrow> BitMap \<Rightarrow> BitMap result" where
  "BitMap_Mark which b =
     rbind (ASSERT (0 \<le> which \<and> which < int (numBits b))) (\<lambda>_.
     rbind (map_word (nat which div BitsInWord) b) (\<lambda>w.
     Inr (map_store (nat which div BitsInWord) (w OR push_bit (nat which mod BitsInWord) 1) b)))"

definition BitMap_Clear :: "int \<Rightarrow> BitMap \<Rightarrow> BitMap result" where
  "BitMap_Clear which b =
     rbind (ASSERT (0 \<le> which \<and> which < int (numBits b))) (\<lambda>_.
     rbind (map_word (nat which div BitsInWord) b) (\<lambda>w.
     Inr (map_store (nat which div BitsInWord) (w AND NOT (push_bit (nat which mod BitsInWord) 1)) b)))"

definition BitMap_Test :: "int \<Rightarrow> BitMap \<Rightarrow> bool result" where
  "BitMap_Test which b =
     rbind (ASSERT (0 \<le> which \<and> which < int (numBits b))) (\<lambda>_.
     rbind (map_word (nat which div BitsInWord) b) (\<lambda>w.
     Inr (w AND push_bit (nat which mod BitsInWord) 1 \<noteq> 0)))"

text \<open>The constructor; \<open>junk\<close> is what the freshly allocated array happens to hold.\<close>

definition BitMap_new :: "(nat \<Rightarrow> 32 word) \<Rightarrow> nat \<Rightarrow> BitMap result" where
  "BitMap_new junk nitems =
     (let words = divRoundUp nitems BitsInWord
      in for_each (\<lambda>i. BitMap_Clear (int i)) [0..<nitems]
           \<lparr>numBits = nitems, numWords = words, bm_map = map junk [0..<words]\<rparr>)"

text \<open>\<open>Find\<close> from bit \<open>i\<close> on.\<close>

fun find_loop :: "nat list \<Rightarrow> BitMap \<Rightarrow> (int \<times> BitMap) result" where
  "find_loop [] b = Inr (-1, b)"
| "find_loop (i # is) b = rbind (BitMap_Test (int i) b)
     (\<lambda>t. if \<not> t then rbind (BitMap_Mark (int i) b) (\<lambda>b'. Inr (int i, b')) else find_loop is b)"

definition BitMap_Find :: "BitMap \<Rightarrow> (int \<times> BitMap) result" where
  "BitMap_Find b = find_loop [0..<numBits b] b"

definition BitMap_NumClear :: "BitMap \<Rightarrow> nat result" where
  "BitMap_NumClear b = for_each
     (\<lambda>i count. rbind (BitMap_Test (int i) b) (\<lambda>t. Inr (if \<not> t then Suc count else count))) [0..<numBits b] 0"

text \<open>The bit numbers \<open>Print\<close> writes out.\<close>

definition BitMap_Print :: "BitMap \<Rightarrow> nat list result" where
  "BitMap_Print b = for_each
     (\<lambda>i out. rbind (BitMap_Test (int i) b) (\<lambda>t. Inr (if t then out @ [i] else out))) [0..<numBits b] []"

section \<open>The set of marked bits\<close>

definition bitmap_inv :: "BitMap \<Rightarrow> bool" where
  "bitmap_inv b \<longleftrightarrow> numWords b = divRoundUp (numBits b) BitsInWord \<and> length (bm_map b) = numWords b"

definition bit_at :: "BitMap \<Rightarrow> nat \<Rightarrow> bool" where
  "bit_at b i \<longleftrightarrow> bit (bm_map b ! (i div BitsInWord)) (i mod BitsInWord)"

definition marked :: "BitMap \<Rightarrow> nat set" where
  "marked b = {i. i < numBits b \<and> bit_at b i}"

lemma BitsInWord_pos [simp]: "0 < BitsInWord"
  by (simp add: BitsInWord_def)

lemma word_index: "bitmap_inv b \<Longrightarrow> i < numBits b \<Longrightarrow> i div BitsInWord < length (bm_map b)"
  by (simp add: bitmap_inv_def div_less_divRoundUp)

lemma bit_map_store:
  assumes "k div BitsInWord < length (bm_map b)"
  shows "bit_at (map_store (k div BitsInWord) w b) i =
    (if i div BitsInWord = k div BitsInWord then bit w (i mod BitsInWord) else bit_at b i)"
  using assms by (simp add: bit_at_def map_store_def)

lemma same_index: "i div BitsInWord = k div BitsInWord \<Longrightarrow> i mod BitsInWord = k mod BitsInWord \<Longrightarrow> i = k"
  by (metis div_mult_mod_eq)

lemma map_store_sel [simp]:
  "numBits (map_store i w b) = numBits b" "numWords (map_store i w b) = numWords b"
  "bitmap_inv (map_store i w b) = bitmap_inv b"
  by (simp_all add: map_store_def bitmap_inv_def)

lemma Test_ok: "bitmap_inv b \<Longrightarrow> i < numBits b \<Longrightarrow> BitMap_Test (int i) b = Inr (i \<in> marked b)"
  using word_index [of b i]
  by (simp add: BitMap_Test_def map_word_def marked_def bit_at_def bit_iff_and_push_bit_not_eq_0)

lemma Mark_ok:
  assumes "bitmap_inv b" "i < numBits b"
  shows "\<exists>b'. BitMap_Mark (int i) b = Inr b' \<and> bitmap_inv b' \<and> numBits b' = numBits b
    \<and> marked b' = insert i (marked b)"
proof -
  let ?w = "bm_map b ! (i div BitsInWord) OR push_bit (i mod BitsInWord) 1"
  let ?b = "map_store (i div BitsInWord) ?w b"
  have idx: "i div BitsInWord < length (bm_map b)" using assms by (rule word_index)
  have m: "i mod BitsInWord < 32" by (simp add: BitsInWord_def)
  have "bit_at ?b j \<longleftrightarrow> j = i \<or> bit_at b j" for j
    unfolding bit_map_store [OF idx] using m same_index [of j i]
    by (auto simp: bit_simps bit_at_def BitsInWord_def)
  then have "marked ?b = insert i (marked b)" using assms(2) by (auto simp: marked_def)
  with assms idx show ?thesis by (simp add: BitMap_Mark_def map_word_def)
qed

lemma Clear_ok:
  assumes "bitmap_inv b" "i < numBits b"
  shows "\<exists>b'. BitMap_Clear (int i) b = Inr b' \<and> bitmap_inv b' \<and> numBits b' = numBits b
    \<and> marked b' = marked b - {i}"
proof -
  let ?w = "bm_map b ! (i div BitsInWord) AND NOT (push_bit (i mod BitsInWord) 1)"
  let ?b = "map_store (i div BitsInWord) ?w b"
  have idx: "i div BitsInWord < length (bm_map b)" using assms by (rule word_index)
  have "bit_at ?b j \<longleftrightarrow> j \<noteq> i \<and> bit_at b j" for j
    unfolding bit_map_store [OF idx] using same_index [of j i]
    by (auto simp: bit_simps bit_at_def BitsInWord_def)
  then have "marked ?b = marked b - {i}" by (auto simp: marked_def)
  with assms idx show ?thesis by (simp add: BitMap_Clear_def map_word_def)
qed

lemma clear_loop_ok:
  "bitmap_inv b \<Longrightarrow> n \<le> numBits b \<Longrightarrow>
   \<exists>b'. for_each (\<lambda>i. BitMap_Clear (int i)) [0..<n] b = Inr b' \<and> bitmap_inv b'
     \<and> numBits b' = numBits b \<and> marked b' = marked b - {..<n}"
proof (induction n)
  case (Suc n)
  then obtain b1 where b1: "for_each (\<lambda>i. BitMap_Clear (int i)) [0..<n] b = Inr b1"
    "bitmap_inv b1" "numBits b1 = numBits b" "marked b1 = marked b - {..<n}" by auto
  from Clear_ok [OF b1(2), of n] Suc.prems b1 obtain b2
    where "BitMap_Clear (int n) b1 = Inr b2" "bitmap_inv b2" "numBits b2 = numBits b"
      "marked b2 = marked b1 - {n}" by auto
  with b1 show ?case by (auto simp: for_each_append lessThan_Suc)
qed simp

lemma BitMap_new_ok:
  "\<exists>b. BitMap_new junk n = Inr b \<and> bitmap_inv b \<and> numBits b = n \<and> marked b = {}"
proof -
  let ?b = "\<lparr>numBits = n, numWords = divRoundUp n BitsInWord, bm_map = map junk [0..<divRoundUp n BitsInWord]\<rparr>"
  have "bitmap_inv ?b" by (simp add: bitmap_inv_def)
  from clear_loop_ok [OF this, of n] show ?thesis
    by (auto simp: BitMap_new_def Let_def marked_def)
qed

definition find_spec :: "nat set \<Rightarrow> BitMap \<Rightarrow> (int \<times> BitMap) result \<Rightarrow> bool" where
  "find_spec S b r \<longleftrightarrow>
     (\<exists>i b'. i \<in> S \<and> i \<notin> marked b \<and> (\<forall>j \<in> S. j < i \<longrightarrow> j \<in> marked b) \<and> r = Inr (int i, b')
        \<and> bitmap_inv b' \<and> numBits b' = numBits b \<and> marked b' = insert i (marked b))
     \<or> (S \<subseteq> marked b \<and> r = Inr (-1, b))"

lemma find_spec_skip: "i \<in> marked b \<Longrightarrow> find_spec S b r \<Longrightarrow> find_spec (insert i S) b r"
  unfolding find_spec_def by blast

lemma find_loop_ok:
  assumes "bitmap_inv b" "\<forall>j \<in> set is. j < numBits b" "sorted is"
  shows "find_spec (set is) b (find_loop is b)"
  using assms
proof (induction "is")
  case Nil
  then show ?case by (simp add: find_spec_def)
next
  case (Cons i "is")
  show ?case
  proof (cases "i \<in> marked b")
    case True
    with Cons have "find_spec (insert i (set is)) b (find_loop is b)" by (auto intro: find_spec_skip)
    with True Cons.prems show ?thesis by (simp add: Test_ok)
  next
    case False
    from Cons.prems have i: "i < numBits b" by simp
    from Mark_ok [OF Cons.prems(1) i] obtain b' where b': "BitMap_Mark (int i) b = Inr b'"
      "bitmap_inv b'" "numBits b' = numBits b" "marked b' = insert i (marked b)" by blast
    have "find_loop (i # is) b = Inr (int i, b')"
      using False Cons.prems(1) i b'(1) by (simp add: Test_ok)
    moreover have "\<forall>j \<in> set (i # is). j < i \<longrightarrow> j \<in> marked b" using Cons.prems(3) by auto
    ultimately show ?thesis using False b' unfolding find_spec_def by (metis list.set_intros(1))
  qed
qed

lemma marked_subset: "marked b \<subseteq> {..<numBits b}"
  by (auto simp: marked_def)

lemma Find_ok:
  assumes "bitmap_inv b"
  shows "(\<exists>i b'. i < numBits b \<and> i \<notin> marked b \<and> (\<forall>j<i. j \<in> marked b)
        \<and> BitMap_Find b = Inr (int i, b') \<and> bitmap_inv b' \<and> numBits b' = numBits b
        \<and> marked b' = insert i (marked b))
    \<or> (marked b = {..<numBits b} \<and> BitMap_Find b = Inr (-1, b))"
proof -
  have "find_spec {..<numBits b} b (BitMap_Find b)"
    using find_loop_ok [OF assms, of "[0..<numBits b]"] by (simp add: BitMap_Find_def atLeast0LessThan)
  then show ?thesis
    unfolding find_spec_def
  proof (elim disjE)
    assume "{..<numBits b} \<subseteq> marked b \<and> BitMap_Find b = Inr (-1, b)"
    with marked_subset [of b] show ?thesis by simp
  next
    assume "\<exists>i b'. i \<in> {..<numBits b} \<and> i \<notin> marked b
        \<and> (\<forall>j \<in> {..<numBits b}. j < i \<longrightarrow> j \<in> marked b) \<and> BitMap_Find b = Inr (int i, b')
        \<and> bitmap_inv b' \<and> numBits b' = numBits b \<and> marked b' = insert i (marked b)"
    then show ?thesis by (meson lessThan_iff order_less_trans)
  qed
qed

lemma NumClear_ok:
  assumes "bitmap_inv b"
  shows "BitMap_NumClear b = Inr (card ({..<numBits b} - marked b))"
proof -
  have "for_each (\<lambda>i count. rbind (BitMap_Test (int i) b) (\<lambda>t. Inr (if \<not> t then Suc count else count))) [0..<n] 0
      = Inr (card ({..<n} - marked b))" if "n \<le> numBits b" for n
    using that
  proof (induction n)
    case (Suc n)
    have "{..<Suc n} - marked b = (if n \<in> marked b then {..<n} - marked b else insert n ({..<n} - marked b))"
      by (auto simp: lessThan_Suc)
    with Suc assms show ?case by (simp add: for_each_append Test_ok)
  qed simp
  then show ?thesis by (simp add: BitMap_NumClear_def)
qed

section \<open>Handing out slots\<close>

locale slot_allocator =
  fixes used :: "'m \<Rightarrow> nat set" and cap :: "'m \<Rightarrow> nat" and inv :: "'m \<Rightarrow> bool"
    and find :: "'m \<Rightarrow> (int \<times> 'm) result"
  assumes find_law: "inv m \<Longrightarrow>
      (\<exists>i m'. i < cap m \<and> i \<notin> used m \<and> find m = Inr (int i, m') \<and> inv m' \<and> cap m' = cap m
        \<and> used m' = insert i (used m))
      \<or> (used m = {..<cap m} \<and> find m = Inr (-1, m))"
begin

fun find_n :: "nat \<Rightarrow> 'm \<Rightarrow> (int list \<times> 'm) result" where
  "find_n 0 m = Inr ([], m)"
| "find_n (Suc n) m = rbind (find m) (\<lambda>(i, m'). rbind (find_n n m') (\<lambda>(is, m''). Inr (i # is, m'')))"

lemma find_n_law:
  "inv m \<Longrightarrow> n \<le> card ({..<cap m} - used m) \<Longrightarrow>
   \<exists>is m'. find_n n m = Inr (map int is, m') \<and> length is = n \<and> distinct is \<and> set is \<inter> used m = {}
     \<and> set is \<subseteq> {..<cap m} \<and> inv m' \<and> cap m' = cap m \<and> used m' = used m \<union> set is"
proof (induction n arbitrary: m)
  case (Suc n)
  have "used m \<noteq> {..<cap m}"
  proof
    assume full: "used m = {..<cap m}"
    from Suc.prems(2) show False unfolding full by simp
  qed
  with find_law [OF Suc.prems(1)] have "\<exists>i m'. i < cap m \<and> i \<notin> used m \<and> find m = Inr (int i, m')
      \<and> inv m' \<and> cap m' = cap m \<and> used m' = insert i (used m)" by simp
  then obtain i m1 where m1: "i < cap m" "i \<notin> used m"
    "find m = Inr (int i, m1)" "inv m1" "cap m1 = cap m" "used m1 = insert i (used m)" by blast
  have "{..<cap m} - used m = insert i ({..<cap m1} - used m1)"
    unfolding m1(5,6) using m1(1,2) by blast
  then have "card ({..<cap m} - used m) = Suc (card ({..<cap m1} - used m1))"
    using m1(6) card_insert_disjoint [of "{..<cap m1} - used m1" i] by (simp only: finite_Diff finite_lessThan) simp
  with Suc.prems(2) have "n \<le> card ({..<cap m1} - used m1)" by linarith
  from Suc.IH [OF m1(4) this] obtain "is" m2 where m2: "find_n n m1 = Inr (map int is, m2)"
    "length is = n" "distinct is" "set is \<inter> used m1 = {}" "set is \<subseteq> {..<cap m1}"
    "inv m2" "cap m2 = cap m1" "used m2 = used m1 \<union> set is" by blast
  have "find_n (Suc n) m = Inr (map int (i # is), m2)" using m1(3) m2(1) by simp
  moreover have "distinct (i # is)" "set (i # is) \<inter> used m = {}" "set (i # is) \<subseteq> {..<cap m}"
    "used m2 = used m \<union> set (i # is)" using m1 m2 by auto
  ultimately show ?case using m1 m2 by (intro exI [of _ "i # is"] exI [of _ m2]) simp
qed simp

end

interpretation bitmap: slot_allocator marked numBits bitmap_inv BitMap_Find
proof unfold_locales
  fix m :: BitMap
  assume "bitmap_inv m"
  from Find_ok [OF this] show "(\<exists>i m'. i < numBits m \<and> i \<notin> marked m \<and> BitMap_Find m = Inr (int i, m')
      \<and> bitmap_inv m' \<and> numBits m' = numBits m \<and> marked m' = insert i (marked m))
      \<or> (marked m = {..<numBits m} \<and> BitMap_Find m = Inr (-1, m))" by blast
qed

section \<open>Properties\<close>

text \<open>
  C30. Whatever garbage the freshly allocated words hold, a new bitmap has every one of its bits
  clear; on a well-formed bitmap and a bit number in range \<open>Test\<close> tells whether the bit is marked,
  \<open>Mark\<close> and \<open>Clear\<close> change that bit and no other, and any other bit number fails the assertion.
\<close>

theorem bitmap_operations_refine_set:
  "(\<exists>b. BitMap_new junk n = Inr b \<and> bitmap_inv b \<and> numBits b = n \<and> marked b = {})
   \<and> (bitmap_inv b \<and> 0 \<le> k \<and> k < int (numBits b) \<longrightarrow>
        BitMap_Test k b = Inr (nat k \<in> marked b)
      \<and> (\<exists>b'. BitMap_Mark k b = Inr b' \<and> bitmap_inv b' \<and> numBits b' = numBits b \<and> marked b' = insert (nat k) (marked b))
      \<and> (\<exists>b'. BitMap_Clear k b = Inr b' \<and> bitmap_inv b' \<and> numBits b' = numBits b \<and> marked b' = marked b - {nat k}))
   \<and> (\<not> (0 \<le> k \<and> k < int (numBits b)) \<longrightarrow>
        BitMap_Test k b = Inl Abort \<and> BitMap_Mark k b = Inl Abort \<and> BitMap_Clear k b = Inl Abort)"
proof (intro conjI impI)
  assume h: "bitmap_inv b \<and> 0 \<le> k \<and> k < int (numBits b)"
  then have i: "bitmap_inv b" "nat k < numBits b" and k: "int (nat k) = k" by auto
  show "BitMap_Test k b = Inr (nat k \<in> marked b)"
    using Test_ok [OF i] k by simp
  show "\<exists>b'. BitMap_Mark k b = Inr b' \<and> bitmap_inv b' \<and> numBits b' = numBits b \<and> marked b' = insert (nat k) (marked b)"
    using Mark_ok [OF i] k by simp
  show "\<exists>b'. BitMap_Clear k b = Inr b' \<and> bitmap_inv b' \<and> numBits b' = numBits b \<and> marked b' = marked b - {nat k}"
    using Clear_ok [OF i] k by simp
qed (auto simp: BitMap_new_ok BitMap_Test_def BitMap_Mark_def BitMap_Clear_def ASSERT_def)

definition bitmap40 :: BitMap where
  "bitmap40 = \<lparr>numBits = 40, numWords = 2, bm_map = [0xFFFFFFFF, 1]\<rparr>"

lemma bitmap40_inv: "bitmap_inv bitmap40"
  by (simp add: bitmap_inv_def bitmap40_def divRoundUp_def BitsInWord_def)

theorem bitmap_operations_refine_set_witness:
  "bitmap_inv bitmap40 \<and> (\<exists>b'. BitMap_Mark 33 bitmap40 = Inr b' \<and> marked b' = insert 33 (marked bitmap40))"
  using bitmap_operations_refine_set [of undefined 0 bitmap40 33] bitmap40_inv
  by (auto simp: bitmap40_def)

text \<open>
  \<open>Find\<close> returns the least clear bit and marks exactly that bit, or returns \<open>-1\<close> and changes
  nothing when every bit is marked; \<open>NumClear\<close> is the number of clear bits, so \<open>Find\<close> fails exactly
  when it is 0.
\<close>

theorem bitmap_find_least_clear:
  assumes "bitmap_inv b"
  shows "BitMap_NumClear b = Inr (card ({..<numBits b} - marked b))
    \<and> (if marked b = {..<numBits b} then BitMap_Find b = Inr (-1, b)
       else \<exists>i b'. BitMap_Find b = Inr (int i, b') \<and> i < numBits b \<and> i \<notin> marked b \<and> {..<i} \<subseteq> marked b
              \<and> bitmap_inv b' \<and> numBits b' = numBits b \<and> marked b' = insert i (marked b))"
proof -
  have "marked b = {..<numBits b} \<Longrightarrow> BitMap_Find b = Inr (-1, b)"
    using Find_ok [OF assms] by blast
  moreover have "marked b \<noteq> {..<numBits b} \<Longrightarrow>
      \<exists>i b'. BitMap_Find b = Inr (int i, b') \<and> i < numBits b \<and> i \<notin> marked b \<and> {..<i} \<subseteq> marked b
              \<and> bitmap_inv b' \<and> numBits b' = numBits b \<and> marked b' = insert i (marked b)"
    using Find_ok [OF assms] by (auto simp: subset_eq)
  ultimately show ?thesis using NumClear_ok [OF assms] by simp
qed

theorem bitmap_find_least_clear_witness:
  "bitmap_inv bitmap40 \<and> BitMap_NumClear bitmap40 = Inr (card ({..<40} - marked bitmap40))"
  using bitmap_find_least_clear [OF bitmap40_inv] bitmap40_inv by (simp add: bitmap40_def)

end
