(* ===== verification/Handle_Table.thy ===== *)
theory Handle_Table
  imports Bitmap
begin

text \<open>
  The class \<open>Table\<close> of \<open>userprog/addrspace.cc\<close>: a fixed-size array of pointers with a bitmap of
  the slots in use. The kernel keeps its processes in one (\<open>processTable\<close>) and every address space
  its open files in another (\<open>fileTable\<close>).

  A \<open>void *\<close> is an \<open>'a option\<close>. \<open>new void *[size]\<close> is not initialised. The table's own lock
  brackets \<open>map.Find\<close> and the body of \<open>Remove\<close>; the operations are modelled as the atomic
  sections it makes of them. \<open>slots\<close> is the finite map the table represents.
\<close>

section \<open>The code\<close>

record 'a Table =
  tbl_map :: BitMap
  tbl_table :: "'a option list"
  tbl_size :: nat

definition Table_new :: "(nat \<Rightarrow> 32 word) \<Rightarrow> (nat \<Rightarrow> 'a option) \<Rightarrow> nat \<Rightarrow> 'a Table result" where
  "Table_new junkbits junk s = rbind (BitMap_new junkbits s)
     (\<lambda>m. Inr \<lparr>tbl_map = m, tbl_table = map junk [0..<s], tbl_size = s\<rparr>)"

definition Table_Get :: "int \<Rightarrow> 'a Table \<Rightarrow> 'a option result" where
  "Table_Get i t =
     (if 0 \<le> i \<and> i < int (tbl_size t)
      then rbind (BitMap_Test i (tbl_map t)) (\<lambda>u. Inr (if u then tbl_table t ! nat i else None))
      else Inr None)"

definition Table_Put :: "'a option \<Rightarrow> 'a Table \<Rightarrow> (int \<times> 'a Table) result" where
  "Table_Put f t = rbind (BitMap_Find (tbl_map t)) (\<lambda>(i, m).
     Inr (i, if i \<noteq> -1 then t\<lparr>tbl_map := m, tbl_table := (tbl_table t)[nat i := f]\<rparr>
             else t\<lparr>tbl_map := m\<rparr>))"

definition Table_Remove :: "int \<Rightarrow> 'a Table \<Rightarrow> ('a option \<times> 'a Table) result" where
  "Table_Remove i t =
     (if 0 \<le> i \<and> i < int (tbl_size t)
      then rbind (BitMap_Test i (tbl_map t)) (\<lambda>u.
           if u then rbind (BitMap_Clear i (tbl_map t)) (\<lambda>m.
                Inr (tbl_table t ! nat i, t\<lparr>tbl_map := m, tbl_table := (tbl_table t)[nat i := None]\<rparr>))
           else Inr (None, t))
      else Inr (None, t))"

section \<open>The map from identifiers to pointers\<close>

definition table_inv :: "'a Table \<Rightarrow> bool" where
  "table_inv t \<longleftrightarrow> bitmap_inv (tbl_map t) \<and> numBits (tbl_map t) = tbl_size t \<and> length (tbl_table t) = tbl_size t"

definition slots :: "'a Table \<Rightarrow> nat \<Rightarrow> 'a option option" where
  "slots t i = (if i \<in> marked (tbl_map t) then Some (tbl_table t ! i) else None)"

lemma marked_less: "table_inv t \<Longrightarrow> i \<in> marked (tbl_map t) \<Longrightarrow> i < tbl_size t"
  using marked_subset [of "tbl_map t"] by (auto simp: table_inv_def)

lemma dom_slots: "dom (slots t) = marked (tbl_map t)"
  by (auto simp: slots_def dom_def)

lemma Table_new_ok:
  "\<exists>t. Table_new junkbits junk s = Inr t \<and> table_inv t \<and> tbl_size t = s \<and> slots t = Map.empty"
  using BitMap_new_ok [of junkbits s] by (auto simp: Table_new_def table_inv_def slots_def fun_eq_iff)

lemma Table_Get_ok:
  assumes "table_inv t"
  shows "Table_Get i t = Inr (if 0 \<le> i then (case slots t (nat i) of None \<Rightarrow> None | Some p \<Rightarrow> p) else None)"
proof (cases "0 \<le> i \<and> i < int (tbl_size t)")
  case True
  with assms Test_ok [of "tbl_map t" "nat i"] show ?thesis
    by (auto simp: Table_Get_def table_inv_def slots_def)
next
  case False
  with marked_less [OF assms, of "nat i"] show ?thesis
    by (auto simp: Table_Get_def slots_def)
qed

lemma Table_Put_ok:
  assumes "table_inv t"
  shows "(\<exists>i t'. i < tbl_size t \<and> slots t i = None \<and> Table_Put p t = Inr (int i, t') \<and> table_inv t'
        \<and> tbl_size t' = tbl_size t \<and> slots t' = (slots t)(i \<mapsto> p))
    \<or> (dom (slots t) = {..<tbl_size t} \<and> Table_Put p t = Inr (-1, t))"
proof -
  from assms have b: "bitmap_inv (tbl_map t)" "numBits (tbl_map t) = tbl_size t"
    "length (tbl_table t) = tbl_size t" by (auto simp: table_inv_def)
  from Find_ok [OF b(1)] show ?thesis
  proof (elim disjE exE conjE)
    fix i m
    assume i: "i < numBits (tbl_map t)" "i \<notin> marked (tbl_map t)"
      and m: "BitMap_Find (tbl_map t) = Inr (int i, m)" "bitmap_inv m"
        "numBits m = numBits (tbl_map t)" "marked m = insert i (marked (tbl_map t))"
    let ?t = "t\<lparr>tbl_map := m, tbl_table := (tbl_table t)[i := p]\<rparr>"
    have "Table_Put p t = Inr (int i, ?t)" using m(1) by (simp add: Table_Put_def)
    moreover have "table_inv ?t" using m b by (simp add: table_inv_def)
    moreover have "slots ?t = (slots t)(i \<mapsto> p)" using i m(4) b by (auto simp: slots_def fun_eq_iff)
    ultimately show ?thesis using i b by (intro disjI1) (auto simp: slots_def)
  next
    assume "marked (tbl_map t) = {..<numBits (tbl_map t)}" "BitMap_Find (tbl_map t) = Inr (-1, tbl_map t)"
    with b show ?thesis by (intro disjI2) (simp add: Table_Put_def dom_slots)
  qed
qed

lemma Table_Remove_ok:
  assumes "table_inv t"
  shows "\<exists>t'. Table_Remove i t = Inr (if 0 \<le> i then (case slots t (nat i) of None \<Rightarrow> None | Some p \<Rightarrow> p) else None, t')
    \<and> table_inv t' \<and> tbl_size t' = tbl_size t
    \<and> slots t' = (if 0 \<le> i then (slots t)(nat i := None) else slots t)"
proof (cases "0 \<le> i \<and> nat i \<in> marked (tbl_map t)")
  case True
  then have i: "nat i < tbl_size t" "int (nat i) = i" using marked_less [OF assms, of "nat i"] by auto
  from assms have b: "bitmap_inv (tbl_map t)" "nat i < numBits (tbl_map t)"
    using i by (auto simp: table_inv_def)
  from Clear_ok [OF b] obtain m where m: "BitMap_Clear i (tbl_map t) = Inr m" "bitmap_inv m"
    "numBits m = numBits (tbl_map t)" "marked m = marked (tbl_map t) - {nat i}" using i by auto
  let ?t = "t\<lparr>tbl_map := m, tbl_table := (tbl_table t)[nat i := None]\<rparr>"
  have "Table_Remove i t = Inr (tbl_table t ! nat i, ?t)"
    using Test_ok [OF b] True i m(1) by (auto simp: Table_Remove_def)
  moreover have "table_inv ?t" using assms m by (simp add: table_inv_def)
  moreover have "slots ?t = (slots t)(nat i := None)"
    using m(4) by (auto simp: slots_def fun_eq_iff)
  ultimately show ?thesis using True by (simp add: slots_def)
next
  case False
  have none: "slots t (nat i) = None" if "0 \<le> i" using that False by (simp add: slots_def)
  have "Table_Remove i t = Inr (None, t)"
  proof (cases "0 \<le> i \<and> i < int (tbl_size t)")
    case True
    with False assms Test_ok [of "tbl_map t" "nat i"] show ?thesis
      by (auto simp: Table_Remove_def table_inv_def)
  qed (auto simp: Table_Remove_def)
  moreover have "(slots t)(nat i := None) = slots t" if "0 \<le> i"
    using none [OF that] by (rule fun_upd_idem)
  ultimately show ?thesis using assms none by auto
qed

section \<open>The contract of a table of handles\<close>

locale handle_table =
  fixes look :: "'t \<Rightarrow> nat \<Rightarrow> 'a option option" and cap :: "'t \<Rightarrow> nat" and inv :: "'t \<Rightarrow> bool"
    and put :: "'a option \<Rightarrow> 't \<Rightarrow> (int \<times> 't) result"
    and get :: "int \<Rightarrow> 't \<Rightarrow> 'a option result"
    and remove :: "int \<Rightarrow> 't \<Rightarrow> ('a option \<times> 't) result"
  assumes put_law: "inv t \<Longrightarrow>
      (\<exists>i t'. i < cap t \<and> look t i = None \<and> put p t = Inr (int i, t') \<and> inv t' \<and> cap t' = cap t
        \<and> look t' = (look t)(i \<mapsto> p))
      \<or> (dom (look t) = {..<cap t} \<and> put p t = Inr (-1, t))"
    and get_law: "inv t \<Longrightarrow> get i t = Inr (if 0 \<le> i then (case look t (nat i) of None \<Rightarrow> None | Some p \<Rightarrow> p) else None)"
    and remove_law: "inv t \<Longrightarrow>
      \<exists>t'. remove i t = Inr (if 0 \<le> i then (case look t (nat i) of None \<Rightarrow> None | Some p \<Rightarrow> p) else None, t')
        \<and> inv t' \<and> cap t' = cap t \<and> look t' = (if 0 \<le> i then (look t)(nat i := None) else look t)"
begin

lemma put_get: "inv t \<Longrightarrow> put p t = Inr (i, t') \<Longrightarrow> i \<noteq> -1 \<Longrightarrow>
    inv t' \<and> get i t' = Inr p \<and> (\<forall>j. j \<noteq> i \<longrightarrow> get j t' = get j t)"
  using put_law [of t p] by (auto simp: get_law)

lemma put_remove: "inv t \<Longrightarrow> put p t = Inr (i, t') \<Longrightarrow> i \<noteq> -1 \<Longrightarrow>
    \<exists>t''. remove i t' = Inr (p, t'') \<and> inv t'' \<and> look t'' = look t \<and> get i t'' = Inr None"
  using put_law [of t p] remove_law [of t' i] by (auto simp: get_law fun_upd_idem)

lemma put_full: "inv t \<Longrightarrow> put p t = Inr (-1, t') \<longleftrightarrow> dom (look t) = {..<cap t} \<and> t' = t"
proof
  assume t: "inv t" "put p t = Inr (-1, t')"
  then show "dom (look t) = {..<cap t} \<and> t' = t" using put_law [of t p] by auto
next
  assume "inv t" "dom (look t) = {..<cap t} \<and> t' = t"
  moreover from this have "look t i \<noteq> None" if "i < cap t" for i
    using that by (metis domD lessThan_iff option.distinct(1))
  ultimately show "put p t = Inr (-1, t')" using put_law [of t p] by auto
qed

end

interpretation table: handle_table slots tbl_size table_inv Table_Put Table_Get Table_Remove
  by unfold_locales (fact Table_Put_ok Table_Get_ok Table_Remove_ok)+

section \<open>Properties\<close>

text \<open>
  A table is a finite map from identifiers to pointers. Storing a pointer returns an
  identifier that was free; looking it up then returns the pointer, no other identifier changes,
  and removing it returns the pointer and restores the map. A table answers \<open>-1\<close> exactly when all
  its slots are taken.
\<close>

theorem table_put_get_remove:
  assumes "table_inv t" "Table_Put p t = Inr (i, t')"
  shows "(i = -1 \<longleftrightarrow> dom (slots t) = {..<tbl_size t})
    \<and> (i \<noteq> -1 \<longrightarrow> Table_Get i t = Inr None \<and> table_inv t' \<and> Table_Get i t' = Inr p
        \<and> (\<forall>j. j \<noteq> i \<longrightarrow> Table_Get j t' = Table_Get j t)
        \<and> (\<exists>t''. Table_Remove i t' = Inr (p, t'') \<and> table_inv t'' \<and> slots t'' = slots t))"
proof (intro conjI impI)
  show "i = -1 \<longleftrightarrow> dom (slots t) = {..<tbl_size t}"
    using table.put_full [OF assms(1), of p t] table.put_full [OF assms(1), of p t'] assms(2) by auto
  assume i: "i \<noteq> -1"
  show "Table_Get i t = Inr None"
    using table.put_law [OF assms(1), of p] assms(2) i by (auto simp: Table_Get_ok [OF assms(1)])
  show "table_inv t'" "Table_Get i t' = Inr p" "\<forall>j. j \<noteq> i \<longrightarrow> Table_Get j t' = Table_Get j t"
    using table.put_get [OF assms i] by auto
  show "\<exists>t''. Table_Remove i t' = Inr (p, t'') \<and> table_inv t'' \<and> slots t'' = slots t"
    using table.put_remove [OF assms i] by blast
qed

definition table2 :: "nat Table" where
  "table2 = \<lparr>tbl_map = \<lparr>numBits = 2, numWords = 1, bm_map = [1]\<rparr>, tbl_table = [Some 5, None], tbl_size = 2\<rparr>"

theorem table_put_get_remove_witness:
  "\<exists>t'. table_inv table2 \<and> Table_Put (Some 9) table2 = Inr (1, t') \<and> Table_Get 1 t' = Inr (Some 9)"
proof -
  have inv: "table_inv table2"
    by (simp add: table2_def table_inv_def bitmap_inv_def divRoundUp_def BitsInWord_def)
  have put: "\<exists>t'. Table_Put (Some 9) table2 = Inr (1, t')"
    by (simp add: table2_def Table_Put_def BitMap_Find_def BitMap_Test_def BitMap_Mark_def map_word_def
        BitsInWord_def upt_rec)
  then obtain t' where t': "Table_Put (Some 9) table2 = Inr (1, t')" by blast
  with table_put_get_remove [OF inv t'] inv show ?thesis by auto
qed

end
