(* ===== verification/Machine.thy ===== *)
theory Machine
  imports Prelude
begin

text \<open>
  The simulated machine of \<open>machine/machine.cc\<close> and \<open>machine/translate.cc\<close>: registers, main
  memory, address translation and byte order.

  Registers and memory bytes are kept at their width (\<open>32 word\<close>, \<open>8 word\<close>). Page tables live in
  a store, and \<open>m_pageTable\<close> is the pointer \<open>machine->pageTable\<close>, because the table is shared
  with the address space it belongs to. The host's byte order (\<open>HOST_IS_BIG_ENDIAN\<close>) is a
  parameter of the memory operations; the theorems hold for both.

  \<open>ReadMem\<close> and \<open>WriteMem\<close> end in \<open>Inl e\<close> where the C++ code calls \<open>RaiseException(e, addr)\<close> and
  returns \<open>FALSE\<close>; the machine is then the one \<open>RaiseException\<close> hands to \<open>ExceptionHandler\<close>.
\<close>

unbundle bit_operations_syntax

section \<open>Data\<close>

definition SectorSize :: nat where
  "SectorSize = 128"

definition PageSize :: nat where
  "PageSize = SectorSize"

definition NumPhysPages :: nat where
  "NumPhysPages = 4096"

definition MemorySize :: nat where
  "MemorySize = NumPhysPages * PageSize"

definition TLBSize :: nat where
  "TLBSize = 4"

datatype ExceptionType = NoException | SyscallException | PageFaultException | ReadOnlyException
  | BusErrorException | AddressErrorException | OverflowException | IllegalInstrException

abbreviation (input) StackReg :: nat where "StackReg \<equiv> 29"
abbreviation (input) RetAddrReg :: nat where "RetAddrReg \<equiv> 31"
abbreviation (input) HiReg :: nat where "HiReg \<equiv> 32"
abbreviation (input) LoReg :: nat where "LoReg \<equiv> 33"
abbreviation (input) PCReg :: nat where "PCReg \<equiv> 34"
abbreviation (input) NextPCReg :: nat where "NextPCReg \<equiv> 35"
abbreviation (input) PrevPCReg :: nat where "PrevPCReg \<equiv> 36"
abbreviation (input) LoadReg :: nat where "LoadReg \<equiv> 37"
abbreviation (input) LoadValueReg :: nat where "LoadValueReg \<equiv> 38"
abbreviation (input) BadVAddrReg :: nat where "BadVAddrReg \<equiv> 39"
abbreviation (input) NumGPRegs :: nat where "NumGPRegs \<equiv> 32"
abbreviation (input) NumTotalRegs :: nat where "NumTotalRegs \<equiv> 40"

record TranslationEntry =
  virtualPage :: "32 word"
  physicalPage :: "32 word"
  valid :: bool
  readOnly :: bool
  use :: bool
  dirty :: bool

record machine =
  registers :: "nat \<Rightarrow> 32 word"
  mainMemory :: "nat \<Rightarrow> 8 word"
  pageTables :: "nat \<Rightarrow> TranslationEntry list"
  m_pageTable :: "nat option"
  m_pageTableSize :: nat
  m_tlb :: "TranslationEntry list option"
  lastUsed :: "nat \<Rightarrow> int"

text \<open>The constructor, compiled without \<open>USE_TLB\<close>; \<open>now\<close> is \<open>stats->totalTicks\<close>.
  \<open>pageTableSize\<close> is not initialised.\<close>

definition Machine_new :: "int \<Rightarrow> nat \<Rightarrow> (nat \<Rightarrow> TranslationEntry list) \<Rightarrow> machine" where
  "Machine_new now junkSize tables =
     \<lparr>registers = (\<lambda>_. 0), mainMemory = (\<lambda>_. 0), pageTables = tables, m_pageTable = None,
      m_pageTableSize = junkSize, m_tlb = None, lastUsed = (\<lambda>_. now)\<rparr>"

text \<open>The time stamps are 64 bits wide and the result an \<open>int\<close>: it is truncated.\<close>

definition getTimeUsed :: "int \<Rightarrow> machine \<Rightarrow> int" where
  "getTimeUsed pageNo m = (if pageNo < 0 \<or> pageNo \<ge> int NumPhysPages then -1
     else sint (word_of_int (lastUsed m (nat pageNo)) :: 32 word))"

definition ReadRegister :: "int \<Rightarrow> machine \<Rightarrow> 32 word result" where
  "ReadRegister num m = rbind (ASSERT (0 \<le> num \<and> num < int NumTotalRegs)) (\<lambda>_. Inr (registers m (nat num)))"

definition WriteRegister :: "int \<Rightarrow> 32 word \<Rightarrow> machine \<Rightarrow> machine result" where
  "WriteRegister num value m = rbind (ASSERT (0 \<le> num \<and> num < int NumTotalRegs))
     (\<lambda>_. Inr (m\<lparr>registers := (registers m)(nat num := value)\<rparr>))"

text \<open>\<open>registers[registers[LoadReg]] = registers[LoadValueReg]\<close> indexes the register array with a
  stored value: outside the array the behaviour is undefined.\<close>

definition DelayedLoad :: "32 word \<Rightarrow> 32 word \<Rightarrow> machine \<Rightarrow> machine result" where
  "DelayedLoad nextReg nextValue m =
     (let r = registers m in
      if unat (r LoadReg) < NumTotalRegs
      then Inr (m\<lparr>registers := r(unat (r LoadReg) := r LoadValueReg, LoadReg := nextReg,
                                 LoadValueReg := nextValue, 0 := 0)\<rparr>)
      else Inl Undefined)"

text \<open>\<open>RaiseException\<close> up to its call of \<open>ExceptionHandler\<close>.\<close>

definition RaiseException :: "32 word \<Rightarrow> machine \<Rightarrow> machine result" where
  "RaiseException badVAddr m =
     DelayedLoad 0 0 (m\<lparr>registers := (registers m)(BadVAddrReg := badVAddr)\<rparr>)"

section \<open>Byte order\<close>

definition WordToHost :: "bool \<Rightarrow> 32 word \<Rightarrow> 32 word" where
  "WordToHost bigEndian w =
     (if bigEndian
      then (drop_bit 24 w AND 0xff) OR (drop_bit 8 w AND 0xff00) OR
           (push_bit 8 w AND 0xff0000) OR (push_bit 24 w AND 0xff000000)
      else w)"

definition ShortToHost :: "bool \<Rightarrow> 16 word \<Rightarrow> 16 word" where
  "ShortToHost bigEndian w =
     (if bigEndian then (push_bit 8 w AND 0xff00) OR (drop_bit 8 w AND 0xff) else w)"

definition WordToMachine :: "bool \<Rightarrow> 32 word \<Rightarrow> 32 word" where
  "WordToMachine bigEndian w = WordToHost bigEndian w"

definition ShortToMachine :: "bool \<Rightarrow> 16 word \<Rightarrow> 16 word" where
  "ShortToMachine bigEndian w = ShortToHost bigEndian w"

text \<open>An \<open>unsigned int *\<close> or \<open>unsigned short *\<close> into \<open>mainMemory\<close>, as the host reads and writes it.\<close>

definition byte_of :: "'a::len word \<Rightarrow> nat \<Rightarrow> 8 word" where
  "byte_of w k = ucast (drop_bit (8 * k) w)"

definition word_of_bytes :: "8 word \<Rightarrow> 8 word \<Rightarrow> 8 word \<Rightarrow> 8 word \<Rightarrow> 32 word" where
  "word_of_bytes b0 b1 b2 b3 = ucast b0 OR push_bit 8 (ucast b1) OR push_bit 16 (ucast b2) OR push_bit 24 (ucast b3)"

definition short_of_bytes :: "8 word \<Rightarrow> 8 word \<Rightarrow> 16 word" where
  "short_of_bytes b0 b1 = ucast b0 OR push_bit 8 (ucast b1)"

definition host_load32 :: "bool \<Rightarrow> (nat \<Rightarrow> 8 word) \<Rightarrow> nat \<Rightarrow> 32 word" where
  "host_load32 bigEndian mem a =
     (if bigEndian then word_of_bytes (mem (a + 3)) (mem (a + 2)) (mem (a + 1)) (mem a)
      else word_of_bytes (mem a) (mem (a + 1)) (mem (a + 2)) (mem (a + 3)))"

definition host_load16 :: "bool \<Rightarrow> (nat \<Rightarrow> 8 word) \<Rightarrow> nat \<Rightarrow> 16 word" where
  "host_load16 bigEndian mem a =
     (if bigEndian then short_of_bytes (mem (a + 1)) (mem a) else short_of_bytes (mem a) (mem (a + 1)))"

definition host_store32 :: "bool \<Rightarrow> nat \<Rightarrow> 32 word \<Rightarrow> (nat \<Rightarrow> 8 word) \<Rightarrow> (nat \<Rightarrow> 8 word)" where
  "host_store32 bigEndian a w mem =
     (if bigEndian
      then mem(a := byte_of w 3, a + 1 := byte_of w 2, a + 2 := byte_of w 1, a + 3 := byte_of w 0)
      else mem(a := byte_of w 0, a + 1 := byte_of w 1, a + 2 := byte_of w 2, a + 3 := byte_of w 3))"

definition host_store16 :: "bool \<Rightarrow> nat \<Rightarrow> 16 word \<Rightarrow> (nat \<Rightarrow> 8 word) \<Rightarrow> (nat \<Rightarrow> 8 word)" where
  "host_store16 bigEndian a w mem =
     (if bigEndian then mem(a := byte_of w 1, a + 1 := byte_of w 0)
      else mem(a := byte_of w 0, a + 1 := byte_of w 1))"

section \<open>Address translation\<close>

text \<open>Where \<open>entry\<close> points: into the current page table or into the TLB.\<close>

datatype entry_ref = PageTableEntry nat nat | TLBEntry nat

fun entry_at :: "machine \<Rightarrow> entry_ref \<Rightarrow> TranslationEntry" where
  "entry_at m (PageTableEntry p v) = pageTables m p ! v"
| "entry_at m (TLBEntry i) = (case m_tlb m of Some t \<Rightarrow> t ! i | None \<Rightarrow> undefined)"

fun entry_update :: "machine \<Rightarrow> entry_ref \<Rightarrow> TranslationEntry \<Rightarrow> machine" where
  "entry_update m (PageTableEntry p v) e = m\<lparr>pageTables := (pageTables m)(p := (pageTables m p)[v := e])\<rparr>"
| "entry_update m (TLBEntry i) e = m\<lparr>m_tlb := map_option (\<lambda>t. t[i := e]) (m_tlb m)\<rparr>"

fun tlb_search :: "nat \<Rightarrow> TranslationEntry list \<Rightarrow> nat list \<Rightarrow> nat option" where
  "tlb_search vpn t [] = None"
| "tlb_search vpn t (i # is) =
     (if i < length t \<and> valid (t ! i) \<and> unat (virtualPage (t ! i)) = vpn then Some i else tlb_search vpn t is)"

text \<open>The choice of the translation entry: \<open>Inl e\<close> where \<open>Translate\<close> returns exception \<open>e\<close>.\<close>

definition find_entry :: "nat \<Rightarrow> machine \<Rightarrow> (ExceptionType + entry_ref) result" where
  "find_entry vpn m =
     (case m_tlb m of
        None \<Rightarrow>
        (case m_pageTable m of None \<Rightarrow> Inl Abort
         | Some p \<Rightarrow>
           if vpn \<ge> m_pageTableSize m then Inr (Inl AddressErrorException)
           else if vpn \<ge> length (pageTables m p) then Inl Undefined
           else if \<not> valid (pageTables m p ! vpn) then Inr (Inl PageFaultException)
           else Inr (Inr (PageTableEntry p vpn)))
      | Some t \<Rightarrow>
        (case tlb_search vpn t [0..<TLBSize] of
           None \<Rightarrow> Inr (Inl PageFaultException)
         | Some i \<Rightarrow> Inr (Inr (TLBEntry i))))"

definition misaligned :: "32 word \<Rightarrow> nat \<Rightarrow> bool" where
  "misaligned a sz \<longleftrightarrow> (sz = 4 \<and> a AND 3 \<noteq> 0) \<or> (sz = 2 \<and> a AND 1 \<noteq> 0)"

definition Translate :: "32 word \<Rightarrow> nat \<Rightarrow> bool \<Rightarrow> machine \<Rightarrow> (ExceptionType + nat \<times> machine) result" where
  "Translate virtAddr sz writing m =
     (if misaligned virtAddr sz then Inr (Inl AddressErrorException)
      else rbind (ASSERT (m_tlb m = None \<or> m_pageTable m = None)) (\<lambda>_.
           rbind (ASSERT (m_tlb m \<noteq> None \<or> m_pageTable m \<noteq> None)) (\<lambda>_.
           let vpn = unat virtAddr div PageSize; offset = unat virtAddr mod PageSize in
           rbind (find_entry vpn m) (\<lambda>found. case found of Inl e \<Rightarrow> Inr (Inl e)
             | Inr ref \<Rightarrow>
               let entry = entry_at m ref; pageFrame = unat (physicalPage entry) in
               if readOnly entry \<and> writing then Inr (Inl ReadOnlyException)
               else if pageFrame \<ge> NumPhysPages then Inr (Inl BusErrorException)
               else let m' = entry_update m ref (entry\<lparr>use := True, dirty := (if writing then True else dirty entry)\<rparr>);
                        physAddr = pageFrame * PageSize + offset
                    in rbind (ASSERT (physAddr + sz \<le> MemorySize)) (\<lambda>_. Inr (Inr (physAddr, m')))))))"

definition touch :: "nat \<Rightarrow> int \<Rightarrow> machine \<Rightarrow> machine" where
  "touch physAddr now m = m\<lparr>lastUsed := (lastUsed m)(physAddr div PageSize := now)\<rparr>"

definition ReadMem :: "bool \<Rightarrow> int \<Rightarrow> 32 word \<Rightarrow> nat \<Rightarrow> machine \<Rightarrow> ((ExceptionType + 32 word) \<times> machine) result" where
  "ReadMem bigEndian now addr sz m =
     rbind (Translate addr sz False m) (\<lambda>t. case t of
       Inl e \<Rightarrow> rbind (RaiseException addr m) (\<lambda>m'. Inr (Inl e, m'))
     | Inr (physAddr, m') \<Rightarrow>
       (if sz = 1 then Inr (Inr (scast (mainMemory m' physAddr)), touch physAddr now m')
        else if sz = 2 then
          Inr (Inr (ucast (ShortToHost bigEndian (host_load16 bigEndian (mainMemory m') physAddr))), touch physAddr now m')
        else if sz = 4 then
          Inr (Inr (WordToHost bigEndian (host_load32 bigEndian (mainMemory m') physAddr)), touch physAddr now m')
        else Inl Abort))"

definition WriteMem :: "bool \<Rightarrow> int \<Rightarrow> 32 word \<Rightarrow> nat \<Rightarrow> 32 word \<Rightarrow> machine \<Rightarrow> ((ExceptionType + unit) \<times> machine) result" where
  "WriteMem bigEndian now addr sz value m =
     rbind (Translate addr sz True m) (\<lambda>t. case t of
       Inl e \<Rightarrow> rbind (RaiseException addr m) (\<lambda>m'. Inr (Inl e, m'))
     | Inr (physAddr, m') \<Rightarrow>
       (if sz = 1 then
          Inr (Inr (), touch physAddr now (m'\<lparr>mainMemory := (mainMemory m')(physAddr := ucast (value AND 0xff))\<rparr>))
        else if sz = 2 then
          Inr (Inr (), touch physAddr now (m'\<lparr>mainMemory :=
            host_store16 bigEndian physAddr (ShortToMachine bigEndian (ucast (value AND 0xffff))) (mainMemory m')\<rparr>))
        else if sz = 4 then
          Inr (Inr (), touch physAddr now (m'\<lparr>mainMemory :=
            host_store32 bigEndian physAddr (WordToMachine bigEndian value) (mainMemory m')\<rparr>))
        else Inl Abort))"

section \<open>Byte order does not show\<close>

text \<open>Memory as the simulated machine sees it: little endian.\<close>

definition load32 :: "(nat \<Rightarrow> 8 word) \<Rightarrow> nat \<Rightarrow> 32 word" where
  "load32 mem a = word_of_bytes (mem a) (mem (a + 1)) (mem (a + 2)) (mem (a + 3))"

definition load16 :: "(nat \<Rightarrow> 8 word) \<Rightarrow> nat \<Rightarrow> 16 word" where
  "load16 mem a = short_of_bytes (mem a) (mem (a + 1))"

lemma bit_word_of_bytes:
  "bit (word_of_bytes b0 b1 b2 b3) n \<longleftrightarrow>
     (if n < 8 then bit b0 n else if n < 16 then bit b1 (n - 8)
      else if n < 24 then bit b2 (n - 16) else n < 32 \<and> bit b3 (n - 24))"
  by (auto simp: word_of_bytes_def bit_simps not_less dest: bit_imp_le_length)

lemma bit_short_of_bytes:
  "bit (short_of_bytes b0 b1) n \<longleftrightarrow> (if n < 8 then bit b0 n else n < 16 \<and> bit b1 (n - 8))"
  by (auto simp: short_of_bytes_def bit_simps not_less dest: bit_imp_le_length)

lemma bit_byte_of: "bit (byte_of w k) n \<longleftrightarrow> n < 8 \<and> bit w (8 * k + n)"
  by (auto simp: byte_of_def bit_simps)

lemma byte_of_word_of_bytes:
  "byte_of (word_of_bytes b0 b1 b2 b3) 0 = b0" "byte_of (word_of_bytes b0 b1 b2 b3) 1 = b1"
  "byte_of (word_of_bytes b0 b1 b2 b3) 2 = b2" "byte_of (word_of_bytes b0 b1 b2 b3) 3 = b3"
  by (rule bit_word_eqI; simp add: bit_byte_of bit_word_of_bytes)+

lemma word_of_bytes_byte_of: "word_of_bytes (byte_of w 0) (byte_of w 1) (byte_of w 2) (byte_of w 3) = w"
  by (rule bit_word_eqI) (auto simp: bit_byte_of bit_word_of_bytes)

lemma short_of_bytes_byte_of: "short_of_bytes (byte_of w 0) (byte_of w 1) = w"
  by (rule bit_word_eqI) (auto simp: bit_byte_of bit_short_of_bytes)

lemma byte_masks:
  "(0xff :: 'a::len word) = mask 8" "(0xff00 :: 'a word) = push_bit 8 (mask 8)"
  "(0xff0000 :: 'a word) = push_bit 16 (mask 8)" "(0xff000000 :: 'a word) = push_bit 24 (mask 8)"
  by (simp_all add: mask_eq_exp_minus_1 push_bit_eq_mult)

lemma WordToHost_swap:
  "WordToHost True w = word_of_bytes (byte_of w 3) (byte_of w 2) (byte_of w 1) (byte_of w 0)"
  unfolding WordToHost_def byte_masks
  by (rule bit_word_eqI) (auto simp: bit_simps bit_word_of_bytes bit_byte_of not_less)

lemma ShortToHost_swap: "ShortToHost True w = short_of_bytes (byte_of w 1) (byte_of w 0)"
  unfolding ShortToHost_def byte_masks
  by (rule bit_word_eqI) (auto simp: bit_simps bit_short_of_bytes bit_byte_of not_less)

lemma byte_of_short_of_bytes:
  "byte_of (short_of_bytes b0 b1) 0 = b0" "byte_of (short_of_bytes b0 b1) 1 = b1"
  by (rule bit_word_eqI; simp add: bit_byte_of bit_short_of_bytes)+

lemma host_load32_WordToHost: "WordToHost be (host_load32 be mem a) = load32 mem a"
  by (cases be) (simp_all add: WordToHost_swap host_load32_def load32_def byte_of_word_of_bytes byte_of_word_of_bytes [simplified] WordToHost_def [of False])

lemma host_load16_ShortToHost: "ShortToHost be (host_load16 be mem a) = load16 mem a"
  by (cases be) (simp_all add: ShortToHost_swap host_load16_def load16_def byte_of_short_of_bytes [simplified] ShortToHost_def [of False])

lemma host_store32_WordToMachine:
  "host_store32 be a (WordToMachine be w) mem =
     mem(a := byte_of w 0, a + 1 := byte_of w 1, a + 2 := byte_of w 2, a + 3 := byte_of w 3)"
  by (cases be) (simp_all add: WordToMachine_def WordToHost_swap host_store32_def byte_of_word_of_bytes byte_of_word_of_bytes [simplified] WordToHost_def [of False])

lemma host_store16_ShortToMachine:
  "host_store16 be a (ShortToMachine be w) mem = mem(a := byte_of w 0, a + 1 := byte_of w 1)"
  by (cases be) (simp_all add: ShortToMachine_def ShortToHost_swap host_store16_def byte_of_short_of_bytes [simplified] ShortToHost_def [of False])

section \<open>Translation\<close>

lemma find_entry_page_table:
  assumes "m_tlb m = None"
  shows "find_entry vpn m = Inr (Inr ref) \<longleftrightarrow>
    (\<exists>p. m_pageTable m = Some p \<and> ref = PageTableEntry p vpn \<and> vpn < m_pageTableSize m
       \<and> vpn < length (pageTables m p) \<and> valid (pageTables m p ! vpn))"
  using assms by (auto simp: find_entry_def split: option.splits)

text \<open>A successful translation through a page table, with everything it establishes.\<close>

lemma Translate_page_table:
  assumes "m_tlb m = None"
  shows "Translate a sz w m = Inr (Inr (pa, m')) \<longleftrightarrow>
    (\<exists>p e. m_pageTable m = Some p \<and> unat a div PageSize < m_pageTableSize m
       \<and> unat a div PageSize < length (pageTables m p) \<and> e = pageTables m p ! (unat a div PageSize) \<and> valid e
       \<and> \<not> misaligned a sz \<and> \<not> (readOnly e \<and> w) \<and> unat (physicalPage e) < NumPhysPages
       \<and> pa = unat (physicalPage e) * PageSize + unat a mod PageSize \<and> pa + sz \<le> MemorySize
       \<and> m' = m\<lparr>pageTables := (pageTables m)(p := (pageTables m p)[unat a div PageSize :=
             e\<lparr>use := True, dirty := (if w then True else dirty e)\<rparr>])\<rparr>)" (is "?L \<longleftrightarrow> ?R")
proof (cases "m_pageTable m")
  case None
  then show ?thesis using assms by (simp add: Translate_def find_entry_def)
next
  case (Some p)
  define vpn where "vpn = unat a div PageSize"
  show ?thesis
    using assms Some
    unfolding Translate_def Let_def find_entry_def vpn_def [symmetric]
    by (simp add: not_less rbind_eq_Inr) (metis (no_types, lifting) not_le)
qed

lemma and_mask_mod:
  "(a :: 32 word) AND 3 = 0 \<longleftrightarrow> 4 dvd unat a" "a AND 1 = 0 \<longleftrightarrow> 2 dvd unat a"
proof -
  have u: "unat (take_bit n a) = unat a mod 2 ^ n" for n
    by (subst unsigned_take_bit_eq) (rule take_bit_eq_mod)
  have "a AND 3 = take_bit 2 a" "a AND 1 = take_bit 1 a"
    by (simp_all only: take_bit_eq_mask mask_eq_exp_minus_1) simp_all
  then have "unat (a AND 3) = unat a mod 4" "unat (a AND 1) = unat a mod 2"
    by (simp_all only: u) simp_all
  then show "a AND 3 = 0 \<longleftrightarrow> 4 dvd unat a" "a AND 1 = 0 \<longleftrightarrow> 2 dvd unat a"
    by (metis dvd_eq_mod_eq_0 unat_0 unat_eq_zero)+
qed

lemma PageSize_128 [simp]: "PageSize = 128"
  by (simp add: PageSize_def SectorSize_def)

text \<open>An aligned access of 1, 2 or 4 bytes stays within the page it starts in.\<close>

lemma aligned_offset:
  fixes n :: nat
  assumes "k dvd n" "k dvd 128"
  shows "n mod 128 + k \<le> 128"
proof -
  have "k dvd n mod 128" using assms by (simp add: dvd_mod)
  then obtain j where "n mod 128 = k * j" ..
  moreover obtain l where "128 = k * l" using assms(2) ..
  moreover have "n mod 128 < 128" by simp
  ultimately have "k * j < k * l" by linarith
  then have "Suc j \<le> l" by simp
  then have "k * Suc j \<le> k * l" by (rule mult_le_mono2)
  with \<open>n mod 128 = k * j\<close> \<open>128 = k * l\<close> show ?thesis by simp
qed

lemma access_within_page:
  assumes "\<not> misaligned a sz" "sz \<in> {1, 2, 4}" "i < sz"
  shows "(f * PageSize + unat a mod PageSize + i) div PageSize = f"
proof -
  have "unat a mod 128 + sz \<le> 128"
    using assms(1,2) by (intro aligned_offset) (auto simp: misaligned_def and_mask_mod)
  then show ?thesis using assms(3) by simp
qed

text \<open>The physical pages a page table makes accessible.\<close>

definition frames :: "machine \<Rightarrow> nat \<Rightarrow> nat set" where
  "frames m p = {unat (physicalPage (pageTables m p ! v)) | v.
     v < m_pageTableSize m \<and> v < length (pageTables m p) \<and> valid (pageTables m p ! v)}"

lemma RaiseException_memory: "RaiseException bad m = Inr m' \<Longrightarrow>
    mainMemory m' = mainMemory m \<and> pageTables m' = pageTables m"
  by (auto simp: RaiseException_def DelayedLoad_def Let_def split: if_splits)

lemma low_bytes:
  "ucast (v AND 0xff) = byte_of (v :: 32 word) 0"
  "byte_of (ucast (v AND 0xffff) :: 16 word) 0 = byte_of v 0"
  "byte_of (ucast (v AND 0xffff) :: 16 word) (Suc 0) = byte_of v (Suc 0)"
proof -
  have "(0xffff :: 32 word) = mask 16" "(0xff :: 32 word) = mask 8"
    by (simp_all add: mask_eq_exp_minus_1)
  note m = this
  show "ucast (v AND 0xff) = byte_of (v :: 32 word) 0"
    "byte_of (ucast (v AND 0xffff) :: 16 word) 0 = byte_of v 0"
    "byte_of (ucast (v AND 0xffff) :: 16 word) (Suc 0) = byte_of v (Suc 0)"
    by (rule bit_word_eqI; auto simp: byte_of_def bit_simps m)+
qed

lemma WriteMem_cases:
  assumes "WriteMem be now a sz v m = Inr (r, m')"
  obtains (fault) e where "r = Inl e" "Translate a sz True m = Inr (Inl e)" "RaiseException a m = Inr m'"
    | (written) pa m1 where "r = Inr ()" "Translate a sz True m = Inr (Inr (pa, m1))" "sz \<in> {1, 2, 4}"
        "m' = touch pa now (m1\<lparr>mainMemory :=
           (if sz = 1 then (mainMemory m1)(pa := byte_of v 0)
            else if sz = 2 then (mainMemory m1)(pa := byte_of v 0, pa + 1 := byte_of v 1)
            else (mainMemory m1)(pa := byte_of v 0, pa + 1 := byte_of v 1, pa + 2 := byte_of v 2, pa + 3 := byte_of v 3))\<rparr>)"
proof -
  from assms obtain t where t: "Translate a sz True m = Inr t"
    by (auto simp: WriteMem_def rbind_eq_Inr)
  note eqs = WriteMem_def rbind_eq_Inr low_bytes host_store16_ShortToMachine host_store32_WordToMachine
  show ?thesis
  proof (cases t)
    case (Inl e)
    then show ?thesis using assms t by (auto simp: eqs intro: fault)
  next
    case (Inr q)
    then obtain pa m1 where q: "t = Inr (pa, m1)" by (cases q) auto
    from assms t q have "sz \<in> {1, 2, 4}" by (auto simp: WriteMem_def split: if_splits)
    moreover from this assms t q have "r = Inr ()" by (auto simp: eqs)
    ultimately show ?thesis using assms t q
      by (intro written [of pa m1]) (auto simp: eqs)
  qed
qed

lemma frames_touch [simp]: "frames (touch pa now m) p = frames m p" "mainMemory (touch pa now m) = mainMemory m"
  "pageTables (touch pa now m) = pageTables m" "m_tlb (touch pa now m) = m_tlb m"
  "m_pageTable (touch pa now m) = m_pageTable m" "m_pageTableSize (touch pa now m) = m_pageTableSize m"
  by (simp_all add: touch_def frames_def)

lemma frames_memory [simp]: "frames (m\<lparr>mainMemory := x\<rparr>) p = frames m p"
  by (simp add: frames_def)

lemma frames_RaiseException: "RaiseException bad m = Inr m' \<Longrightarrow> frames m' p = frames m p"
  by (auto simp: RaiseException_def DelayedLoad_def Let_def frames_def split: if_splits)

text \<open>Setting the use and dirty bits does not change what a table maps.\<close>

lemma frames_use_bits:
  assumes "e = pageTables m p ! v"
  shows "frames (m\<lparr>pageTables := (pageTables m)(p := (pageTables m p)[v := e\<lparr>use := u, dirty := d\<rparr>])\<rparr>) p = frames m p"
proof -
  have "valid ((pageTables m p)[v := e\<lparr>use := u, dirty := d\<rparr>] ! w) = valid (pageTables m p ! w)"
    "physicalPage ((pageTables m p)[v := e\<lparr>use := u, dirty := d\<rparr>] ! w) = physicalPage (pageTables m p ! w)"
    if "w < length (pageTables m p)" for w
    using that assms by (cases "v = w"; simp)+
  then show ?thesis unfolding frames_def by (intro Collect_cong ex_cong1) auto
qed

lemma Translate_frames:
  assumes "m_tlb m = None" "m_pageTable m = Some p" "Translate a sz w m = Inr (Inr (pa, m'))" "sz \<in> {1, 2, 4}"
  shows "frames m' p = frames m p" "mainMemory m' = mainMemory m" "\<And>i. i < sz \<Longrightarrow> (pa + i) div PageSize \<in> frames m p"
proof -
  let ?v = "unat a div PageSize"
  from assms obtain e where e: "e = pageTables m p ! ?v" "valid e" "?v < m_pageTableSize m" "?v < length (pageTables m p)"
    "\<not> misaligned a sz" "pa = unat (physicalPage e) * PageSize + unat a mod PageSize"
    "m' = m\<lparr>pageTables := (pageTables m)(p := (pageTables m p)[?v := e\<lparr>use := True, dirty := (if w then True else dirty e)\<rparr>])\<rparr>"
    unfolding Translate_page_table [OF assms(1)] by auto
  show "frames m' p = frames m p" unfolding e(7) by (rule frames_use_bits [OF e(1)])
  show "mainMemory m' = mainMemory m" by (simp add: e(7))
  fix i assume "i < sz"
  with access_within_page [OF e(5) assms(4)] e(6) have "(pa + i) div PageSize = unat (physicalPage e)" by simp
  with e(1-4) show "(pa + i) div PageSize \<in> frames m p" unfolding frames_def by blast
qed

lemma Translate_again:
  assumes "m_tlb m = None" "m_pageTable m = Some p" "Translate a sz w m = Inr (Inr (pa, m1))"
  shows "\<exists>m3. Translate a sz False (touch pa now (m1\<lparr>mainMemory := mem\<rparr>)) = Inr (Inr (pa, m3)) \<and> mainMemory m3 = mem"
proof -
  let ?v = "unat a div PageSize"
  let ?m = "touch pa now (m1\<lparr>mainMemory := mem\<rparr>)"
  from assms obtain e where e: "e = pageTables m p ! ?v" "valid e" "?v < m_pageTableSize m" "?v < length (pageTables m p)"
    "\<not> misaligned a sz" "unat (physicalPage e) < NumPhysPages"
    "pa = unat (physicalPage e) * PageSize + unat a mod PageSize" "pa + sz \<le> MemorySize"
    "m1 = m\<lparr>pageTables := (pageTables m)(p := (pageTables m p)[?v := e\<lparr>use := True, dirty := (if w then True else dirty e)\<rparr>])\<rparr>"
    unfolding Translate_page_table [OF assms(1)] by auto
  have n: "m_tlb ?m = None" using assms(1) by (simp add: e(9))
  define e' where "e' = pageTables ?m p ! ?v"
  have e': "valid e'" "physicalPage e' = physicalPage e"
    using e(2,4) by (simp_all add: e'_def e(9))
  define m3 where "m3 = ?m\<lparr>pageTables := (pageTables ?m)(p := (pageTables ?m p)[?v := e'\<lparr>use := True, dirty := dirty e'\<rparr>])\<rparr>"
  have "Translate a sz False ?m = Inr (Inr (pa, m3))"
    unfolding Translate_page_table [OF n]
    by (rule exI [of _ p], rule exI [of _ e']) (use e e' assms(2) in \<open>simp add: e'_def m3_def\<close>)
  then show ?thesis by (auto simp: m3_def)
qed

lemma load_stored_bytes:
  "load32 (mem(a := byte_of w 0, a + 1 := byte_of w 1, a + 2 := byte_of w 2, a + 3 := byte_of w 3)) a = w"
  "load16 (mem(a := byte_of w 0, a + 1 := byte_of w 1)) a = (ucast w :: 16 word)"
  by (simp add: load32_def word_of_bytes_byte_of [simplified])
    (rule bit_word_eqI, auto simp: load16_def bit_short_of_bytes bit_byte_of bit_simps)

lemma Translate_eq:
  assumes "m_tlb m = None" "m_pageTable m = Some p" "m_pageTableSize m \<le> length (pageTables m p)"
    "sz \<in> {1, 2, 4}"
  shows "Translate a sz w m =
    (let v = unat a div 128; e = pageTables m p ! v; pa = unat (physicalPage e) * 128 + unat a mod 128 in
     Inr (if unat a mod sz \<noteq> 0 \<or> m_pageTableSize m \<le> v then Inl AddressErrorException
          else if \<not> valid e then Inl PageFaultException
          else if readOnly e \<and> w then Inl ReadOnlyException
          else if 4096 \<le> unat (physicalPage e) then Inl BusErrorException
          else Inr (pa, m\<lparr>pageTables := (pageTables m)(p := (pageTables m p)[v := e\<lparr>use := True, dirty := (w \<or> dirty e)\<rparr>])\<rparr>)))"
proof -
  define v e where "v = unat a div 128" and "e = pageTables m p ! v"
  have al: "misaligned a sz \<longleftrightarrow> unat a mod sz \<noteq> 0"
    using assms(4) by (auto simp: misaligned_def and_mask_mod dvd_eq_mod_eq_0)
  have bound: "unat (physicalPage e) * 128 + unat a mod 128 + sz \<le> MemorySize"
    if "unat a mod sz = 0" "unat (physicalPage e) < 4096"
  proof -
    have "unat a mod 128 + sz \<le> 128" using that assms(4) by (intro aligned_offset) auto
    moreover have "unat (physicalPage e) * 128 + 128 \<le> 4096 * 128" using that(2) by linarith
    ultimately show ?thesis by (simp add: MemorySize_def NumPhysPages_def)
  qed
  have d: "(if w then True else dirty e) = (w \<or> dirty e)" by simp
  show ?thesis
    using assms(1-3) bound
    unfolding Translate_def Let_def al find_entry_def PageSize_128 v_def [symmetric] e_def [symmetric]
    by (auto simp: NumPhysPages_def e_def [symmetric])
qed

lemma WriteMem_mapped:
  assumes "m_tlb m = None" "m_pageTable m = Some p" "WriteMem be now a sz v m = Inr (r, m')"
    "pa div PageSize \<notin> frames m p"
  shows "mainMemory m' pa = mainMemory m pa \<and> frames m' p = frames m p"
  using assms(3)
proof (cases rule: WriteMem_cases)
  case (fault e)
  then show ?thesis using RaiseException_memory frames_RaiseException by simp
next
  case (written q m1)
  note fr = Translate_frames [OF assms(1,2) written(2,3)]
  have "pa \<noteq> q + i" if "i < sz" for i using fr(3) [OF that] assms(4) by auto
  then have "pa \<noteq> q" "1 < sz \<Longrightarrow> pa \<noteq> q + 1" "2 < sz \<Longrightarrow> pa \<noteq> q + 2" "3 < sz \<Longrightarrow> pa \<noteq> q + 3"
    using written(3) by fastforce+
  then show ?thesis using written fr(1,2) by auto
qed

section \<open>Properties of memory accesses\<close>

definition two_page_machine :: machine where
  "two_page_machine = (Machine_new 0 2 (\<lambda>_. [\<lparr>virtualPage = 0, physicalPage = 5, valid = True, readOnly = False, use = False, dirty = False\<rparr>,
      \<lparr>virtualPage = 1, physicalPage = 3, valid = True, readOnly = False, use = False, dirty = False\<rparr>]))
     \<lparr>m_pageTable := Some 0, m_pageTableSize := 2\<rparr>"

lemmas two_page_simps = two_page_machine_def Machine_new_def

text \<open>C31. Which exception an access takes: a misaligned word or halfword is an address error, as is a
  page beyond the page table; an invalid entry is a page fault, a write through a read-only entry a
  read-only fault, a frame beyond physical memory a bus error; in every other case the access
  succeeds, at the frame of its page and the offset within it, inside main memory.\<close>

theorem translate_decides:
  assumes "m_tlb m = None" "m_pageTable m = Some p" "m_pageTableSize m \<le> length (pageTables m p)"
    "sz \<in> {1, 2, 4}"
  shows "Translate a sz w m =
    (let v = unat a div 128; e = pageTables m p ! v; pa = unat (physicalPage e) * 128 + unat a mod 128 in
     Inr (if unat a mod sz \<noteq> 0 \<or> m_pageTableSize m \<le> v then Inl AddressErrorException
          else if \<not> valid e then Inl PageFaultException
          else if readOnly e \<and> w then Inl ReadOnlyException
          else if 4096 \<le> unat (physicalPage e) then Inl BusErrorException
          else Inr (pa, m\<lparr>pageTables := (pageTables m)(p := (pageTables m p)[v := e\<lparr>use := True, dirty := (w \<or> dirty e)\<rparr>])\<rparr>)))"
  using assms by (rule Translate_eq)

theorem translate_decides_witness:
  "Translate 130 4 True two_page_machine = Inr (Inl AddressErrorException)
   \<and> Translate 132 4 True two_page_machine \<noteq> Inr (Inl AddressErrorException)
   \<and> Translate 256 1 True two_page_machine = Inr (Inl AddressErrorException)"
  using translate_decides [of two_page_machine 0 4 130 True] translate_decides [of two_page_machine 0 4 132 True]
    translate_decides [of two_page_machine 0 1 256 True]
  by (simp add: two_page_simps Let_def)

text \<open>Isolation: a store through a page table, whatever its address, size and outcome, changes only
  bytes of physical pages that table maps, and it does not change what the table maps.\<close>

theorem write_stays_in_mapped_pages:
  assumes "m_tlb m = None" "m_pageTable m = Some p" "WriteMem be now a sz v m = Inr (r, m')"
    "pa div PageSize \<notin> frames m p"
  shows "mainMemory m' pa = mainMemory m pa \<and> frames m' p = frames m p"
  using assms by (rule WriteMem_mapped)

theorem write_stays_in_mapped_pages_witness:
  "\<exists>m'. WriteMem True 7 132 4 0x01020304 two_page_machine = Inr (Inr (), m') \<and> mainMemory m' 129 = 0"
proof -
  let ?m = two_page_machine
  obtain m' where m': "WriteMem True 7 132 4 0x01020304 ?m = Inr (Inr (), m')"
    by (simp add: WriteMem_def Translate_eq [of _ 0] two_page_simps Let_def)
  have "1 \<notin> frames ?m 0" by (auto simp: frames_def two_page_simps nth_Cons split: nat.splits)
  then have "mainMemory m' 129 = mainMemory ?m 129"
    using write_stays_in_mapped_pages [OF _ _ m', of 0 129] by (simp add: two_page_simps)
  with m' show ?thesis by (simp add: two_page_simps)
qed

text \<open>C32. A load from an address just stored to returns the stored value, for every access size and
  whatever the byte order of the host: bytes come back sign extended, halfwords zero extended.\<close>

theorem read_after_write:
  assumes "m_tlb m = None" "m_pageTable m = Some p" "WriteMem be now a sz v m = Inr (Inr (), m')"
  shows "\<exists>m''. ReadMem be' now' a sz m' =
      Inr (Inr (if sz = 1 then scast (ucast v :: 8 word) else if sz = 2 then ucast (ucast v :: 16 word) else v), m'')
    \<and> mainMemory m'' = mainMemory m'"
  using assms(3)
proof (cases rule: WriteMem_cases)
  case (written pa m1)
  define mem where "mem = (if sz = 1 then (mainMemory m1)(pa := byte_of v 0)
    else if sz = 2 then (mainMemory m1)(pa := byte_of v 0, pa + 1 := byte_of v 1)
    else (mainMemory m1)(pa := byte_of v 0, pa + 1 := byte_of v 1, pa + 2 := byte_of v 2, pa + 3 := byte_of v 3))"
  obtain m3 where m3: "Translate a sz False m' = Inr (Inr (pa, m3))" "mainMemory m3 = mem"
    using Translate_again [OF assms(1,2) written(2), of now mem] written(4) by (auto simp: mem_def)
  have "mainMemory m' = mem" using written(4) by (simp add: mem_def)
  moreover from written(3) consider "sz = 1" | "sz = 2" | "sz = 4" by blast
  then show ?thesis
  proof cases
    case 1
    with m3 written(4) show ?thesis by (simp add: ReadMem_def mem_def byte_of_def)
  next
    case 2
    with m3 written(4) show ?thesis
      by (simp add: ReadMem_def mem_def host_load16_ShortToHost load_stored_bytes [simplified])
  next
    case 3
    with m3 written(4) show ?thesis
      by (simp add: ReadMem_def mem_def host_load32_WordToHost load_stored_bytes [simplified])
  qed
qed simp

theorem read_after_write_witness:
  "\<exists>m' m''. WriteMem True 7 132 1 0x1234F5 two_page_machine = Inr (Inr (), m')
     \<and> ReadMem False 8 132 1 m' = Inr (Inr (- 11), m'')"
proof -
  obtain m' where m': "WriteMem True 7 132 1 0x1234F5 two_page_machine = Inr (Inr (), m')"
    by (simp add: WriteMem_def Translate_eq [of _ 0] two_page_simps Let_def)
  have "scast (ucast (0x1234F5 :: 32 word) :: 8 word) = (- 11 :: 32 word)" by code_simp
  with read_after_write [OF _ _ m', of 0 False 8] m' show ?thesis by (auto simp: two_page_simps)
qed

end
