(* ===== verification/Mips_Mult.thy ===== *)
theory Mips_Mult
  imports Machine
begin

text \<open>
  The multiplier \<open>Mult\<close> of \<open>machine/mipssim.cc\<close>: a shift-and-add loop over 32-bit words that
  delivers the 64-bit product in two words, signed or unsigned, and its correctness.
\<close>

section \<open>Multiplication\<close>

text \<open>The loop of \<open>Mult\<close>, with the number of iterations left.\<close>

fun mult_loop :: "nat \<Rightarrow> 32 word \<Rightarrow> 32 word \<Rightarrow> 32 word \<Rightarrow> 32 word \<Rightarrow> 32 word \<Rightarrow> 32 word \<times> 32 word" where
  "mult_loop 0 a bHi bLo hi lo = (hi, lo)"
| "mult_loop (Suc n) a bHi bLo hi lo =
     (let (hi, lo) =
        (if a AND 1 \<noteq> 0
         then (let lo = lo + bLo; hi = (if lo < bLo then hi + 1 else hi) in (hi + bHi, lo))
         else (hi, lo))
      in if a AND 1 \<noteq> 0 \<and> a AND 0xfffffffe = 0 then (hi, lo)
         else let bHi = push_bit 1 bHi; bHi = (if bLo AND 0x80000000 \<noteq> 0 then bHi OR 1 else bHi)
              in mult_loop n (signed_drop_bit 1 a) bHi (push_bit 1 bLo) hi lo)"

definition Mult :: "32 word \<Rightarrow> 32 word \<Rightarrow> bool \<Rightarrow> 32 word \<times> 32 word" where
  "Mult a b signedArith =
     (if a = 0 \<or> b = 0 then (0, 0)
      else let (negative, a) = (if signedArith \<and> a <s 0 then (True, - a) else (False, a));
               (negative, b) = (if signedArith \<and> b <s 0 then (\<not> negative, - b) else (negative, b));
               (hi, lo) = mult_loop 32 a 0 b 0 0
           in if negative
              then let hi = NOT hi; lo = NOT lo; lo = lo + 1; hi = (if lo = 0 then hi + 1 else hi) in (hi, lo)
              else (hi, lo))"

section \<open>Correctness of the loop\<close>

text \<open>The 64-bit value of a pair of words.\<close>

definition dword :: "32 word \<Rightarrow> 32 word \<Rightarrow> 64 word" where
  "dword hi lo = of_nat (unat hi) * 2 ^ 32 + of_nat (unat lo)"

lemma two_32_squared: "(2 :: 64 word) ^ 32 * 2 ^ 32 = 0"
  by simp

lemma unat_less_32: "unat (x :: 32 word) < 2 ^ 32"
  using unsigned_less [of x] by simp

lemma high_half_mod: "of_nat (n mod 2 ^ 32) * 2 ^ 32 = (of_nat n * 2 ^ 32 :: 64 word)"
proof -
  have "n = 2 ^ 32 * (n div 2 ^ 32) + n mod 2 ^ 32" by simp
  then have "(of_nat n :: 64 word) = 2 ^ 32 * of_nat (n div 2 ^ 32) + of_nat (n mod 2 ^ 32)"
    by (metis of_nat_add of_nat_mult of_nat_numeral of_nat_power)
  then have "(of_nat n * 2 ^ 32 :: 64 word) = (2 ^ 32 * 2 ^ 32) * of_nat (n div 2 ^ 32) + of_nat (n mod 2 ^ 32) * 2 ^ 32"
    by (simp only: distrib_right distrib_left ac_simps)
  then show ?thesis by (simp only: two_32_squared mult_zero_left add_0)
qed

lemma high_half_add:
  "of_nat (unat (x + y :: 32 word)) * 2 ^ 32 = ((of_nat (unat x) + of_nat (unat y)) * 2 ^ 32 :: 64 word)"
  using high_half_mod [of "unat x + unat y"] by (simp add: unat_word_ariths)

lemma low_half_add:
  "of_nat (unat (x + y :: 32 word)) + (if x + y < y then 2 ^ 32 else 0) = (of_nat (unat x) + of_nat (unat y) :: 64 word)"
proof (cases "unat x + unat y < 2 ^ 32")
  case True
  then have "unat (x + y) = unat x + unat y" by (simp add: unat_word_ariths)
  then show ?thesis by (simp add: word_less_nat_alt)
next
  case False
  have "unat x < 2 ^ 32" "unat y < 2 ^ 32" using unsigned_less [of x] unsigned_less [of y] by simp_all
  with False have "(unat x + unat y) mod 2 ^ 32 = unat x + unat y - 2 ^ 32"
    by (simp add: mod_if)
  then have u: "unat (x + y) = unat x + unat y - 2 ^ 32" by (simp add: unat_word_ariths)
  with False \<open>unat x < 2 ^ 32\<close> have "x + y < y" by (simp add: word_less_nat_alt)
  moreover from u False have "unat (x + y) + 2 ^ 32 = unat x + unat y" by simp
  then have "(of_nat (unat (x + y) + 2 ^ 32) :: 64 word) = of_nat (unat x + unat y)" by simp
  ultimately show ?thesis by simp
qed

lemma dword_add:
  "dword (hi + (if lo + bLo < bLo then 1 else 0) + bHi) (lo + bLo) = dword hi lo + dword bHi bLo"
proof -
  have "(of_nat (unat (if lo + bLo < bLo then 1 else 0 :: 32 word)) :: 64 word) * 2 ^ 32 =
      (if lo + bLo < bLo then 2 ^ 32 else 0)" by simp
  with low_half_add [of lo bLo] show ?thesis
    unfolding dword_def high_half_add distrib_right by (simp add: algebra_simps)
qed

text \<open>The sign bit, three ways.\<close>

lemma and_sign_bit: "(x :: 32 word) AND 0x80000000 = 0 \<longleftrightarrow> \<not> bit x 31"
proof -
  have "(0x80000000 :: 32 word) = push_bit 31 1" by (simp add: push_bit_eq_mult)
  moreover have "bit (x AND push_bit 31 1) n \<longleftrightarrow> n = 31 \<and> bit x 31" for n
    by (auto simp: bit_simps simp del: push_bit_of_1)
  ultimately have "bit (x AND 0x80000000) n \<longleftrightarrow> n = 31 \<and> bit x 31" for n
    by simp
  then show ?thesis by (metis bit_0_eq bit_word_eqI bot_apply bot_bool_def)
qed

lemma bit_31_unat: "bit (x :: 32 word) 31 \<longleftrightarrow> 2 ^ 31 \<le> unat x"
proof -
  have "unat x < 2 ^ 32" using unsigned_less [of x] by simp
  then have "unat x div 2 ^ 31 < 2" by (simp add: less_mult_imp_div_less)
  then have "odd (unat x div 2 ^ 31) \<longleftrightarrow> 0 < unat x div 2 ^ 31" by (auto simp: less_2_cases_iff)
  moreover have "bit x 31 \<longleftrightarrow> bit (unat x) 31" by (simp add: bit_unsigned_iff)
  ultimately show ?thesis unfolding bit_iff_odd [of "unat x"] by (simp add: div_greater_zero_iff)
qed

lemma bit_31_sint: "bit (x :: 32 word) 31 \<longleftrightarrow> sint x < 0"
  using bit_last_iff [of x] by simp

lemma double_carry: "bLo + bLo < (bLo :: 32 word) \<longleftrightarrow> bit bLo 31"
proof -
  have "unat bLo < 2 ^ 32" using unsigned_less [of bLo] by simp
  then show ?thesis by (auto simp: bit_31_unat word_less_nat_alt unat_word_ariths mod_if)
qed

lemma double_or_one: "push_bit 1 x OR 1 = x + 1 + (x :: 32 word)" "push_bit 1 x = x + x"
proof -
  show "push_bit 1 x = x + x" by (simp add: push_bit_eq_mult)
  have "even (push_bit 1 x)" by (simp add: push_bit_eq_mult)
  then have "push_bit 1 x OR 1 = push_bit 1 x + 1" by (simp add: or_one_eq even_iff_mod_2_eq_zero)
  then show "push_bit 1 x OR 1 = x + 1 + x" by (simp add: push_bit_eq_mult)
qed

lemma dword_double:
  "dword (if bLo AND 0x80000000 \<noteq> 0 then push_bit 1 bHi OR 1 else push_bit 1 bHi) (push_bit 1 bLo) = 2 * dword bHi bLo"
proof -
  have eq: "(if bLo AND 0x80000000 \<noteq> 0 then push_bit 1 bHi OR 1 else push_bit 1 bHi)
      = bHi + (if bLo + bLo < bLo then 1 else 0) + bHi"
    unfolding and_sign_bit double_carry double_or_one(1) unfolding double_or_one(2) by simp
  show ?thesis unfolding eq unfolding double_or_one(2) dword_add mult_2 ..
qed

lemma dword_negate:
  "dword (if NOT lo + 1 = 0 then NOT hi + 1 else NOT hi) (NOT lo + 1) = - dword hi lo"
proof -
  have "dword hi lo + dword (if NOT lo + 1 = 0 then NOT hi + 1 else NOT hi) (NOT lo + 1) = 0"
  proof (cases "lo = 0")
    case True
    have "dword (hi + (NOT hi + 1)) 0 = dword hi 0 + dword (NOT hi + 1) 0"
      unfolding dword_def high_half_add distrib_right by simp
    with True show ?thesis by (simp add: not_eq_complement dword_def)
  next
    case False
    then have c: "(NOT lo + 1) + lo < lo" "NOT lo + 1 \<noteq> 0"
      by (simp_all add: not_eq_complement word_neq_0_conv)
    with dword_add [of "NOT hi" "NOT lo + 1" lo hi] show ?thesis
      by (simp add: not_eq_complement dword_def add.commute)
  qed
  then show ?thesis by (simp add: eq_neg_iff_add_eq_0 add.commute)
qed

text \<open>The loop adds the product of the bits of \<open>a\<close> that are left and the shifted \<open>b\<close>.\<close>

lemma odd_and_one: "(a :: 32 word) AND 1 \<noteq> 0 \<longleftrightarrow> odd (unat a)"
  using and_mask_mod(2) [of a] by simp

lemma unat_drop_1: "unat (drop_bit 1 (a :: 32 word)) = unat a div 2"
  using unat_less_32 [of a] by (simp only: unsigned_drop_bit_eq) (simp add: drop_bit_eq_div take_bit_nat_eq_self)

lemma last_bit: "a AND 0xfffffffe = 0 \<longleftrightarrow> unat (a :: 32 word) < 2"
proof -
  have "a AND 0xfffffffe = 0 \<longleftrightarrow> drop_bit 1 a = 0"
  proof -
    have m: "(0xfffffffe :: 32 word) = NOT 1" by simp
    have "bit (a AND 0xfffffffe) n \<longleftrightarrow> 1 \<le> n \<and> bit a n" for n
      unfolding m by (auto simp: bit_and_iff bit_not_iff bit_1_iff dest: bit_imp_le_length)
    moreover have "bit (drop_bit 1 a) n \<longleftrightarrow> bit a (Suc n)" for n by (simp add: bit_simps)
    ultimately show ?thesis
      by (metis bit_eqI bit_0_eq bot_apply bot_bool_def Suc_le_D One_nat_def le_add1 plus_1_eq_Suc)
  qed
  also have "\<dots> \<longleftrightarrow> unat (drop_bit 1 a) = 0" by (simp add: unat_eq_zero)
  also have "\<dots> \<longleftrightarrow> unat a < 2" unfolding unat_drop_1 by (simp add: div_eq_0_iff)
  finally show ?thesis .
qed

lemma shifted_bits:
  assumes "n \<le> 31"
  shows "unat (signed_drop_bit 1 a :: 32 word) mod 2 ^ n = unat a div 2 mod 2 ^ n"
proof -
  have "bit (signed_drop_bit 1 a) k = bit (drop_bit 1 a) k" if "k < n" for k
    using that assms by (auto simp: bit_simps min_def)
  then have "take_bit n (signed_drop_bit 1 a) = take_bit n (drop_bit 1 a)"
    by (intro bit_word_eqI) (auto simp: bit_take_bit_iff)
  then have "take_bit n (unat (signed_drop_bit 1 a)) = take_bit n (unat (drop_bit 1 a))"
    by (metis unsigned_take_bit_eq)
  then show ?thesis unfolding unat_drop_1 take_bit_eq_mod .
qed

lemma mod_power_Suc: "(k :: nat) mod 2 ^ Suc n = k mod 2 + 2 * (k div 2 mod 2 ^ n)"
  by (metis add.commute mod_mult2_eq power_Suc)

lemma mult_loop_correct:
  assumes "n \<le> 32" "mult_loop n a bHi bLo hi lo = (hi', lo')"
  shows "dword hi' lo' = dword hi lo + of_nat (unat a mod 2 ^ n) * dword bHi bLo"
  using assms
proof (induction n arbitrary: a bHi bLo hi lo)
  case 0
  then show ?case by simp
next
  case (Suc n)
  define hi1 lo1 where "hi1 = (if odd (unat a) then hi + (if lo + bLo < bLo then 1 else 0) + bHi else hi)"
    and "lo1 = (if odd (unat a) then lo + bLo else lo)"
  have acc: "dword hi1 lo1 = dword hi lo + of_nat (unat a mod 2) * dword bHi bLo"
    using dword_add [of hi lo bLo bHi] by (simp add: hi1_def lo1_def odd_iff_mod_2_eq_one)
  define bHi' where "bHi' = (if bLo AND 0x80000000 \<noteq> 0 then push_bit 1 bHi OR 1 else push_bit 1 bHi)"
  have step: "mult_loop (Suc n) a bHi bLo hi lo =
     (if odd (unat a) \<and> unat a < 2 then (hi1, lo1)
      else mult_loop n (signed_drop_bit 1 a) bHi' (push_bit 1 bLo) hi1 lo1)"
    unfolding hi1_def lo1_def bHi'_def by (simp only: mult_loop.simps Let_def odd_and_one last_bit) simp
  show ?case
  proof (cases "odd (unat a) \<and> unat a < 2")
    case True
    then have "unat a = 1" by (auto simp: less_2_cases_iff)
    moreover from True Suc.prems(2) step have "hi' = hi1" "lo' = lo1" by simp_all
    ultimately show ?thesis using acc by (simp add: mod_power_Suc)
  next
    case False
    with Suc.prems step have "dword hi' lo' =
        dword hi1 lo1 + of_nat (unat (signed_drop_bit 1 a) mod 2 ^ n) * dword bHi' (push_bit 1 bLo)"
      by (intro Suc.IH) simp_all
    also have "dword bHi' (push_bit 1 bLo) = 2 * dword bHi bLo"
      unfolding bHi'_def by (rule dword_double)
    finally show ?thesis
      using Suc.prems(1) shifted_bits [of n a] acc
      by (simp only: mod_power_Suc of_nat_add of_nat_mult distrib_right) (simp add: algebra_simps)
  qed
qed

lemma of_nat_unat_abs: "(of_nat (unat (if x <s 0 then - x else x)) :: 64 word) = of_int \<bar>sint (x :: 32 word)\<bar>"
proof -
  have m: "uint x = sint x mod 2 ^ 32" by (simp add: uint_sint take_bit_eq_mod)
  have r: "- (2 ^ 31) \<le> sint x" "sint x < 2 ^ 31" using sint_ge [of x] sint_lt [of x] by simp_all
  have "uint (if x <s 0 then - x else x) = \<bar>sint x\<bar>"
  proof (cases "sint x < 0")
    case True
    have "uint (- x) = - sint x mod 2 ^ 32" unfolding uint_word_ariths m by (simp add: mod_minus_eq)
    also have "\<dots> = - sint x" using r True by (intro mod_pos_pos_trivial) simp_all
    finally show ?thesis using True by (simp add: word_sless_alt)
  next
    case False
    then show ?thesis using m r by (simp add: word_sless_alt)
  qed
  then show ?thesis by (metis of_int_of_nat_eq uint_nat)
qed

text \<open>The loop, run from the start, multiplies.\<close>

lemma mult_loop_product:
  "mult_loop 32 a 0 b 0 0 = (hi, lo) \<Longrightarrow> dword hi lo = of_nat (unat a) * of_nat (unat b)"
  using mult_loop_correct [of 32 a 0 b 0 0 hi lo] unat_less_32 [of a]
  by (simp add: dword_def)

lemma Mult_negated:
  assumes "a \<noteq> 0" "b \<noteq> 0" "Mult a b sg = (hi, lo)"
  defines "na \<equiv> sg \<and> a <s 0" and "nb \<equiv> sg \<and> b <s 0"
  shows "dword hi lo = (if na \<noteq> nb then - 1 else 1) *
     (of_nat (unat (if na then - a else a)) * of_nat (unat (if nb then - b else b)))"
proof -
  obtain h l where hl: "mult_loop 32 (if na then - a else a) 0 (if nb then - b else b) 0 0 = (h, l)"
    by fastforce
  have "(hi, lo) = (if na \<noteq> nb then (if NOT l + 1 = 0 then NOT h + 1 else NOT h, NOT l + 1) else (h, l))"
    using assms(1-3) hl unfolding Mult_def na_def [symmetric] nb_def [symmetric]
    by (cases na; cases nb; simp add: Let_def)
  with mult_loop_product [OF hl] dword_negate [of l h] show ?thesis
    by (cases "na = nb") simp_all
qed

text \<open>C19. The multiplier is exact: the pair of words it returns is the 64-bit product, of the signed
  values for \<open>MULT\<close> and of the unsigned values for \<open>MULTU\<close>.\<close>

theorem mult_is_64_bit_product:
  assumes "Mult a b signedArith = (hi, lo)"
  shows "dword hi lo = (if signedArith then of_int (sint a * sint b) else of_nat (unat a * unat b))"
proof (cases "a = 0 \<or> b = 0")
  case True
  with assms show ?thesis by (auto simp: Mult_def dword_def)
next
  case False
  then have nz: "a \<noteq> 0" "b \<noteq> 0" by simp_all
  note neg = Mult_negated [OF nz assms]
  show ?thesis
  proof (cases signedArith)
    case True
    have "of_int (sint a * sint b) = (if (a <s 0) \<noteq> (b <s 0) then - 1 else 1 :: 64 word) * (of_int \<bar>sint a\<bar> * of_int \<bar>sint b\<bar>)"
      by (auto simp: word_sless_alt)
    with neg True show ?thesis by (simp only: of_nat_unat_abs simp_thms if_True)
  next
    case False
    with neg show ?thesis by simp
  qed
qed

theorem mult_is_64_bit_product_witness:
  "case Mult (- 3) 0x80000000 True of (hi, lo) \<Rightarrow> dword hi lo = of_int (sint (- 3 :: 32 word) * sint (0x80000000 :: 32 word))"
  by (cases "Mult (- 3) 0x80000000 True") (simp only: prod.case mult_is_64_bit_product if_True)

end
