(* ===== verification/Mips.thy ===== *)
theory Mips
  imports Mips_Mult
begin

text \<open>
  The instruction interpreter of \<open>machine/mipssim.cc\<close> and \<open>machine/mipssim.h\<close>: decoding,
  and \<open>Machine::OneInstruction\<close> over the machine of \<open>Machine\<close>.

  The big \<open>switch\<close> of \<open>OneInstruction\<close> is cut into consecutive groups of its cases; the default of
  each group is the next group. An exception is a \<open>Trap\<close>: it carries the machine as
  \<open>RaiseException\<close> hands it to \<open>ExceptionHandler\<close>. Signed \<open>int\<close> addition, subtraction, negation
  and left shift wrap, as the compiler the code was written for makes them; the division of the
  least integer by \<open>-1\<close> is undefined.
\<close>

section \<open>Opcodes and decoding\<close>

datatype OpCode =
    OP_ADD | OP_ADDI | OP_ADDIU | OP_ADDU | OP_AND | OP_ANDI | OP_BEQ | OP_BGEZ | OP_BGEZAL | OP_BGTZ |
    OP_BLEZ | OP_BLTZ | OP_BLTZAL | OP_BNE | OP_DIV | OP_DIVU | OP_J | OP_JAL | OP_JALR | OP_JR |
    OP_LB | OP_LBU | OP_LH | OP_LHU | OP_LUI | OP_LW | OP_LWL | OP_LWR | OP_MFHI | OP_MFLO | OP_MTHI |
    OP_MTLO | OP_MULT | OP_MULTU | OP_NOR | OP_OR | OP_ORI | OP_RFE | OP_SB | OP_SH | OP_SLL |
    OP_SLLV | OP_SLT | OP_SLTI | OP_SLTIU | OP_SLTU | OP_SRA | OP_SRAV | OP_SRL | OP_SRLV | OP_SUB |
    OP_SUBU | OP_SW | OP_SWL | OP_SWR | OP_XOR | OP_XORI | OP_SYSCALL | OP_UNIMP | OP_RES | SPECIAL |
    BCOND

fun opCode_num :: "OpCode \<Rightarrow> nat" where
  "opCode_num OP_ADD = 1"
| "opCode_num OP_ADDI = 2"
| "opCode_num OP_ADDIU = 3"
| "opCode_num OP_ADDU = 4"
| "opCode_num OP_AND = 5"
| "opCode_num OP_ANDI = 6"
| "opCode_num OP_BEQ = 7"
| "opCode_num OP_BGEZ = 8"
| "opCode_num OP_BGEZAL = 9"
| "opCode_num OP_BGTZ = 10"
| "opCode_num OP_BLEZ = 11"
| "opCode_num OP_BLTZ = 12"
| "opCode_num OP_BLTZAL = 13"
| "opCode_num OP_BNE = 14"
| "opCode_num OP_DIV = 16"
| "opCode_num OP_DIVU = 17"
| "opCode_num OP_J = 18"
| "opCode_num OP_JAL = 19"
| "opCode_num OP_JALR = 20"
| "opCode_num OP_JR = 21"
| "opCode_num OP_LB = 22"
| "opCode_num OP_LBU = 23"
| "opCode_num OP_LH = 24"
| "opCode_num OP_LHU = 25"
| "opCode_num OP_LUI = 26"
| "opCode_num OP_LW = 27"
| "opCode_num OP_LWL = 28"
| "opCode_num OP_LWR = 29"
| "opCode_num OP_MFHI = 31"
| "opCode_num OP_MFLO = 32"
| "opCode_num OP_MTHI = 34"
| "opCode_num OP_MTLO = 35"
| "opCode_num OP_MULT = 36"
| "opCode_num OP_MULTU = 37"
| "opCode_num OP_NOR = 38"
| "opCode_num OP_OR = 39"
| "opCode_num OP_ORI = 40"
| "opCode_num OP_RFE = 41"
| "opCode_num OP_SB = 42"
| "opCode_num OP_SH = 43"
| "opCode_num OP_SLL = 44"
| "opCode_num OP_SLLV = 45"
| "opCode_num OP_SLT = 46"
| "opCode_num OP_SLTI = 47"
| "opCode_num OP_SLTIU = 48"
| "opCode_num OP_SLTU = 49"
| "opCode_num OP_SRA = 50"
| "opCode_num OP_SRAV = 51"
| "opCode_num OP_SRL = 52"
| "opCode_num OP_SRLV = 53"
| "opCode_num OP_SUB = 54"
| "opCode_num OP_SUBU = 55"
| "opCode_num OP_SW = 56"
| "opCode_num OP_SWL = 57"
| "opCode_num OP_SWR = 58"
| "opCode_num OP_XOR = 59"
| "opCode_num OP_XORI = 60"
| "opCode_num OP_SYSCALL = 61"
| "opCode_num OP_UNIMP = 62"
| "opCode_num OP_RES = 63"
| "opCode_num SPECIAL = 100"
| "opCode_num BCOND = 101"

datatype InstrFormat = IFMT | JFMT | RFMT

definition opTable :: "(OpCode \<times> InstrFormat) list" where
  "opTable = [
     (SPECIAL, RFMT), (BCOND, IFMT), (OP_J, JFMT), (OP_JAL, JFMT), (OP_BEQ, IFMT), (OP_BNE, IFMT),
     (OP_BLEZ, IFMT), (OP_BGTZ, IFMT), (OP_ADDI, IFMT), (OP_ADDIU, IFMT), (OP_SLTI, IFMT),
     (OP_SLTIU, IFMT), (OP_ANDI, IFMT), (OP_ORI, IFMT), (OP_XORI, IFMT), (OP_LUI, IFMT),
     (OP_UNIMP, IFMT), (OP_UNIMP, IFMT), (OP_UNIMP, IFMT), (OP_UNIMP, IFMT), (OP_RES, IFMT),
     (OP_RES, IFMT), (OP_RES, IFMT), (OP_RES, IFMT), (OP_RES, IFMT), (OP_RES, IFMT), (OP_RES, IFMT),
     (OP_RES, IFMT), (OP_RES, IFMT), (OP_RES, IFMT), (OP_RES, IFMT), (OP_RES, IFMT), (OP_LB, IFMT),
     (OP_LH, IFMT), (OP_LWL, IFMT), (OP_LW, IFMT), (OP_LBU, IFMT), (OP_LHU, IFMT), (OP_LWR, IFMT),
     (OP_RES, IFMT), (OP_SB, IFMT), (OP_SH, IFMT), (OP_SWL, IFMT), (OP_SW, IFMT), (OP_RES, IFMT),
     (OP_RES, IFMT), (OP_SWR, IFMT), (OP_RES, IFMT), (OP_UNIMP, IFMT), (OP_UNIMP, IFMT),
     (OP_UNIMP, IFMT), (OP_UNIMP, IFMT), (OP_RES, IFMT), (OP_RES, IFMT), (OP_RES, IFMT), (OP_RES, IFMT),
     (OP_UNIMP, IFMT), (OP_UNIMP, IFMT), (OP_UNIMP, IFMT), (OP_UNIMP, IFMT), (OP_RES, IFMT),
     (OP_RES, IFMT), (OP_RES, IFMT), (OP_RES, IFMT)]"

definition specialTable :: "OpCode list" where
  "specialTable = [
     OP_SLL, OP_RES, OP_SRL, OP_SRA, OP_SLLV, OP_RES, OP_SRLV, OP_SRAV, OP_JR, OP_JALR, OP_RES, OP_RES,
     OP_SYSCALL, OP_UNIMP, OP_RES, OP_RES, OP_MFHI, OP_MTHI, OP_MFLO, OP_MTLO, OP_RES, OP_RES, OP_RES,
     OP_RES, OP_MULT, OP_MULTU, OP_DIV, OP_DIVU, OP_RES, OP_RES, OP_RES, OP_RES, OP_ADD, OP_ADDU,
     OP_SUB, OP_SUBU, OP_AND, OP_OR, OP_XOR, OP_NOR, OP_RES, OP_RES, OP_SLT, OP_SLTU, OP_RES, OP_RES,
     OP_RES, OP_RES, OP_RES, OP_RES, OP_RES, OP_RES, OP_RES, OP_RES, OP_RES, OP_RES, OP_RES, OP_RES,
     OP_RES, OP_RES, OP_RES, OP_RES, OP_RES, OP_RES]"

datatype RegType = NONE | RS | RT | RD | EXTRA

definition opStrings :: "(string \<times> RegType list) list" where
  "opStrings = [
     (''Shouldn'' @ CHR 0x27 # ''t happen'', [NONE, NONE, NONE]),
     (''ADD r%d,r%d,r%d'', [RD, RS, RT]),
     (''ADDI r%d,r%d,%d'', [RT, RS, EXTRA]),
     (''ADDIU r%d,r%d,%d'', [RT, RS, EXTRA]),
     (''ADDU r%d,r%d,r%d'', [RD, RS, RT]),
     (''AND r%d,r%d,r%d'', [RD, RS, RT]),
     (''ANDI r%d,r%d,%d'', [RT, RS, EXTRA]),
     (''BEQ r%d,r%d,%d'', [RS, RT, EXTRA]),
     (''BGEZ r%d,%d'', [RS, EXTRA, NONE]),
     (''BGEZAL r%d,%d'', [RS, EXTRA, NONE]),
     (''BGTZ r%d,%d'', [RS, EXTRA, NONE]),
     (''BLEZ r%d,%d'', [RS, EXTRA, NONE]),
     (''BLTZ r%d,%d'', [RS, EXTRA, NONE]),
     (''BLTZAL r%d,%d'', [RS, EXTRA, NONE]),
     (''BNE r%d,r%d,%d'', [RS, RT, EXTRA]),
     (''Shouldn'' @ CHR 0x27 # ''t happen'', [NONE, NONE, NONE]),
     (''DIV r%d,r%d'', [RS, RT, NONE]),
     (''DIVU r%d,r%d'', [RS, RT, NONE]),
     (''J %d'', [EXTRA, NONE, NONE]),
     (''JAL %d'', [EXTRA, NONE, NONE]),
     (''JALR r%d,r%d'', [RD, RS, NONE]),
     (''JR r%d,r%d'', [RD, RS, NONE]),
     (''LB r%d,%d(r%d)'', [RT, EXTRA, RS]),
     (''LBU r%d,%d(r%d)'', [RT, EXTRA, RS]),
     (''LH r%d,%d(r%d)'', [RT, EXTRA, RS]),
     (''LHU r%d,%d(r%d)'', [RT, EXTRA, RS]),
     (''LUI r%d,%d'', [RT, EXTRA, NONE]),
     (''LW r%d,%d(r%d)'', [RT, EXTRA, RS]),
     (''LWL r%d,%d(r%d)'', [RT, EXTRA, RS]),
     (''LWR r%d,%d(r%d)'', [RT, EXTRA, RS]),
     (''Shouldn'' @ CHR 0x27 # ''t happen'', [NONE, NONE, NONE]),
     (''MFHI r%d'', [RD, NONE, NONE]),
     (''MFLO r%d'', [RD, NONE, NONE]),
     (''Shouldn'' @ CHR 0x27 # ''t happen'', [NONE, NONE, NONE]),
     (''MTHI r%d'', [RS, NONE, NONE]),
     (''MTLO r%d'', [RS, NONE, NONE]),
     (''MULT r%d,r%d'', [RS, RT, NONE]),
     (''MULTU r%d,r%d'', [RS, RT, NONE]),
     (''NOR r%d,r%d,r%d'', [RD, RS, RT]),
     (''OR r%d,r%d,r%d'', [RD, RS, RT]),
     (''ORI r%d,r%d,%d'', [RT, RS, EXTRA]),
     (''RFE'', [NONE, NONE, NONE]),
     (''SB r%d,%d(r%d)'', [RT, EXTRA, RS]),
     (''SH r%d,%d(r%d)'', [RT, EXTRA, RS]),
     (''SLL r%d,r%d,%d'', [RD, RT, EXTRA]),
     (''SLLV r%d,r%d,r%d'', [RD, RT, RS]),
     (''SLT r%d,r%d,r%d'', [RD, RS, RT]),
     (''SLTI r%d,r%d,%d'', [RT, RS, EXTRA]),
     (''SLTIU r%d,r%d,%d'', [RT, RS, EXTRA]),
     (''SLTU r%d,r%d,r%d'', [RD, RS, RT]),
     (''SRA r%d,r%d,%d'', [RD, RT, EXTRA]),
     (''SRAV r%d,r%d,r%d'', [RD, RT, RS]),
     (''SRL r%d,r%d,%d'', [RD, RT, EXTRA]),
     (''SRLV r%d,r%d,r%d'', [RD, RT, RS]),
     (''SUB r%d,r%d,r%d'', [RD, RS, RT]),
     (''SUBU r%d,r%d,r%d'', [RD, RS, RT]),
     (''SW r%d,%d(r%d)'', [RT, EXTRA, RS]),
     (''SWL r%d,%d(r%d)'', [RT, EXTRA, RS]),
     (''SWR r%d,%d(r%d)'', [RT, EXTRA, RS]),
     (''XOR r%d,r%d,r%d'', [RD, RS, RT]),
     (''XORI r%d,r%d,%d'', [RT, RS, EXTRA]),
     (''SYSCALL'', [NONE, NONE, NONE]),
     (''Unimplemented'', [NONE, NONE, NONE]),
     (''Reserved'', [NONE, NONE, NONE])]"

record Instruction =
  i_value :: "32 word"
  opCode :: OpCode
  rs :: nat
  rt :: nat
  rd :: nat
  extra :: "32 word"

fun TypeToReg :: "RegType \<Rightarrow> Instruction \<Rightarrow> 32 word" where
  "TypeToReg RS i = of_nat (rs i)"
| "TypeToReg RT i = of_nat (rt i)"
| "TypeToReg RD i = of_nat (rd i)"
| "TypeToReg EXTRA i = extra i"
| "TypeToReg NONE i = - 1"

definition Decode :: "32 word \<Rightarrow> Instruction" where
  "Decode v =
     (let (op, format) = opTable ! unat (drop_bit 26 v AND 0x3f);
          ext = (case format of
                   IFMT \<Rightarrow> (let e = v AND 0xffff in if e AND 0x8000 \<noteq> 0 then e OR 0xffff0000 else e)
                 | RFMT \<Rightarrow> drop_bit 6 v AND 0x1f
                 | JFMT \<Rightarrow> v AND 0x3ffffff);
          op' = (if op = SPECIAL then specialTable ! unat (v AND 0x3f)
                 else if op = BCOND then
                   (let i = v AND 0x1f0000 in
                    if i = 0 then OP_BLTZ else if i = 0x10000 then OP_BGEZ
                    else if i = 0x100000 then OP_BLTZAL else if i = 0x110000 then OP_BGEZAL else OP_UNIMP)
                 else op)
      in \<lparr>i_value = v, opCode = op', rs = unat (drop_bit 21 v AND 0x1f), rt = unat (drop_bit 16 v AND 0x1f),
          rd = unat (drop_bit 11 v AND 0x1f), extra = ext\<rparr>)"

section \<open>One instruction\<close>

definition IndexToAddr :: "32 word \<Rightarrow> 32 word" where
  "IndexToAddr x = push_bit 2 x"

definition SIGN_BIT :: "32 word" where
  "SIGN_BIT = 0x80000000"

text \<open>What the \<open>switch\<close> leaves behind: \<open>break\<close> with \<open>pcAfter\<close>, \<open>nextLoadReg\<close> and
  \<open>nextLoadValue\<close>, or an exception.\<close>

datatype effect = Break machine "32 word" "32 word" "32 word" | Exc ExceptionType machine

datatype outcome = Next machine | Trap ExceptionType machine

definition set_reg :: "nat \<Rightarrow> 32 word \<Rightarrow> machine \<Rightarrow> machine" where
  "set_reg r v m = m\<lparr>registers := (registers m)(r := v)\<rparr>"

definition raise :: "ExceptionType \<Rightarrow> 32 word \<Rightarrow> machine \<Rightarrow> effect result" where
  "raise which bad m = rbind (RaiseException bad m) (\<lambda>m'. Inr (Exc which m'))"

definition read_or_trap :: "bool \<Rightarrow> int \<Rightarrow> 32 word \<Rightarrow> nat \<Rightarrow> machine \<Rightarrow> (32 word \<Rightarrow> machine \<Rightarrow> effect result) \<Rightarrow> effect result" where
  "read_or_trap be now a sz m k = rbind (ReadMem be now a sz m) (\<lambda>(r, m').
     case r of Inl e \<Rightarrow> Inr (Exc e m') | Inr v \<Rightarrow> k v m')"

definition write_or_trap :: "bool \<Rightarrow> int \<Rightarrow> 32 word \<Rightarrow> nat \<Rightarrow> 32 word \<Rightarrow> machine \<Rightarrow> (machine \<Rightarrow> effect result) \<Rightarrow> effect result" where
  "write_or_trap be now a sz v m k = rbind (WriteMem be now a sz v m) (\<lambda>(r, m').
     case r of Inl e \<Rightarrow> Inr (Exc e m') | Inr _ \<Rightarrow> k m')"

definition exec_SYSCALL_RES :: "Instruction \<Rightarrow> machine \<Rightarrow> 32 word \<Rightarrow> effect result" where
  "exec_SYSCALL_RES i m pcAfter =
     (let reg = registers m; done = (\<lambda>m'. Inr (Break m' pcAfter 0 0)) in
      case opCode i of
        OP_SYSCALL \<Rightarrow> raise SyscallException 0 m
      | OP_XOR \<Rightarrow> done (set_reg (rd i) (reg (rs i) XOR reg (rt i)) m)
      | OP_XORI \<Rightarrow> done (set_reg (rt i) (reg (rs i) XOR (extra i AND 0xffff)) m)
      | OP_RES \<Rightarrow> raise IllegalInstrException 0 m
      | OP_UNIMP \<Rightarrow> raise IllegalInstrException 0 m
      | _ \<Rightarrow> Inl Abort)"

definition swl_merge :: "32 word \<Rightarrow> 32 word \<Rightarrow> 32 word \<Rightarrow> 32 word" where
  "swl_merge tmp val r =
     (if tmp AND 3 = 0 then r
      else if tmp AND 3 = 1 then (val AND 0xff000000) OR (signed_drop_bit 8 r AND 0xffffff)
      else if tmp AND 3 = 2 then (val AND 0xffff0000) OR (signed_drop_bit 16 r AND 0xffff)
      else (val AND 0xffffff00) OR (signed_drop_bit 24 r AND 0xff))"

definition swr_merge :: "32 word \<Rightarrow> 32 word \<Rightarrow> 32 word \<Rightarrow> 32 word" where
  "swr_merge tmp val r =
     (if tmp AND 3 = 0 then (val AND 0xffffff) OR push_bit 24 r
      else if tmp AND 3 = 1 then (val AND 0xffff) OR push_bit 16 r
      else if tmp AND 3 = 2 then (val AND 0xff) OR push_bit 8 r
      else r)"

definition exec_SW_SWR :: "bool \<Rightarrow> int \<Rightarrow> Instruction \<Rightarrow> machine \<Rightarrow> 32 word \<Rightarrow> effect result" where
  "exec_SW_SWR be now i m pcAfter =
     (let reg = registers m; tmp = reg (rs i) + extra i; done = (\<lambda>m'. Inr (Break m' pcAfter 0 0)) in
      case opCode i of
        OP_SW \<Rightarrow> write_or_trap be now tmp 4 (reg (rt i)) m done
      | OP_SWL \<Rightarrow> rbind (ASSERT (tmp AND 3 = 0)) (\<lambda>_.
          read_or_trap be now (tmp AND NOT 3) 4 m (\<lambda>val m'.
          write_or_trap be now (tmp AND NOT 3) 4 (swl_merge tmp val (reg (rt i))) m' done))
      | OP_SWR \<Rightarrow> rbind (ASSERT (tmp AND 3 = 0)) (\<lambda>_.
          read_or_trap be now (tmp AND NOT 3) 4 m (\<lambda>val m'.
          write_or_trap be now (tmp AND NOT 3) 4 (swr_merge tmp val (reg (rt i))) m' done))
      | _ \<Rightarrow> exec_SYSCALL_RES i m pcAfter)"

definition exec_SB_SUBU :: "bool \<Rightarrow> int \<Rightarrow> Instruction \<Rightarrow> machine \<Rightarrow> 32 word \<Rightarrow> effect result" where
  "exec_SB_SUBU be now i m pcAfter =
     (let reg = registers m; x = reg (rs i); y = reg (rt i);
          done = (\<lambda>m'. Inr (Break m' pcAfter 0 0)); sh = unat (x AND 0x1f) in
      case opCode i of
        OP_SB \<Rightarrow> write_or_trap be now (x + extra i) 1 y m done
      | OP_SH \<Rightarrow> write_or_trap be now (x + extra i) 2 y m done
      | OP_SLL \<Rightarrow> done (set_reg (rd i) (push_bit (unat (extra i)) y) m)
      | OP_SLLV \<Rightarrow> done (set_reg (rd i) (push_bit sh y) m)
      | OP_SLT \<Rightarrow> done (set_reg (rd i) (if x <s y then 1 else 0) m)
      | OP_SLTI \<Rightarrow> done (set_reg (rt i) (if x <s extra i then 1 else 0) m)
      | OP_SLTIU \<Rightarrow> done (set_reg (rt i) (if x < extra i then 1 else 0) m)
      | OP_SLTU \<Rightarrow> done (set_reg (rd i) (if x < y then 1 else 0) m)
      | OP_SRA \<Rightarrow> done (set_reg (rd i) (signed_drop_bit (unat (extra i)) y) m)
      | OP_SRAV \<Rightarrow> done (set_reg (rd i) (signed_drop_bit sh y) m)
      | OP_SRL \<Rightarrow> done (set_reg (rd i) (signed_drop_bit (unat (extra i)) y) m)
      | OP_SRLV \<Rightarrow> done (set_reg (rd i) (signed_drop_bit sh y) m)
      | OP_SUB \<Rightarrow> (let diff = x - y in
          if (x XOR y) AND SIGN_BIT \<noteq> 0 \<and> (x XOR diff) AND SIGN_BIT \<noteq> 0
          then raise OverflowException 0 m else done (set_reg (rd i) diff m))
      | OP_SUBU \<Rightarrow> done (set_reg (rd i) (x - y) m)
      | _ \<Rightarrow> exec_SW_SWR be now i m pcAfter)"

definition set_hilo :: "32 word \<times> 32 word \<Rightarrow> machine \<Rightarrow> machine" where
  "set_hilo p m = set_reg LoReg (snd p) (set_reg HiReg (fst p) m)"

definition exec_MFHI_ORI :: "bool \<Rightarrow> int \<Rightarrow> Instruction \<Rightarrow> machine \<Rightarrow> 32 word \<Rightarrow> effect result" where
  "exec_MFHI_ORI be now i m pcAfter =
     (let reg = registers m; x = reg (rs i); y = reg (rt i); done = (\<lambda>m'. Inr (Break m' pcAfter 0 0)) in
      case opCode i of
        OP_MFHI \<Rightarrow> done (set_reg (rd i) (reg HiReg) m)
      | OP_MFLO \<Rightarrow> done (set_reg (rd i) (reg LoReg) m)
      | OP_MTHI \<Rightarrow> done (set_reg HiReg x m)
      | OP_MTLO \<Rightarrow> done (set_reg LoReg x m)
      | OP_MULT \<Rightarrow> done (set_hilo (Mult x y True) m)
      | OP_MULTU \<Rightarrow> done (set_hilo (Mult x y False) m)
      | OP_NOR \<Rightarrow> done (set_reg (rd i) (NOT (x OR y)) m)
      | OP_OR \<Rightarrow> done (set_reg (rd i) (x OR x) m)
      | OP_ORI \<Rightarrow> done (set_reg (rt i) (x OR (extra i AND 0xffff)) m)
      | _ \<Rightarrow> exec_SB_SUBU be now i m pcAfter)"

definition lwl_merge :: "32 word \<Rightarrow> 32 word \<Rightarrow> 32 word \<Rightarrow> 32 word" where
  "lwl_merge tmp old val =
     (if tmp AND 3 = 0 then val
      else if tmp AND 3 = 1 then (old AND 0xff) OR push_bit 8 val
      else if tmp AND 3 = 2 then (old AND 0xffff) OR push_bit 16 val
      else (old AND 0xffffff) OR push_bit 24 val)"

definition lwr_merge :: "32 word \<Rightarrow> 32 word \<Rightarrow> 32 word \<Rightarrow> 32 word" where
  "lwr_merge tmp old val =
     (if tmp AND 3 = 0 then (old AND 0xffffff00) OR (signed_drop_bit 24 val AND 0xff)
      else if tmp AND 3 = 1 then (old AND 0xffff0000) OR (signed_drop_bit 16 val AND 0xffff)
      else if tmp AND 3 = 2 then (old AND 0xff000000) OR (signed_drop_bit 8 val AND 0xffffff)
      else val)"

text \<open>\<open>registers[LoadReg] == instr->rt\<close> selects the value still to be loaded.\<close>

definition pending_value :: "Instruction \<Rightarrow> machine \<Rightarrow> 32 word" where
  "pending_value i m = (if registers m LoadReg = of_nat (rt i) then registers m LoadValueReg else registers m (rt i))"

definition exec_LB_LWR :: "bool \<Rightarrow> int \<Rightarrow> Instruction \<Rightarrow> machine \<Rightarrow> 32 word \<Rightarrow> effect result" where
  "exec_LB_LWR be now i m pcAfter =
     (let reg = registers m; tmp = reg (rs i) + extra i;
          load = (\<lambda>v m'. Inr (Break m' pcAfter (of_nat (rt i)) v));
          byte = (\<lambda>sgn. read_or_trap be now tmp 1 m (\<lambda>v.
             load (if v AND 0x80 \<noteq> 0 \<and> sgn then v OR 0xffffff00 else v AND 0xff)));
          half = (\<lambda>sgn. if tmp AND 1 \<noteq> 0 then raise AddressErrorException tmp m
             else read_or_trap be now tmp 2 m (\<lambda>v.
               load (if v AND 0x8000 \<noteq> 0 \<and> sgn then v OR 0xffff0000 else v AND 0xffff))) in
      case opCode i of
        OP_LB \<Rightarrow> byte True
      | OP_LBU \<Rightarrow> byte False
      | OP_LH \<Rightarrow> half True
      | OP_LHU \<Rightarrow> half False
      | OP_LUI \<Rightarrow> Inr (Break (set_reg (rt i) (push_bit 16 (extra i)) m) pcAfter 0 0)
      | OP_LW \<Rightarrow> if tmp AND 3 \<noteq> 0 then raise AddressErrorException tmp m
                 else read_or_trap be now tmp 4 m load
      | OP_LWL \<Rightarrow> rbind (ASSERT (tmp AND 3 = 0)) (\<lambda>_.
          read_or_trap be now tmp 4 m (\<lambda>v m'. load (lwl_merge tmp (pending_value i m') v) m'))
      | OP_LWR \<Rightarrow> rbind (ASSERT (tmp AND 3 = 0)) (\<lambda>_.
          read_or_trap be now tmp 4 m (\<lambda>v m'. load (lwr_merge tmp (pending_value i m') v) m'))
      | _ \<Rightarrow> exec_MFHI_ORI be now i m pcAfter)"

text \<open>C's \<open>/\<close> and \<open>%\<close> truncate towards zero.\<close>

definition c_div :: "32 word \<Rightarrow> 32 word \<Rightarrow> 32 word" where
  "c_div x y = of_int (sgn (sint x) * sgn (sint y) * (\<bar>sint x\<bar> div \<bar>sint y\<bar>))"

definition c_mod :: "32 word \<Rightarrow> 32 word \<Rightarrow> 32 word" where
  "c_mod x y = of_int (sgn (sint x) * (\<bar>sint x\<bar> mod \<bar>sint y\<bar>))"

definition exec_DIV_JR :: "bool \<Rightarrow> int \<Rightarrow> Instruction \<Rightarrow> machine \<Rightarrow> 32 word \<Rightarrow> effect result" where
  "exec_DIV_JR be now i m pcAfter =
     (let reg = registers m; x = reg (rs i); y = reg (rt i); done = (\<lambda>m'. Inr (Break m' pcAfter 0 0)) in
      case opCode i of
        OP_DIV \<Rightarrow>
          if y = 0 then done (set_reg HiReg 0 (set_reg LoReg 0 m))
          else if x = SIGN_BIT \<and> y = - 1 then Inl Undefined
          else done (set_reg HiReg (c_mod x y) (set_reg LoReg (c_div x y) m))
      | OP_DIVU \<Rightarrow>
          if y = 0 then done (set_reg HiReg 0 (set_reg LoReg 0 m))
          else done (set_reg HiReg (x mod y) (set_reg LoReg (x div y) m))
      | OP_JAL \<Rightarrow> Inr (Break (set_reg 31 (reg NextPCReg + 4) m)
                         ((pcAfter AND 0xf0000000) OR IndexToAddr (extra i)) 0 0)
      | OP_J \<Rightarrow> Inr (Break m ((pcAfter AND 0xf0000000) OR IndexToAddr (extra i)) 0 0)
      | OP_JALR \<Rightarrow> (let m' = set_reg (rd i) (reg NextPCReg + 4) m in Inr (Break m' (registers m' (rs i)) 0 0))
      | OP_JR \<Rightarrow> Inr (Break m x 0 0)
      | _ \<Rightarrow> exec_LB_LWR be now i m pcAfter)"

definition exec_ADD_BNE :: "bool \<Rightarrow> int \<Rightarrow> Instruction \<Rightarrow> machine \<Rightarrow> 32 word \<Rightarrow> effect result" where
  "exec_ADD_BNE be now i m pcAfter =
     (let reg = registers m; x = reg (rs i); y = reg (rt i); done = (\<lambda>m'. Inr (Break m' pcAfter 0 0));
          branch = (\<lambda>taken m'. Inr (Break m' (if taken then registers m' NextPCReg + IndexToAddr (extra i) else pcAfter) 0 0));
          link = set_reg 31 (reg NextPCReg + 4) m in
      case opCode i of
        OP_ADD \<Rightarrow> (let sum = x + y in
          if (x XOR y) AND SIGN_BIT = 0 \<and> (x XOR sum) AND SIGN_BIT \<noteq> 0
          then raise OverflowException 0 m else done (set_reg (rd i) sum m))
      | OP_ADDI \<Rightarrow> (let sum = x + extra i in
          if (x XOR extra i) AND SIGN_BIT = 0 \<and> (extra i XOR sum) AND SIGN_BIT \<noteq> 0
          then raise OverflowException 0 m else done (set_reg (rt i) sum m))
      | OP_ADDIU \<Rightarrow> done (set_reg (rt i) (x + extra i) m)
      | OP_ADDU \<Rightarrow> done (set_reg (rd i) (x + y) m)
      | OP_AND \<Rightarrow> done (set_reg (rd i) (x AND y) m)
      | OP_ANDI \<Rightarrow> done (set_reg (rt i) (x AND (extra i AND 0xffff)) m)
      | OP_BEQ \<Rightarrow> branch (x = y) m
      | OP_BGEZAL \<Rightarrow> branch (registers link (rs i) AND SIGN_BIT = 0) link
      | OP_BGEZ \<Rightarrow> branch (x AND SIGN_BIT = 0) m
      | OP_BGTZ \<Rightarrow> branch (0 <s x) m
      | OP_BLEZ \<Rightarrow> branch (x <=s 0) m
      | OP_BLTZAL \<Rightarrow> branch (registers link (rs i) AND SIGN_BIT \<noteq> 0) link
      | OP_BLTZ \<Rightarrow> branch (x AND SIGN_BIT \<noteq> 0) m
      | OP_BNE \<Rightarrow> branch (x \<noteq> y) m
      | _ \<Rightarrow> exec_DIV_JR be now i m pcAfter)"

definition OneInstruction :: "bool \<Rightarrow> int \<Rightarrow> machine \<Rightarrow> outcome result" where
  "OneInstruction be now m =
     rbind (ReadMem be now (registers m PCReg) 4 m) (\<lambda>(fetched, m1). case fetched of
       Inl e \<Rightarrow> Inr (Trap e m1)
     | Inr raw \<Rightarrow>
       rbind (exec_ADD_BNE be now (Decode raw) m1 (registers m1 NextPCReg + 4)) (\<lambda>eff. case eff of
         Exc e m2 \<Rightarrow> Inr (Trap e m2)
       | Break m2 pcAfter nextLoadReg nextLoadValue \<Rightarrow>
         rbind (DelayedLoad nextLoadReg nextLoadValue m2) (\<lambda>m3.
         Inr (Next (set_reg NextPCReg pcAfter (set_reg PCReg (registers m3 NextPCReg)
               (set_reg PrevPCReg (registers m3 PCReg) m3)))))))"

end
