(* ===== verification/Mips_Safety.thy ===== *)
theory Mips_Safety
  imports Mips
begin

text \<open>
  What one simulated instruction can and cannot do: it keeps the invariant of the register file,
  it touches only memory the current page table maps, and it stops the simulator in two documented
  situations only. The groups of cases of \<open>OneInstruction\<close> are treated by a few rules, one per
  kind of effect (\<open>effect_rules\<close>).
\<close>

named_theorems effect_rules \<open>introduction rules for the effect of one case of the switch\<close>

section \<open>The frame of a user program\<close>

definition user_inv :: "nat \<Rightarrow> machine \<Rightarrow> bool" where
  "user_inv p m \<longleftrightarrow> m_tlb m = None \<and> m_pageTable m = Some p \<and> m_pageTableSize m \<le> length (pageTables m p)
     \<and> registers m 0 = 0 \<and> unat (registers m LoadReg) < NumGPRegs"

text \<open>\<open>confined p m m'\<close>: from \<open>m\<close> to \<open>m'\<close> only bytes that table \<open>p\<close> maps, and status bits of
  table \<open>p\<close>, have changed.\<close>

definition confined :: "nat \<Rightarrow> machine \<Rightarrow> machine \<Rightarrow> bool" where
  "confined p m m' \<longleftrightarrow>
     (\<forall>pa. pa div PageSize \<notin> frames m p \<longrightarrow> mainMemory m' pa = mainMemory m pa)
     \<and> frames m' p = frames m p \<and> m_tlb m' = m_tlb m \<and> m_pageTable m' = m_pageTable m
     \<and> m_pageTableSize m' = m_pageTableSize m \<and> length (pageTables m' p) = length (pageTables m p)
     \<and> (\<forall>q. q \<noteq> p \<longrightarrow> pageTables m' q = pageTables m q)"

lemma confined_refl [simp, intro]: "confined p m m"
  by (simp add: confined_def)

lemma confined_trans [trans]: "confined p m m' \<Longrightarrow> confined p m' m'' \<Longrightarrow> confined p m m''"
  by (simp add: confined_def)

lemma confined_registers [simp]:
  "confined p m (m'\<lparr>registers := x\<rparr>) = confined p m m'" "confined p m (set_reg r v m') = confined p m m'"
  "confined p (m\<lparr>registers := x\<rparr>) m' = confined p m m'"
  by (simp_all add: confined_def frames_def set_reg_def)

lemma confined_touch: "confined p m m' \<Longrightarrow> confined p m (touch pa now m')"
  by (simp add: confined_def)

lemma registers_set_reg [simp]: "registers (set_reg r v m) = (registers m)(r := v)"
  by (simp add: set_reg_def)

lemma registers_touch [simp]: "registers (touch pa now m) = registers m"
  by (simp add: touch_def)

lemma Translate_confined:
  assumes "m_tlb m = None" "m_pageTable m = Some p" "Translate a sz w m = Inr (Inr (pa, m'))" "sz \<in> {1, 2, 4}"
  shows "confined p m m'" "registers m' = registers m"
  using Translate_frames [OF assms] assms(3) unfolding Translate_page_table [OF assms(1)]
  by (auto simp: confined_def assms(2))

text \<open>\<open>settled m m'\<close>: the registers above the general and result registers are those of \<open>m\<close>.\<close>

definition settled :: "machine \<Rightarrow> machine \<Rightarrow> bool" where
  "settled m m' \<longleftrightarrow> (\<forall>r \<ge> PCReg. registers m' r = registers m r)"

lemma DelayedLoad_ok:
  assumes "unat (registers m LoadReg) < NumGPRegs"
  obtains m' where "DelayedLoad nr nv m = Inr m'" "confined p m m'" "registers m' 0 = 0" "registers m' LoadReg = nr"
    "registers m' PCReg = registers m PCReg" "registers m' NextPCReg = registers m NextPCReg"
  using assms that by (auto simp: DelayedLoad_def Let_def)

lemma RaiseException_ok:
  assumes "user_inv p m"
  obtains m' where "RaiseException bad m = Inr m'" "confined p m m'" "user_inv p m'"
proof -
  have "unat (registers (m\<lparr>registers := (registers m)(BadVAddrReg := bad)\<rparr>) LoadReg) < NumGPRegs"
    using assms by (simp add: user_inv_def)
  then obtain m' where "RaiseException bad m = Inr m'" "confined p m m'" "registers m' 0 = 0" "registers m' LoadReg = 0"
    unfolding RaiseException_def by (rule DelayedLoad_ok [where p = p and nr = 0 and nv = 0]) auto
  with that assms show ?thesis by (auto simp: user_inv_def confined_def)
qed

section \<open>Loads and stores\<close>

lemma Translate_total:
  assumes "user_inv p m" "sz \<in> {1, 2, 4}"
  obtains e where "Translate a sz w m = Inr (Inl e)"
    | pa m' where "Translate a sz w m = Inr (Inr (pa, m'))"
  using Translate_eq [of m p sz a w] assms by (auto simp: user_inv_def Let_def split: if_splits)

lemma ReadMem_ok:
  assumes "user_inv p m" "sz \<in> {1, 2, 4}"
  obtains e m' where "ReadMem be now a sz m = Inr (Inl e, m')" "confined p m m'" "user_inv p m'"
    | v m' where "ReadMem be now a sz m = Inr (Inr v, m')" "confined p m m'" "registers m' = registers m"
proof (rule Translate_total [OF assms, of a False])
  fix e assume t: "Translate a sz False m = Inr (Inl e)"
  obtain m' where "RaiseException a m = Inr m'" "confined p m m'" "user_inv p m'"
    using RaiseException_ok [OF assms(1)] .
  with t that(1) show thesis by (auto simp: ReadMem_def)
next
  fix pa m' assume t: "Translate a sz False m = Inr (Inr (pa, m'))"
  have "m_tlb m = None" "m_pageTable m = Some p" using assms(1) by (simp_all add: user_inv_def)
  from Translate_confined [OF this t assms(2)]
  have "confined p m (touch pa now m')" "registers (touch pa now m') = registers m"
    by (simp_all add: confined_touch)
  with t that(2) assms(2) show thesis by (auto simp: ReadMem_def)
qed

lemma WriteMem_ok:
  assumes "user_inv p m" "sz \<in> {1, 2, 4}"
  obtains e m' where "WriteMem be now a sz v m = Inr (Inl e, m')" "confined p m m'" "user_inv p m'"
    | m' where "WriteMem be now a sz v m = Inr (Inr (), m')" "confined p m m'" "registers m' = registers m"
proof (rule Translate_total [OF assms, of a True])
  fix e assume t: "Translate a sz True m = Inr (Inl e)"
  obtain m' where "RaiseException a m = Inr m'" "confined p m m'" "user_inv p m'"
    using RaiseException_ok [OF assms(1)] .
  with t that(1) show thesis by (auto simp: WriteMem_def)
next
  fix pa m1 assume t: "Translate a sz True m = Inr (Inr (pa, m1))"
  have tp: "m_tlb m = None" "m_pageTable m = Some p" using assms(1) by (simp_all add: user_inv_def)
  obtain m' mem where w: "WriteMem be now a sz v m = Inr (Inr (), m')" "m' = touch pa now (m1\<lparr>mainMemory := mem\<rparr>)"
    using t assms(2) by (auto simp: WriteMem_def)
  from Translate_confined [OF tp t assms(2)] w(2) have "confined p m m'" "registers m' = registers m"
    using WriteMem_mapped [OF tp w(1)] by (auto simp: confined_def)
  with w(1) that(2) show thesis by blast
qed

section \<open>Effects\<close>

text \<open>The two situations in which the simulator stops: a partial-word access that is not aligned
  fails an assertion, and the division of the least integer by \<open>-1\<close> is undefined.\<close>

definition stops :: "Instruction \<Rightarrow> machine \<Rightarrow> stop \<Rightarrow> bool" where
  "stops i m s \<longleftrightarrow>
     s = Abort \<and> opCode i \<in> {OP_LWL, OP_LWR, OP_SWL, OP_SWR} \<and> (registers m (rs i) + extra i) AND 3 \<noteq> 0
     \<or> s = Undefined \<and> opCode i = OP_DIV \<and> registers m (rs i) = SIGN_BIT \<and> registers m (rt i) = - 1
     \<or> s = Abort \<and> opCode i \<in> {OP_RFE, SPECIAL, BCOND}"

fun effect_ok :: "nat \<Rightarrow> machine \<Rightarrow> effect \<Rightarrow> bool" where
  "effect_ok p m (Break m' pcAfter nextReg nextValue) \<longleftrightarrow> confined p m m' \<and> settled m m' \<and> unat nextReg < NumGPRegs"
| "effect_ok p m (Exc e m') \<longleftrightarrow> confined p m m' \<and> user_inv p m'"

definition exec_ok :: "nat \<Rightarrow> Instruction \<Rightarrow> machine \<Rightarrow> effect result \<Rightarrow> bool" where
  "exec_ok p i m r \<longleftrightarrow> (case r of Inl s \<Rightarrow> stops i m s | Inr eff \<Rightarrow> effect_ok p m eff)"

lemma user_inv_confined: "user_inv p m \<Longrightarrow> confined p m m' \<Longrightarrow> registers m' = registers m \<Longrightarrow> user_inv p m'"
  by (auto simp: user_inv_def confined_def)

lemma ok_Break [effect_rules]:
  "confined p m m' \<Longrightarrow> settled m m' \<Longrightarrow> unat nr < NumGPRegs \<Longrightarrow> exec_ok p i m (Inr (Break m' pc nr nv))"
  by (simp add: exec_ok_def)

lemma ok_raise [effect_rules]: "user_inv p m \<Longrightarrow> exec_ok p i m (raise e bad m)"
  by (erule RaiseException_ok [where bad = bad]) (simp add: raise_def exec_ok_def)

lemma ok_read [effect_rules]:
  assumes "user_inv p m" "sz \<in> {1, 2, 4}"
    "\<And>v m'. confined p m m' \<Longrightarrow> registers m' = registers m \<Longrightarrow> exec_ok p i m (k v m')"
  shows "exec_ok p i m (read_or_trap be now a sz m k)"
  by (rule ReadMem_ok [OF assms(1,2), of be now a]) (auto simp: read_or_trap_def exec_ok_def [of _ _ _ "Inr (Exc _ _)"] assms(3))

lemma ok_write [effect_rules]:
  assumes "user_inv p m" "confined p m m1" "registers m1 = registers m" "sz \<in> {1, 2, 4}"
    "\<And>m'. confined p m m' \<Longrightarrow> registers m' = registers m \<Longrightarrow> exec_ok p i m (k m')"
  shows "exec_ok p i m (write_or_trap be now a sz v m1 k)"
  using user_inv_confined [OF assms(1-3)] confined_trans [OF assms(2)]
  by (elim WriteMem_ok [OF _ assms(4), of p m1 be now a v])
    (auto simp: write_or_trap_def exec_ok_def [of _ _ _ "Inr (Exc _ _)"] assms(3) intro: assms(5))

lemma ok_assert [effect_rules]:
  assumes "opCode i \<in> {OP_LWL, OP_LWR, OP_SWL, OP_SWR}"
    "(registers m (rs i) + extra i) AND 3 = 0 \<Longrightarrow> exec_ok p i m k"
  shows "exec_ok p i m (rbind (ASSERT ((registers m (rs i) + extra i) AND 3 = 0)) (\<lambda>_. k))"
  using assms by (auto simp: exec_ok_def ASSERT_def stops_def)

lemma settled_simps [simp]:
  "settled m m" "r < PCReg \<Longrightarrow> settled m (set_reg r v m') = settled m m'"
  "settled m (set_hilo p m') = settled m m'"
  by (auto simp: settled_def set_hilo_def)

lemma confined_set_hilo [simp]: "confined p m (set_hilo q m') = confined p m m'"
  by (simp add: set_hilo_def)

lemma settled_registers: "registers m' = registers m \<Longrightarrow> settled m m'"
  by (simp add: settled_def)

definition fields_ok :: "Instruction \<Rightarrow> bool" where
  "fields_ok i \<longleftrightarrow> rs i < 32 \<and> rt i < 32 \<and> rd i < 32"

lemma unat_of_nat_32: "n < 32 \<Longrightarrow> unat (of_nat n :: 32 word) < 32"
  by (simp add: unat_of_nat)

lemma ok_stop: "exec_ok p i m (Inl s) \<longleftrightarrow> stops i m s"
  by (simp add: exec_ok_def)

lemmas effect_simps = settled_registers unat_of_nat_32 ok_stop stops_def

text \<open>One lemma per group of cases, and where the group passes to the next.\<close>

lemma exec_SYSCALL_RES_ok:
  assumes "user_inv p m" "fields_ok i" "opCode i \<in> {OP_SYSCALL, OP_XOR, OP_XORI, OP_RES, OP_UNIMP, OP_RFE, SPECIAL, BCOND}"
  shows "exec_ok p i m (exec_SYSCALL_RES i m pc)"
  using assms(3,1,2) unfolding exec_SYSCALL_RES_def Let_def fields_ok_def
  by (elim insertE emptyE; simp only: OpCode.case; auto intro!: effect_rules simp: effect_simps)

lemma exec_SW_SWR_ok:
  assumes "user_inv p m" "fields_ok i" "opCode i \<in> {OP_SW, OP_SWL, OP_SWR}"
  shows "exec_ok p i m (exec_SW_SWR be now i m pc)"
  using assms(3,1,2) unfolding exec_SW_SWR_def Let_def fields_ok_def
  by (elim insertE emptyE; simp only: OpCode.case; auto intro!: effect_rules simp: effect_simps)

lemma exec_SW_SWR_next:
  "opCode i \<notin> {OP_SW, OP_SWL, OP_SWR} \<Longrightarrow>
     exec_SW_SWR be now i m pc = exec_SYSCALL_RES i m pc"
  by (cases "opCode i") (simp_all add: exec_SW_SWR_def Let_def)

lemma exec_SB_SUBU_ok:
  assumes "user_inv p m" "fields_ok i" "opCode i \<in> {OP_SB, OP_SH, OP_SLL, OP_SLLV, OP_SLT, OP_SLTI, OP_SLTIU, OP_SLTU, OP_SRA, OP_SRAV, OP_SRL, OP_SRLV, OP_SUB, OP_SUBU}"
  shows "exec_ok p i m (exec_SB_SUBU be now i m pc)"
  using assms(3,1,2) unfolding exec_SB_SUBU_def Let_def fields_ok_def
  by (elim insertE emptyE; simp only: OpCode.case; auto intro!: effect_rules simp: effect_simps)

lemma exec_SB_SUBU_next:
  "opCode i \<notin> {OP_SB, OP_SH, OP_SLL, OP_SLLV, OP_SLT, OP_SLTI, OP_SLTIU, OP_SLTU, OP_SRA, OP_SRAV, OP_SRL, OP_SRLV, OP_SUB, OP_SUBU} \<Longrightarrow>
     exec_SB_SUBU be now i m pc = exec_SW_SWR be now i m pc"
  by (cases "opCode i") (simp_all add: exec_SB_SUBU_def Let_def)

lemma exec_MFHI_ORI_ok:
  assumes "user_inv p m" "fields_ok i" "opCode i \<in> {OP_MFHI, OP_MFLO, OP_MTHI, OP_MTLO, OP_MULT, OP_MULTU, OP_NOR, OP_OR, OP_ORI}"
  shows "exec_ok p i m (exec_MFHI_ORI be now i m pc)"
  using assms(3,1,2) unfolding exec_MFHI_ORI_def Let_def fields_ok_def
  by (elim insertE emptyE; simp only: OpCode.case; auto intro!: effect_rules simp: effect_simps)

lemma exec_MFHI_ORI_next:
  "opCode i \<notin> {OP_MFHI, OP_MFLO, OP_MTHI, OP_MTLO, OP_MULT, OP_MULTU, OP_NOR, OP_OR, OP_ORI} \<Longrightarrow>
     exec_MFHI_ORI be now i m pc = exec_SB_SUBU be now i m pc"
  by (cases "opCode i") (simp_all add: exec_MFHI_ORI_def Let_def)

lemma exec_LB_LWR_ok:
  assumes "user_inv p m" "fields_ok i" "opCode i \<in> {OP_LB, OP_LBU, OP_LH, OP_LHU, OP_LUI, OP_LW, OP_LWL, OP_LWR}"
  shows "exec_ok p i m (exec_LB_LWR be now i m pc)"
  using assms(3,1,2) unfolding exec_LB_LWR_def Let_def fields_ok_def
  by (elim insertE emptyE; simp only: OpCode.case; auto intro!: effect_rules simp: effect_simps)

lemma exec_LB_LWR_next:
  "opCode i \<notin> {OP_LB, OP_LBU, OP_LH, OP_LHU, OP_LUI, OP_LW, OP_LWL, OP_LWR} \<Longrightarrow>
     exec_LB_LWR be now i m pc = exec_MFHI_ORI be now i m pc"
  by (cases "opCode i") (simp_all add: exec_LB_LWR_def Let_def)

lemma exec_DIV_JR_ok:
  assumes "user_inv p m" "fields_ok i" "opCode i \<in> {OP_DIV, OP_DIVU, OP_JAL, OP_J, OP_JALR, OP_JR}"
  shows "exec_ok p i m (exec_DIV_JR be now i m pc)"
  using assms(3,1,2) unfolding exec_DIV_JR_def Let_def fields_ok_def
  by (elim insertE emptyE; simp only: OpCode.case; auto intro!: effect_rules simp: effect_simps)

lemma exec_DIV_JR_next:
  "opCode i \<notin> {OP_DIV, OP_DIVU, OP_JAL, OP_J, OP_JALR, OP_JR} \<Longrightarrow>
     exec_DIV_JR be now i m pc = exec_LB_LWR be now i m pc"
  by (cases "opCode i") (simp_all add: exec_DIV_JR_def Let_def)

lemma exec_ADD_BNE_ok:
  assumes "user_inv p m" "fields_ok i" "opCode i \<in> {OP_ADD, OP_ADDI, OP_ADDIU, OP_ADDU, OP_AND, OP_ANDI, OP_BEQ, OP_BGEZAL, OP_BGEZ, OP_BGTZ, OP_BLEZ, OP_BLTZAL, OP_BLTZ, OP_BNE}"
  shows "exec_ok p i m (exec_ADD_BNE be now i m pc)"
  using assms(3,1,2) unfolding exec_ADD_BNE_def Let_def fields_ok_def
  by (elim insertE emptyE; simp only: OpCode.case; auto intro!: effect_rules simp: effect_simps)

lemma exec_ADD_BNE_next:
  "opCode i \<notin> {OP_ADD, OP_ADDI, OP_ADDIU, OP_ADDU, OP_AND, OP_ANDI, OP_BEQ, OP_BGEZAL, OP_BGEZ, OP_BGTZ, OP_BLEZ, OP_BLTZAL, OP_BLTZ, OP_BNE} \<Longrightarrow>
     exec_ADD_BNE be now i m pc = exec_DIV_JR be now i m pc"
  by (cases "opCode i") (simp_all add: exec_ADD_BNE_def Let_def)

lemma exec_effect_ok:
  assumes "user_inv p m" "fields_ok i"
  shows "exec_ok p i m (exec_ADD_BNE be now i m pc)"
proof (cases "opCode i \<in> {OP_ADD, OP_ADDI, OP_ADDIU, OP_ADDU, OP_AND, OP_ANDI, OP_BEQ, OP_BGEZAL, OP_BGEZ, OP_BGTZ, OP_BLEZ, OP_BLTZAL, OP_BLTZ, OP_BNE}")
  case True
  then show ?thesis by (rule exec_ADD_BNE_ok [OF assms])
next
  case 1: False
  show ?thesis
  proof (cases "opCode i \<in> {OP_DIV, OP_DIVU, OP_JAL, OP_J, OP_JALR, OP_JR}")
    case True
    then show ?thesis unfolding exec_ADD_BNE_next [OF 1] by (rule exec_DIV_JR_ok [OF assms])
  next
    case 2: False
    show ?thesis
    proof (cases "opCode i \<in> {OP_LB, OP_LBU, OP_LH, OP_LHU, OP_LUI, OP_LW, OP_LWL, OP_LWR}")
      case True
      then show ?thesis unfolding exec_ADD_BNE_next [OF 1] exec_DIV_JR_next [OF 2] by (rule exec_LB_LWR_ok [OF assms])
    next
      case 3: False
      show ?thesis
      proof (cases "opCode i \<in> {OP_MFHI, OP_MFLO, OP_MTHI, OP_MTLO, OP_MULT, OP_MULTU, OP_NOR, OP_OR, OP_ORI}")
        case True
        then show ?thesis unfolding exec_ADD_BNE_next [OF 1] exec_DIV_JR_next [OF 2] exec_LB_LWR_next [OF 3] by (rule exec_MFHI_ORI_ok [OF assms])
      next
        case 4: False
        show ?thesis
        proof (cases "opCode i \<in> {OP_SB, OP_SH, OP_SLL, OP_SLLV, OP_SLT, OP_SLTI, OP_SLTIU, OP_SLTU, OP_SRA, OP_SRAV, OP_SRL, OP_SRLV, OP_SUB, OP_SUBU}")
          case True
          then show ?thesis unfolding exec_ADD_BNE_next [OF 1] exec_DIV_JR_next [OF 2] exec_LB_LWR_next [OF 3] exec_MFHI_ORI_next [OF 4] by (rule exec_SB_SUBU_ok [OF assms])
        next
          case 5: False
          show ?thesis
          proof (cases "opCode i \<in> {OP_SW, OP_SWL, OP_SWR}")
            case True
            then show ?thesis unfolding exec_ADD_BNE_next [OF 1] exec_DIV_JR_next [OF 2] exec_LB_LWR_next [OF 3] exec_MFHI_ORI_next [OF 4] exec_SB_SUBU_next [OF 5] by (rule exec_SW_SWR_ok [OF assms])
          next
            case 6: False
            have "opCode i \<in> {OP_SYSCALL, OP_XOR, OP_XORI, OP_RES, OP_UNIMP, OP_RFE, SPECIAL, BCOND}"
              using 1 2 3 4 5 6 by (cases "opCode i") simp_all
            then show ?thesis unfolding exec_ADD_BNE_next [OF 1] exec_DIV_JR_next [OF 2] exec_LB_LWR_next [OF 3] exec_MFHI_ORI_next [OF 4] exec_SB_SUBU_next [OF 5] exec_SW_SWR_next [OF 6] by (rule exec_SYSCALL_RES_ok [OF assms])
          qed
        qed
      qed
    qed
  qed
qed

section \<open>Decoding\<close>

lemma mask_consts: "(0x1f :: 32 word) = mask 5" "(0x3f :: 32 word) = mask 6" "(0xffff :: 32 word) = mask 16"
  "(0xffff0000 :: 32 word) = NOT (mask 16)" "(0x8000 :: 32 word) = push_bit 15 1" "(0x3ffffff :: 32 word) = mask 26"
  by (simp_all add: mask_eq_exp_minus_1 push_bit_eq_mult)

lemma and_mask_less: "unat (x AND mask n :: 32 word) < 2 ^ n"
  by (simp only: take_bit_eq_mask [symmetric] unsigned_take_bit_eq) simp

lemma Decode_fields: "fields_ok (Decode v)"
  using and_mask_less [of _ 5] by (simp add: fields_ok_def Decode_def Let_def case_prod_beta mask_consts)

lemma tables_ok:
  "list_all (\<lambda>(op, _). op \<noteq> OP_RFE) opTable" "list_all (\<lambda>op. op \<notin> {OP_RFE, SPECIAL, BCOND}) specialTable"
  "length opTable = 64" "length specialTable = 64"
  by (simp_all add: opTable_def specialTable_def)

lemma Decode_opCode: "opCode (Decode v) \<notin> {OP_RFE, SPECIAL, BCOND}"
proof -
  define n k where "n = unat (drop_bit 26 v AND 0x3f)" and "k = unat (v AND 0x3f)"
  have "n < 64" "k < 64" using and_mask_less [of _ 6] by (simp_all add: n_def k_def mask_consts)
  with tables_ok have "fst (opTable ! n) \<noteq> OP_RFE" "specialTable ! k \<notin> {OP_RFE, SPECIAL, BCOND}"
    by (auto simp: list_all_length case_prod_beta)
  moreover have "opCode (Decode v) = (let op = fst (opTable ! n) in if op = SPECIAL then specialTable ! k
      else if op = BCOND then opCode (Decode v) else op)"
    "fst (opTable ! n) = BCOND \<Longrightarrow> opCode (Decode v) \<in> {OP_BLTZ, OP_BGEZ, OP_BLTZAL, OP_BGEZAL, OP_UNIMP}"
    by (auto simp: Decode_def Let_def case_prod_beta n_def k_def)
  ultimately show ?thesis by (auto simp: Let_def split: if_splits)
qed

text \<open>The instruction formats of the architecture, as an assembler writes them.\<close>

definition encode_I :: "6 word \<Rightarrow> 5 word \<Rightarrow> 5 word \<Rightarrow> 16 word \<Rightarrow> 32 word" where
  "encode_I op s t imm = push_bit 26 (ucast op) OR push_bit 21 (ucast s) OR push_bit 16 (ucast t) OR ucast imm"

definition encode_R :: "5 word \<Rightarrow> 5 word \<Rightarrow> 5 word \<Rightarrow> 5 word \<Rightarrow> 6 word \<Rightarrow> 32 word" where
  "encode_R s t d shamt funct =
     push_bit 21 (ucast s) OR push_bit 16 (ucast t) OR push_bit 11 (ucast d) OR push_bit 6 (ucast shamt) OR ucast funct"

definition encode_J :: "6 word \<Rightarrow> 26 word \<Rightarrow> 32 word" where
  "encode_J op target = push_bit 26 (ucast op) OR ucast target"

lemma field_of_bits:
  fixes x :: "'b::len word"
  assumes "LENGTH('b) \<le> 32" "\<And>k. k < LENGTH('b) \<Longrightarrow> bit v (n + k) = bit x k"
  shows "drop_bit n v AND mask LENGTH('b) = (ucast x :: 32 word)"
  using assms by (intro bit_word_eqI) (auto simp: bit_simps dest: bit_imp_le_length)

lemma sign_extend_16:
  "(let e = ucast (imm :: 16 word) in if e AND 0x8000 \<noteq> 0 then e OR 0xffff0000 else e) = (scast imm :: 32 word)"
proof -
  have b: "bit ((ucast imm :: 32 word) AND 0x8000) k \<longleftrightarrow> k = 15 \<and> bit imm 15" for k
    unfolding mask_consts by (auto simp: bit_simps simp del: push_bit_of_1)
  have "(ucast imm :: 32 word) AND 0x8000 \<noteq> 0 \<longleftrightarrow> bit imm 15"
    using b by (metis bit_0_eq bot_apply bot_bool_def bit_word_eqI)
  moreover have "bit (scast imm :: 32 word) k = bit (if bit imm 15 then ucast imm OR NOT (mask 16) else ucast imm :: 32 word) k" for k
  proof -
    consider "k < 15" | "k = 15" | "16 \<le> k" by linarith
    then show ?thesis by cases (auto simp: bit_simps min_def not_less dest: bit_imp_le_length)
  qed
  ultimately show ?thesis unfolding mask_consts(4) Let_def by (intro bit_eqI) auto
qed

lemma encode_I_fields:
  "drop_bit 26 (encode_I op s t imm) AND 0x3f = ucast op" "drop_bit 21 (encode_I op s t imm) AND 0x1f = ucast s"
  "drop_bit 16 (encode_I op s t imm) AND 0x1f = ucast t" "encode_I op s t imm AND 0xffff = ucast imm"
  unfolding mask_consts
  by (rule bit_word_eqI, auto simp: encode_I_def bit_simps dest: bit_imp_le_length)+

lemma encode_R_fields:
  "drop_bit 26 (encode_R s t d sh f) AND 0x3f = 0" "drop_bit 21 (encode_R s t d sh f) AND 0x1f = ucast s"
  "drop_bit 16 (encode_R s t d sh f) AND 0x1f = ucast t" "drop_bit 11 (encode_R s t d sh f) AND 0x1f = ucast d"
  "drop_bit 6 (encode_R s t d sh f) AND 0x1f = ucast sh" "encode_R s t d sh f AND 0x3f = ucast f"
  unfolding mask_consts
  by (rule bit_word_eqI, auto simp: encode_R_def bit_simps dest: bit_imp_le_length)+

lemma encode_J_fields:
  "drop_bit 26 (encode_J op x) AND 0x3f = ucast op" "encode_J op x AND 0x3ffffff = ucast x"
  unfolding mask_consts
  by (rule bit_word_eqI, auto simp: encode_J_def bit_simps dest: bit_imp_le_length)+

lemma unat_ucast_field: "LENGTH('b::len) \<le> 32 \<Longrightarrow> unat (ucast (x :: 'b word) :: 32 word) = unat x"
proof -
  assume "LENGTH('b) \<le> 32"
  then have "(2 :: nat) ^ LENGTH('b) \<le> 2 ^ 32" by (intro power_increasing) simp_all
  moreover have "unat x < 2 ^ LENGTH('b)" by simp
  ultimately have "unat x < 2 ^ 32" by linarith
  then show ?thesis by (simp add: unsigned_ucast_eq take_bit_nat_eq_self_iff)
qed

lemma jump_entries: "unat (op :: 6 word) < 64"
  "snd (opTable ! unat (op :: 6 word)) = JFMT \<Longrightarrow> fst (opTable ! unat op) \<notin> {SPECIAL, BCOND}"
proof -
  show "unat op < 64" using unsigned_less [of op] by simp
  moreover have "list_all (\<lambda>(c, fmt). fmt = JFMT \<longrightarrow> c \<notin> {SPECIAL, BCOND}) opTable"
    by (simp add: opTable_def)
  ultimately show "snd (opTable ! unat op) = JFMT \<Longrightarrow> fst (opTable ! unat op) \<notin> {SPECIAL, BCOND}"
    by (simp add: list_all_length case_prod_beta tables_ok)
qed

lemma Decode_encode_I:
  assumes "snd (opTable ! unat op) = IFMT" "i = Decode (encode_I op s t imm)"
  shows "rs i = unat s" "rt i = unat t" "extra i = scast imm"
    "fst (opTable ! unat op) \<notin> {SPECIAL, BCOND} \<Longrightarrow> opCode i = fst (opTable ! unat op)"
  using assms sign_extend_16 [of imm]
  by (simp_all add: Decode_def encode_I_fields unat_ucast_field case_prod_beta Let_def)

lemma Decode_encode_R:
  assumes "i = Decode (encode_R s t d sh f)"
  shows "rs i = unat s" "rt i = unat t" "rd i = unat d" "extra i = ucast sh" "opCode i = specialTable ! unat f"
  using assms by (simp_all add: Decode_def encode_R_fields unat_ucast_field case_prod_beta Let_def opTable_def [of])

lemma Decode_encode_J:
  assumes "snd (opTable ! unat op) = JFMT" "i = Decode (encode_J op x)"
  shows "extra i = ucast x" "opCode i = fst (opTable ! unat op)"
  using assms jump_entries(2) [OF assms(1)]
  by (simp_all add: Decode_def encode_J_fields unat_ucast_field case_prod_beta Let_def)

section \<open>One step of the machine\<close>

text \<open>What the commit at the end of \<open>OneInstruction\<close> does after an effect that is in order.\<close>

definition step_ok :: "nat \<Rightarrow> machine \<Rightarrow> machine \<Rightarrow> bool" where
  "step_ok p m m' \<longleftrightarrow> user_inv p m' \<and> confined p m m'
     \<and> registers m' PCReg = registers m NextPCReg \<and> registers m' PrevPCReg = registers m PCReg
     \<and> (registers m LoadReg \<noteq> 0 \<longrightarrow> registers m' (unat (registers m LoadReg)) = registers m LoadValueReg)"

lemma step_ok_start:
  "confined p m m1 \<Longrightarrow> registers m1 = registers m \<Longrightarrow> step_ok p m1 m' \<Longrightarrow> step_ok p m m'"
  unfolding step_ok_def by (metis confined_trans)

lemma commit_ok:
  assumes "user_inv p m" "confined p m m2" "settled m m2" "unat nr < NumGPRegs"
  obtains m3 where "DelayedLoad nr nv m2 = Inr m3"
    "step_ok p m (set_reg NextPCReg pc (set_reg PCReg (registers m3 NextPCReg) (set_reg PrevPCReg (registers m3 PCReg) m3)))"
proof -
  let ?l = "unat (registers m LoadReg)"
  have l: "?l < 32" "registers m2 LoadReg = registers m LoadReg" "registers m2 LoadValueReg = registers m LoadValueReg"
    "registers m2 PCReg = registers m PCReg" "registers m2 NextPCReg = registers m NextPCReg"
    using assms(1,3) by (simp_all add: user_inv_def settled_def)
  define m3 where "m3 = m2\<lparr>registers := (registers m2)(?l := registers m LoadValueReg, LoadReg := nr, LoadValueReg := nv, 0 := 0)\<rparr>"
  have "DelayedLoad nr nv m2 = Inr m3" using l by (simp add: DelayedLoad_def m3_def)
  moreover have "confined p m m3" using assms(2) by (simp add: m3_def)
  moreover from this assms(1) have "m_tlb m3 = None" "m_pageTable m3 = Some p" "m_pageTableSize m3 \<le> length (pageTables m3 p)"
    by (simp_all add: user_inv_def confined_def)
  ultimately show ?thesis using that l assms(4)
    by (auto simp: step_ok_def user_inv_def m3_def set_reg_def confined_def frames_def unat_eq_0)
qed

lemma OneInstruction_ok:
  assumes "user_inv p m"
  shows "case OneInstruction be now m of
      Inr (Next m') \<Rightarrow> step_ok p m m'
    | Inr (Trap e m') \<Rightarrow> user_inv p m' \<and> confined p m m'
    | Inl s \<Rightarrow> \<exists>raw m1. ReadMem be now (registers m PCReg) 4 m = Inr (Inr raw, m1) \<and> registers m1 = registers m \<and> stops (Decode raw) m1 s"
proof (rule ReadMem_ok [OF assms, of 4 be now "registers m PCReg"])
  fix raw m1
  assume fetch: "ReadMem be now (registers m PCReg) 4 m = Inr (Inr raw, m1)" "confined p m m1" "registers m1 = registers m"
  have u: "user_inv p m1" using user_inv_confined [OF assms fetch(2,3)] .
  let ?x = "exec_ADD_BNE be now (Decode raw) m1 (registers m1 NextPCReg + 4)"
  have ok: "exec_ok p (Decode raw) m1 ?x" by (rule exec_effect_ok [OF u Decode_fields])
  show ?thesis
  proof (cases ?x)
    case (Inl s)
    with ok fetch show ?thesis by (simp add: OneInstruction_def ok_stop)
  next
    case (Inr eff)
    show ?thesis
    proof (cases eff)
      case (Break m2 pc nr nv)
      with ok Inr have b: "confined p m1 m2" "settled m1 m2" "unat nr < NumGPRegs" by (simp_all add: exec_ok_def)
      obtain m3 where m3: "DelayedLoad nr nv m2 = Inr m3" "step_ok p m1 (set_reg NextPCReg pc
          (set_reg PCReg (registers m3 NextPCReg) (set_reg PrevPCReg (registers m3 PCReg) m3)))"
        using commit_ok [OF u b, where pc = pc and nv = nv] by metis
      then have "OneInstruction be now m = Inr (Next (set_reg NextPCReg pc
          (set_reg PCReg (registers m3 NextPCReg) (set_reg PrevPCReg (registers m3 PCReg) m3))))"
        using fetch Inr Break by (simp add: OneInstruction_def)
      then show ?thesis using step_ok_start [OF fetch(2,3) m3(2)] by simp
    next
      case (Exc e m2)
      with ok Inr fetch confined_trans [OF fetch(2)] show ?thesis by (simp add: OneInstruction_def exec_ok_def)
    qed
  qed
qed (simp_all add: OneInstruction_def)

section \<open>Properties of the interpreter\<close>

text \<open>C18. A user program is confined: from a state in which a page table is installed, register 0 is
  zero and the pending load names a general register, one instruction (whether it completes or
  traps) keeps all of that, changes only memory bytes the table maps and leaves every other page
  table alone; it stops the simulator only when the instruction at the program counter is an unaligned
  partial-word access or divides the least integer by minus one.\<close>

theorem instruction_confined:
  assumes "user_inv p m"
  shows "case OneInstruction be now m of
      Inr out \<Rightarrow> (let m' = (case out of Next m' \<Rightarrow> m' | Trap _ m' \<Rightarrow> m') in
        user_inv p m' \<and> frames m' p = frames m p
        \<and> (\<forall>pa. pa div PageSize \<notin> frames m p \<longrightarrow> mainMemory m' pa = mainMemory m pa)
        \<and> (\<forall>q. q \<noteq> p \<longrightarrow> pageTables m' q = pageTables m q))
    | Inl s \<Rightarrow> (\<exists>raw m1. ReadMem be now (registers m PCReg) 4 m = Inr (Inr raw, m1) \<and> (let i = Decode raw in
        s = Abort \<and> opCode i \<in> {OP_LWL, OP_LWR, OP_SWL, OP_SWR} \<and> (registers m (rs i) + extra i) AND 3 \<noteq> 0
        \<or> s = Undefined \<and> opCode i = OP_DIV \<and> registers m (rs i) = SIGN_BIT \<and> registers m (rt i) = - 1))"
proof (cases "OneInstruction be now m")
  case (Inl s)
  with OneInstruction_ok [OF assms, of be now] obtain raw m1 where
    r: "ReadMem be now (registers m PCReg) 4 m = Inr (Inr raw, m1)" "registers m1 = registers m" "stops (Decode raw) m1 s" by auto
  with Decode_opCode [of raw] have "let i = Decode raw in
        s = Abort \<and> opCode i \<in> {OP_LWL, OP_LWR, OP_SWL, OP_SWR} \<and> (registers m (rs i) + extra i) AND 3 \<noteq> 0
        \<or> s = Undefined \<and> opCode i = OP_DIV \<and> registers m (rs i) = SIGN_BIT \<and> registers m (rt i) = - 1"
    by (simp add: stops_def Let_def)
  with Inl r(1) show ?thesis by auto
next
  case (Inr out)
  with OneInstruction_ok [OF assms, of be now] show ?thesis
    by (cases out) (simp_all add: step_ok_def confined_def)
qed

definition sample_user :: machine where
  "sample_user = two_page_machine\<lparr>registers := (\<lambda>r. if r = NextPCReg then 4 else 0)\<rparr>"

lemma sample_user_steps: "user_inv 0 sample_user" "\<exists>m'. OneInstruction True 0 sample_user = Inr (Next m')"
proof -
  show "user_inv 0 sample_user" by (simp add: user_inv_def sample_user_def two_page_simps)
  have "Decode 0 = \<lparr>i_value = 0, opCode = OP_SLL, rs = 0, rt = 0, rd = 0, extra = 0\<rparr>" by (simp add: Decode_def opTable_def specialTable_def)
  then show "\<exists>m'. OneInstruction True 0 sample_user = Inr (Next m')"
    by (simp add: OneInstruction_def ReadMem_def Translate_eq [of _ 0] host_load32_WordToHost load32_def word_of_bytes_def
        Let_def sample_user_def two_page_simps touch_def set_reg_def DelayedLoad_def
        exec_ADD_BNE_next exec_DIV_JR_next exec_LB_LWR_next exec_MFHI_ORI_next exec_SB_SUBU_def)
qed

theorem instruction_confined_witness:
  "\<exists>m'. OneInstruction True 0 sample_user = Inr (Next m') \<and> user_inv 0 m' \<and> mainMemory m' 0 = 0 \<and> frames m' 0 = frames sample_user 0"
proof -
  obtain m' where m': "OneInstruction True 0 sample_user = Inr (Next m')" using sample_user_steps(2) by blast
  have "0 \<notin> frames sample_user 0"
    by (auto simp: frames_def sample_user_def two_page_simps nth_Cons split: nat.splits)
  moreover have "mainMemory sample_user 0 = 0" by (simp add: sample_user_def two_page_simps)
  ultimately show ?thesis
    using instruction_confined [OF sample_user_steps(1), of True 0] m' by (simp add: Let_def)
qed

text \<open>Delay slots: when an instruction completes, execution goes on at the next-PC that was set when it
  began, so a branch takes effect one instruction late, and a load still pending when it began has
  reached its register when it completes, whatever the instruction itself wrote there.\<close>

theorem delay_slots:
  assumes "user_inv p m" "OneInstruction be now m = Inr (Next m')"
  shows "registers m' PCReg = registers m NextPCReg \<and> registers m' PrevPCReg = registers m PCReg \<and> registers m' 0 = 0
    \<and> (registers m LoadReg \<noteq> 0 \<longrightarrow> registers m' (unat (registers m LoadReg)) = registers m LoadValueReg)"
  using OneInstruction_ok [OF assms(1), of be now] assms(2) by (simp add: step_ok_def user_inv_def)

theorem delay_slots_witness: "\<exists>m'. OneInstruction True 0 sample_user = Inr (Next m') \<and> registers m' PCReg = 4"
proof -
  obtain m' where m': "OneInstruction True 0 sample_user = Inr (Next m')" using sample_user_steps(2) by blast
  with delay_slots [OF sample_user_steps(1) m'] show ?thesis by (simp add: sample_user_def)
qed

definition fits :: "int \<Rightarrow> bool" where
  "fits z \<longleftrightarrow> - (2 ^ 31) \<le> z \<and> z < 2 ^ 31"

definition checked :: "nat \<Rightarrow> int \<Rightarrow> machine \<Rightarrow> 32 word \<Rightarrow> effect result" where
  "checked r z m pc = (if fits z then Inr (Break (set_reg r (of_int z) m) pc 0 0) else raise OverflowException 0 m)"

lemma sign_mismatch: "(x XOR y) AND SIGN_BIT = 0 \<longleftrightarrow> (sint x < 0 \<longleftrightarrow> sint y < 0)"
  unfolding SIGN_BIT_def and_sign_bit bit_xor_iff by (auto simp: bit_31_sint)

lemma sint_wrap:
  "sint (x + y :: 32 word) = (if fits (sint x + sint y) then sint x + sint y
     else if sint x + sint y < 0 then sint x + sint y + 2 ^ 32 else sint x + sint y - 2 ^ 32)"
  "sint (x - y :: 32 word) = (if fits (sint x - sint y) then sint x - sint y
     else if sint x - sint y < 0 then sint x - sint y + 2 ^ 32 else sint x - sint y - 2 ^ 32)"
proof -
  have w: "sint (word_of_int z :: 32 word) = (if fits z then z else if z < 0 then z + 2 ^ 32 else z - 2 ^ 32)"
    if "- (2 ^ 32) \<le> z" "z < 2 ^ 32" for z
  proof -
    have "(z + 2 ^ 31) mod 2 ^ 32 = z + 2 ^ 31 + k * 2 ^ 32"
      if "0 \<le> z + 2 ^ 31 + k * 2 ^ 32" "z + 2 ^ 31 + k * 2 ^ 32 < 2 ^ 32" for k
      using mod_pos_pos_trivial [OF that] by (metis mod_mult_self1)
    from this [of 0] this [of 1] this [of "- 1"] that
    have "(z + 2 ^ 31) mod 2 ^ 32 = z + 2 ^ 31 + (if fits z then 0 else if z < 0 then 2 ^ 32 else - (2 ^ 32))"
      unfolding fits_def by auto
    then show ?thesis unfolding int_word_sint by simp
  qed
  have r: "- (2 ^ 31) \<le> sint z" "sint z < 2 ^ 31" for z :: "32 word"
    using sint_ge [of z] sint_lt [of z] by simp_all
  show "sint (x + y) = (if fits (sint x + sint y) then sint x + sint y
     else if sint x + sint y < 0 then sint x + sint y + 2 ^ 32 else sint x + sint y - 2 ^ 32)"
    using w [of "sint x + sint y"] r [of x] r [of y] by simp
  show "sint (x - y) = (if fits (sint x - sint y) then sint x - sint y
     else if sint x - sint y < 0 then sint x - sint y + 2 ^ 32 else sint x - sint y - 2 ^ 32)"
    using w [of "sint x - sint y"] r [of x] r [of y] by simp
qed

lemma overflow_iff:
  "(x XOR y) AND SIGN_BIT = 0 \<and> (x XOR (x + y)) AND SIGN_BIT \<noteq> 0 \<longleftrightarrow> \<not> fits (sint x + sint y)"
  "(x XOR y) AND SIGN_BIT = 0 \<and> (y XOR (x + y)) AND SIGN_BIT \<noteq> 0 \<longleftrightarrow> \<not> fits (sint x + sint y)"
  "(x XOR y) AND SIGN_BIT \<noteq> 0 \<and> (x XOR (x - y)) AND SIGN_BIT \<noteq> 0 \<longleftrightarrow> \<not> fits (sint x - sint y)"
proof -
  have r: "- (2 ^ 31) \<le> sint z" "sint z < 2 ^ 31" for z :: "32 word"
    using sint_ge [of z] sint_lt [of z] by simp_all
  note r' = r [of x] r [of y]
  show "(x XOR y) AND SIGN_BIT = 0 \<and> (x XOR (x + y)) AND SIGN_BIT \<noteq> 0 \<longleftrightarrow> \<not> fits (sint x + sint y)"
    unfolding sign_mismatch sint_wrap using r' by (auto simp: fits_def)
  show "(x XOR y) AND SIGN_BIT = 0 \<and> (y XOR (x + y)) AND SIGN_BIT \<noteq> 0 \<longleftrightarrow> \<not> fits (sint x + sint y)"
    unfolding sign_mismatch sint_wrap using r' by (auto simp: fits_def)
  show "(x XOR y) AND SIGN_BIT \<noteq> 0 \<and> (x XOR (x - y)) AND SIGN_BIT \<noteq> 0 \<longleftrightarrow> \<not> fits (sint x - sint y)"
    unfolding sign_mismatch sint_wrap using r' by (auto simp: fits_def)
qed

text \<open>C33. The overflow checks are exact: \<open>ADD\<close>, \<open>ADDI\<close> and \<open>SUB\<close> raise the overflow exception exactly
  when the signed result does not fit in 32 bits, and otherwise deliver it.\<close>

theorem overflow_checks_exact:
  assumes "opCode i \<in> {OP_ADD, OP_ADDI, OP_SUB}"
  shows "exec_ADD_BNE be now i m pc =
    (if opCode i = OP_ADD then checked (rd i) (sint (registers m (rs i)) + sint (registers m (rt i))) m pc
     else if opCode i = OP_ADDI then checked (rt i) (sint (registers m (rs i)) + sint (extra i)) m pc
     else checked (rd i) (sint (registers m (rs i)) - sint (registers m (rt i))) m pc)"
proof -
  have sub: "exec_ADD_BNE be now i m pc = exec_SB_SUBU be now i m pc" if "opCode i = OP_SUB"
    using that by (simp add: exec_ADD_BNE_next exec_DIV_JR_next exec_LB_LWR_next exec_MFHI_ORI_next)
  from assms consider "opCode i = OP_ADD" | "opCode i = OP_ADDI" | "opCode i = OP_SUB" by blast
  then show ?thesis
  proof cases
    case 1
    then show ?thesis unfolding exec_ADD_BNE_def Let_def by (simp only: OpCode.case overflow_iff checked_def) simp
  next
    case 2
    then show ?thesis unfolding exec_ADD_BNE_def Let_def by (simp only: OpCode.case overflow_iff checked_def) simp
  next
    case 3
    show ?thesis unfolding sub [OF 3] unfolding exec_SB_SUBU_def Let_def
      by (simp only: 3 OpCode.case overflow_iff checked_def) simp
  qed
qed

theorem overflow_checks_exact_witness:
  "exec_ADD_BNE True 0 \<lparr>i_value = 0, opCode = OP_ADDI, rs = 0, rt = 2, rd = 0, extra = 5\<rparr> (set_reg 0 0x7ffffffe sample_user) 4
     = raise OverflowException 0 (set_reg 0 0x7ffffffe sample_user)"
  using overflow_checks_exact [of "\<lparr>i_value = 0, opCode = OP_ADDI, rs = 0, rt = 2, rd = 0, extra = 5\<rparr>" True 0 "set_reg 0 0x7ffffffe sample_user" 4]
  by (simp add: checked_def fits_def)

fun directives :: "string \<Rightarrow> nat" where
  "directives (a # b # s) = (if a = CHR ''%'' \<and> b = CHR ''d'' then Suc (directives s) else directives (b # s))"
| "directives _ = 0"

text \<open>Every format string of the instruction trace has exactly as many \<open>%d\<close> directives as it has
  operands, and there is one for every opcode number a decoded instruction can have.\<close>

theorem trace_formats_match:
  "list_all (\<lambda>(fmt, args). directives fmt = length (filter (\<lambda>a. a \<noteq> NONE) args)) opStrings
   \<and> opCode_num (opCode (Decode v)) < length opStrings"
proof -
  have "list_all (\<lambda>(fmt, args). directives fmt = length (filter (\<lambda>a. a \<noteq> NONE) args)) opStrings" by code_simp
  moreover have "length opStrings = 64" by (simp add: opStrings_def)
  moreover have "opCode_num c < 64" if "c \<notin> {SPECIAL, BCOND}" for c using that by (cases c) simp_all
  ultimately show ?thesis using Decode_opCode [of v] by simp
qed

end
