(* ===== verification/Kernel.thy ===== *)
theory Kernel
  imports Nachos_List Handle_Table Machine
begin

text \<open>
  The kernel proper: simulated interrupts (\<open>machine/interrupt.cc\<close>, \<open>machine/stats.cc\<close>), threads
  and the scheduler (\<open>threads/thread.cc\<close>, \<open>threads/scheduler.cc\<close>) and the synchronization
  primitives (\<open>threads/synch.cc\<close>).

  A context switch leaves a C++ function in the middle, on the stack of its thread. The model makes
  these stacks explicit: \<open>t_frames\<close> of a thread lists the pieces of kernel code it has still to run,
  the innermost first. A function that may lose the processor pushes the rest of its own body as a
  frame before it gives the processor up; \<open>SWITCH\<close> is then the assignment to \<open>currentThread\<close>,
  and one step of the kernel (\<open>kernel_step\<close>) pops a frame of the current thread and runs it.
  \<open>SetLevel(IntOn)\<close> and \<open>Sleep\<close> push frames, so they come last in every body below, as they do
  in the C++ code up to the frames pushed before them.

  The lists of the C++ code (\<open>pending\<close>, \<open>readyList\<close>, the wait queues) are kept at the level of
  their contents; the theory of lists shows that the pointer structures implement it. The type
  \<open>'h\<close> stands for an interrupt handler with its argument and \<open>fire\<close> for calling it; \<open>'c\<close> stands for
  code outside the kernel proper and \<open>code\<close> for running it.
\<close>

section \<open>Data\<close>

datatype IntStatus = IntOff | IntOn
datatype MachineStatus = IdleMode | SystemMode | UserMode
datatype IntType = TimerInt | DiskInt | ConsoleWriteInt | ConsoleReadInt | NetworkSendInt | NetworkRecvInt
datatype ThreadStatus = JUST_CREATED | RUNNING | READY | BLOCKED

record 'h PendingInterrupt =
  pi_handler :: 'h
  pi_when :: int
  pi_type :: IntType

record Statistics =
  totalTicks :: int
  idleTicks :: int
  systemTicks :: int
  userTicks :: int
  numDiskReads :: int
  numDiskWrites :: int
  numConsoleCharsRead :: int
  numConsoleCharsWritten :: int
  numPageFaults :: int
  numPacketsSent :: int
  numPacketsRecvd :: int

definition UserTick :: int where "UserTick = 1"
definition SystemTick :: int where "SystemTick = 10"

type_synonym tid = nat

text \<open>What is left to run of a function that was left: the rest of \<open>Interrupt::OneTick\<close> after the
  handlers (\<open>F_TickTail\<close>) and after its \<open>Yield\<close> (\<open>F_SetStatus\<close>), the loop
  \<open>while (CheckIfDue(FALSE))\<close>, the rest of \<open>Idle\<close>, the loop of \<open>Sleep\<close>, the rest of
  \<open>Scheduler::Run\<close> after \<open>SWITCH\<close>, the start and the end of \<open>ThreadRoot\<close>, the loop of
  \<open>Semaphore::P\<close>, calls of \<open>SetLevel\<close>, \<open>Lock::Acquire\<close> and \<open>Lock::Release\<close>, the loop of \<open>Broadcast\<close>.\<close>

datatype 'c frame =
    F_SetLevel IntStatus
  | F_CheckLoop
  | F_TickTail MachineStatus
  | F_SetStatus MachineStatus
  | F_IdleTail
  | F_SleepLoop
  | F_RunTail
  | F_Enable
  | F_Finish
  | F_P nat IntStatus
  | F_Acquire nat
  | F_Release nat
  | F_Broadcast nat nat
  | F_Code 'c

record 'c Thread =
  t_status :: ThreadStatus
  t_stack :: "bool option"
  t_frames :: "'c frame list"
  userRegisters :: "nat \<Rightarrow> 32 word"
  space :: "nat option"
  t_id :: int
  t_pid :: int

text \<open>\<open>t_stack\<close> is \<open>None\<close> for \<open>stack == NULL\<close>, otherwise it says whether the fencepost is intact.\<close>

record Semaphore =
  sem_value :: int
  sem_queue :: "tid list"

record Lock =
  available :: bool
  owner :: "tid option"
  waitingThreads :: "tid list"

record Condition =
  waitingLock :: "nat option"
  waitingCV :: "tid list"

record AddrSpace =
  as_pageTable :: nat
  as_numPages :: nat
  fileTable :: "nat Table"

record ('h, 'c) kernel =
  level :: IntStatus
  pending :: "(int \<times> 'h PendingInterrupt) list"
  inHandler :: bool
  yieldOnReturn :: bool
  mstatus :: MachineStatus
  stats :: Statistics
  k_machine :: "machine option"
  currentThread :: tid
  threadToBeDestroyed :: "tid option"
  threads :: "tid \<Rightarrow> 'c Thread"
  live :: "tid \<Rightarrow> bool"
  readyList :: "tid list"
  semaphores :: "nat \<Rightarrow> Semaphore"
  locks :: "nat \<Rightarrow> Lock"
  conditions :: "nat \<Rightarrow> Condition"
  spaces :: "nat \<Rightarrow> AddrSpace"

definition Statistics_new :: Statistics where
  "Statistics_new = \<lparr>totalTicks = 0, idleTicks = 0, systemTicks = 0, userTicks = 0, numDiskReads = 0, numDiskWrites = 0,
     numConsoleCharsRead = 0, numConsoleCharsWritten = 0, numPageFaults = 0, numPacketsSent = 0, numPacketsRecvd = 0\<rparr>"

section \<open>Threads and their frames\<close>

definition deref :: "tid \<Rightarrow> ('h, 'c, 'z) kernel_scheme \<Rightarrow> unit result" where
  "deref t s = (if live s t then Inr () else Inl Undefined)"

definition set_thread :: "tid \<Rightarrow> 'c Thread \<Rightarrow> ('h, 'c, 'z) kernel_scheme \<Rightarrow> ('h, 'c, 'z) kernel_scheme" where
  "set_thread t th s = s\<lparr>threads := (threads s)(t := th)\<rparr>"

definition cur :: "('h, 'c, 'z) kernel_scheme \<Rightarrow> 'c Thread" where
  "cur s = threads s (currentThread s)"

definition push :: "'c frame list \<Rightarrow> ('h, 'c, 'z) kernel_scheme \<Rightarrow> ('h, 'c, 'z) kernel_scheme" where
  "push fs s = set_thread (currentThread s) ((cur s)\<lparr>t_frames := fs @ t_frames (cur s)\<rparr>) s"

definition setStatus :: "tid \<Rightarrow> ThreadStatus \<Rightarrow> ('h, 'c, 'z) kernel_scheme \<Rightarrow> ('h, 'c, 'z) kernel_scheme" where
  "setStatus t st s = set_thread t ((threads s t)\<lparr>t_status := st\<rparr>) s"

definition Thread_new :: "(nat \<Rightarrow> 32 word) \<Rightarrow> int \<Rightarrow> int \<Rightarrow> 'c Thread" where
  "Thread_new junkRegs junkId junkPid =
     \<lparr>t_status = JUST_CREATED, t_stack = None, t_frames = [], userRegisters = junkRegs, space = None,
      t_id = junkId, t_pid = junkPid\<rparr>"

definition Thread_delete :: "tid \<Rightarrow> ('h, 'c, 'z) kernel_scheme \<Rightarrow> ('h, 'c, 'z) kernel_scheme result" where
  "Thread_delete t s = rbind (ASSERT (t \<noteq> currentThread s)) (\<lambda>_.
     rbind (deref t s) (\<lambda>_. Inr (s\<lparr>live := (live s)(t := False)\<rparr>)))"

definition CheckOverflow :: "tid \<Rightarrow> ('h, 'c, 'z) kernel_scheme \<Rightarrow> unit result" where
  "CheckOverflow t s = (case t_stack (threads s t) of None \<Rightarrow> Inr () | Some intact \<Rightarrow> ASSERT intact)"

section \<open>Interrupts\<close>

definition Schedule :: "'h \<Rightarrow> int \<Rightarrow> IntType \<Rightarrow> ('h, 'c, 'z) kernel_scheme \<Rightarrow> ('h, 'c, 'z) kernel_scheme result" where
  "Schedule handler fromNow type s =
     (let when = totalTicks (stats s) + fromNow;
          toOccur = \<lparr>pi_handler = handler, pi_when = when, pi_type = type\<rparr> in
      rbind (ASSERT (fromNow > 0)) (\<lambda>_. Inr (s\<lparr>pending := sorted_ins when toOccur (pending s)\<rparr>)))"

definition delayed_load :: "('h, 'c, 'z) kernel_scheme \<Rightarrow> ('h, 'c, 'z) kernel_scheme result" where
  "delayed_load s = (case k_machine s of None \<Rightarrow> Inr s
     | Some m \<Rightarrow> rbind (DelayedLoad 0 0 m) (\<lambda>m'. Inr (s\<lparr>k_machine := Some m'\<rparr>)))"

definition CheckIfDue ::
  "('h \<Rightarrow> ('h, 'c, 'z) kernel_scheme \<Rightarrow> ('h, 'c, 'z) kernel_scheme result) \<Rightarrow> bool \<Rightarrow> ('h, 'c, 'z) kernel_scheme
   \<Rightarrow> (bool \<times> ('h, 'c, 'z) kernel_scheme) result" where
  "CheckIfDue fire advanceClock s =
     (let old = mstatus s in
      rbind (ASSERT (level s = IntOff)) (\<lambda>_.
      case pending s of [] \<Rightarrow> Inr (False, s)
      | (when, toOccur) # rest \<Rightarrow>
        let st = stats s; s = s\<lparr>pending := rest\<rparr> in
        if \<not> advanceClock \<and> when > totalTicks st
        then Inr (False, s\<lparr>pending := sorted_ins when toOccur rest\<rparr>)
        else
          let s = (if advanceClock \<and> when > totalTicks st
                   then s\<lparr>stats := st\<lparr>idleTicks := idleTicks st + (when - totalTicks st), totalTicks := when\<rparr>\<rparr>
                   else s) in
          if mstatus s = IdleMode \<and> pi_type toOccur = TimerInt \<and> rest = []
          then Inr (False, s\<lparr>pending := sorted_ins when toOccur rest\<rparr>)
          else rbind (delayed_load s) (\<lambda>s.
               rbind (fire (pi_handler toOccur) (s\<lparr>inHandler := True, mstatus := SystemMode\<rparr>)) (\<lambda>s.
               Inr (True, s\<lparr>mstatus := old, inHandler := False\<rparr>)))))"

definition OneTick :: "('h, 'c, 'z) kernel_scheme \<Rightarrow> ('h, 'c, 'z) kernel_scheme" where
  "OneTick s =
     (let st = stats s;
          st = (if mstatus s = SystemMode
                then st\<lparr>totalTicks := totalTicks st + SystemTick, systemTicks := systemTicks st + SystemTick\<rparr>
                else st\<lparr>totalTicks := totalTicks st + UserTick, userTicks := userTicks st + UserTick\<rparr>)
      in push [F_CheckLoop, F_TickTail (mstatus s)] (s\<lparr>stats := st, level := IntOff\<rparr>))"

definition SetLevel :: "IntStatus \<Rightarrow> ('h, 'c, 'z) kernel_scheme \<Rightarrow> (IntStatus \<times> ('h, 'c, 'z) kernel_scheme) result" where
  "SetLevel now s = rbind (ASSERT (now = IntOff \<or> \<not> inHandler s)) (\<lambda>_.
     let old = level s; s = s\<lparr>level := now\<rparr> in
     Inr (old, if now = IntOn \<and> old = IntOff then OneTick s else s))"

text \<open>\<open>(void) interrupt->SetLevel(now)\<close>\<close>

definition set_level :: "IntStatus \<Rightarrow> ('h, 'c, 'z) kernel_scheme \<Rightarrow> ('h, 'c, 'z) kernel_scheme result" where
  "set_level now s = rbind (SetLevel now s) (\<lambda>(_, s). Inr s)"

definition YieldOnReturn :: "('h, 'c, 'z) kernel_scheme \<Rightarrow> ('h, 'c, 'z) kernel_scheme result" where
  "YieldOnReturn s = rbind (ASSERT (inHandler s)) (\<lambda>_. Inr (s\<lparr>yieldOnReturn := True\<rparr>))"

definition Idle ::
  "('h \<Rightarrow> ('h, 'c, 'z) kernel_scheme \<Rightarrow> ('h, 'c, 'z) kernel_scheme result) \<Rightarrow> ('h, 'c, 'z) kernel_scheme
   \<Rightarrow> ('h, 'c, 'z) kernel_scheme result" where
  "Idle fire s = rbind (CheckIfDue fire True (s\<lparr>mstatus := IdleMode\<rparr>)) (\<lambda>(fired, s).
     if fired then Inr (push [F_CheckLoop, F_IdleTail] s) else Inl Halted)"

section \<open>The scheduler\<close>

definition ReadyToRun :: "tid \<Rightarrow> ('h, 'c, 'z) kernel_scheme \<Rightarrow> ('h, 'c, 'z) kernel_scheme result" where
  "ReadyToRun t s = rbind (deref t s) (\<lambda>_.
     let s = setStatus t READY s in Inr (s\<lparr>readyList := readyList s @ [t]\<rparr>))"

definition FindNextToRun :: "('h, 'c, 'z) kernel_scheme \<Rightarrow> tid option \<times> ('h, 'c, 'z) kernel_scheme" where
  "FindNextToRun s = (case readyList s of [] \<Rightarrow> (None, s) | t # ts \<Rightarrow> (Some t, s\<lparr>readyList := ts\<rparr>))"

definition SaveUserState :: "tid \<Rightarrow> ('h, 'c, 'z) kernel_scheme \<Rightarrow> ('h, 'c, 'z) kernel_scheme result" where
  "SaveUserState t s = (case k_machine s of None \<Rightarrow> Inl Undefined
     | Some m \<Rightarrow> Inr (set_thread t ((threads s t)\<lparr>userRegisters :=
         (\<lambda>i. if i < NumTotalRegs then registers m i else userRegisters (threads s t) i)\<rparr>) s))"

definition RestoreUserState :: "tid \<Rightarrow> ('h, 'c, 'z) kernel_scheme \<Rightarrow> ('h, 'c, 'z) kernel_scheme result" where
  "RestoreUserState t s = (case k_machine s of None \<Rightarrow> Inl Undefined
     | Some m \<Rightarrow> Inr (s\<lparr>k_machine := Some (m\<lparr>registers :=
         (\<lambda>i. if i < NumTotalRegs then userRegisters (threads s t) i else registers m i)\<rparr>)\<rparr>))"

definition RestoreState :: "nat \<Rightarrow> ('h, 'c, 'z) kernel_scheme \<Rightarrow> ('h, 'c, 'z) kernel_scheme result" where
  "RestoreState a s = (case k_machine s of None \<Rightarrow> Inl Undefined
     | Some m \<Rightarrow> Inr (s\<lparr>k_machine := Some (m\<lparr>m_pageTable := Some (as_pageTable (spaces s a)),
         m_pageTableSize := as_numPages (spaces s a)\<rparr>)\<rparr>))"

text \<open>\<open>Scheduler::Run\<close> up to \<open>SWITCH\<close>, and after it.\<close>

definition Run :: "tid \<Rightarrow> ('h, 'c, 'z) kernel_scheme \<Rightarrow> ('h, 'c, 'z) kernel_scheme result" where
  "Run nextThread s =
     (let oldThread = currentThread s in
      rbind (if space (cur s) \<noteq> None then SaveUserState oldThread s else Inr s) (\<lambda>s.
      rbind (CheckOverflow oldThread s) (\<lambda>_.
      rbind (deref nextThread s) (\<lambda>_.
      Inr (setStatus nextThread RUNNING ((push [F_RunTail] s)\<lparr>currentThread := nextThread\<rparr>))))))"

definition Run_tail :: "('h, 'c, 'z) kernel_scheme \<Rightarrow> ('h, 'c, 'z) kernel_scheme result" where
  "Run_tail s =
     rbind (case threadToBeDestroyed s of None \<Rightarrow> Inr s
            | Some t \<Rightarrow> rbind (Thread_delete t s) (\<lambda>s. Inr (s\<lparr>threadToBeDestroyed := None\<rparr>))) (\<lambda>s.
     case space (cur s) of None \<Rightarrow> Inr s
     | Some a \<Rightarrow> rbind (RestoreUserState (currentThread s) s) (RestoreState a))"

section \<open>Threads\<close>

definition Yield :: "('h, 'c, 'z) kernel_scheme \<Rightarrow> ('h, 'c, 'z) kernel_scheme result" where
  "Yield s = rbind (SetLevel IntOff s) (\<lambda>(oldLevel, s).
     case FindNextToRun s of
       (None, s) \<Rightarrow> set_level oldLevel s
     | (Some nextThread, s) \<Rightarrow> rbind (ReadyToRun (currentThread s) s) (\<lambda>s.
         Run nextThread (push [F_SetLevel oldLevel] s)))"

definition Sleep :: "('h, 'c, 'z) kernel_scheme \<Rightarrow> ('h, 'c, 'z) kernel_scheme result" where
  "Sleep s = rbind (ASSERT (level s = IntOff)) (\<lambda>_.
     Inr (push [F_SleepLoop] (setStatus (currentThread s) BLOCKED s)))"

definition sleep_loop ::
  "('h \<Rightarrow> ('h, 'c, 'z) kernel_scheme \<Rightarrow> ('h, 'c, 'z) kernel_scheme result) \<Rightarrow> ('h, 'c, 'z) kernel_scheme
   \<Rightarrow> ('h, 'c, 'z) kernel_scheme result" where
  "sleep_loop fire s = (case FindNextToRun s of
       (None, s) \<Rightarrow> Idle fire (push [F_SleepLoop] s)
     | (Some nextThread, s) \<Rightarrow> Run nextThread s)"

definition Finish :: "('h, 'c, 'z) kernel_scheme \<Rightarrow> ('h, 'c, 'z) kernel_scheme result" where
  "Finish s = rbind (set_level IntOff s) (\<lambda>s. Sleep (s\<lparr>threadToBeDestroyed := Some (currentThread s)\<rparr>))"

text \<open>\<open>StackAllocate\<close> prepares the frame of \<open>ThreadRoot\<close>: enable interrupts, call the function, finish.\<close>

definition StackAllocate :: "'c \<Rightarrow> 'c Thread \<Rightarrow> 'c Thread" where
  "StackAllocate func th = th\<lparr>t_stack := Some True, t_frames := [F_Enable, F_Code func, F_Finish]\<rparr>"

definition Fork :: "tid \<Rightarrow> 'c \<Rightarrow> ('h, 'c, 'z) kernel_scheme \<Rightarrow> ('h, 'c, 'z) kernel_scheme result" where
  "Fork t func s = rbind (deref t s) (\<lambda>_.
     let s = set_thread t (StackAllocate func (threads s t)) s in
     rbind (SetLevel IntOff s) (\<lambda>(oldLevel, s).
     rbind (ReadyToRun t s) (set_level oldLevel)))"

section \<open>Semaphores\<close>

definition set_sem :: "nat \<Rightarrow> Semaphore \<Rightarrow> ('h, 'c, 'z) kernel_scheme \<Rightarrow> ('h, 'c, 'z) kernel_scheme" where
  "set_sem i x s = s\<lparr>semaphores := (semaphores s)(i := x)\<rparr>"

definition Semaphore_new :: "int \<Rightarrow> Semaphore" where
  "Semaphore_new initialValue = \<lparr>sem_value = initialValue, sem_queue = []\<rparr>"

definition P_loop :: "nat \<Rightarrow> IntStatus \<Rightarrow> ('h, 'c, 'z) kernel_scheme \<Rightarrow> ('h, 'c, 'z) kernel_scheme result" where
  "P_loop i oldLevel s =
     (let x = semaphores s i in
      if sem_value x = 0
      then Sleep (push [F_P i oldLevel] (set_sem i (x\<lparr>sem_queue := sem_queue x @ [currentThread s]\<rparr>) s))
      else set_level oldLevel (set_sem i (x\<lparr>sem_value := sem_value x - 1\<rparr>) s))"

definition P :: "nat \<Rightarrow> ('h, 'c, 'z) kernel_scheme \<Rightarrow> ('h, 'c, 'z) kernel_scheme result" where
  "P i s = rbind (SetLevel IntOff s) (\<lambda>(oldLevel, s). P_loop i oldLevel s)"

definition V :: "nat \<Rightarrow> ('h, 'c, 'z) kernel_scheme \<Rightarrow> ('h, 'c, 'z) kernel_scheme result" where
  "V i s = rbind (SetLevel IntOff s) (\<lambda>(oldLevel, s).
     let x = semaphores s i in
     rbind (case sem_queue x of [] \<Rightarrow> Inr s
            | t # ts \<Rightarrow> ReadyToRun t (set_sem i (x\<lparr>sem_queue := ts\<rparr>) s)) (\<lambda>s.
     let x = semaphores s i in
     set_level oldLevel (set_sem i (x\<lparr>sem_value := sem_value x + 1\<rparr>) s)))"

section \<open>Locks\<close>

definition set_lock :: "nat \<Rightarrow> Lock \<Rightarrow> ('h, 'c, 'z) kernel_scheme \<Rightarrow> ('h, 'c, 'z) kernel_scheme" where
  "set_lock l x s = s\<lparr>locks := (locks s)(l := x)\<rparr>"

text \<open>The constructor does not initialise \<open>owner\<close>.\<close>

definition Lock_new :: "tid option \<Rightarrow> Lock" where
  "Lock_new junk = \<lparr>available = True, owner = junk, waitingThreads = []\<rparr>"

definition isHeldByCurrentThread :: "nat \<Rightarrow> ('h, 'c, 'z) kernel_scheme \<Rightarrow> bool" where
  "isHeldByCurrentThread l s \<longleftrightarrow> owner (locks s l) = Some (currentThread s)"

definition Acquire :: "nat \<Rightarrow> ('h, 'c, 'z) kernel_scheme \<Rightarrow> ('h, 'c, 'z) kernel_scheme result" where
  "Acquire l s = rbind (SetLevel IntOff s) (\<lambda>(inter, s).
     let x = locks s l in
     if isHeldByCurrentThread l s then set_level inter s
     else if available x
     then set_level inter (set_lock l (x\<lparr>available := False, owner := Some (currentThread s)\<rparr>) s)
     else Sleep (push [F_SetLevel inter]
            (set_lock l (x\<lparr>waitingThreads := waitingThreads x @ [currentThread s]\<rparr>) s)))"

text \<open>On success \<open>Release\<close> returns without restoring the interrupt level.\<close>

definition Release :: "nat \<Rightarrow> ('h, 'c, 'z) kernel_scheme \<Rightarrow> ('h, 'c, 'z) kernel_scheme result" where
  "Release l s = rbind (SetLevel IntOff s) (\<lambda>(inter, s).
     let x = locks s l in
     if \<not> isHeldByCurrentThread l s then set_level inter s
     else case waitingThreads x of
       t # ts \<Rightarrow> ReadyToRun t (set_lock l (x\<lparr>waitingThreads := ts, owner := Some t\<rparr>) s)
     | [] \<Rightarrow> Inr (set_lock l (x\<lparr>available := True, owner := None\<rparr>) s))"

section \<open>Condition variables\<close>

definition set_cond :: "nat \<Rightarrow> Condition \<Rightarrow> ('h, 'c, 'z) kernel_scheme \<Rightarrow> ('h, 'c, 'z) kernel_scheme" where
  "set_cond c x s = s\<lparr>conditions := (conditions s)(c := x)\<rparr>"

definition Condition_new :: Condition where
  "Condition_new = \<lparr>waitingLock = None, waitingCV = []\<rparr>"

definition Wait :: "nat \<Rightarrow> nat option \<Rightarrow> ('h, 'c, 'z) kernel_scheme \<Rightarrow> ('h, 'c, 'z) kernel_scheme result" where
  "Wait c conditionLock s = rbind (SetLevel IntOff s) (\<lambda>(inter, s).
     case conditionLock of None \<Rightarrow> set_level inter s
     | Some l \<Rightarrow>
       let x = conditions s c;
           x = (if waitingLock x = None then x\<lparr>waitingLock := Some l\<rparr> else x);
           s = set_cond c x s in
       if waitingLock x \<noteq> Some l then set_level inter s
       else rbind (Release l s) (\<lambda>s.
            let x = conditions s c in
            Sleep (push [F_Acquire l, F_SetLevel inter]
              (set_cond c (x\<lparr>waitingCV := waitingCV x @ [currentThread s]\<rparr>) s))))"

definition Signal :: "nat \<Rightarrow> nat option \<Rightarrow> ('h, 'c, 'z) kernel_scheme \<Rightarrow> ('h, 'c, 'z) kernel_scheme result" where
  "Signal c conditionLock s = rbind (SetLevel IntOff s) (\<lambda>(inter, s).
     let x = conditions s c in
     case waitingCV x of [] \<Rightarrow> set_level inter s
     | t # ts \<Rightarrow>
       if waitingLock x \<noteq> conditionLock then set_level inter s
       else rbind (ReadyToRun t (set_cond c
              (x\<lparr>waitingCV := ts, waitingLock := (if ts = [] then None else waitingLock x)\<rparr>) s))
              (set_level inter))"

definition Broadcast :: "nat \<Rightarrow> nat \<Rightarrow> ('h, 'c, 'z) kernel_scheme \<Rightarrow> ('h, 'c, 'z) kernel_scheme result" where
  "Broadcast c l s =
     (if waitingCV (conditions s c) = [] then Inr s
      else Signal c (Some l) (push [F_Broadcast c l] s))"

section \<open>One step of the kernel\<close>

fun run_frame ::
  "('h \<Rightarrow> ('h, 'c, 'z) kernel_scheme \<Rightarrow> ('h, 'c, 'z) kernel_scheme result) \<Rightarrow>
   ('c \<Rightarrow> ('h, 'c, 'z) kernel_scheme \<Rightarrow> ('h, 'c, 'z) kernel_scheme result) \<Rightarrow>
   'c frame \<Rightarrow> ('h, 'c, 'z) kernel_scheme \<Rightarrow> ('h, 'c, 'z) kernel_scheme result" where
  "run_frame fire code (F_SetLevel now) s = set_level now s"
| "run_frame fire code F_CheckLoop s = rbind (CheckIfDue fire False s) (\<lambda>(fired, s).
     Inr (if fired then push [F_CheckLoop] s else s))"
| "run_frame fire code (F_TickTail old) s =
     (let s = s\<lparr>level := IntOn\<rparr> in
      if yieldOnReturn s
      then Yield (push [F_SetStatus old] (s\<lparr>yieldOnReturn := False, mstatus := SystemMode\<rparr>))
      else Inr s)"
| "run_frame fire code (F_SetStatus old) s = Inr (s\<lparr>mstatus := old\<rparr>)"
| "run_frame fire code F_IdleTail s = Inr (s\<lparr>yieldOnReturn := False, mstatus := SystemMode\<rparr>)"
| "run_frame fire code F_SleepLoop s = sleep_loop fire s"
| "run_frame fire code F_RunTail s = Run_tail s"
| "run_frame fire code F_Enable s = set_level IntOn s"
| "run_frame fire code F_Finish s = Finish s"
| "run_frame fire code (F_P i old) s = P_loop i old s"
| "run_frame fire code (F_Acquire l) s = Acquire l s"
| "run_frame fire code (F_Release l) s = Release l s"
| "run_frame fire code (F_Broadcast c l) s = Broadcast c l s"
| "run_frame fire code (F_Code c) s = code c s"

definition kernel_step ::
  "('h \<Rightarrow> ('h, 'c, 'z) kernel_scheme \<Rightarrow> ('h, 'c, 'z) kernel_scheme result) \<Rightarrow>
   ('c \<Rightarrow> ('h, 'c, 'z) kernel_scheme \<Rightarrow> ('h, 'c, 'z) kernel_scheme result) \<Rightarrow>
   ('h, 'c, 'z) kernel_scheme \<Rightarrow> ('h, 'c, 'z) kernel_scheme result" where
  "kernel_step fire code s = (case t_frames (cur s) of
       [] \<Rightarrow> Inl Undefined
     | f # fs \<Rightarrow> run_frame fire code f (set_thread (currentThread s) ((cur s)\<lparr>t_frames := fs\<rparr>) s))"

end
