(* ===== verification/Kernel_Inv.thy ===== *)
theory Kernel_Inv
  imports Kernel
begin

text \<open>
  The invariant of the kernel of theory \<open>Kernel\<close>, and that every operation keeps it and never fails
  one of the assertions of the C++ code.

  \<open>sched_inv\<close> is the part about threads and queues: a thread is in at most one queue, its status
  says in which kind, and only the current thread is running. \<open>stack_ok\<close> says that a frame
  that needs interrupts disabled is only reached with interrupts disabled. \<open>kernel_inv\<close> adds the
  current thread. The interface to the code around the kernel are the two locales at the end:
  what interrupt handlers and what client code must respect.
\<close>

section \<open>The invariant\<close>

datatype qid = QReady | QSem nat | QLock nat | QCond nat

fun queue :: "('h, 'c, 'z) kernel_scheme \<Rightarrow> qid \<Rightarrow> tid list" where
  "queue s QReady = readyList s"
| "queue s (QSem i) = sem_queue (semaphores s i)"
| "queue s (QLock l) = waitingThreads (locks s l)"
| "queue s (QCond c) = waitingCV (conditions s c)"

fun needs_off :: "'c frame \<Rightarrow> bool" where
  "needs_off F_CheckLoop = True"
| "needs_off (F_TickTail _) = True"
| "needs_off F_IdleTail = True"
| "needs_off F_SleepLoop = True"
| "needs_off F_RunTail = True"
| "needs_off (F_P _ _) = True"
| "needs_off _ = False"

fun keeps_off :: "'c frame \<Rightarrow> bool" where
  "keeps_off F_CheckLoop = True"
| "keeps_off F_IdleTail = True"
| "keeps_off F_SleepLoop = True"
| "keeps_off F_RunTail = True"
| "keeps_off _ = False"

text \<open>The loop of \<open>Sleep\<close> is only interrupted by \<open>Idle\<close>.\<close>

fun follows :: "'c frame \<Rightarrow> 'c frame list \<Rightarrow> bool" where
  "follows f (F_SleepLoop # _) \<longleftrightarrow> f = F_IdleTail"
| "follows f (F_IdleTail # _) \<longleftrightarrow> f = F_CheckLoop"
| "follows f (F_CheckLoop # _) \<longleftrightarrow> False"
| "follows f _ \<longleftrightarrow> True"

fun stack_ok :: "bool \<Rightarrow> 'c frame list \<Rightarrow> bool" where
  "stack_ok off [] = True"
| "stack_ok off (f # fs) \<longleftrightarrow> (needs_off f \<longrightarrow> off) \<and> follows f fs \<and> stack_ok (keeps_off f) fs"

fun asleep :: "'c frame list \<Rightarrow> bool" where
  "asleep (F_SleepLoop # _) = True"
| "asleep (F_IdleTail # F_SleepLoop # _) = True"
| "asleep (F_CheckLoop # F_IdleTail # F_SleepLoop # _) = True"
| "asleep _ = False"

text \<open>The stack of a thread that does not have the processor.\<close>

definition resumable :: "'c frame list \<Rightarrow> bool" where
  "resumable fs \<longleftrightarrow> stack_ok True fs \<and> \<not> asleep fs"

definition sched_inv :: "('h, 'c, 'z) kernel_scheme \<Rightarrow> bool" where
  "sched_inv s \<longleftrightarrow>
     live s (currentThread s)
     \<and> (\<forall>q. distinct (queue s q))
     \<and> (\<forall>q t. t \<in> set (queue s q) \<longrightarrow> live s t \<and> t_status (threads s t) = (if q = QReady then READY else BLOCKED))
     \<and> (\<forall>q q' t. t \<in> set (queue s q) \<longrightarrow> t \<in> set (queue s q') \<longrightarrow> q = q')
     \<and> (\<forall>t. live s t \<longrightarrow> t_status (threads s t) = READY \<longrightarrow> t \<in> set (readyList s))
     \<and> (\<forall>t. live s t \<longrightarrow> t_status (threads s t) = RUNNING \<longrightarrow> t = currentThread s)
     \<and> (\<forall>t. threadToBeDestroyed s = Some t \<longrightarrow>
          live s t \<and> t_status (threads s t) = BLOCKED \<and> (\<forall>q. t \<notin> set (queue s q)))
     \<and> (\<forall>t. live s t \<longrightarrow> t_stack (threads s t) \<noteq> Some False)
     \<and> (\<forall>t. live s t \<longrightarrow> t \<noteq> currentThread s \<longrightarrow> resumable (t_frames (threads s t)))"

definition kernel_inv :: "('h, 'c, 'z) kernel_scheme \<Rightarrow> bool" where
  "kernel_inv s \<longleftrightarrow> sched_inv s \<and> \<not> inHandler s
     \<and> (t_status (cur s) = RUNNING \<longleftrightarrow> \<not> asleep (t_frames (cur s)))
     \<and> stack_ok (level s = IntOff) (t_frames (cur s))"

text \<open>The state in which code calls the kernel: it runs on the current thread, and what it returns
  to does not depend on the interrupt level.\<close>

definition calls_ok :: "('h, 'c, 'z) kernel_scheme \<Rightarrow> bool" where
  "calls_ok s \<longleftrightarrow> sched_inv s \<and> \<not> inHandler s \<and> t_status (cur s) = RUNNING \<and> stack_ok False (t_frames (cur s))"

definition safe :: "('h, 'c, 'z) kernel_scheme result \<Rightarrow> bool" where
  "safe r \<longleftrightarrow> (case r of Inr s \<Rightarrow> kernel_inv s | Inl e \<Rightarrow> e \<noteq> Abort)"

lemma safe_simps [simp]: "safe (Inr s) = kernel_inv s" "safe (Inl e) = (e \<noteq> Abort)"
  by (simp_all add: safe_def)

lemma stack_ok_mono: "stack_ok False fs \<Longrightarrow> stack_ok b fs"
  by (cases fs) auto

lemma stack_ok_awake [simp]: "stack_ok False fs \<Longrightarrow> follows f fs" "stack_ok False fs \<Longrightarrow> \<not> asleep fs"
proof -
  assume ok: "stack_ok False fs"
  show "follows f fs"
  proof (cases fs)
    case (Cons g gs)
    with ok show ?thesis by (cases g) auto
  qed simp
  show "\<not> asleep fs"
  proof (cases fs)
    case (Cons g gs)
    with ok show ?thesis by (cases g) auto
  qed simp
qed

lemma follows_RunTail: "follows F_SleepLoop fs \<Longrightarrow> follows F_RunTail fs"
proof (cases fs)
  case (Cons g gs)
  then show "follows F_SleepLoop fs \<Longrightarrow> ?thesis" by (cases g) auto
qed simp

section \<open>What does not matter to the invariant\<close>

lemma queue_cong:
  "readyList s' = readyList s \<Longrightarrow> semaphores s' = semaphores s \<Longrightarrow> locks s' = locks s \<Longrightarrow> conditions s' = conditions s
   \<Longrightarrow> queue s' = queue s"
  by (rule ext, rename_tac q, case_tac q) simp_all

lemma queue_update_simps [simp]:
  "queue (s\<lparr>level := a\<rparr>) = queue s" "queue (s\<lparr>pending := b\<rparr>) = queue s" "queue (s\<lparr>inHandler := c\<rparr>) = queue s"
  "queue (s\<lparr>yieldOnReturn := c\<rparr>) = queue s" "queue (s\<lparr>mstatus := d\<rparr>) = queue s" "queue (s\<lparr>stats := e\<rparr>) = queue s"
  "queue (s\<lparr>k_machine := f\<rparr>) = queue s" "queue (s\<lparr>currentThread := g\<rparr>) = queue s"
  "queue (s\<lparr>threadToBeDestroyed := h\<rparr>) = queue s" "queue (s\<lparr>threads := i\<rparr>) = queue s" "queue (s\<lparr>live := j\<rparr>) = queue s"
  by (rule queue_cong; simp)+

lemma sched_inv_hardware [simp]:
  "sched_inv (s\<lparr>level := a\<rparr>) = sched_inv s" "sched_inv (s\<lparr>pending := b\<rparr>) = sched_inv s"
  "sched_inv (s\<lparr>inHandler := c\<rparr>) = sched_inv s" "sched_inv (s\<lparr>yieldOnReturn := c\<rparr>) = sched_inv s"
  "sched_inv (s\<lparr>mstatus := d\<rparr>) = sched_inv s" "sched_inv (s\<lparr>stats := e\<rparr>) = sched_inv s"
  "sched_inv (s\<lparr>k_machine := f\<rparr>) = sched_inv s"
  unfolding sched_inv_def by simp_all

lemma cur_simps [simp]:
  "cur (s\<lparr>level := a\<rparr>) = cur s" "cur (s\<lparr>pending := b\<rparr>) = cur s" "cur (s\<lparr>inHandler := c\<rparr>) = cur s"
  "cur (s\<lparr>yieldOnReturn := c\<rparr>) = cur s" "cur (s\<lparr>mstatus := d\<rparr>) = cur s" "cur (s\<lparr>stats := e\<rparr>) = cur s"
  "cur (s\<lparr>k_machine := f\<rparr>) = cur s" "cur (s\<lparr>threadToBeDestroyed := h\<rparr>) = cur s"
  "cur (s\<lparr>readyList := r\<rparr>) = cur s" "cur (s\<lparr>live := l\<rparr>) = cur s"
  by (simp_all add: cur_def)

lemma push_simps [simp]:
  "cur (push fs s) = (cur s)\<lparr>t_frames := fs @ t_frames (cur s)\<rparr>" "queue (push fs s) = queue s"
  "currentThread (push fs s) = currentThread s" "level (push fs s) = level s" "inHandler (push fs s) = inHandler s"
  "readyList (push fs s) = readyList s" "live (push fs s) = live s" "semaphores (push fs s) = semaphores s"
  "locks (push fs s) = locks s" "conditions (push fs s) = conditions s" "k_machine (push fs s) = k_machine s"
  "threadToBeDestroyed (push fs s) = threadToBeDestroyed s"
  by (simp_all add: push_def set_thread_def cur_def)

text \<open>The frames of the current thread, its saved registers.\<close>

lemma sched_inv_cur:
  assumes "t_status th = t_status (cur s)" "t_stack th = t_stack (cur s)"
  shows "sched_inv (set_thread (currentThread s) th s) = sched_inv s"
proof -
  have "t_status (((threads s)(currentThread s := th)) t) = t_status (threads s t)"
    "t_stack (((threads s)(currentThread s := th)) t) = t_stack (threads s t)"
    "t \<noteq> currentThread s \<Longrightarrow> ((threads s)(currentThread s := th)) t = threads s t" for t
    using assms by (auto simp: cur_def)
  then show ?thesis unfolding sched_inv_def set_thread_def by simp
qed

lemma sched_inv_push [simp]: "sched_inv (push fs s) = sched_inv s"
  unfolding push_def by (rule sched_inv_cur) simp_all


section \<open>Queues\<close>

text \<open>What the three kinds of objects are updated with: the queue of one of them changes.\<close>

lemma queue_set [simp]:
  "queue (set_sem i x s) = (queue s)(QSem i := sem_queue x)"
  "queue (set_lock l y s) = (queue s)(QLock l := waitingThreads y)"
  "queue (set_cond c z s) = (queue s)(QCond c := waitingCV z)"
  "queue (s\<lparr>readyList := r\<rparr>) = (queue s)(QReady := r)"
  by (rule ext, rename_tac q, case_tac q, simp_all add: set_sem_def set_lock_def set_cond_def)+

lemma set_simps [simp]:
  "threads (set_sem i x s) = threads s" "threads (set_lock l y s) = threads s" "threads (set_cond c z s) = threads s"
  "live (set_sem i x s) = live s" "live (set_lock l y s) = live s" "live (set_cond c z s) = live s"
  "currentThread (set_sem i x s) = currentThread s" "currentThread (set_lock l y s) = currentThread s"
  "currentThread (set_cond c z s) = currentThread s" "readyList (set_sem i x s) = readyList s"
  "readyList (set_lock l y s) = readyList s" "readyList (set_cond c z s) = readyList s"
  "level (set_sem i x s) = level s" "level (set_lock l y s) = level s" "level (set_cond c z s) = level s"
  "inHandler (set_sem i x s) = inHandler s" "inHandler (set_lock l y s) = inHandler s" "inHandler (set_cond c z s) = inHandler s"
  "threadToBeDestroyed (set_sem i x s) = threadToBeDestroyed s" "threadToBeDestroyed (set_lock l y s) = threadToBeDestroyed s"
  "threadToBeDestroyed (set_cond c z s) = threadToBeDestroyed s"
  "cur (set_sem i x s) = cur s" "cur (set_lock l y s) = cur s" "cur (set_cond c z s) = cur s"
  by (simp_all add: set_sem_def set_lock_def set_cond_def cur_def)

text \<open>The invariant depends on a state through these components only.\<close>

lemma sched_inv_same_queue:
  assumes "queue s' = queue s" "threads s' = threads s" "live s' = live s" "currentThread s' = currentThread s"
    "threadToBeDestroyed s' = threadToBeDestroyed s"
  shows "sched_inv s' = sched_inv s"
  using assms queue.simps(1) [of s] queue.simps(1) [of s'] unfolding sched_inv_def by simp

lemma sched_inv_set_same [simp]:
  "sem_queue x = sem_queue (semaphores s i) \<Longrightarrow> sched_inv (set_sem i x s) = sched_inv s"
  "waitingThreads y = waitingThreads (locks s l) \<Longrightarrow> sched_inv (set_lock l y s) = sched_inv s"
  "waitingCV z = waitingCV (conditions s c) \<Longrightarrow> sched_inv (set_cond c z s) = sched_inv s"
proof -
  have eq: "(queue s)(q := queue s q) = queue s" for q by (rule fun_upd_triv)
  show "sem_queue x = sem_queue (semaphores s i) \<Longrightarrow> sched_inv (set_sem i x s) = sched_inv s"
    using eq [of "QSem i"] by (intro sched_inv_same_queue) simp_all
  show "waitingThreads y = waitingThreads (locks s l) \<Longrightarrow> sched_inv (set_lock l y s) = sched_inv s"
    using eq [of "QLock l"] by (intro sched_inv_same_queue) simp_all
  show "waitingCV z = waitingCV (conditions s c) \<Longrightarrow> sched_inv (set_cond c z s) = sched_inv s"
    using eq [of "QCond c"] by (intro sched_inv_same_queue) simp_all
qed

text \<open>A blocked thread that is in no queue may enter the ready list or, when it is the current one
  going to sleep, a wait queue.\<close>

lemma setStatus_simps [simp]:
  "queue (setStatus t st s) = queue s" "live (setStatus t st s) = live s" "currentThread (setStatus t st s) = currentThread s"
  "threadToBeDestroyed (setStatus t st s) = threadToBeDestroyed s" "readyList (setStatus t st s) = readyList s"
  "level (setStatus t st s) = level s" "inHandler (setStatus t st s) = inHandler s"
  "threads (setStatus t st s) = (threads s)(t := (threads s t)\<lparr>t_status := st\<rparr>)"
  by (simp_all add: setStatus_def set_thread_def)

lemma sched_inv_D:
  assumes "sched_inv s"
  shows "live s (currentThread s)" "distinct (queue s q)" "t \<in> set (queue s q) \<Longrightarrow> live s t"
    "t \<in> set (queue s q) \<Longrightarrow> t_status (threads s t) = (if q = QReady then READY else BLOCKED)"
    "t \<in> set (queue s q) \<Longrightarrow> t \<in> set (queue s q') \<Longrightarrow> q = q'"
    "live s t \<Longrightarrow> t_status (threads s t) = READY \<Longrightarrow> t \<in> set (readyList s)"
    "live s t \<Longrightarrow> t_status (threads s t) = RUNNING \<Longrightarrow> t = currentThread s"
    "threadToBeDestroyed s = Some t \<Longrightarrow> live s t" "threadToBeDestroyed s = Some t \<Longrightarrow> t_status (threads s t) = BLOCKED"
    "threadToBeDestroyed s = Some t \<Longrightarrow> t \<notin> set (queue s q)" "live s t \<Longrightarrow> t_stack (threads s t) \<noteq> Some False"
    "live s t \<Longrightarrow> t \<noteq> currentThread s \<Longrightarrow> resumable (t_frames (threads s t))"
  using assms unfolding sched_inv_def by blast+

lemma cur_setStatus [simp]: "cur (setStatus t st s) = (if t = currentThread s then (cur s)\<lparr>t_status := st\<rparr> else cur s)"
  by (simp add: cur_def)

text \<open>The one shape of a scheduling event: a single thread moves, from wherever it is, into the queue
  \<open>target\<close> or into none, and takes the status that goes with it.\<close>

lemma sched_inv_move:
  assumes inv: "sched_inv s" and live: "live s t" "live s' = live s" "live s (currentThread s')"
    and others: "\<And>q u. u \<noteq> t \<Longrightarrow> u \<in> set (queue s' q) \<longleftrightarrow> u \<in> set (queue s q)"
    and dist: "\<And>q. distinct (queue s' q)"
    and here: "\<And>q. t \<in> set (queue s' q) \<longleftrightarrow> target = Some q"
    and status: "\<And>u. u \<noteq> t \<Longrightarrow> t_status (threads s' u) = t_status (threads s u)"
      "t_status (threads s' t) = (case target of None \<Rightarrow> st | Some QReady \<Rightarrow> READY | Some _ \<Rightarrow> BLOCKED)" "st \<noteq> READY"
    and stack: "\<And>u. t_stack (threads s' u) = t_stack (threads s u) \<or> t_stack (threads s' u) = Some True"
    and run: "\<And>u. live s u \<Longrightarrow> t_status (threads s' u) = RUNNING \<Longrightarrow> u = currentThread s'"
    and tbd: "\<And>u. threadToBeDestroyed s' = Some u \<Longrightarrow>
        u \<noteq> t \<and> threadToBeDestroyed s = Some u \<or> u = t \<and> target = None \<and> st = BLOCKED"
    and frames: "\<And>u. live s u \<Longrightarrow> u \<noteq> currentThread s' \<Longrightarrow> resumable (t_frames (threads s' u))"
  shows "sched_inv s'"
proof -
  note D = sched_inv_D [OF inv]
  have in_queue: "live s' u \<and> t_status (threads s' u) = (if q = QReady then READY else BLOCKED)"
    if "u \<in> set (queue s' q)" for u q
  proof (cases "u = t")
    case True
    with that here have "target = Some q" by simp
    with True status(2) live show ?thesis by (cases q) simp_all
  next
    case False
    with that others D(3,4) [of u q] status(1) [of u] live(2) show ?thesis by simp
  qed
  have one: "q = q'" if "u \<in> set (queue s' q)" "u \<in> set (queue s' q')" for u q q'
  proof (cases "u = t")
    case True
    with that here [of q] here [of q'] show ?thesis by simp
  next
    case False
    with that others D(5) [of u q q'] show ?thesis by simp
  qed
  have ready: "u \<in> set (readyList s')" if "live s u" "t_status (threads s' u) = READY" for u
  proof (cases "u = t")
    case True
    with that status(2,3) here [of QReady] show ?thesis by (cases target) (auto split: qid.splits)
  next
    case False
    with that D(6) [of u] status(1) [of u] others [of u QReady] show ?thesis by simp
  qed
  have destroyed: "live s' u \<and> t_status (threads s' u) = BLOCKED \<and> (\<forall>q. u \<notin> set (queue s' q))"
    if "threadToBeDestroyed s' = Some u" for u
  proof -
    consider "u \<noteq> t" "threadToBeDestroyed s = Some u" | "u = t" "target = None" "st = BLOCKED"
      using tbd [OF \<open>threadToBeDestroyed s' = Some u\<close>] by blast
    then show ?thesis
    proof cases
      case 1
      with D(8,9) D(10) [of u] status(1) [of u] others [of u] live(2) show ?thesis by simp
    next
      case 2
      with status(2) here live show ?thesis by simp
    qed
  qed
  have "live s' (currentThread s')" using live(2,3) by simp
  moreover have "t_stack (threads s' u) \<noteq> Some False" if "live s u" for u
    using stack [of u] D(11) [OF that] by auto
  ultimately show ?thesis
    unfolding sched_inv_def live(2)
    using dist in_queue one ready run destroyed frames unfolding live(2) by blast
qed

lemma ReadyToRun_eq:
  "live s t \<Longrightarrow> ReadyToRun t s = Inr ((setStatus t READY s)\<lparr>readyList := readyList s @ [t]\<rparr>)"
  by (simp add: ReadyToRun_def deref_def Let_def)

text \<open>Waking the first thread of a wait queue \<open>q\<close>; \<open>s1\<close> is the state with that thread removed.\<close>

lemma sched_inv_wake:
  assumes inv: "sched_inv s" and q: "queue s q = t # ts" "q \<noteq> QReady"
    and s1: "queue s1 = (queue s)(q := ts)" "threads s1 = threads s" "live s1 = live s"
      "currentThread s1 = currentThread s" "threadToBeDestroyed s1 = threadToBeDestroyed s"
  shows "sched_inv ((setStatus t READY s1)\<lparr>readyList := readyList s1 @ [t]\<rparr>)" (is "sched_inv ?s'")
proof (rule sched_inv_move [OF inv, where t = t and target = "Some QReady"])
  note D = sched_inv_D [OF inv]
  have t: "live s t" "t \<notin> set ts" "t_status (threads s t) = BLOCKED" "t \<notin> set (readyList s)"
    using D(3) [of t q] D(2) [of q] D(4) [of t q] D(5) [of t q QReady] q by auto
  have ready: "readyList s1 = readyList s" using s1(1) q(2) queue.simps(1) [of s1] by simp
  have Q: "queue ?s' = (queue s)(q := ts, QReady := readyList s @ [t])" using s1(1) ready by simp
  have Qp: "queue ?s' p = (if p = QReady then readyList s @ [t] else if p = q then ts else queue s p)" for p
    by (simp only: Q fun_upd_apply)
  show "live s t" by (rule t)
  show "live ?s' = live s" "live s (currentThread ?s')" using s1 D(1) by simp_all
  show "u \<in> set (queue ?s' p) \<longleftrightarrow> u \<in> set (queue s p)" if "u \<noteq> t" for u p
    unfolding Qp using that q by simp
  show "distinct (queue ?s' p)" for p
  proof -
    have "distinct (readyList s @ [t])" "distinct ts" "distinct (queue s p)"
      using D(2) [of q] D(2) [of QReady] D(2) [of p] q(1) t(4) by simp_all
    then show ?thesis unfolding Qp by simp
  qed
  show "t \<in> set (queue ?s' p) \<longleftrightarrow> Some QReady = Some p" for p
  proof -
    have "t \<in> set (queue s q)" using q(1) by simp
    then have "t \<notin> set (queue s p)" if "p \<noteq> q" using D(5) [of t q p] that by metis
    then show ?thesis unfolding Qp using t(2) by simp
  qed
  show "t_status (threads ?s' t) = (case Some QReady of None \<Rightarrow> BLOCKED | Some QReady \<Rightarrow> READY | Some _ \<Rightarrow> BLOCKED)"
    by simp
  show "u = currentThread ?s'" if "live s u" "t_status (threads ?s' u) = RUNNING" for u
    using that D(7) [of u] s1 by (auto split: if_splits)
  show "u \<noteq> t \<and> threadToBeDestroyed s = Some u \<or> u = t \<and> Some QReady = None \<and> BLOCKED = BLOCKED"
    if "threadToBeDestroyed ?s' = Some u" for u
    using that s1 D(10) [of u q] q by auto
  show "resumable (t_frames (threads ?s' u))" if "live s u" "u \<noteq> currentThread ?s'" for u
    using that D(12) [of u] s1 by auto
qed (use s1 in simp_all)

lemma running_unqueued: "sched_inv s \<Longrightarrow> t_status (cur s) = RUNNING \<Longrightarrow> currentThread s \<notin> set (queue s q)"
  using sched_inv_D(4) [of s "currentThread s" q] by (auto simp: cur_def split: if_splits)

lemma running_not_destroyed:
  "sched_inv s \<Longrightarrow> t_status (cur s) = RUNNING \<Longrightarrow> threadToBeDestroyed s \<noteq> Some (currentThread s)"
  using sched_inv_D(9) [of s "currentThread s"] by (auto simp: cur_def)

text \<open>The current thread goes to sleep: it has entered a wait queue, or none when it finishes.\<close>

lemma sched_inv_block:
  assumes inv: "sched_inv s" and run: "t_status (cur s) = RUNNING"
    and s1: "queue s1 = (case q of None \<Rightarrow> queue s | Some q \<Rightarrow> (queue s)(q := queue s q @ [currentThread s]))"
      "q \<noteq> Some QReady" "threads s1 = threads s" "live s1 = live s" "currentThread s1 = currentThread s"
      "threadToBeDestroyed s1 = (if q = None then Some (currentThread s) else threadToBeDestroyed s)"
  shows "sched_inv (setStatus (currentThread s) BLOCKED s1)" (is "sched_inv ?s'")
proof (rule sched_inv_move [OF inv, where t = "currentThread s" and target = q and st = BLOCKED])
  let ?t = "currentThread s"
  note D = sched_inv_D [OF inv]
  note out = running_unqueued [OF inv run]
  have Qp: "queue ?s' p = (if q = Some p then queue s p @ [?t] else queue s p)" for p
    using s1(1) by (cases q) auto
  show "live s ?t" "live s (currentThread ?s')" using D(1) s1(5) by simp_all
  show "u \<in> set (queue ?s' p) \<longleftrightarrow> u \<in> set (queue s p)" if "u \<noteq> ?t" for u p
    unfolding Qp using that by simp
  show "distinct (queue ?s' p)" for p unfolding Qp using D(2) [of p] out [of p] by simp
  show "?t \<in> set (queue ?s' p) \<longleftrightarrow> q = Some p" for p unfolding Qp using out [of p] by simp
  show "t_status (threads ?s' ?t) = (case q of None \<Rightarrow> BLOCKED | Some QReady \<Rightarrow> READY | Some _ \<Rightarrow> BLOCKED)"
    using s1(2) by (auto split: option.splits qid.splits)
  show "u = currentThread ?s'" if "live s u" "t_status (threads ?s' u) = RUNNING" for u
    using that D(7) [of u] s1 by (auto split: if_splits)
  show "u \<noteq> ?t \<and> threadToBeDestroyed s = Some u \<or> u = ?t \<and> q = None \<and> BLOCKED = BLOCKED"
    if "threadToBeDestroyed ?s' = Some u" for u
    using that s1(6) running_not_destroyed [OF inv run] by (auto split: if_splits)
  show "resumable (t_frames (threads ?s' u))" if "live s u" "u \<noteq> currentThread ?s'" for u
    using that D(12) [of u] s1 by auto
qed (use s1 in simp_all)

text \<open>The current thread goes to the end of the ready list.\<close>

lemma sched_inv_yield:
  assumes inv: "sched_inv s" and run: "t_status (cur s) = RUNNING"
  shows "sched_inv ((setStatus (currentThread s) READY s)\<lparr>readyList := readyList s @ [currentThread s]\<rparr>)" (is "sched_inv ?s'")
proof (rule sched_inv_move [OF inv, where t = "currentThread s" and target = "Some QReady" and st = BLOCKED])
  let ?t = "currentThread s"
  note D = sched_inv_D [OF inv]
  note out = running_unqueued [OF inv run]
  have Qp: "queue ?s' p = (if QReady = p then queue s p @ [?t] else queue s p)" for p by auto
  show "live s ?t" "live s (currentThread ?s')" using D(1) by simp_all
  show "u \<in> set (queue ?s' p) \<longleftrightarrow> u \<in> set (queue s p)" if "u \<noteq> ?t" for u p
    unfolding Qp using that by simp
  show "distinct (queue ?s' p)" for p unfolding Qp using D(2) [of p] out [of p] by auto
  show "?t \<in> set (queue ?s' p) \<longleftrightarrow> Some QReady = Some p" for p unfolding Qp using out [of p] by auto
  show "u = currentThread ?s'" if "live s u" "t_status (threads ?s' u) = RUNNING" for u
    using that D(7) [of u] by (auto split: if_splits)
  show "u \<noteq> ?t \<and> threadToBeDestroyed s = Some u \<or> u = ?t \<and> Some QReady = None \<and> BLOCKED = BLOCKED"
    if "threadToBeDestroyed ?s' = Some u" for u
    using that running_not_destroyed [OF inv run] by auto
  show "resumable (t_frames (threads ?s' u))" if "live s u" "u \<noteq> currentThread ?s'" for u
    using that D(12) [of u] by auto
qed simp_all

text \<open>The first thread of the ready list gets the processor.\<close>

lemma sched_inv_dispatch:
  assumes inv: "sched_inv s" and off: "t_status (cur s) \<noteq> RUNNING" "stack_ok True (F_RunTail # t_frames (cur s))"
    and ready: "readyList s = n # ts"
  defines "s' \<equiv> setStatus n RUNNING ((push [F_RunTail] (s\<lparr>readyList := ts\<rparr>))\<lparr>currentThread := n\<rparr>)"
  shows "sched_inv s'" "t_status (cur s') = RUNNING" "resumable (t_frames (cur s'))"
proof -
  note D = sched_inv_D [OF inv]
  have n: "live s n" "n \<notin> set ts" "n \<notin> set (queue s p)" if "p \<noteq> QReady" for p
    using D(3) [of n QReady] D(2) [of QReady] D(5) [of n QReady p] ready that by auto
  have nl: "live s n" "n \<notin> set ts" using n [of "QSem 0"] by simp_all
  have Qp: "queue s' p = (if p = QReady then ts else queue s p)" for p by (simp add: s'_def)
  have th: "threads s' u = (let th = threads s u; th = (if u = currentThread s then th\<lparr>t_frames := F_RunTail # t_frames th\<rparr> else th)
      in if u = n then th\<lparr>t_status := RUNNING\<rparr> else th)" for u
    by (simp add: s'_def push_def set_thread_def cur_def Let_def)
  have frames: "resumable (t_frames (threads s' u))" if "live s u" for u
    using that off(2) D(12) [of u] unfolding th Let_def by (auto simp: cur_def resumable_def)
  show "sched_inv s'"
  proof (rule sched_inv_move [OF inv, where t = n and target = None and st = RUNNING])
    show "live s n" "live s (currentThread s')" "live s' = live s" using nl by (simp_all add: s'_def)
    show "u \<in> set (queue s' p) \<longleftrightarrow> u \<in> set (queue s p)" if "u \<noteq> n" for u p
      unfolding Qp using that ready by simp
    show "distinct (queue s' p)" for p unfolding Qp using D(2) [of p] D(2) [of QReady] ready by simp
    show "n \<in> set (queue s' p) \<longleftrightarrow> None = Some p" for p unfolding Qp using nl(2) n(3) [of p] by simp
    show "u = currentThread s'" if "live s u" "t_status (threads s' u) = RUNNING" for u
      using that D(7) [of u] off(1) unfolding th Let_def by (auto simp: s'_def cur_def split: if_splits)
    show "u \<noteq> n \<and> threadToBeDestroyed s = Some u \<or> u = n \<and> None = None \<and> RUNNING = BLOCKED"
      if "threadToBeDestroyed s' = Some u" for u
      using that D(10) [of u QReady] ready by (auto simp: s'_def)
    show "resumable (t_frames (threads s' u))" if "live s u" for u by (rule frames [OF that])
  qed (simp_all add: th Let_def)
  have "currentThread s' = n" by (simp add: s'_def)
  then show "t_status (cur s') = RUNNING" "resumable (t_frames (cur s'))"
    using frames [OF nl(1)] by (simp_all add: cur_def th Let_def)
qed

section \<open>The operations keep the invariant and fail no assertion\<close>

lemma SetLevel_off: "SetLevel IntOff s = Inr (level s, s\<lparr>level := IntOff\<rparr>)"
  by (simp add: SetLevel_def Let_def)

lemma push_push: "push fs (push gs s) = push (fs @ gs) s"
  by (simp add: push_def set_thread_def cur_def)

lemma push_set:
  "push fs (set_sem i x s) = set_sem i x (push fs s)" "push fs (set_lock l y s) = set_lock l y (push fs s)"
  "push fs (set_cond c z s) = set_cond c z (push fs s)" "push fs (s\<lparr>level := v\<rparr>) = (push fs s)\<lparr>level := v\<rparr>"
  by (simp_all add: push_def set_thread_def cur_def set_sem_def set_lock_def set_cond_def)

lemma calls_ok_simps [simp]:
  "calls_ok (s\<lparr>level := v\<rparr>) = calls_ok s" "calls_ok (s\<lparr>mstatus := d\<rparr>) = calls_ok s" "calls_ok (s\<lparr>stats := e\<rparr>) = calls_ok s"
  "calls_ok (s\<lparr>yieldOnReturn := b\<rparr>) = calls_ok s" "calls_ok (s\<lparr>k_machine := m\<rparr>) = calls_ok s" "calls_ok (s\<lparr>pending := p\<rparr>) = calls_ok s"
  "sem_queue x = sem_queue (semaphores s i) \<Longrightarrow> calls_ok (set_sem i x s) = calls_ok s"
  "waitingThreads y = waitingThreads (locks s l) \<Longrightarrow> calls_ok (set_lock l y s) = calls_ok s"
  "waitingCV z = waitingCV (conditions s c) \<Longrightarrow> calls_ok (set_cond c z s) = calls_ok s"
  by (simp_all add: calls_ok_def stack_ok_mono)

lemma calls_ok_push: "calls_ok s \<Longrightarrow> \<not> needs_off f \<Longrightarrow> calls_ok (push [f] s)"
  by (auto simp: calls_ok_def intro: stack_ok_mono)

lemma calls_ok_kernel_inv: "calls_ok s \<Longrightarrow> kernel_inv s"
  by (simp add: calls_ok_def kernel_inv_def stack_ok_mono)

lemma safe_set_level: "calls_ok s \<Longrightarrow> safe (set_level v s)"
  by (auto simp: set_level_def SetLevel_def OneTick_def Let_def calls_ok_def kernel_inv_def stack_ok_mono)

text \<open>Going to sleep, with interrupts disabled, in the wait queue \<open>q\<close>.\<close>

lemma safe_Sleep:
  assumes "sched_inv s" "t_status (cur s) = RUNNING" "\<not> inHandler s1" "level s1 = IntOff" "stack_ok True (F_SleepLoop # t_frames (cur s))"
    "queue s1 = (case q of None \<Rightarrow> queue s | Some q \<Rightarrow> (queue s)(q := queue s q @ [currentThread s]))"
      "q \<noteq> Some QReady" "threads s1 = threads s" "live s1 = live s" "currentThread s1 = currentThread s"
      "threadToBeDestroyed s1 = (if q = None then Some (currentThread s) else threadToBeDestroyed s)"
  shows "safe (Sleep s1)"
proof -
  have "sched_inv (setStatus (currentThread s) BLOCKED s1)"
    using assms(1,2) assms(6-11) by (rule sched_inv_block)
  moreover have "cur (setStatus (currentThread s) BLOCKED s1) = (cur s)\<lparr>t_status := BLOCKED\<rparr>"
    using assms(8,10) by (simp add: cur_def)
  ultimately show ?thesis using assms(3-5,10) by (simp add: Sleep_def kernel_inv_def)
qed

lemma safe_P_loop:
  assumes "calls_ok s" "level s = IntOff"
  shows "safe (P_loop i old s)"
proof (cases "sem_value (semaphores s i) = 0")
  case True
  have "safe (Sleep (set_sem i ((semaphores s i)\<lparr>sem_queue := sem_queue (semaphores s i) @ [currentThread s]\<rparr>) (push [F_P i old] s)))"
    using assms by (intro safe_Sleep [where s = "push [F_P i old] s" and q = "Some (QSem i)"])
      (simp_all add: calls_ok_def)
  with True show ?thesis by (simp add: P_loop_def Let_def push_set)
next
  case False
  then show ?thesis using assms by (simp add: P_loop_def Let_def safe_set_level)
qed

lemma safe_P: "calls_ok s \<Longrightarrow> safe (P i s)"
  by (simp add: P_def SetLevel_off safe_P_loop)

text \<open>Waking a waiter leaves the current thread as it is.\<close>

lemma ReadyToRun_waiter:
  assumes "sched_inv s" "queue s q = t # ts" "q \<noteq> QReady"
    and s1: "queue s1 = (queue s)(q := ts)" "threads s1 = threads s" "live s1 = live s"
      "currentThread s1 = currentThread s" "threadToBeDestroyed s1 = threadToBeDestroyed s"
  obtains s2 where "ReadyToRun t s1 = Inr s2" "sched_inv s2" "currentThread s2 = currentThread s"
    "\<And>u. t_frames (threads s2 u) = t_frames (threads s u)"
    "t_status (cur s) = RUNNING \<Longrightarrow> cur s2 = cur s" "level s2 = level s1" "inHandler s2 = inHandler s1"
    "s2 = (setStatus t READY s1)\<lparr>readyList := readyList s1 @ [t]\<rparr>"
    "t_status (cur s2) = RUNNING \<longleftrightarrow> t_status (cur s) = RUNNING"
proof -
  let ?s2 = "(setStatus t READY s1)\<lparr>readyList := readyList s1 @ [t]\<rparr>"
  note D = sched_inv_D [OF assms(1)]
  have t: "live s1 t" "t_status (threads s t) = BLOCKED" using D(3,4) [of t q] assms(2,3) s1(3) by simp_all
  have "cur ?s2 = cur s" if "t_status (cur s) = RUNNING"
    using that t(2) s1(2,4) by (auto simp: cur_def)
  moreover have "t_frames (threads ?s2 u) = t_frames (threads s u)" for u using s1(2) by simp
  moreover have "t_status (cur ?s2) = RUNNING \<longleftrightarrow> t_status (cur s) = RUNNING"
    using t(2) s1(2,4) by (auto simp: cur_def)
  moreover have "sched_inv ?s2" using assms by (rule sched_inv_wake)
  ultimately show ?thesis using that [of ?s2] ReadyToRun_eq [OF t(1)] s1(4) by simp
qed

lemma wake_calls_ok:
  assumes "calls_ok s" "queue s q = t # ts" "q \<noteq> QReady"
    and s1: "queue s1 = (queue s)(q := ts)" "threads s1 = threads s" "live s1 = live s"
      "currentThread s1 = currentThread s" "threadToBeDestroyed s1 = threadToBeDestroyed s" "inHandler s1 = inHandler s"
  obtains s2 where "ReadyToRun t s1 = Inr s2" "calls_ok s2" "level s2 = level s1"
    "s2 = (setStatus t READY s1)\<lparr>readyList := readyList s1 @ [t]\<rparr>"
proof -
  have c: "sched_inv s" "t_status (cur s) = RUNNING" using assms(1) by (simp_all add: calls_ok_def)
  obtain s2 where s2: "ReadyToRun t s1 = Inr s2" "sched_inv s2" "cur s2 = cur s" "level s2 = level s1" "inHandler s2 = inHandler s1"
    "s2 = (setStatus t READY s1)\<lparr>readyList := readyList s1 @ [t]\<rparr>"
    by (rule ReadyToRun_waiter [OF c(1) assms(2-8)]) (use c(2) in blast)
  have "calls_ok s2" using s2(2,3,5) assms(1,9) by (simp add: calls_ok_def)
  with s2 that show ?thesis by blast
qed

text \<open>The body of \<open>V\<close> between the two calls of \<open>SetLevel\<close>.\<close>

definition V_body :: "nat \<Rightarrow> ('h, 'c, 'z) kernel_scheme \<Rightarrow> ('h, 'c, 'z) kernel_scheme result" where
  "V_body i s = rbind (case sem_queue (semaphores s i) of [] \<Rightarrow> Inr s
            | t # ts \<Rightarrow> ReadyToRun t (set_sem i ((semaphores s i)\<lparr>sem_queue := ts\<rparr>) s)) (\<lambda>s.
     let x = semaphores s i in Inr (set_sem i (x\<lparr>sem_value := sem_value x + 1\<rparr>) s))"

lemma V_eq: "V i s = rbind (V_body i (s\<lparr>level := IntOff\<rparr>)) (set_level (level s))"
  by (simp add: V_def V_body_def SetLevel_off rbind_assoc Let_def)

lemma V_body_ok:
  assumes "sched_inv s"
  obtains s' where "V_body i s = Inr s'" "sched_inv s'" "currentThread s' = currentThread s"
    "\<And>u. t_frames (threads s' u) = t_frames (threads s u)" "t_status (cur s) = RUNNING \<Longrightarrow> cur s' = cur s"
    "level s' = level s" "inHandler s' = inHandler s" "t_status (cur s') = RUNNING \<longleftrightarrow> t_status (cur s) = RUNNING"
proof (cases "sem_queue (semaphores s i)")
  case Nil
  let ?x = "semaphores s i"
  from Nil show ?thesis using assms
    by (intro that [of "set_sem i (?x\<lparr>sem_value := sem_value ?x + 1\<rparr>) s"]) (simp_all add: V_body_def Let_def)
next
  case (Cons t ts)
  let ?s1 = "set_sem i ((semaphores s i)\<lparr>sem_queue := ts\<rparr>) s"
  obtain s2 where s2: "ReadyToRun t ?s1 = Inr s2" "sched_inv s2" "currentThread s2 = currentThread s"
    "\<And>u. t_frames (threads s2 u) = t_frames (threads s u)"
    "t_status (cur s) = RUNNING \<Longrightarrow> cur s2 = cur s" "level s2 = level ?s1" "inHandler s2 = inHandler ?s1"
    "t_status (cur s2) = RUNNING \<longleftrightarrow> t_status (cur s) = RUNNING"
    by (rule ReadyToRun_waiter [OF assms, of "QSem i" t ts ?s1]) (use Cons in \<open>simp_all, blast?\<close>)
  let ?x = "semaphores s2 i"
  from s2 Cons show ?thesis
    by (intro that [of "set_sem i (?x\<lparr>sem_value := sem_value ?x + 1\<rparr>) s2"]) (simp_all add: V_body_def Let_def)
qed

lemma safe_V: "calls_ok s \<Longrightarrow> safe (V i s)"
  by (rule V_body_ok [of "s\<lparr>level := IntOff\<rparr>" i])
    (auto simp: V_eq calls_ok_def intro!: safe_set_level)

lemma calls_ok_off [simp]: "calls_ok s \<Longrightarrow> calls_ok (s\<lparr>level := IntOff\<rparr>)"
  by simp

lemma safe_Acquire:
  assumes "calls_ok s"
  shows "safe (Acquire l s)"
proof -
  let ?s = "s\<lparr>level := IntOff\<rparr>" and ?x = "locks s l"
  have "safe (Sleep (set_lock l (?x\<lparr>waitingThreads := waitingThreads ?x @ [currentThread s]\<rparr>) (push [F_SetLevel (level s)] ?s)))"
    using assms by (intro safe_Sleep [where s = "push [F_SetLevel (level s)] ?s" and q = "Some (QLock l)"])
      (simp_all add: calls_ok_def)
  with assms show ?thesis
    by (simp add: Acquire_def SetLevel_off Let_def safe_set_level push_set)
qed

text \<open>\<open>Release\<close> may be called with interrupts on or off; it ends with them off or restored.\<close>

lemma Release_ok:
  assumes "calls_ok s"
  shows "safe (Release l s)" "level s = IntOff \<Longrightarrow> \<exists>s'. Release l s = Inr s' \<and> calls_ok s' \<and> level s' = IntOff \<and> conditions s' = conditions s
     \<and> cur s' = cur s \<and> currentThread s' = currentThread s"
proof -
  let ?s = "s\<lparr>level := IntOff\<rparr>" and ?x = "locks s l"
  have c: "calls_ok ?s" using assms by simp
  have held: "\<exists>s'. Release l s = Inr s' \<and> calls_ok s' \<and> level s' = IntOff \<and> conditions s' = conditions s
     \<and> cur s' = cur s \<and> currentThread s' = currentThread s"
    if h: "isHeldByCurrentThread l ?s"
  proof (cases "waitingThreads ?x")
    case Nil
    then show ?thesis using h c by (simp add: Release_def SetLevel_off Let_def) (simp add: set_lock_def)
  next
    case (Cons t ts)
    let ?s1 = "set_lock l (?x\<lparr>waitingThreads := ts, owner := Some t\<rparr>) ?s"
    obtain s2 where s2: "ReadyToRun t ?s1 = Inr s2" "calls_ok s2" "level s2 = level ?s1"
      "s2 = (setStatus t READY ?s1)\<lparr>readyList := readyList ?s1 @ [t]\<rparr>"
      by (rule wake_calls_ok [OF c, of "QLock l" t ts ?s1]) (use Cons in simp_all)
    have "sched_inv s" "t_status (cur s) = RUNNING" using assms by (simp_all add: calls_ok_def)
    then have "t \<noteq> currentThread s" using running_unqueued [of s "QLock l"] Cons by auto
    then have "cur s2 = cur s" "conditions s2 = conditions s" "currentThread s2 = currentThread s"
      unfolding s2(4) by (simp_all add: cur_def set_lock_def setStatus_def set_thread_def)
    then show ?thesis using s2 h Cons by (simp add: Release_def SetLevel_off Let_def)
  qed
  have other: "Release l s = set_level (level s) ?s" if "\<not> isHeldByCurrentThread l ?s"
    using that by (simp add: Release_def SetLevel_off Let_def)
  show "safe (Release l s)"
  proof (cases "isHeldByCurrentThread l ?s")
    case True
    from held [OF this] calls_ok_kernel_inv show ?thesis by fastforce
  next
    case False
    then show ?thesis using other c safe_set_level by metis
  qed
  assume "level s = IntOff"
  then have "set_level (level s) ?s = Inr ?s" by (simp add: set_level_def SetLevel_off)
  then show "\<exists>s'. Release l s = Inr s' \<and> calls_ok s' \<and> level s' = IntOff \<and> conditions s' = conditions s
     \<and> cur s' = cur s \<and> currentThread s' = currentThread s"
    using held other c by (cases "isHeldByCurrentThread l ?s") auto
qed

lemma safe_Wait:
  assumes "calls_ok s"
  shows "safe (Wait c cl s)"
proof (cases cl)
  case None
  then show ?thesis using assms by (simp add: Wait_def SetLevel_off safe_set_level)
next
  case (Some l)
  let ?s = "s\<lparr>level := IntOff\<rparr>"
  define x where "x = (if waitingLock (conditions s c) = None then (conditions s c)\<lparr>waitingLock := Some l\<rparr> else conditions s c)"
  let ?s1 = "set_cond c x ?s"
  have c1: "calls_ok ?s1" "level ?s1 = IntOff" using assms by (simp_all add: x_def)
  have W: "Wait c cl s = (if waitingLock x \<noteq> Some l then set_level (level s) ?s1
      else rbind (Release l ?s1) (\<lambda>s2. let y = conditions s2 c in
        Sleep (push [F_Acquire l, F_SetLevel (level s)] (set_cond c (y\<lparr>waitingCV := waitingCV y @ [currentThread s2]\<rparr>) s2))))"
    unfolding Wait_def SetLevel_off Let_def x_def Some by simp
  show ?thesis
  proof (cases "waitingLock x = Some l")
    case False
    then show ?thesis using c1(1) safe_set_level by (simp add: W)
  next
    case True
    obtain s2 where s2: "Release l ?s1 = Inr s2" "calls_ok s2" "level s2 = IntOff" using Release_ok(2) [OF c1] by blast
    let ?x = "conditions s2 c" and ?fs = "[F_Acquire l, F_SetLevel (level s)]"
    have "safe (Sleep (set_cond c (?x\<lparr>waitingCV := waitingCV ?x @ [currentThread s2]\<rparr>) (push ?fs s2)))"
      using s2(2,3) by (intro safe_Sleep [where s = "push ?fs s2" and q = "Some (QCond c)"])
        (simp_all add: calls_ok_def)
    then show ?thesis using True s2(1) by (simp add: W Let_def push_set)
  qed
qed

lemma safe_Signal:
  assumes "calls_ok s"
  shows "safe (Signal c cl s)"
proof -
  let ?s = "s\<lparr>level := IntOff\<rparr>" and ?x = "conditions s c"
  have c: "calls_ok ?s" using assms by simp
  show ?thesis
  proof (cases "waitingCV ?x = [] \<or> waitingLock ?x \<noteq> cl")
    case True
    then show ?thesis using c by (auto simp: Signal_def SetLevel_off Let_def safe_set_level split: list.split)
  next
    case False
    then obtain t ts where q: "waitingCV ?x = t # ts" "waitingLock ?x = cl" by (cases "waitingCV ?x") auto
    define y where "y = ?x\<lparr>waitingCV := ts, waitingLock := (if ts = [] then None else waitingLock ?x)\<rparr>"
    have S: "Signal c cl s = rbind (ReadyToRun t (set_cond c y ?s)) (set_level (level s))"
      unfolding Signal_def SetLevel_off Let_def y_def using q by simp
    obtain s2 where s2: "ReadyToRun t (set_cond c y ?s) = Inr s2" "calls_ok s2"
      by (rule wake_calls_ok [OF c, of "QCond c" t ts "set_cond c y ?s"]) (use q in \<open>simp_all add: y_def\<close>)
    then show ?thesis by (simp add: S safe_set_level)
  qed
qed

lemma safe_Broadcast: "calls_ok s \<Longrightarrow> safe (Broadcast c l s)"
  by (simp add: Broadcast_def calls_ok_kernel_inv safe_Signal calls_ok_push)

text \<open>The dispatcher: with interrupts off and the current thread no longer running.\<close>

lemma safe_Run:
  assumes "sched_inv s" "\<not> inHandler s" "level s = IntOff" "t_status (cur s) \<noteq> RUNNING"
    "stack_ok True (F_RunTail # t_frames (cur s))" "readyList s = n # ts"
  shows "safe (Run n (s\<lparr>readyList := ts\<rparr>))"
proof -
  note D = sched_inv_D [OF assms(1)]
  have n: "live s n" using D(3) [of n QReady] assms(6) by simp
  have stack: "CheckOverflow (currentThread s) s' = Inr ()" if "t_stack (threads s' (currentThread s)) = t_stack (cur s)" for s' :: "('a, 'b, 'c) kernel_scheme"
    using D(11) [OF D(1)] that by (auto simp: CheckOverflow_def cur_def split: option.split)
  have go: "safe (Inr (setStatus n RUNNING ((push [F_RunTail] (s1\<lparr>readyList := ts\<rparr>))\<lparr>currentThread := n\<rparr>)))"
    if "s1 = set_thread (currentThread s) th s" "t_status th = t_status (cur s)" "t_stack th = t_stack (cur s)" "t_frames th = t_frames (cur s)"
    for s1 th
  proof -
    have "sched_inv s1" "cur s1 = th" "readyList s1 = n # ts" "level s1 = IntOff" "\<not> inHandler s1"
      using that assms sched_inv_cur [of th s] by (simp_all add: cur_def set_thread_def)
    with sched_inv_dispatch [of s1 n ts] that assms(4,5) show ?thesis by (simp add: kernel_inv_def resumable_def)
  qed
  show ?thesis
  proof (cases "space (cur s) = None")
    case True
    have "set_thread (currentThread s) (cur s) s = s" by (simp add: set_thread_def cur_def)
    then show ?thesis using True go [of s "cur s"] stack [of "s\<lparr>readyList := ts\<rparr>"] n by (simp add: Run_def deref_def cur_def Let_def)
  next
    case False
    show ?thesis
    proof (cases "k_machine s")
      case None
      then show ?thesis using False by (simp add: Run_def SaveUserState_def)
    next
      case (Some m)
      define th where "th = (cur s)\<lparr>userRegisters := (\<lambda>i. if i < NumTotalRegs then registers m i else userRegisters (cur s) i)\<rparr>"
      have sv: "SaveUserState (currentThread s) (s\<lparr>readyList := ts\<rparr>) = Inr ((set_thread (currentThread s) th s)\<lparr>readyList := ts\<rparr>)"
        using Some by (simp add: SaveUserState_def th_def cur_def set_thread_def cong: if_cong)
      show ?thesis
        using False sv go [of "set_thread (currentThread s) th s" th] stack [of "(set_thread (currentThread s) th s)\<lparr>readyList := ts\<rparr>"] n
        by (simp add: Run_def deref_def Let_def th_def set_thread_def)
    qed
  qed
qed

lemma safe_Yield:
  assumes "calls_ok s"
  shows "safe (Yield s)"
proof (cases "readyList s")
  case Nil
  then show ?thesis using assms by (simp add: Yield_def SetLevel_off FindNextToRun_def safe_set_level)
next
  case (Cons n ts)
  have c: "sched_inv s" "t_status (cur s) = RUNNING" "live s (currentThread s)"
    using assms sched_inv_D(1) by (auto simp: calls_ok_def)
  define s1 where "s1 = push [F_SetLevel (level s)] ((setStatus (currentThread s) READY (s\<lparr>level := IntOff\<rparr>))
      \<lparr>readyList := readyList s @ [currentThread s]\<rparr>)"
  have "sched_inv s1"
    using sched_inv_yield [of "s\<lparr>level := IntOff\<rparr>"] c(1,2) by (simp add: s1_def)
  moreover have "t_status (cur s1) \<noteq> RUNNING" "stack_ok True (F_RunTail # t_frames (cur s1))" "\<not> inHandler s1" "level s1 = IntOff"
    using assms by (simp_all add: s1_def calls_ok_def)
  moreover have "readyList s1 = n # ts @ [currentThread s]" using Cons by (simp add: s1_def)
  ultimately have "safe (Run n (s1\<lparr>readyList := ts @ [currentThread s]\<rparr>))" by (intro safe_Run)
  moreover have "Yield s = Run n (s1\<lparr>readyList := ts @ [currentThread s]\<rparr>)"
    using Cons c(3)
    by (simp add: Yield_def SetLevel_off FindNextToRun_def ReadyToRun_def deref_def s1_def setStatus_def push_def set_thread_def cur_def Let_def)
      (rule arg_cong [where f = "Run n"], rule kernel.equality, simp_all)
  ultimately show ?thesis by simp
qed

lemma safe_Finish:
  assumes "calls_ok s"
  shows "safe (Finish s)"
proof -
  let ?s = "s\<lparr>level := IntOff, threadToBeDestroyed := Some (currentThread s)\<rparr>"
  have "safe (Sleep ?s)" using assms
    by (intro safe_Sleep [where s = s and q = None]) (simp_all add: calls_ok_def stack_ok_mono)
  then show ?thesis by (simp add: Finish_def set_level_def SetLevel_off)
qed

text \<open>A new thread, not yet known to the scheduler.\<close>

lemma safe_Fork:
  assumes "calls_ok s" "live s t" "t_status (threads s t) = JUST_CREATED"
  shows "safe (Fork t func s)"
proof -
  have c: "sched_inv s" "t_status (cur s) = RUNNING" using assms by (auto simp: calls_ok_def)
  note D = sched_inv_D [OF c(1)]
  have nt: "t \<noteq> currentThread s" using assms(3) c(2) by (auto simp: cur_def)
  let ?s0 = "s\<lparr>level := IntOff\<rparr>"
  define s1 where "s1 = (setStatus t READY (set_thread t (StackAllocate func (threads s t)) ?s0))\<lparr>readyList := readyList s @ [t]\<rparr>"
  have th: "threads s1 u = (if u = t then (StackAllocate func (threads s t))\<lparr>t_status := READY\<rparr> else threads s u)" for u
    by (simp add: s1_def set_thread_def)
  have Qp: "queue s1 q = (if q = QReady then queue s q @ [t] else queue s q)" for q
    by (simp add: s1_def set_thread_def)
  have notin: "t \<notin> set (queue s q)" for q using D(4) [of t q] assms(3) by (auto split: if_splits)
  have s1: "live s1 = live s" "currentThread s1 = currentThread s" "threadToBeDestroyed s1 = threadToBeDestroyed s"
    "level s1 = IntOff" "inHandler s1 = inHandler s"
    by (simp_all add: s1_def set_thread_def)
  have "sched_inv s1"
  proof (rule sched_inv_move [OF c(1), where t = t and target = "Some QReady" and st = BLOCKED])
    show "u \<in> set (queue s1 p) \<longleftrightarrow> u \<in> set (queue s p)" if "u \<noteq> t" for u p unfolding Qp using that by simp
    show "distinct (queue s1 p)" for p unfolding Qp using D(2) [of p] notin [of p] by auto
    show "t \<in> set (queue s1 p) \<longleftrightarrow> Some QReady = Some p" for p unfolding Qp using notin [of p] by auto
    show "u = currentThread s1" if "live s u" "t_status (threads s1 u) = RUNNING" for u
      using that D(7) [of u] s1(2) by (auto simp: th split: if_splits)
    show "u \<noteq> t \<and> threadToBeDestroyed s = Some u \<or> u = t \<and> Some QReady = None \<and> BLOCKED = BLOCKED"
      if "threadToBeDestroyed s1 = Some u" for u
      using that D(9) [of u] assms(3) s1(3) by auto
    show "resumable (t_frames (threads s1 u))" if "live s u" "u \<noteq> currentThread s1" for u
      using that D(12) [of u] s1(2) by (simp add: th StackAllocate_def resumable_def)
  qed (use assms(2) s1 D(1) in \<open>simp_all add: th StackAllocate_def\<close>)
  moreover have "cur s1 = cur s" using nt by (simp add: cur_def th s1(2))
  ultimately have "calls_ok s1" using assms(1) s1 by (simp add: calls_ok_def)
  moreover have "Fork t func s = set_level (level s) s1"
    using assms(2) by (simp add: Fork_def deref_def SetLevel_off ReadyToRun_def s1_def set_thread_def setStatus_def Let_def)
  ultimately show ?thesis by (simp add: safe_set_level)
qed

text \<open>The tail of \<open>Scheduler::Run\<close>, which deletes the thread that finished last.\<close>

lemma safe_Run_tail:
  assumes "sched_inv s" "\<not> inHandler s" "t_status (cur s) = RUNNING" "stack_ok (level s = IntOff) (t_frames (cur s))"
    "\<not> asleep (t_frames (cur s))"
  shows "safe (Run_tail s)"
proof -
  note D = sched_inv_D [OF assms(1)]
  have rest: "safe (case space (cur s) of None \<Rightarrow> Inr s1 | Some a \<Rightarrow> rbind (RestoreUserState (currentThread s) s1) (RestoreState a))"
    if "sched_inv s1" "inHandler s1 = inHandler s" "cur s1 = cur s" "level s1 = level s" for s1
    using that assms by (auto simp: kernel_inv_def RestoreUserState_def RestoreState_def split: option.split)
  show ?thesis
  proof (cases "threadToBeDestroyed s")
    case None
    then show ?thesis using rest [of s] assms(1) by (simp add: Run_tail_def)
  next
    case (Some t)
    have t: "t \<noteq> currentThread s" "live s t" "\<And>q. t \<notin> set (queue s q)"
      using running_not_destroyed [OF assms(1,3)] D(8,10) Some by auto
    define s1 where "s1 = s\<lparr>live := (live s)(t := False), threadToBeDestroyed := None\<rparr>"
    have eqs: "queue s1 = queue s" "threads s1 = threads s" "currentThread s1 = currentThread s"
      "threadToBeDestroyed s1 = None" "readyList s1 = readyList s" by (simp_all add: s1_def)
    have lv: "live s1 u \<longleftrightarrow> live s u \<and> u \<noteq> t" for u by (simp add: s1_def)
    have "sched_inv s1"
      unfolding sched_inv_def eqs lv using D(1-7,11,12) t(1,3) by blast
    moreover have "cur s1 = cur s" "inHandler s1 = inHandler s" "level s1 = level s" "currentThread s1 = currentThread s" by (simp_all add: s1_def)
    moreover have "Run_tail s = (case space (cur s) of None \<Rightarrow> Inr s1
        | Some a \<Rightarrow> rbind (RestoreUserState (currentThread s) s1) (RestoreState a))"
      using Some t by (simp add: Run_tail_def Thread_delete_def deref_def s1_def split: option.split)
    ultimately show ?thesis using rest [of s1] by simp
  qed
qed

section \<open>Interfaces: interrupt handlers and client code\<close>

text \<open>What an interrupt handler may do: it runs with interrupts off on whatever stack it finds and
  leaves the stacks and the current thread alone.\<close>

definition handled :: "('h, 'c, 'z) kernel_scheme \<Rightarrow> ('h, 'c, 'z) kernel_scheme \<Rightarrow> bool" where
  "handled s s' \<longleftrightarrow> sched_inv s' \<and> level s' = IntOff \<and> currentThread s' = currentThread s
     \<and> (\<forall>u. t_frames (threads s' u) = t_frames (threads s u))
     \<and> (t_status (cur s) = RUNNING \<longleftrightarrow> t_status (cur s') = RUNNING)"

lemma handled_simps [simp]:
  "handled (s\<lparr>inHandler := b\<rparr>) s' = handled s s'" "handled (s\<lparr>mstatus := d\<rparr>) s' = handled s s'"
  "handled (s\<lparr>stats := e\<rparr>) s' = handled s s'" "handled (s\<lparr>pending := p\<rparr>) s' = handled s s'"
  "handled (s\<lparr>k_machine := m\<rparr>) s' = handled s s'"
  "handled s (s'\<lparr>inHandler := b\<rparr>) = handled s s'" "handled s (s'\<lparr>mstatus := d\<rparr>) = handled s s'"
  "handled s (s'\<lparr>stats := e\<rparr>) = handled s s'" "handled s (s'\<lparr>pending := p\<rparr>) = handled s s'"
  "handled s (s'\<lparr>k_machine := m\<rparr>) = handled s s'" "handled s (s'\<lparr>yieldOnReturn := b\<rparr>) = handled s s'"
  by (simp_all add: handled_def)

lemma handled_refl: "sched_inv s \<Longrightarrow> level s = IntOff \<Longrightarrow> handled s s"
  by (simp add: handled_def)

locale interrupt_handlers =
  fixes fire :: "'h \<Rightarrow> ('h, 'c, 'z) kernel_scheme \<Rightarrow> ('h, 'c, 'z) kernel_scheme result"
  assumes fire_ok: "sched_inv s \<Longrightarrow> level s = IntOff \<Longrightarrow> inHandler s \<Longrightarrow>
    case fire h s of Inr s' \<Rightarrow> handled s s' | Inl e \<Rightarrow> e \<noteq> Abort"
begin

lemma delayed_load_ok:
  "case delayed_load s of Inr s' \<Rightarrow> (\<exists>m. s' = s\<lparr>k_machine := m\<rparr>) | Inl e \<Rightarrow> e \<noteq> Abort"
proof (cases "k_machine s")
  case None
  then show ?thesis by (auto simp: delayed_load_def intro: exI [of _ None])
next
  case (Some m)
  then show ?thesis by (auto simp: delayed_load_def DelayedLoad_def Let_def)
qed

lemma fire_sequence_ok:
  assumes "sched_inv s" "level s = IntOff"
  shows "case rbind (delayed_load s) (\<lambda>s. rbind (fire h (s\<lparr>inHandler := True, mstatus := SystemMode\<rparr>)) (\<lambda>s.
      Inr (True, s\<lparr>mstatus := old, inHandler := False\<rparr>))) of
    Inr (b, s') \<Rightarrow> handled s s' \<and> \<not> inHandler s' | Inl e \<Rightarrow> e \<noteq> Abort"
proof (cases "delayed_load s")
  case (Inl e)
  then show ?thesis using delayed_load_ok [of s] by simp
next
  case (Inr s1)
  then obtain m where s1: "s1 = s\<lparr>k_machine := m\<rparr>" using delayed_load_ok [of s] by auto
  let ?s2 = "s1\<lparr>inHandler := True, mstatus := SystemMode\<rparr>"
  have "case fire h ?s2 of Inr s' \<Rightarrow> handled ?s2 s' | Inl e \<Rightarrow> e \<noteq> Abort"
    using assms s1 by (intro fire_ok) simp_all
  then show ?thesis using Inr s1 by (cases "fire h ?s2") simp_all
qed

lemma CheckIfDue_ok:
  assumes "sched_inv s" "level s = IntOff" "\<not> inHandler s"
  shows "case CheckIfDue fire adv s of Inr (b, s') \<Rightarrow> handled s s' \<and> \<not> inHandler s' | Inl e \<Rightarrow> e \<noteq> Abort"
proof (cases "pending s")
  case Nil
  then show ?thesis using assms by (simp add: CheckIfDue_def handled_refl)
next
  case (Cons p rest)
  obtain w x where p: "p = (w, x)" by (cases p)
  define s1 where "s1 = (let st = stats s; s0 = s\<lparr>pending := rest\<rparr> in if adv \<and> w > totalTicks st
     then s0\<lparr>stats := st\<lparr>idleTicks := idleTicks st + (w - totalTicks st), totalTicks := w\<rparr>\<rparr> else s0)"
  have s1: "sched_inv s1" "level s1 = IntOff" "handled s1 s' = handled s s'" "mstatus s1 = mstatus s"
    "handled s s1" "inHandler s1 = inHandler s" for s'
    using assms by (simp_all add: s1_def Let_def handled_refl)
  have eq: "CheckIfDue fire adv s =
     (if \<not> adv \<and> w > totalTicks (stats s) then Inr (False, s\<lparr>pending := sorted_ins w x rest\<rparr>)
      else if mstatus s = IdleMode \<and> pi_type x = TimerInt \<and> rest = [] then Inr (False, s1\<lparr>pending := sorted_ins w x rest\<rparr>)
      else rbind (delayed_load s1) (\<lambda>s2. rbind (fire (pi_handler x) (s2\<lparr>inHandler := True, mstatus := SystemMode\<rparr>)) (\<lambda>s3.
           Inr (True, s3\<lparr>mstatus := mstatus s, inHandler := False\<rparr>))))"
    using Cons p assms(2) by (simp add: CheckIfDue_def Let_def s1_def)
  have "case rbind (delayed_load s1) (\<lambda>s2. rbind (fire (pi_handler x) (s2\<lparr>inHandler := True, mstatus := SystemMode\<rparr>)) (\<lambda>s3.
           Inr (True, s3\<lparr>mstatus := mstatus s, inHandler := False\<rparr>))) of
      Inr (b, s') \<Rightarrow> handled s s' \<and> \<not> inHandler s' | Inl e \<Rightarrow> e \<noteq> Abort"
    using fire_sequence_ok [OF s1(1,2), of "pi_handler x" "mstatus s"] unfolding s1(3) .
  then show ?thesis
    using s1(5,6) assms by (simp add: eq handled_refl)
qed

lemma safe_Idle:
  assumes "sched_inv s" "level s = IntOff" "\<not> inHandler s" "t_status (cur s) \<noteq> RUNNING"
    "t_frames (cur s) = F_SleepLoop # fs" "stack_ok True (F_SleepLoop # fs)"
  shows "safe (Idle fire s)"
proof -
  let ?s = "s\<lparr>mstatus := IdleMode\<rparr>"
  have c: "case CheckIfDue fire True ?s of Inr (b, s') \<Rightarrow> handled ?s s' \<and> \<not> inHandler s' | Inl e \<Rightarrow> e \<noteq> Abort"
    using assms by (intro CheckIfDue_ok) simp_all
  show ?thesis
  proof (cases "CheckIfDue fire True ?s")
    case (Inl e)
    with c show ?thesis by (simp add: Idle_def)
  next
    case (Inr r)
    then obtain b s' where r: "CheckIfDue fire True ?s = Inr (b, s')" by (cases r) auto
    with c have h: "sched_inv s'" "level s' = IntOff" "\<not> inHandler s'" "t_frames (cur s') = F_SleepLoop # fs"
      "t_status (cur s') \<noteq> RUNNING" using assms(4,5) by (auto simp: handled_def cur_def)
    with r assms(6) show ?thesis by (simp add: Idle_def kernel_inv_def)
  qed
qed

end

locale kernel_client = interrupt_handlers fire
  for fire :: "'h \<Rightarrow> ('h, 'c, 'z) kernel_scheme \<Rightarrow> ('h, 'c, 'z) kernel_scheme result" +
  fixes code :: "'c \<Rightarrow> ('h, 'c, 'z) kernel_scheme \<Rightarrow> ('h, 'c, 'z) kernel_scheme result"
  assumes code_ok: "calls_ok s \<Longrightarrow> safe (code c s)"
begin

text \<open>The state with the innermost frame popped.\<close>

lemma popped:
  assumes "kernel_inv s" "t_frames (cur s) = f # fs"
  defines "s0 \<equiv> set_thread (currentThread s) ((cur s)\<lparr>t_frames := fs\<rparr>) s"
  shows "sched_inv s0" "\<not> inHandler s0" "level s0 = level s" "t_frames (cur s0) = fs" "t_status (cur s0) = t_status (cur s)"
    "needs_off f \<Longrightarrow> level s = IntOff" "stack_ok (keeps_off f) fs" "follows f fs"
    "t_status (cur s) = RUNNING \<longleftrightarrow> \<not> asleep (f # fs)"
  using assms sched_inv_cur [of "(cur s)\<lparr>t_frames := fs\<rparr>" s]
  by (auto simp: kernel_inv_def cur_def set_thread_def)

lemma safe_CheckLoop:
  assumes "sched_inv s" "\<not> inHandler s" "level s = IntOff" "stack_ok True fs" "follows F_CheckLoop fs"
    "t_frames (cur s) = fs" "t_status (cur s) = RUNNING \<longleftrightarrow> \<not> asleep (F_CheckLoop # fs)"
  shows "safe (run_frame fire code F_CheckLoop s)"
proof -
  note c = CheckIfDue_ok [OF assms(1,3,2), of False]
  have sleepy: "asleep (F_CheckLoop # fs) = asleep fs" using assms(5) by (cases fs rule: asleep.cases) auto
  show ?thesis
  proof (cases "CheckIfDue fire False s")
    case (Inl e)
    with c show ?thesis by simp
  next
    case (Inr r)
    then obtain b s' where r: "CheckIfDue fire False s = Inr (b, s')" by (cases r) auto
    with c have "sched_inv s'" "level s' = IntOff" "\<not> inHandler s'" "t_frames (cur s') = fs"
      "t_status (cur s') = RUNNING \<longleftrightarrow> \<not> asleep fs" using assms(6,7) sleepy by (auto simp: handled_def cur_def)
    with r assms(4,5) sleepy show ?thesis by (simp add: kernel_inv_def)
  qed
qed

lemma safe_sleep_loop:
  assumes "sched_inv s" "\<not> inHandler s" "level s = IntOff" "stack_ok True fs" "follows F_SleepLoop fs"
    "t_frames (cur s) = fs" "t_status (cur s) \<noteq> RUNNING"
  shows "safe (sleep_loop fire s)"
proof (cases "readyList s")
  case Nil
  have "safe (Idle fire (push [F_SleepLoop] s))"
    using assms by (intro safe_Idle [where fs = fs]) simp_all
  with Nil show ?thesis by (simp add: sleep_loop_def FindNextToRun_def)
next
  case (Cons n ts)
  have "follows F_RunTail fs" using assms(5) by (rule follows_RunTail)
  with assms Cons have "safe (Run n (s\<lparr>readyList := ts\<rparr>))" by (intro safe_Run) simp_all
  with Cons show ?thesis by (simp add: sleep_loop_def FindNextToRun_def)
qed

theorem step_safe:
  assumes "kernel_inv s"
  shows "safe (kernel_step fire code s)"
proof (cases "t_frames (cur s)")
  case Nil
  then show ?thesis by (simp add: kernel_step_def)
next
  case (Cons f fs)
  define s0 where "s0 = set_thread (currentThread s) ((cur s)\<lparr>t_frames := fs\<rparr>) s"
  note p = popped [OF assms Cons, folded s0_def]
  have step: "kernel_step fire code s = run_frame fire code f s0" using Cons by (simp add: kernel_step_def s0_def)
  have call: "calls_ok s0" if "\<not> keeps_off f" "f \<noteq> F_RunTail"
    using that p by (cases f) (auto simp: calls_ok_def)
  have tail: "\<not> asleep fs" if "f \<noteq> F_CheckLoop" "f \<noteq> F_IdleTail"
    using that p(8) by (cases fs rule: asleep.cases) auto
  show ?thesis unfolding step
  proof (cases f)
    case F_CheckLoop
    with p show "safe (run_frame fire code f s0)" using safe_CheckLoop [of s0 fs] by simp
  next
    case F_SleepLoop
    with p show "safe (run_frame fire code f s0)" using safe_sleep_loop [of s0 fs] by simp
  next
    case F_RunTail
    with p tail show "safe (run_frame fire code f s0)" using safe_Run_tail [of s0] by simp
  next
    case F_IdleTail
    with p show "safe (run_frame fire code f s0)"
      by (cases fs rule: asleep.cases) (auto simp: kernel_inv_def)
  next
    case (F_TickTail m)
    then show "safe (run_frame fire code f s0)" using call
      by (auto simp: Let_def calls_ok_kernel_inv intro!: safe_Yield calls_ok_push)
  next
    case (F_P i old)
    then show "safe (run_frame fire code f s0)" using call p(3,6) by (simp add: safe_P_loop)
  qed (use call code_ok in \<open>auto simp: safe_set_level safe_Finish safe_Acquire Release_ok safe_Broadcast calls_ok_kernel_inv\<close>)
qed

end

end
