(* ===== verification/Thread_Programs.thy ===== *)
theory Thread_Programs
  imports Kernel_Inv
begin

text \<open>
  The kernel of theory \<open>Kernel\<close> closed off: the timer device (\<open>machine/timer.cc\<close>) and the device
  handlers that signal a semaphore, programs of kernel calls for its threads, the start-up of
  \<open>threads/system.cc\<close>, and the reachable states. The locales of \<open>Kernel_Inv\<close> are interpreted on
  these definitions; the properties of the scheduler hold in every reachable state.
\<close>

section \<open>Interrupt handlers\<close>

definition TimerTicks :: int where "TimerTicks = 100"

text \<open>The handlers with their arguments: a timer, and the handlers of the disk, the console and the
  network, which end in \<open>semaphore->V()\<close>.\<close>

datatype handler = TimerHandler bool | SignalHandler nat

text \<open>\<open>rnd\<close> is the value \<open>Random()\<close> returns at a given time.\<close>

definition TimeOfNextInterrupt :: "(int \<Rightarrow> nat) \<Rightarrow> bool \<Rightarrow> int \<Rightarrow> int" where
  "TimeOfNextInterrupt rnd randomize now = (if randomize then 1 + int (rnd now) mod (TimerTicks * 2) else TimerTicks)"

definition TimerInterruptHandler :: "('h, 'c, 'z) kernel_scheme \<Rightarrow> ('h, 'c, 'z) kernel_scheme result" where
  "TimerInterruptHandler s = (if mstatus s \<noteq> IdleMode then YieldOnReturn s else Inr s)"

text \<open>\<open>self\<close> is the handler with its argument, as it is scheduled again.\<close>

definition TimerExpired :: "'h \<Rightarrow> (int \<Rightarrow> nat) \<Rightarrow> bool \<Rightarrow> ('h, 'c, 'z) kernel_scheme \<Rightarrow> ('h, 'c, 'z) kernel_scheme result" where
  "TimerExpired self rnd randomize s =
     rbind (Schedule self (TimeOfNextInterrupt rnd randomize (totalTicks (stats s))) TimerInt s)
       TimerInterruptHandler"

fun fire :: "(int \<Rightarrow> nat) \<Rightarrow> handler \<Rightarrow> (handler, 'c, 'z) kernel_scheme \<Rightarrow> (handler, 'c, 'z) kernel_scheme result" where
  "fire rnd (TimerHandler randomize) s = TimerExpired (TimerHandler randomize) rnd randomize s"
| "fire rnd (SignalHandler i) s = V i s"

section \<open>Programs\<close>

datatype call = C_P nat | C_V nat | C_Acquire nat | C_Release nat | C_Wait nat nat | C_Signal nat nat
  | C_Broadcast nat nat | C_Yield | C_Fork tid "call list"

text \<open>\<open>new Thread\<close> at the unused address \<open>t\<close>.\<close>

definition new_Thread :: "tid \<Rightarrow> ('h, 'c, 'z) kernel_scheme \<Rightarrow> ('h, 'c, 'z) kernel_scheme result" where
  "new_Thread t s = (if live s t then Inl Undefined
     else Inr (set_thread t (Thread_new (\<lambda>_. 0) 0 0) (s\<lparr>live := (live s)(t := True)\<rparr>)))"

fun do_call :: "call \<Rightarrow> ('h, call list, 'z) kernel_scheme \<Rightarrow> ('h, call list, 'z) kernel_scheme result" where
  "do_call (C_P i) s = P i s"
| "do_call (C_V i) s = V i s"
| "do_call (C_Acquire l) s = Acquire l s"
| "do_call (C_Release l) s = Release l s"
| "do_call (C_Wait c l) s = Wait c (Some l) s"
| "do_call (C_Signal c l) s = Signal c (Some l) s"
| "do_call (C_Broadcast c l) s = Broadcast c l s"
| "do_call C_Yield s = Yield s"
| "do_call (C_Fork t cs) s = rbind (new_Thread t s) (Fork t cs)"

fun program :: "call list \<Rightarrow> ('h, call list, 'z) kernel_scheme \<Rightarrow> ('h, call list, 'z) kernel_scheme result" where
  "program [] s = Inr s"
| "program (c # cs) s = do_call c (push [F_Code cs] s)"

text \<open>The part of \<open>Initialize\<close> that sets up the kernel; the main thread then enables interrupts, runs
  \<open>main\<close> and finishes. The objects of \<open>synch.cc\<close> are in their constructed state, with
  \<open>owner\<close> as the constructor leaves it.\<close>

definition kernel_new :: "(nat \<Rightarrow> int) \<Rightarrow> (nat \<Rightarrow> tid option) \<Rightarrow> (nat \<Rightarrow> AddrSpace) \<Rightarrow> 'c \<Rightarrow> ('h, 'c) kernel" where
  "kernel_new semInit lockJunk spaces0 main =
     \<lparr>level = IntOff, pending = [], inHandler = False, yieldOnReturn = False, mstatus = SystemMode,
      stats = Statistics_new, k_machine = None, currentThread = 0, threadToBeDestroyed = None,
      threads = (\<lambda>t. (Thread_new (\<lambda>_. 0) 0 0)\<lparr>t_status := if t = 0 then RUNNING else JUST_CREATED,
                    t_frames := if t = 0 then [F_Enable, F_Code main, F_Finish] else []\<rparr>),
      live = (\<lambda>t. t = 0), readyList = [], semaphores = (\<lambda>i. Semaphore_new (semInit i)),
      locks = (\<lambda>l. Lock_new (lockJunk l)), conditions = (\<lambda>_. Condition_new), spaces = spaces0\<rparr>"

definition Initialize :: "(int \<Rightarrow> nat) \<Rightarrow> bool \<Rightarrow> (nat \<Rightarrow> int) \<Rightarrow> (nat \<Rightarrow> tid option) \<Rightarrow> (nat \<Rightarrow> AddrSpace) \<Rightarrow> call list \<Rightarrow>
    (handler, call list) kernel result" where
  "Initialize rnd randomYield semInit lockJunk spaces0 main =
     (let s = kernel_new semInit lockJunk spaces0 main
      in if randomYield then Schedule (TimerHandler True) (TimeOfNextInterrupt rnd True 0) TimerInt s else Inr s)"

section \<open>Reachable states\<close>

inductive reachable ::
  "('h \<Rightarrow> ('h, 'c, 'z) kernel_scheme \<Rightarrow> ('h, 'c, 'z) kernel_scheme result) \<Rightarrow>
   ('c \<Rightarrow> ('h, 'c, 'z) kernel_scheme \<Rightarrow> ('h, 'c, 'z) kernel_scheme result) \<Rightarrow>
   ('h, 'c, 'z) kernel_scheme \<Rightarrow> ('h, 'c, 'z) kernel_scheme \<Rightarrow> bool" for fire code s0 where
  start: "reachable fire code s0 s0"
| step: "reachable fire code s0 s \<Longrightarrow> kernel_step fire code s = Inr s' \<Longrightarrow> reachable fire code s0 s'"

context kernel_client
begin

lemma reachable_inv: "reachable fire code s0 s \<Longrightarrow> kernel_inv s0 \<Longrightarrow> kernel_inv s"
proof (induction rule: reachable.induct)
  case (step s s')
  then show ?case using step_safe [of s] by simp
qed

end

section \<open>The interfaces hold\<close>

lemma V_handled:
  assumes "sched_inv s" "level s = IntOff"
  obtains s' where "V i s = Inr s'" "handled s s'"
proof -
  have off: "s\<lparr>level := IntOff\<rparr> = s" using assms(2) by simp
  obtain s1 where s1: "V_body i s = Inr s1" "sched_inv s1" "currentThread s1 = currentThread s"
    "\<And>u. t_frames (threads s1 u) = t_frames (threads s u)" "t_status (cur s) = RUNNING \<Longrightarrow> cur s1 = cur s"
    "level s1 = level s" "inHandler s1 = inHandler s" "t_status (cur s1) = RUNNING \<longleftrightarrow> t_status (cur s) = RUNNING"
    by (rule V_body_ok [OF assms(1), of i]) blast
  then have "handled s s1" using assms by (simp add: handled_def)
  moreover have "set_level (level s) s1 = Inr s1"
    using assms(2) s1(6) by (simp add: set_level_def SetLevel_off)
  ultimately show ?thesis using that s1(1) off by (simp add: V_eq)
qed

lemma TimerExpired_handled:
  assumes "sched_inv s" "level s = IntOff" "inHandler s"
  shows "\<exists>s'. TimerExpired self rnd r s = Inr s' \<and> handled s s'"
proof -
  have "TimeOfNextInterrupt rnd r now > 0" for now
    by (simp add: TimeOfNextInterrupt_def TimerTicks_def add_pos_nonneg)
  then show ?thesis using assms
    by (auto simp: TimerExpired_def Schedule_def TimerInterruptHandler_def YieldOnReturn_def Let_def handled_refl)
qed

lemma calls_ok_new_Thread:
  assumes "calls_ok s" "new_Thread t s = Inr s'"
  shows "calls_ok s'" "live s' t" "t_status (threads s' t) = JUST_CREATED"
proof -
  from assms(2) have t: "\<not> live s t" and s': "s' = set_thread t (Thread_new (\<lambda>_. 0) 0 0) (s\<lparr>live := (live s)(t := True)\<rparr>)"
    by (auto simp: new_Thread_def split: if_splits)
  show "live s' t" "t_status (threads s' t) = JUST_CREATED" by (simp_all add: s' set_thread_def Thread_new_def)
  have inv: "sched_inv s" using assms(1) by (simp add: calls_ok_def)
  note D = sched_inv_D [OF inv]
  have nt: "t \<noteq> currentThread s" "\<And>q. t \<notin> set (queue s q)" "threadToBeDestroyed s \<noteq> Some t"
    using t D(1) D(3) [of t] D(8) [of t] by auto
  have eqs: "queue s' = queue s" "currentThread s' = currentThread s" "threadToBeDestroyed s' = threadToBeDestroyed s"
    by (simp_all add: s' set_thread_def)
  have th: "threads s' u = (if u = t then Thread_new (\<lambda>_. 0) 0 0 else threads s u)" "live s' u \<longleftrightarrow> live s u \<or> u = t" for u
    by (simp_all add: s' set_thread_def)
  have fr: "t_status (threads s' t) = JUST_CREATED" "t_stack (threads s' t) = None" "resumable (t_frames (threads s' t))"
    by (simp_all add: th Thread_new_def resumable_def)
  have "sched_inv s'"
  proof -
    have "live s' u \<and> t_status (threads s' u) = (if q = QReady then READY else BLOCKED)" if "u \<in> set (queue s q)" for u q
      using that nt(2) [of q] D(3,4) [of u q] by (cases "u = t") (simp_all add: th)
    moreover have "u \<in> set (readyList s')" if "live s' u" "t_status (threads s' u) = READY" for u
      using that D(6) [of u] fr(1) eqs(1) queue.simps(1) [of s'] by (cases "u = t") (auto simp: th)
    moreover have "u = currentThread s" if "live s' u" "t_status (threads s' u) = RUNNING" for u
      using that D(7) [of u] fr(1) by (cases "u = t") (auto simp: th)
    moreover have "live s' u \<and> t_status (threads s' u) = BLOCKED \<and> (\<forall>q. u \<notin> set (queue s q))"
      if "threadToBeDestroyed s = Some u" for u
      using that D(8,9) D(10) [of u] nt(3) by (cases "u = t") (simp_all add: th)
    moreover have "t_stack (threads s' u) \<noteq> Some False" "u \<noteq> currentThread s \<Longrightarrow> resumable (t_frames (threads s' u))" if "live s' u" for u
      using that D(11,12) [of u] fr(2,3) by (cases "u = t", auto simp: th)+
    ultimately show ?thesis unfolding sched_inv_def eqs using D(1,2,5) th(2) by blast
  qed
  moreover have "cur s' = cur s" using nt(1) by (simp add: cur_def eqs th)
  moreover have "inHandler s' = inHandler s" by (simp add: s' set_thread_def)
  ultimately show "calls_ok s'" using assms(1) by (simp add: calls_ok_def)
qed

lemma safe_do_call: "calls_ok s \<Longrightarrow> safe (do_call c s)"
proof (cases c)
  case (C_Fork t cs)
  assume ok: "calls_ok s"
  show ?thesis
  proof (cases "new_Thread t s")
    case (Inr s')
    with C_Fork ok show ?thesis using calls_ok_new_Thread [OF ok Inr] by (simp add: safe_Fork)
  qed (auto simp: C_Fork new_Thread_def split: if_splits)
qed (simp_all add: safe_P safe_V safe_Acquire Release_ok safe_Wait safe_Signal safe_Broadcast safe_Yield)

lemma fire_handled:
  assumes "sched_inv s" "level s = IntOff" "inHandler s"
  shows "case fire rnd h s of Inr s' \<Rightarrow> handled s s' | Inl e \<Rightarrow> e \<noteq> Abort"
proof (cases h)
  case (TimerHandler r)
  with TimerExpired_handled [OF assms, of h rnd r] show ?thesis by auto
next
  case (SignalHandler i)
  moreover obtain s' where "V i s = Inr s'" "handled s s'" using V_handled [OF assms(1,2)] .
  ultimately show ?thesis by simp
qed

lemma program_safe: "calls_ok s \<Longrightarrow> safe (program cs s)"
  by (cases cs) (simp_all add: calls_ok_kernel_inv safe_do_call calls_ok_push)

interpretation programs: kernel_client "fire rnd" program for rnd
  by (unfold_locales; fact fire_handled program_safe)

lemma Initialize_inv: "Initialize rnd r semInit junk sp main = Inr s \<Longrightarrow> kernel_inv s"
proof -
  have q: "queue (kernel_new semInit junk sp main) q = []" for q
    by (cases q) (simp_all add: kernel_new_def Semaphore_new_def Lock_new_def Condition_new_def)
  have "kernel_inv (kernel_new semInit junk sp main)"
    unfolding kernel_inv_def sched_inv_def q by (simp add: cur_def Thread_new_def kernel_new_def)
  moreover have "kernel_inv (x\<lparr>pending := p\<rparr>) = kernel_inv x" for x :: "(handler, call list) kernel" and p
    by (simp add: kernel_inv_def)
  ultimately show "Initialize rnd r semInit junk sp main = Inr s \<Longrightarrow> kernel_inv s"
    by (auto simp: Initialize_def Schedule_def Let_def rbind_eq_Inr split: if_splits)
qed

end
