(* ===== verification/Kernel_Props.thy ===== *)
theory Kernel_Props
  imports Thread_Programs
begin

text \<open>
  Properties of the kernel: of the scheduler and the synchronization objects in every reachable
  state, of locks as first-come first-served queues, of the simulated clock and the pending
  interrupts, of broadcasts on condition variables.
\<close>

section \<open>Synchronization objects\<close>

text \<open>What holds of semaphores and locks in every state: values are not negative; a lock is free
  exactly when nobody owns it, and then nobody waits for it.\<close>

definition lock_ok :: "Lock \<Rightarrow> bool" where
  "lock_ok x \<longleftrightarrow> (available x \<longleftrightarrow> owner x = None) \<and> (available x \<longrightarrow> waitingThreads x = [])"

text \<open>The clock is the sum of its parts, and the pending interrupts are sorted by their times.\<close>

definition clock_ok :: "Statistics \<Rightarrow> bool" where
  "clock_ok st \<longleftrightarrow> totalTicks st = idleTicks st + systemTicks st + userTicks st
     \<and> 0 \<le> idleTicks st \<and> 0 \<le> systemTicks st \<and> 0 \<le> userTicks st"

definition objects_ok :: "('h, 'c, 'z) kernel_scheme \<Rightarrow> bool" where
  "objects_ok s \<longleftrightarrow> (\<forall>i. 0 \<le> sem_value (semaphores s i)) \<and> (\<forall>l. lock_ok (locks s l))
     \<and> clock_ok (stats s) \<and> sorted (map fst (pending s))"

lemma objects_ok_cong: "semaphores s' = semaphores s \<Longrightarrow> locks s' = locks s \<Longrightarrow> stats s' = stats s \<Longrightarrow> pending s' = pending s
   \<Longrightarrow> objects_ok s' = objects_ok s"
  by (simp add: objects_ok_def)

lemma objects_ok_simps [simp]:
  "objects_ok (s\<lparr>level := a\<rparr>) = objects_ok s"
  "objects_ok (s\<lparr>inHandler := c\<rparr>) = objects_ok s" "objects_ok (s\<lparr>yieldOnReturn := c\<rparr>) = objects_ok s"
  "objects_ok (s\<lparr>mstatus := d\<rparr>) = objects_ok s"
  "objects_ok (s\<lparr>k_machine := f\<rparr>) = objects_ok s" "objects_ok (s\<lparr>readyList := r\<rparr>) = objects_ok s"
  "objects_ok (s\<lparr>currentThread := g\<rparr>) = objects_ok s" "objects_ok (s\<lparr>threadToBeDestroyed := h\<rparr>) = objects_ok s"
  "objects_ok (s\<lparr>live := i\<rparr>) = objects_ok s" "objects_ok (set_thread t th s) = objects_ok s"
  "objects_ok (setStatus t st s) = objects_ok s" "objects_ok (push fs s) = objects_ok s" "objects_ok (set_cond j x s) = objects_ok s"
  by (rule objects_ok_cong; simp add: set_thread_def setStatus_def push_def set_cond_def)+

lemma objects_ok_set:
  "objects_ok s \<Longrightarrow> 0 \<le> sem_value x \<Longrightarrow> objects_ok (set_sem i x s)"
  "objects_ok s \<Longrightarrow> lock_ok y \<Longrightarrow> objects_ok (set_lock l y s)"
  "objects_ok s \<Longrightarrow> clock_ok e \<Longrightarrow> objects_ok (s\<lparr>stats := e\<rparr>)"
  "objects_ok s \<Longrightarrow> sorted (map fst p) \<Longrightarrow> objects_ok (s\<lparr>pending := p\<rparr>)"
  by (auto simp: objects_ok_def set_sem_def set_lock_def)

text \<open>\<open>keeps r\<close>: if the operation returns, the objects are still in order.\<close>

definition keeps :: "('h, 'c, 'z) kernel_scheme result \<Rightarrow> bool" where
  "keeps r \<longleftrightarrow> (\<forall>s. r = Inr s \<longrightarrow> objects_ok s)"

lemma keeps_simps [simp]: "keeps (Inl e)" "keeps (Inr s) = objects_ok s"
  by (auto simp: keeps_def)

lemma keeps_rbind: "keeps r \<Longrightarrow> (\<And>s. objects_ok s \<Longrightarrow> keeps (f s)) \<Longrightarrow> keeps (rbind r f)"
  by (cases r) auto

lemma keeps_rbind_any: "(\<And>x. r = Inr x \<Longrightarrow> keeps (f x)) \<Longrightarrow> keeps (rbind r f)"
  by (cases r) auto

lemma objects_OneTick: "objects_ok s \<Longrightarrow> objects_ok (OneTick s)"
  by (auto simp: OneTick_def Let_def objects_ok_def clock_ok_def SystemTick_def UserTick_def push_def set_thread_def)

lemma objects_SetLevel: "SetLevel v s = Inr (old, s') \<Longrightarrow> objects_ok s \<Longrightarrow> objects_ok s'"
  by (auto simp: SetLevel_def objects_OneTick Let_def rbind_eq_Inr split: if_splits)

lemma keeps_basic:
  assumes "objects_ok s"
  shows "keeps (set_level v s)" "keeps (ReadyToRun t s)" "keeps (Sleep s)" "keeps (Run n s)" "keeps (Run_tail s)"
    "keeps (Schedule h d ty s)"
proof -
  show "keeps (set_level v s)" using assms objects_SetLevel by (fastforce simp: set_level_def keeps_def rbind_eq_Inr)
  show "keeps (ReadyToRun t s)" "keeps (Sleep s)" "keeps (Schedule h d ty s)"
    using assms by (auto simp: ReadyToRun_def Sleep_def Schedule_def Let_def keeps_def rbind_eq_Inr
        intro!: objects_ok_set(4) sorted_ins_sorted) (simp add: objects_ok_def)
  show "keeps (Run n s)"
    using assms by (auto simp: Run_def SaveUserState_def Let_def keeps_def rbind_eq_Inr split: if_splits option.splits)
  show "keeps (Run_tail s)"
    using assms by (auto simp: Run_tail_def Thread_delete_def RestoreUserState_def RestoreState_def keeps_def rbind_eq_Inr
        split: if_splits option.splits)
qed

lemma keeps_Yield: "objects_ok s \<Longrightarrow> keeps (Yield s)"
  by (auto simp: Yield_def SetLevel_off FindNextToRun_def keeps_basic split: list.split intro!: keeps_rbind)

lemma keeps_Finish: "objects_ok s \<Longrightarrow> keeps (Finish s)"
  by (auto simp: Finish_def keeps_basic intro!: keeps_rbind)

lemma keeps_P_loop: "objects_ok s \<Longrightarrow> keeps (P_loop i old s)"
proof -
  assume ok: "objects_ok s"
  then have "0 \<le> sem_value (semaphores s i)" by (simp add: objects_ok_def)
  with ok show ?thesis by (auto simp: P_loop_def Let_def intro!: keeps_basic objects_ok_set)
qed

lemma keeps_V: "objects_ok s \<Longrightarrow> keeps (V i s)"
proof -
  have up: "objects_ok (set_sem i ((semaphores s i)\<lparr>sem_value := sem_value (semaphores s i) + 1\<rparr>) s)"
    if "objects_ok s" for s :: "('a, 'b, 'c) kernel_scheme"
    using that objects_ok_set(1) [OF that] by (simp add: objects_ok_def)
  assume "objects_ok s"
  then show ?thesis unfolding V_def SetLevel_off
    by (auto simp: Let_def split: list.split intro!: keeps_rbind keeps_basic up objects_ok_set)
      (auto simp: objects_ok_def)
qed

lemma keeps_Acquire: "objects_ok s \<Longrightarrow> keeps (Acquire l s)"
proof -
  assume ok: "objects_ok s"
  then have "lock_ok (locks s l)" by (simp add: objects_ok_def)
  with ok show ?thesis unfolding Acquire_def SetLevel_off
    by (auto simp: Let_def lock_ok_def isHeldByCurrentThread_def intro!: keeps_basic objects_ok_set)
qed

lemma keeps_Release: "objects_ok s \<Longrightarrow> keeps (Release l s)"
proof -
  assume ok: "objects_ok s"
  then have "lock_ok (locks s l)" by (simp add: objects_ok_def)
  with ok show ?thesis unfolding Release_def SetLevel_off
    by (auto simp: Let_def lock_ok_def isHeldByCurrentThread_def split: list.split intro!: keeps_basic objects_ok_set)
qed

lemma keeps_Wait: "objects_ok s \<Longrightarrow> keeps (Wait c cl s)"
  unfolding Wait_def SetLevel_off
  by (auto simp: Let_def split: option.split intro!: keeps_basic keeps_rbind keeps_Release)

lemma keeps_Signal: "objects_ok s \<Longrightarrow> keeps (Signal c cl s)"
  unfolding Signal_def SetLevel_off
  by (auto simp: Let_def split: list.split intro!: keeps_basic keeps_rbind)

lemma keeps_Broadcast: "objects_ok s \<Longrightarrow> keeps (Broadcast c l s)"
  by (simp add: Broadcast_def keeps_Signal)

lemma keeps_fire: "objects_ok s \<Longrightarrow> keeps (fire rnd h s)"
proof (cases h)
  case (TimerHandler r)
  have "keeps (TimerInterruptHandler s')" if "objects_ok s'" for s' :: "(handler, 'a, 'b) kernel_scheme"
    using that by (auto simp: TimerInterruptHandler_def YieldOnReturn_def keeps_def rbind_eq_Inr)
  then show "objects_ok s \<Longrightarrow> ?thesis" using TimerHandler by (auto simp: TimerExpired_def intro!: keeps_rbind keeps_basic)
qed (simp add: keeps_V)

lemma CheckIfDue_objects:
  assumes "CheckIfDue (fire rnd) adv s = Inr (b, s')" "objects_ok s"
  shows "objects_ok s'"
proof -
  have fired: "objects_ok s2" if "delayed_load s0 = Inr s1" "fire rnd h (s1\<lparr>inHandler := True, mstatus := SystemMode\<rparr>) = Inr s2"
    "objects_ok s0" for s0 s1 s2 h
  proof -
    have "objects_ok s1" using that(1,3) by (auto simp: delayed_load_def rbind_eq_Inr split: option.splits)
    then have "keeps (fire rnd h (s1\<lparr>inHandler := True, mstatus := SystemMode\<rparr>))" by (intro keeps_fire) simp
    with that(2) show ?thesis by simp
  qed
  show ?thesis
  proof (cases "pending s")
    case Nil
    then show ?thesis using assms by (auto simp: CheckIfDue_def rbind_eq_Inr)
  next
    case (Cons p rest)
    obtain w x where p: "p = (w, x)" by (cases p)
    have srt: "sorted (map fst rest)" "sorted (map fst (sorted_ins w x rest))"
      using assms(2) Cons by (auto simp: objects_ok_def intro: sorted_ins_sorted)
    let ?st = "stats s"
    have "clock_ok (?st\<lparr>idleTicks := idleTicks ?st + (w - totalTicks ?st), totalTicks := w\<rparr>)" if "w > totalTicks ?st"
      using assms(2) that by (auto simp: objects_ok_def clock_ok_def)
    then show ?thesis using assms Cons p srt
      by (auto simp: CheckIfDue_def Let_def rbind_eq_Inr split: if_splits dest!: fired intro!: objects_ok_set(3,4))
  qed
qed

lemma keeps_sleep_loop: "objects_ok s \<Longrightarrow> keeps (sleep_loop (fire rnd) s)"
proof -
  assume ok: "objects_ok s"
  have "keeps (Idle (fire rnd) (push [F_SleepLoop] s))"
    using ok by (auto simp: Idle_def keeps_def rbind_eq_Inr split: if_splits dest: CheckIfDue_objects)
  with ok show ?thesis by (auto simp: sleep_loop_def FindNextToRun_def keeps_basic split: list.split)
qed

lemma keeps_do_call: "objects_ok s \<Longrightarrow> keeps (do_call c s)"
proof (cases c)
  case (C_Fork t cs)
  assume "objects_ok s"
  then have "keeps (new_Thread t s)" by (auto simp: new_Thread_def)
  moreover have "keeps (Fork t cs s')" if "objects_ok s'" for s' :: "('a, call list, 'b) kernel_scheme"
    using that by (auto simp: Fork_def deref_def SetLevel_off Let_def intro!: keeps_rbind keeps_basic)
  ultimately show ?thesis using C_Fork by (auto intro!: keeps_rbind)
qed (simp_all add: P_def SetLevel_off keeps_P_loop keeps_V keeps_Acquire keeps_Release keeps_Wait keeps_Signal keeps_Broadcast keeps_Yield)

lemma keeps_step:
  fixes s :: "(handler, call list, 'z) kernel_scheme"
  assumes ok: "objects_ok s"
  shows "keeps (kernel_step (fire rnd) program s)"
proof -
  have code: "keeps (program cs s')" if "objects_ok s'" for cs and s' :: "(handler, call list, 'z) kernel_scheme"
    using that by (cases cs) (simp_all add: keeps_do_call)
  have "keeps (run_frame (fire rnd) program f s')" if "objects_ok s'" for f and s' :: "(handler, call list, 'z) kernel_scheme"
  proof (cases f)
    case F_CheckLoop
    with that show ?thesis
      by (auto simp: keeps_def rbind_eq_Inr split: if_splits dest: CheckIfDue_objects)
  qed (use that code in \<open>auto simp: Let_def keeps_basic keeps_Yield keeps_Finish keeps_P_loop keeps_Acquire keeps_Release
        keeps_Broadcast keeps_sleep_loop\<close>)
  then show ?thesis using ok by (simp add: kernel_step_def split: list.split)
qed

lemma reachable_objects:
  "reachable (fire rnd) program s0 s \<Longrightarrow> objects_ok s0 \<Longrightarrow> objects_ok s"
proof (induction rule: reachable.induct)
  case (step s s')
  then show ?case using keeps_step [of s rnd] by simp
qed

section \<open>Locks as queues\<close>

text \<open>The specification of a lock: the line of threads that have asked for it, the holder first.\<close>

definition line :: "Lock \<Rightarrow> tid list" where
  "line x = (case owner x of None \<Rightarrow> [] | Some t \<Rightarrow> t # waitingThreads x)"

locale queue_lock =
  fixes line :: "'s \<Rightarrow> tid list" and me :: "'s \<Rightarrow> tid" and ok :: "'s \<Rightarrow> bool"
    and acquire release :: "'s \<Rightarrow> 's result" and blocked :: "'s \<Rightarrow> bool"
  assumes acquire_spec: "ok s \<Longrightarrow> me s \<notin> set (line s) \<Longrightarrow> acquire s = Inr s' \<Longrightarrow>
      line s' = line s @ [me s] \<and> (blocked s' \<longleftrightarrow> line s \<noteq> [])"
    and reacquire_spec: "ok s \<Longrightarrow> line s \<noteq> [] \<Longrightarrow> hd (line s) = me s \<Longrightarrow> acquire s = Inr s' \<Longrightarrow> line s' = line s \<and> \<not> blocked s'"
    and release_spec: "ok s \<Longrightarrow> line s \<noteq> [] \<Longrightarrow> hd (line s) = me s \<Longrightarrow> release s = Inr s' \<Longrightarrow> line s' = tl (line s)"
    and release_other: "ok s \<Longrightarrow> line s = [] \<or> hd (line s) \<noteq> me s \<Longrightarrow> release s = Inr s' \<Longrightarrow> line s' = line s"
begin

text \<open>The line after \<open>k\<close> hand-overs: the requests in the order they were made, without the first \<open>k\<close>.\<close>

lemma line_after_acquire:
  assumes "ok s" "line s = drop k asked" "k \<le> length asked" "me s \<notin> set (line s)" "acquire s = Inr s'"
  shows "line s' = drop k (asked @ [me s])"
  using acquire_spec [OF assms(1,4,5)] assms(2,3) by simp

lemma line_after_release:
  assumes "ok s" "line s = drop k asked" "line s \<noteq> []" "hd (line s) = me s" "release s = Inr s'"
  shows "line s' = drop (Suc k) asked" "Suc k \<le> length asked"
proof -
  have "line s' = tl (drop k asked)" using release_spec [OF assms(1,3,4,5)] assms(2) by simp
  then show "line s' = drop (Suc k) asked" by (simp add: drop_Suc tl_drop)
  show "Suc k \<le> length asked" using assms(2,3) by (simp add: Suc_le_eq)
qed

end

lemma locks_SetLevel: "set_level v s = Inr s' \<Longrightarrow> locks s' = locks s \<and> currentThread s' = currentThread s"
  by (auto simp: set_level_def SetLevel_def OneTick_def Let_def rbind_eq_Inr push_def set_thread_def split: if_splits)

text \<open>The caller sleeps in the wait queue: its innermost frame is the loop of \<open>Sleep\<close>.\<close>

definition sleeps :: "('h, 'c, 'z) kernel_scheme \<Rightarrow> bool" where
  "sleeps s \<longleftrightarrow> t_status (cur s) = BLOCKED"

lemma set_level_awake: "set_level v s = Inr s' \<Longrightarrow> t_status (cur s') = t_status (cur s)"
  by (auto simp: set_level_def SetLevel_def OneTick_def Let_def rbind_eq_Inr split: if_splits)

lemma Acquire_line:
  assumes "calls_ok s" "lock_ok (locks s l)" "Acquire l s = Inr s'"
  shows "currentThread s \<notin> set (line (locks s l)) \<Longrightarrow>
      line (locks s' l) = line (locks s l) @ [currentThread s] \<and> (sleeps s' \<longleftrightarrow> line (locks s l) \<noteq> [])"
    "line (locks s l) \<noteq> [] \<Longrightarrow> hd (line (locks s l)) = currentThread s \<Longrightarrow>
      line (locks s' l) = line (locks s l) \<and> \<not> sleeps s'"
proof -
  note ok = assms(2)
  have run: "t_status (cur s) = RUNNING" using assms(1) by (simp add: calls_ok_def)
  let ?s = "s\<lparr>level := IntOff\<rparr>" and ?x = "locks s l"
  assume n: "currentThread s \<notin> set (line ?x)"
  then have nh: "\<not> isHeldByCurrentThread l ?s" by (auto simp: isHeldByCurrentThread_def line_def)
  show "line (locks s' l) = line ?x @ [currentThread s] \<and> (sleeps s' \<longleftrightarrow> line ?x \<noteq> [])"
  proof (cases "available ?x")
    case True
    let ?s1 = "set_lock l (?x\<lparr>available := False, owner := Some (currentThread s)\<rparr>) ?s"
    have "set_level (level s) ?s1 = Inr s'"
      using assms(3) nh True by (simp add: Acquire_def SetLevel_off Let_def)
    from locks_SetLevel [OF this] set_level_awake [OF this] run ok True show ?thesis
      by (simp add: line_def lock_ok_def sleeps_def set_lock_def cur_def)
  next
    case False
    then obtain t where "owner ?x = Some t" using ok by (auto simp: lock_ok_def)
    moreover have "s' = push [F_SleepLoop] (setStatus (currentThread s) BLOCKED (push [F_SetLevel (level s)]
        (set_lock l (?x\<lparr>waitingThreads := waitingThreads ?x @ [currentThread s]\<rparr>) ?s)))"
      using assms(3) nh False by (simp add: Acquire_def SetLevel_off Let_def Sleep_def)
    ultimately show ?thesis
      by (simp add: line_def sleeps_def set_lock_def push_def setStatus_def set_thread_def cur_def)
  qed
next
  assume "line (locks s l) \<noteq> []" "hd (line (locks s l)) = currentThread s"
  then have "isHeldByCurrentThread l (s\<lparr>level := IntOff\<rparr>)"
    by (auto simp: isHeldByCurrentThread_def line_def split: option.splits)
  then have "set_level (level s) (s\<lparr>level := IntOff\<rparr>) = Inr s'"
    using assms(3) by (simp add: Acquire_def SetLevel_off Let_def)
  from locks_SetLevel [OF this] set_level_awake [OF this] assms(1)
  show "line (locks s' l) = line (locks s l) \<and> \<not> sleeps s'" by (simp add: sleeps_def calls_ok_def)
qed

lemma Release_line:
  assumes "lock_ok (locks s l)" "Release l s = Inr s'"
  shows "line (locks s l) \<noteq> [] \<Longrightarrow> hd (line (locks s l)) = currentThread s \<Longrightarrow> line (locks s' l) = tl (line (locks s l))"
    "line (locks s l) = [] \<or> hd (line (locks s l)) \<noteq> currentThread s \<Longrightarrow> line (locks s' l) = line (locks s l)"
proof -
  let ?s = "s\<lparr>level := IntOff\<rparr>" and ?x = "locks s l"
  assume h: "line ?x \<noteq> []" "hd (line ?x) = currentThread s"
  then have held: "isHeldByCurrentThread l ?s" by (auto simp: isHeldByCurrentThread_def line_def split: option.splits)
  show "line (locks s' l) = tl (line ?x)"
    using assms(2) held h
    by (auto simp: Release_def SetLevel_off Let_def ReadyToRun_def rbind_eq_Inr line_def set_lock_def setStatus_def set_thread_def
        split: list.splits option.splits)
next
  assume "line (locks s l) = [] \<or> hd (line (locks s l)) \<noteq> currentThread s"
  then have "\<not> isHeldByCurrentThread l (s\<lparr>level := IntOff\<rparr>)"
    by (auto simp: isHeldByCurrentThread_def line_def)
  then have "set_level (level s) (s\<lparr>level := IntOff\<rparr>) = Inr s'"
    using assms(2) by (simp add: Release_def SetLevel_off Let_def)
  from locks_SetLevel [OF this] show "line (locks s' l) = line (locks s l)" by simp
qed

interpretation klock: queue_lock "\<lambda>s :: ('h, 'c, 'z) kernel_scheme. line (locks s l)" currentThread
  "\<lambda>s. calls_ok s \<and> objects_ok s" "Acquire l" "Release l" sleeps for l
proof (unfold_locales, goal_cases)
  case (1 s s')
  then show ?case using Acquire_line(1) [of s l s'] by (simp add: objects_ok_def)
next
  case (2 s s')
  then show ?case using Acquire_line(2) [of s l s'] by (simp add: objects_ok_def)
next
  case (3 s s')
  then show ?case using Release_line(1) [of s l s'] by (simp add: objects_ok_def)
next
  case (4 s s')
  then show ?case using Release_line(2) [of s l s'] by (simp add: objects_ok_def)
qed

text \<open>A history of one lock: the threads that have called \<open>Acquire\<close> and had to get in line, in order,
  and how many times the lock was given up. Between two calls anything may happen that does
  not touch the lock.\<close>

inductive lock_history :: "nat \<Rightarrow> ('h, 'c, 'z) kernel_scheme \<Rightarrow> tid list \<Rightarrow> nat \<Rightarrow> bool" for l where
  unused: "line (locks s l) = [] \<Longrightarrow> lock_history l s [] 0"
| other: "lock_history l s asked k \<Longrightarrow> locks s' l = locks s l \<Longrightarrow> lock_history l s' asked k"
| ask: "lock_history l s asked k \<Longrightarrow> calls_ok s \<Longrightarrow> objects_ok s \<Longrightarrow> currentThread s \<notin> set (line (locks s l)) \<Longrightarrow>
     Acquire l s = Inr s' \<Longrightarrow> lock_history l s' (asked @ [currentThread s]) k"
| again: "lock_history l s asked k \<Longrightarrow> calls_ok s \<Longrightarrow> objects_ok s \<Longrightarrow> isHeldByCurrentThread l s \<Longrightarrow>
     Acquire l s = Inr s' \<Longrightarrow> lock_history l s' asked k"
| give: "lock_history l s asked k \<Longrightarrow> calls_ok s \<Longrightarrow> objects_ok s \<Longrightarrow> isHeldByCurrentThread l s \<Longrightarrow>
     Release l s = Inr s' \<Longrightarrow> lock_history l s' asked (Suc k)"
| refused: "lock_history l s asked k \<Longrightarrow> calls_ok s \<Longrightarrow> objects_ok s \<Longrightarrow> \<not> isHeldByCurrentThread l s \<Longrightarrow>
     Release l s = Inr s' \<Longrightarrow> lock_history l s' asked k"

lemma held_line: "isHeldByCurrentThread l s \<longleftrightarrow> line (locks s l) \<noteq> [] \<and> hd (line (locks s l)) = currentThread s"
  by (auto simp: isHeldByCurrentThread_def line_def split: option.splits)

lemma lock_history_line:
  "lock_history l s asked k \<Longrightarrow> line (locks s l) = drop k asked \<and> k \<le> length asked"
proof (induction rule: lock_history.induct)
  case (ask s asked k s')
  then show ?case using klock.line_after_acquire [of s l k asked s'] by simp
next
  case (again s asked k s')
  then show ?case using klock.reacquire_spec [of s l s'] by (simp add: held_line)
next
  case (give s asked k s')
  then show ?case using klock.line_after_release [of s l k asked s'] by (simp add: held_line)
next
  case (refused s asked k s')
  then show ?case using klock.release_other [of s l s'] by (auto simp: held_line)
qed simp_all

section \<open>Several steps\<close>

fun steps ::
  "('h \<Rightarrow> ('h, 'c, 'z) kernel_scheme \<Rightarrow> ('h, 'c, 'z) kernel_scheme result) \<Rightarrow>
   ('c \<Rightarrow> ('h, 'c, 'z) kernel_scheme \<Rightarrow> ('h, 'c, 'z) kernel_scheme result) \<Rightarrow>
   nat \<Rightarrow> ('h, 'c, 'z) kernel_scheme \<Rightarrow> ('h, 'c, 'z) kernel_scheme result" where
  "steps hf cf 0 s = Inr s"
| "steps hf cf (Suc n) s = rbind (kernel_step hf cf s) (steps hf cf n)"

lemma steps_reachable: "steps hf cf n s = Inr s' \<Longrightarrow> reachable hf cf s0 s \<Longrightarrow> reachable hf cf s0 s'"
  by (induction n arbitrary: s) (auto simp: rbind_eq_Inr intro: reachable.step)

lemma run_reachable:
  assumes "\<not> isl (rbind start (steps hf cf n))"
  obtains s0 where "start = Inr s0" "reachable hf cf s0 (projr (rbind start (steps hf cf n)))"
proof (cases start)
  case (Inr s0)
  from assms obtain s where s: "steps hf cf n s0 = Inr s" unfolding Inr rbind_Inr by (cases "steps hf cf n s0") auto
  have "projr (rbind start (steps hf cf n)) = s" unfolding Inr rbind_Inr s by simp
  with Inr s steps_reachable reachable.start that show ?thesis by blast
next
  case (Inl e)
  from assms show ?thesis unfolding Inl rbind_Inl by simp
qed

section \<open>Broadcast\<close>

lemma cond_set [simp]: "conditions (set_cond c x s) = (conditions s)(c := x)"
  by (simp add: set_cond_def)

lemma push_pop:
  assumes "t_frames (cur s) = f # fs"
  shows "push [f] (set_thread (currentThread s) ((cur s)\<lparr>t_frames := fs\<rparr>) s) = s"
proof -
  have "(cur s)\<lparr>t_frames := f # fs\<rparr> = cur s" using assms by (cases "cur s") simp
  then have "(threads s)(currentThread s := (cur s)\<lparr>t_frames := f # fs\<rparr>) = threads s"
    by (simp add: cur_def)
  then show ?thesis by (simp add: push_def set_thread_def cur_def)
qed

lemma Condition_update: "x\<lparr>waitingCV := a, waitingLock := b\<rparr> = \<lparr>waitingLock = b, waitingCV = a\<rparr>" for x :: Condition
  by (cases x) simp

lemma popped_simps [simp]:
  "conditions (set_thread t th s) = conditions s" "locks (set_thread t th s) = locks s"
  "currentThread (set_thread t th s) = currentThread s" "level (set_thread t th s) = level s"
  "conditions (setStatus t st s) = conditions s"
  by (simp_all add: set_thread_def setStatus_def)

text \<open>What one round of the loop does: it wakes the first waiter; when interrupts were on, \<open>Signal\<close>
  turns them on again, which is a clock tick.\<close>

definition woken :: "nat \<Rightarrow> nat \<Rightarrow> ('h, 'c, 'z) kernel_scheme \<Rightarrow> ('h, 'c, 'z) kernel_scheme" where
  "woken c l s = (case waitingCV (conditions s c) of [] \<Rightarrow> s
     | t # ts \<Rightarrow> (setStatus t READY (set_cond c \<lparr>waitingLock = if ts = [] then None else Some l, waitingCV = ts\<rparr> s))
         \<lparr>readyList := readyList s @ [t]\<rparr>)"

lemma broadcast_round:
  assumes "t_frames (cur s) = F_Broadcast c l # fs" "waitingCV (conditions s c) = t # ts"
    "waitingLock (conditions s c) = Some l" "live s t" "\<not> inHandler s"
  shows "kernel_step hf cf s = Inr (if level s = IntOff then woken c l s else OneTick (woken c l s))"
proof -
  have "kernel_step hf cf s = Signal c (Some l) s"
    using assms(1,2) push_pop [OF assms(1)] by (simp add: kernel_step_def Broadcast_def)
  also have "\<dots> = set_level (level s) ((woken c l s)\<lparr>level := IntOff\<rparr>)"
    using assms(2-4)
    by (simp add: Signal_def SetLevel_off ReadyToRun_def deref_def woken_def Let_def Condition_update setStatus_def set_thread_def set_cond_def)
      (auto intro!: arg_cong [where f = "set_level (level s)"] kernel.equality)
  also have "\<dots> = Inr (if level s = IntOff then woken c l s else OneTick (woken c l s))"
  proof (cases "level s")
    case IntOff
    then have "(woken c l s)\<lparr>level := IntOff\<rparr> = woken c l s" using assms(2) by (simp add: woken_def)
    with IntOff show ?thesis by (simp add: set_level_def SetLevel_off)
  next
    case IntOn
    with assms(2,5) show ?thesis
      by (simp add: set_level_def SetLevel_def woken_def setStatus_def set_thread_def set_cond_def Let_def OneTick_def push_def cur_def)
  qed
  finally show ?thesis .
qed

lemma woken_simps:
  assumes "waitingCV (conditions s c) = t # ts"
  shows "waitingCV (conditions (woken c l s) c) = ts" "readyList (woken c l s) = readyList s @ [t]"
    "waitingLock (conditions (woken c l s) c) = (if ts = [] then None else Some l)" "live (woken c l s) = live s"
    "t_status (threads (woken c l s) u) = (if u = t then READY else t_status (threads s u))"
    "t_frames (threads (woken c l s) u) = t_frames (threads s u)"
    "currentThread (woken c l s) = currentThread s" "inHandler (woken c l s) = inHandler s" "level (woken c l s) = level s"
    "mstatus (woken c l s) = mstatus s" "pending (woken c l s) = pending s" "stats (woken c l s) = stats s"
    "yieldOnReturn (woken c l s) = yieldOnReturn s"
  using assms by (simp_all add: woken_def setStatus_def set_thread_def set_cond_def)

lemma OneTick_simps:
  "conditions (OneTick s) = conditions s" "readyList (OneTick s) = readyList s" "live (OneTick s) = live s"
  "t_status (threads (OneTick s) u) = t_status (threads s u)" "currentThread (OneTick s) = currentThread s"
  "t_frames (threads (OneTick s) u) = (if u = currentThread s then F_CheckLoop # F_TickTail (mstatus s) # t_frames (cur s) else t_frames (threads s u))"
  "inHandler (OneTick s) = inHandler s" "level (OneTick s) = IntOff" "mstatus (OneTick s) = mstatus s"
  "pending (OneTick s) = pending s" "yieldOnReturn (OneTick s) = yieldOnReturn s"
  "totalTicks (stats (OneTick s)) = totalTicks (stats s) + (if mstatus s = SystemMode then SystemTick else UserTick)"
  by (simp_all add: OneTick_def push_def set_thread_def cur_def Let_def)

text \<open>A clock tick at which no interrupt is due and no switch is asked for ends after two steps and
  changes nothing but the order of equal entries of the pending list.\<close>

lemma idle_tick:
  fixes s :: "('h, 'c, 'z) kernel_scheme"
  assumes "t_frames (cur s) = F_CheckLoop # F_TickTail m # fs" "level s = IntOff" "\<not> yieldOnReturn s"
    "\<forall>x \<in> set (pending s). totalTicks (stats s) < fst x"
  obtains p where "steps hf cf 2 s = Inr ((set_thread (currentThread s) ((cur s)\<lparr>t_frames := fs\<rparr>) s)\<lparr>level := IntOn, pending := p\<rparr>)"
    "set p = set (pending s)"
proof -
  obtain p where p: "CheckIfDue hf False s0 = Inr (False, s0\<lparr>pending := p\<rparr>)" "set p = set (pending s)"
    if "level s0 = IntOff" "pending s0 = pending s" "stats s0 = stats s" for s0 :: "('h, 'c, 'z) kernel_scheme"
  proof (cases "pending s")
    case Nil
    show ?thesis by (rule that [of "[]"]) (simp_all add: CheckIfDue_def Nil Let_def)
  next
    case (Cons e rest)
    show ?thesis by (rule that [of "sorted_ins (fst e) (snd e) rest"]) (use assms(4) Cons in \<open>simp_all add: CheckIfDue_def Let_def case_prod_beta\<close>)
  qed
  have st: "kernel_step hf cf s = Inr ((set_thread (currentThread s) ((cur s)\<lparr>t_frames := F_TickTail m # fs\<rparr>) s)\<lparr>pending := p\<rparr>)"
    using assms(1,2) by (simp add: kernel_step_def p(1) set_thread_def)
  show ?thesis
    by (rule that [of p]) (use assms st p(2) [OF assms(2) refl refl] in \<open>simp_all add: numeral_2_eq_2 kernel_step_def set_thread_def cur_def Let_def\<close>)
qed

lemma steps_add: "steps hf cf (m + n) s = rbind (steps hf cf m s) (steps hf cf n)"
  by (induction m arbitrary: s) (auto simp: rbind_def split: sum.splits)

text \<open>Nothing disturbs the loop for \<open>n\<close> rounds: interrupts are off, or no interrupt is due in the
  next \<open>n\<close> ticks and no switch is asked for.\<close>

definition undisturbed :: "nat \<Rightarrow> ('h, 'c, 'z) kernel_scheme \<Rightarrow> bool" where
  "undisturbed n s \<longleftrightarrow> level s = IntOff
     \<or> (\<not> yieldOnReturn s \<and> (\<forall>x \<in> set (pending s). totalTicks (stats s) + int n * SystemTick < fst x))"

definition round_steps :: "IntStatus \<Rightarrow> nat" where
  "round_steps l = (if l = IntOff then 1 else 3)"

lemma broadcast_rounds:
  assumes "t_frames (cur s) = F_Broadcast c l # fs" "waitingCV (conditions s c) = ts"
    "ts \<noteq> [] \<longrightarrow> waitingLock (conditions s c) = Some l" "\<forall>t \<in> set ts. live s t" "currentThread s \<notin> set ts" "distinct ts"
    "\<not> inHandler s" "undisturbed (length ts) s"
  shows "\<exists>s'. steps hf cf (length ts * round_steps (level s) + 1) s = Inr s' \<and> t_frames (cur s') = fs \<and> waitingCV (conditions s' c) = []
    \<and> level s' = level s \<and> currentThread s' = currentThread s
    \<and> readyList s' = readyList s @ ts \<and> (\<forall>t. t_status (threads s' t) = (if t \<in> set ts then READY else t_status (threads s t)))"
  using assms
proof (induction ts arbitrary: s)
  case Nil
  then have "kernel_step hf cf s = Inr (set_thread (currentThread s) ((cur s)\<lparr>t_frames := fs\<rparr>) s)"
    by (simp add: kernel_step_def Broadcast_def)
  with Nil show ?case by (simp add: set_thread_def cur_def)
next
  case (Cons t ts)
  note w = woken_simps [OF Cons.prems(2)]
  have first: "kernel_step hf cf s = Inr (if level s = IntOff then woken c l s else OneTick (woken c l s))"
    by (rule broadcast_round [OF Cons.prems(1,2)]) (use Cons.prems(3-7) in simp_all)
  obtain s1 where s1: "steps hf cf (round_steps (level s)) s = Inr s1" "t_frames (cur s1) = F_Broadcast c l # fs"
      "conditions s1 = conditions (woken c l s)" "live s1 = live s" "currentThread s1 = currentThread s" "inHandler s1 = inHandler s"
      "level s1 = level s" "readyList s1 = readyList s @ [t]" "undisturbed (length ts) s1"
      "\<forall>u. t_status (threads s1 u) = (if u = t then READY else t_status (threads s u))"
  proof (cases "level s")
    case IntOff
    show ?thesis by (rule that [of "woken c l s"]) (use first IntOff Cons.prems(1) in \<open>simp_all add: w round_steps_def undisturbed_def cur_def\<close>)
  next
    case IntOn
    let ?s = "OneTick (woken c l s)"
    have far: "\<forall>x \<in> set (pending s). totalTicks (stats s) + int (Suc (length ts)) * SystemTick < fst x" "\<not> yieldOnReturn s"
      using Cons.prems(8) IntOn by (simp_all add: undisturbed_def)
    have le: "totalTicks (stats ?s) \<le> totalTicks (stats s) + SystemTick" by (simp add: OneTick_simps w SystemTick_def UserTick_def)
    have far': "totalTicks (stats ?s) + int (length ts) * SystemTick < fst x" if "x \<in> set (pending s)" for x
      using le bspec [OF far(1) that] by (simp add: algebra_simps)
    have "0 \<le> int (length ts) * SystemTick" by (simp add: SystemTick_def)
    with far' have due: "\<forall>x \<in> set (pending ?s). totalTicks (stats ?s) < fst x" by (force simp: OneTick_simps w)
    have fr: "t_frames (cur ?s) = F_CheckLoop # F_TickTail (mstatus s) # F_Broadcast c l # fs" "level ?s = IntOff" "\<not> yieldOnReturn ?s"
      using Cons.prems(1) far(2) by (simp_all add: OneTick_simps w cur_def)
    obtain p where p: "steps hf cf 2 ?s = Inr ((set_thread (currentThread ?s) ((cur ?s)\<lparr>t_frames := F_Broadcast c l # fs\<rparr>) ?s)\<lparr>level := IntOn, pending := p\<rparr>)"
        "set p = set (pending ?s)"
      using idle_tick [OF fr due] .
    have "steps hf cf 3 s = steps hf cf 2 ?s" using first IntOn by (simp add: numeral_3_eq_3 numeral_2_eq_2)
    with p far' far(2) IntOn show ?thesis
      by (intro that [of "(set_thread (currentThread ?s) ((cur ?s)\<lparr>t_frames := F_Broadcast c l # fs\<rparr>) ?s)\<lparr>level := IntOn, pending := p\<rparr>"])
        (simp_all add: round_steps_def undisturbed_def OneTick_simps w set_thread_def cur_def)
  qed
  have "\<exists>s'. steps hf cf (length ts * round_steps (level s1) + 1) s1 = Inr s' \<and> t_frames (cur s') = fs \<and> waitingCV (conditions s' c) = []
    \<and> level s' = level s1 \<and> currentThread s' = currentThread s1
    \<and> readyList s' = readyList s1 @ ts \<and> (\<forall>u. t_status (threads s' u) = (if u \<in> set ts then READY else t_status (threads s1 u)))"
    by (rule Cons.IH) (use Cons.prems s1 in \<open>simp_all add: w\<close>)
  moreover have "steps hf cf (length (t # ts) * round_steps (level s) + 1) s = steps hf cf (length ts * round_steps (level s1) + 1) s1"
    using steps_add [of hf cf "round_steps (level s)" "length ts * round_steps (level s) + 1" s] s1(1,7) by (simp add: algebra_simps)
  ultimately show ?case using s1 Cons.prems(6) by auto
qed

section \<open>The loop over the pending interrupts\<close>

definition due :: "('h, 'c, 'z) kernel_scheme \<Rightarrow> nat" where
  "due s = length (filter (\<lambda>(w, _). w \<le> totalTicks (stats s)) (pending s))"

definition loadable :: "('h, 'c, 'z) kernel_scheme \<Rightarrow> bool" where
  "loadable s \<longleftrightarrow> (\<forall>m. k_machine s = Some m \<longrightarrow> unat (registers m LoadReg) < NumTotalRegs)"

lemma filter_sorted_ins: "\<not> Q (w, x) \<Longrightarrow> filter Q (sorted_ins w x xs) = filter Q xs"
  by (induction w x xs rule: sorted_ins.induct) auto

lemma V_frame:
  assumes "V i s = Inr s'" "level s = IntOff"
  shows "stats s' = stats s" "k_machine s' = k_machine s" "pending s' = pending s" "mstatus s' = mstatus s"
  using assms by (auto simp: V_def SetLevel_off set_level_def ReadyToRun_def rbind_eq_Inr Let_def set_sem_def setStatus_def set_thread_def
      split: list.splits)

lemma fire_frame:
  assumes "fire rnd h s = Inr s'" "level s = IntOff"
  shows "stats s' = stats s" "k_machine s' = k_machine s"
    "pending s' = pending s \<or> (\<exists>w x. w > totalTicks (stats s) \<and> pending s' = sorted_ins w x (pending s))"
proof -
  have "stats s' = stats s \<and> k_machine s' = k_machine s \<and>
     (pending s' = pending s \<or> (\<exists>w x. w > totalTicks (stats s) \<and> pending s' = sorted_ins w x (pending s)))"
  proof (cases h)
    case (TimerHandler r)
    let ?d = "TimeOfNextInterrupt rnd r (totalTicks (stats s))"
    let ?p = "sorted_ins (totalTicks (stats s) + ?d) \<lparr>pi_handler = TimerHandler r, pi_when = totalTicks (stats s) + ?d, pi_type = TimerInt\<rparr> (pending s)"
    from TimerHandler assms have "?d > 0" "stats s' = stats s" "k_machine s' = k_machine s" "pending s' = ?p"
      by (auto simp: TimerExpired_def Schedule_def TimerInterruptHandler_def YieldOnReturn_def rbind_eq_Inr Let_def split: if_splits)
    then show ?thesis by (metis less_add_same_cancel1)
  next
    case (SignalHandler i)
    with assms V_frame [of i s s'] show ?thesis by simp
  qed
  then show "stats s' = stats s" "k_machine s' = k_machine s"
    "pending s' = pending s \<or> (\<exists>w x. w > totalTicks (stats s) \<and> pending s' = sorted_ins w x (pending s))" by blast+
qed

lemma fire_due:
  assumes "fire rnd h s = Inr s'" "level s = IntOff"
  shows "due s' = due s"
  using fire_frame [OF assms] by (auto simp: due_def filter_sorted_ins)

text \<open>Everything the loop over the pending interrupts relies on.\<close>

definition loop_ok :: "('h, 'c, 'z) kernel_scheme \<Rightarrow> bool" where
  "loop_ok s \<longleftrightarrow> sched_inv s \<and> level s = IntOff \<and> \<not> inHandler s \<and> mstatus s \<noteq> IdleMode \<and> loadable s \<and> sorted (map fst (pending s))"

lemma CheckIfDue_none:
  assumes "loop_ok s" "due s = 0"
  shows "\<exists>p. CheckIfDue (fire rnd) False s = Inr (False, s\<lparr>pending := p\<rparr>) \<and> due (s\<lparr>pending := p\<rparr>) = 0 \<and> sorted (map fst p)"
proof (cases "pending s")
  case Nil
  then have "s\<lparr>pending := []\<rparr> = s" by simp
  with Nil assms show ?thesis by (intro exI [of _ "[]"]) (simp add: CheckIfDue_def loop_ok_def due_def)
next
  case (Cons q rest)
  obtain w x where q: "q = (w, x)" by (cases q)
  have w: "w > totalTicks (stats s)" using assms(2) Cons q by (auto simp: due_def split: if_splits)
  have r: "filter (\<lambda>(w, _). w \<le> totalTicks (stats s)) rest = []" using assms(2) Cons q w by (simp add: due_def)
  have "sorted (map fst (sorted_ins w x rest))" using assms(1) Cons by (auto simp: loop_ok_def intro: sorted_ins_sorted)
  moreover have "due (s\<lparr>pending := sorted_ins w x rest\<rparr>) = 0" using w r by (simp add: due_def filter_sorted_ins)
  ultimately show ?thesis using Cons q w assms(1) by (auto simp: CheckIfDue_def loop_ok_def Let_def)
qed

lemma fire_succeeds:
  assumes "sched_inv s" "level s = IntOff" "inHandler s"
  obtains s' where "fire rnd h s = Inr s'" "handled s s'"
proof (cases h)
  case (TimerHandler r)
  with TimerExpired_handled [OF assms, of h rnd r] that show ?thesis by auto
next
  case (SignalHandler i)
  obtain s' where "V i s = Inr s'" "handled s s'" using V_handled [OF assms(1,2)] .
  with SignalHandler that show ?thesis by simp
qed

lemma due_first:
  assumes "due s = Suc n" "sorted (map fst (pending s))"
  obtains w x rest where "pending s = (w, x) # rest" "w \<le> totalTicks (stats s)" "due (s\<lparr>pending := rest\<rparr>) = n"
proof -
  obtain w x rest where p: "pending s = (w, x) # rest" using assms(1) by (cases "pending s") (auto simp: due_def)
  have w: "w \<le> totalTicks (stats s)"
  proof (rule ccontr)
    assume "\<not> w \<le> totalTicks (stats s)"
    then have "\<forall>y \<in> set (pending s). \<not> fst y \<le> totalTicks (stats s)" using assms(2) p by auto
    then have "due s = 0" by (auto simp: due_def filter_empty_conv case_prod_beta)
    then show False using assms(1) by simp
  qed
  then have "due (s\<lparr>pending := rest\<rparr>) = n" using assms(1) p by (simp add: due_def)
  with that p w show ?thesis by blast
qed

lemma CheckIfDue_fires:
  assumes "loop_ok s" "due s = Suc n"
  obtains s' where "CheckIfDue (fire rnd) False s = Inr (True, s')" "loop_ok s'" "due s' = n" "stats s' = stats s"
    "t_frames (cur s') = t_frames (cur s)" "currentThread s' = currentThread s" "mstatus s' = mstatus s"
proof -
  have ck: "sched_inv s" "level s = IntOff" "\<not> inHandler s" "mstatus s \<noteq> IdleMode" "loadable s" "sorted (map fst (pending s))"
    using assms(1) by (simp_all add: loop_ok_def)
  obtain w x rest where p: "pending s = (w, x) # rest" "w \<le> totalTicks (stats s)" "due (s\<lparr>pending := rest\<rparr>) = n"
    using due_first [OF assms(2) ck(6)] .
  obtain m where dl: "delayed_load (s\<lparr>pending := rest\<rparr>) = Inr (s\<lparr>pending := rest, k_machine := m\<rparr>)"
      and m: "\<forall>m'. m = Some m' \<longrightarrow> unat (registers m' LoadReg) < NumTotalRegs"
  proof (cases "k_machine s")
    case None
    then show ?thesis by (intro that [of None]) (simp_all add: delayed_load_def)
  next
    case (Some m0)
    with ck(5) have ok: "unat (registers m0 LoadReg) < NumTotalRegs" by (simp add: loadable_def)
    with that Some show ?thesis by (auto simp: delayed_load_def DelayedLoad_def Let_def)
  qed
  let ?s2 = "s\<lparr>pending := rest, k_machine := m, inHandler := True, mstatus := SystemMode\<rparr>"
  obtain s3 where s3: "fire rnd (pi_handler x) ?s2 = Inr s3" "handled ?s2 s3"
    by (rule fire_succeeds [of ?s2 rnd "pi_handler x"]) (use ck in simp_all)
  have fr: "stats s3 = stats s" "k_machine s3 = m" "due s3 = n" "sorted (map fst (pending s3))"
    using fire_frame [OF s3(1)] fire_due [OF s3(1)] ck p by (auto simp: due_def intro: sorted_ins_sorted)
  let ?s' = "s3\<lparr>mstatus := mstatus s, inHandler := False\<rparr>"
  show ?thesis
  proof (rule that [of ?s'])
    show "CheckIfDue (fire rnd) False s = Inr (True, ?s')"
      using p ck(2,4) dl s3(1) by (simp add: CheckIfDue_def Let_def)
    show "loop_ok ?s'" using s3(2) ck fr m by (simp add: loop_ok_def handled_def loadable_def)
  qed (use fr s3(2) in \<open>simp_all add: handled_def due_def cur_def\<close>)
qed

lemma loop_ok_frames:
  "loop_ok (set_thread (currentThread s) ((cur s)\<lparr>t_frames := fs\<rparr>) s) = loop_ok s"
  "loop_ok (push gs s) = loop_ok s"
proof -
  have "sched_inv (set_thread (currentThread s) ((cur s)\<lparr>t_frames := fs\<rparr>) s) = sched_inv s" by (rule sched_inv_cur) simp_all
  moreover have "loadable (set_thread t th s) = loadable s" "inHandler (set_thread t th s) = inHandler s"
    "mstatus (set_thread t th s) = mstatus s" "pending (set_thread t th s) = pending s" for t th
    by (simp_all add: loadable_def set_thread_def)
  ultimately show "loop_ok (set_thread (currentThread s) ((cur s)\<lparr>t_frames := fs\<rparr>) s) = loop_ok s" "loop_ok (push gs s) = loop_ok s"
    using sched_inv_push [of gs s] by (simp_all add: loop_ok_def push_def)
qed

lemma due_frames: "due (set_thread t th s) = due s" "due (push gs s) = due s"
  by (simp_all add: due_def push_def set_thread_def)

lemma cur_set_thread: "cur (set_thread (currentThread s) th s) = th"
  by (simp add: cur_def set_thread_def)

lemma check_loop:
  assumes "loop_ok s" "t_frames (cur s) = F_CheckLoop # fs" "due s = n"
  shows "\<exists>s'. steps (fire rnd) cf (n + 1) s = Inr s' \<and> due s' = 0 \<and> t_frames (cur s') = fs \<and> stats s' = stats s
    \<and> currentThread s' = currentThread s \<and> mstatus s' = mstatus s"
  using assms
proof (induction n arbitrary: s)
  let ?pop = "\<lambda>s. set_thread (currentThread s) ((cur s)\<lparr>t_frames := fs\<rparr>) s"
  have frame: "stats (set_thread t th x) = stats x" "mstatus (set_thread t th x) = mstatus x" for t th and x :: "(handler, 'a, 'b) kernel_scheme"
    by (simp_all add: set_thread_def)
  {
    case 0
    then obtain p where "CheckIfDue (fire rnd) False (?pop s) = Inr (False, (?pop s)\<lparr>pending := p\<rparr>)" "due ((?pop s)\<lparr>pending := p\<rparr>) = 0"
      using CheckIfDue_none [of "?pop s" rnd] by (auto simp: loop_ok_frames due_frames)
    with 0 show ?case by (simp add: kernel_step_def cur_set_thread frame)
  next
    case (Suc n)
    have "loop_ok (?pop s)" "due (?pop s) = Suc n" using Suc.prems by (simp_all add: loop_ok_frames due_frames)
    then obtain s1 where s1: "CheckIfDue (fire rnd) False (?pop s) = Inr (True, s1)" "loop_ok s1" "due s1 = n" "stats s1 = stats (?pop s)"
      "t_frames (cur s1) = t_frames (cur (?pop s))" "currentThread s1 = currentThread (?pop s)" "mstatus s1 = mstatus (?pop s)"
      by (rule CheckIfDue_fires)
    let ?s1 = "push [F_CheckLoop] s1"
    have st: "stats ?s1 = stats s" "mstatus ?s1 = mstatus s" "currentThread ?s1 = currentThread s"
      using s1 by (simp_all add: push_def frame)
    have "kernel_step (fire rnd) cf s = Inr ?s1" using Suc.prems(2) s1(1) by (simp add: kernel_step_def)
    moreover have "\<exists>s'. steps (fire rnd) cf (n + 1) ?s1 = Inr s' \<and> due s' = 0 \<and> t_frames (cur s') = fs \<and> stats s' = stats ?s1
      \<and> currentThread s' = currentThread ?s1 \<and> mstatus s' = mstatus ?s1"
      using s1(2,3,5) by (intro Suc.IH) (simp_all add: loop_ok_frames due_frames cur_set_thread)
    ultimately show ?case using st by auto
  }
qed

section \<open>Properties\<close>

lemma Initialize_objects:
  "Initialize rnd r semInit junk sp main = Inr s \<Longrightarrow> \<forall>i. 0 \<le> semInit i \<Longrightarrow> junk = (\<lambda>_. None) \<Longrightarrow> objects_ok s"
  by (auto simp: Initialize_def Schedule_def Let_def rbind_eq_Inr objects_ok_def lock_ok_def clock_ok_def kernel_new_def
      Semaphore_new_def Lock_new_def Statistics_new_def split: if_splits)

text \<open>A small system for the witnesses: two threads that hand a lock and a condition to each other.\<close>

definition demo_main :: "call list" where
  "demo_main = [C_Fork 1 [C_Acquire 0, C_Signal 0 0, C_Release 0], C_Acquire 0, C_Wait 0 0, C_Release 0]"

definition demo_spaces :: "nat \<Rightarrow> AddrSpace" where
  "demo_spaces = (\<lambda>_. \<lparr>as_pageTable = 0, as_numPages = 0, fileTable = projr (Table_new (\<lambda>_. 0) (\<lambda>_. None) 1)\<rparr>)"

definition demo_start :: "(handler, call list) kernel" where
  "demo_start = kernel_new (\<lambda>_. 0) (\<lambda>_. None) demo_spaces demo_main"

definition demo :: "nat \<Rightarrow> (handler, call list) kernel" where
  "demo n = projr (steps (fire (\<lambda>_. 0)) program n demo_start)"

lemma demo_init: "Initialize (\<lambda>_. 0) False (\<lambda>_. 0) (\<lambda>_. None) demo_spaces demo_main = Inr demo_start"
  by (simp add: Initialize_def demo_start_def)

lemma demo_reachable:
  assumes "\<not> isl (steps (fire (\<lambda>_. 0)) program n demo_start)"
  shows "reachable (fire (\<lambda>_. 0)) program demo_start (demo n)"
proof -
  have "steps (fire (\<lambda>_. 0)) program n demo_start = Inr (demo n)" using assms by (cases "steps (fire (\<lambda>_. 0)) program n demo_start") (auto simp: demo_def)
  then show ?thesis using steps_reachable reachable.start by blast
qed

lemma demo_runs: "\<not> isl (steps (fire (\<lambda>_. 0)) program 9 demo_start)"
  by code_simp

text \<open>C15. In every state the kernel reaches from its start-up, whatever the programs of its threads do
  and whenever the timer fires: no queue (ready list, wait queue of a semaphore, lock or condition)
  holds a thread twice, no thread is in two queues, the status of a queued thread is the one of
  its queue, every ready thread is in the ready list, and only the current thread is running.\<close>

theorem scheduler_invariant:
  assumes "Initialize rnd r semInit junk sp main = Inr s0" "reachable (fire rnd) program s0 s"
  shows "live s (currentThread s) \<and> (\<forall>q. distinct (queue s q))
    \<and> (\<forall>q q' t. t \<in> set (queue s q) \<and> t \<in> set (queue s q') \<longrightarrow> q = q')
    \<and> (\<forall>q t. t \<in> set (queue s q) \<longrightarrow> live s t \<and> t_status (threads s t) = (if q = QReady then READY else BLOCKED))
    \<and> (\<forall>t. live s t \<and> t_status (threads s t) = READY \<longrightarrow> t \<in> set (readyList s))
    \<and> (\<forall>t. live s t \<and> t_status (threads s t) = RUNNING \<longrightarrow> t = currentThread s)"
proof -
  have "kernel_inv s" using programs.reachable_inv [OF assms(2)] Initialize_inv [OF assms(1)] .
  then show ?thesis unfolding kernel_inv_def sched_inv_def by blast
qed

theorem scheduler_invariant_witness: "distinct (queue (demo 9) QReady) \<and> live (demo 9) (currentThread (demo 9))"
  using scheduler_invariant [OF demo_init demo_reachable [OF demo_runs]] by blast

text \<open>C16. No assertion of the kernel fails: in every reachable state the next step does not end in
  \<open>Abort\<close>, so \<open>Sleep\<close> and \<open>CheckIfDue\<close> are only called with interrupts off, interrupts are
  never enabled inside a handler, no thread is deleted while it is the current one, delays of
  scheduled interrupts are positive and the fenceposts of the stacks are intact.\<close>

theorem no_assertion_fails:
  assumes "Initialize rnd r semInit junk sp main = Inr s0" "reachable (fire rnd) program s0 s"
  shows "kernel_step (fire rnd) program s \<noteq> Inl Abort"
proof -
  have "kernel_inv s" using programs.reachable_inv [OF assms(2)] Initialize_inv [OF assms(1)] .
  then have "safe (kernel_step (fire rnd) program s)" by (rule programs.step_safe)
  then show ?thesis by auto
qed

theorem no_assertion_fails_witness: "kernel_step (fire (\<lambda>_. 0)) program (demo 9) \<noteq> Inl Abort"
  by (rule no_assertion_fails [OF demo_init demo_reachable [OF demo_runs]])

text \<open>In every reachable state the value of a semaphore is not negative; a lock is available exactly
  when it has no owner, and then nobody waits for it; the total time is the sum of the idle,
  system and user time; the pending interrupts are sorted by the time they are due. (The
  constructor of \<open>Lock\<close> leaves \<open>owner\<close> uninitialized; this is with \<open>owner\<close> zeroed.)\<close>

theorem synchronization_objects:
  assumes "Initialize rnd r semInit (\<lambda>_. None) sp main = Inr s0" "\<forall>i. 0 \<le> semInit i" "reachable (fire rnd) program s0 s"
  shows "(\<forall>i. 0 \<le> sem_value (semaphores s i))
    \<and> (\<forall>l. (available (locks s l) \<longleftrightarrow> owner (locks s l) = None) \<and> (available (locks s l) \<longrightarrow> waitingThreads (locks s l) = []))
    \<and> totalTicks (stats s) = idleTicks (stats s) + systemTicks (stats s) + userTicks (stats s)
    \<and> sorted (map fst (pending s))"
proof -
  have "objects_ok s" using reachable_objects [OF assms(3)] Initialize_objects [OF assms(1,2)] by simp
  then show ?thesis unfolding objects_ok_def lock_ok_def clock_ok_def by blast
qed

theorem synchronization_objects_witness: "0 \<le> sem_value (semaphores (demo 9) 0) \<and> sorted (map fst (pending (demo 9)))"
  using synchronization_objects [OF demo_init _ demo_reachable [OF demo_runs]] by simp

text \<open>C35. A lock is given to the threads that ask for it in the order in which they ask: after any
  history of calls in which \<open>asked\<close> lists the threads that got in line and the lock was released
  \<open>k\<close> times, the owner is the thread that asked next after the first \<open>k\<close>, and the wait queue
  holds the later ones in order.\<close>

theorem lock_first_come_first_served:
  assumes "lock_history l s asked k"
  shows "k \<le> length asked \<and> owner (locks s l) = (if k < length asked then Some (asked ! k) else None)
    \<and> (k < length asked \<longrightarrow> waitingThreads (locks s l) = drop (Suc k) asked)"
proof (cases "owner (locks s l)")
  case None
  with lock_history_line [OF assms] show ?thesis by (simp add: line_def)
next
  case (Some t)
  with lock_history_line [OF assms] have "t # waitingThreads (locks s l) = drop k asked" "k \<le> length asked" by (simp_all add: line_def)
  moreover from this have "k < length asked" by (metis drop_all list.distinct(1) not_le_imp_less)
  ultimately show ?thesis using Some by (simp add: Cons_nth_drop_Suc [symmetric])
qed

definition idle_kernel :: "(handler, call list) kernel" where
  "idle_kernel = kernel_new (\<lambda>_. 0) (\<lambda>_. None) demo_spaces []"

lemma idle_kernel_ok: "calls_ok idle_kernel" "objects_ok idle_kernel"
proof -
  have i: "Initialize (\<lambda>_. 0) False (\<lambda>_. 0) (\<lambda>_. None) demo_spaces [] = Inr idle_kernel"
    by (simp add: Initialize_def idle_kernel_def)
  show "objects_ok idle_kernel" using Initialize_objects [OF i] by simp
  show "calls_ok idle_kernel" using Initialize_inv [OF i]
    by (simp add: calls_ok_def kernel_inv_def) (simp add: idle_kernel_def kernel_new_def cur_def)
qed

theorem lock_first_come_first_served_witness:
  "\<exists>s. Acquire 0 idle_kernel = Inr s \<and> owner (locks s 0) = Some 0 \<and> waitingThreads (locks s 0) = []"
proof -
  obtain s where s: "Acquire 0 idle_kernel = Inr s"
    by (simp add: Acquire_def SetLevel_off set_level_def isHeldByCurrentThread_def idle_kernel_def kernel_new_def Lock_new_def Let_def set_lock_def)
  have h: "lock_history 0 idle_kernel [] 0" by (rule lock_history.unused) (simp add: idle_kernel_def kernel_new_def Lock_new_def line_def)
  have "lock_history 0 s ([] @ [currentThread idle_kernel]) 0"
    by (rule lock_history.ask [OF h idle_kernel_ok _ s]) (simp add: idle_kernel_def kernel_new_def Lock_new_def line_def)
  from lock_first_come_first_served [OF this] s show ?thesis by (simp add: idle_kernel_def kernel_new_def)
qed

text \<open>C37. \<open>Broadcast\<close> with the lock the waiters wait with, on any state the kernel reaches and with
  interrupts on or off: when nobody waits the call returns and changes nothing; otherwise one round
  makes the first waiter ready, at the end of the ready list, takes it off the condition's queue,
  changes no other thread's status and comes back to the loop, through a clock tick when interrupts
  were on. When nothing disturbs the rounds (interrupts are off, or no interrupt falls due during
  them and no switch is asked for) the call returns after one round per waiter and a last test: the
  queue is empty, all the waiters are ready, at the end of the ready list in the order in which
  they waited, the interrupt level and the current thread are as before, and no other thread's
  status has changed.\<close>

theorem broadcast_wakes_all:
  assumes "kernel_inv s" "t_frames (cur s) = F_Broadcast c l # fs"
    "waitingCV (conditions s c) \<noteq> [] \<longrightarrow> waitingLock (conditions s c) = Some l"
  shows "(waitingCV (conditions s c) = [] \<longrightarrow>
      kernel_step hf cf s = Inr (set_thread (currentThread s) ((cur s)\<lparr>t_frames := fs\<rparr>) s))
    \<and> (\<forall>t ts. waitingCV (conditions s c) = t # ts \<longrightarrow> (\<exists>s'. kernel_step hf cf s = Inr s'
      \<and> readyList s' = readyList s @ [t] \<and> waitingCV (conditions s' c) = ts
      \<and> waitingLock (conditions s' c) = (if ts = [] then None else Some l)
      \<and> (\<forall>u. t_status (threads s' u) = (if u = t then READY else t_status (threads s u)))
      \<and> currentThread s' = currentThread s
      \<and> t_frames (cur s') = (if level s = IntOff then [] else [F_CheckLoop, F_TickTail (mstatus s)]) @ F_Broadcast c l # fs))
    \<and> (undisturbed (length (waitingCV (conditions s c))) s \<longrightarrow>
      (\<exists>s'. steps hf cf (length (waitingCV (conditions s c)) * round_steps (level s) + 1) s = Inr s' \<and> t_frames (cur s') = fs
        \<and> waitingCV (conditions s' c) = [] \<and> level s' = level s \<and> currentThread s' = currentThread s
        \<and> readyList s' = readyList s @ waitingCV (conditions s c)
        \<and> (\<forall>t. t_status (threads s' t) = (if t \<in> set (waitingCV (conditions s c)) then READY else t_status (threads s t)))))"
proof (intro conjI impI allI)
  have inv: "sched_inv s" and run: "t_status (cur s) = RUNNING" and nh: "\<not> inHandler s"
    using assms(1,2) by (simp_all add: kernel_inv_def)
  have q: "waitingCV (conditions s c) = queue s (QCond c)" by simp
  have ws: "\<forall>t \<in> set (waitingCV (conditions s c)). live s t" "distinct (waitingCV (conditions s c))"
    unfolding q using sched_inv_D(2,3) [OF inv] by blast+
  have me: "currentThread s \<notin> set (waitingCV (conditions s c))"
    unfolding q using sched_inv_D(4) [OF inv, of "currentThread s" "QCond c"] run by (auto simp: cur_def)
  show "kernel_step hf cf s = Inr (set_thread (currentThread s) ((cur s)\<lparr>t_frames := fs\<rparr>) s)" if "waitingCV (conditions s c) = []"
    using that assms(2) by (simp add: kernel_step_def Broadcast_def)
  show "\<exists>s'. kernel_step hf cf s = Inr s'
      \<and> readyList s' = readyList s @ [t] \<and> waitingCV (conditions s' c) = ts
      \<and> waitingLock (conditions s' c) = (if ts = [] then None else Some l)
      \<and> (\<forall>u. t_status (threads s' u) = (if u = t then READY else t_status (threads s u)))
      \<and> currentThread s' = currentThread s
      \<and> t_frames (cur s') = (if level s = IntOff then [] else [F_CheckLoop, F_TickTail (mstatus s)]) @ F_Broadcast c l # fs"
    if w: "waitingCV (conditions s c) = t # ts" for t ts
  proof -
    have "kernel_step hf cf s = Inr (if level s = IntOff then woken c l s else OneTick (woken c l s))"
      by (rule broadcast_round [OF assms(2) w]) (use assms(3) w ws nh in simp_all)
    with assms(2) show ?thesis by (simp add: woken_simps [OF w] OneTick_simps cur_def)
  qed
  show "\<exists>s'. steps hf cf (length (waitingCV (conditions s c)) * round_steps (level s) + 1) s = Inr s' \<and> t_frames (cur s') = fs
      \<and> waitingCV (conditions s' c) = [] \<and> level s' = level s \<and> currentThread s' = currentThread s
      \<and> readyList s' = readyList s @ waitingCV (conditions s c)
      \<and> (\<forall>t. t_status (threads s' t) = (if t \<in> set (waitingCV (conditions s c)) then READY else t_status (threads s t)))"
    if "undisturbed (length (waitingCV (conditions s c))) s"
    by (rule broadcast_rounds [OF assms(2) refl assms(3) ws(1) me ws(2) nh that])
qed

definition waiting_kernel :: "(handler, call list) kernel" where
  "waiting_kernel = idle_kernel\<lparr>live := (\<lambda>t. t < 3), conditions := (\<lambda>_. Condition_new)(0 := \<lparr>waitingLock = Some 0, waitingCV = [2, 1]\<rparr>),
     threads := (\<lambda>t. (Thread_new (\<lambda>_. 0) 0 0)\<lparr>t_status := if t = 0 then RUNNING else BLOCKED,
                   t_frames := if t = 0 then [F_Broadcast 0 0, F_Finish] else [F_RunTail]\<rparr>)\<rparr>"

lemma waiting_kernel_inv: "kernel_inv waiting_kernel"
proof -
  have q: "queue waiting_kernel q = (if q = QCond 0 then [2, 1] else [])" for q
    by (cases q) (simp_all add: waiting_kernel_def idle_kernel_def kernel_new_def Semaphore_new_def Lock_new_def Condition_new_def)
  show ?thesis unfolding kernel_inv_def sched_inv_def q
    by (simp add: cur_def Thread_new_def waiting_kernel_def idle_kernel_def kernel_new_def resumable_def)
qed

theorem broadcast_wakes_all_witness:
  "\<exists>s'. steps (fire (\<lambda>_. 0)) program 7
       (waiting_kernel\<lparr>level := IntOn, pending := [(90, \<lparr>pi_handler = SignalHandler 0, pi_when = 90, pi_type = DiskInt\<rparr>)]\<rparr>) = Inr s'
     \<and> readyList s' = [2, 1] \<and> level s' = IntOn"
proof -
  let ?s = "waiting_kernel\<lparr>level := IntOn, pending := [(90, \<lparr>pi_handler = SignalHandler 0, pi_when = 90, pi_type = DiskInt\<rparr>)]\<rparr>"
  have w: "conditions ?s 0 = \<lparr>waitingLock = Some 0, waitingCV = [2, 1]\<rparr>" "level ?s = IntOn" "readyList ?s = []"
    "t_frames (cur ?s) = [F_Broadcast 0 0, F_Finish]"
    by (simp_all add: waiting_kernel_def idle_kernel_def kernel_new_def cur_def)
  have inv: "kernel_inv ?s" using waiting_kernel_inv
    by (simp add: kernel_inv_def) (simp add: waiting_kernel_def idle_kernel_def kernel_new_def cur_def)
  have "undisturbed 2 ?s"
    by (simp add: undisturbed_def waiting_kernel_def idle_kernel_def kernel_new_def Statistics_new_def SystemTick_def)
  with broadcast_wakes_all [OF inv w(4), of "fire (\<lambda>_. 0)" program] w show ?thesis
    by (auto simp: round_steps_def eval_nat_numeral)
qed

text \<open>\<open>Broadcast\<close> with a lock other than the one the waiters wait with never returns: with
  interrupts off the kernel is back in the very same state after every round, because \<open>Signal\<close>
  refuses the lock and the loop tests the queue again.\<close>

theorem broadcast_wrong_lock_loops:
  assumes "t_frames (cur s) = F_Broadcast c l # fs" "level s = IntOff" "waitingCV (conditions s c) \<noteq> []"
    "waitingLock (conditions s c) \<noteq> Some l"
  shows "steps hf cf n s = Inr s"
proof (induction n)
  case (Suc n)
  have off: "s\<lparr>level := IntOff\<rparr> = s" using assms(2) by simp
  obtain t ts where q: "waitingCV (conditions s c) = t # ts" using assms(3) by (cases "waitingCV (conditions s c)") auto
  have "kernel_step hf cf s = Signal c (Some l) s"
    using assms(1,3) push_pop [OF assms(1)] by (simp add: kernel_step_def Broadcast_def)
  also have "\<dots> = Inr s" using assms(2,4) q off by (simp add: Signal_def SetLevel_off set_level_def Let_def)
  finally show ?case using Suc by simp
qed simp

theorem broadcast_wrong_lock_loops_witness:
  "let s = waiting_kernel\<lparr>conditions := (\<lambda>_. \<lparr>waitingLock = Some 1, waitingCV = [2, 1]\<rparr>)\<rparr>
   in steps (fire (\<lambda>_. 0)) program 1000 s = Inr s"
  unfolding Let_def
  by (rule broadcast_wrong_lock_loops [where fs = "[F_Finish]" and c = 0 and l = 0])
    (simp_all add: waiting_kernel_def idle_kernel_def kernel_new_def cur_def)

text \<open>C36. The loop over the pending interrupts that ends every clock tick terminates: started with interrupts off
  and \<open>n\<close> interrupts due it returns to its caller after \<open>n + 1\<close> steps, with no interrupt due any more,
  the clock and the current thread unchanged. (A handler schedules its next interrupt strictly in
  the future.)\<close>

theorem pending_interrupts_all_fire:
  assumes "loop_ok s" "t_frames (cur s) = F_CheckLoop # fs"
  shows "\<exists>s'. steps (fire rnd) cf (due s + 1) s = Inr s' \<and> due s' = 0 \<and> t_frames (cur s') = fs \<and> stats s' = stats s
    \<and> currentThread s' = currentThread s \<and> mstatus s' = mstatus s"
  using check_loop [OF assms refl, of rnd cf] .

definition ticking_kernel :: "(handler, call list) kernel" where
  "ticking_kernel = waiting_kernel\<lparr>threads := (threads waiting_kernel)(0 := (cur waiting_kernel)\<lparr>t_frames := [F_CheckLoop, F_TickTail SystemMode, F_Finish]\<rparr>),
     pending := [(0, \<lparr>pi_handler = SignalHandler 0, pi_when = 0, pi_type = DiskInt\<rparr>),
                 (0, \<lparr>pi_handler = TimerHandler False, pi_when = 0, pi_type = TimerInt\<rparr>),
                 (7, \<lparr>pi_handler = SignalHandler 1, pi_when = 7, pi_type = ConsoleReadInt\<rparr>)]\<rparr>"

theorem pending_interrupts_all_fire_witness:
  "due ticking_kernel = 2 \<and> (\<exists>s'. steps (fire (\<lambda>_. 0)) program 3 ticking_kernel = Inr s' \<and> due s' = 0)"
proof -
  have "sched_inv (set_thread (currentThread waiting_kernel) ((cur waiting_kernel)\<lparr>t_frames := [F_CheckLoop, F_TickTail SystemMode, F_Finish]\<rparr>) waiting_kernel)"
    using waiting_kernel_inv by (subst sched_inv_cur) (simp_all add: kernel_inv_def)
  then have "sched_inv ticking_kernel"
    by (simp add: ticking_kernel_def set_thread_def) (simp add: waiting_kernel_def idle_kernel_def kernel_new_def)
  then have ok: "loop_ok ticking_kernel"
    by (simp add: loop_ok_def) (simp add: ticking_kernel_def waiting_kernel_def idle_kernel_def kernel_new_def loadable_def)
  have fr: "t_frames (cur ticking_kernel) = F_CheckLoop # [F_TickTail SystemMode, F_Finish]"
    by (simp add: ticking_kernel_def cur_def waiting_kernel_def idle_kernel_def kernel_new_def)
  have d: "due ticking_kernel = 2"
    by (simp add: due_def ticking_kernel_def waiting_kernel_def idle_kernel_def kernel_new_def Statistics_new_def)
  from pending_interrupts_all_fire [OF ok fr, of "\<lambda>_. 0" program] show ?thesis unfolding d by (auto simp: numeral_3_eq_3)
qed

text \<open>The constructor of \<open>Lock\<close> does not initialize \<open>owner\<close>. When the memory happens to hold the
  address of the calling thread, the first \<open>Acquire\<close> takes the lock to be held already: it returns
  without taking it, and the lock is still available to everybody else.\<close>

theorem fresh_lock_with_stale_owner:
  assumes "locks s l = Lock_new (Some (currentThread s))" "level s = IntOff"
  shows "Acquire l s = Inr s \<and> available (locks s l)"
proof -
  have "s\<lparr>level := IntOff\<rparr> = s" using assms(2) by simp
  then show ?thesis using assms
    by (simp add: Acquire_def SetLevel_off set_level_def isHeldByCurrentThread_def Lock_new_def Let_def)
qed

theorem fresh_lock_with_stale_owner_witness:
  "let s = idle_kernel\<lparr>locks := (\<lambda>_. Lock_new (Some 0))\<rparr> in Acquire 3 s = Inr s \<and> available (locks s 3)"
  unfolding Let_def by (rule fresh_lock_with_stale_owner) (simp_all add: idle_kernel_def kernel_new_def)

end
