(* ===== verification/Addr_Space.thy ===== *)
theory Addr_Space
  imports Kernel Mips_Safety
begin

text \<open>
  Address spaces (\<open>userprog/addrspace.cc\<close>, \<open>bin/noff.h\<close>): loading a NOFF program into free pages of
  physical memory, and the initial user registers. The file with the program is an open file of the
  stub file system (\<open>filesys/openfile.h\<close> with \<open>FILESYS_STUB\<close>), which is a UNIX file: its contents
  are a list of bytes, and \<open>ReadAt\<close> is \<open>lseek\<close> and \<open>read\<close>.

  The properties: a program is loaded into pages that were free, all different, and no other byte
  of memory is touched; running its instructions cannot touch another program's pages; the header
  is read the same on hosts of both byte orders.
\<close>

section \<open>The code\<close>

text \<open>\<open>ReadAt\<close>: the bytes it stores from the start of the buffer on. \<open>lseek\<close> to a negative position fails the
  assertion in \<open>Lseek\<close>.\<close>

definition OpenFile_ReadAt :: "8 word list \<Rightarrow> nat \<Rightarrow> 32 word \<Rightarrow> 8 word list result" where
  "OpenFile_ReadAt file numBytes position = rbind (ASSERT (0 \<le> sint position)) (\<lambda>_.
     Inr (take numBytes (drop (nat (sint position)) file)))"

record Segment =
  virtualAddr :: "32 word"
  inFileAddr :: "32 word"
  seg_size :: "32 word"

record NoffHeader =
  noffMagic :: "32 word"
  noff_code :: Segment
  initData :: Segment
  uninitData :: Segment

definition NOFFMAGIC :: "32 word" where
  "NOFFMAGIC = 0xbadfad"

text \<open>The structure that lies at address 0 of \<open>mem\<close>, as the host reads it.\<close>

definition segment_at :: "bool \<Rightarrow> (nat \<Rightarrow> 8 word) \<Rightarrow> nat \<Rightarrow> Segment" where
  "segment_at bigEndian mem a = \<lparr>virtualAddr = host_load32 bigEndian mem a, inFileAddr = host_load32 bigEndian mem (a + 4),
     seg_size = host_load32 bigEndian mem (a + 8)\<rparr>"

definition header_at :: "bool \<Rightarrow> (nat \<Rightarrow> 8 word) \<Rightarrow> NoffHeader" where
  "header_at bigEndian mem = \<lparr>noffMagic = host_load32 bigEndian mem 0, noff_code = segment_at bigEndian mem 4,
     initData = segment_at bigEndian mem 16, uninitData = segment_at bigEndian mem 28\<rparr>"

definition swap_segment :: "bool \<Rightarrow> Segment \<Rightarrow> Segment" where
  "swap_segment bigEndian s = \<lparr>virtualAddr = WordToHost bigEndian (virtualAddr s),
     inFileAddr = WordToHost bigEndian (inFileAddr s), seg_size = WordToHost bigEndian (seg_size s)\<rparr>"

definition SwapHeader :: "bool \<Rightarrow> NoffHeader \<Rightarrow> NoffHeader" where
  "SwapHeader bigEndian noffH = \<lparr>noffMagic = WordToHost bigEndian (noffMagic noffH),
     noff_code = swap_segment bigEndian (noff_code noffH), initData = swap_segment bigEndian (initData noffH),
     uninitData = swap_segment bigEndian (uninitData noffH)\<rparr>"

text \<open>The header of the executable; \<open>junk\<close> is what the local variable \<open>noffH\<close> held before.\<close>

definition read_header :: "bool \<Rightarrow> (nat \<Rightarrow> 8 word) \<Rightarrow> 8 word list \<Rightarrow> NoffHeader result" where
  "read_header bigEndian junk file = rbind (OpenFile_ReadAt file 40 0) (\<lambda>bs.
     let noffH = header_at bigEndian (overwrite 0 bs junk);
         noffH = (if noffMagic noffH \<noteq> NOFFMAGIC \<and> WordToHost bigEndian (noffMagic noffH) = NOFFMAGIC
                  then SwapHeader bigEndian noffH else noffH)
     in rbind (ASSERT (noffMagic noffH = NOFFMAGIC)) (\<lambda>_. Inr noffH))"

definition UserStackSize :: nat where
  "UserStackSize = 1024"

definition MaxOpenFiles :: nat where
  "MaxOpenFiles = 256"

text \<open>\<open>size\<close> is an \<open>unsigned int\<close>: the sum of the sizes wraps around.\<close>

definition pages_needed :: "NoffHeader \<Rightarrow> nat" where
  "pages_needed noffH = divRoundUp (unat (seg_size (noff_code noffH) + seg_size (initData noffH) + seg_size (uninitData noffH))) PageSize
     + divRoundUp UserStackSize PageSize"

record loader =
  ld_table :: "TranslationEntry list"
  ld_machine :: machine
  ld_memMap :: BitMap

definition load_page :: "8 word list \<Rightarrow> NoffHeader \<Rightarrow> nat \<Rightarrow> loader \<Rightarrow> loader result" where
  "load_page file noffH i ld = rbind (BitMap_Find (ld_memMap ld)) (\<lambda>(ppn, memMap).
     if ppn < 0 then Inl Halted
     else rbind (OpenFile_ReadAt file PageSize (inFileAddr (noff_code noffH) + of_nat i * of_nat PageSize)) (\<lambda>bs.
       Inr \<lparr>ld_table = ld_table ld @ [\<lparr>virtualPage = of_nat i, physicalPage = word_of_int ppn, valid = True, readOnly = False,
               use = False, dirty = False\<rparr>],
            ld_machine = (ld_machine ld)\<lparr>mainMemory := overwrite (nat ppn * PageSize) bs (mainMemory (ld_machine ld))\<rparr>,
            ld_memMap = memMap\<rparr>))"

text \<open>The constructor; \<open>p\<close> is the address \<open>new TranslationEntry[numPages]\<close> returns, \<open>files\<close> the freshly
  constructed \<open>fileTable\<close>.\<close>

definition AddrSpace_new :: "bool \<Rightarrow> (nat \<Rightarrow> 8 word) \<Rightarrow> nat Table \<Rightarrow> nat \<Rightarrow> 8 word list \<Rightarrow> machine \<Rightarrow> BitMap \<Rightarrow>
    (AddrSpace \<times> machine \<times> BitMap) result" where
  "AddrSpace_new bigEndian junk files p file m memMap =
     rbind (Table_Put None files) (\<lambda>(_, files).
     rbind (Table_Put None files) (\<lambda>(_, files).
     rbind (read_header bigEndian junk file) (\<lambda>noffH.
     let numPages = pages_needed noffH in
     rbind (ASSERT (numPages \<le> NumPhysPages)) (\<lambda>_.
     rbind (for_each (load_page file noffH) [0..<numPages] \<lparr>ld_table = [], ld_machine = m, ld_memMap = memMap\<rparr>) (\<lambda>ld.
     Inr (\<lparr>as_pageTable = p, as_numPages = numPages, fileTable = files\<rparr>,
          (ld_machine ld)\<lparr>pageTables := (pageTables (ld_machine ld))(p := ld_table ld)\<rparr>, ld_memMap ld))))))"

definition InitRegisters :: "AddrSpace \<Rightarrow> machine \<Rightarrow> machine result" where
  "InitRegisters a m = rbind (for_each (\<lambda>i. WriteRegister (int i) 0) [0..<NumTotalRegs] m) (\<lambda>m.
     rbind (WriteRegister (int PCReg) 0 m) (\<lambda>m.
     rbind (WriteRegister (int NextPCReg) 4 m) (\<lambda>m.
     WriteRegister (int StackReg) (of_nat (as_numPages a) * of_nat PageSize - 16) m)))"

section \<open>Loading\<close>

definition loaded_entry :: "nat \<Rightarrow> nat \<Rightarrow> TranslationEntry" where
  "loaded_entry i f = \<lparr>virtualPage = of_nat i, physicalPage = of_nat f, valid = True, readOnly = False, use = False, dirty = False\<rparr>"

text \<open>Byte \<open>off\<close> of page \<open>i\<close> after loading: the byte of the file, or past its end what was there before.\<close>

definition page_byte :: "8 word list \<Rightarrow> nat \<Rightarrow> nat \<Rightarrow> nat \<Rightarrow> 8 word \<Rightarrow> 8 word" where
  "page_byte file base i off old = (let k = base + i * PageSize + off in if k < length file then file ! k else old)"

declare PageSize_128 [simp del]

lemma overwrite_page:
  assumes "off < PageSize"
  shows "overwrite (f * PageSize) (take PageSize (drop (base + i * PageSize) file)) mem (f * PageSize + off)
    = page_byte file base i off (mem (f * PageSize + off))"
  using assms by (auto simp: overwrite_def page_byte_def Let_def min_def)

lemma PageSize_pos: "0 < PageSize"
  by (simp add: PageSize_def SectorSize_def)

lemma overwrite_other_page:
  assumes "pa div PageSize \<noteq> f"
  shows "overwrite (f * PageSize) (take PageSize bs) mem pa = mem pa"
proof (rule overwrite_outside)
  show "pa < f * PageSize \<or> f * PageSize + length (take PageSize bs) \<le> pa"
  proof (rule ccontr)
    assume "\<not> ?thesis"
    then have b: "f * PageSize \<le> pa" "pa < f * PageSize + PageSize" by auto
    then have "pa div PageSize = f" by (intro div_nat_eqI) (auto simp: algebra_simps)
    with assms show False by simp
  qed
qed

lemma sint_of_nat_small: "n < 2 ^ 31 \<Longrightarrow> sint (of_nat n :: 32 word) = int n"
proof -
  assume n: "n < 2 ^ 31"
  have "sint (of_nat n :: 32 word) = signed_take_bit 31 (int n)" by (simp add: signed_of_nat)
  also have "\<dots> = int n" using n by (intro signed_take_bit_int_eq_self) simp_all
  finally show ?thesis .
qed

lemma page_position:
  assumes "unat base + Suc i * PageSize < 2 ^ 31"
  shows "sint (base + of_nat i * of_nat PageSize :: 32 word) = int (unat base + i * PageSize)"
proof -
  have "base + of_nat i * of_nat PageSize = (of_nat (unat base + i * PageSize) :: 32 word)" by simp
  then show ?thesis using sint_of_nat_small [of "unat base + i * PageSize"] assms by simp
qed

lemma ReadAt_page:
  assumes "unat base + Suc i * PageSize < 2 ^ 31"
  shows "OpenFile_ReadAt file PageSize (base + of_nat i * of_nat PageSize) = Inr (take PageSize (drop (unat base + i * PageSize) file))"
  unfolding OpenFile_ReadAt_def page_position [OF assms] by (simp del: of_nat_add of_nat_mult)

text \<open>The loop: pages \<open>k\<close> to \<open>k + n - 1\<close> go to \<open>n\<close> different free frames.\<close>

text \<open>One page: a free frame is marked and takes the bytes of the page.\<close>

lemma load_page_ok:
  assumes "bitmap_inv (ld_memMap ld)" "numBits (ld_memMap ld) = NumPhysPages" "0 < card ({..<NumPhysPages} - marked (ld_memMap ld))"
    "unat base + Suc k * PageSize < 2 ^ 31" "inFileAddr (noff_code noffH) = base"
  obtains f bm where "f < NumPhysPages" "f \<notin> marked (ld_memMap ld)" "bitmap_inv bm" "numBits bm = NumPhysPages"
    "marked bm = insert f (marked (ld_memMap ld))" "card ({..<NumPhysPages} - marked (ld_memMap ld)) = Suc (card ({..<NumPhysPages} - marked bm))"
    "load_page file noffH k ld = Inr \<lparr>ld_table = ld_table ld @ [loaded_entry k f],
       ld_machine = (ld_machine ld)\<lparr>mainMemory := overwrite (f * PageSize) (take PageSize (drop (unat base + k * PageSize) file)) (mainMemory (ld_machine ld))\<rparr>,
       ld_memMap = bm\<rparr>"
proof -
  have "marked (ld_memMap ld) \<noteq> {..<NumPhysPages}"
  proof
    assume full: "marked (ld_memMap ld) = {..<NumPhysPages}"
    from assms(3) show False unfolding full by simp
  qed
  with Find_ok [OF assms(1)] assms(2) have "\<exists>f bm. f < NumPhysPages \<and> f \<notin> marked (ld_memMap ld) \<and> BitMap_Find (ld_memMap ld) = Inr (int f, bm)
      \<and> bitmap_inv bm \<and> numBits bm = NumPhysPages \<and> marked bm = insert f (marked (ld_memMap ld))" by auto
  then obtain f bm where f: "f < NumPhysPages" "f \<notin> marked (ld_memMap ld)" "BitMap_Find (ld_memMap ld) = Inr (int f, bm)"
    "bitmap_inv bm" "numBits bm = NumPhysPages" "marked bm = insert f (marked (ld_memMap ld))" by blast
  have "{..<NumPhysPages} - marked (ld_memMap ld) = insert f ({..<NumPhysPages} - marked bm)"
    unfolding f(6) using f(1,2) by blast
  moreover have "card (insert f ({..<NumPhysPages} - marked bm)) = Suc (card ({..<NumPhysPages} - marked bm))"
    by (rule card_insert_disjoint) (simp_all add: f(6))
  ultimately have "card ({..<NumPhysPages} - marked (ld_memMap ld)) = Suc (card ({..<NumPhysPages} - marked bm))" by simp
  then show ?thesis using that [OF f(1,2,4-6)] f(3) assms(5) ReadAt_page [OF assms(4)] by (simp add: load_page_def loaded_entry_def)
qed

text \<open>The pages after the first do not touch its frame.\<close>

lemma load_pages_mem:
  assumes "f \<notin> set fs" "length fs = n" "j < Suc n" "off < PageSize"
    and mem1: "mem1 = overwrite (f * PageSize) (take PageSize (drop (b + k * PageSize) file)) mem0"
    and mem: "\<And>j off. j < n \<Longrightarrow> off < PageSize \<Longrightarrow> mem (fs ! j * PageSize + off) = page_byte file b (Suc k + j) off (mem1 (fs ! j * PageSize + off))"
      "\<And>pa. pa div PageSize \<notin> set fs \<Longrightarrow> mem pa = mem1 pa"
  shows "mem ((f # fs) ! j * PageSize + off) = page_byte file b (k + j) off (mem0 ((f # fs) ! j * PageSize + off))"
proof -
  have dv: "(g * PageSize + off) div PageSize = g" for g using assms(4) by simp
  show ?thesis
  proof (cases j)
    case 0
    have "mem (f * PageSize + off) = mem1 (f * PageSize + off)" using assms(1) dv [of f] by (intro mem(2)) simp
    with 0 overwrite_page [OF assms(4), of f b k "file" mem0] show ?thesis by (simp add: mem1)
  next
    case (Suc i)
    with assms(1-3) have "fs ! i \<noteq> f" using nth_mem [of i fs] by auto
    then have "mem1 (fs ! i * PageSize + off) = mem0 (fs ! i * PageSize + off)"
      unfolding mem1 by (intro overwrite_other_page) (simp add: dv del: mult_Suc)
    with Suc assms(3,4) mem(1) [of i off] show ?thesis by simp
  qed
qed

lemma load_pages_ok:
  assumes "bitmap_inv (ld_memMap ld)" "numBits (ld_memMap ld) = NumPhysPages"
    "n \<le> card ({..<NumPhysPages} - marked (ld_memMap ld))" "unat base + (k + n) * PageSize < 2 ^ 31"
    "inFileAddr (noff_code noffH) = base"
  shows "\<exists>fs ld'. for_each (load_page file noffH) [k..<k + n] ld = Inr ld' \<and> length fs = n \<and> distinct fs
    \<and> set fs \<inter> marked (ld_memMap ld) = {} \<and> set fs \<subseteq> {..<NumPhysPages}
    \<and> ld_table ld' = ld_table ld @ map2 loaded_entry [k..<k + n] fs
    \<and> bitmap_inv (ld_memMap ld') \<and> numBits (ld_memMap ld') = NumPhysPages \<and> marked (ld_memMap ld') = marked (ld_memMap ld) \<union> set fs
    \<and> (\<exists>mem. ld_machine ld' = (ld_machine ld)\<lparr>mainMemory := mem\<rparr>
       \<and> (\<forall>j < n. \<forall>off < PageSize. mem (fs ! j * PageSize + off)
            = page_byte file (unat base) (k + j) off (mainMemory (ld_machine ld) (fs ! j * PageSize + off)))
       \<and> (\<forall>pa. pa div PageSize \<notin> set fs \<longrightarrow> mem pa = mainMemory (ld_machine ld) pa))"
  using assms
proof (induction n arbitrary: k ld)
  case 0
  then show ?case by (intro exI [of _ "[]"] exI [of _ ld]) (simp add: exI [of _ "mainMemory (ld_machine ld)"])
next
  case (Suc n)
  let ?m = "ld_machine ld"
  have pos: "unat base + Suc k * PageSize < 2 ^ 31"
  proof -
    have "Suc k * PageSize \<le> (k + Suc n) * PageSize" by (intro mult_le_mono1) simp
    with Suc.prems(4) show ?thesis by linarith
  qed
  have "0 < card ({..<NumPhysPages} - marked (ld_memMap ld))" using Suc.prems(3) by simp
  then obtain f bm where
    f: "f < NumPhysPages" "f \<notin> marked (ld_memMap ld)" "bitmap_inv bm" "numBits bm = NumPhysPages" "marked bm = insert f (marked (ld_memMap ld))"
      "card ({..<NumPhysPages} - marked (ld_memMap ld)) = Suc (card ({..<NumPhysPages} - marked bm))"
    and load: "load_page file noffH k ld = Inr \<lparr>ld_table = ld_table ld @ [loaded_entry k f],
       ld_machine = ?m\<lparr>mainMemory := overwrite (f * PageSize) (take PageSize (drop (unat base + k * PageSize) file)) (mainMemory ?m)\<rparr>,
       ld_memMap = bm\<rparr>" by (rule load_page_ok [OF Suc.prems(1,2) _ pos Suc.prems(5)])
  define mem1 where "mem1 = overwrite (f * PageSize) (take PageSize (drop (unat base + k * PageSize) file)) (mainMemory ?m)"
  let ?ld1 = "\<lparr>ld_table = ld_table ld @ [loaded_entry k f], ld_machine = ?m\<lparr>mainMemory := mem1\<rparr>, ld_memMap = bm\<rparr>"
  have first: "load_page file noffH k ld = Inr ?ld1" using load by (simp add: mem1_def)
  have "n \<le> card ({..<NumPhysPages} - marked bm)" using f(6) Suc.prems(3) by linarith
  with Suc.IH [of ?ld1 "Suc k"] f(1-5) Suc.prems(4,5) obtain fs ld' mem where
    rest: "for_each (load_page file noffH) [Suc k..<Suc k + n] ?ld1 = Inr ld'" "length fs = n" "distinct fs"
      "set fs \<inter> marked bm = {}" "set fs \<subseteq> {..<NumPhysPages}"
      "ld_table ld' = ld_table ld @ [loaded_entry k f] @ map2 loaded_entry [Suc k..<Suc k + n] fs"
      "bitmap_inv (ld_memMap ld')" "numBits (ld_memMap ld') = NumPhysPages" "marked (ld_memMap ld') = marked bm \<union> set fs"
      and mem: "ld_machine ld' = ?m\<lparr>mainMemory := mem\<rparr>"
        "\<And>j off. j < n \<Longrightarrow> off < PageSize \<Longrightarrow> mem (fs ! j * PageSize + off)
            = page_byte file (unat base) (Suc k + j) off (mem1 (fs ! j * PageSize + off))"
        "\<And>pa. pa div PageSize \<notin> set fs \<Longrightarrow> mem pa = mem1 pa"
    by auto
  have f_fs: "f \<notin> set fs" using rest(4) f(5) by auto
  have other1: "mem1 pa = mainMemory ?m pa" if "pa div PageSize \<noteq> f" for pa
    unfolding mem1_def by (rule overwrite_other_page [OF that])
  note pages = load_pages_mem [OF f_fs rest(2) _ _ mem1_def mem(2,3)]
  have upt: "[k..<k + Suc n] = k # [Suc k..<Suc k + n]" by (subst upt_conv_Cons) simp_all
  show ?case
  proof (rule exI [of _ "f # fs"], rule exI [of _ ld'], intro conjI)
    show "for_each (load_page file noffH) [k..<k + Suc n] ld = Inr ld'"
      unfolding upt using first rest(1) by (simp del: upt_Suc)
    show "ld_table ld' = ld_table ld @ map2 loaded_entry [k..<k + Suc n] (f # fs)"
      unfolding upt using rest(6) by (simp del: upt_Suc)
    show "\<exists>mem. ld_machine ld' = ?m\<lparr>mainMemory := mem\<rparr>
       \<and> (\<forall>j < Suc n. \<forall>off < PageSize. mem ((f # fs) ! j * PageSize + off)
            = page_byte file (unat base) (k + j) off (mainMemory ?m ((f # fs) ! j * PageSize + off)))
       \<and> (\<forall>pa. pa div PageSize \<notin> set (f # fs) \<longrightarrow> mem pa = mainMemory ?m pa)"
      using mem(1,3) pages other1 by (intro exI [of _ mem]) auto
  qed (use rest f(1-5) f_fs in auto)
qed

text \<open>Which frames a successful load takes, however it ended up succeeding.\<close>

lemma load_page_frame:
  assumes "load_page file noffH i ld = Inr ld'" "bitmap_inv (ld_memMap ld)" "numBits (ld_memMap ld) = NumPhysPages"
  obtains f where "f < NumPhysPages" "f \<notin> marked (ld_memMap ld)" "ld_table ld' = ld_table ld @ [loaded_entry i f]"
    "bitmap_inv (ld_memMap ld')" "numBits (ld_memMap ld') = NumPhysPages" "marked (ld_memMap ld') = insert f (marked (ld_memMap ld))"
    "\<forall>pa. pa div PageSize \<noteq> f \<longrightarrow> mainMemory (ld_machine ld') pa = mainMemory (ld_machine ld) pa"
    "ld_machine ld' = (ld_machine ld)\<lparr>mainMemory := mainMemory (ld_machine ld')\<rparr>"
proof -
  from Find_ok [OF assms(2)] assms(1,3) obtain f bm where f: "f < NumPhysPages" "f \<notin> marked (ld_memMap ld)"
    "BitMap_Find (ld_memMap ld) = Inr (int f, bm)" "bitmap_inv bm" "numBits bm = NumPhysPages" "marked bm = insert f (marked (ld_memMap ld))"
    by (auto simp: load_page_def)
  from assms(1) f(3) obtain pos where "ld' = \<lparr>ld_table = ld_table ld @ [loaded_entry i f], ld_machine =
      (ld_machine ld)\<lparr>mainMemory := overwrite (f * PageSize) (take PageSize (drop pos file)) (mainMemory (ld_machine ld))\<rparr>, ld_memMap = bm\<rparr>"
    by (auto simp: load_page_def OpenFile_ReadAt_def rbind_eq_Inr loaded_entry_def)
  with f that [of f] show ?thesis by (simp add: overwrite_other_page)
qed

lemma load_pages_frames:
  assumes "for_each (load_page file noffH) is ld = Inr ld'" "bitmap_inv (ld_memMap ld)" "numBits (ld_memMap ld) = NumPhysPages"
  shows "\<exists>fs. length fs = length is \<and> distinct fs \<and> set fs \<inter> marked (ld_memMap ld) = {} \<and> set fs \<subseteq> {..<NumPhysPages}
    \<and> ld_table ld' = ld_table ld @ map2 loaded_entry is fs
    \<and> bitmap_inv (ld_memMap ld') \<and> numBits (ld_memMap ld') = NumPhysPages \<and> marked (ld_memMap ld') = marked (ld_memMap ld) \<union> set fs
    \<and> (\<forall>pa. pa div PageSize \<notin> set fs \<longrightarrow> mainMemory (ld_machine ld') pa = mainMemory (ld_machine ld) pa)
    \<and> ld_machine ld' = (ld_machine ld)\<lparr>mainMemory := mainMemory (ld_machine ld')\<rparr>"
  using assms
proof (induction "is" arbitrary: ld)
  case Nil
  then show ?case by simp
next
  case (Cons i "is")
  then obtain ld1 where ld1: "load_page file noffH i ld = Inr ld1" "for_each (load_page file noffH) is ld1 = Inr ld'"
    by (auto simp: rbind_eq_Inr)
  obtain f where f: "f < NumPhysPages" "f \<notin> marked (ld_memMap ld)" "ld_table ld1 = ld_table ld @ [loaded_entry i f]"
    "bitmap_inv (ld_memMap ld1)" "numBits (ld_memMap ld1) = NumPhysPages" "marked (ld_memMap ld1) = insert f (marked (ld_memMap ld))"
    "\<forall>pa. pa div PageSize \<noteq> f \<longrightarrow> mainMemory (ld_machine ld1) pa = mainMemory (ld_machine ld) pa"
    "ld_machine ld1 = (ld_machine ld)\<lparr>mainMemory := mainMemory (ld_machine ld1)\<rparr>"
    using load_page_frame [OF ld1(1) Cons.prems(2,3)] .
  from Cons.IH [OF ld1(2) f(4,5)] obtain fs where fs: "length fs = length is" "distinct fs" "set fs \<inter> marked (ld_memMap ld1) = {}"
    "set fs \<subseteq> {..<NumPhysPages}" "ld_table ld' = ld_table ld1 @ map2 loaded_entry is fs" "bitmap_inv (ld_memMap ld')"
    "numBits (ld_memMap ld') = NumPhysPages" "marked (ld_memMap ld') = marked (ld_memMap ld1) \<union> set fs"
    "\<forall>pa. pa div PageSize \<notin> set fs \<longrightarrow> mainMemory (ld_machine ld') pa = mainMemory (ld_machine ld1) pa"
    "ld_machine ld' = (ld_machine ld1)\<lparr>mainMemory := mainMemory (ld_machine ld')\<rparr>" by blast
  have "ld_machine ld' = (ld_machine ld)\<lparr>mainMemory := mainMemory (ld_machine ld')\<rparr>"
    by (subst fs(10), subst f(8)) simp
  with f(1-3,6,7) fs show ?case by (intro exI [of _ "f # fs"]) auto
qed

lemma map2_entries:
  assumes "length fs = n" "set fs \<subseteq> {..<NumPhysPages}"
  shows "length (map2 loaded_entry [0..<n] fs) = n"
    "v < n \<Longrightarrow> map2 loaded_entry [0..<n] fs ! v = loaded_entry v (fs ! v)"
    "(\<lambda>e. unat (physicalPage e)) ` set (map2 loaded_entry [0..<n] fs) = set fs"
proof -
  show len: "length (map2 loaded_entry [0..<n] fs) = n" using assms(1) by simp
  show nth: "map2 loaded_entry [0..<n] fs ! v = loaded_entry v (fs ! v)" if "v < n" for v using assms(1) that by simp
  have f: "unat (of_nat f :: 32 word) = f" if "f \<in> set fs" for f
  proof -
    have "f < 4096" using that assms(2) by (auto simp: NumPhysPages_def)
    then show ?thesis by (simp add: unat_of_nat take_bit_nat_eq_self)
  qed
  have "map (\<lambda>e. unat (physicalPage e)) (map2 loaded_entry [0..<n] fs) = fs"
    by (rule nth_equalityI) (use assms(1) f in \<open>simp_all add: loaded_entry_def\<close>)
  then show "(\<lambda>e. unat (physicalPage e)) ` set (map2 loaded_entry [0..<n] fs) = set fs" by (metis set_map)
qed

text \<open>The frames a page table names.\<close>

definition table_frames :: "machine \<Rightarrow> nat \<Rightarrow> nat set" where
  "table_frames m p = (\<lambda>e. unat (physicalPage e)) ` set (pageTables m p)"

lemma AddrSpace_new_frames:
  assumes "AddrSpace_new be junk files p file m memMap = Inr (a, m', memMap')" "bitmap_inv memMap" "numBits memMap = NumPhysPages"
  shows "table_frames m' p \<inter> marked memMap = {}" "marked memMap' = marked memMap \<union> table_frames m' p"
    "bitmap_inv memMap'" "numBits memMap' = NumPhysPages" "as_pageTable a = p" "length (pageTables m' p) = as_numPages a"
    "\<And>q. q \<noteq> p \<Longrightarrow> pageTables m' q = pageTables m q" "m_tlb m' = m_tlb m"
    "\<And>pa. pa div PageSize \<notin> table_frames m' p \<Longrightarrow> mainMemory m' pa = mainMemory m pa" "\<And>e. e \<in> set (pageTables m' p) \<Longrightarrow> valid e"
proof -
  let ?ld0 = "\<lparr>ld_table = [], ld_machine = m, ld_memMap = memMap\<rparr>"
  from assms(1) obtain noffH ld files' where ld: "for_each (load_page file noffH) [0..<pages_needed noffH] ?ld0 = Inr ld"
    and res: "a = \<lparr>as_pageTable = p, as_numPages = pages_needed noffH, fileTable = files'\<rparr>"
      "m' = (ld_machine ld)\<lparr>pageTables := (pageTables (ld_machine ld))(p := ld_table ld)\<rparr>" "memMap' = ld_memMap ld"
    by (auto simp: AddrSpace_new_def Let_def rbind_eq_Inr)
  from load_pages_frames [OF ld] assms(2,3) obtain fs where fs: "length fs = pages_needed noffH" "set fs \<inter> marked memMap = {}"
    "set fs \<subseteq> {..<NumPhysPages}" "ld_table ld = map2 loaded_entry [0..<pages_needed noffH] fs" "bitmap_inv (ld_memMap ld)"
    "numBits (ld_memMap ld) = NumPhysPages" "marked (ld_memMap ld) = marked memMap \<union> set fs"
    "\<And>pa. pa div PageSize \<notin> set fs \<Longrightarrow> mainMemory (ld_machine ld) pa = mainMemory m pa"
    "ld_machine ld = m\<lparr>mainMemory := mainMemory (ld_machine ld)\<rparr>" by auto
  have tf: "table_frames m' p = set fs" unfolding table_frames_def res(2) using map2_entries(3) [OF fs(1,3)] fs(4) by simp
  have mach: "pageTables (ld_machine ld) = pageTables m" "m_tlb (ld_machine ld) = m_tlb m"
    by (subst fs(9), simp)+
  show "table_frames m' p \<inter> marked memMap = {}" "marked memMap' = marked memMap \<union> table_frames m' p"
    "bitmap_inv memMap'" "numBits memMap' = NumPhysPages" "as_pageTable a = p"
    using fs tf res by simp_all
  show "length (pageTables m' p) = as_numPages a" using map2_entries(1) [OF fs(1,3)] fs(4) res by simp
  show "\<And>q. q \<noteq> p \<Longrightarrow> pageTables m' q = pageTables m q" "m_tlb m' = m_tlb m" using mach res by simp_all
  show "\<And>pa. pa div PageSize \<notin> table_frames m' p \<Longrightarrow> mainMemory m' pa = mainMemory m pa" using fs(8) tf res by simp
  show "\<And>e. e \<in> set (pageTables m' p) \<Longrightarrow> valid e"
    unfolding res(2) using fs(4) by (auto simp: loaded_entry_def)
qed

lemma AddrSpace_new_ok:
  fixes files :: "nat Table"
  assumes "read_header be junk file = Inr noffH" "table_inv files" "bitmap_inv memMap" "numBits memMap = NumPhysPages"
    "pages_needed noffH \<le> card ({..<NumPhysPages} - marked memMap)"
    "unat (inFileAddr (noff_code noffH)) + pages_needed noffH * PageSize < 2 ^ 31"
  shows "\<exists>fs a m' memMap'. AddrSpace_new be junk files p file m memMap = Inr (a, m', memMap')
    \<and> length fs = pages_needed noffH \<and> distinct fs \<and> set fs \<inter> marked memMap = {} \<and> set fs \<subseteq> {..<NumPhysPages}
    \<and> marked memMap' = marked memMap \<union> set fs \<and> as_numPages a = pages_needed noffH
    \<and> pageTables m' = (pageTables m)(p := map2 loaded_entry [0..<pages_needed noffH] fs)
    \<and> (\<forall>i < pages_needed noffH. \<forall>off < PageSize. mainMemory m' (fs ! i * PageSize + off)
         = page_byte file (unat (inFileAddr (noff_code noffH))) i off (mainMemory m (fs ! i * PageSize + off)))
    \<and> (\<forall>pa. pa div PageSize \<notin> set fs \<longrightarrow> mainMemory m' pa = mainMemory m pa)"
proof -
  have put: "\<exists>i t'. Table_Put None t = Inr (i, t') \<and> table_inv t'" if "table_inv t" for t :: "nat Table"
    using Table_Put_ok [OF that, of None] that by blast
  obtain i1 t1 where t1: "Table_Put None files = Inr (i1, t1)" "table_inv t1" using put [OF assms(2)] by blast
  obtain i2 t2 where t2: "Table_Put None t1 = Inr (i2, t2)" using put [OF t1(2)] by blast
  have "card ({..<NumPhysPages} - marked memMap) \<le> card {..<NumPhysPages}" by (rule card_mono) auto
  then have fits: "pages_needed noffH \<le> NumPhysPages" using assms(5) by simp
  let ?ld = "\<lparr>ld_table = [], ld_machine = m, ld_memMap = memMap\<rparr>" and ?n = "pages_needed noffH"
  from load_pages_ok [of ?ld ?n "inFileAddr (noff_code noffH)" 0 noffH "file"] assms(3-6) obtain fs ld mem where
    ld: "for_each (load_page file noffH) [0..<?n] ?ld = Inr ld" "length fs = ?n" "distinct fs" "set fs \<inter> marked memMap = {}"
      "set fs \<subseteq> {..<NumPhysPages}" "ld_table ld = map2 loaded_entry [0..<?n] fs" "marked (ld_memMap ld) = marked memMap \<union> set fs"
      and mem: "ld_machine ld = m\<lparr>mainMemory := mem\<rparr>"
        "\<forall>j < ?n. \<forall>off < PageSize. mem (fs ! j * PageSize + off)
            = page_byte file (unat (inFileAddr (noff_code noffH))) j off (mainMemory m (fs ! j * PageSize + off))"
        "\<forall>pa. pa div PageSize \<notin> set fs \<longrightarrow> mem pa = mainMemory m pa" by auto
  have "AddrSpace_new be junk files p file m memMap = Inr (\<lparr>as_pageTable = p, as_numPages = ?n, fileTable = t2\<rparr>,
      (ld_machine ld)\<lparr>pageTables := (pageTables (ld_machine ld))(p := ld_table ld)\<rparr>, ld_memMap ld)"
    using t1(1) t2 assms(1) fits ld(1) by (simp add: AddrSpace_new_def Let_def)
  then show ?thesis using ld(2-7) mem by (intro exI [of _ fs] exI conjI) auto
qed

text \<open>A program consisting of a header only, for the witnesses: all segments empty, eight pages of stack.\<close>

definition empty_program :: "8 word list" where
  "empty_program = [0xad, 0xdf, 0xba] @ replicate 37 0"

definition empty_header :: NoffHeader where
  "empty_header = (let s = \<lparr>virtualAddr = 0, inFileAddr = 0, seg_size = 0\<rparr> in
     \<lparr>noffMagic = NOFFMAGIC, noff_code = s, initData = s, uninitData = s\<rparr>)"

definition boot_memMap :: BitMap where
  "boot_memMap = projr (BitMap_new (\<lambda>_. 0) NumPhysPages)"

definition boot_files :: "nat Table" where
  "boot_files = projr (Table_new (\<lambda>_. 0) (\<lambda>_. None) MaxOpenFiles)"

lemma boot_ok: "bitmap_inv boot_memMap" "numBits boot_memMap = NumPhysPages" "marked boot_memMap = {}" "table_inv boot_files"
proof -
  obtain b where "BitMap_new (\<lambda>_. 0) NumPhysPages = Inr b" "bitmap_inv b" "numBits b = NumPhysPages" "marked b = {}"
    using BitMap_new_ok [of "\<lambda>_. 0" NumPhysPages] by blast
  then show "bitmap_inv boot_memMap" "numBits boot_memMap = NumPhysPages" "marked boot_memMap = {}" by (simp_all add: boot_memMap_def)
  obtain t :: "nat Table" where "Table_new (\<lambda>_. 0) (\<lambda>_. None) MaxOpenFiles = Inr t" "table_inv t"
    using Table_new_ok [of "\<lambda>_. 0" "\<lambda>_. None" MaxOpenFiles] by blast
  then show "table_inv boot_files" by (simp add: boot_files_def)
qed

section \<open>Properties\<close>

lemma host_load32_cong: "(\<And>k. k < 4 \<Longrightarrow> mem (a + k) = mem' (a + k)) \<Longrightarrow> host_load32 be mem a = host_load32 be mem' a"
proof -
  assume eq: "\<And>k. k < 4 \<Longrightarrow> mem (a + k) = mem' (a + k)"
  show ?thesis unfolding host_load32_def using eq [of 0] eq [of 1] eq [of 2] eq [of 3] by simp
qed

lemma header_at_cong: "(\<And>k. k < 40 \<Longrightarrow> mem k = mem' k) \<Longrightarrow> header_at be mem = header_at be mem'"
  unfolding header_at_def segment_at_def by (intro NoffHeader.equality Segment.equality; simp; rule host_load32_cong; simp)

lemma host_load32_little: "host_load32 False mem a = load32 mem a"
  using host_load32_WordToHost [of False mem a] by (simp add: WordToHost_def)

lemma SwapHeader_header_at: "SwapHeader be (header_at be mem) = header_at False mem"
  by (simp add: SwapHeader_def swap_segment_def header_at_def segment_at_def host_load32_WordToHost host_load32_little)

text \<open>The header of an executable is read the same whatever the byte order of the host: when the first four bytes of
  a file of at least 40 bytes are the magic number in little-endian order, every field the loader
  uses has its little-endian value, and what the variable held before does not show.\<close>

theorem header_byte_order:
  assumes "40 \<le> length file" "load32 (\<lambda>k. file ! k) 0 = NOFFMAGIC"
  shows "read_header bigEndian junk file = Inr (header_at False (\<lambda>k. file ! k))"
proof -
  let ?f = "\<lambda>k. file ! k" and ?mem = "overwrite 0 (take 40 file) junk"
  have eq: "header_at be ?mem = header_at be ?f" for be
    by (rule header_at_cong) (use assms(1) in \<open>simp add: overwrite_def\<close>)
  have magic: "noffMagic (header_at False ?f) = NOFFMAGIC" using assms(2) by (simp add: header_at_def host_load32_little)
  show ?thesis
  proof (cases bigEndian)
    case False
    with magic show ?thesis by (simp add: read_header_def OpenFile_ReadAt_def eq Let_def)
  next
    case True
    have "WordToHost True (noffMagic (header_at True ?f)) = NOFFMAGIC"
      using assms(2) by (simp add: header_at_def host_load32_WordToHost)
    moreover have "WordToHost True NOFFMAGIC \<noteq> NOFFMAGIC" by (simp add: WordToHost_def NOFFMAGIC_def)
    ultimately show ?thesis using True magic
      by (auto simp: read_header_def OpenFile_ReadAt_def eq Let_def SwapHeader_header_at)
  qed
qed

theorem header_byte_order_witness: "read_header True (\<lambda>_. 7) empty_program = Inr empty_header"
proof -
  have "load32 (\<lambda>k. empty_program ! k) 0 = NOFFMAGIC" by code_simp
  moreover have "header_at False (\<lambda>k. empty_program ! k) = empty_header" by code_simp
  moreover have "length empty_program = 40" by (simp add: empty_program_def)
  ultimately show ?thesis using header_byte_order [of empty_program True "\<lambda>_. 7"] by simp
qed

text \<open>C12. Loading a program: with the header read and as many free pages as the program needs, the constructor succeeds. Page
  \<open>i\<close> is mapped, valid and writable, to its own frame; the frames are different from each other,
  were free before and are exactly the ones marked now; the bytes of page \<open>i\<close> are the bytes of the
  file from \<open>code.inFileAddr + i * PageSize\<close> on (past the end of the file the memory keeps
  its contents); no other byte of memory and no other page table changes.\<close>

theorem program_loaded:
  fixes files :: "nat Table"
  assumes "read_header be junk file = Inr noffH" "table_inv files" "bitmap_inv memMap" "numBits memMap = NumPhysPages"
    "pages_needed noffH \<le> card ({..<NumPhysPages} - marked memMap)"
    "unat (inFileAddr (noff_code noffH)) + pages_needed noffH * PageSize < 2 ^ 31"
  shows "\<exists>fs a m' memMap'. AddrSpace_new be junk files p file m memMap = Inr (a, m', memMap')
    \<and> length fs = pages_needed noffH \<and> distinct fs \<and> set fs \<inter> marked memMap = {} \<and> set fs \<subseteq> {..<NumPhysPages}
    \<and> marked memMap' = marked memMap \<union> set fs \<and> as_numPages a = pages_needed noffH
    \<and> pageTables m' = (pageTables m)(p := map2 loaded_entry [0..<pages_needed noffH] fs)
    \<and> (\<forall>i < pages_needed noffH. \<forall>off < PageSize. mainMemory m' (fs ! i * PageSize + off)
         = page_byte file (unat (inFileAddr (noff_code noffH))) i off (mainMemory m (fs ! i * PageSize + off)))
    \<and> (\<forall>pa. pa div PageSize \<notin> set fs \<longrightarrow> mainMemory m' pa = mainMemory m pa)"
  by (rule AddrSpace_new_ok [OF assms])

lemma empty_program_fits:
  "read_header be junk empty_program = Inr empty_header" "pages_needed empty_header = 8"
  "unat (inFileAddr (noff_code empty_header)) + pages_needed empty_header * PageSize < 2 ^ 31"
proof -
  let ?mem = "\<lambda>k. empty_program ! k"
  have "overwrite 0 (take 40 empty_program) junk k = ?mem k" if "k < 40" for k
    using that by (simp add: overwrite_def empty_program_def)
  then have eq: "header_at b (overwrite 0 (take 40 empty_program) junk) = header_at b ?mem" for b by (rule header_at_cong)
  have h: "header_at False ?mem = empty_header" "noffMagic (header_at True ?mem) \<noteq> NOFFMAGIC"
    "WordToHost True (noffMagic (header_at True ?mem)) = NOFFMAGIC" "noffMagic empty_header = NOFFMAGIC" by code_simp+
  show "read_header be junk empty_program = Inr empty_header"
    by (cases be) (use h in \<open>simp_all add: read_header_def OpenFile_ReadAt_def eq Let_def SwapHeader_header_at\<close>)
  show n: "pages_needed empty_header = 8" by code_simp
  show "unat (inFileAddr (noff_code empty_header)) + pages_needed empty_header * PageSize < 2 ^ 31"
    unfolding n by (simp add: empty_header_def PageSize_def SectorSize_def Let_def)
qed

theorem program_loaded_witness:
  "\<exists>fs a m' memMap'. AddrSpace_new True (\<lambda>_. 0) boot_files 5 empty_program (Machine_new 0 0 (\<lambda>_. [])) boot_memMap = Inr (a, m', memMap')
    \<and> distinct fs \<and> marked memMap' = set fs \<and> as_numPages a = 8 \<and> length (pageTables m' 5) = 8"
proof -
  have "pages_needed empty_header \<le> card ({..<NumPhysPages} - marked boot_memMap)"
    using boot_ok(3) empty_program_fits(2) by (simp add: NumPhysPages_def)
  from program_loaded [OF empty_program_fits(1) boot_ok(4,1,2) this empty_program_fits(3), of True "\<lambda>_. 0" 5 "Machine_new 0 0 (\<lambda>_. [])"]
  obtain fs a m' memMap' where r: "AddrSpace_new True (\<lambda>_. 0) boot_files 5 empty_program (Machine_new 0 0 (\<lambda>_. [])) boot_memMap = Inr (a, m', memMap')"
    "length fs = 8" "distinct fs" "marked memMap' = set fs" "as_numPages a = 8" "pageTables m' 5 = map2 loaded_entry [0..<8] fs"
    unfolding boot_ok(3) empty_program_fits(2) by auto
  then show ?thesis by (intro exI [of _ fs] exI [of _ a] exI [of _ m'] exI [of _ memMap']) simp
qed

text \<open>Any number of instructions of a user program, as \<open>Machine::Run\<close> executes them.\<close>

inductive user_runs :: "bool \<Rightarrow> machine \<Rightarrow> machine \<Rightarrow> bool" for be where
  start: "user_runs be m m"
| instruction: "user_runs be m m' \<Longrightarrow> OneInstruction be now m' = Inr (Next m'') \<Longrightarrow> user_runs be m m''"

lemma user_runs_confined: "user_runs be m m' \<Longrightarrow> user_inv p m \<Longrightarrow> user_inv p m' \<and> confined p m m'"
proof (induction rule: user_runs.induct)
  case (instruction m m' now m'')
  then show ?case using OneInstruction_ok [of p m' be now] by (auto simp: step_ok_def intro: confined_trans)
qed simp

lemma InitRegisters_eq:
  "InitRegisters a m = Inr (m\<lparr>registers := (\<lambda>i. if i < NumTotalRegs then 0 else registers m i)
     (NextPCReg := 4, StackReg := of_nat (as_numPages a) * of_nat PageSize - 16)\<rparr>)"
proof -
  have "for_each (\<lambda>i. WriteRegister (int i) 0) [0..<n] m = Inr (m\<lparr>registers := (\<lambda>i. if i < n then 0 else registers m i)\<rparr>)"
    if "n \<le> NumTotalRegs" for n
    using that
  proof (induction n)
    case (Suc n)
    then show ?case by (auto simp: for_each_append WriteRegister_def fun_eq_iff intro!: machine.equality)
  qed simp
  then show ?thesis by (auto simp: InitRegisters_def WriteRegister_def fun_eq_iff intro!: machine.equality)
qed

text \<open>What \<open>InitRegisters\<close> and \<open>RestoreState\<close> of address space \<open>a\<close> leave in the machine.\<close>

definition start_program :: "AddrSpace \<Rightarrow> machine \<Rightarrow> machine result" where
  "start_program a m = rbind (InitRegisters a m) (\<lambda>m. Inr (m\<lparr>m_pageTable := Some (as_pageTable a), m_pageTableSize := as_numPages a\<rparr>))"

lemma start_program_user:
  assumes "start_program a m2 = Inr m" "m_tlb m2 = None" "length (pageTables m2 (as_pageTable a)) = as_numPages a"
  shows "user_inv (as_pageTable a) m" "frames m (as_pageTable a) \<subseteq> table_frames m2 (as_pageTable a)"
    "mainMemory m = mainMemory m2" "pageTables m = pageTables m2"
proof -
  have m: "m = m2\<lparr>registers := registers m, m_pageTable := Some (as_pageTable a), m_pageTableSize := as_numPages a\<rparr>"
    "registers m 0 = 0" "registers m LoadReg = 0"
    using assms(1) by (auto simp: start_program_def InitRegisters_eq)
  show "user_inv (as_pageTable a) m" using m(2,3) assms(2,3) by (subst m(1)) (simp add: user_inv_def)
  show mem: "mainMemory m = mainMemory m2" and pt: "pageTables m = pageTables m2" by (subst m(1), simp)+
  show "frames m (as_pageTable a) \<subseteq> table_frames m2 (as_pageTable a)"
    unfolding frames_def table_frames_def pt by auto
qed

text \<open>C11. Programs are isolated: when two programs are loaded one after the other and the first one is started, then no
  instruction sequence of its code ever changes a byte in a frame of the second one, nor the second
  one's page table; their frames are disjoint.\<close>

theorem programs_isolated:
  assumes "bitmap_inv memMap" "numBits memMap = NumPhysPages" "p \<noteq> q" "m_tlb m0 = None"
    "AddrSpace_new be junk files p file m0 memMap = Inr (a, m1, memMap1)"
    "AddrSpace_new be junk' files' q file' m1 memMap1 = Inr (b, m2, memMap2)"
    "start_program a m2 = Inr m" "user_runs be m m'"
  shows "table_frames m2 p \<inter> table_frames m2 q = {} \<and> pageTables m' q = pageTables m q
    \<and> (\<forall>pa. pa div PageSize \<in> table_frames m2 q \<longrightarrow> mainMemory m' pa = mainMemory m pa)"
proof -
  note A = AddrSpace_new_frames [OF assms(5,1,2)]
  note B = AddrSpace_new_frames [OF assms(6) A(3,4)]
  have same: "pageTables m2 p = pageTables m1 p" using B(7) assms(3) by simp
  then have tf: "table_frames m2 p = table_frames m1 p" by (simp add: table_frames_def)
  have disj: "table_frames m2 p \<inter> table_frames m2 q = {}" using A(2) B(1) tf by auto
  have tlb: "m_tlb m2 = None" using A(8) B(8) assms(4) by simp
  note S = start_program_user [OF assms(7) tlb, unfolded A(5), OF A(6) [folded same]]
  have "confined p m m'" using user_runs_confined [OF assms(8) S(1)] by simp
  then have "pageTables m' q = pageTables m q" and mem: "\<And>pa. pa div PageSize \<notin> frames m p \<Longrightarrow> mainMemory m' pa = mainMemory m pa"
    using assms(3) by (simp_all add: confined_def)
  moreover have "f \<notin> frames m p" if "f \<in> table_frames m2 q" for f using that disj S(2) by blast
  ultimately show ?thesis using disj by simp
qed

theorem programs_isolated_witness:
  "\<exists>a m1 map1 b m2 map2 m. AddrSpace_new False (\<lambda>_. 0) boot_files 0 empty_program (Machine_new 0 0 (\<lambda>_. [])) boot_memMap = Inr (a, m1, map1)
    \<and> AddrSpace_new False (\<lambda>_. 0) boot_files 1 empty_program m1 map1 = Inr (b, m2, map2) \<and> start_program a m2 = Inr m
    \<and> table_frames m2 0 \<inter> table_frames m2 1 = {}"
proof -
  let ?m0 = "Machine_new 0 0 (\<lambda>_. [])"
  have free: "8 \<le> card ({..<NumPhysPages} - S)" if "card S \<le> 8" "finite S" for S
    using diff_card_le_card_Diff [of S "{..<NumPhysPages}"] that by (simp add: NumPhysPages_def)
  obtain fs a m1 map1 where 1: "AddrSpace_new False (\<lambda>_. 0) boot_files 0 empty_program ?m0 boot_memMap = Inr (a, m1, map1)"
    "length fs = 8" "marked map1 = set fs"
    using AddrSpace_new_ok [OF empty_program_fits(1) boot_ok(4,1,2) _ empty_program_fits(3), of False "\<lambda>_. 0" 0 ?m0] free [of "{}"]
    unfolding boot_ok(3) empty_program_fits(2) by auto
  note M = AddrSpace_new_frames [OF 1(1) boot_ok(1,2)]
  have "card (set fs) \<le> 8" using card_length [of fs] 1(2) by simp
  then have "pages_needed empty_header \<le> card ({..<NumPhysPages} - marked map1)" using free [of "set fs"] 1(3) empty_program_fits(2) by simp
  from AddrSpace_new_ok [OF empty_program_fits(1) boot_ok(4) M(3,4) this empty_program_fits(3), of False "\<lambda>_. 0" 1 m1]
  obtain b m2 map2 where 2: "AddrSpace_new False (\<lambda>_. 0) boot_files 1 empty_program m1 map1 = Inr (b, m2, map2)" by blast
  obtain m where m: "start_program a m2 = Inr m" by (simp add: start_program_def InitRegisters_eq)
  have "m_tlb ?m0 = None" by (simp add: Machine_new_def)
  from programs_isolated [OF boot_ok(1,2) zero_neq_one this 1(1) 2 m user_runs.start] 1(1) 2 m show ?thesis by blast
qed

end
