(* ===== verification/Syscalls.thy ===== *)
theory Syscalls
  imports Addr_Space Thread_Programs
begin

text \<open>
  The operating system on top of the kernel: user programs, their exceptions and system calls
  (\<open>userprog/exception.cc\<close>), processes (\<open>userprog/progtest.cc\<close>, \<open>threads/system.h\<close>), the user level
  locks and condition variables, and the stub file system (\<open>filesys/filesys.h\<close>, \<open>filesys/openfile.h\<close>
  with \<open>FILESYS_STUB\<close>), whose files are UNIX files: a map from names to contents.

  The state \<open>os\<close> extends the kernel's. \<open>ucode\<close> names the pieces of code between two points where a thread can
  lose the processor; \<open>exec\<close> runs one. A system call ends in the piece \<open>Return rv\<close>, the end of
  \<open>ExceptionHandler\<close>. \<open>new\<close> returns addresses not used before, which the counters
  \<open>next_*\<close> provide. What \<open>printf\<close> is called with is recorded in \<open>console\<close>.

  \<open>ReadMem\<close> and \<open>WriteMem\<close> called by the kernel on a bad user address raise an exception whose handler
  halts the machine, so \<open>copyin\<close> and \<open>copyout\<close> never return \<open>-1\<close>.
\<close>

section \<open>Data\<close>

datatype ucode =
    User | Tick | Return "32 word" | newProcess | kernelRun "32 word"
  | Acquire_body int | Release_body int | Release_after int
  | Wait_body int int | Wait_call int int | Release_entry int
  | Signal_body int int | Signal_after int | Broadcast_body int int
  | CreateLock_body | DestroyLock_body int | CreateCV_body | DestroyCV_body int
  | Exec_body nat | Exec_fork nat int | Fork_body "32 word" | Fork_restore
  | Exit_body | Exit_remove int | printf_body "32 word" int int int

record Process =
  p_id :: int
  activeThreadCount :: int
  inactiveThreadCount :: int

record KernelLock =
  Kernel_Lock :: "nat option"
  kl_Owner :: "tid option"
  kl_IsDeleted :: bool

record KernelCV =
  kcv_CV :: "nat option"
  kcv_IsDeleted :: bool

record OpenFile =
  of_file :: bytes
  currentOffset :: "32 word"

datatype out_event = Text bytes | Message string "int list" | Printf bytes "int list"

record os = "(handler, ucode) kernel" +
  hostBigEndian :: bool
  LockTable :: "KernelLock list"
  CVTable :: "KernelCV list"
  processTable :: "nat Table"
  processes :: "nat \<Rightarrow> Process"
  memMap :: BitMap
  unixFiles :: "bytes \<Rightarrow> bytes option"
  openFiles :: "nat \<Rightarrow> OpenFile option"
  console :: "out_event list"
  keyboard :: "bytes list"
  heapJunk :: "nat \<Rightarrow> 8 word"
  ownerJunk :: "tid option"
  freshTable :: "nat Table"
  next_lock :: nat
  next_cond :: nat
  next_space :: nat
  next_table :: nat
  next_thread :: nat
  next_file :: nat
  next_process :: nat
  rand_values :: "nat \<Rightarrow> 32 word"

text \<open>The locks of \<open>exception.cc\<close>: \<open>syscallLock\<close>, \<open>PrintfLock\<close>, \<open>LockTableLock\<close>, \<open>CVTableLock\<close>.\<close>

definition syscallLock :: nat where "syscallLock = 0"
definition PrintfLock :: nat where "PrintfLock = 1"
definition LockTableLock :: nat where "LockTableLock = 2"
definition CVTableLock :: nat where "CVTableLock = 3"

definition PROCESS_TABLE_MAX_SIZE :: nat where "PROCESS_TABLE_MAX_SIZE = 32"
definition MAXFILENAME :: nat where "MAXFILENAME = 256"
definition ConsoleInput :: int where "ConsoleInput = 0"
definition ConsoleOutput :: int where "ConsoleOutput = 1"

section \<open>Access to the machine and to the tables\<close>

definition with_machine :: "(machine \<Rightarrow> ('a \<times> machine) result) \<Rightarrow> os \<Rightarrow> ('a \<times> os) result" where
  "with_machine f s = (case k_machine s of None \<Rightarrow> Inl Undefined
     | Some m \<Rightarrow> rbind (f m) (\<lambda>(x, m'). Inr (x, s\<lparr>k_machine := Some m'\<rparr>)))"

definition on_machine :: "(machine \<Rightarrow> machine result) \<Rightarrow> os \<Rightarrow> os result" where
  "on_machine f s = rbind (with_machine (\<lambda>m. rbind (f m) (\<lambda>m'. Inr ((), m'))) s) (\<lambda>(_, s). Inr s)"

definition arg :: "int \<Rightarrow> os \<Rightarrow> 32 word result" where
  "arg r s = rbind (with_machine (\<lambda>m. rbind (ReadRegister r m) (\<lambda>v. Inr (v, m))) s) (\<lambda>(v, _). Inr v)"

definition say :: "out_event \<Rightarrow> os \<Rightarrow> os" where
  "say x s = s\<lparr>console := console s @ [x]\<rparr>"

definition valid_handle :: "int \<Rightarrow> 'a list \<Rightarrow> bool" where
  "valid_handle n xs \<longleftrightarrow> \<not> (n < 0 \<or> n > int (length xs) - 1)"

definition set_lock_entry :: "int \<Rightarrow> KernelLock \<Rightarrow> os \<Rightarrow> os" where
  "set_lock_entry n x s = s\<lparr>LockTable := (LockTable s)[nat n := x]\<rparr>"

definition set_cv_entry :: "int \<Rightarrow> KernelCV \<Rightarrow> os \<Rightarrow> os" where
  "set_cv_entry n x s = s\<lparr>CVTable := (CVTable s)[nat n := x]\<rparr>"

text \<open>The current thread's address space; \<open>currentThread->space\<close> is dereferenced unchecked.\<close>

definition cur_space :: "os \<Rightarrow> nat result" where
  "cur_space s = (case space (cur s) of None \<Rightarrow> Inl Undefined | Some a \<Rightarrow> Inr a)"

definition set_files :: "nat \<Rightarrow> nat Table \<Rightarrow> os \<Rightarrow> os" where
  "set_files a t s = s\<lparr>spaces := (spaces s)(a := (spaces s a)\<lparr>fileTable := t\<rparr>)\<rparr>"

section \<open>copyin and copyout\<close>

primrec copyin_loop :: "bool \<Rightarrow> int \<Rightarrow> 32 word \<Rightarrow> nat \<Rightarrow> machine \<Rightarrow> (bytes \<times> machine) result" where
  "copyin_loop be now vaddr 0 m = Inr ([], m)"
| "copyin_loop be now vaddr (Suc n) m = rbind (ReadMem be now vaddr 1 m) (\<lambda>(r, m). case r of
       Inl e \<Rightarrow> Inl Halted
     | Inr v \<Rightarrow> rbind (copyin_loop be now (vaddr + 1) n m) (\<lambda>(bs, m). Inr (ucast v # bs, m)))"

primrec copyout_loop :: "bool \<Rightarrow> int \<Rightarrow> 32 word \<Rightarrow> bytes \<Rightarrow> machine \<Rightarrow> machine result" where
  "copyout_loop be now vaddr [] m = Inr m"
| "copyout_loop be now vaddr (b # bs) m = rbind (WriteMem be now vaddr 1 (scast b) m) (\<lambda>(r, m). case r of
       Inl e \<Rightarrow> Inl Halted
     | Inr _ \<Rightarrow> copyout_loop be now (vaddr + 1) bs m)"

definition copyin :: "32 word \<Rightarrow> int \<Rightarrow> os \<Rightarrow> (bytes \<times> os) result" where
  "copyin vaddr len s = with_machine (copyin_loop (hostBigEndian s) (totalTicks (stats s)) vaddr (nat len)) s"

definition copyout :: "32 word \<Rightarrow> bytes \<Rightarrow> os \<Rightarrow> os result" where
  "copyout vaddr buf s = on_machine (copyout_loop (hostBigEndian s) (totalTicks (stats s)) vaddr buf) s"

text \<open>\<open>new char[n]\<close>: a negative size is an uncaught exception of the allocator.\<close>

definition new_char :: "int \<Rightarrow> unit result" where
  "new_char n = (if n < 0 then Inl Undefined else Inr ())"

definition c_string :: "bytes \<Rightarrow> bytes" where
  "c_string bs = takeWhile (\<lambda>b. b \<noteq> 0) bs"

section \<open>The stub file system\<close>

definition FileSystem_Create :: "bytes \<Rightarrow> os \<Rightarrow> os" where
  "FileSystem_Create name s = s\<lparr>unixFiles := (unixFiles s)(name \<mapsto> [])\<rparr>"

definition FileSystem_Open :: "bytes \<Rightarrow> os \<Rightarrow> nat option \<times> os" where
  "FileSystem_Open name s = (case unixFiles s name of None \<Rightarrow> (None, s)
     | Some _ \<Rightarrow> (Some (next_file s), s\<lparr>openFiles := (openFiles s)(next_file s \<mapsto> \<lparr>of_file = name, currentOffset = 0\<rparr>),
         next_file := Suc (next_file s)\<rparr>))"

definition OpenFile_delete :: "nat \<Rightarrow> os \<Rightarrow> os" where
  "OpenFile_delete f s = s\<lparr>openFiles := (openFiles s)(f := None)\<rparr>"

definition file_contents :: "bytes \<Rightarrow> os \<Rightarrow> bytes" where
  "file_contents name s = (case unixFiles s name of None \<Rightarrow> [] | Some c \<Rightarrow> c)"

definition deref_file :: "nat \<Rightarrow> os \<Rightarrow> OpenFile result" where
  "deref_file f s = (case openFiles s f of None \<Rightarrow> Inl Undefined | Some x \<Rightarrow> Inr x)"

text \<open>\<open>write\<close> of UNIX at a position, filling a gap after the end of the file with zeros.\<close>

definition write_at :: "nat \<Rightarrow> bytes \<Rightarrow> bytes \<Rightarrow> bytes" where
  "write_at pos bs c = (if bs = [] then c
     else take pos (c @ replicate (pos - length c) 0) @ bs @ drop (pos + length bs) c)"

definition OpenFile_Read :: "nat \<Rightarrow> nat \<Rightarrow> os \<Rightarrow> (bytes \<times> os) result" where
  "OpenFile_Read f numBytes s = rbind (deref_file f s) (\<lambda>x.
     rbind (OpenFile_ReadAt (file_contents (of_file x) s) numBytes (currentOffset x)) (\<lambda>bs.
     Inr (bs, s\<lparr>openFiles := (openFiles s)(f \<mapsto> x\<lparr>currentOffset := currentOffset x + of_nat (length bs)\<rparr>)\<rparr>)))"

definition OpenFile_Write :: "nat \<Rightarrow> bytes \<Rightarrow> os \<Rightarrow> os result" where
  "OpenFile_Write f bs s = rbind (deref_file f s) (\<lambda>x.
     rbind (ASSERT (0 \<le> sint (currentOffset x))) (\<lambda>_.
     Inr (s\<lparr>unixFiles := (unixFiles s)(of_file x \<mapsto> write_at (nat (sint (currentOffset x))) bs (file_contents (of_file x) s)),
            openFiles := (openFiles s)(f \<mapsto> x\<lparr>currentOffset := currentOffset x + of_nat (length bs)\<rparr>)\<rparr>)))"

section \<open>File system calls\<close>

definition Create_Syscall :: "32 word \<Rightarrow> int \<Rightarrow> os \<Rightarrow> os result" where
  "Create_Syscall vaddr len s = rbind (new_char (len + 1)) (\<lambda>_.
     rbind (copyin vaddr len s) (\<lambda>(buf, s).
     if len < 0 then Inl Undefined else Inr (FileSystem_Create (c_string buf) s)))"

definition Open_Syscall :: "32 word \<Rightarrow> int \<Rightarrow> os \<Rightarrow> (int \<times> os) result" where
  "Open_Syscall vaddr len s = rbind (new_char (len + 1)) (\<lambda>_.
     rbind (copyin vaddr len s) (\<lambda>(buf, s).
     if len < 0 then Inl Undefined
     else case FileSystem_Open (c_string buf) s of
       (None, s) \<Rightarrow> Inr (-1, s)
     | (Some f, s) \<Rightarrow> rbind (cur_space s) (\<lambda>a.
         rbind (Table_Put (Some f) (fileTable (spaces s a))) (\<lambda>(fid, t).
         let s = set_files a t s in
         Inr (fid, if fid = -1 then OpenFile_delete f s else s)))))"

definition Write_Syscall :: "32 word \<Rightarrow> int \<Rightarrow> int \<Rightarrow> os \<Rightarrow> os result" where
  "Write_Syscall vaddr len fid s =
     (if fid = ConsoleInput then Inr s
      else rbind (new_char len) (\<lambda>_. rbind (copyin vaddr len s) (\<lambda>(buf, s).
        if fid = ConsoleOutput then Inr (say (Text buf) s)
        else rbind (cur_space s) (\<lambda>a. rbind (Table_Get fid (fileTable (spaces s a))) (\<lambda>p. case p of
          Some f \<Rightarrow> OpenFile_Write f buf s
        | None \<Rightarrow> Inr (say (Message ''Bad OpenFileId passed to Write'' []) s))))))"

text \<open>\<open>scanf("%s", buf)\<close> stores the next word and a terminating zero, without a bound; at the end of
  the input it stores nothing.\<close>

definition scanf_s :: "nat \<Rightarrow> os \<Rightarrow> (bytes \<times> os) result" where
  "scanf_s len s = (let old = map (heapJunk s) [0..<len] in
     case keyboard s of [] \<Rightarrow> Inr (old, s)
     | w # ws \<Rightarrow> if length w + 1 \<le> len then Inr (w @ [0] @ drop (length w + 1) old, s\<lparr>keyboard := ws\<rparr>) else Inl Undefined)"

definition Read_Syscall :: "32 word \<Rightarrow> int \<Rightarrow> int \<Rightarrow> os \<Rightarrow> (int \<times> os) result" where
  "Read_Syscall vaddr len fid s =
     (if fid = ConsoleOutput then Inr (-1, s)
      else rbind (new_char len) (\<lambda>_.
        if fid = ConsoleInput then rbind (scanf_s (nat len) s) (\<lambda>(buf, s).
          rbind (copyout vaddr buf s) (\<lambda>s. Inr (len, s)))
        else rbind (cur_space s) (\<lambda>a. rbind (Table_Get fid (fileTable (spaces s a))) (\<lambda>p. case p of
          Some f \<Rightarrow> rbind (OpenFile_Read f (nat len) s) (\<lambda>(buf, s).
            rbind (copyout vaddr buf s) (\<lambda>s. Inr (int (length buf), s)))
        | None \<Rightarrow> Inr (-1, say (Message ''Bad OpenFileId passed to Read'' []) s)))))"

definition Close_Syscall :: "int \<Rightarrow> os \<Rightarrow> os result" where
  "Close_Syscall fd s = rbind (cur_space s) (\<lambda>a.
     rbind (Table_Remove fd (fileTable (spaces s a))) (\<lambda>(p, t).
     let s = set_files a t s in
     Inr (case p of Some f \<Rightarrow> OpenFile_delete f s | None \<Rightarrow> say (Message ''Tried to close an unopen file'' []) s)))"

text \<open>\<open>rand_values s k\<close> is what the \<open>k\<close>-th call of \<open>rand()\<close> from now returns.\<close>

definition rand_Syscall :: "os \<Rightarrow> 32 word \<times> os" where
  "rand_Syscall s = (rand_values s 0, s\<lparr>rand_values := \<lambda>k. rand_values s (Suc k)\<rparr>)"

section \<open>Locks and condition variables of user programs\<close>

text \<open>Each call starts by acquiring the lock of its table; the rest is run once it has it.\<close>

definition Acquire_Syscall :: "int \<Rightarrow> os \<Rightarrow> os result" where
  "Acquire_Syscall n s = Acquire LockTableLock (push [F_Code (Acquire_body n)] s)"

definition acquire_body :: "int \<Rightarrow> os \<Rightarrow> os result" where
  "acquire_body n s =
     (if \<not> valid_handle n (LockTable s) \<or> kl_IsDeleted (LockTable s ! nat n) \<or> Kernel_Lock (LockTable s ! nat n) = None
      then Inr (push [F_Release LockTableLock, F_Code (Return 0)] (say (Message ''Invalid Lock Table Number in Acquire.'' []) s))
      else Acquire (the (Kernel_Lock (LockTable s ! nat n))) (push [F_Release LockTableLock, F_Code (Return 0)] s))"

definition Release_Syscall :: "int \<Rightarrow> os \<Rightarrow> os result" where
  "Release_Syscall n s = Acquire LockTableLock (push [F_Code (Release_body n)] s)"

definition release_body :: "int \<Rightarrow> os \<Rightarrow> os result" where
  "release_body n s =
     (if \<not> valid_handle n (LockTable s) \<or> Kernel_Lock (LockTable s ! nat n) = None
      then Inr (push [F_Release LockTableLock, F_Code (Return 0)] (say (Message ''Invalid Lock Table Number in Release.'' []) s))
      else Release (the (Kernel_Lock (LockTable s ! nat n))) (push [F_Release LockTableLock, F_Code (Release_after n)] s))"

definition release_after :: "int \<Rightarrow> os \<Rightarrow> os result" where
  "release_after n s =
     (let s' = push [F_Code (Return 0)] s; x = LockTable s ! nat n in
      if \<not> valid_handle n (LockTable s) then Inl Undefined
      else if kl_IsDeleted x then (case Kernel_Lock x of None \<Rightarrow> Inl Undefined
        | Some l \<Rightarrow> Inr (if waitingThreads (locks s l) = [] then set_lock_entry n (x\<lparr>Kernel_Lock := None\<rparr>) s' else s'))
      else Inr s')"

definition Wait_Syscall :: "int \<Rightarrow> int \<Rightarrow> os \<Rightarrow> os result" where
  "Wait_Syscall x lock s = Acquire CVTableLock (push [F_Code (Wait_body x lock)] s)"

definition valid_cv_and_lock :: "int \<Rightarrow> int \<Rightarrow> os \<Rightarrow> bool" where
  "valid_cv_and_lock x lock s \<longleftrightarrow> valid_handle x (CVTable s) \<and> kcv_CV (CVTable s ! nat x) \<noteq> None
     \<and> valid_handle lock (LockTable s) \<and> Kernel_Lock (LockTable s ! nat lock) \<noteq> None"

text \<open>\<open>LockTable[lock].Kernel_Lock->Release()\<close>, also where \<open>lock\<close> has just been found to be invalid.\<close>

definition release_entry :: "int \<Rightarrow> os \<Rightarrow> os result" where
  "release_entry lock s =
     (if \<not> valid_handle lock (LockTable s) then Inl Undefined
      else case Kernel_Lock (LockTable s ! nat lock) of None \<Rightarrow> Inl Undefined
        | Some l \<Rightarrow> Release l (push [F_Code (Return 0)] s))"

definition wait_body :: "int \<Rightarrow> int \<Rightarrow> os \<Rightarrow> os result" where
  "wait_body x lock s =
     (if \<not> valid_cv_and_lock x lock s
      then Inr (push [F_Release CVTableLock, F_Code (Release_entry lock)]
             (say (Message ''Invalid CV Table Number and/or Invalid Lock Table Number.'' []) s))
      else Inr (push [F_Release CVTableLock, F_Code (Wait_call x lock)] s))"

definition wait_call :: "int \<Rightarrow> int \<Rightarrow> os \<Rightarrow> os result" where
  "wait_call x lock s =
     (if \<not> valid_handle x (CVTable s) \<or> \<not> valid_handle lock (LockTable s) then Inl Undefined
      else case kcv_CV (CVTable s ! nat x) of None \<Rightarrow> Inl Undefined
        | Some c \<Rightarrow> Wait c (Kernel_Lock (LockTable s ! nat lock)) (push [F_Code (Release_entry lock)] s))"

definition Signal_Syscall :: "int \<Rightarrow> int \<Rightarrow> os \<Rightarrow> os result" where
  "Signal_Syscall y a s = Acquire CVTableLock (push [F_Code (Signal_body y a)] s)"

definition signal_body :: "int \<Rightarrow> int \<Rightarrow> os \<Rightarrow> os result" where
  "signal_body y a s =
     (if \<not> valid_cv_and_lock y a s
      then Inr (push [F_Release CVTableLock, F_Code (Release_entry a)]
             (say (Message ''Invalid CV Table Number and/or Invalid Lock Table Number.'' []) s))
      else Signal (the (kcv_CV (CVTable s ! nat y))) (Kernel_Lock (LockTable s ! nat a)) (push [F_Code (Signal_after y)] s))"

definition signal_after :: "int \<Rightarrow> os \<Rightarrow> os result" where
  "signal_after y s =
     (let s' = push [F_Release CVTableLock, F_Code (Return 0)] s; x = CVTable s ! nat y in
      if \<not> valid_handle y (CVTable s) then Inl Undefined
      else if kcv_IsDeleted x then (case kcv_CV x of None \<Rightarrow> Inl Undefined
        | Some c \<Rightarrow> Inr (if waitingCV (conditions s c) = [] then set_cv_entry y (x\<lparr>kcv_CV := None\<rparr>) s' else s'))
      else Inr s')"

definition Broadcast_Syscall :: "int \<Rightarrow> int \<Rightarrow> os \<Rightarrow> os result" where
  "Broadcast_Syscall z b s = Acquire CVTableLock (push [F_Code (Broadcast_body z b)] s)"

definition broadcast_body :: "int \<Rightarrow> int \<Rightarrow> os \<Rightarrow> os result" where
  "broadcast_body z b s =
     (if \<not> valid_cv_and_lock z b s
      then Inr (push [F_Release CVTableLock, F_Code (Release_entry b)]
             (say (Message ''Invalid CV Table Number and/or Invalid Lock Table Number.'' []) s))
      else Broadcast (the (kcv_CV (CVTable s ! nat z))) (the (Kernel_Lock (LockTable s ! nat b)))
             (push [F_Release CVTableLock, F_Code (Return 0)] s))"

definition CreateLock_Syscall :: "os \<Rightarrow> os result" where
  "CreateLock_Syscall s = Acquire LockTableLock (push [F_Code CreateLock_body] s)"

text \<open>\<open>new\<close> never returns the address of an object threads are waiting for.\<close>

definition createLock_body :: "os \<Rightarrow> os result" where
  "createLock_body s0 =
     (let tempLock = next_lock s0;
          s1 = (set_lock tempLock (Lock_new (ownerJunk s0)) s0)\<lparr>next_lock := Suc tempLock\<rparr>;
          s = s1\<lparr>LockTable := LockTable s1 @ [\<lparr>Kernel_Lock = Some tempLock, kl_Owner = None, kl_IsDeleted = False\<rparr>]\<rparr>;
          x = of_nat (length (LockTable s) - 1)
      in if waitingThreads (locks s0 tempLock) \<noteq> [] then Inl Undefined else Inr (push [F_Release LockTableLock, F_Code (Return x)] s))"

definition DestroyLock_Syscall :: "int \<Rightarrow> os \<Rightarrow> os result" where
  "DestroyLock_Syscall n s = Acquire LockTableLock (push [F_Code (DestroyLock_body n)] s)"

definition destroyLock_body :: "int \<Rightarrow> os \<Rightarrow> os result" where
  "destroyLock_body n s =
     (let s' = push [F_Release LockTableLock, F_Code (Return 0)] s; x = LockTable s ! nat n in
      if \<not> valid_handle n (LockTable s) then Inr (say (Message ''Invalid Lock Table Number.'' []) s')
      else case Kernel_Lock x of None \<Rightarrow> Inr (say (Message ''Invalid Lock Table Number.'' []) s')
      | Some l \<Rightarrow> Inr (
          let empty = waitingThreads (locks s l) = [] in
          if \<not> empty \<and> \<not> kl_IsDeleted x
          then say (Message ''Lock has waiting Threads, setting Delete'' []) (set_lock_entry n (x\<lparr>kl_IsDeleted := True\<rparr>) s')
          else if empty \<and> \<not> kl_IsDeleted x
          then say (Message ''Lock has no waiting Threads, setting Delete and Lock'' [])
                 (set_lock_entry n (x\<lparr>kl_IsDeleted := True, Kernel_Lock := None\<rparr>) s')
          else if empty \<and> kl_IsDeleted x
          then say (Message ''Lock has waiting Threads, now setting Lock to NULL'' []) (set_lock_entry n (x\<lparr>Kernel_Lock := None\<rparr>) s')
          else s'))"

definition CreateCV_Syscall :: "os \<Rightarrow> os result" where
  "CreateCV_Syscall s = Acquire CVTableLock (push [F_Code CreateCV_body] s)"

definition createCV_body :: "os \<Rightarrow> os result" where
  "createCV_body s0 =
     (let cv = next_cond s0;
          s1 = (set_cond cv Condition_new s0)\<lparr>next_cond := Suc cv\<rparr>;
          s = s1\<lparr>CVTable := CVTable s1 @ [\<lparr>kcv_CV = Some cv, kcv_IsDeleted = False\<rparr>]\<rparr>;
          x = of_nat (length (CVTable s) - 1)
      in if waitingCV (conditions s0 cv) \<noteq> [] then Inl Undefined else Inr (push [F_Release CVTableLock, F_Code (Return x)] s))"

definition DestroyCV_Syscall :: "int \<Rightarrow> os \<Rightarrow> os result" where
  "DestroyCV_Syscall n s = Acquire CVTableLock (push [F_Code (DestroyCV_body n)] s)"

definition destroyCV_body :: "int \<Rightarrow> os \<Rightarrow> os result" where
  "destroyCV_body n s =
     (let s' = push [F_Release CVTableLock, F_Code (Return 0)] s; x = CVTable s ! nat n in
      if \<not> valid_handle n (CVTable s) then Inr (say (Message ''Invalid CV Table Number.'' []) s')
      else case kcv_CV x of None \<Rightarrow> Inr (say (Message ''Invalid CV Table Number.'' []) s')
      | Some c \<Rightarrow> Inr (
          let empty = waitingCV (conditions s c) = [] in
          if \<not> empty \<and> \<not> kcv_IsDeleted x
          then say (Message ''CV has waiting Threads, setting Delete'' []) (set_cv_entry n (x\<lparr>kcv_IsDeleted := True\<rparr>) s')
          else if empty \<and> \<not> kcv_IsDeleted x
          then say (Message ''CV has no waiting Threads, setting Delete and Lock'' [])
                 (set_cv_entry n (x\<lparr>kcv_IsDeleted := True, kcv_CV := None\<rparr>) s')
          else if empty \<and> kcv_IsDeleted x
          then say (Message ''CV has waiting Threads, now setting Lock to NULL'' []) (set_cv_entry n (x\<lparr>kcv_CV := None\<rparr>) s')
          else s'))"

section \<open>Processes\<close>

text \<open>\<open>machine->Run()\<close>: user mode, and the loop.\<close>

definition Machine_Run :: "os \<Rightarrow> os" where
  "Machine_Run s = push [F_Code User] (s\<lparr>mstatus := UserMode\<rparr>)"

definition new_process :: "os \<Rightarrow> os result" where
  "new_process s = rbind (cur_space s) (\<lambda>a.
     rbind (on_machine (InitRegisters (spaces s a)) s) (\<lambda>s.
     rbind (RestoreState a s) (\<lambda>s. Inr (Machine_Run s))))"

definition kernel_run :: "32 word \<Rightarrow> os \<Rightarrow> os result" where
  "kernel_run vaddr s =
     rbind (on_machine (WriteRegister (int PCReg) vaddr) s) (\<lambda>s.
     rbind (on_machine (WriteRegister (int NextPCReg) (vaddr + 4)) s) (\<lambda>s.
     rbind (cur_space s) (\<lambda>a.
     rbind (RestoreState a s) (\<lambda>s.
     rbind (on_machine (WriteRegister (int StackReg) (of_nat (as_numPages (spaces s a)) * of_nat PageSize - 8)) s) (\<lambda>s.
     Inr (Machine_Run s))))))"

text \<open>\<open>new AddrSpace(file)\<close>\<close>

definition new_AddrSpace :: "nat \<Rightarrow> os \<Rightarrow> (nat \<times> os) result" where
  "new_AddrSpace f s = rbind (deref_file f s) (\<lambda>x. case k_machine s of None \<Rightarrow> Inl Undefined
     | Some m \<Rightarrow> rbind (AddrSpace_new (hostBigEndian s) (heapJunk s) (freshTable s) (next_table s) (file_contents (of_file x) s) m (memMap s))
         (\<lambda>(a, m, map). Inr (next_space s, s\<lparr>spaces := (spaces s)(next_space s := a), k_machine := Some m, memMap := map,
            next_space := Suc (next_space s), next_table := Suc (next_table s)\<rparr>)))"

text \<open>\<open>new Process()\<close> with the counters the callers set.\<close>

definition put_process :: "os \<Rightarrow> (int \<times> os) result" where
  "put_process s = rbind (Table_Put (Some (next_process s)) (processTable s)) (\<lambda>(pid, t).
     Inr (pid, s\<lparr>processTable := t, next_process := Suc (next_process s),
       processes := (processes s)(next_process s := \<lparr>p_id = pid, activeThreadCount = 1, inactiveThreadCount = 0\<rparr>)\<rparr>))"

definition get_process :: "int \<Rightarrow> os \<Rightarrow> nat option result" where
  "get_process pid s = Table_Get pid (processTable s)"

definition alloc_Thread :: "os \<Rightarrow> (tid \<times> os) result" where
  "alloc_Thread s = rbind (new_Thread (next_thread s) s) (\<lambda>s'. Inr (next_thread s, s'\<lparr>next_thread := Suc (next_thread s)\<rparr>))"

definition Exec_Syscall :: "32 word \<Rightarrow> 32 word \<Rightarrow> os \<Rightarrow> os result" where
  "Exec_Syscall vaddr len s =
     rbind (copyin vaddr (int MAXFILENAME) s) (\<lambda>(filename, s).
     if unat len \<ge> MAXFILENAME then Inl Undefined
     else case FileSystem_Open (c_string (filename[unat len := 0])) s of
       (None, s) \<Rightarrow> Inr (push [F_Code (Return (-1))] (say (Message ''File could not be opened!'' []) s))
     | (Some f, s) \<Rightarrow> Acquire syscallLock (push [F_Code (Exec_body f)] s))"

text \<open>The new \<open>Thread\<close> is known to its creator alone until it is forked; the model allocates it there.\<close>

definition exec_body :: "nat \<Rightarrow> os \<Rightarrow> os result" where
  "exec_body f s =
     rbind (new_AddrSpace f s) (\<lambda>(a, s).
     rbind (put_process s) (\<lambda>(processID, s).
     if processID = -1
     then Inr (push [F_Code (Return (-1))] (say (Message ''Could not add process to Process Table!'' []) (OpenFile_delete f s)))
     else Release syscallLock (push [F_Code (Exec_fork a processID)]
            (OpenFile_delete f (say (Message ''Added new process with ID = %d'' [processID]) s)))))"

definition exec_fork :: "nat \<Rightarrow> int \<Rightarrow> os \<Rightarrow> os result" where
  "exec_fork a processID s = rbind (alloc_Thread s) (\<lambda>(t, s).
     let s = set_thread t ((threads s t)\<lparr>space := Some a, t_pid := processID, t_id := 1\<rparr>) s
     in Fork t newProcess (push [F_Code (Return (word_of_int processID))] s))"

definition Fork_Syscall :: "32 word \<Rightarrow> os \<Rightarrow> os result" where
  "Fork_Syscall funcAddr s = Acquire syscallLock (push [F_Code (Fork_body funcAddr)] s)"

definition fork_body :: "32 word \<Rightarrow> os \<Rightarrow> os result" where
  "fork_body funcAddr s0 =
     rbind (alloc_Thread (say (Message ''Forking Thread!'' []) s0)) (\<lambda>(t, s).
     let processID = t_pid (cur s) in
     rbind (get_process processID s) (\<lambda>q. case q of
       None \<Rightarrow> Inr (push [F_Code (Return 0)] (say (Message ''Failed to fetch process %d from Process Table!'' [processID]) s))
     | Some i \<Rightarrow>
       let p = processes s i;
           p = p\<lparr>activeThreadCount := activeThreadCount p + 1\<rparr>;
           s = s\<lparr>processes := (processes s)(i := p)\<rparr>;
           s = set_thread t ((threads s t)\<lparr>t_id := inactiveThreadCount p + activeThreadCount p, t_pid := processID,
                 space := space (cur s)\<rparr>) s
       in Fork t (kernelRun funcAddr) (push [F_Code Fork_restore] s)))"

definition fork_restore :: "os \<Rightarrow> os result" where
  "fork_restore s = rbind (cur_space s) (\<lambda>a. rbind (RestoreState a s) (\<lambda>s.
     Release syscallLock (push [F_Code (Return 0)] s)))"

definition Exit_Syscall :: "int \<Rightarrow> os \<Rightarrow> os result" where
  "Exit_Syscall exitCode s = Acquire syscallLock (push [F_Code Exit_body] (say (Message ''EXITING WITH CODE = %d'' [exitCode]) s))"

text \<open>One thread of a process less; then \<open>Finish\<close>, which does not return.\<close>

definition thread_exits :: "nat \<Rightarrow> os \<Rightarrow> os result" where
  "thread_exits i s =
     (let p = processes s i;
          p = p\<lparr>activeThreadCount := activeThreadCount p - 1, inactiveThreadCount := inactiveThreadCount p + 1\<rparr>;
          s = say (Message ''Thread Finishing!'' []) (s\<lparr>processes := (processes s)(i := p)\<rparr>)
      in Release syscallLock (push [F_Finish] s))"

definition exit_body :: "os \<Rightarrow> os result" where
  "exit_body s =
     (let processID = t_pid (cur s) in
      rbind (get_process processID s) (\<lambda>q. case q of None \<Rightarrow> Inl Undefined
      | Some i \<Rightarrow>
        if tbl_size (processTable s) > 1
        then (if activeThreadCount (processes s i) = 1
              then Release syscallLock (push [F_Code (Exit_remove processID)] s)
              else thread_exits i s)
        else (if activeThreadCount (processes s i) = 1
              then Inl Halted
              else thread_exits i s)))"

definition exit_remove :: "int \<Rightarrow> os \<Rightarrow> os result" where
  "exit_remove processID s = rbind (Table_Remove processID (processTable s)) (\<lambda>(_, t). Finish (s\<lparr>processTable := t\<rparr>))"

text \<open>\<open>printf\<close> of a buffer the caller has to terminate.\<close>

definition printf_Syscall :: "32 word \<Rightarrow> int \<Rightarrow> int \<Rightarrow> int \<Rightarrow> os \<Rightarrow> os result" where
  "printf_Syscall vaddr len a b s = Acquire PrintfLock (push [F_Code (printf_body vaddr len a b)] s)"

definition printf_args :: "int \<Rightarrow> int \<Rightarrow> int list" where
  "printf_args a b =
     (if b \<ge> 100 then [a, b mod 100, b div 100 - 1]
      else if b = -1 then [a]
      else if a = -1 \<and> b = -1 then []
      else [a, b])"

definition print_body :: "32 word \<Rightarrow> int \<Rightarrow> int \<Rightarrow> int \<Rightarrow> os \<Rightarrow> os result" where
  "print_body vaddr len a b s = rbind (new_char len) (\<lambda>_. rbind (copyin vaddr len s) (\<lambda>(c_buf, s).
     if 0 \<notin> set c_buf then Inl Undefined
     else Release PrintfLock (push [F_Code (Return 0)] (say (Printf (c_string c_buf) (printf_args a b)) s))))"

section \<open>Exceptions\<close>

definition finish_syscall :: "32 word \<Rightarrow> os \<Rightarrow> os result" where
  "finish_syscall rv s = on_machine (\<lambda>m.
     rbind (WriteRegister 2 rv m) (\<lambda>m.
     rbind (ReadRegister (int PCReg) m) (\<lambda>pc. rbind (WriteRegister (int PrevPCReg) pc m) (\<lambda>m.
     rbind (ReadRegister (int NextPCReg) m) (\<lambda>next. rbind (WriteRegister (int PCReg) next m) (\<lambda>m.
     rbind (ReadRegister (int PCReg) m) (\<lambda>pc. WriteRegister (int NextPCReg) (pc + 4) m))))))) s"

text \<open>A call that returns at once with a value.\<close>

definition returning :: "(int \<times> os) result \<Rightarrow> os result" where
  "returning r = rbind r (\<lambda>(rv, s). Inr (push [F_Code (Return (word_of_int rv))] s))"

definition returning0 :: "os result \<Rightarrow> os result" where
  "returning0 r = rbind r (\<lambda>s. Inr (push [F_Code (Return 0)] s))"

definition syscall :: "int \<Rightarrow> 32 word \<Rightarrow> 32 word \<Rightarrow> 32 word \<Rightarrow> 32 word \<Rightarrow> os \<Rightarrow> os result" where
  "syscall type a4 a5 a6 a7 s =
     (if type = 0 then Inl Halted
      else if type = 4 then returning0 (Create_Syscall a4 (sint a5) s)
      else if type = 5 then returning (Open_Syscall a4 (sint a5) s)
      else if type = 7 then returning0 (Write_Syscall a4 (sint a5) (sint a6) s)
      else if type = 6 then returning (Read_Syscall a4 (sint a5) (sint a6) s)
      else if type = 8 then returning0 (Close_Syscall (sint a4) s)
      else if type = 2 then Exec_Syscall a4 a5 s
      else if type = 9 then Fork_Syscall a4 s
      else if type = 1 then Exit_Syscall (sint a4) s
      else if type = 10 then Yield (push [F_Code (Return 0)] s)
      else if type = 11 then Acquire_Syscall (sint a4) s
      else if type = 12 then Release_Syscall (sint a4) s
      else if type = 13 then Wait_Syscall (sint a4) (sint a5) s
      else if type = 14 then Signal_Syscall (sint a4) (sint a5) s
      else if type = 15 then Broadcast_Syscall (sint a4) (sint a5) s
      else if type = 16 then CreateLock_Syscall s
      else if type = 17 then DestroyLock_Syscall (sint a4) s
      else if type = 18 then CreateCV_Syscall s
      else if type = 19 then DestroyCV_Syscall (sint a4) s
      else if type = 20 then printf_Syscall a4 (sint a5) (sint a6) (sint a7) s
      else if type = 21 then (let (r, s) = rand_Syscall s in Inr (push [F_Code (Return r)] s))
      else Inr (push [F_Code (Return 0)] s))"

definition ExceptionHandler :: "ExceptionType \<Rightarrow> os \<Rightarrow> os result" where
  "ExceptionHandler which s =
     rbind (arg 2 s) (\<lambda>type.
     if which = SyscallException
     then rbind (arg 4 s) (\<lambda>a4. rbind (arg 5 s) (\<lambda>a5. rbind (arg 6 s) (\<lambda>a6. rbind (arg 7 s) (\<lambda>a7.
          syscall (sint type) a4 a5 a6 a7 s))))
     else Inl Halted)"

text \<open>One round of the loop of \<open>Machine::Run\<close>; \<open>Trap\<close> is \<open>RaiseException\<close>.\<close>

definition user_instruction :: "os \<Rightarrow> os result" where
  "user_instruction s = rbind (with_machine (\<lambda>m. rbind (OneInstruction (hostBigEndian s) (totalTicks (stats s)) m) (\<lambda>out.
       Inr (case out of Next m' \<Rightarrow> (None, m') | Trap e m' \<Rightarrow> (Some e, m')))) s) (\<lambda>(trap, s).
     case trap of
       None \<Rightarrow> Inr (OneTick (push [F_Code User] s))
     | Some e \<Rightarrow> ExceptionHandler e (push [F_SetStatus UserMode, F_Code Tick, F_Code User] (s\<lparr>mstatus := SystemMode\<rparr>)))"

fun exec :: "ucode \<Rightarrow> os \<Rightarrow> os result" where
  "exec User s = user_instruction s"
| "exec Tick s = Inr (OneTick s)"
| "exec (Return rv) s = finish_syscall rv s"
| "exec newProcess s = new_process s"
| "exec (kernelRun vaddr) s = kernel_run vaddr s"
| "exec (Acquire_body n) s = acquire_body n s"
| "exec (Release_body n) s = release_body n s"
| "exec (Release_after n) s = release_after n s"
| "exec (Wait_body x l) s = wait_body x l s"
| "exec (Wait_call x l) s = wait_call x l s"
| "exec (Release_entry l) s = release_entry l s"
| "exec (Signal_body y a) s = signal_body y a s"
| "exec (Signal_after y) s = signal_after y s"
| "exec (Broadcast_body z b) s = broadcast_body z b s"
| "exec CreateLock_body s = createLock_body s"
| "exec (DestroyLock_body n) s = destroyLock_body n s"
| "exec CreateCV_body s = createCV_body s"
| "exec (DestroyCV_body n) s = destroyCV_body n s"
| "exec (Exec_body f) s = exec_body f s"
| "exec (Exec_fork a p) s = exec_fork a p s"
| "exec (Fork_body a) s = fork_body a s"
| "exec Fork_restore s = fork_restore s"
| "exec Exit_body s = exit_body s"
| "exec (Exit_remove p) s = exit_remove p s"
| "exec (printf_body v l a b) s = print_body v l a b s"

text \<open>\<open>StartProcess\<close>: the first user program, on the main thread.\<close>

definition StartProcess :: "bytes \<Rightarrow> os \<Rightarrow> os result" where
  "StartProcess filename s = (case FileSystem_Open filename s of
       (None, s) \<Rightarrow> Inr (say (Message ''Unable to open file'' []) s)
     | (Some f, s) \<Rightarrow>
       rbind (new_AddrSpace f s) (\<lambda>(a, s).
       let s = set_thread (currentThread s) ((cur s)\<lparr>space := Some a\<rparr>) s in
       rbind (put_process s) (\<lambda>(processID, s).
       let s = OpenFile_delete f (if processID = -1 then say (Message ''Failed to add process %d to Process Table!'' [processID]) s else s) in
       rbind (on_machine (InitRegisters (spaces s a)) s) (\<lambda>s.
       rbind (RestoreState a s) (\<lambda>s. Inr (Machine_Run s))))))"

end
