(* ===== verification/User_Copy.thy ===== *)
theory User_Copy
  imports Syscalls
begin

text \<open>
  \<open>copyin\<close> and \<open>copyout\<close> of \<open>userprog/exception.cc\<close>: what the kernel reads from and writes to the
  memory of a user program, through its page table, byte by byte.
\<close>

declare PageSize_128 [simp del]

section \<open>The page table as a map\<close>

definition page_entry :: "machine \<Rightarrow> nat \<Rightarrow> 32 word \<Rightarrow> TranslationEntry" where
  "page_entry m p v = pageTables m p ! (unat v div PageSize)"

definition accessible :: "machine \<Rightarrow> nat \<Rightarrow> bool \<Rightarrow> 32 word \<Rightarrow> bool" where
  "accessible m p writing v \<longleftrightarrow> unat v div PageSize < m_pageTableSize m \<and> valid (page_entry m p v)
     \<and> \<not> (readOnly (page_entry m p v) \<and> writing) \<and> unat (physicalPage (page_entry m p v)) < NumPhysPages"

definition phys :: "machine \<Rightarrow> nat \<Rightarrow> 32 word \<Rightarrow> nat" where
  "phys m p v = unat (physicalPage (page_entry m p v)) * PageSize + unat v mod PageSize"

text \<open>\<open>m\<close> and \<open>m'\<close> map the same pages of table \<open>p\<close> and have the same registers.\<close>

definition same_map :: "nat \<Rightarrow> machine \<Rightarrow> machine \<Rightarrow> bool" where
  "same_map p m m' \<longleftrightarrow> m_tlb m' = m_tlb m \<and> m_pageTable m' = m_pageTable m \<and> m_pageTableSize m' = m_pageTableSize m
     \<and> registers m' = registers m \<and> length (pageTables m' p) = length (pageTables m p)
     \<and> (\<forall>i < length (pageTables m p). valid (pageTables m' p ! i) = valid (pageTables m p ! i)
          \<and> readOnly (pageTables m' p ! i) = readOnly (pageTables m p ! i)
          \<and> physicalPage (pageTables m' p ! i) = physicalPage (pageTables m p ! i))"

lemma same_map_refl [simp]: "same_map p m m"
  by (simp add: same_map_def)

lemma same_map_trans: "same_map p m m' \<Longrightarrow> same_map p m' m'' \<Longrightarrow> same_map p m m''"
  by (simp add: same_map_def)

lemma same_map_user: "same_map p m m' \<Longrightarrow> user_inv p m \<Longrightarrow> user_inv p m'"
  by (simp add: same_map_def user_inv_def)

lemma same_map_access:
  assumes "same_map p m m'" "user_inv p m"
  shows "accessible m' p w v = accessible m p w v" "accessible m p w v \<Longrightarrow> phys m' p v = phys m p v"
proof -
  have i: "unat v div PageSize < length (pageTables m p)" if "unat v div PageSize < m_pageTableSize m"
    using that assms(2) by (simp add: user_inv_def)
  then show "accessible m' p w v = accessible m p w v" "accessible m p w v \<Longrightarrow> phys m' p v = phys m p v"
    using assms(1) unfolding accessible_def phys_def page_entry_def same_map_def by auto
qed

lemma same_map_use:
  assumes "valid e = valid (pageTables m p ! i)" "readOnly e = readOnly (pageTables m p ! i)" "physicalPage e = physicalPage (pageTables m p ! i)"
  shows "same_map p m (m\<lparr>pageTables := (pageTables m)(p := (pageTables m p)[i := e])\<rparr>)"
proof (cases "i < length (pageTables m p)")
  case True
  with assms show ?thesis unfolding same_map_def by (auto simp: nth_list_update)
next
  case False
  then show ?thesis by (simp add: list_update_beyond same_map_def)
qed

lemma same_map_touch: "same_map p m m' \<Longrightarrow> same_map p m (touch pa now (m'\<lparr>mainMemory := mem\<rparr>))"
  by (simp add: same_map_def touch_def)

text \<open>One translation of a byte access.\<close>

lemma Translate_byte:
  assumes "user_inv p m"
  shows "if accessible m p w v then \<exists>m1. Translate v 1 w m = Inr (Inr (phys m p v, m1)) \<and> same_map p m m1 \<and> mainMemory m1 = mainMemory m
    else \<exists>e. Translate v 1 w m = Inr (Inl e)"
proof -
  have eq: "Translate v 1 w m =
    (let i = unat v div 128; e = pageTables m p ! i; pa = unat (physicalPage e) * 128 + unat v mod 128 in
     Inr (if unat v mod 1 \<noteq> 0 \<or> m_pageTableSize m \<le> i then Inl AddressErrorException
          else if \<not> valid e then Inl PageFaultException
          else if readOnly e \<and> w then Inl ReadOnlyException
          else if 4096 \<le> unat (physicalPage e) then Inl BusErrorException
          else Inr (pa, m\<lparr>pageTables := (pageTables m)(p := (pageTables m p)[i := e\<lparr>use := True, dirty := (w \<or> dirty e)\<rparr>])\<rparr>)))"
    using assms by (intro Translate_eq) (simp_all add: user_inv_def)
  have defs: "accessible m p w v \<longleftrightarrow> unat v div 128 < m_pageTableSize m \<and> valid (pageTables m p ! (unat v div 128))
     \<and> \<not> (readOnly (pageTables m p ! (unat v div 128)) \<and> w) \<and> unat (physicalPage (pageTables m p ! (unat v div 128))) < 4096"
    "phys m p v = unat (physicalPage (pageTables m p ! (unat v div 128))) * 128 + unat v mod 128"
    by (simp_all add: accessible_def phys_def page_entry_def PageSize_128 NumPhysPages_def)
  show ?thesis
  proof (cases "accessible m p w v")
    case True
    then show ?thesis unfolding eq Let_def by (auto simp: defs intro!: same_map_use)
  next
    case False
    then show ?thesis unfolding eq Let_def by (auto simp: defs)
  qed
qed

lemma scast_byte: "ucast (scast (b :: 8 word) :: 32 word) = b"
  by (rule bit_word_eqI) (auto simp: bit_simps)

lemma read_byte:
  assumes "user_inv p m"
  shows "if accessible m p False v then \<exists>m'. ReadMem be now v 1 m = Inr (Inr (scast (mainMemory m (phys m p v))), m')
      \<and> same_map p m m' \<and> mainMemory m' = mainMemory m
    else \<exists>e m'. ReadMem be now v 1 m = Inr (Inl e, m')"
proof (cases "accessible m p False v")
  case True
  with Translate_byte [OF assms, of False v] obtain m1 where m1: "Translate v 1 False m = Inr (Inr (phys m p v, m1))"
    "same_map p m m1" "mainMemory m1 = mainMemory m" by auto
  have "touch (phys m p v) now m1 = touch (phys m p v) now (m1\<lparr>mainMemory := mainMemory m1\<rparr>)" by simp
  then have "same_map p m (touch (phys m p v) now m1)" using same_map_touch [OF m1(2)] by metis
  with m1 True show ?thesis by (simp add: ReadMem_def)
next
  case False
  with Translate_byte [OF assms, of False v] obtain e where e: "Translate v 1 False m = Inr (Inl e)" by auto
  obtain m' where "RaiseException v m = Inr m'" by (rule RaiseException_ok [OF assms])
  with e False show ?thesis by (simp add: ReadMem_def)
qed

lemma write_byte:
  assumes "user_inv p m"
  shows "if accessible m p True v then \<exists>m'. WriteMem be now v 1 (scast b) m = Inr (Inr (), m')
      \<and> same_map p m m' \<and> mainMemory m' = (mainMemory m)(phys m p v := b)
    else \<exists>e m'. WriteMem be now v 1 (scast b) m = Inr (Inl e, m')"
proof (cases "accessible m p True v")
  case True
  with Translate_byte [OF assms, of True v] obtain m1 where m1: "Translate v 1 True m = Inr (Inr (phys m p v, m1))"
    "same_map p m m1" "mainMemory m1 = mainMemory m" by auto
  have "ucast ((scast b :: 32 word) AND 0xff) = b"
    using low_bytes(1) [of "scast b :: 32 word"] scast_byte [of b] by (simp add: byte_of_def)
  with m1 True same_map_touch [OF m1(2)] show ?thesis by (simp add: WriteMem_def)
next
  case False
  with Translate_byte [OF assms, of True v] obtain e where e: "Translate v 1 True m = Inr (Inl e)" by auto
  obtain m' where "RaiseException v m = Inr m'" by (rule RaiseException_ok [OF assms])
  with e False show ?thesis by (simp add: WriteMem_def)
qed

section \<open>Copying\<close>

lemma copyin_loop_ok:
  assumes "user_inv p m"
  shows "if \<forall>k < n. accessible m p False (v + of_nat k)
    then \<exists>m'. copyin_loop be now v n m = Inr (map (\<lambda>k. mainMemory m (phys m p (v + of_nat k))) [0..<n], m')
      \<and> same_map p m m' \<and> mainMemory m' = mainMemory m
    else copyin_loop be now v n m = Inl Halted"
  using assms
proof (induction n arbitrary: v m)
  case 0
  then show ?case by simp
next
  case (Suc n)
  have split: "(\<forall>k < Suc n. accessible m p False (v + of_nat k)) \<longleftrightarrow>
      accessible m p False v \<and> (\<forall>k < n. accessible m p False (v + 1 + of_nat k))"
    by (simp add: All_less_Suc2 add.assoc)
  show ?case
  proof (cases "accessible m p False v")
    case False
    with read_byte [OF Suc.prems, of v be now] obtain e m' where "ReadMem be now v 1 m = Inr (Inl e, m')" by auto
    with False split show ?thesis by simp
  next
    case True
    with read_byte [OF Suc.prems, of v be now] obtain m1 where m1: "ReadMem be now v 1 m = Inr (Inr (scast (mainMemory m (phys m p v))), m1)"
      "same_map p m m1" "mainMemory m1 = mainMemory m" by auto
    note acc = same_map_access [OF m1(2) Suc.prems]
    note IH = Suc.IH [OF same_map_user [OF m1(2) Suc.prems], of "v + 1"]
    show ?thesis
    proof (cases "\<forall>k < n. accessible m p False (v + 1 + of_nat k)")
      case False
      with IH acc(1) m1(1) split show ?thesis by auto
    next
      case all: True
      with IH acc(1) obtain m2 where m2: "copyin_loop be now (v + 1) n m1 = Inr (map (\<lambda>k. mainMemory m1 (phys m1 p (v + 1 + of_nat k))) [0..<n], m2)"
        "same_map p m1 m2" "mainMemory m2 = mainMemory m1" by auto
      have "map (\<lambda>k. mainMemory m1 (phys m1 p (v + 1 + of_nat k))) [0..<n] = map (\<lambda>k. mainMemory m (phys m p (v + of_nat (Suc k)))) [0..<n]"
        using all m1(3) acc(2) [of False] by (auto simp: add.assoc)
      moreover have "[0..<Suc n] = 0 # map Suc [0..<n]" by (simp only: map_Suc_upt) (rule upt_conv_Cons, simp)
      ultimately show ?thesis using True all split m1 m2 same_map_trans [OF m1(2) m2(2)]
        by (simp add: scast_byte comp_def del: upt_Suc)
    qed
  qed
qed

text \<open>The addresses a buffer of \<open>n\<close> bytes goes to are different.\<close>

definition apart :: "machine \<Rightarrow> nat \<Rightarrow> 32 word \<Rightarrow> nat \<Rightarrow> bool" where
  "apart m p v n \<longleftrightarrow> inj_on (\<lambda>k. phys m p (v + of_nat k)) {..<n}"

lemma copyout_loop_ok:
  assumes "user_inv p m"
  shows "if \<forall>k < length bs. accessible m p True (v + of_nat k)
    then \<exists>m'. copyout_loop be now v bs m = Inr m' \<and> same_map p m m'
      \<and> (apart m p v (length bs) \<longrightarrow> (\<forall>k < length bs. mainMemory m' (phys m p (v + of_nat k)) = bs ! k))
      \<and> (\<forall>pa. (\<forall>k < length bs. pa \<noteq> phys m p (v + of_nat k)) \<longrightarrow> mainMemory m' pa = mainMemory m pa)
    else copyout_loop be now v bs m = Inl Halted"
  using assms
proof (induction bs arbitrary: v m)
  case Nil
  then show ?case by simp
next
  case (Cons b bs)
  have split: "(\<forall>k < Suc (length bs). Q (v + of_nat k)) \<longleftrightarrow> Q v \<and> (\<forall>k < length bs. Q (v + 1 + of_nat k))" for Q :: "32 word \<Rightarrow> bool"
    by (simp add: All_less_Suc2 add.assoc)
  show ?case
  proof (cases "accessible m p True v")
    case False
    with write_byte [OF Cons.prems, of v be now b] obtain e m' where "WriteMem be now v 1 (scast b) m = Inr (Inl e, m')" by auto
    with False split [of "accessible m p True"] show ?thesis by simp
  next
    case True
    with write_byte [OF Cons.prems, of v be now b] obtain m1 where m1: "WriteMem be now v 1 (scast b) m = Inr (Inr (), m1)"
      "same_map p m m1" "mainMemory m1 = (mainMemory m)(phys m p v := b)" by auto
    note acc = same_map_access [OF m1(2) Cons.prems]
    note IH = Cons.IH [OF same_map_user [OF m1(2) Cons.prems], of "v + 1"]
    show ?thesis
    proof (cases "\<forall>k < length bs. accessible m p True (v + 1 + of_nat k)")
      case False
      with IH acc(1) m1(1) split [of "accessible m p True"] show ?thesis by auto
    next
      case all: True
      have ph: "phys m1 p (v + 1 + of_nat k) = phys m p (v + 1 + of_nat k)" if "k < length bs" for k
        using all acc(2) that by blast
      from IH all acc(1) obtain m2 where m2: "copyout_loop be now (v + 1) bs m1 = Inr m2" "same_map p m1 m2"
        "apart m1 p (v + 1) (length bs) \<longrightarrow> (\<forall>k < length bs. mainMemory m2 (phys m1 p (v + 1 + of_nat k)) = bs ! k)"
        "\<forall>pa. (\<forall>k < length bs. pa \<noteq> phys m1 p (v + 1 + of_nat k)) \<longrightarrow> mainMemory m2 pa = mainMemory m1 pa" by auto
      have 1: "\<forall>k < Suc (length bs). mainMemory m2 (phys m p (v + of_nat k)) = (b # bs) ! k" if ap: "apart m p v (Suc (length bs))"
      proof -
        have inj: "phys m p (v + of_nat i) \<noteq> phys m p (v + of_nat j)" if "i < Suc (length bs)" "j < Suc (length bs)" "i \<noteq> j" for i j
          using inj_onD [OF ap [unfolded apart_def], of i j] that by auto
        have "apart m1 p (v + 1) (length bs)" unfolding apart_def
        proof (rule inj_onI)
          fix i j
          assume ij: "i \<in> {..<length bs}" "j \<in> {..<length bs}" "phys m1 p (v + 1 + of_nat i) = phys m1 p (v + 1 + of_nat j)"
          then show "i = j" using inj [of "Suc i" "Suc j"] ph by (auto simp: add.assoc)
        qed
        moreover have "mainMemory m2 (phys m p v) = b"
        proof -
          have "phys m p v \<noteq> phys m1 p (v + 1 + of_nat k)" if "k < length bs" for k
            using inj [of 0 "Suc k"] ph [OF that] that by (auto simp: add.assoc)
          with m2(4) m1(3) show ?thesis by simp
        qed
        ultimately show ?thesis using m2(3) ph by (auto simp: All_less_Suc2 add.assoc)
      qed
      have 2: "mainMemory m2 pa = mainMemory m pa" if "\<forall>k < Suc (length bs). pa \<noteq> phys m p (v + of_nat k)" for pa
        using that m2(4) m1(3) ph unfolding split [of "\<lambda>x. pa \<noteq> phys m p x"] by simp
      show ?thesis using True all split [of "accessible m p True"] m1 m2(1) same_map_trans [OF m1(2) m2(2)] 1 2 by simp
    qed
  qed
qed

lemma apart_distinct:
  assumes "user_inv p m" "distinct (map physicalPage (pageTables m p))" "n \<le> 2 ^ 32" "\<forall>k < n. accessible m p w (v + of_nat k)"
  shows "apart m p v n"
  unfolding apart_def
proof (rule inj_onI)
  fix i j
  assume ij: "i \<in> {..<n}" "j \<in> {..<n}" and eq: "phys m p (v + of_nat i) = phys m p (v + of_nat j)"
  let ?a = "v + of_nat i" and ?b = "v + of_nat j"
  have pos: "0 < PageSize" by (rule PageSize_pos)
  have "unat ?a mod PageSize = unat ?b mod PageSize"
    using arg_cong [OF eq, of "\<lambda>x. x mod PageSize"] pos by (simp add: phys_def)
  moreover have "unat (physicalPage (page_entry m p ?a)) = unat (physicalPage (page_entry m p ?b))"
    using arg_cong [OF eq, of "\<lambda>x. x div PageSize"] pos by (simp add: phys_def)
  then have pp: "physicalPage (page_entry m p ?a) = physicalPage (page_entry m p ?b)" by (simp only: word_unat_eq_iff)
  have len: "unat ?a div PageSize < length (pageTables m p)" "unat ?b div PageSize < length (pageTables m p)"
    using assms(1,4) ij by (auto simp: accessible_def user_inv_def intro: less_le_trans)
  have "unat ?a div PageSize = unat ?b div PageSize"
    using nth_eq_iff_index_eq [OF assms(2), of "unat ?a div PageSize" "unat ?b div PageSize"] len pp by (simp add: page_entry_def)
  ultimately have "unat ?a = unat ?b" by (metis div_mult_mod_eq)
  then have "?a = ?b" by (simp only: word_unat_eq_iff)
  then have "(of_nat i :: 32 word) = of_nat j" by simp
  from arg_cong [OF this, of unat] have "i mod 2 ^ 32 = j mod 2 ^ 32" by (simp add: unat_of_nat)
  with ij assms(3) show "i = j" by simp
qed

section \<open>Properties\<close>

text \<open>C39. What the kernel copies out to a user program is what it copies in again from there: when the frames of the
  page table are different, \<open>copyin\<close> of the addresses a successful \<open>copyout\<close> has written returns
  the very bytes, on hosts of either byte order; and \<open>copyout\<close> changes no other byte of memory.\<close>

theorem copyout_copyin:
  assumes "user_inv p m" "distinct (map physicalPage (pageTables m p))" "length bs \<le> 2 ^ 32" "copyout_loop be now v bs m = Inr m'"
  shows "(\<exists>m''. copyin_loop be' now' v (length bs) m' = Inr (bs, m''))
    \<and> (\<forall>pa. (\<forall>k < length bs. pa \<noteq> phys m p (v + of_nat k)) \<longrightarrow> mainMemory m' pa = mainMemory m pa)"
proof -
  have acc: "\<forall>k < length bs. accessible m p True (v + of_nat k)"
    using copyout_loop_ok [OF assms(1), of bs v be now] assms(4) by (auto split: if_splits)
  then have ap: "apart m p v (length bs)" using apart_distinct assms(1-3) by blast
  from copyout_loop_ok [OF assms(1), of bs v be now] acc ap assms(4) have w: "same_map p m m'"
    "\<forall>k < length bs. mainMemory m' (phys m p (v + of_nat k)) = bs ! k"
    "\<forall>pa. (\<forall>k < length bs. pa \<noteq> phys m p (v + of_nat k)) \<longrightarrow> mainMemory m' pa = mainMemory m pa" by auto
  have ph: "phys m' p (v + of_nat k) = phys m p (v + of_nat k)" "accessible m' p False (v + of_nat k)" if "k < length bs" for k
    using acc that same_map_access [OF w(1) assms(1)] by (auto simp: accessible_def)
  have "map (\<lambda>k. mainMemory m' (phys m' p (v + of_nat k))) [0..<length bs] = bs"
    by (rule nth_equalityI) (use w(2) ph(1) in auto)
  with copyin_loop_ok [OF same_map_user [OF w(1) assms(1)], of "length bs" v be' now'] ph(2) w(3) show ?thesis by auto
qed

theorem copyout_copyin_witness:
  "\<exists>m' m''. copyout_loop True 0 126 [1, 2, 3, 4] sample_user = Inr m' \<and> copyin_loop False 1 126 4 m' = Inr ([1, 2, 3, 4], m'')"
proof -
  have u: "user_inv 0 sample_user" by (simp add: user_inv_def sample_user_def two_page_simps)
  have d: "distinct (map physicalPage (pageTables sample_user 0))" by (simp add: sample_user_def two_page_simps)
  have "accessible sample_user 0 True (126 + of_nat k)" if "k < 4" for k
  proof -
    from that have "k = 0 \<or> k = 1 \<or> k = 2 \<or> k = 3" by auto
    then show ?thesis by (auto simp: accessible_def page_entry_def sample_user_def two_page_simps PageSize_128 NumPhysPages_def)
  qed
  then obtain m' where m': "copyout_loop True 0 126 [1, 2, 3, 4] sample_user = Inr m'"
    using copyout_loop_ok [OF u, of "[1, 2, 3, 4]" 126 True 0] by auto
  have four: "length [1, 2, 3, 4 :: 8 word] = 4" "length [1, 2, 3, 4 :: 8 word] \<le> 2 ^ 32" by simp_all
  from copyout_copyin [OF u d four(2) m', of False 1, unfolded four(1)] m' show ?thesis by blast
qed

text \<open>A bad pointer halts the machine: \<open>copyin\<close> either returns all the bytes asked for, unchanged memory included, or
  stops the whole machine, the latter exactly when one of the addresses is not readable; it never
  returns the \<open>-1\<close> its comment announces and its callers test for.\<close>

theorem copyin_returns_or_halts:
  assumes "user_inv p m"
  shows "(copyin_loop be now v n m = Inl Halted \<longleftrightarrow> (\<exists>k < n. \<not> accessible m p False (v + of_nat k)))
    \<and> (\<forall>bs m'. copyin_loop be now v n m = Inr (bs, m') \<longrightarrow> length bs = n \<and> mainMemory m' = mainMemory m)
    \<and> (copyin_loop be now v n m \<noteq> Inl Halted \<longrightarrow> (\<exists>r. copyin_loop be now v n m = Inr r))"
  using copyin_loop_ok [OF assms, of n v be now] by (auto split: if_splits)

theorem copyin_returns_or_halts_witness:
  "copyin_loop False 0 254 4 sample_user = Inl Halted"
proof -
  have u: "user_inv 0 sample_user" by (simp add: user_inv_def sample_user_def two_page_simps)
  have "\<not> accessible sample_user 0 False (254 + of_nat 2)"
    by (simp add: accessible_def sample_user_def two_page_simps PageSize_128)
  then have "\<exists>k < 4. \<not> accessible sample_user 0 False (254 + of_nat k)" by (intro exI [of _ 2]) simp
  with copyin_returns_or_halts [OF u, of False 0 254 4] show ?thesis by blast
qed

end
