(* ===== verification/Kernel_Frames.thy ===== *)
theory Kernel_Frames
  imports Kernel_Props
begin

text \<open>
  What a step of the kernel changes, seen from the code around it. \<open>cores\<close> of a thread are the frames that
  are not machinery of the interrupts and the scheduler; \<open>kview\<close> collects what the drivers of the devices
  depend on: the cores of all threads, the locks, the values of the semaphores, how often each handler is pending,
  and the state around the kernel. A step leaves the view as it is, or calls one handler, or runs one core frame.
\<close>

section \<open>The view\<close>

fun core :: "'c frame \<Rightarrow> bool" where
  "core (F_Code c) = True"
| "core (F_P i old) = True"
| "core (F_Acquire l) = True"
| "core (F_Release l) = True"
| "core (F_Broadcast c l) = True"
| "core _ = False"

definition cores :: "('h, 'c, 'z) kernel_scheme \<Rightarrow> tid \<Rightarrow> 'c frame list" where
  "cores s u = filter core (t_frames (threads s u))"

definition dones :: "('h, 'c, 'z) kernel_scheme \<Rightarrow> 'h \<Rightarrow> nat" where
  "dones s h = length (filter (\<lambda>(w, x). pi_handler x = h) (pending s))"

definition sem_values :: "('h, 'c, 'z) kernel_scheme \<Rightarrow> nat \<Rightarrow> int" where
  "sem_values s i = sem_value (semaphores s i)"

definition kview :: "('h, 'c, 'z) kernel_scheme \<Rightarrow>
    (tid \<Rightarrow> 'c frame list) \<times> (nat \<Rightarrow> Lock) \<times> (nat \<Rightarrow> int) \<times> ('h \<Rightarrow> nat) \<times> 'z" where
  "kview s = (cores s, locks s, sem_values s, dones s, kernel.more s)"

lemma kview_eqI:
  "cores s' = cores s \<Longrightarrow> locks s' = locks s \<Longrightarrow> sem_values s' = sem_values s \<Longrightarrow> dones s' = dones s
   \<Longrightarrow> kernel.more s' = kernel.more s \<Longrightarrow> kview s' = kview s"
  by (simp add: kview_def)

lemma kview_eqD:
  assumes "kview s' = kview s"
  shows "cores s' = cores s" "locks s' = locks s" "sem_values s' = sem_values s" "dones s' = dones s" "kernel.more s' = kernel.more s"
  using assms by (simp_all add: kview_def)

lemma cores_simps [simp]:
  "cores (set_sem i x s) = cores s" "cores (set_lock l y s) = cores s" "cores (set_cond c z s) = cores s"
  "cores (setStatus t st s) = cores s" "cores (s\<lparr>level := a\<rparr>) = cores s" "cores (s\<lparr>pending := p\<rparr>) = cores s"
  "cores (s\<lparr>inHandler := b\<rparr>) = cores s" "cores (s\<lparr>yieldOnReturn := b\<rparr>) = cores s" "cores (s\<lparr>mstatus := m\<rparr>) = cores s"
  "cores (s\<lparr>stats := st'\<rparr>) = cores s" "cores (s\<lparr>k_machine := km\<rparr>) = cores s" "cores (s\<lparr>currentThread := u\<rparr>) = cores s"
  "cores (s\<lparr>threadToBeDestroyed := d\<rparr>) = cores s" "cores (s\<lparr>live := lv\<rparr>) = cores s" "cores (s\<lparr>readyList := r\<rparr>) = cores s"
  "cores (s\<lparr>spaces := sp\<rparr>) = cores s"
  by (simp_all add: cores_def fun_eq_iff set_sem_def set_lock_def set_cond_def setStatus_def set_thread_def)

lemma cores_push: "cores (push fs s) = (cores s)(currentThread s := filter core fs @ cores s (currentThread s))"
  by (simp add: cores_def fun_eq_iff push_def set_thread_def cur_def)

lemma cores_push_machinery [simp]: "filter core fs = [] \<Longrightarrow> cores (push fs s) = cores s"
  by (simp add: cores_push)

lemma sem_values_simps [simp]:
  "sem_values (set_lock l y s) = sem_values s" "sem_values (set_cond c z s) = sem_values s" "sem_values (setStatus t st s) = sem_values s"
  "sem_values (set_thread t th s) = sem_values s" "sem_values (push fs s) = sem_values s"
  "sem_values (set_sem i x s) = (sem_values s)(i := sem_value x)"
  "sem_values (s\<lparr>level := a\<rparr>) = sem_values s" "sem_values (s\<lparr>pending := p\<rparr>) = sem_values s"
  "sem_values (s\<lparr>inHandler := b\<rparr>) = sem_values s" "sem_values (s\<lparr>yieldOnReturn := b\<rparr>) = sem_values s" "sem_values (s\<lparr>mstatus := m\<rparr>) = sem_values s"
  "sem_values (s\<lparr>stats := st'\<rparr>) = sem_values s" "sem_values (s\<lparr>k_machine := km\<rparr>) = sem_values s" "sem_values (s\<lparr>currentThread := u\<rparr>) = sem_values s"
  "sem_values (s\<lparr>threadToBeDestroyed := d\<rparr>) = sem_values s" "sem_values (s\<lparr>live := lv\<rparr>) = sem_values s" "sem_values (s\<lparr>readyList := r\<rparr>) = sem_values s"
  by (simp_all add: sem_values_def fun_eq_iff set_sem_def set_lock_def set_cond_def setStatus_def set_thread_def push_def)

lemma dones_simps [simp]:
  "dones (set_lock l y s) = dones s" "dones (set_cond c z s) = dones s" "dones (setStatus t st s) = dones s"
  "dones (set_thread t th s) = dones s" "dones (push fs s) = dones s" "dones (set_sem i x s) = dones s"
  "dones (s\<lparr>level := a\<rparr>) = dones s"
  "dones (s\<lparr>inHandler := b\<rparr>) = dones s" "dones (s\<lparr>yieldOnReturn := b\<rparr>) = dones s" "dones (s\<lparr>mstatus := m\<rparr>) = dones s"
  "dones (s\<lparr>stats := st'\<rparr>) = dones s" "dones (s\<lparr>k_machine := km\<rparr>) = dones s" "dones (s\<lparr>currentThread := u\<rparr>) = dones s"
  "dones (s\<lparr>threadToBeDestroyed := d\<rparr>) = dones s" "dones (s\<lparr>live := lv\<rparr>) = dones s" "dones (s\<lparr>readyList := r\<rparr>) = dones s"
  by (simp_all add: dones_def fun_eq_iff set_sem_def set_lock_def set_cond_def setStatus_def set_thread_def push_def)

lemma locks_simps [simp]:
  "locks (set_lock l y s) = (locks s)(l := y)" "locks (set_cond c z s) = locks s" "locks (setStatus t st s) = locks s"
  "locks (set_thread t th s) = locks s" "locks (push fs s) = locks s" "locks (set_sem i x s) = locks s"
  by (simp_all add: set_sem_def set_lock_def set_cond_def setStatus_def set_thread_def push_def)

lemma more_simps [simp]:
  "kernel.more (set_thread t th s) = kernel.more s" "kernel.more (setStatus t st s) = kernel.more s" "kernel.more (push fs s) = kernel.more s"
  "kernel.more (set_sem i x s) = kernel.more s" "kernel.more (set_lock l y s) = kernel.more s" "kernel.more (set_cond c z s) = kernel.more s"
  "kernel.more (OneTick s) = kernel.more s"
  by (simp_all add: set_thread_def setStatus_def push_def set_sem_def set_lock_def set_cond_def OneTick_def Let_def)

lemma dones_pending:
  "dones (s\<lparr>pending := sorted_ins w x ps\<rparr>) h = (if pi_handler x = h then 1 else 0) + dones (s\<lparr>pending := ps\<rparr>) h"
  by (induction ps) (auto simp: dones_def)

section \<open>The operations of the kernel\<close>

lemma kv_OneTick: "kview (OneTick s) = kview s"
  by (rule kview_eqI) (simp_all add: OneTick_def Let_def)

lemma kv_SetLevel: "SetLevel v s = Inr (old, s') \<Longrightarrow> kview s' = kview s"
proof -
  have "kview (s\<lparr>level := v\<rparr>) = kview s" by (rule kview_eqI) simp_all
  then show "SetLevel v s = Inr (old, s') \<Longrightarrow> kview s' = kview s"
    by (auto simp: SetLevel_def rbind_eq_Inr Let_def kv_OneTick split: if_splits)
qed

lemma kv_set_level: "set_level v s = Inr s' \<Longrightarrow> kview s' = kview s"
  by (auto simp: set_level_def rbind_eq_Inr dest: kv_SetLevel)

lemma kview_simps [simp]:
  "kview (s\<lparr>level := a\<rparr>) = kview s" "kview (s\<lparr>inHandler := b\<rparr>) = kview s" "kview (s\<lparr>yieldOnReturn := b\<rparr>) = kview s"
  "kview (s\<lparr>mstatus := m\<rparr>) = kview s" "kview (s\<lparr>stats := st'\<rparr>) = kview s" "kview (s\<lparr>k_machine := km\<rparr>) = kview s"
  "kview (s\<lparr>currentThread := u\<rparr>) = kview s" "kview (s\<lparr>threadToBeDestroyed := d\<rparr>) = kview s" "kview (s\<lparr>live := lv\<rparr>) = kview s"
  "kview (s\<lparr>readyList := r\<rparr>) = kview s" "kview (setStatus t st s) = kview s" "kview (set_cond c z s) = kview s"
  "filter core fs = [] \<Longrightarrow> kview (push fs s) = kview s"
  by (rule kview_eqI; simp)+

lemma kview_set_thread: "t_frames th = t_frames (threads s t) \<Longrightarrow> kview (set_thread t th s) = kview s"
proof (rule kview_eqI)
  show "t_frames th = t_frames (threads s t) \<Longrightarrow> cores (set_thread t th s) = cores s"
    by (simp add: cores_def fun_eq_iff set_thread_def)
qed simp_all

lemma kview_set_sem: "sem_value x = sem_values s i \<Longrightarrow> kview (set_sem i x s) = kview s"
  by (rule kview_eqI) (simp_all add: fun_eq_iff)

lemma kview_cong:
  "kview s' = kview s \<Longrightarrow> kview (set_lock l y s') = kview (set_lock l y s)"
  "kview s' = kview s \<Longrightarrow> kview (set_sem i x s') = kview (set_sem i x s)"
  "kview s' = kview s \<Longrightarrow> currentThread s' = currentThread s \<Longrightarrow> kview (push fs s') = kview (push fs s)"
  by (simp_all add: kview_def cores_push)

lemma kv_ReadyToRun: "ReadyToRun t s = Inr s' \<Longrightarrow> kview s' = kview s"
  by (auto simp: ReadyToRun_def rbind_eq_Inr)

lemma kv_Sleep: "Sleep s = Inr s' \<Longrightarrow> kview s' = kview s"
  by (auto simp: Sleep_def rbind_eq_Inr)

lemma kv_Run: "Run t s = Inr s' \<Longrightarrow> kview s' = kview s"
  by (auto simp: Run_def SaveUserState_def Let_def rbind_eq_Inr kview_set_thread split: if_splits option.splits)

lemma kv_Run_tail: "Run_tail s = Inr s' \<Longrightarrow> kview s' = kview s"
  by (auto simp: Run_tail_def Thread_delete_def RestoreUserState_def RestoreState_def rbind_eq_Inr split: if_splits option.splits)

lemma kv_Yield: "Yield s = Inr s' \<Longrightarrow> kview s' = kview s"
  by (auto simp: Yield_def SetLevel_off FindNextToRun_def rbind_eq_Inr split: list.splits dest!: kv_set_level kv_ReadyToRun kv_Run)

lemma kv_Finish: "Finish s = Inr s' \<Longrightarrow> kview s' = kview s"
  by (auto simp: Finish_def rbind_eq_Inr dest!: kv_set_level kv_Sleep)

lemma kv_P_loop:
  assumes "P_loop i old s = Inr s'"
  shows "if sem_values s i = 0 then kview s' = kview (push [F_P i old] s)
         else kview s' = kview (set_sem i ((semaphores s i)\<lparr>sem_value := sem_values s i - 1\<rparr>) s)"
proof (cases "sem_values s i = 0")
  case True
  let ?x = "(semaphores s i)\<lparr>sem_queue := sem_queue (semaphores s i) @ [currentThread s]\<rparr>"
  have "kview (push [F_P i old] (set_sem i ?x s)) = kview (push [F_P i old] s)"
    by (rule kview_cong(3)) (simp_all add: kview_set_sem sem_values_def)
  with True assms show ?thesis by (auto simp: P_loop_def sem_values_def Let_def dest!: kv_Sleep)
next
  case False
  with assms show ?thesis by (auto simp: P_loop_def sem_values_def Let_def dest!: kv_set_level)
qed

lemma kv_P:
  assumes "P i s = Inr s'"
  shows "if sem_values s i = 0 then kview s' = kview (push [F_P i (level s)] s)
         else kview s' = kview (set_sem i ((semaphores s i)\<lparr>sem_value := sem_values s i - 1\<rparr>) s)"
proof -
  let ?s = "s\<lparr>level := IntOff\<rparr>"
  have "P_loop i (level s) ?s = Inr s'" using assms by (simp add: P_def SetLevel_off)
  from kv_P_loop [OF this] show ?thesis by (simp add: kview_cong(3) [of ?s s] kview_cong(2) [of ?s s])
qed

lemma kv_V: "V i s = Inr s' \<Longrightarrow> kview s' = kview (set_sem i ((semaphores s i)\<lparr>sem_value := sem_values s i + 1\<rparr>) s)"
proof -
  assume v: "V i s = Inr s'"
  let ?s = "s\<lparr>level := IntOff\<rparr>"
  obtain s1 where s1: "kview s1 = kview ?s" "sem_values s1 i = sem_values s i"
    and s': "set_level (level s) (set_sem i ((semaphores s1 i)\<lparr>sem_value := sem_values s1 i + 1\<rparr>) s1) = Inr s'"
  proof (cases "sem_queue (semaphores s i)")
    case Nil
    with v show ?thesis by (intro that [of ?s]) (simp_all add: V_def SetLevel_off Let_def sem_values_def)
  next
    case (Cons t ts)
    let ?r = "ReadyToRun t (set_sem i ((semaphores s i)\<lparr>sem_queue := ts\<rparr>) ?s)"
    from v Cons obtain s1 where r: "?r = Inr s1"
      and *: "set_level (level s) (set_sem i ((semaphores s1 i)\<lparr>sem_value := sem_values s1 i + 1\<rparr>) s1) = Inr s'"
      by (auto simp: V_def SetLevel_off Let_def sem_values_def rbind_eq_Inr)
    have "kview s1 = kview ?s" using kv_ReadyToRun [OF r] by (simp add: kview_set_sem sem_values_def)
    moreover from this have "sem_values s1 i = sem_values s i" by (simp add: kview_def)
    ultimately show ?thesis using * by (rule that)
  qed
  have "kview s' = kview (set_sem i ((semaphores s1 i)\<lparr>sem_value := sem_values s1 i + 1\<rparr>) s1)" using s' by (rule kv_set_level)
  with s1 show ?thesis by (simp add: kview_def)
qed

text \<open>\<open>Acquire\<close>, \<open>Release\<close>, \<open>Wait\<close> and \<open>Signal\<close> change no lock but their own.\<close>


definition only_lock :: "nat \<Rightarrow> ('h, 'c, 'z) kernel_scheme \<Rightarrow> ('h, 'c, 'z) kernel_scheme \<Rightarrow> bool" where
  "only_lock l s s' \<longleftrightarrow> kview s' = kview (set_lock l (locks s' l) s)"

lemma only_lockI: "kview s' = kview (set_lock l y s) \<Longrightarrow> only_lock l s s'"
proof -
  assume v: "kview s' = kview (set_lock l y s)"
  then have "locks s' l = y" by (simp add: kview_def)
  with v show ?thesis by (simp add: only_lock_def)
qed

lemma only_lock_same: "kview s' = kview s \<Longrightarrow> only_lock l s s'"
  by (rule only_lockI [of _ _ "locks s l"]) (simp add: kview_def)

lemma only_lock_cong: "only_lock l s s' \<Longrightarrow> kview s1 = kview s \<Longrightarrow> only_lock l s1 s'"
  by (simp add: only_lock_def kview_cong(1) [of s1 s])

lemma only_lock_then: "only_lock l s s' \<Longrightarrow> kview s'' = kview s' \<Longrightarrow> only_lock l s s''"
  by (rule only_lockI [of _ _ "locks s' l"]) (simp add: only_lock_def)

lemma only_lock_D:
  assumes "only_lock l s s'"
  shows "cores s' = cores s" "sem_values s' = sem_values s" "dones s' = dones s" "kernel.more s' = kernel.more s" "m \<noteq> l \<Longrightarrow> locks s' m = locks s m"
proof -
  have v: "kview s' = kview (set_lock l (locks s' l) s)" using assms by (simp add: only_lock_def)
  then show "cores s' = cores s" "sem_values s' = sem_values s" "dones s' = dones s" "kernel.more s' = kernel.more s"
    by (simp_all add: kview_def)
  have "locks s' = (locks s)(l := locks s' l)" using v by (simp add: kview_def)
  from fun_cong [OF this, of m] show "m \<noteq> l \<Longrightarrow> locks s' m = locks s m" by simp
qed

lemma kv_Acquire: "Acquire l s = Inr s' \<Longrightarrow> only_lock l s s'"
proof -
  assume a: "Acquire l s = Inr s'"
  let ?s = "s\<lparr>level := IntOff\<rparr>" and ?x = "locks s l"
  have "only_lock l ?s s'"
  proof (cases "isHeldByCurrentThread l ?s")
    case True
    with a have "set_level (level s) ?s = Inr s'" by (simp add: Acquire_def SetLevel_off Let_def)
    then show ?thesis by (intro only_lock_same kv_set_level)
  next
    case held: False
    show ?thesis
    proof (cases "available ?x")
      case True
      with a held have "set_level (level s) (set_lock l (?x\<lparr>available := False, owner := Some (currentThread s)\<rparr>) ?s) = Inr s'"
        by (simp add: Acquire_def SetLevel_off Let_def)
      then show ?thesis by (intro only_lockI kv_set_level)
    next
      case False
      let ?s1 = "set_lock l (?x\<lparr>waitingThreads := waitingThreads ?x @ [currentThread s]\<rparr>) ?s"
      from a held False have "Sleep (push [F_SetLevel (level s)] ?s1) = Inr s'" by (simp add: Acquire_def SetLevel_off Let_def)
      from kv_Sleep [OF this] show ?thesis by (intro only_lockI) simp
    qed
  qed
  then show ?thesis by (rule only_lock_cong) simp
qed

lemma kv_Release: "Release l s = Inr s' \<Longrightarrow> only_lock l s s'"
proof -
  assume a: "Release l s = Inr s'"
  let ?s = "s\<lparr>level := IntOff\<rparr>" and ?x = "locks s l"
  have "only_lock l ?s s'"
  proof (cases "isHeldByCurrentThread l ?s")
    case False
    with a have "set_level (level s) ?s = Inr s'" by (simp add: Release_def SetLevel_off Let_def)
    then show ?thesis by (intro only_lock_same kv_set_level)
  next
    case True
    show ?thesis
    proof (cases "waitingThreads ?x")
      case Nil
      with a True show ?thesis by (auto simp: Release_def SetLevel_off Let_def intro: only_lockI)
    next
      case (Cons t ts)
      with a True have "ReadyToRun t (set_lock l (?x\<lparr>waitingThreads := ts, owner := Some t\<rparr>) ?s) = Inr s'"
        by (simp add: Release_def SetLevel_off Let_def)
      then show ?thesis by (intro only_lockI kv_ReadyToRun)
    qed
  qed
  then show ?thesis by (rule only_lock_cong) simp
qed

lemma kv_Signal: "Signal c cl s = Inr s' \<Longrightarrow> kview s' = kview s"
  by (auto simp: Signal_def SetLevel_off Let_def rbind_eq_Inr split: list.splits if_splits dest!: kv_set_level kv_ReadyToRun)

text \<open>\<open>Wait\<close> that sleeps will ask for the lock again.\<close>

lemma kv_Wait:
  assumes "Wait c (Some l) s = Inr s'"
  shows "kview s' = kview s \<or> only_lock l (push [F_Acquire l] s) s'"
proof -
  define x where "x = (let x = conditions s c in if waitingLock x = None then x\<lparr>waitingLock := Some l\<rparr> else x)"
  let ?s = "set_cond c x (s\<lparr>level := IntOff\<rparr>)"
  show ?thesis
  proof (cases "waitingLock x = Some l")
    case False
    with assms have "set_level (level s) ?s = Inr s'" by (auto simp: Wait_def SetLevel_off Let_def x_def split: if_splits)
    then show ?thesis using kv_set_level [of "level s" ?s s'] by simp
  next
    case True
    with assms obtain s1 where r: "Release l ?s = Inr s1"
      and "Sleep (push [F_Acquire l, F_SetLevel (level s)]
         (set_cond c ((conditions s1 c)\<lparr>waitingCV := waitingCV (conditions s1 c) @ [currentThread s1]\<rparr>) s1)) = Inr s'"
      by (auto simp: Wait_def SetLevel_off Let_def x_def rbind_eq_Inr split: if_splits)
    from kv_Sleep [OF this(2)] have v: "kview s' = kview (push [F_Acquire l, F_SetLevel (level s)]
         (set_cond c ((conditions s1 c)\<lparr>waitingCV := waitingCV (conditions s1 c) @ [currentThread s1]\<rparr>) s1))" .
    have "currentThread s1 = currentThread s"
      using r by (auto simp: Release_def SetLevel_off Let_def ReadyToRun_def rbind_eq_Inr set_level_def SetLevel_def OneTick_def
          split: if_splits list.splits)
    then have "only_lock l (push [F_Acquire l] s) s'"
      using kv_Release [OF r] v by (intro only_lockI [of _ _ "locks s1 l"]) (simp add: only_lock_def kview_def cores_push)
    then show ?thesis ..
  qed
qed

section \<open>One step\<close>

text \<open>\<open>taken h s s1\<close>: the handler \<open>h\<close> was taken from the pending interrupts and is about to be called.\<close>

definition taken :: "'h \<Rightarrow> ('h, 'c, 'z) kernel_scheme \<Rightarrow> ('h, 'c, 'z) kernel_scheme \<Rightarrow> bool" where
  "taken h s s1 \<longleftrightarrow> cores s1 = cores s \<and> locks s1 = locks s \<and> sem_values s1 = sem_values s \<and> kernel.more s1 = kernel.more s
     \<and> dones s = (dones s1)(h := Suc (dones s1 h))"

lemma kv_delayed_load: "delayed_load s = Inr s' \<Longrightarrow> kview s' = kview s"
  by (auto simp: delayed_load_def rbind_eq_Inr split: option.splits)

lemma taken_first:
  assumes "pending s = (w, x) # rest" "kview s1 = kview (s\<lparr>pending := rest\<rparr>)"
  shows "taken (pi_handler x) s s1"
  using assms by (auto simp: taken_def kview_def dones_def fun_eq_iff sem_values_def)

lemma kview_reinsert:
  assumes "pending s = (w, x) # rest" "kview s1 = kview (s\<lparr>pending := rest\<rparr>)"
  shows "kview (s1\<lparr>pending := sorted_ins w x rest\<rparr>) = kview s"
proof (rule kview_eqI)
  show "dones (s1\<lparr>pending := sorted_ins w x rest\<rparr>) = dones s"
    using assms(1) by (auto simp: fun_eq_iff dones_pending) (auto simp: dones_def)
  show "locks (s1\<lparr>pending := sorted_ins w x rest\<rparr>) = locks s" "kernel.more (s1\<lparr>pending := sorted_ins w x rest\<rparr>) = kernel.more s"
    "cores (s1\<lparr>pending := sorted_ins w x rest\<rparr>) = cores s" "sem_values (s1\<lparr>pending := sorted_ins w x rest\<rparr>) = sem_values s"
    using kview_eqD [OF assms(2)] by simp_all
qed

lemma kv_CheckIfDue:
  assumes "CheckIfDue hf adv s = Inr (b, s')"
  shows "kview s' = kview s \<or> (\<exists>h s1 s2. taken h s s1 \<and> hf h s1 = Inr s2 \<and> kview s' = kview s2)"
proof (cases "pending s")
  case Nil
  then show ?thesis using assms by (auto simp: CheckIfDue_def rbind_eq_Inr)
next
  case (Cons p rest)
  obtain w x where p: "pending s = (w, x) # rest" using Cons by (cases p) simp
  define s1 where "s1 = (let st = stats s; s0 = s\<lparr>pending := rest\<rparr> in if adv \<and> w > totalTicks st
     then s0\<lparr>stats := st\<lparr>idleTicks := idleTicks st + (w - totalTicks st), totalTicks := w\<rparr>\<rparr> else s0)"
  have v: "kview s1 = kview (s\<lparr>pending := rest\<rparr>)" by (simp add: s1_def Let_def)
  consider (early) "s' = s\<lparr>pending := sorted_ins w x rest\<rparr>" | (idle) "s' = s1\<lparr>pending := sorted_ins w x rest\<rparr>"
    | (fired) s2 s3 where "delayed_load s1 = Inr s2" "hf (pi_handler x) (s2\<lparr>inHandler := True, mstatus := SystemMode\<rparr>) = Inr s3"
        "s' = s3\<lparr>mstatus := mstatus s, inHandler := False\<rparr>"
    using assms p by (auto simp: CheckIfDue_def rbind_eq_Inr Let_def s1_def split: if_splits)
  then show ?thesis
  proof cases
    case early
    have "kview (s\<lparr>pending := sorted_ins w x rest\<rparr>) = kview s"
      using kview_reinsert [OF p, of "s\<lparr>pending := rest\<rparr>"] by simp
    with early show ?thesis by simp
  next
    case idle
    with kview_reinsert [OF p v] show ?thesis by simp
  next
    case fired
    have "taken (pi_handler x) s (s2\<lparr>inHandler := True, mstatus := SystemMode\<rparr>)"
      using kv_delayed_load [OF fired(1)] v by (intro taken_first [OF p]) simp
    with fired(2,3) show ?thesis by (auto intro!: exI)
  qed
qed

lemma kv_sleep_loop:
  assumes "sleep_loop hf s = Inr s'"
  shows "kview s' = kview s \<or> (\<exists>h s1 s2. taken h s s1 \<and> hf h s1 = Inr s2 \<and> kview s' = kview s2)"
proof (cases "readyList s")
  case Nil
  let ?s = "push [F_SleepLoop] s\<lparr>mstatus := IdleMode\<rparr>"
  obtain b s2 where "CheckIfDue hf True ?s = Inr (b, s2)" and s': "s' = push [F_CheckLoop, F_IdleTail] s2"
    using assms Nil by (auto simp: sleep_loop_def FindNextToRun_def Idle_def rbind_eq_Inr split: if_splits)
  from kv_CheckIfDue [OF this(1)] have "kview s' = kview ?s \<or> (\<exists>h s1 s3. taken h ?s s1 \<and> hf h s1 = Inr s3 \<and> kview s' = kview s3)"
    by (simp add: s')
  moreover have "kview ?s = kview s" "taken h ?s s1 = taken h s s1" for h s1 by (simp_all add: taken_def)
  ultimately show ?thesis by simp
next
  case (Cons t ts)
  with assms have "Run t (s\<lparr>readyList := ts\<rparr>) = Inr s'" by (simp add: sleep_loop_def FindNextToRun_def)
  from kv_Run [OF this] show ?thesis by simp
qed

text \<open>The state in which the innermost frame of the current thread is run.\<close>

definition pop :: "('h, 'c, 'z) kernel_scheme \<Rightarrow> ('h, 'c, 'z) kernel_scheme" where
  "pop s = set_thread (currentThread s) ((cur s)\<lparr>t_frames := tl (t_frames (cur s))\<rparr>) s"

lemma pop_calls_ok:
  assumes "kernel_inv s" "t_frames (cur s) = f # fs" "core f"
  shows "calls_ok (pop s)"
  using assms sched_inv_cur [of "(cur s)\<lparr>t_frames := fs\<rparr>" s]
  by (cases f) (auto simp: pop_def kernel_inv_def calls_ok_def cur_def set_thread_def)

lemma cores_popped:
  assumes "t_frames (cur s) = f # fs"
  shows "cores s (currentThread s) = filter core [f] @ cores (set_thread (currentThread s) ((cur s)\<lparr>t_frames := fs\<rparr>) s) (currentThread s)"
    "u \<noteq> currentThread s \<Longrightarrow> cores (set_thread (currentThread s) ((cur s)\<lparr>t_frames := fs\<rparr>) s) u = cores s u"
  using assms by (simp_all add: cores_def set_thread_def cur_def)

text \<open>A core frame is run in the state without it.\<close>

definition popped_core :: "'c frame \<Rightarrow> ('h, 'c, 'z) kernel_scheme \<Rightarrow> ('h, 'c, 'z) kernel_scheme \<Rightarrow> bool" where
  "popped_core f s s0 \<longleftrightarrow> core f \<and> currentThread s0 = currentThread s \<and> cores s = (cores s0)(currentThread s := f # cores s0 (currentThread s))
     \<and> locks s0 = locks s \<and> sem_values s0 = sem_values s \<and> dones s0 = dones s \<and> kernel.more s0 = kernel.more s"

lemma step_view:
  assumes "kernel_step hf cf s = Inr s'"
  obtains (quiet) "kview s' = kview s"
  | (fired) h s1 s2 where "taken h s s1" "hf h s1 = Inr s2" "kview s' = kview s2"
  | (core) f fs where "t_frames (cur s) = f # fs" "popped_core f s (pop s)" "run_frame hf cf f (pop s) = Inr s'"
proof (cases "t_frames (cur s)")
  case Nil
  with assms show ?thesis by (simp add: kernel_step_def)
next
  case (Cons f fs)
  define s0 where "s0 = set_thread (currentThread s) ((cur s)\<lparr>t_frames := fs\<rparr>) s"
  have pop: "pop s = s0" using Cons by (simp add: pop_def s0_def)
  have run: "run_frame hf cf f s0 = Inr s'" using assms Cons by (simp add: s0_def kernel_step_def)
  note c = cores_popped [OF Cons, folded s0_def]
  have same: "currentThread s0 = currentThread s" "locks s0 = locks s" "sem_values s0 = sem_values s" "dones s0 = dones s"
    "kernel.more s0 = kernel.more s" by (simp_all add: s0_def)
  show ?thesis
  proof (cases "core f")
    case True
    with c same have "popped_core f s s0" by (auto simp: popped_core_def fun_eq_iff)
    with run Cons show ?thesis by (intro core [of f fs]) (simp_all add: pop)
  next
    case False
    then have "cores s0 u = cores s u" for u using c by (cases "u = currentThread s") simp_all
    then have "cores s0 = cores s" ..
    with same have v: "kview s0 = kview s" "taken h s0 = taken h s" for h by (simp_all add: kview_def taken_def fun_eq_iff)
    have "kview s' = kview s0 \<or> (\<exists>h s1 s2. taken h s0 s1 \<and> hf h s1 = Inr s2 \<and> kview s' = kview s2)"
    proof (cases f)
      case F_CheckLoop
      with run obtain b s2 where "CheckIfDue hf False s0 = Inr (b, s2)" "kview s' = kview s2"
        by (auto simp: rbind_eq_Inr)
      with kv_CheckIfDue show ?thesis by metis
    next
      case F_SleepLoop
      with run have "sleep_loop hf s0 = Inr s'" by simp
      then show ?thesis by (rule kv_sleep_loop)
    next
      case (F_TickTail old)
      with run show ?thesis by (auto simp: Let_def split: if_splits dest!: kv_Yield)
    qed (use run False in \<open>auto dest: kv_set_level kv_Run_tail kv_Finish\<close>)
    with v show ?thesis using quiet fired by metis
  qed
qed

section \<open>Code that calls the kernel\<close>

lemma calls_ok_cong:
  assumes "live s' = live s" "threads s' = threads s" "currentThread s' = currentThread s" "threadToBeDestroyed s' = threadToBeDestroyed s"
    "readyList s' = readyList s" "semaphores s' = semaphores s" "locks s' = locks s" "conditions s' = conditions s" "inHandler s' = inHandler s"
  shows "calls_ok s' = calls_ok s"
proof -
  have "queue s' = queue s" using assms by (intro queue_cong) simp_all
  then show ?thesis unfolding calls_ok_def cur_def using assms sched_inv_same_queue [of s' s] by simp
qed

lemma calls_ok_pushes:
  assumes "calls_ok s" "\<forall>f \<in> set fs. \<not> needs_off f"
  shows "calls_ok (push fs s)"
  using assms(2)
proof (induction fs)
  case Nil
  have "push [] s = s" by (simp add: push_def set_thread_def cur_def)
  with assms(1) show ?case by simp
next
  case (Cons f fs)
  then have "calls_ok (push [f] (push fs s))" by (intro calls_ok_push) simp_all
  moreover have "push [f] (push fs s) = push (f # fs) s" by (simp add: push_def set_thread_def cur_def)
  ultimately show ?case by simp
qed

text \<open>\<open>inv_kept r\<close>: if the operation returns, the kernel's invariant holds.\<close>

definition inv_kept :: "('h, 'c, 'z) kernel_scheme result \<Rightarrow> bool" where
  "inv_kept r \<longleftrightarrow> (\<forall>s. r = Inr s \<longrightarrow> kernel_inv s)"

lemma inv_kept_simps [simp]: "inv_kept (Inl e)" "inv_kept (Inr s) = kernel_inv s"
  by (auto simp: inv_kept_def)

lemma inv_kept_safe: "safe r \<Longrightarrow> inv_kept r"
  by (auto simp: inv_kept_def)

lemma inv_kept_rbind: "(\<And>x. r = Inr x \<Longrightarrow> inv_kept (f x)) \<Longrightarrow> inv_kept (rbind r f)"
  by (cases r) auto

lemmas kernel_calls = safe_Acquire [THEN inv_kept_safe] Release_ok(1) [THEN inv_kept_safe] safe_Wait [THEN inv_kept_safe]
  safe_Signal [THEN inv_kept_safe] safe_Broadcast [THEN inv_kept_safe] safe_Yield [THEN inv_kept_safe] safe_Finish [THEN inv_kept_safe]
  calls_ok_pushes calls_ok_kernel_inv

text \<open>Code around the kernel that may fail assertions of its own: as long as it returns, the kernel's invariant
  holds. \<open>contained\<close> makes it a client of the kernel, for which a failed assertion is a failure of the kernel.\<close>

definition contained :: "('h, 'c, 'z) kernel_scheme result \<Rightarrow> ('h, 'c, 'z) kernel_scheme result" where
  "contained r = (case r of Inl Abort \<Rightarrow> Inl Undefined | _ \<Rightarrow> r)"

lemma contained_Inr [simp]: "contained (Inr s) = Inr s" "contained r = Inr s \<longleftrightarrow> r = Inr s"
  by (simp_all add: contained_def split: sum.split stop.split)

lemma contained_Inl: "contained r = Inl e \<Longrightarrow> e \<noteq> Abort"
  by (auto simp: contained_def split: sum.splits stop.splits)

lemma safe_contained: "inv_kept r \<Longrightarrow> safe (contained r)"
  using contained_Inl [of r] by (cases r; cases "contained r") auto

lemma CheckIfDue_contained: "CheckIfDue hf adv s = Inr r \<Longrightarrow> CheckIfDue (\<lambda>h s. contained (hf h s)) adv s = Inr r"
proof (cases "pending s")
  case (Cons p rest)
  moreover obtain w x where "p = (w, x)" by (cases p)
  ultimately show "CheckIfDue hf adv s = Inr r \<Longrightarrow> ?thesis"
    by (auto simp: CheckIfDue_def Let_def rbind_eq_Inr split: if_splits)
qed (auto simp: CheckIfDue_def rbind_eq_Inr)

lemma step_contained:
  assumes "kernel_step hf cf s = Inr s'"
  shows "kernel_step (\<lambda>h s. contained (hf h s)) (\<lambda>c s. contained (cf c s)) s = Inr s'"
proof -
  have "run_frame (\<lambda>h s. contained (hf h s)) (\<lambda>c s. contained (cf c s)) f s0 = Inr s'" if "run_frame hf cf f s0 = Inr s'" for f s0
  proof (cases f)
    case F_CheckLoop
    with that obtain r where r: "CheckIfDue hf False s0 = Inr r" and s': "s' = (case r of (b, s) \<Rightarrow> (if b then push [F_CheckLoop] s else s))"
      by (auto simp: rbind_eq_Inr)
    show ?thesis unfolding F_CheckLoop run_frame.simps CheckIfDue_contained [OF r] by (simp add: s' split: prod.split)
  next
    case F_SleepLoop
    have "Idle (\<lambda>h s. contained (hf h s)) s1 = Inr s'" if "Idle hf s1 = Inr s'" for s1
    proof -
      from that obtain r where r: "CheckIfDue hf True (s1\<lparr>mstatus := IdleMode\<rparr>) = Inr r"
        and s': "Inr s' = (case r of (fired, s) \<Rightarrow> if fired then Inr (push [F_CheckLoop, F_IdleTail] s) else Inl Halted)"
        by (auto simp: Idle_def rbind_eq_Inr)
      show ?thesis unfolding Idle_def CheckIfDue_contained [OF r] rbind_Inr using s' [symmetric] .
    qed
    with that F_SleepLoop show ?thesis by (simp add: sleep_loop_def FindNextToRun_def split: list.splits)
  qed (use that in simp_all)
  with assms show ?thesis by (auto simp: kernel_step_def split: list.splits)
qed

locale kernel_user =
  fixes hf :: "'h \<Rightarrow> ('h, 'c, 'z) kernel_scheme \<Rightarrow> ('h, 'c, 'z) kernel_scheme result"
    and cf :: "'c \<Rightarrow> ('h, 'c, 'z) kernel_scheme \<Rightarrow> ('h, 'c, 'z) kernel_scheme result"
  assumes handler_kept: "sched_inv s \<Longrightarrow> level s = IntOff \<Longrightarrow> inHandler s \<Longrightarrow> hf h s = Inr s' \<Longrightarrow> handled s s'"
    and code_kept: "calls_ok s \<Longrightarrow> inv_kept (cf c s)"

sublocale kernel_user \<subseteq> inner: kernel_client "\<lambda>h s. contained (hf h s)" "\<lambda>c s. contained (cf c s)"
proof unfold_locales
  fix s :: "('h, 'c, 'z) kernel_scheme" and h
  assume s: "sched_inv s" "level s = IntOff" "inHandler s"
  show "case contained (hf h s) of Inr s' \<Rightarrow> handled s s' | Inl e \<Rightarrow> e \<noteq> Abort"
  proof (cases "contained (hf h s)")
    case (Inl e)
    then show ?thesis using contained_Inl [OF Inl] by simp
  next
    case (Inr s')
    then show ?thesis using handler_kept [OF s] by simp
  qed
qed (rule safe_contained [OF code_kept])

context kernel_user
begin

lemma step_kept: "kernel_step hf cf s = Inr s' \<Longrightarrow> kernel_inv s \<Longrightarrow> kernel_inv s'"
  using inner.step_safe [of s] step_contained [of hf cf s s'] by simp

lemma reachable_kept: "reachable hf cf s0 s \<Longrightarrow> kernel_inv s0 \<Longrightarrow> kernel_inv s"
  by (induction rule: reachable.induct) (auto intro: step_kept)

end

section \<open>The code of the threads\<close>

text \<open>What code outside the kernel the frames of a thread still have to run.\<close>

fun code_of :: "'c frame \<Rightarrow> 'c list" where
  "code_of (F_Code c) = [c]"
| "code_of _ = []"

definition codes :: "('h, 'c, 'z) kernel_scheme \<Rightarrow> tid \<Rightarrow> 'c list" where
  "codes s u = concat (map code_of (cores s u))"

lemma codes_kview: "kview s' = kview s \<Longrightarrow> codes s' = codes s"
  by (simp add: codes_def kview_def fun_eq_iff)

lemma codes_only_lock: "only_lock l s s' \<Longrightarrow> codes s' = codes s"
  by (simp add: codes_def fun_eq_iff only_lock_D(1))

lemma code_of_core: "concat (map code_of (filter core fs)) = concat (map code_of fs)"
proof (induction fs)
  case (Cons f fs)
  then show ?case by (cases f) simp_all
qed simp

lemma codes_push: "codes (push fs s) = (codes s)(currentThread s := concat (map code_of fs) @ codes s (currentThread s))"
  by (simp add: codes_def cores_push fun_eq_iff code_of_core)

lemma codes_F_Code [simp]: "concat (map (code_of \<circ> F_Code) cs) = cs"
  by (induction cs) simp_all

end
