(* ===== verification/Syscall_Props.thy ===== *)
theory Syscall_Props
  imports Syscalls Kernel_Frames
begin

text \<open>
  Properties of the system calls: the kernel's invariant holds while user programs run, user memory
  is copied faithfully, handles of locks, condition variables and files behave as their tables
  promise, and the places where the calls do not do what their comments say.
\<close>

section \<open>The kernel's invariant under system calls\<close>

lemma calls_ok_os [simp]:
  fixes s :: os
  shows "calls_ok (say x s) = calls_ok s" "calls_ok (set_lock_entry n e s) = calls_ok s" "calls_ok (set_cv_entry n c s) = calls_ok s"
    "calls_ok (set_files a t s) = calls_ok s" "calls_ok (FileSystem_Create name s) = calls_ok s" "calls_ok (OpenFile_delete f s) = calls_ok s"
    "calls_ok (s\<lparr>next_lock := n1\<rparr>) = calls_ok s" "calls_ok (s\<lparr>next_cond := n1\<rparr>) = calls_ok s" "calls_ok (s\<lparr>next_thread := n1\<rparr>) = calls_ok s"
    "calls_ok (s\<lparr>LockTable := lt\<rparr>) = calls_ok s" "calls_ok (s\<lparr>CVTable := ct\<rparr>) = calls_ok s" "calls_ok (s\<lparr>processTable := pt\<rparr>) = calls_ok s"
    "calls_ok (s\<lparr>processes := ps\<rparr>) = calls_ok s" "calls_ok (s\<lparr>spaces := sp\<rparr>) = calls_ok s" "calls_ok (s\<lparr>memMap := mm\<rparr>) = calls_ok s"
    "calls_ok (s\<lparr>next_space := n1\<rparr>) = calls_ok s" "calls_ok (s\<lparr>next_table := n1\<rparr>) = calls_ok s" "calls_ok (s\<lparr>next_process := n1\<rparr>) = calls_ok s"
    "calls_ok (s\<lparr>openFiles := fo\<rparr>) = calls_ok s" "calls_ok (s\<lparr>unixFiles := fu\<rparr>) = calls_ok s" "calls_ok (s\<lparr>next_file := n1\<rparr>) = calls_ok s"
    "calls_ok (s\<lparr>keyboard := kb\<rparr>) = calls_ok s" "calls_ok (s\<lparr>rand_values := rv\<rparr>) = calls_ok s"
  by (rule calls_ok_cong; simp add: say_def set_lock_entry_def set_cv_entry_def set_files_def FileSystem_Create_def OpenFile_delete_def)+

text \<open>The operations that only read or change tables, files and the machine.\<close>

lemma calls_ok_tables:
  shows "with_machine g s = Inr (x, s') \<Longrightarrow> calls_ok s \<Longrightarrow> calls_ok s'"
    "on_machine h s = Inr s' \<Longrightarrow> calls_ok s \<Longrightarrow> calls_ok s'"
    "copyin v len s = Inr (bs, s') \<Longrightarrow> calls_ok s \<Longrightarrow> calls_ok s'"
    "copyout v buf s = Inr s' \<Longrightarrow> calls_ok s \<Longrightarrow> calls_ok s'"
    "FileSystem_Open name s = (fo, s') \<Longrightarrow> calls_ok s \<Longrightarrow> calls_ok s'"
    "OpenFile_Read f n s = Inr (bs, s') \<Longrightarrow> calls_ok s \<Longrightarrow> calls_ok s'"
    "OpenFile_Write f buf s = Inr s' \<Longrightarrow> calls_ok s \<Longrightarrow> calls_ok s'"
    "scanf_s k s = Inr (bs, s') \<Longrightarrow> calls_ok s \<Longrightarrow> calls_ok s'"
    "RestoreState a s = Inr s' \<Longrightarrow> calls_ok s \<Longrightarrow> calls_ok s'"
    "new_AddrSpace f s = Inr (a, s') \<Longrightarrow> calls_ok s \<Longrightarrow> calls_ok s'"
    "put_process s = Inr (pid, s') \<Longrightarrow> calls_ok s \<Longrightarrow> calls_ok s'"
proof -
  show m: "with_machine g s = Inr (x, s') \<Longrightarrow> calls_ok s \<Longrightarrow> calls_ok s'" for g :: "machine \<Rightarrow> ('x \<times> machine) result" and s s' x
    by (auto simp: with_machine_def rbind_eq_Inr split: option.splits)
  show o: "on_machine h s = Inr s' \<Longrightarrow> calls_ok s \<Longrightarrow> calls_ok s'" for h s s'
    by (auto simp: on_machine_def with_machine_def rbind_eq_Inr split: option.splits)
  show "copyin v len s = Inr (bs, s') \<Longrightarrow> calls_ok s \<Longrightarrow> calls_ok s'" "copyout v buf s = Inr s' \<Longrightarrow> calls_ok s \<Longrightarrow> calls_ok s'"
    by (auto simp: copyin_def with_machine_def copyout_def rbind_eq_Inr split: option.splits intro: o)
  show "FileSystem_Open name s = (fo, s') \<Longrightarrow> calls_ok s \<Longrightarrow> calls_ok s'"
    by (auto simp: FileSystem_Open_def split: option.splits)
  show "OpenFile_Read f n s = Inr (bs, s') \<Longrightarrow> calls_ok s \<Longrightarrow> calls_ok s'" "OpenFile_Write f buf s = Inr s' \<Longrightarrow> calls_ok s \<Longrightarrow> calls_ok s'"
    by (auto simp: OpenFile_Read_def OpenFile_Write_def rbind_eq_Inr)
  show "scanf_s k s = Inr (bs, s') \<Longrightarrow> calls_ok s \<Longrightarrow> calls_ok s'" "RestoreState a s = Inr s' \<Longrightarrow> calls_ok s \<Longrightarrow> calls_ok s'"
    by (auto simp: scanf_s_def RestoreState_def Let_def split: list.splits if_splits option.splits)
  show "new_AddrSpace f s = Inr (a, s') \<Longrightarrow> calls_ok s \<Longrightarrow> calls_ok s'" "put_process s = Inr (pid, s') \<Longrightarrow> calls_ok s \<Longrightarrow> calls_ok s'"
    by (auto simp: new_AddrSpace_def put_process_def rbind_eq_Inr split: option.splits)
qed

lemma push_say: "push fs (say x s) = say x (push fs s)"
  by (simp add: push_def set_thread_def cur_def say_def)

lemma inv_kept_lock_calls:
  assumes "calls_ok s"
  shows "inv_kept (acquire_body n s)" "inv_kept (release_body n s)" "inv_kept (release_after n s)" "inv_kept (wait_body n k s)"
    "inv_kept (wait_call n k s)" "inv_kept (release_entry n s)" "inv_kept (signal_body n k s)" "inv_kept (signal_after n s)"
    "inv_kept (broadcast_body n k s)" "inv_kept (destroyLock_body n s)" "inv_kept (destroyCV_body n s)"
  using assms
  by (auto simp: acquire_body_def release_body_def release_after_def wait_body_def wait_call_def release_entry_def signal_body_def
      signal_after_def broadcast_body_def destroyLock_body_def destroyCV_body_def Let_def split: option.split intro!: kernel_calls)

lemma calls_ok_new_objects:
  fixes s :: os
  assumes "calls_ok s"
  shows "waitingThreads (locks s l) = [] \<Longrightarrow> calls_ok (set_lock l (Lock_new j) s)"
    "waitingCV (conditions s c) = [] \<Longrightarrow> calls_ok (set_cond c Condition_new s)"
  using assms by (simp_all add: Lock_new_def Condition_new_def)

lemma inv_kept_create:
  assumes "calls_ok s"
  shows "inv_kept (createLock_body s)" "inv_kept (createCV_body s)"
  using assms by (auto simp: createLock_body_def createCV_body_def Let_def intro!: kernel_calls calls_ok_new_objects)

text \<open>The fields of a thread that user programs add do not matter to the kernel.\<close>

lemma calls_ok_set_thread:
  fixes s :: os
  assumes "t_status th = t_status (threads s t)" "t_stack th = t_stack (threads s t)" "t_frames th = t_frames (threads s t)"
  shows "calls_ok (set_thread t th s) = calls_ok s"
proof -
  let ?s = "set_thread t th s"
  have th: "t_status (threads ?s u) = t_status (threads s u)" "t_stack (threads ?s u) = t_stack (threads s u)"
    "t_frames (threads ?s u) = t_frames (threads s u)" for u
    using assms by (simp_all add: set_thread_def)
  have eqs: "queue ?s = queue s" "live ?s = live s" "currentThread ?s = currentThread s" "readyList ?s = readyList s"
    "threadToBeDestroyed ?s = threadToBeDestroyed s" "inHandler ?s = inHandler s" by (simp_all add: set_thread_def)
  have "sched_inv ?s = sched_inv s" unfolding sched_inv_def th eqs ..
  then show ?thesis unfolding calls_ok_def cur_def eqs th by simp
qed

lemma alloc_Thread_ok:
  assumes "calls_ok s" "alloc_Thread s = Inr (t, s')"
  shows "calls_ok s'" "live s' t" "t_status (threads s' t) = JUST_CREATED" "t \<noteq> currentThread s'"
proof -
  from assms(2) obtain s1 where s1: "new_Thread t s = Inr s1" "s' = s1\<lparr>next_thread := Suc t\<rparr>"
    by (auto simp: alloc_Thread_def rbind_eq_Inr)
  note n = calls_ok_new_Thread [OF assms(1) s1(1)]
  show "calls_ok s'" "live s' t" "t_status (threads s' t) = JUST_CREATED" using n s1(2) by simp_all
  with \<open>calls_ok s'\<close> show "t \<noteq> currentThread s'" by (auto simp: calls_ok_def cur_def)
qed

lemma inv_kept_Fork_new:
  fixes s :: os
  assumes "calls_ok s" "live s t" "t_status (threads s t) = JUST_CREATED" "t \<noteq> currentThread s"
    "t_status th = t_status (threads s t)" "t_stack th = t_stack (threads s t)" "t_frames th = t_frames (threads s t)"
    "\<forall>f \<in> set fs. \<not> needs_off f"
  shows "inv_kept (Fork t c (push fs (set_thread t th s)))"
proof (rule inv_kept_safe, rule safe_Fork)
  show "calls_ok (push fs (set_thread t th s))"
    using assms by (intro calls_ok_pushes) (simp_all add: calls_ok_set_thread)
  show "live (push fs (set_thread t th s)) t" "t_status (threads (push fs (set_thread t th s)) t) = JUST_CREATED"
    using assms by (simp_all add: set_thread_def push_def)
qed

lemma inv_kept_forks:
  assumes "calls_ok s"
  shows "inv_kept (exec_fork a pid s)" "inv_kept (fork_body addr s)"
proof -
  show "inv_kept (exec_fork a pid s)"
    using assms by (auto simp: exec_fork_def Let_def intro!: inv_kept_rbind inv_kept_Fork_new dest: alloc_Thread_ok)
  show "inv_kept (fork_body addr s)" unfolding fork_body_def
  proof (intro inv_kept_rbind)
    fix x
    assume "alloc_Thread (say (Message ''Forking Thread!'' []) s) = Inr x"
    then obtain t s1 where x: "x = (t, s1)" and al: "alloc_Thread (say (Message ''Forking Thread!'' []) s) = Inr (t, s1)"
      by (cases x) simp
    have ok: "calls_ok (say (Message ''Forking Thread!'' []) s)" using assms by simp
    note T = alloc_Thread_ok [OF ok al]
    show "inv_kept (case x of (t, s) \<Rightarrow> let processID = t_pid (cur s) in
        rbind (get_process processID s) (\<lambda>q. case q of
          None \<Rightarrow> Inr (push [F_Code (Return 0)] (say (Message ''Failed to fetch process %d from Process Table!'' [processID]) s))
        | Some i \<Rightarrow>
          let p = processes s i;
              p = p\<lparr>activeThreadCount := activeThreadCount p + 1\<rparr>;
              s = s\<lparr>processes := (processes s)(i := p)\<rparr>;
              s = set_thread t ((threads s t)\<lparr>t_id := inactiveThreadCount p + activeThreadCount p, t_pid := processID,
                    space := space (cur s)\<rparr>) s
          in Fork t (kernelRun addr) (push [F_Code Fork_restore] s)))"
      using T unfolding x by (auto simp: Let_def split: option.split intro!: inv_kept_rbind inv_kept_Fork_new kernel_calls)
  qed
qed

lemma inv_kept_on_machine: "calls_ok s \<Longrightarrow> inv_kept (on_machine h s)"
  unfolding inv_kept_def using calls_ok_tables(2) calls_ok_kernel_inv by blast

lemma inv_kept_process_calls:
  assumes "calls_ok s"
  shows "inv_kept (new_process s)" "inv_kept (kernel_run v s)" "inv_kept (exec_body f s)" "inv_kept (fork_restore s)"
    "inv_kept (exit_body s)" "inv_kept (exit_remove pid s)" "inv_kept (print_body v len a b s)" "inv_kept (finish_syscall rv s)"
  using assms
  by (auto simp: new_process_def kernel_run_def exec_body_def fork_restore_def exit_body_def exit_remove_def print_body_def
      finish_syscall_def thread_exits_def Machine_Run_def Let_def split: option.split intro!: inv_kept_rbind kernel_calls inv_kept_on_machine
      dest!: calls_ok_tables)

lemma inv_kept_OneTick: "calls_ok s \<Longrightarrow> kernel_inv (OneTick s)"
proof -
  assume ok: "calls_ok s"
  have "stack_ok True (t_frames (cur s))" using ok by (auto simp: calls_ok_def intro: stack_ok_mono)
  then show ?thesis using ok by (auto simp: OneTick_def Let_def calls_ok_def kernel_inv_def)
qed

lemma inv_kept_file_calls:
  assumes "calls_ok s"
  shows "Create_Syscall v len s = Inr s' \<Longrightarrow> calls_ok s'" "Open_Syscall v len s = Inr (r, s') \<Longrightarrow> calls_ok s'"
    "Write_Syscall v len i s = Inr s' \<Longrightarrow> calls_ok s'" "Read_Syscall v len i s = Inr (r, s') \<Longrightarrow> calls_ok s'"
    "Close_Syscall i s = Inr s' \<Longrightarrow> calls_ok s'"
  using assms
  by (auto simp: Create_Syscall_def Open_Syscall_def Write_Syscall_def Read_Syscall_def Close_Syscall_def Let_def rbind_eq_Inr
      split: if_splits option.splits prod.splits dest: calls_ok_tables)

lemma inv_kept_syscall:
  assumes "calls_ok s"
  shows "inv_kept (syscall type a4 a5 a6 a7 s)"
proof -
  note D = inv_kept_file_calls [OF assms] calls_ok_tables
  have "inv_kept (Exec_Syscall a4 a5 s)"
    using assms by (auto simp: Exec_Syscall_def split: option.split prod.split intro!: inv_kept_rbind kernel_calls dest!: calls_ok_tables(3,5))
  then show ?thesis using assms
    by (auto simp: syscall_def returning_def returning0_def rand_Syscall_def Acquire_Syscall_def Release_Syscall_def Wait_Syscall_def Signal_Syscall_def
        Broadcast_Syscall_def CreateLock_Syscall_def DestroyLock_Syscall_def CreateCV_Syscall_def DestroyCV_Syscall_def printf_Syscall_def
        Fork_Syscall_def Exit_Syscall_def intro!: inv_kept_rbind kernel_calls dest: D)
qed

lemma inv_kept_user: "calls_ok s \<Longrightarrow> inv_kept (user_instruction s)"
  by (auto simp: user_instruction_def ExceptionHandler_def split: option.split intro!: inv_kept_rbind inv_kept_OneTick inv_kept_syscall
      calls_ok_pushes dest!: calls_ok_tables)

lemma inv_kept_exec: "calls_ok s \<Longrightarrow> inv_kept (exec c s)"
  by (cases c) (simp_all add: inv_kept_user inv_kept_OneTick inv_kept_process_calls inv_kept_forks inv_kept_create inv_kept_lock_calls)

text \<open>The system calls are code around the kernel; a failing assertion outside the kernel proper (in the
  simulated processor, in the loader) is not its business.\<close>

interpretation os: kernel_user "fire rnd" exec for rnd
proof unfold_locales
  show "fire rnd h s = Inr s' \<Longrightarrow> handled s s'" if "sched_inv s" "level s = IntOff" "inHandler s" for h and s s' :: os
    using fire_handled [OF that, of rnd h] by simp
qed (rule inv_kept_exec)

section \<open>Kernel operations leave the tables of the system calls alone\<close>

definition same_more :: "('h, 'c, 'z) kernel_scheme \<Rightarrow> ('h, 'c, 'z) kernel_scheme result \<Rightarrow> bool" where
  "same_more s r \<longleftrightarrow> (\<forall>s'. r = Inr s' \<longrightarrow> kernel.more s' = kernel.more s)"

lemma same_more_simps [simp]: "same_more s (Inl e)" "same_more s (Inr s') \<longleftrightarrow> kernel.more s' = kernel.more s"
  by (auto simp: same_more_def)

lemma same_more_rbind: "(\<And>x. r = Inr x \<Longrightarrow> same_more s (f x)) \<Longrightarrow> same_more s (rbind r f)"
  by (cases r) auto

lemma same_more_basic:
  "same_more s (set_level v s)" "same_more s (ReadyToRun t s)" "same_more s (Sleep s)" "same_more s (Run t s)" "same_more s (Run_tail s)"
  "same_more s (Schedule h d ty s)" "same_more s (RestoreState a s)"
  by (auto simp: same_more_def set_level_def SetLevel_def ReadyToRun_def Sleep_def Run_def SaveUserState_def Run_tail_def Thread_delete_def
      RestoreUserState_def RestoreState_def Schedule_def rbind_eq_Inr Let_def split: if_splits option.splits)

lemma same_more_eq: "same_more s r \<Longrightarrow> kernel.more s = kernel.more s' \<Longrightarrow> same_more s' r"
  by (simp add: same_more_def)

lemma same_more_ops:
  fixes s :: "('h, 'c, 'z) kernel_scheme"
  shows "same_more s (V i s)" "same_more s (P_loop i old s)" "same_more s (Acquire l s)" "same_more s (Release l s)" "same_more s (Wait c cl s)"
  "same_more s (Signal c cl s)" "same_more s (Broadcast c l s)" "same_more s (Yield s)" "same_more s (Finish s)" "same_more s (Fork t f s)"
proof -
  note defs = V_def P_loop_def Acquire_def Release_def Wait_def Signal_def Yield_def Finish_def Fork_def SetLevel_off FindNextToRun_def
    set_level_def SetLevel_def ReadyToRun_def Sleep_def Run_def SaveUserState_def
  show "same_more s (V i s)" "same_more s (P_loop i old s)" "same_more s (Acquire l s)" "same_more s (Release l s)"
    "same_more s (Yield s)" "same_more s (Finish s)" "same_more s (Fork t f s)"
    by (auto simp: same_more_def defs rbind_eq_Inr Let_def split: if_splits option.splits list.splits)
  show "same_more s (Wait c cl s)"
    by (auto simp: same_more_def defs rbind_eq_Inr Let_def split: if_splits option.splits list.splits)
  have sig: "same_more s (Signal c cl s)" for s :: "('h, 'c, 'z) kernel_scheme" and cl
    by (auto simp: same_more_def defs rbind_eq_Inr Let_def split: if_splits option.splits list.splits)
  show "same_more s (Signal c cl s)" by (rule sig)
  show "same_more s (Broadcast c l s)"
    using sig [of "push [F_Broadcast c l] s" "Some l"] by (auto simp: Broadcast_def intro: same_more_eq)
qed

lemma same_more_fire: "same_more s (fire rnd h s)"
  by (cases h) (auto simp: same_more_def TimerExpired_def Schedule_def TimerInterruptHandler_def YieldOnReturn_def rbind_eq_Inr Let_def
      split: if_splits dest: same_more_ops(1) [unfolded same_more_def, rule_format])

lemma CheckIfDue_more: "CheckIfDue (fire rnd) adv s = Inr (b, s') \<Longrightarrow> kernel.more s' = kernel.more s"
proof -
  have f: "kernel.more s2 = kernel.more s1" if "fire rnd h s1 = Inr s2" for h s1 s2
    using same_more_fire [of s1 rnd h] that by (simp add: same_more_def)
  have d: "kernel.more s2 = kernel.more s1" if "delayed_load s1 = Inr s2" for s1 s2
    using that by (auto simp: delayed_load_def rbind_eq_Inr split: option.splits)
  show "CheckIfDue (fire rnd) adv s = Inr (b, s') \<Longrightarrow> kernel.more s' = kernel.more s"
    by (auto simp: CheckIfDue_def Let_def rbind_eq_Inr split: list.splits if_splits dest!: f d)
qed

lemma step_more:
  assumes "kernel_step (fire rnd) code s = Inr s'"
  shows "kernel.more s' = kernel.more s \<or> (\<exists>c fs s0. t_frames (cur s) = F_Code c # fs \<and> kernel.more s0 = kernel.more s \<and> code c s0 = Inr s')"
proof (cases "t_frames (cur s)")
  case Nil
  with assms show ?thesis by (simp add: kernel_step_def)
next
  case (Cons f fs)
  define s0 where "s0 = set_thread (currentThread s) ((cur s)\<lparr>t_frames := fs\<rparr>) s"
  have s0: "kernel.more s0 = kernel.more s" "run_frame (fire rnd) code f s0 = Inr s'"
    using assms Cons by (simp_all add: s0_def kernel_step_def)
  have eq: "kernel.more s' = kernel.more s" if "same_more x (run_frame (fire rnd) code f s0)" "kernel.more x = kernel.more s" for x
    using that s0(2) by (simp add: same_more_def)
  note ops = same_more_basic [of s0] same_more_ops [of s0]
  show ?thesis
  proof (cases f)
    case (F_Code c)
    with Cons s0 show ?thesis by auto
  next
    case F_CheckLoop
    with s0 show ?thesis by (auto simp: rbind_eq_Inr dest!: CheckIfDue_more split: if_splits)
  next
    case F_SleepLoop
    with s0 show ?thesis using same_more_basic(4) [of "s0\<lparr>readyList := tl (readyList s0)\<rparr>" "hd (readyList s0)"]
      by (auto simp: sleep_loop_def FindNextToRun_def Idle_def rbind_eq_Inr same_more_def split: list.splits if_splits dest!: CheckIfDue_more)
  next
    case (F_TickTail m)
    have "same_more s (Yield (push [F_SetStatus m] (s0\<lparr>level := IntOn, yieldOnReturn := False, mstatus := SystemMode\<rparr>)))"
      by (rule same_more_eq [OF same_more_ops(8)]) (simp add: s0(1))
    with s0 F_TickTail show ?thesis by (auto simp: Let_def same_more_def split: if_splits)
  qed (use eq [of s0] s0 ops in \<open>auto simp: same_more_def\<close>)
qed

section \<open>Handles of locks and condition variables\<close>

definition tables :: "os \<Rightarrow> KernelLock list \<times> KernelCV list \<times> nat \<times> nat" where
  "tables s = (LockTable s, CVTable s, next_lock s, next_cond s)"

lemma tables_more: "kernel.more s' = kernel.more s \<Longrightarrow> tables s' = tables s"
  by (cases s; cases s') (simp add: tables_def)

definition same_tables :: "os \<Rightarrow> os result \<Rightarrow> bool" where
  "same_tables s r \<longleftrightarrow> (\<forall>s'. r = Inr s' \<longrightarrow> tables s' = tables s)"

lemma same_tables_simps [simp]: "same_tables s (Inl e)" "same_tables s (Inr s') \<longleftrightarrow> tables s' = tables s"
  by (auto simp: same_tables_def)

lemma same_tables_rbind: "(\<And>x. r = Inr x \<Longrightarrow> same_tables s (f x)) \<Longrightarrow> same_tables s (rbind r f)"
  by (cases r) auto

lemma tables_simps [simp]:
  "tables (push fs s) = tables s" "tables (OneTick s) = tables s" "tables (set_thread u th s) = tables s"
  "tables (set_lock l y s) = tables s" "tables (set_cond c z s) = tables s"
  "tables (s\<lparr>mstatus := ms\<rparr>) = tables s" "tables (s\<lparr>k_machine := km\<rparr>) = tables s"
  by (rule tables_more, simp)+

lemma tables_os_simps [simp]:
  "tables (say x s) = tables s" "tables (set_files a t s) = tables s"
  "tables (FileSystem_Create name s) = tables s" "tables (OpenFile_delete f s) = tables s"
  "tables (s\<lparr>rand_values := rv\<rparr>) = tables s"
  "tables (s\<lparr>processes := ps\<rparr>) = tables s" "tables (s\<lparr>processTable := pt\<rparr>) = tables s" "tables (s\<lparr>next_thread := n\<rparr>) = tables s"
  by (simp_all add: tables_def say_def set_files_def FileSystem_Create_def OpenFile_delete_def)

lemma same_tables_kernel:
  assumes "tables s0 = tables s"
  shows "same_tables s (Acquire l s0)" "same_tables s (Release l s0)" "same_tables s (Wait c cl s0)" "same_tables s (Signal c cl s0)"
    "same_tables s (Broadcast c l s0)" "same_tables s (Yield s0)" "same_tables s (Finish s0)" "same_tables s (Fork t f s0)"
  using same_more_ops [of s0] assms tables_more unfolding same_tables_def same_more_def by metis+

lemma tables_ops:
  "with_machine g s = Inr (x, s') \<Longrightarrow> tables s' = tables s"
  "on_machine h s = Inr s' \<Longrightarrow> tables s' = tables s"
  "copyin v len s = Inr (bs, s') \<Longrightarrow> tables s' = tables s"
  "copyout v buf s = Inr s' \<Longrightarrow> tables s' = tables s"
  "FileSystem_Open name s = (fo, s') \<Longrightarrow> tables s' = tables s"
  "OpenFile_Read f n s = Inr (bs, s') \<Longrightarrow> tables s' = tables s"
  "OpenFile_Write f buf s = Inr s' \<Longrightarrow> tables s' = tables s"
  "scanf_s k s = Inr (bs, s') \<Longrightarrow> tables s' = tables s"
  "RestoreState a s = Inr s' \<Longrightarrow> tables s' = tables s"
  "new_AddrSpace f s = Inr (a, s') \<Longrightarrow> tables s' = tables s"
  "put_process s = Inr (pid, s') \<Longrightarrow> tables s' = tables s"
  "alloc_Thread s = Inr (t, s') \<Longrightarrow> tables s' = tables s"
  by (auto simp: with_machine_def on_machine_def copyin_def copyout_def FileSystem_Open_def OpenFile_Read_def OpenFile_Write_def scanf_s_def
      RestoreState_def new_AddrSpace_def put_process_def alloc_Thread_def new_Thread_def rbind_eq_Inr Let_def tables_def set_thread_def
      split: option.splits list.splits if_splits)

lemma same_tables_file_calls:
  "Create_Syscall v len s = Inr s' \<Longrightarrow> tables s' = tables s" "Open_Syscall v len s = Inr (r, s') \<Longrightarrow> tables s' = tables s"
  "Write_Syscall v len i s = Inr s' \<Longrightarrow> tables s' = tables s" "Read_Syscall v len i s = Inr (r, s') \<Longrightarrow> tables s' = tables s"
  "Close_Syscall i s = Inr s' \<Longrightarrow> tables s' = tables s"
  by (auto simp: Create_Syscall_def Open_Syscall_def Write_Syscall_def Read_Syscall_def Close_Syscall_def Let_def rbind_eq_Inr
      split: if_splits option.splits prod.splits dest!: tables_ops)

lemma same_tables_syscall: "tables s0 = tables s \<Longrightarrow> same_tables s (syscall type a4 a5 a6 a7 s0)"
proof -
  assume eq: "tables s0 = tables s"
  have "same_tables s (Exec_Syscall a4 a5 s0)"
    using eq by (auto simp: Exec_Syscall_def split: option.split prod.split intro!: same_tables_rbind same_tables_kernel dest!: tables_ops(3,5))
  then show ?thesis using eq
    by (auto simp: syscall_def returning_def returning0_def rand_Syscall_def Acquire_Syscall_def Release_Syscall_def Wait_Syscall_def Signal_Syscall_def
        Broadcast_Syscall_def CreateLock_Syscall_def DestroyLock_Syscall_def CreateCV_Syscall_def DestroyCV_Syscall_def printf_Syscall_def
        Fork_Syscall_def Exit_Syscall_def intro!: same_tables_rbind same_tables_kernel dest!: same_tables_file_calls)
qed

definition changes_tables :: "ucode \<Rightarrow> bool" where
  "changes_tables c \<longleftrightarrow> (case c of Release_after _ \<Rightarrow> True | Signal_after _ \<Rightarrow> True | CreateLock_body \<Rightarrow> True | DestroyLock_body _ \<Rightarrow> True
     | CreateCV_body \<Rightarrow> True | DestroyCV_body _ \<Rightarrow> True | _ \<Rightarrow> False)"

lemma same_tables_on_machine: "same_tables s (on_machine h s)"
  unfolding same_tables_def using tables_ops(2) by blast

lemma same_tables_exec: "\<not> changes_tables c \<Longrightarrow> same_tables s (exec c s)"
  by (cases c) (auto simp: changes_tables_def user_instruction_def ExceptionHandler_def finish_syscall_def new_process_def kernel_run_def
      acquire_body_def release_body_def wait_body_def wait_call_def release_entry_def signal_body_def broadcast_body_def exec_body_def exec_fork_def
      fork_body_def fork_restore_def exit_body_def exit_remove_def thread_exits_def print_body_def Machine_Run_def Let_def
      split: option.split intro!: same_tables_rbind same_tables_kernel same_tables_syscall same_tables_on_machine dest!: tables_ops)

text \<open>\<open>stable f xs ys\<close>: the table has only grown, and an entry names what it named, or nothing any more.
  \<open>unshared f xs n\<close>: different entries name different objects, all below \<open>n\<close>.\<close>

definition stable :: "('a \<Rightarrow> nat option) \<Rightarrow> 'a list \<Rightarrow> 'a list \<Rightarrow> bool" where
  "stable f xs ys \<longleftrightarrow> length xs \<le> length ys \<and> (\<forall>i < length xs. f (ys ! i) = f (xs ! i) \<or> f (ys ! i) = None)"

definition unshared :: "('a \<Rightarrow> nat option) \<Rightarrow> 'a list \<Rightarrow> nat \<Rightarrow> bool" where
  "unshared f xs n \<longleftrightarrow> (\<forall>i < length xs. \<forall>k. f (xs ! i) = Some k \<longrightarrow> k < n)
     \<and> (\<forall>i < length xs. \<forall>j < length xs. \<forall>k. f (xs ! i) = Some k \<longrightarrow> f (xs ! j) = Some k \<longrightarrow> i = j)"

lemma stable_refl: "stable f xs xs"
  by (simp add: stable_def)

lemma stable_trans: "stable f xs ys \<Longrightarrow> stable f ys zs \<Longrightarrow> stable f xs zs"
  unfolding stable_def by (metis less_le_trans order_trans)

lemma table_update:
  assumes "f x = f (xs ! i) \<or> f x = None"
  shows "stable f xs (xs[i := x])" "unshared f xs n \<Longrightarrow> unshared f (xs[i := x]) n"
proof -
  have st: "f (xs[i := x] ! j) = f (xs ! j) \<or> f (xs[i := x] ! j) = None" if "j < length xs" for j
    using assms that by (cases "i = j") auto
  then show "stable f xs (xs[i := x])" by (simp add: stable_def)
  show "unshared f (xs[i := x]) n" if u: "unshared f xs n"
    unfolding unshared_def
  proof (intro conjI allI impI)
    fix j k assume "j < length (xs[i := x])" "f (xs[i := x] ! j) = Some k"
    with st [of j] u show "k < n" unfolding unshared_def by force
  next
    fix j l k assume "j < length (xs[i := x])" "l < length (xs[i := x])" "f (xs[i := x] ! j) = Some k" "f (xs[i := x] ! l) = Some k"
    with st [of j] st [of l] u show "j = l" unfolding unshared_def by force
  qed
qed

lemma table_append:
  assumes "f x = Some n"
  shows "stable f xs (xs @ [x])" "unshared f xs n \<Longrightarrow> unshared f (xs @ [x]) (Suc n)"
proof -
  show "stable f xs (xs @ [x])" by (simp add: stable_def nth_append)
  show "unshared f (xs @ [x]) (Suc n)" if u: "unshared f xs n"
  proof -
    have b: "k < n" if "i < length xs" "f (xs ! i) = Some k" for i k using u that by (simp add: unshared_def)
    have one: "i = j" if "i < length xs" "j < length xs" "f (xs ! i) = Some k" "f (xs ! j) = Some k" for i j k
      using u that unfolding unshared_def by blast
    show ?thesis unfolding unshared_def
    proof (intro conjI allI impI)
      fix i k assume "i < length (xs @ [x])" "f ((xs @ [x]) ! i) = Some k"
      with b [of i k] assms show "k < Suc n" by (cases "i < length xs") (auto simp: nth_append)
    next
      fix i j k assume ij: "i < length (xs @ [x])" "j < length (xs @ [x])" "f ((xs @ [x]) ! i) = Some k" "f ((xs @ [x]) ! j) = Some k"
      show "i = j"
        using ij b [of i k] b [of j k] one [of i j k] assms
        by (cases "i < length xs"; cases "j < length xs") (auto simp: nth_append)
    qed
  qed
qed

definition handles_step :: "os \<Rightarrow> os \<Rightarrow> bool" where
  "handles_step s s' \<longleftrightarrow> stable Kernel_Lock (LockTable s) (LockTable s') \<and> stable kcv_CV (CVTable s) (CVTable s')
     \<and> (unshared Kernel_Lock (LockTable s) (next_lock s) \<longrightarrow> unshared Kernel_Lock (LockTable s') (next_lock s'))
     \<and> (unshared kcv_CV (CVTable s) (next_cond s) \<longrightarrow> unshared kcv_CV (CVTable s') (next_cond s'))"

lemma handles_step_same: "tables s' = tables s \<Longrightarrow> handles_step s s'"
  by (simp add: tables_def handles_step_def stable_refl)

lemma handles_step_trans: "handles_step s s' \<Longrightarrow> handles_step s' s'' \<Longrightarrow> handles_step s s''"
  using stable_trans [of Kernel_Lock "LockTable s" "LockTable s'" "LockTable s''"] stable_trans [of kcv_CV "CVTable s" "CVTable s'" "CVTable s''"]
  by (simp add: handles_step_def)

lemma handles_step_eq: "tables s1 = tables s2 \<Longrightarrow> handles_step s s1 = handles_step s s2" "tables s1 = tables s2 \<Longrightarrow> handles_step s1 s' = handles_step s2 s'"
  by (simp_all add: tables_def handles_step_def)

lemma handles_updates:
  assumes "tables s0 = tables s"
  shows "Kernel_Lock x = Kernel_Lock (LockTable s ! nat n) \<or> Kernel_Lock x = None \<Longrightarrow> handles_step s (set_lock_entry n x s0)"
    "kcv_CV y = kcv_CV (CVTable s ! nat n) \<or> kcv_CV y = None \<Longrightarrow> handles_step s (set_cv_entry n y s0)"
proof -
  have eq: "LockTable s0 = LockTable s" "CVTable s0 = CVTable s" "next_lock s0 = next_lock s" "next_cond s0 = next_cond s"
    using assms by (simp_all add: tables_def)
  show "Kernel_Lock x = Kernel_Lock (LockTable s ! nat n) \<or> Kernel_Lock x = None \<Longrightarrow> handles_step s (set_lock_entry n x s0)"
    using table_update [of Kernel_Lock x "LockTable s" "nat n"] by (simp add: handles_step_def set_lock_entry_def eq stable_refl)
  show "kcv_CV y = kcv_CV (CVTable s ! nat n) \<or> kcv_CV y = None \<Longrightarrow> handles_step s (set_cv_entry n y s0)"
    using table_update [of kcv_CV y "CVTable s" "nat n"] by (simp add: handles_step_def set_cv_entry_def eq stable_refl)
qed

lemma handles_exec:
  assumes "exec c s = Inr s'"
  shows "handles_step s s'"
proof (cases "changes_tables c")
  case False
  with same_tables_exec [of c s] assms show ?thesis by (simp add: same_tables_def handles_step_same)
next
  case True
  have say: "handles_step s (say x s1) = handles_step s s1" for x s1 by (rule handles_step_eq) simp
  have push: "handles_step s (push fs s1) = handles_step s s1" for fs s1 by (rule handles_step_eq) simp
  show ?thesis
  proof (cases c)
    case CreateLock_body
    let ?x = "\<lparr>Kernel_Lock = Some (next_lock s), kl_Owner = None, kl_IsDeleted = False\<rparr>"
    from assms CreateLock_body have "tables s' = (LockTable s @ [?x], CVTable s, Suc (next_lock s), next_cond s)"
      by (auto simp: createLock_body_def Let_def tables_def push_def set_thread_def set_lock_def split: if_splits)
    then show ?thesis using table_append [of Kernel_Lock ?x "next_lock s" "LockTable s"]
      by (simp add: tables_def handles_step_def stable_refl)
  next
    case CreateCV_body
    let ?x = "\<lparr>kcv_CV = Some (next_cond s), kcv_IsDeleted = False\<rparr>"
    from assms CreateCV_body have "tables s' = (LockTable s, CVTable s @ [?x], next_lock s, Suc (next_cond s))"
      by (auto simp: createCV_body_def Let_def tables_def push_def set_thread_def set_cond_def split: if_splits)
    then show ?thesis using table_append [of kcv_CV ?x "next_cond s" "CVTable s"]
      by (simp add: tables_def handles_step_def stable_refl)
  qed (use assms True in \<open>auto simp: changes_tables_def release_after_def signal_after_def destroyLock_body_def destroyCV_body_def Let_def say push
      handles_step_same [of s s] split: if_splits option.splits intro!: handles_updates\<close>)
qed

lemma handles_reachable:
  "reachable (fire rnd) exec s0 s \<Longrightarrow> handles_step s0 s"
proof (induction rule: reachable.induct)
  case start
  then show ?case by (simp add: handles_step_same)
next
  case (step s s')
  from step_more [OF step.hyps(2)] have "handles_step s s'"
  proof (elim disjE exE conjE)
    assume "kernel.more s' = kernel.more s"
    then show ?thesis by (intro handles_step_same tables_more)
  next
    fix c s1 assume "kernel.more s1 = kernel.more s" "exec c s1 = Inr s'"
    then show ?thesis using handles_exec [of c s1 s'] handles_step_eq(2) [of s1 s s'] tables_more [of s1 s] by blast
  qed
  with step.IH show ?case by (rule handles_step_trans)
qed

section \<open>Properties\<close>

text \<open>A system just booted, with one program on its disk, for the witnesses.\<close>

definition boot_kernel :: "(handler, ucode) kernel" where
  "boot_kernel = (kernel_new (\<lambda>_. 0) (\<lambda>_. None) demo_spaces Tick)\<lparr>k_machine := Some (Machine_new 0 0 (\<lambda>_. []))\<rparr>"

definition boot_os :: os where
  "boot_os = kernel.extend boot_kernel (os.fields False [] [] (projr (Table_new (\<lambda>_. 0) (\<lambda>_. None) PROCESS_TABLE_MAX_SIZE))
     (\<lambda>_. \<lparr>p_id = 0, activeThreadCount = 0, inactiveThreadCount = 0\<rparr>) boot_memMap [[65] \<mapsto> empty_program] (\<lambda>_. None) [] [] (\<lambda>_. 0) None
     boot_files 4 0 0 0 1 0 0 (\<lambda>_. 0))"

lemma boot_sel:
  "live boot_os = (\<lambda>t. t = 0)" "threads boot_os = threads boot_kernel" "currentThread boot_os = 0" "inHandler boot_os = False" "readyList boot_os = []"
  "semaphores boot_os = (\<lambda>_. Semaphore_new 0)" "locks boot_os = (\<lambda>_. Lock_new None)" "conditions boot_os = (\<lambda>_. Condition_new)"
  "threadToBeDestroyed boot_os = None" "level boot_os = IntOff" "k_machine boot_os = Some (Machine_new 0 0 (\<lambda>_. []))"
  "unixFiles boot_os = [[65] \<mapsto> empty_program]" "memMap boot_os = boot_memMap" "freshTable boot_os = boot_files" "next_file boot_os = 0"
  "processTable boot_os = projr (Table_new (\<lambda>_. 0) (\<lambda>_. None) PROCESS_TABLE_MAX_SIZE)" "LockTable boot_os = []" "CVTable boot_os = []"
  "next_lock boot_os = 4" "next_cond boot_os = 0"
  "threads boot_kernel = (\<lambda>t. (Thread_new (\<lambda>_. 0) 0 0)\<lparr>t_status := if t = 0 then RUNNING else JUST_CREATED,
                    t_frames := if t = 0 then [F_Enable, F_Code Tick, F_Finish] else []\<rparr>)"
  by (simp_all add: boot_os_def boot_kernel_def kernel_new_def kernel.extend_def os.fields_def)

lemma boot_calls_ok: "calls_ok boot_os"
proof -
  have q: "queue boot_os q = []" for q by (cases q) (simp_all add: boot_sel Semaphore_new_def Lock_new_def Condition_new_def)
  show ?thesis unfolding calls_ok_def sched_inv_def q by (simp add: boot_sel cur_def Thread_new_def)
qed

lemma StartProcess_inv: "calls_ok s \<Longrightarrow> StartProcess name s = Inr s' \<Longrightarrow> kernel_inv s'"
proof -
  assume ok: "calls_ok s" and start: "StartProcess name s = Inr s'"
  have "inv_kept (StartProcess name s)" unfolding StartProcess_def
    using ok by (auto simp: Let_def Machine_Run_def calls_ok_set_thread cur_def split: option.split prod.split
        intro!: inv_kept_rbind kernel_calls dest!: calls_ok_tables)
  with start show ?thesis by simp
qed

lemma boot_starts: "\<exists>s0. StartProcess [65] boot_os = Inr s0"
proof -
  define s1 where "s1 = snd (FileSystem_Open [65] boot_os)"
  have open_f: "FileSystem_Open [65] boot_os = (Some 0, s1)" "k_machine s1 = Some (Machine_new 0 0 (\<lambda>_. []))"
    "freshTable s1 = boot_files" "memMap s1 = boot_memMap" "unixFiles s1 = [[65] \<mapsto> empty_program]"
    "openFiles s1 0 = Some \<lparr>of_file = [65], currentOffset = 0\<rparr>" "processTable s1 = processTable boot_os"
    by (simp_all add: s1_def FileSystem_Open_def boot_sel)
  have "pages_needed empty_header \<le> card ({..<NumPhysPages} - marked boot_memMap)"
    using boot_ok(3) empty_program_fits(2) by (simp add: NumPhysPages_def)
  from AddrSpace_new_ok [OF empty_program_fits(1) boot_ok(4,1,2) this empty_program_fits(3), of "hostBigEndian s1" "heapJunk s1" "next_table s1" "Machine_new 0 0 (\<lambda>_. [])"]
  obtain a m mm where "AddrSpace_new (hostBigEndian s1) (heapJunk s1) boot_files (next_table s1) empty_program (Machine_new 0 0 (\<lambda>_. [])) boot_memMap = Inr (a, m, mm)"
    by blast
  then obtain s2 where s2: "new_AddrSpace 0 s1 = Inr (next_space s1, s2)" "k_machine s2 = Some m" "processTable s2 = processTable boot_os"
    using open_f by (auto simp: new_AddrSpace_def deref_file_def file_contents_def)
  obtain t :: "nat Table" where t: "Table_new (\<lambda>_. 0) (\<lambda>_. None) PROCESS_TABLE_MAX_SIZE = Inr t" "table_inv t"
    using Table_new_ok [of "\<lambda>_. 0" "\<lambda>_. None" PROCESS_TABLE_MAX_SIZE] by blast
  let ?s3 = "set_thread (currentThread s2) ((cur s2)\<lparr>space := Some (next_space s1)\<rparr>) s2"
  have "\<exists>pid t'. Table_Put (Some (next_process ?s3)) t = Inr (pid, t')"
    using Table_Put_ok [OF t(2), of "Some (next_process ?s3)"] by blast
  then obtain pid s4 where s4: "put_process ?s3 = Inr (pid, s4)" "k_machine s4 = Some m"
    using s2(2,3) t(1) by (auto simp: put_process_def boot_sel set_thread_def)
  have "\<exists>s0. rbind (on_machine (InitRegisters a') s5) (\<lambda>s. rbind (RestoreState (next_space s1) s) (\<lambda>s. Inr (Machine_Run s))) = Inr s0"
    if "k_machine s5 = Some m" for a' s5
    using that by (simp add: on_machine_def with_machine_def InitRegisters_eq RestoreState_def)
  moreover have "k_machine (OpenFile_delete 0 (if b then say x s4 else s4)) = Some m" for b x
    using s4(2) by (simp add: OpenFile_delete_def say_def)
  ultimately show ?thesis using open_f(1) s2(1) s4(1) by (simp add: StartProcess_def Let_def)
qed

text \<open>C10. The kernel's invariant holds while user programs run: in every state the system reaches from the start of
  the first program, through any instructions, exceptions and system calls of any number of
  processes and threads and any timer interrupts, no queue holds a thread twice, no thread is in two
  queues, queued threads have the status of their queue, and only the current thread is running.\<close>

theorem system_calls_keep_scheduler_invariant:
  assumes "calls_ok boot" "StartProcess name boot = Inr s0" "reachable (fire rnd) exec s0 s"
  shows "live s (currentThread s) \<and> (\<forall>q. distinct (queue s q))
    \<and> (\<forall>q q' t. t \<in> set (queue s q) \<and> t \<in> set (queue s q') \<longrightarrow> q = q')
    \<and> (\<forall>q t. t \<in> set (queue s q) \<longrightarrow> live s t \<and> t_status (threads s t) = (if q = QReady then READY else BLOCKED))
    \<and> (\<forall>t. live s t \<and> t_status (threads s t) = RUNNING \<longrightarrow> t = currentThread s)"
proof -
  have "kernel_inv s" using os.reachable_kept [OF assms(3)] StartProcess_inv [OF assms(1,2)] .
  then show ?thesis unfolding kernel_inv_def sched_inv_def by blast
qed

theorem system_calls_keep_scheduler_invariant_witness:
  "\<exists>s0. StartProcess [65] boot_os = Inr s0 \<and> live s0 (currentThread s0) \<and> distinct (readyList s0)"
proof -
  obtain s0 where s0: "StartProcess [65] boot_os = Inr s0" using boot_starts by blast
  from system_calls_keep_scheduler_invariant [OF boot_calls_ok s0 reachable.start] s0 show ?thesis
    by (metis queue.simps(1))
qed

text \<open>C38. Handles of user locks and condition variables are stable: along every run of the system, a handle goes on naming
  the same kernel lock (or condition), or none once it is destroyed, never another one; and in every
  state two different handles never name the same one.\<close>

theorem handles_stable_and_unshared:
  assumes "LockTable s0 = []" "CVTable s0 = []" "reachable (fire rnd) exec s0 s" "reachable (fire rnd) exec s s'"
  shows "(\<forall>i < length (LockTable s). i < length (LockTable s') \<and> Kernel_Lock (LockTable s' ! i) \<in> {Kernel_Lock (LockTable s ! i), None})
    \<and> (\<forall>i < length (CVTable s). i < length (CVTable s') \<and> kcv_CV (CVTable s' ! i) \<in> {kcv_CV (CVTable s ! i), None})
    \<and> (\<forall>i < length (LockTable s). \<forall>j < length (LockTable s). i \<noteq> j \<longrightarrow> Kernel_Lock (LockTable s ! i) \<noteq> None \<longrightarrow>
         Kernel_Lock (LockTable s ! i) \<noteq> Kernel_Lock (LockTable s ! j))
    \<and> (\<forall>i < length (CVTable s). \<forall>j < length (CVTable s). i \<noteq> j \<longrightarrow> kcv_CV (CVTable s ! i) \<noteq> None \<longrightarrow>
         kcv_CV (CVTable s ! i) \<noteq> kcv_CV (CVTable s ! j))"
proof -
  have "unshared Kernel_Lock (LockTable s0) (next_lock s0)" "unshared kcv_CV (CVTable s0) (next_cond s0)"
    using assms(1,2) by (simp_all add: unshared_def)
  with handles_reachable [OF assms(3)] have u: "unshared Kernel_Lock (LockTable s) (next_lock s)" "unshared kcv_CV (CVTable s) (next_cond s)"
    by (simp_all add: handles_step_def)
  have distinct_handles: "f (xs ! i) \<noteq> f (xs ! j)" if "unshared f xs n" "i < length xs" "j < length xs" "i \<noteq> j" "f (xs ! i) \<noteq> None"
    for f :: "'x \<Rightarrow> nat option" and xs i j n using that unfolding unshared_def by (metis option.exhaust)
  have st: "stable Kernel_Lock (LockTable s) (LockTable s')" "stable kcv_CV (CVTable s) (CVTable s')"
    using handles_reachable [OF assms(4)] by (simp_all add: handles_step_def)
  show ?thesis
    using distinct_handles [OF u(1)] distinct_handles [OF u(2)] st by (auto simp: stable_def)
qed

theorem handles_stable_and_unshared_witness:
  "\<exists>s. kernel_step (fire (\<lambda>_. 0)) exec (push [F_Code CreateLock_body] boot_os) = Inr s \<and> length (LockTable s) = 1
    \<and> (\<forall>i < length (LockTable s). i < length (LockTable s) \<and> Kernel_Lock (LockTable s ! i) \<in> {Kernel_Lock (LockTable s ! i), None})"
proof -
  let ?s0 = "push [F_Code CreateLock_body] boot_os"
  have e: "LockTable ?s0 = []" "CVTable ?s0 = []" by (simp_all add: push_def set_thread_def boot_sel)
  obtain s where s: "kernel_step (fire (\<lambda>_. 0)) exec ?s0 = Inr s" "length (LockTable s) = 1"
    by (simp add: kernel_step_def createLock_body_def Let_def push_def set_thread_def set_lock_def boot_sel cur_def Lock_new_def)
  from handles_stable_and_unshared [OF e reachable.step [OF reachable.start s(1)] reachable.start] s show ?thesis by blast
qed

text \<open>\<open>t\<close> sleeps in the queue of a lock that \<open>u\<close> holds.\<close>

definition waits_for :: "os \<Rightarrow> tid \<Rightarrow> tid \<Rightarrow> bool" where
  "waits_for s t u \<longleftrightarrow> (\<exists>l. t \<in> set (waitingThreads (locks s l)) \<and> owner (locks s l) = Some u)"

lemma Acquire_waits:
  assumes "calls_ok s" "objects_ok s" "Acquire l s = Inr s'" "owner (locks s l) = Some u" "u \<noteq> currentThread s"
    "currentThread s \<notin> set (waitingThreads (locks s l))"
  shows "owner (locks s' l) = Some u" "waitingThreads (locks s' l) = waitingThreads (locks s l) @ [currentThread s]" "sleeps s'"
    "\<And>k. k \<noteq> l \<Longrightarrow> locks s' k = locks s k"
proof -
  have n: "\<not> isHeldByCurrentThread l (s\<lparr>level := IntOff\<rparr>)" "\<not> available (locks s l)"
    using assms(2,4,5) by (auto simp: isHeldByCurrentThread_def objects_ok_def lock_ok_def)
  then have "Sleep (push [F_SetLevel (level s)] (set_lock l ((locks s l)\<lparr>waitingThreads := waitingThreads (locks s l) @ [currentThread s]\<rparr>)
      (s\<lparr>level := IntOff\<rparr>))) = Inr s'"
    using assms(3) by (simp add: Acquire_def SetLevel_off Let_def)
  then show "owner (locks s' l) = Some u" "waitingThreads (locks s' l) = waitingThreads (locks s l) @ [currentThread s]" "sleeps s'"
    "\<And>k. k \<noteq> l \<Longrightarrow> locks s' k = locks s k"
    using assms(4) by (auto simp: Sleep_def setStatus_def set_thread_def set_lock_def push_def sleeps_def cur_def)
qed

lemma objects_ok_push_os [simp]: "objects_ok (push fs s) = objects_ok s"
  by simp

text \<open>C40. Two user programs that contend for a user lock deadlock: when thread \<open>B\<close> calls \<open>Acquire\<close> on a lock that \<open>A\<close> holds, it
  goes to sleep on that lock while it still holds \<open>LockTableLock\<close>; when \<open>A\<close> then calls \<open>Release\<close> on it, \<open>A\<close> has
  to wait for \<open>LockTableLock\<close>. Each of the two sleeps in the queue of a lock the other one holds.\<close>

theorem contended_user_lock_deadlocks:
  assumes B: "calls_ok s" "objects_ok s" "owner (locks s LockTableLock) = Some (currentThread s)"
    and lock: "valid_handle n (LockTable s)" "\<not> kl_IsDeleted (LockTable s ! nat n)" "Kernel_Lock (LockTable s ! nat n) = Some l" "l \<noteq> LockTableLock"
    and held: "owner (locks s l) = Some A" "A \<noteq> currentThread s" "currentThread s \<notin> set (waitingThreads (locks s l))"
    and asks: "exec (Acquire_body n) s = Inr s1"
    and A: "calls_ok s2" "objects_ok s2" "locks s2 = locks s1" "currentThread s2 = A" "A \<notin> set (waitingThreads (locks s2 LockTableLock))"
    and gives: "Release_Syscall n s2 = Inr s3"
  shows "waits_for s3 (currentThread s) A \<and> waits_for s3 A (currentThread s) \<and> sleeps s3"
proof -
  let ?s = "push [F_Release LockTableLock, F_Code (Return 0)] s" and ?t = "push [F_Code (Release_body n)] s2"
  have a1: "Acquire l ?s = Inr s1" using asks lock by (simp add: acquire_body_def)
  have ok1: "calls_ok ?s" using B(1) by (rule calls_ok_pushes) simp
  have w1: "owner (locks s1 l) = Some A" "currentThread s \<in> set (waitingThreads (locks s1 l))" "locks s1 LockTableLock = locks s LockTableLock"
    using Acquire_waits [OF ok1 _ a1, of A] B held lock(4) by auto
  have a2: "Acquire LockTableLock ?t = Inr s3" using gives by (simp add: Release_Syscall_def)
  have ok2: "calls_ok ?t" using A(1) by (rule calls_ok_pushes) simp
  have "owner (locks ?t LockTableLock) = Some (currentThread s)" using A(3) w1(3) B(3) by simp
  from Acquire_waits [OF ok2 _ a2 this] A held(2) have "owner (locks s3 LockTableLock) = Some (currentThread s)"
    "A \<in> set (waitingThreads (locks s3 LockTableLock))" "sleeps s3" "locks s3 l = locks s1 l" using lock(4) by auto
  with w1 show ?thesis unfolding waits_for_def by (intro conjI exI [of _ l] exI [of _ LockTableLock]) simp_all
qed

definition contended_locks :: "nat \<Rightarrow> Lock" where
  "contended_locks = (\<lambda>_. Lock_new None)(2 := \<lparr>available = False, owner = Some 0, waitingThreads = []\<rparr>,
     4 := \<lparr>available = False, owner = Some 1, waitingThreads = []\<rparr>)"

definition asking_os :: os where
  "asking_os = boot_os\<lparr>live := (\<lambda>t. t < 2), locks := contended_locks,
     LockTable := [\<lparr>Kernel_Lock = Some 4, kl_Owner = None, kl_IsDeleted = False\<rparr>]\<rparr>"

definition giving_os :: os where
  "giving_os = asking_os\<lparr>currentThread := 1, locks := contended_locks(4 := \<lparr>available = False, owner = Some 1, waitingThreads = [0]\<rparr>),
     threads := (\<lambda>t. (Thread_new (\<lambda>_. 0) 0 0)\<lparr>t_status := if t = 0 then BLOCKED else RUNNING,
        t_frames := if t = 0 then [F_RunTail] else []\<rparr>)\<rparr>"

lemma contended_ok: "calls_ok asking_os" "objects_ok asking_os" "calls_ok giving_os" "objects_ok giving_os"
proof -
  have b: "stats boot_os = Statistics_new" "pending boot_os = []"
    by (simp_all add: boot_os_def boot_kernel_def kernel_new_def kernel.extend_def)
  have l: "lock_ok (contended_locks l)" for l by (simp add: contended_locks_def lock_ok_def Lock_new_def)
  show "objects_ok asking_os" using l
    by (simp add: objects_ok_def asking_os_def boot_sel b Semaphore_new_def clock_ok_def Statistics_new_def)
  show "objects_ok giving_os" using l
    by (simp add: objects_ok_def giving_os_def asking_os_def boot_sel b Semaphore_new_def clock_ok_def Statistics_new_def lock_ok_def)
  have q1: "queue asking_os q = []" for q
    by (cases q) (simp_all add: asking_os_def boot_sel contended_locks_def Semaphore_new_def Lock_new_def Condition_new_def)
  show "calls_ok asking_os" unfolding calls_ok_def sched_inv_def q1
    by (simp add: asking_os_def boot_sel cur_def Thread_new_def resumable_def)
  have q2: "queue giving_os q = (if q = QLock 4 then [0] else [])" for q
    by (cases q) (simp_all add: giving_os_def asking_os_def boot_sel contended_locks_def Semaphore_new_def Lock_new_def Condition_new_def)
  have "live giving_os t \<longleftrightarrow> t < 2" "currentThread giving_os = 1" "readyList giving_os = []" "threadToBeDestroyed giving_os = None" "\<not> inHandler giving_os"
    "t_status (threads giving_os t) = (if t = 0 then BLOCKED else RUNNING)" "t_stack (threads giving_os t) = None"
    "t_frames (threads giving_os t) = (if t = 0 then [F_RunTail] else [])" for t
    by (simp_all add: giving_os_def asking_os_def boot_sel Thread_new_def)
  then show "calls_ok giving_os" unfolding calls_ok_def sched_inv_def q2 by (auto simp: cur_def resumable_def)
qed

theorem contended_user_lock_deadlocks_witness:
  "\<exists>s3. Release_Syscall 0 giving_os = Inr s3 \<and> waits_for s3 0 1 \<and> waits_for s3 1 0"
proof -
  have c: "currentThread asking_os = 0" "currentThread giving_os = 1" by (simp_all add: asking_os_def giving_os_def boot_sel)
  have ent: "LockTable asking_os = [\<lparr>Kernel_Lock = Some 4, kl_Owner = None, kl_IsDeleted = False\<rparr>]" by (simp add: asking_os_def)
  have lk: "locks asking_os = contended_locks" "locks giving_os = contended_locks(4 := \<lparr>available = False, owner = Some 1, waitingThreads = [0]\<rparr>)"
    by (simp_all add: asking_os_def giving_os_def)
  obtain s1 where s1: "exec (Acquire_body 0) asking_os = Inr s1" "locks s1 = locks giving_os"
    using ent lk c by (simp add: acquire_body_def valid_handle_def Acquire_def SetLevel_off isHeldByCurrentThread_def Let_def Sleep_def contended_locks_def
        setStatus_def set_thread_def set_lock_def push_def)
  obtain s3 where s3: "Release_Syscall 0 giving_os = Inr s3"
    using lk c by (simp add: Release_Syscall_def Acquire_def SetLevel_off isHeldByCurrentThread_def Let_def Sleep_def contended_locks_def LockTableLock_def)
  have "waits_for s3 (currentThread asking_os) 1 \<and> waits_for s3 1 (currentThread asking_os) \<and> sleeps s3"
    by (rule contended_user_lock_deadlocks [OF contended_ok(1,2) _ _ _ _ _ _ _ _ s1(1) contended_ok(3,4) s1(2) [symmetric] c(2) _ s3, where l = 4])
      (use ent lk c in \<open>simp_all add: contended_locks_def LockTableLock_def valid_handle_def\<close>)
  with s3 c show ?thesis by simp
qed

text \<open>\<open>Exit\<close> never shuts the machine down: it asks for \<open>processTable->size\<close>, which is the capacity of the
  table and not the number of processes, so the branch for the last process is unreachable and the
  call only ever ends the calling thread. What it can run into is a process identifier that is not
  in the table.\<close>

theorem exit_never_halts:
  assumes "table_inv (processTable s)" "tbl_size (processTable s) = PROCESS_TABLE_MAX_SIZE"
  shows "exec Exit_body s \<noteq> Inl Halted"
proof -
  have rel: "Release l s' \<noteq> Inl Halted" for l and s' :: os
    by (auto simp: Release_def SetLevel_off set_level_def SetLevel_def ReadyToRun_def deref_def Let_def ASSERT_def rbind_def split: list.split sum.split)
  have "thread_exits i s \<noteq> Inl Halted" for i unfolding thread_exits_def Let_def by (rule rel)
  then show ?thesis using rel assms by (auto simp: exit_body_def get_process_def Table_Get_ok PROCESS_TABLE_MAX_SIZE_def Let_def split: option.splits)
qed

theorem exit_never_halts_witness: "exec Exit_body boot_os \<noteq> Inl Halted"
proof -
  obtain t :: "nat Table" where "Table_new (\<lambda>_. 0) (\<lambda>_. None) PROCESS_TABLE_MAX_SIZE = Inr t" "table_inv t" "tbl_size t = PROCESS_TABLE_MAX_SIZE"
    using Table_new_ok [of "\<lambda>_. 0" "\<lambda>_. None" PROCESS_TABLE_MAX_SIZE] by blast
  then show ?thesis by (intro exit_never_halts) (simp_all add: boot_sel)
qed

lemma write_at_spec:
  "take (length bs) (drop pos (write_at pos bs c)) = bs"
  "i < pos \<or> pos + length bs \<le> i \<Longrightarrow> i < length c \<Longrightarrow> i < length (write_at pos bs c) \<and> write_at pos bs c ! i = c ! i"
  "bs \<noteq> [] \<Longrightarrow> length (write_at pos bs c) = max (length c) (pos + length bs)"
proof -
  show "take (length bs) (drop pos (write_at pos bs c)) = bs" by (cases "bs = []") (auto simp: write_at_def)
  show "i < length (write_at pos bs c) \<and> write_at pos bs c ! i = c ! i" if "i < pos \<or> pos + length bs \<le> i" "i < length c"
    using that by (cases "bs = []") (auto simp: write_at_def nth_append min_def)
  show "length (write_at pos bs c) = max (length c) (pos + length bs)" if "bs \<noteq> []"
    using that by (auto simp: write_at_def min_def max_def)
qed

text \<open>Files: what was written to an open file at its position is what any open file of the same name reads at that
  position; the bytes before and after it are kept, a gap is filled, and the writer's position
  moves past what it wrote.\<close>

theorem file_read_after_write:
  assumes f: "openFiles s f = Some x" "0 \<le> sint (currentOffset x)" "OpenFile_Write f bs s = Inr s'"
    and g: "openFiles s' g = Some y" "of_file y = of_file x" "currentOffset y = currentOffset x"
  shows "(\<exists>s''. OpenFile_Read g (length bs) s' = Inr (bs, s''))
    \<and> (\<exists>x'. openFiles s' f = Some x' \<and> currentOffset x' = currentOffset x + of_nat (length bs))
    \<and> (\<forall>i < length (file_contents (of_file x) s). \<not> (nat (sint (currentOffset x)) \<le> i \<and> i < nat (sint (currentOffset x)) + length bs) \<longrightarrow>
         file_contents (of_file x) s' ! i = file_contents (of_file x) s ! i)
    \<and> (\<forall>name. name \<noteq> of_file x \<longrightarrow> unixFiles s' name = unixFiles s name)"
proof -
  let ?pos = "nat (sint (currentOffset x))"
  from f have s': "s' = s\<lparr>unixFiles := (unixFiles s)(of_file x \<mapsto> write_at ?pos bs (file_contents (of_file x) s)),
            openFiles := (openFiles s)(f \<mapsto> x\<lparr>currentOffset := currentOffset x + of_nat (length bs)\<rparr>)\<rparr>"
    by (simp add: OpenFile_Write_def deref_file_def)
  then have c: "file_contents (of_file x) s' = write_at ?pos bs (file_contents (of_file x) s)" by (simp add: file_contents_def)
  have "OpenFile_ReadAt (file_contents (of_file y) s') (length bs) (currentOffset y) = Inr bs"
    using f(2) g(2,3) c write_at_spec(1) [of bs ?pos] by (simp add: OpenFile_ReadAt_def)
  then have "\<exists>s''. OpenFile_Read g (length bs) s' = Inr (bs, s'')" using g(1) by (simp add: OpenFile_Read_def deref_file_def)
  moreover have "file_contents (of_file x) s' ! i = file_contents (of_file x) s ! i"
    if "i < length (file_contents (of_file x) s)" "\<not> (?pos \<le> i \<and> i < ?pos + length bs)" for i
    using that write_at_spec(2) [of i ?pos bs "file_contents (of_file x) s"] c by auto
  ultimately show ?thesis using s' by auto
qed

theorem file_read_after_write_witness:
  "\<exists>s' s''. OpenFile_Write 0 [7, 8] (boot_os\<lparr>openFiles := (\<lambda>i. Some \<lparr>of_file = [65], currentOffset = 3\<rparr>)\<rparr>) = Inr s'
     \<and> OpenFile_Read 1 2 s' = Inr ([7, 8], s'')"
proof -
  let ?x = "\<lparr>of_file = [65], currentOffset = 3\<rparr>" and ?s = "boot_os\<lparr>openFiles := (\<lambda>i. Some \<lparr>of_file = [65], currentOffset = 3\<rparr>)\<rparr>"
  obtain s' where s': "OpenFile_Write 0 [7, 8] ?s = Inr s'" "openFiles s' 1 = Some ?x"
    by (simp add: OpenFile_Write_def deref_file_def)
  have "\<exists>s''. OpenFile_Read 1 (length [7, 8 :: 8 word]) s' = Inr ([7, 8], s'')"
    using file_read_after_write [OF _ _ s'(1) s'(2), of ?x] by simp
  with s'(1) show ?thesis by (auto simp: numeral_2_eq_2)
qed

end
