(* ===== verification/Disk.thy ===== *)
theory Disk
  imports Kernel
begin

text \<open>
  The simulated disk (\<open>machine/disk.cc\<close>): a UNIX file with a magic number in front of
  \<open>NumSectors\<close> sectors, the position of the head and the track buffer, from which the latency of a
  request is computed. \<open>fileno\<close> stands for the contents of the UNIX file, byte by byte.

  \<open>int\<close> variables that receive a 64-bit tick count are reduced to 32 bits (\<open>c_int\<close>), as the
  assignments do.

  \<open>SynchDisk\<close> (\<open>filesys/synchdisk.cc\<close>) turns a request and its interrupt into one call. It is modelled for
  a caller that is alone with the disk, as the file system requires: \<open>P\<close> then idles until the interrupt of
  the request, which is the only one pending, is due; \<open>V\<close> in the handler and \<open>P\<close> cancel out, as do
  \<open>Acquire\<close> and \<open>Release\<close>.
\<close>

section \<open>The code\<close>

definition SectorsPerTrack :: int where "SectorsPerTrack = 32"
definition NumTracks :: int where "NumTracks = 32"
definition NumSectors :: int where "NumSectors = SectorsPerTrack * NumTracks"
definition MagicNumber :: "32 word" where "MagicNumber = 0x456789ab"
definition MagicSize :: nat where "MagicSize = 4"
definition DiskSize :: nat where "DiskSize = MagicSize + nat NumSectors * SectorSize"
definition RotationTime :: int where "RotationTime = 500"
definition SeekTime :: int where "SeekTime = 500"

text \<open>Division and remainder of C, which round towards zero, and the conversion of a \<open>long long\<close> to an \<open>int\<close>.\<close>

definition quot :: "int \<Rightarrow> int \<Rightarrow> int" where
  "quot x y = sgn x * sgn y * (\<bar>x\<bar> div \<bar>y\<bar>)"

definition rem :: "int \<Rightarrow> int \<Rightarrow> int" where
  "rem x y = sgn x * (\<bar>x\<bar> mod \<bar>y\<bar>)"

definition c_int :: "int \<Rightarrow> int" where
  "c_int x = sint (word_of_int x :: 32 word)"

record Disk =
  fileno :: "nat \<Rightarrow> 8 word"
  dsk_active :: bool
  lastSector :: int
  bufferInit :: int

text \<open>The constructor, on the UNIX file if there is one. A new file is written at its end, so that the bytes between
  are 0.\<close>

definition Disk_new :: "bool \<Rightarrow> (nat \<Rightarrow> 8 word) option \<Rightarrow> Disk result" where
  "Disk_new bigEndian name =
     rbind (case name of
         Some f \<Rightarrow> rbind (ASSERT (host_load32 bigEndian f 0 = MagicNumber)) (\<lambda>_. Inr f)
       | None \<Rightarrow> Inr (host_store32 bigEndian (DiskSize - 4) 0 (host_store32 bigEndian 0 MagicNumber (\<lambda>_. 0)))) (\<lambda>f.
     Inr \<lparr>fileno = f, dsk_active = False, lastSector = 0, bufferInit = 0\<rparr>)"

text \<open>The time of the seek, and until the next sector boundary after it.\<close>

definition TimeToSeek :: "int \<Rightarrow> Statistics \<Rightarrow> Disk \<Rightarrow> int \<times> int" where
  "TimeToSeek newSector st d =
     (let newTrack = quot newSector SectorsPerTrack;
          oldTrack = quot (lastSector d) SectorsPerTrack;
          seek = c_int (\<bar>newTrack - oldTrack\<bar> * SeekTime);
          over = c_int (rem (totalTicks st + seek) RotationTime)
      in (seek, if over > 0 then c_int (RotationTime - over) else 0))"

definition ModuloDiff :: "int \<Rightarrow> int \<Rightarrow> int" where
  "ModuloDiff toS fromS =
     (let toOffset = rem toS SectorsPerTrack; fromOffset = rem fromS SectorsPerTrack
      in rem ((toOffset - fromOffset) + SectorsPerTrack) SectorsPerTrack)"

definition ComputeLatency :: "int \<Rightarrow> bool \<Rightarrow> Statistics \<Rightarrow> Disk \<Rightarrow> int" where
  "ComputeLatency newSector writing st d =
     (let (seek, rotation) = TimeToSeek newSector st d;
          timeAfter = c_int (totalTicks st + seek + rotation)
      in if \<not> writing \<and> seek = 0
            \<and> quot (c_int (timeAfter - bufferInit d)) RotationTime > ModuloDiff newSector (c_int (quot (bufferInit d) RotationTime))
         then RotationTime
         else let rotation = c_int (rotation + ModuloDiff newSector (c_int (quot timeAfter RotationTime)) * RotationTime)
              in c_int (seek + rotation + RotationTime))"

definition UpdateLast :: "int \<Rightarrow> Statistics \<Rightarrow> Disk \<Rightarrow> Disk" where
  "UpdateLast newSector st d =
     (let (seek, rotate) = TimeToSeek newSector st d;
          d = (if seek \<noteq> 0 then d\<lparr>bufferInit := c_int (totalTicks st + seek + rotate)\<rparr> else d)
      in d\<lparr>lastSector := newSector\<rparr>)"

text \<open>A request returns the time after which its interrupt is to happen, with which it calls \<open>Schedule\<close>.\<close>

definition ReadRequest :: "int \<Rightarrow> Statistics \<Rightarrow> Disk \<Rightarrow> (bytes \<times> int \<times> Statistics \<times> Disk) result" where
  "ReadRequest sectorNumber st d =
     (let ticks = ComputeLatency sectorNumber False st d in
      rbind (ASSERT (\<not> dsk_active d)) (\<lambda>_.
      rbind (ASSERT (0 \<le> sectorNumber \<and> sectorNumber < NumSectors)) (\<lambda>_.
      let bs = read_bytes SectorSize (SectorSize * nat sectorNumber + MagicSize) (fileno d)
      in Inr (bs, ticks, st\<lparr>numDiskReads := numDiskReads st + 1\<rparr>, UpdateLast sectorNumber st (d\<lparr>dsk_active := True\<rparr>)))))"

definition WriteRequest :: "int \<Rightarrow> bytes \<Rightarrow> Statistics \<Rightarrow> Disk \<Rightarrow> (int \<times> Statistics \<times> Disk) result" where
  "WriteRequest sectorNumber bs st d =
     (let ticks = ComputeLatency sectorNumber True st d in
      rbind (ASSERT (\<not> dsk_active d)) (\<lambda>_.
      rbind (ASSERT (0 \<le> sectorNumber \<and> sectorNumber < NumSectors)) (\<lambda>_.
      if length bs < SectorSize then Inl Undefined
      else let f = overwrite (SectorSize * nat sectorNumber + MagicSize) (take SectorSize bs) (fileno d)
      in Inr (ticks, st\<lparr>numDiskWrites := numDiskWrites st + 1\<rparr>, UpdateLast sectorNumber st (d\<lparr>fileno := f, dsk_active := True\<rparr>)))))"

definition HandleInterrupt :: "Disk \<Rightarrow> Disk" where
  "HandleInterrupt d = d\<lparr>dsk_active := False\<rparr>"

text \<open>What \<open>PrintSector\<close> writes out: the words of the sector as the host reads them.\<close>

definition PrintSector :: "bool \<Rightarrow> bytes \<Rightarrow> 32 word list" where
  "PrintSector bigEndian bs = map (\<lambda>i. host_load32 bigEndian (\<lambda>k. bs ! k) (4 * i)) [0..<SectorSize div 4]"

section \<open>The synchronous disk, with one client\<close>

record SynchDisk =
  sd_disk :: Disk
  sd_stats :: Statistics

definition SynchDisk_new :: "bool \<Rightarrow> (nat \<Rightarrow> 8 word) option \<Rightarrow> Statistics \<Rightarrow> SynchDisk result" where
  "SynchDisk_new bigEndian name st = rbind (Disk_new bigEndian name) (\<lambda>d. Inr \<lparr>sd_disk = d, sd_stats = st\<rparr>)"

text \<open>\<open>P\<close>, with the interrupt of the request due after \<open>ticks\<close> (\<open>Interrupt::Idle\<close> advances the clock to it).\<close>

definition await :: "int \<Rightarrow> Statistics \<Rightarrow> Disk \<Rightarrow> SynchDisk" where
  "await ticks st d = \<lparr>sd_disk = HandleInterrupt d,
     sd_stats = st\<lparr>totalTicks := totalTicks st + ticks, idleTicks := idleTicks st + ticks\<rparr>\<rparr>"

definition ReadSector :: "int \<Rightarrow> SynchDisk \<Rightarrow> (bytes \<times> SynchDisk) result" where
  "ReadSector sectorNumber sd = rbind (ReadRequest sectorNumber (sd_stats sd) (sd_disk sd)) (\<lambda>(bs, ticks, st, d).
     Inr (bs, await ticks st d))"

definition WriteSector :: "int \<Rightarrow> bytes \<Rightarrow> SynchDisk \<Rightarrow> SynchDisk result" where
  "WriteSector sectorNumber bs sd = rbind (WriteRequest sectorNumber bs (sd_stats sd) (sd_disk sd)) (\<lambda>(ticks, st, d).
     Inr (await ticks st d))"

section \<open>The disk as an array of sectors\<close>

definition sector :: "SynchDisk \<Rightarrow> nat \<Rightarrow> bytes" where
  "sector sd n = read_bytes SectorSize (SectorSize * n + MagicSize) (fileno (sd_disk sd))"

definition idle :: "SynchDisk \<Rightarrow> bool" where
  "idle sd \<longleftrightarrow> \<not> dsk_active (sd_disk sd)"

lemma length_sector [simp]: "length (sector sd n) = SectorSize"
  by (simp add: sector_def)

lemma UpdateLast_sel [simp]: "fileno (UpdateLast n st d) = fileno d" "dsk_active (UpdateLast n st d) = dsk_active d"
  by (simp_all add: UpdateLast_def Let_def split: prod.split)

lemma await_sel [simp]: "fileno (sd_disk (await t st d)) = fileno d" "idle (await t st d)"
  by (simp_all add: await_def HandleInterrupt_def idle_def)

lemma ReadSector_ok:
  assumes "idle sd" "0 \<le> n" "n < NumSectors"
  shows "\<exists>sd'. ReadSector n sd = Inr (sector sd (nat n), sd') \<and> idle sd' \<and> sector sd' = sector sd"
  using assms by (simp add: ReadSector_def ReadRequest_def idle_def [of sd] sector_def fun_eq_iff Let_def)

lemma sector_bounds: "n \<noteq> m \<Longrightarrow> SectorSize * n + MagicSize + SectorSize \<le> SectorSize * m + MagicSize
    \<or> SectorSize * m + MagicSize + SectorSize \<le> SectorSize * n + MagicSize"
proof -
  assume "n \<noteq> m"
  then have "Suc n \<le> m \<or> Suc m \<le> n" by arith
  then have "SectorSize * Suc n \<le> SectorSize * m \<or> SectorSize * Suc m \<le> SectorSize * n" using mult_le_mono2 by blast
  then show ?thesis by auto
qed

lemma WriteSector_ok:
  assumes "idle sd" "0 \<le> n" "n < NumSectors" "length bs = SectorSize"
  shows "\<exists>sd'. WriteSector n bs sd = Inr sd' \<and> idle sd' \<and> sector sd' = (sector sd)(nat n := bs)"
proof -
  let ?f = "overwrite (SectorSize * nat n + MagicSize) bs (fileno (sd_disk sd))"
  have "read_bytes SectorSize (SectorSize * m + MagicSize) ?f = ((sector sd)(nat n := bs)) m" for m
    using sector_bounds [of m "nat n"] assms(4) by (simp add: sector_def read_bytes_overwrite_same read_bytes_overwrite_other)
  with assms show ?thesis
    by (simp add: WriteSector_def WriteRequest_def idle_def [of sd] sector_def [of "await t st d" for t st d] fun_eq_iff Let_def)
qed

lemma ReadSector_bad: "\<not> (0 \<le> n \<and> n < NumSectors) \<Longrightarrow> ReadSector n sd = Inl Abort"
  by (auto simp: ReadSector_def ReadRequest_def ASSERT_def)

lemma NumSectors_1024: "NumSectors = 1024"
  by (simp add: NumSectors_def SectorsPerTrack_def NumTracks_def)

lemma c_int_small: "- (2 ^ 31) \<le> x \<Longrightarrow> x < 2 ^ 31 \<Longrightarrow> c_int x = x"
  by (simp add: c_int_def signed_take_bit_int_eq_self sint_sbintrunc')

definition blank_disk :: SynchDisk where
  "blank_disk = \<lparr>sd_disk = \<lparr>fileno = (\<lambda>_. 0), dsk_active = False, lastSector = 0, bufferInit = 0\<rparr>, sd_stats = Statistics_new\<rparr>"

lemma blank_disk_idle: "idle blank_disk"
  by (simp add: blank_disk_def idle_def)

section \<open>Latency\<close>

lemma quot_nonneg: "0 \<le> x \<Longrightarrow> 0 < y \<Longrightarrow> quot x y = x div y"
  by (auto simp: quot_def sgn_if)

lemma rem_nonneg: "0 \<le> x \<Longrightarrow> 0 < y \<Longrightarrow> rem x y = x mod y"
  by (auto simp: rem_def sgn_if)

lemma ModuloDiff_mod:
  assumes "0 \<le> a" "0 \<le> b"
  shows "ModuloDiff a b = (a - b) mod 32"
proof -
  have "a mod 32 - b mod 32 + 32 \<ge> 0" using pos_mod_bound [of 32 b] pos_mod_sign [of 32 a] by linarith
  then show ?thesis using assms by (simp add: ModuloDiff_def Let_def rem_nonneg SectorsPerTrack_def mod_diff_eq)
qed

text \<open>The seek, and the wait for the next sector boundary.\<close>

definition seek_time :: "int \<Rightarrow> Disk \<Rightarrow> int" where
  "seek_time n d = \<bar>n div 32 - lastSector d div 32\<bar> * 500"

lemma TimeToSeek_ok:
  assumes "0 \<le> n" "n < NumSectors" "0 \<le> lastSector d" "lastSector d < NumSectors" "0 \<le> totalTicks st"
  obtains r where "TimeToSeek n st d = (seek_time n d, r)" "0 \<le> r" "r < 500" "(totalTicks st + seek_time n d + r) mod 500 = 0"
    "0 \<le> seek_time n d" "seek_time n d \<le> 15500"
proof -
  let ?x = "totalTicks st + seek_time n d"
  have "n div 32 < 32" "lastSector d div 32 < 32" "0 \<le> n div 32" "0 \<le> lastSector d div 32"
    using assms by (simp_all add: NumSectors_1024 div_less_iff_less_mult pos_imp_zdiv_nonneg_iff)
  then have sk: "0 \<le> seek_time n d" "seek_time n d \<le> 15500" by (auto simp: seek_time_def)
  define r where "r = (if ?x mod 500 > 0 then 500 - ?x mod 500 else 0)"
  have m: "0 \<le> ?x mod 500" "?x mod 500 < 500" by simp_all
  then have r: "0 \<le> r" "r < 500" by (auto simp: r_def)
  have "c_int (?x mod 500) = ?x mod 500" "c_int (seek_time n d) = seek_time n d" "c_int (500 - ?x mod 500) = 500 - ?x mod 500"
    using m sk by (auto intro!: c_int_small)
  then have "TimeToSeek n st d = (seek_time n d, r)"
    using assms sk(1)
    by (simp add: TimeToSeek_def Let_def quot_nonneg rem_nonneg SectorsPerTrack_def SeekTime_def RotationTime_def r_def seek_time_def)
  moreover have "(?x + r) mod 500 = 0"
  proof (cases "?x mod 500 > 0")
    case True
    then have "?x + r = ?x - ?x mod 500 + 500" by (simp add: r_def)
    then show ?thesis by (simp add: minus_mod_eq_div_mult)
  next
    case False
    then have "?x mod 500 = 0" using m(1) by linarith
    then show ?thesis by (simp add: r_def)
  qed
  ultimately show thesis by (rule that [OF _ r _ sk])
qed

text \<open>At time \<open>x\<close> sector \<open>n\<close> of the current track begins to pass under the head.\<close>

definition under_head :: "int \<Rightarrow> int \<Rightarrow> bool" where
  "under_head n x \<longleftrightarrow> x mod RotationTime = 0 \<and> (x div RotationTime) mod SectorsPerTrack = n mod SectorsPerTrack"

text \<open>What the head has read since the track buffer was started, in whole sectors: \<open>a\<close> is the sector boundary at or after
  the time \<open>T\<close>, \<open>B\<close> the time at which the buffer was started.\<close>

lemma buffer_test:
  fixes a B T n :: int
  assumes "a mod 500 = 0" "B mod 500 = 0" "a - 500 < T" "T \<le> a"
  shows "(n - B div 500) mod 32 < (a - B) div 500 \<longleftrightarrow> (\<exists>x \<ge> B. x < T \<and> under_head n x)"
proof -
  define b k m where "b = B div 500" and "k = (a - B) div 500" and "m = (n - b) mod 32"
  have B: "B = 500 * b" using assms(2) by (simp add: b_def mod_0_imp_dvd)
  have ak: "a = 500 * b + 500 * k"
  proof -
    have "(a - B) mod 500 = 0" using assms(1,2) by (metis diff_self mod_0 mod_diff_eq)
    then have "a - B = 500 * k" by (simp add: k_def mod_0_imp_dvd)
    then show ?thesis using B by simp
  qed
  have m: "0 \<le> m" "(b + m) mod 32 = n mod 32" by (simp_all add: m_def mod_add_right_eq)
  show ?thesis unfolding b_def [symmetric] k_def [symmetric] m_def [symmetric]
  proof
    assume "m < k"
    then have "500 * (b + m) < T" using ak assms(3) by simp
    moreover have "under_head n (500 * (b + m))" using m(2) by (simp add: under_head_def RotationTime_def SectorsPerTrack_def)
    moreover have "B \<le> 500 * (b + m)" using B m(1) by simp
    ultimately show "\<exists>x \<ge> B. x < T \<and> under_head n x" by blast
  next
    assume "\<exists>x \<ge> B. x < T \<and> under_head n x"
    then obtain x where x: "B \<le> x" "x < T" "x mod 500 = 0" "(x div 500) mod 32 = n mod 32"
      by (auto simp: under_head_def RotationTime_def SectorsPerTrack_def)
    define j where "j = x div 500 - b"
    have xj: "x = 500 * (b + j)" using x(3) by (simp add: j_def mod_0_imp_dvd)
    have "0 \<le> j" using x(1) xj B by simp
    moreover have "j mod 32 = m" unfolding j_def m_def using x(4) by (metis mod_diff_left_eq)
    ultimately have "m \<le> j" using zmod_le_nonneg_dividend by blast
    moreover have "j < k" using xj x(2) assms(4) ak by simp
    ultimately show "m < k" by simp
  qed
qed

lemma buffer_guard:
  fixes a B T n :: int
  assumes "0 \<le> n" "0 \<le> B" "B < 2 ^ 31" "B mod 500 = 0" "0 \<le> a" "a < 2 ^ 31" "a mod 500 = 0" "a - 500 < T" "T \<le> a"
  shows "quot (c_int (a - B)) 500 > ModuloDiff n (c_int (quot B 500)) \<longleftrightarrow> (\<exists>x \<ge> B. x < T \<and> under_head n x)"
proof -
  have q: "quot B 500 = B div 500" "c_int (B div 500) = B div 500" "c_int (a - B) = a - B" "ModuloDiff n (B div 500) = (n - B div 500) mod 32"
    using assms(2,3,5,6) ModuloDiff_mod [OF assms(1), of "B div 500"] by (auto simp: quot_nonneg pos_imp_zdiv_nonneg_iff intro!: c_int_small)
  have "quot (a - B) 500 > (n - B div 500) mod 32 \<longleftrightarrow> (n - B div 500) mod 32 < (a - B) div 500"
  proof (cases "0 \<le> a - B")
    case False
    have "quot (a - B) 500 \<le> 0" "(a - B) div 500 < 0" "0 \<le> (n - B div 500) mod 32"
      using False by (simp_all add: quot_def sgn_if pos_imp_zdiv_nonneg_iff neg_imp_zdiv_neg_iff)
    then show ?thesis by linarith
  qed (simp add: quot_nonneg)
  then show ?thesis using buffer_test [OF assms(7,4,8,9)] q by simp
qed

text \<open>
  C5. The latency of a request, while the clock fits an \<open>int\<close>. A read of a sector of the current track that has begun to pass
  under the head since the track buffer was started takes the transfer of one sector. Any other request takes the seek, then waits
  for the first time at which the sector begins to pass under the head, then transfers it; so it takes at
  least the transfer of one sector, and at most a seek over all tracks, a turn of the disk and the transfer.
\<close>

theorem disk_latency:
  assumes "0 \<le> n" "n < NumSectors" "0 \<le> lastSector d" "lastSector d < NumSectors" "0 \<le> totalTicks st" "totalTicks st < 2 ^ 31 - 2 ^ 16"
    "0 \<le> bufferInit d" "bufferInit d < 2 ^ 31" "bufferInit d mod RotationTime = 0"
  shows "let t = ComputeLatency n writing st d; start = totalTicks st + t - RotationTime;
        seek = \<bar>n div SectorsPerTrack - lastSector d div SectorsPerTrack\<bar> * SeekTime in
     RotationTime \<le> t \<and> t < 31 * SeekTime + 33 * RotationTime
     \<and> (if \<not> writing \<and> seek = 0 \<and> (\<exists>x \<ge> bufferInit d. x < totalTicks st \<and> under_head n x) then t = RotationTime
        else under_head n start \<and> totalTicks st + seek \<le> start \<and> start < totalTicks st + seek + SectorsPerTrack * RotationTime)"
proof -
  define t where "t = ComputeLatency n writing st d"
  define start where "start = totalTicks st + t - RotationTime"
  obtain r where r: "TimeToSeek n st d = (seek_time n d, r)" "0 \<le> r" "r < 500" "(totalTicks st + seek_time n d + r) mod 500 = 0"
    "0 \<le> seek_time n d" "seek_time n d \<le> 15500" using TimeToSeek_ok [OF assms(1-5)] by blast
  define a where "a = totalTicks st + seek_time n d + r"
  define md where "md = (n - a div 500) mod 32"
  let ?buf = "\<not> writing \<and> seek_time n d = 0 \<and> (\<exists>x \<ge> bufferInit d. x < totalTicks st \<and> under_head n x)"
  have a: "0 \<le> a" "a mod 500 = 0" "c_int a = a" "c_int (a div 500) = a div 500" "a < 2 ^ 31"
    using r assms(5,6) by (auto simp: a_def intro!: c_int_small)
  have md: "0 \<le> md" "md \<le> 31" using pos_mod_bound [of 32 "n - a div 500"] by (simp_all add: md_def)
  have "ModuloDiff n (a div 500) = md" using ModuloDiff_mod [OF assms(1), of "a div 500"] a(1) by (simp add: md_def pos_imp_zdiv_nonneg_iff)
  moreover have "c_int (r + md * 500) = r + md * 500" "c_int (seek_time n d + (r + md * 500) + 500) = seek_time n d + (r + md * 500) + 500"
    using r md by (auto intro!: c_int_small)
  moreover have "quot (c_int (a - bufferInit d)) 500 > ModuloDiff n (c_int (quot (bufferInit d) 500)) \<longleftrightarrow> (\<exists>x \<ge> bufferInit d. x < totalTicks st \<and> under_head n x)"
    if "seek_time n d = 0"
    using buffer_guard [OF assms(1,7,8) _ a(1,5,2), of "totalTicks st"] assms(9) r(2,3) that by (simp add: a_def RotationTime_def)
  ultimately have t: "t = (if ?buf then 500 else seek_time n d + (r + md * 500) + 500)"
    using a unfolding t_def ComputeLatency_def r(1) prod.case a_def [symmetric] Let_def RotationTime_def
    by (auto simp: quot_nonneg)
  have "under_head n start \<and> totalTicks st + seek_time n d \<le> start \<and> start < totalTicks st + seek_time n d + 16000" if "\<not> ?buf"
  proof -
    have "t = seek_time n d + (r + md * 500) + 500" using t unfolding if_not_P [OF that] .
    then have s: "start = a + md * 500" by (simp add: start_def a_def RotationTime_def)
    moreover have "(a div 500 + md) mod 32 = n mod 32" by (simp add: md_def mod_add_right_eq)
    ultimately have "under_head n start" using a(2) by (simp add: under_head_def RotationTime_def SectorsPerTrack_def add.commute)
    then show ?thesis using s r(2,3) md by (simp add: a_def)
  qed
  moreover have "\<bar>n div SectorsPerTrack - lastSector d div SectorsPerTrack\<bar> * SeekTime = seek_time n d"
    by (simp add: seek_time_def SectorsPerTrack_def SeekTime_def)
  moreover have "500 \<le> t \<and> t < 32000" using t r md by auto
  ultimately show ?thesis using t
    unfolding Let_def t_def [symmetric] start_def [symmetric] by (simp add: RotationTime_def SectorsPerTrack_def SeekTime_def)
qed

text \<open>The track buffer is started at a sector boundary.\<close>

lemma UpdateLast_ok:
  assumes "0 \<le> n" "n < NumSectors" "0 \<le> lastSector d" "lastSector d < NumSectors" "0 \<le> totalTicks st" "totalTicks st < 2 ^ 31 - 2 ^ 16"
    "0 \<le> bufferInit d" "bufferInit d < 2 ^ 31" "bufferInit d mod RotationTime = 0"
  shows "lastSector (UpdateLast n st d) = n" "0 \<le> bufferInit (UpdateLast n st d)" "bufferInit (UpdateLast n st d) < 2 ^ 31"
    "bufferInit (UpdateLast n st d) mod RotationTime = 0"
proof -
  obtain r where r: "TimeToSeek n st d = (seek_time n d, r)" "0 \<le> r" "r < 500" "(totalTicks st + seek_time n d + r) mod 500 = 0"
    "0 \<le> seek_time n d" "seek_time n d \<le> 15500" using TimeToSeek_ok [OF assms(1-5)] by blast
  have "c_int (totalTicks st + seek_time n d + r) = totalTicks st + seek_time n d + r" using r assms(5,6) by (intro c_int_small) auto
  then show "lastSector (UpdateLast n st d) = n" "0 \<le> bufferInit (UpdateLast n st d)" "bufferInit (UpdateLast n st d) < 2 ^ 31"
    "bufferInit (UpdateLast n st d) mod RotationTime = 0"
    using r assms(5-9) by (auto simp: UpdateLast_def Let_def RotationTime_def)
qed

text \<open>A write that seeks, and a read of a sector that is in the track buffer.\<close>

theorem disk_latency_witness:
  "ComputeLatency 70 True Statistics_new (sd_disk blank_disk) = 3500 \<and> under_head 70 3000
   \<and> ComputeLatency 5 False (Statistics_new\<lparr>totalTicks := 4000\<rparr>) (sd_disk blank_disk) = RotationTime"
proof -
  have a: "ComputeLatency 70 True Statistics_new (sd_disk blank_disk) = 3500" by code_simp
  have "under_head 70 3000" using disk_latency [of 70 "sd_disk blank_disk" Statistics_new True] a
    by (simp add: Let_def NumSectors_1024 blank_disk_def Statistics_new_def RotationTime_def)
  moreover have "\<exists>x \<ge> 0. x < 4000 \<and> under_head 5 x" by (intro exI [of _ 2500]) (simp add: under_head_def RotationTime_def SectorsPerTrack_def)
  then have "ComputeLatency 5 False (Statistics_new\<lparr>totalTicks := 4000\<rparr>) (sd_disk blank_disk) = RotationTime"
    using disk_latency [of 5 "sd_disk blank_disk" "Statistics_new\<lparr>totalTicks := 4000\<rparr>" False]
    by (simp add: Let_def NumSectors_1024 blank_disk_def Statistics_new_def SectorsPerTrack_def)
  ultimately show ?thesis using a by blast
qed

end
