(* ===== verification/Buffers.thy ===== *)
theory Buffers
  imports Prelude
begin

text \<open>
  Buffers of bytes as lists: overwriting a part of one, and buffers that are made of pieces of the same
  length (the words of a structure, the sectors of a file, the entries of a directory).
\<close>

text \<open>Overwriting a part of a buffer, and buffers made of pieces of the same length.\<close>

definition patch :: "nat \<Rightarrow> 'a list \<Rightarrow> 'a list \<Rightarrow> 'a list" where
  "patch a bs xs = take a xs @ bs @ drop (a + length bs) xs"

lemma length_patch [simp]: "a + length bs \<le> length xs \<Longrightarrow> length (patch a bs xs) = length xs"
  by (simp add: patch_def)

lemma nth_patch:
  "a + length bs \<le> length xs \<Longrightarrow> i < length xs \<Longrightarrow> patch a bs xs ! i = (if a \<le> i \<and> i < a + length bs then bs ! (i - a) else xs ! i)"
  by (auto simp: patch_def nth_append min_def)

lemma length_concat_chunks: "(\<And>x. x \<in> set xs \<Longrightarrow> length x = n) \<Longrightarrow> length (concat xs) = length xs * n"
  by (induction xs) auto

lemma nth_concat_chunks:
  "(\<And>x. x \<in> set xs \<Longrightarrow> length x = n) \<Longrightarrow> i < length xs \<Longrightarrow> k < n \<Longrightarrow> concat xs ! (i * n + k) = xs ! i ! k"
proof (induction xs arbitrary: i)
  case (Cons x xs)
  show ?case
  proof (cases i)
    case 0
    with Cons.prems show ?thesis by (simp add: nth_append)
  next
    case (Suc j)
    with Cons.prems(1) [of x] have "concat (x # xs) ! (i * n + k) = concat xs ! (j * n + k)" by (simp add: nth_append)
    also have "\<dots> = xs ! j ! k" using Cons Suc by simp
    finally show ?thesis using Suc by simp
  qed
qed simp

lemma nth_concat_div:
  assumes "\<And>x. x \<in> set xs \<Longrightarrow> length x = n" "i < length xs * n"
  shows "concat xs ! i = xs ! (i div n) ! (i mod n)"
proof -
  have "0 < n" using assms(2) by (cases n) auto
  moreover have "i div n < length xs" using assms(2) by (simp add: less_mult_imp_div_less)
  ultimately show ?thesis using nth_concat_chunks [of xs n "i div n" "i mod n", OF assms(1)] by (simp add: div_mult_mod_eq)
qed

lemma chunk_of_concat:
  assumes "\<And>x. x \<in> set xs \<Longrightarrow> length x = n" "i < length xs"
  shows "take n (drop (i * n) (concat xs)) = xs ! i"
proof (rule nth_equalityI)
  have "i * n + n \<le> length xs * n" using assms(2) mult_le_mono1 [of "Suc i" "length xs" n] by simp
  with assms show "length (take n (drop (i * n) (concat xs))) = length (xs ! i)" by (simp add: length_concat_chunks)
  then show "take n (drop (i * n) (concat xs)) ! k = xs ! i ! k" if "k < length (take n (drop (i * n) (concat xs)))" for k
    using that assms nth_concat_chunks [of xs n i k] by (simp add: length_concat_chunks)
qed

lemma patch_append:
  "a + length xs + length ys \<le> length zs \<Longrightarrow> patch (a + length xs) ys (patch a xs zs) = patch a (xs @ ys) zs"
  by (rule nth_equalityI) (auto simp: nth_patch nth_append)

lemma patch_Nil [simp]: "patch a [] zs = zs"
  by (simp add: patch_def)

lemma concat_update:
  assumes "\<And>x. x \<in> set xs \<Longrightarrow> length x = n" "i < length xs" "length c = n"
  shows "concat (xs[i := c]) = patch (i * n) c (concat xs)"
proof -
  have le: "i * n + n \<le> length xs * n" using assms(2) mult_le_mono1 [of "Suc i" "length xs" n] by simp
  have *: "length x = n" if "x \<in> set (xs[i := c])" for x using that assms set_update_subset_insert [of xs i c] by auto
  have len: "length (concat xs) = length xs * n" using assms(1) by (rule length_concat_chunks)
  show ?thesis
  proof (rule nth_equalityI)
    show "length (concat (xs[i := c])) = length (patch (i * n) c (concat xs))"
      using le len assms(3) by (subst length_concat_chunks [OF *]) auto
    fix k assume "k < length (concat (xs[i := c]))"
    then have k: "k < length xs * n" using length_concat_chunks [OF *] by simp
    then have n: "0 < n" "k div n < length xs" by (cases n, auto simp: less_mult_imp_div_less)
    have "concat (xs[i := c]) ! k = (if k div n = i then c else xs ! (k div n)) ! (k mod n)"
      using nth_concat_div [of "xs[i := c]" n k, OF *] k assms(2) n by auto
    moreover have "concat xs ! k = xs ! (k div n) ! (k mod n)" using nth_concat_div [OF assms(1)] k by blast
    moreover have "k div n = i \<longleftrightarrow> i * n \<le> k \<and> k < i * n + n"
      using n(1) by (metis div_nat_eqI dividend_less_div_times div_times_less_eq_dividend mult.commute mult_Suc add.commute)
    moreover have "k mod n = k - i * n" if "k div n = i" using that by (simp add: minus_div_mult_eq_mod [symmetric])
    ultimately show "concat (xs[i := c]) ! k = patch (i * n) c (concat xs) ! k"
      using le len assms(3) k by (simp add: nth_patch)
  qed
qed

end
