(* ===== verification/File_Header.thy ===== *)
theory File_Header
  imports Disk Bitmap Buffers
begin

text \<open>
  File headers (\<open>filesys/filehdr.cc\<close>): the length of a file and the table of the sectors that hold its
  data. A header is stored in one sector, as the bytes of the structure in the byte order of the host.
\<close>

section \<open>The code\<close>

definition NumDirect :: nat where "NumDirect = (SectorSize - 2 * 4) div 4"
definition MaxFileSize :: nat where "MaxFileSize = NumDirect * SectorSize"

record FileHeader =
  fh_numBytes :: int
  fh_numSectors :: int
  dataSectors :: "int list"

text \<open>An \<open>int\<close> as the host stores it, and the one at offset \<open>a\<close> of a buffer.\<close>

definition int_bytes :: "bool \<Rightarrow> int \<Rightarrow> bytes" where
  "int_bytes bigEndian x = read_bytes 4 0 (host_store32 bigEndian 0 (word_of_int x) (\<lambda>_. 0))"

definition int_at :: "bool \<Rightarrow> bytes \<Rightarrow> nat \<Rightarrow> int" where
  "int_at bigEndian bs a = sint (host_load32 bigEndian (\<lambda>k. bs ! k) a)"

definition hdr_bytes :: "bool \<Rightarrow> FileHeader \<Rightarrow> bytes" where
  "hdr_bytes bigEndian h = concat (map (int_bytes bigEndian) (fh_numBytes h # fh_numSectors h # dataSectors h))"

definition hdr_at :: "bool \<Rightarrow> bytes \<Rightarrow> FileHeader" where
  "hdr_at bigEndian bs = \<lparr>fh_numBytes = int_at bigEndian bs 0, fh_numSectors = int_at bigEndian bs 4,
     dataSectors = map (\<lambda>i. int_at bigEndian bs (8 + 4 * i)) [0..<NumDirect]\<rparr>"

text \<open>\<open>divRoundUp\<close> on a signed operand.\<close>

definition sectors_for :: "int \<Rightarrow> int" where
  "sectors_for n = quot n (int SectorSize) + (if rem n (int SectorSize) > 0 then 1 else 0)"

text \<open>\<open>dataSectors[i] = freeMap->Find()\<close>; the array has \<open>NumDirect\<close> elements, which nothing checks.\<close>

definition allocate_sector :: "nat \<Rightarrow> BitMap \<times> FileHeader \<Rightarrow> (BitMap \<times> FileHeader) result" where
  "allocate_sector i = (\<lambda>(freeMap, h). rbind (BitMap_Find freeMap) (\<lambda>(s, freeMap).
     if i \<ge> NumDirect then Inl Undefined else Inr (freeMap, h\<lparr>dataSectors := (dataSectors h)[i := s]\<rparr>)))"

definition Allocate :: "int \<Rightarrow> BitMap \<Rightarrow> FileHeader \<Rightarrow> (bool \<times> BitMap \<times> FileHeader) result" where
  "Allocate fileSize freeMap h =
     (let h = h\<lparr>fh_numBytes := fileSize, fh_numSectors := sectors_for fileSize\<rparr> in
      rbind (BitMap_NumClear freeMap) (\<lambda>clear.
      if int clear < fh_numSectors h then Inr (False, freeMap, h)
      else rbind (for_each allocate_sector [0..<nat (fh_numSectors h)] (freeMap, h)) (\<lambda>(freeMap, h). Inr (True, freeMap, h))))"

definition deallocate_sector :: "FileHeader \<Rightarrow> nat \<Rightarrow> BitMap \<Rightarrow> BitMap result" where
  "deallocate_sector h i freeMap =
     (if i \<ge> length (dataSectors h) then Inl Undefined
      else rbind (BitMap_Test (dataSectors h ! i) freeMap) (\<lambda>t.
           rbind (ASSERT t) (\<lambda>_. BitMap_Clear (dataSectors h ! i) freeMap)))"

definition Deallocate :: "FileHeader \<Rightarrow> BitMap \<Rightarrow> BitMap result" where
  "Deallocate h freeMap = for_each (deallocate_sector h) [0..<nat (fh_numSectors h)] freeMap"

definition Header_FetchFrom :: "bool \<Rightarrow> int \<Rightarrow> SynchDisk \<Rightarrow> (FileHeader \<times> SynchDisk) result" where
  "Header_FetchFrom bigEndian s sd = rbind (ReadSector s sd) (\<lambda>(bs, sd). Inr (hdr_at bigEndian bs, sd))"

definition Header_WriteBack :: "bool \<Rightarrow> int \<Rightarrow> FileHeader \<Rightarrow> SynchDisk \<Rightarrow> SynchDisk result" where
  "Header_WriteBack bigEndian s h sd = WriteSector s (hdr_bytes bigEndian h) sd"

definition ByteToSector :: "FileHeader \<Rightarrow> nat \<Rightarrow> int result" where
  "ByteToSector h offset = (let i = offset div SectorSize in
     if i < length (dataSectors h) then Inr (dataSectors h ! i) else Inl Undefined)"

definition FileLength :: "FileHeader \<Rightarrow> int" where
  "FileLength h = fh_numBytes h"

section \<open>What a header stands for\<close>

text \<open>The sectors in use, and when a header is well formed.\<close>

definition sectors_of :: "FileHeader \<Rightarrow> nat list" where
  "sectors_of h = map nat (take (nat (fh_numSectors h)) (dataSectors h))"

definition hdr_ok :: "FileHeader \<Rightarrow> bool" where
  "hdr_ok h \<longleftrightarrow> 0 \<le> fh_numBytes h \<and> fh_numSectors h = sectors_for (fh_numBytes h) \<and> fh_numSectors h \<le> int NumDirect
     \<and> length (dataSectors h) = NumDirect
     \<and> (\<forall>s \<in> set (take (nat (fh_numSectors h)) (dataSectors h)). 0 \<le> s \<and> s < NumSectors)
     \<and> distinct (sectors_of h)"

text \<open>What survives the trip to the disk.\<close>

definition c_ints :: "FileHeader \<Rightarrow> bool" where
  "c_ints h \<longleftrightarrow> length (dataSectors h) = NumDirect
     \<and> (\<forall>x \<in> insert (fh_numBytes h) (insert (fh_numSectors h) (set (dataSectors h))). c_int x = x)"

lemma SectorSize_128: "SectorSize = 128"
  by (simp add: SectorSize_def)

lemma NumDirect_30: "NumDirect = 30"
  by (simp add: NumDirect_def SectorSize_def)

lemma length_int_bytes [simp]: "length (int_bytes be x) = 4"
  by (simp add: int_bytes_def)

lemma int_at_cong:
  assumes "\<And>k. k < 4 \<Longrightarrow> bs ! (a + k) = cs ! k"
  shows "int_at be bs a = int_at be cs 0"
  using assms [of 0] assms [of 1] assms [of 2] assms [of 3] by (simp add: int_at_def host_load32_def numeral_2_eq_2)

lemma int_at_bytes: "int_at be (int_bytes be x) 0 = c_int x"
  using word_of_bytes_byte_of [of "word_of_int x :: 32 word"]
  by (simp add: int_at_def int_bytes_def host_load32_def host_store32_def c_int_def)

lemma hdr_roundtrip:
  assumes "c_ints h"
  shows "hdr_at be (hdr_bytes be h) = h"
proof -
  let ?xs = "fh_numBytes h # fh_numSectors h # dataSectors h"
  have at: "int_at be (hdr_bytes be h) (4 * i) = ?xs ! i" if "i < length ?xs" for i
  proof -
    have "int_at be (hdr_bytes be h) (4 * i) = int_at be (int_bytes be (?xs ! i)) 0"
    proof (rule int_at_cong)
      fix k :: nat assume "k < 4"
      with that have "concat (map (int_bytes be) ?xs) ! (i * 4 + k) = map (int_bytes be) ?xs ! i ! k"
        by (intro nth_concat_chunks) auto
      with that show "hdr_bytes be h ! (4 * i + k) = int_bytes be (?xs ! i) ! k"
        by (simp only: hdr_bytes_def mult.commute [of 4 i] nth_map)
    qed
    moreover have "?xs ! i \<in> set ?xs" using that by (rule nth_mem)
    ultimately show ?thesis using assms by (auto simp: int_at_bytes c_ints_def simp del: nth_Cons_Suc)
  qed
  have "map (\<lambda>i. int_at be (hdr_bytes be h) (8 + 4 * i)) [0..<NumDirect] = dataSectors h"
  proof (rule nth_equalityI)
    fix i assume "i < length (map (\<lambda>i. int_at be (hdr_bytes be h) (8 + 4 * i)) [0..<NumDirect])"
    then show "map (\<lambda>i. int_at be (hdr_bytes be h) (8 + 4 * i)) [0..<NumDirect] ! i = dataSectors h ! i"
      using at [of "i + 2"] assms by (simp add: c_ints_def)
  qed (use assms in \<open>simp add: c_ints_def\<close>)
  then show ?thesis using at [of 0] at [of 1] by (simp add: hdr_at_def)
qed

lemma length_hdr_bytes: "length (dataSectors h) = NumDirect \<Longrightarrow> length (hdr_bytes be h) = SectorSize"
  by (subst hdr_bytes_def, subst length_concat_chunks [where n = 4]) (auto simp: NumDirect_30 SectorSize_128)

section \<open>Allocating and freeing sectors\<close>

text \<open>The loop of \<open>Allocate\<close> asks the bit map for one sector after the other.\<close>

lemma allocate_loop:
  assumes "k + n \<le> NumDirect" "length (dataSectors h) = NumDirect" "bitmap.find_n n m = Inr (ss, m')"
  shows "for_each allocate_sector [k..<k + n] (m, h) = Inr (m', h\<lparr>dataSectors := patch k ss (dataSectors h)\<rparr>)"
  using assms
proof (induction n arbitrary: k m h ss)
  case (Suc n)
  from Suc.prems(3) obtain i m1 ss1 where i: "BitMap_Find m = Inr (i, m1)" "bitmap.find_n n m1 = Inr (ss1, m')" "ss = i # ss1"
    by (auto simp: rbind_eq_Inr)
  let ?h = "h\<lparr>dataSectors := (dataSectors h)[k := i]\<rparr>"
  have "for_each allocate_sector [Suc k..<Suc k + n] (m1, ?h) = Inr (m', ?h\<lparr>dataSectors := patch (Suc k) ss1 (dataSectors ?h)\<rparr>)"
    using Suc.prems by (intro Suc.IH i(2)) simp_all
  moreover have "patch (Suc k) ss1 (dataSectors ?h) = patch k ss (dataSectors h)"
    using Suc.prems by (simp add: patch_def i(3) take_Suc_conv_app_nth)
  moreover have "[k..<k + Suc n] = k # [Suc k..<Suc k + n]" by (simp add: upt_conv_Cons)
  moreover have "allocate_sector k (m, h) = Inr (m1, ?h)" using i(1) Suc.prems(1) by (simp add: allocate_sector_def)
  ultimately show ?case by simp
qed (simp add: patch_def)

lemma sectors_for_nat:
  assumes "0 \<le> n"
  shows "sectors_for n = int (divRoundUp (nat n) SectorSize)"
proof -
  obtain k where k: "n = int k" using assms nonneg_int_cases by blast
  have "int k div 128 = int (k div 128)" "int k mod 128 = int (k mod 128)" by (simp_all add: zdiv_int zmod_int)
  then show ?thesis by (auto simp: k sectors_for_def quot_def rem_def divRoundUp_def SectorSize_128 sgn_if simp del: of_nat_mod of_nat_div)
qed

lemma sectors_for_MaxFileSize:
  assumes "0 \<le> n"
  shows "sectors_for n \<le> int NumDirect \<longleftrightarrow> n \<le> int MaxFileSize"
  using assms divRoundUp_ge [of SectorSize "nat n"] divRoundUp_less [of SectorSize "nat n"]
  by (auto simp: sectors_for_nat MaxFileSize_def NumDirect_30 SectorSize_128)

lemma Allocate_ok:
  assumes "bitmap_inv m" "numBits m = nat NumSectors" "length (dataSectors h) = NumDirect" "0 \<le> n" "n \<le> int MaxFileSize"
    "sectors_for n \<le> int (card ({..<numBits m} - marked m))"
  shows "\<exists>m' h'. Allocate n m h = Inr (True, m', h') \<and> bitmap_inv m' \<and> numBits m' = numBits m \<and> hdr_ok h'
    \<and> fh_numBytes h' = n \<and> set (sectors_of h') \<inter> marked m = {} \<and> marked m' = marked m \<union> set (sectors_of h')
    \<and> (c_ints h \<longrightarrow> c_ints h')"
proof -
  define k where "k = nat (sectors_for n)"
  have k: "sectors_for n = int k" "k \<le> NumDirect" "k \<le> card ({..<numBits m} - marked m)"
    using assms sectors_for_MaxFileSize [OF assms(4)] by (simp_all add: k_def sectors_for_nat)
  from bitmap.find_n_law [OF assms(1) k(3)] obtain ss m' where ss: "bitmap.find_n k m = Inr (map int ss, m')" "length ss = k"
    "distinct ss" "set ss \<inter> marked m = {}" "set ss \<subseteq> {..<numBits m}" "bitmap_inv m'" "numBits m' = numBits m"
    "marked m' = marked m \<union> set ss" by blast
  let ?h = "h\<lparr>fh_numBytes := n, fh_numSectors := int k\<rparr>"
  let ?h' = "?h\<lparr>dataSectors := patch 0 (map int ss) (dataSectors h)\<rparr>"
  have loop: "for_each allocate_sector [0..<0 + k] (m, ?h) = Inr (m', ?h\<lparr>dataSectors := patch 0 (map int ss) (dataSectors ?h)\<rparr>)"
    by (rule allocate_loop [OF _ _ ss(1)]) (use k assms in simp_all)
  have len: "length (dataSectors ?h') = NumDirect" using assms(3) k ss(2) by simp
  have t: "take k (dataSectors ?h') = map int ss" using ss(2) by (simp add: patch_def)
  then have so: "sectors_of ?h' = ss" by (simp add: sectors_of_def comp_def)
  have "c_ints ?h'" if "c_ints h"
  proof -
    have "c_int (int s) = int s" if "s \<in> set ss" for s
      using ss(5) that assms(2) by (intro c_int_small) (auto simp: NumSectors_1024)
    moreover have "c_int n = n" "c_int (int k) = int k"
      using assms(4,5) k(2) by (auto intro!: c_int_small simp: MaxFileSize_def NumDirect_30 SectorSize_128)
    ultimately show ?thesis using that len by (auto simp: c_ints_def patch_def dest: in_set_dropD)
  qed
  moreover have "hdr_ok ?h'"
    using len so t ss k assms(2,4) by (auto simp: hdr_ok_def NumSectors_1024)
  moreover have "Allocate n m h = Inr (True, m', ?h')"
    using loop k assms(6) by (simp add: Allocate_def NumClear_ok [OF assms(1)])
  ultimately show ?thesis using ss so by (intro exI [of _ m'] exI [of _ ?h']) simp
qed

lemma Allocate_full:
  assumes "bitmap_inv m" "sectors_for n > int (card ({..<numBits m} - marked m))"
  shows "\<exists>h'. Allocate n m h = Inr (False, m, h')"
  using assms by (simp add: Allocate_def NumClear_ok)

lemma deallocate_loop:
  assumes "bitmap_inv m" "distinct ss" "set ss \<subseteq> marked m" "\<And>i. i < length ss \<Longrightarrow> k + i < length (dataSectors h) \<and> dataSectors h ! (k + i) = int (ss ! i)"
  shows "\<exists>m'. for_each (deallocate_sector h) [k..<k + length ss] m = Inr m' \<and> bitmap_inv m' \<and> numBits m' = numBits m
    \<and> marked m' = marked m - set ss"
  using assms
proof (induction ss arbitrary: k m)
  case (Cons s ss)
  have s: "s < numBits m" "s \<in> marked m" using Cons.prems(3) marked_subset [of m] by auto
  from Clear_ok [OF Cons.prems(1) s(1)] obtain m1 where m1: "BitMap_Clear (int s) m = Inr m1" "bitmap_inv m1"
    "numBits m1 = numBits m" "marked m1 = marked m - {s}" by blast
  have "dataSectors h ! k = int s" "k < length (dataSectors h)" using Cons.prems(4) [of 0] by simp_all
  then have step: "deallocate_sector h k m = Inr m1"
    using s m1 Cons.prems(1) by (simp add: deallocate_sector_def Test_ok)
  have "Suc k + i < length (dataSectors h) \<and> dataSectors h ! (Suc k + i) = int (ss ! i)" if "i < length ss" for i
    using Cons.prems(4) [of "Suc i"] that by simp
  with Cons.IH [of m1 "Suc k"] m1 Cons.prems(2,3) obtain m' where
    "for_each (deallocate_sector h) [Suc k..<Suc k + length ss] m1 = Inr m'" "bitmap_inv m'" "numBits m' = numBits m1"
    "marked m' = marked m1 - set ss" by auto
  moreover have "[k..<k + length (s # ss)] = k # [Suc k..<Suc k + length ss]" using upt_conv_Cons [of k "k + length (s # ss)"] by simp
  ultimately show ?case using step m1 by (intro exI [of _ m']) auto
qed simp

lemma Deallocate_ok:
  assumes "bitmap_inv m" "hdr_ok h" "set (sectors_of h) \<subseteq> marked m"
  shows "\<exists>m'. Deallocate h m = Inr m' \<and> bitmap_inv m' \<and> numBits m' = numBits m \<and> marked m' = marked m - set (sectors_of h)"
proof -
  let ?n = "nat (fh_numSectors h)"
  have len: "length (sectors_of h) = ?n" using assms(2) by (auto simp: hdr_ok_def sectors_of_def)
  have "i < length (dataSectors h) \<and> dataSectors h ! i = int (sectors_of h ! i)" if "i < ?n" for i
  proof -
    have "i < length (dataSectors h)" using that assms(2) by (auto simp: hdr_ok_def)
    moreover have "dataSectors h ! i \<in> set (take ?n (dataSectors h))" using that calculation by (auto simp: in_set_conv_nth intro!: exI [of _ i])
    ultimately show ?thesis using that assms(2) by (auto simp: hdr_ok_def sectors_of_def)
  qed
  with deallocate_loop [of m "sectors_of h" 0 h] assms len show ?thesis by (simp add: Deallocate_def hdr_ok_def)
qed

text \<open>\<open>FetchFrom\<close> and \<open>WriteBack\<close>.\<close>

lemma Header_FetchFrom_ok:
  assumes "idle sd" "0 \<le> s" "s < NumSectors"
  shows "\<exists>sd'. Header_FetchFrom be s sd = Inr (hdr_at be (sector sd (nat s)), sd') \<and> idle sd' \<and> sector sd' = sector sd"
  using ReadSector_ok [OF assms] by (auto simp: Header_FetchFrom_def)

lemma Header_WriteBack_ok:
  assumes "idle sd" "0 \<le> s" "s < NumSectors" "length (dataSectors h) = NumDirect"
  shows "\<exists>sd'. Header_WriteBack be s h sd = Inr sd' \<and> idle sd' \<and> sector sd' = (sector sd)(nat s := hdr_bytes be h)"
  using WriteSector_ok [OF assms(1-3) length_hdr_bytes [OF assms(4)]] by (simp add: Header_WriteBack_def)

end
