(* ===== verification/Open_File.thy ===== *)
theory Open_File
  imports File_Header
begin

text \<open>
  Open files of the Nachos file system (\<open>filesys/openfile.cc\<close>): \<open>ReadAt\<close> and \<open>WriteAt\<close> of any part of a
  file, on a disk that transfers whole sectors. A \<open>char *\<close> argument that receives bytes is a result; the buffer
  a write takes its bytes from is a list; \<open>junk\<close> is what \<open>new char[]\<close> happens to hold. A negative position
  indexes before the buffer, and a sum above the range of \<open>int\<close> overflows: both are undefined.

  The lemmas show that a file with a well-formed header is an array of bytes (\<open>file_bytes\<close>) on which \<open>ReadAt\<close>
  returns a slice and \<open>WriteAt\<close> replaces one, and that no sector of another file is touched. The
  locale \<open>byte_file\<close> is this contract, for the clients that keep a data structure in a file.
\<close>

section \<open>The code\<close>

record NachosFile =
  of_hdr :: FileHeader
  seekPosition :: int

definition File_new :: "bool \<Rightarrow> int \<Rightarrow> SynchDisk \<Rightarrow> (NachosFile \<times> SynchDisk) result" where
  "File_new bigEndian s sd = rbind (Header_FetchFrom bigEndian s sd) (\<lambda>(h, sd). Inr (\<lparr>of_hdr = h, seekPosition = 0\<rparr>, sd))"

definition File_Seek :: "int \<Rightarrow> NachosFile \<Rightarrow> NachosFile" where
  "File_Seek position f = f\<lparr>seekPosition := position\<rparr>"

text \<open>The part of a request that lies in the file, if there is one.\<close>

definition clip :: "FileHeader \<Rightarrow> int \<Rightarrow> int \<Rightarrow> (nat \<times> nat) option result" where
  "clip h numBytes position =
     (let fileLength = FileLength h in
      if numBytes \<le> 0 \<or> position \<ge> fileLength then Inr None
      else if position < 0 \<or> position + numBytes \<ge> 2 ^ 31 then Inl Undefined
      else Inr (Some (nat (if position + numBytes > fileLength then fileLength - position else numBytes), nat position)))"

definition read_sector :: "FileHeader \<Rightarrow> nat \<Rightarrow> bytes \<times> SynchDisk \<Rightarrow> (bytes \<times> SynchDisk) result" where
  "read_sector h i = (\<lambda>(buf, sd). rbind (ByteToSector h (i * SectorSize)) (\<lambda>s.
     rbind (ReadSector s sd) (\<lambda>(bs, sd). Inr (buf @ bs, sd))))"

definition File_ReadAt :: "FileHeader \<Rightarrow> int \<Rightarrow> int \<Rightarrow> SynchDisk \<Rightarrow> (bytes \<times> SynchDisk) result" where
  "File_ReadAt h numBytes position sd = rbind (clip h numBytes position) (\<lambda>r. case r of
     None \<Rightarrow> Inr ([], sd)
   | Some (numBytes, position) \<Rightarrow>
       let firstSector = divRoundDown position SectorSize;
           lastSector = divRoundDown (position + numBytes - 1) SectorSize
       in rbind (for_each (read_sector h) [firstSector..<Suc lastSector] ([], sd)) (\<lambda>(buf, sd).
          Inr (take numBytes (drop (position - firstSector * SectorSize) buf), sd)))"

definition write_sector :: "FileHeader \<Rightarrow> nat \<Rightarrow> bytes \<Rightarrow> nat \<Rightarrow> SynchDisk \<Rightarrow> SynchDisk result" where
  "write_sector h firstSector buf i sd = rbind (ByteToSector h (i * SectorSize)) (\<lambda>s.
     WriteSector s (take SectorSize (drop ((i - firstSector) * SectorSize) buf)) sd)"

text \<open>Reading a sector that is to be partially modified into its place in the buffer.\<close>

definition fill :: "FileHeader \<Rightarrow> nat \<Rightarrow> nat \<Rightarrow> bytes \<times> SynchDisk \<Rightarrow> (bytes \<times> SynchDisk) result" where
  "fill h at i = (\<lambda>(buf, sd). rbind (File_ReadAt h (int SectorSize) (int (i * SectorSize)) sd) (\<lambda>(bs, sd).
     Inr (patch at bs buf, sd)))"

definition File_WriteAt :: "(nat \<Rightarrow> 8 word) \<Rightarrow> FileHeader \<Rightarrow> bytes \<Rightarrow> int \<Rightarrow> int \<Rightarrow> SynchDisk \<Rightarrow> (int \<times> SynchDisk) result" where
  "File_WriteAt junk h src numBytes position sd = rbind (clip h numBytes position) (\<lambda>r. case r of
     None \<Rightarrow> Inr (0, sd)
   | Some (numBytes, position) \<Rightarrow>
       let firstSector = divRoundDown position SectorSize;
           lastSector = divRoundDown (position + numBytes - 1) SectorSize;
           numSectors = 1 + lastSector - firstSector;
           buf = map junk [0..<numSectors * SectorSize];
           firstAligned = (position = firstSector * SectorSize);
           lastAligned = (position + numBytes = (lastSector + 1) * SectorSize)
       in rbind (if \<not> firstAligned then fill h 0 firstSector (buf, sd) else Inr (buf, sd)) (\<lambda>(buf, sd).
          rbind (if \<not> lastAligned \<and> (firstSector \<noteq> lastSector \<or> firstAligned)
                 then fill h ((lastSector - firstSector) * SectorSize) lastSector (buf, sd) else Inr (buf, sd)) (\<lambda>(buf, sd).
          if length src < numBytes then Inl Undefined
          else let buf = patch (position - firstSector * SectorSize) (take numBytes src) buf
          in rbind (for_each (write_sector h firstSector buf) [firstSector..<Suc lastSector] sd) (\<lambda>sd.
             Inr (int numBytes, sd)))))"

definition File_Read :: "int \<Rightarrow> NachosFile \<Rightarrow> SynchDisk \<Rightarrow> (bytes \<times> NachosFile \<times> SynchDisk) result" where
  "File_Read numBytes f sd = rbind (File_ReadAt (of_hdr f) numBytes (seekPosition f) sd) (\<lambda>(bs, sd).
     Inr (bs, f\<lparr>seekPosition := seekPosition f + int (length bs)\<rparr>, sd))"

definition File_Write :: "(nat \<Rightarrow> 8 word) \<Rightarrow> bytes \<Rightarrow> int \<Rightarrow> NachosFile \<Rightarrow> SynchDisk \<Rightarrow> (int \<times> NachosFile \<times> SynchDisk) result" where
  "File_Write junk src numBytes f sd = rbind (File_WriteAt junk (of_hdr f) src numBytes (seekPosition f) sd) (\<lambda>(n, sd).
     Inr (n, f\<lparr>seekPosition := seekPosition f + n\<rparr>, sd))"

definition File_Length :: "NachosFile \<Rightarrow> int" where
  "File_Length f = FileLength (of_hdr f)"

section \<open>A file as an array of bytes\<close>

definition blocks :: "FileHeader \<Rightarrow> (nat \<Rightarrow> bytes) \<Rightarrow> bytes" where
  "blocks h sec = concat (map sec (sectors_of h))"

definition file_bytes :: "FileHeader \<Rightarrow> (nat \<Rightarrow> bytes) \<Rightarrow> bytes" where
  "file_bytes h sec = take (nat (fh_numBytes h)) (blocks h sec)"

lemma length_sectors_of: "hdr_ok h \<Longrightarrow> length (sectors_of h) = divRoundUp (nat (fh_numBytes h)) SectorSize"
proof -
  assume "hdr_ok h"
  then have "nat (fh_numSectors h) \<le> length (dataSectors h)" unfolding hdr_ok_def by linarith
  moreover from \<open>hdr_ok h\<close> have "nat (fh_numSectors h) = divRoundUp (nat (fh_numBytes h)) SectorSize"
    by (simp add: hdr_ok_def sectors_for_nat)
  ultimately show ?thesis by (simp add: sectors_of_def)
qed

lemma length_blocks: "hdr_ok h \<Longrightarrow> length (blocks h (sector sd)) = length (sectors_of h) * SectorSize"
  by (subst blocks_def, subst length_concat_chunks [where n = SectorSize]) auto

lemma length_file_bytes: "hdr_ok h \<Longrightarrow> length (file_bytes h (sector sd)) = nat (fh_numBytes h)"
  using divRoundUp_ge [of SectorSize "nat (fh_numBytes h)"]
  by (simp add: file_bytes_def length_blocks length_sectors_of SectorSize_128)

lemma ByteToSector_ok:
  assumes "hdr_ok h" "i < length (sectors_of h)"
  shows "ByteToSector h (i * SectorSize) = Inr (int (sectors_of h ! i))" "int (sectors_of h ! i) < NumSectors"
proof -
  have i: "i < nat (fh_numSectors h)" "i < length (dataSectors h)" using assms by (auto simp: sectors_of_def)
  then have "dataSectors h ! i \<in> set (take (nat (fh_numSectors h)) (dataSectors h))" by (auto simp: in_set_conv_nth intro!: exI [of _ i])
  then have "0 \<le> dataSectors h ! i" "dataSectors h ! i < NumSectors" using assms(1) unfolding hdr_ok_def by blast+
  with i show "ByteToSector h (i * SectorSize) = Inr (int (sectors_of h ! i))" "int (sectors_of h ! i) < NumSectors"
    by (simp_all add: ByteToSector_def sectors_of_def SectorSize_128)
qed

lemma block_nth: "i < length (sectors_of h) \<Longrightarrow> take SectorSize (drop (i * SectorSize) (blocks h (sector sd))) = sector sd (sectors_of h ! i)"
  unfolding blocks_def by (subst chunk_of_concat) auto

lemma read_loop:
  assumes "hdr_ok h" "idle sd" "a \<le> b" "b \<le> length (sectors_of h)"
  shows "\<exists>sd'. for_each (read_sector h) [a..<b] ([], sd)
      = Inr (take ((b - a) * SectorSize) (drop (a * SectorSize) (blocks h (sector sd))), sd') \<and> idle sd' \<and> sector sd' = sector sd"
  using assms(3,4)
proof (induction "b - a" arbitrary: b)
  case 0
  then show ?case using assms(2) by auto
next
  case (Suc n)
  then obtain c where c: "b = Suc c" "a \<le> c" "n = c - a" by (cases b) auto
  with Suc have cl: "c < length (sectors_of h)" by simp
  from Suc c obtain sd1 where sd1: "for_each (read_sector h) [a..<c] ([], sd)
      = Inr (take ((c - a) * SectorSize) (drop (a * SectorSize) (blocks h (sector sd))), sd1)" "idle sd1" "sector sd1 = sector sd"
    by fastforce
  let ?b = "blocks h (sector sd)"
  from ReadSector_ok [OF sd1(2), of "int (sectors_of h ! c)"] ByteToSector_ok [OF assms(1) cl] obtain sd2 where
    sd2: "ReadSector (int (sectors_of h ! c)) sd1 = Inr (sector sd1 (sectors_of h ! c), sd2)" "idle sd2" "sector sd2 = sector sd1"
    by auto
  have "take ((b - a) * SectorSize) (drop (a * SectorSize) ?b)
      = take ((c - a) * SectorSize) (drop (a * SectorSize) ?b) @ take SectorSize (drop (c * SectorSize) ?b)"
  proof -
    have "(b - a) * SectorSize = (c - a) * SectorSize + SectorSize" "(c - a) * SectorSize + a * SectorSize = c * SectorSize"
      using c by (simp_all add: Suc_diff_le flip: add_mult_distrib)
    then show ?thesis by (simp only: take_add drop_drop add.commute [of "a * SectorSize"])
  qed
  moreover have "for_each (read_sector h) [a..<b] ([], sd)
      = Inr (take ((c - a) * SectorSize) (drop (a * SectorSize) ?b) @ sector sd (sectors_of h ! c), sd2)"
    using c sd1 sd2 ByteToSector_ok [OF assms(1) cl] by (simp add: for_each_append read_sector_def)
  ultimately show ?case using sd1 sd2 block_nth [OF cl, of sd] by auto
qed

lemma clip_nat:
  assumes "p + n < 2 ^ 31" "0 \<le> fh_numBytes h"
  shows "clip h (int n) (int p) = Inr (if n = 0 \<or> nat (fh_numBytes h) \<le> p then None else Some (min n (nat (fh_numBytes h) - p), p))"
proof -
  have "int p + int n < 2 ^ 31" using assms(1) by simp
  with assms(2) show ?thesis by (auto simp: clip_def FileLength_def Let_def min_def nat_diff_distrib)
qed

lemma covering_sectors:
  fixes p n :: nat
  assumes "0 < n" "p + n \<le> L"
  defines "a \<equiv> p div SectorSize" and "b \<equiv> Suc ((p + n - 1) div SectorSize)"
  shows "a \<le> b" "a < b" "b \<le> divRoundUp L SectorSize" "a * SectorSize \<le> p" "p < a * SectorSize + SectorSize"
    "p + n \<le> b * SectorSize" "b * SectorSize < p + n + SectorSize"
proof -
  have "p div SectorSize \<le> (p + n - 1) div SectorSize" by (rule div_le_mono) (use assms(1) in simp)
  then show "a \<le> b" "a < b" by (simp_all add: a_def b_def)
  show "b \<le> divRoundUp L SectorSize"
    unfolding b_def by (rule Suc_leI, rule div_less_divRoundUp) (use assms(1,2) in \<open>simp_all add: SectorSize_128\<close>)
  have round: "x div SectorSize * SectorSize \<le> x" "x < x div SectorSize * SectorSize + SectorSize" for x
    using dividend_less_div_times [of SectorSize x] by (simp_all add: SectorSize_128)
  from round [of p] show "a * SectorSize \<le> p" "p < a * SectorSize + SectorSize" by (simp_all only: a_def)
  from round [of "p + n - 1"] assms(1) show "p + n \<le> b * SectorSize" "b * SectorSize < p + n + SectorSize"
    unfolding b_def mult_Suc by linarith+
qed

lemma ReadAt_ok:
  assumes "hdr_ok h" "idle sd" "p + n < 2 ^ 31"
  shows "\<exists>sd'. File_ReadAt h (int n) (int p) sd = Inr (take n (drop p (file_bytes h (sector sd))), sd') \<and> idle sd' \<and> sector sd' = sector sd"
proof -
  let ?L = "nat (fh_numBytes h)" and ?B = "blocks h (sector sd)"
  have L: "0 \<le> fh_numBytes h" using assms(1) by (simp add: hdr_ok_def)
  show ?thesis
  proof (cases "n = 0 \<or> ?L \<le> p")
    case True
    then show ?thesis using assms by (auto simp: File_ReadAt_def clip_nat [OF assms(3) L] length_file_bytes)
  next
    case False
    define m where "m = min n (?L - p)"
    define a b where "a = p div SectorSize" and "b = Suc ((p + m - 1) div SectorSize)"
    have m: "0 < m" "p + m \<le> ?L" using False by (auto simp: m_def)
    note c = covering_sectors [OF m, folded a_def b_def]
    from read_loop [OF assms(1,2) c(1)] c(3) length_sectors_of [OF assms(1)] obtain sd' where
      sd': "for_each (read_sector h) [a..<b] ([], sd) = Inr (take ((b - a) * SectorSize) (drop (a * SectorSize) ?B), sd')"
        "idle sd'" "sector sd' = sector sd" by auto
    have "File_ReadAt h (int n) (int p) sd
        = Inr (take m (drop (p - a * SectorSize) (take ((b - a) * SectorSize) (drop (a * SectorSize) ?B))), sd')"
      using False sd'(1)
      by (simp add: File_ReadAt_def clip_nat [OF assms(3) L] divRoundDown_def Let_def b_def flip: m_def a_def del: upt_Suc)
    also have "take m (drop (p - a * SectorSize) (take ((b - a) * SectorSize) (drop (a * SectorSize) ?B))) = take m (drop p ?B)"
    proof -
      have "m \<le> (b - a) * SectorSize - (p - a * SectorSize)" using c by (simp add: diff_mult_distrib)
      then show ?thesis using c(4) by (simp add: drop_take min_absorb1)
    qed
    also have "take m (drop p ?B) = take n (drop p (file_bytes h (sector sd)))"
      by (simp add: file_bytes_def drop_take m_def)
    finally show ?thesis using sd' by blast
  qed
qed

lemma blocks_update:
  assumes "hdr_ok h" "i < length (sectors_of h)" "length c = SectorSize"
  shows "blocks h ((sector sd)(sectors_of h ! i := c)) = patch (i * SectorSize) c (blocks h (sector sd))"
proof -
  have "map ((sector sd)(sectors_of h ! i := c)) (sectors_of h) = (map (sector sd) (sectors_of h))[i := c]"
    using assms(1,2) by (intro nth_equalityI) (auto simp: hdr_ok_def nth_eq_iff_index_eq nth_list_update)
  with assms(2,3) show ?thesis unfolding blocks_def by (simp only:) (rule concat_update, auto)
qed

lemma write_loop:
  assumes "hdr_ok h" "idle sd" "a \<le> b" "b \<le> length (sectors_of h)" "(b - a) * SectorSize \<le> length buf"
  shows "\<exists>sd'. for_each (write_sector h a buf) [a..<b] sd = Inr sd' \<and> idle sd'
      \<and> blocks h (sector sd') = patch (a * SectorSize) (take ((b - a) * SectorSize) buf) (blocks h (sector sd))
      \<and> (\<forall>s. s \<notin> set (sectors_of h) \<longrightarrow> sector sd' s = sector sd s)"
  using assms(3-5)
proof (induction "b - a" arbitrary: b)
  case 0
  then show ?case using assms(2) by auto
next
  case (Suc n)
  then obtain c where c: "b = Suc c" "a \<le> c" "n = c - a" by (cases b) auto
  with Suc.prems have cl: "c < length (sectors_of h)" by simp
  have bc: "(b - a) * SectorSize = (c - a) * SectorSize + SectorSize" using c by (simp add: Suc_diff_le)
  with Suc.prems have len: "(c - a) * SectorSize + SectorSize \<le> length buf" by simp
  with Suc.hyps(1) [OF c(3) c(2)] cl obtain sd1 where sd1: "for_each (write_sector h a buf) [a..<c] sd = Inr sd1" "idle sd1"
      "blocks h (sector sd1) = patch (a * SectorSize) (take ((c - a) * SectorSize) buf) (blocks h (sector sd))"
      "\<And>s. s \<notin> set (sectors_of h) \<Longrightarrow> sector sd1 s = sector sd s" by auto
  let ?ch = "take SectorSize (drop ((c - a) * SectorSize) buf)"
  have ch: "length ?ch = SectorSize" using len by simp
  from WriteSector_ok [OF sd1(2), of "int (sectors_of h ! c)", OF _ _ ch] ByteToSector_ok [OF assms(1) cl] obtain sd2 where
    sd2: "WriteSector (int (sectors_of h ! c)) ?ch sd1 = Inr sd2" "idle sd2" "sector sd2 = (sector sd1)(sectors_of h ! c := ?ch)"
    by auto
  have "for_each (write_sector h a buf) [a..<b] sd = Inr sd2"
    using c sd1 sd2 ByteToSector_ok [OF assms(1) cl] by (simp add: for_each_append write_sector_def)
  moreover have "blocks h (sector sd2) = patch (a * SectorSize) (take ((b - a) * SectorSize) buf) (blocks h (sector sd))"
  proof -
    have ca: "c * SectorSize = a * SectorSize + length (take ((c - a) * SectorSize) buf)"
      using len c(2) by (simp add: min_absorb2 flip: add_mult_distrib)
    have "c * SectorSize + SectorSize \<le> length (blocks h (sector sd))"
      using cl mult_le_mono1 [of "Suc c" "length (sectors_of h)" SectorSize] by (simp add: length_blocks [OF assms(1)])
    then show ?thesis
      unfolding sd2(3) blocks_update [OF assms(1) cl ch] sd1(3) bc take_add
      by (subst ca, subst patch_append) (use ca ch in \<open>simp_all\<close>)
  qed
  ultimately show ?case using sd1 sd2 cl by auto
qed

lemma fill_ok:
  assumes "hdr_ok h" "idle sd" "i < length (sectors_of h)"
  shows "\<exists>sd'. fill h at i (buf, sd) = Inr (patch at (take SectorSize (drop (i * SectorSize) (file_bytes h (sector sd)))) buf, sd')
    \<and> idle sd' \<and> sector sd' = sector sd"
proof -
  have "length (sectors_of h) \<le> NumDirect" using assms(1) by (auto simp: sectors_of_def hdr_ok_def)
  with assms(3) have "i * SectorSize + SectorSize < 2 ^ 31" by (simp add: NumDirect_30 SectorSize_128)
  from ReadAt_ok [OF assms(1,2) this] show ?thesis by (auto simp: fill_def)
qed

text \<open>The buffer of \<open>WriteAt\<close>: after the two reads every byte of the file that is in its range but is not to be written
  is in its place.\<close>

definition filled :: "bool \<Rightarrow> bool \<Rightarrow> nat \<Rightarrow> nat \<Rightarrow> bytes \<Rightarrow> bytes \<Rightarrow> bytes" where
  "filled firstAligned lastAligned a c FB buf =
     (let buf = (if \<not> firstAligned then patch 0 (take SectorSize (drop (a * SectorSize) FB)) buf else buf)
      in if \<not> lastAligned \<and> (a \<noteq> c \<or> firstAligned)
         then patch ((c - a) * SectorSize) (take SectorSize (drop (c * SectorSize) FB)) buf else buf)"

lemma length_filled:
  "a \<le> c \<Longrightarrow> length buf = (Suc c - a) * SectorSize \<Longrightarrow> length (filled fa la a c FB buf) = length buf"
proof -
  assume ac: "a \<le> c" and len: "length buf = (Suc c - a) * SectorSize"
  then have "length buf = (c - a) * SectorSize + SectorSize" by (simp add: Suc_diff_le)
  then show ?thesis by (simp add: filled_def Let_def)
qed

lemma filled_nth:
  assumes "a \<le> c" "length buf = (Suc c - a) * SectorSize" "a * SectorSize \<le> x" "x < length FB"
    "(\<not> fa \<and> x < a * SectorSize + SectorSize) \<or> (\<not> la \<and> c * SectorSize \<le> x \<and> x < c * SectorSize + SectorSize)"
  shows "filled fa la a c FB buf ! (x - a * SectorSize) = FB ! x"
proof -
  define A D where "A = a * SectorSize" and "D = (c - a) * SectorSize"
  obtain y where y: "x = A + y" using assms(3) le_Suc_ex by (auto simp: A_def)
  have len: "length buf = D + SectorSize" using assms(1,2) by (simp add: D_def Suc_diff_le)
  have C: "c * SectorSize = A + D" using assms(1) by (simp add: A_def D_def flip: add_mult_distrib)
  have D: "if a = c then D = 0 else SectorSize \<le> D" using assms(1) mult_le_mono1 [of 1 "c - a" SectorSize] by (auto simp: D_def)
  have get: "patch at (take SectorSize (drop from FB)) buf' ! y = (if at \<le> y \<and> y < at + SectorSize \<and> from + (y - at) < length FB
      then FB ! (from + (y - at)) else buf' ! y)" if "at + SectorSize \<le> length buf'" "y < length buf'" for at "from" buf'
    using that by (auto simp: nth_patch)
  have "(\<not> fa \<and> y < SectorSize) \<or> (\<not> la \<and> D \<le> y \<and> y < D + SectorSize)" using assms(5) unfolding C y A_def [symmetric] by auto
  moreover have "A + y < length FB" using assms(4) y by simp
  ultimately show ?thesis
    using D len unfolding filled_def Let_def C D_def [symmetric] A_def [symmetric] y
    by (cases fa; cases la; cases "a = c") (auto simp: get)
qed

text \<open>The sectors from \<open>a\<close> to \<open>c\<close>, read where the request does not cover them, patched and written back.\<close>

lemma written_back:
  assumes "hdr_ok h" "0 < m" "p + m \<le> nat (fh_numBytes h)" "m \<le> length src" "a = p div SectorSize" "c = (p + m - 1) div SectorSize"
    and len0: "length buf0 = (Suc c - a) * SectorSize"
    and fa: "fa = (p = a * SectorSize)" and la: "la = (p + m = (c + 1) * SectorSize)"
    and buf_def: "buf = filled fa la a c (file_bytes h (sector sd)) buf0" and buf'_def: "buf' = patch (p - a * SectorSize) (take m src) buf"
    and B': "blocks h (sector sd') = patch (a * SectorSize) buf' (blocks h (sector sd))"
  shows "file_bytes h (sector sd') = patch p (take m src) (file_bytes h (sector sd))"
proof -
  let ?L = "nat (fh_numBytes h)" and ?FB = "file_bytes h (sector sd)" and ?B = "blocks h (sector sd)"
  note m = assms(2-4)
  note ac = covering_sectors [OF m(1,2), folded assms(5,6)]
  have le: "a \<le> c" "c < length (sectors_of h)" using ac(1-3) length_sectors_of [OF assms(1)] by linarith+
  have len: "length buf = (Suc c - a) * SectorSize" using length_filled [OF le(1) len0] len0 by (simp add: buf_def)
  have pm: "p - a * SectorSize + length (take m src) \<le> length buf" using ac m(3) len by (simp add: diff_mult_distrib)
  then have len': "length buf' = (Suc c - a) * SectorSize" using len by (simp add: buf'_def)
  show ?thesis
  proof (rule nth_equalityI)
    have B: "length ?B = length (sectors_of h) * SectorSize" "?L \<le> length ?B"
      using length_blocks [OF assms(1)] length_file_bytes [OF assms(1), of sd] by (simp_all add: file_bytes_def)
    have "Suc c * SectorSize \<le> length ?B" using le(2) B(1) mult_le_mono1 [of "Suc c" "length (sectors_of h)" SectorSize] by simp
    moreover have top: "a * SectorSize + length buf' = Suc c * SectorSize" using len' le(1) by (simp flip: add_mult_distrib)
    ultimately have fit: "a * SectorSize + length buf' \<le> length ?B" by simp
    fix x assume "x < length (file_bytes h (sector sd'))"
    then have x: "x < ?L" using length_file_bytes [OF assms(1)] by simp
    show "file_bytes h (sector sd') ! x = patch p (take m src) ?FB ! x"
    proof (cases "a * SectorSize \<le> x \<and> x < a * SectorSize + length buf'")
      case True
      let ?y = "x - a * SectorSize"
      have "file_bytes h (sector sd') ! x = buf' ! ?y"
        using x True fit B(2) by (simp add: file_bytes_def B' nth_patch)
      also have "\<dots> = (if p \<le> x \<and> x < p + m then src ! (x - p) else buf ! ?y)"
        using True ac(4) pm m(3) len len' by (auto simp: buf'_def nth_patch)
      also have "\<dots> = (if p \<le> x \<and> x < p + m then src ! (x - p) else ?FB ! x)"
      proof -
        have "buf ! ?y = ?FB ! x" if "\<not> (p \<le> x \<and> x < p + m)"
          unfolding buf_def
        proof (rule filled_nth [OF le(1) len0])
          have up: "x < Suc c * SectorSize" using True top by linarith
          show "\<not> fa \<and> x < a * SectorSize + SectorSize \<or> \<not> la \<and> c * SectorSize \<le> x \<and> x < c * SectorSize + SectorSize"
            using that True ac up by (auto simp: fa la)
        qed (use True x length_file_bytes [OF assms(1), of sd] in auto)
        then show ?thesis by auto
      qed
      finally show ?thesis using x m length_file_bytes [OF assms(1), of sd] by (auto simp: nth_patch)
    next
      case False
      have "file_bytes h (sector sd') ! x = ?FB ! x"
        using x False fit B(2) by (auto simp: file_bytes_def B' nth_patch)
      moreover have "\<not> (p \<le> x \<and> x < p + m)" using False ac len' by (auto simp: diff_mult_distrib)
      ultimately show ?thesis using x m length_file_bytes [OF assms(1), of sd] by (auto simp: nth_patch)
    qed
  qed (use m length_file_bytes [OF assms(1)] in simp)
qed

lemma WriteAt_ok:
  assumes "hdr_ok h" "idle sd" "p + n < 2 ^ 31" "n \<le> length src"
  defines "m \<equiv> min n (nat (fh_numBytes h) - p)"
  shows "\<exists>sd'. File_WriteAt junk h src (int n) (int p) sd = Inr (int m, sd') \<and> idle sd'
    \<and> file_bytes h (sector sd') = patch p (take m src) (file_bytes h (sector sd))
    \<and> (\<forall>s. s \<notin> set (sectors_of h) \<longrightarrow> sector sd' s = sector sd s)"
proof -
  let ?L = "nat (fh_numBytes h)" and ?FB = "file_bytes h (sector sd)" and ?B = "blocks h (sector sd)"
  have L: "0 \<le> fh_numBytes h" using assms(1) by (simp add: hdr_ok_def)
  show ?thesis
  proof (cases "n = 0 \<or> ?L \<le> p")
    case True
    then show ?thesis using assms by (auto simp: File_WriteAt_def clip_nat [OF assms(3) L])
  next
    case False
    define a c where "a = p div SectorSize" and "c = (p + m - 1) div SectorSize"
    have m: "0 < m" "p + m \<le> ?L" "m \<le> length src" using False assms(4) by (auto simp: m_def)
    note ac = covering_sectors [OF m(1,2), folded a_def c_def]
    have le: "a \<le> c" "c < length (sectors_of h)" "a < length (sectors_of h)"
      using ac(1-3) length_sectors_of [OF assms(1)] by linarith+
    define fa la where "fa = (p = a * SectorSize)" and "la = (p + m = (c + 1) * SectorSize)"
    define buf0 where "buf0 = map junk [0..<(1 + c - a) * SectorSize]"
    define buf where "buf = filled fa la a c ?FB buf0"
    have len0: "length buf0 = (Suc c - a) * SectorSize" by (simp add: buf0_def)
    have len: "length buf = (Suc c - a) * SectorSize" using length_filled [OF le(1) len0] len0 by (simp add: buf_def)
    from fill_ok [OF assms(1,2) le(3), of 0 buf0] obtain sd1 where sd1:
      "(if \<not> fa then fill h 0 a (buf0, sd) else Inr (buf0, sd))
       = Inr (if \<not> fa then patch 0 (take SectorSize (drop (a * SectorSize) ?FB)) buf0 else buf0, sd1)" "idle sd1" "sector sd1 = sector sd"
      using assms(2) by (cases fa) auto
    let ?b1 = "if \<not> fa then patch 0 (take SectorSize (drop (a * SectorSize) ?FB)) buf0 else buf0"
    from fill_ok [OF assms(1) sd1(2) le(2), of "(c - a) * SectorSize" ?b1] obtain sd2 where sd2:
      "(if \<not> la \<and> (a \<noteq> c \<or> fa) then fill h ((c - a) * SectorSize) c (?b1, sd1) else Inr (?b1, sd1)) = Inr (buf, sd2)"
      "idle sd2" "sector sd2 = sector sd"
      using sd1(2,3) by (cases "\<not> la \<and> (a \<noteq> c \<or> fa)") (auto simp: buf_def filled_def Let_def simp del: if_not_P)
    define buf' where "buf' = patch (p - a * SectorSize) (take m src) buf"
    have pm: "p - a * SectorSize + length (take m src) \<le> length buf"
      using ac m(3) len by (simp add: diff_mult_distrib)
    then have len': "length buf' = (Suc c - a) * SectorSize" using len by (simp add: buf'_def)
    from write_loop [OF assms(1) sd2(2), of a "Suc c" buf'] len' le obtain sd' where sd':
      "for_each (write_sector h a buf') [a..<Suc c] sd2 = Inr sd'" "idle sd'"
      "blocks h (sector sd') = patch (a * SectorSize) buf' ?B" "\<forall>s. s \<notin> set (sectors_of h) \<longrightarrow> sector sd' s = sector sd s"
      using sd2(3) by auto
    have "File_WriteAt junk h src (int n) (int p) sd = Inr (int m, sd')"
    proof -
      have clip: "clip h (int n) (int p) = Inr (Some (m, p))" using False by (simp add: clip_nat [OF assms(3) L] m_def)
      have "\<not> length src < m" using m(3) by simp
      then show ?thesis
        by (simp only: File_WriteAt_def clip rbind_Inr option.case prod.case Let_def divRoundDown_def sd1(1) sd2(1) sd'(1) if_False
            buf'_def [symmetric] a_def [symmetric] c_def [symmetric] fa_def [symmetric] la_def [symmetric] buf0_def [symmetric])
    qed
    moreover have "file_bytes h (sector sd') = patch p (take m src) ?FB"
      by (rule written_back [OF assms(1) m a_def c_def len0 fa_def la_def buf_def buf'_def sd'(3)])
    ultimately show ?thesis using sd' by blast
  qed
qed

section \<open>The contract of a file\<close>

text \<open>What a client of one file relies on: \<open>contents\<close> is the file, \<open>rest\<close> everything else on the disk.\<close>

locale byte_file =
  fixes ok :: "'d \<Rightarrow> bool" and contents :: "'d \<Rightarrow> bytes" and rest :: "'d \<Rightarrow> 'r" and size :: nat
    and readAt :: "int \<Rightarrow> int \<Rightarrow> 'd \<Rightarrow> (bytes \<times> 'd) result"
    and writeAt :: "bytes \<Rightarrow> int \<Rightarrow> int \<Rightarrow> 'd \<Rightarrow> (int \<times> 'd) result"
  assumes length_contents: "ok d \<Longrightarrow> length (contents d) = size"
    and read_law: "ok d \<Longrightarrow> p + n < 2 ^ 31 \<Longrightarrow> \<exists>d'. readAt (int n) (int p) d = Inr (take n (drop p (contents d)), d')
      \<and> ok d' \<and> contents d' = contents d \<and> rest d' = rest d"
    and write_law: "ok d \<Longrightarrow> p + n < 2 ^ 31 \<Longrightarrow> n \<le> length src \<Longrightarrow>
      \<exists>d'. writeAt src (int n) (int p) d = Inr (int (min n (size - p)), d')
      \<and> ok d' \<and> contents d' = patch p (take (min n (size - p)) src) (contents d) \<and> rest d' = rest d"
begin

lemma load:
  assumes "ok d" "size < 2 ^ 31"
  shows "\<exists>d'. readAt (int size) 0 d = Inr (contents d, d') \<and> ok d' \<and> contents d' = contents d \<and> rest d' = rest d"
  using read_law [of d 0 size] assms length_contents [OF assms(1)] by simp

lemma store:
  assumes "ok d" "size < 2 ^ 31" "length src = size"
  shows "\<exists>d'. writeAt src (int size) 0 d = Inr (int size, d') \<and> ok d' \<and> contents d' = src \<and> rest d' = rest d"
  using write_law [of d 0 size src] assms length_contents [OF assms(1)] by (simp add: patch_def)

lemma read_back:
  assumes "ok d" "p + length src \<le> size" "size < 2 ^ 31"
  shows "\<exists>d' d''. writeAt src (int (length src)) (int p) d = Inr (int (length src), d')
    \<and> readAt (int (length src)) (int p) d' = Inr (src, d'')"
proof -
  have "min (length src) (size - p) = length src" using assms(2) by simp
  with write_law [of d p "length src" src] assms obtain d' where
    w: "writeAt src (int (length src)) (int p) d = Inr (int (length src), d')" "ok d'" "contents d' = patch p src (contents d)"
    by auto
  have "take (length src) (drop p (patch p src (contents d))) = src"
    using assms length_contents [OF assms(1)] by (simp add: patch_def)
  with w read_law [of d' p "length src"] assms show ?thesis by auto
qed

end

text \<open>The sectors of all other files.\<close>

definition elsewhere :: "FileHeader \<Rightarrow> SynchDisk \<Rightarrow> nat \<Rightarrow> bytes" where
  "elsewhere h sd s = (if s \<in> set (sectors_of h) then [] else sector sd s)"

lemma elsewhere_eq: "elsewhere h sd' = elsewhere h sd \<longleftrightarrow> (\<forall>s. s \<notin> set (sectors_of h) \<longrightarrow> sector sd' s = sector sd s)"
  by (auto simp: elsewhere_def fun_eq_iff)

interpretation nf: byte_file "\<lambda>sd. hdr_ok h \<and> idle sd" "\<lambda>sd. file_bytes h (sector sd)" "elsewhere h" "nat (fh_numBytes h)"
    "File_ReadAt h" "File_WriteAt junk h" for h junk
proof unfold_locales
  fix sd and p n :: nat and src :: bytes
  assume ok: "hdr_ok h \<and> idle sd"
  then show "length (file_bytes h (sector sd)) = nat (fh_numBytes h)" by (simp add: length_file_bytes)
  assume p: "p + n < 2 ^ 31"
  from ReadAt_ok [of h sd p n] ok p show "\<exists>d'. File_ReadAt h (int n) (int p) sd = Inr (take n (drop p (file_bytes h (sector sd))), d')
      \<and> (hdr_ok h \<and> idle d') \<and> file_bytes h (sector d') = file_bytes h (sector sd) \<and> elsewhere h d' = elsewhere h sd"
    by (auto simp: elsewhere_eq)
  assume "n \<le> length src"
  with WriteAt_ok [of h sd p n src junk] ok p show "\<exists>d'. File_WriteAt junk h src (int n) (int p) sd = Inr (int (min n (nat (fh_numBytes h) - p)), d')
      \<and> (hdr_ok h \<and> idle d')
      \<and> file_bytes h (sector d') = patch p (take (min n (nat (fh_numBytes h) - p)) src) (file_bytes h (sector sd)) \<and> elsewhere h d' = elsewhere h sd"
    by (auto simp: elsewhere_eq)
qed

section \<open>Properties\<close>

text \<open>
  C3. A file with a well-formed header is an array of bytes. \<open>ReadAt\<close> returns the bytes from the position on, up to
  the end of the file, and leaves every sector as it is. \<open>WriteAt\<close> returns how many bytes lie in the file, replaces
  exactly these, whatever the sector boundaries and the contents of its buffer, and changes no sector of another file. What
  was written is what is read. A request at a negative position is undefined.
\<close>

theorem file_is_byte_array:
  assumes "hdr_ok h" "idle sd" "p + n < 2 ^ 31" "n \<le> length src"
  shows "(\<exists>sd'. File_ReadAt h (int n) (int p) sd = Inr (take n (drop p (file_bytes h (sector sd))), sd') \<and> idle sd' \<and> sector sd' = sector sd)
    \<and> (\<exists>sd'. File_WriteAt junk h src (int n) (int p) sd = Inr (int (min n (nat (fh_numBytes h) - p)), sd') \<and> idle sd'
        \<and> file_bytes h (sector sd') = patch p (take (min n (nat (fh_numBytes h) - p)) src) (file_bytes h (sector sd))
        \<and> (\<forall>s. s \<notin> set (sectors_of h) \<longrightarrow> sector sd' s = sector sd s))
    \<and> (int p + int (length src) \<le> fh_numBytes h \<longrightarrow> (\<exists>sd' sd''. File_WriteAt junk h src (int (length src)) (int p) sd = Inr (int (length src), sd')
        \<and> File_ReadAt h (int (length src)) (int p) sd' = Inr (src, sd'')))
    \<and> (q < 0 \<and> 0 < n \<longrightarrow> File_ReadAt h (int n) q sd = Inl Undefined \<and> File_WriteAt junk h src (int n) q sd = Inl Undefined)"
proof (intro conjI impI)
  assume fit: "int p + int (length src) \<le> fh_numBytes h"
  have "nat (fh_numBytes h) < 2 ^ 31"
    using assms(1) sectors_for_MaxFileSize [of "fh_numBytes h"] by (auto simp: hdr_ok_def MaxFileSize_def NumDirect_30 SectorSize_128)
  with nf.read_back [of h sd p src junk] assms(1,2) fit show "\<exists>sd' sd''. File_WriteAt junk h src (int (length src)) (int p) sd
      = Inr (int (length src), sd') \<and> File_ReadAt h (int (length src)) (int p) sd' = Inr (src, sd'')" by auto
next
  assume "q < 0 \<and> 0 < n"
  then have "clip h (int n) q = Inl Undefined" using assms(1) by (auto simp: clip_def FileLength_def hdr_ok_def Let_def)
  then show "File_ReadAt h (int n) q sd = Inl Undefined" "File_WriteAt junk h src (int n) q sd = Inl Undefined"
    by (simp_all add: File_ReadAt_def File_WriteAt_def)
qed (rule ReadAt_ok WriteAt_ok assms)+

definition two_blocks :: FileHeader where
  "two_blocks = \<lparr>fh_numBytes = 200, fh_numSectors = 2, dataSectors = 9 # 5 # replicate 28 0\<rparr>"

lemma two_blocks_ok: "hdr_ok two_blocks"
  by (simp add: two_blocks_def hdr_ok_def sectors_of_def sectors_for_nat divRoundUp_def SectorSize_128 NumDirect_30 NumSectors_1024)

theorem file_is_byte_array_witness:
  "\<exists>sd' sd''. File_WriteAt (\<lambda>_. 77) two_blocks [1, 2, 3] 3 126 blank_disk = Inr (3, sd')
     \<and> File_ReadAt two_blocks 3 126 sd' = Inr ([1, 2, 3], sd'')"
  using file_is_byte_array [OF two_blocks_ok blank_disk_idle, of 126 3 "[1, 2, 3]" "\<lambda>_. 77" 0] by (simp add: two_blocks_def)

end
