(* ===== verification/Directory.thy ===== *)
theory Directory
  imports Open_File
begin

text \<open>
  The directory (\<open>filesys/directory.cc\<close>): a table of names and header sectors, kept in a file as the bytes of
  the array. A file name is a C string, here the list of its characters without the final NUL; names are compared
  and stored up to \<open>FileNameMaxLen\<close> characters.

  The 20 bytes of an entry are a \<open>bool\<close>, three bytes of padding, the sector, the name and two bytes of
  padding; the padding goes to the disk and back with the rest (\<open>de_pad\<close>).

  The lemmas show the table to be a finite map from names, cut to \<open>FileNameMaxLen\<close> characters, to sectors.
\<close>

section \<open>The code\<close>

definition FileNameMaxLen :: nat where "FileNameMaxLen = 9"

record DirectoryEntry =
  inUse :: bool
  de_sector :: int
  de_name :: bytes
  de_pad :: bytes

definition entry_size :: nat where "entry_size = 20"

definition dirent_bytes :: "bool \<Rightarrow> DirectoryEntry \<Rightarrow> bytes" where
  "dirent_bytes bigEndian e = (if inUse e then 1 else 0) # take 3 (de_pad e) @ int_bytes bigEndian (de_sector e) @ de_name e @ drop 3 (de_pad e)"

definition dirent_at :: "bool \<Rightarrow> bytes \<Rightarrow> DirectoryEntry" where
  "dirent_at bigEndian bs = \<lparr>inUse = (bs ! 0 \<noteq> 0), de_sector = int_at bigEndian bs 4, de_name = take 10 (drop 8 bs),
     de_pad = take 3 (drop 1 bs) @ take 2 (drop 18 bs)\<rparr>"

text \<open>\<open>strncmp\<close> and \<open>strncpy\<close> of the C library; the end of a list is the NUL of the string.\<close>

fun strncmp :: "nat \<Rightarrow> bytes \<Rightarrow> bytes \<Rightarrow> int" where
  "strncmp 0 s t = 0"
| "strncmp (Suc n) s t =
     (let a = (case s of [] \<Rightarrow> 0 | x # _ \<Rightarrow> x); b = (case t of [] \<Rightarrow> 0 | x # _ \<Rightarrow> x)
      in if a \<noteq> b then uint a - uint b else if a = 0 then 0 else strncmp n (tl s) (tl t))"

definition strncpy :: "nat \<Rightarrow> bytes \<Rightarrow> bytes \<Rightarrow> bytes" where
  "strncpy n src dst = patch 0 (take n (takeWhile (\<lambda>c. c \<noteq> 0) src @ replicate n 0)) dst"

text \<open>The constructor; \<open>junk\<close> is what the freshly allocated entries hold.\<close>

definition Directory_new :: "(nat \<Rightarrow> DirectoryEntry) \<Rightarrow> nat \<Rightarrow> DirectoryEntry list" where
  "Directory_new junk n = map (\<lambda>i. (junk i)\<lparr>inUse := False\<rparr>) [0..<n]"

definition table_bytes :: "bool \<Rightarrow> DirectoryEntry list \<Rightarrow> bytes" where
  "table_bytes bigEndian table = concat (map (dirent_bytes bigEndian) table)"

definition table_at :: "bool \<Rightarrow> nat \<Rightarrow> bytes \<Rightarrow> DirectoryEntry list" where
  "table_at bigEndian n bs = map (\<lambda>i. dirent_at bigEndian (take entry_size (drop (i * entry_size) bs))) [0..<n]"

definition Directory_FetchFrom :: "bool \<Rightarrow> FileHeader \<Rightarrow> DirectoryEntry list \<Rightarrow> SynchDisk \<Rightarrow> (DirectoryEntry list \<times> SynchDisk) result" where
  "Directory_FetchFrom bigEndian h table sd =
     rbind (File_ReadAt h (int (length table * entry_size)) 0 sd) (\<lambda>(bs, sd).
     Inr (table_at bigEndian (length table) (patch 0 bs (table_bytes bigEndian table)), sd))"

definition Directory_WriteBack ::
  "bool \<Rightarrow> (nat \<Rightarrow> 8 word) \<Rightarrow> FileHeader \<Rightarrow> DirectoryEntry list \<Rightarrow> SynchDisk \<Rightarrow> SynchDisk result" where
  "Directory_WriteBack bigEndian junk h table sd =
     rbind (File_WriteAt junk h (table_bytes bigEndian table) (int (length table * entry_size)) 0 sd) (\<lambda>(_, sd). Inr sd)"

primrec find_index :: "bytes \<Rightarrow> nat \<Rightarrow> DirectoryEntry list \<Rightarrow> int" where
  "find_index name i [] = -1"
| "find_index name i (e # es) =
     (if inUse e \<and> strncmp FileNameMaxLen (de_name e) name = 0 then int i else find_index name (Suc i) es)"

definition FindIndex :: "bytes \<Rightarrow> DirectoryEntry list \<Rightarrow> int" where
  "FindIndex name table = find_index name 0 table"

definition Directory_Find :: "bytes \<Rightarrow> DirectoryEntry list \<Rightarrow> int" where
  "Directory_Find name table = (let i = FindIndex name table in if i \<noteq> -1 then de_sector (table ! nat i) else -1)"

primrec add_loop :: "bytes \<Rightarrow> int \<Rightarrow> DirectoryEntry list \<Rightarrow> bool \<times> DirectoryEntry list" where
  "add_loop name newSector [] = (False, [])"
| "add_loop name newSector (e # es) =
     (if \<not> inUse e
      then (True, e\<lparr>inUse := True, de_name := strncpy FileNameMaxLen name (de_name e), de_sector := newSector\<rparr> # es)
      else let (r, es) = add_loop name newSector es in (r, e # es))"

definition Directory_Add :: "bytes \<Rightarrow> int \<Rightarrow> DirectoryEntry list \<Rightarrow> bool \<times> DirectoryEntry list" where
  "Directory_Add name newSector table =
     (if FindIndex name table \<noteq> -1 then (False, table) else add_loop name newSector table)"

definition Directory_Remove :: "bytes \<Rightarrow> DirectoryEntry list \<Rightarrow> bool \<times> DirectoryEntry list" where
  "Directory_Remove name table = (let i = FindIndex name table in
     if i = -1 then (False, table) else (True, table[nat i := (table ! nat i)\<lparr>inUse := False\<rparr>]))"

text \<open>The names \<open>List\<close> prints: \<open>%s\<close> stops at the first NUL, and leaves the array when there is none.\<close>

definition printed_name :: "DirectoryEntry \<Rightarrow> bytes result" where
  "printed_name e = (if 0 \<in> set (de_name e) then Inr (takeWhile (\<lambda>c. c \<noteq> 0) (de_name e)) else Inl Undefined)"

definition Directory_List :: "DirectoryEntry list \<Rightarrow> bytes list result" where
  "Directory_List table = for_each (\<lambda>e out. if inUse e then rbind (printed_name e) (\<lambda>n. Inr (out @ [n])) else Inr out) table []"

section \<open>The table as a map\<close>

definition key :: "bytes \<Rightarrow> bytes" where
  "key name = takeWhile (\<lambda>c. c \<noteq> 0) (take FileNameMaxLen name)"

definition entry_key :: "DirectoryEntry \<Rightarrow> bytes" where
  "entry_key e = key (de_name e)"

definition live_entries :: "DirectoryEntry list \<Rightarrow> DirectoryEntry list" where
  "live_entries t = filter inUse t"

definition dir_map :: "DirectoryEntry list \<Rightarrow> bytes \<rightharpoonup> int" where
  "dir_map t = map_of (map (\<lambda>e. (entry_key e, de_sector e)) (live_entries t))"

definition entry_ok :: "DirectoryEntry \<Rightarrow> bool" where
  "entry_ok e \<longleftrightarrow> length (de_name e) = 10 \<and> length (de_pad e) = 5 \<and> c_int (de_sector e) = de_sector e"

definition dir_ok :: "DirectoryEntry list \<Rightarrow> bool" where
  "dir_ok t \<longleftrightarrow> (\<forall>e \<in> set t. entry_ok e) \<and> distinct (map entry_key (live_entries t))"

lemma strncmp_key: "strncmp n s t = 0 \<longleftrightarrow> takeWhile (\<lambda>c. c \<noteq> 0) (take n s) = takeWhile (\<lambda>c. c \<noteq> 0) (take n t)"
  by (induction n s t rule: strncmp.induct) (auto simp: Let_def neq_Nil_conv word_uint_eq_iff split: list.splits)

lemma FileNameMaxLen_9: "FileNameMaxLen = 9"
  by (simp add: FileNameMaxLen_def)

lemma takeWhile_of_take: "takeWhile q (take n xs) = take n (takeWhile q xs)"
  by (induction xs arbitrary: n) (auto simp: take_Cons split: nat.splits)

lemma strncpy_ok:
  assumes "length dst = 10"
  shows "key (strncpy FileNameMaxLen name dst) = key name" "length (strncpy FileNameMaxLen name dst) = 10"
proof -
  let ?tw = "takeWhile (\<lambda>c. c \<noteq> 0) name"
  let ?new = "take FileNameMaxLen (?tw @ replicate FileNameMaxLen 0)"
  have len: "length ?new = FileNameMaxLen" by simp
  then show "length (strncpy FileNameMaxLen name dst) = 10"
    using assms by (simp add: strncpy_def FileNameMaxLen_9 del: length_take length_append)
  have "take n (patch 0 bs dst) = bs" if "length bs = n" for n and bs :: bytes using that by (simp add: patch_def)
  from this [OF len] have "take FileNameMaxLen (strncpy FileNameMaxLen name dst) = ?new" by (simp only: strncpy_def)
  then have "key (strncpy FileNameMaxLen name dst) = take FileNameMaxLen (takeWhile (\<lambda>c. c \<noteq> 0) (?tw @ replicate FileNameMaxLen 0))"
    by (simp only: key_def takeWhile_of_take)
  also have "takeWhile (\<lambda>c. c \<noteq> 0) (?tw @ replicate FileNameMaxLen 0) = ?tw"
    by (subst takeWhile_append2) (auto dest: set_takeWhileD)
  finally show "key (strncpy FileNameMaxLen name dst) = key name" by (simp only: key_def takeWhile_of_take)
qed

lemma same_name: "strncmp FileNameMaxLen (de_name e) name = 0 \<longleftrightarrow> entry_key e = key name"
  by (simp add: strncmp_key entry_key_def key_def)

lemma live_simps [simp]: "live_entries [] = []" "live_entries (e # t) = (if inUse e then e # live_entries t else live_entries t)" "live_entries (t @ u) = live_entries t @ live_entries u"
  by (simp_all add: live_entries_def)

lemma find_index_ok:
  "(\<forall>e \<in> set (live_entries t). entry_key e \<noteq> key name) \<and> find_index name i t = -1
   \<or> (\<exists>t1 e t2. t = t1 @ e # t2 \<and> inUse e \<and> entry_key e = key name \<and> (\<forall>e \<in> set (live_entries t1). entry_key e \<noteq> key name)
        \<and> find_index name i t = int (i + length t1))"
proof (induction t arbitrary: i)
  case (Cons e t)
  show ?case
  proof (cases "inUse e \<and> entry_key e = key name")
    case True
    then have "e # t = [] @ e # t \<and> find_index name i (e # t) = int (i + length [])" by (simp add: same_name)
    with True show ?thesis by (intro disjI2 exI [of _ "[]"] exI [of _ e] exI [of _ t]) simp
  next
    case False
    then have eq: "find_index name i (e # t) = find_index name (Suc i) t" by (auto simp: same_name)
    from Cons.IH [of "Suc i"] show ?thesis
    proof (elim disjE exE conjE)
      fix t1 e' t2
      assume h: "t = t1 @ e' # t2" "inUse e'" "entry_key e' = key name" "\<forall>e \<in> set (live_entries t1). entry_key e \<noteq> key name"
        "find_index name (Suc i) t = int (Suc i + length t1)"
      then show ?thesis using False eq by (intro disjI2 exI [of _ "e # t1"] exI [of _ e'] exI [of _ t2]) auto
    qed (use False eq in auto)
  qed
qed simp

lemma dir_map_None: "dir_map t k = None \<longleftrightarrow> (\<forall>e \<in> set (live_entries t). entry_key e \<noteq> k)"
  by (auto simp: dir_map_def map_of_eq_None_iff image_iff)

lemma dir_map_Cons: "dir_map (e # t) = (if inUse e then (dir_map t)(entry_key e \<mapsto> de_sector e) else dir_map t)"
  by (simp add: dir_map_def)

lemma dir_map_append: "dir_map (t @ u) = dir_map u ++ dir_map t"
  by (simp add: dir_map_def)

text \<open>\<open>FindIndex\<close> splits the table at the entry.\<close>

lemma FindIndex_cases:
  obtains (none) "dir_map t (key name) = None" "FindIndex name t = -1"
  | (found) t1 e t2 where "t = t1 @ e # t2" "inUse e" "entry_key e = key name" "dir_map t1 (key name) = None"
      "FindIndex name t = int (length t1)" "dir_map t (key name) = Some (de_sector e)"
  using find_index_ok [of t name 0]
proof (elim disjE exE conjE)
  fix t1 e t2
  assume h: "t = t1 @ e # t2" "inUse e" "entry_key e = key name" "\<forall>e \<in> set (live_entries t1). entry_key e \<noteq> key name"
    "find_index name 0 t = int (0 + length t1)"
  then have "dir_map t1 (key name) = None" by (simp add: dir_map_None)
  with h found [of t1 e t2] show thesis by (simp add: FindIndex_def dir_map_append dir_map_Cons map_add_def)
qed (use none in \<open>auto simp: FindIndex_def dir_map_None\<close>)

lemma Find_dir_map: "Directory_Find name t = (case dir_map t (key name) of None \<Rightarrow> -1 | Some s \<Rightarrow> s)"
  by (rule FindIndex_cases [of t name]) (simp_all add: Directory_Find_def nth_append)

definition named :: "bytes \<Rightarrow> int \<Rightarrow> DirectoryEntry \<Rightarrow> DirectoryEntry" where
  "named name s e = e\<lparr>inUse := True, de_name := strncpy FileNameMaxLen name (de_name e), de_sector := s\<rparr>"

lemma add_loop_ok:
  "(\<forall>e \<in> set t. inUse e) \<and> add_loop name s t = (False, t)
   \<or> (\<exists>t1 e t2. t = t1 @ e # t2 \<and> \<not> inUse e \<and> (\<forall>e \<in> set t1. inUse e) \<and> add_loop name s t = (True, t1 @ named name s e # t2))"
proof (induction t)
  case (Cons e t)
  show ?case
  proof (cases "inUse e")
    case True
    from Cons.IH show ?thesis
    proof (elim disjE exE conjE)
      fix t1 e' t2
      assume "t = t1 @ e' # t2" "\<not> inUse e'" "\<forall>e \<in> set t1. inUse e" "add_loop name s t = (True, t1 @ named name s e' # t2)"
      with True show ?thesis by (intro disjI2 exI [of _ "e # t1"] exI [of _ e'] exI [of _ t2]) simp
    qed (use True in simp)
  next
    case False
    then show ?thesis by (intro disjI2 exI [of _ "[]"] exI [of _ e] exI [of _ t]) (simp add: named_def)
  qed
qed simp

lemma Add_cases:
  obtains (taken) s where "dir_map t (key name) = Some s" "Directory_Add name n t = (False, t)"
  | (full) "dir_map t (key name) = None" "live_entries t = t" "Directory_Add name n t = (False, t)"
  | (added) t1 e t2 where "dir_map t (key name) = None" "t = t1 @ e # t2" "\<not> inUse e"
      "Directory_Add name n t = (True, t1 @ named name n e # t2)"
proof (rule FindIndex_cases [of t name])
  assume none: "dir_map t (key name) = None" "FindIndex name t = -1"
  then have "Directory_Add name n t = add_loop name n t" by (simp add: Directory_Add_def)
  with none add_loop_ok [of t name n] full added show thesis by (auto simp: live_entries_def)
qed (use taken in \<open>simp add: Directory_Add_def\<close>)

lemma Remove_cases:
  obtains (absent) "dir_map t (key name) = None" "Directory_Remove name t = (False, t)"
  | (removed) t1 e t2 where "t = t1 @ e # t2" "inUse e" "entry_key e = key name" "dir_map t (key name) = Some (de_sector e)"
      "Directory_Remove name t = (True, t1 @ e\<lparr>inUse := False\<rparr> # t2)"
proof (rule FindIndex_cases [of t name])
  fix t1 e t2
  assume h: "t = t1 @ e # t2" "inUse e" "entry_key e = key name" "FindIndex name t = int (length t1)"
    "dir_map t (key name) = Some (de_sector e)"
  then have "Directory_Remove name t = (True, t1 @ e\<lparr>inUse := False\<rparr> # t2)" by (simp add: Directory_Remove_def Let_def nth_append)
  with h removed show thesis by blast
qed (use absent in \<open>simp add: Directory_Remove_def\<close>)

lemma entry_key_named: "entry_ok e \<Longrightarrow> entry_key (named name s e) = key name"
  by (simp add: entry_key_def named_def entry_ok_def strncpy_ok)

lemma dir_map_named:
  assumes "entry_ok e" "\<not> inUse e" "dir_map (t1 @ e # t2) (key name) = None"
  shows "dir_map (t1 @ named name s e # t2) = (dir_map (t1 @ e # t2))(key name \<mapsto> s)"
proof -
  have "dir_map t1 (key name) = None" using assms(2,3) by (auto simp: dir_map_append dir_map_Cons map_add_None)
  moreover have "inUse (named name s e)" "de_sector (named name s e) = s" by (simp_all add: named_def)
  ultimately show ?thesis using assms by (auto simp: dir_map_append dir_map_Cons entry_key_named fun_eq_iff map_add_def split: option.split)
qed

lemma dir_ok_named:
  assumes "dir_ok (t1 @ e # t2)" "\<not> inUse e" "dir_map (t1 @ e # t2) (key name) = None" "c_int s = s"
  shows "dir_ok (t1 @ named name s e # t2)"
proof -
  have "entry_ok e" using assms(1) by (simp add: dir_ok_def)
  moreover from this have "entry_ok (named name s e)" using assms(4) by (simp add: entry_ok_def named_def strncpy_ok)
  moreover have "inUse (named name s e)" by (simp add: named_def)
  ultimately show ?thesis using assms by (auto simp: dir_ok_def dir_map_None entry_key_named)
qed

lemma dir_map_removed:
  assumes "dir_ok (t1 @ e # t2)" "inUse e"
  shows "dir_map (t1 @ e\<lparr>inUse := False\<rparr> # t2) = (dir_map (t1 @ e # t2))(entry_key e := None)"
proof -
  have "entry_key e \<notin> entry_key ` set (live_entries t1)" "entry_key e \<notin> entry_key ` set (live_entries t2)"
    using assms by (simp_all add: dir_ok_def)
  then have "dir_map t1 (entry_key e) = None" "dir_map t2 (entry_key e) = None" by (simp_all add: dir_map_None image_iff) metis+
  with assms(2) show ?thesis by (auto simp: dir_map_append dir_map_Cons fun_eq_iff map_add_def split: option.split)
qed

lemma dir_ok_removed: "dir_ok (t1 @ e # t2) \<Longrightarrow> inUse e \<Longrightarrow> dir_ok (t1 @ e\<lparr>inUse := False\<rparr> # t2)"
  by (auto simp: dir_ok_def entry_ok_def)

section \<open>The table in its file\<close>

lemma length_entry_bytes: "entry_ok e \<Longrightarrow> length (dirent_bytes be e) = entry_size"
  by (simp add: dirent_bytes_def entry_ok_def entry_size_def)

lemma entry_roundtrip:
  assumes "entry_ok e"
  shows "dirent_at be (dirent_bytes be e) = e"
proof -
  have "length (de_pad e) = 5" using assms by (simp add: entry_ok_def)
  then obtain a b c d f where pad: "de_pad e = [a, b, c, d, f]" by (auto simp: length_Suc_conv eval_nat_numeral)
  have nth: "dirent_bytes be e ! (4 + k) = int_bytes be (de_sector e) ! k" if "k < 4" for k
    using that by (simp add: dirent_bytes_def pad nth_append)
  have "int_at be (dirent_bytes be e) 4 = de_sector e"
    using int_at_cong [of "dirent_bytes be e" 4, OF nth] assms by (simp add: int_at_bytes entry_ok_def)
  then show ?thesis
    using assms by (simp add: dirent_at_def) (simp add: dirent_bytes_def pad entry_ok_def)
qed

lemma length_table_bytes: "\<forall>e \<in> set t. entry_ok e \<Longrightarrow> length (table_bytes be t) = length t * entry_size"
  unfolding table_bytes_def by (subst length_concat_chunks [where n = entry_size]) (auto simp: length_entry_bytes)

lemma table_roundtrip:
  assumes "\<forall>e \<in> set t. entry_ok e"
  shows "table_at be (length t) (table_bytes be t) = t"
proof (rule nth_equalityI)
  fix i assume "i < length (table_at be (length t) (table_bytes be t))"
  then have i: "i < length t" by (simp add: table_at_def)
  have "take entry_size (drop (i * entry_size) (table_bytes be t)) = dirent_bytes be (t ! i)"
    unfolding table_bytes_def by (subst chunk_of_concat) (use i assms in \<open>auto simp: length_entry_bytes\<close>)
  with i assms show "table_at be (length t) (table_bytes be t) ! i = t ! i" by (simp add: table_at_def entry_roundtrip)
qed (simp add: table_at_def)

lemma table_at_append:
  assumes "length bs = n * entry_size"
  shows "table_at be n (bs @ zs) = table_at be n bs"
proof -
  have "take entry_size (drop (i * entry_size) (bs @ zs)) = take entry_size (drop (i * entry_size) bs)" if "i < n" for i
    using that assms mult_le_mono1 [of "Suc i" n entry_size] by simp
  then show ?thesis unfolding table_at_def by (intro map_cong refl) (simp only: set_upt atLeastLessThan_iff)
qed

lemma Directory_FetchFrom_ok:
  assumes "hdr_ok h" "idle sd" "fh_numBytes h = int (length t * entry_size)" "length t \<le> 1000"
  shows "\<exists>sd'. Directory_FetchFrom be h t sd = Inr (table_at be (length t) (file_bytes h (sector sd)), sd')
    \<and> idle sd' \<and> sector sd' = sector sd"
proof -
  have small: "length t * entry_size < 2 ^ 31" using assms(4) by (simp add: entry_size_def)
  with ReadAt_ok [OF assms(1,2), of 0 "length t * entry_size"] length_file_bytes [OF assms(1), of sd] obtain sd' where
    "File_ReadAt h (int (length t * entry_size)) 0 sd = Inr (file_bytes h (sector sd), sd')" "idle sd'" "sector sd' = sector sd" unfolding assms(3) nat_int by auto
  then show ?thesis
    using length_file_bytes [OF assms(1), of sd] unfolding assms(3) nat_int
    by (simp add: Directory_FetchFrom_def patch_def table_at_append del: of_nat_mult)
qed

lemma Directory_WriteBack_ok:
  assumes "hdr_ok h" "idle sd" "fh_numBytes h = int (length t * entry_size)" "length t \<le> 1000" "\<forall>e \<in> set t. entry_ok e"
  shows "\<exists>sd'. Directory_WriteBack be junk h t sd = Inr sd' \<and> idle sd'
    \<and> table_at be (length t) (file_bytes h (sector sd')) = t \<and> elsewhere h sd' = elsewhere h sd"
proof -
  have small: "nat (fh_numBytes h) < 2 ^ 31" using assms(3,4) by (simp add: entry_size_def nat_mult_distrib)
  have len: "length (table_bytes be t) = nat (fh_numBytes h)" using length_table_bytes [OF assms(5)] unfolding assms(3) nat_int by simp
  from nf.store [of h sd, OF _ small len] assms(1-3) obtain sd' where
    "File_WriteAt junk h (table_bytes be t) (int (length t * entry_size)) 0 sd = Inr (int (length t * entry_size), sd')" "idle sd'"
    "file_bytes h (sector sd') = table_bytes be t" "elsewhere h sd' = elsewhere h sd" by auto
  then show ?thesis using table_roundtrip [OF assms(5)] by (simp add: Directory_WriteBack_def)
qed

section \<open>Properties\<close>

lemma card_files:
  assumes "dir_ok t"
  shows "card (dom (dir_map t)) = length (live_entries t)"
proof -
  have "dom (dir_map t) = set (map entry_key (live_entries t))" by (auto simp: dir_map_def dom_map_of_conv_image_fst image_iff)
  then show ?thesis using assms distinct_card [of "map entry_key (live_entries t)"] by (simp add: dir_ok_def)
qed

lemma full_directory: "live_entries t = t \<longleftrightarrow> \<not> length (live_entries t) < length t"
  unfolding live_entries_def by (metis filter_id_conv length_filter_less length_filter_le linorder_not_less order_less_irrefl)

lemma unused_entry: "t = t1 @ e # t2 \<Longrightarrow> \<not> inUse e \<Longrightarrow> length (live_entries t) < length t"
  by (simp add: live_entries_def le_imp_less_Suc add_mono)

lemma Add_refines:
  assumes "dir_ok t" "c_int s = s"
  shows "case Directory_Add name s t of (r, t') \<Rightarrow> r = (key name \<notin> dom (dir_map t) \<and> card (dom (dir_map t)) < length t)
    \<and> dir_ok t' \<and> length t' = length t \<and> dir_map t' = (if r then (dir_map t)(key name \<mapsto> s) else dir_map t)"
proof (rule Add_cases [of t name s])
  fix t1 e t2
  assume t: "dir_map t (key name) = None" "t = t1 @ e # t2" "\<not> inUse e" "Directory_Add name s t = (True, t1 @ named name s e # t2)"
  then have "entry_ok e" using assms(1) by (simp add: dir_ok_def)
  moreover have "card (dom (dir_map t)) < length t" using unused_entry [OF t(2,3)] card_files [OF assms(1)] by simp
  ultimately show ?thesis
    using t assms dir_map_named [of e t1 t2 name s] dir_ok_named [of t1 e t2 name s] by (simp add: domIff)
qed (use assms full_directory [of t] in \<open>auto simp: card_files [OF assms(1)]\<close>)

lemma Remove_refines:
  assumes "dir_ok t"
  shows "case Directory_Remove name t of (r, t') \<Rightarrow> r = (key name \<in> dom (dir_map t))
    \<and> dir_ok t' \<and> length t' = length t \<and> dir_map t' = (dir_map t)(key name := None)"
proof (rule Remove_cases [of t name])
  fix t1 e t2
  assume t: "t = t1 @ e # t2" "inUse e" "entry_key e = key name" "dir_map t (key name) = Some (de_sector e)"
    "Directory_Remove name t = (True, t1 @ e\<lparr>inUse := False\<rparr> # t2)"
  with assms show ?thesis using dir_map_removed [of t1 e t2] dir_ok_removed [of t1 e t2] by (simp add: domIff)
qed (use assms in \<open>simp add: domIff fun_upd_idem\<close>)

text \<open>
  C4. The directory is a map from names, cut to nine characters, to header sectors: \<open>Find\<close> looks a name up and
  returns -1 when it is not there; \<open>Add\<close> succeeds exactly when the name is new and an entry is free, and adds
  this name alone; \<open>Remove\<close> succeeds exactly when the name is there, and deletes it alone; the names in use stay
  distinct; the bytes written to the directory's file give the same table back.
\<close>

theorem directory_refines_map:
  assumes "dir_ok t" "c_int s = s"
  shows "Directory_Find name t = (case dir_map t (key name) of None \<Rightarrow> -1 | Some x \<Rightarrow> x)
    \<and> (case Directory_Add name s t of (r, t') \<Rightarrow> r = (key name \<notin> dom (dir_map t) \<and> card (dom (dir_map t)) < length t)
        \<and> dir_ok t' \<and> length t' = length t \<and> dir_map t' = (if r then (dir_map t)(key name \<mapsto> s) else dir_map t))
    \<and> (case Directory_Remove name t of (r, t') \<Rightarrow> r = (key name \<in> dom (dir_map t))
        \<and> dir_ok t' \<and> length t' = length t \<and> dir_map t' = (dir_map t)(key name := None))
    \<and> table_at bigEndian (length t) (table_bytes bigEndian t) = t"
proof -
  have "\<forall>e \<in> set t. entry_ok e" using assms(1) by (simp add: dir_ok_def)
  then show ?thesis
    by (intro conjI Find_dir_map Add_refines [OF assms] Remove_refines [OF assms(1)] table_roundtrip)
qed

definition two_entries :: "DirectoryEntry list" where
  "two_entries = [\<lparr>inUse = False, de_sector = 0, de_name = replicate 10 7, de_pad = replicate 5 7\<rparr>,
     \<lparr>inUse = True, de_sector = 4, de_name = [97, 98, 0, 0, 0, 0, 0, 0, 0, 0], de_pad = replicate 5 7\<rparr>]"

lemma two_entries_ok: "dir_ok two_entries" "c_int 9 = 9"
  by (simp_all add: two_entries_def dir_ok_def entry_ok_def c_int_def)

theorem directory_refines_map_witness:
  "Directory_Find [97, 98] two_entries = 4 \<and> fst (Directory_Add [99] 9 two_entries)
     \<and> dir_map (snd (Directory_Add [99] 9 two_entries)) = [[97, 98] \<mapsto> 4, [99] \<mapsto> 9] \<and> \<not> fst (Directory_Remove [99] two_entries)"
proof -
  have m: "dir_map two_entries = [[97, 98] \<mapsto> 4]" "key [97, 98] = [97, 98]" "key [99] = [99]"
    by (simp_all add: dir_map_def two_entries_def entry_key_def key_def FileNameMaxLen_9)
  show ?thesis
    using directory_refines_map [OF two_entries_ok, of "[97, 98]" True] directory_refines_map [OF two_entries_ok, of "[99]" True]
    by (simp add: m case_prod_beta) (simp add: two_entries_def)
qed

end
