(* ===== verification/Host_Words.thy ===== *)
theory Host_Words
  imports Buffers Machine
begin

text \<open>
  Arrays of 32-bit words as the host keeps them in memory, in either byte order: the words of a bit map, the
  fields of the headers of packets and mail. Storing an array as bytes and reading it back gives the same words.
\<close>

definition words_bytes :: "bool \<Rightarrow> 32 word list \<Rightarrow> bytes" where
  "words_bytes bigEndian ws = concat (map (\<lambda>w. read_bytes 4 0 (host_store32 bigEndian 0 w (\<lambda>_. 0))) ws)"

definition words_at :: "bool \<Rightarrow> nat \<Rightarrow> bytes \<Rightarrow> 32 word list" where
  "words_at bigEndian n bs = map (\<lambda>i. host_load32 bigEndian (\<lambda>k. bs ! k) (i * 4)) [0..<n]"

definition word_bytes :: "bool \<Rightarrow> 32 word \<Rightarrow> bytes" where
  "word_bytes be w = read_bytes 4 0 (host_store32 be 0 w (\<lambda>_. 0))"

lemma length_word_bytes [simp]: "length (word_bytes be w) = 4"
  by (simp add: word_bytes_def)

lemma words_bytes_alt: "words_bytes be ws = concat (map (word_bytes be) ws)"
  by (simp add: words_bytes_def word_bytes_def [abs_def])

lemma length_words_bytes: "length (words_bytes be ws) = length ws * 4"
  unfolding words_bytes_alt by (subst length_concat_chunks [where n = 4]) auto

lemma host_load32_shift:
  assumes "\<And>k. k < 4 \<Longrightarrow> f (a + k) = g k"
  shows "host_load32 be f a = host_load32 be g 0"
  using assms [of 0] assms [of 1] assms [of 2] assms [of 3] by (simp add: host_load32_def numeral_2_eq_2)

lemma load_word_bytes: "host_load32 be (\<lambda>k. word_bytes be w ! k) 0 = w"
  using word_of_bytes_byte_of [of w] by (simp add: word_bytes_def host_load32_def host_store32_def)

lemma words_roundtrip: "words_at be (length ws) (words_bytes be ws @ zs) = ws"
proof (rule nth_equalityI)
  fix i assume "i < length (words_at be (length ws) (words_bytes be ws @ zs))"
  then have i: "i < length ws" by (simp add: words_at_def)
  have "(words_bytes be ws @ zs) ! (i * 4 + k) = word_bytes be (ws ! i) ! k" if "k < 4" for k
  proof -
    have "i * 4 + k < length (words_bytes be ws)" using i that by (simp add: length_words_bytes)
    moreover have "concat (map (word_bytes be) ws) ! (i * 4 + k) = word_bytes be (ws ! i) ! k"
      using nth_concat_chunks [of "map (word_bytes be) ws" 4 i k] i that by fastforce
    ultimately show ?thesis by (simp add: nth_append words_bytes_alt)
  qed
  from host_load32_shift [of "\<lambda>k. (words_bytes be ws @ zs) ! k" "i * 4", OF this] i
  show "words_at be (length ws) (words_bytes be ws @ zs) ! i = ws ! i" by (simp add: words_at_def load_word_bytes)
qed (simp add: words_at_def)

lemma words_at_append:
  assumes "length bs = n * 4"
  shows "words_at be n (bs @ zs) = words_at be n bs"
proof -
  have "host_load32 be (\<lambda>k. (bs @ zs) ! k) (i * 4) = host_load32 be (\<lambda>k. bs ! k) (i * 4)" if "i < n" for i
    using that assms by (simp add: host_load32_def nth_append)
  then show ?thesis unfolding words_at_def by (intro map_cong refl) (simp only: set_upt atLeastLessThan_iff)
qed

end
