(* ===== verification/File_System.thy ===== *)
theory File_System
  imports Directory Host_Words
begin

text \<open>
  The Nachos file system (\<open>filesys/filesys.cc\<close> without \<open>FILESYS_STUB\<close>): the bit map of free sectors and the
  directory are kept in two files, whose headers lie in sectors 0 and 1; every operation reads them from the disk,
  changes them in memory and writes them back when it succeeds. \<open>bigEndian\<close> is the byte order of the host. What
  freshly allocated memory holds is the parameter \<open>junk\<close>.

  \<open>fs_inv\<close> says when the disk holds a file system: no two headers or data blocks share a sector, and the
  bit map marks exactly the sectors in use. \<open>fs_files\<close> is what it stores, a map from names to bytes.
\<close>

section \<open>The bit map in its file\<close>

definition BitMap_FetchFrom :: "bool \<Rightarrow> FileHeader \<Rightarrow> BitMap \<Rightarrow> SynchDisk \<Rightarrow> (BitMap \<times> SynchDisk) result" where
  "BitMap_FetchFrom bigEndian h b sd = rbind (File_ReadAt h (int (numWords b * 4)) 0 sd) (\<lambda>(bs, sd).
     Inr (b\<lparr>bm_map := words_at bigEndian (numWords b) (patch 0 bs (words_bytes bigEndian (bm_map b)))\<rparr>, sd))"

definition BitMap_WriteBack :: "bool \<Rightarrow> (nat \<Rightarrow> 8 word) \<Rightarrow> FileHeader \<Rightarrow> BitMap \<Rightarrow> SynchDisk \<Rightarrow> SynchDisk result" where
  "BitMap_WriteBack bigEndian junk h b sd =
     rbind (File_WriteAt junk h (words_bytes bigEndian (bm_map b)) (int (numWords b * 4)) 0 sd) (\<lambda>(_, sd). Inr sd)"

section \<open>The code\<close>

definition FreeMapSector :: int where "FreeMapSector = 0"
definition DirectorySector :: int where "DirectorySector = 1"
definition FreeMapFileSize :: int where "FreeMapFileSize = NumSectors div 8"
definition NumDirEntries :: nat where "NumDirEntries = 10"
definition DirectoryFileSize :: int where "DirectoryFileSize = int (entry_size * NumDirEntries)"

record FileSystem =
  freeMapFile :: NachosFile
  directoryFile :: NachosFile

record junk =
  j_chars :: "nat \<Rightarrow> 8 word"
  j_words :: "nat \<Rightarrow> 32 word"
  j_entries :: "nat \<Rightarrow> DirectoryEntry"
  j_header :: FileHeader

definition open_files :: "bool \<Rightarrow> SynchDisk \<Rightarrow> (FileSystem \<times> SynchDisk) result" where
  "open_files bigEndian sd =
     rbind (File_new bigEndian FreeMapSector sd) (\<lambda>(fm, sd).
     rbind (File_new bigEndian DirectorySector sd) (\<lambda>(df, sd).
     Inr (\<lparr>freeMapFile = fm, directoryFile = df\<rparr>, sd)))"

definition FileSystem_new :: "bool \<Rightarrow> junk \<Rightarrow> bool \<Rightarrow> SynchDisk \<Rightarrow> (FileSystem \<times> SynchDisk) result" where
  "FileSystem_new bigEndian j format sd =
     (if format
      then rbind (BitMap_new (j_words j) (nat NumSectors)) (\<lambda>freeMap.
           let directory = Directory_new (j_entries j) NumDirEntries in
           rbind (BitMap_Mark FreeMapSector freeMap) (\<lambda>freeMap.
           rbind (BitMap_Mark DirectorySector freeMap) (\<lambda>freeMap.
           rbind (Allocate FreeMapFileSize freeMap (j_header j)) (\<lambda>(ok, freeMap, mapHdr).
           rbind (ASSERT ok) (\<lambda>_.
           rbind (Allocate DirectoryFileSize freeMap (j_header j)) (\<lambda>(ok, freeMap, dirHdr).
           rbind (ASSERT ok) (\<lambda>_.
           rbind (Header_WriteBack bigEndian FreeMapSector mapHdr sd) (\<lambda>sd.
           rbind (Header_WriteBack bigEndian DirectorySector dirHdr sd) (\<lambda>sd.
           rbind (open_files bigEndian sd) (\<lambda>(fs, sd).
           rbind (BitMap_WriteBack bigEndian (j_chars j) (of_hdr (freeMapFile fs)) freeMap sd) (\<lambda>sd.
           rbind (Directory_WriteBack bigEndian (j_chars j) (of_hdr (directoryFile fs)) directory sd) (\<lambda>sd.
           Inr (fs, sd)))))))))))))
      else open_files bigEndian sd)"

definition fetch_directory :: "bool \<Rightarrow> junk \<Rightarrow> FileSystem \<Rightarrow> SynchDisk \<Rightarrow> (DirectoryEntry list \<times> SynchDisk) result" where
  "fetch_directory bigEndian j fs sd =
     Directory_FetchFrom bigEndian (of_hdr (directoryFile fs)) (Directory_new (j_entries j) NumDirEntries) sd"

definition fetch_free_map :: "bool \<Rightarrow> junk \<Rightarrow> FileSystem \<Rightarrow> SynchDisk \<Rightarrow> (BitMap \<times> SynchDisk) result" where
  "fetch_free_map bigEndian j fs sd =
     rbind (BitMap_new (j_words j) (nat NumSectors)) (\<lambda>freeMap. BitMap_FetchFrom bigEndian (of_hdr (freeMapFile fs)) freeMap sd)"

definition FS_Create :: "bool \<Rightarrow> junk \<Rightarrow> FileSystem \<Rightarrow> bytes \<Rightarrow> int \<Rightarrow> SynchDisk \<Rightarrow> (bool \<times> SynchDisk) result" where
  "FS_Create bigEndian j fs name initialSize sd =
     rbind (fetch_directory bigEndian j fs sd) (\<lambda>(directory, sd).
     if Directory_Find name directory \<noteq> -1 then Inr (False, sd)
     else rbind (fetch_free_map bigEndian j fs sd) (\<lambda>(freeMap, sd).
          rbind (BitMap_Find freeMap) (\<lambda>(s, freeMap).
          if s = -1 then Inr (False, sd)
          else let (added, directory) = Directory_Add name s directory in
          if \<not> added then Inr (False, sd)
          else rbind (Allocate initialSize freeMap (j_header j)) (\<lambda>(ok, freeMap, hdr).
          if \<not> ok then Inr (False, sd)
          else rbind (Header_WriteBack bigEndian s hdr sd) (\<lambda>sd.
               rbind (Directory_WriteBack bigEndian (j_chars j) (of_hdr (directoryFile fs)) directory sd) (\<lambda>sd.
               rbind (BitMap_WriteBack bigEndian (j_chars j) (of_hdr (freeMapFile fs)) freeMap sd) (\<lambda>sd.
               Inr (True, sd))))))))"

definition FS_Open :: "bool \<Rightarrow> junk \<Rightarrow> FileSystem \<Rightarrow> bytes \<Rightarrow> SynchDisk \<Rightarrow> (NachosFile option \<times> SynchDisk) result" where
  "FS_Open bigEndian j fs name sd =
     rbind (fetch_directory bigEndian j fs sd) (\<lambda>(directory, sd).
     let s = Directory_Find name directory in
     if s \<ge> 0 then rbind (File_new bigEndian s sd) (\<lambda>(f, sd). Inr (Some f, sd)) else Inr (None, sd))"

definition FS_Remove :: "bool \<Rightarrow> junk \<Rightarrow> FileSystem \<Rightarrow> bytes \<Rightarrow> SynchDisk \<Rightarrow> (bool \<times> SynchDisk) result" where
  "FS_Remove bigEndian j fs name sd =
     rbind (fetch_directory bigEndian j fs sd) (\<lambda>(directory, sd).
     let s = Directory_Find name directory in
     if s = -1 then Inr (False, sd)
     else rbind (Header_FetchFrom bigEndian s sd) (\<lambda>(fileHdr, sd).
          rbind (fetch_free_map bigEndian j fs sd) (\<lambda>(freeMap, sd).
          rbind (Deallocate fileHdr freeMap) (\<lambda>freeMap.
          rbind (BitMap_Clear s freeMap) (\<lambda>freeMap.
          let directory = snd (Directory_Remove name directory) in
          rbind (BitMap_WriteBack bigEndian (j_chars j) (of_hdr (freeMapFile fs)) freeMap sd) (\<lambda>sd.
          rbind (Directory_WriteBack bigEndian (j_chars j) (of_hdr (directoryFile fs)) directory sd) (\<lambda>sd.
          Inr (True, sd))))))))"

definition FS_List :: "bool \<Rightarrow> junk \<Rightarrow> FileSystem \<Rightarrow> SynchDisk \<Rightarrow> (bytes list \<times> SynchDisk) result" where
  "FS_List bigEndian j fs sd = rbind (fetch_directory bigEndian j fs sd) (\<lambda>(directory, sd).
     rbind (Directory_List directory) (\<lambda>names. Inr (names, sd)))"

text \<open>What \<open>Print\<close> writes out: of a header its length, its sectors and, sector by sector, the bytes of the file, a
  printable one as a character and any other in hexadecimal.\<close>

datatype printed = Character "8 word" | Hexadecimal "8 word"

definition print_char :: "8 word \<Rightarrow> printed" where
  "print_char c = (if 0x20 \<le> c \<and> c \<le> 0x7e then Character c else Hexadecimal c)"

type_synonym header_text = "int \<times> int list \<times> printed list list"

definition print_block :: "FileHeader \<Rightarrow> nat \<Rightarrow> printed list list \<times> nat \<times> SynchDisk \<Rightarrow> (printed list list \<times> nat \<times> SynchDisk) result" where
  "print_block h i = (\<lambda>(out, k, sd).
     if i \<ge> length (dataSectors h) then Inl Undefined
     else rbind (ReadSector (dataSectors h ! i) sd) (\<lambda>(data, sd).
          let n = min SectorSize (nat (fh_numBytes h) - k)
          in Inr (out @ [map print_char (take n data)], k + n, sd)))"

definition Header_Print :: "FileHeader \<Rightarrow> SynchDisk \<Rightarrow> (header_text \<times> SynchDisk) result" where
  "Header_Print h sd = rbind (for_each (print_block h) [0..<nat (fh_numSectors h)] ([], 0, sd)) (\<lambda>(out, _, sd).
     Inr ((fh_numBytes h, take (nat (fh_numSectors h)) (dataSectors h), out), sd))"

definition print_entry :: "bool \<Rightarrow> DirectoryEntry \<Rightarrow> (bytes \<times> int \<times> header_text) list \<times> SynchDisk
    \<Rightarrow> ((bytes \<times> int \<times> header_text) list \<times> SynchDisk) result" where
  "print_entry bigEndian e = (\<lambda>(out, sd).
     if inUse e
     then rbind (printed_name e) (\<lambda>name.
          rbind (Header_FetchFrom bigEndian (de_sector e) sd) (\<lambda>(h, sd).
          rbind (Header_Print h sd) (\<lambda>(txt, sd). Inr (out @ [(name, de_sector e, txt)], sd))))
     else Inr (out, sd))"

definition Directory_Print ::
  "bool \<Rightarrow> DirectoryEntry list \<Rightarrow> SynchDisk \<Rightarrow> ((bytes \<times> int \<times> header_text) list \<times> SynchDisk) result" where
  "Directory_Print bigEndian table sd = for_each (print_entry bigEndian) table ([], sd)"

definition FS_Print :: "bool \<Rightarrow> junk \<Rightarrow> FileSystem \<Rightarrow> SynchDisk
    \<Rightarrow> ((header_text \<times> header_text \<times> nat list \<times> (bytes \<times> int \<times> header_text) list) \<times> SynchDisk) result" where
  "FS_Print bigEndian j fs sd =
     rbind (Header_FetchFrom bigEndian FreeMapSector sd) (\<lambda>(bitHdr, sd).
     rbind (Header_Print bitHdr sd) (\<lambda>(t1, sd).
     rbind (Header_FetchFrom bigEndian DirectorySector sd) (\<lambda>(dirHdr, sd).
     rbind (Header_Print dirHdr sd) (\<lambda>(t2, sd).
     rbind (fetch_free_map bigEndian j fs sd) (\<lambda>(freeMap, sd).
     rbind (BitMap_Print freeMap) (\<lambda>bits.
     rbind (fetch_directory bigEndian j fs sd) (\<lambda>(directory, sd).
     rbind (Directory_Print bigEndian directory sd) (\<lambda>(t3, sd).
     Inr ((t1, t2, bits, t3), sd)))))))))"

end
