(* ===== verification/File_System_Props.thy ===== *)
theory File_System_Props
  imports File_System
begin

text \<open>
  The file system keeps its invariant and implements a map from names to files. The lemmas go from the bottom up:
  the bit map and the directory survive the trip to their files; writing both back changes no other sector; every
  operation is then a change of the directory, the bit map and the sectors of one file.
\<close>

section \<open>The bit map in its file\<close>

text \<open>The bit map that is stored in a file of the right length.\<close>

definition stored_map :: "bool \<Rightarrow> FileHeader \<Rightarrow> SynchDisk \<Rightarrow> BitMap" where
  "stored_map be h sd = \<lparr>numBits = 1024, numWords = 32, bm_map = words_at be 32 (file_bytes h (sector sd))\<rparr>"

lemma stored_map_sel [simp]: "bitmap_inv (stored_map be h sd)" "numBits (stored_map be h sd) = 1024"
  by (simp_all add: stored_map_def bitmap_inv_def divRoundUp_def BitsInWord_def words_at_def)

lemma numWords_1024: "bitmap_inv b \<Longrightarrow> numBits b = 1024 \<Longrightarrow> numWords b = 32 \<and> length (bm_map b) = 32"
  by (simp add: bitmap_inv_def divRoundUp_def BitsInWord_def)

lemma BitMap_FetchFrom_ok:
  assumes "hdr_ok h" "idle sd" "fh_numBytes h = 128" "bitmap_inv b" "numBits b = 1024"
  shows "\<exists>sd'. BitMap_FetchFrom be h b sd = Inr (stored_map be h sd, sd') \<and> idle sd' \<and> sector sd' = sector sd"
proof -
  from nf.load [of h sd] assms obtain sd' where
    "File_ReadAt h 128 0 sd = Inr (file_bytes h (sector sd), sd')" "idle sd'" "sector sd' = sector sd"
    using ReadAt_ok [OF assms(1,2), of 0 128] length_file_bytes [OF assms(1), of sd] by auto
  moreover have "length (file_bytes h (sector sd)) = 32 * 4" using length_file_bytes [OF assms(1), of sd] assms(3) by simp
  moreover note numWords_1024 [OF assms(4,5)]
  ultimately show ?thesis using assms(5) by (simp add: BitMap_FetchFrom_def patch_def words_at_append stored_map_def)
qed

lemma BitMap_WriteBack_ok:
  assumes "hdr_ok h" "idle sd" "fh_numBytes h = 128" "bitmap_inv b" "numBits b = 1024"
  shows "\<exists>sd'. BitMap_WriteBack be junk h b sd = Inr sd' \<and> idle sd' \<and> stored_map be h sd' = b \<and> elsewhere h sd' = elsewhere h sd"
proof -
  note w = numWords_1024 [OF assms(4,5)]
  have "length (words_bytes be (bm_map b)) = nat (fh_numBytes h)" using w assms(3) by (simp add: length_words_bytes)
  with nf.store [of h sd "words_bytes be (bm_map b)" junk] assms obtain sd' where
    "File_WriteAt junk h (words_bytes be (bm_map b)) 128 0 sd = Inr (128, sd')" "idle sd'"
    "file_bytes h (sector sd') = words_bytes be (bm_map b)" "elsewhere h sd' = elsewhere h sd" by auto
  with w words_roundtrip [of be "bm_map b" "[]"] assms(5) show ?thesis by (simp add: BitMap_WriteBack_def stored_map_def)
qed

section \<open>The invariant\<close>

abbreviation map_hdr :: "FileSystem \<Rightarrow> FileHeader" where "map_hdr fs \<equiv> of_hdr (freeMapFile fs)"
abbreviation dir_hdr :: "FileSystem \<Rightarrow> FileHeader" where "dir_hdr fs \<equiv> of_hdr (directoryFile fs)"

definition fs_dir :: "bool \<Rightarrow> FileSystem \<Rightarrow> SynchDisk \<Rightarrow> DirectoryEntry list" where
  "fs_dir be fs sd = table_at be NumDirEntries (file_bytes (dir_hdr fs) (sector sd))"

abbreviation fs_map :: "bool \<Rightarrow> FileSystem \<Rightarrow> SynchDisk \<Rightarrow> BitMap" where
  "fs_map be fs sd \<equiv> stored_map be (map_hdr fs) sd"

text \<open>The sectors the system itself uses, and the sectors of a file: its header and its data.\<close>

definition system_sectors :: "FileSystem \<Rightarrow> nat list" where
  "system_sectors fs = [0, 1] @ sectors_of (map_hdr fs) @ sectors_of (dir_hdr fs)"

definition hdr_in :: "bool \<Rightarrow> (nat \<Rightarrow> bytes) \<Rightarrow> int \<Rightarrow> FileHeader" where
  "hdr_in be sec s = hdr_at be (sec (nat s))"

definition owned :: "bool \<Rightarrow> (nat \<Rightarrow> bytes) \<Rightarrow> int \<Rightarrow> nat list" where
  "owned be sec s = nat s # sectors_of (hdr_in be sec s)"

definition claims :: "bool \<Rightarrow> (nat \<Rightarrow> bytes) \<Rightarrow> DirectoryEntry list \<Rightarrow> nat list" where
  "claims be sec t = concat (map (\<lambda>e. owned be sec (de_sector e)) (live_entries t))"

definition fs_sys :: "bool \<Rightarrow> FileSystem \<Rightarrow> SynchDisk \<Rightarrow> bool" where
  "fs_sys be fs sd \<longleftrightarrow> idle sd \<and> hdr_ok (map_hdr fs) \<and> hdr_ok (dir_hdr fs) \<and> fh_numBytes (map_hdr fs) = 128 \<and> fh_numBytes (dir_hdr fs) = 200
     \<and> seekPosition (freeMapFile fs) = 0 \<and> seekPosition (directoryFile fs) = 0
     \<and> hdr_at be (sector sd 0) = map_hdr fs \<and> hdr_at be (sector sd 1) = dir_hdr fs \<and> distinct (system_sectors fs)"

definition header_ok :: "bool \<Rightarrow> (nat \<Rightarrow> bytes) \<Rightarrow> int \<Rightarrow> bool" where
  "header_ok be sec s \<longleftrightarrow> 0 \<le> s \<and> s < NumSectors \<and> hdr_ok (hdr_in be sec s)"

definition fs_inv :: "bool \<Rightarrow> FileSystem \<Rightarrow> SynchDisk \<Rightarrow> bool" where
  "fs_inv be fs sd \<longleftrightarrow> fs_sys be fs sd \<and> dir_ok (fs_dir be fs sd)
     \<and> (\<forall>e \<in> set (live_entries (fs_dir be fs sd)). header_ok be (sector sd) (de_sector e))
     \<and> distinct (system_sectors fs @ claims be (sector sd) (fs_dir be fs sd))
     \<and> marked (fs_map be fs sd) = set (system_sectors fs @ claims be (sector sd) (fs_dir be fs sd))"

definition files_of :: "bool \<Rightarrow> (nat \<Rightarrow> bytes) \<Rightarrow> DirectoryEntry list \<Rightarrow> bytes \<rightharpoonup> bytes" where
  "files_of be sec t k = map_option (\<lambda>s. file_bytes (hdr_in be sec s) sec) (dir_map t k)"

definition fs_files :: "bool \<Rightarrow> FileSystem \<Rightarrow> SynchDisk \<Rightarrow> bytes \<rightharpoonup> bytes" where
  "fs_files be fs sd = files_of be (sector sd) (fs_dir be fs sd)"

text \<open>The headers on the disk, by name.\<close>

definition headers_of :: "bool \<Rightarrow> (nat \<Rightarrow> bytes) \<Rightarrow> DirectoryEntry list \<Rightarrow> bytes \<rightharpoonup> FileHeader" where
  "headers_of be sec t k = map_option (hdr_in be sec) (dir_map t k)"

definition fs_headers :: "bool \<Rightarrow> FileSystem \<Rightarrow> SynchDisk \<Rightarrow> bytes \<rightharpoonup> FileHeader" where
  "fs_headers be fs sd = headers_of be (sector sd) (fs_dir be fs sd)"

definition junk_ok :: "junk \<Rightarrow> bool" where
  "junk_ok j \<longleftrightarrow> c_ints (j_header j) \<and> (\<forall>i. entry_ok (j_entries j i))"

lemma length_fs_dir [simp]: "length (fs_dir be fs sd) = NumDirEntries"
  by (simp add: fs_dir_def table_at_def)

lemma sizes: "DirectoryFileSize = 200" "FreeMapFileSize = 128" "NumDirEntries * entry_size = 200" "nat NumSectors = 1024"
  by (simp_all add: DirectoryFileSize_def FreeMapFileSize_def NumDirEntries_def entry_size_def NumSectors_1024)

lemma file_bytes_cong: "(\<And>s. s \<in> set (sectors_of h) \<Longrightarrow> sec s = sec' s) \<Longrightarrow> file_bytes h sec = file_bytes h sec'"
  unfolding file_bytes_def blocks_def by (metis map_cong)

lemma fetch_directory_ok:
  assumes "fs_sys be fs sd"
  shows "\<exists>sd'. fetch_directory be j fs sd = Inr (fs_dir be fs sd, sd') \<and> idle sd' \<and> sector sd' = sector sd"
  using Directory_FetchFrom_ok [of "dir_hdr fs" sd "Directory_new (j_entries j) NumDirEntries" be] assms sizes(3)
  by (auto simp: fs_sys_def fetch_directory_def fs_dir_def Directory_new_def NumDirEntries_def entry_size_def)

lemma fetch_free_map_ok:
  assumes "fs_sys be fs sd"
  shows "\<exists>sd'. fetch_free_map be j fs sd = Inr (fs_map be fs sd, sd') \<and> idle sd' \<and> sector sd' = sector sd"
proof -
  from BitMap_new_ok [of "j_words j" 1024] obtain b where b: "BitMap_new (j_words j) 1024 = Inr b" "bitmap_inv b" "numBits b = 1024" by blast
  with BitMap_FetchFrom_ok [of "map_hdr fs" sd b be] assms show ?thesis by (simp add: fs_sys_def fetch_free_map_def sizes)
qed

text \<open>What happens outside the two files leaves the system alone.\<close>

lemma fs_sys_keep:
  assumes "fs_sys be fs sd" "idle sd'" "\<And>s. s \<in> {0, 1} \<Longrightarrow> sector sd' s = sector sd s"
  shows "fs_sys be fs sd'"
  using assms by (simp add: fs_sys_def)

lemma fs_dir_cong: "(\<And>s. s \<in> set (sectors_of (dir_hdr fs)) \<Longrightarrow> sector sd' s = sector sd s) \<Longrightarrow> fs_dir be fs sd' = fs_dir be fs sd"
  unfolding fs_dir_def by (metis file_bytes_cong)

lemma fs_map_cong: "(\<And>s. s \<in> set (sectors_of (map_hdr fs)) \<Longrightarrow> sector sd' s = sector sd s) \<Longrightarrow> fs_map be fs sd' = fs_map be fs sd"
  unfolding stored_map_def by (metis file_bytes_cong)

definition outside :: "FileSystem \<Rightarrow> SynchDisk \<Rightarrow> SynchDisk \<Rightarrow> bool" where
  "outside fs sd sd' \<longleftrightarrow> (\<forall>s. s \<notin> set (sectors_of (map_hdr fs)) \<union> set (sectors_of (dir_hdr fs)) \<longrightarrow> sector sd' s = sector sd s)"

lemma write_map:
  assumes "fs_sys be fs sd" "bitmap_inv b" "numBits b = 1024"
  shows "\<exists>sd'. BitMap_WriteBack be junk (map_hdr fs) b sd = Inr sd' \<and> fs_sys be fs sd' \<and> fs_map be fs sd' = b
    \<and> fs_dir be fs sd' = fs_dir be fs sd \<and> outside fs sd sd'"
proof -
  from BitMap_WriteBack_ok [of "map_hdr fs" sd b be junk] assms obtain sd' where
    sd': "BitMap_WriteBack be junk (map_hdr fs) b sd = Inr sd'" "idle sd'" "fs_map be fs sd' = b"
    "\<And>s. s \<notin> set (sectors_of (map_hdr fs)) \<Longrightarrow> sector sd' s = sector sd s" by (auto simp: fs_sys_def elsewhere_eq)
  have "0 \<notin> set (sectors_of (map_hdr fs))" "1 \<notin> set (sectors_of (map_hdr fs))"
    "set (sectors_of (map_hdr fs)) \<inter> set (sectors_of (dir_hdr fs)) = {}"
    using assms(1) by (auto simp: fs_sys_def system_sectors_def)
  moreover from this have "fs_sys be fs sd'" by (intro fs_sys_keep [OF assms(1) sd'(2)] sd'(4)) auto
  ultimately show ?thesis using sd' fs_dir_cong [of fs sd' sd be] by (auto simp: outside_def)
qed

lemma write_directory:
  assumes "fs_sys be fs sd" "length t = NumDirEntries" "\<forall>e \<in> set t. entry_ok e"
  shows "\<exists>sd'. Directory_WriteBack be junk (dir_hdr fs) t sd = Inr sd' \<and> fs_sys be fs sd' \<and> fs_dir be fs sd' = t
    \<and> fs_map be fs sd' = fs_map be fs sd \<and> outside fs sd sd'"
proof -
  from Directory_WriteBack_ok [of "dir_hdr fs" sd t be junk] assms obtain sd' where
    sd': "Directory_WriteBack be junk (dir_hdr fs) t sd = Inr sd'" "idle sd'" "fs_dir be fs sd' = t"
    "\<And>s. s \<notin> set (sectors_of (dir_hdr fs)) \<Longrightarrow> sector sd' s = sector sd s"
    by (auto simp: fs_sys_def elsewhere_eq fs_dir_def NumDirEntries_def entry_size_def)
  have "0 \<notin> set (sectors_of (dir_hdr fs))" "1 \<notin> set (sectors_of (dir_hdr fs))"
    "set (sectors_of (map_hdr fs)) \<inter> set (sectors_of (dir_hdr fs)) = {}"
    using assms(1) by (auto simp: fs_sys_def system_sectors_def)
  moreover from this have "fs_sys be fs sd'" by (intro fs_sys_keep [OF assms(1) sd'(2)] sd'(4)) auto
  ultimately show ?thesis using sd' fs_map_cong [of fs sd' sd be] by (auto simp: outside_def)
qed

lemma outside_trans: "outside fs sd sd' \<Longrightarrow> outside fs sd' sd'' \<Longrightarrow> outside fs sd sd''"
  by (simp add: outside_def)

section \<open>Changing the set of files\<close>

lemma claims_simps [simp]:
  "claims be sec [] = []" "claims be sec (e # t) = (if inUse e then owned be sec (de_sector e) @ claims be sec t else claims be sec t)"
  "claims be sec (t @ u) = claims be sec t @ claims be sec u"
  by (simp_all add: claims_def)

lemma owned_in_claims: "e \<in> set (live_entries t) \<Longrightarrow> set (owned be sec (de_sector e)) \<subseteq> set (claims be sec t)"
  by (auto simp: claims_def)

lemma hdr_in_cong: "sec' (nat s) = sec (nat s) \<Longrightarrow> hdr_in be sec' s = hdr_in be sec s"
  by (simp add: hdr_in_def)

lemma owned_cong: "sec' (nat s) = sec (nat s) \<Longrightarrow> owned be sec' s = owned be sec s"
  by (simp add: owned_def hdr_in_def)

lemma hdr_in_live:
  assumes "\<And>x. x \<in> set (claims be sec t) \<Longrightarrow> sec' x = sec x" "e \<in> set (live_entries t)"
  shows "hdr_in be sec' (de_sector e) = hdr_in be sec (de_sector e)" "owned be sec' (de_sector e) = owned be sec (de_sector e)"
    "header_ok be sec' (de_sector e) = header_ok be sec (de_sector e)"
proof -
  have "nat (de_sector e) \<in> set (claims be sec t)" using owned_in_claims [OF assms(2), of be sec] by (simp add: owned_def)
  then show "hdr_in be sec' (de_sector e) = hdr_in be sec (de_sector e)" "owned be sec' (de_sector e) = owned be sec (de_sector e)"
    "header_ok be sec' (de_sector e) = header_ok be sec (de_sector e)"
    using assms(1) by (simp_all add: header_ok_def hdr_in_def owned_def)
qed

lemma claims_cong:
  assumes "\<And>x. x \<in> set (claims be sec t) \<Longrightarrow> sec' x = sec x"
  shows "claims be sec' t = claims be sec t"
proof -
  have "map (\<lambda>e. owned be sec' (de_sector e)) (live_entries t) = map (\<lambda>e. owned be sec (de_sector e)) (live_entries t)"
    by (rule map_cong [OF refl]) (rule hdr_in_live(2) [OF assms])
  then show ?thesis by (simp only: claims_def)
qed

lemma dir_map_SomeD: "dir_map t k = Some s \<Longrightarrow> \<exists>e \<in> set (live_entries t). entry_key e = k \<and> de_sector e = s"
  by (auto simp: dir_map_def dest!: map_of_SomeD)

lemma files_cong:
  assumes "\<And>x. x \<in> set (claims be sec t) \<Longrightarrow> sec' x = sec x"
  shows "files_of be sec' t = files_of be sec t"
proof
  fix k
  show "files_of be sec' t k = files_of be sec t k"
  proof (cases "dir_map t k")
    case (Some s)
    then obtain e where e: "e \<in> set (live_entries t)" "de_sector e = s" using dir_map_SomeD by blast
    have "file_bytes (hdr_in be sec s) sec' = file_bytes (hdr_in be sec s) sec"
      using owned_in_claims [OF e(1), of be sec] e(2) assms by (intro file_bytes_cong) (auto simp: owned_def)
    with Some e hdr_in_live [OF assms e(1)] show ?thesis by (simp add: files_of_def)
  qed (simp add: files_of_def)
qed

lemma headers_cong:
  assumes "\<And>x. x \<in> set (claims be sec t) \<Longrightarrow> sec' x = sec x"
  shows "headers_of be sec' t = headers_of be sec t"
proof
  fix k
  show "headers_of be sec' t k = headers_of be sec t k"
    using hdr_in_live(1) [OF assms] by (cases "dir_map t k") (auto simp: headers_of_def dest!: dir_map_SomeD)
qed

lemma fs_unchanged:
  assumes "idle sd'" "sector sd' = sector sd"
  shows "fs_inv be fs sd \<Longrightarrow> fs_inv be fs sd'" "fs_files be fs sd' = fs_files be fs sd" "fs_headers be fs sd' = fs_headers be fs sd"
  using assms by (simp_all add: fs_inv_def fs_sys_def fs_dir_def stored_map_def fs_files_def fs_headers_def)

lemma marked_system: "fs_inv be fs sd \<Longrightarrow> set (system_sectors fs) \<subseteq> marked (fs_map be fs sd)"
  "fs_inv be fs sd \<Longrightarrow> set (claims be (sector sd) (fs_dir be fs sd)) \<subseteq> marked (fs_map be fs sd)"
  by (simp_all add: fs_inv_def)

text \<open>The three writes that end \<open>Create\<close>.\<close>

lemma create_commit:
  assumes inv: "fs_inv be fs sd" and sd1: "idle sd1" "sector sd1 = sector sd"
    and t: "fs_dir be fs sd = t1 @ e # t2" "\<not> inUse e" "dir_map (fs_dir be fs sd) (key name) = None"
    and s: "s < 1024" "s \<notin> marked (fs_map be fs sd)"
    and h: "hdr_ok h" "c_ints h" "set (sectors_of h) \<inter> insert s (marked (fs_map be fs sd)) = {}"
    and b: "bitmap_inv b" "numBits b = 1024" "marked b = insert s (marked (fs_map be fs sd)) \<union> set (sectors_of h)"
  shows "\<exists>sd2 sd3 sd4. Header_WriteBack be (int s) h sd1 = Inr sd2
    \<and> Directory_WriteBack be junk (dir_hdr fs) (t1 @ named name (int s) e # t2) sd2 = Inr sd3
    \<and> BitMap_WriteBack be junk (map_hdr fs) b sd3 = Inr sd4
    \<and> fs_inv be fs sd4 \<and> fs_files be fs sd4 = (fs_files be fs sd)(key name \<mapsto> file_bytes h (sector sd4))
    \<and> fs_headers be fs sd4 = (fs_headers be fs sd)(key name \<mapsto> h)"
proof -
  let ?t = "fs_dir be fs sd" and ?t' = "t1 @ named name (int s) e # t2"
  let ?S = "set (system_sectors fs)" and ?C = "set (claims be (sector sd) (fs_dir be fs sd))"
  have sys: "fs_sys be fs sd" and dir: "dir_ok ?t" and m: "marked (fs_map be fs sd) = ?S \<union> ?C" and SC: "?S \<inter> ?C = {}"
    using inv by (auto simp: fs_inv_def)
  have sS: "s \<notin> ?S" "s \<notin> ?C" using s m by auto
  from Header_WriteBack_ok [OF sd1(1), of "int s" h be] s(1) h(1) obtain sd2 where
    sd2: "Header_WriteBack be (int s) h sd1 = Inr sd2" "idle sd2" "sector sd2 = (sector sd)(s := hdr_bytes be h)"
    using sd1(2) by (auto simp: hdr_ok_def NumSectors_1024)
  have sys2: "fs_sys be fs sd2" by (rule fs_sys_keep [OF sys sd2(2)]) (use sd2(3) sS in \<open>auto simp: system_sectors_def\<close>)
  have cs: "c_int (int s) = int s" using s(1) by (intro c_int_small) simp_all
  have dir': "dir_ok ?t'" using dir_ok_named [of t1 e t2 name "int s"] dir t cs by simp
  have "length ?t' = NumDirEntries" using t(1) length_fs_dir [of be fs sd] by simp
  with write_directory [OF sys2, of ?t' junk] dir' obtain sd3 where
    sd3: "Directory_WriteBack be junk (dir_hdr fs) ?t' sd2 = Inr sd3" "fs_sys be fs sd3" "fs_dir be fs sd3 = ?t'" "outside fs sd2 sd3"
    by (auto simp: dir_ok_def)
  from write_map [OF sd3(2) b(1,2), of junk] obtain sd4 where
    sd4: "BitMap_WriteBack be junk (map_hdr fs) b sd3 = Inr sd4" "fs_sys be fs sd4" "fs_map be fs sd4 = b" "fs_dir be fs sd4 = ?t'"
      "outside fs sd3 sd4" using sd3(3) by auto
  let ?sec = "sector sd4"
  have sec: "?sec x = (if x = s then hdr_bytes be h else sector sd x)" if "x \<notin> ?S" for x
    using outside_trans [OF sd3(4) sd4(5)] sd2(3) that by (auto simp: outside_def system_sectors_def)
  have keep: "?sec x = sector sd x" if "x \<in> ?C" for x
  proof -
    have "x \<notin> ?S" "x \<noteq> s" using SC sS(2) that by blast+
    then show ?thesis using sec [of x] by simp
  qed
  have hs: "hdr_in be ?sec (int s) = h" using sec [OF sS(1)] hdr_roundtrip [OF h(2)] by (simp add: hdr_in_def)
  have owned: "owned be ?sec (int s) = s # sectors_of h" by (simp add: owned_def hs)
  have named: "inUse (named name (int s) e)" "de_sector (named name (int s) e) = int s" by (simp_all add: named_def)
  have c12: "claims be ?sec t1 = claims be (sector sd) t1" "claims be ?sec t2 = claims be (sector sd) t2"
    using keep t by (auto intro!: claims_cong)
  have cl: "claims be ?sec ?t' = claims be (sector sd) t1 @ (s # sectors_of h) @ claims be (sector sd) t2"
    using named owned c12 by simp
  have ct: "claims be (sector sd) ?t = claims be (sector sd) t1 @ claims be (sector sd) t2" using t by simp
  have dist: "distinct (system_sectors fs @ claims be (sector sd) ?t)" using inv by (simp add: fs_inv_def)
  have "header_ok be ?sec (de_sector e')" if "e' \<in> set (live_entries ?t')" for e'
  proof (cases "e' \<in> set (live_entries ?t)")
    case True
    then show ?thesis using hdr_in_live(3) [OF keep True] inv by (simp add: fs_inv_def)
  next
    case False
    with that t named have "e' = named name (int s) e" by auto
    then show ?thesis using named hs h(1) s(1) by (simp add: header_ok_def NumSectors_1024)
  qed
  moreover have "distinct (system_sectors fs @ claims be ?sec ?t')" "marked b = set (system_sectors fs @ claims be ?sec ?t')"
    using dist h(1,3) sS b(3) m unfolding cl ct by (auto simp: hdr_ok_def)
  ultimately have "fs_inv be fs sd4" using sd4 dir' by (simp add: fs_inv_def)
  moreover have "fs_files be fs sd4 = (fs_files be fs sd)(key name \<mapsto> file_bytes h ?sec)" "fs_headers be fs sd4 = (fs_headers be fs sd)(key name \<mapsto> h)"
  proof -
    have "dir_map ?t' = (dir_map ?t)(key name \<mapsto> int s)" using dir_map_named [of e t1 t2 name "int s"] dir t by (simp add: dir_ok_def)
    with files_cong [OF keep] headers_cong [OF keep] hs
    show "fs_files be fs sd4 = (fs_files be fs sd)(key name \<mapsto> file_bytes h ?sec)" "fs_headers be fs sd4 = (fs_headers be fs sd)(key name \<mapsto> h)"
      by (auto simp: fs_files_def fs_headers_def sd4(4) files_of_def headers_of_def fun_eq_iff)
  qed
  ultimately show ?thesis using sd2 sd3 sd4 by blast
qed

lemma dom_files: "dom (fs_files be fs sd) = dom (dir_map (fs_dir be fs sd))"
  by (auto simp: fs_files_def files_of_def)

lemma files_None: "fs_files be fs sd k = None \<longleftrightarrow> dir_map (fs_dir be fs sd) k = None"
  by (simp add: fs_files_def files_of_def)

definition free_sectors :: "bool \<Rightarrow> FileSystem \<Rightarrow> SynchDisk \<Rightarrow> nat" where
  "free_sectors be fs sd = card ({..<1024} - marked (fs_map be fs sd))"

text \<open>When \<open>Create\<close> succeeds.\<close>

definition can_create :: "bool \<Rightarrow> FileSystem \<Rightarrow> SynchDisk \<Rightarrow> bytes \<Rightarrow> int \<Rightarrow> bool" where
  "can_create be fs sd name n \<longleftrightarrow> fs_files be fs sd (key name) = None \<and> card (dom (fs_files be fs sd)) < NumDirEntries
     \<and> 1 + sectors_for n \<le> int (free_sectors be fs sd)"

text \<open>With room for the file and a free entry of the directory, the header is allocated and all three writes succeed.\<close>

lemma create_allocated:
  assumes inv: "fs_inv be fs sd" and j: "junk_ok j" and n: "0 \<le> n" "n \<le> int MaxFileSize" and sd2: "idle sd2" "sector sd2 = sector sd"
    and t: "fs_dir be fs sd = t1 @ e # t2" "\<not> inUse e" and None: "dir_map (fs_dir be fs sd) (key name) = None"
    and s: "s < 1024" "s \<notin> marked (fs_map be fs sd)" "bitmap_inv m1" "numBits m1 = 1024" "marked m1 = insert s (marked (fs_map be fs sd))"
    and room: "sectors_for n \<le> int (card ({..<numBits m1} - marked m1))"
  obtains b h sd3 sd4 sd5 where "Allocate n m1 (j_header j) = Inr (True, b, h)" "Header_WriteBack be (int s) h sd2 = Inr sd3"
    "Directory_WriteBack be (j_chars j) (dir_hdr fs) (t1 @ named name (int s) e # t2) sd3 = Inr sd4"
    "BitMap_WriteBack be (j_chars j) (map_hdr fs) b sd4 = Inr sd5" "fs_inv be fs sd5"
    "fs_files be fs sd5 = (fs_files be fs sd)(key name \<mapsto> file_bytes h (sector sd5))" "length (file_bytes h (sector sd5)) = nat n"
    "fs_headers be fs sd5 = (fs_headers be fs sd)(key name \<mapsto> h)"
proof -
  from room Allocate_ok [OF s(3), of "j_header j" n] s(4) j n obtain b h where
    h: "Allocate n m1 (j_header j) = Inr (True, b, h)" "bitmap_inv b" "numBits b = 1024" "hdr_ok h" "fh_numBytes h = n"
      "set (sectors_of h) \<inter> marked m1 = {}" "marked b = marked m1 \<union> set (sectors_of h)" "c_ints h"
    by (auto simp: junk_ok_def c_ints_def sizes)
  from create_commit [OF inv sd2 t None s(1,2) h(4,8) _ h(2,3), of "j_chars j"] h(6,7) s(5) obtain sd3 sd4 sd5 where
    "Header_WriteBack be (int s) h sd2 = Inr sd3"
    "Directory_WriteBack be (j_chars j) (dir_hdr fs) (t1 @ named name (int s) e # t2) sd3 = Inr sd4"
    "BitMap_WriteBack be (j_chars j) (map_hdr fs) b sd4 = Inr sd5" "fs_inv be fs sd5"
    "fs_files be fs sd5 = (fs_files be fs sd)(key name \<mapsto> file_bytes h (sector sd5))"
    "fs_headers be fs sd5 = (fs_headers be fs sd)(key name \<mapsto> h)" by auto
  moreover have "length (file_bytes h (sector sd5)) = nat n" using length_file_bytes [OF h(4)] h(5) by simp
  ultimately show ?thesis using that h(1) by blast
qed

lemma FS_Create_ok:
  assumes inv: "fs_inv be fs sd" and j: "junk_ok j" and n: "0 \<le> n" "n \<le> int MaxFileSize"
  shows "\<exists>sd'. FS_Create be j fs name n sd = Inr (can_create be fs sd name n, sd') \<and> fs_inv be fs sd'
    \<and> (if can_create be fs sd name n
       then \<exists>bs h. length bs = nat n \<and> fs_files be fs sd' = (fs_files be fs sd)(key name \<mapsto> bs)
          \<and> fs_headers be fs sd' = (fs_headers be fs sd)(key name \<mapsto> h)
       else sector sd' = sector sd)"
proof -
  let ?t = "fs_dir be fs sd" and ?m = "fs_map be fs sd"
  have sys: "fs_sys be fs sd" and dir: "dir_ok ?t" using inv by (simp_all add: fs_inv_def)
  from fetch_directory_ok [OF sys, of j] obtain sd1 where
    sd1: "fetch_directory be j fs sd = Inr (?t, sd1)" "idle sd1" "sector sd1 = sector sd" by blast
  have sys1: "fs_sys be fs sd1" by (rule fs_sys_keep [OF sys sd1(2)]) (simp add: sd1(3))
  have map1: "fs_map be fs sd1 = ?m" by (simp add: stored_map_def sd1(3))
  from fetch_free_map_ok [OF sys1, of j] obtain sd2 where
    sd2: "fetch_free_map be j fs sd1 = Inr (?m, sd2)" "idle sd2" "sector sd2 = sector sd" using map1 sd1(3) by auto
  have same: "?thesis" if "FS_Create be j fs name n sd = Inr (False, sd')" "idle sd'" "sector sd' = sector sd"
      "\<not> can_create be fs sd name n" for sd'
    using that fs_unchanged(1) [OF that(2,3) inv] by auto
  show ?thesis
  proof (cases "dir_map ?t (key name)")
    case (Some s)
    then obtain e where "e \<in> set (live_entries ?t)" "de_sector e = s" using dir_map_SomeD by blast
    then have "0 \<le> s" using inv by (auto simp: fs_inv_def header_ok_def)
    with Some have "FS_Create be j fs name n sd = Inr (False, sd1)" by (simp add: FS_Create_def sd1 Find_dir_map)
    with sd1 Some show ?thesis by (intro same [of sd1]) (auto simp: can_create_def files_None)
  next
    case None
    then have start: "FS_Create be j fs name n sd = rbind (BitMap_Find ?m) (\<lambda>(s, freeMap).
        if s = -1 then Inr (False, sd2)
        else let (added, directory) = Directory_Add name s ?t in
        if \<not> added then Inr (False, sd2)
        else rbind (Allocate n freeMap (j_header j)) (\<lambda>(ok, freeMap, hdr).
        if \<not> ok then Inr (False, sd2)
        else rbind (Header_WriteBack be s hdr sd2) (\<lambda>sd.
             rbind (Directory_WriteBack be (j_chars j) (dir_hdr fs) directory sd) (\<lambda>sd.
             rbind (BitMap_WriteBack be (j_chars j) (map_hdr fs) freeMap sd) (\<lambda>sd. Inr (True, sd))))))"
      by (simp add: FS_Create_def sd1 sd2 Find_dir_map)
    from Find_ok [OF stored_map_sel(1), of be "map_hdr fs" sd] show ?thesis
      unfolding stored_map_sel(2)
    proof (elim disjE exE conjE)
      assume full: "marked ?m = {..<1024}" "BitMap_Find ?m = Inr (-1, ?m)"
      then have "free_sectors be fs sd = 0" by (simp add: free_sectors_def)
      then have "\<not> can_create be fs sd name n" using n(1) by (simp add: can_create_def sectors_for_nat)
      then show ?thesis by (intro same [of sd2]) (use start full sd2 in simp_all)
    next
      fix s m1
      assume s: "s < 1024" "s \<notin> marked ?m" "BitMap_Find ?m = Inr (int s, m1)" "bitmap_inv m1" "numBits m1 = 1024"
        "marked m1 = insert s (marked ?m)"
      have "{..<1024} - marked m1 = ({..<1024} - marked ?m) - {s}" using s(6) by auto
      with s(1,2) have "card ({..<1024} - marked m1) = free_sectors be fs sd - 1" "0 < free_sectors be fs sd"
        unfolding free_sectors_def by (simp_all add: card_gt_0_iff) blast
      then have free: "sectors_for n \<le> int (card ({..<numBits m1} - marked m1)) \<longleftrightarrow> 1 + sectors_for n \<le> int (free_sectors be fs sd)"
        using s(5) by auto
      have len: "length (live_entries ?t) < NumDirEntries \<longleftrightarrow> live_entries ?t \<noteq> ?t" using full_directory [of ?t] by simp
      show ?thesis
      proof (rule Add_cases [of ?t name "int s"])
        assume "live_entries ?t = ?t" "Directory_Add name (int s) ?t = (False, ?t)"
        moreover from this(1) len have "\<not> can_create be fs sd name n" by (simp add: can_create_def dom_files card_files [OF dir])
        ultimately show ?thesis by (intro same [of sd2]) (use start s sd2 in simp_all)
      next
        fix t1 e t2
        assume t: "?t = t1 @ e # t2" "\<not> inUse e" "Directory_Add name (int s) ?t = (True, t1 @ named name (int s) e # t2)"
        have "e \<notin> set (live_entries ?t)" using t(2) by (simp add: live_entries_def)
        moreover have "e \<in> set ?t" using t(1) by simp
        ultimately have "live_entries ?t \<noteq> ?t" by metis
        with len None free have can: "can_create be fs sd name n \<longleftrightarrow> sectors_for n \<le> int (card ({..<numBits m1} - marked m1))"
          by (simp add: can_create_def dom_files card_files [OF dir] files_None)
        show ?thesis
        proof (cases "can_create be fs sd name n")
          case False
          with can Allocate_full [OF s(4)] obtain h where "Allocate n m1 (j_header j) = Inr (False, m1, h)" by force
          then show ?thesis by (intro same [of sd2]) (use False start s t sd2 in simp_all)
        next
          case True
          obtain b h sd3 sd4 sd5 where "Allocate n m1 (j_header j) = Inr (True, b, h)" "Header_WriteBack be (int s) h sd2 = Inr sd3"
            "Directory_WriteBack be (j_chars j) (dir_hdr fs) (t1 @ named name (int s) e # t2) sd3 = Inr sd4"
            "BitMap_WriteBack be (j_chars j) (map_hdr fs) b sd4 = Inr sd5" "fs_inv be fs sd5"
            "fs_files be fs sd5 = (fs_files be fs sd)(key name \<mapsto> file_bytes h (sector sd5))" "length (file_bytes h (sector sd5)) = nat n"
            "fs_headers be fs sd5 = (fs_headers be fs sd)(key name \<mapsto> h)"
            using create_allocated [OF inv j n sd2(2,3) t(1,2) None s(1,2,4-6)] can True by blast
          then show ?thesis using True start s t by auto
        qed
      qed (use None in simp)
    qed
  qed
qed

section \<open>Removing a file\<close>

lemma files_append: "files_of be sec (t @ u) = files_of be sec u ++ files_of be sec t"
  by (auto simp: files_of_def dir_map_append map_add_def fun_eq_iff split: option.split)

lemma headers_append: "headers_of be sec (t @ u) = headers_of be sec u ++ headers_of be sec t"
  by (auto simp: headers_of_def dir_map_append map_add_def fun_eq_iff split: option.split)

lemma headers_Cons: "headers_of be sec (e # t) = (if inUse e
    then (headers_of be sec t)(entry_key e \<mapsto> hdr_in be sec (de_sector e)) else headers_of be sec t)"
  by (auto simp: headers_of_def dir_map_Cons fun_eq_iff)

lemma headers_None: "headers_of be sec t k = None \<longleftrightarrow> files_of be sec t k = None"
  by (simp add: headers_of_def files_of_def)

lemma files_Cons: "files_of be sec (e # t) = (if inUse e
    then (files_of be sec t)(entry_key e \<mapsto> file_bytes (hdr_in be sec (de_sector e)) sec) else files_of be sec t)"
  by (auto simp: files_of_def dir_map_Cons fun_eq_iff)

text \<open>One file of a consistent file system, apart from all others.\<close>

lemma file_apart:
  assumes "fs_inv be fs sd" "fs_dir be fs sd = t1 @ e # t2" "inUse e"
  defines "O1 \<equiv> set (owned be (sector sd) (de_sector e))"
  shows "header_ok be (sector sd) (de_sector e)" "O1 \<inter> set (system_sectors fs) = {}"
    "O1 \<inter> set (claims be (sector sd) t1) = {}" "O1 \<inter> set (claims be (sector sd) t2) = {}"
    "distinct (owned be (sector sd) (de_sector e))"
    "files_of be (sector sd) t1 (entry_key e) = None" "files_of be (sector sd) t2 (entry_key e) = None"
proof -
  show "header_ok be (sector sd) (de_sector e)" using assms(1-3) by (simp add: fs_inv_def)
  have d: "distinct (system_sectors fs @ claims be (sector sd) (t1 @ e # t2))" using assms(1,2) by (simp add: fs_inv_def)
  then show "O1 \<inter> set (system_sectors fs) = {}" "O1 \<inter> set (claims be (sector sd) t1) = {}" "O1 \<inter> set (claims be (sector sd) t2) = {}"
    "distinct (owned be (sector sd) (de_sector e))" using assms(3) unfolding O1_def by auto
  have "dir_ok (t1 @ e # t2)" using assms(1,2) by (simp add: fs_inv_def)
  then have "entry_key e \<notin> entry_key ` set (live_entries t1)" "entry_key e \<notin> entry_key ` set (live_entries t2)"
    using assms(3) by (simp_all add: dir_ok_def)
  then show "files_of be (sector sd) t1 (entry_key e) = None" "files_of be (sector sd) t2 (entry_key e) = None"
    by (simp_all add: files_of_def dir_map_None image_iff) metis+
qed

lemma remove_commit:
  assumes inv: "fs_inv be fs sd" and sd1: "idle sd1" "sector sd1 = sector sd"
    and t: "fs_dir be fs sd = t1 @ e # t2" "inUse e"
    and b: "bitmap_inv b" "numBits b = 1024" "marked b = marked (fs_map be fs sd) - set (owned be (sector sd) (de_sector e))"
  shows "\<exists>sd2 sd3. BitMap_WriteBack be junk (map_hdr fs) b sd1 = Inr sd2
    \<and> Directory_WriteBack be junk (dir_hdr fs) (t1 @ e\<lparr>inUse := False\<rparr> # t2) sd2 = Inr sd3
    \<and> fs_inv be fs sd3 \<and> fs_files be fs sd3 = (fs_files be fs sd)(entry_key e := None)
    \<and> fs_headers be fs sd3 = (fs_headers be fs sd)(entry_key e := None)"
proof -
  let ?t' = "t1 @ e\<lparr>inUse := False\<rparr> # t2" and ?C = "\<lambda>t. claims be (sector sd) t"
  note ap = file_apart [OF inv t]
  have "fs_sys be fs sd" using inv by (simp add: fs_inv_def)
  then have sys: "fs_sys be fs sd1" using sd1 by (simp add: fs_sys_def)
  from write_map [OF sys b(1,2), of junk] obtain sd2 where
    sd2: "BitMap_WriteBack be junk (map_hdr fs) b sd1 = Inr sd2" "fs_sys be fs sd2" "fs_map be fs sd2 = b" "outside fs sd1 sd2" by blast
  have dir': "dir_ok ?t'" using dir_ok_removed [of t1 e t2] inv t by (simp add: fs_inv_def)
  have "length ?t' = NumDirEntries" using t(1) length_fs_dir [of be fs sd] by simp
  with write_directory [OF sd2(2), of ?t' junk] dir' obtain sd3 where
    sd3: "Directory_WriteBack be junk (dir_hdr fs) ?t' sd2 = Inr sd3" "fs_sys be fs sd3" "fs_dir be fs sd3 = ?t'" "fs_map be fs sd3 = b"
      "outside fs sd2 sd3" using sd2(3) by (auto simp: dir_ok_def)
  let ?sec = "sector sd3"
  have dist: "distinct (system_sectors fs @ ?C (t1 @ e # t2))" and mk: "marked (fs_map be fs sd) = set (system_sectors fs @ ?C (t1 @ e # t2))"
    using inv t by (simp_all add: fs_inv_def)
  have keep: "?sec x = sector sd x" if "x \<in> set (?C t1) \<union> set (?C t2)" for x
  proof -
    have "x \<notin> set (system_sectors fs)" using that dist t(2) by auto
    then show ?thesis using outside_trans [OF sd2(4) sd3(5)] sd1(2) by (simp add: outside_def system_sectors_def)
  qed
  have c: "claims be ?sec t1 = ?C t1" "claims be ?sec t2 = ?C t2" using keep by (auto intro!: claims_cong)
  have "header_ok be ?sec (de_sector e')" if "e' \<in> set (live_entries ?t')" for e'
  proof -
    from that have "e' \<in> set (live_entries t1) \<or> e' \<in> set (live_entries t2)" by auto
    then have "header_ok be ?sec (de_sector e') = header_ok be (sector sd) (de_sector e')"
      using keep hdr_in_live(3) [of be "sector sd" t1 ?sec e'] hdr_in_live(3) [of be "sector sd" t2 ?sec e'] by auto
    then show ?thesis using inv t that by (auto simp: fs_inv_def)
  qed
  moreover have "distinct (system_sectors fs @ claims be ?sec ?t')" "marked b = set (system_sectors fs @ claims be ?sec ?t')"
    using dist t(2) ap(2-4) c b(3) mk by auto
  ultimately have "fs_inv be fs sd3" using sd3 dir' by (simp add: fs_inv_def)
  moreover have "files_of be ?sec t1 = files_of be (sector sd) t1" "files_of be ?sec t2 = files_of be (sector sd) t2"
    using keep by (auto intro!: files_cong)
  then have "fs_files be fs sd3 = (fs_files be fs sd)(entry_key e := None)"
    using t ap(6,7) by (auto simp: fs_files_def sd3(3) files_append files_Cons map_add_def fun_eq_iff split: option.split)
  moreover have "headers_of be ?sec t1 = headers_of be (sector sd) t1" "headers_of be ?sec t2 = headers_of be (sector sd) t2"
    using keep by (auto intro!: headers_cong)
  moreover have "headers_of be (sector sd) t1 (entry_key e) = None" "headers_of be (sector sd) t2 (entry_key e) = None"
    using ap(6,7) by (simp_all add: headers_None)
  ultimately have "fs_headers be fs sd3 = (fs_headers be fs sd)(entry_key e := None)"
    using t by (auto simp: fs_headers_def sd3(3) headers_append headers_Cons map_add_def fun_eq_iff split: option.split)
  with \<open>fs_inv be fs sd3\<close> \<open>fs_files be fs sd3 = (fs_files be fs sd)(entry_key e := None)\<close> show ?thesis using sd2 sd3 by blast
qed

lemma FS_Remove_ok:
  assumes inv: "fs_inv be fs sd"
  shows "\<exists>sd'. FS_Remove be j fs name sd = Inr (fs_files be fs sd (key name) \<noteq> None, sd') \<and> fs_inv be fs sd'
    \<and> fs_files be fs sd' = (fs_files be fs sd)(key name := None) \<and> fs_headers be fs sd' = (fs_headers be fs sd)(key name := None)"
proof -
  let ?t = "fs_dir be fs sd" and ?m = "fs_map be fs sd"
  have sys: "fs_sys be fs sd" using inv by (simp_all add: fs_inv_def)
  from fetch_directory_ok [OF sys, of j] obtain sd1 where
    sd1: "fetch_directory be j fs sd = Inr (?t, sd1)" "idle sd1" "sector sd1 = sector sd" by blast
  show ?thesis
  proof (rule Remove_cases [of ?t name])
    assume none: "dir_map ?t (key name) = None"
    then have "FS_Remove be j fs name sd = Inr (False, sd1)" by (simp add: FS_Remove_def sd1 Find_dir_map)
    moreover have "(fs_files be fs sd)(key name := None) = fs_files be fs sd" "(fs_headers be fs sd)(key name := None) = fs_headers be fs sd"
      using none by (simp_all add: files_None fs_headers_def headers_of_def fun_upd_idem)
    ultimately show ?thesis using none fs_unchanged [OF sd1(2,3)] inv by (auto simp: files_None)
  next
    fix t1 e t2
    assume t: "?t = t1 @ e # t2" "inUse e" "entry_key e = key name" "dir_map ?t (key name) = Some (de_sector e)"
      "Directory_Remove name ?t = (True, t1 @ e\<lparr>inUse := False\<rparr> # t2)"
    let ?s = "de_sector e" and ?h = "hdr_in be (sector sd) (de_sector e)"
    note ap = file_apart [OF inv t(1,2)]
    have s: "0 \<le> ?s" "?s < NumSectors" "hdr_ok ?h" using ap(1) by (simp_all add: header_ok_def)
    from Header_FetchFrom_ok [OF sd1(2) s(1,2), of be] obtain sd2 where
      sd2: "Header_FetchFrom be ?s sd1 = Inr (?h, sd2)" "idle sd2" "sector sd2 = sector sd" using sd1(3) by (auto simp: hdr_in_def)
    have sys2: "fs_sys be fs sd2" by (rule fs_sys_keep [OF sys sd2(2)]) (simp add: sd2(3))
    have "fs_map be fs sd2 = ?m" by (simp add: stored_map_def sd2(3))
    with fetch_free_map_ok [OF sys2, of j] sd2(3) obtain sd3 where
      sd3: "fetch_free_map be j fs sd2 = Inr (?m, sd3)" "idle sd3" "sector sd3 = sector sd" by auto
    have O: "set (owned be (sector sd) ?s) \<subseteq> marked ?m" using marked_system(2) [OF inv] t by auto
    from Deallocate_ok [OF stored_map_sel(1) s(3), of be "map_hdr fs" sd] O obtain b1 where
      b1: "Deallocate ?h ?m = Inr b1" "bitmap_inv b1" "numBits b1 = 1024" "marked b1 = marked ?m - set (sectors_of ?h)"
      by (auto simp: owned_def)
    have "nat ?s < numBits b1" using s(1,2) b1(3) by (simp add: NumSectors_1024 nat_less_iff)
    from Clear_ok [OF b1(2) this] s(1) b1(3) obtain b where
      b: "BitMap_Clear ?s b1 = Inr b" "bitmap_inv b" "numBits b = 1024" "marked b = marked b1 - {nat ?s}" by auto
    have "marked b = marked ?m - set (owned be (sector sd) ?s)" using b(4) b1(4) by (auto simp: owned_def)
    from remove_commit [OF inv sd3(2,3) t(1,2) b(2,3) this, of "j_chars j"] obtain sd4 sd5 where
      "BitMap_WriteBack be (j_chars j) (map_hdr fs) b sd3 = Inr sd4"
      "Directory_WriteBack be (j_chars j) (dir_hdr fs) (t1 @ e\<lparr>inUse := False\<rparr> # t2) sd4 = Inr sd5"
      "fs_inv be fs sd5" "fs_files be fs sd5 = (fs_files be fs sd)(entry_key e := None)"
      "fs_headers be fs sd5 = (fs_headers be fs sd)(entry_key e := None)" by blast
    moreover have "Directory_Find name ?t = ?s" using t(4) by (simp add: Find_dir_map)
    moreover have "fs_files be fs sd (key name) \<noteq> None" using t(4) by (simp add: files_None)
    ultimately show ?thesis using sd1 sd2 sd3 b1 b t(3,5) s(1) by (simp add: FS_Remove_def)
  qed
qed

section \<open>Opening, reading and writing a file\<close>

text \<open>\<open>f\<close> is an open file of that name.\<close>

definition opened :: "bool \<Rightarrow> FileSystem \<Rightarrow> SynchDisk \<Rightarrow> bytes \<Rightarrow> NachosFile \<Rightarrow> bool" where
  "opened be fs sd name f \<longleftrightarrow> (\<exists>s. dir_map (fs_dir be fs sd) (key name) = Some s \<and> of_hdr f = hdr_in be (sector sd) s)"

lemma opened_header: "opened be fs sd name f \<longleftrightarrow> fs_headers be fs sd (key name) = Some (of_hdr f)"
  by (auto simp: opened_def fs_headers_def headers_of_def)

lemma openedE:
  assumes "opened be fs sd name f" "fs_inv be fs sd"
  obtains t1 e t2 where "fs_dir be fs sd = t1 @ e # t2" "inUse e" "entry_key e = key name" "of_hdr f = hdr_in be (sector sd) (de_sector e)"
proof (rule FindIndex_cases [of "fs_dir be fs sd" name])
  fix t1 e t2
  assume "fs_dir be fs sd = t1 @ e # t2" "inUse e" "entry_key e = key name" "dir_map (fs_dir be fs sd) (key name) = Some (de_sector e)"
  with assms(1) that show thesis by (auto simp: opened_def)
qed (use assms(1) in \<open>simp add: opened_def\<close>)

lemma opened_ok:
  assumes "opened be fs sd name f" "fs_inv be fs sd"
  shows "hdr_ok (of_hdr f)" "fs_files be fs sd (key name) = Some (file_bytes (of_hdr f) (sector sd))"
proof -
  from assms obtain t1 e t2 where t: "fs_dir be fs sd = t1 @ e # t2" "inUse e" "entry_key e = key name"
    "of_hdr f = hdr_in be (sector sd) (de_sector e)" by (rule openedE)
  then show "hdr_ok (of_hdr f)" using file_apart(1) [OF assms(2) t(1,2)] by (simp add: header_ok_def)
  show "fs_files be fs sd (key name) = Some (file_bytes (of_hdr f) (sector sd))"
    using assms(1) by (auto simp: opened_def fs_files_def files_of_def)
qed

lemma FS_Open_ok:
  assumes inv: "fs_inv be fs sd"
  shows "\<exists>f sd'. FS_Open be j fs name sd = Inr (f, sd') \<and> idle sd' \<and> sector sd' = sector sd
    \<and> (case f of None \<Rightarrow> fs_files be fs sd (key name) = None | Some f \<Rightarrow> opened be fs sd name f \<and> seekPosition f = 0)"
proof -
  let ?t = "fs_dir be fs sd"
  have sys: "fs_sys be fs sd" using inv by (simp add: fs_inv_def)
  from fetch_directory_ok [OF sys, of j] obtain sd1 where
    sd1: "fetch_directory be j fs sd = Inr (?t, sd1)" "idle sd1" "sector sd1 = sector sd" by blast
  show ?thesis
  proof (cases "dir_map ?t (key name)")
    case None
    then show ?thesis using sd1 by (simp add: FS_Open_def Find_dir_map files_None)
  next
    case (Some s)
    then obtain e where "e \<in> set (live_entries ?t)" "de_sector e = s" using dir_map_SomeD by blast
    then have s: "0 \<le> s" "s < NumSectors" using inv by (auto simp: fs_inv_def header_ok_def)
    from Header_FetchFrom_ok [OF sd1(2) s, of be] obtain sd2 where
      "Header_FetchFrom be s sd1 = Inr (hdr_in be (sector sd) s, sd2)" "idle sd2" "sector sd2 = sector sd"
      using sd1(3) by (auto simp: hdr_in_def)
    with Some s(1) sd1 show ?thesis by (simp add: FS_Open_def Find_dir_map File_new_def opened_def)
  qed
qed

lemma fs_write_ok:
  assumes inv: "fs_inv be fs sd" and op: "opened be fs sd name f" and pn: "p + n < 2 ^ 31" "n \<le> length src"
  defines "old \<equiv> file_bytes (of_hdr f) (sector sd)"
  defines "m \<equiv> min n (length old - p)"
  shows "\<exists>sd'. File_WriteAt junk (of_hdr f) src (int n) (int p) sd = Inr (int m, sd') \<and> fs_inv be fs sd' \<and> opened be fs sd' name f
    \<and> fs_files be fs sd' = (fs_files be fs sd)(key name \<mapsto> patch p (take m src) old) \<and> fs_headers be fs sd' = fs_headers be fs sd"
proof -
  from op inv obtain t1 e t2 where t: "fs_dir be fs sd = t1 @ e # t2" "inUse e" "entry_key e = key name"
    "of_hdr f = hdr_in be (sector sd) (de_sector e)" by (rule openedE)
  let ?h = "hdr_in be (sector sd) (de_sector e)" and ?s = "nat (de_sector e)" and ?C = "\<lambda>t. claims be (sector sd) t"
  note ap = file_apart [OF inv t(1,2)]
  have ok: "hdr_ok ?h" using ap(1) by (simp add: header_ok_def)
  have sys: "fs_sys be fs sd" using inv by (simp add: fs_inv_def)
  then have idle: "idle sd" by (simp add: fs_sys_def)
  have m: "m = min n (nat (fh_numBytes ?h) - p)" using length_file_bytes [OF ok] by (simp add: m_def old_def t(4))
  from WriteAt_ok [OF ok idle pn, of junk] obtain sd' where sd': "File_WriteAt junk ?h src (int n) (int p) sd = Inr (int m, sd')" "idle sd'"
    "file_bytes ?h (sector sd') = patch p (take m src) old" "\<And>x. x \<notin> set (sectors_of ?h) \<Longrightarrow> sector sd' x = sector sd x"
    unfolding m old_def t(4) by blast
  let ?sec = "sector sd'"
  have D: "set (sectors_of ?h) \<subseteq> set (owned be (sector sd) (de_sector e))" by (auto simp: owned_def)
  have keep: "?sec x = sector sd x" if "x \<in> insert ?s (set (system_sectors fs) \<union> set (?C t1) \<union> set (?C t2))" for x
    using that ap(2-5) D by (intro sd'(4)) (auto simp: owned_def)
  have sys': "fs_sys be fs sd'" by (rule fs_sys_keep [OF sys sd'(2)]) (auto intro!: keep simp: system_sectors_def)
  have dir: "fs_dir be fs sd' = t1 @ e # t2" and mp: "fs_map be fs sd' = fs_map be fs sd"
    using fs_dir_cong [of fs sd' sd be] fs_map_cong [of fs sd' sd be] keep t(1) by (auto simp: system_sectors_def)
  have c: "claims be ?sec t1 = ?C t1" "claims be ?sec t2 = ?C t2" using keep by (auto intro!: claims_cong)
  have he: "hdr_in be ?sec (de_sector e) = ?h" "owned be ?sec (de_sector e) = owned be (sector sd) (de_sector e)"
    using keep by (auto intro!: hdr_in_cong owned_cong)
  have "header_ok be ?sec (de_sector e')" if "e' \<in> set (live_entries (t1 @ e # t2))" for e'
  proof (cases "e' = e")
    case True
    then show ?thesis using ap(1) he(1) by (simp add: header_ok_def)
  next
    case False
    with that have "e' \<in> set (live_entries t1) \<or> e' \<in> set (live_entries t2)" by (auto split: if_splits)
    then have "header_ok be ?sec (de_sector e') = header_ok be (sector sd) (de_sector e')"
      using keep hdr_in_live(3) [of be "sector sd" t1 ?sec e'] hdr_in_live(3) [of be "sector sd" t2 ?sec e'] by auto
    then show ?thesis using inv t that by (auto simp: fs_inv_def)
  qed
  then have "fs_inv be fs sd'" using inv sys' t c he by (simp add: fs_inv_def dir mp)
  moreover have "files_of be ?sec t1 = files_of be (sector sd) t1" "files_of be ?sec t2 = files_of be (sector sd) t2"
    using keep by (auto intro!: files_cong)
  then have "fs_files be fs sd' = (fs_files be fs sd)(key name \<mapsto> patch p (take m src) old)"
    using t(1-3) ap(6,7) he(1) sd'(3) by (auto simp: fs_files_def dir files_append files_Cons map_add_def fun_eq_iff split: option.split)
  moreover have "headers_of be ?sec t1 = headers_of be (sector sd) t1" "headers_of be ?sec t2 = headers_of be (sector sd) t2"
    using keep by (auto intro!: headers_cong)
  then have "fs_headers be fs sd' = fs_headers be fs sd"
    using t(1,2) he(1) by (simp add: fs_headers_def dir headers_append headers_Cons)
  moreover have "opened be fs sd' name f"
    using op he(1) t(4) dir t(1-3) ap(6) by (auto simp: opened_def dir_map_append dir_map_Cons map_add_def files_of_def split: option.splits)
  ultimately show ?thesis using sd'(1) t(4) by auto
qed

section \<open>Formatting and mounting a disk\<close>

lemma open_files_ok:
  assumes "idle sd"
  shows "\<exists>sd'. open_files be sd = Inr (\<lparr>freeMapFile = \<lparr>of_hdr = hdr_at be (sector sd 0), seekPosition = 0\<rparr>,
      directoryFile = \<lparr>of_hdr = hdr_at be (sector sd 1), seekPosition = 0\<rparr>\<rparr>, sd') \<and> idle sd' \<and> sector sd' = sector sd"
proof -
  from Header_FetchFrom_ok [OF assms, of 0 be] obtain sd1 where
    "Header_FetchFrom be 0 sd = Inr (hdr_at be (sector sd 0), sd1)" "idle sd1" "sector sd1 = sector sd" by (auto simp: NumSectors_1024)
  moreover from Header_FetchFrom_ok [OF this(2), of 1 be] this(3) obtain sd2 where
    "Header_FetchFrom be 1 sd1 = Inr (hdr_at be (sector sd 1), sd2)" "idle sd2" "sector sd2 = sector sd" by (auto simp: NumSectors_1024)
  ultimately show ?thesis by (simp add: open_files_def File_new_def FreeMapSector_def DirectorySector_def)
qed

lemma mount_ok:
  assumes "fs_inv be fs sd"
  shows "\<exists>sd'. FileSystem_new be j False sd = Inr (fs, sd') \<and> fs_inv be fs sd' \<and> fs_files be fs sd' = fs_files be fs sd
    \<and> fs_headers be fs sd' = fs_headers be fs sd"
proof -
  have sys: "fs_sys be fs sd" using assms by (simp add: fs_inv_def)
  then have fs: "\<lparr>freeMapFile = \<lparr>of_hdr = hdr_at be (sector sd 0), seekPosition = 0\<rparr>,
      directoryFile = \<lparr>of_hdr = hdr_at be (sector sd 1), seekPosition = 0\<rparr>\<rparr> = fs" by (simp add: fs_sys_def)
  have "idle sd" using sys by (simp add: fs_sys_def)
  from open_files_ok [OF this, of be] obtain sd' where "open_files be sd = Inr (fs, sd')" "idle sd'" "sector sd' = sector sd"
    unfolding fs by blast
  then show ?thesis using fs_unchanged [of sd' sd be fs] assms by (simp add: FileSystem_new_def)
qed

text \<open>The headers of the two files, allocated on an empty disk.\<close>

lemma format_headers:
  assumes "junk_ok j"
  shows "\<exists>b0 b1 b2 b3 mh b4 dh. BitMap_new (j_words j) (nat NumSectors) = Inr b0 \<and> BitMap_Mark FreeMapSector b0 = Inr b1
    \<and> BitMap_Mark DirectorySector b1 = Inr b2 \<and> Allocate FreeMapFileSize b2 (j_header j) = Inr (True, b3, mh)
    \<and> Allocate DirectoryFileSize b3 (j_header j) = Inr (True, b4, dh) \<and> bitmap_inv b4 \<and> numBits b4 = 1024
    \<and> hdr_ok mh \<and> hdr_ok dh \<and> c_ints mh \<and> c_ints dh \<and> fh_numBytes mh = 128 \<and> fh_numBytes dh = 200
    \<and> distinct ([0, 1] @ sectors_of mh @ sectors_of dh) \<and> marked b4 = set ([0, 1] @ sectors_of mh @ sectors_of dh)"
proof -
  have jh: "length (dataSectors (j_header j)) = NumDirect" "c_ints (j_header j)" using assms by (simp_all add: junk_ok_def c_ints_def)
  from BitMap_new_ok [of "j_words j" 1024] obtain b0 where
    b0: "BitMap_new (j_words j) 1024 = Inr b0" "bitmap_inv b0" "numBits b0 = 1024" "marked b0 = {}" by blast
  from Mark_ok [OF b0(2), of 0] b0 obtain b1 where
    b1: "BitMap_Mark 0 b0 = Inr b1" "bitmap_inv b1" "numBits b1 = 1024" "marked b1 = {0}" by auto
  from Mark_ok [OF b1(2), of 1] b1 obtain b2 where
    b2: "BitMap_Mark 1 b1 = Inr b2" "bitmap_inv b2" "numBits b2 = 1024" "marked b2 = {0, 1}" by auto
  have "card ({..<1024} - {0, 1 :: nat}) = 1022" by (subst card_Diff_subset) auto
  then have f2: "sectors_for 128 \<le> int (card ({..<numBits b2} - marked b2))"
    by (simp add: b2 sectors_for_nat divRoundUp_def SectorSize_128)
  from Allocate_ok [OF b2(2) _ jh(1) _ _ f2] b2(3) jh(2) obtain b3 mh where
    b3: "Allocate 128 b2 (j_header j) = Inr (True, b3, mh)" "bitmap_inv b3" "numBits b3 = 1024" "hdr_ok mh" "fh_numBytes mh = 128"
      "set (sectors_of mh) \<inter> marked b2 = {}" "marked b3 = marked b2 \<union> set (sectors_of mh)" "c_ints mh"
    by (auto simp: sizes MaxFileSize_def NumDirect_30 SectorSize_128)
  have "length (sectors_of mh) = 1" using length_sectors_of [OF b3(4)] b3(5) by (simp add: divRoundUp_def SectorSize_128)
  then obtain x where x: "sectors_of mh = [x]" by (cases "sectors_of mh") auto
  have "card (marked b3) \<le> 3" unfolding b3(7) x b2(4) by (auto simp: card_insert_if)
  moreover have "card ({..<1024} - marked b3) = 1024 - card (marked b3)"
    using marked_subset [of b3] b3(3) by (subst card_Diff_subset) (auto intro: finite_subset)
  ultimately have f3: "sectors_for 200 \<le> int (card ({..<numBits b3} - marked b3))"
    by (simp add: b3(3) sectors_for_nat divRoundUp_def SectorSize_128)
  from Allocate_ok [OF b3(2) _ jh(1) _ _ f3] b3(3) jh(2) obtain b4 dh where
    b4: "Allocate 200 b3 (j_header j) = Inr (True, b4, dh)" "bitmap_inv b4" "numBits b4 = 1024" "hdr_ok dh" "fh_numBytes dh = 200"
      "set (sectors_of dh) \<inter> marked b3 = {}" "marked b4 = marked b3 \<union> set (sectors_of dh)" "c_ints dh"
    by (auto simp: sizes MaxFileSize_def NumDirect_30 SectorSize_128)
  have dd: "distinct (sectors_of mh)" "distinct (sectors_of dh)" using b3(4) b4(4) by (simp_all add: hdr_ok_def)
  have nin: "0 \<notin> set (sectors_of mh)" "1 \<notin> set (sectors_of mh)" "0 \<notin> set (sectors_of dh)" "1 \<notin> set (sectors_of dh)"
    "set (sectors_of mh) \<inter> set (sectors_of dh) = {}" using b3(6) b4(6) unfolding b3(7) b2(4) by blast+
  have "distinct ([0, 1] @ sectors_of mh @ sectors_of dh)" "marked b4 = set ([0, 1] @ sectors_of mh @ sectors_of dh)"
    using nin dd b4(7) by (simp_all add: b3(7) b2(4) Int_commute Un_assoc)
  then show ?thesis
    unfolding sizes FreeMapSector_def DirectorySector_def
    by (intro exI conjI) (rule b0(1) b1(1) b2(1) b3(1) b4(1) b4(2,3) b3(4) b4(4) b3(8) b4(8) b3(5) b4(5) | assumption)+
qed

lemma format_ok:
  assumes "idle sd" "junk_ok j"
  shows "\<exists>fs sd'. FileSystem_new be j True sd = Inr (fs, sd') \<and> fs_inv be fs sd' \<and> fs_files be fs sd' = Map.empty"
proof -
  from format_headers [OF assms(2)] obtain b0 b1 b2 b3 mh b dh where
    hs: "BitMap_new (j_words j) (nat NumSectors) = Inr b0" "BitMap_Mark FreeMapSector b0 = Inr b1"
      "BitMap_Mark DirectorySector b1 = Inr b2" "Allocate FreeMapFileSize b2 (j_header j) = Inr (True, b3, mh)"
      "Allocate DirectoryFileSize b3 (j_header j) = Inr (True, b, dh)"
    and b: "bitmap_inv b" "numBits b = 1024" "marked b = set ([0, 1] @ sectors_of mh @ sectors_of dh)"
    and h: "hdr_ok mh" "hdr_ok dh" "c_ints mh" "c_ints dh" "fh_numBytes mh = 128" "fh_numBytes dh = 200"
      "distinct ([0, 1] @ sectors_of mh @ sectors_of dh)" by blast
  have len: "length (dataSectors mh) = NumDirect" "length (dataSectors dh) = NumDirect" using h by (simp_all add: hdr_ok_def)
  from Header_WriteBack_ok [OF assms(1) _ _ len(1), of FreeMapSector be] obtain sd1 where
    sd1: "Header_WriteBack be FreeMapSector mh sd = Inr sd1" "idle sd1" "sector sd1 = (sector sd)(0 := hdr_bytes be mh)"
    by (auto simp: FreeMapSector_def NumSectors_1024)
  from Header_WriteBack_ok [OF sd1(2) _ _ len(2), of DirectorySector be] obtain sd2 where
    sd2: "Header_WriteBack be DirectorySector dh sd1 = Inr sd2" "idle sd2" "sector sd2 = (sector sd1)(1 := hdr_bytes be dh)"
    by (auto simp: DirectorySector_def NumSectors_1024)
  have at: "hdr_at be (sector sd2 0) = mh" "hdr_at be (sector sd2 1) = dh"
    using sd1(3) sd2(3) hdr_roundtrip h(3,4) by simp_all
  define fs where "fs = \<lparr>freeMapFile = \<lparr>of_hdr = mh, seekPosition = 0\<rparr>, directoryFile = \<lparr>of_hdr = dh, seekPosition = 0\<rparr>\<rparr>"
  from open_files_ok [OF sd2(2), of be] obtain sd3 where
    sd3: "open_files be sd2 = Inr (fs, sd3)" "idle sd3" "sector sd3 = sector sd2" unfolding at fs_def by blast
  have sys: "fs_sys be fs sd3" using sd3 at h by (simp add: fs_sys_def fs_def system_sectors_def)
  let ?t = "Directory_new (j_entries j) NumDirEntries"
  have live: "live_entries ?t = []" by (simp add: live_entries_def Directory_new_def)
  have ent: "\<forall>e \<in> set ?t. entry_ok e" using assms(2) by (auto simp: Directory_new_def junk_ok_def entry_ok_def)
  from write_map [OF sys b(1,2), of "j_chars j"] obtain sd4 where
    sd4: "BitMap_WriteBack be (j_chars j) (map_hdr fs) b sd3 = Inr sd4" "fs_sys be fs sd4" "fs_map be fs sd4 = b" by blast
  from write_directory [OF sd4(2) _ ent, of "j_chars j"] sd4(3) obtain sd5 where
    sd5: "Directory_WriteBack be (j_chars j) (dir_hdr fs) ?t sd4 = Inr sd5" "fs_sys be fs sd5" "fs_map be fs sd5 = b" "fs_dir be fs sd5 = ?t"
    by (auto simp: Directory_new_def)
  have "fs_inv be fs sd5"
    using sd5 ent live b(3) h(7) by (simp add: fs_inv_def dir_ok_def claims_def system_sectors_def fs_def)
  moreover have "fs_files be fs sd5 = Map.empty"
    by (simp add: fs_files_def files_of_def sd5(4) dir_map_def live fun_eq_iff)
  moreover have "FileSystem_new be j True sd = Inr (fs, sd5)"
    using hs sd1(1) sd2(1) sd3(1) sd4(1) sd5(1) by (simp add: FileSystem_new_def)
  ultimately show ?thesis by blast
qed

section \<open>Properties\<close>

text \<open>The operations of the file system and of its open files, as a client calls them on arguments in range. The state is
  the set of the client's open files, each with the name it was opened under, and the disk. \<open>Open\<close> adds the file it returns;
  deleting an \<open>OpenFile\<close> takes it out; reads and writes go through a file in the set. The code has no count of the open
  files: \<open>Remove\<close> frees the sectors of a file that is still open, and a write through the old \<open>OpenFile\<close> would go to
  whatever uses them next. The client whose steps these are does not do that: \<open>Remove\<close> ends the use of the files opened
  under the name.\<close>

type_synonym client = "(bytes \<times> NachosFile) set \<times> SynchDisk"

inductive fs_step :: "bool \<Rightarrow> FileSystem \<Rightarrow> client \<Rightarrow> client \<Rightarrow> bool" for be fs where
  created: "junk_ok j \<Longrightarrow> 0 \<le> n \<Longrightarrow> n \<le> int MaxFileSize \<Longrightarrow> FS_Create be j fs name n sd = Inr (r, sd') \<Longrightarrow> fs_step be fs (H, sd) (H, sd')"
| removed: "FS_Remove be j fs name sd = Inr (r, sd') \<Longrightarrow> fs_step be fs (H, sd) ({x \<in> H. key (fst x) \<noteq> key name}, sd')"
| looked_up: "FS_Open be j fs name sd = Inr (f, sd') \<Longrightarrow> fs_step be fs (H, sd) (case f of None \<Rightarrow> H | Some f \<Rightarrow> insert (name, f) H, sd')"
| closed: "fs_step be fs (H, sd) (H - {x}, sd)"
| read_file: "(name, f) \<in> H \<Longrightarrow> p + n < 2 ^ 31 \<Longrightarrow> File_ReadAt (of_hdr f) (int n) (int p) sd = Inr (bs, sd') \<Longrightarrow> fs_step be fs (H, sd) (H, sd')"
| written: "(name, f) \<in> H \<Longrightarrow> p + n < 2 ^ 31 \<Longrightarrow> n \<le> length src \<Longrightarrow>
    File_WriteAt junk (of_hdr f) src (int n) (int p) sd = Inr (r, sd') \<Longrightarrow> fs_step be fs (H, sd) (H, sd')"
| mounted: "FileSystem_new be j False sd = Inr (fs', sd') \<Longrightarrow> fs_step be fs (H, sd) (H, sd')"

definition client_inv :: "bool \<Rightarrow> FileSystem \<Rightarrow> client \<Rightarrow> bool" where
  "client_inv be fs = (\<lambda>(H, sd). fs_inv be fs sd \<and> (\<forall>(name, f) \<in> H. opened be fs sd name f))"

lemma client_invI:
  assumes "fs_inv be fs sd'" "\<And>name f. (name, f) \<in> H' \<Longrightarrow> (name, f) \<in> H \<and> fs_headers be fs sd' (key name) = fs_headers be fs sd (key name)"
    "client_inv be fs (H, sd)"
  shows "client_inv be fs (H', sd')"
  using assms by (fastforce simp: client_inv_def opened_header)

lemma fs_step_inv: "fs_step be fs c c' \<Longrightarrow> client_inv be fs c \<Longrightarrow> client_inv be fs c'"
proof (induction rule: fs_step.induct)
  case (created j n name sd r sd' H)
  then have inv: "fs_inv be fs sd" by (simp add: client_inv_def)
  from FS_Create_ok [OF inv created.hyps(1-3), of name] created.hyps(4) have ok: "fs_inv be fs sd'" "r = can_create be fs sd name n"
    "r \<Longrightarrow> \<exists>h. fs_headers be fs sd' = (fs_headers be fs sd)(key name \<mapsto> h)" "\<not> r \<Longrightarrow> sector sd' = sector sd"
    by (auto split: if_splits)
  have "fs_headers be fs sd' (key n') = fs_headers be fs sd (key n')" if "(n', f) \<in> H" for n' f
  proof (cases r)
    case True
    have "fs_files be fs sd (key n') \<noteq> None" using created.prems that by (auto simp: client_inv_def opened_def files_None)
    moreover have "fs_files be fs sd (key name) = None" using True ok(2) by (simp add: can_create_def)
    ultimately have "key n' \<noteq> key name" by metis
    with ok(3) [OF True] show ?thesis by auto
  next
    case False
    with ok(1,4) show ?thesis by (simp add: fs_headers_def fs_dir_def)
  qed
  then show ?case by (intro client_invI [OF ok(1) _ created.prems]) blast
next
  case (removed j name sd r sd' H)
  then have "fs_inv be fs sd" by (simp add: client_inv_def)
  from FS_Remove_ok [OF this, of j name] removed.hyps have "fs_inv be fs sd'" "fs_headers be fs sd' = (fs_headers be fs sd)(key name := None)" by auto
  then show ?case by (intro client_invI [OF _ _ removed.prems]) auto
next
  case (looked_up j name sd f sd' H)
  then have inv: "fs_inv be fs sd" by (simp add: client_inv_def)
  from FS_Open_ok [OF inv, of j name] looked_up.hyps have ok: "idle sd'" "sector sd' = sector sd"
    "\<And>x. f = Some x \<Longrightarrow> opened be fs sd name x" by (auto split: option.splits)
  note u = fs_unchanged [OF ok(1,2), of be fs]
  show ?case using looked_up.prems u ok(3) by (cases f) (auto simp: client_inv_def opened_header)
next
  case (closed H sd x)
  then show ?case by (auto simp: client_inv_def)
next
  case (read_file name f H p n sd bs sd')
  then have "fs_inv be fs sd" "opened be fs sd name f" by (auto simp: client_inv_def)
  moreover from this have "idle sd" "hdr_ok (of_hdr f)" using opened_ok(1) by (auto simp: fs_inv_def fs_sys_def)
  with ReadAt_ok [of "of_hdr f" sd p n] read_file.hyps(2,3) have "idle sd'" "sector sd' = sector sd" by auto
  ultimately show ?case using fs_unchanged [of sd' sd be fs] by (intro client_invI [OF _ _ read_file.prems]) auto
next
  case (written name f H p n src junk sd r sd')
  then have "fs_inv be fs sd" "opened be fs sd name f" by (auto simp: client_inv_def)
  from fs_write_ok [OF this written.hyps(2,3), of junk] written.hyps(4) have "fs_inv be fs sd'" "fs_headers be fs sd' = fs_headers be fs sd" by auto
  then show ?case by (intro client_invI [OF _ _ written.prems]) auto
next
  case (mounted j sd fs' sd' H)
  then have "fs_inv be fs sd" by (simp add: client_inv_def)
  from mount_ok [OF this, of j] mounted.hyps have "fs_inv be fs sd'" "fs_headers be fs sd' = fs_headers be fs sd" by auto
  then show ?case by (intro client_invI [OF _ _ mounted.prems]) auto
qed

text \<open>
  C2. The file system stays consistent. Formatting any idle disk succeeds and gives a disk on which no two headers
  or data blocks share a sector and the bit map marks exactly the sectors in use. Every sequence of creations
  (up to \<open>MaxFileSize\<close> bytes), removals, opens, closes, reads, writes and remounts keeps it so, and keeps every open file
  the file of its name, as long as the client reads and writes only through files it has opened and no longer through a file
  whose name it has removed since: the code does not guard against the use of an \<open>OpenFile\<close> after its file is removed.
\<close>

theorem file_system_consistent:
  assumes "idle sd" "junk_ok j"
  shows "\<exists>fs sd0. FileSystem_new be j True sd = Inr (fs, sd0) \<and> (\<forall>H sd'. (fs_step be fs)\<^sup>*\<^sup>* ({}, sd0) (H, sd') \<longrightarrow>
      fs_inv be fs sd' \<and> (\<forall>name f. (name, f) \<in> H \<longrightarrow> opened be fs sd' name f))"
proof -
  from format_ok [OF assms, of be] obtain fs sd0 where "FileSystem_new be j True sd = Inr (fs, sd0)" "fs_inv be fs sd0" by blast
  moreover have "client_inv be fs c" if "(fs_step be fs)\<^sup>*\<^sup>* ({}, sd0) c" for c
    using that by (induction rule: rtranclp_induct) (simp add: client_inv_def \<open>fs_inv be fs sd0\<close>, rule fs_step_inv)
  ultimately show ?thesis by (fastforce simp: client_inv_def)
qed

definition blank_junk :: junk where
  "blank_junk = \<lparr>j_chars = (\<lambda>_. 7), j_words = (\<lambda>_. 5),
     j_entries = (\<lambda>_. \<lparr>inUse = True, de_sector = 3, de_name = replicate 10 65, de_pad = replicate 5 1\<rparr>),
     j_header = \<lparr>fh_numBytes = 9, fh_numSectors = 9, dataSectors = replicate 30 9\<rparr>\<rparr>"

lemma blank_junk_ok: "junk_ok blank_junk"
  by (simp add: blank_junk_def junk_ok_def c_ints_def entry_ok_def NumDirect_30 c_int_def)

lemma create_refines:
  assumes "fs_inv be fs sd" "junk_ok j" "0 \<le> len" "len \<le> int MaxFileSize"
  shows "\<exists>sd'. FS_Create be j fs name len sd = Inr (can_create be fs sd name len, sd') \<and> fs_inv be fs sd'
      \<and> (if can_create be fs sd name len
         then \<exists>bs. length bs = nat len \<and> fs_files be fs sd' = (fs_files be fs sd)(key name \<mapsto> bs)
         else fs_files be fs sd' = fs_files be fs sd)"
proof -
  from FS_Create_ok [OF assms, of name] obtain sd' where c: "FS_Create be j fs name len sd = Inr (can_create be fs sd name len, sd')" "fs_inv be fs sd'"
    and d: "if can_create be fs sd name len
       then \<exists>bs h. length bs = nat len \<and> fs_files be fs sd' = (fs_files be fs sd)(key name \<mapsto> bs)
          \<and> fs_headers be fs sd' = (fs_headers be fs sd)(key name \<mapsto> h)
       else sector sd' = sector sd" by blast
  show ?thesis
  proof (cases "can_create be fs sd name len")
    case True
    with c d show ?thesis by auto
  next
    case False
    then have "fs_files be fs sd' = fs_files be fs sd" using d by (simp add: fs_files_def fs_dir_def)
    with c False show ?thesis by auto
  qed
qed

lemma remove_refines:
  assumes "fs_inv be fs sd"
  shows "\<exists>sd'. FS_Remove be j fs name sd = Inr (key name \<in> dom (fs_files be fs sd), sd') \<and> fs_inv be fs sd'
      \<and> fs_files be fs sd' = (fs_files be fs sd)(key name := None)"
  using FS_Remove_ok [OF assms, of j name] by (auto simp: domIff)

lemma open_refines:
  assumes "fs_inv be fs sd"
  shows "\<exists>f sd'. FS_Open be j fs name sd = Inr (f, sd') \<and> fs_inv be fs sd' \<and> fs_files be fs sd' = fs_files be fs sd
      \<and> (case f of None \<Rightarrow> key name \<notin> dom (fs_files be fs sd) | Some f \<Rightarrow> opened be fs sd' name f)"
proof -
  from FS_Open_ok [OF assms, of j name] obtain f sd' where o: "FS_Open be j fs name sd = Inr (f, sd')" "idle sd'" "sector sd' = sector sd"
    "case f of None \<Rightarrow> fs_files be fs sd (key name) = None | Some f \<Rightarrow> opened be fs sd name f \<and> seekPosition f = 0" by blast
  then show ?thesis using fs_unchanged [OF o(2,3), of be fs] assms by (auto simp: domIff opened_def fs_dir_def split: option.splits)
qed

lemma read_write_refines:
  assumes "fs_inv be fs sd" "p + n < 2 ^ 31" "n \<le> length src" "opened be fs sd name f"
  shows "\<exists>bs sd1 sd2. fs_files be fs sd (key name) = Some bs
      \<and> File_ReadAt (of_hdr f) (int n) (int p) sd = Inr (take n (drop p bs), sd1) \<and> fs_inv be fs sd1 \<and> fs_files be fs sd1 = fs_files be fs sd
      \<and> File_WriteAt junk (of_hdr f) src (int n) (int p) sd = Inr (int (min n (length bs - p)), sd2) \<and> fs_inv be fs sd2
      \<and> opened be fs sd2 name f \<and> fs_files be fs sd2 = (fs_files be fs sd)(key name \<mapsto> patch p (take (min n (length bs - p)) src) bs)"
proof -
  have "idle sd" using assms(1) by (simp add: fs_inv_def fs_sys_def)
  from ReadAt_ok [OF opened_ok(1) [OF assms(4,1)] this assms(2)] obtain sd1 where
    sd1: "File_ReadAt (of_hdr f) (int n) (int p) sd = Inr (take n (drop p (file_bytes (of_hdr f) (sector sd))), sd1)"
    "idle sd1" "sector sd1 = sector sd" by blast
  from fs_write_ok [OF assms(1,4,2,3), of junk] opened_ok(2) [OF assms(4,1)] sd1(1) fs_unchanged [OF sd1(2,3), of be fs] assms(1)
  show ?thesis by blast
qed

lemma mount_refines:
  assumes "fs_inv be fs sd"
  shows "\<exists>sd'. FileSystem_new be j False sd = Inr (fs, sd') \<and> fs_inv be fs sd' \<and> fs_files be fs sd' = fs_files be fs sd"
  using mount_ok [OF assms, of j] by blast

text \<open>
  C1. The file system is a map from names, cut to nine characters, to files. On a consistent disk \<open>Create\<close>
  succeeds exactly when the name is free, a directory entry is free and there are sectors for the header and the data,
  adds a file of the given length and changes no other; \<open>Remove\<close> succeeds exactly when there is such a file and
  deletes it alone; \<open>Open\<close> finds the file exactly when there is one; through an open file \<open>ReadAt\<close> returns
  the bytes of this file and \<open>WriteAt\<close> replaces them in this file alone; a new mount sees the same files.
\<close>

theorem file_system_refines_map:
  assumes "fs_inv be fs sd" "junk_ok j" "0 \<le> len" "len \<le> int MaxFileSize" "p + n < 2 ^ 31" "n \<le> length src"
  shows "(\<exists>sd'. FS_Create be j fs name len sd = Inr (can_create be fs sd name len, sd') \<and> fs_inv be fs sd'
      \<and> (if can_create be fs sd name len
         then \<exists>bs. length bs = nat len \<and> fs_files be fs sd' = (fs_files be fs sd)(key name \<mapsto> bs)
         else fs_files be fs sd' = fs_files be fs sd))
    \<and> (\<exists>sd'. FS_Remove be j fs name sd = Inr (key name \<in> dom (fs_files be fs sd), sd') \<and> fs_inv be fs sd'
      \<and> fs_files be fs sd' = (fs_files be fs sd)(key name := None))
    \<and> (\<exists>f sd'. FS_Open be j fs name sd = Inr (f, sd') \<and> fs_inv be fs sd' \<and> fs_files be fs sd' = fs_files be fs sd
      \<and> (case f of None \<Rightarrow> key name \<notin> dom (fs_files be fs sd) | Some f \<Rightarrow> opened be fs sd' name f))
    \<and> (\<forall>f. opened be fs sd name f \<longrightarrow> (\<exists>bs sd1 sd2. fs_files be fs sd (key name) = Some bs
      \<and> File_ReadAt (of_hdr f) (int n) (int p) sd = Inr (take n (drop p bs), sd1) \<and> fs_inv be fs sd1 \<and> fs_files be fs sd1 = fs_files be fs sd
      \<and> File_WriteAt junk (of_hdr f) src (int n) (int p) sd = Inr (int (min n (length bs - p)), sd2) \<and> fs_inv be fs sd2
      \<and> opened be fs sd2 name f \<and> fs_files be fs sd2 = (fs_files be fs sd)(key name \<mapsto> patch p (take (min n (length bs - p)) src) bs)))
    \<and> (\<exists>sd'. FileSystem_new be j False sd = Inr (fs, sd') \<and> fs_inv be fs sd' \<and> fs_files be fs sd' = fs_files be fs sd)"
  by (intro conjI allI impI create_refines [OF assms(1-4)] remove_refines [OF assms(1)] open_refines [OF assms(1)]
      read_write_refines [OF assms(1,5,6)] mount_refines [OF assms(1)])

lemma free_when_empty:
  assumes "fs_inv be fs sd" "fs_files be fs sd = Map.empty"
  shows "free_sectors be fs sd = 1019"
proof -
  have sys: "fs_sys be fs sd" "dir_ok (fs_dir be fs sd)" using assms(1) by (simp_all add: fs_inv_def)
  have "live_entries (fs_dir be fs sd) = []" using assms(2) card_files [OF sys(2)] dom_files [of be fs sd] by simp
  then have m: "marked (fs_map be fs sd) = set (system_sectors fs)" "distinct (system_sectors fs)"
    using assms(1) by (simp_all add: fs_inv_def claims_def)
  have "length (sectors_of (map_hdr fs)) = 1" "length (sectors_of (dir_hdr fs)) = 2"
    using sys(1) length_sectors_of [of "map_hdr fs"] length_sectors_of [of "dir_hdr fs"] by (simp_all add: fs_sys_def divRoundUp_def SectorSize_128)
  then have "card (marked (fs_map be fs sd)) = 5" using distinct_card [OF m(2)] m(1) by (simp add: system_sectors_def)
  moreover have "marked (fs_map be fs sd) \<subseteq> {..<1024}" using marked_subset [of "fs_map be fs sd"] by simp
  ultimately show ?thesis unfolding free_sectors_def by (subst card_Diff_subset) (auto intro: finite_subset)
qed

text \<open>A file is created, opened and written.\<close>

theorem file_system_consistent_witness:
  "\<exists>fs sd0 sd1 f sd2 sd3. FileSystem_new True blank_junk True blank_disk = Inr (fs, sd0)
     \<and> FS_Create True blank_junk fs [65, 0] 10 sd0 = Inr (True, sd1) \<and> FS_Open True blank_junk fs [65, 0] sd1 = Inr (Some f, sd2)
     \<and> File_WriteAt (\<lambda>_. 0) (of_hdr f) [1, 2, 3] 3 0 sd2 = Inr (3, sd3) \<and> fs_inv True fs sd3 \<and> opened True fs sd3 [65, 0] f"
proof -
  obtain fs sd0 where new: "FileSystem_new True blank_junk True blank_disk = Inr (fs, sd0)"
    and all: "\<forall>H sd'. (fs_step True fs)\<^sup>*\<^sup>* ({}, sd0) (H, sd') \<longrightarrow> fs_inv True fs sd' \<and> (\<forall>name f. (name, f) \<in> H \<longrightarrow> opened True fs sd' name f)"
    using file_system_consistent [OF blank_disk_idle blank_junk_ok] by blast
  have inv: "fs_inv True fs sd0" "fs_files True fs sd0 = Map.empty"
    using format_ok [OF blank_disk_idle blank_junk_ok, of True] new by auto
  have "can_create True fs sd0 [65, 0] 10"
    using free_when_empty [OF inv] inv(2) by (simp add: can_create_def NumDirEntries_def sectors_for_nat divRoundUp_def SectorSize_128)
  with create_refines [OF inv(1) blank_junk_ok, of 10 "[65, 0]"] obtain sd1 bs where
    c: "FS_Create True blank_junk fs [65, 0] 10 sd0 = Inr (True, sd1)" "fs_inv True fs sd1" "length bs = 10"
      "fs_files True fs sd1 = [key [65, 0] \<mapsto> bs]"
    by (auto simp: inv(2) MaxFileSize_def NumDirect_30 SectorSize_128)
  from open_refines [OF c(2), of blank_junk "[65, 0]"] c(4) obtain f sd2 where
    o: "FS_Open True blank_junk fs [65, 0] sd1 = Inr (Some f, sd2)" "fs_inv True fs sd2" "opened True fs sd2 [65, 0] f"
      "fs_files True fs sd2 = [key [65, 0] \<mapsto> bs]"
    by (auto split: option.splits)
  have b: "file_bytes (of_hdr f) (sector sd2) = bs" using opened_ok(2) [OF o(3,2)] o(4) by simp
  from fs_write_ok [OF o(2,3), of 0 3 "[1, 2, 3]" "\<lambda>_. 0"] obtain sd3 where w: "File_WriteAt (\<lambda>_. 0) (of_hdr f) [1, 2, 3] 3 0 sd2 = Inr (3, sd3)"
    by (auto simp: b c(3))
  have "fs_step True fs ({}, sd0) ({}, sd1)" by (rule fs_step.created [OF blank_junk_ok _ _ c(1)]) (simp_all add: MaxFileSize_def NumDirect_30 SectorSize_128)
  moreover have "fs_step True fs ({}, sd1) ({([65, 0], f)}, sd2)" using fs_step.looked_up [OF o(1), of "{}"] by simp
  moreover have "fs_step True fs ({([65, 0], f)}, sd2) ({([65, 0], f)}, sd3)"
    by (rule fs_step.written [where p = 0 and n = 3 and src = "[1, 2, 3]" and junk = "\<lambda>_. 0" and r = 3 and name = "[65, 0]" and f = f]) (simp_all add: w)
  ultimately have "(fs_step True fs)\<^sup>*\<^sup>* ({}, sd0) ({([65, 0], f)}, sd3)" by (meson converse_rtranclp_into_rtranclp r_into_rtranclp)
  with all have "fs_inv True fs sd3" "opened True fs sd3 [65, 0] f" by blast+
  with new c(1) o(1) w show ?thesis by blast
qed

theorem file_system_refines_map_witness:
  "\<exists>fs sd0 sd1. FileSystem_new True blank_junk True blank_disk = Inr (fs, sd0)
     \<and> FS_Create True blank_junk fs [65, 66] 300 sd0 = Inr (True, sd1) \<and> dom (fs_files True fs sd1) = {[65, 66]}"
proof -
  from format_ok [OF blank_disk_idle blank_junk_ok, of True] obtain fs sd0 where
    f: "FileSystem_new True blank_junk True blank_disk = Inr (fs, sd0)" "fs_inv True fs sd0" "fs_files True fs sd0 = Map.empty" by blast
  have k: "key [65, 66] = [65, 66]" by (simp add: key_def FileNameMaxLen_9)
  have len: "(300::int) \<le> int MaxFileSize" by (simp add: MaxFileSize_def NumDirect_30 SectorSize_128)
  have "can_create True fs sd0 [65, 66] 300"
    using free_when_empty [OF f(2,3)] f(3) by (simp add: can_create_def sectors_for_nat divRoundUp_def SectorSize_128 NumDirEntries_def)
  with file_system_refines_map [OF f(2) blank_junk_ok _ len, of 0 0 "[]" "[65, 66]" "\<lambda>_. 0"] f k show ?thesis by auto
qed

end
