(* ===== verification/File_Test.thy ===== *)
theory File_Test
  imports File_System_Props
begin

text \<open>
  The clients of the file system in \<open>filesys/fstest.cc\<close>: copying a UNIX file into the Nachos file system, printing a
  Nachos file, and the performance test. Both loops move ten bytes at a time through the seek position of an open file.

  A UNIX file is given by its contents, or \<open>None\<close> when it cannot be opened. The messages and characters the code
  prints are a list of \<open>fs_output\<close>. What is copied is what is printed; the performance test cannot write its file,
  because files of this file system do not grow.
\<close>

section \<open>The code\<close>

definition TransferSize :: nat where "TransferSize = 10"

datatype fs_output =
    Copy_no_input bytes | Copy_no_output bytes | Print_no_file bytes | Out_char "8 word" | Out_stats Statistics
  | Perf_start | Perf_write | Perf_read | Perf_no_create | Perf_no_open_write | Perf_no_write | Perf_no_open_read | Perf_no_read | Perf_no_remove

text \<open>The loop of \<open>Copy\<close>; what \<open>Write\<close> returns is ignored.\<close>

function copy_loop :: "(nat \<Rightarrow> 8 word) \<Rightarrow> bytes \<Rightarrow> NachosFile \<Rightarrow> SynchDisk \<Rightarrow> (NachosFile \<times> SynchDisk) result" where
  "copy_loop junk src f sd =
     (if src = [] then Inr (f, sd)
      else let buffer = take TransferSize src in
        rbind (File_Write junk buffer (int (length buffer)) f sd) (\<lambda>(_, f, sd). copy_loop junk (drop TransferSize src) f sd))"
  by pat_completeness auto
termination by (relation "measure (\<lambda>(junk, src, f, sd). length src)") (auto simp: TransferSize_def)

declare copy_loop.simps [simp del]

definition Copy :: "bool \<Rightarrow> junk \<Rightarrow> FileSystem \<Rightarrow> bytes \<Rightarrow> bytes option \<Rightarrow> bytes \<Rightarrow> SynchDisk \<Rightarrow> (fs_output list \<times> SynchDisk) result" where
  "Copy bigEndian j fs from unixFile to sd = (case unixFile of
       None \<Rightarrow> Inr ([Copy_no_input from], sd)
     | Some src \<Rightarrow> rbind (FS_Create bigEndian j fs to (int (length src)) sd) (\<lambda>(ok, sd).
         if \<not> ok then Inr ([Copy_no_output to], sd)
         else rbind (FS_Open bigEndian j fs to sd) (\<lambda>(openFile, sd).
              rbind (ASSERT (openFile \<noteq> None)) (\<lambda>_.
              rbind (copy_loop (j_chars j) src (the openFile) sd) (\<lambda>(_, sd). Inr ([], sd))))))"

lemma Read_advances:
  assumes "File_Read n f sd = Inr (bs, f', sd')" "bs \<noteq> []"
  shows "of_hdr f' = of_hdr f" "seekPosition f < FileLength (of_hdr f)" "seekPosition f < seekPosition f'"
proof -
  from assms(1) obtain sd1 where r: "File_ReadAt (of_hdr f) n (seekPosition f) sd = Inr (bs, sd1)"
    and f': "f' = f\<lparr>seekPosition := seekPosition f + int (length bs)\<rparr>" by (auto simp: File_Read_def rbind_eq_Inr)
  show "of_hdr f' = of_hdr f" "seekPosition f < seekPosition f'" using f' assms(2) by simp_all
  show "seekPosition f < FileLength (of_hdr f)"
  proof (rule ccontr)
    assume "\<not> seekPosition f < FileLength (of_hdr f)"
    then have "clip (of_hdr f) n (seekPosition f) = Inr None" by (simp add: clip_def Let_def)
    with r assms(2) show False by (simp add: File_ReadAt_def)
  qed
qed

function print_loop :: "NachosFile \<Rightarrow> SynchDisk \<Rightarrow> (bytes \<times> SynchDisk) result" where
  "print_loop f sd = rbind (File_Read (int TransferSize) f sd) (\<lambda>(bs, f', sd).
     if bs = [] then Inr ([], sd) else rbind (print_loop f' sd) (\<lambda>(rest, sd). Inr (bs @ rest, sd)))"
  by pat_completeness auto
termination
proof (relation "measure (\<lambda>(f, sd). nat (FileLength (of_hdr f) - seekPosition f))")
  fix f sd bs f' sd' and x :: "bytes \<times> NachosFile \<times> SynchDisk" and y
  assume "File_Read (int TransferSize) f sd = Inr x" "(bs, y) = x" "(f', sd') = y" "bs \<noteq> []"
  then have "File_Read (int TransferSize) f sd = Inr (bs, f', sd')" by auto
  from Read_advances [OF this \<open>bs \<noteq> []\<close>] show "((f', sd'), f, sd) \<in> measure (\<lambda>(f, sd). nat (FileLength (of_hdr f) - seekPosition f))" by simp
qed simp

declare print_loop.simps [simp del]

definition Print :: "bool \<Rightarrow> junk \<Rightarrow> FileSystem \<Rightarrow> bytes \<Rightarrow> SynchDisk \<Rightarrow> (fs_output list \<times> SynchDisk) result" where
  "Print bigEndian j fs name sd = rbind (FS_Open bigEndian j fs name sd) (\<lambda>(openFile, sd). case openFile of
       None \<Rightarrow> Inr ([Print_no_file name], sd)
     | Some f \<Rightarrow> rbind (print_loop f sd) (\<lambda>(bs, sd). Inr (map Out_char bs, sd)))"

text \<open>The performance test.\<close>

definition FileName :: bytes where "FileName = [84, 101, 115, 116, 70, 105, 108, 101]"
definition Contents :: bytes where "Contents = [49, 50, 51, 52, 53, 54, 55, 56, 57, 48]"

definition ContentSize :: nat where "ContentSize = length Contents"
definition FileSize :: nat where "FileSize = ContentSize * 5000"

primrec perf_write_loop :: "(nat \<Rightarrow> 8 word) \<Rightarrow> nat \<Rightarrow> NachosFile \<Rightarrow> SynchDisk \<Rightarrow> (fs_output list \<times> SynchDisk) result" where
  "perf_write_loop junk 0 f sd = Inr ([], sd)"
| "perf_write_loop junk (Suc k) f sd = rbind (File_Write junk Contents (int ContentSize) f sd) (\<lambda>(numBytes, f, sd).
     if numBytes < 10 then Inr ([Perf_no_write], sd) else perf_write_loop junk k f sd)"

definition FileWrite :: "bool \<Rightarrow> junk \<Rightarrow> FileSystem \<Rightarrow> SynchDisk \<Rightarrow> (fs_output list \<times> SynchDisk) result" where
  "FileWrite bigEndian j fs sd = rbind (FS_Create bigEndian j fs FileName 0 sd) (\<lambda>(ok, sd).
     if \<not> ok then Inr ([Perf_write, Perf_no_create], sd)
     else rbind (FS_Open bigEndian j fs FileName sd) (\<lambda>(openFile, sd). case openFile of
            None \<Rightarrow> Inr ([Perf_write, Perf_no_open_write], sd)
          | Some f \<Rightarrow> rbind (perf_write_loop (j_chars j) (FileSize div ContentSize) f sd) (\<lambda>(out, sd). Inr (Perf_write # out, sd))))"

primrec perf_read_loop :: "nat \<Rightarrow> NachosFile \<Rightarrow> SynchDisk \<Rightarrow> (fs_output list \<times> SynchDisk) result" where
  "perf_read_loop 0 f sd = Inr ([], sd)"
| "perf_read_loop (Suc k) f sd = rbind (File_Read (int ContentSize) f sd) (\<lambda>(buffer, f, sd).
     if length buffer < 10 \<or> strncmp ContentSize buffer Contents \<noteq> 0 then Inr ([Perf_no_read], sd) else perf_read_loop k f sd)"

definition FileRead :: "bool \<Rightarrow> junk \<Rightarrow> FileSystem \<Rightarrow> SynchDisk \<Rightarrow> (fs_output list \<times> SynchDisk) result" where
  "FileRead bigEndian j fs sd = rbind (FS_Open bigEndian j fs FileName sd) (\<lambda>(openFile, sd). case openFile of
       None \<Rightarrow> Inr ([Perf_read, Perf_no_open_read], sd)
     | Some f \<Rightarrow> rbind (perf_read_loop (FileSize div ContentSize) f sd) (\<lambda>(out, sd). Inr (Perf_read # out, sd)))"

definition PerformanceTest :: "bool \<Rightarrow> junk \<Rightarrow> FileSystem \<Rightarrow> SynchDisk \<Rightarrow> (fs_output list \<times> SynchDisk) result" where
  "PerformanceTest bigEndian j fs sd =
     (let first = [Perf_start, Out_stats (sd_stats sd)] in
      rbind (FileWrite bigEndian j fs sd) (\<lambda>(out1, sd).
      rbind (FileRead bigEndian j fs sd) (\<lambda>(out2, sd).
      rbind (FS_Remove bigEndian j fs FileName sd) (\<lambda>(ok, sd).
      Inr (first @ out1 @ out2 @ (if ok then [Out_stats (sd_stats sd)] else [Perf_no_remove]), sd)))))"

section \<open>Copying and printing\<close>

lemma Write_ok:
  assumes "fs_inv be fs sd" "opened be fs sd name f" "fs_files be fs sd (key name) = Some bs" "seekPosition f = int p"
    "p + length src \<le> length bs" "length bs < 2 ^ 31"
  shows "\<exists>sd' f'. File_Write junk src (int (length src)) f sd = Inr (int (length src), f', sd') \<and> fs_inv be fs sd' \<and> opened be fs sd' name f'
    \<and> seekPosition f' = int (p + length src) \<and> fs_files be fs sd' = (fs_files be fs sd)(key name \<mapsto> patch p src bs)"
proof -
  have r: "p + length src < 2 ^ 31" using assms(5,6) by linarith
  have m: "min (length src) (length bs - p) = length src" using assms(5) by simp
  from read_write_refines [OF assms(1) r order_refl assms(2), of junk] assms(3) m obtain sd' where
    w: "File_WriteAt junk (of_hdr f) src (int (length src)) (int p) sd = Inr (int (length src), sd')" "fs_inv be fs sd'"
    "opened be fs sd' name f" "fs_files be fs sd' = (fs_files be fs sd)(key name \<mapsto> patch p src bs)" by auto
  let ?f = "f\<lparr>seekPosition := int (p + length src)\<rparr>"
  have "File_Write junk src (int (length src)) f sd = Inr (int (length src), ?f, sd')" using w(1) assms(4) by (simp add: File_Write_def)
  moreover have "opened be fs sd' name ?f" using w(3) by (simp add: opened_def)
  ultimately show ?thesis using w(2,4) by (intro exI [of _ sd'] exI [of _ ?f]) simp
qed

lemma patch_upto: "p + length c \<le> length bs \<Longrightarrow> take (p + length c) (patch p c bs) = take p bs @ c"
  by (simp add: patch_def)

lemma copy_loop_ok:
  "fs_inv be fs sd \<Longrightarrow> opened be fs sd name f \<Longrightarrow> fs_files be fs sd (key name) = Some bs \<Longrightarrow> seekPosition f = int p
   \<Longrightarrow> p + length src = length bs \<Longrightarrow> length bs < 2 ^ 31
   \<Longrightarrow> \<exists>f' sd'. copy_loop junk src f sd = Inr (f', sd') \<and> fs_inv be fs sd' \<and> fs_files be fs sd' = (fs_files be fs sd)(key name \<mapsto> take p bs @ src)"
proof (induction junk src f sd arbitrary: bs p rule: copy_loop.induct)
  case (1 junk src f sd)
  show ?case
  proof (cases "src = []")
    case True
    with "1.prems" show ?thesis by (auto simp: copy_loop.simps [of junk "[]"] fun_upd_idem)
  next
    case False
    let ?c = "take TransferSize src" and ?r = "drop TransferSize src"
    have len: "p + length ?c \<le> length bs" "p + length ?c + length ?r = length bs" using "1.prems"(5) by (simp_all add: min_def)
    from Write_ok [OF "1.prems"(1-4) len(1) "1.prems"(6), of junk] obtain sd1 f1 where
      w: "File_Write junk ?c (int (length ?c)) f sd = Inr (int (length ?c), f1, sd1)" "fs_inv be fs sd1" "opened be fs sd1 name f1"
      "seekPosition f1 = int (p + length ?c)" "fs_files be fs sd1 = (fs_files be fs sd)(key name \<mapsto> patch p ?c bs)" by blast
    have pl: "length (patch p ?c bs) = length bs" using len(1) by simp
    have f1: "fs_files be fs sd1 (key name) = Some (patch p ?c bs)" using w(5) by simp
    from "1.IH" [OF False refl w(1) refl refl w(2,3) f1 w(4)] len(2) pl "1.prems"(6) obtain f' sd' where
      r: "copy_loop junk ?r f1 sd1 = Inr (f', sd')" "fs_inv be fs sd'"
      and "fs_files be fs sd' = (fs_files be fs sd1)(key name \<mapsto> take (p + length ?c) (patch p ?c bs) @ ?r)" by metis
    then have "fs_files be fs sd' = (fs_files be fs sd)(key name \<mapsto> take p bs @ src)"
      unfolding w(5) patch_upto [OF len(1)] by simp
    moreover have "copy_loop junk src f sd = Inr (f', sd')" using False w(1) r(1) by (simp add: copy_loop.simps [of junk src] Let_def)
    ultimately show ?thesis using r(2) by blast
  qed
qed

lemma Open_existing:
  assumes "fs_inv be fs sd" "fs_files be fs sd (key name) = Some bs"
  shows "\<exists>f sd'. FS_Open be j fs name sd = Inr (Some f, sd') \<and> fs_inv be fs sd' \<and> fs_files be fs sd' = fs_files be fs sd
    \<and> opened be fs sd' name f \<and> seekPosition f = 0"
proof -
  from FS_Open_ok [OF assms(1), of j name] assms(2) obtain f sd' where o: "FS_Open be j fs name sd = Inr (Some f, sd')" "idle sd'"
    "sector sd' = sector sd" "opened be fs sd name f" "seekPosition f = 0" by (auto split: option.splits)
  then have "opened be fs sd' name f" by (simp add: opened_def fs_dir_def)
  with o fs_unchanged [OF o(2,3), of be fs] assms(1) show ?thesis by auto
qed

lemma file_small:
  assumes "fs_inv be fs sd" "opened be fs sd name f" "fs_files be fs sd (key name) = Some bs"
  shows "length bs \<le> MaxFileSize"
proof -
  note ok = opened_ok [OF assms(2,1)]
  have "divRoundUp (nat (fh_numBytes (of_hdr f))) SectorSize \<le> NumDirect"
    using length_sectors_of [OF ok(1)] ok(1) by (simp add: sectors_of_def hdr_ok_def)
  then have "nat (fh_numBytes (of_hdr f)) \<le> NumDirect * SectorSize"
    using divRoundUp_ge [of SectorSize "nat (fh_numBytes (of_hdr f))"] mult_le_mono1 by (fastforce simp: SectorSize_128)
  then show ?thesis using ok(2) assms(3) length_file_bytes [OF ok(1), of sd] by (simp add: MaxFileSize_def)
qed

lemma Read_ok:
  assumes "fs_inv be fs sd" "opened be fs sd name f" "fs_files be fs sd (key name) = Some bs" "seekPosition f = int p" "p \<le> length bs" "n \<le> 10"
  shows "\<exists>sd' f'. File_Read (int n) f sd = Inr (take n (drop p bs), f', sd') \<and> fs_inv be fs sd' \<and> opened be fs sd' name f'
    \<and> seekPosition f' = int (p + length (take n (drop p bs))) \<and> fs_files be fs sd' = fs_files be fs sd"
proof -
  have r: "p + n < 2 ^ 31" using file_small [OF assms(1-3)] assms(5,6) by (simp add: MaxFileSize_def NumDirect_30 SectorSize_128)
  have "idle sd" using assms(1) by (simp add: fs_inv_def fs_sys_def)
  from ReadAt_ok [OF opened_ok(1) [OF assms(2,1)] this r] opened_ok(2) [OF assms(2,1)] assms(3) obtain sd' where
    sd': "File_ReadAt (of_hdr f) (int n) (int p) sd = Inr (take n (drop p bs), sd')" "idle sd'" "sector sd' = sector sd" by auto
  let ?f = "f\<lparr>seekPosition := int (p + length (take n (drop p bs)))\<rparr>"
  have "File_Read (int n) f sd = Inr (take n (drop p bs), ?f, sd')" using sd'(1) assms(4) by (simp add: File_Read_def)
  moreover have "opened be fs sd' name ?f" using assms(2) sd'(3) by (simp add: opened_def fs_dir_def)
  ultimately show ?thesis using fs_unchanged [OF sd'(2,3), of be fs] assms(1) by (intro exI [of _ sd'] exI [of _ ?f]) simp
qed

lemma print_loop_ok:
  "fs_inv be fs sd \<Longrightarrow> opened be fs sd name f \<Longrightarrow> fs_files be fs sd (key name) = Some bs \<Longrightarrow> seekPosition f = int p \<Longrightarrow> p \<le> length bs
   \<Longrightarrow> \<exists>sd'. print_loop f sd = Inr (drop p bs, sd') \<and> fs_inv be fs sd' \<and> fs_files be fs sd' = fs_files be fs sd"
proof (induction f sd arbitrary: p rule: print_loop.induct)
  case (1 f sd)
  let ?c = "take TransferSize (drop p bs)"
  from Read_ok [OF "1.prems", of TransferSize] obtain sd1 f1 where
    r: "File_Read (int TransferSize) f sd = Inr (?c, f1, sd1)" "fs_inv be fs sd1" "opened be fs sd1 name f1" "seekPosition f1 = int (p + length ?c)"
    "fs_files be fs sd1 = fs_files be fs sd" by (auto simp: TransferSize_def)
  show ?case
  proof (cases "?c = []")
    case True
    then have "drop p bs = []" by (simp add: TransferSize_def)
    with True r "1.prems" show ?thesis by (simp add: print_loop.simps [of f sd])
  next
    case False
    have b1: "fs_files be fs sd1 (key name) = Some bs" using r(5) "1.prems"(3) by simp
    have "p + length ?c \<le> length bs" using "1.prems"(5) by (auto simp: min_def)
    from "1.IH" [OF r(1) refl refl False r(2,3) b1 r(4) this] obtain sd2 where
      "print_loop f1 sd1 = Inr (drop (p + length ?c) bs, sd2)" "fs_inv be fs sd2" "fs_files be fs sd2 = fs_files be fs sd1"
      by blast
    moreover have "?c @ drop (p + length ?c) bs = drop p bs"
      by (metis append_take_drop_id drop_drop add.commute drop_eq_Nil length_take min_def nat_le_linear take_all)
    ultimately show ?thesis using False r(1,5) by (simp add: print_loop.simps [of f sd])
  qed
qed

text \<open>C6. What is copied is what is printed. On a consistent disk with room for the file, \<open>Copy\<close> adds a file with exactly
  the contents of the UNIX file, in pieces of ten bytes, and changes no other; \<open>Print\<close> then ends and writes these
  contents, character by character, and changes nothing.\<close>

theorem copy_then_print:
  assumes "fs_inv be fs sd" "junk_ok j" "length src \<le> MaxFileSize" "can_create be fs sd to (int (length src))"
  shows "\<exists>sd1 sd2. Copy be j fs from (Some src) to sd = Inr ([], sd1) \<and> fs_inv be fs sd1
    \<and> fs_files be fs sd1 = (fs_files be fs sd)(key to \<mapsto> src)
    \<and> Print be j fs to sd1 = Inr (map Out_char src, sd2) \<and> fs_inv be fs sd2 \<and> fs_files be fs sd2 = fs_files be fs sd1"
proof -
  have len: "int (length src) \<le> int MaxFileSize" "length src < 2 ^ 31" using assms(3) by (simp_all add: MaxFileSize_def NumDirect_30 SectorSize_128)
  from create_refines [OF assms(1,2) _ len(1), of to] assms(4) obtain sda bs where
    a: "FS_Create be j fs to (int (length src)) sd = Inr (True, sda)" "fs_inv be fs sda" "length bs = length src"
    "fs_files be fs sda = (fs_files be fs sd)(key to \<mapsto> bs)" by auto
  have fa: "fs_files be fs sda (key to) = Some bs" by (simp add: a(4))
  from Open_existing [OF a(2) fa, of j] obtain f sdb where
    b: "FS_Open be j fs to sda = Inr (Some f, sdb)" "fs_inv be fs sdb" "fs_files be fs sdb = fs_files be fs sda" "opened be fs sdb to f"
    "seekPosition f = int 0" by auto
  from copy_loop_ok [OF b(2,4) _ b(5), of bs src "j_chars j"] fa b(3) a(3) len(2) obtain f' sd1 where
    c: "copy_loop (j_chars j) src f sdb = Inr (f', sd1)" "fs_inv be fs sd1" "fs_files be fs sd1 = (fs_files be fs sd)(key to \<mapsto> src)"
    using a(4) by auto
  have copy: "Copy be j fs from (Some src) to sd = Inr ([], sd1)" using a(1) b(1) c(1) by (simp add: Copy_def)
  have f1: "fs_files be fs sd1 (key to) = Some src" by (simp add: c(3))
  from Open_existing [OF c(2) f1, of j] obtain g sdc where
    d: "FS_Open be j fs to sd1 = Inr (Some g, sdc)" "fs_inv be fs sdc" "fs_files be fs sdc = fs_files be fs sd1" "opened be fs sdc to g"
    "seekPosition g = int 0" by auto
  from print_loop_ok [OF d(2,4) _ d(5), of src] f1 d(3) obtain sd2 where
    e: "print_loop g sdc = Inr (src, sd2)" "fs_inv be fs sd2" "fs_files be fs sd2 = fs_files be fs sd1" by auto
  have "Print be j fs to sd1 = Inr (map Out_char src, sd2)" using d(1) e(1) by (simp add: Print_def)
  with copy c(2,3) e(2,3) show ?thesis by blast
qed

theorem copy_then_print_witness:
  "\<exists>fs sd0 sd1 sd2. FileSystem_new True blank_junk True blank_disk = Inr (fs, sd0)
     \<and> Copy True blank_junk fs [97] (Some [72, 105]) [65, 66] sd0 = Inr ([], sd1)
     \<and> Print True blank_junk fs [65, 66] sd1 = Inr ([Out_char 72, Out_char 105], sd2)"
proof -
  from format_ok [OF blank_disk_idle blank_junk_ok, of True] obtain fs sd0 where
    f: "FileSystem_new True blank_junk True blank_disk = Inr (fs, sd0)" "fs_inv True fs sd0" "fs_files True fs sd0 = Map.empty" by blast
  have "can_create True fs sd0 [65, 66] (int (length [72, 105 :: 8 word]))"
    using free_when_empty [OF f(2,3)] f(3) by (simp add: can_create_def sectors_for_nat divRoundUp_def SectorSize_128 NumDirEntries_def)
  from copy_then_print [OF f(2) blank_junk_ok _ this, of "[97]"] f(1) show ?thesis
    by (auto simp: MaxFileSize_def NumDirect_30 SectorSize_128)
qed

text \<open>The performance test creates an empty file; files do not grow, so neither its first write nor its first read succeeds.\<close>

lemma performance_test_fails:
  assumes "fs_inv be fs sd" "junk_ok j" "can_create be fs sd FileName 0"
  shows "\<exists>sd' st. PerformanceTest be j fs sd
      = Inr ([Perf_start, Out_stats (sd_stats sd), Perf_write, Perf_no_write, Perf_read, Perf_no_read, Out_stats st], sd')
    \<and> fs_files be fs sd' = fs_files be fs sd"
proof -
  from create_refines [OF assms(1,2), of 0 FileName] assms(3) obtain sda where
    a: "FS_Create be j fs FileName 0 sd = Inr (True, sda)" "fs_inv be fs sda" "fs_files be fs sda = (fs_files be fs sd)(key FileName \<mapsto> [])" by auto
  have fa: "fs_files be fs sda (key FileName) = Some []" by (simp add: a(3))
  from Open_existing [OF a(2) fa, of j] obtain f sdb where
    b: "FS_Open be j fs FileName sda = Inr (Some f, sdb)" "fs_inv be fs sdb" "fs_files be fs sdb = fs_files be fs sda" "opened be fs sdb FileName f"
    "seekPosition f = int 0" by auto
  have fb: "fs_files be fs sdb (key FileName) = Some []" using b(3) fa by simp
  have cs: "ContentSize = 10" "FileSize div ContentSize = Suc 4999" by (simp_all add: ContentSize_def Contents_def FileSize_def)
  from read_write_refines [OF b(2) _ _ b(4), of 0 10 Contents "j_chars j"] fb obtain sdc where
    c: "File_WriteAt (j_chars j) (of_hdr f) Contents 10 0 sdb = Inr (0, sdc)" "fs_inv be fs sdc" "fs_files be fs sdc = fs_files be fs sdb"
    by (auto simp: Contents_def patch_def fun_upd_idem)
  have w: "FileWrite be j fs sd = Inr ([Perf_write, Perf_no_write], sdc)"
    unfolding FileWrite_def cs(2) perf_write_loop.simps using a(1) b(1,5) c(1) by (simp add: cs(1) File_Write_def)
  have fc: "fs_files be fs sdc (key FileName) = Some []" using c(3) fb by simp
  from Open_existing [OF c(2) fc, of j] obtain g sdd where
    d: "FS_Open be j fs FileName sdc = Inr (Some g, sdd)" "fs_inv be fs sdd" "fs_files be fs sdd = fs_files be fs sdc" "opened be fs sdd FileName g"
    "seekPosition g = int 0" by auto
  from Read_ok [OF d(2,4) _ d(5), of "[]" 10] fc d(3) obtain g' sde where
    e: "File_Read 10 g sdd = Inr ([], g', sde)" "fs_inv be fs sde" "fs_files be fs sde = fs_files be fs sdd" by auto
  have r: "FileRead be j fs sdc = Inr ([Perf_read, Perf_no_read], sde)"
    unfolding FileRead_def cs(2) perf_read_loop.simps using d(1) e(1) by (simp add: cs(1))
  have "key FileName \<in> dom (fs_files be fs sde)" using e(3) d(3) fc by (simp add: domIff)
  with remove_refines [OF e(2), of j FileName] obtain sdf where
    f: "FS_Remove be j fs FileName sde = Inr (True, sdf)" "fs_files be fs sdf = (fs_files be fs sde)(key FileName := None)" by auto
  have "fs_files be fs sdf = fs_files be fs sd" using f(2) e(3) d(3) c(3) b(3) a(3) assms(3) by (auto simp: can_create_def fun_upd_idem)
  then show ?thesis using w r f(1) by (auto simp: PerformanceTest_def Let_def)
qed

end
