(* ===== verification/Coff2noff.thy ===== *)
theory Coff2noff
  imports Addr_Space Host_Words
begin

text \<open>
  The tool that makes executables (\<open>bin/coff2noff.c\<close>): it reads a COFF object file and writes the NOFF file the loader
  of \<open>userprog/addrspace.cc\<close> reads. The input is the contents of the file; the result is the contents of the
  output file, or why the tool exits with an error.

  A \<open>long\<close> of the host has four bytes. Writing to the output succeeds; the header, which is written last at
  position 0, fills the hole the tool has left for it. What \<open>read\<close> does with a negative count is the host's
  business (\<open>Unspecified\<close>).

  Together with the loader: the code and the initialised data of the object file are in the memory of the program,
  at their addresses.
\<close>

section \<open>The code\<close>

datatype coff_exit = Too_short | Not_MIPSEL | Not_OMAGIC | Data_and_rdata | Bss_and_sbss | Unknown_segment | Unspecified

definition ebind :: "'e + 'a \<Rightarrow> ('a \<Rightarrow> 'e + 'b) \<Rightarrow> 'e + 'b" where
  "ebind r f = (case r of Inl e \<Rightarrow> Inl e | Inr x \<Rightarrow> f x)"

primrec each :: "('i \<Rightarrow> 's \<Rightarrow> 'e + 's) \<Rightarrow> 'i list \<Rightarrow> 's \<Rightarrow> 'e + 's" where
  "each body [] s = Inr s"
| "each body (i # is) s = ebind (body i s) (each body is)"

definition MIPSELMAGIC :: "16 word" where "MIPSELMAGIC = 0x0162"
definition OMAGIC :: "16 word" where "OMAGIC = 263"

text \<open>The fields of the headers that the tool looks at.\<close>

record filehdr =
  f_magic :: "16 word"
  f_nscns :: "16 word"

record scnhdr =
  s_name :: bytes
  s_paddr :: "32 word"
  s_size :: "32 word"
  s_scnptr :: "32 word"

definition filehdr_size :: nat where "filehdr_size = 20"
definition aouthdr_size :: nat where "aouthdr_size = 56"
definition scnhdr_size :: nat where "scnhdr_size = 40"

definition filehdr_at :: "bool \<Rightarrow> bytes \<Rightarrow> filehdr" where
  "filehdr_at bigEndian bs = \<lparr>f_magic = host_load16 bigEndian (\<lambda>k. bs ! k) 0, f_nscns = host_load16 bigEndian (\<lambda>k. bs ! k) 2\<rparr>"

definition scnhdr_at :: "bool \<Rightarrow> bytes \<Rightarrow> scnhdr" where
  "scnhdr_at bigEndian bs = \<lparr>s_name = take 8 bs, s_paddr = host_load32 bigEndian (\<lambda>k. bs ! k) 8, s_size = host_load32 bigEndian (\<lambda>k. bs ! k) 16,
     s_scnptr = host_load32 bigEndian (\<lambda>k. bs ! k) 20\<rparr>"

definition swap_section :: "bool \<Rightarrow> scnhdr \<Rightarrow> scnhdr" where
  "swap_section bigEndian s = s\<lparr>s_paddr := WordToHost bigEndian (s_paddr s), s_size := WordToHost bigEndian (s_size s),
     s_scnptr := WordToHost bigEndian (s_scnptr s)\<rparr>"

text \<open>\<open>Read\<close>: \<open>nBytes\<close> bytes from the position \<open>pos\<close> of the file, and the position after them.\<close>

definition Read :: "bytes \<Rightarrow> nat \<Rightarrow> nat \<Rightarrow> coff_exit + bytes \<times> nat" where
  "Read file pos nBytes = (if nBytes \<le> length file - pos then Inr (take nBytes (drop pos file), pos + nBytes) else Inl Too_short)"

text \<open>\<open>lseek\<close> to a negative position fails and leaves the position alone; the tool does not look at its result.\<close>

definition lseek :: "nat \<Rightarrow> 32 word \<Rightarrow> nat" where
  "lseek pos offset = (if 0 \<le> sint offset then nat (sint offset) else pos)"

text \<open>\<open>strcmp(s_name, lit) == 0\<close>; it stops within the eight bytes of \<open>s_name\<close>.\<close>

definition named_section :: "bytes \<Rightarrow> scnhdr \<Rightarrow> bool" where
  "named_section lit s \<longleftrightarrow> take (Suc (length lit)) (s_name s) = lit @ [0]"

definition text_section :: "scnhdr \<Rightarrow> bool" where
  "text_section s \<longleftrightarrow> named_section [46, 116, 101, 120, 116] s"

definition data_section :: "scnhdr \<Rightarrow> bool" where
  "data_section s \<longleftrightarrow> named_section [46, 100, 97, 116, 97] s \<or> named_section [46, 114, 100, 97, 116, 97] s"

definition bss_section :: "scnhdr \<Rightarrow> bool" where
  "bss_section s \<longleftrightarrow> named_section [46, 98, 115, 115] s \<or> named_section [46, 115, 98, 115, 115] s"

record conversion =
  cv_in :: nat
  cv_out :: bytes
  inNoffFile :: "32 word"
  noffH :: NoffHeader

definition copy_section :: "bytes \<Rightarrow> scnhdr \<Rightarrow> conversion \<Rightarrow> coff_exit + conversion" where
  "copy_section file s c = (if sint (s_size s) < 0 then Inl Unspecified
     else ebind (Read file (lseek (cv_in c) (s_scnptr s)) (nat (sint (s_size s)))) (\<lambda>(buffer, pos).
       Inr (c\<lparr>cv_in := pos, cv_out := cv_out c @ buffer, inNoffFile := inNoffFile c + s_size s\<rparr>)))"

definition convert_section :: "bytes \<Rightarrow> scnhdr \<Rightarrow> conversion \<Rightarrow> coff_exit + conversion" where
  "convert_section file s c =
     (let h = noffH c; seg = \<lparr>virtualAddr = s_paddr s, inFileAddr = inNoffFile c, seg_size = s_size s\<rparr> in
      if s_size s = 0 then Inr c
      else if text_section s then copy_section file s (c\<lparr>noffH := h\<lparr>noff_code := seg\<rparr>\<rparr>)
      else if data_section s then
        if seg_size (initData h) \<noteq> 0 then Inl Data_and_rdata
        else copy_section file s (c\<lparr>noffH := h\<lparr>initData := seg\<rparr>\<rparr>)
      else if bss_section s then
        if seg_size (uninitData h) \<noteq> 0 then
          if s_paddr s = virtualAddr (uninitData h) + seg_size (uninitData h) then Inl Bss_and_sbss
          else Inr (c\<lparr>noffH := h\<lparr>uninitData := (uninitData h)\<lparr>seg_size := seg_size (uninitData h) + s_size s\<rparr>\<rparr>\<rparr>)
        else Inr (c\<lparr>noffH := h\<lparr>uninitData := (uninitData h)\<lparr>virtualAddr := s_paddr s, seg_size := s_size s\<rparr>\<rparr>\<rparr>)
      else Inl Unknown_segment)"

definition segment_words :: "Segment \<Rightarrow> 32 word list" where
  "segment_words s = [virtualAddr s, inFileAddr s, seg_size s]"

definition noff_bytes :: "bool \<Rightarrow> NoffHeader \<Rightarrow> bytes" where
  "noff_bytes bigEndian h = words_bytes bigEndian
     (noffMagic h # segment_words (noff_code h) @ segment_words (initData h) @ segment_words (uninitData h))"

text \<open>The two headers and the section headers, with the position after them.\<close>

definition coff_sections :: "bool \<Rightarrow> bytes \<Rightarrow> coff_exit + scnhdr list \<times> nat" where
  "coff_sections bigEndian file =
     ebind (Read file 0 filehdr_size) (\<lambda>(buf, pos).
     let fileh = filehdr_at bigEndian buf in
     if ShortToHost bigEndian (f_magic fileh) \<noteq> MIPSELMAGIC then Inl Not_MIPSEL
     else ebind (Read file pos aouthdr_size) (\<lambda>(buf, pos).
       if ShortToHost bigEndian (host_load16 bigEndian (\<lambda>k. buf ! k) 0) \<noteq> OMAGIC then Inl Not_OMAGIC
       else let numsections = unat (ShortToHost bigEndian (f_nscns fileh)) in
         ebind (Read file pos (numsections * scnhdr_size)) (\<lambda>(buf, pos).
           Inr (map (\<lambda>i. swap_section bigEndian (scnhdr_at bigEndian (take scnhdr_size (drop (i * scnhdr_size) buf)))) [0..<numsections], pos))))"

text \<open>\<open>main\<close>; \<open>junk\<close> is what the local variable \<open>noffH\<close> held before.\<close>

definition coff2noff :: "bool \<Rightarrow> NoffHeader \<Rightarrow> bytes \<Rightarrow> coff_exit + bytes" where
  "coff2noff bigEndian junk file =
     ebind (coff_sections bigEndian file) (\<lambda>(sections, pos).
     let h = junk\<lparr>noffMagic := NOFFMAGIC, noff_code := (noff_code junk)\<lparr>seg_size := 0\<rparr>, initData := (initData junk)\<lparr>seg_size := 0\<rparr>,
               uninitData := (uninitData junk)\<lparr>seg_size := 0\<rparr>\<rparr> in
     ebind (each (convert_section file) sections \<lparr>cv_in = pos, cv_out = [], inNoffFile = 40, noffH = h\<rparr>) (\<lambda>c.
     Inr (noff_bytes bigEndian (noffH c) @ cv_out c)))"

section \<open>The header\<close>

lemma ebind_simps [simp]: "ebind (Inl e) f = Inl e" "ebind (Inr x) f = f x"
  by (simp_all add: ebind_def)

lemma ebind_eq_Inr: "ebind r f = Inr y \<longleftrightarrow> (\<exists>x. r = Inr x \<and> f x = Inr y)"
  by (cases r) auto

lemma each_append: "each body (xs @ ys) s = ebind (each body xs s) (each body ys)"
  by (induction xs arbitrary: s) (auto simp: ebind_def split: sum.split)

lemma length_noff_bytes [simp]: "length (noff_bytes be h) = 40"
  by (simp add: noff_bytes_def length_words_bytes segment_words_def)

lemma noff_header_back:
  assumes "noffMagic h = NOFFMAGIC"
  shows "read_header be junk (noff_bytes be h @ out) = Inr h"
proof -
  let ?ws = "noffMagic h # segment_words (noff_code h) @ segment_words (initData h) @ segment_words (uninitData h)"
  have len: "length ?ws = 10" by (simp add: segment_words_def)
  have w: "host_load32 be (overwrite 0 (noff_bytes be h) junk) (i * 4) = ?ws ! i" if "i < 10" for i
  proof -
    have "host_load32 be (overwrite 0 (noff_bytes be h) junk) (i * 4) = host_load32 be (\<lambda>k. noff_bytes be h ! k) (i * 4)"
      using that by (intro host_load32_cong) (simp add: overwrite_def)
    also have "\<dots> = words_at be 10 (noff_bytes be h) ! i" using that by (simp add: words_at_def)
    also have "\<dots> = ?ws ! i" using words_roundtrip [of be ?ws "[]"] unfolding len by (simp only: append_Nil2 noff_bytes_def)
    finally show ?thesis .
  qed
  have "header_at be (overwrite 0 (noff_bytes be h) junk) = h"
    using w [of 0] w [of 1] w [of 2] w [of 3] w [of 4] w [of 5] w [of 6] w [of 7] w [of 8] w [of 9]
    by (cases h) (simp add: header_at_def segment_at_def segment_words_def)
  then show ?thesis using assms by (simp add: read_header_def OpenFile_ReadAt_def Let_def)
qed

section \<open>Sections\<close>

lemma named_nth: "named_section lit s \<Longrightarrow> i < length lit \<Longrightarrow> s_name s ! i = lit ! i"
  unfolding named_section_def by (metis less_SucI nth_append nth_take)

lemma kinds_differ:
  "data_section s \<Longrightarrow> \<not> text_section s" "bss_section s \<Longrightarrow> \<not> text_section s" "bss_section s \<Longrightarrow> \<not> data_section s"
proof -
  have "text_section s \<Longrightarrow> s_name s ! 1 = 116" "data_section s \<Longrightarrow> s_name s ! 1 \<in> {100, 114}" "bss_section s \<Longrightarrow> s_name s ! 1 \<in> {98, 115}"
    by (auto simp: text_section_def data_section_def bss_section_def dest: named_nth [where i = 1])
  then show "data_section s \<Longrightarrow> \<not> text_section s" "bss_section s \<Longrightarrow> \<not> text_section s" "bss_section s \<Longrightarrow> \<not> data_section s" by auto
qed

definition section_bytes :: "bytes \<Rightarrow> scnhdr \<Rightarrow> bytes" where
  "section_bytes file s = take (unat (s_size s)) (drop (nat (sint (s_scnptr s))) file)"

lemma each_nonempty: "each (convert_section file) secs c = each (convert_section file) [s \<leftarrow> secs. s_size s \<noteq> 0] c"
proof (induction secs arbitrary: c)
  case (Cons s secs)
  show ?case
  proof (cases "s_size s = 0")
    case True
    then have "convert_section file s c = Inr c" by (simp add: convert_section_def Let_def)
    with True Cons show ?thesis by simp
  next
    case False
    then show ?thesis using Cons by (auto simp: ebind_def split: sum.split)
  qed
qed simp

lemma copied:
  assumes "copy_section file s c = Inr c'" "0 \<le> sint (s_scnptr s)"
  shows "cv_out c' = cv_out c @ section_bytes file s" "length (section_bytes file s) = unat (s_size s)"
    "noffH c' = noffH c" "inNoffFile c' = inNoffFile c + s_size s"
proof -
  from assms(1) have n: "0 \<le> sint (s_size s)" by (auto simp: copy_section_def split: if_splits)
  moreover have "sint (s_size s) < 2 ^ 32" using sint_lt [of "s_size s"] by simp
  ultimately have u: "nat (sint (s_size s)) = unat (s_size s)" by (simp add: unat_eq_nat_uint uint_sint take_bit_int_eq_self)
  from assms n show "cv_out c' = cv_out c @ section_bytes file s" "length (section_bytes file s) = unat (s_size s)"
    "noffH c' = noffH c" "inNoffFile c' = inNoffFile c + s_size s"
    by (auto simp: copy_section_def Read_def lseek_def ebind_eq_Inr section_bytes_def u split: if_splits)
qed

lemma data_converted:
  assumes "each (convert_section file) ds c = Inr c'" "\<forall>d \<in> set ds. data_section d \<and> s_size d \<noteq> 0 \<and> 0 \<le> sint (s_scnptr d)"
    "seg_size (initData (noffH c)) = 0 \<or> ds = []"
  shows "cv_out c' = cv_out c @ concat (map (section_bytes file) ds)" "noffMagic (noffH c') = noffMagic (noffH c)"
    "noff_code (noffH c') = noff_code (noffH c)" "uninitData (noffH c') = uninitData (noffH c)"
    "seg_size (initData (noffH c')) = seg_size (initData (noffH c)) + (\<Sum>d \<leftarrow> ds. s_size d)"
    "\<forall>d \<in> set ds. length (section_bytes file d) = unat (s_size d)" "length ds \<le> 1"
    "\<forall>d \<in> set ds. initData (noffH c') = \<lparr>virtualAddr = s_paddr d, inFileAddr = inNoffFile c, seg_size = s_size d\<rparr>"
proof -
  have one: "ds = [] \<or> (\<exists>d. ds = [d])"
  proof (cases ds)
    case (Cons d ds')
    show ?thesis
    proof (cases ds')
      case (Cons e es)
      with \<open>ds = d # ds'\<close> assms show ?thesis
        using kinds_differ(1) [of d] kinds_differ(1) [of e] copied(3) [of "file" d]
        by (auto simp: convert_section_def Let_def ebind_eq_Inr)
    qed (use Cons in simp)
  qed simp
  then show "cv_out c' = cv_out c @ concat (map (section_bytes file) ds)" "noffMagic (noffH c') = noffMagic (noffH c)"
    "noff_code (noffH c') = noff_code (noffH c)" "uninitData (noffH c') = uninitData (noffH c)"
    "seg_size (initData (noffH c')) = seg_size (initData (noffH c)) + (\<Sum>d \<leftarrow> ds. s_size d)"
    "\<forall>d \<in> set ds. length (section_bytes file d) = unat (s_size d)" "length ds \<le> 1"
    "\<forall>d \<in> set ds. initData (noffH c') = \<lparr>virtualAddr = s_paddr d, inFileAddr = inNoffFile c, seg_size = s_size d\<rparr>"
    using assms kinds_differ(1) [of "hd ds"] copied [of "file" "hd ds" _ c'] by (auto simp: convert_section_def Let_def ebind_eq_Inr)
qed

lemma bss_converted:
  assumes "each (convert_section file) bs c = Inr c'" "\<forall>b \<in> set bs. bss_section b \<and> s_size b \<noteq> 0"
  shows "cv_out c' = cv_out c \<and> noffMagic (noffH c') = noffMagic (noffH c) \<and> noff_code (noffH c') = noff_code (noffH c)
    \<and> initData (noffH c') = initData (noffH c) \<and> seg_size (uninitData (noffH c')) = seg_size (uninitData (noffH c)) + (\<Sum>b \<leftarrow> bs. s_size b)"
  using assms
proof (induction bs arbitrary: c)
  case (Cons b bs)
  then obtain c1 where c1: "convert_section file b c = Inr c1" "each (convert_section file) bs c1 = Inr c'" by (auto simp: ebind_eq_Inr)
  have "cv_out c1 = cv_out c \<and> noffMagic (noffH c1) = noffMagic (noffH c) \<and> noff_code (noffH c1) = noff_code (noffH c)
    \<and> initData (noffH c1) = initData (noffH c) \<and> seg_size (uninitData (noffH c1)) = seg_size (uninitData (noffH c)) + s_size b"
    using c1(1) Cons.prems(2) kinds_differ(2,3) [of b] by (auto simp: convert_section_def Let_def split: if_splits)
  with Cons.IH [OF c1(2)] Cons.prems(2) show ?case by simp
qed simp

lemma unat_sum: "(\<Sum>x \<leftarrow> xs. unat (f x)) < 2 ^ 32 \<Longrightarrow> unat (\<Sum>x \<leftarrow> xs. (f x :: 32 word)) = (\<Sum>x \<leftarrow> xs. unat (f x))"
proof (induction xs)
  case (Cons x xs)
  then show ?case by (simp add: unat_word_ariths)
qed simp

text \<open>A conversion that succeeds, of an object file whose non-empty sections are code, data, uninitialised data in this order.\<close>

lemma converted_program:
  assumes "coff2noff be junk file = Inr out" "coff_sections be file = Inr (secs, pos)"
    "[s \<leftarrow> secs. s_size s \<noteq> 0] = t # ds @ bs" "text_section t" "\<forall>d \<in> set ds. data_section d" "\<forall>b \<in> set bs. bss_section b"
    "\<forall>s \<in> set (t # ds). 0 \<le> sint (s_scnptr s)"
  obtains h where "read_header be junk' out = Inr h" "inFileAddr (noff_code h) = 40" "drop 40 out = concat (map (section_bytes file) (t # ds))"
    "seg_size (noff_code h) + seg_size (initData h) + seg_size (uninitData h) = (\<Sum>s \<leftarrow> t # ds @ bs. s_size s)"
    "\<forall>s \<in> set (t # ds). length (section_bytes file s) = unat (s_size s)" "length ds \<le> 1"
    "noff_code h = \<lparr>virtualAddr = s_paddr t, inFileAddr = 40, seg_size = s_size t\<rparr>"
    "\<forall>d \<in> set ds. initData h = \<lparr>virtualAddr = s_paddr d, inFileAddr = 40 + s_size t, seg_size = s_size d\<rparr>"
    "\<forall>b. bs = [b] \<longrightarrow> virtualAddr (uninitData h) = s_paddr b \<and> seg_size (uninitData h) = s_size b"
proof -
  let ?h = "junk\<lparr>noffMagic := NOFFMAGIC, noff_code := (noff_code junk)\<lparr>seg_size := 0\<rparr>, initData := (initData junk)\<lparr>seg_size := 0\<rparr>,
      uninitData := (uninitData junk)\<lparr>seg_size := 0\<rparr>\<rparr>"
  let ?c = "\<lparr>cv_in = pos, cv_out = [], inNoffFile = 40, noffH = ?h\<rparr>"
  have ne: "\<forall>s \<in> set (t # ds @ bs). s_size s \<noteq> 0" unfolding assms(3) [symmetric] by simp
  obtain c where c: "each (convert_section file) (t # ds @ bs) ?c = Inr c" and out: "out = noff_bytes be (noffH c) @ cv_out c"
    using assms(1,2) each_nonempty [of "file" secs] unfolding assms(3) by (auto simp: coff2noff_def ebind_eq_Inr)
  then obtain c1 c2 where c1: "convert_section file t ?c = Inr c1" and c2: "each (convert_section file) ds c1 = Inr c2"
    and c3: "each (convert_section file) bs c2 = Inr c" by (auto simp: ebind_eq_Inr each_append)
  have cp: "copy_section file t (?c\<lparr>noffH := ?h\<lparr>noff_code := \<lparr>virtualAddr = s_paddr t, inFileAddr = 40, seg_size = s_size t\<rparr>\<rparr>\<rparr>) = Inr c1"
    using c1 ne assms(4) by (simp add: convert_section_def Let_def)
  note T = copied [OF cp, simplified]
  note D = data_converted [OF c2]
  note B = bss_converted [OF c3]
  have sc: "0 \<le> sint (s_scnptr t)" using assms(7) by simp
  have h1: "noffMagic (noffH c1) = NOFFMAGIC" "inFileAddr (noff_code (noffH c1)) = 40" "seg_size (noff_code (noffH c1)) = s_size t"
    "seg_size (initData (noffH c1)) = 0" "seg_size (uninitData (noffH c1)) = 0" "cv_out c1 = section_bytes file t"
    "length (section_bytes file t) = unat (s_size t)" "inNoffFile c1 = 40 + s_size t"
    "noff_code (noffH c1) = \<lparr>virtualAddr = s_paddr t, inFileAddr = 40, seg_size = s_size t\<rparr>"
    using T sc by simp_all
  have dp: "\<forall>d \<in> set ds. data_section d \<and> s_size d \<noteq> 0 \<and> 0 \<le> sint (s_scnptr d)" "\<forall>b \<in> set bs. bss_section b \<and> s_size b \<noteq> 0"
    using ne assms(5-7) by auto
  note D = D [OF dp(1) disjI1 [OF h1(4)]] and B = B [OF dp(2)]
  show ?thesis
  proof (rule that)
    show "read_header be junk' out = Inr (noffH c)" unfolding out using B D(2) h1(1) by (intro noff_header_back) simp
    show "inFileAddr (noff_code (noffH c)) = 40" using B D(3) h1(2) by simp
    show "drop 40 out = concat (map (section_bytes file) (t # ds))" using B D(1) h1(6) by (simp add: out)
    show "seg_size (noff_code (noffH c)) + seg_size (initData (noffH c)) + seg_size (uninitData (noffH c)) = (\<Sum>s \<leftarrow> t # ds @ bs. s_size s)"
      using B D(3-5) h1(3-5) by (simp add: algebra_simps)
    show "\<forall>s \<in> set (t # ds). length (section_bytes file s) = unat (s_size s)" "length ds \<le> 1" using h1(7) D(6,7) by simp_all
    show "noff_code (noffH c) = \<lparr>virtualAddr = s_paddr t, inFileAddr = 40, seg_size = s_size t\<rparr>" using B D(3) h1(9) by simp
    show "\<forall>d \<in> set ds. initData (noffH c) = \<lparr>virtualAddr = s_paddr d, inFileAddr = 40 + s_size t, seg_size = s_size d\<rparr>"
      using B D(8) h1(8) by simp
    have z: "seg_size (uninitData (noffH c2)) = 0" using D(4) h1(5) by simp
    show "\<forall>b. bs = [b] \<longrightarrow> virtualAddr (uninitData (noffH c)) = s_paddr b \<and> seg_size (uninitData (noffH c)) = s_size b"
    proof (intro allI impI)
      fix b assume b: "bs = [b]"
      then have "bss_section b" "s_size b \<noteq> 0" using dp(2) by simp_all
      with c3 b z kinds_differ(2,3) [of b] show "virtualAddr (uninitData (noffH c)) = s_paddr b \<and> seg_size (uninitData (noffH c)) = s_size b"
        by (auto simp: convert_section_def Let_def ebind_eq_Inr)
    qed
  qed
qed

lemma image_length:
  "\<forall>s \<in> set ss. length (section_bytes file s) = unat (s_size s) \<Longrightarrow>
   length (concat (map (section_bytes file) ss)) = (\<Sum>s \<leftarrow> ss. unat (s_size s))"
  by (induction ss) auto

lemma sizes_nonempty: "(\<Sum>s \<leftarrow> secs. unat (s_size s)) = (\<Sum>s \<leftarrow> [s \<leftarrow> secs. s_size s \<noteq> 0]. unat (s_size s))"
  by (induction secs) auto

lemma section_in_image:
  assumes "\<forall>s \<in> set (t # ds). length (section_bytes file s) = unat (s_size s)" "length ds \<le> 1" "s_paddr t = 0" "\<forall>d \<in> set ds. s_paddr d = s_size t"
    "s \<in> set (t # ds)" "k < unat (s_size s)"
  shows "unat (s_paddr s) + k < (\<Sum>s \<leftarrow> t # ds. unat (s_size s))
    \<and> concat (map (section_bytes file) (t # ds)) ! (unat (s_paddr s) + k) = file ! (nat (sint (s_scnptr s)) + k)"
proof -
  have b: "section_bytes file s ! k = file ! (nat (sint (s_scnptr s)) + k)"
    using assms(1,5,6) by (auto simp: section_bytes_def)
  have len: "length (section_bytes file t) = unat (s_size t)" using assms(1) by simp
  from assms(2) consider "ds = []" | d where "ds = [d]" by (cases ds) auto
  then show ?thesis
  proof cases
    case 1
    with assms(3,5,6) b len show ?thesis by simp
  next
    case 2
    with assms(3-6) b len show ?thesis by (auto simp: nth_append)
  qed
qed

section \<open>From the object file to memory\<close>

text \<open>C13. From the object file to memory. Let the non-empty sections of a COFF file be its code at address 0, at most one section of
  initialised data at the address where the code ends, and uninitialised data, in this order, and let the program with its stack fit
  into the free frames. When \<open>coff2noff\<close> has converted the file, its header describes code, data and (a single section of)
  uninitialised data with their addresses and sizes; the loader accepts the result, gives the program enough pages for all its
  sections and the stack, and at every virtual address of the code and of the data is the byte that the COFF file has for it.
  (The loader ignores the addresses in the header: sections that are not adjacent from address 0 are not loaded where they belong.)\<close>

theorem coff_program_in_memory:
  fixes files :: "nat Table"
  assumes "coff2noff be junk file = Inr out" "coff_sections be file = Inr (secs, pos)"
    "[s \<leftarrow> secs. s_size s \<noteq> 0] = t # ds @ bs" "text_section t" "\<forall>d \<in> set ds. data_section d" "\<forall>b \<in> set bs. bss_section b"
    "\<forall>s \<in> set (t # ds). 0 \<le> sint (s_scnptr s)" "(\<Sum>s \<leftarrow> secs. unat (s_size s)) = n" "n < 2 ^ 32"
    "table_inv files" "bitmap_inv memMap" "numBits memMap = NumPhysPages"
    "divRoundUp n PageSize + divRoundUp UserStackSize PageSize \<le> card ({..<NumPhysPages} - marked memMap)"
    "s_paddr t = 0" "\<forall>d \<in> set ds. s_paddr d = s_size t"
  shows "\<exists>h a m' memMap'. read_header be junk' out = Inr h
    \<and> noff_code h = \<lparr>virtualAddr = s_paddr t, inFileAddr = 40, seg_size = s_size t\<rparr>
    \<and> (\<forall>d \<in> set ds. initData h = \<lparr>virtualAddr = s_paddr d, inFileAddr = 40 + s_size t, seg_size = s_size d\<rparr>)
    \<and> (\<forall>b. bs = [b] \<longrightarrow> virtualAddr (uninitData h) = s_paddr b \<and> seg_size (uninitData h) = s_size b)
    \<and> AddrSpace_new be junk' files p out m memMap = Inr (a, m', memMap')
    \<and> as_numPages a = divRoundUp n PageSize + divRoundUp UserStackSize PageSize
    \<and> (\<forall>s \<in> set (t # ds). \<forall>k < unat (s_size s). let v = unat (s_paddr s) + k in
         mainMemory m' (unat (physicalPage (pageTables m' p ! (v div PageSize))) * PageSize + v mod PageSize)
         = file ! (nat (sint (s_scnptr s)) + k))"
proof -
  let ?image = "concat (map (section_bytes file) (t # ds))"
  obtain h where h: "read_header be junk' out = Inr h" "inFileAddr (noff_code h) = 40" "drop 40 out = ?image"
    "seg_size (noff_code h) + seg_size (initData h) + seg_size (uninitData h) = (\<Sum>s \<leftarrow> t # ds @ bs. s_size s)"
    "\<forall>s \<in> set (t # ds). length (section_bytes file s) = unat (s_size s)" "length ds \<le> 1"
    and head: "noff_code h = \<lparr>virtualAddr = s_paddr t, inFileAddr = 40, seg_size = s_size t\<rparr>"
    "\<forall>d \<in> set ds. initData h = \<lparr>virtualAddr = s_paddr d, inFileAddr = 40 + s_size t, seg_size = s_size d\<rparr>"
    "\<forall>b. bs = [b] \<longrightarrow> virtualAddr (uninitData h) = s_paddr b \<and> seg_size (uninitData h) = s_size b"
    by (rule converted_program [OF assms(1-7)])
  have n: "(\<Sum>s \<leftarrow> t # ds @ bs. unat (s_size s)) = n" using sizes_nonempty [of secs] assms(8) unfolding assms(3) by simp
  then have "unat (\<Sum>s \<leftarrow> t # ds @ bs. s_size s) = n" using unat_sum [of s_size "t # ds @ bs"] assms(9) by simp
  then have pages: "pages_needed h = divRoundUp n PageSize + divRoundUp UserStackSize PageSize" unfolding pages_needed_def h(4) by simp
  have "card ({..<NumPhysPages} - marked memMap) \<le> card {..<NumPhysPages}" by (rule card_mono) auto
  then have few: "pages_needed h \<le> NumPhysPages" using assms(13) pages by simp
  then have pos: "unat (inFileAddr (noff_code h)) + pages_needed h * PageSize < 2 ^ 31"
    unfolding h(2) by (simp add: NumPhysPages_def PageSize_def SectorSize_def)
  obtain fs a m' memMap' where A: "AddrSpace_new be junk' files p out m memMap = Inr (a, m', memMap')" "length fs = pages_needed h"
    "set fs \<subseteq> {..<NumPhysPages}" "as_numPages a = pages_needed h" "pageTables m' = (pageTables m)(p := map2 loaded_entry [0..<pages_needed h] fs)"
    "\<forall>i < pages_needed h. \<forall>off < PageSize. mainMemory m' (fs ! i * PageSize + off)
         = page_byte out (unat (inFileAddr (noff_code h))) i off (mainMemory m (fs ! i * PageSize + off))"
    using AddrSpace_new_ok [OF h(1) assms(10-12) _ pos, of p m] assms(13) pages by auto
  have len: "length ?image = (\<Sum>s \<leftarrow> t # ds. unat (s_size s))" by (rule image_length [OF h(5)])
  have im: "mainMemory m' (unat (physicalPage (pageTables m' p ! (v div PageSize))) * PageSize + v mod PageSize) = ?image ! v"
    if v: "v < (\<Sum>s \<leftarrow> t # ds. unat (s_size s))" for v
  proof -
    have "v < n" using v n by simp
    then have i: "v div PageSize < pages_needed h" using div_less_divRoundUp [OF PageSize_pos, of v n] pages by simp
    have off: "v mod PageSize < PageSize" using PageSize_pos by simp
    have "fs ! (v div PageSize) \<in> set fs" using A(2) i by simp
    then have "fs ! (v div PageSize) < 4096" using A(3) by (auto simp: NumPhysPages_def)
    then have frame: "unat (physicalPage (pageTables m' p ! (v div PageSize))) = fs ! (v div PageSize)"
      using map2_entries(2) [OF A(2,3) i] A(5) by (simp add: loaded_entry_def unat_of_nat take_bit_nat_eq_self)
    have "40 + v < length out" "out ! (40 + v) = ?image ! v"
    proof -
      have "v < length (drop 40 out)" using v len h(3) by simp
      then show "40 + v < length out" by simp
      then show "out ! (40 + v) = ?image ! v" unfolding h(3) [symmetric] by simp
    qed
    moreover have "unat (inFileAddr (noff_code h)) + v div PageSize * PageSize + v mod PageSize = 40 + v" using h(2) by simp
    ultimately show ?thesis unfolding frame A(6) [rule_format, OF i off] page_byte_def Let_def by (simp add: add.commute)
  qed
  have "let v = unat (s_paddr s) + k in mainMemory m' (unat (physicalPage (pageTables m' p ! (v div PageSize))) * PageSize + v mod PageSize)
      = file ! (nat (sint (s_scnptr s)) + k)" if "s \<in> set (t # ds)" "k < unat (s_size s)" for s k
    using section_in_image [OF h(5,6) assms(14,15) that] im by (simp add: Let_def)
  then show ?thesis using A(1) A(4) [unfolded pages] h(1) head
    by (intro exI [of _ h] exI [of _ a] exI [of _ m'] exI [of _ memMap'] conjI ballI allI impI) blast+
qed

text \<open>An object file with four bytes of code.\<close>

definition demo_coff :: bytes where
  "demo_coff = [0x62, 1, 1, 0] @ replicate 16 0 @ [7, 1] @ replicate 54 0
     @ [46, 116, 101, 120, 116, 0, 0, 0] @ replicate 8 0 @ [4, 0, 0, 0, 116, 0, 0, 0] @ replicate 16 0 @ [8, 0, 224, 3]"

definition demo_section :: scnhdr where
  "demo_section = \<lparr>s_name = [46, 116, 101, 120, 116, 0, 0, 0], s_paddr = 0, s_size = 4, s_scnptr = 116\<rparr>"

lemma demo_sections: "coff_sections True demo_coff = Inr ([demo_section], 116)" "\<not> isl (coff2noff True empty_header demo_coff)"
  "text_section demo_section" "section_bytes demo_coff demo_section = [8, 0, 224, 3]"
  by code_simp+

theorem coff_program_in_memory_witness:
  "\<exists>h a m' memMap'. read_header True (\<lambda>_. 0) (projr (coff2noff True empty_header demo_coff)) = Inr h \<and> virtualAddr (noff_code h) = 0
    \<and> AddrSpace_new True (\<lambda>_. 0) boot_files 5 (projr (coff2noff True empty_header demo_coff)) (Machine_new 0 0 (\<lambda>_. [])) boot_memMap
       = Inr (a, m', memMap')
    \<and> mainMemory m' (unat (physicalPage (pageTables m' 5 ! 0)) * PageSize + 3) = 3"
proof -
  obtain out where out: "coff2noff True empty_header demo_coff = Inr out" using demo_sections(2) by (cases "coff2noff True empty_header demo_coff") auto
  have f: "[s \<leftarrow> [demo_section]. s_size s \<noteq> 0] = demo_section # [] @ []" "\<forall>s \<in> set [demo_section]. 0 \<le> sint (s_scnptr s)"
    "(\<Sum>s \<leftarrow> [demo_section]. unat (s_size s)) = 4" "s_paddr demo_section = 0" "unat (s_size demo_section) = 4" "sint (s_scnptr demo_section) = 116"
    by (simp_all add: demo_section_def)
  have "card {..<NumPhysPages} = 4096" by (simp add: NumPhysPages_def)
  then have c: "divRoundUp 4 PageSize + divRoundUp UserStackSize PageSize \<le> card ({..<NumPhysPages} - marked boot_memMap)"
    unfolding boot_ok(3) by (simp add: divRoundUp_def PageSize_def SectorSize_def UserStackSize_def)
  from coff_program_in_memory [OF out demo_sections(1) f(1) demo_sections(3) _ _ f(2,3) _ boot_ok(4,1,2) c f(4), of "\<lambda>_. 0" 5 "Machine_new 0 0 (\<lambda>_. [])"]
  obtain h a m' memMap' where h: "read_header True (\<lambda>_. 0) out = Inr h" "noff_code h = \<lparr>virtualAddr = s_paddr demo_section, inFileAddr = 40, seg_size = s_size demo_section\<rparr>"
    and a: "AddrSpace_new True (\<lambda>_. 0) boot_files 5 out (Machine_new 0 0 (\<lambda>_. [])) boot_memMap = Inr (a, m', memMap')"
    and m: "\<forall>k < 4. let v = k in mainMemory m' (unat (physicalPage (pageTables m' 5 ! (v div PageSize))) * PageSize + v mod PageSize) = demo_coff ! (116 + k)"
    using f(4-6) by auto
  have "3 div PageSize = 0" "3 mod PageSize = 3" by (simp_all add: PageSize_def SectorSize_def)
  moreover have "demo_coff ! 119 = 3" by code_simp
  ultimately have "mainMemory m' (unat (physicalPage (pageTables m' 5 ! 0)) * PageSize + 3) = 3"
    using m [rule_format, of 3] by (simp add: Let_def)
  with h a out f(4) show ?thesis by auto
qed

text \<open>The test for two sections of uninitialised data is the wrong way round: adjacent ones, which one segment could
  describe, are refused; others are accepted, and the segment then covers memory it should not.\<close>

lemma bss_test_inverted:
  assumes "bss_section s" "s_size s \<noteq> 0" "seg_size (uninitData (noffH c)) \<noteq> 0"
  shows "convert_section file s c = Inl Bss_and_sbss \<longleftrightarrow> s_paddr s = virtualAddr (uninitData (noffH c)) + seg_size (uninitData (noffH c))"
  using assms kinds_differ(2,3) [OF assms(1)] by (simp add: convert_section_def Let_def)

end
