(* ===== verification/Devices.thy ===== *)
theory Devices
  imports Complex_Main Kernel_Frames Disk Host_Words
begin

text \<open>
  The asynchronous devices and the code that makes them synchronous, on top of the kernel: the disk with
  \<open>filesys/synchdisk.cc\<close>, the console (\<open>machine/console.cc\<close>) with \<open>userprog/synchconsole.cc\<close>, the network
  (\<open>machine/network.cc\<close>) with the post office (\<open>network/post.cc\<close>) and its synchronized lists
  (\<open>threads/synchlist.cc\<close>).

  The state \<open>dev\<close> extends the kernel's. A device operation starts, schedules the interrupt of its completion
  and returns; the handler (\<open>dev_fire\<close>) signals a semaphore. \<open>dcode\<close> names the pieces of the drivers between
  two points where a thread can lose the processor, and \<open>dev_exec\<close> runs one; a thread runs a list of calls
  (\<open>Prog\<close>). \<open>history\<close> records what the calls did, in order; no operation reads it.

  The host is the parameter \<open>host\<close>: what \<open>Random\<close> returns at a time, when \<open>select\<close> reports input, whether
  \<open>sendto\<close> reaches a machine, the rounded product \<open>chanceToWork * 100\<close>, and what new memory holds. The
  characters that will be typed and the datagrams that will arrive are lists in the state.
\<close>

section \<open>Packets and mail\<close>

definition MaxWireSize :: nat where "MaxWireSize = 64"
definition HeaderSize :: nat where "HeaderSize = 12"
definition MaxPacketSize :: nat where "MaxPacketSize = MaxWireSize - HeaderSize"
definition MaxMailSize :: nat where "MaxMailSize = MaxPacketSize - HeaderSize"

text \<open>The two headers have the same layout of three words; \<open>length\<close> is unsigned.\<close>

record PacketHeader =
  pkt_to :: "32 word"
  pkt_from :: "32 word"
  pkt_length :: "32 word"

record MailHeader =
  mail_to :: "32 word"
  mail_from :: "32 word"
  mail_length :: "32 word"

record Mail =
  m_pktHdr :: PacketHeader
  m_mailHdr :: MailHeader
  m_data :: bytes

definition pkt_bytes :: "bool \<Rightarrow> PacketHeader \<Rightarrow> bytes" where
  "pkt_bytes bigEndian h = words_bytes bigEndian [pkt_to h, pkt_from h, pkt_length h]"

definition pkt_at :: "bool \<Rightarrow> bytes \<Rightarrow> PacketHeader" where
  "pkt_at bigEndian bs = (let ws = words_at bigEndian 3 bs in \<lparr>pkt_to = ws ! 0, pkt_from = ws ! 1, pkt_length = ws ! 2\<rparr>)"

definition mail_bytes :: "bool \<Rightarrow> MailHeader \<Rightarrow> bytes" where
  "mail_bytes bigEndian h = words_bytes bigEndian [mail_to h, mail_from h, mail_length h]"

definition mail_at :: "bool \<Rightarrow> bytes \<Rightarrow> MailHeader" where
  "mail_at bigEndian bs = (let ws = words_at bigEndian 3 bs in \<lparr>mail_to = ws ! 0, mail_from = ws ! 1, mail_length = ws ! 2\<rparr>)"

text \<open>\<open>bcopy\<close> of the first \<open>n\<close> bytes of a buffer.\<close>

definition first_bytes :: "32 word \<Rightarrow> bytes \<Rightarrow> bytes result" where
  "first_bytes n bs = (if unat n \<le> length bs then Inr (take (unat n) bs) else Inl Undefined)"

definition Mail_new :: "PacketHeader \<Rightarrow> MailHeader \<Rightarrow> bytes \<Rightarrow> Mail result" where
  "Mail_new pktH mailH msgData = rbind (ASSERT (unat (mail_length mailH) \<le> MaxMailSize)) (\<lambda>_.
     rbind (first_bytes (mail_length mailH) msgData) (\<lambda>bs. Inr \<lparr>m_pktHdr = pktH, m_mailHdr = mailH, m_data = bs\<rparr>))"

section \<open>State\<close>

definition ConsoleTime :: int where "ConsoleTime = 100"
definition NetworkTime :: int where "NetworkTime = 100"

record host =
  h_timer :: "int \<Rightarrow> nat"
  h_random :: "int \<Rightarrow> nat"
  h_pollFile :: "int \<Rightarrow> bool"
  h_pollSocket :: "int \<Rightarrow> bool"
  h_sendto :: "32 word \<Rightarrow> int \<Rightarrow> bool"
  h_percent :: "real \<Rightarrow> real"
  h_junk :: "nat \<Rightarrow> 8 word"

text \<open>A \<open>char\<close> is signed on the host, so that \<open>EOF\<close> is the character 255.\<close>

definition EOF_char :: "8 word" where "EOF_char = 255"

record Console =
  incoming :: "8 word"
  putBusy :: bool
  keys :: bytes
  display :: bytes

record Network =
  net_ident :: "32 word"
  chanceToWork :: real
  sendBusy :: bool
  inHdr :: PacketHeader
  inbox :: bytes
  sock :: "bytes list"
  wire :: "(32 word \<times> bytes) list"

datatype ret = R_Read int bytes | R_Written int bytes | R_Input bytes | R_Sent bool

datatype event =
    E_Return ret | E_Line bytes
  | E_Appended nat Mail | E_Removed nat Mail | E_Mail nat Mail | E_Visited nat "Mail list" | E_Arrived PacketHeader bytes

datatype dhandler = TimerTick bool | DiskDone | ConsoleReadPoll | ConsoleWriteDone | NetworkReadPoll | NetworkSendDone

datatype dcall =
    D_ReadSector int | D_WriteSector int bytes | D_WriteLine bytes int | D_ReadLine int
  | D_Send PacketHeader MailHeader bytes | D_Receive int | D_Mapcar nat | D_Yield

datatype dcode =
    Prog "dcall list"
  | ReadSector_request int | WriteSector_request int bytes
  | WriteLine_loop bytes nat int | ReadLine_loop "8 word" bytes int | ReadLine_get bytes int
  | Send_packet PacketHeader bytes
  | Append_body nat Mail | Remove_loop nat | Get_mail nat Mail | Mapcar_body nat
  | PD_loop bytes | PD_receive bytes
  | Returned ret

record dev = "(dhandler, dcode) kernel" +
  hostBE :: bool
  disk :: Disk
  con :: Console
  network :: Network
  netAddr :: "32 word"
  numBoxes :: int
  boxes :: "nat \<Rightarrow> Mail list"
  history :: "event list"

text \<open>The synchronization objects of the drivers.\<close>

definition disk_lock :: nat where "disk_lock = 0"
definition inputMutex :: nat where "inputMutex = 1"
definition outputMutex :: nat where "outputMutex = 2"
definition sendLock :: nat where "sendLock = 3"
definition box_lock :: "nat \<Rightarrow> nat" where "box_lock b = 4 + b"
definition disk_sem :: nat where "disk_sem = 0"
definition inputAvailable :: nat where "inputAvailable = 1"
definition outputDone :: nat where "outputDone = 2"
definition messageAvailable :: nat where "messageAvailable = 3"
definition messageSent :: nat where "messageSent = 4"

definition note_event :: "event \<Rightarrow> dev \<Rightarrow> dev" where
  "note_event e s = s\<lparr>history := history s @ [e]\<rparr>"

definition now :: "dev \<Rightarrow> int" where
  "now s = totalTicks (stats s)"

section \<open>The console\<close>

definition Console_new :: "bytes \<Rightarrow> dev \<Rightarrow> dev result" where
  "Console_new input s = Schedule ConsoleReadPoll ConsoleTime ConsoleReadInt
     (s\<lparr>con := \<lparr>incoming = EOF_char, putBusy = False, keys = input, display = []\<rparr>\<rparr>)"

text \<open>At the end of the input \<open>select\<close> reports a readable file, and \<open>Read\<close> fails its assertion.\<close>

definition CheckCharAvail :: "host \<Rightarrow> dev \<Rightarrow> dev result" where
  "CheckCharAvail H s = rbind (Schedule ConsoleReadPoll ConsoleTime ConsoleReadInt s) (\<lambda>s.
     if incoming (con s) \<noteq> EOF_char \<or> \<not> h_pollFile H (now s) then Inr s
     else case keys (con s) of [] \<Rightarrow> Inl Abort
       | c # cs \<Rightarrow> V inputAvailable (s\<lparr>con := (con s)\<lparr>incoming := c, keys := cs\<rparr>,
           stats := (stats s)\<lparr>numConsoleCharsRead := numConsoleCharsRead (stats s) + 1\<rparr>\<rparr>))"

definition Console_WriteDone :: "dev \<Rightarrow> dev result" where
  "Console_WriteDone s = V outputDone (s\<lparr>con := (con s)\<lparr>putBusy := False\<rparr>,
     stats := (stats s)\<lparr>numConsoleCharsWritten := numConsoleCharsWritten (stats s) + 1\<rparr>\<rparr>)"

definition GetChar :: "dev \<Rightarrow> 8 word \<times> dev" where
  "GetChar s = (incoming (con s), s\<lparr>con := (con s)\<lparr>incoming := EOF_char\<rparr>\<rparr>)"

definition PutChar :: "8 word \<Rightarrow> dev \<Rightarrow> dev result" where
  "PutChar ch s = rbind (ASSERT (\<not> putBusy (con s))) (\<lambda>_.
     Schedule ConsoleWriteDone ConsoleTime ConsoleWriteInt (s\<lparr>con := (con s)\<lparr>display := display (con s) @ [ch], putBusy := True\<rparr>\<rparr>))"

section \<open>The network\<close>

definition Network_new :: "host \<Rightarrow> 32 word \<Rightarrow> real \<Rightarrow> bytes list \<Rightarrow> dev \<Rightarrow> dev result" where
  "Network_new H addr reliability arriving s = Schedule NetworkReadPoll NetworkTime NetworkRecvInt
     (s\<lparr>network := \<lparr>net_ident = addr, chanceToWork = (if reliability < 0 then 0 else if reliability > 1 then 1 else reliability),
         sendBusy = False, inHdr = \<lparr>pkt_to = 0, pkt_from = 0, pkt_length = 0\<rparr>, inbox = map (h_junk H) [0..<MaxPacketSize],
         sock = arriving, wire = []\<rparr>\<rparr>)"

text \<open>\<open>recvfrom\<close> cuts a longer datagram; a shorter one fails the assertion.\<close>

definition ReadFromSocket :: "bytes \<Rightarrow> bytes result" where
  "ReadFromSocket datagram = rbind (ASSERT (MaxWireSize \<le> length datagram)) (\<lambda>_. Inr (take MaxWireSize datagram))"

text \<open>The header and the data in the buffer of a packet.\<close>

definition divide_packet :: "bool \<Rightarrow> 32 word \<Rightarrow> bytes \<Rightarrow> (PacketHeader \<times> bytes) result" where
  "divide_packet bigEndian ident buffer =
     (let hdr = pkt_at bigEndian buffer in
      rbind (ASSERT (pkt_to hdr = ident \<and> unat (pkt_length hdr) \<le> MaxPacketSize)) (\<lambda>_.
      rbind (first_bytes (pkt_length hdr) (drop HeaderSize buffer)) (\<lambda>bs. Inr (hdr, bs))))"

definition CheckPktAvail :: "host \<Rightarrow> dev \<Rightarrow> dev result" where
  "CheckPktAvail H s = rbind (Schedule NetworkReadPoll NetworkTime NetworkRecvInt s) (\<lambda>s.
     if pkt_length (inHdr (network s)) \<noteq> 0 \<or> \<not> h_pollSocket H (now s) then Inr s
     else case sock (network s) of [] \<Rightarrow> Inr s
       | d # ds \<Rightarrow> rbind (ReadFromSocket d) (\<lambda>buffer.
           rbind (divide_packet (hostBE s) (net_ident (network s)) buffer) (\<lambda>(hdr, bs).
           V messageAvailable (note_event (E_Arrived hdr bs)
             (s\<lparr>network := (network s)\<lparr>inHdr := hdr, inbox := patch 0 bs (inbox (network s)), sock := ds\<rparr>,
                stats := (stats s)\<lparr>numPacketsRecvd := numPacketsRecvd (stats s) + 1\<rparr>\<rparr>)))))"

definition Network_SendDone :: "dev \<Rightarrow> dev result" where
  "Network_SendDone s = V messageSent (s\<lparr>network := (network s)\<lparr>sendBusy := False\<rparr>,
     stats := (stats s)\<lparr>numPacketsSent := numPacketsSent (stats s) + 1\<rparr>\<rparr>)"

text \<open>The packet as it goes out: header, data, and what the rest of the buffer holds.\<close>

definition packet :: "bool \<Rightarrow> (nat \<Rightarrow> 8 word) \<Rightarrow> PacketHeader \<Rightarrow> bytes \<Rightarrow> bytes result" where
  "packet bigEndian junk hdr bs = rbind (first_bytes (pkt_length hdr) bs) (\<lambda>bs.
     Inr (patch 0 (pkt_bytes bigEndian hdr @ bs) (map junk [0..<MaxWireSize])))"

definition Network_Send :: "host \<Rightarrow> PacketHeader \<Rightarrow> bytes \<Rightarrow> dev \<Rightarrow> (bool \<times> dev) result" where
  "Network_Send H hdr bs s =
     (let n = network s in
      rbind (ASSERT (\<not> sendBusy n \<and> 0 < pkt_length hdr \<and> unat (pkt_length hdr) \<le> MaxPacketSize \<and> pkt_from hdr = net_ident n)) (\<lambda>_.
      rbind (Schedule NetworkSendDone NetworkTime NetworkSendInt s) (\<lambda>s.
      if real (h_random H (now s) mod 100) \<ge> h_percent H (chanceToWork n) then Inr (True, s)
      else rbind (packet (hostBE s) (h_junk H) hdr bs) (\<lambda>buffer.
           if h_sendto H (pkt_to hdr) (now s)
           then Inr (True, s\<lparr>network := n\<lparr>wire := wire n @ [(pkt_to hdr, buffer)]\<rparr>\<rparr>) else Inr (False, s)))))"

definition Network_Receive :: "bytes \<Rightarrow> dev \<Rightarrow> PacketHeader \<times> bytes \<times> dev" where
  "Network_Receive buffer s =
     (let n = network s; hdr = inHdr n in
      (hdr, if pkt_length hdr \<noteq> 0 then patch 0 (take (unat (pkt_length hdr)) (inbox n)) buffer else buffer,
       s\<lparr>network := n\<lparr>inHdr := hdr\<lparr>pkt_length := 0\<rparr>\<rparr>\<rparr>))"

section \<open>The synchronous disk\<close>

text \<open>\<open>ReadSector\<close> and \<open>WriteSector\<close> after \<open>lock->Acquire()\<close>.\<close>

definition readSector_request :: "int \<Rightarrow> dev \<Rightarrow> dev result" where
  "readSector_request sectorNumber s = rbind (ReadRequest sectorNumber (stats s) (disk s)) (\<lambda>(bs, ticks, st, d).
     rbind (Schedule DiskDone ticks DiskInt (s\<lparr>stats := st, disk := d\<rparr>)) (\<lambda>s.
     P disk_sem (push [F_Release disk_lock, F_Code (Returned (R_Read sectorNumber bs))] s)))"

definition writeSector_request :: "int \<Rightarrow> bytes \<Rightarrow> dev \<Rightarrow> dev result" where
  "writeSector_request sectorNumber bs s = rbind (WriteRequest sectorNumber bs (stats s) (disk s)) (\<lambda>(ticks, st, d).
     rbind (Schedule DiskDone ticks DiskInt (s\<lparr>stats := st, disk := d\<rparr>)) (\<lambda>s.
     P disk_sem (push [F_Release disk_lock, F_Code (Returned (R_Written sectorNumber bs))] s)))"

definition Disk_HandleInterrupt :: "dev \<Rightarrow> dev result" where
  "Disk_HandleInterrupt s = V disk_sem (s\<lparr>disk := HandleInterrupt (disk s)\<rparr>)"

section \<open>The synchronous console\<close>

text \<open>The loop of \<open>WriteLine\<close>: \<open>line\<close> has advanced by \<open>k\<close> characters (of \<open>chars\<close>), \<open>n\<close> are left of \<open>size\<close>. Nothing but
  \<open>n = 0\<close> ends it.\<close>

definition writeLine_loop :: "bytes \<Rightarrow> nat \<Rightarrow> int \<Rightarrow> dev \<Rightarrow> dev result" where
  "writeLine_loop chars k n s =
     (if n = 0 then Inr (push [F_Release outputMutex] (note_event (E_Line (take k chars)) s))
      else if length chars \<le> k then Inl Undefined
      else rbind (PutChar (chars ! k) s) (\<lambda>s. P outputDone (push [F_Code (WriteLine_loop chars (Suc k) (n - 1))] s)))"

definition readLine_loop :: "8 word \<Rightarrow> bytes \<Rightarrow> int \<Rightarrow> dev \<Rightarrow> dev result" where
  "readLine_loop c chars n s =
     (if c \<noteq> 10 \<and> int (length chars) < n then P inputAvailable (push [F_Code (ReadLine_get chars n)] s)
      else Inr (push [F_Release inputMutex, F_Code (Returned (R_Input chars))] s))"

definition readLine_get :: "bytes \<Rightarrow> int \<Rightarrow> dev \<Rightarrow> dev result" where
  "readLine_get chars n s = (case GetChar s of (c, s) \<Rightarrow> Inr (push [F_Code (ReadLine_loop c (chars @ [c]) n)] s))"

section \<open>Synchronized lists and mail boxes\<close>

text \<open>\<open>SynchList::Append\<close>, \<open>Remove\<close> and \<open>Mapcar\<close> after \<open>lock->Acquire()\<close>. A mail box is such a list.\<close>

definition append_body :: "nat \<Rightarrow> Mail \<Rightarrow> dev \<Rightarrow> dev result" where
  "append_body b item s =
     (let s = note_event (E_Appended b item) (s\<lparr>boxes := (boxes s)(b := boxes s b @ [item])\<rparr>)
      in Signal b (Some (box_lock b)) (push [F_Release (box_lock b)] s))"

definition remove_loop :: "nat \<Rightarrow> dev \<Rightarrow> dev result" where
  "remove_loop b s = (case boxes s b of
       [] \<Rightarrow> Wait b (Some (box_lock b)) (push [F_Code (Remove_loop b)] s)
     | item # items \<Rightarrow> Inr (push [F_Release (box_lock b), F_Code (Get_mail b item)]
         (note_event (E_Removed b item) (s\<lparr>boxes := (boxes s)(b := items)\<rparr>))))"

definition mapcar_body :: "nat \<Rightarrow> dev \<Rightarrow> dev result" where
  "mapcar_body b s = Inr (push [F_Release (box_lock b)] (note_event (E_Visited b (boxes s b)) s))"

definition MailBox_Put :: "nat \<Rightarrow> PacketHeader \<Rightarrow> MailHeader \<Rightarrow> bytes \<Rightarrow> dev \<Rightarrow> dev result" where
  "MailBox_Put b pktHdr mailHdr bs s = rbind (Mail_new pktHdr mailHdr bs) (\<lambda>mail.
     Acquire (box_lock b) (push [F_Code (Append_body b mail)] s))"

text \<open>\<open>MailBox::Get\<close> after the list has returned the mail, with the last assertion of \<open>PostOffice::Receive\<close>.\<close>

definition get_mail :: "nat \<Rightarrow> Mail \<Rightarrow> dev \<Rightarrow> dev result" where
  "get_mail b mail s = rbind (ASSERT (unat (mail_length (m_mailHdr mail)) \<le> MaxMailSize)) (\<lambda>_. Inr (note_event (E_Mail b mail) s))"

section \<open>The post office\<close>

definition box_ok :: "int \<Rightarrow> dev \<Rightarrow> bool" where
  "box_ok n s \<longleftrightarrow> 0 \<le> n \<and> n < numBoxes s"

definition postalDelivery_receive :: "bytes \<Rightarrow> dev \<Rightarrow> dev result" where
  "postalDelivery_receive buffer s = (case Network_Receive buffer s of (pktHdr, buffer, s) \<Rightarrow>
     let mailHdr = mail_at (hostBE s) buffer in
     rbind (ASSERT (box_ok (sint (mail_to mailHdr)) s)) (\<lambda>_.
     rbind (ASSERT (unat (mail_length mailHdr) \<le> MaxMailSize)) (\<lambda>_.
     MailBox_Put (nat (sint (mail_to mailHdr))) pktHdr mailHdr (drop HeaderSize buffer) (push [F_Code (PD_loop buffer)] s))))"

text \<open>The packet \<open>PostOffice::Send\<close> hands to the network.\<close>

definition post_packet :: "bool \<Rightarrow> 32 word \<Rightarrow> PacketHeader \<Rightarrow> MailHeader \<Rightarrow> bytes \<Rightarrow> (PacketHeader \<times> bytes) result" where
  "post_packet bigEndian addr pktHdr mailHdr bs = rbind (first_bytes (mail_length mailHdr) bs) (\<lambda>bs.
     Inr (pktHdr\<lparr>pkt_from := addr, pkt_length := mail_length mailHdr + of_nat HeaderSize\<rparr>, mail_bytes bigEndian mailHdr @ bs))"

definition PostOffice_Send :: "PacketHeader \<Rightarrow> MailHeader \<Rightarrow> bytes \<Rightarrow> dev \<Rightarrow> dev result" where
  "PostOffice_Send pktHdr mailHdr bs s =
     rbind (ASSERT (unat (mail_length mailHdr) \<le> MaxMailSize)) (\<lambda>_.
     rbind (ASSERT (box_ok (sint (mail_to mailHdr)) s)) (\<lambda>_.
     rbind (post_packet (hostBE s) (netAddr s) pktHdr mailHdr bs) (\<lambda>(pktHdr, buffer).
     Acquire sendLock (push [F_Code (Send_packet pktHdr buffer)] s))))"

definition send_packet :: "host \<Rightarrow> PacketHeader \<Rightarrow> bytes \<Rightarrow> dev \<Rightarrow> dev result" where
  "send_packet H pktHdr buffer s = rbind (Network_Send H pktHdr buffer s) (\<lambda>(success, s).
     P messageSent (push [F_Release sendLock, F_Code (Returned (R_Sent success))] s))"

definition PostOffice_Receive :: "int \<Rightarrow> dev \<Rightarrow> dev result" where
  "PostOffice_Receive box s = rbind (ASSERT (box_ok box s)) (\<lambda>_.
     Acquire (box_lock (nat box)) (push [F_Code (Remove_loop (nat box))] s))"

section \<open>Running the system\<close>

fun dev_fire :: "host \<Rightarrow> dhandler \<Rightarrow> dev \<Rightarrow> dev result" where
  "dev_fire H (TimerTick r) s = TimerExpired (TimerTick r) (h_timer H) r s"
| "dev_fire H DiskDone s = Disk_HandleInterrupt s"
| "dev_fire H ConsoleReadPoll s = CheckCharAvail H s"
| "dev_fire H ConsoleWriteDone s = Console_WriteDone s"
| "dev_fire H NetworkReadPoll s = CheckPktAvail H s"
| "dev_fire H NetworkSendDone s = Network_SendDone s"

fun dev_call :: "dcall \<Rightarrow> dev \<Rightarrow> dev result" where
  "dev_call (D_ReadSector n) s = Acquire disk_lock (push [F_Code (ReadSector_request n)] s)"
| "dev_call (D_WriteSector n bs) s = Acquire disk_lock (push [F_Code (WriteSector_request n bs)] s)"
| "dev_call (D_WriteLine chars n) s = Acquire outputMutex (push [F_Code (WriteLine_loop chars 0 n)] s)"
| "dev_call (D_ReadLine n) s = Acquire inputMutex (push [F_Code (ReadLine_loop 0 [] n)] s)"
| "dev_call (D_Send pktHdr mailHdr bs) s = PostOffice_Send pktHdr mailHdr bs s"
| "dev_call (D_Receive box) s = PostOffice_Receive box s"
| "dev_call (D_Mapcar b) s = Acquire (box_lock b) (push [F_Code (Mapcar_body b)] s)"
| "dev_call D_Yield s = Yield s"

fun dev_exec :: "host \<Rightarrow> dcode \<Rightarrow> dev \<Rightarrow> dev result" where
  "dev_exec H (Prog []) s = Inr s"
| "dev_exec H (Prog (c # cs)) s = dev_call c (push [F_Code (Prog cs)] s)"
| "dev_exec H (ReadSector_request n) s = readSector_request n s"
| "dev_exec H (WriteSector_request n bs) s = writeSector_request n bs s"
| "dev_exec H (WriteLine_loop chars k n) s = writeLine_loop chars k n s"
| "dev_exec H (ReadLine_loop c chars n) s = readLine_loop c chars n s"
| "dev_exec H (ReadLine_get chars n) s = readLine_get chars n s"
| "dev_exec H (Send_packet pktHdr buffer) s = send_packet H pktHdr buffer s"
| "dev_exec H (Append_body b mail) s = append_body b mail s"
| "dev_exec H (Remove_loop b) s = remove_loop b s"
| "dev_exec H (Get_mail b mail) s = get_mail b mail s"
| "dev_exec H (Mapcar_body b) s = mapcar_body b s"
| "dev_exec H (PD_loop buffer) s = P messageAvailable (push [F_Code (PD_receive buffer)] s)"
| "dev_exec H (PD_receive buffer) s = postalDelivery_receive buffer s"
| "dev_exec H (Returned r) s = Inr (note_event (E_Return r) s)"

text \<open>The start: the constructors of the devices, the postal worker (thread 1), and threads that run the
  given programs; the main thread runs the first.\<close>

definition start_thread :: "tid \<times> dcode \<Rightarrow> dev \<Rightarrow> dev result" where
  "start_thread = (\<lambda>(t, c) s. rbind (new_Thread t s) (Fork t c))"

definition dev_new :: "(nat \<Rightarrow> AddrSpace) \<Rightarrow> bool \<Rightarrow> Disk \<Rightarrow> 32 word \<Rightarrow> int \<Rightarrow> dcode \<Rightarrow> dev" where
  "dev_new spaces0 bigEndian d addr nBoxes main =
     kernel.extend (kernel_new (\<lambda>_. 0) (\<lambda>_. None) spaces0 main)
       (dev.fields bigEndian d \<lparr>incoming = EOF_char, putBusy = False, keys = [], display = []\<rparr>
          \<lparr>net_ident = addr, chanceToWork = 0, sendBusy = False, inHdr = \<lparr>pkt_to = 0, pkt_from = 0, pkt_length = 0\<rparr>,
           inbox = [], sock = [], wire = []\<rparr> addr nBoxes (\<lambda>_. []) [])"

definition dev_start :: "host \<Rightarrow> (nat \<Rightarrow> AddrSpace) \<Rightarrow> bool \<Rightarrow> bool \<Rightarrow> (nat \<Rightarrow> 8 word) option \<Rightarrow> 32 word \<Rightarrow> real \<Rightarrow> int \<Rightarrow> bytes \<Rightarrow> bytes list \<Rightarrow>
    dcall list \<Rightarrow> dcall list list \<Rightarrow> dev result" where
  "dev_start H spaces0 bigEndian randomYield name addr reliability nBoxes input arriving main progs =
     rbind (Disk_new bigEndian name) (\<lambda>d.
     let s = dev_new spaces0 bigEndian d addr nBoxes (Prog main) in
     rbind (if randomYield then Schedule (TimerTick True) (TimeOfNextInterrupt (h_timer H) True 0) TimerInt s else Inr s) (\<lambda>s.
     rbind (Console_new input s) (\<lambda>s.
     rbind (Network_new H addr reliability arriving s) (\<lambda>s.
     for_each start_thread (zip [1..<2 + length progs] (PD_loop (map (h_junk H) [0..<MaxPacketSize]) # map Prog progs)) s))))"

end
