(* ===== verification/Device_Inv.thy ===== *)
theory Device_Inv
  imports Devices
begin

text \<open>
  The drivers keep the invariant of the kernel: they are code around the kernel in the sense of the
  locale \<open>kernel_user\<close>.
\<close>

section \<open>The kernel's invariant\<close>

lemma calls_ok_dev [simp]:
  fixes s :: dev
  shows "calls_ok (s\<lparr>con := x1\<rparr>) = calls_ok s" "calls_ok (s\<lparr>network := x2\<rparr>) = calls_ok s" "calls_ok (s\<lparr>disk := x3\<rparr>) = calls_ok s"
    "calls_ok (s\<lparr>boxes := x4\<rparr>) = calls_ok s" "calls_ok (s\<lparr>history := x5\<rparr>) = calls_ok s" "calls_ok (note_event e s) = calls_ok s"
  by (rule calls_ok_cong; simp add: note_event_def)+

lemma note_event_sel [simp]:
  "level (note_event e s) = level s" "threads (note_event e s) = threads s" "live (note_event e s) = live s"
  "currentThread (note_event e s) = currentThread s" "threadToBeDestroyed (note_event e s) = threadToBeDestroyed s"
  by (simp_all add: note_event_def)

lemma queue_dev [simp]:
  fixes s :: dev
  shows "queue (s\<lparr>con := x1\<rparr>) = queue s" "queue (s\<lparr>network := x2\<rparr>) = queue s" "queue (s\<lparr>disk := x3\<rparr>) = queue s"
    "queue (note_event e s) = queue s"
  by (rule queue_cong; simp add: note_event_def)+

lemma sched_inv_dev [simp]:
  fixes s :: dev
  shows "sched_inv (s\<lparr>con := x1\<rparr>) = sched_inv s" "sched_inv (s\<lparr>network := x2\<rparr>) = sched_inv s" "sched_inv (s\<lparr>disk := x3\<rparr>) = sched_inv s"
    "sched_inv (note_event e s) = sched_inv s"
  by (simp_all add: sched_inv_same_queue [of "s\<lparr>con := x1\<rparr>" s] sched_inv_same_queue [of "s\<lparr>network := x2\<rparr>" s]
      sched_inv_same_queue [of "s\<lparr>disk := x3\<rparr>" s] sched_inv_same_queue [of "note_event e s" s] note_event_sel)

lemma handled_dev [simp]:
  fixes s s' :: dev
  shows "handled (s\<lparr>con := x1\<rparr>) s' = handled s s'" "handled (s\<lparr>network := x2\<rparr>) s' = handled s s'"
    "handled (s\<lparr>disk := x3\<rparr>) s' = handled s s'" "handled (note_event e s) s' = handled s s'"
  by (simp_all add: handled_def cur_def note_event_def)

lemma handled_V: "V i s = Inr s' \<Longrightarrow> sched_inv s \<Longrightarrow> level s = IntOff \<Longrightarrow> handled s s'"
  using V_handled [of s i "handled s s'"] by simp

lemma Schedule_Inr: "Schedule h d ty s = Inr s' \<longleftrightarrow> d > 0 \<and> s' = s\<lparr>pending := sorted_ins (totalTicks (stats s) + d)
    \<lparr>pi_handler = h, pi_when = totalTicks (stats s) + d, pi_type = ty\<rparr> (pending s)\<rparr>"
  by (auto simp: Schedule_def Let_def rbind_eq_Inr)

lemma dev_fire_handled:
  assumes "sched_inv s" "level s = IntOff" "inHandler s" "dev_fire H h s = Inr s'"
  shows "handled s s'"
proof (cases h)
  case (TimerTick r)
  with TimerExpired_handled [OF assms(1-3), of h "h_timer H" r] assms(4) show ?thesis by auto
qed (use assms in \<open>auto simp: Disk_HandleInterrupt_def CheckCharAvail_def Console_WriteDone_def CheckPktAvail_def Network_SendDone_def
      rbind_eq_Inr Schedule_Inr handled_refl split: if_splits list.splits dest!: handled_V\<close>)

lemma inv_kept_P: "calls_ok s \<Longrightarrow> inv_kept (P i s)"
  by (intro inv_kept_safe safe_P)

lemmas dev_calls = kernel_calls inv_kept_P inv_kept_rbind

lemma calls_ok_Schedule: "Schedule h d ty s = Inr s' \<Longrightarrow> calls_ok s \<Longrightarrow> calls_ok s'"
  by (simp add: Schedule_Inr)

lemma PutChar_Inr: "PutChar ch s = Inr s' \<Longrightarrow> \<not> putBusy (con s) \<and> Schedule ConsoleWriteDone ConsoleTime ConsoleWriteInt
    (s\<lparr>con := (con s)\<lparr>display := display (con s) @ [ch], putBusy := True\<rparr>\<rparr>) = Inr s'"
  by (auto simp: PutChar_def rbind_eq_Inr)

lemma Network_Send_Inr:
  assumes "Network_Send H hdr bs s = Inr (ok, s')"
  obtains s1 w where "Schedule NetworkSendDone NetworkTime NetworkSendInt s = Inr s1" "s' = s1\<lparr>network := (network s)\<lparr>wire := w\<rparr>\<rparr>"
proof -
  obtain s1 where s1: "Schedule NetworkSendDone NetworkTime NetworkSendInt s = Inr s1"
    and s': "s' = s1 \<or> (\<exists>w. s' = s1\<lparr>network := (network s)\<lparr>wire := w\<rparr>\<rparr>)"
    using assms by (auto simp: Network_Send_def Let_def rbind_eq_Inr split: if_splits)
  have "s1 = s1\<lparr>network := (network s)\<lparr>wire := wire (network s)\<rparr>\<rparr>" using s1 by (simp add: Schedule_Inr)
  with s1 s' that show ?thesis by blast
qed

lemma inv_kept_dev_call: "calls_ok s \<Longrightarrow> inv_kept (dev_call c s)"
  by (cases c) (auto simp: PostOffice_Send_def PostOffice_Receive_def intro!: dev_calls)

lemma inv_kept_dev_exec: "calls_ok s \<Longrightarrow> inv_kept (dev_exec H c s)"
proof (cases c)
  case (Prog cs)
  then show "calls_ok s \<Longrightarrow> ?thesis" by (cases cs) (auto intro!: dev_calls inv_kept_dev_call)
qed (auto simp: readSector_request_def writeSector_request_def writeLine_loop_def readLine_loop_def readLine_get_def GetChar_def
    send_packet_def append_body_def remove_loop_def get_mail_def mapcar_body_def postalDelivery_receive_def Network_Receive_def
    MailBox_Put_def Let_def split: list.split dest: calls_ok_Schedule dest!: PutChar_Inr elim!: Network_Send_Inr intro!: dev_calls)

interpretation devs: kernel_user "dev_fire H" "dev_exec H" for H
  by unfold_locales (auto intro: dev_fire_handled inv_kept_dev_exec)

end
