(* ===== verification/Driver_Protocol.thy ===== *)
theory Driver_Protocol
  imports Device_Inv
begin

text \<open>
  The protocol of the three drivers that wait for the completion of a request: the disk, the output side of the
  console and the sending side of the post office. Each has a lock, a semaphore and a completion handler. A thread
  gets in line for the lock, and once it holds it makes requests, one at a time, waiting for each on the semaphore;
  then it releases the lock.

  \<open>drv_ok\<close> is the invariant of one driver, stated on the frames of each thread that belong to it, its lock, the
  value of its semaphore and the number of its completions that are pending.
\<close>

section \<open>The invariant of a driver\<close>

datatype drv = DiskDrv | OutDrv | NetDrv

fun drv_lock :: "drv \<Rightarrow> nat" where
  "drv_lock DiskDrv = disk_lock"
| "drv_lock OutDrv = outputMutex"
| "drv_lock NetDrv = sendLock"

fun drv_sem :: "drv \<Rightarrow> nat" where
  "drv_sem DiskDrv = disk_sem"
| "drv_sem OutDrv = outputDone"
| "drv_sem NetDrv = messageSent"

fun drv_done :: "drv \<Rightarrow> dhandler" where
  "drv_done DiskDrv = DiskDone"
| "drv_done OutDrv = ConsoleWriteDone"
| "drv_done NetDrv = NetworkSendDone"

text \<open>The pieces of code that run with the lock held.\<close>

fun critical :: "drv \<Rightarrow> dcode \<Rightarrow> bool" where
  "critical DiskDrv (ReadSector_request n) = True"
| "critical DiskDrv (WriteSector_request n bs) = True"
| "critical OutDrv (WriteLine_loop chars k n) = True"
| "critical NetDrv (Send_packet pktHdr buffer) = True"
| "critical d c = False"

fun own_frame :: "drv \<Rightarrow> dcode frame \<Rightarrow> bool" where
  "own_frame d (F_P i old) \<longleftrightarrow> i = drv_sem d"
| "own_frame d (F_Acquire l) \<longleftrightarrow> l = drv_lock d"
| "own_frame d (F_Release l) \<longleftrightarrow> l = drv_lock d"
| "own_frame d (F_Code c) \<longleftrightarrow> critical d c"
| "own_frame d f \<longleftrightarrow> False"

definition own :: "drv \<Rightarrow> dev \<Rightarrow> tid \<Rightarrow> dcode frame list" where
  "own d s u = filter (own_frame d) (cores s u)"

definition in_section :: "drv \<Rightarrow> dcode frame \<Rightarrow> bool" where
  "in_section d g \<longleftrightarrow> g = F_Release (drv_lock d) \<or> (\<exists>c. critical d c \<and> g = F_Code c)"

text \<open>The holder of the lock is between requests, or waits for a completion that is pending or was just signalled.\<close>

definition holder_ok :: "drv \<Rightarrow> dcode frame list \<Rightarrow> int \<Rightarrow> nat \<Rightarrow> bool" where
  "holder_ok d fs v n \<longleftrightarrow> (\<exists>g. in_section d g \<and>
     (fs = [g] \<and> v = 0 \<and> n = 0 \<or> (\<exists>old. fs = [F_P (drv_sem d) old, g]) \<and> (v = 0 \<and> n = 1 \<or> v = 1 \<and> n = 0)))"

definition drv_ok :: "drv \<Rightarrow> (tid \<Rightarrow> dcode frame list) \<Rightarrow> Lock \<Rightarrow> int \<Rightarrow> nat \<Rightarrow> bool" where
  "drv_ok d ow lk v n \<longleftrightarrow> lock_ok lk \<and> distinct (line lk)
     \<and> (\<forall>u. u \<notin> set (line lk) \<longrightarrow> ow u = [])
     \<and> (\<forall>u \<in> set (tl (line lk)). \<exists>c. critical d c \<and> ow u = [F_Code c])
     \<and> (if line lk = [] then v = 0 \<and> n = 0 else holder_ok d (ow (hd (line lk))) v n)"

definition drv_inv :: "drv \<Rightarrow> dev \<Rightarrow> bool" where
  "drv_inv d s \<longleftrightarrow> drv_ok d (own d s) (locks s (drv_lock d)) (sem_values s (drv_sem d)) (dones s (drv_done d))"

section \<open>The moves of the protocol\<close>

lemma in_section_frame: "in_section d g \<Longrightarrow> own_frame d g"
  by (auto simp: in_section_def)

lemma holder_head:
  assumes "drv_ok d ow lk v n" "ow t \<noteq> []" "t \<notin> set (waitingThreads lk)"
  shows "line lk = t # waitingThreads lk" "holder_ok d (ow t) v n"
proof -
  have "t \<in> set (line lk)" using assms(1,2) by (auto simp: drv_ok_def)
  with assms(3) show l: "line lk = t # waitingThreads lk" by (cases "owner lk") (auto simp: line_def)
  with assms(1) show "holder_ok d (ow t) v n" by (simp add: drv_ok_def)
qed

lemma drv_outside:
  assumes "drv_ok d ow lk v n" "ow t = []"
  shows "t \<notin> set (line lk)"
proof
  assume "t \<in> set (line lk)"
  then obtain h ts where "line lk = h # ts" "t = h \<or> t \<in> set ts" by (cases "line lk") auto
  with assms(1,2) show False by (auto simp: drv_ok_def holder_ok_def)
qed

lemma drv_enter:
  assumes "drv_ok d ow lk v n" "ow t = []" "critical d c" "lock_ok lk'" "line lk' = line lk @ [t]"
  shows "drv_ok d (ow(t := [F_Code c])) lk' v n"
proof (cases "line lk")
  case Nil
  with assms show ?thesis by (auto simp: drv_ok_def holder_ok_def in_section_def)
next
  case (Cons h ts)
  with assms drv_outside [OF assms(1,2)] show ?thesis by (auto simp: drv_ok_def)
qed

lemma drv_holder_moves:
  assumes "drv_ok d ow lk v n" "ow t \<noteq> []" "t \<notin> set (waitingThreads lk)" "holder_ok d fs v' n'"
  shows "drv_ok d (ow(t := fs)) lk v' n'"
  using holder_head [OF assms(1-3)] assms(1,4) by (auto simp: drv_ok_def)

lemma drv_leave:
  assumes "drv_ok d ow lk v n" "ow t = [F_Release (drv_lock d)]" "t \<notin> set (waitingThreads lk)" "lock_ok lk'" "line lk' = tl (line lk)"
  shows "drv_ok d (ow(t := [])) lk' v n"
proof -
  note h = holder_head [OF assms(1) _ assms(3)]
  have l: "line lk = t # waitingThreads lk" "v = 0" "n = 0" using h assms(2) by (auto simp: holder_ok_def)
  show ?thesis
  proof (cases "waitingThreads lk")
    case Nil
    with l assms show ?thesis by (auto simp: drv_ok_def)
  next
    case (Cons u us)
    with l assms have "\<exists>c. critical d c \<and> ow u = [F_Code c]" by (simp add: drv_ok_def)
    then have "holder_ok d (ow u) 0 0" by (auto simp: holder_ok_def in_section_def)
    with l assms Cons show ?thesis by (auto simp: drv_ok_def)
  qed
qed

lemma drv_signalled:
  assumes "drv_ok d ow lk v (Suc n)"
  shows "drv_ok d ow lk (v + 1) n"
  using assms by (auto simp: drv_ok_def holder_ok_def split: if_splits)

section \<open>What leaves a driver alone\<close>

definition foreign :: "drv \<Rightarrow> dev \<Rightarrow> dev \<Rightarrow> bool" where
  "foreign d s s' \<longleftrightarrow> own d s' = own d s \<and> locks s' (drv_lock d) = locks s (drv_lock d)
     \<and> sem_values s' (drv_sem d) = sem_values s (drv_sem d) \<and> dones s' (drv_done d) = dones s (drv_done d)"

lemma foreign_inv: "foreign d s s' \<Longrightarrow> drv_inv d s' = drv_inv d s"
  by (simp add: foreign_def drv_inv_def)

lemma foreign_trans: "foreign d s s' \<Longrightarrow> foreign d s' s'' \<Longrightarrow> foreign d s s''"
  by (simp add: foreign_def)

lemma foreign_view: "kview s' = kview s \<Longrightarrow> foreign d s s'"
  by (simp add: foreign_def kview_def own_def fun_eq_iff)

lemma own_core: "filter (own_frame d) (filter core fs) = filter (own_frame d) fs"
proof -
  have "own_frame d f \<Longrightarrow> core f" for f by (cases f) auto
  then show ?thesis by (induction fs) auto
qed

lemma own_push: "own d (push fs s) = (own d s)(currentThread s := filter (own_frame d) fs @ own d s (currentThread s))"
  by (simp add: own_def fun_eq_iff cores_push own_core del: filter_filter)

lemma foreign_push: "filter (own_frame d) fs = [] \<Longrightarrow> foreign d s (push fs s)"
  by (simp add: foreign_def own_push)

lemma foreign_lock: "only_lock l s s' \<Longrightarrow> l \<noteq> drv_lock d \<Longrightarrow> foreign d s s'"
  using only_lock_D [of l s s'] by (simp add: foreign_def own_def fun_eq_iff)

lemma foreign_P:
  assumes "P i s = Inr s'" "i \<noteq> drv_sem d"
  shows "foreign d s s'"
  using kv_P [OF assms(1)] assms(2) foreign_push [of d "[F_P i (level s)]" s]
  by (auto simp: foreign_def kview_def own_def [abs_def] split: if_splits)

lemma foreign_P_loop:
  assumes "P_loop i old s = Inr s'" "i \<noteq> drv_sem d"
  shows "foreign d s s'"
  using kv_P_loop [OF assms(1)] assms(2) foreign_push [of d "[F_P i old]" s]
  by (auto simp: foreign_def kview_def own_def [abs_def] split: if_splits)

lemma foreign_V: "V i s = Inr s' \<Longrightarrow> i \<noteq> drv_sem d \<Longrightarrow> foreign d s s'"
  using kv_V [of i s s'] by (auto simp: foreign_def kview_def own_def [abs_def])

lemma foreign_Wait: "Wait c (Some l) s = Inr s' \<Longrightarrow> l \<noteq> drv_lock d \<Longrightarrow> foreign d s s'"
  using kv_Wait [of c l s s'] foreign_view [of s' s d] foreign_lock [of l "push [F_Acquire l] s" s' d] foreign_push [of d "[F_Acquire l]" s]
  by (auto intro: foreign_trans)

lemma foreign_Schedule: "Schedule h t ty s = Inr s' \<Longrightarrow> h \<noteq> drv_done d \<Longrightarrow> foreign d s s'"
  by (auto simp: Schedule_Inr foreign_def own_def [abs_def] dones_pending)

lemma foreign_refl [simp]: "foreign d s s"
  by (simp add: foreign_def)

lemma foreign_dev [simp]:
  "foreign d s (s\<lparr>con := x1\<rparr>)" "foreign d s (s\<lparr>network := x2\<rparr>)" "foreign d s (s\<lparr>disk := x3\<rparr>)" "foreign d s (s\<lparr>boxes := x4\<rparr>)"
  "foreign d s (s\<lparr>history := x5\<rparr>)" "foreign d s (s\<lparr>stats := x6\<rparr>)" "foreign d s (note_event e s)"
  by (simp_all add: foreign_def own_def [abs_def] cores_def [abs_def] sem_values_def [abs_def] dones_def [abs_def] note_event_def)

lemma foreign_Acquire: "Acquire l s = Inr s' \<Longrightarrow> l \<noteq> drv_lock d \<Longrightarrow> foreign d s s'"
  by (rule foreign_lock [OF kv_Acquire])

lemma foreign_Release: "Release l s = Inr s' \<Longrightarrow> l \<noteq> drv_lock d \<Longrightarrow> foreign d s s'"
  by (rule foreign_lock [OF kv_Release])

lemma foreign_Signal: "Signal c cl s = Inr s' \<Longrightarrow> foreign d s s'"
  by (rule foreign_view [OF kv_Signal])

lemma foreign_Yield: "Yield s = Inr s' \<Longrightarrow> foreign d s s'"
  by (rule foreign_view [OF kv_Yield])

text \<open>\<open>spares d s r\<close>: if the operation returns, it has left the driver alone since \<open>s\<close>.\<close>

definition spares :: "drv \<Rightarrow> dev \<Rightarrow> dev result \<Rightarrow> bool" where
  "spares d s r \<longleftrightarrow> (\<forall>s'. r = Inr s' \<longrightarrow> foreign d s s')"

lemma spares_simps [simp]: "spares d s (Inl e)" "spares d s (Inr s') = foreign d s s'"
  by (auto simp: spares_def)

lemma spares_rbind: "(\<And>x. r = Inr x \<Longrightarrow> spares d s (f x)) \<Longrightarrow> spares d s (rbind r f)"
  by (cases r) auto

lemma foreign_updates [simp]:
  "foreign d s (s1\<lparr>con := x1\<rparr>) = foreign d s s1" "foreign d s (s1\<lparr>network := x2\<rparr>) = foreign d s s1"
  "foreign d s (s1\<lparr>disk := x3\<rparr>) = foreign d s s1" "foreign d s (s1\<lparr>boxes := x4\<rparr>) = foreign d s s1"
  "foreign d s (s1\<lparr>stats := x6\<rparr>) = foreign d s s1" "foreign d s (note_event e s1) = foreign d s s1"
  "foreign d s (s1\<lparr>yieldOnReturn := b\<rparr>) = foreign d s s1"
  "filter (own_frame d) fs = [] \<Longrightarrow> foreign d s (push fs s1) = foreign d s s1"
  using foreign_dev [of d s1] foreign_push [of d fs s1] foreign_view [of "s1\<lparr>yieldOnReturn := b\<rparr>" s1 d] by (simp_all add: foreign_def)

lemma spares_ops:
  assumes "foreign d s s1"
  shows "i \<noteq> drv_sem d \<Longrightarrow> spares d s (P i s1)" "i \<noteq> drv_sem d \<Longrightarrow> spares d s (V i s1)"
    "l \<noteq> drv_lock d \<Longrightarrow> spares d s (Acquire l s1)" "l \<noteq> drv_lock d \<Longrightarrow> spares d s (Wait c (Some l) s1)"
    "h \<noteq> drv_done d \<Longrightarrow> spares d s (Schedule h t ty s1)" "spares d s (Signal c cl s1)" "spares d s (Yield s1)"
  using assms foreign_P [of i s1 _ d] foreign_V [of i s1 _ d] foreign_Acquire [of l s1 _ d] foreign_Wait [of c l s1 _ d]
    foreign_Schedule [of h t ty s1 _ d] foreign_Signal [of c cl s1 _ d] foreign_Yield [of s1 _ d]
  by (auto simp: spares_def intro: foreign_trans)

lemma spares_Inr: "spares d s r \<Longrightarrow> r = Inr s' \<Longrightarrow> foreign d s s'"
  by (simp add: spares_def)

lemmas sync_objects = disk_lock_def inputMutex_def outputMutex_def sendLock_def box_lock_def disk_sem_def inputAvailable_def
  outputDone_def messageAvailable_def messageSent_def

lemma drv_objects [simp]:
  "drv_lock d \<noteq> box_lock b" "box_lock b \<noteq> drv_lock d" "inputMutex \<noteq> drv_lock d" "inputAvailable \<noteq> drv_sem d" "messageAvailable \<noteq> drv_sem d"
  "ConsoleReadPoll \<noteq> drv_done d" "NetworkReadPoll \<noteq> drv_done d" "TimerTick r \<noteq> drv_done d"
  by (cases d; simp add: sync_objects)+

text \<open>The calls that are not of the driver.\<close>

fun drv_call :: "drv \<Rightarrow> dcall \<Rightarrow> bool" where
  "drv_call d (D_ReadSector n) \<longleftrightarrow> d = DiskDrv"
| "drv_call d (D_WriteSector n bs) \<longleftrightarrow> d = DiskDrv"
| "drv_call d (D_WriteLine chars n) \<longleftrightarrow> d = OutDrv"
| "drv_call d (D_Send p m bs) \<longleftrightarrow> d = NetDrv"
| "drv_call d c \<longleftrightarrow> False"

lemma drv_distinct [simp]:
  "d \<noteq> DiskDrv \<Longrightarrow> disk_lock \<noteq> drv_lock d" "d \<noteq> OutDrv \<Longrightarrow> outputMutex \<noteq> drv_lock d" "d \<noteq> NetDrv \<Longrightarrow> sendLock \<noteq> drv_lock d"
  "d \<noteq> DiskDrv \<Longrightarrow> disk_sem \<noteq> drv_sem d" "d \<noteq> OutDrv \<Longrightarrow> outputDone \<noteq> drv_sem d" "d \<noteq> NetDrv \<Longrightarrow> messageSent \<noteq> drv_sem d"
  "d \<noteq> DiskDrv \<Longrightarrow> DiskDone \<noteq> drv_done d" "d \<noteq> OutDrv \<Longrightarrow> ConsoleWriteDone \<noteq> drv_done d" "d \<noteq> NetDrv \<Longrightarrow> NetworkSendDone \<noteq> drv_done d"
  by (cases d; simp add: sync_objects)+

lemma critical_iff [simp]:
  "critical d (ReadSector_request n) \<longleftrightarrow> d = DiskDrv" "critical d (WriteSector_request n bs) \<longleftrightarrow> d = DiskDrv"
  "critical d (WriteLine_loop chars k j) \<longleftrightarrow> d = OutDrv" "critical d (Send_packet pktHdr buffer) \<longleftrightarrow> d = NetDrv"
  "\<not> critical d (Prog cs)" "\<not> critical d (ReadLine_loop ch chars j)" "\<not> critical d (ReadLine_get chars j)"
  "\<not> critical d (Append_body b mail)" "\<not> critical d (Remove_loop b)" "\<not> critical d (Get_mail b mail)" "\<not> critical d (Mapcar_body b)"
  "\<not> critical d (PD_loop buffer)" "\<not> critical d (PD_receive buffer)" "\<not> critical d (Returned e)"
  by (cases d; simp)+

lemma spares_call: "foreign d s s1 \<Longrightarrow> \<not> drv_call d c \<Longrightarrow> spares d s (dev_call c s1)"
  by (cases c) (auto simp: PostOffice_Send_def PostOffice_Receive_def intro!: spares_ops spares_rbind)

lemma foreign_eq: "foreign d s1 s' \<Longrightarrow> foreign d s s' = foreign d s s1"
  by (auto simp: foreign_def)

lemma Schedule_foreign: "Schedule h t ty s1 = Inr s' \<Longrightarrow> h \<noteq> drv_done d \<longrightarrow> (\<forall>s. foreign d s s' = foreign d s s1)"
  using foreign_Schedule [of h t ty s1 s' d] by (auto simp: foreign_eq)

lemma PutChar_foreign: "PutChar ch s1 = Inr s' \<Longrightarrow> d \<noteq> OutDrv \<longrightarrow> (\<forall>s. foreign d s s' = foreign d s s1)"
  by (drule PutChar_Inr, elim conjE, drule Schedule_foreign [where d = d]) simp

lemma Network_Send_foreign: "Network_Send H hdr bs s1 = Inr (ok, s') \<Longrightarrow> d \<noteq> NetDrv \<longrightarrow> (\<forall>s. foreign d s s' = foreign d s s1)"
  by (erule Network_Send_Inr) (auto dest!: Schedule_foreign [where d = d])

lemma spares_exec:
  assumes "\<not> critical d c" "\<And>c' cs. c = Prog (c' # cs) \<Longrightarrow> \<not> drv_call d c'"
  shows "spares d s (dev_exec H c s)"
proof (cases c)
  case (Prog cs)
  with assms(2) show ?thesis by (cases cs) (auto intro!: spares_call)
qed (use assms(1) in \<open>auto simp: readSector_request_def writeSector_request_def writeLine_loop_def readLine_loop_def readLine_get_def GetChar_def
    send_packet_def append_body_def remove_loop_def get_mail_def mapcar_body_def postalDelivery_receive_def Network_Receive_def
    MailBox_Put_def Let_def split: list.split intro!: spares_ops spares_rbind
    dest!: PutChar_foreign [where d = d] Network_Send_foreign [where d = d] Schedule_foreign [where d = d]\<close>)

section \<open>The driver's own steps\<close>

lemma lock_ok_Acquire: "Acquire l s = Inr s' \<Longrightarrow> lock_ok (locks s l) \<Longrightarrow> lock_ok (locks s' l)"
  by (auto simp: Acquire_def SetLevel_off Let_def Sleep_def rbind_eq_Inr lock_ok_def split: if_splits dest!: locks_SetLevel)

lemma lock_ok_Release: "Release l s = Inr s' \<Longrightarrow> lock_ok (locks s l) \<Longrightarrow> lock_ok (locks s' l)"
  by (auto simp: Release_def SetLevel_off Let_def ReadyToRun_def rbind_eq_Inr lock_ok_def isHeldByCurrentThread_def split: if_splits list.splits
      dest!: locks_SetLevel)

lemma not_waiting: "calls_ok s \<Longrightarrow> currentThread s \<notin> set (waitingThreads (locks s l))"
  using running_unqueued [of s "QLock l"] by (simp add: calls_ok_def)

lemma drv_inv_D: "drv_inv d s \<Longrightarrow> lock_ok (locks s (drv_lock d))"
  by (simp add: drv_inv_def drv_ok_def)

text \<open>A call of the driver: the thread, which has no business with it yet, gets in line.\<close>

lemma enter:
  assumes "drv_inv d s" "calls_ok s" "own d s (currentThread s) = []" "filter (own_frame d) fs = [F_Code c]" "critical d c"
    "\<forall>f \<in> set fs. \<not> needs_off f" "Acquire (drv_lock d) (push fs s) = Inr s'"
  shows "drv_inv d s'" "own d s' = (own d s)(currentThread s := [F_Code c])"
    "line (locks s' (drv_lock d)) = line (locks s (drv_lock d)) @ [currentThread s]"
proof -
  let ?t = "currentThread s" and ?l = "drv_lock d"
  note lk = lock_ok_Acquire [OF assms(7)] kv_Acquire [OF assms(7)]
  have ok: "lock_ok (locks s ?l)" "lock_ok (locks s' ?l)" using drv_inv_D [OF assms(1)] lk(1) by simp_all
  have nin: "?t \<notin> set (line (locks s ?l))"
    using drv_outside assms(1,3) unfolding drv_inv_def .
  show l: "line (locks s' ?l) = line (locks s ?l) @ [?t]"
    using Acquire_line(1) [OF calls_ok_pushes [OF assms(2,6)] _ assms(7)] ok(1) nin by simp
  from drv_enter [OF assms(1) [unfolded drv_inv_def] assms(3,5) ok(2) l]
  have "drv_ok d ((own d s)(?t := [F_Code c])) (locks s' ?l) (sem_values s (drv_sem d)) (dones s (drv_done d))" .
  moreover show "own d s' = (own d s)(?t := [F_Code c])"
    using only_lock_D(1) [OF lk(2)] own_push [of d fs s] assms(3,4) by (simp add: own_def [abs_def])
  ultimately show "drv_inv d s'" using only_lock_D(2,3) [OF lk(2)] by (simp add: drv_inv_def)
qed

text \<open>A frame of the driver is at the top of the stack only of the thread that holds the lock.\<close>

lemma popped_own:
  assumes "popped_core f s s0"
  shows "own d s = (own d s0)(currentThread s := filter (own_frame d) [f] @ own d s0 (currentThread s))"
    "locks s0 = locks s" "sem_values s0 = sem_values s" "dones s0 = dones s" "currentThread s0 = currentThread s"
  using assms by (auto simp: popped_core_def own_def fun_eq_iff)

lemma popped_foreign: "popped_core f s s0 \<Longrightarrow> \<not> own_frame d f \<Longrightarrow> foreign d s s0"
  using popped_own [of f s s0] by (simp add: foreign_def)

lemma popped_holder:
  assumes "drv_inv d s" "popped_core f s s0" "own_frame d f" "calls_ok s0"
  defines "t \<equiv> currentThread s"
  shows "holder_ok d (f # own d s0 t) (sem_values s0 (drv_sem d)) (dones s0 (drv_done d))"
    "holder_ok d fs' v' n' \<Longrightarrow> drv_ok d ((own d s0)(t := fs')) (locks s0 (drv_lock d)) v' n'"
    "owner (locks s0 (drv_lock d)) = Some t"
proof -
  note po = popped_own [OF assms(2)]
  have o: "own d s t = f # own d s0 t" "own d s = (own d s0)(t := f # own d s0 t)" using po(1) [of d] assms(3) by (simp_all add: t_def)
  have w: "t \<notin> set (waitingThreads (locks s (drv_lock d)))" using not_waiting [OF assms(4)] po(2,5) by (simp add: t_def)
  note inv = assms(1) [unfolded drv_inv_def]
  show "holder_ok d (f # own d s0 t) (sem_values s0 (drv_sem d)) (dones s0 (drv_done d))"
    using holder_head(2) [OF inv, of t] o(1) w po by simp
  show "holder_ok d fs' v' n' \<Longrightarrow> drv_ok d ((own d s0)(t := fs')) (locks s0 (drv_lock d)) v' n'"
    using drv_holder_moves [OF inv, of t fs' v' n'] o w po by simp
  show "owner (locks s0 (drv_lock d)) = Some t"
    using holder_head(1) [OF inv, of t] o(1) w po(2) by (auto simp: line_def split: option.splits)
qed

lemma P_step:
  assumes "drv_inv d s" "popped_core (F_P i old) s s0" "calls_ok s0" "P_loop i old s0 = Inr s'"
  shows "drv_inv d s'"
proof (cases "i = drv_sem d")
  case False
  then have "foreign d s s'" using popped_foreign [OF assms(2)] foreign_P_loop [OF assms(4)] by (auto intro: foreign_trans)
  with assms(1) show ?thesis by (simp add: foreign_inv)
next
  case True
  let ?t = "currentThread s"
  note po = popped_own(5) [OF assms(2)]
  note h = popped_holder [OF assms(1,2) _ assms(3), unfolded True]
  from h(1) obtain g where g: "own d s0 ?t = [g]" "in_section d g"
    and vn: "sem_values s0 i = 0 \<and> dones s0 (drv_done d) = 1 \<or> sem_values s0 i = 1 \<and> dones s0 (drv_done d) = 0"
    by (auto simp: holder_ok_def True in_section_def)
  note kv = kv_P_loop [OF assms(4)]
  show ?thesis
  proof (cases "sem_values s0 i = 0")
    case zero: True
    then have v: "kview s' = kview (push [F_P i old] s0)" using kv by simp
    have "own d s' = (own d s0)(?t := [F_P i old, g])"
      using kview_eqD(1) [OF v] own_push [of d "[F_P i old]" s0] True g(1) po by (simp add: own_def [abs_def])
    moreover have "holder_ok d [F_P i old, g] 0 1" using True g(2) by (auto simp: holder_ok_def)
    ultimately show ?thesis using h(2) [of "[F_P i old, g]" 0 1] True zero vn kview_eqD [OF v] by (simp add: drv_inv_def)
  next
    case False
    let ?s = "set_sem i ((semaphores s0 i)\<lparr>sem_value := sem_values s0 i - 1\<rparr>) s0"
    have v: "kview s' = kview ?s" using kv False by simp
    have "own d s' = (own d s0)(?t := [g])" using kview_eqD(1) [OF v] g(1) by (auto simp: own_def fun_eq_iff)
    moreover have "holder_ok d [g] 0 0" using g(2) by (auto simp: holder_ok_def)
    ultimately show ?thesis using h(2) [of "[g]" 0 0] True False vn kview_eqD [OF v] by (simp add: drv_inv_def)
  qed
qed

lemma Release_step:
  assumes "drv_inv d s" "popped_core (F_Release l) s s0" "calls_ok s0" "Release l s0 = Inr s'"
  shows "drv_inv d s'"
proof (cases "l = drv_lock d")
  case False
  then have "foreign d s s'" using popped_foreign [OF assms(2)] foreign_Release [OF assms(4)] by (auto intro: foreign_trans)
  with assms(1) show ?thesis by (simp add: foreign_inv)
next
  case True
  let ?t = "currentThread s"
  note po = popped_own [OF assms(2)]
  have "own d s0 ?t = []" using popped_holder(1) [OF assms(1,2) _ assms(3)] True by (auto simp: holder_ok_def)
  then have o: "own d s ?t = [F_Release l]" "own d s0 = (own d s)(?t := [])" using po(1) [of d] True by (auto simp: fun_eq_iff)
  have w: "?t \<notin> set (waitingThreads (locks s l))" using not_waiting [OF assms(3)] po(2,5) by simp
  note inv = assms(1) [unfolded drv_inv_def]
  have head: "line (locks s l) = ?t # waitingThreads (locks s l)" using holder_head(1) [OF inv] o(1) w True by simp
  have ok: "lock_ok (locks s0 l)" "lock_ok (locks s' l)" using drv_inv_D [OF assms(1)] True po(2) lock_ok_Release [OF assms(4)] by simp_all
  have "line (locks s' l) = tl (line (locks s l))" using Release_line(1) [OF ok(1) assms(4)] head po(2,5) by simp
  then have "drv_ok d ((own d s)(?t := [])) (locks s' (drv_lock d)) (sem_values s (drv_sem d)) (dones s (drv_done d))"
    using o(1) w ok(2) unfolding True by (intro drv_leave [OF inv]) simp_all
  then have "drv_ok d (own d s0) (locks s' l) (sem_values s0 (drv_sem d)) (dones s0 (drv_done d))"
    unfolding o(2) True po(3,4) .
  with only_lock_D(1,2,3) [OF kv_Release [OF assms(4)]] True show ?thesis by (simp add: drv_inv_def own_def [abs_def])
qed

text \<open>A request: the completion becomes pending, and the thread waits for it.\<close>

lemma request_step:
  assumes "drv_inv d s" "popped_core (F_Code c) s s0" "critical d c" "calls_ok s0"
    "own d s1 = own d s0" "locks s1 = locks s0" "sem_values s1 = sem_values s0" "currentThread s1 = currentThread s0"
    "dones s1 (drv_done d) = Suc (dones s0 (drv_done d))"
    "filter (own_frame d) fs = [g]" "in_section d g" "P (drv_sem d) (push fs s1) = Inr s'"
  shows "drv_inv d s'"
proof -
  let ?t = "currentThread s"
  note po = popped_own(5) [OF assms(2)]
  note h = popped_holder [OF assms(1,2) _ assms(4)]
  have z: "own d s0 ?t = []" "sem_values s0 (drv_sem d) = 0" "dones s0 (drv_done d) = 0"
    using h(1) assms(3) by (auto simp: holder_ok_def)
  let ?f = "F_P (drv_sem d) (level (push fs s1))"
  have v: "kview s' = kview (push [?f] (push fs s1))" using kv_P [OF assms(12)] z(2) assms(7) by simp
  have "own d s' = own d (push [?f] (push fs s1))" using kview_eqD(1) [OF v] by (simp add: own_def [abs_def])
  then have "own d s' = (own d s0)(?t := [?f, g])"
    using own_push [of d "[?f]" "push fs s1"] own_push [of d fs s1] assms(5,8,10) z(1) po by simp
  moreover have "holder_ok d [?f, g] 0 1" using assms(11) by (auto simp: holder_ok_def)
  ultimately show ?thesis using h(2) [of "[?f, g]" 0 1] assms(3,6,7,9) z kview_eqD [OF v] by (simp add: drv_inv_def)
qed

lemma last_step:
  assumes "drv_inv d s" "popped_core (F_Code c) s s0" "critical d c" "calls_ok s0"
    "foreign d s0 s1" "currentThread s1 = currentThread s0" "filter (own_frame d) fs = [g]" "in_section d g"
  shows "drv_inv d (push fs s1)"
proof -
  let ?t = "currentThread s"
  note po = popped_own(5) [OF assms(2)]
  note h = popped_holder [OF assms(1,2) _ assms(4)]
  have z: "own d s0 ?t = []" "sem_values s0 (drv_sem d) = 0" "dones s0 (drv_done d) = 0"
    using h(1) assms(3) by (auto simp: holder_ok_def)
  have "own d (push fs s1) = (own d s0)(?t := [g])" using own_push [of d fs s1] assms(5-7) z(1) po by (simp add: foreign_def)
  moreover have "holder_ok d [g] 0 0" using assms(8) by (auto simp: holder_ok_def)
  ultimately show ?thesis using h(2) [of "[g]" 0 0] assms(3,5) z by (simp add: drv_inv_def foreign_def)
qed

section \<open>The bottom of the stacks\<close>

text \<open>The loop over the calls of a thread, and the loop of the postal worker, are at the bottom of their stacks.\<close>

fun base :: "dcode frame \<Rightarrow> bool" where
  "base (F_Code (Prog cs)) = True"
| "base (F_Code (PD_loop buffer)) = True"
| "base (F_Code (PD_receive buffer)) = True"
| "base f = False"

definition bottoms :: "dcode frame list \<Rightarrow> bool" where
  "bottoms fs \<longleftrightarrow> (\<forall>f \<in> set (butlast fs). \<not> base f)"

definition piles :: "dev \<Rightarrow> dev \<Rightarrow> bool" where
  "piles s s' \<longleftrightarrow> (\<forall>u. \<exists>fs. (\<forall>f \<in> set fs. \<not> base f) \<and> cores s' u = fs @ cores s u)"

lemma piles_bottoms: "piles s s' \<Longrightarrow> \<forall>u. bottoms (cores s u) \<Longrightarrow> bottoms (cores s' u)"
proof -
  assume "piles s s'" and b: "\<forall>u. bottoms (cores s u)"
  then obtain fs where "\<forall>f \<in> set fs. \<not> base f" "cores s' u = fs @ cores s u" unfolding piles_def by blast
  with b show "bottoms (cores s' u)" by (auto simp: bottoms_def butlast_append split: if_splits dest: in_set_butlastD)
qed

lemma piles_trans: "piles s s' \<Longrightarrow> piles s' s'' \<Longrightarrow> piles s s''"
proof -
  assume a: "piles s s'" "piles s' s''"
  show "piles s s''" unfolding piles_def
  proof
    fix u
    from a(1) obtain fs where f: "\<forall>f \<in> set fs. \<not> base f" "cores s' u = fs @ cores s u" unfolding piles_def by blast
    from a(2) obtain gs where g: "\<forall>f \<in> set gs. \<not> base f" "cores s'' u = gs @ cores s' u" unfolding piles_def by blast
    from f g show "\<exists>fs. (\<forall>f \<in> set fs. \<not> base f) \<and> cores s'' u = fs @ cores s u" by (intro exI [of _ "gs @ fs"]) auto
  qed
qed

lemma piles_same: "cores s' = cores s \<Longrightarrow> piles s s'"
  by (simp add: piles_def)

lemma piles_push: "\<forall>f \<in> set fs. \<not> base f \<Longrightarrow> piles s (push fs s)"
  by (auto simp: piles_def cores_push intro!: exI [of _ "filter core fs"])

definition piling :: "dev \<Rightarrow> dev result \<Rightarrow> bool" where
  "piling s r \<longleftrightarrow> (\<forall>s'. r = Inr s' \<longrightarrow> piles s s')"

lemma piling_simps [simp]: "piling s (Inl e)" "piling s (Inr s') = piles s s'"
  by (auto simp: piling_def)

lemma piling_rbind: "(\<And>x. r = Inr x \<Longrightarrow> piling s (f x)) \<Longrightarrow> piling s (rbind r f)"
  by (cases r) auto

lemma piles_refl: "piles s s"
  by (simp add: piles_same)

lemma piles_updates:
  "piles s (s1\<lparr>con := x1\<rparr>) = piles s s1" "piles s (s1\<lparr>network := x2\<rparr>) = piles s s1"
  "piles s (s1\<lparr>disk := x3\<rparr>) = piles s s1" "piles s (s1\<lparr>boxes := x4\<rparr>) = piles s s1"
  "piles s (s1\<lparr>stats := x6\<rparr>) = piles s s1" "piles s (note_event e s1) = piles s s1"
  by (simp_all add: piles_def cores_def note_event_def)

lemma piling_ops:
  assumes "piles s s1"
  shows "piling s (P i s1)" "piling s (Acquire l s1)" "piling s (Wait c (Some l) s1)" "piling s (Schedule h t ty s1)"
    "piling s (Signal c cl s1)" "piling s (Yield s1)" "piling s (P_loop i old s1)" "piling s (Release l s1)"
proof -
  have "piles s1 s'" if "P i s1 = Inr s'" for s'
    using kv_P [OF that] piles_push [of "[F_P i (level s1)]" s1] by (auto simp: kview_def piles_def split: if_splits)
  then show "piling s (P i s1)" using assms piles_trans by (auto simp: piling_def)
  have "piles s1 s'" if "P_loop i old s1 = Inr s'" for s'
    using kv_P_loop [OF that] piles_push [of "[F_P i old]" s1] by (auto simp: kview_def piles_def split: if_splits)
  then show "piling s (P_loop i old s1)" using assms piles_trans by (auto simp: piling_def)
  show "piling s (Acquire l s1)" "piling s (Release l s1)"
    using assms piles_trans piles_same only_lock_D(1) [OF kv_Acquire] only_lock_D(1) [OF kv_Release] by (metis piling_def)+
  show "piling s (Signal c cl s1)" "piling s (Yield s1)"
    using assms piles_trans piles_same kview_eqD(1) [OF kv_Signal] kview_eqD(1) [OF kv_Yield] by (metis piling_def)+
  show "piling s (Schedule h t ty s1)" using assms by (auto simp: piling_def Schedule_Inr piles_def)
  have "piles s1 s'" if w: "Wait c (Some l) s1 = Inr s'" for s'
  proof (cases "kview s' = kview s1")
    case True
    then show ?thesis by (auto intro: piles_same dest: kview_eqD)
  next
    case False
    then have "cores s' = cores (push [F_Acquire l] s1)" using kv_Wait [OF w] only_lock_D(1) by blast
    with piles_push [of "[F_Acquire l]" s1] show ?thesis by (simp add: piles_def)
  qed
  then show "piling s (Wait c (Some l) s1)" using assms piles_trans by (auto simp: piling_def)
qed

lemma piles_pushes: "piles s s1 \<Longrightarrow> \<forall>f \<in> set fs. \<not> base f \<Longrightarrow> piles s (push fs s1)"
  using piles_push piles_trans by blast

lemma piling_call: "piles s s1 \<Longrightarrow> piling s (dev_call c s1)"
  by (cases c) (auto simp: PostOffice_Send_def PostOffice_Receive_def intro!: piling_ops piling_rbind piles_pushes)

lemma Schedule_piles: "Schedule h t ty s1 = Inr s' \<Longrightarrow> piles s s' = piles s s1"
  by (auto simp: Schedule_Inr piles_def)

lemma PutChar_piles: "PutChar ch s1 = Inr s' \<Longrightarrow> piles s s' = piles s s1"
  by (drule PutChar_Inr, elim conjE, drule Schedule_piles [where s = s]) (simp add: piles_updates)

lemma Network_Send_piles: "Network_Send H hdr bs s1 = Inr (ok, s') \<Longrightarrow> piles s s' = piles s s1"
  by (erule Network_Send_Inr, drule Schedule_piles [where s = s]) (simp add: piles_updates)

lemma piling_exec:
  assumes "\<not> base (F_Code c)"
  shows "piling s (dev_exec H c s)"
  using assms
  by (cases c)
    (auto simp: readSector_request_def writeSector_request_def writeLine_loop_def readLine_loop_def readLine_get_def GetChar_def
      send_packet_def append_body_def remove_loop_def get_mail_def mapcar_body_def Let_def piles_updates
      Schedule_piles PutChar_piles Network_Send_piles split: list.split intro!: piling_ops piling_rbind piles_pushes piles_refl)

section \<open>The busy flags of the devices\<close>

definition flags :: "dev \<Rightarrow> bool \<times> bool \<times> bool \<times> nat \<times> nat" where
  "flags s = (dsk_active (disk s), putBusy (con s), sendBusy (network s), dones s DiskDone, dones s ConsoleWriteDone)"

definition busy_ok :: "dev \<Rightarrow> bool" where
  "busy_ok s \<longleftrightarrow> (dsk_active (disk s) \<longleftrightarrow> 0 < dones s DiskDone) \<and> (putBusy (con s) \<longleftrightarrow> 0 < dones s ConsoleWriteDone) \<and> \<not> sendBusy (network s)"

lemma busy_ok_flags: "flags s' = flags s \<Longrightarrow> busy_ok s' = busy_ok s"
  by (simp add: flags_def busy_ok_def)

lemma flags_more: "kernel.more s' = kernel.more s \<Longrightarrow> dones s' = dones s \<Longrightarrow> flags s' = flags s"
  by (cases s; cases s') (simp add: flags_def)

lemma flags_view: "kview s' = kview s \<Longrightarrow> flags s' = flags s"
  by (intro flags_more) (auto dest: kview_eqD)

lemma flags_updates [simp]:
  "flags (s\<lparr>boxes := x4\<rparr>) = flags s" "flags (note_event e s) = flags s" "flags (push fs s) = flags s"
  "flags (s\<lparr>stats := x6\<rparr>) = flags s" "flags (s\<lparr>network := (network s)\<lparr>inHdr := h\<rparr>\<rparr>) = flags s"
  "flags (s\<lparr>network := (network s)\<lparr>inHdr := h, inbox := b, sock := x\<rparr>\<rparr>) = flags s"
  "flags (s\<lparr>con := (con s)\<lparr>incoming := ch\<rparr>\<rparr>) = flags s" "flags (s\<lparr>con := (con s)\<lparr>incoming := ch, keys := k\<rparr>\<rparr>) = flags s"
  by (simp_all add: flags_def note_event_def dones_def push_def set_thread_def)

lemma dones_dev [simp]: "dones (s\<lparr>network := x2\<rparr>) = dones s" "dones (s\<lparr>con := x1\<rparr>) = dones s" "dones (s\<lparr>disk := x3\<rparr>) = dones s"
  by (simp_all add: dones_def fun_eq_iff)

lemma cores_dev: "cores (s\<lparr>network := x2\<rparr>) = cores s" "cores (s\<lparr>con := x1\<rparr>) = cores s" "cores (s\<lparr>disk := x3\<rparr>) = cores s" "cores (s\<lparr>history := x5\<rparr>) = cores s"
  by (simp_all add: cores_def fun_eq_iff)

definition flags_kept :: "dev \<Rightarrow> dev result \<Rightarrow> bool" where
  "flags_kept s r \<longleftrightarrow> (\<forall>s'. r = Inr s' \<longrightarrow> flags s' = flags s)"

lemma flags_kept_simps [simp]: "flags_kept s (Inl e)" "flags_kept s (Inr s') \<longleftrightarrow> flags s' = flags s"
  by (auto simp: flags_kept_def)

lemma flags_kept_rbind: "(\<And>x. r = Inr x \<Longrightarrow> flags_kept s (f x)) \<Longrightarrow> flags_kept s (rbind r f)"
  by (cases r) auto

lemma flags_kept_ops:
  assumes "flags s1 = flags s"
  shows "flags_kept s (P i s1)" "flags_kept s (V i s1)" "flags_kept s (Acquire l s1)" "flags_kept s (Wait c (Some l) s1)"
    "flags_kept s (Signal c cl s1)" "flags_kept s (Yield s1)" "flags_kept s (P_loop i old s1)" "flags_kept s (Release l s1)"
proof -
  have "flags s' = flags s1" if "P i s1 = Inr s'" for s'
    using kv_P [OF that] by (intro flags_more) (auto simp: kview_def split: if_splits)
  then show "flags_kept s (P i s1)" using assms by (simp add: flags_kept_def)
  have "flags s' = flags s1" if "P_loop i old s1 = Inr s'" for s'
    using kv_P_loop [OF that] by (intro flags_more) (auto simp: kview_def split: if_splits)
  then show "flags_kept s (P_loop i old s1)" using assms by (simp add: flags_kept_def)
  have "flags s' = flags s1" if "V i s1 = Inr s'" for s'
    using kv_V [OF that] by (intro flags_more) (auto simp: kview_def)
  then show "flags_kept s (V i s1)" using assms by (simp add: flags_kept_def)
  have lk: "flags s' = flags s2" if "only_lock l s2 s'" for s2 s'
    using only_lock_D [OF that] by (intro flags_more)
  then show "flags_kept s (Acquire l s1)" "flags_kept s (Release l s1)"
    using assms kv_Acquire kv_Release by (metis flags_kept_def)+
  have "flags s' = flags s1" if w: "Wait c (Some l) s1 = Inr s'" for s'
    using kv_Wait [OF w] lk [of "push [F_Acquire l] s1" s'] flags_view [of s' s1] by auto
  then show "flags_kept s (Wait c (Some l) s1)" using assms by (simp add: flags_kept_def)
  show "flags_kept s (Signal c cl s1)" "flags_kept s (Yield s1)"
    using assms flags_view kv_Signal kv_Yield by (metis flags_kept_def)+
qed

lemma Schedule_flags: "Schedule h t ty s1 = Inr s' \<Longrightarrow> h \<noteq> DiskDone \<and> h \<noteq> ConsoleWriteDone \<longrightarrow> flags s' = flags s1"
  by (auto simp: Schedule_Inr flags_def dones_pending)

lemma Network_Send_flags: "Network_Send H hdr bs s1 = Inr (ok, s') \<Longrightarrow> flags s' = flags s1"
proof (erule Network_Send_Inr)
  fix s2 w
  assume "Schedule NetworkSendDone NetworkTime NetworkSendInt s1 = Inr s2" "s' = s2\<lparr>network := (network s1)\<lparr>wire := w\<rparr>\<rparr>"
  moreover from this(1) have "flags s2 = flags s1" "network s2 = network s1" by (auto dest: Schedule_flags) (simp add: Schedule_Inr)
  ultimately show "flags s' = flags s1" by (simp add: flags_def)
qed

lemma flags_call: "flags s1 = flags s \<Longrightarrow> flags_kept s (dev_call c s1)"
  by (cases c) (auto simp: PostOffice_Send_def PostOffice_Receive_def intro!: flags_kept_ops flags_kept_rbind)

lemma flags_exec:
  assumes "\<not> critical DiskDrv c" "\<not> critical OutDrv c"
  shows "flags_kept s (dev_exec H c s)"
proof (cases c)
  case (Prog cs)
  then show ?thesis by (cases cs) (auto intro!: flags_call)
qed (use assms in \<open>auto simp: readLine_loop_def readLine_get_def GetChar_def
      send_packet_def append_body_def remove_loop_def get_mail_def mapcar_body_def postalDelivery_receive_def Network_Receive_def
      MailBox_Put_def Let_def split: list.split intro!: flags_kept_ops flags_kept_rbind dest!: Network_Send_flags\<close>)

section \<open>Every step\<close>

definition dev_inv :: "dev \<Rightarrow> bool" where
  "dev_inv s \<longleftrightarrow> (\<forall>d. drv_inv d s) \<and> (\<forall>u. bottoms (cores s u)) \<and> busy_ok s"

lemma dev_inv_view: "kview s' = kview s \<Longrightarrow> dev_inv s' = dev_inv s"
proof -
  assume v: "kview s' = kview s"
  have "drv_inv d s' = drv_inv d s" for d by (rule foreign_inv [OF foreign_view [OF v]])
  with busy_ok_flags [OF flags_view [OF v]] kview_eqD(1) [OF v] show ?thesis by (simp add: dev_inv_def)
qed

text \<open>Interrupts: the completion of a request moves from the pending interrupts to the semaphore.\<close>

lemma done_sem:
  "DiskDone \<noteq> drv_done d \<Longrightarrow> disk_sem \<noteq> drv_sem d" "ConsoleWriteDone \<noteq> drv_done d \<Longrightarrow> outputDone \<noteq> drv_sem d"
  "NetworkSendDone \<noteq> drv_done d \<Longrightarrow> messageSent \<noteq> drv_sem d"
  by (cases d; simp add: sync_objects)+

lemma spares_fire:
  assumes "h \<noteq> drv_done d"
  shows "spares d s (dev_fire H h s)"
proof (cases h)
  case (TimerTick r)
  have "spares d s (TimerExpired (TimerTick r) (h_timer H) r s)" unfolding TimerExpired_def
    by (intro spares_rbind) (auto simp: TimerInterruptHandler_def YieldOnReturn_def spares_def rbind_eq_Inr foreign_view
        dest!: Schedule_foreign [where d = d] intro: foreign_trans)
  with TimerTick show ?thesis by simp
qed (use assms in \<open>auto simp: Disk_HandleInterrupt_def CheckCharAvail_def Console_WriteDone_def CheckPktAvail_def Network_SendDone_def
      done_sem split: list.split intro!: spares_rbind spares_ops dest!: Schedule_foreign [where d = d]\<close>)

lemma V_cores: "V i s = Inr s' \<Longrightarrow> cores s' = cores s"
  by (drule kv_V) (simp add: kview_def)

lemma fire_cores: "dev_fire H h s = Inr s' \<Longrightarrow> cores s' = cores s"
proof (cases h)
  case (TimerTick r)
  then show "dev_fire H h s = Inr s' \<Longrightarrow> ?thesis"
    by (auto simp: TimerExpired_def TimerInterruptHandler_def YieldOnReturn_def rbind_eq_Inr Schedule_Inr split: if_splits)
qed (auto simp: Disk_HandleInterrupt_def CheckCharAvail_def Console_WriteDone_def CheckPktAvail_def Network_SendDone_def
      rbind_eq_Inr Schedule_Inr note_event_def cores_dev split: list.splits if_splits dest!: V_cores)

lemma fire_flags:
  assumes "h \<noteq> DiskDone" "h \<noteq> ConsoleWriteDone" "busy_ok s"
  shows "dev_fire H h s = Inr s' \<Longrightarrow> busy_ok s'"
proof (cases h)
  case (TimerTick r)
  then show "dev_fire H h s = Inr s' \<Longrightarrow> ?thesis" using assms
    by (auto simp: TimerExpired_def TimerInterruptHandler_def YieldOnReturn_def rbind_eq_Inr busy_ok_def Schedule_Inr dones_pending split: if_splits)
next
  case NetworkSendDone
  let ?s = "s\<lparr>network := (network s)\<lparr>sendBusy := False\<rparr>, stats := (stats s)\<lparr>numPacketsSent := numPacketsSent (stats s) + 1\<rparr>\<rparr>"
  have "flags ?s = flags s" using assms(3) by (simp add: flags_def busy_ok_def)
  then show "dev_fire H h s = Inr s' \<Longrightarrow> ?thesis"
    using flags_kept_ops(2) [of ?s s messageSent] NetworkSendDone assms(3) by (auto simp: Network_SendDone_def flags_kept_def dest: busy_ok_flags)
next
  case ConsoleReadPoll
  have "flags_kept s (CheckCharAvail H s)" unfolding CheckCharAvail_def
    by (rule flags_kept_rbind) (auto split: list.split intro!: flags_kept_ops dest!: Schedule_flags)
  then show "dev_fire H h s = Inr s' \<Longrightarrow> ?thesis" using ConsoleReadPoll assms(3) by (auto simp: flags_kept_def dest: busy_ok_flags)
next
  case NetworkReadPoll
  have "flags_kept s (CheckPktAvail H s)" unfolding CheckPktAvail_def
    by (rule flags_kept_rbind) (auto split: list.split intro!: flags_kept_ops flags_kept_rbind dest!: Schedule_flags)
  then show "dev_fire H h s = Inr s' \<Longrightarrow> ?thesis" using NetworkReadPoll assms(3) by (auto simp: flags_kept_def dest: busy_ok_flags)
qed (use assms in simp_all)

lemma drv_pending: "drv_inv d s \<Longrightarrow> dones s (drv_done d) \<le> 1"
  by (auto simp: drv_inv_def drv_ok_def holder_ok_def split: if_splits)

lemma dev_sel [simp]:
  "locks (s\<lparr>con := x1\<rparr>) = locks s" "locks (s\<lparr>network := x2\<rparr>) = locks s" "locks (s\<lparr>disk := x3\<rparr>) = locks s"
  "sem_values (s\<lparr>con := x1\<rparr>) = sem_values s" "sem_values (s\<lparr>network := x2\<rparr>) = sem_values s" "sem_values (s\<lparr>disk := x3\<rparr>) = sem_values s"
  by (simp_all add: sem_values_def fun_eq_iff)

lemma fire_done:
  assumes "dev_fire H (drv_done d) s = Inr s'"
  shows "locks s' = locks s" "sem_values s' (drv_sem d) = sem_values s (drv_sem d) + 1" "dones s' = dones s"
  using assms
  by (cases d; auto simp: Disk_HandleInterrupt_def Console_WriteDone_def Network_SendDone_def kview_def dest!: kv_V)+

lemma fired_step:
  assumes "dev_inv s" "taken h s s1" "dev_fire H h s1 = Inr s2"
  shows "dev_inv s2"
proof -
  have t: "cores s1 = cores s" "locks s1 = locks s" "sem_values s1 = sem_values s" "kernel.more s1 = kernel.more s"
    "dones s = (dones s1)(h := Suc (dones s1 h))" using assms(2) by (simp_all add: taken_def)
  have c: "cores s2 = cores s" using fire_cores [OF assms(3)] t(1) by simp
  have d: "drv_inv d s2" for d
  proof (cases "h = drv_done d")
    case False
    then have "foreign d s s1" using t by (simp add: foreign_def own_def [abs_def])
    moreover have "foreign d s1 s2" using spares_fire [OF False, of s1 H] assms(3) by (simp add: spares_def)
    ultimately show ?thesis using assms(1) foreign_inv [OF foreign_trans] by (simp add: dev_inv_def)
  next
    case True
    note f = fire_done [OF assms(3) [unfolded True]]
    have "drv_ok d (own d s) (locks s (drv_lock d)) (sem_values s (drv_sem d)) (Suc (dones s1 (drv_done d)))"
    proof -
      have "drv_inv d s" using assms(1) by (simp add: dev_inv_def)
      then show ?thesis unfolding drv_inv_def using t(5) True by simp
    qed
    from drv_signalled [OF this] show ?thesis using f c t by (simp add: drv_inv_def own_def [abs_def])
  qed
  have "busy_ok s2"
  proof (cases "h = DiskDone \<or> h = ConsoleWriteDone")
    case False
    then have "flags s1 = flags s" using t(5) t(4) by (cases s; cases s1) (auto simp: flags_def)
    then show ?thesis using fire_flags [OF _ _ _ assms(3)] False assms(1) busy_ok_flags [of s1 s] by (simp add: dev_inv_def)
  next
    case True
    have z: "dones s1 h = 0" using drv_pending [of DiskDrv s] drv_pending [of OutDrv s] assms(1) True t(5) by (auto simp: dev_inv_def)
    have m: "disk s1 = disk s" "con s1 = con s" "network s1 = network s" using t(4) by (cases s; cases s1; simp)+
    have e: "flags s2 = flags x" if "V i x = Inr s2" for i x
      using flags_kept_ops(2) [of x x i] that by (simp add: flags_kept_def)
    have b: "busy_ok s" using assms(1) by (simp add: dev_inv_def)
    show ?thesis
    proof (cases "h = DiskDone")
      case True
      with assms(3) have "flags s2 = flags (s1\<lparr>disk := HandleInterrupt (disk s1)\<rparr>)"
        by (auto simp: Disk_HandleInterrupt_def intro: e)
      then have "busy_ok s2 = busy_ok (s1\<lparr>disk := HandleInterrupt (disk s1)\<rparr>)" by (rule busy_ok_flags)
      with True z b t(5) m show ?thesis by (auto simp: busy_ok_def HandleInterrupt_def)
    next
      case False
      let ?s = "s1\<lparr>con := (con s1)\<lparr>putBusy := False\<rparr>, stats := (stats s1)\<lparr>numConsoleCharsWritten := numConsoleCharsWritten (stats s1) + 1\<rparr>\<rparr>"
      from False True have h: "h = ConsoleWriteDone" by simp
      with assms(3) have "V outputDone ?s = Inr s2" by (simp add: Console_WriteDone_def)
      then have "flags s2 = flags ?s" by (rule e)
      then have "busy_ok s2 = busy_ok ?s" by (rule busy_ok_flags)
      with h z b t(5) m show ?thesis by (auto simp: busy_ok_def)
    qed
  qed
  with c d assms(1) show ?thesis by (simp add: dev_inv_def)
qed

lemma Schedule_view:
  assumes "Schedule h t ty s = Inr s'"
  shows "own d s' = own d s" "locks s' = locks s" "sem_values s' = sem_values s" "currentThread s' = currentThread s"
    "dones s' = (dones s)(h := Suc (dones s h))" "disk s' = disk s" "con s' = con s" "network s' = network s"
  using assms by (auto simp: Schedule_Inr own_def fun_eq_iff dones_pending)

lemma foreign_eqD:
  assumes "foreign d s s'"
  shows "own d s' = own d s"
  using assms by (simp add: foreign_def)

lemma flags_P: "P i s = Inr s' \<Longrightarrow> busy_ok s' = busy_ok s"
  using flags_kept_ops(1) [of s s i] by (intro busy_ok_flags) (simp add: flags_kept_def)

lemma busy_push [simp]: "busy_ok (push fs s) = busy_ok s"
  by (rule busy_ok_flags) simp

lemma request_active:
  "ReadRequest n st d = Inr (bs, ticks, st', d') \<Longrightarrow> \<not> dsk_active d" "ReadRequest n st d = Inr (bs, ticks, st', d') \<Longrightarrow> dsk_active d'"
  "WriteRequest n bs st d = Inr (ticks, st', d') \<Longrightarrow> \<not> dsk_active d" "WriteRequest n bs st d = Inr (ticks, st', d') \<Longrightarrow> dsk_active d'"
  by (auto simp: ReadRequest_def WriteRequest_def Let_def rbind_eq_Inr split: if_splits)

lemma disk_request:
  assumes "dev_inv s" "popped_core (F_Code c) s s0" "calls_ok s0" "critical DiskDrv c" "dev_exec H c s0 = Inr s'"
  shows "drv_inv DiskDrv s'" "busy_ok s'"
proof -
  obtain st d' ticks s1 e where req: "\<not> dsk_active (disk s0)" "dsk_active d'"
    and s1: "Schedule DiskDone ticks DiskInt (s0\<lparr>stats := st, disk := d'\<rparr>) = Inr s1"
    and P: "P disk_sem (push [F_Release disk_lock, F_Code (Returned e)] s1) = Inr s'"
  proof (cases c)
    case (ReadSector_request n)
    then obtain bs ticks st d' s1 where r: "ReadRequest n (stats s0) (disk s0) = Inr (bs, ticks, st, d')"
      "Schedule DiskDone ticks DiskInt (s0\<lparr>stats := st, disk := d'\<rparr>) = Inr s1"
      "P disk_sem (push [F_Release disk_lock, F_Code (Returned (R_Read n bs))] s1) = Inr s'"
      using assms(5) by (auto simp: readSector_request_def rbind_eq_Inr)
    show ?thesis by (rule that [OF _ _ r(2,3)]) (use request_active(1,2) [OF r(1)] in simp_all)
  next
    case (WriteSector_request n bs)
    then obtain ticks st d' s1 where r: "WriteRequest n bs (stats s0) (disk s0) = Inr (ticks, st, d')"
      "Schedule DiskDone ticks DiskInt (s0\<lparr>stats := st, disk := d'\<rparr>) = Inr s1"
      "P disk_sem (push [F_Release disk_lock, F_Code (Returned (R_Written n bs))] s1) = Inr s'"
      using assms(5) by (auto simp: writeSector_request_def rbind_eq_Inr)
    show ?thesis by (rule that [OF _ _ r(2,3)]) (use request_active(3,4) [OF r(1)] in simp_all)
  qed (use assms(4) in simp_all)
  note v = Schedule_view [OF s1]
  have inv: "drv_inv DiskDrv s" "busy_ok s" using assms(1) by (simp_all add: dev_inv_def)
  have own: "own DiskDrv (s0\<lparr>stats := st, disk := d'\<rparr>) = own DiskDrv s0" by (rule foreign_eqD) simp
  show "drv_inv DiskDrv s'"
    by (rule request_step [OF inv(1) assms(2,4,3), of s1 "[F_Release disk_lock, F_Code (Returned e)]" "F_Release disk_lock"])
      (use v own P in \<open>simp_all add: in_section_def\<close>)
  have "flags s0 = flags s" using assms(2) by (intro flags_more) (simp_all add: popped_core_def)
  then have "busy_ok s0" using inv(2) busy_ok_flags by blast
  then have "busy_ok s1" using v req by (simp add: busy_ok_def)
  then show "busy_ok s'" using flags_P [OF P] by simp
qed

lemma output_request:
  assumes "dev_inv s" "popped_core (F_Code c) s s0" "calls_ok s0" "critical OutDrv c" "dev_exec H c s0 = Inr s'"
  shows "drv_inv OutDrv s'" "busy_ok s'"
proof -
  obtain chars k n where c: "c = WriteLine_loop chars k n" using assms(4) by (cases c) simp_all
  have inv: "drv_inv OutDrv s" "busy_ok s" using assms(1) by (simp_all add: dev_inv_def)
  have "flags s0 = flags s" using assms(2) by (intro flags_more) (simp_all add: popped_core_def)
  then have b: "busy_ok s0" using inv(2) busy_ok_flags by blast
  have "drv_inv OutDrv s' \<and> busy_ok s'"
  proof (cases "n = 0")
    case True
    let ?s = "note_event (E_Line (take k chars)) s0"
    have s': "s' = push [F_Release outputMutex] ?s" using assms(5) c True by (simp add: writeLine_loop_def)
    have "drv_inv OutDrv (push [F_Release outputMutex] ?s)"
      by (rule last_step [OF inv(1) assms(2,4,3), where g = "F_Release outputMutex"]) (simp_all add: in_section_def)
    moreover have "flags s' = flags s0" by (simp add: s')
    ultimately show ?thesis using b busy_ok_flags s' by blast
  next
    case False
    let ?fs = "[F_Code (WriteLine_loop chars (Suc k) (n - 1))]"
    obtain s1 where pc: "PutChar (chars ! k) s0 = Inr s1" and P: "P outputDone (push ?fs s1) = Inr s'"
      using assms(5) c False by (auto simp: writeLine_loop_def rbind_eq_Inr split: if_splits)
    note v = Schedule_view [OF conjunct2 [OF PutChar_Inr [OF pc]]]
    have own: "own OutDrv (s0\<lparr>con := x\<rparr>) = own OutDrv s0" for x by (rule foreign_eqD) simp
    have "drv_inv OutDrv s'"
      by (rule request_step [OF inv(1) assms(2,4,3), of s1 ?fs "hd ?fs"]) (use v own P in \<open>simp_all add: in_section_def\<close>)
    moreover have "busy_ok s1" using v b by (simp add: busy_ok_def)
    ultimately show ?thesis using flags_P [OF P] by simp
  qed
  then show "drv_inv OutDrv s'" "busy_ok s'" by simp_all
qed

lemma network_request:
  assumes "dev_inv s" "popped_core (F_Code c) s s0" "calls_ok s0" "critical NetDrv c" "dev_exec H c s0 = Inr s'"
  shows "drv_inv NetDrv s'"
proof -
  obtain hdr buffer where c: "c = Send_packet hdr buffer" using assms(4) by (cases c) simp_all
  let ?fs = "\<lambda>ok. [F_Release sendLock, F_Code (Returned (R_Sent ok))]"
  obtain ok s1 where ns: "Network_Send H hdr buffer s0 = Inr (ok, s1)" and P: "P messageSent (push (?fs ok) s1) = Inr s'"
    using assms(5) c by (auto simp: send_packet_def rbind_eq_Inr)
  obtain s2 w where s2: "Schedule NetworkSendDone NetworkTime NetworkSendInt s0 = Inr s2" and s1: "s1 = s2\<lparr>network := (network s0)\<lparr>wire := w\<rparr>\<rparr>"
    by (rule Network_Send_Inr [OF ns])
  note v = Schedule_view [OF s2]
  have own: "own NetDrv (s2\<lparr>network := x\<rparr>) = own NetDrv s2" for x by (rule foreign_eqD) simp
  have inv: "drv_inv NetDrv s" using assms(1) by (simp add: dev_inv_def)
  show ?thesis
    by (rule request_step [OF inv assms(2,4,3), of s1 "?fs ok" "F_Release sendLock"]) (use v own P s1 in \<open>simp_all add: in_section_def\<close>)
qed

lemma base_alone:
  assumes "\<forall>u. bottoms (cores s u)" "popped_core f s s0" "base f"
  shows "cores s0 (currentThread s0) = []"
proof -
  have "cores s (currentThread s0) = f # cores s0 (currentThread s0)" using assms(2) by (simp add: popped_core_def fun_eq_iff)
  moreover have "bottoms (cores s (currentThread s0))" using assms(1) by blast
  ultimately show ?thesis using assms(3) by (auto simp: bottoms_def split: if_splits)
qed

lemma bottoms_tail: "bottoms (f # fs) \<Longrightarrow> bottoms fs"
  by (cases fs) (auto simp: bottoms_def)

lemma popped_bottoms:
  assumes "\<forall>u. bottoms (cores s u)" "popped_core f s s0"
  shows "\<forall>u. bottoms (cores s0 u)"
proof
  fix u
  have "cores s u = (if u = currentThread s then f # cores s0 u else cores s0 u)" using assms(2) by (simp add: popped_core_def fun_eq_iff)
  with assms(1) [rule_format, of u] show "bottoms (cores s0 u)" by (auto intro: bottoms_tail split: if_splits)
qed

lemma bottoms_push:
  "\<forall>u. bottoms (cores s u) \<Longrightarrow> cores s (currentThread s) = [] \<Longrightarrow> \<forall>u. bottoms (cores (push [f] s) u)"
  by (auto simp: cores_push bottoms_def)

lemma piling_bottoms: "piling s r \<Longrightarrow> r = Inr s' \<Longrightarrow> \<forall>u. bottoms (cores s u) \<Longrightarrow> \<forall>u. bottoms (cores s' u)"
  using piles_bottoms by (auto simp: piling_def)

lemma code_bottoms:
  assumes "\<forall>u. bottoms (cores s u)" "popped_core (F_Code c) s s0" "dev_exec H c s0 = Inr s'"
  shows "\<forall>u. bottoms (cores s' u)"
proof -
  have b: "\<forall>u. bottoms (cores s0 u)" by (rule popped_bottoms [OF assms(1,2)])
  show ?thesis
  proof (cases "base (F_Code c)")
    case False
    then show ?thesis using piling_bottoms [OF piling_exec assms(3) b] by simp
  next
    case base: True
    have e: "cores s0 (currentThread s0) = []" by (rule base_alone [OF assms(1,2) base])
    have pushed: "\<forall>u. bottoms (cores (push [f] x) u)" if "cores x = cores s0" "currentThread x = currentThread s0" for f x
      using bottoms_push [of x f] b e that by simp
    show ?thesis
    proof (cases c)
      case (Prog cs)
      show ?thesis
      proof (cases cs)
        case Nil
        with Prog assms(3) b show ?thesis by simp
      next
        case (Cons x xs)
        with Prog assms(3) have "dev_call x (push [F_Code (Prog xs)] s0) = Inr s'" by simp
        then show ?thesis by (rule piling_bottoms [OF piling_call [OF piles_refl]]) (rule pushed; simp)
      qed
    next
      case (PD_loop buffer)
      with assms(3) have "P messageAvailable (push [F_Code (PD_receive buffer)] s0) = Inr s'" by simp
      then show ?thesis by (rule piling_bottoms [OF piling_ops(1) [OF piles_refl]]) (rule pushed; simp)
    next
      case (PD_receive buffer)
      with assms(3) obtain b buffer' pk mh bs n where
        m: "MailBox_Put b pk mh bs (push [F_Code (PD_loop buffer')] (s0\<lparr>network := n\<rparr>)) = Inr s'"
        by (auto simp: postalDelivery_receive_def Network_Receive_def Let_def rbind_eq_Inr)
      have "piling s1 (MailBox_Put b pk mh bs s1)" for s1
        by (auto simp: MailBox_Put_def intro!: piling_rbind piling_ops piles_pushes piles_refl)
      then show ?thesis using m by (rule piling_bottoms) (rule pushed; simp add: cores_dev)
    qed (use base in simp_all)
  qed
qed

lemma driver_call:
  assumes "drv_inv d s" "calls_ok s" "cores s (currentThread s) = []" "drv_call d c" "dev_call c (push [F_Code (Prog cs)] s) = Inr s'"
  shows "drv_inv d s'"
proof -
  have "\<exists>x. critical d x \<and> Acquire (drv_lock d) (push [F_Code x, F_Code (Prog cs)] s) = Inr s'"
    using assms(4,5) by (cases c) (force simp: PostOffice_Send_def rbind_eq_Inr push_push)+
  then obtain x where x: "critical d x" "Acquire (drv_lock d) (push [F_Code x, F_Code (Prog cs)] s) = Inr s'" by blast
  show ?thesis
    by (rule enter(1) [OF assms(1,2) _ _ x(1) _ x(2)]) (use x(1) assms(3) in \<open>simp_all add: own_def\<close>)
qed

lemma code_step:
  assumes "dev_inv s" "popped_core (F_Code c) s s0" "calls_ok s0" "dev_exec H c s0 = Inr s'"
  shows "dev_inv s'"
proof -
  have inv: "drv_inv d s" "busy_ok s" "\<forall>u. bottoms (cores s u)" for d using assms(1) by (simp_all add: dev_inv_def)
  have "drv_inv d s'" for d
  proof (cases "critical d c")
    case True
    then show ?thesis using disk_request(1) [OF assms(1-3) _ assms(4)] output_request(1) [OF assms(1-3) _ assms(4)]
      network_request [OF assms(1-3) _ assms(4)] by (cases d) simp_all
  next
    case False
    then have f: "foreign d s s0" using popped_foreign [OF assms(2)] by simp
    show ?thesis
    proof (cases "\<exists>c' cs. c = Prog (c' # cs) \<and> drv_call d c'")
      case True
      then obtain c' cs where c: "c = Prog (c' # cs)" "drv_call d c'" by blast
      have "cores s0 (currentThread s0) = []" using base_alone [OF inv(3) assms(2)] c(1) by simp
      moreover have "drv_inv d s0" using foreign_inv [OF f] inv(1) by simp
      ultimately show ?thesis using driver_call [OF _ assms(3) _ c(2)] assms(4) c(1) by simp
    next
      case other: False
      have "foreign d s0 s'" by (rule spares_Inr [OF spares_exec assms(4)]) (use False other in auto)
      with f inv(1) show ?thesis using foreign_inv [OF foreign_trans [OF f]] by blast
    qed
  qed
  moreover have "busy_ok s'"
  proof (cases "critical DiskDrv c \<or> critical OutDrv c")
    case True
    then show ?thesis using disk_request(2) [OF assms(1-3) _ assms(4)] output_request(2) [OF assms(1-3) _ assms(4)] by blast
  next
    case False
    have "flags s0 = flags s" using assms(2) by (intro flags_more) (simp_all add: popped_core_def)
    moreover have "flags s' = flags s0" using flags_exec [of c s0 H] False assms(4) by (simp add: flags_kept_def)
    ultimately show ?thesis using inv(2) busy_ok_flags [of s' s] by simp
  qed
  ultimately show ?thesis using code_bottoms [OF inv(3) assms(2,4)] by (simp add: dev_inv_def)
qed

lemma dev_step:
  assumes "dev_inv s" "kernel_inv s" "kernel_step (dev_fire H) (dev_exec H) s = Inr s'"
  shows "dev_inv s'"
proof (rule step_view [OF assms(3)])
  assume "kview s' = kview s"
  then show ?thesis using assms(1) dev_inv_view by blast
next
  fix h s1 s2
  assume "taken h s s1" "dev_fire H h s1 = Inr s2" "kview s' = kview s2"
  then show ?thesis using fired_step [OF assms(1)] dev_inv_view by blast
next
  fix f fs
  assume top: "t_frames (cur s) = f # fs" and p: "popped_core f s (pop s)" and run: "run_frame (dev_fire H) (dev_exec H) f (pop s) = Inr s'"
  have ok: "calls_ok (pop s)" using pop_calls_ok [OF assms(2) top] p by (simp add: popped_core_def)
  have inv: "drv_inv d s" "busy_ok s" "\<forall>u. bottoms (cores s u)" for d using assms(1) by (simp_all add: dev_inv_def)
  have b: "\<forall>u. bottoms (cores (pop s) u)" by (rule popped_bottoms [OF inv(3) p])
  have fl: "flags (pop s) = flags s" using p by (intro flags_more) (simp_all add: popped_core_def)
  have calm: "dev_inv s'" if "r = Inr s'" "piling (pop s) r" "flags_kept (pop s) r" "\<And>d. drv_inv d s'" for r
    using that piling_bottoms [OF that(2,1) b] fl inv(2) busy_ok_flags [of s' s] by (simp add: dev_inv_def)
  have foreign: "drv_inv d s'" if "\<not> own_frame d f" "spares d (pop s) (Inr s')" for d
    using foreign_inv [OF foreign_trans [OF popped_foreign [OF p that(1)] that(2) [simplified]]] inv(1) by blast
  show ?thesis
  proof (cases f)
    case (F_Code c)
    with code_step [OF assms(1) p [unfolded F_Code] ok] run show ?thesis by simp
  next
    case (F_P i old)
    with run have r: "P_loop i old (pop s) = Inr s'" by simp
    show ?thesis
      by (rule calm [OF r piling_ops(7) [OF piles_refl] flags_kept_ops(7) [OF refl]]) (rule P_step [OF inv(1) p [unfolded F_P] ok r])
  next
    case (F_Release l)
    with run have r: "Release l (pop s) = Inr s'" by simp
    show ?thesis
      by (rule calm [OF r piling_ops(8) [OF piles_refl] flags_kept_ops(8) [OF refl]]) (rule Release_step [OF inv(1) p [unfolded F_Release] ok r])
  next
    case (F_Acquire l)
    with run have r: "Acquire l (pop s) = Inr s'" by simp
    have "drv_inv d s'" for d
    proof (rule foreign)
      show n: "\<not> own_frame d f"
        using popped_holder(1) [OF inv(1) p _ ok, of d] F_Acquire by (auto simp: holder_ok_def in_section_def)
      show "spares d (pop s) (Inr s')" using spares_ops(3) [OF foreign_refl, of l d "pop s"] n r F_Acquire by simp
    qed
    then show ?thesis by (rule calm [OF r piling_ops(2) [OF piles_refl] flags_kept_ops(3) [OF refl]])
  next
    case (F_Broadcast cv l)
    have r: "Broadcast cv l (pop s) = Inr s'" using run F_Broadcast by simp
    show ?thesis
    proof (cases "waitingCV (conditions (pop s) cv) = []")
      case True
      then have "s' = pop s" using r by (simp add: Broadcast_def)
      moreover from this have "drv_inv d s'" for d by (intro foreign) (simp_all add: F_Broadcast)
      ultimately show ?thesis by (intro calm [of "Inr s'"]) (simp_all add: piles_refl)
    next
      case False
      then have r: "Signal cv (Some l) (push [F_Broadcast cv l] (pop s)) = Inr s'" using r by (simp add: Broadcast_def)
      have "drv_inv d s'" for d
        using spares_ops(6) [of d "pop s" "push [F_Broadcast cv l] (pop s)" cv "Some l"] r by (intro foreign) (simp_all add: F_Broadcast)
      then show ?thesis
        by (intro calm [OF r piling_ops(5) flags_kept_ops(5)]) (simp_all add: piles_push)
    qed
  qed (use p in \<open>simp_all add: popped_core_def\<close>)
qed

end
