(* ===== verification/Device_Props.thy ===== *)
theory Device_Props
  imports Driver_Protocol
begin

text \<open>
  Properties of the devices and their drivers in every state that is reachable from the start: requests are
  serialised, lines come out whole, mail boxes are first-in first-out queues, and a mail arrives as it was sent.
\<close>

section \<open>The start\<close>

definition start_ok :: "dev \<Rightarrow> bool" where
  "start_ok s \<longleftrightarrow> calls_ok s \<and> level s = IntOff
     \<and> (\<forall>u. cores s u = [] \<or> (\<exists>c. cores s u = [F_Code c] \<and> base (F_Code c)))
     \<and> (\<forall>l. locks s l = Lock_new None) \<and> (\<forall>i. sem_values s i = 0) \<and> (\<forall>d. dones s (drv_done d) = 0)
     \<and> \<not> dsk_active (disk s) \<and> \<not> putBusy (con s) \<and> \<not> sendBusy (network s)
     \<and> display (con s) = [] \<and> boxes s = (\<lambda>_. []) \<and> history s = []"

lemma start_dev_inv: "start_ok s \<Longrightarrow> dev_inv s"
proof -
  assume st: "start_ok s"
  then have c: "cores s u = [] \<or> (\<exists>c. cores s u = [F_Code c] \<and> base (F_Code c))" for u by (simp add: start_ok_def)
  have nb: "\<not> (critical d c \<and> base (F_Code c))" for d c by (cases c) simp_all
  have "own d s u = []" for d u using c [of u] nb [of d] by (auto simp: own_def)
  then have "drv_inv d s" for d
    using st by (simp add: start_ok_def drv_inv_def drv_ok_def Lock_new_def line_def lock_ok_def)
  moreover have "bottoms (cores s u)" for u using c [of u] by (auto simp: bottoms_def)
  moreover have "busy_ok s" using st spec [of "\<lambda>d. dones s (drv_done d) = 0" DiskDrv] spec [of "\<lambda>d. dones s (drv_done d) = 0" OutDrv]
    by (simp add: start_ok_def busy_ok_def)
  ultimately show ?thesis by (simp add: dev_inv_def)
qed

lemma start_kernel_inv: "start_ok s \<Longrightarrow> kernel_inv s"
  by (simp add: start_ok_def calls_ok_kernel_inv)

lemma start_new:
  assumes "\<not> dsk_active d" "base (F_Code main)"
  shows "start_ok (dev_new sp be d addr n main)"
proof -
  let ?s = "dev_new sp be d addr n main"
  note defs = dev_new_def kernel_new_def kernel.defs dev.defs
  have q: "queue ?s q = []" for q
    by (cases q) (simp_all add: defs Semaphore_new_def Lock_new_def Condition_new_def)
  have "calls_ok ?s" unfolding calls_ok_def sched_inv_def q by (simp add: cur_def Thread_new_def defs)
  then show ?thesis using assms
    by (auto simp: start_ok_def defs cores_def sem_values_def dones_def Thread_new_def Semaphore_new_def)
qed

lemma start_Schedule: "Schedule h t ty s = Inr s' \<Longrightarrow> start_ok s \<Longrightarrow> \<forall>d. h \<noteq> drv_done d \<Longrightarrow> start_ok s'"
  by (auto simp: Schedule_Inr start_ok_def dones_pending)

lemma start_thread_ok:
  assumes "start_ok s" "base (F_Code c)" "start_thread (t, c) s = Inr s'"
  shows "start_ok s'" "cores s' = (cores s)(t := [F_Code c])" "kernel.more s' = kernel.more s"
proof -
  from assms(1) have ok: "calls_ok s" and lv: "level s = IntOff" by (simp_all add: start_ok_def)
  obtain s1 where n: "new_Thread t s = Inr s1" and f: "Fork t c s1 = Inr s'"
    using assms(3) by (auto simp: start_thread_def rbind_eq_Inr)
  note nt = calls_ok_new_Thread [OF ok n]
  have s1: "s1 = set_thread t (Thread_new (\<lambda>_. 0) 0 0) (s\<lparr>live := (live s)(t := True)\<rparr>)" "\<not> live s t"
    using n by (auto simp: new_Thread_def split: if_splits)
  have tc: "t \<noteq> currentThread s" using s1(2) ok by (auto simp: calls_ok_def dest: sched_inv_D(1))
  obtain s2 where s2: "s2 = (set_thread t (StackAllocate c (threads s1 t)) s1)\<lparr>level := IntOff\<rparr>"
    and s': "s' = setStatus t READY s2\<lparr>readyList := readyList s2 @ [t], level := IntOff\<rparr>"
    using f lv by (auto simp: Fork_def Let_def SetLevel_off ReadyToRun_def set_level_def rbind_eq_Inr s1(1) set_thread_def)
  have th: "t_frames (threads s' u) = (if u = t then [F_Enable, F_Code c, F_Finish] else t_frames (threads s u))" for u
    by (simp add: s' s2 s1(1) set_thread_def setStatus_def StackAllocate_def)
  have eq: "currentThread s' = currentThread s" "inHandler s' = inHandler s" "locks s' = locks s" "semaphores s' = semaphores s"
    "pending s' = pending s" "level s' = IntOff" "kernel.more s' = kernel.more s"
    by (simp_all add: s' s2 s1(1) set_thread_def setStatus_def)
  have "kernel_inv s'" using safe_Fork [OF nt, of c] f by simp
  moreover have fr: "t_frames (cur s') = t_frames (cur s)" using th tc by (simp add: cur_def eq(1))
  ultimately have "calls_ok s'" using ok by (auto simp: calls_ok_def kernel_inv_def)
  moreover have cs: "cores s' u = (if u = t then [F_Code c] else cores s u)" for u using th by (simp add: cores_def)
  moreover have "sem_values s' = sem_values s" "dones s' = dones s" by (simp_all add: sem_values_def dones_def eq fun_eq_iff)
  moreover have "disk s' = disk s" "con s' = con s" "network s' = network s" "boxes s' = boxes s" "history s' = history s"
    using eq(7) by (cases s; cases s'; simp)+
  ultimately show "start_ok s'" using assms(1,2) eq by (simp add: start_ok_def)
  show "cores s' = (cores s)(t := [F_Code c])" "kernel.more s' = kernel.more s" using cs eq(7) by (simp_all add: fun_eq_iff)
qed

lemma start_threads_ok:
  "start_ok s \<Longrightarrow> \<forall>(t, c) \<in> set tcs. base (F_Code c) \<Longrightarrow> for_each start_thread tcs s = Inr s' \<Longrightarrow> start_ok s'"
  by (induction tcs arbitrary: s) (auto simp: rbind_eq_Inr dest: start_thread_ok)

text \<open>The state when the devices have been made, before the threads are started.\<close>

lemma dev_start_devices:
  assumes "dev_start H sp be r name addr rel n input arriving main progs = Inr s"
  obtains s3 where "for_each start_thread (zip [1..<2 + length progs] (PD_loop (map (h_junk H) [0..<MaxPacketSize]) # map Prog progs)) s3 = Inr s"
    "start_ok s3" "cores s3 = (\<lambda>_. [])(0 := [F_Code (Prog main)])" "hostBE s3 = be" "numBoxes s3 = n" "net_ident (network s3) = addr"
    "pkt_length (inHdr (network s3)) = 0" "inbox (network s3) = map (h_junk H) [0..<MaxPacketSize]" "sock (network s3) = arriving"
proof -
  obtain d s1 s2 s3 where d: "Disk_new be name = Inr d"
    and s1: "(if r then Schedule (TimerTick True) (TimeOfNextInterrupt (h_timer H) True 0) TimerInt (dev_new sp be d addr n (Prog main))
              else Inr (dev_new sp be d addr n (Prog main))) = Inr s1"
    and s2: "Console_new input s1 = Inr s2" and s3: "Network_new H addr rel arriving s2 = Inr s3"
    and s: "for_each start_thread (zip [1..<2 + length progs] (PD_loop (map (h_junk H) [0..<MaxPacketSize]) # map Prog progs)) s3 = Inr s"
    using assms by (auto simp: dev_start_def Let_def rbind_eq_Inr)
  have "\<not> dsk_active d" using d by (auto simp: Disk_new_def rbind_eq_Inr split: option.splits)
  then have "start_ok (dev_new sp be d addr n (Prog main))" by (rule start_new) simp
  then have "start_ok s1" using s1 start_Schedule by (auto split: if_splits)
  then have "start_ok (s1\<lparr>con := \<lparr>incoming = EOF_char, putBusy = False, keys = input, display = []\<rparr>\<rparr>)"
    by (simp add: start_ok_def cores_dev)
  then have ok2: "start_ok s2" using s2 start_Schedule by (auto simp: Console_new_def)
  have "start_ok (s2\<lparr>network := x\<rparr>)" if "\<not> sendBusy x" for x using ok2 that by (simp add: start_ok_def cores_dev)
  then have ok3: "start_ok s3" using s3 start_Schedule by (auto simp: Network_new_def)
  have "cores s1 = (\<lambda>_. [])(0 := [F_Code (Prog main)])" "hostBE s1 = be" "numBoxes s1 = n"
    using s1 by (auto simp: Schedule_Inr dev_new_def kernel_new_def kernel.defs dev.defs cores_def fun_eq_iff Thread_new_def split: if_splits)
  then have "cores s2 = (\<lambda>_. [])(0 := [F_Code (Prog main)])" "hostBE s2 = be" "numBoxes s2 = n"
    using s2 by (auto simp: Console_new_def Schedule_Inr cores_dev)
  then show ?thesis using s3 by (intro that [OF s ok3]) (auto simp: Network_new_def Schedule_Inr cores_dev)
qed

lemma dev_start_ok:
  assumes "dev_start H sp be r name addr rel n input arriving main progs = Inr s"
  shows "start_ok s"
proof -
  let ?tcs = "zip [1..<2 + length progs] (PD_loop (map (h_junk H) [0..<MaxPacketSize]) # map Prog progs)"
  obtain s3 where s: "for_each start_thread ?tcs s3 = Inr s" and "start_ok s3" using dev_start_devices [OF assms] by metis
  moreover have "\<forall>(t, c) \<in> set ?tcs. base (F_Code c)" by (auto simp: set_zip_rightD dest!: set_zip_rightD)
  ultimately show ?thesis using start_threads_ok by blast
qed

text \<open>The invariants hold in every reachable state.\<close>

lemma dev_reachable:
  assumes "reachable (dev_fire H) (dev_exec H) s0 s" "start_ok s0"
  shows "kernel_inv s" "dev_inv s"
proof -
  show k: "kernel_inv s" using devs.reachable_kept [OF assms(1) start_kernel_inv [OF assms(2)]] .
  have "kernel_inv s \<and> dev_inv s" using assms
  proof (induction rule: reachable.induct)
    case start
    then show ?case by (simp add: start_kernel_inv start_dev_inv)
  next
    case (step s s')
    then show ?case using devs.step_kept [of H s s'] dev_step [of s H s'] by simp
  qed
  then show "dev_inv s" ..
qed

section \<open>Requests are serialised\<close>

lemma holder_waits:
  assumes "drv_inv d s" "0 < dones s (drv_done d)"
  shows "\<exists>t old. owner (locks s (drv_lock d)) = Some t \<and> F_P (drv_sem d) old \<in> set (t_frames (threads s t))"
proof -
  obtain t ts where l: "line (locks s (drv_lock d)) = t # ts" and h: "holder_ok d (own d s t) (sem_values s (drv_sem d)) (dones s (drv_done d))"
    using assms by (cases "line (locks s (drv_lock d))") (auto simp: drv_inv_def drv_ok_def)
  then obtain g old where "own d s t = [F_P (drv_sem d) old, g]" using assms(2) by (auto simp: holder_ok_def)
  then have "F_P (drv_sem d) old \<in> set (own d s t)" by simp
  then have "F_P (drv_sem d) old \<in> set (t_frames (threads s t))" by (simp add: own_def cores_def)
  moreover have "owner (locks s (drv_lock d)) = Some t" using l by (auto simp: line_def split: option.splits)
  ultimately show ?thesis by blast
qed

lemma critical_holds:
  assumes "kernel_inv s" "drv_inv d s" "t_frames (cur s) = F_Code c # fs" "critical d c"
  shows "owner (locks s (drv_lock d)) = Some (currentThread s)" "dones s (drv_done d) = 0"
proof -
  have ok: "calls_ok (pop s)" using pop_calls_ok [OF assms(1,3)] by simp
  have lk: "locks (pop s) = locks s" "currentThread (pop s) = currentThread s" by (simp_all add: pop_def)
  have o: "own d s (currentThread s) = F_Code c # filter (own_frame d) (filter core fs)"
    using assms(3,4) by (simp add: own_def cores_def cur_def)
  have "currentThread s \<notin> set (waitingThreads (locks s (drv_lock d)))" using not_waiting [OF ok] lk by simp
  note h = holder_head [OF assms(2) [unfolded drv_inv_def], of "currentThread s", unfolded o, OF _ this]
  show "owner (locks s (drv_lock d)) = Some (currentThread s)" using h(1) by (auto simp: line_def split: option.splits)
  show "dones s (drv_done d) = 0" using h(2) by (auto simp: holder_ok_def)
qed

definition dev_demo_host :: host where
  "dev_demo_host = \<lparr>h_timer = (\<lambda>_. 0), h_random = (\<lambda>_. 0), h_pollFile = (\<lambda>_. False), h_pollSocket = (\<lambda>_. True), h_sendto = (\<lambda>_ _. True),
     h_percent = (\<lambda>x. 100 * x), h_junk = (\<lambda>_. 0)\<rparr>"

definition dev_demo_start :: "dev result" where
  "dev_demo_start = dev_start dev_demo_host demo_spaces True False (Some (host_store32 True 0 MagicNumber (\<lambda>_. 0))) 5 1 10 [] []
     [D_ReadSector 3, D_WriteLine [72, 105] 2] []"

definition dev_demo :: "nat \<Rightarrow> dev" where
  "dev_demo n = projr (rbind dev_demo_start (steps (dev_fire dev_demo_host) (dev_exec dev_demo_host) n))"

lemma dev_demo_runs: "\<not> isl (rbind dev_demo_start (steps (dev_fire dev_demo_host) (dev_exec dev_demo_host) 7))"
  by code_simp

text \<open>C7. Requests to the disk, to the display and to the network are serialised, whatever the threads of the system
  do and whenever interrupts happen: at most one completion interrupt of each device is pending; while it is, the
  thread that made the request holds the driver's lock and waits on its semaphore; the busy flag of the disk and of
  the console is set exactly while the completion is pending; and when a driver is about to make a request, its
  thread holds the lock and no request is in progress, so that \<open>ASSERT(!active)\<close> and
  \<open>ASSERT(putBusy == FALSE)\<close> hold.\<close>

theorem device_requests_serialised:
  assumes "dev_start H sp be r name addr rel n input arriving main progs = Inr s0" "reachable (dev_fire H) (dev_exec H) s0 s"
  shows "(\<forall>d. dones s (drv_done d) \<le> 1)
    \<and> (\<forall>d. 0 < dones s (drv_done d) \<longrightarrow>
        (\<exists>t old. owner (locks s (drv_lock d)) = Some t \<and> F_P (drv_sem d) old \<in> set (t_frames (threads s t))))
    \<and> (dsk_active (disk s) \<longleftrightarrow> 0 < dones s DiskDone) \<and> (putBusy (con s) \<longleftrightarrow> 0 < dones s ConsoleWriteDone)
    \<and> (\<forall>d c fs. t_frames (cur s) = F_Code c # fs \<and> critical d c \<longrightarrow>
        owner (locks s (drv_lock d)) = Some (currentThread s) \<and> dones s (drv_done d) = 0)"
proof -
  have inv: "kernel_inv s" "dev_inv s" by (rule dev_reachable [OF assms(2) dev_start_ok [OF assms(1)]])+
  then have d: "drv_inv d s" "busy_ok s" for d by (simp_all add: dev_inv_def)
  show ?thesis
    using drv_pending [OF d(1)] holder_waits [OF d(1)] critical_holds [OF inv(1) d(1)] d(2) by (simp add: busy_ok_def)
qed

theorem device_requests_serialised_witness: "dsk_active (disk (dev_demo 7)) \<and> dones (dev_demo 7) (drv_done DiskDrv) = 1"
proof -
  have a: "dsk_active (disk (dev_demo 7))" by code_simp
  obtain s0 where "dev_demo_start = Inr s0" "reachable (dev_fire dev_demo_host) (dev_exec dev_demo_host) s0 (dev_demo 7)"
    unfolding dev_demo_def by (rule run_reachable [OF dev_demo_runs])
  from device_requests_serialised [OF this(1) [unfolded dev_demo_start_def] this(2)] a
  have "0 < dones (dev_demo 7) (drv_done DiskDrv)" "dones (dev_demo 7) (drv_done DiskDrv) \<le> 1" by (simp, blast)
  with a show ?thesis by simp
qed

end
