(* ===== verification/Device_Effects.thy ===== *)
theory Device_Effects
  imports Device_Props
begin

text \<open>
  What the drivers do to the devices, the mail boxes and the history, apart from the kernel: \<open>code_effect\<close> for each
  piece of code, \<open>fire_effect\<close> for each interrupt handler. Every step of the system has one of these effects on
  the state around the kernel.
\<close>

section \<open>Effects\<close>

definition dev_same :: "dev \<Rightarrow> dev \<Rightarrow> bool" where
  "dev_same s' s \<longleftrightarrow> kernel.more s' = kernel.more s"

lemma dev_same_D:
  assumes "dev_same s' s"
  shows "hostBE s' = hostBE s" "disk s' = disk s" "con s' = con s" "network s' = network s" "netAddr s' = netAddr s" "numBoxes s' = numBoxes s"
    "boxes s' = boxes s" "history s' = history s"
  using assms by (cases s; cases s'; simp add: dev_same_def)+

lemma dev_same_simps [simp]:
  "dev_same s s" "dev_same (push fs s1) s = dev_same s1 s"
  by (simp_all add: dev_same_def)

lemma dev_same_trans: "dev_same s'' s' \<Longrightarrow> dev_same s' s \<Longrightarrow> dev_same s'' s"
  by (simp add: dev_same_def)

lemma dev_same_ops:
  shows "P i s1 = Inr s' \<Longrightarrow> dev_same s' s1" "V i s1 = Inr s' \<Longrightarrow> dev_same s' s1" "Acquire l s1 = Inr s' \<Longrightarrow> dev_same s' s1"
    "Wait c (Some l) s1 = Inr s' \<Longrightarrow> dev_same s' s1" "Signal c cl s1 = Inr s' \<Longrightarrow> dev_same s' s1" "Yield s1 = Inr s' \<Longrightarrow> dev_same s' s1"
    "Schedule h t ty s1 = Inr s' \<Longrightarrow> dev_same s' s1" "P_loop i old s1 = Inr s' \<Longrightarrow> dev_same s' s1" "Release l s1 = Inr s' \<Longrightarrow> dev_same s' s1"
    "Broadcast c l s1 = Inr s' \<Longrightarrow> dev_same s' s1"
  unfolding dev_same_def
proof -
  show "P i s1 = Inr s' \<Longrightarrow> kernel.more s' = kernel.more s1" "P_loop i old s1 = Inr s' \<Longrightarrow> kernel.more s' = kernel.more s1"
    using kv_P [of i s1 s'] kv_P_loop [of i old s1 s'] by (auto simp: kview_def split: if_splits)
  show "V i s1 = Inr s' \<Longrightarrow> kernel.more s' = kernel.more s1" using kv_V [of i s1 s'] by (auto simp: kview_def)
  show "Acquire l s1 = Inr s' \<Longrightarrow> kernel.more s' = kernel.more s1" "Release l s1 = Inr s' \<Longrightarrow> kernel.more s' = kernel.more s1"
    using only_lock_D(4) [OF kv_Acquire] only_lock_D(4) [OF kv_Release] by blast+
  show "Wait c (Some l) s1 = Inr s' \<Longrightarrow> kernel.more s' = kernel.more s1"
    using kv_Wait [of c l s1 s'] only_lock_D(4) [of l "push [F_Acquire l] s1" s'] by (auto simp: kview_def)
  show sig: "Signal c cl s1 = Inr s' \<Longrightarrow> kernel.more s' = kernel.more s1" for c cl s1 using kv_Signal kview_eqD(5) by blast
  show "Yield s1 = Inr s' \<Longrightarrow> kernel.more s' = kernel.more s1" using kv_Yield kview_eqD(5) by blast
  show "Schedule h t ty s1 = Inr s' \<Longrightarrow> kernel.more s' = kernel.more s1" by (auto simp: Schedule_Inr)
  show "Broadcast c l s1 = Inr s' \<Longrightarrow> kernel.more s' = kernel.more s1" by (auto simp: Broadcast_def split: if_splits dest!: sig)
qed

fun code_effect :: "dcode \<Rightarrow> dev \<Rightarrow> dev \<Rightarrow> bool" where
  "code_effect (ReadSector_request n) s s' \<longleftrightarrow> (\<exists>d. dev_same s' (s\<lparr>disk := d\<rparr>))"
| "code_effect (WriteSector_request n bs) s s' \<longleftrightarrow> (\<exists>d. dev_same s' (s\<lparr>disk := d\<rparr>))"
| "code_effect (WriteLine_loop chars k n) s s' \<longleftrightarrow>
     (if n = 0 then dev_same s' (note_event (E_Line (take k chars)) s)
      else k < length chars \<and> dev_same s' (s\<lparr>con := (con s)\<lparr>display := display (con s) @ [chars ! k], putBusy := True\<rparr>\<rparr>))"
| "code_effect (ReadLine_get chars n) s s' \<longleftrightarrow> dev_same s' (s\<lparr>con := (con s)\<lparr>incoming := EOF_char\<rparr>\<rparr>)"
| "code_effect (Send_packet hdr buffer) s s' \<longleftrightarrow> (\<exists>w. dev_same s' (s\<lparr>network := (network s)\<lparr>wire := w\<rparr>\<rparr>))"
| "code_effect (Append_body b m) s s' \<longleftrightarrow> dev_same s' (note_event (E_Appended b m) (s\<lparr>boxes := (boxes s)(b := boxes s b @ [m])\<rparr>))"
| "code_effect (Remove_loop b) s s' \<longleftrightarrow> (case boxes s b of [] \<Rightarrow> dev_same s' s
     | m # ms \<Rightarrow> dev_same s' (note_event (E_Removed b m) (s\<lparr>boxes := (boxes s)(b := ms)\<rparr>)))"
| "code_effect (Get_mail b m) s s' \<longleftrightarrow> dev_same s' (note_event (E_Mail b m) s)"
| "code_effect (Mapcar_body b) s s' \<longleftrightarrow> dev_same s' (note_event (E_Visited b (boxes s b)) s)"
| "code_effect (PD_receive buffer) s s' \<longleftrightarrow> dev_same s' (s\<lparr>network := (network s)\<lparr>inHdr := (inHdr (network s))\<lparr>pkt_length := 0\<rparr>\<rparr>\<rparr>)"
| "code_effect (Returned r) s s' \<longleftrightarrow> dev_same s' (note_event (E_Return r) s)"
| "code_effect c s s' \<longleftrightarrow> dev_same s' s"

lemma dev_same_cong [simp]:
  "dev_same s' (s1\<lparr>stats := st, disk := x3\<rparr>) = dev_same s' (s1\<lparr>disk := x3\<rparr>)"
  "dev_same s' (s1\<lparr>stats := st\<rparr>) = dev_same s' s1" "dev_same s' (s1\<lparr>pending := p\<rparr>) = dev_same s' s1" "dev_same s' (push fs s1) = dev_same s' s1"
  by (simp_all add: dev_same_def, cases s1, simp)

lemma dev_same_sub:
  assumes "dev_same s1 s"
  shows "dev_same s' (s1\<lparr>disk := x3\<rparr>) = dev_same s' (s\<lparr>disk := x3\<rparr>)" "dev_same s' (s1\<lparr>con := x1\<rparr>) = dev_same s' (s\<lparr>con := x1\<rparr>)"
    "dev_same s' (s1\<lparr>network := x2\<rparr>) = dev_same s' (s\<lparr>network := x2\<rparr>)" "dev_same s' (note_event e s1) = dev_same s' (note_event e s)"
    "dev_same s' s1 = dev_same s' s"
  using assms by (cases s; cases s1; cases s'; simp add: dev_same_def note_event_def)+

lemma call_same: "dev_call c s = Inr s' \<Longrightarrow> dev_same s' s"
  by (cases c) (auto simp: PostOffice_Send_def PostOffice_Receive_def rbind_eq_Inr dest!: dev_same_ops)

lemma exec_effect:
  assumes "dev_exec H c s = Inr s'"
  shows "code_effect c s s'"
proof (cases c)
  case (Prog cs)
  with assms show ?thesis by (cases cs) (auto dest: call_same)
next
  case (ReadSector_request n)
  with assms show ?thesis by (auto simp: readSector_request_def rbind_eq_Inr dest!: dev_same_ops(1,7) dest: dev_same_trans)
next
  case (WriteSector_request n bs)
  with assms show ?thesis by (auto simp: writeSector_request_def rbind_eq_Inr dest!: dev_same_ops(1,7) dest: dev_same_trans)
next
  case (WriteLine_loop chars k n)
  with assms show ?thesis
    by (auto simp: writeLine_loop_def rbind_eq_Inr split: if_splits dest!: PutChar_Inr dev_same_ops(1,7) dest: dev_same_trans)
next
  case (Send_packet hdr buffer)
  with assms show ?thesis
    by (auto simp: send_packet_def rbind_eq_Inr elim!: Network_Send_Inr dest!: dev_same_ops(1,7)) (auto simp: dev_same_sub)
qed (use assms in \<open>auto simp: readLine_loop_def readLine_get_def GetChar_def append_body_def remove_loop_def get_mail_def mapcar_body_def
    postalDelivery_receive_def Network_Receive_def MailBox_Put_def Let_def rbind_eq_Inr split: list.splits if_splits dest!: dev_same_ops\<close>)

fun fire_effect :: "dhandler \<Rightarrow> dev \<Rightarrow> dev \<Rightarrow> bool" where
  "fire_effect DiskDone s s' \<longleftrightarrow> (\<exists>d. dev_same s' (s\<lparr>disk := d\<rparr>))"
| "fire_effect ConsoleReadPoll s s' \<longleftrightarrow> (\<exists>ch k. dev_same s' (s\<lparr>con := (con s)\<lparr>incoming := ch, keys := k\<rparr>\<rparr>))"
| "fire_effect ConsoleWriteDone s s' \<longleftrightarrow> dev_same s' (s\<lparr>con := (con s)\<lparr>putBusy := False\<rparr>\<rparr>)"
| "fire_effect NetworkReadPoll s s' \<longleftrightarrow> dev_same s' s \<or> (\<exists>d ds buffer hdr bs. pkt_length (inHdr (network s)) = 0 \<and> sock (network s) = d # ds
     \<and> ReadFromSocket d = Inr buffer \<and> divide_packet (hostBE s) (net_ident (network s)) buffer = Inr (hdr, bs)
     \<and> dev_same s' (note_event (E_Arrived hdr bs)
         (s\<lparr>network := (network s)\<lparr>inHdr := hdr, inbox := patch 0 bs (inbox (network s)), sock := ds\<rparr>\<rparr>)))"
| "fire_effect NetworkSendDone s s' \<longleftrightarrow> dev_same s' (s\<lparr>network := (network s)\<lparr>sendBusy := False\<rparr>\<rparr>)"
| "fire_effect (TimerTick r) s s' \<longleftrightarrow> dev_same s' s"

lemma con_id: "s\<lparr>con := (con s)\<lparr>incoming := incoming (con s), keys := keys (con s)\<rparr>\<rparr> = s"
  by simp

lemma fire_has_effect:
  assumes "dev_fire H h s = Inr s'"
  shows "fire_effect h s s'"
proof (cases h)
  case (TimerTick r)
  with assms show ?thesis
    by (auto simp: TimerExpired_def TimerInterruptHandler_def YieldOnReturn_def rbind_eq_Inr Schedule_Inr dev_same_def split: if_splits)
next
  case DiskDone
  with assms show ?thesis by (auto simp: Disk_HandleInterrupt_def dest!: dev_same_ops)
next
  case ConsoleWriteDone
  with assms show ?thesis by (auto simp: Console_WriteDone_def dev_same_def dest!: dev_same_ops(2))
next
  case NetworkSendDone
  with assms show ?thesis by (auto simp: Network_SendDone_def dev_same_def dest!: dev_same_ops(2))
next
  case ConsoleReadPoll
  with assms obtain s1 where s1: "Schedule ConsoleReadPoll ConsoleTime ConsoleReadInt s = Inr s1"
    and *: "s' = s1 \<or> (\<exists>c cs st. V inputAvailable (s1\<lparr>con := (con s1)\<lparr>incoming := c, keys := cs\<rparr>, stats := st\<rparr>) = Inr s')"
    by (auto simp: CheckCharAvail_def rbind_eq_Inr split: if_splits list.splits)
  have same: "dev_same s1 s" using dev_same_ops(7) [OF s1] .
  have "dev_same s' (s\<lparr>con := x\<rparr>)" if "V i (s1\<lparr>con := x, stats := st\<rparr>) = Inr s'" for i x st
    using dev_same_ops(2) [OF that] dev_same_sub(2) [OF same] by (simp add: dev_same_def)
  with * same have "dev_same s' s \<or> (\<exists>ch k. dev_same s' (s\<lparr>con := (con s)\<lparr>incoming := ch, keys := k\<rparr>\<rparr>))"
    unfolding dev_same_D(3) [OF same] by blast
  then show ?thesis using ConsoleReadPoll con_id [of s] by (metis fire_effect.simps(2))
next
  case NetworkReadPoll
  with assms obtain s1 where s1: "Schedule NetworkReadPoll NetworkTime NetworkRecvInt s = Inr s1"
    and *: "s' = s1 \<or> (\<exists>d ds buffer hdr bs. pkt_length (inHdr (network s1)) = 0 \<and> sock (network s1) = d # ds \<and> ReadFromSocket d = Inr buffer
       \<and> divide_packet (hostBE s1) (net_ident (network s1)) buffer = Inr (hdr, bs)
       \<and> V messageAvailable (note_event (E_Arrived hdr bs)
             (s1\<lparr>network := (network s1)\<lparr>inHdr := hdr, inbox := patch 0 bs (inbox (network s1)), sock := ds\<rparr>,
               stats := (stats s1)\<lparr>numPacketsRecvd := numPacketsRecvd (stats s1) + 1\<rparr>\<rparr>)) = Inr s')"
    by (auto simp: CheckPktAvail_def rbind_eq_Inr split: if_splits list.splits)
  have same: "dev_same s1 s" using dev_same_ops(7) [OF s1] .
  note D = dev_same_D [OF same]
  have "dev_same s' (note_event e (s\<lparr>network := x\<rparr>))" if "V i (note_event e (s1\<lparr>network := x, stats := st\<rparr>)) = Inr s'" for i e x st
  proof -
    have "note_event e (s1\<lparr>network := x, stats := st\<rparr>) = (note_event e (s1\<lparr>network := x\<rparr>))\<lparr>stats := st\<rparr>" by (simp add: note_event_def)
    moreover have "dev_same (s1\<lparr>network := x\<rparr>) (s\<lparr>network := x\<rparr>)" using dev_same_sub(3) [OF same, of "s1\<lparr>network := x\<rparr>" x] by simp
    ultimately show ?thesis using dev_same_ops(2) [OF that] dev_same_sub(4) [of "s1\<lparr>network := x\<rparr>" "s\<lparr>network := x\<rparr>"] by simp
  qed
  with * same NetworkReadPoll D show ?thesis by auto
qed

text \<open>Every step.\<close>

lemma effect_cong: "dev_same s1 s \<Longrightarrow> code_effect c s1 s' = code_effect c s s'"
  by (cases s; cases s1; cases s'; cases c) (simp_all add: dev_same_def note_event_def split: list.split)

lemma fire_effect_cong: "dev_same s1 s \<Longrightarrow> dev_same s' s2 \<Longrightarrow> fire_effect h s1 s2 = fire_effect h s s'"
  by (cases s; cases s1; cases s'; cases s2; cases h) (simp_all add: dev_same_def note_event_def)

lemma step_effect:
  assumes "kernel_step (dev_fire H) (dev_exec H) s = Inr s'"
  obtains (same) "dev_same s' s"
  | (handler) h where "fire_effect h s s'" "0 < dones s h"
  | (code) c fs where "t_frames (cur s) = F_Code c # fs" "code_effect c s s'"
proof (rule step_view [OF assms])
  assume "kview s' = kview s"
  then show ?thesis by (intro same) (simp add: dev_same_def kview_def)
next
  fix h s1 s2
  assume t: "taken h s s1" and f: "dev_fire H h s1 = Inr s2" and v: "kview s' = kview s2"
  have "dev_same s1 s" "dev_same s' s2" using t v by (simp_all add: taken_def dev_same_def kview_def)
  then have "fire_effect h s s'" using fire_effect_cong fire_has_effect [OF f] by blast
  then show ?thesis by (rule handler) (use t in \<open>auto simp: taken_def\<close>)
next
  fix f fs
  assume top: "t_frames (cur s) = f # fs" and p: "popped_core f s (pop s)" and run: "run_frame (dev_fire H) (dev_exec H) f (pop s) = Inr s'"
  have ps: "dev_same (pop s) s" using p by (simp add: popped_core_def dev_same_def)
  show ?thesis
  proof (cases f)
    case (F_Code c)
    then have "code_effect c s s'" using exec_effect [of H c "pop s" s'] run effect_cong [OF ps] by simp
    with top F_Code show ?thesis by (intro code) simp_all
  qed (use run p dev_same_ops dev_same_trans [OF _ ps] in \<open>auto simp: popped_core_def intro: same\<close>)
qed

end
