(* ===== verification/Console_Lines.thy ===== *)
theory Console_Lines
  imports Device_Effects
begin

text \<open>
  Lines come out whole: the display shows the lines that threads have written with \<open>SynchConsole::WriteLine\<close>, one
  after the other, followed by what the thread that holds the lock of the output has written of its line.
\<close>

section \<open>What is on the display\<close>

fun part_of :: "dcode frame list \<Rightarrow> bytes" where
  "part_of [] = []"
| "part_of (F_Code (WriteLine_loop chars k n) # fs) = take k chars"
| "part_of (f # fs) = part_of fs"

fun line1 :: "event \<Rightarrow> bytes list" where
  "line1 (E_Line l) = [l]"
| "line1 e = []"

definition lines :: "dev \<Rightarrow> bytes list" where
  "lines s = concat (map line1 (history s))"

definition part :: "dev \<Rightarrow> tid \<Rightarrow> bytes" where
  "part s u = part_of (own OutDrv s u)"

definition out_inv :: "dev \<Rightarrow> bool" where
  "out_inv s \<longleftrightarrow> (\<forall>u. owner (locks s outputMutex) \<noteq> Some u \<longrightarrow> part s u = [])
     \<and> display (con s) = concat (lines s) @ (case owner (locks s outputMutex) of None \<Rightarrow> [] | Some t \<Rightarrow> part s t)"

lemma out_inv_same:
  assumes "out_inv s" "part s' = part s" "locks s' outputMutex = locks s outputMutex" "display (con s') = display (con s)" "lines s' = lines s"
  shows "out_inv s'"
  using assms by (auto simp: out_inv_def split: option.split)

lemma part_foreign: "foreign OutDrv s s' \<Longrightarrow> part s' = part s \<and> locks s' outputMutex = locks s outputMutex"
  by (simp add: foreign_def part_def [abs_def])

lemma shown_same: "dev_same s' s \<Longrightarrow> display (con s') = display (con s) \<and> lines s' = lines s"
  using dev_same_D [of s' s] by (simp add: lines_def)

lemma shown_effect:
  assumes "code_effect c s s'" "\<not> critical OutDrv c"
  shows "display (con s') = display (con s) \<and> lines s' = lines s"
  using assms by (cases c) (auto dest!: shown_same split: list.splits simp: lines_def note_event_def)

lemma shown_fire: "fire_effect h s s' \<Longrightarrow> display (con s') = display (con s) \<and> lines s' = lines s"
  by (cases h) (auto dest!: shown_same simp: lines_def note_event_def)

section \<open>The steps of the writers\<close>

lemma part_waits: "part_of (F_P i old # fs) = part_of fs"
  by simp

lemma part_push: "part (push fs s) = (part s)(currentThread s := part_of (filter (own_frame OutDrv) fs @ own OutDrv s (currentThread s)))"
  by (simp add: part_def fun_eq_iff own_push)

lemma part_view: "cores s' = cores s \<Longrightarrow> part s' = part s"
  by (simp add: part_def [abs_def] own_def [abs_def])

lemma part_push_P: "part (push [F_P i old] s) = part s"
  by (simp add: part_push) (simp add: part_def fun_eq_iff)

lemma waited_part:
  assumes "if z then kview s' = kview (push [F_P i old] s) else kview s' = kview (set_sem i x s)"
  shows "part s' = part s \<and> locks s' = locks s"
proof (cases z)
  case True
  with assms have "kview s' = kview (push [F_P i old] s)" by simp
  note v = kview_eqD [OF this]
  show ?thesis using part_view [OF v(1)] part_push_P [of i old s] v(2) by simp
next
  case False
  with assms have "kview s' = kview (set_sem i x s)" by simp
  note v = kview_eqD [OF this]
  have "cores s' = cores s" using v(1) by simp
  from part_view [OF this] show ?thesis using v(2) by simp
qed

lemma P_part:
  assumes "P i s = Inr s'"
  shows "part s' = part s \<and> locks s' = locks s"
  using waited_part [OF kv_P [OF assms]] .

lemma P_loop_part:
  assumes "P_loop i old s = Inr s'"
  shows "part s' = part s \<and> locks s' = locks s"
  using waited_part [OF kv_P_loop [OF assms]] .

lemma popped_part:
  assumes "popped_core f s s0"
  shows "part s = (part s0)(currentThread s := part_of (filter (own_frame OutDrv) [f] @ own OutDrv s0 (currentThread s)))"
  using popped_own(1) [OF assms, of OutDrv] by (simp add: part_def fun_eq_iff)


text \<open>A frame of the output driver at the top of a stack: its thread holds the lock.\<close>

lemma popped_out:
  assumes "out_inv s" "dev_inv s" "popped_core f s s0" "calls_ok s0" "own_frame OutDrv f"
  defines "t \<equiv> currentThread s"
  shows "part s = (part s0)(t := part_of (f # own OutDrv s0 t))" "owner (locks s0 outputMutex) = Some t"
    "display (con s0) = concat (lines s0) @ part_of (f # own OutDrv s0 t)" "\<forall>u. u \<noteq> t \<longrightarrow> part s0 u = []"
proof -
  have d: "drv_inv OutDrv s" using assms(2) by (simp add: dev_inv_def)
  have same: "dev_same s0 s" "locks s0 = locks s" using assms(3) by (simp_all add: popped_core_def dev_same_def)
  show p: "part s = (part s0)(t := part_of (f # own OutDrv s0 t))" using popped_part [OF assms(3)] assms(5) by (simp add: t_def)
  show o: "owner (locks s0 outputMutex) = Some t" using popped_holder(3) [OF d assms(3,5,4)] by (simp add: t_def)
  with assms(1) p same shown_same [OF same(1)]
  show "display (con s0) = concat (lines s0) @ part_of (f # own OutDrv s0 t)" "\<forall>u. u \<noteq> t \<longrightarrow> part s0 u = []"
    by (auto simp: out_inv_def)
qed

lemma out_invI:
  assumes "owner (locks s outputMutex) = Some t" "part s = (part s0)(t := bs)" "\<forall>u. u \<noteq> t \<longrightarrow> part s0 u = []"
    "display (con s) = concat (lines s) @ bs"
  shows "out_inv s"
  using assms by (auto simp: out_inv_def)

lemma out_write:
  assumes "out_inv s" "dev_inv s" "popped_core (F_Code (WriteLine_loop chars k n)) s s0" "calls_ok s0" "writeLine_loop chars k n s0 = Inr s'"
  shows "out_inv s'"
proof -
  let ?t = "currentThread s"
  note po = popped_out [OF assms(1-4)]
  have own: "own OutDrv s0 ?t = []" "currentThread s0 = ?t"
    using popped_holder(1) [OF _ assms(3) _ assms(4), of OutDrv] assms(2,3) by (auto simp: dev_inv_def holder_ok_def popped_core_def)
  have d0: "display (con s0) = concat (lines s0) @ take k chars" using po(3) by simp
  have e: "code_effect (WriteLine_loop chars k n) s0 s'" using exec_effect [of undefined "WriteLine_loop chars k n" s0 s'] assms(5) by simp
  show ?thesis
  proof (cases "n = 0")
    case True
    have s': "s' = push [F_Release outputMutex] (note_event (E_Line (take k chars)) s0)" using assms(5) True by (simp add: writeLine_loop_def)
    have "part s' = (part s0)(?t := [])" using own by (simp add: s' part_push note_event_def) (simp add: part_def fun_eq_iff own_def cores_dev)
    moreover have "owner (locks s' outputMutex) = Some ?t" using po(2) by (simp add: s' note_event_def)
    moreover have "display (con s') = concat (lines s') @ []" using d0 e True by (auto dest!: shown_same simp: lines_def note_event_def)
    ultimately show ?thesis using po(4) by (intro out_invI) simp_all
  next
    case False
    let ?fs = "[F_Code (WriteLine_loop chars (Suc k) (n - 1))]"
    obtain s1 where pc: "PutChar (chars ! k) s0 = Inr s1" and P: "P outputDone (push ?fs s1) = Inr s'" and k: "k < length chars"
      using assms(5) False by (auto simp: writeLine_loop_def rbind_eq_Inr split: if_splits)
    note v = Schedule_view [OF conjunct2 [OF PutChar_Inr [OF pc]]]
    have o1: "own OutDrv s1 = own OutDrv s0" using v(1) [of OutDrv] by (simp add: own_def [abs_def] cores_dev)
    have p: "part s' = (part s0)(?t := take (Suc k) chars)"
      using P_part [OF P] own o1 v(4) by (simp add: part_push) (simp add: part_def fun_eq_iff o1)
    have "display (con s') = display (con s0) @ [chars ! k]" "lines s' = lines s0"
      using e False by (auto dest!: shown_same simp: lines_def)
    then have "display (con s') = concat (lines s') @ take (Suc k) chars" using d0 k by (simp add: take_Suc_conv_app_nth)
    moreover have "owner (locks s' outputMutex) = Some ?t" using po(2) P_part [OF P] v(2) by simp
    ultimately show ?thesis using p po(4) by (intro out_invI) simp_all
  qed
qed

lemma out_release:
  assumes "out_inv s" "dev_inv s" "popped_core (F_Release outputMutex) s s0" "calls_ok s0" "Release outputMutex s0 = Inr s'"
  shows "out_inv s'"
proof -
  note po = popped_out [OF assms(1-4), simplified]
  have "own OutDrv s0 (currentThread s) = []"
    using popped_holder(1) [OF _ assms(3) _ assms(4), of OutDrv] assms(2) by (auto simp: dev_inv_def holder_ok_def)
  with po(3,4) have a: "display (con s0) = concat (lines s0)" "part s0 u = []" for u by (auto simp: part_def) (metis part_of.simps(1))
  have "part s' = part s0" using only_lock_D(1) [OF kv_Release [OF assms(5)]] by (rule part_view)
  with a shown_same [OF dev_same_ops(9) [OF assms(5)]] show ?thesis by (simp add: out_inv_def split: option.split)
qed

lemma out_enter:
  assumes "out_inv s" "drv_inv OutDrv s" "calls_ok s" "cores s (currentThread s) = []" "dev_call (D_WriteLine chars n) (push [F_Code (Prog cs)] s) = Inr s'"
  shows "out_inv s'"
proof -
  let ?c = "WriteLine_loop chars 0 n"
  have a: "Acquire (drv_lock OutDrv) (push [F_Code ?c, F_Code (Prog cs)] s) = Inr s'" using assms(5) by (simp add: push_push)
  have o: "own OutDrv s (currentThread s) = []" using assms(4) by (simp add: own_def)
  note E = enter(2,3) [OF assms(2,3) o, of "[F_Code ?c, F_Code (Prog cs)]" ?c, simplified, OF a [simplified]]
  have p: "part s' = part s" using E(1) o by (auto simp: part_def fun_eq_iff)
  have sh: "display (con s') = display (con s) \<and> lines s' = lines s" using shown_same [OF dev_same_ops(3) [OF a]] shown_same [of "push [F_Code ?c, F_Code (Prog cs)] s" s] by simp
  show ?thesis
  proof (cases "owner (locks s outputMutex)")
    case None
    with assms(1) p sh show ?thesis by (auto simp: out_inv_def split: option.split)
  next
    case (Some t)
    then have "owner (locks s' outputMutex) = Some t" using E(2) by (auto simp: line_def split: option.splits)
    with Some assms(1) p sh show ?thesis by (simp add: out_inv_def)
  qed
qed

lemma fire_locks: "dev_fire H h s = Inr s' \<Longrightarrow> locks s' = locks s"
proof (cases h)
  case (TimerTick r)
  then show "dev_fire H h s = Inr s' \<Longrightarrow> ?thesis"
    by (auto simp: TimerExpired_def TimerInterruptHandler_def YieldOnReturn_def rbind_eq_Inr Schedule_Inr split: if_splits)
qed (auto simp: Disk_HandleInterrupt_def CheckCharAvail_def Console_WriteDone_def CheckPktAvail_def Network_SendDone_def
      rbind_eq_Inr Schedule_Inr note_event_def kview_def split: list.splits if_splits dest!: kv_V)

lemma code_kinds:
  obtains chars k n where "c = WriteLine_loop chars k n" | chars n cs where "c = Prog (D_WriteLine chars n # cs)"
  | "\<not> critical OutDrv c" "\<And>c' cs. c = Prog (c' # cs) \<Longrightarrow> \<not> drv_call OutDrv c'"
proof (cases "critical OutDrv c")
  case True
  then show ?thesis using that(1) by (cases c) auto
next
  case False
  show ?thesis
  proof (cases "\<exists>c' cs. c = Prog (c' # cs) \<and> drv_call OutDrv c'")
    case True
    then obtain c' cs where "c = Prog (c' # cs)" "drv_call OutDrv c'" by blast
    then show ?thesis using that(2) by (cases c') auto
  qed (use False that(3) in blast)
qed

lemma out_fired:
  assumes "out_inv s" and t: "taken h s s1" and f: "dev_fire H h s1 = Inr s2" and v: "kview s' = kview s2"
  shows "out_inv s'"
proof -
  have "cores s' = cores s" "locks s' = locks s" "dev_same s' s2" "dev_same s1 s"
    using t fire_cores [OF f] fire_locks [OF f] kview_eqD [OF v] by (simp_all add: taken_def dev_same_def)
  moreover have "display (con s2) = display (con s1) \<and> lines s2 = lines s1" by (rule shown_fire [OF fire_has_effect [OF f]])
  ultimately show ?thesis using shown_same [of s' s2] shown_same [of s1 s] by (intro out_inv_same [OF assms(1) part_view]) simp_all
qed

lemma out_spared:
  assumes "out_inv s" "popped_core f s (pop s)" "\<not> own_frame OutDrv f" "spares OutDrv (pop s) (Inr s')"
    "display (con s') = display (con (pop s)) \<and> lines s' = lines (pop s)"
  shows "out_inv s'"
proof -
  have "dev_same (pop s) s" using assms(2) by (simp add: popped_core_def dev_same_def)
  moreover have "foreign OutDrv s s'" using popped_foreign [OF assms(2,3)] assms(4) foreign_trans by (auto simp: spares_def)
  ultimately show ?thesis using part_foreign [of s s'] assms(5) shown_same [of "pop s" s] by (intro out_inv_same [OF assms(1)]) simp_all
qed

lemma out_code:
  assumes "out_inv s" "dev_inv s" and p: "popped_core (F_Code c) s (pop s)" and ok: "calls_ok (pop s)" and r: "dev_exec H c (pop s) = Inr s'"
  shows "out_inv s'"
proof -
  have ps: "dev_same (pop s) s" using p by (simp add: popped_core_def dev_same_def)
  have drv: "drv_inv OutDrv s" "\<forall>u. bottoms (cores s u)" using assms(2) by (simp_all add: dev_inv_def)
  show ?thesis
  proof (cases c rule: code_kinds)
    case (1 chars k n)
    then show ?thesis using out_write [OF assms(1,2) _ ok] p r by simp
  next
    case (2 chars n cs)
    have fo: "foreign OutDrv s (pop s)" using popped_foreign [OF p] 2 by simp
    have "out_inv (pop s)" using part_foreign [OF fo] shown_same [OF ps] by (intro out_inv_same [OF assms(1)]) simp_all
    moreover have "drv_inv OutDrv (pop s)" using foreign_inv [OF fo] drv(1) by simp
    moreover have "cores (pop s) (currentThread (pop s)) = []" using base_alone [OF drv(2) p] 2 by simp
    ultimately show ?thesis using out_enter [OF _ _ ok] r 2 by simp
  next
    case 3
    show ?thesis
      by (rule out_spared [OF assms(1) p]) (use 3 r spares_exec [of OutDrv c "pop s" H] shown_effect [OF exec_effect [OF r]] in simp_all)
  qed
qed

lemma out_frame:
  assumes "out_inv s" "dev_inv s" "kernel_inv s" and top: "t_frames (cur s) = f # fs" and p: "popped_core f s (pop s)"
    and run: "run_frame (dev_fire H) (dev_exec H) f (pop s) = Inr s'"
  shows "out_inv s'"
proof -
  have ok: "calls_ok (pop s)" using pop_calls_ok [OF assms(3) top] p by (simp add: popped_core_def)
  have ps: "dev_same (pop s) s" using p by (simp add: popped_core_def dev_same_def)
  have drv: "drv_inv OutDrv s" using assms(2) by (simp add: dev_inv_def)
  show ?thesis
  proof (cases f)
    case (F_Code c)
    then show ?thesis using out_code [OF assms(1,2) _ ok] p run by simp
  next
    case (F_P i old)
    with run have r: "P_loop i old (pop s) = Inr s'" by simp
    have "part s = part (pop s)" using popped_part [OF p] by (simp add: F_P) (simp add: part_def fun_eq_iff)
    then show ?thesis using P_loop_part [OF r] shown_same [OF dev_same_ops(8) [OF r]] shown_same [OF ps] p
      by (intro out_inv_same [OF assms(1)]) (simp_all add: popped_core_def)
  next
    case (F_Release l)
    with run have r: "Release l (pop s) = Inr s'" by simp
    show ?thesis
    proof (cases "l = outputMutex")
      case True
      then show ?thesis using out_release [OF assms(1,2) _ ok] p r F_Release by simp
    next
      case False
      show ?thesis
        by (rule out_spared [OF assms(1) p]) (use False r F_Release foreign_Release [of l "pop s" _ OutDrv] shown_same [OF dev_same_ops(9) [OF r]] in \<open>auto simp: spares_def\<close>)
    qed
  next
    case (F_Acquire l)
    with run have r: "Acquire l (pop s) = Inr s'" by simp
    have n: "\<not> own_frame OutDrv f"
      using popped_holder(1) [OF drv p _ ok] F_Acquire by (auto simp: holder_ok_def in_section_def)
    show ?thesis
      by (rule out_spared [OF assms(1) p n]) (use r n F_Acquire spares_ops(3) [OF foreign_refl, of l OutDrv "pop s"] shown_same [OF dev_same_ops(3) [OF r]] in simp_all)
  next
    case (F_Broadcast cv l)
    with run have r: "Broadcast cv l (pop s) = Inr s'" by simp
    have "spares OutDrv (pop s) (Broadcast cv l (pop s))" by (auto simp: Broadcast_def intro!: spares_ops)
    then show ?thesis
      by (intro out_spared [OF assms(1) p]) (use r F_Broadcast shown_same [OF dev_same_ops(10) [OF r]] in simp_all)
  qed (use p in \<open>simp_all add: popped_core_def\<close>)
qed

lemma out_step:
  assumes "out_inv s" "dev_inv s" "kernel_inv s" "kernel_step (dev_fire H) (dev_exec H) s = Inr s'"
  shows "out_inv s'"
proof (rule step_view [OF assms(4)])
  assume "kview s' = kview s"
  note v = kview_eqD [OF this]
  show ?thesis using part_view [OF v(1)] v(2,5) shown_same [of s' s] by (intro out_inv_same [OF assms(1)]) (simp_all add: dev_same_def)
qed (use out_fired [OF assms(1)] out_frame [OF assms(1-3)] in blast)+

section \<open>Which lines\<close>

text \<open>\<open>asked A\<close>: the calls the code of a frame has still to make are among \<open>A\<close>, and a line that is being written is one of
  them, of which \<open>k\<close> characters are done.\<close>

fun asked :: "dcall set \<Rightarrow> dcode frame \<Rightarrow> bool" where
  "asked A (F_Code (Prog cs)) \<longleftrightarrow> set cs \<subseteq> A"
| "asked A (F_Code (WriteLine_loop chars k n)) \<longleftrightarrow> D_WriteLine chars (int k + n) \<in> A \<and> k \<le> length chars"
| "asked A f \<longleftrightarrow> True"

definition line_asked :: "dcall set \<Rightarrow> bytes \<Rightarrow> bool" where
  "line_asked A l \<longleftrightarrow> (\<exists>chars n. D_WriteLine chars (int n) \<in> A \<and> n \<le> length chars \<and> l = take n chars)"

definition all_asked :: "dcall set \<Rightarrow> dev \<Rightarrow> bool" where
  "all_asked A s \<longleftrightarrow> (\<forall>u. \<forall>f \<in> set (cores s u). asked A f)"

definition asking :: "dcall set \<Rightarrow> dev result \<Rightarrow> bool" where
  "asking A r \<longleftrightarrow> (\<forall>s. r = Inr s \<longrightarrow> all_asked A s)"

lemma asking_simps [simp]: "asking A (Inl e)" "asking A (Inr s) = all_asked A s"
  by (auto simp: asking_def)

lemma asking_rbind: "(\<And>x. r = Inr x \<Longrightarrow> asking A (f x)) \<Longrightarrow> asking A (rbind r f)"
  by (cases r) auto

lemma all_asked_cores: "cores s' = cores s \<Longrightarrow> all_asked A s' = all_asked A s"
  by (simp add: all_asked_def)

lemma all_asked_push: "all_asked A s \<Longrightarrow> \<forall>f \<in> set fs. asked A f \<Longrightarrow> all_asked A (push fs s)"
  by (auto simp: all_asked_def cores_push)

lemma all_asked_updates [simp]:
  "all_asked A (s\<lparr>con := x1\<rparr>) = all_asked A s" "all_asked A (s\<lparr>network := x2\<rparr>) = all_asked A s" "all_asked A (s\<lparr>disk := x3\<rparr>) = all_asked A s"
  "all_asked A (s\<lparr>boxes := x4\<rparr>) = all_asked A s" "all_asked A (s\<lparr>stats := x6\<rparr>) = all_asked A s" "all_asked A (note_event e s) = all_asked A s"
  by (simp_all add: all_asked_def cores_def note_event_def)

lemma asking_ops:
  assumes "all_asked A s"
  shows "asking A (P i s)" "asking A (Acquire l s)" "asking A (Wait c (Some l) s)" "asking A (Schedule h t ty s)" "asking A (Signal c cl s)"
    "asking A (Yield s)" "asking A (P_loop i old s)" "asking A (Release l s)" "asking A (Broadcast c l s)"
proof -
  have pushed: "all_asked A (push [F_P i old] s)" "all_asked A (push [F_Acquire l] s)" "all_asked A (push [F_Broadcast c l] s)" for old
    using assms by (simp_all add: all_asked_push)
  have same: "asking A r" if "\<And>s'. r = Inr s' \<Longrightarrow> cores s' = cores x" "all_asked A x" for r x
    using that all_asked_cores by (metis asking_def)
  have p: "all_asked A s'" if "if sem_values s i = 0 then kview s' = kview (push [F_P i old] s) else kview s' = kview (set_sem i x s)" for s' old x
    using that pushed(1) [of old] assms by (auto simp: kview_def all_asked_def split: if_splits)
  show "asking A (P i s)" "asking A (P_loop i old s)" using p [OF kv_P] p [OF kv_P_loop] by (simp_all add: asking_def)
  show "asking A (Acquire l s)" "asking A (Release l s)" using same [OF _ assms] only_lock_D(1) [OF kv_Acquire] only_lock_D(1) [OF kv_Release] by blast+
  have "all_asked A s'" if "Wait c (Some l) s = Inr s'" for s'
    using kv_Wait [OF that] only_lock_D(1) [of l "push [F_Acquire l] s" s'] kview_eqD(1) [of s' s] pushed(2) assms all_asked_cores by metis
  then show "asking A (Wait c (Some l) s)" by (simp add: asking_def)
  show "asking A (Schedule h t ty s)" using assms by (auto simp: asking_def Schedule_Inr all_asked_def)
  show sig: "asking A (Signal c cl s)" "asking A (Yield s)" for cl
    using same [OF _ assms] kview_eqD(1) [OF kv_Signal] kview_eqD(1) [OF kv_Yield] by blast+
  have "asking A (Signal c (Some l) (push [F_Broadcast c l] s))" using same [OF _ pushed(3)] kview_eqD(1) [OF kv_Signal] by blast
  then show "asking A (Broadcast c l s)" using assms by (simp add: Broadcast_def)
qed

lemma asked_call: "all_asked A s \<Longrightarrow> c \<in> A \<Longrightarrow> asking A (dev_call c s)"
  by (cases c) (auto simp: PostOffice_Send_def PostOffice_Receive_def intro!: asking_ops asking_rbind all_asked_push)

lemma Schedule_asked: "Schedule h t ty s = Inr s' \<Longrightarrow> all_asked A s' = all_asked A s"
  by (auto simp: Schedule_Inr all_asked_def)

lemma PutChar_asked: "PutChar ch s = Inr s' \<Longrightarrow> all_asked A s' = all_asked A s"
  by (drule PutChar_Inr, elim conjE, drule Schedule_asked [where A = A]) simp

lemma Network_Send_asked: "Network_Send H hdr bs s = Inr (ok, s') \<Longrightarrow> all_asked A s' = all_asked A s"
  by (erule Network_Send_Inr, drule Schedule_asked [where A = A]) simp

lemma asked_exec:
  assumes "all_asked A s" "asked A (F_Code c)"
  shows "asking A (dev_exec H c s)"
proof (cases c)
  case (Prog cs)
  with assms show ?thesis by (cases cs) (auto intro!: asked_call all_asked_push)
qed (use assms in \<open>auto simp: readSector_request_def writeSector_request_def writeLine_loop_def readLine_loop_def readLine_get_def GetChar_def
    send_packet_def append_body_def remove_loop_def get_mail_def mapcar_body_def postalDelivery_receive_def Network_Receive_def MailBox_Put_def Let_def
    split: list.split intro!: asking_ops asking_rbind all_asked_push
    dest!: Schedule_asked [where A = A] PutChar_asked [where A = A] Network_Send_asked [where A = A]\<close>)

lemma lines_effect:
  assumes "code_effect c s s'" "asked A (F_Code c)" "\<forall>l \<in> set (lines s). line_asked A l"
  shows "\<forall>l \<in> set (lines s'). line_asked A l"
proof (cases "\<exists>chars k. c = WriteLine_loop chars k 0")
  case True
  then obtain chars k where c: "c = WriteLine_loop chars k 0" by blast
  then have "lines s' = lines s @ [take k chars]" using assms(1) by (auto dest!: shown_same simp: lines_def note_event_def)
  with assms(2,3) c show ?thesis by (auto simp: line_asked_def)
next
  case False
  then have "lines s' = lines s" using assms(1)
    by (cases c) (auto dest!: shown_same split: list.splits if_splits simp: lines_def note_event_def)
  with assms(3) show ?thesis by simp
qed

lemma asked_step:
  assumes "all_asked A s" "\<forall>l \<in> set (lines s). line_asked A l" "kernel_step (dev_fire H) (dev_exec H) s = Inr s'"
  shows "all_asked A s'" "\<forall>l \<in> set (lines s'). line_asked A l"
proof -
  show "all_asked A s'"
  proof (rule step_view [OF assms(3)])
    assume "kview s' = kview s"
    from kview_eqD(1) [OF this] assms(1) show ?thesis by (simp add: all_asked_def)
  next
    fix h s1 s2
    assume t: "taken h s s1" and f: "dev_fire H h s1 = Inr s2" and v: "kview s' = kview s2"
    have "cores s' = cores s" using t fire_cores [OF f] kview_eqD [OF v] by (simp add: taken_def)
    with assms(1) show ?thesis by (simp add: all_asked_def)
  next
    fix f fs
    assume top: "t_frames (cur s) = f # fs" and p: "popped_core f s (pop s)" and run: "run_frame (dev_fire H) (dev_exec H) f (pop s) = Inr s'"
    have c: "cores s = (cores (pop s))(currentThread s := f # cores (pop s) (currentThread s))" using p by (simp add: popped_core_def)
    have a: "all_asked A (pop s)" "asked A f" using assms(1) unfolding all_asked_def c by (auto split: if_splits)
    have "asking A (run_frame (dev_fire H) (dev_exec H) f (pop s))"
      using a p by (cases f) (simp_all add: asking_ops asked_exec popped_core_def)
    with run show ?thesis by (simp add: asking_def)
  qed
  show "\<forall>l \<in> set (lines s'). line_asked A l"
  proof (rule step_effect [OF assms(3)])
    fix c fs
    assume top: "t_frames (cur s) = F_Code c # fs" and e: "code_effect c s s'"
    have "F_Code c \<in> set (cores s (currentThread s))" using top by (simp add: cores_def cur_def)
    with assms(1) have "asked A (F_Code c)" unfolding all_asked_def by blast
    then show ?thesis by (rule lines_effect [OF e _ assms(2)])
  qed (use assms(2) shown_same shown_fire in metis)+
qed

section \<open>From the start\<close>

lemma start_asked:
  "for_each start_thread tcs s = Inr s' \<Longrightarrow> start_ok s \<Longrightarrow> all_asked A s \<Longrightarrow> \<forall>(t, c) \<in> set tcs. base (F_Code c) \<and> asked A (F_Code c) \<Longrightarrow> all_asked A s'"
proof (induction tcs arbitrary: s)
  case (Cons tc tcs)
  obtain t c where tc: "tc = (t, c)" by fastforce
  with Cons.prems obtain s1 where s1: "start_thread (t, c) s = Inr s1" "for_each start_thread tcs s1 = Inr s'" by (auto simp: rbind_eq_Inr)
  have c: "base (F_Code c)" "asked A (F_Code c)" using Cons.prems(4) tc by auto
  note S = start_thread_ok [OF Cons.prems(2) c(1) s1(1)]
  have "all_asked A s1" using Cons.prems(3) c(2) by (auto simp: all_asked_def S(2))
  then show ?case using Cons.IH [OF s1(2) S(1)] Cons.prems(4) by simp
qed simp

lemma dev_start_asked:
  assumes "dev_start H sp be r name addr rel n input arriving main progs = Inr s"
  shows "all_asked (set (concat (main # progs))) s"
proof -
  let ?A = "set (concat (main # progs))"
  let ?tcs = "zip [1..<2 + length progs] (PD_loop (map (h_junk H) [0..<MaxPacketSize]) # map Prog progs)"
  obtain s3 where s: "for_each start_thread ?tcs s3 = Inr s" and ok: "start_ok s3" and c: "cores s3 = (\<lambda>_. [])(0 := [F_Code (Prog main)])"
    using dev_start_devices [OF assms] by metis
  have "all_asked ?A s3" by (auto simp: all_asked_def c)
  moreover have "\<forall>(t, c) \<in> set ?tcs. base (F_Code c) \<and> asked ?A (F_Code c)"
  proof (rule ballI, rule case_prodI2)
    fix tc t c
    assume "tc \<in> set ?tcs" "tc = (t, c)"
    then have "c \<in> set (PD_loop (map (h_junk H) [0..<MaxPacketSize]) # map Prog progs)" by (auto dest: set_zip_rightD)
    then show "base (F_Code c) \<and> asked ?A (F_Code c)" by auto
  qed
  ultimately show ?thesis using start_asked [OF s ok] by blast
qed

lemma out_start: "start_ok s \<Longrightarrow> out_inv s"
proof -
  assume st: "start_ok s"
  have "part s u = []" for u
  proof -
    from st have "cores s u = [] \<or> (\<exists>c. cores s u = [F_Code c] \<and> base (F_Code c))" by (simp add: start_ok_def)
    then show ?thesis
    proof
      assume "\<exists>c. cores s u = [F_Code c] \<and> base (F_Code c)"
      then obtain c where "cores s u = [F_Code c]" "base (F_Code c)" by blast
      then show ?thesis by (cases c) (simp_all add: part_def own_def)
    qed (simp add: part_def own_def)
  qed
  then show ?thesis using st by (simp add: out_inv_def start_ok_def lines_def split: option.split)
qed

lemma console_reachable:
  assumes "reachable (dev_fire H) (dev_exec H) s0 s" "start_ok s0" "all_asked A s0"
  shows "out_inv s \<and> all_asked A s \<and> (\<forall>l \<in> set (lines s). line_asked A l)"
  using assms
proof (induction rule: reachable.induct)
  case start
  then show ?case using out_start [of s0] by (simp add: start_ok_def lines_def)
next
  case (step s s')
  then have "kernel_inv s" "dev_inv s" using dev_reachable by blast+
  with step show ?case using out_step [of s H s'] asked_step [of A s H s'] by simp
qed

lemma part_written: "part_of fs \<noteq> [] \<Longrightarrow> \<exists>chars k n. F_Code (WriteLine_loop chars k n) \<in> set fs \<and> part_of fs = take k chars"
  by (induction fs rule: part_of.induct) auto

definition line_demo_start :: "dev result" where
  "line_demo_start = dev_start dev_demo_host demo_spaces True False (Some (host_store32 True 0 MagicNumber (\<lambda>_. 0))) 5 1 10 [] []
     [D_WriteLine [72, 105] 2] []"

definition line_demo :: "nat \<Rightarrow> dev" where
  "line_demo n = projr (rbind line_demo_start (steps (dev_fire dev_demo_host) (dev_exec dev_demo_host) n))"

text \<open>C9. Lines come out whole, whatever threads write at the same time and whenever the console interrupts: the
  display is the sequence of the lines whose \<open>WriteLine\<close> has finished writing, in that order, followed by a
  beginning of the line that the holder of \<open>outputMutex\<close> is writing, and by nothing when nobody holds it; and
  every finished line is the first \<open>size\<close> characters a call of \<open>WriteLine\<close> was given.\<close>

theorem console_lines_whole:
  assumes "dev_start H sp be r name addr rel n input arriving main progs = Inr s0" "reachable (dev_fire H) (dev_exec H) s0 s"
  shows "(\<exists>rest. display (con s) = concat (lines s) @ rest \<and> (rest \<noteq> [] \<longrightarrow> (\<exists>t chars k m. owner (locks s outputMutex) = Some t
      \<and> F_Code (WriteLine_loop chars k m) \<in> set (t_frames (threads s t)) \<and> rest = take k chars)))
    \<and> (\<forall>l \<in> set (lines s). \<exists>chars k. D_WriteLine chars (int k) \<in> set (concat (main # progs)) \<and> k \<le> length chars \<and> l = take k chars)"
proof -
  have inv: "out_inv s \<and> all_asked (set (concat (main # progs))) s \<and> (\<forall>l \<in> set (lines s). line_asked (set (concat (main # progs))) l)"
    by (rule console_reachable [OF assms(2) dev_start_ok [OF assms(1)] dev_start_asked [OF assms(1)]])
  define rest where "rest = (case owner (locks s outputMutex) of None \<Rightarrow> [] | Some t \<Rightarrow> part s t)"
  have "\<exists>t chars k m. owner (locks s outputMutex) = Some t \<and> F_Code (WriteLine_loop chars k m) \<in> set (t_frames (threads s t)) \<and> rest = take k chars"
    if ne: "rest \<noteq> []"
  proof -
    obtain t where t: "owner (locks s outputMutex) = Some t" "rest = part s t" using ne by (auto simp: rest_def split: option.splits)
    then obtain chars k m where "F_Code (WriteLine_loop chars k m) \<in> set (own OutDrv s t)" "rest = take k chars"
      using part_written [of "own OutDrv s t"] ne by (auto simp: part_def)
    with t(1) show ?thesis by (auto simp: own_def cores_def)
  qed
  moreover have "display (con s) = concat (lines s) @ rest" using inv by (simp add: out_inv_def rest_def)
  ultimately show ?thesis using inv by (auto simp: line_asked_def)
qed

lemma line_demo_runs: "\<not> isl (rbind line_demo_start (steps (dev_fire dev_demo_host) (dev_exec dev_demo_host) 7))"
  by code_simp

theorem console_lines_whole_witness:
  "display (con (line_demo 7)) = [72] \<and> (\<exists>t. owner (locks (line_demo 7) outputMutex) = Some t)"
proof -
  have d: "display (con (line_demo 7)) = [72]" "lines (line_demo 7) = []" by code_simp+
  obtain s0 where s0: "line_demo_start = Inr s0" "reachable (dev_fire dev_demo_host) (dev_exec dev_demo_host) s0 (line_demo 7)"
    unfolding line_demo_def by (rule run_reachable [OF line_demo_runs])
  from console_lines_whole [OF s0(1) [unfolded line_demo_start_def] s0(2)] d show ?thesis by auto
qed

end
