(* ===== verification/Mail_Delivery.thy ===== *)
theory Mail_Delivery
  imports Device_Effects
begin

text \<open>
  From the wire to the mail boxes: what the post office of another machine has put on the wire is read by the
  network, handed to the postal worker and put into the mail box it names, unchanged and in order. Mail boxes are
  first-in first-out queues.
\<close>

section \<open>The format of packets\<close>

lemma header_roundtrip [simp]: "pkt_at be (pkt_bytes be h @ zs) = h" "mail_at be (mail_bytes be m @ zs) = m"
  using words_roundtrip [of be "[pkt_to h, pkt_from h, pkt_length h]" zs] words_roundtrip [of be "[mail_to m, mail_from m, mail_length m]" zs]
  by (simp_all add: pkt_at_def pkt_bytes_def mail_at_def mail_bytes_def numeral_3_eq_3)

lemma header_length [simp]: "length (pkt_bytes be h) = HeaderSize" "length (mail_bytes be m) = HeaderSize"
  by (simp_all add: pkt_bytes_def mail_bytes_def length_words_bytes HeaderSize_def)

lemma mail_at_take: "HeaderSize \<le> length bs \<Longrightarrow> mail_at be (bs @ zs) = mail_at be bs"
proof -
  assume len: "HeaderSize \<le> length bs"
  have "words_at be 3 (take 12 bs @ drop 12 bs @ zs) = words_at be 3 (take 12 bs @ drop 12 bs)"
    using len by (simp add: words_at_append HeaderSize_def del: append_take_drop_id)
  moreover have "take 12 bs @ drop 12 bs @ zs = bs @ zs" by (metis append.assoc append_take_drop_id)
  ultimately show ?thesis by (simp add: mail_at_def Let_def)
qed

text \<open>The mail in a packet, with the box it is for.\<close>

definition mail_of :: "bool \<Rightarrow> PacketHeader \<times> bytes \<Rightarrow> nat \<times> Mail" where
  "mail_of be = (\<lambda>(hdr, bs). let mh = mail_at be bs in
     (nat (sint (mail_to mh)), \<lparr>m_pktHdr = hdr, m_mailHdr = mh, m_data = take (unat (mail_length mh)) (drop HeaderSize bs)\<rparr>))"

definition wf_packet :: "bool \<Rightarrow> PacketHeader \<times> bytes \<Rightarrow> bool" where
  "wf_packet be = (\<lambda>(hdr, bs). length bs = unat (pkt_length hdr) \<and> length bs \<le> MaxPacketSize
     \<and> HeaderSize + unat (mail_length (mail_at be bs)) = length bs)"

text \<open>\<open>sent_mail be ident d x\<close>: the datagram \<open>d\<close> was sent to the machine \<open>ident\<close> by \<open>PostOffice::Send\<close> and
  \<open>Network::Send\<close> of some machine, and \<open>x\<close> is the mail in it.\<close>

definition sent_mail :: "bool \<Rightarrow> 32 word \<Rightarrow> bytes \<Rightarrow> nat \<times> Mail \<Rightarrow> bool" where
  "sent_mail be ident d x \<longleftrightarrow> (\<exists>addr p m bs junk hdr buffer. unat (mail_length m) \<le> MaxMailSize \<and> pkt_to p = ident
     \<and> post_packet be addr p m bs = Inr (hdr, buffer) \<and> packet be junk hdr buffer = Inr d
     \<and> x = (nat (sint (mail_to m)), \<lparr>m_pktHdr = hdr, m_mailHdr = m, m_data = take (unat (mail_length m)) bs\<rparr>))"

lemma wire_sizes: "MaxWireSize = 64" "HeaderSize = 12" "MaxPacketSize = 52" "MaxMailSize = 40"
  by (simp_all add: MaxWireSize_def HeaderSize_def MaxPacketSize_def MaxMailSize_def)

lemma sent_mail_received:
  assumes "sent_mail be ident d x" "ReadFromSocket d = Inr buffer" "divide_packet be ident' buffer = Inr (hdr, bs)"
  shows "mail_of be (hdr, bs) = x" "wf_packet be (hdr, bs)"
proof -
  from assms(1) obtain addr p m data junk h buf where s: "unat (mail_length m) \<le> 40" "post_packet be addr p m data = Inr (h, buf)"
    "packet be junk h buf = Inr d"
    and x: "x = (nat (sint (mail_to m)), \<lparr>m_pktHdr = h, m_mailHdr = m, m_data = take (unat (mail_length m)) data\<rparr>)"
    unfolding sent_mail_def wire_sizes by blast
  let ?n = "unat (mail_length m)"
  from s(2) have dl: "?n \<le> length data" and buf: "buf = mail_bytes be m @ take ?n data" and hl: "pkt_length h = mail_length m + 12"
    by (auto simp: post_packet_def first_bytes_def rbind_eq_Inr wire_sizes split: if_splits)
  have un: "unat (pkt_length h) = ?n + 12" using s(1) unfolding hl by (simp add: unat_word_ariths)
  have lb: "length buf = ?n + 12" using dl by (simp add: buf wire_sizes)
  from s(3) un lb have d: "d = patch 0 (pkt_bytes be h @ buf) (map junk [0..<64])"
    by (auto simp: packet_def first_bytes_def rbind_eq_Inr wire_sizes split: if_splits)
  then have d2: "d = pkt_bytes be h @ buf @ drop (length buf + 12) (map junk [0..<64])" by (simp add: patch_def wire_sizes add.commute)
  have "length d = 64" using d lb s(1) by (simp add: wire_sizes)
  with assms(2) have b: "buffer = d" by (auto simp: ReadFromSocket_def rbind_eq_Inr wire_sizes)
  have at: "pkt_at be d = h" unfolding d2 by simp
  have "drop 12 d = buf @ drop (length buf + 12) (map junk [0..<64])" unfolding d2 by (simp add: wire_sizes)
  with assms(3) at b un lb have hb: "hdr = h" "bs = buf"
    by (auto simp: divide_packet_def Let_def first_bytes_def rbind_eq_Inr wire_sizes split: if_splits)
  have ma: "mail_at be buf = m" by (simp add: buf)
  show "mail_of be (hdr, bs) = x" using x ma dl by (simp add: mail_of_def hb Let_def) (simp add: buf wire_sizes)
  show "wf_packet be (hdr, bs)" using un lb s(1) ma by (simp add: wf_packet_def hb wire_sizes)
qed

section \<open>The postal worker\<close>

fun wk :: "dcode frame \<Rightarrow> bool" where
  "wk (F_P i old) \<longleftrightarrow> i = messageAvailable"
| "wk (F_Code (PD_loop buffer)) = True"
| "wk (F_Code (PD_receive buffer)) = True"
| "wk (F_Code (Append_body b m)) = True"
| "wk f = False"

definition worker :: "dev \<Rightarrow> tid \<Rightarrow> dcode frame list" where
  "worker s u = filter wk (cores s u)"

definition tokens :: "dev \<Rightarrow> int" where
  "tokens s = sem_values s messageAvailable"

definition full :: "dev \<Rightarrow> bool" where
  "full s \<longleftrightarrow> pkt_length (inHdr (network s)) \<noteq> 0"

text \<open>Where the worker is, how often it has been signalled, and whether a packet is buffered.\<close>

definition worker_ok :: "dcode frame list \<Rightarrow> int \<Rightarrow> bool \<Rightarrow> bool" where
  "worker_ok fs v b \<longleftrightarrow> (\<exists>buf. length buf = MaxPacketSize \<and>
     ((fs = [F_Code (PD_loop buf)] \<or> (\<exists>old. fs = [F_P messageAvailable old, F_Code (PD_receive buf)])
        \<or> (\<exists>n m. fs = [F_Code (Append_body n m), F_Code (PD_loop buf)])) \<and> v = of_bool b
      \<or> fs = [F_Code (PD_receive buf)] \<and> v = 0 \<and> b))"

fun in_flight :: "dcode frame list \<Rightarrow> (nat \<times> Mail) list" where
  "in_flight (F_Code (Append_body b m) # fs) = [(b, m)]"
| "in_flight fs = []"

fun appended1 :: "event \<Rightarrow> (nat \<times> Mail) list" where
  "appended1 (E_Appended b m) = [(b, m)]"
| "appended1 e = []"

fun removed1 :: "event \<Rightarrow> (nat \<times> Mail) list" where
  "removed1 (E_Removed b m) = [(b, m)]"
| "removed1 e = []"

fun arrived1 :: "event \<Rightarrow> (PacketHeader \<times> bytes) list" where
  "arrived1 (E_Arrived hdr bs) = [(hdr, bs)]"
| "arrived1 e = []"

definition appended :: "dev \<Rightarrow> (nat \<times> Mail) list" where
  "appended s = concat (map appended1 (history s))"

definition removed :: "dev \<Rightarrow> (nat \<times> Mail) list" where
  "removed s = concat (map removed1 (history s))"

definition arrived :: "dev \<Rightarrow> (PacketHeader \<times> bytes) list" where
  "arrived s = concat (map arrived1 (history s))"

definition buffered :: "dev \<Rightarrow> PacketHeader \<times> bytes" where
  "buffered s = (inHdr (network s), take (unat (pkt_length (inHdr (network s)))) (inbox (network s)))"

text \<open>What the network and the history have to do with the mails that were sent: \<open>k\<close> of them have been read.\<close>

definition net_inv :: "bool \<Rightarrow> 32 word \<Rightarrow> (nat \<times> Mail) list \<Rightarrow> (nat \<times> Mail) list \<Rightarrow> dev \<Rightarrow> bool" where
  "net_inv be addr mails flying s \<longleftrightarrow> hostBE s = be \<and> net_ident (network s) = addr \<and> length (inbox (network s)) = MaxPacketSize
     \<and> (full s \<longrightarrow> wf_packet be (buffered s))
     \<and> (\<exists>k. list_all2 (sent_mail be addr) (sock (network s)) (drop k mails)
          \<and> appended s @ flying @ (if full s then [mail_of be (buffered s)] else []) = take k mails)"

definition post_inv :: "bool \<Rightarrow> 32 word \<Rightarrow> (nat \<times> Mail) list \<Rightarrow> dev \<Rightarrow> bool" where
  "post_inv be addr mails s \<longleftrightarrow> (\<exists>w. (\<forall>u. u \<noteq> w \<longrightarrow> worker s u = []) \<and> worker_ok (worker s w) (tokens s) (full s)
     \<and> net_inv be addr mails (in_flight (worker s w)) s)"

text \<open>What does not concern the worker.\<close>

definition idle_for :: "dev \<Rightarrow> dev \<Rightarrow> bool" where
  "idle_for s s' \<longleftrightarrow> worker s' = worker s \<and> tokens s' = tokens s"

lemma wk_core: "filter wk (filter core fs) = filter wk fs"
proof -
  have "wk f \<Longrightarrow> core f" for f by (cases f) auto
  then show ?thesis by (induction fs) auto
qed

lemma worker_push: "worker (push fs s) = (worker s)(currentThread s := filter wk fs @ worker s (currentThread s))"
  by (simp add: worker_def fun_eq_iff cores_push wk_core del: filter_filter)

lemma idle_for_view: "kview s' = kview s \<Longrightarrow> idle_for s s'"
  by (simp add: idle_for_def kview_def worker_def fun_eq_iff tokens_def)

lemma idle_for_trans: "idle_for s s' \<Longrightarrow> idle_for s' s'' \<Longrightarrow> idle_for s s''"
  by (simp add: idle_for_def)

lemma idle_for_lock: "only_lock l s s' \<Longrightarrow> idle_for s s'"
  using only_lock_D [of l s s'] by (simp add: idle_for_def worker_def fun_eq_iff tokens_def)

lemma idle_for_push: "filter wk fs = [] \<Longrightarrow> idle_for s (push fs s1) = idle_for s s1"
  by (simp add: idle_for_def worker_push tokens_def)

lemma idle_for_simps [simp]:
  "idle_for s s" "idle_for s (s1\<lparr>con := x1\<rparr>) = idle_for s s1" "idle_for s (s1\<lparr>network := x2\<rparr>) = idle_for s s1"
  "idle_for s (s1\<lparr>disk := x3\<rparr>) = idle_for s s1" "idle_for s (s1\<lparr>boxes := x4\<rparr>) = idle_for s s1"
  "idle_for s (s1\<lparr>stats := x6\<rparr>) = idle_for s s1" "idle_for s (s1\<lparr>yieldOnReturn := b\<rparr>) = idle_for s s1" "idle_for s (note_event e s1) = idle_for s s1"
  by (simp_all add: idle_for_def worker_def [abs_def] cores_def [abs_def] tokens_def sem_values_def note_event_def)

definition idling :: "dev \<Rightarrow> dev result \<Rightarrow> bool" where
  "idling s r \<longleftrightarrow> (\<forall>s'. r = Inr s' \<longrightarrow> idle_for s s')"

lemma idling_simps [simp]: "idling s (Inl e)" "idling s (Inr s') = idle_for s s'"
  by (auto simp: idling_def)

lemma idling_rbind: "(\<And>x. r = Inr x \<Longrightarrow> idling s (f x)) \<Longrightarrow> idling s (rbind r f)"
  by (cases r) auto

lemma idling_ops:
  assumes "idle_for s s1"
  shows "i \<noteq> messageAvailable \<Longrightarrow> idling s (P i s1)" "i \<noteq> messageAvailable \<Longrightarrow> idling s (V i s1)" "idling s (Acquire l s1)"
    "idling s (Wait c (Some l) s1)" "idling s (Schedule h t ty s1)" "idling s (Signal c cl s1)" "idling s (Yield s1)" "idling s (Release l s1)"
    "i \<noteq> messageAvailable \<Longrightarrow> idling s (P_loop i old s1)" "idling s (Broadcast c l s1)"
proof -
  have via: "idling s r" if "\<And>s'. r = Inr s' \<Longrightarrow> idle_for s1 s'" for r using that assms idle_for_trans by (auto simp: idling_def)
  have p: "idle_for s1 s'" if "if sem_values s1 i = 0 then kview s' = kview (push [F_P i old] s1)
         else kview s' = kview (set_sem i ((semaphores s1 i)\<lparr>sem_value := sem_values s1 i - 1\<rparr>) s1)" "i \<noteq> messageAvailable" for old s'
    using that idle_for_push [of "[F_P i old]" s1 s1] by (auto simp: idle_for_def kview_def worker_def [abs_def] tokens_def split: if_splits)
  show "i \<noteq> messageAvailable \<Longrightarrow> idling s (P i s1)" "i \<noteq> messageAvailable \<Longrightarrow> idling s (P_loop i old s1)"
    by (rule via, erule p [OF kv_P], assumption) (rule via, erule p [OF kv_P_loop], assumption)
  show "i \<noteq> messageAvailable \<Longrightarrow> idling s (V i s1)"
    by (rule via, drule kv_V) (auto simp: idle_for_def kview_def worker_def [abs_def] tokens_def)
  show "idling s (Acquire l s1)" "idling s (Release l s1)" by (rule via, rule idle_for_lock, erule kv_Acquire kv_Release)+
  have w: "idle_for s1 s'" if "Wait c (Some l) s1 = Inr s'" for s'
    using kv_Wait [OF that] idle_for_view [of s' s1] idle_for_lock [of l "push [F_Acquire l] s1" s'] idle_for_push [of "[F_Acquire l]" s1 s1]
    by (auto intro: idle_for_trans)
  then show "idling s (Wait c (Some l) s1)" by (rule via)
  show "idling s (Schedule h t ty s1)" by (rule via) (auto simp: Schedule_Inr idle_for_def worker_def [abs_def] tokens_def)
  have sig: "idle_for s2 s'" if "Signal c cl s2 = Inr s'" for cl s2 s' using idle_for_view [OF kv_Signal [OF that]] .
  show "idling s (Signal c cl s1)" "idling s (Yield s1)" by (rule via, erule sig) (rule via, rule idle_for_view, erule kv_Yield)
  have "idle_for s1 s'" if "Broadcast c l s1 = Inr s'" for s'
    using that sig [of "Some l" "push [F_Broadcast c l] s1" s'] idle_for_push [of "[F_Broadcast c l]" s1 s1]
    by (auto simp: Broadcast_def split: if_splits intro: idle_for_trans)
  then show "idling s (Broadcast c l s1)" by (rule via)
qed

lemma idling_call: "idle_for s s1 \<Longrightarrow> idling s (dev_call c s1)"
  by (cases c) (auto simp: PostOffice_Send_def PostOffice_Receive_def idle_for_push intro!: idling_ops idling_rbind)

lemma Schedule_idle: "Schedule h t ty s1 = Inr s' \<Longrightarrow> \<forall>s. idle_for s s' = idle_for s s1"
  using idling_ops(5) [of s1 s1 h t ty] by (auto simp: idling_def idle_for_def)

lemma PutChar_idle: "PutChar ch s1 = Inr s' \<Longrightarrow> \<forall>s. idle_for s s' = idle_for s s1"
  by (drule PutChar_Inr, elim conjE, drule Schedule_idle) simp

lemma Network_Send_idle: "Network_Send H hdr bs s1 = Inr (ok, s') \<Longrightarrow> \<forall>s. idle_for s s' = idle_for s s1"
  by (erule Network_Send_Inr, drule Schedule_idle) simp

lemma other_sems [simp]: "disk_sem \<noteq> messageAvailable" "outputDone \<noteq> messageAvailable" "inputAvailable \<noteq> messageAvailable" "messageSent \<noteq> messageAvailable"
  by (simp_all add: sync_objects)

lemma idling_exec:
  assumes "\<not> wk (F_Code c)"
  shows "idling s (dev_exec H c s)"
proof (cases c)
  case (Prog cs)
  then show ?thesis by (cases cs) (auto simp: idle_for_push intro!: idling_call)
qed (use assms in \<open>auto simp: readSector_request_def writeSector_request_def writeLine_loop_def readLine_loop_def readLine_get_def GetChar_def
    send_packet_def remove_loop_def get_mail_def mapcar_body_def Let_def idle_for_push split: list.split intro!: idling_ops idling_rbind
    dest!: PutChar_idle Network_Send_idle Schedule_idle\<close>)

lemma idling_fire:
  assumes "h \<noteq> NetworkReadPoll"
  shows "idling s (dev_fire H h s)"
proof (cases h)
  case (TimerTick r)
  have "idle_for s s'" if t: "TimerExpired (TimerTick r) (h_timer H) r s = Inr s'" for s'
  proof -
    obtain s1 i where "Schedule (TimerTick r) i TimerInt s = Inr s1" "s' = s1 \<or> s' = s1\<lparr>yieldOnReturn := True\<rparr>"
      using t by (auto simp: TimerExpired_def TimerInterruptHandler_def YieldOnReturn_def rbind_eq_Inr split: if_splits)
    with Schedule_idle show ?thesis by fastforce
  qed
  with TimerTick show ?thesis by (simp add: idling_def)
qed (use assms in \<open>auto simp: Disk_HandleInterrupt_def CheckCharAvail_def Console_WriteDone_def Network_SendDone_def
      split: list.split intro!: idling_rbind idling_ops dest!: Schedule_idle\<close>)

definition netview :: "dev \<Rightarrow> bool \<times> 32 word \<times> bytes \<times> PacketHeader \<times> bytes list \<times> (nat \<times> Mail) list" where
  "netview s = (hostBE s, net_ident (network s), inbox (network s), inHdr (network s), sock (network s), appended s)"

lemma netview_inv: "netview s' = netview s \<Longrightarrow> net_inv be addr mails fl s' = net_inv be addr mails fl s \<and> full s' = full s"
  by (simp add: netview_def net_inv_def full_def buffered_def)

lemma appended_note: "history s' = history s @ [e] \<Longrightarrow> appended s' = appended s @ appended1 e"
  by (simp add: appended_def)

lemma netview_same: "dev_same s' s \<Longrightarrow> netview s' = netview s"
  using dev_same_D [of s' s] by (simp add: netview_def appended_def)

lemma netview_updates [simp]:
  "netview (s\<lparr>con := x1\<rparr>) = netview s" "netview (s\<lparr>disk := x3\<rparr>) = netview s" "netview (s\<lparr>boxes := x4\<rparr>) = netview s"
  "netview (s\<lparr>network := (network s)\<lparr>wire := w\<rparr>\<rparr>) = netview s" "netview (s\<lparr>network := (network s)\<lparr>sendBusy := b\<rparr>\<rparr>) = netview s"
  "appended1 e = [] \<Longrightarrow> netview (note_event e s) = netview s"
  by (simp_all add: netview_def appended_def note_event_def)

lemma effect_net:
  assumes "\<not> wk (F_Code c)" "code_effect c s s'"
  shows "netview s' = netview s"
  using assms by (cases c) (auto dest!: netview_same split: if_splits list.splits)

lemma fire_effect_net:
  assumes "h \<noteq> NetworkReadPoll" "fire_effect h s s'"
  shows "netview s' = netview s"
  using assms by (cases h) (auto dest!: netview_same)

lemma post_inv_idle: "idle_for s s' \<Longrightarrow> netview s' = netview s \<Longrightarrow> post_inv be addr mails s \<Longrightarrow> post_inv be addr mails s'"
  using netview_inv [of s' s] by (simp add: post_inv_def idle_for_def)

text \<open>A packet arrives: the buffer was empty, the worker has been signalled for every earlier packet.\<close>

lemma patch_take: "length bs \<le> length xs \<Longrightarrow> take (length bs) (patch 0 bs xs) = bs"
  by (simp add: patch_def)

definition arrival :: "dev \<Rightarrow> dev \<Rightarrow> bool" where
  "arrival s s' \<longleftrightarrow> (\<exists>d ds buffer hdr bs. pkt_length (inHdr (network s)) = 0 \<and> sock (network s) = d # ds
     \<and> ReadFromSocket d = Inr buffer \<and> divide_packet (hostBE s) (net_ident (network s)) buffer = Inr (hdr, bs)
     \<and> dev_same s' (note_event (E_Arrived hdr bs)
         (s\<lparr>network := (network s)\<lparr>inHdr := hdr, inbox := patch 0 bs (inbox (network s)), sock := ds\<rparr>\<rparr>)))"

lemma poll_cases:
  assumes "dev_fire H NetworkReadPoll s = Inr s'"
  shows "dev_same s' s \<and> idle_for s s' \<or> arrival s s' \<and> worker s' = worker s \<and> tokens s' = tokens s + 1"
proof -
  obtain s1 where s1: "Schedule NetworkReadPoll NetworkTime NetworkRecvInt s = Inr s1"
    using assms by (auto simp: CheckPktAvail_def rbind_eq_Inr)
  have "s' = s1 \<or> (\<exists>hdr bs x st. V messageAvailable (note_event (E_Arrived hdr bs) (s1\<lparr>network := x, stats := st\<rparr>)) = Inr s')"
    using assms s1 by (auto simp: CheckPktAvail_def rbind_eq_Inr split: if_splits list.splits)
  moreover have "idle_for s1 (note_event e (s1\<lparr>network := x, stats := st\<rparr>))"
    "history (note_event e (s1\<lparr>network := x, stats := st\<rparr>)) = history s1 @ [last (history (note_event e (s1\<lparr>network := x, stats := st\<rparr>)))]" for e x st
    by (simp, simp add: note_event_def)
  ultimately have c: "s' = s1 \<or> (\<exists>s2. idle_for s1 s2 \<and> history s2 = history s1 @ [last (history s2)] \<and> V messageAvailable s2 = Inr s')"
    by blast
  have i: "idle_for s s1" "dev_same s1 s" using Schedule_idle [OF s1] dev_same_ops(7) [OF s1] by simp_all
  show ?thesis
  proof (cases "s' = s1")
    case True
    with i show ?thesis by simp
  next
    case False
    with c obtain s2 where s2: "idle_for s1 s2" "history s2 = history s1 @ [last (history s2)]" "V messageAvailable s2 = Inr s'" by blast
    have "worker s' = worker s2" "tokens s' = tokens s2 + 1"
      using kv_V [OF s2(3)] by (auto simp: kview_def worker_def [abs_def] tokens_def)
    moreover have "\<not> dev_same s' s"
    proof
      assume "dev_same s' s"
      then have "history s2 = history s1" using dev_same_D(8) [OF dev_same_ops(2) [OF s2(3)]] dev_same_D(8) [of s' s] dev_same_D(8) [OF i(2)] by simp
      with s2(2) have "length (history s1) = Suc (length (history s1))" by (metis length_append_singleton)
      then show False by simp
    qed
    then have "arrival s s'" using fire_has_effect [OF assms] by (simp add: arrival_def)
    ultimately show ?thesis using i(1) s2(1) by (simp add: idle_for_def)
  qed
qed

lemma arrival_step:
  assumes "post_inv be addr mails s" "arrival s s'"
    "worker s' = worker s" "tokens s' = tokens s + 1"
  shows "post_inv be addr mails s'"
proof -
  from assms(1) obtain w where w: "\<forall>u. u \<noteq> w \<longrightarrow> worker s u = []" "worker_ok (worker s w) (tokens s) (full s)"
    "net_inv be addr mails (in_flight (worker s w)) s" by (auto simp: post_inv_def)
  from assms(2) obtain d ds buffer hdr bs where e: "pkt_length (inHdr (network s)) = 0" "sock (network s) = d # ds"
    "ReadFromSocket d = Inr buffer" "divide_packet (hostBE s) (net_ident (network s)) buffer = Inr (hdr, bs)"
    "dev_same s' (note_event (E_Arrived hdr bs) (s\<lparr>network := (network s)\<lparr>inHdr := hdr, inbox := patch 0 bs (inbox (network s)), sock := ds\<rparr>\<rparr>))"
    unfolding arrival_def by blast
  note D = dev_same_D [OF e(5)]
  from w(3) obtain k where n: "hostBE s = be" "net_ident (network s) = addr" "length (inbox (network s)) = MaxPacketSize"
    and k: "list_all2 (sent_mail be addr) (d # ds) (drop k mails)" "appended s @ in_flight (worker s w) = take k mails"
    using e(1,2) by (auto simp: net_inv_def full_def)
  from k(1) have kl: "k < length mails" by (auto dest: list_all2_lengthD)
  define x where "x = mails ! k"
  have dr: "drop k mails = x # drop (Suc k) mails" using kl by (simp add: x_def Cons_nth_drop_Suc)
  with k(1) have x: "sent_mail be addr d x" "list_all2 (sent_mail be addr) ds (drop (Suc k) mails)" by simp_all
  have m: "mail_of be (hdr, bs) = x" "wf_packet be (hdr, bs)"
    using sent_mail_received [OF x(1) e(3)] e(4) n by simp_all
  then have len: "length bs = unat (pkt_length hdr)" "length bs \<le> MaxPacketSize" "HeaderSize \<le> length bs" by (auto simp: wf_packet_def)
  have net: "network s' = (network s)\<lparr>inHdr := hdr, inbox := patch 0 bs (inbox (network s)), sock := ds\<rparr>" "hostBE s' = be"
    "appended s' = appended s" using D n by (simp_all add: note_event_def appended_def)
  have b: "buffered s' = (hdr, bs)" using len n(3) patch_take [of bs "inbox (network s)"] by (simp add: buffered_def net)
  have f: "full s'" "\<not> full s" using len(1,3) e(1) by (auto simp: full_def net wire_sizes)
  have "net_inv be addr mails (in_flight (worker s' w)) s'"
    unfolding net_inv_def
  proof (intro conjI exI [of _ "Suc k"])
    show "list_all2 (sent_mail be addr) (sock (network s')) (drop (Suc k) mails)" using x(2) by (simp add: net)
    show "appended s' @ in_flight (worker s' w) @ (if full s' then [mail_of be (buffered s')] else []) = take (Suc k) mails"
      using k(2) kl m(1) f(1) by (simp add: b net assms(3) take_Suc_conv_app_nth x_def [symmetric])
    show "length (inbox (network s')) = MaxPacketSize" using n(3) len(2) by (simp add: net)
  qed (use n m(2) b in \<open>simp_all add: net\<close>)
  moreover have "worker_ok (worker s' w) (tokens s') (full s')" using w(2) f unfolding worker_ok_def assms(3,4) by auto
  ultimately show ?thesis using w(1) by (auto simp: post_inv_def assms(3))
qed

text \<open>The worker's own steps.\<close>

lemma worker_popped:
  assumes "post_inv be addr mails s" "popped_core f s s0" "wk f"
  defines "u \<equiv> currentThread s"
  shows "worker_ok (f # worker s0 u) (tokens s0) (full s0)" "net_inv be addr mails (in_flight (f # worker s0 u)) s0"
    "worker s' = (worker s0)(u := fs') \<Longrightarrow> worker_ok fs' (tokens s') (full s') \<Longrightarrow> net_inv be addr mails (in_flight fs') s'
     \<Longrightarrow> post_inv be addr mails s'"
proof -
  from assms(1) obtain w where w: "\<forall>u. u \<noteq> w \<longrightarrow> worker s u = []" "worker_ok (worker s w) (tokens s) (full s)"
    "net_inv be addr mails (in_flight (worker s w)) s" by (auto simp: post_inv_def)
  have ws: "worker s = (worker s0)(u := f # worker s0 u)" using assms(2,3) by (auto simp: popped_core_def worker_def u_def fun_eq_iff)
  then have "worker s u \<noteq> []" by simp
  with w(1) have u: "w = u" by metis
  have "dev_same s0 s" "tokens s0 = tokens s" using assms(2) by (simp_all add: popped_core_def dev_same_def tokens_def)
  with netview_inv [OF netview_same, of s0 s] w(2,3) u ws
  show "worker_ok (f # worker s0 u) (tokens s0) (full s0)" "net_inv be addr mails (in_flight (f # worker s0 u)) s0" by simp_all
  show "worker s' = (worker s0)(u := fs') \<Longrightarrow> worker_ok fs' (tokens s') (full s') \<Longrightarrow> net_inv be addr mails (in_flight fs') s'
     \<Longrightarrow> post_inv be addr mails s'"
    using w(1) ws u unfolding post_inv_def by (intro exI [of _ w]) (metis fun_upd_apply)
qed

lemma worker_view: "kview s' = kview s1 \<Longrightarrow> worker s' = worker s1 \<and> tokens s' = tokens s1 \<and> dev_same s' s1"
  by (simp add: kview_def worker_def [abs_def] tokens_def dev_same_def)

text \<open>\<open>P\<close> on \<open>messageAvailable\<close>, from the loop of the worker and from the queue of the semaphore.\<close>

lemma P_receive:
  assumes "length buf = MaxPacketSize" "tokens s1 = of_bool (full s1)" "net_inv be addr mails [] s1"
    "worker s1 = (worker s0)(currentThread s1 := [F_Code (PD_receive buf)])"
    "if sem_values s1 messageAvailable = 0 then kview s' = kview (push [F_P messageAvailable old] s1)
     else kview s' = kview (set_sem messageAvailable ((semaphores s1 messageAvailable)\<lparr>sem_value := sem_values s1 messageAvailable - 1\<rparr>) s1)"
  shows "\<exists>fs. worker s' = (worker s0)(currentThread s1 := fs) \<and> worker_ok fs (tokens s') (full s') \<and> net_inv be addr mails (in_flight fs) s'"
proof (cases "tokens s1 = 0")
  case True
  then have v: "kview s' = kview (push [F_P messageAvailable old] s1)" using assms(5) by (simp add: tokens_def)
  let ?fs = "[F_P messageAvailable old, F_Code (PD_receive buf)]"
  note V = worker_view [OF v]
  have n: "netview s' = netview s1" using V by (intro netview_same) simp
  have "worker s' = (worker s0)(currentThread s1 := ?fs)" using V assms(4) by (simp add: worker_push)
  moreover have "tokens s' = tokens s1" using V by (simp add: tokens_def)
  then have "worker_ok ?fs (tokens s') (full s')" using True assms(1,2) netview_inv [OF n] by (auto simp: worker_ok_def)
  ultimately show ?thesis using netview_inv [OF n] assms(3) by (intro exI [of _ ?fs]) simp
next
  case False
  let ?s = "set_sem messageAvailable ((semaphores s1 messageAvailable)\<lparr>sem_value := sem_values s1 messageAvailable - 1\<rparr>) s1"
  have v: "kview s' = kview ?s" using assms(5) False by (simp add: tokens_def)
  have V: "worker s' = worker s1" "tokens s' = tokens s1 - 1" "dev_same s' s1"
    using worker_view [OF v] by (simp_all add: worker_def [abs_def] tokens_def dev_same_def)
  note n = netview_same [OF V(3)]
  let ?fs = "[F_Code (PD_receive buf)]"
  have "worker_ok ?fs (tokens s') (full s')" using False assms(1,2) V(2) netview_inv [OF n] by (auto simp: worker_ok_def)
  then show ?thesis using netview_inv [OF n] assms(3,4) V(1) by (intro exI [of _ ?fs]) simp
qed

lemma worker_P:
  assumes "post_inv be addr mails s" "popped_core (F_P messageAvailable old) s s0" "P_loop messageAvailable old s0 = Inr s'"
  shows "post_inv be addr mails s'"
proof -
  let ?u = "currentThread s"
  note W = worker_popped [OF assms(1,2)]
  have cu: "currentThread s0 = ?u" using assms(2) by (simp add: popped_core_def)
  from W(1) obtain buf where b: "worker s0 ?u = [F_Code (PD_receive buf)]" "length buf = MaxPacketSize" "tokens s0 = of_bool (full s0)"
    by (auto simp: worker_ok_def)
  have "worker s0 = (worker s0)(currentThread s0 := [F_Code (PD_receive buf)])" using b(1) cu by (simp add: fun_upd_idem)
  moreover have "net_inv be addr mails [] s0" using W(2) by simp
  ultimately obtain fs where
    "worker s' = (worker s0)(?u := fs)" "worker_ok fs (tokens s') (full s')" "net_inv be addr mails (in_flight fs) s'"
    using P_receive [OF b(2,3) _ _ kv_P_loop [OF assms(3)]] cu by metis
  then show ?thesis by (rule W(3) [rotated]) simp_all
qed

lemma worker_loop:
  assumes "post_inv be addr mails s" "popped_core (F_Code (PD_loop buf)) s s0" "P messageAvailable (push [F_Code (PD_receive buf)] s0) = Inr s'"
  shows "post_inv be addr mails s'"
proof -
  let ?u = "currentThread s" and ?s1 = "push [F_Code (PD_receive buf)] s0"
  note W = worker_popped [OF assms(1,2)]
  have cu: "currentThread s0 = ?u" using assms(2) by (simp add: popped_core_def)
  from W(1) have b: "worker s0 ?u = []" "length buf = MaxPacketSize" "tokens s0 = of_bool (full s0)" by (auto simp: worker_ok_def)
  have n: "netview ?s1 = netview s0" by (intro netview_same) simp
  have "worker ?s1 = (worker s0)(currentThread ?s1 := [F_Code (PD_receive buf)])" using b(1) cu by (simp add: worker_push)
  moreover have "tokens ?s1 = of_bool (full ?s1)" "net_inv be addr mails [] ?s1"
    using b(3) netview_inv [OF n] W(2) by (simp_all add: tokens_def)
  moreover have "currentThread ?s1 = ?u" using cu by simp
  ultimately obtain fs where
    "worker s' = (worker s0)(?u := fs)" "worker_ok fs (tokens s') (full s')" "net_inv be addr mails (in_flight fs) s'"
    using P_receive [OF b(2) _ _ _ kv_P [OF assms(3)]] by metis
  then show ?thesis by (rule W(3) [rotated]) simp_all
qed

lemma worker_append:
  assumes "post_inv be addr mails s" "popped_core (F_Code (Append_body b m)) s s0" "append_body b m s0 = Inr s'"
  shows "post_inv be addr mails s'"
proof -
  let ?u = "currentThread s"
  note W = worker_popped [OF assms(1,2)]
  from W(1) obtain buf where b: "worker s0 ?u = [F_Code (PD_loop buf)]" "length buf = MaxPacketSize" "tokens s0 = of_bool (full s0)"
    by (auto simp: worker_ok_def)
  have "idling s0 (append_body b m s0)" by (auto simp: append_body_def Let_def idle_for_push intro!: idling_ops)
  then have i: "worker s' = worker s0" "tokens s' = tokens s0" using assms(3) by (simp_all add: idling_def idle_for_def)
  have "code_effect (Append_body b m) s0 s'" using exec_effect [of undefined "Append_body b m" s0 s'] assms(3) by simp
  then have D: "hostBE s' = hostBE s0" "network s' = network s0" "appended s' = appended s0 @ [(b, m)]"
    using dev_same_D [of s'] by (auto simp: note_event_def appended_def)
  have f: "full s' = full s0" "buffered s' = buffered s0" by (simp_all add: full_def buffered_def D)
  have "worker s' = (worker s0)(?u := [F_Code (PD_loop buf)])" using b(1) i(1) by (simp add: fun_upd_idem)
  moreover have "worker_ok [F_Code (PD_loop buf)] (tokens s') (full s')" using b(2,3) i(2) f(1) by (auto simp: worker_ok_def)
  moreover have "net_inv be addr mails (in_flight [F_Code (PD_loop buf)]) s'" using W(2) by (cases "full s0") (simp_all add: net_inv_def D f)
  ultimately show ?thesis by (rule W(3) [rotated]) simp_all
qed

text \<open>The worker takes a packet: header and data reach the mail as they were in the packet.\<close>

lemma received_mail:
  assumes "wf_packet be (hdr, bs)" "length buf = MaxPacketSize"
  shows "mail_at be (patch 0 bs buf) = mail_at be bs"
    "take (unat (mail_length (mail_at be bs))) (drop HeaderSize (patch 0 bs buf)) = take (unat (mail_length (mail_at be bs))) (drop HeaderSize bs)"
    "length (patch 0 bs buf) = MaxPacketSize"
  using assms mail_at_take [of bs be "drop (length bs) buf"] by (auto simp: wf_packet_def patch_def)

lemma worker_receive:
  assumes "post_inv be addr mails s" "popped_core (F_Code (PD_receive buf)) s s0" "postalDelivery_receive buf s0 = Inr s'"
  shows "post_inv be addr mails s'"
proof -
  let ?u = "currentThread s"
  note W = worker_popped [OF assms(1,2)]
  have cu: "currentThread s0 = ?u" using assms(2) by (simp add: popped_core_def)
  from W(1) have b: "worker s0 ?u = []" "length buf = MaxPacketSize" "tokens s0 = 0" "full s0" by (auto simp: worker_ok_def)
  let ?hdr = "inHdr (network s0)" and ?n = "network s0"
  define bs where "bs = snd (buffered s0)"
  define buffer where "buffer = patch 0 bs buf"
  let ?mh = "mail_at be bs"
  have wf: "wf_packet be (?hdr, bs)" and be: "hostBE s0 = be" and il: "length (inbox ?n) = MaxPacketSize"
    using W(2) b(4) by (simp_all add: net_inv_def buffered_def bs_def)
  note R = received_mail [OF wf b(2), folded buffer_def]
  let ?x = "s0\<lparr>network := ?n\<lparr>inHdr := ?hdr\<lparr>pkt_length := 0\<rparr>\<rparr>\<rparr>"
  let ?mail = "\<lparr>m_pktHdr = ?hdr, m_mailHdr = ?mh, m_data = take (unat (mail_length ?mh)) (drop HeaderSize bs)\<rparr>"
  let ?b = "nat (sint (mail_to ?mh))"
  have "MailBox_Put ?b ?hdr ?mh (drop HeaderSize buffer) (push [F_Code (PD_loop buffer)] ?x) = Inr s'"
    using assms(3) b(4) R(1) be
    by (auto simp: postalDelivery_receive_def Network_Receive_def Let_def rbind_eq_Inr full_def buffered_def bs_def buffer_def)
  then have a: "Acquire (box_lock ?b) (push [F_Code (Append_body ?b ?mail), F_Code (PD_loop buffer)] ?x) = Inr s'"
    using R(2) by (auto simp: MailBox_Put_def Mail_new_def first_bytes_def rbind_eq_Inr push_push split: if_splits)
  let ?fs = "[F_Code (Append_body ?b ?mail), F_Code (PD_loop buffer)]"
  have i: "idle_for (push ?fs ?x) s'" using idle_for_lock [OF kv_Acquire [OF a]] .
  have x: "worker ?x = worker s0" "tokens ?x = tokens s0" by (simp_all add: worker_def [abs_def] cores_dev tokens_def)
  have "worker s' = (worker s0)(?u := ?fs)" using i b(1) cu x by (simp add: idle_for_def worker_push)
  moreover have "tokens s' = 0" using i b(3) x(2) by (simp add: idle_for_def tokens_def)
  moreover have ds: "dev_same s' ?x" using dev_same_ops(3) [OF a] by simp
  have D: "network s' = network ?x" "hostBE s' = be" "appended s' = appended s0"
    using dev_same_D [OF ds] be by (simp_all add: appended_def)
  have f: "\<not> full s'" by (simp add: full_def D)
  ultimately show ?thesis
  proof (intro W(3) [of s' ?fs])
    show "worker_ok ?fs (tokens s') (full s')" using \<open>tokens s' = 0\<close> f R(3) by (auto simp: worker_ok_def)
    have "mail_of be (buffered s0) = (?b, ?mail)" by (simp add: mail_of_def buffered_def bs_def Let_def)
    then show "net_inv be addr mails (in_flight ?fs) s'" using W(2) b(4) f by (simp add: net_inv_def D il)
  qed simp_all
qed

lemma post_fired:
  assumes "post_inv be addr mails s" and t: "taken h s s1" and f: "dev_fire H h s1 = Inr s2" and v: "kview s' = kview s2"
  shows "post_inv be addr mails s'"
proof -
  have d: "idle_for s s1" "netview s1 = netview s" "netview s' = netview s2" "idle_for s2 s'" "dev_same s1 s" "dev_same s' s2"
    using t v by (auto simp: taken_def idle_for_def worker_def fun_eq_iff tokens_def dev_same_def kview_def intro!: netview_same idle_for_view)
  show ?thesis
  proof (cases "h = NetworkReadPoll")
    case False
    have "idle_for s1 s2" using idling_fire [OF False, of s1 H] f by (simp add: idling_def)
    moreover have "netview s2 = netview s1" using fire_effect_net [OF False fire_has_effect [OF f]] .
    ultimately show ?thesis using d by (intro post_inv_idle [OF _ _ assms(1)]) (auto intro: idle_for_trans)
  next
    case True
    have cong: "arrival s s' = arrival s1 s2"
      using fire_effect_cong [OF d(5,6), of NetworkReadPoll] d(5,6) by (cases s; cases s1; cases s2; cases s') (simp add: arrival_def dev_same_def note_event_def)
    from poll_cases [OF f [unfolded True]] show ?thesis
    proof
      assume "dev_same s2 s1 \<and> idle_for s1 s2"
      then show ?thesis using d netview_same [of s2 s1] by (intro post_inv_idle [OF _ _ assms(1)]) (auto intro: idle_for_trans)
    next
      assume "arrival s1 s2 \<and> worker s2 = worker s1 \<and> tokens s2 = tokens s1 + 1"
      then show ?thesis using d(1,4) cong by (intro arrival_step [OF assms(1)]) (simp_all add: idle_for_def)
    qed
  qed
qed

lemma post_frame:
  assumes "post_inv be addr mails s" and p: "popped_core f s (pop s)" and run: "run_frame (dev_fire H) (dev_exec H) f (pop s) = Inr s'"
  shows "post_inv be addr mails s'"
proof -
  have ps: "dev_same (pop s) s" using p by (simp add: popped_core_def dev_same_def)
  have idle: "post_inv be addr mails s'" if "\<not> wk f" "idling (pop s) (Inr s')" "netview s' = netview (pop s)"
  proof (rule post_inv_idle [OF _ _ assms(1)])
    show "netview s' = netview s" using that(3) netview_same [OF ps] by simp
    have "idle_for s (pop s)" using that(1) p by (auto simp: popped_core_def idle_for_def worker_def fun_eq_iff tokens_def)
    then show "idle_for s s'" using that(2) by (auto intro: idle_for_trans)
  qed
  have calm: "post_inv be addr mails s'" if "r = Inr s'" "\<not> wk f" "idling (pop s) r" "dev_same s' (pop s)" for r
    using that idle netview_same by simp
  show ?thesis
  proof (cases f)
    case (F_Code c)
    with run have r: "dev_exec H c (pop s) = Inr s'" by simp
    show ?thesis
    proof (cases "wk f")
      case True
      then consider buf where "c = PD_loop buf" | buf where "c = PD_receive buf" | b m where "c = Append_body b m"
        using F_Code by (cases c) auto
      then show ?thesis using r p F_Code worker_loop [OF assms(1)] worker_receive [OF assms(1)] worker_append [OF assms(1)] by cases auto
    next
      case False
      with F_Code r show ?thesis using idling_exec [of c "pop s" H] effect_net [OF _ exec_effect [OF r]] by (intro idle) simp_all
    qed
  next
    case (F_P i old)
    with run have r: "P_loop i old (pop s) = Inr s'" by simp
    show ?thesis
    proof (cases "i = messageAvailable")
      case True
      with r p F_P show ?thesis using worker_P [OF assms(1)] by simp
    next
      case False
      then show ?thesis by (intro calm [OF r] idling_ops dev_same_ops(8) [OF r]) (simp_all add: F_P)
    qed
  next
    case (F_Release l)
    with run have r: "Release l (pop s) = Inr s'" by simp
    then show ?thesis by (intro calm [OF r] idling_ops dev_same_ops(9) [OF r]) (simp_all add: F_Release)
  next
    case (F_Acquire l)
    with run have r: "Acquire l (pop s) = Inr s'" by simp
    then show ?thesis by (intro calm [OF r] idling_ops dev_same_ops(3) [OF r]) (simp_all add: F_Acquire)
  next
    case (F_Broadcast cv l)
    with run have r: "Broadcast cv l (pop s) = Inr s'" by simp
    then show ?thesis by (intro calm [OF r] idling_ops dev_same_ops(10) [OF r]) (simp_all add: F_Broadcast)
  qed (use p in \<open>simp_all add: popped_core_def\<close>)
qed

lemma post_step:
  assumes "post_inv be addr mails s" "kernel_step (dev_fire H) (dev_exec H) s = Inr s'"
  shows "post_inv be addr mails s'"
proof (rule step_view [OF assms(2)])
  assume "kview s' = kview s"
  then show ?thesis by (intro post_inv_idle [OF idle_for_view _ assms(1)] netview_same) (simp_all add: dev_same_def kview_def)
qed (use post_fired [OF assms(1)] post_frame [OF assms(1)] in blast)+

text \<open>The start.\<close>

lemma start_others:
  assumes "for_each start_thread tcs s = Inr s'" "start_ok s" "\<forall>(t, c) \<in> set tcs. base (F_Code c) \<and> \<not> wk (F_Code c) \<and> worker s t = []"
  shows "start_ok s' \<and> worker s' = worker s \<and> kernel.more s' = kernel.more s"
  using assms
proof (induction tcs arbitrary: s)
  case (Cons tc tcs)
  obtain t c where tc: "tc = (t, c)" by fastforce
  with Cons.prems obtain s1 where s1: "start_thread (t, c) s = Inr s1" "for_each start_thread tcs s1 = Inr s'" by (auto simp: rbind_eq_Inr)
  have c: "base (F_Code c)" "\<not> wk (F_Code c)" "worker s t = []" using Cons.prems(3) tc by auto
  note S = start_thread_ok [OF Cons.prems(2) c(1) s1(1)]
  have "worker s1 = worker s" using c(2,3) by (auto simp: worker_def fun_eq_iff S(2))
  then show ?case using Cons.IH [OF s1(2) S(1)] Cons.prems(3) S(3) by simp
qed simp

lemma post_start:
  assumes "dev_start H sp be r name addr rel n input arriving main progs = Inr s" "list_all2 (sent_mail be addr) arriving mails"
  shows "post_inv be addr mails s"
proof -
  let ?buf = "map (h_junk H) [0..<MaxPacketSize]"
  obtain s3 where st: "for_each start_thread (zip [1..<2 + length progs] (PD_loop ?buf # map Prog progs)) s3 = Inr s"
    and ok: "start_ok s3" and cs: "cores s3 = (\<lambda>_. [])(0 := [F_Code (Prog main)])" and be: "hostBE s3 = be"
    and nt: "net_ident (network s3) = addr" "pkt_length (inHdr (network s3)) = 0" "inbox (network s3) = ?buf" "sock (network s3) = arriving"
    using dev_start_devices [OF assms(1)] by metis
  have "[1..<2 + length progs] = 1 # [2..<2 + length progs]" by (simp add: upt_rec numeral_2_eq_2)
  with st obtain s4 where s4: "start_thread (1, PD_loop ?buf) s3 = Inr s4"
    and s: "for_each start_thread (zip [2..<2 + length progs] (map Prog progs)) s4 = Inr s" by (auto simp: rbind_eq_Inr)
  note S = start_thread_ok [OF ok _ s4]
  have w4: "worker s4 = (\<lambda>_. [])(1 := [F_Code (PD_loop ?buf)])" using S(2) by (auto simp: worker_def fun_eq_iff cs)
  have "\<forall>(t, c) \<in> set (zip [2..<2 + length progs] (map Prog progs)). base (F_Code c) \<and> \<not> wk (F_Code c) \<and> worker s4 t = []"
  proof (rule ballI, rule case_prodI2)
    fix tc t c
    assume "tc \<in> set (zip [2..<2 + length progs] (map Prog progs))" "tc = (t, c)"
    then have "t \<in> set [2..<2 + length progs]" "c \<in> set (map Prog progs)" by (auto dest: set_zip_leftD set_zip_rightD)
    then show "base (F_Code c) \<and> \<not> wk (F_Code c) \<and> worker s4 t = []" by (auto simp: w4)
  qed
  from start_others [OF s _ this] S have so: "start_ok s" "worker s = worker s4" "dev_same s s3" by (simp_all add: dev_same_def)
  note D = dev_same_D [OF so(3)]
  have h: "history s = []" "tokens s = 0" using so(1) by (simp_all add: start_ok_def tokens_def)
  have f: "\<not> full s" using nt by (simp add: full_def D)
  have "net_inv be addr mails [] s"
    unfolding net_inv_def using f nt be assms(2) h by (auto simp: D appended_def intro!: exI [of _ 0])
  moreover have "worker_ok (worker s 1) (tokens s) (full s)" using f h by (auto simp: so w4 worker_ok_def)
  ultimately show ?thesis unfolding post_inv_def by (intro exI [of _ 1]) (simp add: so w4)
qed

section \<open>Mail boxes are queues\<close>

definition box_of :: "nat \<Rightarrow> (nat \<times> Mail) list \<Rightarrow> Mail list" where
  "box_of b xs = map snd (filter (\<lambda>(b', _). b' = b) xs)"

definition boxes_ok :: "dev \<Rightarrow> bool" where
  "boxes_ok s \<longleftrightarrow> (\<forall>b. box_of b (appended s) = box_of b (removed s) @ boxes s b)"

lemma boxes_ok_same: "dev_same s' s \<Longrightarrow> boxes_ok s' = boxes_ok s"
  using dev_same_D [of s' s] by (simp add: boxes_ok_def appended_def removed_def)

lemma boxes_ok_updates [simp]:
  "boxes_ok (s\<lparr>con := x1\<rparr>) = boxes_ok s" "boxes_ok (s\<lparr>disk := x2\<rparr>) = boxes_ok s" "boxes_ok (s\<lparr>network := x3\<rparr>) = boxes_ok s"
  "appended1 e = [] \<Longrightarrow> removed1 e = [] \<Longrightarrow> boxes_ok (note_event e s) = boxes_ok s"
  by (simp_all add: boxes_ok_def appended_def removed_def note_event_def)

lemma boxes_ok_append: "boxes_ok s \<Longrightarrow> boxes_ok (note_event (E_Appended b m) (s\<lparr>boxes := (boxes s)(b := boxes s b @ [m])\<rparr>))"
  by (auto simp: boxes_ok_def appended_def removed_def note_event_def box_of_def)

lemma boxes_ok_remove: "boxes_ok s \<Longrightarrow> boxes s b = m # ms \<Longrightarrow> boxes_ok (note_event (E_Removed b m) (s\<lparr>boxes := (boxes s)(b := ms)\<rparr>))"
  by (auto simp: boxes_ok_def appended_def removed_def note_event_def box_of_def)

lemma boxes_ok_effect: "code_effect c s s' \<Longrightarrow> boxes_ok s \<Longrightarrow> boxes_ok s'"
  by (cases c) (auto intro: boxes_ok_append boxes_ok_remove dest!: boxes_ok_same split: if_splits list.splits)

lemma boxes_ok_fire: "fire_effect h s s' \<Longrightarrow> boxes_ok s \<Longrightarrow> boxes_ok s'"
  by (cases h) (auto dest!: boxes_ok_same)

lemma boxes_step:
  assumes "kernel_step (dev_fire H) (dev_exec H) s = Inr s'" "boxes_ok s"
  shows "boxes_ok s'"
  using assms(1) by (rule step_effect) (use assms(2) boxes_ok_same boxes_ok_effect boxes_ok_fire in blast)+

lemma mail_reachable:
  assumes "reachable (dev_fire H) (dev_exec H) s0 s" "post_inv be addr mails s0" "start_ok s0"
  shows "post_inv be addr mails s \<and> boxes_ok s"
  using assms
proof (induction rule: reachable.induct)
  case start
  then show ?case by (simp add: boxes_ok_def start_ok_def appended_def removed_def box_of_def)
next
  case (step s s')
  then show ?case using post_step boxes_step by blast
qed

section \<open>Delivery\<close>

definition delivering :: "dev \<Rightarrow> bool" where
  "delivering s \<longleftrightarrow> (\<exists>u b m. F_Code (Append_body b m) \<in> set (t_frames (threads s u)))"

lemma in_flight_delivering:
  assumes "\<forall>u. u \<noteq> w \<longrightarrow> worker s u = []" "worker_ok (worker s w) v b"
  shows "length (in_flight (worker s w)) = of_bool (delivering s)"
proof -
  have "F_Code (Append_body n m) \<in> set (t_frames (threads s u)) \<longleftrightarrow> F_Code (Append_body n m) \<in> set (worker s u)" for n m u
    by (simp add: worker_def cores_def)
  then have "delivering s \<longleftrightarrow> (\<exists>n m. F_Code (Append_body n m) \<in> set (worker s w))"
    unfolding delivering_def using assms(1) by (metis in_set_replicate replicate_0)
  then show ?thesis using assms(2) by (auto simp: worker_ok_def)
qed

lemma post_inv_delivered:
  assumes "post_inv be addr mails s"
  shows "appended s = take (length mails - length (sock (network s)) - of_bool (full s) - of_bool (delivering s)) mails"
    "length (sock (network s)) \<le> length mails"
proof -
  from assms obtain w k where w: "\<forall>u. u \<noteq> w \<longrightarrow> worker s u = []" "worker_ok (worker s w) (tokens s) (full s)"
    and k: "list_all2 (sent_mail be addr) (sock (network s)) (drop k mails)"
    "appended s @ in_flight (worker s w) @ (if full s then [mail_of be (buffered s)] else []) = take k mails"
    by (auto simp: post_inv_def net_inv_def)
  have n: "length (sock (network s)) = length mails - k" using list_all2_lengthD [OF k(1)] by simp
  then show "length (sock (network s)) \<le> length mails" by simp
  have l: "length (appended s) = min k (length mails) - of_bool (full s) - of_bool (delivering s)"
    using arg_cong [OF k(2), of length] in_flight_delivering [OF w] by auto
  have "appended s = take (length (appended s)) (take k mails)" by (simp add: k(2) [symmetric])
  moreover have "length (appended s) \<le> k" using l by simp
  ultimately have "appended s = take (length (appended s)) mails" by (simp add: min_absorb1)
  moreover have "length (appended s) = length mails - length (sock (network s)) - of_bool (full s) - of_bool (delivering s)"
    unfolding l n by (simp add: min_def)
  ultimately show "appended s = take (length mails - length (sock (network s)) - of_bool (full s) - of_bool (delivering s)) mails" by metis
qed

definition demo_mail :: Mail where
  "demo_mail = \<lparr>m_pktHdr = \<lparr>pkt_to = 5, pkt_from = 7, pkt_length = 15\<rparr>,
     m_mailHdr = \<lparr>mail_to = 2, mail_from = 1, mail_length = 3\<rparr>, m_data = [97, 98, 99]\<rparr>"

definition demo_datagram :: bytes where
  "demo_datagram = projr (packet True (\<lambda>_. 0) (m_pktHdr demo_mail) (mail_bytes True (m_mailHdr demo_mail) @ m_data demo_mail))"

definition mail_demo_start :: "dev result" where
  "mail_demo_start = dev_start dev_demo_host demo_spaces True False (Some (host_store32 True 0 MagicNumber (\<lambda>_. 0))) 5 1 10 [] [demo_datagram]
     [D_Receive 2] []"

definition mail_demo :: "nat \<Rightarrow> dev" where
  "mail_demo n = projr (rbind mail_demo_start (steps (dev_fire dev_demo_host) (dev_exec dev_demo_host) n))"

lemma demo_datagram_sent: "sent_mail True 5 demo_datagram (2, demo_mail)"
  unfolding sent_mail_def
proof (intro exI conjI)
  let ?p = "\<lparr>pkt_to = 5, pkt_from = 0, pkt_length = 0\<rparr>" and ?m = "m_mailHdr demo_mail" and ?bs = "m_data demo_mail"
  show "unat (mail_length ?m) \<le> MaxMailSize" by code_simp
  show "pkt_to ?p = 5" by simp
  show "post_packet True 7 ?p ?m ?bs = Inr (m_pktHdr demo_mail, mail_bytes True ?m @ ?bs)" by code_simp
  show "packet True (\<lambda>_. 0) (m_pktHdr demo_mail) (mail_bytes True ?m @ ?bs) = Inr demo_datagram" by code_simp
  show "(2, demo_mail) = (nat (sint (mail_to ?m)), \<lparr>m_pktHdr = m_pktHdr demo_mail, m_mailHdr = ?m, m_data = take (unat (mail_length ?m)) ?bs\<rparr>)"
    by code_simp
qed

text \<open>C8. Mail delivery, from the socket on. The network is unreliable: what \<open>Network::Send\<close> drops never arrives, and this says
  nothing about it. If the datagrams that do arrive at the machine's socket are mails that the post offices of other machines
  (or of this one) have sent to it, then in every reachable state the mails that the postal worker has put into the mail boxes
  are exactly the arriving ones, in their order, each in the box it was addressed to, with the headers and the data it was sent
  with, less those still in the socket, the one in the network's buffer (when its length is not zero) and the one that the
  worker has taken and is about to append. Each box is a first-in first-out queue: the mails that have been appended to it are
  those that have been removed from it, in the same order, followed by its contents.\<close>

theorem mail_delivered_in_order:
  assumes "dev_start H sp be r name addr rel n input arriving main progs = Inr s0" "reachable (dev_fire H) (dev_exec H) s0 s"
    "list_all2 (sent_mail be addr) arriving mails"
  shows "length (sock (network s)) \<le> length mails
    \<and> appended s = take (length mails - length (sock (network s)) - of_bool (pkt_length (inHdr (network s)) \<noteq> 0) - of_bool (delivering s)) mails
    \<and> (\<forall>b. box_of b (appended s) = box_of b (removed s) @ boxes s b)"
proof -
  have "post_inv be addr mails s \<and> boxes_ok s"
    by (rule mail_reachable [OF assms(2) post_start [OF assms(1,3)] dev_start_ok [OF assms(1)]])
  then show ?thesis using post_inv_delivered [of be addr mails s] by (simp add: boxes_ok_def full_def)
qed

lemma mail_demo_runs: "\<not> isl (rbind mail_demo_start (steps (dev_fire dev_demo_host) (dev_exec dev_demo_host) 4))"
  by code_simp

theorem mail_delivered_in_order_witness:
  "length (sock (network (mail_demo 4))) = 1 \<and> appended (mail_demo 4) = []"
proof -
  obtain s0 where s0: "mail_demo_start = Inr s0" "reachable (dev_fire dev_demo_host) (dev_exec dev_demo_host) s0 (mail_demo 4)"
    unfolding mail_demo_def by (rule run_reachable [OF mail_demo_runs])
  have "length (sock (network (mail_demo 4))) = 1" by code_simp
  with mail_delivered_in_order [OF s0(1) [unfolded mail_demo_start_def] s0(2), of "[(2, demo_mail)]"] demo_datagram_sent show ?thesis by simp
qed

end
