(* ===== verification/Airport_State.thy ===== *)
theory Airport_State
  imports Kernel_Frames
begin

text \<open>
  The airport simulation of \<open>threads/threadtest.cc\<close> and \<open>threads/threadtest.h\<close>: its data, the constructors of its
  agents and the functions that set it up. The agents' work is in theory \<open>Airport\<close>.

  A global variable or array of the program is a field of the record \<open>airport\<close> under its own name; an array of
  pointers to agents, or a vector of them, is the array of the agents. Indices, names and sizes are natural numbers: an
  index read from memory that was never written may be beyond every array, which stands for a negative one too. Lines,
  counts and weights are integers. The locks and conditions are objects of the kernel (theory \<open>Kernel\<close>); the numbers
  below are their addresses.
\<close>

section \<open>Constants\<close>

definition BAGGAGE_COUNT :: nat where "BAGGAGE_COUNT = 2"
definition BAGGAGE_WEIGHT :: int where "BAGGAGE_WEIGHT = 30"
definition AIRLINE_COUNT :: nat where "AIRLINE_COUNT = 5"
definition CHECKIN_COUNT :: nat where "CHECKIN_COUNT = 5"
definition AIRLINE_SEAT :: nat where "AIRLINE_SEAT = 50"
definition LIAISONLINE_COUNT :: nat where "LIAISONLINE_COUNT = 7"
definition SCREEN_COUNT :: nat where "SCREEN_COUNT = 5"
definition MAX_PASSENGERS :: nat where "MAX_PASSENGERS = 1000"
definition MAX_AIRLINES :: nat where "MAX_AIRLINES = 5"
definition MAX_CARGOHANDLERS :: nat where "MAX_CARGOHANDLERS = 10"

section \<open>Locks and conditions\<close>

definition liaisonLineLock :: nat where "liaisonLineLock = 0"
definition CheckInLock :: nat where "CheckInLock = 1"
definition ScreenLines :: nat where "ScreenLines = 2"
definition seatLock :: nat where "seatLock = 3"
definition BaggageLock :: nat where "BaggageLock = 4"
definition SecurityAvail :: nat where "SecurityAvail = 5"
definition SecurityLines :: nat where "SecurityLines = 6"
definition CargoHandlerLock :: nat where "CargoHandlerLock = 7"
definition liaisonLineLocks :: "nat \<Rightarrow> nat" where "liaisonLineLocks i = 8 + 6 * i"
definition CheckInLocks :: "nat \<Rightarrow> nat" where "CheckInLocks i = 9 + 6 * i"
definition ScreenLocks :: "nat \<Rightarrow> nat" where "ScreenLocks i = 10 + 6 * i"
definition SecurityLocks :: "nat \<Rightarrow> nat" where "SecurityLocks i = 11 + 6 * i"
definition AirlineBaggage :: "nat \<Rightarrow> nat" where "AirlineBaggage i = 12 + 6 * i"
definition gateLocks :: "nat \<Rightarrow> nat" where "gateLocks i = 13 + 6 * i"

definition CargoHandlerCV :: nat where "CargoHandlerCV = 0"
definition liaisonLineCV :: "nat \<Rightarrow> nat" where "liaisonLineCV i = 1 + 10 * i"
definition liaisonOfficerCV :: "nat \<Rightarrow> nat" where "liaisonOfficerCV i = 2 + 10 * i"
definition CheckInCV :: "nat \<Rightarrow> nat" where "CheckInCV i = 3 + 10 * i"
definition CheckInOfficerCV :: "nat \<Rightarrow> nat" where "CheckInOfficerCV i = 4 + 10 * i"
definition CheckInBreakCV :: "nat \<Rightarrow> nat" where "CheckInBreakCV i = 5 + 10 * i"
definition ScreenLineCV :: "nat \<Rightarrow> nat" where "ScreenLineCV i = 6 + 10 * i"
definition ScreenOfficerCV :: "nat \<Rightarrow> nat" where "ScreenOfficerCV i = 7 + 10 * i"
definition SecurityOfficerCV :: "nat \<Rightarrow> nat" where "SecurityOfficerCV i = 8 + 10 * i"
definition SecurityLineCV :: "nat \<Rightarrow> nat" where "SecurityLineCV i = 9 + 10 * i"
definition gateLocksCV :: "nat \<Rightarrow> nat" where "gateLocksCV i = 10 + 10 * i"

section \<open>Data\<close>

record Baggage =
  airlineCode :: nat
  weight :: int

record LiaisonPassengerInfo =
  lp_baggageCount :: nat
  lp_airline :: nat
  lp_passengerName :: nat

record CheckInPassengerInfo =
  cp_baggageCount :: nat
  cp_passenger :: nat
  cp_IsEconomy :: bool
  cp_seat :: int
  cp_gate :: nat
  cp_line :: nat
  cp_bag :: "Baggage list"

record ScreenPassengerInfo =
  sp_passenger :: nat
  sp_SecurityOfficer :: nat

record SecurityPassengerInfo =
  sep_PassedSecurity :: bool
  sep_questioning :: bool
  sep_passenger :: nat

record Passenger =
  NotTerrorist :: bool
  pa_gate :: nat
  pa_name :: nat
  pa_seat :: int
  pa_airline :: nat
  economy :: bool
  myLine :: nat
  pa_baggageCount :: nat
  pa_bags :: "Baggage list"

record LiaisonOfficer =
  li_airline :: nat
  li_number :: nat
  li_passengerCount :: int
  li_airlineBaggageCount :: "nat \<Rightarrow> int"

record CheckInOfficer =
  totalBags :: "Baggage list"
  OnBreak :: bool
  ci_number :: nat
  ci_passengerCount :: int
  ci_bags :: "Baggage list"
  ci_airline :: nat
  ci_work :: bool

record CargoHandler =
  ca_name :: nat
  onBreak :: bool
  ca_weight :: "nat \<Rightarrow> int"
  ca_count :: "nat \<Rightarrow> int"

record AirportManager =
  CargoHandlerTotalWeight :: "nat \<Rightarrow> int"
  CargoHandlerTotalCount :: "nat \<Rightarrow> int"
  CIOTotalCount :: "nat \<Rightarrow> int"
  CIOTotalWeight :: "nat \<Rightarrow> int"
  LiaisonTotalCount :: "nat \<Rightarrow> int"
  liaisonPassengerCount :: int
  checkInPassengerCount :: int
  securityPassengerCount :: int

record ScreeningOfficer =
  IsBusy :: bool
  ScreenPass :: bool
  sc_number :: nat

record SecurityOfficer =
  PassedPassengers :: int
  didPassScreening :: bool
  SecurityPass :: bool
  TotalPass :: bool
  sec_number :: nat

record airport =
  simNumOfPassengers :: nat
  simNumOfAirlines :: nat
  simNumOfLiaisons :: nat
  simNumOfCIOs :: nat
  simNumOfCargoHandlers :: nat
  simNumOfScreeningOfficers :: nat
  planeCount :: nat
  gates :: "nat \<Rightarrow> nat"
  ScreeningResult :: "nat \<Rightarrow> bool"
  liaisonOfficers :: "nat \<Rightarrow> LiaisonOfficer"
  CheckIn :: "nat \<Rightarrow> CheckInOfficer"
  Security :: "nat \<Rightarrow> SecurityOfficer"
  Screen :: "nat \<Rightarrow> ScreeningOfficer"
  cargoHandlers :: "nat \<Rightarrow> CargoHandler"
  simPassengers :: "nat \<Rightarrow> Passenger"
  simAirportManager :: AirportManager
  LPInfo :: "nat \<Rightarrow> LiaisonPassengerInfo"
  CPInfo :: "nat \<Rightarrow> CheckInPassengerInfo"
  SPInfo :: "nat \<Rightarrow> ScreenPassengerInfo"
  SecPInfo :: "nat \<Rightarrow> SecurityPassengerInfo"
  conveyor :: "Baggage list"
  aircraftBaggageCount :: "nat \<Rightarrow> int"
  aircraftBaggageWeight :: "nat \<Rightarrow> int"
  boardingLounges :: "nat \<Rightarrow> int"
  totalPassengersOfAirline :: "nat \<Rightarrow> int"
  totalBaggage :: "nat \<Rightarrow> int"
  totalWeight :: "nat \<Rightarrow> int"
  ticketsIssued :: "nat \<Rightarrow> int"
  liaisonBaggageCount :: "nat \<Rightarrow> int"
  alreadyBoarded :: "nat \<Rightarrow> bool"
  execLineNeedsHelp :: "nat \<Rightarrow> bool"
  SecurityAvailability :: "nat \<Rightarrow> bool"
  liaisonLine :: "nat \<Rightarrow> int"
  CheckInLine :: "nat \<Rightarrow> int"
  SecurityLine :: "nat \<Rightarrow> int"
  ScreenLine :: "nat \<Rightarrow> int"
  rand_pos :: nat


text \<open>A pointer that is null or an index outside an array is undefined behaviour.\<close>

definition valid :: "bool \<Rightarrow> unit result" where
  "valid c = (if c then Inr () else Inl Undefined)"

lemma valid_simps [simp]: "valid c = Inr u \<longleftrightarrow> c" "valid True = Inr ()" "valid False = Inl Undefined"
  by (simp_all add: valid_def)

text \<open>\<open>R k\<close> is the value of the \<open>k\<close>-th call of \<open>rand()\<close>.\<close>

definition rand :: "(nat \<Rightarrow> nat) \<Rightarrow> airport \<Rightarrow> nat \<times> airport" where
  "rand R a = (R (rand_pos a), a\<lparr>rand_pos := Suc (rand_pos a)\<rparr>)"

text \<open>The elements of an array below \<open>n\<close> are set: to a value, to a value of the index, to a value of the index and of what is there.\<close>

definition fill_with :: "nat \<Rightarrow> 'v \<Rightarrow> (nat \<Rightarrow> 'v) \<Rightarrow> nat \<Rightarrow> 'v" where
  "fill_with n v f i = (if i < n then v else f i)"

definition number :: "nat \<Rightarrow> (nat \<Rightarrow> 'v) \<Rightarrow> (nat \<Rightarrow> 'v) \<Rightarrow> nat \<Rightarrow> 'v" where
  "number n v f i = (if i < n then v i else f i)"

definition number_from :: "nat \<Rightarrow> nat \<Rightarrow> (nat \<Rightarrow> 'v) \<Rightarrow> (nat \<Rightarrow> 'v) \<Rightarrow> nat \<Rightarrow> 'v" where
  "number_from m n v f i = (if m \<le> i \<and> i < n then v i else f i)"

definition remake :: "nat \<Rightarrow> (nat \<Rightarrow> 'v \<Rightarrow> 'v) \<Rightarrow> (nat \<Rightarrow> 'v) \<Rightarrow> nat \<Rightarrow> 'v" where
  "remake n v f i = (if i < n then v i (f i) else f i)"

section \<open>Constructors\<close>

text \<open>The members that a constructor does not write keep what is in the memory that \<open>new\<close> returns, the
  argument \<open>junk\<close>.\<close>

definition Passenger_bags :: "(nat \<Rightarrow> nat) \<Rightarrow> nat \<Rightarrow> nat \<Rightarrow> Baggage list" where
  "Passenger_bags R k n = map (\<lambda>i. \<lparr>airlineCode = 0, weight = int (R (k + i) mod 31) + BAGGAGE_WEIGHT\<rparr>) [0..<n]"

definition Passenger_new :: "(nat \<Rightarrow> nat) \<Rightarrow> nat \<Rightarrow> airport \<Rightarrow> airport" where
  "Passenger_new R n a =
     (let (r, a) = rand R a; eco = (r mod 3 \<noteq> 1);
          (r, a) = rand R a; k = r mod 2 + BAGGAGE_COUNT
      in a\<lparr>simPassengers := (simPassengers a)(n := (simPassengers a n)\<lparr>pa_name := n, economy := eco,
             pa_baggageCount := k, pa_bags := Passenger_bags R (rand_pos a) k\<rparr>), rand_pos := rand_pos a + k\<rparr>)"

definition LiaisonOfficer_new :: "nat \<Rightarrow> nat \<Rightarrow> LiaisonOfficer \<Rightarrow> LiaisonOfficer" where
  "LiaisonOfficer_new airlines i junk = junk\<lparr>li_passengerCount := 0, li_number := i,
     li_airlineBaggageCount := fill_with airlines 0 (li_airlineBaggageCount junk)\<rparr>"

definition CheckInOfficer_new :: "nat \<Rightarrow> nat \<Rightarrow> CheckInOfficer" where
  "CheckInOfficer_new cios i = \<lparr>totalBags = [], OnBreak = False, ci_number = i, ci_passengerCount = 0, ci_bags = [],
     ci_airline = i div cios, ci_work = True\<rparr>"

definition CargoHandler_new :: "nat \<Rightarrow> nat \<Rightarrow> CargoHandler \<Rightarrow> CargoHandler" where
  "CargoHandler_new airlines n junk = junk\<lparr>ca_name := n,
     ca_weight := fill_with airlines 0 (ca_weight junk), ca_count := fill_with airlines 0 (ca_count junk)\<rparr>"

definition AirportManager_new :: "nat \<Rightarrow> AirportManager \<Rightarrow> AirportManager" where
  "AirportManager_new airlines junk =
     \<lparr>CargoHandlerTotalWeight = fill_with airlines 0 (CargoHandlerTotalWeight junk), CargoHandlerTotalCount = fill_with airlines 0 (CargoHandlerTotalCount junk),
       CIOTotalCount = fill_with airlines 0 (CIOTotalCount junk), CIOTotalWeight = fill_with airlines 0 (CIOTotalWeight junk),
       LiaisonTotalCount = fill_with airlines 0 (LiaisonTotalCount junk),
       liaisonPassengerCount = 0, checkInPassengerCount = 0, securityPassengerCount = 0\<rparr>"

section \<open>Setting up\<close>

text \<open>The functions called by \<open>setup\<close>, without the \<open>new Lock\<close> and \<open>new Condition\<close> in them: these objects
  are in their constructed state when the simulation starts.\<close>

definition createAirportManager :: "airport \<Rightarrow> airport" where
  "createAirportManager a = a\<lparr>simAirportManager := AirportManager_new (simNumOfAirlines a) (simAirportManager a)\<rparr>"

definition setupAirlines :: "nat \<Rightarrow> airport \<Rightarrow> airport result" where
  "setupAirlines n a = rbind (valid (n \<le> MAX_AIRLINES \<and> simNumOfAirlines a \<noteq> 0)) (\<lambda>_.
     let each = int (simNumOfPassengers a div simNumOfAirlines a);
         more = int (simNumOfPassengers a mod simNumOfAirlines a);
         total = fill_with n each (totalPassengersOfAirline a) in
     Inr (a\<lparr>CheckInLine := fill_with (CHECKIN_COUNT * AIRLINE_COUNT + AIRLINE_COUNT) 0 (CheckInLine a),
        liaisonLine := fill_with LIAISONLINE_COUNT 0 (liaisonLine a),
        SecurityAvailability := fill_with SCREEN_COUNT True (SecurityAvailability a),
        SecurityLine := fill_with SCREEN_COUNT 0 (SecurityLine a), ScreenLine := fill_with SCREEN_COUNT 0 (ScreenLine a),
        gates := number n id (gates a), boardingLounges := fill_with n 0 (boardingLounges a),
        totalPassengersOfAirline := (if more > 0 then total(0 := total 0 + more) else total),
        aircraftBaggageCount := fill_with n 0 (aircraftBaggageCount a), aircraftBaggageWeight := fill_with n 0 (aircraftBaggageWeight a),
        execLineNeedsHelp := fill_with n True (execLineNeedsHelp a), ScreeningResult := fill_with (n * AIRLINE_SEAT) True (ScreeningResult a)\<rparr>))"

definition setupEconomyCIOs :: "airport \<Rightarrow> airport result" where
  "setupEconomyCIOs a = (let n = simNumOfAirlines a * simNumOfCIOs a in
     rbind (valid (n \<le> CHECKIN_COUNT * AIRLINE_COUNT)) (\<lambda>_.
     Inr (a\<lparr>CheckInLine := fill_with n 0 (CheckInLine a),
            CheckIn := number n (CheckInOfficer_new (simNumOfCIOs a)) (CheckIn a)\<rparr>)))"

text \<open>The array \<open>CheckInLocks\<close> has \<open>CHECKIN_COUNT*AIRLINE_COUNT\<close> elements.\<close>

definition setupExecutiveCIOs :: "airport \<Rightarrow> airport result" where
  "setupExecutiveCIOs a = (let n = simNumOfAirlines a * simNumOfCIOs a; m = n + simNumOfAirlines a in
     rbind (valid (m \<le> CHECKIN_COUNT * AIRLINE_COUNT)) (\<lambda>_.
     Inr (a\<lparr>CheckInLine := number_from n m (\<lambda>_. 0) (CheckInLine a),
            CheckIn := number_from n m (CheckInOfficer_new (simNumOfCIOs a)) (CheckIn a)\<rparr>)))"

definition createCIOs :: "airport \<Rightarrow> airport" where
  "createCIOs a = a\<lparr>CheckIn := number (simNumOfAirlines a * simNumOfCIOs a) (CheckInOfficer_new (simNumOfCIOs a)) (CheckIn a)\<rparr>"

definition createLiaisons :: "nat \<Rightarrow> airport \<Rightarrow> airport result" where
  "createLiaisons n a = rbind (valid (n \<le> LIAISONLINE_COUNT)) (\<lambda>_.
     Inr (a\<lparr>liaisonLine := fill_with n 0 (liaisonLine a),
            liaisonOfficers := remake n (LiaisonOfficer_new (simNumOfAirlines a)) (liaisonOfficers a)\<rparr>))"

definition createCargoHandlers :: "nat \<Rightarrow> airport \<Rightarrow> airport" where
  "createCargoHandlers n a = a\<lparr>cargoHandlers := remake n (CargoHandler_new (simNumOfAirlines a)) (cargoHandlers a)\<rparr>"

definition createPassengers :: "(nat \<Rightarrow> nat) \<Rightarrow> nat \<Rightarrow> airport \<Rightarrow> airport" where
  "createPassengers R n a = fold (Passenger_new R) [0..<n] a"

text \<open>The part of \<open>setup\<close> before \<open>createSecurityAndScreen\<close>, whose constructors call the kernel.\<close>

definition setup_before :: "airport \<Rightarrow> airport result" where
  "setup_before a =
     rbind (setupAirlines (simNumOfAirlines a) (createAirportManager a)) (\<lambda>a.
     rbind (setupEconomyCIOs a) (\<lambda>a.
     rbind (setupExecutiveCIOs a) (\<lambda>a.
     createLiaisons (simNumOfLiaisons a) (createCIOs a))))"

text \<open>The part after it.\<close>

definition setup_after :: "(nat \<Rightarrow> nat) \<Rightarrow> airport \<Rightarrow> airport" where
  "setup_after R a = createPassengers R (simNumOfPassengers a) (createCargoHandlers (simNumOfCargoHandlers a) a)"

text \<open>The memory at the start of the program: the static variables are zero, the vectors and the queue are empty, and the
  rest (\<open>junk\<close>) is arbitrary.\<close>

definition airport_memory :: "airport \<Rightarrow> airport" where
  "airport_memory junk = junk\<lparr>planeCount := 0, gates := (\<lambda>_. 0), ScreeningResult := (\<lambda>_. False),
     CPInfo := cp_bag_update (\<lambda>_. []) \<circ> CPInfo junk, conveyor := [],
     aircraftBaggageCount := (\<lambda>_. 0), aircraftBaggageWeight := (\<lambda>_. 0), boardingLounges := (\<lambda>_. 0),
     totalPassengersOfAirline := (\<lambda>_. 0), totalBaggage := (\<lambda>_. 0), totalWeight := (\<lambda>_. 0), ticketsIssued := (\<lambda>_. 0),
     liaisonBaggageCount := (\<lambda>_. 0), alreadyBoarded := (\<lambda>_. False), execLineNeedsHelp := (\<lambda>_. False),
     SecurityAvailability := (\<lambda>_. False), liaisonLine := (\<lambda>_. 0), CheckInLine := (\<lambda>_. 0), SecurityLine := (\<lambda>_. 0),
     ScreenLine := (\<lambda>_. 0), rand_pos := 0\<rparr>"

end
