(* ===== verification/Airport.thy ===== *)
theory Airport
  imports Airport_State
begin

text \<open>
  The work of the agents of \<open>threads/threadtest.cc\<close>: passengers, liaisons, check-in officers, cargo handlers, screening
  and security officers and the airport manager, each a thread of the kernel.

  Interrupts happen only when the kernel enables them, so the code between two calls of the kernel is one piece. A method
  is a function of the place in the code: it gives what the thread does next, a list of calls of the kernel and the place
  where the code goes on after them, and the data. Local variables that live across a call are arguments of the place.
  Output is left out. The calls themselves are run by the kernel of theory \<open>Kernel\<close>.
\<close>

section \<open>Calls and places\<close>

datatype acall = K_Acquire nat | K_Release nat | K_Wait nat nat | K_Signal nat nat | K_Broadcast nat nat | K_Yield

text \<open>\<open>Passenger::ChooseLiaisonLine\<close>, from the liaison to the gate.\<close>

datatype pa_liaison_pc = Pa_start | Pa_line | Pa_tell | Pa_airline
datatype pa_checkin_pc = Pa_checkin | Pa_officers nat | Pa_called | Pa_counter | Pa_informed
datatype pa_screening_pc = Pa_screen | Pa_look bool | Pa_scan bool | Pa_pick bool | Pa_name | Pa_sent | Pa_leave nat
datatype pa_security_pc = Pa_security | Pa_hello | Pa_verdict | Pa_passed | Pa_next | Pa_back | Pa_again | Pa_retell | Pa_cleared

datatype passenger_pc = With_Liaison pa_liaison_pc | At_CheckIn pa_checkin_pc | At_Screening pa_screening_pc
  | At_Security pa_security_pc | At_Gate

datatype liaison_pc = Li_loop | Li_check | Li_serve | Li_pick | Li_assign | Li_idle

datatype checkin_pc = Ci_loop | Ci_check | Ci_exec | Ci_take bool | Ci_bags bool | Ci_drop nat | Ci_push nat | Ci_note nat

datatype cargo_pc = Ca_loop | Ca_take | Ca_load Baggage

datatype manager_pc = Mg_loop | Mg_breaks | Mg_board nat | Mg_boarded nat | Mg_plane nat | Mg_check | Mg_end

datatype screening_pc = Sc_loop | Sc_open | Sc_judge | Sc_find nat bool | Sc_ask nat

datatype security_pc = Se_loop | Se_line | Se_judge

datatype setup_pc = St_start | St_security nat | St_avail nat | St_passed nat | St_busy nat | St_rest

datatype acode =
    A_Call acall
  | A_New tid acode
  | A_Setup setup_pc
  | A_Passenger nat passenger_pc
  | A_Liaison nat liaison_pc
  | A_CheckIn nat checkin_pc
  | A_Cargo nat cargo_pc
  | A_Manager manager_pc
  | A_Screening nat screening_pc
  | A_Security nat security_pc

type_synonym piece = "(acode list \<times> airport) result"

text \<open>The calls \<open>cs\<close>, then the code \<open>next\<close>.\<close>

definition go :: "acall list \<Rightarrow> acode list \<Rightarrow> airport \<Rightarrow> piece" where
  "go cs next a = Inr (map A_Call cs @ next, a)"

section \<open>Passengers\<close>

definition set_passenger :: "nat \<Rightarrow> Passenger \<Rightarrow> airport \<Rightarrow> airport" where
  "set_passenger p x a = a\<lparr>simPassengers := (simPassengers a)(p := x)\<rparr>"

text \<open>\<open>m = first; for (i in is) if (line[i] < line[m]) m = i;\<close>\<close>

definition shortest :: "(nat \<Rightarrow> int) \<Rightarrow> nat \<Rightarrow> nat list \<Rightarrow> nat" where
  "shortest lines first is = fold (\<lambda>i m. if lines i < lines m then i else m) is first"

fun Passenger_liaison :: "nat \<Rightarrow> pa_liaison_pc \<Rightarrow> airport \<Rightarrow> piece" where
  "Passenger_liaison p Pa_start a = go [K_Acquire liaisonLineLock] [A_Passenger p (With_Liaison Pa_line)] a"
| "Passenger_liaison p Pa_line a =
     (let m = shortest (liaisonLine a) 0 [1..<simNumOfLiaisons a];
          a = set_passenger p ((simPassengers a p)\<lparr>myLine := m\<rparr>) a;
          a = a\<lparr>liaisonLine := (liaisonLine a)(m := liaisonLine a m + 1)\<rparr>
      in go [K_Wait (liaisonLineCV m) liaisonLineLock, K_Release liaisonLineLock, K_Acquire (liaisonLineLocks m)]
            [A_Passenger p (With_Liaison Pa_tell)] a)"
| "Passenger_liaison p Pa_tell a =
     (let x = simPassengers a p; m = myLine x;
          a = a\<lparr>LPInfo := (LPInfo a)(m := (LPInfo a m)\<lparr>lp_passengerName := pa_name x, lp_baggageCount := pa_baggageCount x\<rparr>)\<rparr>
      in go [K_Signal (liaisonOfficerCV m) (liaisonLineLocks m), K_Wait (liaisonOfficerCV m) (liaisonLineLocks m)]
            [A_Passenger p (With_Liaison Pa_airline)] a)"
| "Passenger_liaison p Pa_airline a =
     (let x = simPassengers a p; m = myLine x; al = lp_airline (LPInfo a m) in
      rbind (valid (al < MAX_AIRLINES \<and> pa_baggageCount x \<le> length (pa_bags x))) (\<lambda>_.
      let a = set_passenger p (x\<lparr>pa_airline := al\<rparr>) a;
          a = a\<lparr>totalBaggage := (totalBaggage a)(al := totalBaggage a al + int (pa_baggageCount x)),
                totalWeight := (totalWeight a)(al := totalWeight a al + sum_list (map weight (take (pa_baggageCount x) (pa_bags x)))),
                liaisonLine := (if liaisonLine a m > 0 then (liaisonLine a)(m := liaisonLine a m - 1) else liaisonLine a)\<rparr>
      in go [K_Signal (liaisonOfficerCV m) (liaisonLineLocks m), K_Wait (liaisonOfficerCV m) (liaisonLineLocks m),
             K_Release (liaisonLineLocks m), K_Yield, K_Acquire CheckInLock] [A_Passenger p (At_CheckIn Pa_checkin)] a))"

text \<open>The variable \<open>i\<close> of the loop \<open>for(int i; i < bag.size(); i++) bag.pop_back()\<close> is not initialised.\<close>

function pop_bags :: "int \<Rightarrow> Baggage list \<Rightarrow> Baggage list result" where
  "pop_bags i bag = (if i < int (length bag) then (if bag = [] then Inl Undefined else pop_bags (i + 1) (butlast bag)) else Inr bag)"
  by auto
termination by (relation "measure (\<lambda>(i, bag). nat (int (length bag) - i))") auto

declare pop_bags.simps [simp del]

text \<open>\<open>bag.push_back(Baggage()); bag[i].weight = bags[i].weight;\<close> for each \<open>i\<close>\<close>

definition hand_over :: "Baggage list \<Rightarrow> nat \<Rightarrow> Baggage list \<Rightarrow> Baggage list" where
  "hand_over bags n bag = fold (\<lambda>i bag. let bag = bag @ [\<lparr>airlineCode = 0, weight = 0\<rparr>] in
     bag[i := (bag ! i)\<lparr>weight := weight (bags ! i)\<rparr>]) [0..<n] bag"

fun Passenger_checkin :: "(nat \<Rightarrow> int) \<Rightarrow> nat \<Rightarrow> pa_checkin_pc \<Rightarrow> airport \<Rightarrow> piece" where
  "Passenger_checkin U p Pa_checkin a =
     (let x = simPassengers a p; al = pa_airline x; n = simNumOfCIOs a;
          m = (if \<not> economy x then n * simNumOfAirlines a + al else shortest (CheckInLine a) (al * n) [al * n..<al * n + n]) in
      rbind (valid (m < simNumOfAirlines a * n + simNumOfAirlines a)) (\<lambda>_.
      let a = set_passenger p (x\<lparr>myLine := m\<rparr>) a;
          a = a\<lparr>CheckInLine := (CheckInLine a)(m := CheckInLine a m + 1)\<rparr>
      in if economy x \<and> CheckInLine a m = 1
         then rbind (valid (m < simNumOfAirlines a * n)) (\<lambda>_.
              go [K_Signal (CheckInBreakCV m) CheckInLock, K_Wait (CheckInCV m) CheckInLock] [A_Passenger p (At_CheckIn Pa_called)] a)
         else if \<not> economy x \<and> CheckInLine a m = 1 then go [] [A_Passenger p (At_CheckIn (Pa_officers (al * n)))] a
         else go [K_Wait (CheckInCV m) CheckInLock] [A_Passenger p (At_CheckIn Pa_called)] a))"
| "Passenger_checkin U p (Pa_officers i) a =
     (let x = simPassengers a p in
      if i < pa_airline x * simNumOfCIOs a + simNumOfCIOs a
      then go (if CheckInLine a i = 0 then [K_Signal (CheckInBreakCV i) CheckInLock] else []) [A_Passenger p (At_CheckIn (Pa_officers (i + 1)))] a
      else go [K_Wait (CheckInCV (myLine x)) CheckInLock] [A_Passenger p (At_CheckIn Pa_called)] a)"
| "Passenger_checkin U p Pa_called a =
     (let x = simPassengers a p; m = (if \<not> economy x then cp_line (CPInfo a (myLine x)) else myLine x) in
      rbind (valid (m < simNumOfAirlines a * simNumOfCIOs a + simNumOfAirlines a)) (\<lambda>_.
      go [K_Acquire (CheckInLocks m), K_Release CheckInLock] [A_Passenger p (At_CheckIn Pa_counter)] (set_passenger p (x\<lparr>myLine := m\<rparr>) a)))"
| "Passenger_checkin U p Pa_counter a =
     (let x = simPassengers a p; m = myLine x; c = CPInfo a m in
      rbind (valid (m < simNumOfAirlines a * simNumOfCIOs a \<and> pa_baggageCount x \<le> length (pa_bags x))) (\<lambda>_.
      rbind (pop_bags (U p) (cp_bag c)) (\<lambda>bag.
      go [K_Signal (CheckInOfficerCV m) (CheckInLocks m), K_Wait (CheckInOfficerCV m) (CheckInLocks m)] [A_Passenger p (At_CheckIn Pa_informed)]
         (a\<lparr>CPInfo := (CPInfo a)(m := c\<lparr>cp_baggageCount := pa_baggageCount x,
              cp_bag := hand_over (pa_bags x) (pa_baggageCount x) bag, cp_passenger := pa_name x, cp_IsEconomy := economy x\<rparr>)\<rparr>))))"
| "Passenger_checkin U p Pa_informed a =
     (let x = simPassengers a p; m = myLine x;
          a = set_passenger p (x\<lparr>pa_seat := cp_seat (CPInfo a m), pa_gate := pa_airline x\<rparr>) a;
          a = a\<lparr>CheckInLine := (if CheckInLine a m > 0 then (CheckInLine a)(m := CheckInLine a m - 1) else CheckInLine a)\<rparr>
      in go [K_Signal (CheckInOfficerCV m) (CheckInLocks m), K_Release (CheckInLocks m), K_Yield, K_Acquire ScreenLines]
            [A_Passenger p (At_Screening Pa_screen)] a)"

text \<open>\<open>for (i in is) if (!Screen[i]->getBusy()) { test = Screen[i]->getBusy(); myLine = i; }\<close>\<close>

definition find_screen :: "airport \<Rightarrow> bool \<times> nat \<Rightarrow> bool \<times> nat" where
  "find_screen a = fold (\<lambda>i (test, m). if \<not> IsBusy (Screen a i) then (IsBusy (Screen a i), i) else (test, m))
     [0..<simNumOfScreeningOfficers a]"

fun Passenger_screening :: "nat \<Rightarrow> pa_screening_pc \<Rightarrow> airport \<Rightarrow> piece" where
  "Passenger_screening p Pa_screen a =
     (let first = (ScreenLine a 0 = 0); a = a\<lparr>ScreenLine := (ScreenLine a)(0 := ScreenLine a 0 + 1)\<rparr> in
      if first then go [K_Release ScreenLines] [A_Passenger p (At_Screening (Pa_look True))] a
      else go [K_Wait (ScreenLineCV 0) ScreenLines] [A_Passenger p (At_Screening (Pa_pick True))] a)"
| "Passenger_screening p (Pa_look test) a =
     go [K_Acquire ScreenLines] [A_Passenger p (At_Screening (if test then Pa_scan test else Pa_pick test))] a"
| "Passenger_screening p (Pa_scan test) a =
     (let x = simPassengers a p; (test, m) = find_screen a (test, myLine x)
      in go [K_Release ScreenLines, K_Yield] [A_Passenger p (At_Screening (Pa_look test))] (set_passenger p (x\<lparr>myLine := m\<rparr>) a))"
| "Passenger_screening p (Pa_pick test) a =
     (let x = simPassengers a p; (_, m) = (if test then find_screen a (test, myLine x) else (test, myLine x)) in
      rbind (valid (m < simNumOfScreeningOfficers a)) (\<lambda>_.
      let a = set_passenger p (x\<lparr>myLine := m\<rparr>) a;
          a = a\<lparr>Screen := (Screen a)(m := (Screen a m)\<lparr>IsBusy := True\<rparr>)\<rparr>
      in go [K_Acquire (ScreenLocks m), K_Release ScreenLines] [A_Passenger p (At_Screening Pa_name)] a))"
| "Passenger_screening p Pa_name a =
     (let x = simPassengers a p; m = myLine x;
          a = a\<lparr>SPInfo := (SPInfo a)(m := (SPInfo a m)\<lparr>sp_passenger := pa_name x\<rparr>)\<rparr>
      in go [K_Signal (ScreenOfficerCV m) (ScreenLocks m), K_Wait (ScreenOfficerCV m) (ScreenLocks m)] [A_Passenger p (At_Screening Pa_sent)] a)"
| "Passenger_screening p Pa_sent a =
     (let x = simPassengers a p; oldLine = myLine x
      in go [K_Signal (ScreenOfficerCV oldLine) (ScreenLocks oldLine)] [A_Passenger p (At_Screening (Pa_leave oldLine))]
            (set_passenger p (x\<lparr>myLine := sp_SecurityOfficer (SPInfo a oldLine)\<rparr>) a))"
| "Passenger_screening p (Pa_leave oldLine) a =
     go [K_Release (ScreenLocks oldLine), K_Acquire SecurityLines] [A_Passenger p (At_Security Pa_security)]
        (a\<lparr>ScreenLine := (if ScreenLine a 0 > 0 then (ScreenLine a)(0 := ScreenLine a 0 - 1) else ScreenLine a)\<rparr>)"

fun Passenger_security :: "(nat \<Rightarrow> nat) \<Rightarrow> nat \<Rightarrow> pa_security_pc \<Rightarrow> airport \<Rightarrow> piece" where
  "Passenger_security R p Pa_security a =
     (let m = myLine (simPassengers a p) in
      rbind (valid (m < simNumOfScreeningOfficers a)) (\<lambda>_.
      let a = a\<lparr>SecurityLine := (SecurityLine a)(m := SecurityLine a m + 1)\<rparr>
      in go ((if SecurityLine a m = 1 then [K_Signal (SecurityOfficerCV m) (SecurityLocks m)] else []) @
             [K_Acquire (SecurityLocks m), K_Release SecurityLines, K_Wait (SecurityOfficerCV m) (SecurityLocks m)])
            [A_Passenger p (At_Security Pa_hello)] a))"
| "Passenger_security R p Pa_hello a =
     (let x = simPassengers a p; m = myLine x;
          a = a\<lparr>SecPInfo := (SecPInfo a)(m := (SecPInfo a m)\<lparr>sep_passenger := pa_name x, sep_questioning := False\<rparr>)\<rparr>
      in go [K_Signal (SecurityOfficerCV m) (SecurityLocks m), K_Wait (SecurityOfficerCV m) (SecurityLocks m)] [A_Passenger p (At_Security Pa_verdict)] a)"
| "Passenger_security R p Pa_verdict a =
     (let x = simPassengers a p
      in go [K_Acquire SecurityLines] [A_Passenger p (At_Security Pa_passed)]
            (set_passenger p (x\<lparr>NotTerrorist := sep_PassedSecurity (SecPInfo a (myLine x))\<rparr>) a))"
| "Passenger_security R p Pa_passed a =
     (let m = myLine (simPassengers a p)
      in go [K_Signal (SecurityOfficerCV m) (SecurityLocks m), K_Release (SecurityLocks m), K_Release SecurityLines] [A_Passenger p (At_Security Pa_next)]
            (a\<lparr>SecurityLine := (SecurityLine a)(m := SecurityLine a m - 1)\<rparr>))"
| "Passenger_security R p Pa_next a =
     (let x = simPassengers a p in
      if \<not> NotTerrorist x
      then let (r, a) = rand R a
           in go (replicate (r mod 2 + 1) K_Yield @ [K_Acquire SecurityLines, K_Acquire SecurityAvail]) [A_Passenger p (At_Security Pa_back)] a
      else rbind (valid (pa_airline x < simNumOfAirlines a)) (\<lambda>_. go [K_Acquire (gateLocks (pa_airline x))] [A_Passenger p At_Gate] a))"
| "Passenger_security R p Pa_back a =
     (let m = myLine (simPassengers a p)
      in go [K_Release SecurityAvail, K_Acquire (SecurityLocks m)] [A_Passenger p (At_Security Pa_again)]
            (a\<lparr>SecurityLine := (SecurityLine a)(m := SecurityLine a m + 1), SecurityAvailability := (SecurityAvailability a)(m := False)\<rparr>))"
| "Passenger_security R p Pa_again a =
     (let m = myLine (simPassengers a p); wait = K_Wait (SecurityOfficerCV m) (SecurityLocks m);
          signal = K_Signal (SecurityOfficerCV m) (SecurityLocks m)
      in go ((if SecurityLine a m = 1 then [signal] else [wait, signal]) @ [K_Release SecurityLines, wait]) [A_Passenger p (At_Security Pa_retell)] a)"
| "Passenger_security R p Pa_retell a =
     (let x = simPassengers a p; m = myLine x;
          a = a\<lparr>SecPInfo := (SecPInfo a)(m := (SecPInfo a m)\<lparr>sep_passenger := pa_name x, sep_questioning := True\<rparr>)\<rparr>
      in go [K_Signal (SecurityOfficerCV m) (SecurityLocks m), K_Wait (SecurityOfficerCV m) (SecurityLocks m), K_Acquire SecurityLines]
            [A_Passenger p (At_Security Pa_cleared)] a)"
| "Passenger_security R p Pa_cleared a =
     (let x = simPassengers a p; m = myLine x in
      rbind (valid (pa_airline x < simNumOfAirlines a)) (\<lambda>_.
      go [K_Signal (SecurityOfficerCV m) (SecurityLocks m), K_Release (SecurityLocks m), K_Release SecurityLines,
          K_Acquire (gateLocks (pa_airline x))] [A_Passenger p At_Gate]
         (a\<lparr>SecurityLine := (SecurityLine a)(m := SecurityLine a m - 1)\<rparr>)))"

definition Passenger_gate :: "nat \<Rightarrow> airport \<Rightarrow> piece" where
  "Passenger_gate p a =
     (let al = pa_airline (simPassengers a p)
      in go [K_Wait (gateLocksCV al) (gateLocks al), K_Release (gateLocks al)] []
            (a\<lparr>boardingLounges := (boardingLounges a)(al := boardingLounges a al + 1)\<rparr>))"

fun ChooseLiaisonLine :: "(nat \<Rightarrow> nat) \<Rightarrow> (nat \<Rightarrow> int) \<Rightarrow> nat \<Rightarrow> passenger_pc \<Rightarrow> airport \<Rightarrow> piece" where
  "ChooseLiaisonLine R U p (With_Liaison pc) a = Passenger_liaison p pc a"
| "ChooseLiaisonLine R U p (At_CheckIn pc) a = Passenger_checkin U p pc a"
| "ChooseLiaisonLine R U p (At_Screening pc) a = Passenger_screening p pc a"
| "ChooseLiaisonLine R U p (At_Security pc) a = Passenger_security R p pc a"
| "ChooseLiaisonLine R U p At_Gate a = Passenger_gate p a"

section \<open>Liaison officers\<close>

definition set_liaison :: "nat \<Rightarrow> LiaisonOfficer \<Rightarrow> airport \<Rightarrow> airport" where
  "set_liaison n x a = a\<lparr>liaisonOfficers := (liaisonOfficers a)(n := x)\<rparr>"

text \<open>The inner loop of \<open>DoWork\<close> draws until the airline has a ticket left: each round is a step.\<close>

fun LiaisonOfficer_DoWork :: "(nat \<Rightarrow> nat) \<Rightarrow> nat \<Rightarrow> liaison_pc \<Rightarrow> airport \<Rightarrow> piece" where
  "LiaisonOfficer_DoWork R n Li_loop a = go [K_Acquire liaisonLineLock] [A_Liaison n Li_check] a"
| "LiaisonOfficer_DoWork R n Li_check a =
     (if liaisonLine a n > 0
      then go [K_Signal (liaisonLineCV n) liaisonLineLock, K_Acquire (liaisonLineLocks n), K_Release liaisonLineLock,
               K_Wait (liaisonOfficerCV n) (liaisonLineLocks n)] [A_Liaison n Li_serve] a
      else go [K_Release liaisonLineLock, K_Yield] [A_Liaison n Li_idle] a)"
| "LiaisonOfficer_DoWork R n Li_serve a =
     (let x = liaisonOfficers a n
      in go [K_Acquire seatLock] [A_Liaison n Li_pick] (set_liaison n (x\<lparr>li_passengerCount := li_passengerCount x + 1\<rparr>) a))"
| "LiaisonOfficer_DoWork R n Li_pick a =
     (let (r, a) = rand R a; al = r mod simNumOfAirlines a; x = (liaisonOfficers a n)\<lparr>li_airline := al\<rparr> in
      if ticketsIssued a al < totalPassengersOfAirline a al
      then let a = a\<lparr>ticketsIssued := (ticketsIssued a)(al := ticketsIssued a al + 1)\<rparr>;
               c = li_airlineBaggageCount x
           in go [K_Release seatLock] [A_Liaison n Li_assign]
                 (set_liaison n (x\<lparr>li_airlineBaggageCount := c(al := c al + int (lp_baggageCount (LPInfo a n)))\<rparr>) a)
      else go [] [A_Liaison n Li_pick] (set_liaison n x a))"
| "LiaisonOfficer_DoWork R n Li_assign a =
     (let al = li_airline (liaisonOfficers a n);
          a = a\<lparr>LPInfo := (LPInfo a)(n := (LPInfo a n)\<lparr>lp_airline := al\<rparr>)\<rparr>;
          a = a\<lparr>liaisonBaggageCount := (liaisonBaggageCount a)(al := liaisonBaggageCount a al + int (lp_baggageCount (LPInfo a n)))\<rparr>;
          signal = K_Signal (liaisonOfficerCV n) (liaisonLineLocks n); wait = K_Wait (liaisonOfficerCV n) (liaisonLineLocks n)
      in go [signal, wait, signal, K_Release (liaisonLineLocks n), K_Yield] [A_Liaison n Li_loop] a)"
| "LiaisonOfficer_DoWork R n Li_idle a =
     (if planeCount a = simNumOfAirlines a then go [] [] a else go [K_Yield] [A_Liaison n Li_loop] a)"

section \<open>Check-in officers\<close>

definition set_checkin :: "nat \<Rightarrow> CheckInOfficer \<Rightarrow> airport \<Rightarrow> airport" where
  "set_checkin n x a = a\<lparr>CheckIn := (CheckIn a)(n := x)\<rparr>"

fun CheckInOfficer_DoWork :: "nat \<Rightarrow> checkin_pc \<Rightarrow> airport \<Rightarrow> piece" where
  "CheckInOfficer_DoWork n Ci_loop a =
     (if ci_work (CheckIn a n) then go [K_Acquire CheckInLock] [A_CheckIn n Ci_check] a else go [] [] a)"
| "CheckInOfficer_DoWork n Ci_check a =
     (let o1 = CheckIn a n; al = ci_airline o1; x = simNumOfAirlines a * simNumOfCIOs a + al;
          a = (if OnBreak o1 then set_checkin n (o1\<lparr>OnBreak := False\<rparr>) a else a) in
      if CheckInLine a x > 0 \<and> execLineNeedsHelp a al
      then go [K_Signal (CheckInCV x) CheckInLock] [A_CheckIn n Ci_exec]
             (a\<lparr>execLineNeedsHelp := (execLineNeedsHelp a)(al := False), CPInfo := (CPInfo a)(x := (CPInfo a x)\<lparr>cp_line := n\<rparr>),
                CheckInLine := (CheckInLine a)(x := CheckInLine a x - 1)\<rparr>)
      else if CheckInLine a n > 0 then go [K_Signal (CheckInCV n) CheckInLock] [A_CheckIn n (Ci_take False)] a
      else go [K_Wait (CheckInBreakCV n) CheckInLock, K_Release CheckInLock] [A_CheckIn n Ci_loop]
             (set_checkin n ((CheckIn a n)\<lparr>OnBreak := True\<rparr>) a))"
| "CheckInOfficer_DoWork n Ci_exec a =
     go [] [A_CheckIn n (Ci_take True)] (a\<lparr>CheckInLine := (CheckInLine a)(n := CheckInLine a n + 1)\<rparr>)"
| "CheckInOfficer_DoWork n (Ci_take helpedExecLine) a =
     (let x = CheckIn a n
      in go [K_Acquire (CheckInLocks n), K_Release CheckInLock, K_Wait (CheckInOfficerCV n) (CheckInLocks n)]
            [A_CheckIn n (Ci_bags helpedExecLine)] (set_checkin n (x\<lparr>ci_passengerCount := ci_passengerCount x + 1\<rparr>) a))"
| "CheckInOfficer_DoWork n (Ci_bags helpedExecLine) a =
     (let x = CheckIn a n;
          a = (if helpedExecLine then a\<lparr>execLineNeedsHelp := (execLineNeedsHelp a)(ci_airline x := True)\<rparr> else a);
          a = set_checkin n (x\<lparr>ci_bags := cp_bag (CPInfo a n)\<rparr>) a
      in go [] [A_CheckIn n (Ci_drop 0)] (a\<lparr>CPInfo := (CPInfo a)(n := (CPInfo a n)\<lparr>cp_bag := []\<rparr>)\<rparr>))"
| "CheckInOfficer_DoWork n (Ci_drop i) a =
     (let x = CheckIn a n in
      if i < cp_baggageCount (CPInfo a n)
      then rbind (valid (i < length (ci_bags x))) (\<lambda>_.
           go [K_Acquire BaggageLock] [A_CheckIn n (Ci_push i)]
             (set_checkin n (x\<lparr>ci_bags := (ci_bags x)[i := (ci_bags x ! i)\<lparr>airlineCode := ci_airline x\<rparr>]\<rparr>) a))
      else let signal = K_Signal (CheckInOfficerCV n) (CheckInLocks n); wait = K_Wait (CheckInOfficerCV n) (CheckInLocks n)
           in go [signal, wait, K_Release (CheckInLocks n), K_Yield] [A_CheckIn n Ci_loop]
                (a\<lparr>CPInfo := (CPInfo a)(n := (CPInfo a n)\<lparr>cp_gate := gates a (ci_airline x)\<rparr>)\<rparr>))"
| "CheckInOfficer_DoWork n (Ci_push i) a =
     go [K_Release BaggageLock] [A_CheckIn n (Ci_note i)] (a\<lparr>conveyor := conveyor a @ [ci_bags (CheckIn a n) ! i]\<rparr>)"
| "CheckInOfficer_DoWork n (Ci_note i) a =
     (let x = CheckIn a n
      in go [] [A_CheckIn n (Ci_drop (i + 1))] (set_checkin n (x\<lparr>totalBags := totalBags x @ [ci_bags x ! i]\<rparr>) a))"

section \<open>Cargo handlers\<close>

definition set_cargo :: "nat \<Rightarrow> CargoHandler \<Rightarrow> airport \<Rightarrow> airport" where
  "set_cargo n x a = a\<lparr>cargoHandlers := (cargoHandlers a)(n := x)\<rparr>"

fun CargoHandler_DoWork :: "nat \<Rightarrow> cargo_pc \<Rightarrow> airport \<Rightarrow> piece" where
  "CargoHandler_DoWork n Ca_loop a =
     go [K_Acquire CargoHandlerLock] [A_Cargo n Ca_take] (set_cargo n ((cargoHandlers a n)\<lparr>onBreak := False\<rparr>) a)"
| "CargoHandler_DoWork n Ca_take a = (case conveyor a of
       temp # rest \<Rightarrow> rbind (valid (airlineCode temp < simNumOfAirlines a)) (\<lambda>_.
         go [K_Acquire (AirlineBaggage (airlineCode temp)), K_Release CargoHandlerLock] [A_Cargo n (Ca_load temp)] (a\<lparr>conveyor := rest\<rparr>))
     | [] \<Rightarrow> go [K_Wait CargoHandlerCV CargoHandlerLock] [A_Cargo n Ca_loop] (set_cargo n ((cargoHandlers a n)\<lparr>onBreak := True\<rparr>) a))"
| "CargoHandler_DoWork n (Ca_load temp) a =
     (let al = airlineCode temp; w = weight temp; x = cargoHandlers a n;
          a = a\<lparr>aircraftBaggageCount := (aircraftBaggageCount a)(al := aircraftBaggageCount a al + 1),
                aircraftBaggageWeight := (aircraftBaggageWeight a)(al := aircraftBaggageWeight a al + w)\<rparr>;
          a = set_cargo n (x\<lparr>ca_weight := (ca_weight x)(al := ca_weight x al + w), ca_count := (ca_count x)(al := ca_count x al + 1)\<rparr>) a
      in go [K_Release (AirlineBaggage al), K_Yield] [A_Cargo n Ca_loop] a)"

section \<open>The airport manager\<close>

text \<open>\<open>EndOfDay\<close> adds up what the agents report; its output prints these totals and \<open>totalBaggage\<close>,
  \<open>totalWeight\<close>.\<close>

definition EndOfDay :: "airport \<Rightarrow> airport" where
  "EndOfDay a =
     (let m = simAirportManager a; hs = [0..<simNumOfCargoHandlers a]; os = [0..<simNumOfCIOs a * simNumOfAirlines a];
          ls = [0..<simNumOfLiaisons a]; ss = [0..<simNumOfScreeningOfficers a]; n = simNumOfAirlines a in
      a\<lparr>simAirportManager := m\<lparr>
          CargoHandlerTotalWeight := (\<lambda>j. if j < n then CargoHandlerTotalWeight m j + (\<Sum>i\<leftarrow>hs. ca_weight (cargoHandlers a i) j) else CargoHandlerTotalWeight m j),
          CargoHandlerTotalCount := (\<lambda>j. if j < n then CargoHandlerTotalCount m j + (\<Sum>i\<leftarrow>hs. ca_count (cargoHandlers a i) j) else CargoHandlerTotalCount m j),
          CIOTotalWeight := (\<lambda>j. CIOTotalWeight m j + (\<Sum>i\<leftarrow>os. \<Sum>b\<leftarrow>totalBags (CheckIn a i). if airlineCode b = j then weight b else 0)),
          checkInPassengerCount := checkInPassengerCount m + (\<Sum>i\<leftarrow>os. ci_passengerCount (CheckIn a i)),
          LiaisonTotalCount := (\<lambda>j. if j < n then LiaisonTotalCount m j + (\<Sum>i\<leftarrow>ls. li_airlineBaggageCount (liaisonOfficers a i) j) else LiaisonTotalCount m j),
          liaisonPassengerCount := liaisonPassengerCount m + (\<Sum>i\<leftarrow>ls. li_passengerCount (liaisonOfficers a i)),
          securityPassengerCount := securityPassengerCount m + (\<Sum>i\<leftarrow>ss. PassedPassengers (Security a i))\<rparr>\<rparr>)"

fun AirportManager_DoWork :: "manager_pc \<Rightarrow> airport \<Rightarrow> piece" where
  "AirportManager_DoWork Mg_loop a =
     (if conveyor a \<noteq> [] \<and> simNumOfCargoHandlers a \<noteq> 0 then go [K_Acquire CargoHandlerLock] [A_Manager Mg_breaks] a
      else go [] [A_Manager (Mg_board 0)] a)"
| "AirportManager_DoWork Mg_breaks a =
     (let breakCount = length (filter (\<lambda>i. onBreak (cargoHandlers a i)) [0..<simNumOfCargoHandlers a])
      in go ((if breakCount = simNumOfCargoHandlers a then [K_Broadcast CargoHandlerCV CargoHandlerLock] else []) @ [K_Release CargoHandlerLock])
            [A_Manager (Mg_board 0)] a)"
| "AirportManager_DoWork (Mg_board i) a =
     (if i < simNumOfAirlines a
      then if boardingLounges a i = totalPassengersOfAirline a i \<and> totalBaggage a i = aircraftBaggageCount a i \<and> \<not> alreadyBoarded a i
           then go [K_Acquire (gateLocks i), K_Broadcast (gateLocksCV i) (gateLocks i)] [A_Manager (Mg_boarded i)] a
           else go [] [A_Manager (Mg_board (i + 1))] a
      else go [] [A_Manager Mg_check] a)"
| "AirportManager_DoWork (Mg_boarded i) a =
     go [K_Release (gateLocks i)] [A_Manager (Mg_plane i)] (a\<lparr>alreadyBoarded := (alreadyBoarded a)(i := True)\<rparr>)"
| "AirportManager_DoWork (Mg_plane i) a = go [] [A_Manager (Mg_board (i + 1))] (a\<lparr>planeCount := planeCount a + 1\<rparr>)"
| "AirportManager_DoWork Mg_check a =
     (if planeCount a = simNumOfAirlines a then go [K_Yield] [A_Manager Mg_end] a else go [K_Yield, K_Yield] [A_Manager Mg_loop] a)"
| "AirportManager_DoWork Mg_end a = go [] [] (EndOfDay a)"

section \<open>Screening and security officers\<close>

definition set_screen :: "nat \<Rightarrow> ScreeningOfficer \<Rightarrow> airport \<Rightarrow> airport" where
  "set_screen n x a = a\<lparr>Screen := (Screen a)(n := x)\<rparr>"

fun ScreeningOfficer_DoWork :: "(nat \<Rightarrow> nat) \<Rightarrow> nat \<Rightarrow> screening_pc \<Rightarrow> airport \<Rightarrow> piece" where
  "ScreeningOfficer_DoWork R n Sc_loop a = go [K_Acquire ScreenLines] [A_Screening n Sc_open] a"
| "ScreeningOfficer_DoWork R n Sc_open a =
     go ((if ScreenLine a 0 > 0 then [K_Signal (ScreenLineCV 0) ScreenLines] else []) @
         [K_Acquire (ScreenLocks n), K_Release ScreenLines, K_Wait (ScreenOfficerCV n) (ScreenLocks n)]) [A_Screening n Sc_judge]
        (set_screen n ((Screen a n)\<lparr>IsBusy := False\<rparr>) a)"
| "ScreeningOfficer_DoWork R n Sc_judge a =
     (let z = sp_passenger (SPInfo a n); (r, a) = rand R a; pass = (r mod 5 \<noteq> 0) in
      rbind (valid (z < MAX_PASSENGERS)) (\<lambda>_.
      go [] [A_Screening n (Sc_find 0 False)]
        (set_screen n ((Screen a n)\<lparr>ScreenPass := pass\<rparr>) (a\<lparr>ScreeningResult := (ScreeningResult a)(z := pass)\<rparr>))))"
| "ScreeningOfficer_DoWork R n (Sc_find i y) a =
     (if i < simNumOfScreeningOfficers a then go [K_Acquire SecurityAvail] [A_Screening n (Sc_ask i)] a
      else if y then go [K_Signal (ScreenOfficerCV n) (ScreenLocks n), K_Wait (ScreenOfficerCV n) (ScreenLocks n), K_Release (ScreenLocks n)]
                       [A_Screening n Sc_loop] a
      else go [K_Yield, K_Yield, K_Yield, K_Yield] [A_Screening n (Sc_find 0 False)] a)"
| "ScreeningOfficer_DoWork R n (Sc_ask i) a =
     (let y = SecurityAvailability a i;
          a = (if y then a\<lparr>SPInfo := (SPInfo a)(n := (SPInfo a n)\<lparr>sp_SecurityOfficer := i\<rparr>),
                           SecurityAvailability := (SecurityAvailability a)(i := False)\<rparr> else a)
      in go [K_Release SecurityAvail] [A_Screening n (Sc_find (i + 1) y)] a)"

definition set_security :: "nat \<Rightarrow> SecurityOfficer \<Rightarrow> airport \<Rightarrow> airport" where
  "set_security n x a = a\<lparr>Security := (Security a)(n := x)\<rparr>"

fun SecurityOfficer_DoWork :: "(nat \<Rightarrow> nat) \<Rightarrow> nat \<Rightarrow> security_pc \<Rightarrow> airport \<Rightarrow> piece" where
  "SecurityOfficer_DoWork R n Se_loop a =
     go [K_Acquire SecurityLines, K_Acquire (SecurityLocks n), K_Acquire SecurityAvail] [A_Security n Se_line] a"
| "SecurityOfficer_DoWork R n Se_line a =
     (let waiting = (SecurityLine a 0 > 0); cv = SecurityOfficerCV n; l = SecurityLocks n
      in go ((if waiting then [K_Signal (SecurityLineCV 0) l] else []) @
             [K_Release SecurityLines, K_Release SecurityAvail, K_Wait cv l, K_Signal cv l, K_Wait cv l]) [A_Security n Se_judge]
            (if waiting then a else a\<lparr>SecurityAvailability := (SecurityAvailability a)(n := True)\<rparr>))"
| "SecurityOfficer_DoWork R n Se_judge a =
     (let z = sep_passenger (SecPInfo a n) in
      rbind (valid (z < MAX_PASSENGERS)) (\<lambda>_.
      let (r, a) = rand R a;
          x = (Security a n)\<lparr>didPassScreening := ScreeningResult a z, SecurityPass := (r mod 5 \<noteq> 0)\<rparr>;
          questioning = sep_questioning (SecPInfo a n);
          total = (questioning \<or> didPassScreening x \<and> SecurityPass x);
          x = x\<lparr>TotalPass := total, PassedPassengers := (if total then PassedPassengers x + 1 else PassedPassengers x)\<rparr>;
          a = set_security n x a;
          a = (if questioning then a else a\<lparr>SecPInfo := (SecPInfo a)(n := (SecPInfo a n)\<lparr>sep_PassedSecurity := total\<rparr>)\<rparr>);
          cv = SecurityOfficerCV n; l = SecurityLocks n
      in go [K_Signal cv l, K_Wait cv l, K_Release l] [A_Security n Se_loop] a))"

section \<open>Setup and the start of the threads\<close>

text \<open>The threads that \<open>RunSim\<close> and \<open>AirportTests\<close> start, in their order; the first is the main thread.\<close>

definition roster :: "airport \<Rightarrow> acode list" where
  "roster a = A_Setup St_start # A_Manager Mg_loop
     # map (\<lambda>i. A_CheckIn i Ci_loop) [0..<simNumOfAirlines a * simNumOfCIOs a]
     @ map (\<lambda>i. A_Liaison i Li_loop) [0..<simNumOfLiaisons a]
     @ concat (map (\<lambda>i. [A_Screening i Sc_loop, A_Security i Se_loop]) [0..<simNumOfScreeningOfficers a])
     @ map (\<lambda>i. A_Cargo i Ca_loop) [0..<simNumOfCargoHandlers a]
     @ map (\<lambda>i. A_Passenger i (With_Liaison Pa_start)) [0..<simNumOfPassengers a]"

text \<open>\<open>setup\<close>, with the loop of \<open>createSecurityAndScreen\<close> and the constructors of the officers in it, then the forks.\<close>

fun setup_DoWork :: "(nat \<Rightarrow> nat) \<Rightarrow> setup_pc \<Rightarrow> airport \<Rightarrow> piece" where
  "setup_DoWork R St_start a = rbind (setup_before a) (go [] [A_Setup (St_security 0)])"
| "setup_DoWork R (St_security i) a =
     (if i < simNumOfScreeningOfficers a
      then rbind (valid (i < SCREEN_COUNT)) (\<lambda>_.
           go [K_Acquire SecurityAvail] [A_Setup (St_avail i)]
             (set_security i ((Security a i)\<lparr>sec_number := i\<rparr>) (a\<lparr>SecurityLine := (SecurityLine a)(i := 0)\<rparr>)))
      else go [] [A_Setup St_rest] (a\<lparr>SecurityAvailability := fill_with (simNumOfScreeningOfficers a) True (SecurityAvailability a)\<rparr>))"
| "setup_DoWork R (St_avail i) a =
     go [K_Release SecurityAvail] [A_Setup (St_passed i)] (a\<lparr>SecurityAvailability := (SecurityAvailability a)(i := True)\<rparr>)"
| "setup_DoWork R (St_passed i) a =
     go [K_Acquire ScreenLines] [A_Setup (St_busy i)]
       (set_screen i ((Screen a i)\<lparr>sc_number := i\<rparr>) (set_security i ((Security a i)\<lparr>PassedPassengers := 0\<rparr>) a))"
| "setup_DoWork R (St_busy i) a =
     go [K_Release ScreenLines] [A_Setup (St_security (i + 1))] (set_screen i ((Screen a i)\<lparr>IsBusy := False\<rparr>) a)"
| "setup_DoWork R St_rest a =
     (let a = setup_after R a in go [] (map (\<lambda>t. A_New t (roster a ! t)) [1..<length (roster a)]) a)"

section \<open>The simulation on the kernel\<close>

fun piece_of :: "(nat \<Rightarrow> nat) \<Rightarrow> (nat \<Rightarrow> int) \<Rightarrow> acode \<Rightarrow> airport \<Rightarrow> piece" where
  "piece_of R U (A_Setup pc) a = setup_DoWork R pc a"
| "piece_of R U (A_Passenger p pc) a = ChooseLiaisonLine R U p pc a"
| "piece_of R U (A_Liaison n pc) a = LiaisonOfficer_DoWork R n pc a"
| "piece_of R U (A_CheckIn n pc) a = CheckInOfficer_DoWork n pc a"
| "piece_of R U (A_Cargo n pc) a = CargoHandler_DoWork n pc a"
| "piece_of R U (A_Manager pc) a = AirportManager_DoWork pc a"
| "piece_of R U (A_Screening n pc) a = ScreeningOfficer_DoWork R n pc a"
| "piece_of R U (A_Security n pc) a = SecurityOfficer_DoWork R n pc a"
| "piece_of R U _ a = Inl Undefined"

record air = "(handler, acode) kernel" +
  port :: airport

fun kernel_call :: "acall \<Rightarrow> air \<Rightarrow> air result" where
  "kernel_call (K_Acquire l) s = Acquire l s"
| "kernel_call (K_Release l) s = Release l s"
| "kernel_call (K_Wait c l) s = Wait c (Some l) s"
| "kernel_call (K_Signal c l) s = Signal c (Some l) s"
| "kernel_call (K_Broadcast c l) s = Broadcast c l s"
| "kernel_call K_Yield s = Yield s"

definition air_exec :: "(nat \<Rightarrow> nat) \<Rightarrow> (nat \<Rightarrow> int) \<Rightarrow> acode \<Rightarrow> air \<Rightarrow> air result" where
  "air_exec R U c s = (case c of
       A_Call k \<Rightarrow> kernel_call k s
     | A_New t f \<Rightarrow> rbind (new_Thread t s) (Fork t f)
     | _ \<Rightarrow> rbind (piece_of R U c (port s)) (\<lambda>(cs, a). Inr (push (map F_Code cs) (s\<lparr>port := a\<rparr>))))"

text \<open>The state when \<open>main\<close> calls the simulation: the main thread enables interrupts and starts with \<open>setup\<close>.\<close>

definition air_start :: "(int \<Rightarrow> nat) \<Rightarrow> bool \<Rightarrow> (nat \<Rightarrow> tid option) \<Rightarrow> (nat \<Rightarrow> AddrSpace) \<Rightarrow> airport \<Rightarrow> air result" where
  "air_start rnd randomYield lockJunk spaces0 junk =
     (let s = kernel.extend (kernel_new (\<lambda>_. 0) lockJunk spaces0 (A_Setup St_start)) (air.fields (airport_memory junk))
      in if randomYield then Schedule (TimerHandler True) (TimeOfNextInterrupt rnd True 0) TimerInt s else Inr s)"

end
