(* ===== verification/Airport_Moves.thy ===== *)
theory Airport_Moves
  imports Airport
begin

text \<open>
  The airport seen without the kernel: each thread has the code it still has to run, and at any time any thread may run
  its next piece (\<open>air_move\<close>). Every step of the kernel is such a move or leaves the code and the data alone, so what
  holds of all interleavings of the moves holds of the simulation under every scheduling.
\<close>

section \<open>The kernel's invariant\<close>

lemma port_frame [simp]:
  "queue (s\<lparr>port := a\<rparr>) = queue s" "calls_ok (s\<lparr>port := a\<rparr>) = calls_ok s"
  by (rule queue_cong calls_ok_cong; simp)+

lemma inv_kept_kernel_call: "calls_ok s \<Longrightarrow> inv_kept (kernel_call k s)"
  by (cases k) (auto intro!: kernel_calls)

lemma inv_kept_air_new: "calls_ok s \<Longrightarrow> inv_kept (rbind (new_Thread t s) (Fork t f))"
proof (rule inv_kept_rbind)
  fix s1 assume "calls_ok s" "new_Thread t s = Inr s1"
  then show "inv_kept (Fork t f s1)" by (intro inv_kept_safe safe_Fork) (auto dest: calls_ok_new_Thread)
qed

lemma inv_kept_piece: "calls_ok s \<Longrightarrow> inv_kept (rbind r (\<lambda>(cs, a). Inr (push (map F_Code cs) (s\<lparr>port := a\<rparr>))))"
  by (rule inv_kept_rbind) (auto intro!: kernel_calls)

lemma inv_kept_air_exec: "calls_ok s \<Longrightarrow> inv_kept (air_exec R U c s)"
  by (cases c) (simp_all add: air_exec_def inv_kept_kernel_call inv_kept_air_new inv_kept_piece)

interpretation airport: kernel_user "fire rnd" "air_exec R U" for rnd R U
proof unfold_locales
  fix s s' :: air and h
  assume s: "sched_inv s" "level s = IntOff" "inHandler s" and "fire rnd h s = Inr s'"
  then show "handled s s'" using fire_handled [OF s, of rnd h] by simp
qed (rule inv_kept_air_exec)

section \<open>Code and data of a state\<close>

text \<open>Code and data are the same.\<close>

definition still :: "air \<Rightarrow> air \<Rightarrow> bool" where
  "still s s' \<longleftrightarrow> codes s' = codes s \<and> port s' = port s"

lemma port_more: "kernel.more s' = kernel.more s \<Longrightarrow> port s' = port (s :: air)"
  by (cases s; cases s') simp

lemma still_kview: "kview s' = kview s \<Longrightarrow> still s s'"
  unfolding still_def using codes_kview port_more [OF kview_eqD(5)] by blast

lemma still_lock: "only_lock l s s' \<Longrightarrow> still s s'"
  unfolding still_def using codes_only_lock port_more [OF only_lock_D(4)] by blast

lemma still_push: "concat (map code_of fs) = [] \<Longrightarrow> still (push fs s) s' = still s s'"
  using port_more [of "push fs s" s] by (simp add: still_def codes_push del: concat_eq_Nil_conv)

lemma still_Wait: "Wait c (Some l) s = Inr s' \<Longrightarrow> still s s'"
  using kv_Wait [of c l s s'] still_kview [of s' s] still_lock [of l "push [F_Acquire l] s" s']
  by (auto simp: still_push)

lemma still_Broadcast: "Broadcast c l s = Inr s' \<Longrightarrow> still s s'"
  using still_kview [OF kv_Signal, of c "Some l" "push [F_Broadcast c l] s" s']
  by (auto simp: Broadcast_def still_push split: if_splits) (simp add: still_def)

lemmas still_calls = still_lock [OF kv_Acquire] still_lock [OF kv_Release] still_Wait still_kview [OF kv_Signal]
  still_Broadcast still_kview [OF kv_Yield]

lemma still_kernel_call: "kernel_call k s = Inr s' \<Longrightarrow> still s s'"
  by (cases k) (auto dest: still_calls)

lemma still_fire:
  assumes "fire rnd h s = Inr s'"
  shows "still s s'"
proof (cases h)
  case (TimerHandler r)
  then have "codes s' = codes s \<and> port s' = port s"
    using assms by (auto simp: TimerExpired_def Schedule_def Let_def rbind_eq_Inr TimerInterruptHandler_def YieldOnReturn_def codes_def fun_eq_iff
        split: if_splits)
  then show ?thesis by (simp add: still_def)
next
  case (SignalHandler i)
  with assms have "V i s = Inr s'" by simp
  from kview_eqD [OF kv_V [OF this]] have "cores s' = cores s" "kernel.more s' = kernel.more s" by simp_all
  with port_more [OF this(2)] show ?thesis by (simp add: still_def codes_def fun_eq_iff)
qed

lemma still_P_loop:
  assumes "P_loop i old s = Inr s'"
  shows "still s s'"
proof -
  have "still s (set_sem i x s)" for x using port_more [of "set_sem i x s" s] by (simp add: still_def codes_def fun_eq_iff)
  then show ?thesis using kv_P_loop [OF assms] still_kview [of s' "push [F_P i old] s"] still_push [of "[F_P i old]" s s']
      still_kview [of s' "set_sem i ((semaphores s i)\<lparr>sem_value := sem_values s i - 1\<rparr>) s"]
    by (auto split: if_splits simp: still_def)
qed

section \<open>Moves\<close>

text \<open>The next thing a thread does: a call of the kernel, which changes neither code nor data of the airport, the start of
  a thread, or a piece of its work.\<close>

inductive air_move :: "(nat \<Rightarrow> nat) \<Rightarrow> (nat \<Rightarrow> int) \<Rightarrow> (tid \<Rightarrow> acode list) \<times> airport \<Rightarrow> (tid \<Rightarrow> acode list) \<times> airport \<Rightarrow> bool"
  for R U where
  called: "cs t = A_Call k # rest \<Longrightarrow> air_move R U (cs, a) (cs(t := rest), a)"
| forked: "cs t = A_New u f # rest \<Longrightarrow> u \<noteq> t \<Longrightarrow> air_move R U (cs, a) (cs(t := rest, u := [f]), a)"
| worked: "cs t = c # rest \<Longrightarrow> piece_of R U c a = Inr (ds, a') \<Longrightarrow> air_move R U (cs, a) (cs(t := ds @ rest), a')"

lemma pop_codes:
  assumes "popped_core (F_Code c) s (pop s)"
  shows "codes s (currentThread s) = c # codes (pop s) (currentThread s)" "codes (pop s) = (codes s)(currentThread s := codes (pop s) (currentThread s))"
    "port (pop (s :: air)) = port s" "currentThread (pop s) = currentThread s"
proof -
  have c: "cores s = (cores (pop s))(currentThread s := F_Code c # cores (pop s) (currentThread s))"
    and m: "kernel.more (pop s) = kernel.more s" and "currentThread (pop s) = currentThread s"
    using assms by (simp_all add: popped_core_def)
  from m show "port (pop s) = port s" by (rule port_more)
  show "currentThread (pop s) = currentThread s" by fact
  have "cores s u = (if u = currentThread s then F_Code c # cores (pop s) u else cores (pop s) u)" for u
    using fun_cong [OF c, of u] by simp
  then show "codes s (currentThread s) = c # codes (pop s) (currentThread s)"
    "codes (pop s) = (codes s)(currentThread s := codes (pop s) (currentThread s))"
    by (simp_all add: codes_def fun_eq_iff)
qed

lemma codes_new:
  assumes "new_Thread t s = Inr s1" "Fork t f s1 = Inr s'"
  shows "codes s' = (codes s)(t := [f]) \<and> port s' = port (s :: air) \<and> \<not> live s t"
proof -
  have s1: "s1 = set_thread t (Thread_new (\<lambda>_. 0) 0 0) (s\<lparr>live := (live s)(t := True)\<rparr>)" "\<not> live s t"
    using assms(1) by (auto simp: new_Thread_def split: if_splits)
  let ?s2 = "(set_thread t (StackAllocate f (threads s1 t)) s1)\<lparr>level := IntOff\<rparr>"
  obtain s3 where "ReadyToRun t ?s2 = Inr s3" "set_level (level s1) s3 = Inr s'"
    using assms(2) by (auto simp: Fork_def Let_def SetLevel_off rbind_eq_Inr set_thread_def)
  then have v: "kview s' = kview ?s2" by (simp add: kv_set_level kv_ReadyToRun)
  have "codes ?s2 = (codes s)(t := [f])"
    by (simp add: s1(1) codes_def cores_def fun_eq_iff set_thread_def StackAllocate_def)
  moreover have "port ?s2 = port s" by (simp add: s1(1) set_thread_def)
  ultimately show ?thesis using codes_kview [OF v] port_more [OF kview_eqD(5) [OF v]] s1(2) by simp
qed

lemma exec_move:
  assumes p: "popped_core (F_Code c) s (pop s)" and x: "air_exec R U c (pop s) = Inr s'"
    and inv: "kernel_inv s"
  shows "air_move R U (codes s, port s) (codes s', port s')"
proof -
  note pc = pop_codes [OF p]
  let ?t = "currentThread s" and ?rest = "codes (pop s) (currentThread s)"
  consider (call) k where "c = A_Call k" | (new) t f where "c = A_New t f"
    | (work) "\<forall>k t f. c \<noteq> A_Call k \<and> c \<noteq> A_New t f" by blast
  then show ?thesis
  proof cases
    case call
    with x have "still (pop s) s'" by (simp add: air_exec_def still_kernel_call)
    then have "codes s' = (codes s)(?t := ?rest)" "port s' = port s" using pc by (simp_all add: still_def)
    with air_move.called [of "codes s" ?t k ?rest R U "port s"] pc(1) call show ?thesis by simp
  next
    case (new t f)
    with x obtain s1 where "new_Thread t (pop s) = Inr s1" "Fork t f s1 = Inr s'" by (auto simp: air_exec_def rbind_eq_Inr)
    from codes_new [OF this] have s': "codes s' = (codes (pop s))(t := [f])" "port s' = port s" "\<not> live (pop s) t" using pc(3) by simp_all
    have "live s ?t" using inv by (auto simp: kernel_inv_def dest: sched_inv_D(1))
    then have "t \<noteq> ?t" using s'(3) by (auto simp: pop_def set_thread_def)
    with air_move.forked [of "codes s" ?t t f ?rest R U "port s"] pc(1) new s' pc(2) show ?thesis by metis
  next
    case work
    then have "air_exec R U c (pop s) = rbind (piece_of R U c (port (pop s))) (\<lambda>(cs, a). Inr (push (map F_Code cs) (pop s\<lparr>port := a\<rparr>)))"
      by (simp add: air_exec_def split: acode.split)
    with x obtain ds a where d: "piece_of R U c (port s) = Inr (ds, a)" and s': "s' = push (map F_Code ds) (pop s\<lparr>port := a\<rparr>)"
      by (auto simp: rbind_eq_Inr pc(3))
    have "codes (pop s\<lparr>port := a\<rparr>) = codes (pop s)" by (simp add: codes_def cores_def fun_eq_iff)
    then have "codes s' = (codes (pop s))(?t := ds @ ?rest)" by (simp add: s' codes_push pc(4))
    moreover have "port s' = a" using port_more [of s' "pop s\<lparr>port := a\<rparr>"] by (simp add: s')
    ultimately show ?thesis using air_move.worked [of "codes s" ?t c ?rest R U "port s" ds a] pc(1,2) d by (metis fun_upd_upd)
  qed
qed

lemma step_move:
  assumes "kernel_step (fire rnd) (air_exec R U) s = Inr s'" "kernel_inv s"
  shows "still s s' \<or> air_move R U (codes s, port s) (codes s', port s')"
  using assms(1)
proof (cases rule: step_view)
  case quiet
  then show ?thesis by (simp add: still_kview)
next
  case (fired h s1 s2)
  have "still s s1" using fired(1) port_more [of s1 s] by (simp add: taken_def still_def codes_def fun_eq_iff)
  moreover have "still s1 s2" using fired(2) by (rule still_fire)
  moreover have "still s2 s'" using fired(3) by (rule still_kview)
  ultimately show ?thesis by (simp add: still_def)
next
  case (core f fs)
  show ?thesis
  proof (cases "\<exists>c. f = F_Code c")
    case True
    then show ?thesis using core(2,3) exec_move assms(2) by auto
  next
    case False
    have c: "cores s = (cores (pop s))(currentThread s := f # cores (pop s) (currentThread s))"
      and m: "kernel.more (pop s) = kernel.more s" and "core f"
      using core(2) by (simp_all add: popped_core_def)
    have "codes (pop s) u = codes s u" for u
      using fun_cong [OF c, of u] False by (cases f) (simp_all add: codes_def split: if_splits)
    then have "still s (pop s)" using port_more [OF m] by (simp add: still_def fun_eq_iff)
    moreover have "still (pop s) s'"
      using core(3) False \<open>core f\<close> by (cases f) (auto dest: still_calls still_P_loop)
    ultimately show ?thesis by (simp add: still_def)
  qed
qed

text \<open>The states of all interleavings.\<close>

inductive air_reach :: "(nat \<Rightarrow> nat) \<Rightarrow> (nat \<Rightarrow> int) \<Rightarrow> airport \<Rightarrow> (tid \<Rightarrow> acode list) \<times> airport \<Rightarrow> bool" for R U junk where
  begun: "air_reach R U junk ((\<lambda>_. [])(0 := [A_Setup St_start]), airport_memory junk)"
| moved: "air_reach R U junk x \<Longrightarrow> air_move R U x y \<Longrightarrow> air_reach R U junk y"

lemma air_start_inv:
  assumes "air_start rnd ry lockJunk sp junk = Inr s"
  shows "kernel_inv s" "codes s = (\<lambda>_. [])(0 := [A_Setup St_start])" "port s = airport_memory junk"
proof -
  define s0 :: air where "s0 = kernel.extend (kernel_new (\<lambda>_. 0) lockJunk sp (A_Setup St_start)) (air.fields (airport_memory junk))"
  note defs = s0_def kernel_new_def kernel.defs air.defs
  have q: "queue s0 q = []" for q
    by (cases q) (simp_all add: defs Semaphore_new_def Lock_new_def Condition_new_def)
  have i: "kernel_inv s0" unfolding kernel_inv_def sched_inv_def q by (simp add: cur_def Thread_new_def defs)
  have c: "codes s0 = (\<lambda>_. [])(0 := [A_Setup St_start])" "port s0 = airport_memory junk"
    by (simp_all add: defs codes_def cores_def fun_eq_iff Thread_new_def)
  have p: "kernel_inv (s0\<lparr>pending := p\<rparr>) = kernel_inv s0" "codes (s0\<lparr>pending := p\<rparr>) = codes s0" "port (s0\<lparr>pending := p\<rparr>) = port s0" for p
    by (simp_all add: kernel_inv_def codes_def fun_eq_iff)
  consider "s = s0" | p where "s = s0\<lparr>pending := p\<rparr>"
    using assms by (auto simp: air_start_def Let_def s0_def [symmetric] Schedule_def rbind_eq_Inr split: if_splits)
  then have "kernel_inv s \<and> codes s = codes s0 \<and> port s = port s0" using i by cases (auto simp: p)
  then show "kernel_inv s" "codes s = (\<lambda>_. [])(0 := [A_Setup St_start])" "port s = airport_memory junk" using c by auto
qed

lemma reachable_air:
  assumes "reachable (fire rnd) (air_exec R U) s0 s" "air_start rnd ry lockJunk sp junk = Inr s0"
  shows "kernel_inv s \<and> air_reach R U junk (codes s, port s)"
  using assms
proof (induction rule: reachable.induct)
  case start
  then show ?case unfolding air_start_inv(2,3) [OF start] using air_start_inv(1) air_reach.begun by blast
next
  case (step s s')
  then have "kernel_inv s" "air_reach R U junk (codes s, port s)" by simp_all
  moreover from this have "still s s' \<or> air_move R U (codes s, port s) (codes s', port s')" "kernel_inv s'"
    using step_move [OF step.hyps(2)] airport.step_kept [OF step.hyps(2)] by simp_all
  ultimately show ?case using air_reach.moved [of R U junk "(codes s, port s)"] by (auto simp: still_def)
qed

end
