(* ===== verification/Airport_Crew.thy ===== *)
theory Airport_Crew
  imports Airport_Moves
begin

text \<open>
  Who runs what: thread \<open>t\<close> of the simulation runs the code of one agent, the \<open>t\<close>-th of the roster, and has at any time
  some calls of the kernel before it and then one place in that agent's code. No two threads run the same agent.
\<close>

section \<open>Places\<close>

definition sims :: "airport \<Rightarrow> nat \<times> nat \<times> nat \<times> nat \<times> nat \<times> nat" where
  "sims a = (simNumOfPassengers a, simNumOfAirlines a, simNumOfLiaisons a, simNumOfCIOs a, simNumOfCargoHandlers a, simNumOfScreeningOfficers a)"

lemma sims_eqD:
  assumes "sims a' = sims a"
  shows "simNumOfPassengers a' = simNumOfPassengers a" "simNumOfAirlines a' = simNumOfAirlines a" "simNumOfLiaisons a' = simNumOfLiaisons a"
    "simNumOfCIOs a' = simNumOfCIOs a" "simNumOfCargoHandlers a' = simNumOfCargoHandlers a"
    "simNumOfScreeningOfficers a' = simNumOfScreeningOfficers a" "roster a' = roster a"
  using assms by (simp_all add: sims_def roster_def)

text \<open>Where the code of the agent begins; calls and new threads have none.\<close>

fun home :: "acode \<Rightarrow> acode option" where
  "home (A_Call k) = None"
| "home (A_New t f) = None"
| "home (A_Setup pc) = Some (A_Setup St_start)"
| "home (A_Passenger p pc) = Some (A_Passenger p (With_Liaison Pa_start))"
| "home (A_Liaison n pc) = Some (A_Liaison n Li_loop)"
| "home (A_CheckIn n pc) = Some (A_CheckIn n Ci_loop)"
| "home (A_Cargo n pc) = Some (A_Cargo n Ca_loop)"
| "home (A_Manager pc) = Some (A_Manager Mg_loop)"
| "home (A_Screening n pc) = Some (A_Screening n Sc_loop)"
| "home (A_Security n pc) = Some (A_Security n Se_loop)"

text \<open>After a piece of its code an agent makes calls and goes on at one place or ends.\<close>

definition goes_on :: "acode \<Rightarrow> airport \<Rightarrow> piece \<Rightarrow> bool" where
  "goes_on c a r \<longleftrightarrow> (\<forall>ds a'. r = Inr (ds, a') \<longrightarrow> sims a' = sims a \<and>
     (\<exists>ks next. ds = map A_Call ks @ next \<and> (next = [] \<or> (\<exists>d. next = [d] \<and> home d = home c))))"

lemma goes_on_simps [simp]:
  "goes_on c a (Inl e)" "goes_on c a (go ks [] a') = (sims a' = sims a)"
  "home d = home c \<Longrightarrow> goes_on c a (go ks [d] a') = (sims a' = sims a)"
  by (auto simp: goes_on_def go_def)

lemma goes_on_rbind [intro!]: "(\<And>x. r = Inr x \<Longrightarrow> goes_on c a (f x)) \<Longrightarrow> goes_on c a (rbind r f)"
  by (cases r) simp_all

lemma sims_simps [simp]:
  "sims (set_passenger p x1 a) = sims a" "sims (set_liaison p x2 a) = sims a" "sims (set_checkin p x3 a) = sims a"
  "sims (set_cargo p x4 a) = sims a" "sims (set_screen p x5 a) = sims a" "sims (set_security p x6 a) = sims a"
  "sims (EndOfDay a) = sims a" "sims (snd (rand R a)) = sims a" "sims (Passenger_new R n a) = sims a"
  by (simp_all add: sims_def set_passenger_def set_liaison_def set_checkin_def set_cargo_def set_screen_def set_security_def EndOfDay_def
      Let_def rand_def Passenger_new_def)

lemma setupExecutiveCIOs_eq: "setupExecutiveCIOs a = Inr a' \<Longrightarrow> \<exists>l f. a' = a\<lparr>CheckInLine := l, CheckIn := f\<rparr>"
  by (auto simp: setupExecutiveCIOs_def rbind_eq_Inr Let_def)

lemma sims_setup_before:
  assumes "setup_before a = Inr a'"
  shows "sims a' = sims a"
proof -
  have 1: "sims (createAirportManager a) = sims a" "sims (createCIOs a) = sims a" for a
    by (simp_all add: createAirportManager_def createCIOs_def sims_def)
  have 2: "setupAirlines n a = Inr a' \<Longrightarrow> sims a' = sims a" for n a a'
    by (auto simp: setupAirlines_def rbind_eq_Inr Let_def sims_def)
  have 3: "setupEconomyCIOs a = Inr a' \<Longrightarrow> sims a' = sims a" "createLiaisons n a = Inr a' \<Longrightarrow> sims a' = sims a" for n a a'
    by (auto simp: setupEconomyCIOs_def createLiaisons_def rbind_eq_Inr Let_def sims_def)
  have 4: "setupExecutiveCIOs a = Inr a' \<Longrightarrow> sims a' = sims a" for a a' using setupExecutiveCIOs_eq [of a a'] by (auto simp: sims_def)
  show ?thesis using assms by (auto simp: setup_before_def rbind_eq_Inr 1 dest!: 2 3 4)
qed

lemma sims_setup_after [simp]: "sims (setup_after R a) = sims a"
proof -
  have "sims (fold (Passenger_new R) ns a) = sims a" for ns a
    by (induction ns arbitrary: a) simp_all
  then show ?thesis unfolding setup_after_def createPassengers_def by (simp add: createCargoHandlers_def sims_def)
qed

lemmas set_defs = set_passenger_def set_liaison_def set_checkin_def set_cargo_def set_screen_def set_security_def

lemma goes_on_passenger: "goes_on (A_Passenger p pc) a (ChooseLiaisonLine R U p pc a)"
proof (cases pc)
  case (With_Liaison l)
  then show ?thesis by (cases l) (auto simp: Let_def sims_def set_defs)
next
  case (At_CheckIn l)
  then show ?thesis by (cases l) (auto simp: Let_def sims_def set_defs)
next
  case (At_Screening l)
  then show ?thesis by (cases l) (auto simp: Let_def sims_def set_defs split: prod.split)
next
  case (At_Security l)
  then show ?thesis by (cases l) (auto simp: Let_def sims_def set_defs rand_def)
next
  case At_Gate
  then show ?thesis by (simp add: Passenger_gate_def Let_def sims_def)
qed

lemma goes_on_officers:
  "goes_on (A_Liaison n pc1) a (LiaisonOfficer_DoWork R n pc1 a)"
  "goes_on (A_CheckIn n pc2) a (CheckInOfficer_DoWork n pc2 a)"
  "goes_on (A_Cargo n pc3) a (CargoHandler_DoWork n pc3 a)"
  "goes_on (A_Manager pc4) a (AirportManager_DoWork pc4 a)"
  "goes_on (A_Screening n pc5) a (ScreeningOfficer_DoWork R n pc5 a)"
  "goes_on (A_Security n pc6) a (SecurityOfficer_DoWork R n pc6 a)"
  subgoal by (cases pc1) (auto simp: Let_def sims_def set_defs rand_def)
  subgoal by (cases pc2) (auto simp: Let_def sims_def set_defs)
  subgoal by (cases pc3) (auto simp: Let_def sims_def set_defs split: list.split)
  subgoal by (cases pc4) (auto simp: Let_def sims_def EndOfDay_def)
  subgoal by (cases pc5) (auto simp: Let_def sims_def set_defs rand_def)
  subgoal by (cases pc6) (auto simp: Let_def sims_def set_defs rand_def)
  done

lemma goes_on_setup: "pc \<noteq> St_rest \<Longrightarrow> goes_on (A_Setup pc) a (setup_DoWork R pc a)"
  by (cases pc) (auto simp: sims_def set_defs dest: sims_setup_before)

lemma goes_on_piece: "c \<noteq> A_Setup St_rest \<Longrightarrow> goes_on c a (piece_of R U c a)"
  by (cases c) (auto simp: goes_on_passenger goes_on_officers goes_on_setup)

section \<open>The crew\<close>

definition forks :: "airport \<Rightarrow> nat \<Rightarrow> acode list" where
  "forks a k = map (\<lambda>t. A_New t (roster a ! t)) [k..<length (roster a)]"

text \<open>Calls, then a place of the agent \<open>h\<close>.\<close>

definition on_duty :: "acode \<Rightarrow> acode list \<Rightarrow> bool" where
  "on_duty h cs \<longleftrightarrow> (\<exists>ks next. cs = map A_Call ks @ next \<and> (next = [] \<or> (\<exists>d. next = [d] \<and> home d = Some h)))"

lemma on_duty_Nil [simp]: "on_duty h []"
  by (simp add: on_duty_def)

lemma on_duty_place [simp]: "home d = Some h \<Longrightarrow> on_duty h [d]"
  unfolding on_duty_def by (rule exI [of _ "[]"]) simp

lemma on_duty_Cons:
  assumes "on_duty h (c # rest)"
  obtains (call) k where "c = A_Call k" "on_duty h rest" | (place) "home c = Some h" "rest = []"
proof -
  obtain ks nxt where *: "c # rest = map A_Call ks @ nxt" "nxt = [] \<or> (\<exists>d. nxt = [d] \<and> home d = Some h)"
    using assms by (auto simp: on_duty_def)
  show ?thesis
  proof (cases ks)
    case Nil
    with * show ?thesis using place by auto
  next
    case (Cons k ks')
    with * show ?thesis using call [of k] by (auto simp: on_duty_def)
  qed
qed

lemma on_duty_home: "on_duty h cs \<Longrightarrow> c \<in> set cs \<Longrightarrow> home c = None \<or> home c = Some h"
  by (auto simp: on_duty_def)

lemma on_duty_goes_on:
  assumes "goes_on c a (Inr (ds, a'))" "home c = Some h"
  shows "on_duty h ds"
  using assms by (fastforce simp: goes_on_def on_duty_def)

text \<open>\<open>k\<close> threads have been started; the main thread is at its setup, or has the rest of the threads to start.\<close>

definition crew :: "(tid \<Rightarrow> acode list) \<Rightarrow> airport \<Rightarrow> nat \<Rightarrow> bool" where
  "crew cs a k \<longleftrightarrow> 0 < k \<and> k \<le> length (roster a) \<and> (\<forall>t\<ge>k. cs t = [])
     \<and> (\<forall>t<k. 0 < t \<longrightarrow> on_duty (roster a ! t) (cs t))
     \<and> (cs 0 = forks a k \<or> k = 1 \<and> (\<exists>ks pc. cs 0 = map A_Call ks @ [A_Setup pc]))"

lemma roster_homes: "c \<in> set (roster a) \<Longrightarrow> home c = Some c"
  by (auto simp: roster_def)

lemma roster_distinct: "distinct (roster a)"
proof -
  have d: "distinct (map (\<lambda>i. f i) [0..<n])" if "inj f" for f :: "nat \<Rightarrow> acode" and n
    using that by (simp add: distinct_map inj_on_subset [OF that])
  have "distinct (concat (map (\<lambda>i. [A_Screening i Sc_loop, A_Security i Se_loop]) [0..<n]))" for n
    by (induction n) auto
  then show ?thesis by (auto simp: roster_def d inj_def)
qed

lemma length_roster: "2 \<le> length (roster a)"
  by (simp add: roster_def)

lemma crew_started:
  assumes "crew cs a k" "cs t \<noteq> []"
  shows "t < k"
proof (rule ccontr)
  assume "\<not> t < k"
  moreover have "\<forall>t\<ge>k. cs t = []" using assms(1) unfolding crew_def by simp
  ultimately show False using assms(2) by simp
qed

lemma crew_other:
  assumes "crew cs a k" "t \<noteq> 0"
  shows "on_duty (roster a ! t) (cs t)"
  using assms by (cases "t < k") (auto simp: crew_def)

lemma crew_main:
  assumes "crew cs a k" "c \<in> set (cs 0)" "home c = Some h"
  shows "k = 1 \<and> (\<exists>ks pc. cs 0 = map A_Call ks @ [A_Setup pc] \<and> c = A_Setup pc)"
proof -
  have "c \<notin> set (forks a k)" using assms(3) by (auto simp: forks_def)
  with assms show ?thesis by (fastforce simp: crew_def)
qed

text \<open>A thread with an agent's place in its code is the thread of this agent, and this place is all of its code but calls.\<close>

lemma crew_place:
  assumes "crew cs a k" "c \<in> set (cs t)" "home c = Some h"
  shows "t < length (roster a) \<and> roster a ! t = h"
proof (cases "t = 0")
  case True
  with crew_main [OF assms(1) _ assms(3)] assms show ?thesis by (auto simp: roster_def)
next
  case False
  have "t < k" using crew_started [OF assms(1), of t] assms(2) by (cases "cs t") simp_all
  then have "t < length (roster a)" using assms(1) by (simp add: crew_def)
  moreover have "home c = Some (roster a ! t)" using on_duty_home [OF crew_other [OF assms(1) False] assms(2)] assms(3) by simp
  ultimately show ?thesis using assms(3) by simp
qed

lemma crew_alone:
  assumes "crew cs a k" "c \<in> set (cs t)" "home c = Some h" "d \<in> set (cs u)" "home d = Some h"
  shows "t = u"
  using crew_place [OF assms(1-3)] crew_place [OF assms(1,4,5)] roster_distinct [of a] by (auto simp: nth_eq_iff_index_eq)

lemma crew_running:
  assumes "crew cs a k" "cs t = c # rest" "home c = Some h"
  shows "rest = []"
proof (cases "t = 0")
  case True
  then obtain ks pc where "c # rest = map A_Call ks @ [A_Setup pc]" "c = A_Setup pc"
    using crew_main [OF assms(1) _ assms(3)] assms(2) by auto
  then show ?thesis by (cases ks) auto
next
  case False
  from crew_other [OF assms(1) this] assms(2) have "on_duty (roster a ! t) (c # rest)" by simp
  then show ?thesis by (rule on_duty_Cons) (use assms(3) in auto)
qed

section \<open>Moves of the crew\<close>

lemma piece_home: "piece_of R U c a = Inr x \<Longrightarrow> \<exists>h. home c = Some h"
  by (cases c) simp_all

lemma piece_sims: "piece_of R U c a = Inr (ds, a') \<Longrightarrow> sims a' = sims a"
proof (cases "c = A_Setup St_rest")
  case False
  then show "piece_of R U c a = Inr (ds, a') \<Longrightarrow> ?thesis" using goes_on_piece [OF False, of a R U] by (simp add: goes_on_def)
qed (auto simp: go_def Let_def)

lemma forks_Cons: "k < length (roster a) \<Longrightarrow> forks a k = A_New k (roster a ! k) # forks a (Suc k)"
  by (simp add: forks_def upt_conv_Cons)

lemma crew_called:
  assumes "crew cs a k" "cs t = A_Call c # rest"
  shows "crew (cs(t := rest)) a k"
proof (cases "t = 0")
  case True
  have "cs 0 \<noteq> forks a k" using assms True by (cases "[k..<length (roster a)]") (auto simp: forks_def)
  then obtain ks pc where "k = 1" "A_Call c # rest = map A_Call ks @ [A_Setup pc]" using assms True by (auto simp: crew_def)
  then have "\<exists>ks pc. rest = map A_Call ks @ [A_Setup pc]" by (cases ks) auto
  with assms True \<open>k = 1\<close> show ?thesis by (auto simp: crew_def)
next
  case False
  with crew_other [OF assms(1), of t] assms(2) have "on_duty (roster a ! t) (A_Call c # rest)" by simp
  then have "on_duty (roster a ! t) rest" by (rule on_duty_Cons) auto
  moreover have "t < k" using crew_started [OF assms(1), of t] assms(2) by (cases "cs t") simp_all
  ultimately show ?thesis using assms(1) False by (auto simp: crew_def)
qed

lemma crew_forked:
  assumes "crew cs a k" "cs t = A_New u f # rest"
  shows "crew (cs(t := rest, u := [f])) a (Suc k)" "t = 0" "u = k" "f = roster a ! k" "k < length (roster a)" "cs u = []"
proof -
  show t: "t = 0"
  proof (rule ccontr)
    assume "t \<noteq> 0"
    from crew_other [OF assms(1) this] assms(2) have "on_duty (roster a ! t) (A_New u f # rest)" by simp
    then show False by (rule on_duty_Cons) auto
  qed
  have "cs 0 \<noteq> map A_Call ks @ [A_Setup pc]" for ks pc using assms(2) t by (cases ks) auto
  then have f: "cs 0 = forks a k" using assms(1) by (auto simp: crew_def)
  then show k: "k < length (roster a)" using assms(2) t by (cases "k < length (roster a)") (auto simp: forks_def)
  with f assms(2) t show u: "u = k" "f = roster a ! k" by (auto simp: forks_Cons)
  have "rest = forks a (Suc k)" using f assms(2) t k by (auto simp: forks_Cons)
  moreover have "home f = Some f" using roster_homes [OF nth_mem [OF k]] u(2) by simp
  ultimately show "crew (cs(t := rest, u := [f])) a (Suc k)" using assms(1) t u k
    by (auto simp: crew_def less_Suc_eq)
  show "cs u = []" using assms(1) u by (simp add: crew_def)
qed

lemma go_setup: "go ks [A_Setup pc] a = Inr (ds, a') \<Longrightarrow> \<exists>ks pc. ds = map A_Call ks @ [A_Setup pc]"
  unfolding go_def by blast

lemma crew_worked:
  assumes "crew cs a k" "cs t = c # rest" "piece_of R U c a = Inr (ds, a')"
  shows "crew (cs(t := ds @ rest)) a' k" "rest = []" "sims a' = sims a"
proof -
  obtain h where h: "home c = Some h" using piece_home [OF assms(3)] ..
  show r: "rest = []" by (rule crew_running [OF assms(1,2) h])
  show s: "sims a' = sims a" by (rule piece_sims [OF assms(3)])
  have eq: "roster a' = roster a" "forks a' = forks a" using sims_eqD(7) [OF s] by (simp_all add: forks_def fun_eq_iff)
  show "crew (cs(t := ds @ rest)) a' k"
  proof (cases "t = 0")
    case True
    then obtain pc where pc: "k = 1" "c = A_Setup pc" using crew_main [OF assms(1) _ h] assms(2) by auto
    have "ds = forks a 1 \<or> (\<exists>ks pc. ds = map A_Call ks @ [A_Setup pc])"
    proof (cases "pc = St_rest")
      case True
      then have "roster (setup_after R a) = roster a" using sims_eqD(7) sims_setup_after by blast
      with True pc assms(3) show ?thesis by (auto simp: go_def Let_def forks_def)
    next
      case False
      with pc assms(3) show ?thesis by (cases pc) (auto simp: rbind_eq_Inr split: if_splits dest!: go_setup)
    qed
    with True pc assms(1) r show ?thesis by (auto simp: crew_def eq)
  next
    case False
    have c: "c \<noteq> A_Setup St_rest"
    proof
      assume "c = A_Setup St_rest"
      then have "roster a ! t = roster a ! 0" "t < length (roster a)" using crew_place [OF assms(1), of c t h] assms(2) h by (auto simp: roster_def)
      then show False using False nth_eq_iff_index_eq [OF roster_distinct, of t a 0] length_roster [of a] by (simp del: length_greater_0_conv)
    qed
    have "goes_on c a (Inr (ds, a'))" using goes_on_piece [OF c, of a R U] assms(3) by simp
    then have "on_duty h ds" using h by (rule on_duty_goes_on)
    moreover have "roster a ! t = h" using crew_place [OF assms(1), of c t h] assms(2) h by simp
    moreover have "t < k" using crew_started [OF assms(1), of t] assms(2) by (cases "cs t") simp_all
    ultimately show ?thesis using assms(1) False r by (auto simp: crew_def eq)
  qed
qed

lemma crew_move:
  assumes "air_move R U x y" "crew (fst x) (snd x) k"
  shows "\<exists>k'. crew (fst y) (snd y) k'"
  using assms by cases (auto dest: crew_called crew_forked(1) crew_worked(1))

lemma crew_begun: "crew ((\<lambda>_. [])(0 := [A_Setup St_start])) a 1"
  using length_roster [of a] by (auto simp: crew_def intro!: exI [of _ "[]"])

lemma air_reach_crew: "air_reach R U junk x \<Longrightarrow> \<exists>k. crew (fst x) (snd x) k"
proof (induction rule: air_reach.induct)
  case begun
  show ?case unfolding fst_conv snd_conv by (rule exI) (rule crew_begun)
qed (auto dest: crew_move)

end
