(* ===== verification/Airport_Opening.thy ===== *)
theory Airport_Opening
  imports Airport_Crew
begin

text \<open>
  The state in which the airport opens, when \<open>setup\<close> is done and the first thread is about to be started
  (\<open>fresh\<close>), and the rule for invariants of the open airport (locale \<open>airport_invariant\<close>): what holds at the opening
  and is kept by calls, by the start of threads and by the pieces of the agents' work holds ever after.
\<close>

section \<open>The opening\<close>

text \<open>The static variables that no function of the setup writes.\<close>

definition untouched :: "airport \<Rightarrow> bool" where
  "untouched a \<longleftrightarrow> planeCount a = 0 \<and> conveyor a = [] \<and> totalBaggage a = (\<lambda>_. 0) \<and> totalWeight a = (\<lambda>_. 0)
     \<and> ticketsIssued a = (\<lambda>_. 0) \<and> liaisonBaggageCount a = (\<lambda>_. 0) \<and> alreadyBoarded a = (\<lambda>_. False)"

text \<open>What \<open>setup\<close> has done before the security officers are made.\<close>

definition prepared :: "airport \<Rightarrow> bool" where
  "prepared a \<longleftrightarrow> untouched a \<and> 0 < simNumOfAirlines a \<and> simNumOfAirlines a \<le> MAX_AIRLINES
     \<and> simNumOfAirlines a * simNumOfCIOs a + simNumOfAirlines a \<le> CHECKIN_COUNT * AIRLINE_COUNT \<and> simNumOfLiaisons a \<le> LIAISONLINE_COUNT
     \<and> (\<forall>j < simNumOfAirlines a. aircraftBaggageCount a j = 0 \<and> aircraftBaggageWeight a j = 0 \<and> boardingLounges a j = 0 \<and> gates a j = j)
     \<and> (\<forall>j < simNumOfAirlines a. totalPassengersOfAirline a j = int (simNumOfPassengers a div simNumOfAirlines a)
          + (if j = 0 then int (simNumOfPassengers a mod simNumOfAirlines a) else 0))
     \<and> (\<forall>n < simNumOfAirlines a * simNumOfCIOs a. CheckIn a n = CheckInOfficer_new (simNumOfCIOs a) n)
     \<and> (\<forall>n < simNumOfLiaisons a. li_passengerCount (liaisonOfficers a n) = 0
          \<and> (\<forall>j < simNumOfAirlines a. li_airlineBaggageCount (liaisonOfficers a n) j = 0))
     \<and> (\<forall>j < simNumOfAirlines a. CargoHandlerTotalWeight (simAirportManager a) j = 0 \<and> CargoHandlerTotalCount (simAirportManager a) j = 0
          \<and> CIOTotalWeight (simAirportManager a) j = 0 \<and> LiaisonTotalCount (simAirportManager a) j = 0)
     \<and> liaisonPassengerCount (simAirportManager a) = 0 \<and> checkInPassengerCount (simAirportManager a) = 0
     \<and> securityPassengerCount (simAirportManager a) = 0"

definition passenger_made :: "nat \<Rightarrow> Passenger \<Rightarrow> bool" where
  "passenger_made p x \<longleftrightarrow> pa_name x = p \<and> length (pa_bags x) = pa_baggageCount x
     \<and> pa_baggageCount x \<in> {BAGGAGE_COUNT, BAGGAGE_COUNT + 1} \<and> (\<forall>b \<in> set (pa_bags x). weight b \<in> {30..60})"

definition fresh :: "airport \<Rightarrow> bool" where
  "fresh a \<longleftrightarrow> prepared a
     \<and> (\<forall>n < simNumOfCargoHandlers a. \<forall>j < simNumOfAirlines a. ca_weight (cargoHandlers a n) j = 0 \<and> ca_count (cargoHandlers a n) j = 0)
     \<and> (\<forall>p < simNumOfPassengers a. passenger_made p (simPassengers a p))"

lemma untouched_memory: "untouched (airport_memory junk)"
  by (simp add: untouched_def airport_memory_def)

lemma setup_CIOs_eq:
  "setupEconomyCIOs a = Inr a' \<Longrightarrow> \<exists>l f. a' = a\<lparr>CheckInLine := l, CheckIn := f\<rparr>"
  "setupExecutiveCIOs a = Inr a' \<Longrightarrow> simNumOfAirlines a * simNumOfCIOs a + simNumOfAirlines a \<le> CHECKIN_COUNT * AIRLINE_COUNT"
  by (auto simp: setupEconomyCIOs_def setupExecutiveCIOs_def rbind_eq_Inr Let_def)

lemma setup_before_prepared:
  assumes "setup_before a = Inr a'" "untouched a"
  shows "prepared a'"
proof -
  obtain a1 a2 a3 where a1: "setupAirlines (simNumOfAirlines a) (createAirportManager a) = Inr a1" and a2: "setupEconomyCIOs a1 = Inr a2"
    and a3: "setupExecutiveCIOs a2 = Inr a3" and a': "createLiaisons (simNumOfLiaisons a3) (createCIOs a3) = Inr a'"
    using assms(1) by (auto simp: setup_before_def rbind_eq_Inr)
  define n where "n = simNumOfAirlines a"
  have s: "sims a1 = sims a" using a1 by (auto simp: setupAirlines_def rbind_eq_Inr Let_def sims_def createAirportManager_def)
  have 1: "0 < n" "n \<le> MAX_AIRLINES" "untouched a1"
    "\<forall>j < n. aircraftBaggageCount a1 j = 0 \<and> aircraftBaggageWeight a1 j = 0 \<and> boardingLounges a1 j = 0 \<and> gates a1 j = j"
    "\<forall>j < n. totalPassengersOfAirline a1 j = int (simNumOfPassengers a div n) + (if j = 0 then int (simNumOfPassengers a mod n) else 0)"
    "simAirportManager a1 = AirportManager_new n (simAirportManager a)"
    using a1 assms(2) by (auto simp: setupAirlines_def rbind_eq_Inr Let_def fill_with_def number_def createAirportManager_def n_def untouched_def)
  obtain l f where b: "a2 = a1\<lparr>CheckInLine := l, CheckIn := f\<rparr>" using setup_CIOs_eq(1) [OF a2] by blast
  moreover obtain l' f' where "a3 = a2\<lparr>CheckInLine := l', CheckIn := f'\<rparr>" using setupExecutiveCIOs_eq [OF a3] by blast
  ultimately have a3': "a3 = a1\<lparr>CheckInLine := l', CheckIn := f'\<rparr>" by simp
  have 2: "n * simNumOfCIOs a + n \<le> CHECKIN_COUNT * AIRLINE_COUNT"
    using setup_CIOs_eq(2) [OF a3] sims_eqD [OF s] by (simp add: b n_def)
  show ?thesis using a' 1 2 sims_eqD [OF s]
    by (auto simp: prepared_def a3' createLiaisons_def createCIOs_def rbind_eq_Inr n_def untouched_def LiaisonOfficer_new_def AirportManager_new_def number_def remake_def fill_with_def)
qed

lemma prepared_cong [simp]:
  "prepared (a\<lparr>SecurityLine := x1\<rparr>) = prepared a" "prepared (a\<lparr>SecurityAvailability := x2\<rparr>) = prepared a"
  "prepared (set_security n x3 a) = prepared a" "prepared (set_screen n x4 a) = prepared a"
  "prepared (a\<lparr>cargoHandlers := x5\<rparr>) = prepared a" "prepared (a\<lparr>simPassengers := x6, rand_pos := x7\<rparr>) = prepared a"
  by (simp_all add: prepared_def untouched_def set_security_def set_screen_def)

lemma passenger_made_new:
  "passenger_made n (simPassengers (Passenger_new R n a) n)" "p \<noteq> n \<Longrightarrow> simPassengers (Passenger_new R n a) p = simPassengers a p"
  by (auto simp: Passenger_new_def rand_def Let_def passenger_made_def Passenger_bags_def BAGGAGE_WEIGHT_def)

lemma Passenger_new_eq: "\<exists>ps k. Passenger_new R n a = a\<lparr>simPassengers := ps, rand_pos := k\<rparr>"
  by (auto simp: Passenger_new_def rand_def Let_def)

lemma createPassengers_made:
  "\<exists>ps k. createPassengers R n a = a\<lparr>simPassengers := ps, rand_pos := k\<rparr> \<and> (\<forall>p < n. passenger_made p (ps p))"
proof (induction n)
  case 0
  show ?case by (intro exI [of _ "simPassengers a"] exI [of _ "rand_pos a"]) (simp add: createPassengers_def)
next
  case (Suc n)
  then obtain ps k where ps: "createPassengers R n a = a\<lparr>simPassengers := ps, rand_pos := k\<rparr>" "\<forall>p < n. passenger_made p (ps p)" by blast
  have "createPassengers R (Suc n) a = Passenger_new R n (createPassengers R n a)" by (simp add: createPassengers_def)
  moreover obtain ps' k' where q: "Passenger_new R n (createPassengers R n a) = (createPassengers R n a)\<lparr>simPassengers := ps', rand_pos := k'\<rparr>"
    using Passenger_new_eq by blast
  moreover have "passenger_made p (ps' p)" if "p < Suc n" for p
    using passenger_made_new(1) [of n R "createPassengers R n a"] passenger_made_new(2) [of p n R "createPassengers R n a"] that ps q
    by (cases "p = n") auto
  ultimately show ?case using ps(1) by auto
qed

lemma setup_after_fresh: "prepared a \<Longrightarrow> fresh (setup_after R a)"
proof -
  assume p: "prepared a"
  let ?b = "createCargoHandlers (simNumOfCargoHandlers a) a"
  obtain ps k where ps: "createPassengers R (simNumOfPassengers a) ?b = ?b\<lparr>simPassengers := ps, rand_pos := k\<rparr>"
    "\<forall>p < simNumOfPassengers a. passenger_made p (ps p)"
    using createPassengers_made by blast
  have "setup_after R a = ?b\<lparr>simPassengers := ps, rand_pos := k\<rparr>" using ps(1) by (simp add: setup_after_def)
  then show ?thesis using p ps(2) by (simp add: fresh_def createCargoHandlers_def CargoHandler_new_def remake_def fill_with_def)
qed

text \<open>Where the setup stands.\<close>

definition setting_up :: "setup_pc \<Rightarrow> airport \<Rightarrow> bool" where
  "setting_up pc a \<longleftrightarrow> (if pc = St_start then untouched a else prepared a)"

lemma setting_up_piece:
  assumes "setup_DoWork R pc a = Inr (ds, a')" "setting_up pc a" "A_Setup pc' \<in> set ds"
  shows "setting_up pc' a'"
  using assms
  by (cases pc) (auto simp: setting_up_def go_def rbind_eq_Inr Let_def split: if_splits dest: setup_before_prepared)

section \<open>Invariants of the open airport\<close>

locale airport_invariant =
  fixes R :: "nat \<Rightarrow> nat" and U :: "nat \<Rightarrow> int" and I :: "(tid \<Rightarrow> acode list) \<Rightarrow> airport \<Rightarrow> bool"
  assumes opened: "fresh a \<Longrightarrow> I ((\<lambda>_. [])(0 := forks a 1)) a"
    and called: "I cs a \<Longrightarrow> crew cs a k \<Longrightarrow> cs t = A_Call x # rest \<Longrightarrow> I (cs(t := rest)) a"
    and forked: "I cs a \<Longrightarrow> crew cs a k \<Longrightarrow> cs 0 = forks a k \<Longrightarrow> 0 < k \<Longrightarrow> k < length (roster a) \<Longrightarrow> cs k = []
      \<Longrightarrow> I (cs(0 := forks a (Suc k), k := [roster a ! k])) a"
    and worked: "I cs a \<Longrightarrow> crew cs a k \<Longrightarrow> t < length (roster a) \<Longrightarrow> cs t = [c] \<Longrightarrow> home c = Some (roster a ! t) \<Longrightarrow> t \<noteq> 0
      \<Longrightarrow> piece_of R U c a = Inr (ds, a') \<Longrightarrow> sims a' = sims a \<Longrightarrow> I (cs(t := ds)) a'"
begin

lemma moved:
  assumes m: "air_move R U (cs, a) (cs', a')" and k: "crew cs a k"
    and s: "\<And>pc. A_Setup pc \<in> set (cs 0) \<Longrightarrow> setting_up pc a" and i: "\<forall>pc. A_Setup pc \<notin> set (cs 0) \<Longrightarrow> I cs a"
  shows "(\<forall>pc. A_Setup pc \<in> set (cs' 0) \<longrightarrow> setting_up pc a') \<and> ((\<forall>pc. A_Setup pc \<notin> set (cs' 0)) \<longrightarrow> I cs' a')"
  using m
proof cases
  case (called t x rest)
  have "A_Setup pc \<in> set (cs' 0) \<longleftrightarrow> A_Setup pc \<in> set (cs 0)" for pc using called by auto
  with called show ?thesis using s i airport_invariant.called [OF airport_invariant_axioms _ k called(3)] by auto
next
  case (forked t u f rest)
  note f = crew_forked [OF k forked(3)]
  have "cs 0 = forks a k" using f(5) forked(3) k f(2) unfolding crew_def by (auto simp: Cons_eq_append_conv)
  moreover from this have n: "A_Setup pc \<notin> set (cs 0)" for pc by (auto simp: forks_def)
  moreover have "rest = forks a (Suc k)" using forked(3) f(2,5) \<open>cs 0 = forks a k\<close> by (auto simp: forks_Cons)
  moreover have "0 < k" using k by (simp add: crew_def)
  ultimately have "I cs' a'" using forked f(2-6) airport_invariant.forked [OF airport_invariant_axioms _ k] i by simp
  moreover have "A_Setup pc \<notin> set (cs' 0)" for pc using forked f(2,3) n \<open>0 < k\<close> by auto
  ultimately show ?thesis by blast
next
  case (worked t c rest ds)
  note w = crew_worked [OF k worked(2,3)]
  obtain h where h: "home c = Some h" using piece_home [OF worked(3)] ..
  show ?thesis
  proof (cases "t = 0")
    case True
    then obtain pc where pc: "c = A_Setup pc" "k = 1" "A_Setup pc \<in> set (cs 0)" using crew_main [OF k _ h] worked(2) by auto
    have e: "cs' 0 = ds" using worked True w(2) by simp
    show ?thesis
    proof (cases "pc = St_rest")
      case True
      have "fresh a'" "ds = forks a' 1" using worked(3) pc(1) True s [OF pc(3)]
        by (auto simp: go_def Let_def setting_up_def setup_after_fresh forks_def)
      moreover have "cs' = (\<lambda>_. [])(0 := ds)" using worked \<open>t = 0\<close> w(2) k pc(2) by (auto simp: crew_def fun_eq_iff)
      moreover have "A_Setup pc \<notin> set (cs' 0)" for pc using e calculation(2) by (auto simp: forks_def)
      ultimately show ?thesis using opened by auto
    next
      case False
      have "\<exists>pc'. A_Setup pc' \<in> set ds" using worked(3) pc(1) False by (cases pc) (auto simp: go_def rbind_eq_Inr split: if_splits)
      then show ?thesis using setting_up_piece [of R pc a ds a'] worked(3) pc(1) s [OF pc(3)] e by auto
    qed
  next
    case False
    have "t < length (roster a) \<and> roster a ! t = h" using crew_place [OF k _ h, of t] worked(2) by simp
    moreover have "\<forall>pc. A_Setup pc \<notin> set (cs 0)"
    proof (intro allI notI)
      fix pc assume "A_Setup pc \<in> set (cs 0)"
      then have "k = 1" using crew_main [OF k, of "A_Setup pc"] by simp
      then show False using crew_started [OF k, of t] worked(2) False by simp
    qed
    moreover have "cs t = [c]" "cs' = cs(t := ds)" "cs' 0 = cs 0" using worked w(2) False by simp_all
    ultimately show ?thesis using airport_invariant.worked [OF airport_invariant_axioms i k, of t c ds a'] worked(3) w(3) h False
      by (simp del: fun_upd_apply)
  qed
qed

lemma holds:
  assumes "air_reach R U junk x"
  shows "(\<forall>pc. A_Setup pc \<in> set (fst x 0) \<longrightarrow> setting_up pc (snd x)) \<and> ((\<forall>pc. A_Setup pc \<notin> set (fst x 0)) \<longrightarrow> I (fst x) (snd x))"
  using assms
proof (induction rule: air_reach.induct)
  case begun
  then show ?case by (auto simp: setting_up_def untouched_memory)
next
  case (moved x y)
  obtain k where "crew (fst x) (snd x) k" using air_reach_crew [OF moved(1)] ..
  with moved airport_invariant.moved [OF airport_invariant_axioms, of "fst x" "snd x" "fst y" "snd y" k] show ?case by simp
qed

lemma open_airport:
  assumes "reachable (fire rnd) (air_exec R U) s0 s" "air_start rnd ry lockJunk sp junk = Inr s0" "\<forall>pc. A_Setup pc \<notin> set (codes s 0)"
  shows "I (codes s) (port s)"
  using holds [of junk "(codes s, port s)"] reachable_air [OF assms(1,2)] assms(3) by simp

end

section \<open>A small airport\<close>

text \<open>One airline with one agent of each kind, in memory that holds zeros.\<close>

definition demo_airport :: airport where
  "demo_airport = \<lparr>simNumOfPassengers = 1, simNumOfAirlines = 1, simNumOfLiaisons = 1, simNumOfCIOs = 1, simNumOfCargoHandlers = 1,
     simNumOfScreeningOfficers = 1, planeCount = 0, gates = (\<lambda>_. 0), ScreeningResult = (\<lambda>_. False),
     liaisonOfficers = (\<lambda>_. \<lparr>li_airline = 0, li_number = 0, li_passengerCount = 0, li_airlineBaggageCount = (\<lambda>_. 0)\<rparr>),
     CheckIn = (\<lambda>_. CheckInOfficer_new 1 0),
     Security = (\<lambda>_. \<lparr>PassedPassengers = 0, didPassScreening = False, SecurityPass = False, TotalPass = False, sec_number = 0\<rparr>),
     Screen = (\<lambda>_. \<lparr>IsBusy = False, ScreenPass = False, sc_number = 0\<rparr>),
     cargoHandlers = (\<lambda>_. \<lparr>ca_name = 0, onBreak = False, ca_weight = (\<lambda>_. 0), ca_count = (\<lambda>_. 0)\<rparr>),
     simPassengers = (\<lambda>_. \<lparr>NotTerrorist = False, pa_gate = 0, pa_name = 0, pa_seat = 0, pa_airline = 0, economy = False, myLine = 0,
       pa_baggageCount = 0, pa_bags = []\<rparr>),
     simAirportManager = \<lparr>CargoHandlerTotalWeight = (\<lambda>_. 0), CargoHandlerTotalCount = (\<lambda>_. 0), CIOTotalCount = (\<lambda>_. 0), CIOTotalWeight = (\<lambda>_. 0),
       LiaisonTotalCount = (\<lambda>_. 0), liaisonPassengerCount = 0, checkInPassengerCount = 0, securityPassengerCount = 0\<rparr>,
     LPInfo = (\<lambda>_. \<lparr>lp_baggageCount = 0, lp_airline = 0, lp_passengerName = 0\<rparr>),
     CPInfo = (\<lambda>_. \<lparr>cp_baggageCount = 0, cp_passenger = 0, cp_IsEconomy = False, cp_seat = 0, cp_gate = 0, cp_line = 0, cp_bag = []\<rparr>),
     SPInfo = (\<lambda>_. \<lparr>sp_passenger = 0, sp_SecurityOfficer = 0\<rparr>),
     SecPInfo = (\<lambda>_. \<lparr>sep_PassedSecurity = True, sep_questioning = False, sep_passenger = 0\<rparr>),
     conveyor = [], aircraftBaggageCount = (\<lambda>_. 0), aircraftBaggageWeight = (\<lambda>_. 0), boardingLounges = (\<lambda>_. 0),
     totalPassengersOfAirline = (\<lambda>_. 0), totalBaggage = (\<lambda>_. 0), totalWeight = (\<lambda>_. 0), ticketsIssued = (\<lambda>_. 0),
     liaisonBaggageCount = (\<lambda>_. 0), alreadyBoarded = (\<lambda>_. False), execLineNeedsHelp = (\<lambda>_. False), SecurityAvailability = (\<lambda>_. False),
     liaisonLine = (\<lambda>_. 0), CheckInLine = (\<lambda>_. 0), SecurityLine = (\<lambda>_. 0), ScreenLine = (\<lambda>_. 0), rand_pos = 0\<rparr>"

end
