(* ===== verification/Airport_Baggage.thy ===== *)
theory Airport_Baggage
  imports Airport_Opening "HOL-Library.Multiset"
begin

text \<open>
  The way of the bags: a check-in officer puts a bag on the conveyor and then notes it, a cargo handler takes it from the
  conveyor and loads it. No bag is lost or doubled on the way, although officers and handlers reach the conveyor under two
  different locks.
\<close>

section \<open>Sums over the code of all threads\<close>

definition everywhere :: "nat \<Rightarrow> (acode \<Rightarrow> 'm::comm_monoid_add) \<Rightarrow> (tid \<Rightarrow> acode list) \<Rightarrow> 'm" where
  "everywhere n f cs = (\<Sum>t<n. \<Sum>c\<leftarrow>cs t. f c)"

lemma everywhere_step:
  assumes "t < n" "\<And>u d. u \<noteq> t \<Longrightarrow> d \<in> set (cs u) \<Longrightarrow> g d = f d"
  shows "everywhere n g (cs(t := ds)) + (\<Sum>c\<leftarrow>cs t. f c) = everywhere n f cs + (\<Sum>c\<leftarrow>ds. g c)"
proof -
  have split: "everywhere n h xs = (\<Sum>c\<leftarrow>xs t. h c) + (\<Sum>u\<in>{..<n} - {t}. \<Sum>c\<leftarrow>xs u. h c)" for h :: "acode \<Rightarrow> 'a" and xs
    unfolding everywhere_def using assms(1) by (simp add: sum.remove [of _ t])
  have "(\<Sum>u\<in>{..<n} - {t}. \<Sum>c\<leftarrow>(cs(t := ds)) u. g c) = (\<Sum>u\<in>{..<n} - {t}. \<Sum>c\<leftarrow>cs u. f c)"
  proof (rule sum.cong [OF refl])
    fix u assume "u \<in> {..<n} - {t}"
    then have "map g ((cs(t := ds)) u) = map f (cs u)" using assms(2) by auto
    then show "(\<Sum>c\<leftarrow>(cs(t := ds)) u. g c) = (\<Sum>c\<leftarrow>cs u. f c)" by (rule arg_cong)
  qed
  then show ?thesis by (simp add: split [of g] split [of f] ac_simps)
qed

lemma everywhere_same:
  fixes f :: "acode \<Rightarrow> 'm::cancel_comm_monoid_add"
  assumes "t < n" "(\<Sum>c\<leftarrow>ds. f c) = (\<Sum>c\<leftarrow>cs t. f c)"
  shows "everywhere n f (cs(t := ds)) = everywhere n f cs"
  using everywhere_step [of t n cs f f ds] assms by simp

lemma everywhere_zero: "(\<And>t c. c \<in> set (cs t) \<Longrightarrow> f c = 0) \<Longrightarrow> everywhere n f cs = 0"
proof -
  assume "\<And>t c. c \<in> set (cs t) \<Longrightarrow> f c = 0"
  then have "map f (cs t) = map (\<lambda>_. 0) (cs t)" for t by simp
  then have "(\<Sum>c\<leftarrow>cs t. f c) = (\<Sum>c\<leftarrow>cs t. 0)" for t by metis
  then show ?thesis by (simp add: everywhere_def)
qed

section \<open>Where the bags are\<close>

fun carried :: "acode \<Rightarrow> Baggage multiset" where
  "carried (A_Cargo n (Ca_load b)) = {#b#}"
| "carried _ = {#}"

text \<open>The bag that is on the conveyor and not yet in \<open>totalBags\<close>.\<close>

fun unnoted :: "airport \<Rightarrow> acode \<Rightarrow> Baggage multiset" where
  "unnoted a (A_CheckIn n (Ci_note i)) = {#ci_bags (CheckIn a n) ! i#}"
| "unnoted a _ = {#}"

definition checked_in :: "(tid \<Rightarrow> acode list) \<Rightarrow> airport \<Rightarrow> Baggage multiset" where
  "checked_in cs a = (\<Sum>n\<in>{..<simNumOfAirlines a * simNumOfCIOs a}. mset (totalBags (CheckIn a n))) + everywhere (length (roster a)) (unnoted a) cs"

definition in_hand :: "(tid \<Rightarrow> acode list) \<Rightarrow> airport \<Rightarrow> Baggage multiset" where
  "in_hand cs a = everywhere (length (roster a)) carried cs"

definition bag_count :: "nat \<Rightarrow> Baggage multiset \<Rightarrow> int" where
  "bag_count j M = int (size {#b \<in># M. airlineCode b = j#})"

definition bag_weight :: "nat \<Rightarrow> Baggage multiset \<Rightarrow> int" where
  "bag_weight j M = (\<Sum>b\<in>#{#b \<in># M. airlineCode b = j#}. weight b)"

lemma bag_simps [simp]:
  "bag_count j {#} = 0" "bag_weight j {#} = 0" "bag_count j (M + N) = bag_count j M + bag_count j N" "bag_weight j (M + N) = bag_weight j M + bag_weight j N"
  "bag_count j (add_mset b M) = (if airlineCode b = j then 1 else 0) + bag_count j M"
  "bag_weight j (add_mset b M) = (if airlineCode b = j then weight b else 0) + bag_weight j M"
  by (simp_all add: bag_count_def bag_weight_def)

lemma bag_sum:
  "bag_count j (\<Sum>n\<in>S. L n) = (\<Sum>n\<in>S. bag_count j (L n))" "bag_weight j (\<Sum>n\<in>S. L n) = (\<Sum>n\<in>S. bag_weight j (L n))"
  by (induction S rule: infinite_finite_induct; simp)+

text \<open>The bags that handler \<open>n\<close> has loaded are \<open>L n\<close>.\<close>

definition loaded :: "airport \<Rightarrow> (nat \<Rightarrow> Baggage multiset) \<Rightarrow> bool" where
  "loaded a L \<longleftrightarrow> (\<forall>n < simNumOfCargoHandlers a. \<forall>j < simNumOfAirlines a.
       ca_count (cargoHandlers a n) j = bag_count j (L n) \<and> ca_weight (cargoHandlers a n) j = bag_weight j (L n))
     \<and> (\<forall>j < simNumOfAirlines a. aircraftBaggageCount a j = bag_count j (\<Sum>n\<in>{..<simNumOfCargoHandlers a}. L n)
          \<and> aircraftBaggageWeight a j = bag_weight j (\<Sum>n\<in>{..<simNumOfCargoHandlers a}. L n))"

text \<open>A check-in officer writes the code of its airline on the bag before the bag is put on the conveyor.\<close>

fun place_ok :: "airport \<Rightarrow> acode \<Rightarrow> bool" where
  "place_ok a (A_CheckIn n (Ci_push i)) \<longleftrightarrow> i < length (ci_bags (CheckIn a n)) \<and> airlineCode (ci_bags (CheckIn a n) ! i) = ci_airline (CheckIn a n)"
| "place_ok a (A_CheckIn n (Ci_note i)) \<longleftrightarrow> i < length (ci_bags (CheckIn a n)) \<and> airlineCode (ci_bags (CheckIn a n) ! i) = ci_airline (CheckIn a n)"
| "place_ok a (A_Cargo n (Ca_load b)) \<longleftrightarrow> airlineCode b < simNumOfAirlines a"
| "place_ok a _ \<longleftrightarrow> True"

definition labelled :: "(tid \<Rightarrow> acode list) \<Rightarrow> airport \<Rightarrow> bool" where
  "labelled cs a \<longleftrightarrow> (\<forall>t. \<forall>c \<in> set (cs t). place_ok a c) \<and> (\<forall>b \<in> set (conveyor a). airlineCode b < simNumOfAirlines a)
     \<and> (\<forall>n < simNumOfAirlines a * simNumOfCIOs a. ci_airline (CheckIn a n) = n div simNumOfCIOs a
          \<and> (\<forall>b \<in> set (totalBags (CheckIn a n)). airlineCode b = n div simNumOfCIOs a))"

definition conserved :: "(tid \<Rightarrow> acode list) \<Rightarrow> airport \<Rightarrow> bool" where
  "conserved cs a \<longleftrightarrow> (\<exists>L. loaded a L \<and> checked_in cs a = mset (conveyor a) + in_hand cs a + (\<Sum>n\<in>{..<simNumOfCargoHandlers a}. L n))"

definition baggage_inv :: "(tid \<Rightarrow> acode list) \<Rightarrow> airport \<Rightarrow> bool" where
  "baggage_inv cs a \<longleftrightarrow> labelled cs a \<and> conserved cs a"

section \<open>Pieces that move no bag\<close>

definition luggage :: "airport \<Rightarrow> Baggage list \<times> (nat \<Rightarrow> Baggage list) \<times> (nat \<Rightarrow> nat) \<times> (nat \<Rightarrow> nat \<Rightarrow> int) \<times> (nat \<Rightarrow> nat \<Rightarrow> int) \<times> (nat \<Rightarrow> int) \<times> (nat \<Rightarrow> int)" where
  "luggage a = (conveyor a, \<lambda>n. totalBags (CheckIn a n), \<lambda>n. ci_airline (CheckIn a n), \<lambda>n. ca_count (cargoHandlers a n), \<lambda>n. ca_weight (cargoHandlers a n),
     aircraftBaggageCount a, aircraftBaggageWeight a)"

fun moves_bag :: "acode \<Rightarrow> bool" where
  "moves_bag (A_CheckIn n (Ci_push i)) = True"
| "moves_bag (A_CheckIn n (Ci_note i)) = True"
| "moves_bag (A_Cargo n (Ca_load b)) = True"
| "moves_bag (A_Cargo n Ca_take) = True"
| "moves_bag (A_Setup pc) = True"
| "moves_bag _ = False"

fun bagless :: "acode \<Rightarrow> bool" where
  "bagless (A_CheckIn n (Ci_note i)) = False"
| "bagless (A_Cargo n (Ca_load b)) = False"
| "bagless _ = True"

definition others_bags :: "acode \<Rightarrow> airport \<Rightarrow> airport \<Rightarrow> bool" where
  "others_bags c a a' \<longleftrightarrow> (\<forall>m. home c \<noteq> Some (A_CheckIn m Ci_loop) \<longrightarrow> ci_bags (CheckIn a' m) = ci_bags (CheckIn a m))"

definition no_bag_moved :: "acode \<Rightarrow> airport \<Rightarrow> piece \<Rightarrow> bool" where
  "no_bag_moved c a r \<longleftrightarrow> (\<forall>ds a'. r = Inr (ds, a') \<longrightarrow> luggage a' = luggage a \<and> others_bags c a a'
     \<and> (\<forall>d \<in> set ds. bagless d \<and> place_ok a' d))"

lemma no_bag_go [simp]:
  "no_bag_moved c a (Inl e)"
  "no_bag_moved c a (go ks next a') \<longleftrightarrow> luggage a' = luggage a \<and> others_bags c a a' \<and> (\<forall>d \<in> set next. bagless d \<and> place_ok a' d)"
  by (auto simp: no_bag_moved_def go_def)

lemma no_bag_rbind [intro!]: "(\<And>x. r = Inr x \<Longrightarrow> no_bag_moved c a (f x)) \<Longrightarrow> no_bag_moved c a (rbind r f)"
  by (cases r) simp_all

lemmas bag_defs = luggage_def others_bags_def set_defs Let_def

lemma no_bag_passenger: "no_bag_moved (A_Passenger p pc) a (ChooseLiaisonLine R U p pc a)"
proof (cases pc)
  case (With_Liaison l)
  then show ?thesis by (cases l) (auto simp: bag_defs)
next
  case (At_CheckIn l)
  then show ?thesis by (cases l) (auto simp: bag_defs)
next
  case (At_Screening l)
  then show ?thesis by (cases l) (auto simp: bag_defs split: prod.split)
next
  case (At_Security l)
  then show ?thesis by (cases l) (auto simp: bag_defs rand_def)
qed (simp add: Passenger_gate_def bag_defs)

lemma no_bag_officers:
  "no_bag_moved (A_Liaison n pc1) a (LiaisonOfficer_DoWork R n pc1 a)"
  "\<not> moves_bag (A_CheckIn n pc2) \<Longrightarrow> no_bag_moved (A_CheckIn n pc2) a (CheckInOfficer_DoWork n pc2 a)"
  "\<not> moves_bag (A_Cargo n pc3) \<Longrightarrow> no_bag_moved (A_Cargo n pc3) a (CargoHandler_DoWork n pc3 a)"
  "no_bag_moved (A_Manager pc4) a (AirportManager_DoWork pc4 a)"
  "no_bag_moved (A_Screening n pc5) a (ScreeningOfficer_DoWork R n pc5 a)"
  "no_bag_moved (A_Security n pc6) a (SecurityOfficer_DoWork R n pc6 a)"
  subgoal by (cases pc1) (auto simp: bag_defs rand_def)
  subgoal by (cases pc2) (auto simp: bag_defs fun_eq_iff)
  subgoal by (cases pc3) (auto simp: bag_defs)
  subgoal by (cases pc4) (auto simp: bag_defs EndOfDay_def)
  subgoal by (cases pc5) (auto simp: bag_defs rand_def)
  subgoal by (cases pc6) (auto simp: bag_defs rand_def)
  done

lemma no_bag_piece: "\<not> moves_bag c \<Longrightarrow> no_bag_moved c a (piece_of R U c a)"
  by (cases c) (auto simp: no_bag_passenger no_bag_officers)

section \<open>Steps\<close>

lemma others_same:
  assumes "others_bags c a a'" "ci_airline (CheckIn a' m) = ci_airline (CheckIn a m)" "sims a' = sims a" "home d \<noteq> home c"
  shows "unnoted a' d = unnoted a d"
  using assms by (cases "(a, d)" rule: unnoted.cases) (auto simp: others_bags_def)

lemma others_place:
  assumes "others_bags c a a'" "\<forall>m. ci_airline (CheckIn a' m) = ci_airline (CheckIn a m)" "sims a' = sims a" "home d \<noteq> home c"
  shows "place_ok a' d = place_ok a d"
  using assms sims_eqD(2) [OF assms(3)] by (cases "(a, d)" rule: place_ok.cases) (auto simp: others_bags_def)

text \<open>What every piece of an agent's work has in common.\<close>

definition one_piece :: "(tid \<Rightarrow> acode list) \<Rightarrow> airport \<Rightarrow> tid \<Rightarrow> acode \<Rightarrow> airport \<Rightarrow> bool" where
  "one_piece cs a t c a' \<longleftrightarrow> (\<exists>k. crew cs a k) \<and> t < length (roster a) \<and> cs t = [c] \<and> home c = Some (roster a ! t) \<and> sims a' = sims a
     \<and> others_bags c a a' \<and> (\<forall>m. ci_airline (CheckIn a' m) = ci_airline (CheckIn a m))"

lemma one_piece_alone:
  assumes "one_piece cs a t c a'" "u \<noteq> t" "d \<in> set (cs u)" "home d \<noteq> None"
  shows "home d \<noteq> home c"
proof
  assume "home d = home c"
  moreover obtain k h where k: "crew cs a k" "home d = Some h" using assms(1,4) unfolding one_piece_def by blast
  ultimately have "home c = Some h" by simp
  moreover have "c \<in> set (cs t)" using assms(1) by (simp add: one_piece_def)
  ultimately show False using crew_alone [OF k(1) assms(3) k(2)] assms(2) by blast
qed

lemma one_piece_places:
  assumes "one_piece cs a t c a'" "\<forall>t. \<forall>c \<in> set (cs t). place_ok a c" "\<forall>d \<in> set ds. place_ok a' d"
  shows "\<forall>u. \<forall>d \<in> set ((cs(t := ds)) u). place_ok a' d"
proof (intro allI ballI)
  fix u d assume d: "d \<in> set ((cs(t := ds)) u)"
  show "place_ok a' d"
  proof (cases "u = t \<or> home d = None")
    case True
    then show ?thesis using d assms(3) by (cases d; cases "u = t") auto
  next
    case False
    then have "home d \<noteq> home c" using one_piece_alone [OF assms(1), of u d] d by simp
    moreover have "place_ok a d" using assms(2) False d by simp
    ultimately show ?thesis using others_place [of c a a' d] assms(1) by (simp add: one_piece_def)
  qed
qed

lemma one_piece_sums:
  assumes "one_piece cs a t c a'"
  shows "everywhere (length (roster a')) (unnoted a') (cs(t := ds)) + unnoted a c
      = everywhere (length (roster a)) (unnoted a) cs + (\<Sum>d\<leftarrow>ds. unnoted a' d)"
    "in_hand (cs(t := ds)) a' + carried c = in_hand cs a + (\<Sum>d\<leftarrow>ds. carried d)"
proof -
  have c: "cs t = [c]" "t < length (roster a)" "roster a' = roster a" "sims a' = sims a" "others_bags c a a'"
    "\<forall>m. ci_airline (CheckIn a' m) = ci_airline (CheckIn a m)"
    using assms sims_eqD(7) [of a' a] unfolding one_piece_def by blast+
  have "unnoted a' d = unnoted a d" if "u \<noteq> t" "d \<in> set (cs u)" for u d
  proof (cases "home d = None")
    case True
    then show ?thesis by (cases d) simp_all
  next
    case False
    then show ?thesis using others_same [OF c(5) _ c(4)] c(6) one_piece_alone [OF assms that] by blast
  qed
  from everywhere_step [of t "length (roster a)" cs "unnoted a'" "unnoted a" ds, OF c(2) this]
  show "everywhere (length (roster a')) (unnoted a') (cs(t := ds)) + unnoted a c
      = everywhere (length (roster a)) (unnoted a) cs + (\<Sum>d\<leftarrow>ds. unnoted a' d)" using c(1,3) by simp
  show "in_hand (cs(t := ds)) a' + carried c = in_hand cs a + (\<Sum>d\<leftarrow>ds. carried d)"
    using everywhere_step [of t "length (roster a)" cs carried carried ds] c(1-3) by (simp add: in_hand_def)
qed

lemma bagless_sums:
  "\<forall>d \<in> set ds. bagless d \<Longrightarrow> (\<Sum>d\<leftarrow>ds. unnoted a d) = {#}" "\<forall>d \<in> set ds. bagless d \<Longrightarrow> (\<Sum>d\<leftarrow>ds. carried d) = {#}"
  "\<not> moves_bag c \<Longrightarrow> unnoted a c = {#} \<and> carried c = {#}"
proof -
  have b: "bagless d \<Longrightarrow> unnoted a d = {#} \<and> carried d = {#}" for d by (cases d rule: bagless.cases) simp_all
  show "\<forall>d \<in> set ds. bagless d \<Longrightarrow> (\<Sum>d\<leftarrow>ds. unnoted a d) = {#}" "\<forall>d \<in> set ds. bagless d \<Longrightarrow> (\<Sum>d\<leftarrow>ds. carried d) = {#}"
    by (induction ds; simp add: b)+
  show "\<not> moves_bag c \<Longrightarrow> unnoted a c = {#} \<and> carried c = {#}" by (cases c rule: moves_bag.cases) simp_all
qed

lemma luggage_eqD:
  assumes "luggage a' = luggage a"
  shows "conveyor a' = conveyor a" "totalBags (CheckIn a' n) = totalBags (CheckIn a n)" "ci_airline (CheckIn a' n) = ci_airline (CheckIn a n)"
    "ca_count (cargoHandlers a' n) = ca_count (cargoHandlers a n)" "ca_weight (cargoHandlers a' n) = ca_weight (cargoHandlers a n)"
    "aircraftBaggageCount a' = aircraftBaggageCount a" "aircraftBaggageWeight a' = aircraftBaggageWeight a"
  using assms by (simp_all add: luggage_def fun_eq_iff)

lemma labelled_step:
  assumes "one_piece cs a t c a'" "labelled cs a" "\<forall>d \<in> set ds. place_ok a' d"
    and "\<forall>b \<in> set (conveyor a'). airlineCode b < simNumOfAirlines a"
    and "\<forall>n < simNumOfAirlines a * simNumOfCIOs a. \<forall>b \<in> set (totalBags (CheckIn a' n)). airlineCode b = n div simNumOfCIOs a"
  shows "labelled (cs(t := ds)) a'"
proof -
  have s: "sims a' = sims a" using assms(1) by (simp add: one_piece_def)
  have l: "\<forall>t. \<forall>c \<in> set (cs t). place_ok a c" "\<forall>n < simNumOfAirlines a * simNumOfCIOs a. ci_airline (CheckIn a n) = n div simNumOfCIOs a"
    using assms(2) unfolding labelled_def by blast+
  have "\<forall>n < simNumOfAirlines a * simNumOfCIOs a. ci_airline (CheckIn a' n) = n div simNumOfCIOs a"
    using l(2) assms(1) by (simp add: one_piece_def)
  then show ?thesis using one_piece_places [OF assms(1) l(1) assms(3)] assms(4,5) unfolding labelled_def sims_eqD [OF s] by blast
qed

text \<open>\<open>total\<close>: the bags in \<open>totalBags\<close> of the officers.\<close>

definition total_bags :: "airport \<Rightarrow> Baggage multiset" where
  "total_bags a = (\<Sum>n\<in>{..<simNumOfAirlines a * simNumOfCIOs a}. mset (totalBags (CheckIn a n)))"

lemma conserved_step:
  assumes "one_piece cs a t c a'" "loaded a L" "loaded a' L'"
    "checked_in cs a = mset (conveyor a) + in_hand cs a + (\<Sum>n\<in>{..<simNumOfCargoHandlers a}. L n)"
    and bal: "total_bags a' + (\<Sum>d\<leftarrow>ds. unnoted a' d) + mset (conveyor a) + carried c + (\<Sum>n\<in>{..<simNumOfCargoHandlers a}. L n)
       = total_bags a + unnoted a c + mset (conveyor a') + (\<Sum>d\<leftarrow>ds. carried d) + (\<Sum>n\<in>{..<simNumOfCargoHandlers a}. L' n)"
  shows "conserved (cs(t := ds)) a'"
proof -
  have s: "simNumOfCargoHandlers a' = simNumOfCargoHandlers a" "sims a' = sims a" using assms(1) sims_eqD [of a' a] by (auto simp: one_piece_def)
  note sum = one_piece_sums [OF assms(1), of ds]
  have ch: "checked_in cs a = total_bags a + everywhere (length (roster a)) (unnoted a) cs" for cs a by (simp add: checked_in_def total_bags_def)
  let ?S = "everywhere (length (roster a')) (unnoted a') (cs(t := ds))" and ?L = "\<Sum>n\<in>{..<simNumOfCargoHandlers a}. L n"
    and ?L' = "\<Sum>n\<in>{..<simNumOfCargoHandlers a}. L' n"
  have "total_bags a' + ?S + (unnoted a c + carried c + ?L + mset (conveyor a)) =
    (?S + unnoted a c) + (total_bags a' + mset (conveyor a) + carried c + ?L)" by (simp add: ac_simps)
  also have "\<dots> = everywhere (length (roster a)) (unnoted a) cs
      + (total_bags a' + (\<Sum>d\<leftarrow>ds. unnoted a' d) + mset (conveyor a) + carried c + ?L)" unfolding sum(1) by (simp add: ac_simps)
  also have "\<dots> = checked_in cs a + (unnoted a c + mset (conveyor a') + (\<Sum>d\<leftarrow>ds. carried d) + ?L')"
    unfolding bal by (simp add: ch ac_simps)
  also have "\<dots> = (in_hand cs a + (\<Sum>d\<leftarrow>ds. carried d)) + (mset (conveyor a) + ?L + unnoted a c + mset (conveyor a') + ?L')"
    unfolding assms(4) by (simp add: ac_simps)
  also have "\<dots> = mset (conveyor a') + in_hand (cs(t := ds)) a' + ?L' + (unnoted a c + carried c + ?L + mset (conveyor a))"
    unfolding sum(2) [symmetric] by (simp add: ac_simps)
  finally have "checked_in (cs(t := ds)) a' = mset (conveyor a') + in_hand (cs(t := ds)) a' + ?L'" by (simp add: ch)
  with assms(3) show ?thesis unfolding conserved_def s(1) by blast
qed

lemma quiet_piece:
  assumes "one_piece cs a t c a'" "baggage_inv cs a" "\<not> moves_bag c" "luggage a' = luggage a" "\<forall>d \<in> set ds. bagless d \<and> place_ok a' d"
  shows "baggage_inv (cs(t := ds)) a'"
proof -
  note l = luggage_eqD [OF assms(4)]
  have s: "sims a' = sims a" using assms(1) by (simp add: one_piece_def)
  obtain L where L: "loaded a L" "checked_in cs a = mset (conveyor a) + in_hand cs a + (\<Sum>n\<in>{..<simNumOfCargoHandlers a}. L n)"
    using assms(2) by (auto simp: baggage_inv_def conserved_def)
  have "loaded a' L" using L(1) unfolding loaded_def l sims_eqD [OF s] .
  moreover have "total_bags a' = total_bags a" unfolding total_bags_def l sims_eqD [OF s] ..
  moreover have "(\<Sum>d\<leftarrow>ds. unnoted a' d) = {#}" "(\<Sum>d\<leftarrow>ds. carried d) = {#}" using assms(5) by (simp_all add: bagless_sums)
  moreover have "unnoted a c = {#}" "carried c = {#}" using bagless_sums(3) [OF assms(3)] by simp_all
  ultimately have "conserved (cs(t := ds)) a'" by (intro conserved_step [OF assms(1) L(1) _ L(2)]) (simp_all add: l)
  moreover have "labelled (cs(t := ds)) a'"
    using assms(2,5) by (intro labelled_step [OF assms(1)]) (auto simp: baggage_inv_def labelled_def l)
  ultimately show ?thesis by (simp add: baggage_inv_def)
qed

section \<open>Pieces that move a bag\<close>

lemma roster_numbers:
  "A_CheckIn n pc1 \<in> set (roster a) \<Longrightarrow> n < simNumOfAirlines a * simNumOfCIOs a"
  "A_Cargo n pc2 \<in> set (roster a) \<Longrightarrow> n < simNumOfCargoHandlers a"
  "A_Liaison n pc3 \<in> set (roster a) \<Longrightarrow> n < simNumOfLiaisons a"
  "A_Passenger n pc4 \<in> set (roster a) \<Longrightarrow> n < simNumOfPassengers a"
  by (auto simp: roster_def)

lemma one_piece_roster: "one_piece cs a t c a' \<Longrightarrow> \<exists>h. home c = Some h \<and> h \<in> set (roster a)"
  by (auto simp: one_piece_def)

lemma div_airline: "n < k * m \<Longrightarrow> n div m < (k::nat)"
  by (simp add: less_mult_imp_div_less)

lemma pushed_piece:
  assumes "baggage_inv cs a" "one_piece cs a t (A_CheckIn n (Ci_push i)) a'" "CheckInOfficer_DoWork n (Ci_push i) a = Inr (ds, a')"
  shows "baggage_inv (cs(t := ds)) a'"
proof -
  let ?b = "ci_bags (CheckIn a n) ! i"
  have n: "n < simNumOfAirlines a * simNumOfCIOs a" using one_piece_roster [OF assms(2)] by (auto dest: roster_numbers)
  have a': "a' = a\<lparr>conveyor := conveyor a @ [?b]\<rparr>" "ds = [A_Call (K_Release BaggageLock), A_CheckIn n (Ci_note i)]"
    using assms(3) by (simp_all add: go_def)
  have p: "place_ok a (A_CheckIn n (Ci_push i))" using assms(1,2) unfolding baggage_inv_def labelled_def one_piece_def
    by (metis list.set_intros(1))
  have "airlineCode ?b = n div simNumOfCIOs a" using p n assms(1) by (auto simp: baggage_inv_def labelled_def)
  then have "airlineCode ?b < simNumOfAirlines a" using div_airline [OF n] by simp
  then have "labelled (cs(t := ds)) a'"
    using assms(1) p by (intro labelled_step [OF assms(2)]) (auto simp: baggage_inv_def labelled_def a')
  moreover obtain L where L: "loaded a L" "checked_in cs a = mset (conveyor a) + in_hand cs a + (\<Sum>n\<in>{..<simNumOfCargoHandlers a}. L n)"
    using assms(1) by (auto simp: baggage_inv_def conserved_def)
  then have "conserved (cs(t := ds)) a'"
    by (intro conserved_step [OF assms(2) L(1) _ L(2), of L]) (simp_all add: a' total_bags_def loaded_def)
  ultimately show ?thesis by (simp add: baggage_inv_def)
qed

lemma noted_piece:
  assumes "baggage_inv cs a" "one_piece cs a t (A_CheckIn n (Ci_note i)) a'" "CheckInOfficer_DoWork n (Ci_note i) a = Inr (ds, a')"
  shows "baggage_inv (cs(t := ds)) a'"
proof -
  let ?b = "ci_bags (CheckIn a n) ! i"
  have n: "n < simNumOfAirlines a * simNumOfCIOs a" using one_piece_roster [OF assms(2)] by (auto dest: roster_numbers)
  have a': "a' = set_checkin n ((CheckIn a n)\<lparr>totalBags := totalBags (CheckIn a n) @ [?b]\<rparr>) a" "ds = [A_CheckIn n (Ci_drop (i + 1))]"
    using assms(3) by (simp_all add: go_def Let_def)
  have p: "place_ok a (A_CheckIn n (Ci_note i))" using assms(1,2) unfolding baggage_inv_def labelled_def one_piece_def
    by (metis list.set_intros(1))
  have "airlineCode ?b = n div simNumOfCIOs a" using p n assms(1) by (auto simp: baggage_inv_def labelled_def)
  then have "labelled (cs(t := ds)) a'"
    using assms(1) by (intro labelled_step [OF assms(2)]) (auto simp: baggage_inv_def labelled_def a' set_checkin_def)
  moreover have "total_bags a' = total_bags a + {#?b#}"
  proof -
    let ?N = "simNumOfAirlines a * simNumOfCIOs a"
    have "total_bags x = mset (totalBags (CheckIn x n)) + (\<Sum>m\<in>{..<?N} - {n}. mset (totalBags (CheckIn x m)))"
      if "simNumOfAirlines x * simNumOfCIOs x = ?N" for x
      unfolding total_bags_def that using n by (simp add: sum.remove [of _ n])
    from this [of a'] this [of a] show ?thesis by (simp add: a' set_checkin_def)
  qed
  moreover obtain L where L: "loaded a L" "checked_in cs a = mset (conveyor a) + in_hand cs a + (\<Sum>n\<in>{..<simNumOfCargoHandlers a}. L n)"
    using assms(1) by (auto simp: baggage_inv_def conserved_def)
  ultimately have "conserved (cs(t := ds)) a'"
    by (intro conserved_step [OF assms(2) L(1) _ L(2), of L]) (simp_all add: a' loaded_def set_checkin_def)
  with \<open>labelled (cs(t := ds)) a'\<close> show ?thesis by (simp add: baggage_inv_def)
qed

lemma taken_piece:
  assumes "baggage_inv cs a" "one_piece cs a t (A_Cargo n Ca_take) a'" "CargoHandler_DoWork n Ca_take a = Inr (ds, a')"
  shows "baggage_inv (cs(t := ds)) a'"
proof (cases "conveyor a")
  case Nil
  then have "a' = set_cargo n ((cargoHandlers a n)\<lparr>onBreak := True\<rparr>) a" "ds = [A_Call (K_Wait CargoHandlerCV CargoHandlerLock), A_Cargo n Ca_loop]"
    using assms(3) by (simp_all add: go_def)
  moreover from this have "ca_count (cargoHandlers a' m) = ca_count (cargoHandlers a m)" "ca_weight (cargoHandlers a' m) = ca_weight (cargoHandlers a m)" for m
    by (simp_all add: set_cargo_def)
  with calculation(1) have "loaded a' L = loaded a L" for L unfolding loaded_def by (simp add: set_cargo_def)
  moreover obtain L where L: "loaded a L" "checked_in cs a = mset (conveyor a) + in_hand cs a + (\<Sum>n\<in>{..<simNumOfCargoHandlers a}. L n)"
    using assms(1) by (auto simp: baggage_inv_def conserved_def)
  ultimately have "conserved (cs(t := ds)) a'"
    by (intro conserved_step [OF assms(2) L(1) _ L(2), of L]) (simp_all add: total_bags_def set_cargo_def)
  moreover have "labelled (cs(t := ds)) a'"
    using assms(1) \<open>a' = _\<close> \<open>ds = _\<close> by (intro labelled_step [OF assms(2)]) (auto simp: baggage_inv_def labelled_def set_cargo_def)
  ultimately show ?thesis by (simp add: baggage_inv_def)
next
  case (Cons b rest)
  then have a': "a' = a\<lparr>conveyor := rest\<rparr>" "airlineCode b < simNumOfAirlines a"
    "ds = [A_Call (K_Acquire (AirlineBaggage (airlineCode b))), A_Call (K_Release CargoHandlerLock), A_Cargo n (Ca_load b)]"
    using assms(3) by (auto simp: go_def rbind_eq_Inr)
  then have "labelled (cs(t := ds)) a'"
    using assms(1) Cons by (intro labelled_step [OF assms(2)]) (auto simp: baggage_inv_def labelled_def)
  moreover obtain L where L: "loaded a L" "checked_in cs a = mset (conveyor a) + in_hand cs a + (\<Sum>n\<in>{..<simNumOfCargoHandlers a}. L n)"
    using assms(1) by (auto simp: baggage_inv_def conserved_def)
  then have "conserved (cs(t := ds)) a'"
    by (intro conserved_step [OF assms(2) L(1) _ L(2), of L]) (simp_all add: a' total_bags_def loaded_def Cons)
  ultimately show ?thesis by (simp add: baggage_inv_def)
qed

lemma loaded_piece:
  assumes "baggage_inv cs a" "one_piece cs a t (A_Cargo n (Ca_load b)) a'" "CargoHandler_DoWork n (Ca_load b) a = Inr (ds, a')"
  shows "baggage_inv (cs(t := ds)) a'"
proof -
  let ?j = "airlineCode b" and ?x = "cargoHandlers a n" and ?H = "simNumOfCargoHandlers a"
  have n: "n < ?H" using one_piece_roster [OF assms(2)] by (auto dest: roster_numbers)
  have a': "a' = set_cargo n (?x\<lparr>ca_weight := (ca_weight ?x)(?j := ca_weight ?x ?j + weight b), ca_count := (ca_count ?x)(?j := ca_count ?x ?j + 1)\<rparr>)
      (a\<lparr>aircraftBaggageCount := (aircraftBaggageCount a)(?j := aircraftBaggageCount a ?j + 1),
         aircraftBaggageWeight := (aircraftBaggageWeight a)(?j := aircraftBaggageWeight a ?j + weight b)\<rparr>)"
    "ds = [A_Call (K_Release (AirlineBaggage ?j)), A_Call K_Yield, A_Cargo n Ca_loop]"
    using assms(3) by (simp_all add: go_def Let_def)
  obtain L where L: "loaded a L" "checked_in cs a = mset (conveyor a) + in_hand cs a + (\<Sum>n\<in>{..<simNumOfCargoHandlers a}. L n)"
    using assms(1) by (auto simp: baggage_inv_def conserved_def)
  define L' where "L' = L(n := add_mset b (L n))"
  have split: "(\<Sum>m\<in>{..<?H}. M m) = M n + (\<Sum>m\<in>{..<?H} - {n}. M m)" for M :: "nat \<Rightarrow> Baggage multiset" using n by (simp add: sum.remove)
  have rest: "(\<Sum>m\<in>{..<?H} - {n}. L' m) = (\<Sum>m\<in>{..<?H} - {n}. L m)" by (rule sum.cong) (simp_all add: L'_def)
  have sum: "(\<Sum>m\<in>{..<?H}. L' m) = add_mset b (\<Sum>m\<in>{..<?H}. L m)" unfolding split rest by (simp add: L'_def)
  have "loaded a' L'" using L(1) unfolding loaded_def by (auto simp: a' set_cargo_def sum) (auto simp: L'_def)
  then have "conserved (cs(t := ds)) a'"
    by (rule conserved_step [OF assms(2) L(1) _ L(2)]) (simp add: a' set_cargo_def total_bags_def sum)
  moreover have "labelled (cs(t := ds)) a'"
    using assms(1) by (intro labelled_step [OF assms(2)]) (auto simp: baggage_inv_def labelled_def a' set_cargo_def)
  ultimately show ?thesis by (simp add: baggage_inv_def)
qed

section \<open>The baggage of the open airport\<close>

lemma no_bag_D:
  assumes "piece_of R U c a = Inr (ds, a')" "\<not> moves_bag c"
  shows "luggage a' = luggage a" "others_bags c a a'" "\<forall>d \<in> set ds. bagless d \<and> place_ok a' d"
  using no_bag_piece [OF assms(2), of a R U] assms(1) by (simp_all add: no_bag_moved_def)

lemma moving_others:
  assumes "piece_of R U c a = Inr (ds, a')" "moves_bag c" "\<forall>pc. c \<noteq> A_Setup pc"
  shows "others_bags c a a'" "\<forall>m. ci_airline (CheckIn a' m) = ci_airline (CheckIn a m)"
  using assms by (cases c rule: moves_bag.cases;
      auto simp: go_def Let_def rbind_eq_Inr others_bags_def set_checkin_def set_cargo_def split: list.splits)+

lemma baggage_worked:
  assumes "baggage_inv cs a" "crew cs a k" "t < length (roster a)" "cs t = [c]" "home c = Some (roster a ! t)" "t \<noteq> 0"
    "piece_of R U c a = Inr (ds, a')" "sims a' = sims a"
  shows "baggage_inv (cs(t := ds)) a'"
proof -
  have ns: "\<forall>pc. c \<noteq> A_Setup pc"
  proof (intro allI notI)
    fix pc assume "c = A_Setup pc"
    then have "roster a ! t = roster a ! 0" using assms(5) by (simp add: roster_def)
    then show False using assms(3,6) nth_eq_iff_index_eq [OF roster_distinct, of t a 0] length_roster [of a] by (simp del: length_greater_0_conv)
  qed
  show ?thesis
  proof (cases "moves_bag c")
    case False
    note q = no_bag_D [OF assms(7) False]
    have "one_piece cs a t c a'" using assms q(2) luggage_eqD(3) [OF q(1)] by (auto simp: one_piece_def)
    then show ?thesis using assms(1) False q(1,3) by (rule quiet_piece)
  next
    case True
    have o: "one_piece cs a t c a'" using assms moving_others [OF assms(7) True ns] by (auto simp: one_piece_def)
    show ?thesis using True o assms(1,7) ns
      by (cases c rule: moves_bag.cases) (auto intro: pushed_piece noted_piece taken_piece loaded_piece)
  qed
qed

lemma baggage_opened: "fresh a \<Longrightarrow> baggage_inv ((\<lambda>_. [])(0 := forks a 1)) a"
proof -
  assume f: "fresh a"
  let ?cs = "(\<lambda>_. [])(0 := forks a 1)"
  have z: "unnoted a c = 0 \<and> carried c = 0 \<and> place_ok a c" if "c \<in> set (?cs t)" for c t
    using that by (auto simp: forks_def split: if_splits)
  have "everywhere (length (roster a)) (unnoted a) ?cs = 0" "everywhere (length (roster a)) carried ?cs = 0"
    by (rule everywhere_zero; use z in blast)+
  then have "checked_in ?cs a = {#}" "in_hand ?cs a = {#}"
    using f by (simp_all add: checked_in_def in_hand_def fresh_def prepared_def CheckInOfficer_new_def)
  moreover have "loaded a (\<lambda>_. {#})" using f by (simp add: loaded_def fresh_def prepared_def)
  ultimately have "conserved ?cs a" using f by (auto simp: conserved_def fresh_def prepared_def untouched_def intro!: exI [of _ "\<lambda>_. {#}"])
  moreover have "\<forall>t. \<forall>c \<in> set (?cs t). place_ok a c" using z by blast
  moreover have "conveyor a = []" "\<forall>n < simNumOfAirlines a * simNumOfCIOs a. CheckIn a n = CheckInOfficer_new (simNumOfCIOs a) n"
    using f by (simp_all add: fresh_def prepared_def untouched_def)
  ultimately have "labelled ?cs a" "conserved ?cs a" unfolding labelled_def by (simp_all add: CheckInOfficer_new_def del: fun_upd_apply)
  then show ?thesis by (simp add: baggage_inv_def)
qed

lemma baggage_code:
  assumes "baggage_inv cs a" "t < length (roster a)" "(\<Sum>d\<leftarrow>ds. unnoted a d) = (\<Sum>d\<leftarrow>cs t. unnoted a d)"
    "(\<Sum>d\<leftarrow>ds. carried d) = (\<Sum>d\<leftarrow>cs t. carried d)" "\<forall>d \<in> set ds. place_ok a d"
  shows "baggage_inv (cs(t := ds)) a"
  using assms everywhere_same [OF assms(2), of "unnoted a" ds cs] everywhere_same [OF assms(2), of carried ds cs]
  unfolding baggage_inv_def conserved_def labelled_def checked_in_def in_hand_def by auto

interpretation baggage: airport_invariant R U baggage_inv for R U
proof unfold_locales
  fix cs a k t x rest assume "baggage_inv cs a" "crew cs a k" "cs t = A_Call x # rest"
  moreover have "t < length (roster a)" using calculation(2,3) crew_started [of cs a k t] by (simp add: crew_def)
  moreover have "\<forall>d \<in> set rest. place_ok a d" using calculation(1,3) by (auto simp: baggage_inv_def labelled_def dest!: spec [of _ t])
  ultimately show "baggage_inv (cs(t := rest)) a" by (intro baggage_code) simp_all
next
  fix cs a k assume i: "baggage_inv cs a" "cs 0 = forks a k" "0 < k" "k < length (roster a)" "cs k = []"
  have z: "(\<Sum>d\<leftarrow>forks a j. unnoted a d) = {#}" "(\<Sum>d\<leftarrow>forks a j. carried d) = {#}" "\<forall>d \<in> set (forks a j). place_ok a d" for j
    by (rule bagless_sums; auto simp: forks_def)+ (auto simp: forks_def)
  have r: "home (roster a ! k) = Some (roster a ! k)" using roster_homes [OF nth_mem [OF i(4)]] .
  have "unnoted a (roster a ! k) = {#} \<and> carried (roster a ! k) = {#} \<and> place_ok a (roster a ! k)"
    using r by (cases "roster a ! k") auto
  then show "baggage_inv (cs(0 := forks a (Suc k), k := [roster a ! k])) a"
    using i z by (intro baggage_code) (auto simp del: fun_upd_apply, auto)
qed (fact baggage_opened baggage_worked)+

end
