(* ===== verification/Airport_Boarding.thy ===== *)
theory Airport_Boarding
  imports Airport_Baggage
begin

text \<open>
  Tickets, the lounges and the planes: the liaisons give every airline at most as many passengers as it has seats for, a
  plane leaves when all its passengers wait in its lounge, and the day ends when all planes have left. Then every
  passenger is at the gate of an airline, and the manager's totals agree with what was loaded.
\<close>

section \<open>Who writes what\<close>

fun is_passenger :: "acode \<Rightarrow> bool" where
  "is_passenger (A_Passenger p pc) = True"
| "is_passenger _ = False"

fun is_liaison :: "acode \<Rightarrow> bool" where
  "is_liaison (A_Liaison p pc) = True"
| "is_liaison _ = False"

fun is_manager :: "acode \<Rightarrow> bool" where
  "is_manager (A_Manager pc) = True"
| "is_manager _ = False"

text \<open>The books of the liaisons, the lounges and the manager.\<close>

definition liaison_books :: "airport \<Rightarrow> (nat \<Rightarrow> int) \<times> (nat \<Rightarrow> int)" where
  "liaison_books a = (ticketsIssued a, \<lambda>n. li_passengerCount (liaisonOfficers a n))"

definition manager_books :: "airport \<Rightarrow> (nat \<Rightarrow> bool) \<times> nat \<times> AirportManager" where
  "manager_books a = (alreadyBoarded a, planeCount a, simAirportManager a)"

definition lounge_books :: "airport \<Rightarrow> (nat \<Rightarrow> int) \<times> (nat \<Rightarrow> nat)" where
  "lounge_books a = (boardingLounges a, \<lambda>p. pa_airline (simPassengers a p))"

definition books_kept :: "acode \<Rightarrow> airport \<Rightarrow> piece \<Rightarrow> bool" where
  "books_kept c a r \<longleftrightarrow> (\<forall>ds a'. r = Inr (ds, a') \<longrightarrow> totalPassengersOfAirline a' = totalPassengersOfAirline a
     \<and> (\<not> is_liaison c \<longrightarrow> liaison_books a' = liaison_books a) \<and> (\<not> is_manager c \<longrightarrow> manager_books a' = manager_books a)
     \<and> (\<not> is_passenger c \<longrightarrow> lounge_books a' = lounge_books a))"

lemma books_kept_go [simp]:
  "books_kept c a (Inl e)"
  "books_kept c a (go ks next a') \<longleftrightarrow> totalPassengersOfAirline a' = totalPassengersOfAirline a
     \<and> (\<not> is_liaison c \<longrightarrow> liaison_books a' = liaison_books a) \<and> (\<not> is_manager c \<longrightarrow> manager_books a' = manager_books a)
     \<and> (\<not> is_passenger c \<longrightarrow> lounge_books a' = lounge_books a)"
  by (auto simp: books_kept_def go_def)

lemma books_kept_rbind [intro!]: "(\<And>x. r = Inr x \<Longrightarrow> books_kept c a (f x)) \<Longrightarrow> books_kept c a (rbind r f)"
  by (cases r) simp_all

lemmas book_defs = liaison_books_def manager_books_def lounge_books_def set_defs Let_def

lemma books_passenger: "books_kept (A_Passenger p pc) a (ChooseLiaisonLine R U p pc a)"
proof (cases pc)
  case (With_Liaison l)
  then show ?thesis by (cases l) (auto simp: book_defs)
next
  case (At_CheckIn l)
  then show ?thesis by (cases l) (auto simp: book_defs)
next
  case (At_Screening l)
  then show ?thesis by (cases l) (auto simp: book_defs split: prod.split)
next
  case (At_Security l)
  then show ?thesis by (cases l) (auto simp: book_defs rand_def)
qed (simp add: Passenger_gate_def book_defs)

lemma books_officers:
  "books_kept (A_Liaison n pc1) a (LiaisonOfficer_DoWork R n pc1 a)"
  "books_kept (A_CheckIn n pc2) a (CheckInOfficer_DoWork n pc2 a)"
  "books_kept (A_Cargo n pc3) a (CargoHandler_DoWork n pc3 a)"
  "books_kept (A_Manager pc4) a (AirportManager_DoWork pc4 a)"
  "books_kept (A_Screening n pc5) a (ScreeningOfficer_DoWork R n pc5 a)"
  "books_kept (A_Security n pc6) a (SecurityOfficer_DoWork R n pc6 a)"
  subgoal by (cases pc1) (auto simp: book_defs rand_def)
  subgoal by (cases pc2) (auto simp: book_defs)
  subgoal by (cases pc3) (auto simp: book_defs split: list.split)
  subgoal by (cases pc4) (auto simp: book_defs EndOfDay_def)
  subgoal by (cases pc5) (auto simp: book_defs rand_def)
  subgoal by (cases pc6) (auto simp: book_defs rand_def)
  done

lemma books_piece:
  assumes "piece_of R U c a = Inr (ds, a')" "\<forall>pc. c \<noteq> A_Setup pc"
  shows "totalPassengersOfAirline a' = totalPassengersOfAirline a"
    "\<not> is_liaison c \<Longrightarrow> liaison_books a' = liaison_books a" "\<not> is_manager c \<Longrightarrow> manager_books a' = manager_books a"
    "\<not> is_passenger c \<Longrightarrow> lounge_books a' = lounge_books a"
proof -
  have "books_kept c a (piece_of R U c a)" using assms(2) by (cases c) (auto simp: books_passenger books_officers)
  then show "totalPassengersOfAirline a' = totalPassengersOfAirline a"
    "\<not> is_liaison c \<Longrightarrow> liaison_books a' = liaison_books a" "\<not> is_manager c \<Longrightarrow> manager_books a' = manager_books a"
    "\<not> is_passenger c \<Longrightarrow> lounge_books a' = lounge_books a"
    using assms(1) by (simp_all add: books_kept_def)
qed

text \<open>The setup is run by the first thread only.\<close>

lemma not_setup:
  assumes "home c = Some (roster a ! t)" "t < length (roster a)" "t \<noteq> 0"
  shows "c \<noteq> A_Setup pc"
proof
  assume "c = A_Setup pc"
  then have "roster a ! t = roster a ! 0" using assms(1) by (simp add: roster_def)
  then show False using assms(2,3) nth_eq_iff_index_eq [OF roster_distinct, of t a 0] length_roster [of a] by (simp del: length_greater_0_conv)
qed

lemma home_kind:
  assumes "home d = home c" "home c \<noteq> None"
  shows "is_liaison d = is_liaison c" "is_manager d = is_manager c" "is_passenger d = is_passenger c"
  using assms by (cases c; cases d; simp)+

lemma piece_kinds:
  assumes "piece_of R U c a = Inr (ds, a')" "\<forall>pc. c \<noteq> A_Setup pc" "d \<in> set ds"
  shows "is_liaison d \<Longrightarrow> is_liaison c" "is_manager d \<Longrightarrow> is_manager c" "is_passenger d \<Longrightarrow> is_passenger c"
proof -
  have "home d = None \<or> home d = home c" using goes_on_piece [of c a R U] assms by (fastforce simp: goes_on_def)
  moreover have "home d = None \<Longrightarrow> \<not> is_liaison d \<and> \<not> is_manager d \<and> \<not> is_passenger d" by (cases d) simp_all
  moreover have "home c \<noteq> None" using piece_home [OF assms(1)] by auto
  ultimately show "is_liaison d \<Longrightarrow> is_liaison c" "is_manager d \<Longrightarrow> is_manager c" "is_passenger d \<Longrightarrow> is_passenger c"
    using home_kind [of d c] by blast+
qed

section \<open>Tickets\<close>

text \<open>The passengers whom a liaison has counted and not yet given a ticket.\<close>

fun undecided :: "acode \<Rightarrow> int" where
  "undecided (A_Liaison n Li_pick) = 1"
| "undecided _ = 0"

definition tickets_inv :: "(tid \<Rightarrow> acode list) \<Rightarrow> airport \<Rightarrow> bool" where
  "tickets_inv cs a \<longleftrightarrow> 0 < simNumOfAirlines a
     \<and> (\<forall>j < simNumOfAirlines a. 0 \<le> ticketsIssued a j \<and> ticketsIssued a j \<le> totalPassengersOfAirline a j)
     \<and> (\<Sum>j\<in>{..<simNumOfAirlines a}. totalPassengersOfAirline a j) = int (simNumOfPassengers a)
     \<and> (\<Sum>n\<in>{..<simNumOfLiaisons a}. li_passengerCount (liaisonOfficers a n))
         = (\<Sum>j\<in>{..<simNumOfAirlines a}. ticketsIssued a j) + everywhere (length (roster a)) undecided cs"

lemma undecided_sum: "\<forall>d \<in> set ds. \<not> is_liaison d \<Longrightarrow> (\<Sum>d\<leftarrow>ds. undecided d) = 0"
proof (induction ds)
  case (Cons d ds)
  then show ?case by (cases d) simp_all
qed simp

lemma sum_update:
  fixes f :: "nat \<Rightarrow> int"
  assumes "m < k" "\<And>n. n < k \<Longrightarrow> n \<noteq> m \<Longrightarrow> g n = f n"
  shows "(\<Sum>n\<in>{..<k}. g n) = (\<Sum>n\<in>{..<k}. f n) + g m - f m"
proof -
  have split: "(\<Sum>n\<in>{..<k}. h n) = h m + (\<Sum>n\<in>{..<k} - {m}. h n)" for h :: "nat \<Rightarrow> int" using assms(1) by (simp add: sum.remove)
  have "(\<Sum>n\<in>{..<k} - {m}. g n) = (\<Sum>n\<in>{..<k} - {m}. f n)" by (rule sum.cong) (simp_all add: assms(2))
  then show ?thesis unfolding split [of g] split [of f] by simp
qed

lemma all_passengers: "0 < k \<Longrightarrow> (\<Sum>j\<in>{..<k}. int (n div k) + (if j = 0 then int (n mod k) else 0)) = int n"
proof -
  assume k: "0 < k"
  have "(\<Sum>j\<in>{..<k}. int (n div k) + (if j = 0 then int (n mod k) else 0)) = int k * int (n div k) + int (n mod k)"
    using k by (simp add: sum.distrib sum.delta)
  also have "\<dots> = int (k * (n div k) + n mod k)" by (simp only: of_nat_add of_nat_mult)
  also have "\<dots> = int n" by (simp only: mult_div_mod_eq)
  finally show ?thesis .
qed

lemma tickets_opened: "fresh a \<Longrightarrow> tickets_inv ((\<lambda>_. [])(0 := forks a 1)) a"
proof -
  assume f: "fresh a"
  let ?cs = "(\<lambda>_. [])(0 := forks a 1)"
  have e: "everywhere (length (roster a)) undecided ?cs = 0" by (rule everywhere_zero) (auto simp: forks_def split: if_splits)
  have k: "0 < simNumOfAirlines a" and t: "\<forall>j < simNumOfAirlines a. totalPassengersOfAirline a j = int (simNumOfPassengers a div simNumOfAirlines a)
          + (if j = 0 then int (simNumOfPassengers a mod simNumOfAirlines a) else 0)"
    and z: "ticketsIssued a = (\<lambda>_. 0)" "\<forall>n < simNumOfLiaisons a. li_passengerCount (liaisonOfficers a n) = 0"
    using f by (simp_all add: fresh_def prepared_def untouched_def)
  have "(\<Sum>j\<in>{..<simNumOfAirlines a}. totalPassengersOfAirline a j) = (\<Sum>j\<in>{..<simNumOfAirlines a}.
      int (simNumOfPassengers a div simNumOfAirlines a) + (if j = 0 then int (simNumOfPassengers a mod simNumOfAirlines a) else 0))"
    using t by (intro sum.cong) auto
  with all_passengers [OF k, of "simNumOfPassengers a"] show ?thesis
    unfolding tickets_inv_def e using k t z by simp
qed

lemma tickets_code:
  assumes "tickets_inv cs a" "t < length (roster a)" "(\<Sum>d\<leftarrow>ds. undecided d) = (\<Sum>d\<leftarrow>cs t. undecided d)"
  shows "tickets_inv (cs(t := ds)) a"
  using assms everywhere_same [OF assms(2), of undecided ds cs] unfolding tickets_inv_def by simp

lemma liaison_books_eqD:
  "liaison_books a' = liaison_books a \<Longrightarrow> ticketsIssued a' = ticketsIssued a"
  "liaison_books a' = liaison_books a \<Longrightarrow> li_passengerCount (liaisonOfficers a' n) = li_passengerCount (liaisonOfficers a n)"
  by (simp_all add: liaison_books_def fun_eq_iff)

text \<open>One piece of a liaison's work.\<close>

lemma liaison_tickets:
  assumes "tickets_inv cs a" "n < simNumOfLiaisons a" "LiaisonOfficer_DoWork R n pc a = Inr (ds, a')" "roster a' = roster a"
    "everywhere (length (roster a)) undecided cs' + undecided (A_Liaison n pc) = everywhere (length (roster a)) undecided cs + (\<Sum>d\<leftarrow>ds. undecided d)"
  shows "tickets_inv cs' a'"
proof -
  let ?E = "everywhere (length (roster a)) undecided" and ?served = "\<lambda>a. \<Sum>n\<in>{..<simNumOfLiaisons a}. li_passengerCount (liaisonOfficers a n)"
  let ?issued = "\<lambda>a. \<Sum>j\<in>{..<simNumOfAirlines a}. ticketsIssued a j"
  have "sims a' = sims a" using goes_on_officers(1) [of n pc a R] assms(3) by (simp add: goes_on_def)
  note s = sims_eqD [OF this]
  have tot: "totalPassengersOfAirline a' = totalPassengersOfAirline a" using books_officers(1) [of n pc a R] assms(3) by (simp add: books_kept_def)
  have bal: "?served a' - ?issued a' - ?E cs' = ?served a - ?issued a - ?E cs" and
    le: "\<forall>j < simNumOfAirlines a. 0 \<le> ticketsIssued a' j \<and> ticketsIssued a' j \<le> totalPassengersOfAirline a j"
  proof -
    have nz: "0 < simNumOfAirlines a" and l: "\<forall>j < simNumOfAirlines a. 0 \<le> ticketsIssued a j \<and> ticketsIssued a j \<le> totalPassengersOfAirline a j"
      using assms(1) by (simp_all add: tickets_inv_def)
    show "?served a' - ?issued a' - ?E cs' = ?served a - ?issued a - ?E cs"
    proof (cases pc)
      case Li_serve
      then have a': "a' = set_liaison n ((liaisonOfficers a n)\<lparr>li_passengerCount := li_passengerCount (liaisonOfficers a n) + 1\<rparr>) a"
        "ds = [A_Call (K_Acquire seatLock), A_Liaison n Li_pick]" using assms(3) by (simp_all add: go_def Let_def)
      have "?served a' = ?served a + 1" unfolding s using sum_update [OF assms(2), of "\<lambda>n. li_passengerCount (liaisonOfficers a' n)" "\<lambda>n. li_passengerCount (liaisonOfficers a n)"]
        by (simp add: a' set_liaison_def)
      moreover have "?issued a' = ?issued a" by (simp add: a' set_liaison_def)
      ultimately show ?thesis using assms(5) Li_serve a'(2) by simp
    next
      case Li_pick
      let ?j = "R (rand_pos a) mod simNumOfAirlines a"
      have j: "?j < simNumOfAirlines a" using nz by simp
      have "li_passengerCount (liaisonOfficers a' m) = li_passengerCount (liaisonOfficers a m)" for m
        using assms(3) Li_pick by (auto simp: go_def Let_def rand_def set_liaison_def split: if_splits)
      then have "?served a' = ?served a" by (simp add: s)
      moreover have "?issued a' + (\<Sum>d\<leftarrow>ds. undecided d) = ?issued a + 1"
        using assms(3) Li_pick sum_update [OF j, of "(ticketsIssued a)(?j := ticketsIssued a ?j + 1)" "ticketsIssued a"]
        by (auto simp: go_def Let_def rand_def set_liaison_def split: if_splits)
      ultimately show ?thesis using assms(5) Li_pick by simp
    qed (use assms(3,5) in \<open>auto simp: go_def Let_def split: if_splits\<close>)
    show "\<forall>j < simNumOfAirlines a. 0 \<le> ticketsIssued a' j \<and> ticketsIssued a' j \<le> totalPassengersOfAirline a j"
      using assms(3) l by (cases pc) (auto simp: go_def Let_def rand_def set_liaison_def split: if_splits)
  qed
  have "(\<Sum>j\<in>{..<simNumOfAirlines a}. totalPassengersOfAirline a j) = int (simNumOfPassengers a)" "0 < simNumOfAirlines a"
    "?served a = ?issued a + ?E cs" using assms(1) by (simp_all add: tickets_inv_def)
  then show ?thesis using bal le unfolding tickets_inv_def assms(4) tot by (simp add: s(1-3))
qed

lemma tickets_worked:
  assumes "tickets_inv cs a" "crew cs a k" "t < length (roster a)" "cs t = [c]" "home c = Some (roster a ! t)" "t \<noteq> 0"
    "piece_of R U c a = Inr (ds, a')" "sims a' = sims a"
  shows "tickets_inv (cs(t := ds)) a'"
proof -
  note b = books_piece [OF assms(7)] and s = sims_eqD [OF assms(8)]
  have ns: "\<forall>pc. c \<noteq> A_Setup pc" using not_setup [OF assms(5,3,6)] by blast
  have ev: "everywhere (length (roster a)) undecided (cs(t := ds)) + undecided c = everywhere (length (roster a)) undecided cs + (\<Sum>d\<leftarrow>ds. undecided d)"
    using everywhere_step [of t "length (roster a)" cs undecided undecided ds] assms(3,4) by simp
  show ?thesis
  proof (cases "is_liaison c")
    case False
    have "\<forall>d \<in> set ds. \<not> is_liaison d" using piece_kinds(1) [OF assms(7) ns] False by blast
    then have "everywhere (length (roster a)) undecided (cs(t := ds)) = everywhere (length (roster a)) undecided cs"
      using ev False undecided_sum [of ds] by (cases c) simp_all
    then show ?thesis using assms(1) b(1) [OF ns] liaison_books_eqD [OF b(2) [OF ns False]]
      unfolding tickets_inv_def s by simp
  next
    case True
    then obtain n pc where c: "c = A_Liaison n pc" by (cases c) auto
    have "A_Liaison n Li_loop \<in> set (roster a)" using nth_mem [OF assms(3)] assms(5) c by simp
    then have n: "n < simNumOfLiaisons a" by (rule roster_numbers)
    show ?thesis using liaison_tickets [OF assms(1) n] ev assms(7) s(7) c by simp
  qed
qed

interpretation tickets: airport_invariant R U tickets_inv for R U
proof unfold_locales
  fix cs a k t x rest assume *: "tickets_inv cs a" "crew cs a k" "cs t = A_Call x # rest"
  have "t < length (roster a)" using *(2,3) crew_started [of cs a k t] by (simp add: crew_def)
  with * show "tickets_inv (cs(t := rest)) a" by (intro tickets_code) simp_all
next
  fix cs a k assume i: "tickets_inv cs a" "cs 0 = forks a k" "0 < k" "k < length (roster a)" "cs k = []"
  have f: "(\<Sum>d\<leftarrow>forks a j. undecided d) = 0" for j by (rule undecided_sum) (auto simp: forks_def)
  have "home (roster a ! k) = Some (roster a ! k)" using roster_homes [OF nth_mem [OF i(4)]] .
  then have "undecided (roster a ! k) = 0" by (cases "roster a ! k") auto
  then show "tickets_inv (cs(0 := forks a (Suc k), k := [roster a ! k])) a"
    using i f by (intro tickets_code) (auto simp del: fun_upd_apply, auto)
qed (fact tickets_opened tickets_worked)+

section \<open>Lounges and planes\<close>

text \<open>The passengers who have not reached a lounge, started or not.\<close>

fun on_way :: "acode \<Rightarrow> int" where
  "on_way (A_Passenger p pc) = 1"
| "on_way (A_New t f) = (if is_passenger f then 1 else 0)"
| "on_way _ = 0"

fun leaving :: "acode \<Rightarrow> int" where
  "leaving (A_Manager (Mg_plane i)) = 1"
| "leaving _ = 0"

definition manager_zero :: "airport \<Rightarrow> bool" where
  "manager_zero a \<longleftrightarrow> (\<forall>j < simNumOfAirlines a. CargoHandlerTotalWeight (simAirportManager a) j = 0 \<and> CargoHandlerTotalCount (simAirportManager a) j = 0
     \<and> CIOTotalWeight (simAirportManager a) j = 0 \<and> LiaisonTotalCount (simAirportManager a) j = 0)
     \<and> liaisonPassengerCount (simAirportManager a) = 0 \<and> checkInPassengerCount (simAirportManager a) = 0
     \<and> securityPassengerCount (simAirportManager a) = 0"

fun gate_ok :: "airport \<Rightarrow> acode \<Rightarrow> bool" where
  "gate_ok a (A_Passenger p At_Gate) \<longleftrightarrow> pa_airline (simPassengers a p) < simNumOfAirlines a"
| "gate_ok a (A_Manager (Mg_boarded i)) \<longleftrightarrow> i < simNumOfAirlines a \<and> totalPassengersOfAirline a i \<le> boardingLounges a i \<and> \<not> alreadyBoarded a i \<and> manager_zero a"
| "gate_ok a (A_Manager Mg_end) \<longleftrightarrow> planeCount a = simNumOfAirlines a \<and> manager_zero a"
| "gate_ok a (A_Manager pc) \<longleftrightarrow> manager_zero a"
| "gate_ok a (A_New t (A_Manager pc)) \<longleftrightarrow> manager_zero a"
| "gate_ok a _ \<longleftrightarrow> True"

definition boarding_inv :: "(tid \<Rightarrow> acode list) \<Rightarrow> airport \<Rightarrow> bool" where
  "boarding_inv cs a \<longleftrightarrow> (\<forall>t. \<forall>c \<in> set (cs t). gate_ok a c)
     \<and> (\<Sum>j\<in>{..<simNumOfAirlines a}. boardingLounges a j) + everywhere (length (roster a)) on_way cs = int (simNumOfPassengers a)
     \<and> (\<forall>j < simNumOfAirlines a. alreadyBoarded a j \<longrightarrow> totalPassengersOfAirline a j \<le> boardingLounges a j)
     \<and> int (planeCount a) + everywhere (length (roster a)) leaving cs = (\<Sum>j\<in>{..<simNumOfAirlines a}. of_bool (alreadyBoarded a j))"

text \<open>A passenger on the way to the gate.\<close>

definition walks :: "nat \<Rightarrow> airport \<Rightarrow> piece \<Rightarrow> bool" where
  "walks p a r \<longleftrightarrow> (\<forall>ds a'. r = Inr (ds, a') \<longrightarrow> boardingLounges a' = boardingLounges a \<and> (\<Sum>d\<leftarrow>ds. on_way d) = 1
     \<and> (\<forall>q. q \<noteq> p \<longrightarrow> pa_airline (simPassengers a' q) = pa_airline (simPassengers a q))
     \<and> (\<forall>d \<in> set ds. home d = None \<or> gate_ok a' d))"

lemma calls_on_way [simp]: "(\<Sum>k\<leftarrow>ks. on_way (A_Call k)) = 0" "(\<Sum>k\<leftarrow>ks. leaving (A_Call k)) = 0"
  by (induction ks) simp_all

lemma walks_go [simp]:
  "walks p a (Inl e)"
  "walks p a (go ks next a') \<longleftrightarrow> boardingLounges a' = boardingLounges a \<and> (\<Sum>d\<leftarrow>next. on_way d) = 1
     \<and> (\<forall>q. q \<noteq> p \<longrightarrow> pa_airline (simPassengers a' q) = pa_airline (simPassengers a q)) \<and> (\<forall>d \<in> set next. home d = None \<or> gate_ok a' d)"
  by (auto simp: walks_def go_def comp_def)

lemma walks_rbind [intro!]: "(\<And>x. r = Inr x \<Longrightarrow> walks p a (f x)) \<Longrightarrow> walks p a (rbind r f)"
  by (cases r) simp_all

lemma walks_passenger:
  assumes "pc \<noteq> At_Gate"
  shows "walks p a (ChooseLiaisonLine R U p pc a)"
proof (cases pc)
  case (With_Liaison l)
  then show ?thesis by (cases l) (auto simp: Let_def set_passenger_def)
next
  case (At_CheckIn l)
  then show ?thesis by (cases l) (auto simp: Let_def set_passenger_def)
next
  case (At_Screening l)
  then show ?thesis by (cases l) (auto simp: Let_def set_passenger_def split: prod.split)
next
  case (At_Security l)
  then show ?thesis by (cases l) (auto simp: Let_def set_passenger_def rand_def)
qed (use assms in simp)

lemma gate_piece:
  assumes "Passenger_gate p a = Inr (ds, a')"
  shows "boardingLounges a' = (boardingLounges a)(pa_airline (simPassengers a p) := boardingLounges a (pa_airline (simPassengers a p)) + 1)"
    "simPassengers a' = simPassengers a" "\<forall>d \<in> set ds. home d = None \<and> on_way d = 0 \<and> leaving d = 0 \<and> gate_ok a' d"
  using assms by (auto simp: Passenger_gate_def go_def Let_def)

lemma manager_piece:
  assumes "AirportManager_DoWork pc a = Inr (ds, a')" "pc \<noteq> Mg_end"
  shows "simAirportManager a' = simAirportManager a" "boardingLounges a' = boardingLounges a"
  using assms by (cases pc; auto simp: go_def Let_def split: if_splits)+

lemma lounges_grow:
  assumes "piece_of R U c a = Inr (ds, a')" "\<forall>pc. c \<noteq> A_Setup pc"
  shows "boardingLounges a j \<le> boardingLounges a' j"
proof (cases "is_passenger c")
  case False
  then show ?thesis using books_piece(4) [OF assms] by (simp add: lounge_books_def)
next
  case True
  then obtain p pc where c: "c = A_Passenger p pc" by (cases c) auto
  show ?thesis
  proof (cases "pc = At_Gate")
    case True
    then show ?thesis using assms(1) c gate_piece(1) [of p a ds a'] by auto
  next
    case False
    then show ?thesis using walks_passenger [OF False, of p a R U] assms(1) c by (simp add: walks_def)
  qed
qed

lemma on_duty_new: "on_duty h cs \<Longrightarrow> A_New u f \<notin> set cs"
  by (auto simp: on_duty_def)

text \<open>Once the manager runs, the main thread has no manager to start.\<close>

lemma manager_started:
  assumes "crew cs a k" "A_Manager pc \<in> set (cs t)" "A_New u (A_Manager pc') \<in> set (cs v)"
  shows False
proof -
  have t: "t < length (roster a)" "roster a ! t = A_Manager Mg_loop" using crew_place [OF assms(1,2)] by simp_all
  have one: "roster a ! 1 = A_Manager Mg_loop" by (simp add: roster_def)
  have "t = 1" using nth_eq_iff_index_eq [OF roster_distinct t(1), of 1] t(2) one length_roster [of a] by simp
  then have k: "1 < k" using crew_started [OF assms(1), of t] assms(2) by (cases "cs t") auto
  have v: "v = 0"
  proof (rule ccontr)
    assume "v \<noteq> 0"
    from on_duty_new [OF crew_other [OF assms(1) this]] assms(3) show False by blast
  qed
  then have "A_New u (A_Manager pc') \<in> set (forks a k)" using assms(1,3) k by (auto simp: crew_def)
  then have u: "k \<le> u" "u < length (roster a)" "roster a ! u = A_Manager pc'" by (auto simp: forks_def)
  have "roster a ! u = A_Manager Mg_loop" using roster_homes [OF nth_mem [OF u(2)]] u(3) by simp
  then have "u = 1" using nth_eq_iff_index_eq [OF roster_distinct u(2), of 1] one length_roster [of a] by simp
  with k u(1) show False by simp
qed

lemma gate_frame:
  assumes "crew cs a k" "cs t = [c]" "piece_of R U c a = Inr (ds, a')" "\<forall>pc. c \<noteq> A_Setup pc" "sims a' = sims a"
    "u \<noteq> t" "d \<in> set (cs u)" "gate_ok a d"
  shows "gate_ok a' d"
proof -
  obtain h where h: "home c = Some h" using piece_home [OF assms(3)] ..
  have alone: "home d \<noteq> home c" if "home d \<noteq> None"
  proof
    assume "home d = home c"
    with h crew_alone [OF assms(1), of c t h d u] assms(2,6,7) show False by simp
  qed
  note s = sims_eqD(2) [OF assms(5)] and b = books_piece [OF assms(3,4)]
  have zero: "manager_zero a' = manager_zero a" if "\<not> is_manager c \<or> c \<noteq> A_Manager Mg_end"
  proof -
    have "simAirportManager a' = simAirportManager a"
      using that b(3) manager_piece(1) [of _ a ds a'] assms(3) by (cases c) (auto simp: manager_books_def)
    then show ?thesis by (simp add: manager_zero_def s)
  qed
  show ?thesis
  proof (cases d)
    case (A_Passenger p pc)
    have "pa_airline (simPassengers a' p) = pa_airline (simPassengers a p)"
    proof (cases "is_passenger c")
      case False
      then show ?thesis using b(4) by (simp add: lounge_books_def fun_eq_iff)
    next
      case True
      then obtain q qc where c: "c = A_Passenger q qc" by (cases c) auto
      have "q \<noteq> p" using alone A_Passenger c by auto
      then show ?thesis using walks_passenger [of qc q a R U] gate_piece(2) [of q a ds a'] assms(3) c
        by (cases "qc = At_Gate") (auto simp: walks_def)
    qed
    then show ?thesis using assms(8) A_Passenger s by (cases pc) simp_all
  next
    case (A_Manager pc)
    then have m: "\<not> is_manager c" using alone by (cases c) auto
    then have "alreadyBoarded a' = alreadyBoarded a" "planeCount a' = planeCount a" using b(3) by (simp_all add: manager_books_def)
    then show ?thesis using assms(8) A_Manager zero m s b(1) lounges_grow [OF assms(3,4)] by (cases pc) (auto intro: order_trans)
  next
    case (A_New v f)
    show ?thesis
    proof (cases "is_manager f")
      case True
      then obtain pc where f: "f = A_Manager pc" by (cases f) auto
      have "c \<noteq> A_Manager Mg_end" using manager_started [OF assms(1), of Mg_end t v pc u] assms(2,7) A_New f by auto
      then show ?thesis using zero assms(8) A_New f by simp
    qed (cases f; simp add: A_New)
  qed simp_all
qed

text \<open>The parts of the invariant after a piece, from the changes to the sums.\<close>

lemma boarding_step:
  assumes "boarding_inv cs a" "crew cs a k" "t < length (roster a)" "cs t = [c]" "piece_of R U c a = Inr (ds, a')" "\<forall>pc. c \<noteq> A_Setup pc"
    "sims a' = sims a" and own: "\<forall>d \<in> set ds. gate_ok a' d"
    and lounges: "(\<Sum>j\<in>{..<simNumOfAirlines a}. boardingLounges a' j) + (\<Sum>d\<leftarrow>ds. on_way d) = (\<Sum>j\<in>{..<simNumOfAirlines a}. boardingLounges a j) + on_way c"
    and boarded: "\<forall>j < simNumOfAirlines a. alreadyBoarded a' j \<longrightarrow> alreadyBoarded a j \<or> totalPassengersOfAirline a j \<le> boardingLounges a j"
    and planes: "int (planeCount a') + (\<Sum>d\<leftarrow>ds. leaving d) + (\<Sum>j\<in>{..<simNumOfAirlines a}. of_bool (alreadyBoarded a j))
      = int (planeCount a) + leaving c + (\<Sum>j\<in>{..<simNumOfAirlines a}. of_bool (alreadyBoarded a' j))"
  shows "boarding_inv (cs(t := ds)) a'"
proof -
  note s = sims_eqD [OF assms(7)] and i = assms(1) [unfolded boarding_inv_def]
  have "gate_ok a' d" if "d \<in> set ((cs(t := ds)) u)" for u d
    using gate_frame [OF assms(2,4,5,6,7), of u d] own i that by (cases "u = t") auto
  moreover have "everywhere (length (roster a)) on_way (cs(t := ds)) + on_way c = everywhere (length (roster a)) on_way cs + (\<Sum>d\<leftarrow>ds. on_way d)"
    "everywhere (length (roster a)) leaving (cs(t := ds)) + leaving c = everywhere (length (roster a)) leaving cs + (\<Sum>d\<leftarrow>ds. leaving d)"
    using everywhere_step [of t "length (roster a)" cs on_way on_way ds] everywhere_step [of t "length (roster a)" cs leaving leaving ds] assms(3,4) by simp_all
  moreover have "totalPassengersOfAirline a' j \<le> boardingLounges a' j" if "j < simNumOfAirlines a" "alreadyBoarded a' j" for j
  proof -
    have "totalPassengersOfAirline a j \<le> boardingLounges a j" using boarded i that by blast
    then show ?thesis using books_piece(1) [OF assms(5,6)] lounges_grow [OF assms(5,6), of j] by simp
  qed
  ultimately show ?thesis using i lounges planes unfolding boarding_inv_def s by (auto simp del: fun_upd_apply)
qed

lemma manager_boarding:
  assumes "AirportManager_DoWork pc a = Inr (ds, a')" "gate_ok a (A_Manager pc)"
  shows "\<forall>d \<in> set ds. gate_ok a' d" "boardingLounges a' = boardingLounges a" "(\<Sum>d\<leftarrow>ds. on_way d) = 0"
    "\<forall>j < simNumOfAirlines a. alreadyBoarded a' j \<longrightarrow> alreadyBoarded a j \<or> totalPassengersOfAirline a j \<le> boardingLounges a j"
    "int (planeCount a') + (\<Sum>d\<leftarrow>ds. leaving d) + (\<Sum>j\<in>{..<simNumOfAirlines a}. of_bool (alreadyBoarded a j))
      = int (planeCount a) + leaving (A_Manager pc) + (\<Sum>j\<in>{..<simNumOfAirlines a}. of_bool (alreadyBoarded a' j))"
proof -
  show "\<forall>d \<in> set ds. gate_ok a' d" using assms by (cases pc) (auto simp: go_def Let_def manager_zero_def split: if_splits)
  show "boardingLounges a' = boardingLounges a" "(\<Sum>d\<leftarrow>ds. on_way d) = 0"
    using assms by (cases pc; auto simp: go_def Let_def EndOfDay_def split: if_splits)+
  show "\<forall>j < simNumOfAirlines a. alreadyBoarded a' j \<longrightarrow> alreadyBoarded a j \<or> totalPassengersOfAirline a j \<le> boardingLounges a j"
    using assms by (cases pc) (auto simp: go_def Let_def EndOfDay_def split: if_splits)
  show "int (planeCount a') + (\<Sum>d\<leftarrow>ds. leaving d) + (\<Sum>j\<in>{..<simNumOfAirlines a}. of_bool (alreadyBoarded a j))
      = int (planeCount a) + leaving (A_Manager pc) + (\<Sum>j\<in>{..<simNumOfAirlines a}. of_bool (alreadyBoarded a' j))"
  proof (cases pc)
    case (Mg_boarded i)
    then have "i < simNumOfAirlines a" "\<not> alreadyBoarded a i" using assms(2) by simp_all
    moreover have a': "a' = a\<lparr>alreadyBoarded := (alreadyBoarded a)(i := True)\<rparr>" "ds = [A_Call (K_Release (gateLocks i)), A_Manager (Mg_plane i)]"
      using assms(1) Mg_boarded by (simp_all add: go_def)
    ultimately have "(\<Sum>j\<in>{..<simNumOfAirlines a}. of_bool (alreadyBoarded a' j)) = (\<Sum>j\<in>{..<simNumOfAirlines a}. of_bool (alreadyBoarded a j)) + (1::int)"
      using sum_update [of i "simNumOfAirlines a" "\<lambda>j. of_bool (alreadyBoarded a' j)" "\<lambda>j. of_bool (alreadyBoarded a j)"]
      by (simp del: sum_of_bool_eq)
    moreover have "planeCount a' = planeCount a" "(\<Sum>d\<leftarrow>ds. leaving d) = 1" "leaving (A_Manager pc) = 0" using a' Mg_boarded by simp_all
    ultimately show ?thesis by linarith
  qed (use assms(1) in \<open>auto simp: go_def Let_def EndOfDay_def split: if_splits\<close>)
qed

lemma plain_boarding:
  assumes "piece_of R U c a = Inr (ds, a')" "\<forall>pc. c \<noteq> A_Setup pc" "d \<in> set ds" "\<not> is_manager c"
  shows "leaving d = 0" "\<not> is_passenger c \<Longrightarrow> on_way d = 0 \<and> gate_ok a' d" "\<forall>t f. d \<noteq> A_New t f"
proof -
  have k: "is_manager d \<Longrightarrow> is_manager c" "is_passenger d \<Longrightarrow> is_passenger c" using piece_kinds [OF assms(1-3)] by blast+
  have n: "\<forall>t f. d \<noteq> A_New t f" using goes_on_piece [of c a R U] assms(1-3) piece_home [OF assms(1)] by (fastforce simp: goes_on_def)
  then show "\<forall>t f. d \<noteq> A_New t f" .
  show "leaving d = 0" using k(1) assms(4) by (cases d) auto
  show "\<not> is_passenger c \<Longrightarrow> on_way d = 0 \<and> gate_ok a' d" using k assms(4) n by (cases d) auto
qed

lemma sum_list_zero: "(\<And>d. d \<in> set ds \<Longrightarrow> f d = 0) \<Longrightarrow> (\<Sum>d\<leftarrow>ds. f d) = (0::int)"
  by (induction ds) simp_all

lemma boarding_worked:
  assumes "boarding_inv cs a" "crew cs a k" "t < length (roster a)" "cs t = [c]" "home c = Some (roster a ! t)" "t \<noteq> 0"
    "piece_of R U c a = Inr (ds, a')" "sims a' = sims a"
  shows "boarding_inv (cs(t := ds)) a'"
proof -
  have ns: "\<forall>pc. c \<noteq> A_Setup pc" using not_setup [OF assms(5,3,6)] by blast
  have ok: "gate_ok a c" using assms(1,4) unfolding boarding_inv_def by (metis list.set_intros(1))
  note step = boarding_step [OF assms(1,2,3,4,7) ns assms(8)]
  show ?thesis
  proof (cases "is_manager c")
    case True
    then obtain pc where c: "c = A_Manager pc" by (cases c) auto
    from c assms(7) ok have "AirportManager_DoWork pc a = Inr (ds, a')" "gate_ok a (A_Manager pc)" by simp_all
    from manager_boarding [OF this] show ?thesis by (intro step) (simp_all add: c)
  next
    case False
    note p = plain_boarding [OF assms(7) ns _ False]
    have m: "alreadyBoarded a' = alreadyBoarded a" "planeCount a' = planeCount a"
      using books_piece(3) [OF assms(7) ns False] by (simp_all add: manager_books_def)
    have lv: "(\<Sum>d\<leftarrow>ds. leaving d) = 0" "leaving c = 0" using sum_list_zero [of ds leaving] p(1) False by (auto, cases c, auto)
    show ?thesis
    proof (cases "is_passenger c")
      case np: False
      have "boardingLounges a' = boardingLounges a" using books_piece(4) [OF assms(7) ns np] by (simp add: lounge_books_def)
      moreover have "on_way c = 0" using np piece_home [OF assms(7)] by (cases c) auto
      ultimately show ?thesis using p(2) np sum_list_zero [of ds on_way] m lv by (intro step) auto
    next
      case True
      then obtain q pc where c: "c = A_Passenger q pc" by (cases c) auto
      show ?thesis
      proof (cases "pc = At_Gate")
        case gate: True
        then have "Passenger_gate q a = Inr (ds, a')" using assms(7) c by simp
        note g = gate_piece [OF this]
        let ?j = "pa_airline (simPassengers a q)"
        have "?j < simNumOfAirlines a" using ok c gate by simp
        then have "(\<Sum>j\<in>{..<simNumOfAirlines a}. boardingLounges a' j) = (\<Sum>j\<in>{..<simNumOfAirlines a}. boardingLounges a j) + 1"
          using sum_update [of ?j "simNumOfAirlines a" "boardingLounges a'" "boardingLounges a"] by (simp add: g(1))
        then show ?thesis using g(3) sum_list_zero [of ds on_way] m lv c by (intro step) auto
      next
        case False
        from walks_passenger [OF this, of q a R U] assms(7) c
        have w: "boardingLounges a' = boardingLounges a" "(\<Sum>d\<leftarrow>ds. on_way d) = 1" "\<forall>d \<in> set ds. home d = None \<or> gate_ok a' d"
          by (simp_all add: walks_def)
        moreover have "home d = None \<Longrightarrow> d \<in> set ds \<Longrightarrow> gate_ok a' d" for d using p(3) [of d] by (cases d) auto
        ultimately show ?thesis using m lv c by (intro step) auto
      qed
    qed
  qed
qed

lemma everywhere_main: "0 < n \<Longrightarrow> everywhere n f ((\<lambda>_. [])(0 := ds)) = (\<Sum>d\<leftarrow>ds. f d :: int)"
  using everywhere_step [of 0 n "\<lambda>_. []" f f ds] by (simp add: everywhere_def)

lemma forks_on_way: "(\<Sum>d\<leftarrow>forks a 1. on_way d) = int (simNumOfPassengers a)"
proof -
  have tl: "map ((!) xs) [1..<length xs] = drop 1 xs" for xs :: "acode list" by (rule nth_equalityI) auto
  have "(\<Sum>d\<leftarrow>forks a 1. on_way d) = (\<Sum>f\<leftarrow>map ((!) (roster a)) [1..<length (roster a)]. if is_passenger f then 1 else 0)"
    by (simp add: forks_def comp_def)
  also have "\<dots> = int (length (filter is_passenger (drop 1 (roster a))))"
  proof -
    have "(\<Sum>f\<leftarrow>xs. if is_passenger f then 1 else 0) = int (length (filter is_passenger xs))" for xs by (induction xs) simp_all
    then show ?thesis by (simp only: tl)
  qed
  also have "filter is_passenger (drop 1 (roster a)) = map (\<lambda>i. A_Passenger i (With_Liaison Pa_start)) [0..<simNumOfPassengers a]"
  proof -
    have "filter is_passenger (concat (map (\<lambda>i. [A_Screening i Sc_loop, A_Security i Se_loop]) ns)) = []" for ns by (induction ns) simp_all
    then show ?thesis by (simp add: roster_def filter_map comp_def)
  qed
  finally show ?thesis by simp
qed

lemma boarding_opened: "fresh a \<Longrightarrow> boarding_inv ((\<lambda>_. [])(0 := forks a 1)) a"
proof -
  assume f: "fresh a"
  have "manager_zero a" using f unfolding fresh_def prepared_def manager_zero_def by blast
  then have "gate_ok a (A_New t g)" for t g by (cases g) simp_all
  then have "\<forall>c \<in> set (forks a 1). gate_ok a c" by (auto simp: forks_def)
  moreover have "(\<Sum>d\<leftarrow>forks a 1. leaving d) = 0" by (rule sum_list_zero) (auto simp: forks_def)
  moreover have "0 < length (roster a)" using length_roster [of a] by linarith
  moreover have "\<forall>j < simNumOfAirlines a. boardingLounges a j = 0" "alreadyBoarded a = (\<lambda>_. False)" "planeCount a = 0"
    using f by (simp_all add: fresh_def prepared_def untouched_def)
  ultimately show ?thesis
    unfolding boarding_inv_def everywhere_main [OF \<open>0 < length (roster a)\<close>] forks_on_way by auto
qed

lemma boarding_code:
  assumes "boarding_inv cs a" "t < length (roster a)" "(\<Sum>d\<leftarrow>ds. leaving d) = (\<Sum>d\<leftarrow>cs t. leaving d)" "\<forall>d \<in> set ds. gate_ok a d"
  shows "(\<Sum>d\<leftarrow>ds. on_way d) = (\<Sum>d\<leftarrow>cs t. on_way d) \<Longrightarrow> boarding_inv (cs(t := ds)) a"
  using assms everywhere_same [OF assms(2), of leaving ds cs] everywhere_same [OF assms(2), of on_way ds cs]
  unfolding boarding_inv_def by auto

lemma boarding_forked:
  assumes i: "boarding_inv cs a" "cs 0 = forks a k" "0 < k" "k < length (roster a)" "cs k = []"
  shows "boarding_inv (cs(0 := forks a (Suc k), k := [roster a ! k])) a"
proof -
  let ?f = "roster a ! k" and ?cs = "cs(0 := forks a (Suc k))" and ?N = "length (roster a)"
  have f: "home ?f = Some ?f" using roster_homes [OF nth_mem [OF i(4)]] .
  have c0: "cs 0 = A_New k ?f # forks a (Suc k)" using i(2,4) by (simp add: forks_Cons)
  have N: "0 < ?N" using i(4) by linarith
  have e1: "everywhere ?N on_way ?cs + (if is_passenger ?f then 1 else 0) = everywhere ?N on_way cs" "everywhere ?N leaving ?cs = everywhere ?N leaving cs"
    using everywhere_step [of 0 ?N cs on_way on_way "forks a (Suc k)"] everywhere_step [of 0 ?N cs leaving leaving "forks a (Suc k)"] N c0 by simp_all
  have e2: "everywhere ?N on_way (?cs(k := [?f])) = everywhere ?N on_way ?cs + on_way ?f" "everywhere ?N leaving (?cs(k := [?f])) = everywhere ?N leaving ?cs + leaving ?f"
    using everywhere_step [of k ?N ?cs on_way on_way "[?f]"] everywhere_step [of k ?N ?cs leaving leaving "[?f]"] i(3-5) by simp_all
  have "on_way ?f = (if is_passenger ?f then 1 else 0)" "leaving ?f = 0" using f by (cases ?f; auto)+
  then have "everywhere ?N on_way (?cs(k := [?f])) = everywhere ?N on_way cs" "everywhere ?N leaving (?cs(k := [?f])) = everywhere ?N leaving cs"
    using e1 e2 by linarith+
  moreover have "gate_ok a ?f"
  proof -
    have "gate_ok a (A_New k ?f)" using i(1) c0 unfolding boarding_inv_def by (metis list.set_intros(1))
    then show ?thesis using f by (cases ?f) auto
  qed
  moreover have "gate_ok a d" if "d \<in> set (forks a (Suc k))" for d using i(1) c0 that unfolding boarding_inv_def by (metis list.set_intros(2))
  ultimately show ?thesis using i(1) unfolding boarding_inv_def by (auto simp: fun_upd_apply split: if_splits)
qed

interpretation boarding: airport_invariant R U boarding_inv for R U
proof unfold_locales
  fix cs a k t x rest assume *: "boarding_inv cs a" "crew cs a k" "cs t = A_Call x # rest"
  have "t < length (roster a)" using *(2,3) crew_started [of cs a k t] by (simp add: crew_def)
  moreover have "\<forall>d \<in> set rest. gate_ok a d" using *(1,3) unfolding boarding_inv_def by (metis list.set_intros(2))
  ultimately show "boarding_inv (cs(t := rest)) a" using * by (intro boarding_code) simp_all
qed (rule boarding_opened boarding_worked boarding_forked; assumption)+

end
