(* ===== verification/Airport_Props.thy ===== *)
theory Airport_Props
  imports Airport_Boarding
begin

text \<open>
  Properties of the airport simulation: it refines the interleavings of its agents' work, keeps the books of baggage,
  tickets, lounges and planes, and ends the day with totals that agree. Then the input of \<open>RunSim\<close> and the round in
  which a screening officer looks for a security officer.
\<close>

section \<open>Running threads in a given order\<close>

fun air_turn :: "(nat \<Rightarrow> nat) \<Rightarrow> (nat \<Rightarrow> int) \<Rightarrow> tid \<Rightarrow> (tid \<Rightarrow> acode list) \<times> airport \<Rightarrow> ((tid \<Rightarrow> acode list) \<times> airport) option" where
  "air_turn R U t (cs, a) = (case cs t of
       [] \<Rightarrow> None
     | c # rest \<Rightarrow> (case c of
           A_Call k \<Rightarrow> Some (cs(t := rest), a)
         | A_New u f \<Rightarrow> (if u \<noteq> t then Some (cs(t := rest, u := [f]), a) else None)
         | _ \<Rightarrow> (case piece_of R U c a of Inr (ds, a') \<Rightarrow> Some (cs(t := ds @ rest), a') | Inl _ \<Rightarrow> None)))"

primrec air_run :: "(nat \<Rightarrow> nat) \<Rightarrow> (nat \<Rightarrow> int) \<Rightarrow> tid list \<Rightarrow> (tid \<Rightarrow> acode list) \<times> airport \<Rightarrow> ((tid \<Rightarrow> acode list) \<times> airport) option" where
  "air_run R U [] x = Some x"
| "air_run R U (t # ts) x = Option.bind (air_turn R U t x) (air_run R U ts)"

lemma air_turn_move: "air_turn R U t x = Some y \<Longrightarrow> air_move R U x y"
proof -
  assume turn: "air_turn R U t x = Some y"
  obtain cs a where x: "x = (cs, a)" by (cases x)
  obtain c rest where c: "cs t = c # rest" using turn x by (cases "cs t") auto
  show ?thesis
  proof (cases "\<exists>k u f. c = A_Call k \<or> c = A_New u f")
    case True
    then show ?thesis using turn x c by (auto split: if_splits intro: air_move.called air_move.forked)
  next
    case False
    then have "air_turn R U t x = (case piece_of R U c a of Inr (ds, a') \<Rightarrow> Some (cs(t := ds @ rest), a') | Inl _ \<Rightarrow> None)"
      by (simp add: x c split: acode.split)
    with turn obtain ds a' where "piece_of R U c a = Inr (ds, a')" "y = (cs(t := ds @ rest), a')"
      by (auto split: sum.splits)
    then show ?thesis using x c air_move.worked by simp
  qed
qed

lemma air_run_reach: "air_reach R U junk x \<Longrightarrow> air_run R U ts x = Some y \<Longrightarrow> air_reach R U junk y"
proof (induction ts arbitrary: x)
  case (Cons t ts)
  then obtain z where z: "air_turn R U t x = Some z" "air_run R U ts z = Some y" by (auto simp: bind_eq_Some_conv)
  from air_turn_move [OF z(1)] Cons.prems(1) have "air_reach R U junk z" by (rule air_reach.moved [rotated])
  with z(2) show ?case by (rule Cons.IH [rotated])
qed simp

lemma air_run_append: "air_run R U (ts @ us) x = Option.bind (air_run R U ts x) (air_run R U us)"
proof (induction ts arbitrary: x)
  case (Cons t ts)
  then have "air_run R U (ts @ us) = (\<lambda>y. Option.bind (air_run R U ts y) (air_run R U us))" by blast
  then show ?case by simp
qed simp

abbreviation air_begin :: "airport \<Rightarrow> (tid \<Rightarrow> acode list) \<times> airport" where
  "air_begin junk \<equiv> ((\<lambda>_. [])(0 := [A_Setup St_start]), airport_memory junk)"

text \<open>A day with one airline and one agent of each kind: main sets up and starts the threads, the passenger talks to the
  liaison and hands over two bags; the officer puts them on the conveyor, the cargo handler takes the first.\<close>

definition demo_busy :: "tid list" where
  "demo_busy = replicate 18 0 @ replicate 7 7 @ replicate 12 3 @ replicate 15 7 @ replicate 18 2 @ replicate 3 6"

text \<open>The rest of the day: the bags are noted and loaded, the passenger goes through screening and security to the gate, and
  the manager calls the plane.\<close>

definition demo_day :: "tid list" where
  "demo_day = demo_busy @ replicate 2 2 @ replicate 11 6 @ replicate 46 7 @ replicate 10 1"

definition demo_state :: "tid list \<Rightarrow> (tid \<Rightarrow> acode list) \<times> airport" where
  "demo_state ts = the (air_run (\<lambda>_. 2) (\<lambda>_. 0) ts (air_begin demo_airport))"

lemma demo_reach:
  assumes "air_run (\<lambda>_. 2) (\<lambda>_. 0) ts (air_begin demo_airport) \<noteq> None"
  shows "air_reach (\<lambda>_. 2) (\<lambda>_. 0) demo_airport (fst (demo_state ts), snd (demo_state ts))"
proof -
  obtain y where "air_run (\<lambda>_. 2) (\<lambda>_. 0) ts (air_begin demo_airport) = Some y" using assms by blast
  with air_run_reach [OF air_reach.begun] show ?thesis by (simp add: demo_state_def)
qed

lemma demo_busy_runs:
  "air_reach (\<lambda>_. 2) (\<lambda>_. 0) demo_airport (fst (demo_state demo_busy), snd (demo_state demo_busy))"
  "\<forall>pc. A_Setup pc \<notin> set (fst (demo_state demo_busy) 0)" "simNumOfAirlines (snd (demo_state demo_busy)) = 1"
proof -
  show "air_reach (\<lambda>_. 2) (\<lambda>_. 0) demo_airport (fst (demo_state demo_busy), snd (demo_state demo_busy))"
    by (rule demo_reach) code_simp
  have "fst (demo_state demo_busy) 0 = []" by code_simp
  then show "\<forall>pc. A_Setup pc \<notin> set (fst (demo_state demo_busy) 0)" by simp
  show "simNumOfAirlines (snd (demo_state demo_busy)) = 1" by code_simp
qed

lemma demo_day_runs:
  "air_reach (\<lambda>_. 2) (\<lambda>_. 0) demo_airport (fst (demo_state demo_day), snd (demo_state demo_day))"
  "\<forall>pc. A_Setup pc \<notin> set (fst (demo_state demo_day) 0)" "simNumOfAirlines (snd (demo_state demo_day)) = 1"
  "A_Manager Mg_end \<in> set (fst (demo_state demo_day) 1)"
proof -
  show "air_reach (\<lambda>_. 2) (\<lambda>_. 0) demo_airport (fst (demo_state demo_day), snd (demo_state demo_day))"
    by (rule demo_reach) code_simp
  have "fst (demo_state demo_day) 0 = []" "fst (demo_state demo_day) 1 = [A_Manager Mg_end]" by code_simp+
  then show "\<forall>pc. A_Setup pc \<notin> set (fst (demo_state demo_day) 0)" "A_Manager Mg_end \<in> set (fst (demo_state demo_day) 1)" by simp_all
  show "simNumOfAirlines (snd (demo_state demo_day)) = 1" by code_simp
qed

section \<open>The simulation and its interleavings\<close>

text \<open>The small airport after the first steps of its setup on the kernel.\<close>

definition demo_opening :: air where
  "demo_opening = projr (rbind (air_start (\<lambda>_. 0) False (\<lambda>_. None) demo_spaces demo_airport)
      (steps (fire (\<lambda>_. 0)) (air_exec (\<lambda>_. 2) (\<lambda>_. 0)) 20))"

lemma demo_opening_runs:
  "\<not> isl (rbind (air_start (\<lambda>_. 0) False (\<lambda>_. None) demo_spaces demo_airport) (steps (fire (\<lambda>_. 0)) (air_exec (\<lambda>_. 2) (\<lambda>_. 0)) 20))"
  by code_simp

text \<open>C21. The simulation on the kernel refines the interleavings of its agents' work: in every state that the kernel reaches from
  the start of the simulation, whatever the timer, \<open>rand()\<close>, the uninitialised memory and the scheduling, the scheduler's
  invariant holds, and the code that the threads still have to run and the data of the airport are those of an interleaving in
  which each move runs one call or one piece of work of one thread.\<close>

theorem simulation_refines_interleavings:
  assumes "air_start rnd randomYield lockJunk spaces0 junk = Inr s0" "reachable (fire rnd) (air_exec R U) s0 s"
  shows "kernel_inv s \<and> air_reach R U junk (codes s, port s)"
  using assms(2,1) by (rule reachable_air)

theorem simulation_refines_interleavings_witness:
  "currentThread demo_opening = 0 \<and> planeCount (port demo_opening) = 0
   \<and> kernel_inv demo_opening \<and> air_reach (\<lambda>_. 2) (\<lambda>_. 0) demo_airport (codes demo_opening, port demo_opening)"
proof -
  obtain s0 where "air_start (\<lambda>_. 0) False (\<lambda>_. None) demo_spaces demo_airport = Inr s0"
    "reachable (fire (\<lambda>_. 0)) (air_exec (\<lambda>_. 2) (\<lambda>_. 0)) s0 demo_opening"
    unfolding demo_opening_def by (rule run_reachable [OF demo_opening_runs])
  from simulation_refines_interleavings [OF this] have "kernel_inv demo_opening \<and> air_reach (\<lambda>_. 2) (\<lambda>_. 0) demo_airport (codes demo_opening, port demo_opening)" .
  moreover have "currentThread demo_opening = 0" "planeCount (port demo_opening) = 0" by code_simp+
  ultimately show ?thesis by blast
qed

section \<open>Baggage\<close>












text \<open>C26. Labels: once the airport is open, every bag on the conveyor and every bag in a handler's hands has the code of an
  existing airline, every bag that an officer has noted has the code of the officer's airline, and so a handler that takes a
  bag never indexes beyond the arrays of the airlines.\<close>

theorem bags_labelled:
  assumes "air_reach R U junk (cs, a)" "\<forall>pc. A_Setup pc \<notin> set (cs 0)"
  shows "(\<forall>b \<in> set (conveyor a). airlineCode b < simNumOfAirlines a)
     \<and> (\<forall>t n b. A_Cargo n (Ca_load b) \<in> set (cs t) \<longrightarrow> airlineCode b < simNumOfAirlines a)
     \<and> (\<forall>n < simNumOfAirlines a * simNumOfCIOs a. \<forall>b \<in> set (totalBags (CheckIn a n)). airlineCode b = ci_airline (CheckIn a n) \<and> airlineCode b < simNumOfAirlines a)
     \<and> (\<forall>n. \<exists>ds a'. CargoHandler_DoWork n Ca_take a = Inr (ds, a'))"
proof -
  have "labelled cs a" using baggage.holds [OF assms(1)] assms(2) by (simp add: baggage_inv_def)
  then have l: "\<forall>t. \<forall>c \<in> set (cs t). place_ok a c" "\<forall>b \<in> set (conveyor a). airlineCode b < simNumOfAirlines a"
    "\<forall>n < simNumOfAirlines a * simNumOfCIOs a. ci_airline (CheckIn a n) = n div simNumOfCIOs a
          \<and> (\<forall>b \<in> set (totalBags (CheckIn a n)). airlineCode b = n div simNumOfCIOs a)"
    unfolding labelled_def by blast+
  have "airlineCode b < simNumOfAirlines a" if "A_Cargo n (Ca_load b) \<in> set (cs t)" for t n b using l(1) that by (metis place_ok.simps(3))
  moreover have "\<exists>ds a'. CargoHandler_DoWork n Ca_take a = Inr (ds, a')" for n
    using l(2) by (cases "conveyor a") (simp_all add: go_def)
  ultimately show ?thesis using l(2,3) div_airline by simp
qed

theorem bags_labelled_witness:
  "A_Cargo 0 (Ca_load \<lparr>airlineCode = 0, weight = 32\<rparr>) \<in> set (fst (demo_state demo_busy) 6)
   \<and> airlineCode \<lparr>airlineCode = 0, weight = 32\<rparr> < simNumOfAirlines (snd (demo_state demo_busy))"
proof -
  have "fst (demo_state demo_busy) 6 = [A_Call (K_Acquire 12), A_Call (K_Release 7), A_Cargo 0 (Ca_load \<lparr>airlineCode = 0, weight = 32\<rparr>)]"
    by code_simp
  then have m: "A_Cargo 0 (Ca_load \<lparr>airlineCode = 0, weight = 32\<rparr>) \<in> set (fst (demo_state demo_busy) 6)" by simp
  with bags_labelled [OF demo_busy_runs(1,2)] show ?thesis by blast
qed

section \<open>Tickets, lounges and planes\<close>

text \<open>C25. Tickets: once the airport is open, no airline has more tickets issued than passengers to carry, the airlines
  together carry exactly the passengers of the simulation, and the passengers that the liaisons have counted are those with a
  ticket and those for whom an airline is being drawn.\<close>

theorem tickets_within_seats:
  assumes "air_reach R U junk (cs, a)" "\<forall>pc. A_Setup pc \<notin> set (cs 0)"
  shows "(\<forall>j < simNumOfAirlines a. 0 \<le> ticketsIssued a j \<and> ticketsIssued a j \<le> totalPassengersOfAirline a j)
     \<and> (\<Sum>j\<in>{..<simNumOfAirlines a}. totalPassengersOfAirline a j) = int (simNumOfPassengers a)
     \<and> (\<Sum>n\<in>{..<simNumOfLiaisons a}. li_passengerCount (liaisonOfficers a n))
         = (\<Sum>j\<in>{..<simNumOfAirlines a}. ticketsIssued a j) + everywhere (length (roster a)) undecided cs"
proof -
  have "tickets_inv cs a" using tickets.holds [OF assms(1)] assms(2) by simp
  then show ?thesis unfolding tickets_inv_def by blast
qed

theorem tickets_within_seats_witness:
  "ticketsIssued (snd (demo_state demo_busy)) 0 = 1
   \<and> ticketsIssued (snd (demo_state demo_busy)) 0 \<le> totalPassengersOfAirline (snd (demo_state demo_busy)) 0"
proof -
  have "ticketsIssued (snd (demo_state demo_busy)) 0 = 1" by code_simp
  moreover have "ticketsIssued (snd (demo_state demo_busy)) 0 \<le> totalPassengersOfAirline (snd (demo_state demo_busy)) 0"
    using tickets_within_seats [OF demo_busy_runs(1,2)] demo_busy_runs(3) by simp
  ultimately show ?thesis ..
qed

lemma sums_squeezed:
  fixes f g :: "nat \<Rightarrow> int"
  assumes "\<And>j. j < k \<Longrightarrow> f j \<le> g j" "(\<Sum>j\<in>{..<k}. g j) \<le> (\<Sum>j\<in>{..<k}. f j)" "j < k"
  shows "g j = f j"
proof (rule ccontr)
  assume "g j \<noteq> f j"
  with assms(1,3) have "f j < g j" by (simp add: order_less_le)
  then have "(\<Sum>j\<in>{..<k}. f j) < (\<Sum>j\<in>{..<k}. g j)" using assms(1,3) by (intro sum_strict_mono_ex1) auto
  with assms(2) show False by simp
qed

lemma everywhere_nonneg: "(\<And>c. 0 \<le> f c) \<Longrightarrow> 0 \<le> everywhere n (f :: acode \<Rightarrow> int) cs"
  unfolding everywhere_def by (intro sum_nonneg sum_list_nonneg) auto

lemma everywhere_member:
  fixes f :: "acode \<Rightarrow> int"
  assumes "\<And>c. 0 \<le> f c" "t < n" "c \<in> set (cs t)"
  shows "f c \<le> everywhere n f cs"
proof -
  have "f c \<le> (\<Sum>c\<leftarrow>cs t. f c)" using assms(1,3) by (intro member_le_sum_list) auto
  also have "\<dots> \<le> everywhere n f cs" unfolding everywhere_def using assms(1,2)
    by (intro member_le_sum [where f = "\<lambda>t. \<Sum>c\<leftarrow>cs t. f c"]) (auto intro!: sum_list_nonneg)
  finally show ?thesis .
qed

lemma signs: "0 \<le> on_way c" "0 \<le> leaving c"
  by (cases c rule: on_way.cases; simp) (cases c rule: leaving.cases; simp)

lemma all_boarded:
  assumes "air_reach R U junk (cs, a)" "\<forall>pc. A_Setup pc \<notin> set (cs 0)" "A_Manager Mg_end \<in> set (cs t)"
  shows "\<forall>j < simNumOfAirlines a. alreadyBoarded a j" "\<forall>j < simNumOfAirlines a. boardingLounges a j = totalPassengersOfAirline a j"
    "\<forall>p pc u. A_Passenger p pc \<notin> set (cs u)" "manager_zero a"
proof -
  let ?A = "simNumOfAirlines a" and ?N = "length (roster a)"
  have "boarding_inv cs a" "tickets_inv cs a" using boarding.holds [OF assms(1)] tickets.holds [OF assms(1)] assms(2) by simp_all
  then have b: "\<forall>t. \<forall>c \<in> set (cs t). gate_ok a c"
    "(\<Sum>j\<in>{..<?A}. boardingLounges a j) + everywhere ?N on_way cs = int (simNumOfPassengers a)"
    "\<forall>j < ?A. alreadyBoarded a j \<longrightarrow> totalPassengersOfAirline a j \<le> boardingLounges a j"
    "int (planeCount a) + everywhere ?N leaving cs = (\<Sum>j\<in>{..<?A}. of_bool (alreadyBoarded a j))"
    "(\<Sum>j\<in>{..<?A}. totalPassengersOfAirline a j) = int (simNumOfPassengers a)"
    unfolding boarding_inv_def tickets_inv_def by blast+
  have e: "gate_ok a (A_Manager Mg_end)" using b(1) assms(3) by blast
  then show "manager_zero a" by simp
  have pos: "0 \<le> everywhere ?N leaving cs" "0 \<le> everywhere ?N on_way cs" by (rule everywhere_nonneg, rule signs)+
  have "int ?A \<le> (\<Sum>j\<in>{..<?A}. of_bool (alreadyBoarded a j))" using b(4) e pos(1) by simp
  then have "alreadyBoarded a j" if "j < ?A" for j
    using that sums_squeezed [of ?A "\<lambda>j. of_bool (alreadyBoarded a j)" "\<lambda>_. 1" j] by (cases "alreadyBoarded a j") simp_all
  then show bd: "\<forall>j < ?A. alreadyBoarded a j" by blast
  have le: "\<And>j. j < ?A \<Longrightarrow> totalPassengersOfAirline a j \<le> boardingLounges a j" using b(3) bd by blast
  have s: "(\<Sum>j\<in>{..<?A}. boardingLounges a j) \<le> (\<Sum>j\<in>{..<?A}. totalPassengersOfAirline a j)" using b(2,5) pos(2) by linarith
  show "\<forall>j < ?A. boardingLounges a j = totalPassengersOfAirline a j"
    using sums_squeezed [OF le s] by blast
  then have "(\<Sum>j\<in>{..<?A}. boardingLounges a j) = (\<Sum>j\<in>{..<?A}. totalPassengersOfAirline a j)" by simp
  then have zero: "everywhere ?N on_way cs = 0" using b(2,5) by linarith
  show "\<forall>p pc u. A_Passenger p pc \<notin> set (cs u)"
  proof (intro allI notI)
    fix p pc u assume u: "A_Passenger p pc \<in> set (cs u)"
    obtain k where k: "crew cs a k" using air_reach_crew [OF assms(1)] by auto
    have "u < ?N" using crew_place [OF k u] by simp
    from everywhere_member [of on_way u ?N "A_Passenger p pc" cs, OF signs(1) this u] zero show False by simp
  qed
qed

text \<open>C23. The end of the day: when the manager goes to its report, every plane has left, the lounge of every airline has
  had exactly the passengers of the airline, and no passenger is left on the way.\<close>

theorem day_ends_complete:
  assumes "air_reach R U junk (cs, a)" "\<forall>pc. A_Setup pc \<notin> set (cs 0)" "A_Manager Mg_end \<in> set (cs t)"
  shows "planeCount a = simNumOfAirlines a
     \<and> (\<forall>j < simNumOfAirlines a. alreadyBoarded a j \<and> boardingLounges a j = totalPassengersOfAirline a j)
     \<and> (\<forall>p pc u. A_Passenger p pc \<notin> set (cs u))"
proof -
  have "boarding_inv cs a" using boarding.holds [OF assms(1)] assms(2) by simp
  then have "gate_ok a (A_Manager Mg_end)" using assms(3) unfolding boarding_inv_def by blast
  then show ?thesis using all_boarded [OF assms] by simp
qed

theorem day_ends_complete_witness:
  "A_Manager Mg_end \<in> set (fst (demo_state demo_day) 1) \<and> totalPassengersOfAirline (snd (demo_state demo_day)) 0 = 1
   \<and> alreadyBoarded (snd (demo_state demo_day)) 0 \<and> boardingLounges (snd (demo_state demo_day)) 0 = 1"
proof -
  have "totalPassengersOfAirline (snd (demo_state demo_day)) 0 = 1" by code_simp
  with day_ends_complete [OF demo_day_runs(1,2,4)] demo_day_runs(3,4) show ?thesis by simp
qed

lemma bags_weight: "(\<Sum>b\<leftarrow>bs. if airlineCode b = j then weight b else 0) = bag_weight j (mset bs)"
  by (induction bs) simp_all

text \<open>C24. The report: every total of the manager agrees with the books of the agents. The cargo handlers' count and weight of an
  airline are what is on its aircraft; the check-in officers' weight, with the bag an officer is about to note, is that on the
  aircraft and still on the way to it; the liaisons' passengers are those with a ticket and those being served; the liaisons'
  bags of the airline, the check-in officers' passengers and the passengers passed by security are the sums of what each officer
  has counted. \<open>CIOTotalCount\<close> is not added up.\<close>

theorem EndOfDay_report:
  assumes "air_reach R U junk (cs, a)" "\<forall>pc. A_Setup pc \<notin> set (cs 0)" "A_Manager Mg_end \<in> set (cs t)" "j < simNumOfAirlines a"
  shows "CargoHandlerTotalCount (simAirportManager (EndOfDay a)) j = aircraftBaggageCount a j
     \<and> CargoHandlerTotalWeight (simAirportManager (EndOfDay a)) j = aircraftBaggageWeight a j
     \<and> CIOTotalWeight (simAirportManager (EndOfDay a)) j + bag_weight j (everywhere (length (roster a)) (unnoted a) cs)
        = aircraftBaggageWeight a j + bag_weight j (mset (conveyor a)) + bag_weight j (in_hand cs a)
     \<and> liaisonPassengerCount (simAirportManager (EndOfDay a))
        = (\<Sum>i\<in>{..<simNumOfAirlines a}. ticketsIssued a i) + everywhere (length (roster a)) undecided cs
     \<and> LiaisonTotalCount (simAirportManager (EndOfDay a)) j = (\<Sum>i\<in>{..<simNumOfLiaisons a}. li_airlineBaggageCount (liaisonOfficers a i) j)
     \<and> checkInPassengerCount (simAirportManager (EndOfDay a)) = (\<Sum>i\<in>{..<simNumOfAirlines a * simNumOfCIOs a}. ci_passengerCount (CheckIn a i))
     \<and> securityPassengerCount (simAirportManager (EndOfDay a)) = (\<Sum>i\<in>{..<simNumOfScreeningOfficers a}. PassedPassengers (Security a i))
     \<and> CIOTotalCount (simAirportManager (EndOfDay a)) = CIOTotalCount (simAirportManager a)"
proof -
  have i: "baggage_inv cs a" "tickets_inv cs a" using baggage.holds [OF assms(1)] tickets.holds [OF assms(1)] assms(2) by simp_all
  from i(1) obtain L where L: "loaded a L" "checked_in cs a = mset (conveyor a) + in_hand cs a + (\<Sum>n\<in>{..<simNumOfCargoHandlers a}. L n)"
    by (auto simp: baggage_inv_def conserved_def)
  have z: "manager_zero a" using all_boarded(4) [OF assms(1-3)] .
  have up: "(\<Sum>i\<leftarrow>[0..<k]. f i) = (\<Sum>i\<in>{..<k}. f i)" for k and f :: "nat \<Rightarrow> int" by (simp add: sum_list_distinct_conv_sum_set atLeast0LessThan)
  have "bag_weight j (\<Sum>i\<in>{..<simNumOfAirlines a * simNumOfCIOs a}. mset (totalBags (CheckIn a i))) + bag_weight j (everywhere (length (roster a)) (unnoted a) cs)
      = bag_weight j (checked_in cs a)" by (simp add: checked_in_def)
  then show ?thesis using L z i(2) assms(4)
    by (simp add: EndOfDay_def Let_def manager_zero_def up bags_weight loaded_def bag_sum tickets_inv_def mult.commute)
qed

theorem EndOfDay_report_witness:
  "aircraftBaggageCount (snd (demo_state demo_day)) 0 = 2
   \<and> CargoHandlerTotalCount (simAirportManager (EndOfDay (snd (demo_state demo_day)))) 0 = 2
   \<and> LiaisonTotalCount (simAirportManager (EndOfDay (snd (demo_state demo_day)))) 0 = 2
   \<and> checkInPassengerCount (simAirportManager (EndOfDay (snd (demo_state demo_day)))) = 1"
proof -
  have "aircraftBaggageCount (snd (demo_state demo_day)) 0 = 2" "simNumOfLiaisons (snd (demo_state demo_day)) = 1" "simNumOfCIOs (snd (demo_state demo_day)) = 1"
    "li_airlineBaggageCount (liaisonOfficers (snd (demo_state demo_day)) 0) 0 = 2" "ci_passengerCount (CheckIn (snd (demo_state demo_day)) 0) = 1" by code_simp+
  with EndOfDay_report [OF demo_day_runs(1,2,4), of 0] demo_day_runs(3) show ?thesis by simp
qed

section \<open>Looking for a security officer\<close>

lemma find_turns:
  assumes "cs t = [A_Screening n (Sc_find i y)]" "i < simNumOfScreeningOfficers a"
  shows "air_run R U [t, t, t, t] (cs, a) =
     Some (cs(t := [A_Screening n (Sc_find (i + 1) (SecurityAvailability a i))]),
       if SecurityAvailability a i
       then a\<lparr>SPInfo := (SPInfo a)(n := (SPInfo a n)\<lparr>sp_SecurityOfficer := i\<rparr>), SecurityAvailability := (SecurityAvailability a)(i := False)\<rparr>
       else a)"
  using assms by (simp add: go_def Let_def)

lemma find_round:
  assumes "cs t = [A_Screening n (Sc_find 0 False)]" "j \<le> simNumOfScreeningOfficers a"
  shows "\<exists>a'. air_run R U (replicate (4 * j) t) (cs, a) = Some (cs(t := [A_Screening n (Sc_find j (0 < j \<and> SecurityAvailability a (j - 1)))]), a')
     \<and> simNumOfScreeningOfficers a' = simNumOfScreeningOfficers a \<and> (\<forall>i. SecurityAvailability a' i \<longleftrightarrow> SecurityAvailability a i \<and> j \<le> i)
     \<and> (\<forall>i < j. SecurityAvailability a i \<and> (\<forall>h. i < h \<and> h < j \<longrightarrow> \<not> SecurityAvailability a h) \<longrightarrow> sp_SecurityOfficer (SPInfo a' n) = i)"
  using assms(2)
proof (induction j)
  case 0
  then show ?case using assms(1) by (auto simp: fun_upd_idem_iff)
next
  case (Suc j)
  then obtain b where b: "air_run R U (replicate (4 * j) t) (cs, a) = Some (cs(t := [A_Screening n (Sc_find j (0 < j \<and> SecurityAvailability a (j - 1)))]), b)"
    "simNumOfScreeningOfficers b = simNumOfScreeningOfficers a" "\<forall>i. SecurityAvailability b i \<longleftrightarrow> SecurityAvailability a i \<and> j \<le> i"
    "\<forall>i < j. SecurityAvailability a i \<and> (\<forall>h. i < h \<and> h < j \<longrightarrow> \<not> SecurityAvailability a h) \<longrightarrow> sp_SecurityOfficer (SPInfo b n) = i"
    using Suc.IH [OF Suc_leD] by blast
  have four: "replicate (4 * Suc j) t = replicate (4 * j) t @ [t, t, t, t]"
    by (simp add: numeral_eq_Suc replicate_app_Cons_same)
  have "j < simNumOfScreeningOfficers b" using Suc.prems b(2) by simp
  note turns = find_turns [of "cs(t := [A_Screening n (Sc_find j (0 < j \<and> SecurityAvailability a (j - 1)))])" t n j, OF _ this]
  show ?case unfolding four air_run_append b(1) using turns b(2-4)
    by (auto simp: less_Suc_eq le_less Suc_le_eq)
qed

text \<open>C27. The search for a security officer: a screening officer that goes over the security officers with no other thread in
  between takes every free one, not one: afterwards none is marked free and the passenger is sent to the last that was free. Then
  it goes on to call the passenger when the last officer of all was free; otherwise it gives the processor away four times and
  starts again, whatever it has taken. An officer that was free and is not the last one gets no passenger from this search.\<close>

theorem search_takes_all_officers:
  assumes "cs t = [A_Screening n (Sc_find 0 False)]" "simNumOfScreeningOfficers a = Suc k"
  shows "\<exists>cs' a'. air_run R U (replicate (4 * Suc k + 1) t) (cs, a) = Some (cs', a')
     \<and> cs' t = (if SecurityAvailability a k
         then [A_Call (K_Signal (ScreenOfficerCV n) (ScreenLocks n)), A_Call (K_Wait (ScreenOfficerCV n) (ScreenLocks n)),
               A_Call (K_Release (ScreenLocks n)), A_Screening n Sc_loop]
         else [A_Call K_Yield, A_Call K_Yield, A_Call K_Yield, A_Call K_Yield, A_Screening n (Sc_find 0 False)])
     \<and> (\<forall>u. u \<noteq> t \<longrightarrow> cs' u = cs u)
     \<and> (\<forall>i \<le> k. \<not> SecurityAvailability a' i)
     \<and> (\<forall>i \<le> k. SecurityAvailability a i \<and> (\<forall>h. i < h \<and> h \<le> k \<longrightarrow> \<not> SecurityAvailability a h) \<longrightarrow> sp_SecurityOfficer (SPInfo a' n) = i)"
proof -
  let ?cs = "cs(t := [A_Screening n (Sc_find (Suc k) (SecurityAvailability a k))])"
  obtain a' where a': "air_run R U (replicate (4 * Suc k) t) (cs, a) = Some (?cs, a')" "simNumOfScreeningOfficers a' = Suc k"
    "\<forall>i. SecurityAvailability a' i \<longleftrightarrow> SecurityAvailability a i \<and> Suc k \<le> i"
    "\<forall>i < Suc k. SecurityAvailability a i \<and> (\<forall>h. i < h \<and> h < Suc k \<longrightarrow> \<not> SecurityAvailability a h) \<longrightarrow> sp_SecurityOfficer (SPInfo a' n) = i"
    using find_round [of cs t n "Suc k" a R U] assms by auto
  define ds where "ds = (if SecurityAvailability a k
         then [A_Call (K_Signal (ScreenOfficerCV n) (ScreenLocks n)), A_Call (K_Wait (ScreenOfficerCV n) (ScreenLocks n)),
               A_Call (K_Release (ScreenLocks n)), A_Screening n Sc_loop]
         else [A_Call K_Yield, A_Call K_Yield, A_Call K_Yield, A_Call K_Yield, A_Screening n (Sc_find 0 False)])"
  have cs': "air_run R U [t] (?cs, a') = Some (cs(t := ds), a')"
    using a'(2) by (cases "SecurityAvailability a k") (simp_all add: go_def ds_def)
  have turns: "replicate (4 * Suc k + 1) t = replicate (4 * Suc k) t @ [t]"
    by (metis Suc_eq_plus1 replicate_Suc replicate_append_same)
  have "air_run R U (replicate (4 * Suc k + 1) t) (cs, a) = Some (cs(t := ds), a')"
    by (simp only: turns air_run_append a'(1) Option.bind.simps cs')
  moreover have "(cs(t := ds)) t = ds" by simp
  ultimately show ?thesis using a'(3,4) unfolding ds_def [symmetric]
    by (intro exI [of _ "cs(t := ds)"] exI [of _ a'] conjI) (auto simp: less_Suc_eq_le)
qed

text \<open>Three officers, the first two free: both are marked busy and the screening officer starts again.\<close>

definition demo_search :: airport where
  "demo_search = demo_airport\<lparr>simNumOfScreeningOfficers := 3, SecurityAvailability := fill_with 2 True (\<lambda>_. False)\<rparr>"

theorem search_takes_all_officers_witness:
  "\<exists>cs' a'. air_run (\<lambda>_. 2) (\<lambda>_. 0) (replicate 13 4) ((\<lambda>_. [])(4 := [A_Screening 0 (Sc_find 0 False)]), demo_search) = Some (cs', a')
     \<and> cs' 4 = [A_Call K_Yield, A_Call K_Yield, A_Call K_Yield, A_Call K_Yield, A_Screening 0 (Sc_find 0 False)] \<and> \<not> SecurityAvailability a' 0 \<and> \<not> SecurityAvailability a' 1 \<and> sp_SecurityOfficer (SPInfo a' 0) = 1"
proof -
  have a: "SecurityAvailability demo_search 0" "SecurityAvailability demo_search 1" "\<not> SecurityAvailability demo_search 2" by code_simp+
  have "\<forall>h. 1 < h \<and> h \<le> 2 \<longrightarrow> \<not> SecurityAvailability demo_search h" using a(3) by (metis One_nat_def Suc_1 Suc_leI le_antisym)
  with a search_takes_all_officers [of "(\<lambda>_. [])(4 := [A_Screening 0 (Sc_find 0 False)])" 4 0 demo_search 2 "\<lambda>_. 2" "\<lambda>_. 0"]
  show ?thesis by (auto simp: demo_search_def)
qed

end
