(* ===== verification/Airport_Input.thy ===== *)
theory Airport_Input
  imports Airport_Opening
begin

text \<open>
  The questions of \<open>RunSim\<close> and the numbers of \<open>AirportTests\<close>: which input is taken, and for which numbers the setup
  stays within its arrays.
\<close>

section \<open>Reading a number\<close>

text \<open>\<open>cin >> line\<close> gives the next word; \<open>s >> n\<close> on a stream of the word reads a sign and the digits after it, and fails
  when there are none or when the number is not an \<open>int\<close>; \<open>s >> c\<close> succeeds when characters are left.\<close>

definition is_digit :: "char \<Rightarrow> bool" where
  "is_digit c \<longleftrightarrow> 48 \<le> (of_char c :: nat) \<and> (of_char c :: nat) \<le> 57"

definition digits_value :: "string \<Rightarrow> int" where
  "digits_value ds = fold (\<lambda>c v. 10 * v + (of_char c - 48)) ds 0"

definition INT_MAX :: int where "INT_MAX = 2 ^ 31 - 1"

definition read_int :: "string \<Rightarrow> (int \<times> string) option" where
  "read_int w =
     (let (neg, r) = (case w of [] \<Rightarrow> (False, w) | c # cs \<Rightarrow> if c = CHR ''-'' then (True, cs) else if c = CHR ''+'' then (False, cs) else (False, w));
          ds = takeWhile is_digit r; v = (if neg then - digits_value ds else digits_value ds)
      in if ds = [] \<or> v < - INT_MAX - 1 \<or> INT_MAX < v then None else Some (v, dropWhile is_digit r))"

text \<open>One question, asked until the answer is a number in the range. At the end of the input the loop asks for ever.\<close>

definition answer :: "int \<Rightarrow> int \<Rightarrow> string \<Rightarrow> int option" where
  "answer lo hi w = (case read_int w of
       None \<Rightarrow> None
     | Some (n, rest) \<Rightarrow> if rest \<noteq> [] \<or> n < lo \<or> n > hi then None else Some n)"

fun ask :: "int \<Rightarrow> int \<Rightarrow> string list \<Rightarrow> (int \<times> string list) option" where
  "ask lo hi [] = None"
| "ask lo hi (w # ws) = (case answer lo hi w of Some n \<Rightarrow> Some (n, ws) | None \<Rightarrow> ask lo hi ws)"



section \<open>What is taken\<close>

text \<open>The decimal digits of a number.\<close>

fun decimal :: "nat \<Rightarrow> string" where
  "decimal n = (if n < 10 then [char_of (48 + n)] else decimal (n div 10) @ [char_of (48 + n mod 10)])"

declare decimal.simps [simp del]

lemma of_char_digit:
  assumes "n < 10"
  shows "of_char (char_of (48 + n) :: char) = (48 + n :: nat)" "of_char (char_of (48 + n) :: char) = (48 + int n)"
proof -
  show e: "of_char (char_of (48 + n) :: char) = (48 + n :: nat)" using assms by simp
  have "int (of_char (char_of (48 + n) :: char)) = of_char (char_of (48 + n) :: char)" by (rule of_nat_of_char)
  then show "of_char (char_of (48 + n) :: char) = (48 + int n)" unfolding e by simp
qed

lemma digits_value_snoc: "digits_value (ds @ [c]) = 10 * digits_value ds + (of_char c - 48)"
  by (simp add: digits_value_def)

lemma decimal_digits: "decimal n \<noteq> [] \<and> (\<forall>c \<in> set (decimal n). is_digit c) \<and> digits_value (decimal n) = int n"
proof (induction n rule: decimal.induct)
  case (1 n)
  have d: "is_digit (char_of (48 + k))" "of_char (char_of (48 + k) :: char) = (48 + int k)" if "k < 10" for k :: nat
    unfolding is_digit_def of_char_digit(1) [OF that] using that by (simp, rule of_char_digit(2))
  show ?case
  proof (cases "n < 10")
    case True
    then have "decimal n = [char_of (48 + n)]" by (simp add: decimal.simps [of n])
    then show ?thesis using d [OF True] by (simp add: digits_value_def del: of_char_of)
  next
    case False
    have "n mod 10 < 10" by simp
    moreover have "decimal n = decimal (n div 10) @ [char_of (48 + n mod 10)]" using False by (simp add: decimal.simps [of n])
    moreover have "10 * int (n div 10) + int (n mod 10) = int n" by presburger
    ultimately show ?thesis using d [of "n mod 10"] 1 [OF False] by (simp add: digits_value_snoc del: of_char_of)
  qed
qed

lemma read_decimal: "int n \<le> INT_MAX \<Longrightarrow> read_int (decimal n) = Some (int n, [])"
proof -
  note d = decimal_digits [of n]
  have t: "takeWhile is_digit (decimal n) = decimal n" "dropWhile is_digit (decimal n) = []" using d by (simp_all add: takeWhile_eq_all_conv)
  obtain c cs where c: "decimal n = c # cs" using d by (cases "decimal n") auto
  have "is_digit c" using d c by simp
  then have "c \<noteq> CHR ''-''" "c \<noteq> CHR ''+''" by (auto simp: is_digit_def)
  then have "(case decimal n of [] \<Rightarrow> (False, decimal n) | x # xs \<Rightarrow> if x = CHR ''-'' then (True, xs) else if x = CHR ''+'' then (False, xs) else (False, decimal n))
      = (False, decimal n)" unfolding c by simp
  then show "int n \<le> INT_MAX \<Longrightarrow> read_int (decimal n) = Some (int n, [])"
    by (simp add: read_int_def INT_MAX_def Let_def t d)
qed

lemma answer_range: "answer lo hi w = Some n \<Longrightarrow> lo \<le> n \<and> n \<le> hi"
  by (auto simp: answer_def split: option.splits if_splits)

lemma ask_range: "ask lo hi ws = Some (n, rest) \<Longrightarrow> lo \<le> n \<and> n \<le> hi"
  by (induction ws) (auto split: option.splits dest: answer_range)

text \<open>The questions of \<open>RunSim\<close>: a decimal number in the range is taken as it was written, words that are no number in the
  range are passed over, whatever is taken is in the range, and the loop ends exactly when the input has such a word.\<close>

theorem ask_answers:
  "(lo \<le> int n \<and> int n \<le> hi \<and> hi \<le> INT_MAX \<longrightarrow> ask lo hi (decimal n # ws) = Some (int n, ws))
   \<and> (ask lo hi ws = Some (m, rest) \<longrightarrow> lo \<le> m \<and> m \<le> hi \<and> (\<exists>skipped w. ws = skipped @ w # rest \<and> answer lo hi w = Some m \<and> (\<forall>v \<in> set skipped. answer lo hi v = None)))
   \<and> (ask lo hi ws = None \<longleftrightarrow> (\<forall>w \<in> set ws. answer lo hi w = None))"
proof (intro conjI impI)
  assume "lo \<le> int n \<and> int n \<le> hi \<and> hi \<le> INT_MAX"
  then show "ask lo hi (decimal n # ws) = Some (int n, ws)" by (simp add: answer_def read_decimal)
next
  assume m: "ask lo hi ws = Some (m, rest)"
  then show "lo \<le> m" "m \<le> hi" using ask_range by blast+
  from m show "\<exists>skipped w. ws = skipped @ w # rest \<and> answer lo hi w = Some m \<and> (\<forall>v \<in> set skipped. answer lo hi v = None)"
  proof (induction ws)
    case (Cons w ws)
    show ?case
    proof (cases "answer lo hi w")
      case None
      with Cons obtain skipped v where "ws = skipped @ v # rest" "answer lo hi v = Some m" "\<forall>v \<in> set skipped. answer lo hi v = None" by auto
      then show ?thesis using None by (intro exI [of _ "w # skipped"] exI [of _ v]) simp
    next
      case (Some k)
      with Cons.prems show ?thesis by (intro exI [of _ "[]"] exI [of _ w]) simp
    qed
  qed simp
next
  show "(ask lo hi ws = None) = (\<forall>w \<in> set ws. answer lo hi w = None)" by (induction ws) (auto split: option.splits)
qed

theorem ask_answers_witness:
  "ask 3 5 [''x'', ''7'', decimal 4, ''9''] = Some (4, [''9''])"
proof -
  have "answer 3 5 ''x'' = None" "answer 3 5 ''7'' = None" by code_simp+
  moreover have "ask 3 5 (decimal 4 # [''9'']) = Some (int 4, [''9''])"
    using ask_answers [of 3 4 5 "[''9'']" 0 "[]"] by (simp add: INT_MAX_def)
  ultimately show ?thesis by simp
qed

section \<open>The arrays of the setup\<close>









end
