(* ===== verification/Mips_Execute.thy ===== *)
theory Mips_Execute
  imports Mips_Safety
begin

text \<open>
  The stand-alone interpreter of MIPS programs in \<open>bin/execute.c\<close>, with the macros of \<open>bin/instr.h\<close>, \<open>bin/int.h\<close>
  and \<open>bin/encode.h\<close> and the system calls of \<open>bin/system.c\<close>; and how it compares with the machine of \<open>machine/mipssim.cc\<close>, which
  interprets the same instructions.

  \<open>int\<close> arithmetic and left shifts wrap; a shift by an amount outside the word, a division by zero and an access outside the array
  \<open>mem\<close> or across the alignment of its type are undefined. The byte order of the host is a parameter.
\<close>

section \<open>Opcodes and fields\<close>

definition I_SPECIAL :: nat where "I_SPECIAL = 0"
definition I_BCOND :: nat where "I_BCOND = 1"
definition I_J :: nat where "I_J = 2"
definition I_JAL :: nat where "I_JAL = 3"
definition I_BEQ :: nat where "I_BEQ = 4"
definition I_BNE :: nat where "I_BNE = 5"
definition I_BLEZ :: nat where "I_BLEZ = 6"
definition I_BGTZ :: nat where "I_BGTZ = 7"
definition I_ADDI :: nat where "I_ADDI = 8"
definition I_ADDIU :: nat where "I_ADDIU = 9"
definition I_SLTI :: nat where "I_SLTI = 10"
definition I_SLTIU :: nat where "I_SLTIU = 11"
definition I_ANDI :: nat where "I_ANDI = 12"
definition I_ORI :: nat where "I_ORI = 13"
definition I_XORI :: nat where "I_XORI = 14"
definition I_LUI :: nat where "I_LUI = 15"
definition I_COP0 :: nat where "I_COP0 = 16"
definition I_COP1 :: nat where "I_COP1 = 17"
definition I_COP2 :: nat where "I_COP2 = 18"
definition I_COP3 :: nat where "I_COP3 = 19"
definition I_LB :: nat where "I_LB = 32"
definition I_LH :: nat where "I_LH = 33"
definition I_LWL :: nat where "I_LWL = 34"
definition I_LW :: nat where "I_LW = 35"
definition I_LBU :: nat where "I_LBU = 36"
definition I_LHU :: nat where "I_LHU = 37"
definition I_LWR :: nat where "I_LWR = 38"
definition I_SB :: nat where "I_SB = 40"
definition I_SH :: nat where "I_SH = 41"
definition I_SWL :: nat where "I_SWL = 42"
definition I_SW :: nat where "I_SW = 43"
definition I_SWR :: nat where "I_SWR = 46"
definition I_LWC0 :: nat where "I_LWC0 = 48"
definition I_LWC1 :: nat where "I_LWC1 = 49"
definition I_LWC2 :: nat where "I_LWC2 = 50"
definition I_LWC3 :: nat where "I_LWC3 = 51"
definition I_SWC0 :: nat where "I_SWC0 = 56"
definition I_SWC1 :: nat where "I_SWC1 = 57"
definition I_SWC2 :: nat where "I_SWC2 = 58"
definition I_SWC3 :: nat where "I_SWC3 = 59"
definition I_SLL :: nat where "I_SLL = 0"
definition I_SRL :: nat where "I_SRL = 2"
definition I_SRA :: nat where "I_SRA = 3"
definition I_SLLV :: nat where "I_SLLV = 4"
definition I_SRLV :: nat where "I_SRLV = 6"
definition I_SRAV :: nat where "I_SRAV = 7"
definition I_JR :: nat where "I_JR = 8"
definition I_JALR :: nat where "I_JALR = 9"
definition I_SYSCALL :: nat where "I_SYSCALL = 12"
definition I_BREAK :: nat where "I_BREAK = 13"
definition I_MFHI :: nat where "I_MFHI = 16"
definition I_MTHI :: nat where "I_MTHI = 17"
definition I_MFLO :: nat where "I_MFLO = 18"
definition I_MTLO :: nat where "I_MTLO = 19"
definition I_MULT :: nat where "I_MULT = 24"
definition I_MULTU :: nat where "I_MULTU = 25"
definition I_DIV :: nat where "I_DIV = 26"
definition I_DIVU :: nat where "I_DIVU = 27"
definition I_ADD :: nat where "I_ADD = 32"
definition I_ADDU :: nat where "I_ADDU = 33"
definition I_SUB :: nat where "I_SUB = 34"
definition I_SUBU :: nat where "I_SUBU = 35"
definition I_AND :: nat where "I_AND = 36"
definition I_OR :: nat where "I_OR = 37"
definition I_XOR :: nat where "I_XOR = 38"
definition I_NOR :: nat where "I_NOR = 39"
definition I_SLT :: nat where "I_SLT = 42"
definition I_SLTU :: nat where "I_SLTU = 43"
definition I_BLTZ :: nat where "I_BLTZ = 0"
definition I_BGEZ :: nat where "I_BGEZ = 1"
definition I_BLTZAL :: nat where "I_BLTZAL = 16"
definition I_BGEZAL :: nat where "I_BGEZAL = 17"

lemmas opcode_defs = I_SPECIAL_def I_BCOND_def I_J_def I_JAL_def I_BEQ_def I_BNE_def I_BLEZ_def I_BGTZ_def I_ADDI_def I_ADDIU_def I_SLTI_def I_SLTIU_def I_ANDI_def I_ORI_def I_XORI_def I_LUI_def I_COP0_def I_COP1_def I_COP2_def I_COP3_def I_LB_def I_LH_def I_LWL_def I_LW_def I_LBU_def I_LHU_def I_LWR_def I_SB_def I_SH_def I_SWL_def I_SW_def I_SWR_def I_LWC0_def I_LWC1_def I_LWC2_def I_LWC3_def I_SWC0_def I_SWC1_def I_SWC2_def I_SWC3_def I_SLL_def I_SRL_def I_SRA_def I_SLLV_def I_SRLV_def I_SRAV_def I_JR_def I_JALR_def I_SYSCALL_def I_BREAK_def I_MFHI_def I_MTHI_def I_MFLO_def I_MTLO_def I_MULT_def I_MULTU_def I_DIV_def I_DIVU_def I_ADD_def I_ADDU_def I_SUB_def I_SUBU_def I_AND_def I_OR_def I_XOR_def I_NOR_def I_SLT_def I_SLTU_def I_BLTZ_def I_BGEZ_def I_BLTZAL_def I_BGEZAL_def

definition instr_rd :: "32 word \<Rightarrow> nat" where "instr_rd i = unat (drop_bit 11 i AND 0x1f)"
definition instr_rt :: "32 word \<Rightarrow> nat" where "instr_rt i = unat (drop_bit 16 i AND 0x1f)"
definition instr_rs :: "32 word \<Rightarrow> nat" where "instr_rs i = unat (drop_bit 21 i AND 0x1f)"
definition shamt :: "32 word \<Rightarrow> nat" where "shamt i = unat (drop_bit 6 i AND 0x1f)"

definition immed :: "32 word \<Rightarrow> 32 word" where
  "immed i = (if i AND 0x8000 \<noteq> 0 then i OR (- 0x8000) else i AND 0x7fff)"

section \<open>State and memory\<close>

definition MEMSIZE :: int where "MEMSIZE = 2 ^ 24"
definition memoffset :: int where "memoffset = 0x10000000"

record xmachine =
  Reg :: "nat \<Rightarrow> 32 word"
  HI :: "32 word"
  LO :: "32 word"
  x_mem :: "nat \<Rightarrow> 8 word"
  x_pc :: "32 word"
  x_npc :: "32 word"

text \<open>\<open>(mem-memoffset)[addr]\<close> as an object of \<open>sz\<close> bytes; \<open>addr\<close> is an \<open>int\<close>.\<close>

definition mem_index :: "nat \<Rightarrow> 32 word \<Rightarrow> nat result" where
  "mem_index sz addr = (let a = sint addr - memoffset in
     if 0 \<le> a \<and> a + int sz \<le> MEMSIZE \<and> a mod int sz = 0 then Inr (nat a) else Inl Undefined)"

definition fetch :: "bool \<Rightarrow> 32 word \<Rightarrow> xmachine \<Rightarrow> 32 word result" where
  "fetch be addr s = rbind (mem_index 4 addr) (\<lambda>a. Inr (host_load32 be (x_mem s) a))"

definition sfetch :: "bool \<Rightarrow> 32 word \<Rightarrow> xmachine \<Rightarrow> 32 word result" where
  "sfetch be addr s = rbind (mem_index 2 addr) (\<lambda>a. Inr (scast (host_load16 be (x_mem s) a)))"

definition usfetch :: "bool \<Rightarrow> 32 word \<Rightarrow> xmachine \<Rightarrow> 32 word result" where
  "usfetch be addr s = rbind (mem_index 2 addr) (\<lambda>a. Inr (ucast (host_load16 be (x_mem s) a)))"

definition cfetch :: "32 word \<Rightarrow> xmachine \<Rightarrow> 32 word result" where
  "cfetch addr s = rbind (mem_index 1 addr) (\<lambda>a. Inr (scast (x_mem s a)))"

definition ucfetch :: "32 word \<Rightarrow> xmachine \<Rightarrow> 32 word result" where
  "ucfetch addr s = rbind (mem_index 1 addr) (\<lambda>a. Inr (ucast (x_mem s a)))"

definition store_word :: "bool \<Rightarrow> 32 word \<Rightarrow> 32 word \<Rightarrow> xmachine \<Rightarrow> xmachine result" where
  "store_word be addr i s = rbind (mem_index 4 addr) (\<lambda>a. Inr (s\<lparr>x_mem := host_store32 be a i (x_mem s)\<rparr>))"

definition sstore :: "bool \<Rightarrow> 32 word \<Rightarrow> 32 word \<Rightarrow> xmachine \<Rightarrow> xmachine result" where
  "sstore be addr i s = rbind (mem_index 2 addr) (\<lambda>a. Inr (s\<lparr>x_mem := host_store16 be a (ucast i) (x_mem s)\<rparr>))"

definition cstore :: "32 word \<Rightarrow> 32 word \<Rightarrow> xmachine \<Rightarrow> xmachine result" where
  "cstore addr i s = rbind (mem_index 1 addr) (\<lambda>a. Inr (s\<lparr>x_mem := (x_mem s)(a := ucast i)\<rparr>))"

text \<open>An instruction leaves a state, or the program exits.\<close>

datatype xoutcome = Continue xmachine | Exit int

definition x_set :: "nat \<Rightarrow> 32 word \<Rightarrow> xmachine \<Rightarrow> xmachine" where
  "x_set r v s = s\<lparr>Reg := (Reg s)(r := v)\<rparr>"

definition continue_with :: "xmachine \<Rightarrow> xoutcome result" where
  "continue_with s = Inr (Continue s)"

definition unimplemented :: "xoutcome result" where
  "unimplemented = Inr (Exit 2)"

section \<open>System calls\<close>

text \<open>\<open>os n a b c s\<close> is what call \<open>n\<close> of the host does with its arguments (0 for those it does not have): its result and the contents of \<open>mem\<close> after it.\<close>

type_synonym host_calls = "nat \<Rightarrow> 32 word \<Rightarrow> 32 word \<Rightarrow> 32 word \<Rightarrow> xmachine \<Rightarrow> 32 word \<times> (nat \<Rightarrow> 8 word)"

definition ioctl_request :: "32 word \<Rightarrow> 32 word" where
  "ioctl_request o1 =
     (if drop_bit 8 o1 AND 0xff = 0x74 \<and> drop_bit 16 o1 AND 0x7f = 8
      then (o1 AND NOT (push_bit 16 0x7f)) OR push_bit 16 6 else o1)"

definition system_trap :: "host_calls \<Rightarrow> xmachine \<Rightarrow> xoutcome result" where
  "system_trap os s =
     (let n = unat (Reg s 2); o0 = Reg s 4; o1 = Reg s 5; o2 = Reg s 6;
          host = (\<lambda>a b c. let (r, mem) = os n a b c s in continue_with (x_set 1 r (s\<lparr>x_mem := mem\<rparr>))) in
      if n = 1 then Inr (Exit 0)
      else if n \<in> {3, 4, 5, 19} then host o0 o1 o2
      else if n = 6 then continue_with (x_set 1 0 s)
      else if n = 17 then continue_with (x_set 1 ((c_div o0 8192 + 1) * 8192) s)
      else if n = 54 then (let (r, mem) = os n o0 (ioctl_request o1) o2 s in continue_with (x_set 1 0 (s\<lparr>x_mem := mem\<rparr>)))
      else if n = 62 then host o1 o2 0
      else if n = 64 then host 0 0 0
      else Inr (Exit 2))"

section \<open>One instruction\<close>

text \<open>The products of the halves of two words, added up as the code adds them: the carries of the low halves are lost.\<close>

definition x_high :: "32 word \<Rightarrow> 32 word \<Rightarrow> 32 word" where
  "x_high t1 t2 =
     (let t1l = t1 AND 0xffff; t1h = signed_drop_bit 16 t1 AND 0xffff; t2l = t2 AND 0xffff; t2h = signed_drop_bit 16 t2 AND 0xffff
      in t1h * t2h + signed_drop_bit 16 (t1h * t2l) + signed_drop_bit 16 (t2h * t1l))"

definition x_mult :: "32 word \<Rightarrow> 32 word \<Rightarrow> 32 word \<times> 32 word" where
  "x_mult x y =
     (let neg = ((x <s 0) \<noteq> (y <s 0)); t1 = (if x <s 0 then - x else x); t2 = (if y <s 0 then - y else y);
          lo = t1 * t2; hi = x_high t1 t2
      in if neg then (if NOT lo + 1 = 0 then NOT hi + 1 else NOT hi, NOT lo + 1) else (hi, lo))"

definition x_shift :: "32 word \<Rightarrow> (nat \<Rightarrow> 32 word) \<Rightarrow> 32 word result" where
  "x_shift n f = (if n < 32 then Inr (f (unat n)) else Inl Undefined)"

text \<open>\<open>I_SPECIAL\<close>. \<open>xpc\<close> is the address of the instruction; \<open>x_pc\<close> and \<open>x_npc\<close> have been advanced.\<close>

definition x_special :: "host_calls \<Rightarrow> 32 word \<Rightarrow> 32 word \<Rightarrow> xmachine \<Rightarrow> xoutcome result" where
  "x_special os xpc instr s =
     (let op = unat (instr AND 0x3f); x = Reg s (instr_rs instr); y = Reg s (instr_rt instr);
          to_rd = (\<lambda>v. continue_with (x_set (instr_rd instr) v s)) in
      if op = I_SLL then to_rd (push_bit (shamt instr) y)
      else if op = I_SRL then to_rd (drop_bit (shamt instr) y)
      else if op = I_SRA then to_rd (signed_drop_bit (shamt instr) y)
      else if op = I_SLLV then rbind (x_shift x (\<lambda>n. push_bit n y)) to_rd
      else if op = I_SRLV then rbind (x_shift x (\<lambda>n. drop_bit n y)) to_rd
      else if op = I_SRAV then rbind (x_shift x (\<lambda>n. signed_drop_bit n y)) to_rd
      else if op = I_JR then continue_with (s\<lparr>x_npc := x\<rparr>)
      else if op = I_JALR then continue_with (x_set (instr_rd instr) (xpc + 8) (s\<lparr>x_npc := x\<rparr>))
      else if op = I_SYSCALL then system_trap os s
      else if op = I_BREAK then system_trap os s
      else if op = I_MFHI then to_rd (HI s)
      else if op = I_MTHI then continue_with (s\<lparr>HI := x\<rparr>)
      else if op = I_MFLO then to_rd (LO s)
      else if op = I_MTLO then continue_with (s\<lparr>LO := x\<rparr>)
      else if op = I_MULT then (let (hi, lo) = x_mult x y in continue_with (s\<lparr>HI := hi, LO := lo\<rparr>))
      else if op = I_MULTU then continue_with (s\<lparr>HI := x_high x y, LO := x * y\<rparr>)
      else if op = I_DIV then
        (if y = 0 \<or> x = SIGN_BIT \<and> y = - 1 then Inl Undefined else continue_with (s\<lparr>HI := c_mod x y, LO := c_div x y\<rparr>))
      else if op = I_DIVU then (if y = 0 then Inl Undefined else continue_with (s\<lparr>HI := x mod y, LO := x div y\<rparr>))
      else if op = I_ADD \<or> op = I_ADDU then to_rd (x + y)
      else if op = I_SUB \<or> op = I_SUBU then to_rd (x - y)
      else if op = I_AND then to_rd (x AND y)
      else if op = I_OR then to_rd (x OR y)
      else if op = I_XOR then to_rd (x XOR y)
      else if op = I_NOR then to_rd (NOT (x OR y))
      else if op = I_SLT then to_rd (if x <s y then 1 else 0)
      else if op = I_SLTU then to_rd (if x < y then 1 else 0)
      else unimplemented)"

definition x_branch :: "bool \<Rightarrow> 32 word \<Rightarrow> 32 word \<Rightarrow> xmachine \<Rightarrow> xmachine" where
  "x_branch taken xpc instr s = (if taken then s\<lparr>x_npc := xpc + 4 + push_bit 2 (immed instr)\<rparr> else s)"

definition x_bcond :: "32 word \<Rightarrow> 32 word \<Rightarrow> xmachine \<Rightarrow> xoutcome result" where
  "x_bcond xpc instr s =
     (let op = instr_rt instr; r = instr_rs instr; link = x_set 31 (xpc + 8) s in
      if op = I_BLTZ then continue_with (x_branch (Reg s r <s 0) xpc instr s)
      else if op = I_BGEZ then continue_with (x_branch (0 <=s Reg s r) xpc instr s)
      else if op = I_BLTZAL then continue_with (x_branch (Reg link r <s 0) xpc instr link)
      else if op = I_BGEZAL then continue_with (x_branch (0 <=s Reg link r) xpc instr link)
      else unimplemented)"

definition x_jump :: "32 word \<Rightarrow> 32 word \<Rightarrow> xmachine \<Rightarrow> xmachine" where
  "x_jump xpc instr s = s\<lparr>x_npc := (xpc AND 0xf0000000) OR push_bit 2 (instr AND 0x03ffffff)\<rparr>"

text \<open>Loads and stores. In \<open>LWL\<close> the mask \<open>-1 >> n\<close> is \<open>-1\<close>, so the old bytes of the register are not cleared.\<close>

definition x_lwl :: "32 word \<Rightarrow> 32 word \<Rightarrow> 32 word \<Rightarrow> 32 word" where
  "x_lwl i old w = (old AND signed_drop_bit (8 * unat (- i AND 3)) (- 1)) OR push_bit (8 * unat (i AND 3)) w"

definition x_lwr :: "32 word \<Rightarrow> 32 word \<Rightarrow> 32 word \<Rightarrow> 32 word" where
  "x_lwr i old w = (if i AND 3 = 0 then 0 else old AND push_bit (8 * unat (i AND 3)) (- 1)) OR signed_drop_bit (8 * unat (- i AND 3)) w"

definition x_memory :: "bool \<Rightarrow> 32 word \<Rightarrow> xmachine \<Rightarrow> xoutcome result" where
  "x_memory be instr s =
     (let op = unat (drop_bit 26 instr AND 0x3f); rt = instr_rt instr; i = Reg s (instr_rs instr) + immed instr;
          load = (\<lambda>v. continue_with (x_set rt v s)) in
      if op = I_LB then rbind (cfetch i s) load
      else if op = I_LH then rbind (sfetch be i s) load
      else if op = I_LWL then rbind (fetch be (i AND 0xfffffffc) s) (\<lambda>w. load (x_lwl i (Reg s rt) w))
      else if op = I_LW then rbind (fetch be i s) load
      else if op = I_LBU then rbind (ucfetch i s) load
      else if op = I_LHU then rbind (usfetch be i s) load
      else if op = I_LWR then rbind (fetch be (i AND 0xfffffffc) s) (\<lambda>w. load (x_lwr i (Reg s rt) w))
      else if op = I_SB then rbind (cstore i (Reg s rt) s) continue_with
      else if op = I_SH then rbind (sstore be i (Reg s rt) s) continue_with
      else if op = I_SW then rbind (store_word be i (Reg s rt) s) continue_with
      else unimplemented)"

text \<open>The \<open>switch\<close> on the opcode. \<open>SWL\<close>, \<open>SWR\<close> and the coprocessors are not implemented.\<close>

definition x_switch :: "bool \<Rightarrow> host_calls \<Rightarrow> 32 word \<Rightarrow> 32 word \<Rightarrow> xmachine \<Rightarrow> xoutcome result" where
  "x_switch be os xpc instr s =
     (let op = unat (drop_bit 26 instr AND 0x3f); x = Reg s (instr_rs instr); y = Reg s (instr_rt instr); imm = immed instr;
          to_rt = (\<lambda>v. continue_with (x_set (instr_rt instr) v s)); branch = (\<lambda>taken. continue_with (x_branch taken xpc instr s)) in
      if op = I_SPECIAL then x_special os xpc instr s
      else if op = I_BCOND then x_bcond xpc instr s
      else if op = I_J then continue_with (x_jump xpc instr s)
      else if op = I_JAL then continue_with (x_jump xpc instr (x_set 31 (xpc + 8) s))
      else if op = I_BEQ then branch (x = y)
      else if op = I_BNE then branch (x \<noteq> y)
      else if op = I_BLEZ then branch (x <=s 0)
      else if op = I_BGTZ then branch (0 <s x)
      else if op = I_ADDI then to_rt (x + imm)
      else if op = I_ADDIU then to_rt (x + imm)
      else if op = I_SLTI then to_rt (if x <s imm then 1 else 0)
      else if op = I_SLTIU then to_rt (if x < imm then 1 else 0)
      else if op = I_ANDI then to_rt (x AND imm)
      else if op = I_ORI then to_rt (x OR imm)
      else if op = I_XORI then to_rt (x XOR imm)
      else if op = I_LUI then to_rt (push_bit 16 instr)
      else if op \<in> {I_COP0, I_COP1, I_COP2, I_COP3, I_LWC0, I_LWC1, I_LWC2, I_LWC3, I_SWC0, I_SWC1, I_SWC2, I_SWC3, I_SWL, I_SWR}
      then unimplemented
      else x_memory be instr s)"

text \<open>One round of the loop of \<open>runprogram\<close>.\<close>

definition x_step :: "bool \<Rightarrow> host_calls \<Rightarrow> xmachine \<Rightarrow> xoutcome result" where
  "x_step be os s =
     (let xpc = x_pc s; s = s\<lparr>x_pc := x_npc s, x_npc := x_npc s + 4\<rparr> in
      rbind (fetch be xpc s) (\<lambda>instr.
      let s = x_set 0 0 s in
      if instr \<noteq> 0 then x_switch be os xpc instr s else continue_with s))"

text \<open>The loop, and the start of \<open>runprogram\<close>: the stack pointer, and the arguments of the program on the stack.\<close>

partial_function (option) x_loop :: "bool \<Rightarrow> host_calls \<Rightarrow> xmachine \<Rightarrow> int result option" where
  "x_loop be os s = (case x_step be os s of Inl e \<Rightarrow> Some (Inl e) | Inr (Exit c) \<Rightarrow> Some (Inr c) | Inr (Continue s') \<Rightarrow> x_loop be os s')"

fun copy_string :: "32 word \<Rightarrow> 8 word list \<Rightarrow> xmachine \<Rightarrow> xmachine result" where
  "copy_string ai [] s = cstore ai 0 s"
| "copy_string ai (c # cs) s = rbind (cstore ai (ucast c) s) (copy_string (ai + 1) cs)"

fun x_args :: "bool \<Rightarrow> 32 word \<Rightarrow> 32 word \<Rightarrow> 8 word list list \<Rightarrow> xmachine \<Rightarrow> xmachine result" where
  "x_args be aci ai [] s = Inr s"
| "x_args be aci ai (arg # args) s = rbind (copy_string ai arg s) (\<lambda>s. rbind (store_word be aci ai s)
     (x_args be (aci + 4) (ai + of_nat (length arg) + 1) args))"

definition x_start :: "bool \<Rightarrow> 32 word \<Rightarrow> 8 word list list \<Rightarrow> xmachine \<Rightarrow> xmachine result" where
  "x_start be startpc argv s =
     (let i = of_int (MEMSIZE - 1024 + memoffset); s = x_set 29 i (s\<lparr>x_pc := startpc, x_npc := startpc + 4\<rparr>) in
      rbind (store_word be i (of_nat (length argv)) s) (x_args be (i + 4) (i + 36) argv))"

definition runprogram :: "bool \<Rightarrow> host_calls \<Rightarrow> 32 word \<Rightarrow> 8 word list list \<Rightarrow> xmachine \<Rightarrow> int result option" where
  "runprogram be os startpc argv s = (case x_start be startpc argv s of Inl e \<Rightarrow> Some (Inl e) | Inr s' \<Rightarrow> x_loop be os s')"

text \<open>\<open>ilog2\<close>, used for the statistics: the number of bits of a number.\<close>

definition ilog2_step :: "32 word \<Rightarrow> nat \<Rightarrow> 32 word \<times> nat \<Rightarrow> 32 word \<times> nat" where
  "ilog2_step m n p = (let j = fst p AND m in if j \<noteq> 0 then (j, snd p + n) else p)"

definition ilog2 :: "32 word \<Rightarrow> nat" where
  "ilog2 i = (if i = 0 then 0 else
     snd (ilog2_step 0xaaaaaaaa 1 (ilog2_step 0xcccccccc 2 (ilog2_step 0xf0f0f0f0 4 (ilog2_step 0xff00ff00 8 (ilog2_step 0xffff0000 16 (i, 1)))))))"

section \<open>Comparison with the machine\<close>

text \<open>The same registers and the same place in the program, with no load pending in the machine. Register 0 of the interpreter is
  only cleared at the start of the next instruction.\<close>

definition alike :: "xmachine \<Rightarrow> machine \<Rightarrow> bool" where
  "alike s m \<longleftrightarrow> (\<forall>r. 0 < r \<and> r < 32 \<longrightarrow> Reg s r = registers m r) \<and> registers m 0 = 0
     \<and> HI s = registers m HiReg \<and> LO s = registers m LoReg \<and> x_pc s = registers m PCReg \<and> x_npc s = registers m NextPCReg
     \<and> registers m LoadReg = 0"

text \<open>Where the two interpreters give the instruction the same meaning. They differ on overflow (the interpreter has no
  exceptions), on \<open>OR\<close> (the machine ignores \<open>rt\<close>), on the immediates of the logical instructions (the interpreter extends the
  sign), on logical shifts to the right (the machine copies the sign), on shifts by a register (the interpreter does not
  mask the amount), on a division by zero, and on branches and links in a delay slot.\<close>

definition same_meaning :: "Instruction \<Rightarrow> machine \<Rightarrow> bool" where
  "same_meaning i m =
     (let x = registers m (rs i); y = registers m (rt i); in_sequence = (registers m NextPCReg = registers m PCReg + 4);
          same_segment = (registers m PCReg AND 0xf0000000 = (registers m NextPCReg + 4) AND 0xf0000000);
          positive = (\<lambda>w :: 32 word. w AND SIGN_BIT = 0) in
      case opCode i of
        OP_ADD \<Rightarrow> \<not> (positive (x XOR y) \<and> \<not> positive (x XOR (x + y)))
      | OP_ADDI \<Rightarrow> \<not> (positive (x XOR extra i) \<and> \<not> positive (extra i XOR (x + extra i)))
      | OP_SUB \<Rightarrow> \<not> (\<not> positive (x XOR y) \<and> \<not> positive (x XOR (x - y)))
      | OP_ADDIU \<Rightarrow> True | OP_ADDU \<Rightarrow> True | OP_SUBU \<Rightarrow> True | OP_AND \<Rightarrow> True | OP_XOR \<Rightarrow> True | OP_NOR \<Rightarrow> True
      | OP_SLT \<Rightarrow> True | OP_SLTI \<Rightarrow> True | OP_SLTU \<Rightarrow> True | OP_SLTIU \<Rightarrow> True | OP_LUI \<Rightarrow> True
      | OP_OR \<Rightarrow> x OR y = x
      | OP_ANDI \<Rightarrow> positive (extra i) | OP_ORI \<Rightarrow> positive (extra i) | OP_XORI \<Rightarrow> positive (extra i)
      | OP_SLL \<Rightarrow> True | OP_SRA \<Rightarrow> True | OP_SRL \<Rightarrow> positive y
      | OP_SLLV \<Rightarrow> x < 32 | OP_SRAV \<Rightarrow> x < 32 | OP_SRLV \<Rightarrow> x < 32 \<and> positive y
      | OP_MFHI \<Rightarrow> True | OP_MFLO \<Rightarrow> True | OP_MTHI \<Rightarrow> True | OP_MTLO \<Rightarrow> True
      | OP_DIV \<Rightarrow> y \<noteq> 0 \<and> \<not> (x = SIGN_BIT \<and> y = - 1) | OP_DIVU \<Rightarrow> y \<noteq> 0
      | OP_J \<Rightarrow> same_segment | OP_JAL \<Rightarrow> same_segment \<and> in_sequence
      | OP_JR \<Rightarrow> True | OP_JALR \<Rightarrow> rs i \<noteq> rd i \<and> in_sequence
      | OP_BEQ \<Rightarrow> in_sequence | OP_BNE \<Rightarrow> in_sequence | OP_BLEZ \<Rightarrow> in_sequence | OP_BGTZ \<Rightarrow> in_sequence
      | OP_BLTZ \<Rightarrow> in_sequence | OP_BGEZ \<Rightarrow> in_sequence | OP_BLTZAL \<Rightarrow> in_sequence | OP_BGEZAL \<Rightarrow> in_sequence
      | _ \<Rightarrow> False)"

subsection \<open>Decoding\<close>

lemma Decode_simps [simp]:
  "rs (Decode v) = instr_rs v" "rt (Decode v) = instr_rt v" "rd (Decode v) = instr_rd v"
  by (simp_all add: Decode_def Let_def case_prod_beta instr_rs_def instr_rt_def instr_rd_def)

lemma bit_15: "(v :: 32 word) AND 0x8000 \<noteq> 0 \<longleftrightarrow> bit v 15"
  using and_exp_eq_0_iff_not_bit [of v 15] by simp

lemma bit_31: "(v :: 32 word) AND SIGN_BIT = 0 \<longleftrightarrow> \<not> bit v 31" "v <s 0 \<longleftrightarrow> bit v 31" "0 <=s v \<longleftrightarrow> \<not> bit v 31"
proof -
  show "v AND SIGN_BIT = 0 \<longleftrightarrow> \<not> bit v 31" using and_exp_eq_0_iff_not_bit [of v 31] by (simp add: SIGN_BIT_def)
  show "v <s 0 \<longleftrightarrow> bit v 31" using bit_last_iff [of v] by (simp add: word_sless_alt)
  then show "0 <=s v \<longleftrightarrow> \<not> bit v 31" by (auto simp: word_sle_eq word_sless_alt)
qed

lemma immed_masks: "(- 0x8000 :: 32 word) = NOT (mask 15)" "(0x7fff :: 32 word) = mask 15"
  by (simp_all add: mask_eq_exp_minus_1)

lemma immed_extra: "snd (opTable ! unat (drop_bit 26 v AND 0x3f)) = IFMT \<Longrightarrow> extra (Decode v) = immed v"
proof -
  assume f: "snd (opTable ! unat (drop_bit 26 v AND 0x3f)) = IFMT"
  have less: "k < 16 \<longleftrightarrow> k < 15 \<or> k = 15" for k :: nat by auto
  have e: "bit (v AND 0xffff) 15 \<longleftrightarrow> bit v 15" unfolding mask_consts(3) by (simp add: bit_simps)
  have "(v AND 0xffff) OR 0xffff0000 = v OR (- 0x8000)" if "bit v 15"
    unfolding immed_masks mask_consts(3,4) using that by (intro bit_word_eqI) (auto simp: bit_simps less)
  moreover have "v AND 0xffff = v AND 0x7fff" if "\<not> bit v 15"
    unfolding immed_masks mask_consts(3,4) using that by (intro bit_word_eqI) (auto simp: bit_simps less)
  ultimately show ?thesis using f by (simp add: Decode_def Let_def case_prod_beta immed_def e bit_15)
qed

lemma immed_positive: "immed v AND SIGN_BIT = 0 \<Longrightarrow> immed v AND 0xffff = immed v"
proof -
  assume "immed v AND SIGN_BIT = 0"
  then have "\<not> bit v 15" unfolding bit_31 by (auto simp: immed_def bit_15 bit_simps immed_masks(1))
  then show ?thesis by (simp add: immed_def bit_15 and.assoc)
qed

lemma push_immed: "push_bit 16 (immed v) = (push_bit 16 v :: 32 word)"
proof (rule bit_word_eqI)
  fix n assume "n < LENGTH(32)"
  then have "n < 16 \<or> n - 16 < 15 \<or> n - 16 = 15" by simp presburger
  then show "bit (push_bit 16 (immed v)) n = bit (push_bit 16 v) n"
    by (auto simp: immed_def bit_15 bit_simps immed_masks)
qed

subsection \<open>The same effect\<close>

text \<open>\<open>paired s m m'\<close>: what the \<open>switch\<close> of the interpreter and that of the machine, started on \<open>m\<close>, leave behind.\<close>

definition paired :: "machine \<Rightarrow> xmachine \<Rightarrow> effect \<Rightarrow> bool" where
  "paired m s eff \<longleftrightarrow> (\<exists>m' pc. eff = Break m' pc 0 0 \<and> (\<forall>r. 0 < r \<and> r < 32 \<longrightarrow> Reg s r = registers m' r)
     \<and> HI s = registers m' HiReg \<and> LO s = registers m' LoReg \<and> x_pc s = registers m NextPCReg \<and> x_npc s = pc \<and> settled m m')"

definition both :: "machine \<Rightarrow> xoutcome result \<Rightarrow> effect result \<Rightarrow> bool" where
  "both m x r \<longleftrightarrow> (\<exists>s eff. x = Inr (Continue s) \<and> r = Inr eff \<and> paired m s eff)"

lemma both_intro:
  "\<forall>r. 0 < r \<and> r < 32 \<longrightarrow> Reg s r = registers m' r \<Longrightarrow> HI s = registers m' HiReg \<Longrightarrow> LO s = registers m' LoReg
   \<Longrightarrow> x_pc s = registers m NextPCReg \<Longrightarrow> x_npc s = pc \<Longrightarrow> settled m m' \<Longrightarrow> both m (continue_with s) (Inr (Break m' pc 0 0))"
  by (simp add: both_def paired_def continue_with_def)

text \<open>The states in which the instruction at \<open>xpc\<close> is executed.\<close>

definition ready :: "32 word \<Rightarrow> xmachine \<Rightarrow> machine \<Rightarrow> bool" where
  "ready xpc s m \<longleftrightarrow> (\<forall>r < 32. Reg s r = registers m r) \<and> HI s = registers m HiReg \<and> LO s = registers m LoReg
     \<and> xpc = registers m PCReg \<and> x_pc s = registers m NextPCReg \<and> x_npc s = registers m NextPCReg + 4"

lemma both_to:
  assumes "ready xpc s m" "r < 32" "v = w"
  shows "both m (continue_with (x_set r v s)) (Inr (Break (set_reg r w m) (registers m NextPCReg + 4) 0 0))"
  using assms by (intro both_intro) (auto simp: ready_def x_set_def)

lemma both_branch:
  assumes "ready xpc s m" "registers m NextPCReg = registers m PCReg + 4"
  shows "both m (continue_with (x_branch True xpc v s)) (Inr (Break m (registers m PCReg + 4 + IndexToAddr (immed v)) 0 0))"
    "both m (continue_with (x_branch False xpc v s)) (Inr (Break m (8 + registers m PCReg) 0 0))"
  using assms by (intro both_intro; simp add: ready_def x_branch_def IndexToAddr_def)+

lemma fields_less: "instr_rs v < 32" "instr_rt v < 32" "instr_rd v < 32"
  using Decode_fields [of v] by (simp_all add: fields_ok_def)

lemma list_all_from: "list_all P (drop a xs) \<Longrightarrow> a \<le> n \<Longrightarrow> n < length xs \<Longrightarrow> P (xs ! n)"
  by (auto simp: list_all_length dest: spec [of _ "n - a"])

lemma Decode_cases:
  assumes "same_meaning (Decode v) m"
  obtains (special) "unat (drop_bit 26 v AND 0x3f) = 0" "opCode (Decode v) = specialTable ! unat (v AND 0x3f)" "unat (v AND 0x3f) < 64"
    | (bcond) "unat (drop_bit 26 v AND 0x3f) = 1"
    | (normal) "unat (drop_bit 26 v AND 0x3f) \<in> {2..15}" "opCode (Decode v) = fst (opTable ! unat (drop_bit 26 v AND 0x3f))"
proof -
  define n k where "n = unat (drop_bit 26 v AND 0x3f)" and "k = unat (v AND 0x3f)"
  have b: "n < 64" "k < 64" using and_mask_less [of _ 6] by (simp_all add: n_def k_def mask_consts)
  consider "n = 0" | "n = 1" | "n \<in> {2..15}" | "n \<in> {16..<64}" using b(1) by fastforce
  then show ?thesis
  proof cases
    case 1
    then have "opCode (Decode v) = specialTable ! k" by (simp add: Decode_def Let_def case_prod_beta n_def [symmetric] k_def opTable_def)
    with special 1 b(2) show ?thesis unfolding n_def k_def by blast
  next
    case 2
    with bcond show ?thesis unfolding n_def by blast
  next
    case 3
    have "list_all (\<lambda>(c, _). c \<notin> {SPECIAL, BCOND}) (drop 2 opTable)" by (simp add: opTable_def)
    from list_all_from [OF this, of n] have "fst (opTable ! n) \<notin> {SPECIAL, BCOND}" using 3 tables_ok(3) by (auto simp: case_prod_beta)
    then have "opCode (Decode v) = fst (opTable ! n)" by (simp add: Decode_def Let_def case_prod_beta n_def)
    with normal 3 show ?thesis unfolding n_def by blast
  next
    case 4
    have "list_all (\<lambda>(c, _). c \<in> {OP_UNIMP, OP_RES, OP_LB, OP_LH, OP_LWL, OP_LW, OP_LBU, OP_LHU, OP_LWR, OP_SB, OP_SH, OP_SWL, OP_SW, OP_SWR}) (drop 16 opTable)"
      by (simp add: opTable_def)
    from list_all_from [OF this, of n]
    have "fst (opTable ! n) \<in> {OP_UNIMP, OP_RES, OP_LB, OP_LH, OP_LWL, OP_LW, OP_LBU, OP_LHU, OP_LWR, OP_SB, OP_SH, OP_SWL, OP_SW, OP_SWR}"
      using 4 tables_ok(3) by (simp add: case_prod_beta)
    moreover from this have "opCode (Decode v) = fst (opTable ! n)" by (auto simp: Decode_def Let_def case_prod_beta n_def)
    ultimately show ?thesis using assms by (auto simp: same_meaning_def Let_def)
  qed
qed

lemmas machine_switch = exec_ADD_BNE_def exec_DIV_JR_def exec_LB_LWR_def exec_MFHI_ORI_def exec_SB_SUBU_def exec_SW_SWR_def exec_SYSCALL_RES_def

lemma switch_normal:
  assumes "ready xpc s m" "same_meaning (Decode v) m" "unat (drop_bit 26 v AND 0x3f) \<in> {4..15}"
    "opCode (Decode v) = fst (opTable ! unat (drop_bit 26 v AND 0x3f))"
  shows "both m (x_switch be os xpc v s) (exec_ADD_BNE be now (Decode v) m (registers m NextPCReg + 4))"
proof -
  define n where "n = unat (drop_bit 26 v AND 0x3f)"
  have r: "Reg s (instr_rs v) = registers m (instr_rs v)" "Reg s (instr_rt v) = registers m (instr_rt v)"
    using assms(1) fields_less by (simp_all add: ready_def)
  have op: "opCode (Decode v) = fst (opTable ! n)" using assms(4) by (simp add: n_def)
  have "4 \<le> n" "n \<le> 15" using assms(3) by (simp_all add: n_def)
  then have n: "n \<in> {4, 5, 6, 7, 8, 9, 10, 11, 12, 13, 14, 15}" by simp presburger
  then have fmt: "snd (opTable ! n) = IFMT" by (auto simp: opTable_def)
  then have e: "extra (Decode v) = immed v" by (intro immed_extra) (simp add: n_def)
  have x: "x_switch be os xpc v s = (let op = n; x = registers m (instr_rs v); y = registers m (instr_rt v) in
    if op = 4 then continue_with (x_branch (x = y) xpc v s) else if op = 5 then continue_with (x_branch (x \<noteq> y) xpc v s)
    else if op = 6 then continue_with (x_branch (x <=s 0) xpc v s) else if op = 7 then continue_with (x_branch (0 <s x) xpc v s)
    else continue_with (x_set (instr_rt v) (if op \<le> 9 then x + immed v else if op = 10 then if x <s immed v then 1 else 0
     else if op = 11 then if x < immed v then 1 else 0 else if op = 12 then x AND immed v else if op = 13 then x OR immed v
     else if op = 14 then x XOR immed v else push_bit 16 v) s))"
    using n by (elim insertE emptyE; simp add: x_switch_def n_def [symmetric] opcode_defs r)
  from n assms(2) show ?thesis unfolding x
    by (elim insertE emptyE; simp only: op same_meaning_def; auto simp: machine_switch op opTable_def Let_def e
        immed_positive push_immed intro!: both_to [OF assms(1) fields_less(2) [of v]] both_branch [OF assms(1)])
qed

lemma both_jump:
  assumes "ready xpc s m" "registers m PCReg AND 0xf0000000 = (registers m NextPCReg + 4) AND 0xf0000000" "extra (Decode v) = v AND 0x3ffffff"
  shows "both m (continue_with (x_jump xpc v s)) (Inr (Break m (((registers m NextPCReg + 4) AND 0xf0000000) OR IndexToAddr (extra (Decode v))) 0 0))"
    "registers m NextPCReg = registers m PCReg + 4 \<Longrightarrow>
     both m (continue_with (x_jump xpc v (x_set 31 (xpc + 8) s)))
       (Inr (Break (set_reg 31 (8 + registers m PCReg) m) (((8 + registers m PCReg) AND 0xf0000000) OR IndexToAddr (extra (Decode v))) 0 0))"
  using assms by (intro both_intro; auto simp: ready_def x_jump_def x_set_def IndexToAddr_def)+

lemma switch_jump:
  assumes "ready xpc s m" "same_meaning (Decode v) m" "unat (drop_bit 26 v AND 0x3f) \<in> {2, 3}"
    "opCode (Decode v) = fst (opTable ! unat (drop_bit 26 v AND 0x3f))"
  shows "both m (x_switch be os xpc v s) (exec_ADD_BNE be now (Decode v) m (registers m NextPCReg + 4))"
proof -
  define n where "n = unat (drop_bit 26 v AND 0x3f)"
  have op: "opCode (Decode v) = fst (opTable ! n)" "n \<in> {2, 3}" using assms(3,4) by (simp_all add: n_def)
  then have "snd (opTable ! n) = JFMT" by (auto simp: opTable_def)
  then have e: "extra (Decode v) = v AND 0x3ffffff" by (simp add: Decode_def Let_def case_prod_beta n_def)
  have x: "x_switch be os xpc v s = continue_with (x_jump xpc v (if n = 2 then s else x_set 31 (xpc + 8) s))"
    using op(2) by (elim insertE emptyE; simp add: x_switch_def n_def [symmetric] opcode_defs)
  from op(2) assms(2) show ?thesis unfolding x
    by (elim insertE emptyE; simp only: op same_meaning_def; simp add: machine_switch op opTable_def Let_def both_jump [OF assms(1) _ e])
qed

lemma bcond_code:
  assumes "unat (drop_bit 26 v AND 0x3f) = 1"
  shows "opCode (Decode v) = (if instr_rt v = 0 then OP_BLTZ else if instr_rt v = 1 then OP_BGEZ else if instr_rt v = 16 then OP_BLTZAL
      else if instr_rt v = 17 then OP_BGEZAL else OP_UNIMP)"
proof -
  define w where "w = drop_bit 16 v AND 0x1f"
  have m: "(0x1f0000 :: 32 word) = push_bit 16 (mask 5)" by (simp add: mask_eq_exp_minus_1 push_bit_eq_mult)
  have i: "v AND 0x1f0000 = push_bit 16 w" unfolding m w_def mask_consts
    by (rule bit_word_eqI) (auto simp: bit_simps)
  have d: "drop_bit 16 (push_bit 16 w) = w" unfolding w_def mask_consts
    by (rule bit_word_eqI) (auto simp: bit_simps)
  have c: "push_bit 16 w = push_bit 16 c \<longleftrightarrow> w = c" if "drop_bit 16 (push_bit 16 c) = c" for c
    using d that by metis
  have eqs: "v AND 0x1f0000 = 0 \<longleftrightarrow> w = 0" "v AND 0x1f0000 = 0x10000 \<longleftrightarrow> w = 1" "v AND 0x1f0000 = 0x100000 \<longleftrightarrow> w = 16" "v AND 0x1f0000 = 0x110000 \<longleftrightarrow> w = 17"
    unfolding i using c [of 0] c [of 1] c [of 16] c [of 17] by (simp_all add: push_bit_eq_mult drop_bit_eq_div)
  have k: "instr_rt v = unat w" by (simp add: instr_rt_def w_def)
  have u: "unat w = 0 \<longleftrightarrow> w = 0" "unat w = 1 \<longleftrightarrow> w = 1" "unat w = 16 \<longleftrightarrow> w = 16" "unat w = 17 \<longleftrightarrow> w = 17"
    by (simp_all add: word_unat_eq_iff)
  show ?thesis using assms by (simp add: Decode_def Let_def case_prod_beta opTable_def eqs k u del: One_nat_def)
qed

lemma both_link:
  assumes "ready xpc s m" "registers m NextPCReg = registers m PCReg + 4"
  shows "both m (continue_with (x_branch True xpc v (x_set 31 (xpc + 8) s)))
      (Inr (Break (set_reg 31 (8 + registers m PCReg) m) (registers m PCReg + 4 + IndexToAddr (immed v)) 0 0))"
    "both m (continue_with (x_branch False xpc v (x_set 31 (xpc + 8) s))) (Inr (Break (set_reg 31 (8 + registers m PCReg) m) (8 + registers m PCReg) 0 0))"
  using assms by (intro both_intro; auto simp: ready_def x_branch_def x_set_def IndexToAddr_def)+

lemma switch_bcond:
  assumes "ready xpc s m" "same_meaning (Decode v) m" "unat (drop_bit 26 v AND 0x3f) = 1"
  shows "both m (x_switch be os xpc v s) (exec_ADD_BNE be now (Decode v) m (registers m NextPCReg + 4))"
proof -
  have e: "extra (Decode v) = immed v" by (rule immed_extra) (simp add: assms(3) opTable_def)
  note c = bcond_code [OF assms(3)]
  have r: "Reg s (instr_rs v) = registers m (instr_rs v)" "xpc = registers m PCReg" using assms(1) fields_less by (simp_all add: ready_def)
  have "instr_rt v \<in> {0, 1, 16, 17}" using assms(2) by (auto simp: c same_meaning_def Let_def split: if_splits)
  then have "registers m NextPCReg = registers m PCReg + 4" using assms(2) by (auto simp: c same_meaning_def Let_def split: if_splits)
  note b = both_branch [OF assms(1) this, of v] both_link [OF assms(1) this, of v] this
  from \<open>instr_rt v \<in> {0, 1, 16, 17}\<close> show ?thesis
    by (elim insertE emptyE; simp add: x_switch_def x_bcond_def assms(3) opcode_defs machine_switch c Let_def e r bit_31; insert b r; auto simp: x_set_def add.commute [of _ "8 :: 32 word"])
qed

lemma both_hilo:
  assumes "ready xpc s m"
  shows "both m (continue_with (s\<lparr>HI := h\<rparr>)) (Inr (Break (set_reg HiReg h m) (registers m NextPCReg + 4) 0 0))"
    "both m (continue_with (s\<lparr>LO := l\<rparr>)) (Inr (Break (set_reg LoReg l m) (registers m NextPCReg + 4) 0 0))"
    "both m (continue_with (s\<lparr>HI := h, LO := l\<rparr>)) (Inr (Break (set_reg HiReg h (set_reg LoReg l m)) (registers m NextPCReg + 4) 0 0))"
    "both m (continue_with (s\<lparr>x_npc := t\<rparr>)) (Inr (Break m t 0 0))"
    "r < 32 \<Longrightarrow> both m (continue_with (x_set r v (s\<lparr>x_npc := t\<rparr>))) (Inr (Break (set_reg r v m) t 0 0))"
  using assms by (intro both_intro; auto simp: ready_def x_set_def)+

lemma shift_positive: "n < 32 \<Longrightarrow> (y :: 32 word) AND SIGN_BIT = 0 \<Longrightarrow> signed_drop_bit n y = drop_bit n y"
  unfolding bit_31 by (rule bit_word_eqI) (auto simp: bit_simps min_def dest: bit_imp_le_length)

lemma shift_amount: "(x :: 32 word) < 32 \<Longrightarrow> unat (x AND 0x1f) = unat x" "(x :: 32 word) < 32 \<Longrightarrow> unat x < 32"
proof -
  assume "x < 32"
  then have "unat x < 2 ^ 5" by (simp add: word_less_nat_alt)
  then show "unat x < 32" "unat (x AND 0x1f) = unat x" unfolding mask_consts by (simp_all add: take_bit_eq_mask [symmetric] unsigned_take_bit_eq take_bit_nat_eq_self_iff)
qed

lemma upto_64: "(k :: nat) < 64 \<Longrightarrow> k \<in> {0, 2, 3, 4, 6, 7, 8, 9, 16, 17, 18, 19, 26, 27, 32, 33, 34, 35, 36, 37, 38, 39, 42, 43}
    \<or> specialTable ! k \<in> {OP_RES, OP_SYSCALL, OP_UNIMP, OP_MULT, OP_MULTU}"
proof -
  have "list_all (\<lambda>k. k \<in> {0, 2, 3, 4, 6, 7, 8, 9, 16, 17, 18, 19, 26, 27, 32, 33, 34, 35, 36, 37, 38, 39, 42, 43}
    \<or> specialTable ! k \<in> {OP_RES, OP_SYSCALL, OP_UNIMP, OP_MULT, OP_MULTU}) [0..<64]" by code_simp
  then show "k < 64 \<Longrightarrow> ?thesis" by (simp add: list_all_iff)
qed

lemma switch_special:
  assumes "ready xpc s m" "same_meaning (Decode v) m" "unat (drop_bit 26 v AND 0x3f) = 0" "opCode (Decode v) = specialTable ! unat (v AND 0x3f)"
    "unat (v AND 0x3f) < 64"
  shows "both m (x_switch be os xpc v s) (exec_ADD_BNE be now (Decode v) m (registers m NextPCReg + 4))"
proof -
  define k where "k = unat (v AND 0x3f)"
  have r: "Reg s (instr_rs v) = registers m (instr_rs v)" "Reg s (instr_rt v) = registers m (instr_rt v)" "HI s = registers m HiReg" "LO s = registers m LoReg"
    "xpc = registers m PCReg"
    using assms(1) fields_less by (simp_all add: ready_def)
  have op: "opCode (Decode v) = specialTable ! k" using assms(4) by (simp add: k_def)
  have e: "unat (extra (Decode v)) = shamt v" using assms(3) by (simp add: Decode_def Let_def case_prod_beta opTable_def shamt_def)
  have sh: "shamt v < 32" using and_mask_less [of "drop_bit 6 v" 5] by (simp add: shamt_def mask_consts)
  have x: "x_switch be os xpc v s = x_special os xpc v s" by (simp add: x_switch_def assms(3) opcode_defs)
  have "k \<in> {0, 2, 3, 4, 6, 7, 8, 9, 16, 17, 18, 19, 26, 27, 32, 33, 34, 35, 36, 37, 38, 39, 42, 43}"
    using upto_64 [of k] assms(2,5) by (auto simp: same_meaning_def op Let_def k_def)
  with assms(2) show ?thesis unfolding x
    by (elim insertE emptyE; simp only: same_meaning_def x_special_def op; simp add: specialTable_def; auto simp: k_def [symmetric] opcode_defs
        machine_switch op specialTable_def Let_def e r sh shift_positive shift_amount x_shift_def add.commute [of _ "8 :: 32 word"]
        intro!: both_to [OF assms(1) fields_less(3) [of v]] both_hilo [OF assms(1)] fields_less)
qed

lemma switches_agree:
  assumes "ready xpc s m" "same_meaning (Decode v) m"
  shows "both m (x_switch be os xpc v s) (exec_ADD_BNE be now (Decode v) m (registers m NextPCReg + 4))"
  using assms(2)
proof (cases rule: Decode_cases)
  case special
  then show ?thesis using switch_special [OF assms] by blast
next
  case bcond
  then show ?thesis by (rule switch_bcond [OF assms])
next
  case normal
  then have "unat (drop_bit 26 v AND 0x3f) \<in> {2, 3} \<or> unat (drop_bit 26 v AND 0x3f) \<in> {4..15}" by simp presburger
  then show ?thesis using switch_jump [OF assms _ normal(2)] switch_normal [OF assms _ normal(2)] by blast
qed

lemma no_op_agrees: "x_switch be os xpc 0 (x_set 0 0 s) = continue_with (x_set 0 0 s)"
  by (simp add: x_switch_def x_special_def opcode_defs x_set_def instr_rd_def instr_rt_def shamt_def)

lemma ReadMem_registers:
  assumes "ReadMem be now a sz m = Inr (Inr v, m1)"
  shows "registers m1 = registers m"
proof -
  have u: "registers (entry_update m ref e) = registers m" for ref e by (cases ref) simp_all
  obtain pa m' where t: "Translate a sz False m = Inr (Inr (pa, m'))" "registers m1 = registers m'"
  proof (cases "Translate a sz False m")
    case (Inr t)
    then show ?thesis using assms that by (cases t) (auto simp: ReadMem_def rbind_eq_Inr split: if_splits)
  qed (use assms in \<open>simp add: ReadMem_def\<close>)
  from t(1) have "\<exists>ref e. m' = entry_update m ref e"
    by (auto simp: Translate_def rbind_eq_Inr Let_def split: if_splits) (auto simp: rbind_eq_Inr Let_def split: sum.splits if_splits)
  with u t(2) show ?thesis by auto
qed

text \<open>C20. The stand-alone interpreter and the simulated machine agree: from states with the same registers at the same
  instruction, when the instruction is one to which both give the same meaning (every instruction that works on registers, with
  the provisos of \<open>same_meaning\<close>), one round of \<open>runprogram\<close> goes on and \<open>OneInstruction\<close> completes, and the states are again alike.\<close>

theorem interpreters_agree:
  assumes "alike s m" "fetch be (x_pc s) s = Inr v" "ReadMem be now (registers m PCReg) 4 m = Inr (Inr v, m1)" "same_meaning (Decode v) m"
  shows "\<exists>s' m'. x_step be os s = Inr (Continue s') \<and> OneInstruction be now m = Inr (Next m') \<and> alike s' m'"
proof -
  let ?s = "x_set 0 0 (s\<lparr>x_pc := x_npc s, x_npc := x_npc s + 4\<rparr>)"
  have r: "registers m1 = registers m" using ReadMem_registers [OF assms(3)] .
  have ready: "ready (x_pc s) ?s m1" using assms(1) by (auto simp: ready_def alike_def x_set_def r)
  have same: "same_meaning (Decode v) m1" using assms(4) by (simp add: same_meaning_def r)
  have x: "x_step be os s = x_switch be os (x_pc s) v ?s"
    using assms(2) no_op_agrees by (auto simp: x_step_def fetch_def Let_def)
  from switches_agree [OF ready same] obtain s' m2 pc where
    b: "x_switch be os (x_pc s) v ?s = Inr (Continue s')" "exec_ADD_BNE be now (Decode v) m1 (registers m1 NextPCReg + 4) = Inr (Break m2 pc 0 0)"
      "\<forall>r. 0 < r \<and> r < 32 \<longrightarrow> Reg s' r = registers m2 r" "HI s' = registers m2 HiReg" "LO s' = registers m2 LoReg"
      "x_pc s' = registers m1 NextPCReg" "x_npc s' = pc" "settled m1 m2"
    unfolding both_def paired_def by blast
  have l: "registers m2 LoadReg = 0" "registers m2 NextPCReg = registers m NextPCReg"
    using b(8) assms(1) by (simp_all add: settled_def r alike_def)
  then have d: "DelayedLoad 0 0 m2 = Inr (m2\<lparr>registers := (registers m2)(0 := registers m2 LoadValueReg, LoadReg := 0, LoadValueReg := 0, 0 := 0)\<rparr>)"
    by (simp add: DelayedLoad_def)
  show ?thesis unfolding x b(1)
    using assms(3) b(2-7) d l by (auto simp: OneInstruction_def alike_def r)
qed

text \<open>\<open>addiu r2, r0, 5\<close> at the start of the program, in the memory of the interpreter and in a page that the translation buffer maps.\<close>

definition demo_mem :: "nat \<Rightarrow> 8 word" where
  "demo_mem = host_store32 False 0 0x24020005 (\<lambda>_. 0)"

definition demo_x :: xmachine where
  "demo_x = \<lparr>Reg = (\<lambda>_. 0), HI = 0, LO = 0, x_mem = demo_mem, x_pc = 0x10000000, x_npc = 0x10000004\<rparr>"

definition demo_tlb :: machine where
  "demo_tlb = \<lparr>registers = (\<lambda>_. 0)(34 := 0x10000000, 35 := 0x10000004), mainMemory = demo_mem, pageTables = (\<lambda>_. []), m_pageTable = None,
     m_pageTableSize = 0, m_tlb = Some [\<lparr>virtualPage = 0x200000, physicalPage = 0, valid = True, readOnly = False, use = False, dirty = False\<rparr>],
     lastUsed = (\<lambda>_. 0)\<rparr>"

theorem interpreters_agree_witness:
  "\<exists>s' m'. x_step False (\<lambda>_ _ _ _ s. (0, x_mem s)) demo_x = Inr (Continue s') \<and> OneInstruction False 0 demo_tlb = Inr (Next m') \<and> alike s' m'"
proof -
  have a: "alike demo_x demo_tlb" by (simp add: alike_def demo_x_def demo_tlb_def)
  have f: "fetch False (x_pc demo_x) demo_x = Inr 0x24020005" by code_simp
  have t: "\<exists>m1. Translate 0x10000000 4 False demo_tlb = Inr (Inr (0, m1)) \<and> mainMemory m1 = demo_mem"
    by (simp add: Translate_def misaligned_def find_entry_def demo_tlb_def TLBSize_def NumPhysPages_def MemorySize_def upt_rec)
  have w: "WordToHost False (host_load32 False demo_mem 0) = 0x24020005" by code_simp
  obtain m1 where r: "ReadMem False 0 (registers demo_tlb PCReg) 4 demo_tlb = Inr (Inr 0x24020005, m1)"
    using t w by (auto simp: ReadMem_def demo_tlb_def)
  have "opCode (Decode 0x24020005) = OP_ADDIU" by code_simp
  then have "same_meaning (Decode 0x24020005) demo_tlb" by (simp add: same_meaning_def)
  from interpreters_agree [OF a f r this] show ?thesis .
qed

text \<open>The high word of a product: the interpreter loses the carries of the low halves, the machine does not.\<close>

lemma high_word_lost: "x_mult 0x1ffff 0x1ffff = (1, 0xfffc0001)" "Mult 0x1ffff 0x1ffff True = (3, 0xfffc0001)"
  by code_simp+

end
