(* ===== verification/Mips_Assembler.thy ===== *)
theory Mips_Assembler
  imports Mips_Execute
begin

text \<open>
  The decoder of \<open>machine/mipssim.cc\<close> against the numbers of the instructions in \<open>bin/encode.h\<close>, which are written down independently
  of its tables: an assembled instruction is decoded as what it is.
\<close>

text \<open>The instructions of each format, with the number \<open>encode.h\<close> gives them: the major opcode, the function code of
  \<open>I_SPECIAL\<close>, the register field of \<open>I_BCOND\<close>.\<close>

definition immediates :: "(nat \<times> OpCode) list" where
  "immediates =
     [(I_ADDI, OP_ADDI), (I_ADDIU, OP_ADDIU), (I_SLTI, OP_SLTI), (I_SLTIU, OP_SLTIU), (I_ANDI, OP_ANDI), (I_ORI, OP_ORI), (I_XORI, OP_XORI), (I_LUI,
     OP_LUI), (I_BEQ, OP_BEQ), (I_BNE, OP_BNE), (I_BLEZ, OP_BLEZ), (I_BGTZ, OP_BGTZ), (I_LB, OP_LB), (I_LH, OP_LH), (I_LWL, OP_LWL), (I_LW, OP_LW),
     (I_LBU, OP_LBU), (I_LHU, OP_LHU), (I_LWR, OP_LWR), (I_SB, OP_SB), (I_SH, OP_SH), (I_SWL, OP_SWL), (I_SW, OP_SW), (I_SWR, OP_SWR)]"

definition jumps :: "(nat \<times> OpCode) list" where
  "jumps = [(I_J, OP_J), (I_JAL, OP_JAL)]"

definition specials :: "(nat \<times> OpCode) list" where
  "specials =
     [(I_SLL, OP_SLL), (I_SRL, OP_SRL), (I_SRA, OP_SRA), (I_SLLV, OP_SLLV), (I_SRLV, OP_SRLV), (I_SRAV, OP_SRAV), (I_JR, OP_JR), (I_JALR, OP_JALR),
     (I_SYSCALL, OP_SYSCALL), (I_MFHI, OP_MFHI), (I_MTHI, OP_MTHI), (I_MFLO, OP_MFLO), (I_MTLO, OP_MTLO), (I_MULT, OP_MULT), (I_MULTU, OP_MULTU),
     (I_DIV, OP_DIV), (I_DIVU, OP_DIVU), (I_ADD, OP_ADD), (I_ADDU, OP_ADDU), (I_SUB, OP_SUB), (I_SUBU, OP_SUBU), (I_AND, OP_AND), (I_OR, OP_OR),
     (I_XOR, OP_XOR), (I_NOR, OP_NOR), (I_SLT, OP_SLT), (I_SLTU, OP_SLTU)]"

definition conditionals :: "(nat \<times> OpCode) list" where
  "conditionals = [(I_BLTZ, OP_BLTZ), (I_BGEZ, OP_BGEZ), (I_BLTZAL, OP_BLTZAL), (I_BGEZAL, OP_BGEZAL)]"

lemma immediates_ok: "(n, c) \<in> set immediates \<Longrightarrow> n < 64 \<and> opTable ! n = (c, IFMT) \<and> c \<noteq> SPECIAL \<and> c \<noteq> BCOND"
proof -
  have "list_all (\<lambda>(n, c). n < 64 \<and> opTable ! n = (c, IFMT) \<and> c \<noteq> SPECIAL \<and> c \<noteq> BCOND) immediates" by code_simp
  then show "(n, c) \<in> set immediates \<Longrightarrow> n < 64 \<and> opTable ! n = (c, IFMT) \<and> c \<noteq> SPECIAL \<and> c \<noteq> BCOND" by (auto simp: list_all_iff)
qed

lemma jumps_ok: "(n, c) \<in> set jumps \<Longrightarrow> n < 64 \<and> opTable ! n = (c, JFMT)"
proof -
  have "list_all (\<lambda>(n, c). n < 64 \<and> opTable ! n = (c, JFMT)) jumps" by code_simp
  then show "(n, c) \<in> set jumps \<Longrightarrow> n < 64 \<and> opTable ! n = (c, JFMT)" by (auto simp: list_all_iff)
qed

lemma specials_ok: "(n, c) \<in> set specials \<Longrightarrow> n < 64 \<and> specialTable ! n = c"
proof -
  have "list_all (\<lambda>(n, c). n < 64 \<and> specialTable ! n = c) specials" by code_simp
  then show "(n, c) \<in> set specials \<Longrightarrow> n < 64 \<and> specialTable ! n = c" by (auto simp: list_all_iff)
qed

lemma others_refused:
  "n < 64 \<Longrightarrow> n \<notin> fst ` set immediates \<union> fst ` set jumps \<union> {I_SPECIAL, I_BCOND} \<Longrightarrow> fst (opTable ! n) \<in> {OP_RES, OP_UNIMP}"
  "n < 64 \<Longrightarrow> n \<notin> fst ` set specials \<Longrightarrow> specialTable ! n \<in> {OP_RES, OP_UNIMP}"
proof -
  have "list_all (\<lambda>n. n \<in> set (map fst (immediates @ jumps) @ [I_SPECIAL, I_BCOND]) \<or> fst (opTable ! n) = OP_RES \<or> fst (opTable ! n) = OP_UNIMP) [0..<64]"
    by code_simp
  then show "n < 64 \<Longrightarrow> n \<notin> fst ` set immediates \<union> fst ` set jumps \<union> {I_SPECIAL, I_BCOND} \<Longrightarrow> fst (opTable ! n) \<in> {OP_RES, OP_UNIMP}"
    by (auto simp: list_all_iff)
  have "list_all (\<lambda>n. n \<in> set (map fst specials) \<or> specialTable ! n = OP_RES \<or> specialTable ! n = OP_UNIMP) [0..<64]" by code_simp
  then show "n < 64 \<Longrightarrow> n \<notin> fst ` set specials \<Longrightarrow> specialTable ! n \<in> {OP_RES, OP_UNIMP}" by (auto simp: list_all_iff)
qed

lemma unat_code: "n < 64 \<Longrightarrow> unat (of_nat n :: 6 word) = n"
  by (simp add: unat_of_nat)

lemma register_field: "encode_I op s t imm AND 0x1f0000 = push_bit 16 (ucast t)"
proof -
  have "encode_I op s t imm AND 0x1f0000 = push_bit 16 (drop_bit 16 (encode_I op s t imm) AND 0x1f)"
  proof -
    have m: "(0x1f0000 :: 32 word) = push_bit 16 (mask 5)" "(0x1f :: 32 word) = mask 5" by (simp_all add: mask_eq_exp_minus_1 push_bit_eq_mult)
    show ?thesis unfolding m by (intro bit_word_eqI) (auto simp: bit_simps)
  qed
  then show ?thesis by (simp add: encode_I_fields)
qed

lemma Decode_conditional:
  assumes "(n, c) \<in> set conditionals"
  shows "opCode (Decode (encode_I 1 s (of_nat n) imm)) = c"
proof -
  have u: "unat (1 :: 6 word) = 1" "opTable ! 1 = (BCOND, IFMT)" by code_simp+
  have d: "opCode (Decode (encode_I 1 s (of_nat n) imm)) = (let i = push_bit 16 (ucast (of_nat n :: 5 word)) :: 32 word in
      if i = 0 then OP_BLTZ else if i = 0x10000 then OP_BGEZ else if i = 0x100000 then OP_BLTZAL else if i = 0x110000 then OP_BGEZAL else OP_UNIMP)"
    using u by (simp add: Decode_def register_field encode_I_fields unat_ucast_field Let_def)
  have "list_all (\<lambda>(n, c). (let i = push_bit 16 (ucast (of_nat n :: 5 word)) :: 32 word in
      if i = 0 then OP_BLTZ else if i = 0x10000 then OP_BGEZ else if i = 0x100000 then OP_BLTZAL else if i = 0x110000 then OP_BGEZAL else OP_UNIMP) = c) conditionals"
    by code_simp
  with assms d show ?thesis by (auto simp: list_all_iff)
qed

text \<open>C34. Decoding inverts assembling. For every instruction of the three formats, assembled with the number \<open>encode.h\<close> has for
  it, \<open>Decode\<close> gives back its opcode and its register fields, the immediate sign extended, the shift amount and the jump target
  zero extended; this includes the four branches that share the major opcode \<open>I_BCOND\<close>. Every other major opcode and every other
  function code is decoded as reserved or not implemented.\<close>

theorem decode_inverts_encode:
  "(\<forall>(n, c) \<in> set immediates. let i = Decode (encode_I (of_nat n) s t imm) in opCode i = c \<and> rs i = unat s \<and> rt i = unat t \<and> extra i = scast imm)
   \<and> (\<forall>(n, c) \<in> set conditionals. let i = Decode (encode_I (of_nat I_BCOND) s (of_nat n) imm) in opCode i = c \<and> rs i = unat s \<and> extra i = scast imm)
   \<and> (\<forall>(n, c) \<in> set specials. let i = Decode (encode_R s t d sh (of_nat n)) in
        opCode i = c \<and> rs i = unat s \<and> rt i = unat t \<and> rd i = unat d \<and> extra i = ucast sh)
   \<and> (\<forall>(n, c) \<in> set jumps. let i = Decode (encode_J (of_nat n) x) in opCode i = c \<and> extra i = ucast x)
   \<and> (\<forall>n < 64. n \<notin> fst ` set immediates \<union> fst ` set jumps \<union> {I_SPECIAL, I_BCOND} \<longrightarrow>
        opCode (Decode (encode_I (of_nat n) s t imm)) \<in> {OP_RES, OP_UNIMP})
   \<and> (\<forall>n < 64. n \<notin> fst ` set specials \<longrightarrow> opCode (Decode (encode_R s t d sh (of_nat n))) \<in> {OP_RES, OP_UNIMP})"
proof (intro conjI allI impI ballI)
  have b: "(of_nat I_BCOND :: 6 word) = 1" "snd (opTable ! unat (1 :: 6 word)) = IFMT" by code_simp+
  show "case p of (n, c) \<Rightarrow> let i = Decode (encode_I (of_nat n) s t imm) in opCode i = c \<and> rs i = unat s \<and> rt i = unat t \<and> extra i = scast imm"
    if "p \<in> set immediates" for p
    using that immediates_ok [of "fst p" "snd p"] Decode_encode_I [OF _ refl, of "of_nat (fst p)" s t imm]
    by (simp add: case_prod_beta Let_def unat_code)
  show "case p of (n, c) \<Rightarrow> let i = Decode (encode_I (of_nat I_BCOND) s (of_nat n) imm) in opCode i = c \<and> rs i = unat s \<and> extra i = scast imm"
    if "p \<in> set conditionals" for p
    using that Decode_conditional [of "fst p" "snd p" s imm] Decode_encode_I [OF b(2) refl, of s "of_nat (fst p)" imm]
    by (simp add: case_prod_beta Let_def b(1))
  show "case p of (n, c) \<Rightarrow> let i = Decode (encode_R s t d sh (of_nat n)) in opCode i = c \<and> rs i = unat s \<and> rt i = unat t \<and> rd i = unat d \<and> extra i = ucast sh"
    if "p \<in> set specials" for p
    using that specials_ok [of "fst p" "snd p"] Decode_encode_R [OF refl, of s t d sh "of_nat (fst p)"] by (simp add: case_prod_beta Let_def unat_code)
  show "case p of (n, c) \<Rightarrow> let i = Decode (encode_J (of_nat n) x) in opCode i = c \<and> extra i = ucast x" if "p \<in> set jumps" for p
    using that jumps_ok [of "fst p" "snd p"] Decode_encode_J [OF _ refl, of "of_nat (fst p)" x] by (simp add: case_prod_beta Let_def unat_code)
  fix n :: nat
  assume n: "n < 64"
  show "opCode (Decode (encode_R s t d sh (of_nat n))) \<in> {OP_RES, OP_UNIMP}" if "n \<notin> fst ` set specials"
    using others_refused(2) [OF n that] Decode_encode_R(5) [OF refl, of s t d sh "of_nat n"] by (simp add: unat_code [OF n])
  show "opCode (Decode (encode_I (of_nat n) s t imm)) \<in> {OP_RES, OP_UNIMP}" if o: "n \<notin> fst ` set immediates \<union> fst ` set jumps \<union> {I_SPECIAL, I_BCOND}"
    using others_refused(1) [OF n o] by (auto simp: Decode_def encode_I_fields unat_ucast_field case_prod_beta Let_def unat_code [OF n])
qed

theorem decode_inverts_encode_witness:
  "opCode (Decode (encode_I 8 1 2 0xfffe)) = OP_ADDI \<and> extra (Decode (encode_I 8 1 2 0xfffe)) = - 2
   \<and> opCode (Decode (encode_I 1 3 1 4)) = OP_BGEZ \<and> opCode (Decode (encode_R 1 2 3 0 0x20)) = OP_ADD \<and> opCode (Decode (encode_J 3 5)) = OP_JAL"
proof -
  have m: "(8, OP_ADDI) \<in> set immediates" "(1, OP_BGEZ) \<in> set conditionals" "(32, OP_ADD) \<in> set specials" "(3, OP_JAL) \<in> set jumps"
    by (simp_all add: immediates_def conditionals_def specials_def jumps_def opcode_defs)
  have c: "(of_nat 8 :: 6 word) = 8" "(of_nat I_BCOND :: 6 word) = 1" "(of_nat 1 :: 5 word) = 1" "(of_nat 32 :: 6 word) = 0x20" "(of_nat 3 :: 6 word) = 3"
    "scast (0xfffe :: 16 word) = (- 2 :: 32 word)" by code_simp+
  note D = decode_inverts_encode [of 1 2 "0xfffe" 3 0 5] and E = decode_inverts_encode [of 3 0 4 0 0 0]
  have "opCode (Decode (encode_I 8 1 2 0xfffe)) = OP_ADDI \<and> extra (Decode (encode_I 8 1 2 0xfffe)) = - 2"
    using bspec [OF D [THEN conjunct1] m(1)] unfolding prod.case Let_def c by blast
  moreover have "opCode (Decode (encode_I 1 3 1 4)) = OP_BGEZ"
    using bspec [OF E [THEN conjunct2, THEN conjunct1] m(2)] unfolding prod.case Let_def c by blast
  moreover have "opCode (Decode (encode_R 1 2 3 0 0x20)) = OP_ADD"
    using bspec [OF D [THEN conjunct2, THEN conjunct2, THEN conjunct1] m(3)] unfolding prod.case Let_def c by blast
  moreover have "opCode (Decode (encode_J 3 5)) = OP_JAL"
    using bspec [OF D [THEN conjunct2, THEN conjunct2, THEN conjunct2, THEN conjunct1] m(4)] unfolding prod.case Let_def c by blast
  ultimately show ?thesis by blast
qed

end
