(* ===== verification/Coff2flat.thy ===== *)
theory Coff2flat
  imports Coff2noff Syscalls
begin

text \<open>
  The tool \<open>bin/coff2flat.c\<close> makes an image of the memory of a program from a COFF object file: the sections one after the
  other, and room for the stack. Unlike \<open>coff2noff\<close> it does not convert byte orders, and it does not seek to the address of a
  section before it writes it. The tool includes the COFF headers of the host it is built on; they are taken to describe the file
  format as \<open>bin/coff.h\<close> does.
\<close>

definition StackSize :: int where "StackSize = 1024"

text \<open>The state of the loop: the position in the input, the output, and \<open>top\<close>.\<close>

record flattening =
  fl_in :: nat
  fl_out :: bytes
  fl_top :: int

definition flat_section :: "bytes \<Rightarrow> scnhdr \<Rightarrow> flattening \<Rightarrow> coff_exit + flattening" where
  "flat_section file s f =
     (let last = sint (s_paddr s + s_size s); f = (if last > fl_top f then f\<lparr>fl_top := last\<rparr> else f) in
      if bss_section s then Inr f
      else if sint (s_size s) < 0 then Inl Unspecified
      else ebind (Read file (lseek (fl_in f) (s_scnptr s)) (nat (sint (s_size s)))) (\<lambda>(buffer, pos).
        Inr (f\<lparr>fl_in := pos, fl_out := fl_out f @ buffer\<rparr>)))"

definition flat_sections :: "bool \<Rightarrow> bytes \<Rightarrow> coff_exit + scnhdr list \<times> nat" where
  "flat_sections bigEndian file =
     ebind (Read file 0 filehdr_size) (\<lambda>(buf, pos).
     let fileh = filehdr_at bigEndian buf in
     if f_magic fileh \<noteq> MIPSELMAGIC then Inl Not_MIPSEL
     else ebind (Read file pos aouthdr_size) (\<lambda>(buf, pos).
       if host_load16 bigEndian (\<lambda>k. buf ! k) 0 \<noteq> OMAGIC then Inl Not_OMAGIC
       else ebind (Read file pos (unat (f_nscns fileh) * scnhdr_size)) (\<lambda>(buf, pos).
         Inr (map (\<lambda>i. scnhdr_at bigEndian (take scnhdr_size (drop (i * scnhdr_size) buf))) [0..<unat (f_nscns fileh)], pos))))"

text \<open>\<open>main\<close>: the word at the end makes the file long enough for the stack.\<close>

definition coff2flat :: "bool \<Rightarrow> bytes \<Rightarrow> coff_exit + bytes" where
  "coff2flat bigEndian file =
     ebind (flat_sections bigEndian file) (\<lambda>(sections, pos).
     ebind (each (flat_section file) sections \<lparr>fl_in = pos, fl_out = [], fl_top = 0\<rparr>) (\<lambda>f.
     Inr (write_at (lseek (length (fl_out f)) (word_of_int (fl_top f + StackSize - 4))) [0, 0, 0, 0] (fl_out f))))"

section \<open>The image\<close>

text \<open>The contents of a section in the object file.\<close>

definition contents_of :: "bytes \<Rightarrow> scnhdr \<Rightarrow> bytes" where
  "contents_of file s = take (nat (sint (s_size s))) (drop (nat (sint (s_scnptr s))) file)"

text \<open>The sections with contents follow each other from address \<open>a\<close> on, without gaps; sections of uninitialised data are at higher addresses.\<close>

fun laid_out :: "int \<Rightarrow> scnhdr list \<Rightarrow> bool" where
  "laid_out a [] \<longleftrightarrow> True"
| "laid_out a (s # ss) \<longleftrightarrow> 0 \<le> sint (s_scnptr s) \<and> sint (s_paddr s + s_size s) = sint (s_paddr s) + sint (s_size s) \<and>
     (if bss_section s then a \<le> sint (s_paddr s) \<and> laid_out a ss else sint (s_paddr s) = a \<and> laid_out (a + sint (s_size s)) ss)"

definition in_place :: "bytes \<Rightarrow> bytes \<Rightarrow> int \<Rightarrow> scnhdr \<Rightarrow> bool" where
  "in_place file out t s \<longleftrightarrow> sint (s_paddr s) + sint (s_size s) \<le> t \<and> (\<not> bss_section s \<longrightarrow>
     length (contents_of file s) = nat (sint (s_size s)) \<and> nat (sint (s_paddr s)) + nat (sint (s_size s)) \<le> length out
     \<and> (\<forall>k < nat (sint (s_size s)). out ! (nat (sint (s_paddr s)) + k) = contents_of file s ! k))"

lemma in_place_more: "in_place file out t s \<Longrightarrow> t \<le> t' \<Longrightarrow> in_place file (out @ zs) t' s"
  by (auto simp: in_place_def nth_append)

lemma flat_section_cases:
  assumes "flat_section file s f = Inr f1" "sint (s_paddr s + s_size s) = sint (s_paddr s) + sint (s_size s)" "0 \<le> sint (s_scnptr s)"
  shows "fl_top f1 = max (fl_top f) (sint (s_paddr s) + sint (s_size s))"
    "bss_section s \<Longrightarrow> fl_out f1 = fl_out f"
    "\<not> bss_section s \<Longrightarrow> fl_out f1 = fl_out f @ contents_of file s \<and> int (length (contents_of file s)) = sint (s_size s)"
  using assms by (auto simp: flat_section_def Let_def ebind_eq_Inr Read_def lseek_def contents_of_def max_def split: if_splits)

lemma flat_sections_grow:
  assumes "each (flat_section file) ss f = Inr f'" "laid_out a ss"
  shows "\<exists>more. fl_out f' = fl_out f @ more \<and> fl_top f \<le> fl_top f'"
  using assms
proof (induction ss arbitrary: f a)
  case (Cons s ss)
  then obtain f1 where f1: "flat_section file s f = Inr f1" "each (flat_section file) ss f1 = Inr f'" by (auto simp: ebind_eq_Inr)
  have l: "sint (s_paddr s + s_size s) = sint (s_paddr s) + sint (s_size s)" "0 \<le> sint (s_scnptr s)" "\<exists>a. laid_out a ss"
    using Cons.prems(2) by (auto split: if_splits)
  from flat_section_cases [OF f1(1) l(1,2)] have "\<exists>more. fl_out f1 = fl_out f @ more \<and> fl_top f \<le> fl_top f1" by (cases "bss_section s") auto
  moreover obtain more where "fl_out f' = fl_out f1 @ more" "fl_top f1 \<le> fl_top f'" using Cons.IH [OF f1(2)] l(3) by blast
  ultimately show ?case by auto
qed auto

lemma flat_sections_ok:
  assumes "each (flat_section file) ss f = Inr f'" "laid_out (int (length (fl_out f))) ss" "int (length (fl_out f)) \<le> fl_top f"
  shows "(\<forall>s \<in> set ss. in_place file (fl_out f') (fl_top f') s) \<and> int (length (fl_out f')) \<le> fl_top f'"
  using assms
proof (induction ss arbitrary: f)
  case (Cons s ss)
  then obtain f1 where f1: "flat_section file s f = Inr f1" "each (flat_section file) ss f1 = Inr f'" by (auto simp: ebind_eq_Inr)
  have l: "sint (s_paddr s + s_size s) = sint (s_paddr s) + sint (s_size s)" "0 \<le> sint (s_scnptr s)"
    using Cons.prems(2) by auto
  note c = flat_section_cases [OF f1(1) l]
  have nx: "laid_out (int (length (fl_out f1))) ss" "int (length (fl_out f1)) \<le> fl_top f1" "in_place file (fl_out f1) (fl_top f1) s"
    using Cons.prems(2,3) c by (auto simp: in_place_def nth_append split: if_splits)
  obtain more where "fl_out f' = fl_out f1 @ more" "fl_top f1 \<le> fl_top f'" using flat_sections_grow [OF f1(2) nx(1)] by blast
  with in_place_more [OF nx(3)] have "in_place file (fl_out f') (fl_top f') s" by simp
  with Cons.IH [OF f1(2) nx(1,2)] show ?case by simp
qed auto

lemma flat_top_bound:
  assumes "each (flat_section file) ss f = Inr f'" "laid_out a ss" "fl_top f \<le> b" "\<forall>s \<in> set ss. sint (s_paddr s) + sint (s_size s) \<le> b"
  shows "fl_top f' \<le> b"
  using assms
proof (induction ss arbitrary: f a)
  case (Cons s ss)
  then obtain f1 where f1: "flat_section file s f = Inr f1" "each (flat_section file) ss f1 = Inr f'" by (auto simp: ebind_eq_Inr)
  have l: "sint (s_paddr s + s_size s) = sint (s_paddr s) + sint (s_size s)" "0 \<le> sint (s_scnptr s)" "\<exists>a. laid_out a ss"
    using Cons.prems(2) by (auto split: if_splits)
  have "fl_top f1 \<le> b" using flat_section_cases(1) [OF f1(1) l(1,2)] Cons.prems(3,4) by simp
  with Cons.IH [OF f1(2)] l(3) Cons.prems(4) show ?case by auto
qed auto

lemma flat_top:
  assumes "each (flat_section file) ss f = Inr f'" "laid_out a ss"
  shows "fl_top f' = Max (insert (fl_top f) ((\<lambda>s. sint (s_paddr s) + sint (s_size s)) ` set ss))"
  using assms
proof (induction ss arbitrary: f a)
  case (Cons s ss)
  then obtain f1 where f1: "flat_section file s f = Inr f1" "each (flat_section file) ss f1 = Inr f'" by (auto simp: ebind_eq_Inr)
  have l: "sint (s_paddr s + s_size s) = sint (s_paddr s) + sint (s_size s)" "0 \<le> sint (s_scnptr s)" "\<exists>a. laid_out a ss"
    using Cons.prems(2) by (auto split: if_splits)
  have "fl_top f' = Max (insert (fl_top f1) ((\<lambda>s. sint (s_paddr s) + sint (s_size s)) ` set ss))" using Cons.IH [OF f1(2)] l(3) by blast
  then show ?case using flat_section_cases(1) [OF f1(1) l(1,2)]
    by (cases "set ss = {}") (simp_all add: max.assoc)
qed auto

lemma flat_contents:
  assumes "each (flat_section file) ss f = Inr f'" "laid_out a ss" "\<forall>s \<in> set ss. 0 \<le> sint (s_size s)"
  shows "length (fl_out f') = length (fl_out f) + (\<Sum>s \<leftarrow> [s \<leftarrow> ss. \<not> bss_section s]. nat (sint (s_size s)))"
  using assms
proof (induction ss arbitrary: f a)
  case (Cons s ss)
  then obtain f1 where f1: "flat_section file s f = Inr f1" "each (flat_section file) ss f1 = Inr f'" by (auto simp: ebind_eq_Inr)
  have l: "sint (s_paddr s + s_size s) = sint (s_paddr s) + sint (s_size s)" "0 \<le> sint (s_scnptr s)" "\<exists>a. laid_out a ss"
    using Cons.prems(2) by (auto split: if_splits)
  have "length (fl_out f') = length (fl_out f1) + (\<Sum>s \<leftarrow> [s \<leftarrow> ss. \<not> bss_section s]. nat (sint (s_size s)))"
    using Cons.IH [OF f1(2)] l(3) Cons.prems(3) by auto
  then show ?case using flat_section_cases(2,3) [OF f1(1) l(1,2)] by (cases "bss_section s") auto
qed auto

text \<open>C14. The image that \<open>coff2flat\<close> makes, for an object file whose sections with contents follow each other from address 0:
  the contents of every section are at its address, everything from the end of the contents on is zero, and the file is
  exactly as long as the highest address of a section and the stack after it.\<close>

theorem flat_file_is_image:
  assumes "flat_sections be file = Inr (sections, pos)" "coff2flat be file = Inr flat" "laid_out 0 sections"
    "\<forall>s \<in> set sections. 0 \<le> sint (s_size s) \<and> sint (s_paddr s) + sint (s_size s) < 2 ^ 31 - StackSize"
  shows "int (length flat) = Max (insert 0 ((\<lambda>s. sint (s_paddr s) + sint (s_size s)) ` set sections)) + StackSize
     \<and> (\<forall>s \<in> set sections. \<not> bss_section s \<longrightarrow>
          (\<forall>k < nat (sint (s_size s)). flat ! (nat (sint (s_paddr s)) + k) = file ! (nat (sint (s_scnptr s)) + k)))
     \<and> (\<forall>k. (\<Sum>s \<leftarrow> [s \<leftarrow> sections. \<not> bss_section s]. nat (sint (s_size s))) \<le> k \<and> k < length flat \<longrightarrow> flat ! k = 0)"
proof -
  let ?f = "\<lparr>fl_in = pos, fl_out = [], fl_top = 0\<rparr>"
  obtain f where f: "each (flat_section file) sections ?f = Inr f"
    and flat: "flat = write_at (lseek (length (fl_out f)) (word_of_int (fl_top f + StackSize - 4))) [0, 0, 0, 0] (fl_out f)"
    using assms(1,2) by (auto simp: coff2flat_def ebind_eq_Inr)
  have ok: "\<forall>s \<in> set sections. in_place file (fl_out f) (fl_top f) s" "int (length (fl_out f)) \<le> fl_top f"
    using flat_sections_ok [OF f] assms(3) by simp_all
  have "fl_top f \<le> 2 ^ 31 - StackSize - 1" using assms(4) by (intro flat_top_bound [OF f assms(3)]) (auto simp: StackSize_def)
  moreover have w: "sint (word_of_int x :: 32 word) = x" if "0 \<le> x" "x < 2 ^ 31" for x
    using that by (simp add: sint_sbintrunc' signed_take_bit_int_eq_self)
  ultimately have top: "0 \<le> fl_top f" "sint (word_of_int (fl_top f + StackSize - 4) :: 32 word) = fl_top f + StackSize - 4"
    using ok(2) by (simp, intro w) (simp_all add: StackSize_def)
  have seek: "lseek (length (fl_out f)) (word_of_int (fl_top f + StackSize - 4)) = nat (fl_top f) + 1020"
    using top by (simp add: lseek_def StackSize_def nat_add_distrib)
  have "length (fl_out f) \<le> nat (fl_top f)" using ok(2) by simp
  moreover have "replicate (nat (fl_top f) + 1020 - length (fl_out f)) 0 @ [0, 0, 0, 0] = replicate (nat (fl_top f) + 1020 - length (fl_out f) + 4) (0 :: 8 word)"
    by (simp add: numeral_eq_Suc replicate_app_Cons_same)
  ultimately have flat': "flat = fl_out f @ replicate (nat (fl_top f) + 1024 - length (fl_out f)) 0"
    unfolding flat seek write_at_def by simp
  have len: "int (length flat) = fl_top f + StackSize" using ok(2) by (simp add: flat' StackSize_def)
  have c: "contents_of file s ! k = file ! (nat (sint (s_scnptr s)) + k)" if "k < nat (sint (s_size s))" "length (contents_of file s) = nat (sint (s_size s))" for s k
    using that by (simp add: contents_of_def)
  have "length (fl_out f) = (\<Sum>s \<leftarrow> [s \<leftarrow> sections. \<not> bss_section s]. nat (sint (s_size s)))"
    using flat_contents [OF f assms(3)] assms(4) by simp
  moreover have "flat ! k = 0" if "length (fl_out f) \<le> k" "k < length flat" for k using that by (simp add: flat' nth_append)
  moreover have "flat ! (nat (sint (s_paddr s)) + k) = file ! (nat (sint (s_scnptr s)) + k)"
    if "s \<in> set sections" "\<not> bss_section s" "k < nat (sint (s_size s))" for s k
    using ok(1) that c by (auto simp: flat' in_place_def nth_append)
  ultimately show ?thesis using len flat_top [OF f assms(3)] by simp
qed

text \<open>Four bytes of code, and the same file with the code at address 4: the image has it at address 0.\<close>

definition demo_object :: "8 word \<Rightarrow> bytes" where
  "demo_object a = [0x62, 1, 1, 0] @ replicate 16 0 @ [7, 1] @ replicate 54 0
     @ [46, 116, 101, 120, 116, 0, 0, 0] @ [a, 0, 0, 0] @ [0, 0, 0, 0] @ [4, 0, 0, 0] @ [116, 0, 0, 0] @ replicate 16 0 @ [11, 12, 13, 14]"

definition demo_text :: "32 word \<Rightarrow> scnhdr" where
  "demo_text a = \<lparr>s_name = [46, 116, 101, 120, 116, 0, 0, 0], s_paddr = a, s_size = 4, s_scnptr = 116\<rparr>"

theorem flat_file_is_image_witness:
  "\<exists>flat. coff2flat False (demo_object 0) = Inr flat \<and> flat ! 2 = 13 \<and> flat ! 1000 = 0 \<and> length flat = 1028"
proof -
  have s: "flat_sections False (demo_object 0) = Inr ([demo_text 0], 116)" by code_simp
  have "\<not> isl (coff2flat False (demo_object 0))" by code_simp
  then obtain flat where flat: "coff2flat False (demo_object 0) = Inr flat" by (cases "coff2flat False (demo_object 0)") auto
  have l: "laid_out 0 [demo_text 0]" "\<forall>s \<in> set [demo_text 0]. 0 \<le> sint (s_size s) \<and> sint (s_paddr s) + sint (s_size s) < 2 ^ 31 - StackSize"
    by code_simp+
  have t: "\<not> bss_section (demo_text 0)" "nat (sint (s_size (demo_text 0))) = 4" "nat (sint (s_paddr (demo_text 0))) = 0" "nat (sint (s_scnptr (demo_text 0))) = 116"
    "sint (s_paddr (demo_text 0)) + sint (s_size (demo_text 0)) + StackSize = 1028" "demo_object 0 ! 118 = 13"
    by code_simp+
  have d: "(\<Sum>s \<leftarrow> [s \<leftarrow> [demo_text 0]. \<not> bss_section s]. nat (sint (s_size s))) = 4" using t(1,2) by simp
  note F = flat_file_is_image [OF s flat l]
  have n: "length flat = 1028" using F t(5) by (simp add: StackSize_def)
  moreover have "flat ! 1000 = 0" using F unfolding d n by (auto dest: spec [of _ 1000])
  moreover have "flat ! 2 = 13" using F t(1-4,6) by (auto dest: spec [of _ 2])
  ultimately show ?thesis using flat by blast
qed

text \<open>A gap before the contents is not kept.\<close>

lemma gap_lost: "map_sum id (\<lambda>flat. flat ! 0) (coff2flat False (demo_object 4)) = Inr 11"
  by code_simp

end
