(* ===== verification/Program_Moves.thy ===== *)
theory Program_Moves
  imports Kernel_Frames
begin

text \<open>
  Threads that run programs of kernel calls (theory \<open>Thread_Programs\<close>), seen without interrupts and scheduling: what code each
  thread has still to run, the values of the semaphores, the conditions, and who has or wants each lock. Every step of the
  kernel leaves this view as it is or is one move of one thread (\<open>prog_move\<close>), so what holds of all interleavings of
  the moves holds under every scheduling.
\<close>

section \<open>What a step does to the conditions\<close>

lemma conditions_simps [simp]:
  "conditions (set_lock l y s) = conditions s" "conditions (setStatus t st s) = conditions s" "conditions (set_thread t th s) = conditions s"
  "conditions (push fs s) = conditions s" "conditions (set_sem i x s) = conditions s" "conditions (set_cond c z s) = (conditions s)(c := z)"
  "conditions (OneTick s) = conditions s"
  by (simp_all add: set_sem_def set_lock_def set_cond_def setStatus_def set_thread_def push_def OneTick_def Let_def)

lemma cv_set_level: "set_level v s = Inr s' \<Longrightarrow> conditions s' = conditions s"
  by (auto simp: set_level_def SetLevel_def rbind_eq_Inr Let_def split: if_splits)

lemma cv_ReadyToRun: "ReadyToRun t s = Inr s' \<Longrightarrow> conditions s' = conditions s"
  by (auto simp: ReadyToRun_def rbind_eq_Inr)

lemma cv_Sleep: "Sleep s = Inr s' \<Longrightarrow> conditions s' = conditions s"
  by (auto simp: Sleep_def rbind_eq_Inr)

lemma cv_Run: "Run t s = Inr s' \<Longrightarrow> conditions s' = conditions s"
  by (auto simp: Run_def SaveUserState_def Let_def rbind_eq_Inr split: if_splits option.splits)

lemma cv_Run_tail: "Run_tail s = Inr s' \<Longrightarrow> conditions s' = conditions s"
  by (auto simp: Run_tail_def Thread_delete_def RestoreUserState_def RestoreState_def rbind_eq_Inr split: if_splits option.splits)

lemmas cv_basic = cv_set_level cv_ReadyToRun cv_Sleep cv_Run cv_Run_tail

lemma cv_Yield: "Yield s = Inr s' \<Longrightarrow> conditions s' = conditions s"
  by (auto simp: Yield_def SetLevel_off FindNextToRun_def rbind_eq_Inr split: list.splits dest!: cv_basic)

lemma cv_Finish: "Finish s = Inr s' \<Longrightarrow> conditions s' = conditions s"
  by (auto simp: Finish_def rbind_eq_Inr dest!: cv_basic)

lemma cv_P_loop: "P_loop i old s = Inr s' \<Longrightarrow> conditions s' = conditions s"
  by (auto simp: P_loop_def Let_def split: if_splits dest!: cv_basic)

lemma cv_P: "P i s = Inr s' \<Longrightarrow> conditions s' = conditions s"
  by (auto simp: P_def SetLevel_off dest: cv_P_loop)

lemma cv_V: "V i s = Inr s' \<Longrightarrow> conditions s' = conditions s"
  by (auto simp: V_def SetLevel_off Let_def rbind_eq_Inr split: list.splits dest!: cv_basic)

lemma cv_Acquire: "Acquire l s = Inr s' \<Longrightarrow> conditions s' = conditions s"
  by (auto simp: Acquire_def SetLevel_off Let_def split: if_splits dest!: cv_basic)

lemma Release_kept: "Release l s = Inr s' \<Longrightarrow> currentThread s' = currentThread s \<and> conditions s' = conditions s"
  by (auto simp: Release_def SetLevel_off Let_def ReadyToRun_def rbind_eq_Inr set_level_def SetLevel_def OneTick_def
      split: if_splits list.splits)

lemma cv_Fork: "Fork t p s = Inr s' \<Longrightarrow> conditions s' = conditions s"
  by (auto simp: Fork_def SetLevel_off Let_def rbind_eq_Inr dest!: cv_basic)

lemma cv_new_Thread: "new_Thread t s = Inr s' \<Longrightarrow> conditions s' = conditions s"
  by (auto simp: new_Thread_def split: if_splits)

lemma cv_fire: "fire rnd h s = Inr s' \<Longrightarrow> conditions s' = conditions s"
  by (cases h) (auto simp: TimerExpired_def Schedule_def Let_def rbind_eq_Inr TimerInterruptHandler_def YieldOnReturn_def split: if_splits dest: cv_V)

lemma cv_CheckIfDue: "CheckIfDue (fire rnd) adv s = Inr (b, s') \<Longrightarrow> conditions s' = conditions s"
  by (auto simp: CheckIfDue_def Let_def rbind_eq_Inr delayed_load_def split: list.splits if_splits option.splits dest!: cv_fire)

lemma cv_sleep_loop: "sleep_loop (fire rnd) s = Inr s' \<Longrightarrow> conditions s' = conditions s"
  by (auto simp: sleep_loop_def FindNextToRun_def Idle_def rbind_eq_Inr split: list.splits if_splits dest!: cv_Run cv_CheckIfDue)

text \<open>\<open>signalled c l x\<close>: what \<open>Signal\<close> with lock \<open>l\<close> makes of condition \<open>x\<close>; \<open>waited\<close>: what \<open>Wait\<close> of thread \<open>t\<close> makes of it.\<close>

definition signalled :: "nat \<Rightarrow> Condition \<Rightarrow> Condition" where
  "signalled l x = (case waitingCV x of [] \<Rightarrow> x | t # ts \<Rightarrow> if waitingLock x \<noteq> Some l then x
     else x\<lparr>waitingCV := ts, waitingLock := (if ts = [] then None else waitingLock x)\<rparr>)"

definition waited :: "tid \<Rightarrow> nat \<Rightarrow> Condition \<Rightarrow> Condition" where
  "waited t l x = (if waitingLock x = None \<or> waitingLock x = Some l then x\<lparr>waitingLock := Some l, waitingCV := waitingCV x @ [t]\<rparr> else x)"

lemma cv_Signal: "Signal c (Some l) s = Inr s' \<Longrightarrow> conditions s' = (conditions s)(c := signalled l (conditions s c))"
  by (auto simp: Signal_def SetLevel_off Let_def rbind_eq_Inr signalled_def split: list.splits if_splits dest!: cv_basic)

lemma cv_Wait: "Wait c (Some l) s = Inr s' \<Longrightarrow> conditions s' = (conditions s)(c := waited (currentThread s) l (conditions s c))"
  by (auto simp: Wait_def SetLevel_off Let_def rbind_eq_Inr waited_def fun_upd_idem_iff split: if_splits dest!: cv_basic Release_kept)

section \<open>The view\<close>

definition holders :: "('h, 'c, 'z) kernel_scheme \<Rightarrow> nat \<Rightarrow> tid set" where
  "holders s l = set_option (owner (locks s l)) \<union> set (waitingThreads (locks s l))"

type_synonym pview = "(tid \<Rightarrow> call list frame list) \<times> (nat \<Rightarrow> int) \<times> (nat \<Rightarrow> Condition) \<times> (nat \<Rightarrow> tid set)"

definition pview :: "('h, call list, 'z) kernel_scheme \<Rightarrow> pview" where
  "pview s = (cores s, sem_values s, conditions s, holders s)"

text \<open>What a call does, made by thread \<open>u\<close> with the frames \<open>fs\<close> left to run after it.\<close>

inductive call_effect :: "tid \<Rightarrow> call \<Rightarrow> pview \<Rightarrow> pview \<Rightarrow> bool" where
  P_passes: "sv i \<noteq> 0 \<Longrightarrow> call_effect u (C_P i) (K, sv, cd, H) (K, sv(i := sv i - 1), cd, H)"
| P_blocks: "sv i = 0 \<Longrightarrow> call_effect u (C_P i) (K, sv, cd, H) (K(u := F_P i old # K u), sv, cd, H)"
| V: "call_effect u (C_V i) (K, sv, cd, H) (K, sv(i := sv i + 1), cd, H)"
| Acquire: "\<forall>m. H' m \<subseteq> (if m = l then insert u (H m) else H m) \<Longrightarrow> call_effect u (C_Acquire l) (K, sv, cd, H) (K, sv, cd, H')"
| Release: "\<forall>m. H' m \<subseteq> H m \<Longrightarrow> call_effect u (C_Release l) (K, sv, cd, H) (K, sv, cd, H')"
| Wait_sleeps: "waitingLock (cd c) = None \<or> waitingLock (cd c) = Some l \<Longrightarrow> \<forall>m. H' m \<subseteq> H m
    \<Longrightarrow> call_effect u (C_Wait c l) (K, sv, cd, H)
          (K(u := F_Acquire l # K u), sv, cd(c := (cd c)\<lparr>waitingLock := Some l, waitingCV := waitingCV (cd c) @ [u]\<rparr>), H')"
| Wait_returns: "waitingLock (cd c) = Some m \<Longrightarrow> m \<noteq> l \<Longrightarrow> call_effect u (C_Wait c l) (K, sv, cd, H) (K, sv, cd, H)"
| Signal: "call_effect u (C_Signal c l) (K, sv, cd, H) (K, sv, cd(c := signalled l (cd c)), H)"
| Broadcast_none: "waitingCV (cd c) = [] \<Longrightarrow> call_effect u (C_Broadcast c l) (K, sv, cd, H) (K, sv, cd, H)"
| Broadcast: "call_effect u (C_Broadcast c l) (K, sv, cd, H) (K(u := F_Broadcast c l # K u), sv, cd(c := signalled l (cd c)), H)"
| Yield: "call_effect u C_Yield (K, sv, cd, H) (K, sv, cd, H)"
| Fork: "t \<noteq> u \<Longrightarrow> call_effect u (C_Fork t p) (K, sv, cd, H) (K(t := [F_Code p]), sv, cd, H)"

text \<open>The frames of the kernel that call again are calls themselves.\<close>

fun call_of :: "call list frame \<Rightarrow> call option" where
  "call_of (F_P i old) = Some (C_P i)"
| "call_of (F_Acquire l) = Some (C_Acquire l)"
| "call_of (F_Release l) = Some (C_Release l)"
| "call_of (F_Broadcast c l) = Some (C_Broadcast c l)"
| "call_of _ = None"

inductive prog_move :: "pview \<Rightarrow> pview \<Rightarrow> bool" where
  ended: "K u = F_Code [] # fs \<Longrightarrow> \<forall>c. u \<notin> set (waitingCV (cd c)) \<Longrightarrow> prog_move (K, sv, cd, H) (K(u := fs), sv, cd, H)"
| called: "K u = F_Code (c # cs) # fs \<Longrightarrow> \<forall>c. u \<notin> set (waitingCV (cd c))
    \<Longrightarrow> call_effect u c (K(u := F_Code cs # fs), sv, cd, H) y \<Longrightarrow> prog_move (K, sv, cd, H) y"
| resumed: "K u = f # fs \<Longrightarrow> call_of f = Some c \<Longrightarrow> \<forall>c. u \<notin> set (waitingCV (cd c))
    \<Longrightarrow> call_effect u c (K(u := fs), sv, cd, H) y \<Longrightarrow> prog_move (K, sv, cd, H) y"

section \<open>Calls\<close>

lemma pview_kview: "kview s' = kview s \<Longrightarrow> conditions s' = conditions s \<Longrightarrow> pview s' = pview s"
  by (simp add: kview_def pview_def holders_def fun_eq_iff)

lemma effect_P_loop:
  assumes "P_loop i old s = Inr s'"
  shows "call_effect (currentThread s) (C_P i) (pview s) (pview s')"
proof (cases "sem_values s i = 0")
  case True
  with kv_P_loop [OF assms] have "kview s' = kview (push [F_P i old] s)" by simp
  then have "pview s' = ((cores s)(currentThread s := F_P i old # cores s (currentThread s)), sem_values s, conditions s, holders s)"
    using cv_P_loop [OF assms] by (simp add: kview_def pview_def holders_def fun_eq_iff cores_push)
  with True show ?thesis by (simp add: pview_def call_effect.P_blocks)
next
  case False
  with kv_P_loop [OF assms] have "kview s' = kview (set_sem i ((semaphores s i)\<lparr>sem_value := sem_values s i - 1\<rparr>) s)" by simp
  then have "pview s' = (cores s, (sem_values s)(i := sem_values s i - 1), conditions s, holders s)"
    using cv_P_loop [OF assms] by (simp add: kview_def pview_def holders_def fun_eq_iff)
  with False show ?thesis by (simp add: pview_def call_effect.P_passes)
qed

lemmas lk_basic = kview_eqD(2) [OF kv_set_level] kview_eqD(2) [OF kv_ReadyToRun] kview_eqD(2) [OF kv_Sleep]

lemma holders_Acquire:
  assumes "Acquire l s = Inr s'"
  shows "holders s' m \<subseteq> (if m = l then insert (currentThread s) (holders s m) else holders s m)"
  using assms by (auto simp: Acquire_def SetLevel_off Let_def holders_def split: if_splits dest!: lk_basic)

lemma holders_Release: "Release l s = Inr s' \<Longrightarrow> holders s' m \<subseteq> holders s m"
  by (auto simp: Release_def SetLevel_off Let_def holders_def split: if_splits list.splits dest!: lk_basic)

lemma holders_locks: "locks s' = locks s \<Longrightarrow> holders s' = holders s"
  by (simp add: holders_def fun_eq_iff)

lemma effect_Acquire: "Acquire l s = Inr s' \<Longrightarrow> call_effect (currentThread s) (C_Acquire l) (pview s) (pview s')"
  unfolding pview_def by (simp only: only_lock_D(1,2) [OF kv_Acquire] cv_Acquire) (intro call_effect.Acquire allI holders_Acquire)

lemma effect_Release: "Release l s = Inr s' \<Longrightarrow> call_effect (currentThread s) (C_Release l) (pview s) (pview s')"
  unfolding pview_def by (simp only: only_lock_D(1,2) [OF kv_Release] Release_kept [THEN conjunct2]) (intro call_effect.Release allI holders_Release)

lemma holders_Wait: "Wait c (Some l) s = Inr s' \<Longrightarrow> holders s' m \<subseteq> holders s m"
  by (auto simp: Wait_def SetLevel_off Let_def rbind_eq_Inr holders_def split: if_splits dest!: lk_basic holders_Release [of _ _ _ m])

lemma Wait_sleeps_cores:
  assumes "Wait c (Some l) s = Inr s'" "waitingLock (conditions s c) = None \<or> waitingLock (conditions s c) = Some l"
  shows "cores s' = (cores s)(currentThread s := F_Acquire l # cores s (currentThread s)) \<and> sem_values s' = sem_values s"
proof -
  let ?s = "set_cond c ((conditions s c)\<lparr>waitingLock := Some l\<rparr>) (s\<lparr>level := IntOff\<rparr>)"
  have x: "waitingLock y = Some l \<Longrightarrow> y\<lparr>waitingLock := Some l\<rparr> = y" for y :: Condition by simp
  obtain s1 where r: "Release l ?s = Inr s1"
    and "Sleep (push [F_Acquire l, F_SetLevel (level s)]
         (set_cond c ((conditions s1 c)\<lparr>waitingCV := waitingCV (conditions s1 c) @ [currentThread s1]\<rparr>) s1)) = Inr s'"
    using assms by (cases "waitingLock (conditions s c) = None") (auto simp: Wait_def SetLevel_off Let_def rbind_eq_Inr x)
  from kview_eqD(1,3) [OF kv_Sleep [OF this(2)]] only_lock_D(1,2) [OF kv_Release [OF r]] Release_kept [OF r]
  show ?thesis by (simp add: cores_push)
qed

lemma effect_Wait: "Wait c (Some l) s = Inr s' \<Longrightarrow> call_effect (currentThread s) (C_Wait c l) (pview s) (pview s')"
proof -
  assume w: "Wait c (Some l) s = Inr s'"
  show ?thesis
  proof (cases "waitingLock (conditions s c) = None \<or> waitingLock (conditions s c) = Some l")
    case True
    with Wait_sleeps_cores [OF w True] cv_Wait [OF w] holders_Wait [OF w] show ?thesis
      by (simp add: pview_def waited_def call_effect.Wait_sleeps)
  next
    case False
    then obtain m where m: "waitingLock (conditions s c) = Some m" "m \<noteq> l" by auto
    then have "set_level (level s) (set_cond c (conditions s c) (s\<lparr>level := IntOff\<rparr>)) = Inr s'"
      using w by (simp add: Wait_def SetLevel_off Let_def)
    from kv_set_level [OF this] have "kview s' = kview s" by simp
    moreover have "conditions s' = conditions s" using cv_Wait [OF w] m by (simp add: waited_def)
    ultimately have "pview s' = pview s" by (rule pview_kview)
    then show ?thesis using m by (simp add: pview_def call_effect.Wait_returns)
  qed
qed

lemma effect_Signal: "Signal c (Some l) s = Inr s' \<Longrightarrow> call_effect (currentThread s) (C_Signal c l) (pview s) (pview s')"
proof -
  assume w: "Signal c (Some l) s = Inr s'"
  from kview_eqD [OF kv_Signal [OF w]] cv_Signal [OF w] holders_locks [of s' s] show ?thesis
    by (simp add: pview_def call_effect.Signal)
qed

lemma effect_Broadcast: "Broadcast c l s = Inr s' \<Longrightarrow> call_effect (currentThread s) (C_Broadcast c l) (pview s) (pview s')"
proof (cases "waitingCV (conditions s c) = []")
  case False
  assume "Broadcast c l s = Inr s'"
  with False have w: "Signal c (Some l) (push [F_Broadcast c l] s) = Inr s'" by (simp add: Broadcast_def)
  from kview_eqD [OF kv_Signal [OF w]] cv_Signal [OF w] holders_locks [of s' s] show ?thesis
    by (simp add: pview_def cores_push call_effect.Broadcast)
qed (simp add: Broadcast_def pview_def call_effect.Broadcast_none)

lemma effect_Fork:
  assumes "new_Thread t s = Inr s1" "Fork t p s1 = Inr s'" "live s (currentThread s)"
  shows "call_effect (currentThread s) (C_Fork t p) (pview s) (pview s')"
proof -
  have s1: "s1 = set_thread t (Thread_new (\<lambda>_. 0) 0 0) (s\<lparr>live := (live s)(t := True)\<rparr>)" "\<not> live s t"
    using assms(1) by (auto simp: new_Thread_def split: if_splits)
  let ?s2 = "(set_thread t (StackAllocate p (threads s1 t)) s1)\<lparr>level := IntOff\<rparr>"
  obtain s3 where "ReadyToRun t ?s2 = Inr s3" "set_level (level s1) s3 = Inr s'"
    using assms(2) by (auto simp: Fork_def Let_def SetLevel_off rbind_eq_Inr set_thread_def)
  then have v: "kview s' = kview ?s2" by (simp add: kv_set_level kv_ReadyToRun)
  have "cores ?s2 = (cores s)(t := [F_Code p])"
    by (simp add: s1(1) cores_def fun_eq_iff set_thread_def StackAllocate_def)
  moreover have "conditions s' = conditions s" using cv_Fork [OF assms(2)] cv_new_Thread [OF assms(1)] by simp
  ultimately have "pview s' = ((cores s)(t := [F_Code p]), sem_values s, conditions s, holders s)"
    using kview_eqD [OF v] by (simp add: pview_def holders_def s1(1) fun_eq_iff)
  moreover have "t \<noteq> currentThread s" using s1(2) assms(3) by auto
  ultimately show ?thesis by (simp add: pview_def call_effect.Fork)
qed

lemma effect_call:
  assumes "do_call c s = Inr s'" "live s (currentThread s)"
  shows "call_effect (currentThread s) c (pview s) (pview s')"
proof (cases c)
  case (C_P i)
  let ?s = "s\<lparr>level := IntOff\<rparr>"
  have "P_loop i (level s) ?s = Inr s'" using assms(1) C_P by (simp add: P_def SetLevel_off)
  from effect_P_loop [OF this] have "call_effect (currentThread s) (C_P i) (pview ?s) (pview s')" by simp
  moreover have "pview ?s = pview s" by (simp add: pview_def holders_def fun_eq_iff)
  ultimately show ?thesis using C_P by simp
next
  case (C_V i)
  with assms(1) have v: "V i s = Inr s'" by simp
  from kview_eqD [OF kv_V [OF v]] cv_V [OF v] holders_locks [of s' s] show ?thesis using C_V
    by (simp add: pview_def call_effect.V)
next
  case C_Yield
  with assms(1) have y: "Yield s = Inr s'" by simp
  from pview_kview [OF kv_Yield [OF y] cv_Yield [OF y]] show ?thesis using C_Yield by (simp add: pview_def call_effect.Yield)
next
  case (C_Fork t p)
  with assms effect_Fork show ?thesis by (auto simp: rbind_eq_Inr)
qed (use assms in \<open>simp_all add: effect_Acquire effect_Release effect_Wait effect_Signal effect_Broadcast\<close>)

section \<open>Steps\<close>

text \<open>No interrupt but the timer is pending.\<close>

definition timer_only :: "(handler, 'c, 'z) kernel_scheme \<Rightarrow> bool" where
  "timer_only s \<longleftrightarrow> (\<forall>i. dones s (SignalHandler i) = 0)"

text \<open>Frames that are not code and do not call again leave the conditions alone.\<close>

lemma step_conditions:
  assumes "kernel_step (fire rnd) program s = Inr s'" "t_frames (cur s) = f # fs" "\<not> core f"
  shows "conditions s' = conditions s"
proof -
  have run: "run_frame (fire rnd) program f (pop s) = Inr s'" using assms(1,2) by (simp add: kernel_step_def pop_def)
  have "conditions (pop s) = conditions s" by (simp add: pop_def)
  moreover have "conditions s' = conditions (pop s)"
    using run assms(3)
    by (cases f) (auto simp: rbind_eq_Inr Let_def split: if_splits dest!: cv_basic cv_Finish cv_Yield cv_sleep_loop cv_CheckIfDue)
  ultimately show ?thesis by simp
qed

lemma running_not_waiting:
  assumes "calls_ok s"
  shows "currentThread s \<notin> set (waitingCV (conditions s c))"
proof
  assume "currentThread s \<in> set (waitingCV (conditions s c))"
  then have q: "currentThread s \<in> set (queue s (QCond c))" by simp
  have "sched_inv s" "t_status (threads s (currentThread s)) = RUNNING" using assms by (simp_all add: calls_ok_def cur_def)
  with sched_inv_D(4) [OF _ q] show False by simp
qed

lemma popped_coreI:
  assumes "t_frames (cur s) = f # fs" "core f"
  shows "popped_core f s (pop s)"
  using cores_popped [OF assms(1)] assms by (auto simp: popped_core_def fun_eq_iff pop_def)

lemma kview_dones: "kview s' = kview s \<Longrightarrow> dones s' = dones s"
  by (rule kview_eqD)

lemma dones_new_Thread: "new_Thread t s = Inr s' \<Longrightarrow> dones s' = dones s"
  by (auto simp: new_Thread_def split: if_splits)

lemma dones_Fork: "Fork t p s = Inr s' \<Longrightarrow> dones s' = dones s"
  by (auto simp: Fork_def SetLevel_off Let_def rbind_eq_Inr dest!: kview_dones [OF kv_set_level] kview_dones [OF kv_ReadyToRun])

lemma dones_P_loop: "P_loop i old s = Inr s' \<Longrightarrow> dones s' = dones s"
  using kv_P_loop [of i old s s'] by (auto split: if_splits dest!: kview_dones)

lemma dones_Wait: "Wait c (Some l) s = Inr s' \<Longrightarrow> dones s' = dones s"
  using kv_Wait [of c l s s'] by (auto dest!: kview_dones only_lock_D(3))

lemma dones_call: "do_call c s = Inr s' \<Longrightarrow> dones s' = dones s"
proof (cases c)
  case (C_P i)
  then show "do_call c s = Inr s' \<Longrightarrow> dones s' = dones s" using dones_P_loop [of i "level s" "s\<lparr>level := IntOff\<rparr>" s']
    by (simp add: P_def SetLevel_off)
next
  case (C_Fork t p)
  then show "do_call c s = Inr s' \<Longrightarrow> dones s' = dones s"
    by (auto simp: rbind_eq_Inr dest!: dones_new_Thread dones_Fork)
qed (auto simp: Broadcast_def kview_dones [OF kv_V] kview_dones [OF kv_Signal] kview_dones [OF kv_Yield] only_lock_D(3) [OF kv_Acquire]
    only_lock_D(3) [OF kv_Release] dones_Wait split: if_splits)

lemma pview_push:
  "pview (push fs s) = ((cores s)(currentThread s := filter core fs @ cores s (currentThread s)), sem_values s, conditions s, holders s)"
  using holders_locks [of "push fs s" s] by (simp add: pview_def cores_push)

text \<open>A frame of the kernel that calls again has the effect of the call.\<close>

lemma resumed_effect:
  assumes "call_of f = Some c" "run_frame (fire rnd) program f s = Inr s'"
  shows "call_effect (currentThread s) c (pview s) (pview s') \<and> dones s' = dones s"
proof (cases f)
  case (F_P i old)
  with assms show ?thesis using effect_P_loop dones_P_loop by auto
next
  case (F_Acquire l)
  with assms show ?thesis using effect_Acquire only_lock_D(3) [OF kv_Acquire] by auto
next
  case (F_Release l)
  with assms show ?thesis using effect_Release only_lock_D(3) [OF kv_Release] by auto
next
  case (F_Broadcast d l)
  with assms show ?thesis using effect_Broadcast dones_call [of "C_Broadcast d l" s s'] by auto
qed (use assms in simp_all)

text \<open>The frame of the program or of the kernel that runs is a move.\<close>

lemma call_move:
  assumes "kernel_inv s" "t_frames (cur s) = f # fs" "core f" "run_frame (fire rnd) program f (pop s) = Inr s'"
  shows "prog_move (pview s) (pview s') \<and> dones s' = dones s"
proof -
  let ?u = "currentThread s"
  have ok: "calls_ok (pop s)" using pop_calls_ok [OF assms(1-3)] .
  note pc = popped_coreI [OF assms(2,3)]
  have u: "currentThread (pop s) = ?u" and d: "dones (pop s) = dones s" using pc by (simp_all add: popped_core_def)
  have live: "live (pop s) ?u" using ok sched_inv_D(1) [of "pop s"] u by (simp add: calls_ok_def)
  have c0: "conditions (pop s) = conditions s" by (simp add: pop_def)
  have free: "\<forall>c. ?u \<notin> set (waitingCV (conditions s c))" using running_not_waiting [OF ok] u c0 by simp
  have k: "cores s ?u = f # cores (pop s) ?u" using pc by (simp add: popped_core_def)
  have v: "pview (pop s) = ((cores s)(?u := cores (pop s) ?u), sem_values s, conditions s, holders s)"
    using pc c0 holders_locks [of "pop s" s] by (simp add: pview_def popped_core_def fun_upd_idem)
  have again: ?thesis if "call_of f = Some c" for c
  proof -
    from resumed_effect [OF that assms(4)] have e: "call_effect ?u c (pview (pop s)) (pview s')" "dones s' = dones (pop s)" using u by simp_all
    have "prog_move (pview s) (pview s')"
      using e(1) unfolding v pview_def [of s] by (rule prog_move.resumed [of "cores s" ?u f "cores (pop s) ?u", OF k that free])
    with e(2) d show ?thesis by simp
  qed
  show ?thesis
  proof (cases f)
    case (F_Code cs)
    show ?thesis
    proof (cases cs)
      case Nil
      with F_Code assms(4) have "s' = pop s" by simp
      with v d prog_move.ended [of "cores s" ?u "cores (pop s) ?u" "conditions s" "sem_values s" "holders s"] free k F_Code Nil
      show ?thesis by (simp add: pview_def [of s])
    next
      case (Cons c cs')
      let ?s = "push [F_Code cs'] (pop s)"
      have r: "do_call c ?s = Inr s'" using F_Code Cons assms(4) by simp
      have "pview ?s = ((cores s)(?u := F_Code cs' # cores (pop s) ?u), sem_values s, conditions s, holders s)"
        using v u fun_upd_upd [of "cores s" ?u "cores (pop s) ?u" "F_Code cs' # cores (pop s) ?u"]
        by (auto simp: pview_push pview_def [of "pop s"] simp del: fun_upd_upd)
      moreover have "call_effect ?u c (pview ?s) (pview s')" using effect_call [OF r] live u by simp
      ultimately have e: "call_effect ?u c ((cores s)(?u := F_Code cs' # cores (pop s) ?u), sem_values s, conditions s, holders s) (pview s')"
        by simp
      have "cores s ?u = F_Code (c # cs') # cores (pop s) ?u" using k F_Code Cons by simp
      from prog_move.called [of "cores s" ?u c cs' "cores (pop s) ?u", OF this free e]
      have "prog_move (pview s) (pview s')" unfolding pview_def [of s] .
      with dones_call [OF r] d show ?thesis by simp
    qed
  qed (use assms(3) again in simp_all)
qed

lemma fired_timer:
  assumes "taken h s s1" "fire rnd h s1 = Inr s2" "timer_only s"
  shows "cores s2 = cores s \<and> locks s2 = locks s \<and> sem_values s2 = sem_values s \<and> timer_only s2"
proof (cases h)
  case (TimerHandler r)
  with assms(2) have "cores s2 = cores s1 \<and> locks s2 = locks s1 \<and> sem_values s2 = sem_values s1
      \<and> (\<forall>i. dones s2 (SignalHandler i) = dones s1 (SignalHandler i))"
    by (auto simp: TimerExpired_def Schedule_def Let_def rbind_eq_Inr TimerInterruptHandler_def YieldOnReturn_def dones_pending split: if_splits)
  then show ?thesis using assms(1,3) TimerHandler by (auto simp: taken_def timer_only_def)
next
  case (SignalHandler i)
  with assms(1) have "dones s (SignalHandler i) \<noteq> 0" by (simp add: taken_def)
  with assms(3) show ?thesis by (simp add: timer_only_def)
qed

lemma step_prog_move:
  assumes "kernel_step (fire rnd) program s = Inr s'" "kernel_inv s" "timer_only s"
  shows "(pview s' = pview s \<or> prog_move (pview s) (pview s')) \<and> timer_only s'"
proof -
  obtain f fs where t: "t_frames (cur s) = f # fs" using assms(1) by (auto simp: kernel_step_def split: list.splits)
  show ?thesis
  proof (cases "core f")
    case True
    have "run_frame (fire rnd) program f (pop s) = Inr s'" using assms(1) t by (simp add: kernel_step_def pop_def)
    from call_move [OF assms(2) t True this] assms(3) show ?thesis by (simp add: timer_only_def)
  next
    case False
    have c: "conditions s' = conditions s" using step_conditions [OF assms(1) t False] .
    from assms(1) show ?thesis
    proof (cases rule: step_view)
      case quiet
      with pview_kview [OF quiet c] assms(3) kview_dones [OF quiet] show ?thesis by (simp add: timer_only_def)
    next
      case (fired h s1 s2)
      with fired_timer [OF fired(1,2) assms(3)] c kview_eqD [OF fired(3)] holders_locks [of s' s]
      show ?thesis by (simp add: pview_def timer_only_def)
    next
      case (core f' fs')
      with t False show ?thesis by (simp add: popped_core_def)
    qed
  qed
qed

end
