(* ===== verification/Program_Scripts.thy ===== *)
theory Program_Scripts
  imports Program_Moves "HOL-Library.Sublist"
begin

text \<open>
  Programs that are started by forks from one main program, each thread running its own script once. The locale \<open>scripts\<close> has what
  holds of all of them, under every scheduling: where in its script a thread can be, who can hold a lock, and which lock the
  threads that wait on a condition gave up.
\<close>

section \<open>Where a thread is\<close>

text \<open>The frames that a call of the script leaves.\<close>

fun from_call :: "call \<Rightarrow> call list frame \<Rightarrow> bool" where
  "from_call (C_P i) (F_P j old) \<longleftrightarrow> i = j"
| "from_call (C_Wait c l) (F_Acquire m) \<longleftrightarrow> l = m"
| "from_call (C_Broadcast c l) (F_Broadcast d m) \<longleftrightarrow> c = d \<and> l = m"
| "from_call _ _ \<longleftrightarrow> False"

definition at :: "call list \<Rightarrow> call list frame list \<Rightarrow> bool" where
  "at p fs \<longleftrightarrow> fs = [] \<or> (\<exists>cs. fs = [F_Code cs] \<and> suffix cs p) \<or> (\<exists>f c cs. fs = [f, F_Code cs] \<and> from_call c f \<and> suffix (c # cs) p)"

text \<open>The calls a thread has still to make, and the threads its program has still to fork.\<close>

definition ahead :: "call list frame list \<Rightarrow> call set" where
  "ahead fs = (\<Union>cs \<in> set (concat (map code_of fs)). set cs)"

fun forked_by :: "call \<Rightarrow> tid list" where
  "forked_by (C_Fork t p) = [t]"
| "forked_by _ = []"

definition to_fork :: "call list frame list \<Rightarrow> tid set" where
  "to_fork fs = (\<Union>c \<in> ahead fs. set (forked_by c))"

lemma ahead_simps [simp]: "ahead [] = {}" "ahead (F_Code cs # fs) = set cs \<union> ahead fs" "call_of f = Some c \<Longrightarrow> ahead (f # fs) = ahead fs"
  by (auto simp: ahead_def elim: call_of.elims)

lemma from_call_call_of: "from_call c f \<Longrightarrow> \<exists>c'. call_of f = Some c' \<and> (c' = c \<or> (\<exists>d l. c = C_Wait d l \<and> c' = C_Acquire l))"
  by (induction c f rule: from_call.induct) auto

lemma suffix_tail: "suffix (c # cs) p \<Longrightarrow> suffix cs p"
  by (auto simp: suffix_def)

lemma suffix_in: "suffix (c # cs) p \<Longrightarrow> c \<in> set p"
  by (auto simp: suffix_def)

lemma atI [intro]: "at p []" "suffix cs p \<Longrightarrow> at p [F_Code cs]" "from_call c f \<Longrightarrow> suffix (c # cs) p \<Longrightarrow> at p [f, F_Code cs]"
  by (auto simp: at_def)

lemma at_suffix: "at p fs \<Longrightarrow> \<exists>cs. suffix cs p \<and> ahead fs = set cs"
proof -
  have "suffix [] p" by simp
  then show "at p fs \<Longrightarrow> \<exists>cs. suffix cs p \<and> ahead fs = set cs"
    by (auto simp: at_def dest!: from_call_call_of suffix_tail)
qed

lemma at_ahead: "at p fs \<Longrightarrow> ahead fs \<subseteq> set p"
  using at_suffix set_mono_suffix by blast

section \<open>The invariant\<close>

definition waits_at :: "nat \<Rightarrow> call list \<Rightarrow> call list frame list \<Rightarrow> bool" where
  "waits_at c p fs \<longleftrightarrow> (\<exists>l cs. fs = [F_Acquire l, F_Code cs] \<and> suffix (C_Wait c l # cs) p)"

definition asks :: "(tid \<Rightarrow> call list) \<Rightarrow> nat \<Rightarrow> tid set" where
  "asks sc l = {u. C_Acquire l \<in> set (sc u) \<or> (\<exists>c. C_Wait c l \<in> set (sc u))}"

definition cond_ok :: "(tid \<Rightarrow> call list) \<Rightarrow> nat \<Rightarrow> Condition \<Rightarrow> bool" where
  "cond_ok sc c x \<longleftrightarrow> (\<forall>l. waitingLock x = Some l \<longrightarrow> (\<exists>u. C_Wait c l \<in> set (sc u))) \<and> (waitingCV x \<noteq> [] \<longrightarrow> waitingLock x \<noteq> None)
     \<and> distinct (waitingCV x)"

fun script_inv :: "(tid \<Rightarrow> call list) \<Rightarrow> pview \<Rightarrow> bool" where
  "script_inv sc (K, sv, cd, H) \<longleftrightarrow> (\<forall>u. at (sc u) (K u)) \<and> (\<forall>u \<in> to_fork (K 0). K u = [])
     \<and> (\<forall>l. H l \<subseteq> asks sc l) \<and> (\<forall>c. cond_ok sc c (cd c)) \<and> (\<forall>c. \<forall>u \<in> set (waitingCV (cd c)). waits_at c (sc u) (K u))"

text \<open>Thread \<open>t\<close> is not past its wait on condition \<open>c\<close> with lock \<open>l\<close>: not yet forked, or before the call, or in the queue.\<close>

fun stays :: "nat \<Rightarrow> nat \<Rightarrow> tid \<Rightarrow> pview \<Rightarrow> bool" where
  "stays c l t (K, sv, cd, H) \<longleftrightarrow> t \<in> to_fork (K 0) \<or> C_Wait c l \<in> ahead (K t) \<or> t \<in> set (waitingCV (cd c))"

text \<open>Thread \<open>u\<close> has not yet signalled condition \<open>c\<close>.\<close>

definition signal_to_come :: "nat \<Rightarrow> nat \<Rightarrow> tid \<Rightarrow> (tid \<Rightarrow> call list frame list) \<Rightarrow> bool" where
  "signal_to_come c l u K \<longleftrightarrow> u \<in> to_fork (K 0) \<or> C_Signal c l \<in> ahead (K u)"

text \<open>One move of thread \<open>u\<close>: call \<open>c\<close> of its script, or what it left to do, is made as the call \<open>c'\<close>.\<close>

definition makes :: "(tid \<Rightarrow> call list) \<Rightarrow> tid \<Rightarrow> call \<Rightarrow> call \<Rightarrow> call list \<Rightarrow> call list frame list \<Rightarrow> bool" where
  "makes sc u c c' cs fs \<longleftrightarrow> suffix (c # cs) (sc u)
     \<and> (fs = [F_Code (c # cs)] \<and> c' = c \<or> (\<exists>f. fs = [f, F_Code cs] \<and> from_call c f \<and> call_of f = Some c'))"

lemma makes_call: "makes sc u c c' cs fs \<Longrightarrow> c' = c \<or> (\<exists>d l. c = C_Wait d l \<and> c' = C_Acquire l)"
  by (auto simp: makes_def dest: from_call_call_of)

lemma makes_in: "makes sc u c c' cs fs \<Longrightarrow> c \<in> set (sc u)"
  by (auto simp: makes_def intro: suffix_in)

text \<open>What a call leaves alone.\<close>

lemma effect_frames:
  assumes "call_effect u c (K, sv, cd, H) (K', sv', cd', H')"
  shows "v \<noteq> u \<Longrightarrow> v \<notin> set (forked_by c) \<Longrightarrow> K' v = K v"
    "c = C_Fork t p \<Longrightarrow> K' = K(t := [F_Code p]) \<and> t \<noteq> u"
    "forked_by c = [] \<Longrightarrow> K' u = K u \<or> (\<exists>f. K' u = f # K u \<and> from_call c f)"
  using assms by (auto elim: call_effect.cases)

lemma effect_sems:
  assumes "call_effect u c (K, sv, cd, H) (K', sv', cd', H')" "c \<noteq> C_P i" "c \<noteq> C_V i"
  shows "sv' i = sv i"
  using assms by cases auto

lemma effect_P_zero:
  assumes "call_effect u (C_P i) (K, sv, cd, H) (K', sv', cd', H')" "sv i = 0"
  shows "sv' = sv \<and> (\<exists>old. K' = K(u := F_P i old # K u))"
  using assms by cases auto

lemma effect_conds:
  assumes "call_effect u c (K, sv, cd, H) (K', sv', cd', H')"
  obtains (slept) l where "c = C_Wait i l" "cd' i = (cd i)\<lparr>waitingLock := Some l, waitingCV := waitingCV (cd i) @ [u]\<rparr>" "K' u = F_Acquire l # K u"
  | (woken) l where "c = C_Signal i l \<or> c = C_Broadcast i l" "cd' i = signalled l (cd i)"
  | (same) "cd' i = cd i" "\<And>l. c = C_Wait i l \<Longrightarrow> waitingLock (cd i) \<noteq> None \<and> waitingLock (cd i) \<noteq> Some l" "\<And>l. c \<noteq> C_Signal i l"
proof -
  have "(\<exists>l. c = C_Wait i l \<and> cd' i = (cd i)\<lparr>waitingLock := Some l, waitingCV := waitingCV (cd i) @ [u]\<rparr> \<and> K' u = F_Acquire l # K u)
     \<or> (\<exists>l. (c = C_Signal i l \<or> c = C_Broadcast i l) \<and> cd' i = signalled l (cd i))
     \<or> cd' i = cd i \<and> (\<forall>l. c = C_Wait i l \<longrightarrow> waitingLock (cd i) \<noteq> None \<and> waitingLock (cd i) \<noteq> Some l) \<and> (\<forall>l. c \<noteq> C_Signal i l)"
    using assms by cases auto
  then show ?thesis using that by blast
qed

text \<open>Main forks every thread at most once.\<close>

locale scripts =
  fixes sc :: "tid \<Rightarrow> call list"
  assumes forks: "C_Fork t p \<in> set (sc u) \<Longrightarrow> u = 0 \<and> t \<noteq> 0 \<and> p = sc t"
    and forks_once: "distinct (concat (map forked_by (sc 0)))"
begin

lemma move_cases:
  assumes "prog_move (K, sv, cd, H) y" "script_inv sc (K, sv, cd, H)"
  obtains (ended) u where "K u = [F_Code []]" "y = (K(u := []), sv, cd, H)" "\<forall>c. u \<notin> set (waitingCV (cd c))"
  | (made) u c c' cs where "makes sc u c c' cs (K u)" "\<forall>c. u \<notin> set (waitingCV (cd c))"
      "call_effect u c' (K(u := [F_Code cs]), sv, cd, H) y"
proof -
  have at: "at (sc u) (K u)" for u using assms(2) by simp
  from assms(1) show ?thesis
  proof cases
    case (ended u fs)
    with at [of u] show ?thesis by (intro that(1) [of u]) (auto simp: at_def elim: from_call.elims)
  next
    case (called u c cs fs)
    with at [of u] show ?thesis by (intro that(2) [of u c c cs]) (auto simp: at_def makes_def elim: from_call.elims)
  next
    case (resumed u f fs c')
    with at [of u] obtain c cs where "fs = [F_Code cs]" "from_call c f" "suffix (c # cs) (sc u)"
      by (auto simp: at_def)
    with resumed show ?thesis by (intro that(2) [of u c c' cs]) (auto simp: makes_def)
  qed
qed

lemma made_self:
  assumes "makes sc u c c' cs (K u)" "call_effect u c' (K(u := [F_Code cs]), sv, cd, H) (K', sv', cd', H')"
  shows "K' u = [F_Code cs] \<or> (\<exists>f. K' u = [f, F_Code cs] \<and> from_call c f)"
proof (cases "forked_by c' = []")
  case True
  from effect_frames(3) [OF assms(2) this] makes_call [OF assms(1)] show ?thesis by (auto elim: from_call.elims)
next
  case False
  then obtain t p where "c' = C_Fork t p" by (cases c') auto
  from effect_frames(2) [OF assms(2) this] show ?thesis by simp
qed

lemma made_kept:
  assumes "makes sc u c c' cs (K u)" "call_effect u c' (K(u := [F_Code cs]), sv, cd, H) (K', sv', cd', H')"
  shows "at (sc u) (K' u)" "v \<noteq> u \<Longrightarrow> v \<notin> set (forked_by c) \<Longrightarrow> K' v = K v"
    "c = C_Fork t p \<Longrightarrow> u = 0 \<and> t \<noteq> 0 \<and> p = sc t \<and> K' t = [F_Code p]" "ahead (K' u) = set cs"
proof -
  note e = effect_frames [OF assms(2)]
  have c': "c' = c \<or> (\<exists>d l. c = C_Wait d l \<and> c' = C_Acquire l)" by (rule makes_call [OF assms(1)])
  have s: "suffix (c # cs) (sc u)" using assms(1) by (simp add: makes_def)
  show "v \<noteq> u \<Longrightarrow> v \<notin> set (forked_by c) \<Longrightarrow> K' v = K v" using e(1) [of v] c' by auto
  show "c = C_Fork t p \<Longrightarrow> u = 0 \<and> t \<noteq> 0 \<and> p = sc t \<and> K' t = [F_Code p]"
    using c' e(2) [of t p] forks [of t p u] makes_in [OF assms(1)] by auto
  show "at (sc u) (K' u)" "ahead (K' u) = set cs" using made_self [OF assms] s suffix_tail [OF s] by (auto dest: from_call_call_of)
qed

lemma at_kept:
  assumes "makes sc u c c' cs (K u)" "call_effect u c' (K(u := [F_Code cs]), sv, cd, H) (K', sv', cd', H')" "at (sc v) (K v)"
  shows "at (sc v) (K' v)"
proof (cases "v = u")
  case True
  then show ?thesis using made_kept(1) [OF assms(1,2)] by simp
next
  case False
  show ?thesis
  proof (cases "v \<in> set (forked_by c)")
    case True
    then obtain p where "c = C_Fork v p" by (cases c) auto
    from made_kept(3) [OF assms(1,2) this] show ?thesis by auto
  qed (use made_kept(2) [OF assms(1,2) False] assms(3) in simp)
qed

lemma fork_next:
  assumes "makes sc 0 (C_Fork t p) c' cs fs"
  shows "t \<in> to_fork fs" "t \<notin> to_fork [F_Code cs]"
proof -
  obtain xs where "sc 0 = xs @ C_Fork t p # cs" using assms by (auto simp: makes_def suffix_def)
  with forks_once show "t \<notin> to_fork [F_Code cs]" by (auto simp: to_fork_def)
  show "t \<in> to_fork fs" using assms by (auto simp: makes_def to_fork_def)
qed

lemma to_fork_0: "at (sc 0) fs \<Longrightarrow> 0 \<notin> to_fork fs"
proof
  assume a: "at (sc 0) fs" "0 \<in> to_fork fs"
  then obtain c where c: "c \<in> ahead fs" "0 \<in> set (forked_by c)" by (auto simp: to_fork_def)
  then obtain p where "c = C_Fork 0 p" by (cases c) auto
  moreover have "c \<in> set (sc 0)" using a(1) c(1) from_call_call_of by (fastforce simp: at_def suffix_def)
  ultimately show False using forks [of 0 p 0] by simp
qed

lemma to_fork_kept:
  assumes "makes sc u c c' cs (K u)" "call_effect u c' (K(u := [F_Code cs]), sv, cd, H) (K', sv', cd', H')"
    "\<forall>u. at (sc u) (K u)" "\<forall>u \<in> to_fork (K 0). K u = []" "v \<in> to_fork (K' 0)"
  shows "K' v = []"
proof -
  have ne: "K u \<noteq> []" using assms(1) by (auto simp: makes_def)
  then have u: "u \<notin> to_fork (K 0)" using assms(4) by auto
  have v0: "v \<noteq> 0" using to_fork_0 [OF at_kept [OF assms(1,2), of 0]] assms(3,5) by (intro notI) simp
  show ?thesis
  proof (cases "u = 0")
    case True
    have "to_fork (K' 0) = to_fork [F_Code cs]" using made_kept(4) [OF assms(1,2)] True by (simp add: to_fork_def)
    then have w: "v \<in> to_fork [F_Code cs]" using assms(5) by simp
    moreover have "v \<in> to_fork (K 0)" using w assms(1) True by (auto simp: makes_def to_fork_def dest: from_call_call_of)
    moreover have "v \<notin> set (forked_by c)"
    proof
      assume "v \<in> set (forked_by c)"
      then obtain p where "c = C_Fork v p" by (cases c) auto
      with fork_next(2) [of v p c' cs "K 0"] assms(1) True w show False by simp
    qed
    ultimately show ?thesis using made_kept(2) [OF assms(1,2), of v] v0 True assms(4) by simp
  next
    case False
    have "forked_by c = []" using made_kept(3) [OF assms(1,2)] False by (cases c) auto
    then have "K' 0 = K 0" "v \<noteq> u \<Longrightarrow> K' v = K v" using made_kept(2) [OF assms(1,2)] False by auto
    then show ?thesis using assms(4,5) u by auto
  qed
qed

lemma holders_kept:
  assumes "makes sc u c c' cs (K u)" "call_effect u c' (K(u := [F_Code cs]), sv, cd, H) (K', sv', cd', H')" "\<forall>l. H l \<subseteq> asks sc l"
  shows "H' l \<subseteq> asks sc l"
proof -
  have "H' l \<subseteq> H l \<or> c' = C_Acquire l \<and> H' l \<subseteq> insert u (H l)"
    using assms(2)
  proof cases
    case (Acquire m)
    then show ?thesis by (cases "l = m") (auto dest!: spec [of _ l])
  qed auto
  moreover have "c' = C_Acquire l \<Longrightarrow> u \<in> asks sc l" using makes_call [OF assms(1)] makes_in [OF assms(1)] by (auto simp: asks_def)
  ultimately show ?thesis using assms(3) by blast
qed

lemma signalled_ok: "cond_ok sc i x \<Longrightarrow> cond_ok sc i (signalled l x)" "set (waitingCV (signalled l x)) \<subseteq> set (waitingCV x)"
  by (auto simp: cond_ok_def signalled_def split: list.splits if_splits)

lemma conds_kept:
  assumes "makes sc u c c' cs (K u)" "call_effect u c' (K(u := [F_Code cs]), sv, cd, H) (K', sv', cd', H')"
    "cond_ok sc i (cd i)" "u \<notin> set (waitingCV (cd i))"
  shows "cond_ok sc i (cd' i)" "v \<in> set (waitingCV (cd' i)) \<Longrightarrow> v \<in> set (waitingCV (cd i)) \<or> v = u \<and> waits_at i (sc u) (K' u)"
proof -
  have "cond_ok sc i (cd' i) \<and> (v \<in> set (waitingCV (cd' i)) \<longrightarrow> v \<in> set (waitingCV (cd i)) \<or> v = u \<and> waits_at i (sc u) (K' u))"
    using assms(2)
  proof (cases rule: effect_conds [where i = i])
    case (slept l)
    with makes_call [OF assms(1)] makes_in [OF assms(1)] have c: "c = C_Wait i l" "C_Wait i l \<in> set (sc u)" by auto
    have "waits_at i (sc u) (K' u)" using slept(3) c(1) assms(1) by (auto simp: waits_at_def makes_def)
    with slept(2) c(2) assms(3,4) show ?thesis by (auto simp: cond_ok_def)
  next
    case (woken l)
    with signalled_ok(1) [OF assms(3), of l] signalled_ok(2) [of l "cd i"] show ?thesis by auto
  qed (use assms(3) in simp)
  then show "cond_ok sc i (cd' i)" "v \<in> set (waitingCV (cd' i)) \<Longrightarrow> v \<in> set (waitingCV (cd i)) \<or> v = u \<and> waits_at i (sc u) (K' u)" by simp_all
qed

lemma waits_kept:
  assumes "makes sc u c c' cs (K u)" "call_effect u c' (K(u := [F_Code cs]), sv, cd, H) (K', sv', cd', H')"
    "\<forall>u \<in> to_fork (K 0). K u = []" "waits_at i (sc v) (K v)" "v \<noteq> u"
  shows "waits_at i (sc v) (K' v)"
proof -
  have "v \<notin> set (forked_by c)"
  proof
    assume "v \<in> set (forked_by c)"
    then obtain p where c: "c = C_Fork v p" by (cases c) auto
    with made_kept(3) [OF assms(1,2)] have "u = 0" by simp
    with fork_next(1) [of v p c' cs "K 0"] assms(1,3) c have "K v = []" by simp
    with assms(4) show False by (simp add: waits_at_def)
  qed
  with made_kept(2) [OF assms(1,2) assms(5)] assms(4) show ?thesis by simp
qed

lemma script_move:
  assumes "prog_move (K, sv, cd, H) (K', sv', cd', H')" "script_inv sc (K, sv, cd, H)"
  shows "script_inv sc (K', sv', cd', H')"
  using assms
proof (cases rule: move_cases)
  case (ended u)
  have "to_fork (K' 0) \<subseteq> to_fork (K 0)" using ended(1,2) by (auto simp: to_fork_def)
  moreover have "u \<notin> to_fork (K 0)" using ended(1) assms(2) by auto
  ultimately show ?thesis using assms(2) ended by auto
next
  case (made u c c' cs)
  note m = made(1,3)
  have i: "\<forall>u. at (sc u) (K u)" "\<forall>u \<in> to_fork (K 0). K u = []" "\<forall>l. H l \<subseteq> asks sc l" "\<forall>c. cond_ok sc c (cd c)"
    "\<forall>c. \<forall>u \<in> set (waitingCV (cd c)). waits_at c (sc u) (K u)" using assms(2) by simp_all
  have "waits_at d (sc v) (K' v)" if v: "v \<in> set (waitingCV (cd' d))" for d v
  proof (cases "v = u")
    case True
    then show ?thesis using conds_kept(2) [OF m, of d v] i(4) made(2) v by auto
  next
    case False
    then show ?thesis using conds_kept(2) [OF m, of d v] i(4,5) made(2) v waits_kept [OF m i(2)] by auto
  qed
  then show ?thesis using i made(2) at_kept [OF m] to_fork_kept [OF m i(1,2)] holders_kept [OF m i(3)] conds_kept(1) [OF m]
    by simp
qed

lemma script_start:
  assumes "Initialize rnd r semInit (\<lambda>_. None) sp (sc 0) = Inr s0"
  shows "pview s0 = ((\<lambda>u. if u = 0 then [F_Code (sc 0)] else []), semInit, (\<lambda>_. Condition_new), (\<lambda>_. {}))" "timer_only s0" "script_inv sc (pview s0)"
proof -
  let ?s = "kernel_new semInit (\<lambda>_. None) sp (sc 0) :: (handler, call list) kernel"
  have v: "pview ?s = ((\<lambda>u. if u = 0 then [F_Code (sc 0)] else []), semInit, (\<lambda>_. Condition_new), (\<lambda>_. {}))"
    by (auto simp: pview_def kernel_new_def cores_def sem_values_def holders_def Lock_new_def Semaphore_new_def fun_eq_iff)
  have p: "pview (x\<lparr>pending := d\<rparr>) = pview x" for x :: "(handler, call list) kernel" and d
    by (simp add: pview_def holders_def fun_eq_iff)
  show s0: "pview s0 = ((\<lambda>u. if u = 0 then [F_Code (sc 0)] else []), semInit, (\<lambda>_. Condition_new), (\<lambda>_. {}))"
    using assms v by (auto simp: Initialize_def Schedule_def Let_def rbind_eq_Inr p split: if_splits)
  show "timer_only s0"
    using assms by (auto simp: Initialize_def Schedule_def Let_def rbind_eq_Inr timer_only_def dones_def kernel_new_def split: if_splits)
  show "script_inv sc (pview s0)" unfolding s0
    using to_fork_0 [of "[F_Code (sc 0)]"] by (auto simp: Condition_new_def cond_ok_def at_def intro!: gr0I)
qed

text \<open>What holds at the start and is kept by every move holds in every reachable state.\<close>

lemma reached:
  assumes "Initialize rnd r semInit (\<lambda>_. None) sp (sc 0) = Inr s0" "reachable (fire rnd) program s0 s" "I (pview s0)"
    "\<And>v y. prog_move v y \<Longrightarrow> script_inv sc v \<Longrightarrow> I v \<Longrightarrow> I y"
  shows "script_inv sc (pview s) \<and> I (pview s)"
proof -
  have "script_inv sc (pview s) \<and> I (pview s) \<and> timer_only s"
    using assms(2)
  proof (induction rule: reachable.induct)
    case start
    then show ?case using script_start [OF assms(1)] assms(3) by simp
  next
    case (step s s')
    have "kernel_inv s" using programs.reachable_inv [OF step(1)] Initialize_inv [OF assms(1)] .
    from step_prog_move [OF step(2) this] step.IH have m: "pview s' = pview s \<or> prog_move (pview s) (pview s')" "timer_only s'" by simp_all
    from m(1) show ?case
    proof
      assume mv: "prog_move (pview s) (pview s')"
      obtain K sv cd H K' sv' cd' H' where v: "pview s = (K, sv, cd, H)" "pview s' = (K', sv', cd', H')" by (simp add: pview_def)
      have "script_inv sc (pview s')" using script_move [of K sv cd H K' sv' cd' H'] mv step.IH v by simp
      with assms(4) [OF mv] step.IH m(2) show ?thesis by simp
    qed (use step.IH m(2) in simp)
  qed
  then show ?thesis by simp
qed

text \<open>A thread that is not past its \<open>Wait\<close> stays so until it is signalled, if all wait on the condition with the same lock.\<close>

lemma to_fork_made:
  assumes "makes sc u c c' cs (K u)" "call_effect u c' (K(u := [F_Code cs]), sv, cd, H) (K', sv', cd', H')" "t \<in> to_fork (K 0)"
  shows "t \<in> to_fork (K' 0) \<or> K' t = [F_Code (sc t)]"
proof (cases "u = 0")
  case True
  have "t \<in> to_fork [F_Code cs] \<or> t \<in> set (forked_by c)"
    using assms(1,3) True by (auto simp: makes_def to_fork_def)
  then show ?thesis
  proof
    assume "t \<in> set (forked_by c)"
    then obtain p where "c = C_Fork t p" by (cases c) auto
    from made_kept(3) [OF assms(1,2) this] show ?thesis by simp
  qed (use made_kept(4) [OF assms(1,2)] True in \<open>simp add: to_fork_def\<close>)
next
  case False
  then have "0 \<notin> set (forked_by c)" using made_kept(3) [OF assms(1,2)] by (cases c) auto
  with made_kept(2) [OF assms(1,2), of 0] False assms(3) show ?thesis by simp
qed

lemma made_stays:
  assumes "makes sc u x x' cs (K u)" "call_effect u x' (K(u := [F_Code cs]), sv, cd, H) (K', sv', cd', H')" "cond_ok sc c (cd c)"
    "C_Wait c l \<in> ahead (K t)" "C_Wait c l \<in> set (sc t)" "\<And>u m. C_Wait c m \<in> set (sc u) \<Longrightarrow> m = l"
  shows "stays c l t (K', sv', cd', H')"
proof (cases "u = t")
  case False
  show ?thesis
  proof (cases "t \<in> set (forked_by x)")
    case True
    then obtain p where "x = C_Fork t p" by (cases x) auto
    from made_kept(3) [OF assms(1,2) this] assms(5) show ?thesis by simp
  qed (use made_kept(2) [OF assms(1,2), of t] False assms(4) in simp)
next
  case True
  with assms(1,4) have "C_Wait c l \<in> set cs \<or> x = C_Wait c l \<and> x' = x" by (auto simp: makes_def)
  then show ?thesis
  proof
    assume x: "x = C_Wait c l \<and> x' = x"
    have "waitingLock (cd c) = None \<or> waitingLock (cd c) = Some l" using assms(3,6) by (auto simp: cond_ok_def)
    with assms(2) x True show ?thesis by (cases rule: effect_conds [where i = c]) auto
  qed (use made_kept(4) [OF assms(1,2)] True in simp)
qed

lemma stays_move:
  assumes "prog_move (K, sv, cd, H) (K', sv', cd', H')" "script_inv sc (K, sv, cd, H)" "stays c l t (K, sv, cd, H)"
    "C_Wait c l \<in> set (sc t)" "t \<noteq> 0" "\<And>u m. C_Wait c m \<in> set (sc u) \<Longrightarrow> m = l"
    "t \<in> set (waitingCV (cd c)) \<Longrightarrow> t \<in> set (waitingCV (cd' c))"
  shows "stays c l t (K', sv', cd', H')"
proof -
  have ok: "cond_ok sc c (cd c)" using assms(2) by auto
  consider (fork) "t \<in> to_fork (K 0)" | (wait) "C_Wait c l \<in> ahead (K t)" "t \<notin> to_fork (K 0)" | (queued) "t \<in> set (waitingCV (cd c))"
    using assms(3) by auto
  then show ?thesis
  proof cases
    case queued
    then show ?thesis using assms(7) by simp
  next
    case fork
    from assms(1,2) show ?thesis
    proof (cases rule: move_cases)
      case (ended u)
      with fork show ?thesis by (cases "u = 0") (simp_all add: to_fork_def)
    next
      case (made u x x' cs)
      from to_fork_made [OF made(1,3) fork] assms(4) show ?thesis by auto
    qed
  next
    case wait
    from assms(1,2) show ?thesis
    proof (cases rule: move_cases)
      case (ended u)
      with wait show ?thesis by (cases "u = t") auto
    next
      case (made u x x' cs)
      from made_stays [OF made(1,3) ok wait(1) assms(4,6)] show ?thesis .
    qed
  qed
qed

text \<open>Only a signal takes a thread off a condition.\<close>

lemma queue_move:
  assumes "prog_move (K, sv, cd, H) (K', sv', cd', H')" "script_inv sc (K, sv, cd, H)"
  obtains (kept) "set (waitingCV (cd i)) \<subseteq> set (waitingCV (cd' i))"
  | (signal) u l cs where "C_Signal i l \<in> set (sc u) \<or> C_Broadcast i l \<in> set (sc u)" "cd' i = signalled l (cd i)"
      "makes sc u (C_Signal i l) (C_Signal i l) cs (K u) \<or> makes sc u (C_Broadcast i l) (C_Broadcast i l) cs (K u)" "ahead (K' u) = set cs"
  using assms
proof (cases rule: move_cases)
  case (made u x x' cs)
  from made(3) show ?thesis
  proof (cases rule: effect_conds [where i = i])
    case (woken l)
    with makes_call [OF made(1)] makes_in [OF made(1)] made(1) made_kept(4) [OF made(1,3)] show ?thesis
      by (intro signal [of l u cs]) auto
  qed (use kept in auto)
qed (use kept in auto)

lemma signal_before:
  assumes "prog_move (K, sv, cd, H) (K', sv', cd', H')" "script_inv sc (K, sv, cd, H)" "signal_to_come c l u K'" "u \<noteq> 0"
  shows "signal_to_come c l u K"
  using assms(1,2)
proof (cases rule: move_cases)
  case (ended w)
  then show ?thesis using assms(3,4) by (cases "w = u"; cases "w = 0") (simp_all add: signal_to_come_def to_fork_def)
next
  case (made w x x' cs)
  note m = made(1,3)
  have sub: "set cs \<subseteq> ahead (K w)" using made(1) by (auto simp: makes_def)
  have "0 \<notin> set (forked_by x)" using made_kept(3) [OF m] by (cases x) auto
  then have "ahead (K' 0) \<subseteq> ahead (K 0)" using made_kept(2,4) [OF m] sub by (cases "w = 0") auto
  then have f: "to_fork (K' 0) \<subseteq> to_fork (K 0)" by (auto simp: to_fork_def)
  show ?thesis
  proof (cases "u \<in> set (forked_by x)")
    case True
    then obtain p where x: "x = C_Fork u p" by (cases x) auto
    with made_kept(3) [OF m] have "w = 0" by simp
    with fork_next(1) [of u p x' cs "K 0"] made(1) x show ?thesis by (simp add: signal_to_come_def)
  next
    case False
    then have "ahead (K' u) \<subseteq> ahead (K u)" using made_kept(2,4) [OF m] sub by (cases "w = u") auto
    with f assms(3) show ?thesis by (auto simp: signal_to_come_def)
  qed
qed

lemma signal_made: "makes sc u (C_Signal i l) x cs (K u) \<Longrightarrow> signal_to_come i l u K"
  by (auto simp: makes_def signal_to_come_def)

end

end
