(* ===== verification/Thread_Test.thy ===== *)
theory Thread_Test
  imports Program_Scripts Kernel_Props
begin

text \<open>
  The test suite of \<open>threads/threadtest.cc\<close>: five tests of semaphores, locks and conditions, as programs of kernel
  calls.
\<close>

section \<open>The programs\<close>

definition t1_s1 :: nat where "t1_s1 = 0"
definition t1_s2 :: nat where "t1_s2 = 1"
definition t1_s3 :: nat where "t1_s3 = 2"
definition t1_done :: nat where "t1_done = 3"
definition t1_l1 :: nat where "t1_l1 = 0"

definition t1_t1 :: "call list" where
  "t1_t1 = [C_Acquire t1_l1, C_V t1_s1, C_P t1_s3, C_Release t1_l1, C_V t1_done]"

definition t1_t2 :: "call list" where
  "t1_t2 = [C_P t1_s1, C_V t1_s2, C_Acquire t1_l1, C_Release t1_l1, C_V t1_done]"

definition t1_t3 :: "call list" where
  "t1_t3 = [C_P t1_s2, C_V t1_s3] @ replicate 3 (C_Release t1_l1)"

definition t2_l1 :: nat where "t2_l1 = 1"
definition t2_c1 :: nat where "t2_c1 = 0"
definition t2_s1 :: nat where "t2_s1 = 4"
definition t2_done :: nat where "t2_done = 5"

definition t2_t1 :: "call list" where
  "t2_t1 = [C_Acquire t2_l1, C_Signal t2_c1 t2_l1, C_Release t2_l1, C_V t2_s1, C_V t2_done]"

definition t2_t2 :: "call list" where
  "t2_t2 = [C_P t2_s1, C_Acquire t2_l1, C_Wait t2_c1 t2_l1, C_Release t2_l1]"

definition t3_l1 :: nat where "t3_l1 = 2"
definition t3_c1 :: nat where "t3_c1 = 1"
definition t3_s1 :: nat where "t3_s1 = 6"
definition t3_done :: nat where "t3_done = 7"

definition t3_waiter :: "call list" where
  "t3_waiter = [C_Acquire t3_l1, C_V t3_s1, C_Wait t3_c1 t3_l1, C_Release t3_l1, C_V t3_done]"

definition t3_signaller :: "call list" where
  "t3_signaller = replicate 5 (C_P t3_s1) @ [C_Acquire t3_l1, C_Signal t3_c1 t3_l1, C_Release t3_l1, C_V t3_done]"

definition t4_l1 :: nat where "t4_l1 = 3"
definition t4_c1 :: nat where "t4_c1 = 2"
definition t4_s1 :: nat where "t4_s1 = 8"
definition t4_done :: nat where "t4_done = 9"

definition t4_waiter :: "call list" where
  "t4_waiter = [C_Acquire t4_l1, C_V t4_s1, C_Wait t4_c1 t4_l1, C_Release t4_l1, C_V t4_done]"

definition t4_signaller :: "call list" where
  "t4_signaller = replicate 5 (C_P t4_s1) @ [C_Acquire t4_l1, C_Broadcast t4_c1 t4_l1, C_Release t4_l1, C_V t4_done]"

definition t5_l1 :: nat where "t5_l1 = 4"
definition t5_l2 :: nat where "t5_l2 = 5"
definition t5_c1 :: nat where "t5_c1 = 3"
definition t5_s1 :: nat where "t5_s1 = 10"

definition t5_t1 :: "call list" where
  "t5_t1 = [C_Acquire t5_l1, C_V t5_s1, C_Wait t5_c1 t5_l1, C_Release t5_l1]"

definition t5_t2 :: "call list" where
  "t5_t2 = [C_P t5_s1, C_Acquire t5_l1, C_Acquire t5_l2, C_Signal t5_c1 t5_l2, C_Release t5_l2, C_Release t5_l1]"

text \<open>The threads have the addresses 1 to 19 in the order of their creation.\<close>

definition TestSuite :: "call list" where
  "TestSuite =
     [C_Fork 1 t1_t1, C_Fork 2 t1_t2, C_Fork 3 t1_t3] @ replicate 2 (C_P t1_done) @
     [C_Fork 4 t2_t1, C_Fork 5 t2_t2, C_P t2_done] @
     map (\<lambda>i. C_Fork (6 + i) t3_waiter) [0..<5] @ [C_Fork 11 t3_signaller] @ replicate 2 (C_P t3_done) @
     map (\<lambda>i. C_Fork (12 + i) t4_waiter) [0..<5] @ [C_Fork 17 t4_signaller] @ replicate 6 (C_P t4_done) @
     [C_Fork 18 t5_t1, C_Fork 19 t5_t2]"

section \<open>The programs as scripts\<close>

definition script :: "tid \<Rightarrow> call list" where
  "script u = (if u = 0 then TestSuite else if u = 1 then t1_t1 else if u = 2 then t1_t2 else if u = 3 then t1_t3
     else if u = 4 then t2_t1 else if u = 5 then t2_t2 else if u < 11 then t3_waiter else if u = 11 then t3_signaller
     else if u < 17 then t4_waiter else if u = 17 then t4_signaller else if u = 18 then t5_t1 else if u = 19 then t5_t2 else [])"

lemmas suite_objects = t1_s1_def t1_s2_def t1_s3_def t1_done_def t1_l1_def t2_l1_def t2_c1_def t2_s1_def t2_done_def t3_l1_def t3_c1_def t3_s1_def
  t3_done_def t4_l1_def t4_c1_def t4_s1_def t4_done_def t5_l1_def t5_l2_def t5_c1_def t5_s1_def

lemmas suite_threads = t1_t1_def t1_t2_def t1_t3_def t2_t1_def t2_t2_def t3_waiter_def t3_signaller_def t4_waiter_def t4_signaller_def t5_t1_def t5_t2_def

lemma TestSuite_calls: "set TestSuite = {C_Fork 1 t1_t1, C_Fork 2 t1_t2, C_Fork 3 t1_t3, C_P t1_done, C_Fork 4 t2_t1, C_Fork 5 t2_t2, C_P t2_done,
    C_Fork 11 t3_signaller, C_P t3_done, C_Fork 17 t4_signaller, C_P t4_done, C_Fork 18 t5_t1, C_Fork 19 t5_t2}
    \<union> (\<lambda>t. C_Fork t t3_waiter) ` {6..<11} \<union> (\<lambda>t. C_Fork t t4_waiter) ` {12..<17}"
proof -
  have "(\<lambda>i. C_Fork (k + i) p) ` {0..<5} = (\<lambda>t. C_Fork t p) ` {k..<5 + k}" for k p
    by (simp add: image_image [symmetric, of "\<lambda>t. C_Fork t p" "(+) k"])
  from this [of 6 t3_waiter] this [of 12 t4_waiter] show ?thesis by (auto simp: TestSuite_def)
qed

lemma suite_waits: "C_Wait c l \<in> set (script u) \<longleftrightarrow> u = 5 \<and> c = t2_c1 \<and> l = t2_l1 \<or> u \<in> {6..<11} \<and> c = t3_c1 \<and> l = t3_l1
    \<or> u \<in> {12..<17} \<and> c = t4_c1 \<and> l = t4_l1 \<or> u = 18 \<and> c = t5_c1 \<and> l = t5_l1"
  by (auto simp: script_def TestSuite_calls suite_threads)

lemma suite_signals: "C_Signal c l \<in> set (script u) \<longleftrightarrow> u = 4 \<and> c = t2_c1 \<and> l = t2_l1 \<or> u = 11 \<and> c = t3_c1 \<and> l = t3_l1 \<or> u = 19 \<and> c = t5_c1 \<and> l = t5_l2"
  by (auto simp: script_def TestSuite_calls suite_threads)

lemma suite_broadcasts: "C_Broadcast c l \<in> set (script u) \<longleftrightarrow> u = 17 \<and> c = t4_c1 \<and> l = t4_l1"
  by (auto simp: script_def TestSuite_calls suite_threads)

lemma suite_acquires: "C_Acquire t1_l1 \<in> set (script u) \<longleftrightarrow> u = 1 \<or> u = 2"
  by (auto simp: script_def TestSuite_calls suite_threads suite_objects)

interpretation suite: scripts script
proof
  show "C_Fork t p \<in> set (script u) \<Longrightarrow> u = 0 \<and> t \<noteq> 0 \<and> p = script t" for t p u
    by (cases "u = 0") (auto simp: script_def TestSuite_calls suite_threads split: if_splits)
  have "map forked_by (map (\<lambda>i. C_Fork (k + i) p) xs) = map (\<lambda>i. [k + i]) xs" for k p xs by simp
  then show "distinct (concat (map forked_by (script 0)))"
    by (simp add: script_def TestSuite_def upt_rec)
qed

section \<open>Test 2 and test 5: a thread that waits for ever\<close>

text \<open>A condition that is only signalled with another lock than the one of its waiters keeps them all.\<close>

lemma t5_t1_stays:
  assumes "prog_move v y" "script_inv script v" "stays t5_c1 t5_l1 18 v"
  shows "stays t5_c1 t5_l1 18 y"
proof -
  obtain K sv cd H K' sv' cd' H' where v: "v = (K, sv, cd, H)" "y = (K', sv', cd', H')" by (cases v; cases y) auto
  have q: "18 \<in> set (waitingCV (cd' t5_c1))" if w: "18 \<in> set (waitingCV (cd t5_c1))"
    using assms(1,2) unfolding v
  proof (cases rule: suite.queue_move [where i = t5_c1])
    case (signal u l cs)
    have "waitingLock (cd t5_c1) = Some t5_l1"
    proof -
      have "cond_ok script t5_c1 (cd t5_c1)" using assms(2) by (simp add: v)
      with w show ?thesis by (cases "waitingLock (cd t5_c1)") (auto simp: cond_ok_def suite_waits suite_objects)
    qed
    moreover have "l = t5_l2" using signal(1) by (auto simp: suite_signals suite_broadcasts suite_objects)
    ultimately show ?thesis using signal(2) w by (auto simp: signalled_def suite_objects split: list.splits)
  qed (use w in auto)
  have "C_Wait t5_c1 t5_l1 \<in> set (script 18)" "\<And>u m. C_Wait t5_c1 m \<in> set (script u) \<Longrightarrow> m = t5_l1"
    by (auto simp: suite_waits suite_objects)
  then show ?thesis using suite.stays_move [of K sv cd H K' sv' cd' H' t5_c1 t5_l1 18] assms q by (simp add: v)
qed

text \<open>While the signal of test 2 is to come, \<open>t2_t2\<close> is not past its semaphore.\<close>

definition t2_t2_before :: "call list frame list \<Rightarrow> bool" where
  "t2_t2_before fs \<longleftrightarrow> fs = [] \<or> fs = [F_Code t2_t2] \<or> (\<exists>old. fs = [F_P t2_s1 old, F_Code (tl t2_t2)])"

fun test2_inv :: "pview \<Rightarrow> bool" where
  "test2_inv (K, sv, cd, H) \<longleftrightarrow> stays t2_c1 t2_l1 5 (K, sv, cd, H) \<and> (signal_to_come t2_c1 t2_l1 4 K \<longrightarrow> sv t2_s1 = 0 \<and> t2_t2_before (K 5))"

lemma suite_t2_s1: "C_V t2_s1 \<in> set (script u) \<longleftrightarrow> u = 4"
  by (auto simp: script_def TestSuite_calls suite_threads suite_objects)

lemma before_not_waiting: "t2_t2_before fs \<Longrightarrow> \<not> waits_at c p fs"
  by (auto simp: t2_t2_before_def waits_at_def)

lemma t2_t2_stays:
  assumes "prog_move (K, sv, cd, H) (K', sv', cd', H')" "script_inv script (K, sv, cd, H)" "test2_inv (K, sv, cd, H)"
  shows "stays t2_c1 t2_l1 5 (K', sv', cd', H')"
proof -
  have q: "5 \<in> set (waitingCV (cd' t2_c1))" if w: "5 \<in> set (waitingCV (cd t2_c1))"
    using assms(1,2)
  proof (cases rule: suite.queue_move [where i = t2_c1])
    case (signal u l cs)
    have s: "\<And>u l. C_Signal t2_c1 l \<in> set (script u) \<Longrightarrow> u = 4 \<and> l = t2_l1" "\<And>u l. C_Broadcast t2_c1 l \<notin> set (script u)"
      by (auto simp: suite_signals suite_broadcasts suite_objects)
    have "\<not> makes script u (C_Broadcast t2_c1 l) (C_Broadcast t2_c1 l) cs (K u)" using makes_in s(2) by blast
    moreover have "u = 4 \<and> l = t2_l1" using signal(1) s by blast
    ultimately have "makes script 4 (C_Signal t2_c1 t2_l1) (C_Signal t2_c1 t2_l1) cs (K 4)" using signal(3) by simp
    from suite.signal_made [where u = 4 and K = K, OF this] assms(3) have "t2_t2_before (K 5)" by simp
    moreover have "waits_at t2_c1 (script 5) (K 5)" using w assms(2) by simp
    ultimately show ?thesis using before_not_waiting by blast
  qed (use w in auto)
  have "C_Wait t2_c1 t2_l1 \<in> set (script 5)" "\<And>u m. C_Wait t2_c1 m \<in> set (script u) \<Longrightarrow> m = t2_l1"
    by (auto simp: suite_waits suite_objects)
  then show ?thesis using suite.stays_move [of K sv cd H K' sv' cd' H' t2_c1 t2_l1 5] assms q by simp
qed

text \<open>The semaphore of test 2 is only raised by the thread that has signalled.\<close>

lemma t2_s1_after_signal:
  assumes "makes script u c c' cs (K u)" "call_effect u c' (K(u := [F_Code cs]), sv, cd, H) (K', sv', cd', H')"
    "script_inv script (K', sv', cd', H')" "signal_to_come t2_c1 t2_l1 4 K'" "sv t2_s1 = 0"
  shows "sv' t2_s1 = 0"
proof (cases "c' = C_V t2_s1")
  case True
  with makes_call [OF assms(1)] makes_in [OF assms(1)] have u: "u = 4" "c = C_V t2_s1" by (auto simp: suite_t2_s1)
  with assms(1) have "suffix (C_V t2_s1 # cs) t2_t1" by (simp add: makes_def script_def)
  then have "cs = [C_V t2_done]" by (auto simp: t2_t1_def suffix_Cons suite_objects)
  with suite.made_kept(4) [OF assms(1,2)] u have a: "ahead (K' 4) = {C_V t2_done}" by simp
  then have "4 \<in> to_fork (K' 0)" using assms(4) by (simp add: signal_to_come_def)
  with assms(3) have "K' 4 = []" by simp
  with a show ?thesis by simp
next
  case False
  show ?thesis
  proof (cases "c' = C_P t2_s1")
    case True
    from effect_P_zero [OF assms(2) [unfolded True] assms(5)] assms(5) show ?thesis by simp
  qed (use effect_sems [OF assms(2) _ False] assms(5) in simp)
qed

lemma t2_t2_before_made:
  assumes "makes script u c c' cs (K u)" "call_effect u c' (K(u := [F_Code cs]), sv, cd, H) (K', sv', cd', H')" "t2_t2_before (K 5)" "sv t2_s1 = 0"
  shows "t2_t2_before (K' 5)"
proof (cases "u = 5")
  case True
  have c: "c' = C_P t2_s1" "cs = tl t2_t2" using assms(1,3) True by (auto simp: makes_def t2_t2_before_def t2_t2_def)
  from effect_P_zero [OF assms(2) [unfolded c(1)] assms(4)] c(2) True show ?thesis by (auto simp: t2_t2_before_def)
next
  case False
  show ?thesis
  proof (cases "5 \<in> set (forked_by c)")
    case True
    then obtain p where "c = C_Fork 5 p" by (cases c) auto
    from suite.made_kept(3) [OF assms(1,2) this] show ?thesis by (simp add: t2_t2_before_def script_def)
  qed (use suite.made_kept(2) [OF assms(1,2), of 5] False assms(3) in simp)
qed

lemma test2_move:
  assumes "prog_move v y" "script_inv script v" "test2_inv v"
  shows "test2_inv y"
proof -
  obtain K sv cd H K' sv' cd' H' where v: "v = (K, sv, cd, H)" "y = (K', sv', cd', H')" by (cases v; cases y) auto
  note a = assms [unfolded v]
  have inv: "script_inv script (K', sv', cd', H')" by (rule suite.script_move [OF a(1,2)])
  have "sv' t2_s1 = 0 \<and> t2_t2_before (K' 5)" if s: "signal_to_come t2_c1 t2_l1 4 K'"
  proof -
    have b: "sv t2_s1 = 0" "t2_t2_before (K 5)" using suite.signal_before [OF a(1,2) s] a(3) by simp_all
    from a(1,2) show ?thesis
    proof (cases rule: suite.move_cases)
      case (ended u)
      then show ?thesis using b by (cases "u = 5") (auto simp: t2_t2_before_def)
    next
      case (made u c c' cs)
      show ?thesis using t2_s1_after_signal [OF made(1,3) inv s b(1)] t2_t2_before_made [OF made(1,3) b(2,1)] by simp
    qed
  qed
  then show ?thesis using t2_t2_stays [OF a] by (simp add: v)
qed

section \<open>Test 3: one signal, one thread\<close>

fun test3_inv :: "pview \<Rightarrow> bool" where
  "test3_inv (K, sv, cd, H) \<longleftrightarrow> (\<exists>w. \<forall>t \<in> {6..<11}. (t \<noteq> w \<or> signal_to_come t3_c1 t3_l1 11 K) \<longrightarrow> stays t3_c1 t3_l1 t (K, sv, cd, H))"

lemma signalled_one: "x \<noteq> hd (waitingCV y) \<Longrightarrow> x \<in> set (waitingCV y) \<Longrightarrow> x \<in> set (waitingCV (signalled l y))"
  by (auto simp: signalled_def split: list.splits)

lemma t3_signal_once:
  assumes "makes script u (C_Signal t3_c1 l) x cs fs"
  shows "u = 11" "l = t3_l1" "C_Signal t3_c1 t3_l1 \<notin> set cs" "C_V t3_done \<in> set cs"
proof -
  show u: "u = 11" "l = t3_l1" using makes_in [OF assms] by (auto simp: suite_signals suite_objects)
  have "suffix (C_Signal t3_c1 t3_l1 # cs) t3_signaller" using assms u by (simp add: makes_def script_def)
  then have "cs = [C_Release t3_l1, C_V t3_done]" by (auto simp: t3_signaller_def suffix_Cons numeral_eq_Suc)
  then show "C_Signal t3_c1 t3_l1 \<notin> set cs" "C_V t3_done \<in> set cs" by simp_all
qed

lemma test3_move:
  assumes "prog_move v y" "script_inv script v" "test3_inv v"
  shows "test3_inv y"
proof -
  obtain K sv cd H K' sv' cd' H' where v: "v = (K, sv, cd, H)" "y = (K', sv', cd', H')" by (cases v; cases y) auto
  note a = assms [unfolded v]
  have inv: "script_inv script (K', sv', cd', H')" by (rule suite.script_move [OF a(1,2)])
  obtain w where w: "\<And>t. t \<in> {6..<11} \<Longrightarrow> t \<noteq> w \<or> signal_to_come t3_c1 t3_l1 11 K \<Longrightarrow> stays t3_c1 t3_l1 t (K, sv, cd, H)"
    using a(3) unfolding test3_inv.simps by blast
  have st: "stays t3_c1 t3_l1 t (K', sv', cd', H')" if "t \<in> {6..<11}" "t \<noteq> w \<or> signal_to_come t3_c1 t3_l1 11 K"
    "t \<in> set (waitingCV (cd t3_c1)) \<Longrightarrow> t \<in> set (waitingCV (cd' t3_c1))" for t
  proof (rule suite.stays_move [OF a(1,2) w [OF that(1,2)]])
    show "C_Wait t3_c1 t3_l1 \<in> set (script t)" "\<And>u m. C_Wait t3_c1 m \<in> set (script u) \<Longrightarrow> m = t3_l1"
      using that(1) by (auto simp: suite_waits suite_objects)
  qed (use that in auto)
  from a(1,2) show ?thesis
  proof (cases rule: suite.queue_move [where i = t3_c1])
    case kept
    then have "stays t3_c1 t3_l1 t (K', sv', cd', H')" if "t \<in> {6..<11}" "t \<noteq> w \<or> signal_to_come t3_c1 t3_l1 11 K'" for t
      using that suite.signal_before [OF a(1,2), of t3_c1 t3_l1 11] by (intro st) auto
    then show ?thesis unfolding v test3_inv.simps by blast
  next
    case (signal u l cs)
    have "\<not> makes script u (C_Broadcast t3_c1 l) (C_Broadcast t3_c1 l) cs (K u)"
      using makes_in [of script u "C_Broadcast t3_c1 l"] by (auto simp: suite_broadcasts suite_objects)
    with signal(3) have m: "makes script u (C_Signal t3_c1 l) (C_Signal t3_c1 l) cs (K u)" by simp
    note o = t3_signal_once [OF m]
    have come: "signal_to_come t3_c1 t3_l1 11 K" using suite.signal_made [where u = 11 and K = K] m o(1,2) by simp
    have "11 \<notin> to_fork (K' 0)" using inv signal(4) o(1,4) by auto
    then have gone: "\<not> signal_to_come t3_c1 t3_l1 11 K'" using signal(4) o(1,3) by (simp add: signal_to_come_def)
    have "stays t3_c1 t3_l1 t (K', sv', cd', H')" if "t \<in> {6..<11}" "t \<noteq> hd (waitingCV (cd t3_c1))" for t
      using that come signal(2) signalled_one [of t "cd t3_c1" l] by (intro st) auto
    with gone show ?thesis unfolding v test3_inv.simps by blast
  qed
qed

section \<open>The outcome\<close>

text \<open>The calls that thread \<open>u\<close> has still to make.\<close>

definition to_run :: "(handler, call list) kernel \<Rightarrow> tid \<Rightarrow> call list" where
  "to_run s u = concat (codes s u)"

lemma to_run_ahead: "set (to_run s u) = ahead (cores s u)"
  by (simp add: to_run_def codes_def ahead_def)

lemma not_yet_forked:
  assumes "script_inv script (pview s)" "t \<in> to_fork (cores s 0)"
  shows "C_Fork t (script t) \<in> set (to_run s 0)"
proof -
  obtain c where c: "c \<in> ahead (cores s 0)" "t \<in> set (forked_by c)" using assms(2) by (auto simp: to_fork_def)
  then obtain p where p: "c = C_Fork t p" by (cases c) auto
  have "at (script 0) (cores s 0)" using assms(1) by (simp add: pview_def)
  from at_ahead [OF this] c(1) p have "C_Fork t p \<in> set (script 0)" by auto
  with suite.forks have "p = script t" by blast
  with c(1) p show ?thesis by (simp add: to_run_ahead)
qed

lemma stays_outcome:
  assumes "script_inv script (pview s)" "stays c l t (pview s)" "\<And>cs. suffix cs (script t) \<Longrightarrow> C_Wait c l \<in> set cs \<Longrightarrow> x \<in> set cs"
    "\<And>m cs. suffix (C_Wait c m # cs) (script t) \<Longrightarrow> x \<in> set cs"
  shows "C_Fork t (script t) \<in> set (to_run s 0) \<or> x \<in> set (to_run s t)"
proof -
  have i: "at (script t) (cores s t)" "\<forall>u \<in> set (waitingCV (conditions s c)). waits_at c (script u) (cores s u)" using assms(1) by (simp_all add: pview_def)
  consider "t \<in> to_fork (cores s 0)" | "C_Wait c l \<in> ahead (cores s t)" | "t \<in> set (waitingCV (conditions s c))" using assms(2) by (auto simp: pview_def)
  then show ?thesis
  proof cases
    case 1
    then show ?thesis using not_yet_forked [OF assms(1)] by simp
  next
    case 2
    then obtain cs where "suffix cs (script t)" "ahead (cores s t) = set cs" using at_suffix [OF i(1)] by auto
    with 2 assms(3) show ?thesis by (simp add: to_run_ahead)
  next
    case 3
    with i(2) obtain m cs where "cores s t = [F_Acquire m, F_Code cs]" "suffix (C_Wait c m # cs) (script t)" by (auto simp: waits_at_def)
    with assms(4) show ?thesis by (auto simp: to_run_ahead)
  qed
qed

lemma t2_t2_last: "suffix cs (script 5) \<Longrightarrow> C_Wait c m \<in> set cs \<Longrightarrow> C_Release t2_l1 \<in> set cs"
  "suffix (C_Wait c m # cs) (script 5) \<Longrightarrow> C_Release t2_l1 \<in> set cs"
  by (auto simp: script_def t2_t2_def suffix_Cons)

lemma t3_waiter_last:
  assumes "t \<in> {6..<11}"
  shows "suffix cs (script t) \<Longrightarrow> C_Wait c m \<in> set cs \<Longrightarrow> C_V t3_done \<in> set cs"
    "suffix (C_Wait c m # cs) (script t) \<Longrightarrow> C_V t3_done \<in> set cs"
proof -
  have "script t = t3_waiter" using assms by (auto simp: script_def)
  then show "suffix cs (script t) \<Longrightarrow> C_Wait c m \<in> set cs \<Longrightarrow> C_V t3_done \<in> set cs" "suffix (C_Wait c m # cs) (script t) \<Longrightarrow> C_V t3_done \<in> set cs"
    by (auto simp: t3_waiter_def suffix_Cons)
qed

lemma t5_t1_last: "suffix cs (script 18) \<Longrightarrow> C_Wait c m \<in> set cs \<Longrightarrow> C_Release t5_l1 \<in> set cs"
  "suffix (C_Wait c m # cs) (script 18) \<Longrightarrow> C_Release t5_l1 \<in> set cs"
  by (auto simp: script_def t5_t1_def suffix_Cons)

definition suite_inv :: "pview \<Rightarrow> bool" where
  "suite_inv v \<longleftrightarrow> test2_inv v \<and> test3_inv v \<and> stays t5_c1 t5_l1 18 v"

lemma suite_start:
  assumes "Initialize rnd r (\<lambda>_. 0) (\<lambda>_. None) sp (script 0) = Inr s0"
  shows "suite_inv (pview s0)"
proof -
  have "t \<in> to_fork [F_Code (script 0)]" if "t = 5 \<or> t = 18 \<or> t \<in> {6..<11}" for t
    using that by (auto simp: to_fork_def script_def TestSuite_calls)
  then show ?thesis unfolding suite_inv_def suite.script_start(1) [OF assms] by (simp add: t2_t2_before_def)
qed

lemma suite_move: "prog_move v y \<Longrightarrow> script_inv script v \<Longrightarrow> suite_inv v \<Longrightarrow> suite_inv y"
  unfolding suite_inv_def using test2_move test3_move t5_t1_stays by blast

text \<open>C17. The tests of the test suite show what they are meant to show, under every scheduling: the lock of test 1 is never
  taken from its two users by the thread that releases it without holding it; the signal of test 2 is not stored, so that
  \<open>t2_t2\<close> never gets past its \<open>Wait\<close>; of the five waiters of test 3 at most one is done; and in test 5 the signal with another lock
  wakes nobody, so that \<open>t5_t1\<close> never gets past its \<open>Wait\<close>.\<close>

theorem test_suite_outcomes:
  assumes "Initialize rnd r (\<lambda>_. 0) (\<lambda>_. None) sp TestSuite = Inr s0" "reachable (fire rnd) program s0 s"
  shows "owner (locks s t1_l1) \<in> {None, Some 1, Some 2}
    \<and> (C_Fork 5 t2_t2 \<in> set (to_run s 0) \<or> C_Release t2_l1 \<in> set (to_run s 5))
    \<and> (\<exists>w. \<forall>t \<in> {6..<11}. t = w \<or> C_Fork t t3_waiter \<in> set (to_run s 0) \<or> C_V t3_done \<in> set (to_run s t))
    \<and> (C_Fork 18 t5_t1 \<in> set (to_run s 0) \<or> C_Release t5_l1 \<in> set (to_run s 18))"
proof (intro conjI)
  have i: "Initialize rnd r (\<lambda>_. 0) (\<lambda>_. None) sp (script 0) = Inr s0" using assms(1) by (simp add: script_def)
  have r: "script_inv script (pview s)" "test2_inv (pview s)" "test3_inv (pview s)" "stays t5_c1 t5_l1 18 (pview s)"
    using suite.reached [where I = suite_inv, OF i assms(2) suite_start [OF i] suite_move] by (simp_all add: suite_inv_def)
  have "holders s t1_l1 \<subseteq> asks script t1_l1" using r(1) by (simp add: pview_def)
  also have "\<dots> = {1, 2}"
  proof -
    have "C_Wait c t1_l1 \<notin> set (script u)" for c u by (auto simp: suite_waits suite_objects)
    then show ?thesis by (auto simp: asks_def suite_acquires)
  qed
  finally show "owner (locks s t1_l1) \<in> {None, Some 1, Some 2}" by (cases "owner (locks s t1_l1)") (auto simp: holders_def)
  have "stays t2_c1 t2_l1 5 (pview s)" using r(2) by (simp add: pview_def)
  from stays_outcome [OF r(1) this t2_t2_last] show "C_Fork 5 t2_t2 \<in> set (to_run s 0) \<or> C_Release t2_l1 \<in> set (to_run s 5)"
    by (simp add: script_def)
  from stays_outcome [OF r(1,4) t5_t1_last] show "C_Fork 18 t5_t1 \<in> set (to_run s 0) \<or> C_Release t5_l1 \<in> set (to_run s 18)"
    by (simp add: script_def)
  obtain w where w: "\<And>t. t \<in> {6..<11} \<Longrightarrow> t \<noteq> w \<Longrightarrow> stays t3_c1 t3_l1 t (pview s)" using r(3) unfolding pview_def test3_inv.simps by blast
  have sc: "script t = t3_waiter" if "t \<in> {6..<11}" for t using that by (auto simp: script_def)
  show "\<exists>w. \<forall>t \<in> {6..<11}. t = w \<or> C_Fork t t3_waiter \<in> set (to_run s 0) \<or> C_V t3_done \<in> set (to_run s t)"
  proof (intro exI [of _ w] ballI)
    fix t :: nat
    assume t: "t \<in> {6..<11}"
    show "t = w \<or> C_Fork t t3_waiter \<in> set (to_run s 0) \<or> C_V t3_done \<in> set (to_run s t)"
      using stays_outcome [OF r(1) w [OF t] t3_waiter_last [OF t]] sc [OF t] by auto
  qed
qed

text \<open>The suite after nine steps of the kernel: the first two threads are forked.\<close>

definition suite_demo :: "nat \<Rightarrow> (handler, call list) kernel" where
  "suite_demo n = projr (steps (fire (\<lambda>_. 0)) program n (kernel_new (\<lambda>_. 0) (\<lambda>_. None) demo_spaces TestSuite))"

theorem test_suite_outcomes_witness:
  "to_run (suite_demo 9) 1 = t1_t1 \<and> owner (locks (suite_demo 9) t1_l1) \<in> {None, Some 1, Some 2}"
proof -
  let ?s = "kernel_new (\<lambda>_. 0) (\<lambda>_. None) demo_spaces TestSuite :: (handler, call list) kernel"
  have "\<not> isl (steps (fire (\<lambda>_. 0)) program 9 ?s)" by code_simp
  then have "steps (fire (\<lambda>_. 0)) program 9 ?s = Inr (suite_demo 9)"
    by (cases "steps (fire (\<lambda>_. 0)) program 9 ?s") (auto simp: suite_demo_def)
  then have r: "reachable (fire (\<lambda>_. 0)) program ?s (suite_demo 9)" using steps_reachable reachable.start by blast
  have i: "Initialize (\<lambda>_. 0) False (\<lambda>_. 0) (\<lambda>_. None) demo_spaces TestSuite = Inr ?s" by (simp add: Initialize_def)
  have "to_run (suite_demo 9) 1 = t1_t1" by code_simp
  with test_suite_outcomes [OF i r] show ?thesis by blast
qed

end
