(* ===== verification/Spec2Isabelle.thy ===== *)
theory Spec2Isabelle
  imports Nachos_List Bitmap Handle_Table Mips_Safety Kernel_Props User_Copy Syscall_Props File_Test Coff2noff Console_Lines Mail_Delivery Airport_Props Airport_Input Mips_Assembler Coff2flat Thread_Test
begin

text \<open>
  Nachos, the instructional operating system, in the state of the second project of an operating
  systems course (\<open>src/Project 2/code\<close>; the directories below are relative to it).

  The program is a kernel that runs as one process of a UNIX host. It simulates a machine (a MIPS
  processor with main memory and a page table or translation buffer, a timer, a disk, a console, a
  network) and runs, in the same process, the kernel of an operating system on it: threads with a
  scheduler, semaphores, locks and condition variables, address spaces, system calls, a file system.
  Simulated time advances when a simulated instruction completes and when the kernel enables
  interrupts; then pending interrupts fire, and a handler may ask for the current thread to yield.

  \<^bold>\<open>How the code is modelled.\<close>
  \<^item> A C++ function is a function into \<open>'a result\<close> (theory \<open>Prelude\<close>): \<open>Inr\<close> carries what it
    returns, \<open>Inl\<close> says why there is no return: a failed \<open>ASSERT\<close> (\<open>Abort\<close>), a halted machine
    (\<open>Halted\<close>), or undefined behaviour (\<open>Undefined\<close>: a null or dangling pointer, an index outside
    an array, a signed overflow the code does not expect).
  \<^item> Registers, memory and the words of the bit map are machine words of their width. The \<open>int\<close>
    arithmetic of instructions wraps. Counters such as the simulated clock are integers; where the code
    assigns them to a narrower variable (the disk's latency) the reduction is written out.
  \<^item> Memory the code does not initialise (\<open>owner\<close> of a new lock, a new array, the padding of a
    structure) is a parameter, mostly called \<open>junk\<close>.
  \<^item> A context switch leaves functions in the middle. The stack of a thread is a list of frames, the
    pieces of code it has still to run, and one step of the kernel (\<open>kernel_step\<close>) runs the first frame of the
    current thread. Interrupts can only fire where the code enables them, so a piece of code between two
    such points is one function.
  \<^item> A loop is recursion on its data or its counter. The search loop of \<open>SortedInsert\<close> follows pointers
    and might not end on a cyclic list: it is a partial function into \<open>option\<close>, and the theorems show that it
    returns. Loops in which the thread can lose the processor (\<open>P\<close>, \<open>Sleep\<close>, \<open>Idle\<close>, \<open>Broadcast\<close>, the
    loop over the due interrupts) are frames that push themselves, one round per step; nothing bounds
    their number but the theorems. No definition of the program has fuel; the theorems that say how long something takes run
    a given number of steps (\<open>steps\<close>, \<open>air_run\<close>, \<open>setup_run\<close>), and show that it is enough.
  \<^item> The lists of the kernel (ready list, wait queues, pending interrupts) are HOL lists;
    \<open>Nachos_List\<close> shows that the pointer structures of \<open>list.cc\<close> implement them.

  \<^bold>\<open>Theories, from the bottom up.\<close>
  \<^descr> \<open>Prelude\<close>, \<open>Buffers\<close>: results, bytes, arrays made of equal pieces.
  \<^descr> \<open>Nachos_List\<close>: \<open>threads/list.cc\<close> on an explicit heap. The operations refine sequences, touch
    no other list, and \<open>SortedInsert\<close> sorts stably.
  \<^descr> \<open>Bitmap\<close>, \<open>Handle_Table\<close>: \<open>userprog/bitmap.cc\<close> and the class \<open>Table\<close> of \<open>userprog/addrspace.cc\<close>.
    The bit map implements a set of numbers; \<open>slot_allocator\<close> is the contract its clients rely on, among
    them the handle table.
  \<^descr> \<open>Machine\<close>, \<open>Mips_Mult\<close>, \<open>Mips\<close>, \<open>Mips_Safety\<close>: \<open>machine/machine.cc\<close>, \<open>translate.cc\<close>,
    \<open>mipssim.cc\<close>. Translation finds the one exception or the one physical address; an access touches only
    mapped pages; one instruction keeps the machine well-formed and raises overflow exactly when it must.
  \<^descr> \<open>Mips_Execute\<close>: the second interpreter of the same instructions, \<open>bin/execute.c\<close> with \<open>bin/instr.h\<close>, \<open>encode.h\<close>, \<open>int.h\<close> and the
    traps of \<open>bin/system.c\<close>; the system calls of the host are a parameter. It agrees with \<open>OneInstruction\<close> on every instruction
    on registers but those it gets wrong, which \<open>same_meaning\<close> names.
  \<^descr> \<open>Mips_Assembler\<close>: words assembled with the numbers of \<open>bin/encode.h\<close> are decoded by \<open>Instruction::Decode\<close> to the instruction
    each number names.
  \<^descr> \<open>Kernel\<close>, \<open>Kernel_Inv\<close>, \<open>Thread_Programs\<close>, \<open>Kernel_Props\<close>: \<open>machine/interrupt.cc\<close>, \<open>timer.cc\<close>,
    \<open>stats.cc\<close>, \<open>threads/thread.cc\<close>, \<open>scheduler.cc\<close>, \<open>synch.cc\<close> and the start of \<open>system.cc\<close>. \<open>Kernel\<close> has one function
    for each operation. \<open>kernel_inv\<close> says that a thread is in one queue at most, that its status names the
    queue, and that interrupts are off where the code needs them off. The locale \<open>kernel_client\<close>
    states what interrupt handlers and code around the kernel have to respect; inside it the invariant is proved for
    every step. It is interpreted on programs of kernel calls (\<open>Thread_Programs\<close>).
  \<^descr> \<open>Kernel_Frames\<close>: what an operation of the kernel leaves alone. \<open>step_view\<close> takes a step of the kernel apart:
    it changes nothing a client sees, or fires one handler, or runs one frame. The locale \<open>kernel_user\<close> extends
    the contract to code that is given by a function on frames; the system calls and the device drivers are its
    interpretations.
  \<^descr> \<open>Program_Moves\<close>, \<open>Program_Scripts\<close>, \<open>Thread_Test\<close>: programs of kernel calls seen without interrupts and scheduling. Every step of
    the kernel is a move of one thread or invisible (\<open>step_prog_move\<close>); the locale \<open>scripts\<close> has what holds of a main program that forks its
    threads once, and is interpreted on the test suite of \<open>threads/threadtest.cc\<close>, whose tests show what they are meant to show.
  \<^descr> \<open>Addr_Space\<close>, \<open>Syscalls\<close>, \<open>User_Copy\<close>, \<open>Syscall_Props\<close>: \<open>userprog/addrspace.cc\<close>, \<open>exception.cc\<close>,
    \<open>progtest.cc\<close>, \<open>bin/noff.h\<close> and the stub file system of the build. The loader, every system
    call cut where the thread can lose the processor, and user programs running between them.
  \<^descr> \<open>Coff2noff\<close>: \<open>bin/coff2noff.c\<close>, which makes the executables. The code and data of an object file, converted and
    then loaded by \<open>Addr_Space\<close>, are in memory at their addresses when the code starts at address 0 and the data follows it, which
    is what the loader assumes.
  \<^descr> \<open>Coff2flat\<close>: \<open>bin/coff2flat.c\<close>, which makes an image of the memory instead, of sections that are adjacent.
  \<^descr> \<open>Host_Words\<close>: arrays of words as bytes of the host's byte order.
  \<^descr> \<open>Disk\<close>, \<open>File_Header\<close>, \<open>Open_File\<close>, \<open>Directory\<close>, \<open>File_System\<close>, \<open>File_System_Props\<close>: \<open>machine/disk.cc\<close>,
    \<open>filesys/synchdisk.cc\<close>, \<open>filehdr.cc\<close>, \<open>openfile.cc\<close>, \<open>directory.cc\<close>, \<open>filesys.cc\<close>. An open file with a well-formed
    header is an array of bytes (locale \<open>byte_file\<close>), the directory a map from names to headers, the file
    system a map from names to contents; from formatting on, every operation keeps headers, data and the free
    map consistent, for clients that do not write through an \<open>OpenFile\<close> after its file has been removed (\<open>fs_step\<close>): the
    code does not guard against that.
  \<^descr> \<open>File_Test\<close>: \<open>filesys/fstest.cc\<close>, clients of the file system: what \<open>Copy\<close> copies is what \<open>Print\<close> prints.
  \<^descr> \<open>Devices\<close>, \<open>Device_Inv\<close>, \<open>Driver_Protocol\<close>, \<open>Device_Props\<close>: \<open>filesys/synchdisk.cc\<close> for many threads,
    \<open>machine/console.cc\<close>, \<open>userprog/synchconsole.cc\<close>, \<open>machine/network.cc\<close>, \<open>network/post.cc\<close>, \<open>threads/synchlist.cc\<close>,
    on top of the kernel: threads that call the drivers, handlers that fire when a device is done. The
    invariant \<open>dev_inv\<close> says for each driver who holds its lock, where the holder is, and how often its semaphore has been
    signalled; requests are serialised.
  \<^descr> \<open>Device_Effects\<close>, \<open>Console_Lines\<close>, \<open>Mail_Delivery\<close>: what each step does to the devices; lines come out of
    the console whole; and the way of a mail from the wire through the network's buffer and the postal worker to
    its mail box. What the network drops before the socket is outside the theorem.
  \<^descr> \<open>Airport_State\<close>, \<open>Airport\<close>, \<open>Airport_Input\<close>: the airport simulation of \<open>threads/threadtest.cc\<close> and \<open>threadtest.h\<close>. \<open>Airport_State\<close> has
    the global arrays and the constructors; \<open>Airport\<close> the threads of passengers, liaisons, check-in officers, cargo handlers,
    screening and security officers and the manager, each \<open>DoWork\<close> cut where it calls the kernel; \<open>Airport_Input\<close> the questions of
    \<open>RunSim\<close>, the numbers of \<open>AirportTests\<close> and the run of the setup on them. The code between two calls of the kernel is one function of the
    global state, as no interrupt is taken there.
  \<^descr> \<open>Airport_Moves\<close>, \<open>Airport_Crew\<close>, \<open>Airport_Opening\<close>: the simulation as an interpretation of \<open>kernel_user\<close>. Every run under
    every scheduling is an interleaving of moves of the threads (\<open>air_move\<close>); the locale \<open>airport_invariant\<close> has the obligations of
    an invariant of the interleavings, one for each kind of move.
  \<^descr> \<open>Airport_Baggage\<close>, \<open>Airport_Boarding\<close>, \<open>Airport_Props\<close>: the interpretations of \<open>airport_invariant\<close>: from the conveyor to the
    aircraft no bag is lost or counted twice, tickets stay within the seats, no plane leaves without its passengers and bags.

  \<^bold>\<open>Bounds.\<close> The latency of the disk is computed in an \<open>int\<close>: the theorem on it is for clocks below
  \<open>2\<^sup>3\<^sup>1 - 2\<^sup>1\<^sup>6\<close> ticks. Positions in files and lengths of transfers are below \<open>2\<^sup>3\<^sup>1\<close>; a file has at most \<open>MaxFileSize\<close>
  bytes, beyond which \<open>Allocate\<close> leaves its array.

  \<^bold>\<open>Not modelled.\<close> The wrappers of the host's system calls in \<open>machine/sysdep.cc\<close>, apart from what the callers rely
  on; the context switch in assembler; destructors that only free memory; the printing of statistics and
  of the machine's state; \<open>threads/main.cc\<close> (the command line), the tests \<open>network/nettest.cc\<close>, \<open>ConsoleTest\<close> and \<open>ThreadTest\<close>; in \<open>bin\<close> the
  disassembler and the tools that print object files (\<open>disasm.c\<close>, \<open>d.c\<close>, \<open>out.c\<close>), and the histograms and traces of \<open>execute.c\<close>; the
  messages of the airport simulation; the user programs in \<open>test\<close>, which are inputs of the machine.
\<close>

end
